(* ===== verification/Go_Prelude.thy ===== *)
theory Go_Prelude
  imports Main "HOL-Library.AList" "HOL-Library.Sublist" "HOL-Library.Char_ord"
    "HOL-Library.List_Lexorder" "HOL-Library.Multiset"
begin

text \<open>
  The parts of Go and of its standard library that the Genesis sources use, and the
  generic lemmas the component theories share.

  \<^item> A Go string is its list of bytes (\<open>string\<close>): \<open>strings.TrimSpace\<close> recognises the
    UTF-8 encodings of all white-space runes, \<open>strings.ToLower\<close> the letters that a
    comparison with an ASCII constant can see.
  \<^item> \<open>time.Time\<close> is the number of nanoseconds since the zero time, so \<open>IsZero\<close> is
    equality with 0, \<open>Before\<close>, \<open>After\<close> and \<open>Equal\<close> are the order of the integers
    and \<open>Add\<close> is addition.
  \<^item> An \<open>error\<close> is a value of \<open>go_error\<close>; a fallible call returns \<open>go_error + 'a\<close>,
    a call that returns only an \<open>error\<close> returns \<open>go_error option\<close> (\<open>None\<close> is nil).
  \<^item> A Go map is an association list in the order its keys were first stored;
    what a \<open>range\<close> over it sees is a permutation of that list.
\<close>

named_theorems go_strings \<open>facts about the string functions of the Go library\<close>
named_theorems go_maps \<open>facts about Go maps kept as association lists\<close>
named_theorems validate_defs \<open>the definitions of the request validators\<close>

type_synonym time = int
type_synonym duration = int

abbreviation (input) zero_time :: time where "zero_time \<equiv> 0"

text \<open>\<open>time.Second\<close> and \<open>time.Minute\<close>.\<close>

definition time_Second :: duration where "time_Second = 1000000000"
definition time_Minute :: duration where "time_Minute = 60 * time_Second"

section \<open>Errors\<close>

text \<open>
  \<open>errors.New\<close> and \<open>fmt.Errorf\<close> without a wrapped error are \<open>Errorf\<close> (the format and
  its arguments), a package-level sentinel is \<open>Sentinel\<close>, and a format with a leading
  \<^verbatim>\<open>%w\<close> is \<open>Wrapped\<close> (the wrapped error and what the rest of the format adds).
\<close>

datatype go_error =
    Errorf string "string list"
  | Sentinel string
  | Wrapped go_error go_error

type_synonym 'a res = "go_error + 'a"

abbreviation (input) errors_New :: "string \<Rightarrow> go_error" where
  "errors_New msg \<equiv> Errorf msg []"

fun errors_Is :: "go_error \<Rightarrow> go_error \<Rightarrow> bool" where
  "errors_Is (Wrapped e d) target = (Wrapped e d = target \<or> errors_Is e target \<or> errors_Is d target)"
| "errors_Is e target = (e = target)"

lemma errors_Is_refl [simp]: "errors_Is e e"
  by (cases e) auto

definition bind_res :: "'a res \<Rightarrow> ('a \<Rightarrow> 'b res) \<Rightarrow> 'b res" where
  "bind_res m f = (case m of Inl e \<Rightarrow> Inl e | Inr x \<Rightarrow> f x)"

lemma bind_res_simps [simp]:
  "bind_res (Inl e) f = Inl e"
  "bind_res (Inr x) f = f x"
  by (simp_all add: bind_res_def)

lemma bind_res_Inr_iff: "bind_res m f = Inr y \<longleftrightarrow> (\<exists>x. m = Inr x \<and> f x = Inr y)"
  by (cases m) simp_all

text \<open>A call on a state that returned a value, not an error.\<close>

definition ok :: "'a res \<times> 's \<Rightarrow> bool" where "ok p \<longleftrightarrow> \<not> isl (fst p)"

lemma res_eq: "\<not> isl r \<Longrightarrow> r = Inr (projr r)"
  by (cases r) simp_all

lemma ok_eq: "ok p \<Longrightarrow> p = (Inr (projr (fst p)), snd p)"
  by (cases p) (simp add: ok_def res_eq)

text \<open>
  The idiom \<^verbatim>\<open>if err := f(); err != nil { return err }\<close> over a list of checks: the first
  error that occurs is the result.
\<close>

fun first_error :: "go_error option list \<Rightarrow> go_error option" where
  "first_error [] = None"
| "first_error (None # es) = first_error es"
| "first_error (Some e # es) = Some e"

lemma first_error_None_iff: "first_error es = None \<longleftrightarrow> (\<forall>e \<in> set es. e = None)"
  by (induction es rule: first_error.induct) auto

lemma first_error_cons [simp]:
  "(first_error (e # es) = None) \<longleftrightarrow> e = None \<and> first_error es = None"
  by (cases e) simp_all

section \<open>Strings\<close>

subsection \<open>\<open>strings.TrimSpace\<close>\<close>

text \<open>
  The number of bytes of the white-space rune a byte string starts with, 0 if it starts
  with none: the ASCII spaces, U+0085, U+00A0, U+1680, U+2000 to U+200A, U+2028, U+2029,
  U+202F, U+205F and U+3000.
\<close>

definition ascii_space :: "char \<Rightarrow> bool" where
  "ascii_space c \<longleftrightarrow> c \<in> set [CHR 0x20, CHR 0x09, CHR 0x0A, CHR 0x0B, CHR 0x0C, CHR 0x0D]"

definition wide_space :: "char \<Rightarrow> char \<Rightarrow> char \<Rightarrow> bool" where
  "wide_space b c d \<longleftrightarrow>
     (b = CHR 0xE1 \<and> c = CHR 0x9A \<and> d = CHR 0x80)
   \<or> (b = CHR 0xE2 \<and> c = CHR 0x80 \<and>
        (CHR 0x80 \<le> d \<and> d \<le> CHR 0x8A \<or> d = CHR 0xA8 \<or> d = CHR 0xA9 \<or> d = CHR 0xAF))
   \<or> (b = CHR 0xE2 \<and> c = CHR 0x81 \<and> d = CHR 0x9F)
   \<or> (b = CHR 0xE3 \<and> c = CHR 0x80 \<and> d = CHR 0x80)"

fun space_rune :: "string \<Rightarrow> nat" where
  "space_rune [] = 0"
| "space_rune (b # s) =
     (if ascii_space b then 1
      else if b < CHR 0x80 then 0
      else (case s of
          [] \<Rightarrow> 0
        | c # s' \<Rightarrow>
            if b = CHR 0xC2 \<and> (c = CHR 0x85 \<or> c = CHR 0xA0) then 2
            else (case s' of [] \<Rightarrow> 0 | d # _ \<Rightarrow> if wide_space b c d then 3 else 0)))"

lemma space_rune_le: "space_rune s \<le> length s"
  by (cases s) (auto split: list.splits)

text \<open>The same at the end of the string: the last one, two or three bytes are the rune.\<close>

definition space_suffix :: "string \<Rightarrow> nat" where
  "space_suffix s =
     (let ends = (\<lambda>n. n \<le> length s \<and> space_rune (drop (length s - n) s) = n)
      in if ends 1 \<and> s \<noteq> [] then 1 else if ends 2 then 2 else if ends 3 then 3 else 0)"

lemma space_suffix_le: "space_suffix s \<le> length s"
  by (auto simp: space_suffix_def Let_def Suc_le_eq)

function trim_left :: "string \<Rightarrow> string" where
  "trim_left s = (if space_rune s = 0 then s else trim_left (drop (space_rune s) s))"
  by pat_completeness auto
termination
proof (relation "measure length")
  fix s :: string
  assume "space_rune s \<noteq> 0"
  with space_rune_le [of s] show "(drop (space_rune s) s, s) \<in> measure length" by auto
qed simp

function trim_right :: "string \<Rightarrow> string" where
  "trim_right s =
     (if space_suffix s = 0 then s else trim_right (take (length s - space_suffix s) s))"
  by pat_completeness auto
termination
proof (relation "measure length")
  fix s :: string
  assume "space_suffix s \<noteq> 0"
  with space_suffix_le [of s]
  show "(take (length s - space_suffix s) s, s) \<in> measure length" by auto
qed simp

declare trim_left.simps [simp del] trim_right.simps [simp del]

definition TrimSpace :: "string \<Rightarrow> string" where
  "TrimSpace s = trim_right (trim_left s)"

lemma trim_left_id: "space_rune s = 0 \<Longrightarrow> trim_left s = s"
  by (simp add: trim_left.simps)

lemma trim_right_id: "space_suffix s = 0 \<Longrightarrow> trim_right s = s"
  by (simp add: trim_right.simps)

lemma space_rune_trim_left: "space_rune (trim_left s) = 0"
  by (induction s rule: trim_left.induct) (metis trim_left.simps)

lemma space_suffix_trim_right: "space_suffix (trim_right s) = 0"
  by (induction s rule: trim_right.induct) (metis trim_right.simps)

lemma trim_right_prefix: "prefix (trim_right s) s"
proof (induction s rule: trim_right.induct)
  case (1 s)
  show ?case
  proof (cases "space_suffix s = 0")
    case True
    then show ?thesis by (simp add: trim_right_id)
  next
    case False
    with "1.IH" have "prefix (trim_right (take (length s - space_suffix s) s)) s"
      by (metis prefix_order.trans take_is_prefix)
    with False show ?thesis by (subst trim_right.simps) simp
  qed
qed

lemma space_rune_prefix: "prefix p s \<Longrightarrow> space_rune s = 0 \<Longrightarrow> space_rune p = 0"
  by (cases p; cases s) (auto simp: prefix_def split: list.splits if_splits)

lemma space_suffix_short:
  assumes "space_rune s = 0" and "s \<noteq> []"
  shows "space_suffix s < length s"
proof (rule ccontr)
  assume "\<not> ?thesis"
  with space_suffix_le [of s] have eq: "space_suffix s = length s" by simp
  with assms(2) have "space_suffix s \<noteq> 0" by simp
  then have "space_rune (drop (length s - space_suffix s) s) = space_suffix s"
    by (auto simp: space_suffix_def Let_def split: if_splits)
  with eq assms show False by simp
qed

lemma trim_right_nonempty: "space_rune s = 0 \<Longrightarrow> s \<noteq> [] \<Longrightarrow> trim_right s \<noteq> []"
proof (induction s rule: trim_right.induct)
  case (1 s)
  show ?case
  proof (cases "space_suffix s = 0")
    case True
    with 1 show ?thesis by (simp add: trim_right_id)
  next
    case False
    let ?t = "take (length s - space_suffix s) s"
    have "?t \<noteq> []" using space_suffix_short [OF "1.prems"] "1.prems"(2) by simp
    moreover have "space_rune ?t = 0" using space_rune_prefix [OF take_is_prefix "1.prems"(1)] .
    ultimately show ?thesis using "1.IH" [OF False] False by (subst trim_right.simps) simp
  qed
qed

lemma TrimSpace_idem [simp, go_strings]: "TrimSpace (TrimSpace s) = TrimSpace s"
proof -
  have "space_rune (TrimSpace s) = 0"
    unfolding TrimSpace_def
    by (rule space_rune_prefix [OF trim_right_prefix space_rune_trim_left])
  moreover have "space_suffix (TrimSpace s) = 0"
    unfolding TrimSpace_def by (rule space_suffix_trim_right)
  ultimately show ?thesis
    by (simp add: TrimSpace_def [of "TrimSpace s"] trim_left_id trim_right_id)
qed

lemma TrimSpace_Nil [simp, go_strings]: "TrimSpace [] = []"
  by (simp add: TrimSpace_def trim_left_id trim_right_id space_suffix_def)

text \<open>A string whose first and last bytes are ASCII and not spaces is its own trim.\<close>

definition plain_ends :: "string \<Rightarrow> bool" where
  "plain_ends s \<longleftrightarrow> s \<noteq> [] \<and> hd s < CHR 0x80 \<and> \<not> ascii_space (hd s) \<and>
     last s < CHR 0x80 \<and> \<not> ascii_space (last s)"

lemma space_suffix_plain:
  assumes "s \<noteq> []" and "last s < CHR 0x80" and "\<not> ascii_space (last s)"
  shows "space_suffix s = 0"
proof -
  obtain t c where s: "s = t @ [c]" using assms(1) by (cases s rule: rev_cases) auto
  from assms s have c: "c < CHR 0x80" "\<not> ascii_space c" by auto
  have wide: "\<not> wide_space a b c" for a b
    using c by (auto simp: wide_space_def)
  have two: "\<not> (c = CHR 0x85 \<or> c = CHR 0xA0)"
    using c by auto
  have "space_rune (drop (length s - Suc 0) s) \<noteq> Suc 0"
    using c by (simp add: s)
  moreover have "2 \<le> length s \<Longrightarrow> space_rune (drop (length s - 2) s) \<noteq> 2"
    using c two by (cases t rule: rev_cases) (auto simp: s)
  moreover have "3 \<le> length s \<Longrightarrow> space_rune (drop (length s - 3) s) \<noteq> 3"
    using c wide by (cases t rule: rev_cases; cases "butlast t" rule: rev_cases) (auto simp: s)
  ultimately show ?thesis by (auto simp: space_suffix_def Let_def)
qed

lemma TrimSpace_plain: "plain_ends s \<Longrightarrow> TrimSpace s = s"
  by (cases s) (auto simp: plain_ends_def TrimSpace_def trim_left_id trim_right_id
      space_suffix_plain)

subsection \<open>\<open>strings.ToLower\<close>, \<open>strings.HasPrefix\<close>, decimal numbers\<close>

text \<open>
  The ASCII letters, and the two code points outside ASCII whose lower case is an ASCII
  letter (U+212A, the Kelvin sign, and U+0130). Other non-ASCII letters are left as they
  are: no string with one in it equals an ASCII constant before or after the mapping.
\<close>

definition lower_char :: "char \<Rightarrow> char" where
  "lower_char c = (if CHR ''A'' \<le> c \<and> c \<le> CHR ''Z'' then char_of (of_char c + (32 :: nat)) else c)"

fun ToLower :: "string \<Rightarrow> string" where
  "ToLower [] = []"
| "ToLower (b # s) =
     (if b < CHR 0x80 then lower_char b # ToLower s
      else case s of
          [] \<Rightarrow> [b]
        | c # s' \<Rightarrow>
            if b = CHR 0xC4 \<and> c = CHR 0xB0 then CHR ''i'' # ToLower s'
            else (case s' of
                [] \<Rightarrow> b # ToLower s
              | d # s'' \<Rightarrow>
                  if b = CHR 0xE2 \<and> c = CHR 0x84 \<and> d = CHR 0xAA then CHR ''k'' # ToLower s''
                  else b # ToLower s))"

definition HasPrefix :: "string \<Rightarrow> string \<Rightarrow> bool" where
  "HasPrefix s p \<longleftrightarrow> take (length p) s = p"

definition TrimPrefix :: "string \<Rightarrow> string \<Rightarrow> string" where
  "TrimPrefix s p = (if HasPrefix s p then drop (length p) s else s)"

lemma HasPrefix_iff: "HasPrefix s p \<longleftrightarrow> (\<exists>t. s = p @ t)"
  by (metis HasPrefix_def append_eq_conv_conj append_take_drop_id)

text \<open>The verb \<^verbatim>\<open>%d\<close> of \<open>fmt\<close>.\<close>

fun show_nat :: "nat \<Rightarrow> string" where
  "show_nat n = (if n < 10 then [char_of (48 + n)] else show_nat (n div 10) @ [char_of (48 + n mod 10)])"

declare show_nat.simps [simp del]

definition show_int :: "int \<Rightarrow> string" where
  "show_int i = (if i < 0 then CHR ''-'' # show_nat (nat (- i)) else show_nat (nat i))"

section \<open>Go maps\<close>

type_synonym 'v go_map = "(string \<times> 'v) list"

abbreviation go_lookup :: "'v go_map \<Rightarrow> string \<Rightarrow> 'v option" where
  "go_lookup m k \<equiv> map_of m k"

abbreviation go_store :: "string \<Rightarrow> 'v \<Rightarrow> 'v go_map \<Rightarrow> 'v go_map" where
  "go_store k v m \<equiv> AList.update k v m"

text \<open>
  The values a \<open>range\<close> loop visits. \<open>ord\<close> is the iteration order of the runtime: the
  language leaves it open, so it is a parameter, and results that use it assume only that
  it permutes the keys.
\<close>

definition go_values :: "(string list \<Rightarrow> string list) \<Rightarrow> 'v go_map \<Rightarrow> 'v list" where
  "go_values ord m = List.map_filter (go_lookup m) (ord (map fst m))"

definition permutes_keys :: "(string list \<Rightarrow> string list) \<Rightarrow> bool" where
  "permutes_keys ord \<longleftrightarrow> (\<forall>xs. mset (ord xs) = mset xs)"

lemma permutes_keysD:
  assumes "permutes_keys ord"
  shows "mset (ord xs) = mset xs" and "set (ord xs) = set xs"
proof -
  show "mset (ord xs) = mset xs" using assms by (simp add: permutes_keys_def)
  then show "set (ord xs) = set xs" by (rule mset_eq_setD)
qed

lemma map_of_go_store [simp, go_maps]: "go_lookup (go_store k v m) = (go_lookup m)(k \<mapsto> v)"
  by (rule update_conv')

lemma distinct_go_store [simp, go_maps]: "distinct (map fst m) \<Longrightarrow> distinct (map fst (go_store k v m))"
  by (rule distinct_update)

lemma fst_set_go_store [simp, go_maps]: "fst ` set (go_store k v m) = insert k (fst ` set m)"
  by (metis dom_map_of_conv_image_fst dom_fun_upd map_of_go_store option.distinct(1))

lemma set_go_values:
  assumes "permutes_keys ord"
  shows "set (go_values ord m) = ran (go_lookup m)"
proof
  show "set (go_values ord m) \<subseteq> ran (go_lookup m)"
    by (auto simp: go_values_def map_filter_def ran_def)
  show "ran (go_lookup m) \<subseteq> set (go_values ord m)"
  proof
    fix v assume "v \<in> ran (go_lookup m)"
    then obtain k where k: "go_lookup m k = Some v" by (auto simp: ran_def)
    then have "k \<in> set (ord (map fst m))"
      using permutes_keysD(2) [OF assms] by (force dest: map_of_SomeD)
    with k show "v \<in> set (go_values ord m)"
      by (force simp: go_values_def map_filter_def)
  qed
qed

lemma mset_map_filter: "mset xs = mset ys \<Longrightarrow> mset (List.map_filter f xs) = mset (List.map_filter f ys)"
  by (simp add: map_filter_def)

lemma map_filter_keys:
  assumes "distinct (map fst m)"
  shows "List.map_filter (go_lookup m) (map fst m) = map snd m"
proof -
  have "filter (\<lambda>x. go_lookup m x \<noteq> None) (map fst m) = map fst m"
    by (simp add: filter_id_conv map_of_eq_None_iff)
  moreover have "map (\<lambda>p. the (go_lookup m (fst p))) m = map snd m"
    using assms by (intro map_cong) auto
  ultimately show ?thesis unfolding map_filter_def by (simp add: comp_def)
qed

lemma mset_go_values:
  assumes "permutes_keys ord" and "distinct (map fst m)"
  shows "mset (go_values ord m) = mset (map snd m)"
proof -
  have "mset (go_values ord m) = mset (List.map_filter (go_lookup m) (map fst m))"
    unfolding go_values_def by (rule mset_map_filter [OF permutes_keysD(1) [OF assms(1)]])
  then show ?thesis by (simp add: map_filter_keys [OF assms(2)])
qed

text \<open>Counting over a map: a value stored under a new key is counted once more.\<close>

lemma count_go_values:
  assumes "permutes_keys ord" and "distinct (map fst m)"
  shows "length (filter P (go_values ord m)) = length (filter P (map snd m))"
  using mset_go_values [OF assms] by (metis mset_filter size_mset)

lemma go_store_new: "k \<notin> fst ` set m \<Longrightarrow> go_store k v m = m @ [(k, v)]"
  by (induction m) auto

lemma ran_go_store:
  "ran (go_lookup (go_store k v m)) \<subseteq> insert v (ran (go_lookup m))"
  by (auto simp: ran_def)

section \<open>Sequences\<close>

lemma find_SomeD: "find P xs = Some x \<Longrightarrow> x \<in> set xs \<and> P x"
  by (auto simp: find_Some_iff)

lemma find_NoneD: "find P xs = None \<Longrightarrow> x \<in> set xs \<Longrightarrow> \<not> P x"
  by (auto simp: find_None_iff)

lemma find_key_iff:
  "distinct (map f xs) \<Longrightarrow> find (\<lambda>x. f x = i) xs = Some y \<longleftrightarrow> y \<in> set xs \<and> f y = i"
  by (induction xs) auto

text \<open>
  The loop that trims the entries of a list, drops the blank ones and keeps the first of
  equal ones; \<open>seen\<close> is the set it fills.
\<close>

fun trim_dedup_loop :: "string list \<Rightarrow> string list \<Rightarrow> string list \<Rightarrow> string list" where
  "trim_dedup_loop seen normalized [] = normalized"
| "trim_dedup_loop seen normalized (entry # entries) =
     (let entry = TrimSpace entry
      in if entry = [] then trim_dedup_loop seen normalized entries
         else if entry \<in> set seen then trim_dedup_loop seen normalized entries
         else trim_dedup_loop (entry # seen) (normalized @ [entry]) entries)"

definition trim_dedup :: "string list \<Rightarrow> string list" where
  "trim_dedup entries = trim_dedup_loop [] [] entries"

lemma set_trim_dedup_loop:
  "set normalized = set seen \<Longrightarrow>
     set (trim_dedup_loop seen normalized es) = set normalized \<union> (TrimSpace ` set es - {[]})"
  by (induction seen normalized es rule: trim_dedup_loop.induct) (auto simp: Let_def)

lemma set_trim_dedup [simp]: "set (trim_dedup es) = TrimSpace ` set es - {[]}"
  by (simp add: trim_dedup_def set_trim_dedup_loop)

lemma distinct_trim_dedup_loop:
  "set normalized = set seen \<Longrightarrow> distinct normalized \<Longrightarrow> distinct (trim_dedup_loop seen normalized es)"
  by (induction seen normalized es rule: trim_dedup_loop.induct) (auto simp: Let_def)

lemma distinct_trim_dedup [simp]: "distinct (trim_dedup es)"
  by (simp add: trim_dedup_def distinct_trim_dedup_loop)

lemma trim_dedup_loop_id:
  "distinct es \<Longrightarrow> set es \<inter> set seen = {} \<Longrightarrow> \<forall>e \<in> set es. TrimSpace e = e \<and> e \<noteq> [] \<Longrightarrow>
     trim_dedup_loop seen normalized es = normalized @ es"
  by (induction seen normalized es rule: trim_dedup_loop.induct) (auto simp: Let_def)

lemma trim_dedup_id: "distinct es \<Longrightarrow> \<forall>e \<in> set es. TrimSpace e = e \<and> e \<noteq> [] \<Longrightarrow> trim_dedup es = es"
  by (simp add: trim_dedup_def trim_dedup_loop_id)

text \<open>
  The projections of the kernel replay an event sequence from the left and stop at the
  first error.
\<close>

fun replay :: "('s \<Rightarrow> 'e \<Rightarrow> 's res) \<Rightarrow> 's \<Rightarrow> 'e list \<Rightarrow> 's res" where
  "replay step s [] = Inr s"
| "replay step s (e # es) = bind_res (step s e) (\<lambda>s'. replay step s' es)"

lemma replay_append: "replay step s (es @ fs) = bind_res (replay step s es) (\<lambda>s'. replay step s' fs)"
  by (induction step s es rule: replay.induct) (auto simp: bind_res_def split: sum.splits)

lemma replay_snoc: "replay step s (es @ [e]) = bind_res (replay step s es) (\<lambda>s'. step s' e)"
  by (simp add: replay_append) (auto simp: bind_res_def split: sum.splits)

lemma replay_skip:
  assumes "\<And>s e. e \<in> set fs \<Longrightarrow> step s e = Inr s"
  shows "replay step s (es @ fs) = replay step s es"
proof -
  have "replay step s' fs = Inr s'" for s'
    using assms by (induction fs) auto
  then show ?thesis by (auto simp: replay_append bind_res_def split: sum.splits)
qed

lemma replay_filter:
  assumes "\<And>s e. \<not> P e \<Longrightarrow> step s e = Inr s"
  shows "replay step s (filter P es) = replay step s es"
  using assms by (induction es arbitrary: s) (auto simp: bind_res_def split: sum.splits)

text \<open>The interface of a replayed projection: an invariant that every step keeps.\<close>

locale replayed =
  fixes step :: "'s \<Rightarrow> 'e \<Rightarrow> 's res"
    and init :: 's
    and inv :: "'s \<Rightarrow> bool"
  assumes inv_init: "inv init"
    and inv_step: "inv s \<Longrightarrow> step s e = Inr s' \<Longrightarrow> inv s'"
begin

lemma inv_replay_from: "inv s \<Longrightarrow> replay step s es = Inr s' \<Longrightarrow> inv s'"
  by (induction es arbitrary: s) (auto simp: bind_res_Inr_iff intro: inv_step)

lemma inv_replay: "replay step init es = Inr s \<Longrightarrow> inv s"
  by (rule inv_replay_from [OF inv_init])

end

text \<open>The stable order of a list that is already sorted by the key is the list itself.\<close>

lemma sort_key_snoc:
  assumes "sorted (map f xs)" and "\<forall>y \<in> set xs. f y \<le> f x"
  shows "sort_key f (xs @ [x]) = xs @ [x]"
proof (rule sort_key_id_if_sorted)
  show "sorted (map f (xs @ [x]))" using assms by (simp add: sorted_append)
qed

end
