(* ===== verification/Event_Types.thy ===== *)
theory Event_Types
  imports Go_Prelude
begin

text \<open>
  The facts the kernel stores: the payload structs of the components
  (\<^verbatim>\<open>work_types.go\<close>, \<^verbatim>\<open>memory_types.go\<close>, \<^verbatim>\<open>task_graph_types.go\<close>,
  \<^verbatim>\<open>authority/types.go\<close>, \<^verbatim>\<open>tool_types.go\<close>, \<^verbatim>\<open>jobruntime/types.go\<close>,
  \<^verbatim>\<open>agent_invocation_types.go\<close>, \<^verbatim>\<open>turn_types.go\<close>) and the event that carries them
  (\<^verbatim>\<open>event_types.go\<close>). A pointer field is an \<open>option\<close>. \<open>EventData\<close> keeps the payloads of
  the modelled components; an event of any other kind has all of them \<open>None\<close>.
\<close>

section \<open>Work\<close>

record WorkProjection =
  wk_WorkID :: string
  wk_SessionID :: string
  wk_Title :: string
  wk_SourceRef :: string
  wk_IdempotencyKey :: string
  wk_Status :: string
  wk_CreatedAt :: time
  wk_CancelAuthority :: string
  wk_CancelReason :: string
  wk_CancelEvidenceRef :: string
  wk_CanceledAt :: "time option"

section \<open>Memory candidates\<close>

record MemoryCandidateProjection =
  mc_CandidateID :: string
  mc_SessionID :: string
  mc_Text :: string
  mc_SourceRef :: string
  mc_Kind :: string
  mc_Scope :: string
  mc_AppliesWhen :: string
  mc_YieldsTo :: string
  mc_Strength :: string
  mc_Status :: string
  mc_CreatedAt :: time
  mc_ApprovalAuthority :: string
  mc_ApprovalReason :: string
  mc_ApprovalEvidenceRef :: string
  mc_ApprovedAt :: "time option"
  mc_RejectionAuthority :: string
  mc_RejectionReason :: string
  mc_RejectionEvidenceRef :: string
  mc_RejectedAt :: "time option"
  mc_SupersessionAuthority :: string
  mc_SupersessionReason :: string
  mc_SupersessionEvidenceRef :: string
  mc_ReplacementCandidateID :: string
  mc_SupersededAt :: "time option"
  mc_ForgetAuthority :: string
  mc_ForgetReason :: string
  mc_ForgetEvidenceRef :: string
  mc_ForgottenAt :: "time option"

section \<open>Task graphs\<close>

record TaskGraphNodeProjection =
  tn_NodeID :: string
  tn_InvocationID :: string
  tn_Title :: string
  tn_Description :: string
  tn_Status :: string
  tn_Reason :: string
  tn_EvidenceRefs :: "string list"
  tn_UpdatedAt :: time

record TaskGraphEdgeProjection =
  te_FromNodeID :: string
  te_ToNodeID :: string

record TaskGraphEventProjection =
  tv_GraphID :: string
  tv_SessionID :: string
  tv_Node :: "TaskGraphNodeProjection option"
  tv_Edge :: "TaskGraphEdgeProjection option"
  tv_CreatedAt :: time

section \<open>Approvals and operations\<close>

record ApprovalPolicySnapshot =
  ps_PermissionMode :: string
  ps_AuthorityPolicy :: string
  ps_SandboxProfile :: string
  ps_ApprovalPolicy :: string
  ps_WorkspaceRoot :: string
  ps_ExecutorAdapter :: string

record ApprovalEffectSummary =
  ef_Tool :: string
  ef_ExecutionKind :: string
  ef_SideEffect :: string
  ef_CWD :: string
  ef_CommandPreview :: string
  ef_TimeoutSec :: int

record ApprovalProjection =
  ap_ApprovalID :: string
  ap_SessionID :: string
  ap_TurnID :: string
  ap_ToolCallEventID :: string
  ap_OperationID :: string
  ap_Status :: string
  ap_Tool :: string
  ap_PolicySnapshot :: ApprovalPolicySnapshot
  ap_Effect :: ApprovalEffectSummary
  ap_RequestedAt :: time
  ap_ExpiresAt :: time
  ap_DecidedAt :: time
  ap_DecisionAuthority :: string
  ap_DecisionReason :: string
  ap_DecisionEvidenceRef :: string
  ap_BlockedReason :: string

record OperationProjection =
  op_OperationID :: string
  op_SessionID :: string
  op_TurnID :: string
  op_Tool :: string
  op_IdempotencyKey :: string
  op_Status :: string
  op_PermissionMode :: string
  op_AuthorityPolicy :: string
  op_SandboxProfile :: string
  op_ApprovalPolicy :: string
  op_CWD :: string
  op_Command :: string
  op_TimeoutSec :: int
  op_TimedOut :: bool
  op_TimeoutReason :: string
  op_Interrupted :: bool
  op_InterruptReason :: string
  op_ElapsedMs :: int
  op_ExitCode :: "int option"
  op_Stdout :: string
  op_Stderr :: string
  op_StdoutTruncated :: bool
  op_StderrTruncated :: bool
  op_StdoutOriginalBytes :: int
  op_StderrOriginalBytes :: int
  op_StdoutOmittedBytes :: int
  op_StderrOmittedBytes :: int
  op_OutputTruncation :: string
  op_BlockedReason :: string
  op_InfrastructureReason :: string
  op_StartedAt :: time
  op_EndedAt :: time

section \<open>Jobs\<close>

record JobProjection =
  jb_JobID :: string
  jb_SessionID :: string
  jb_TurnID :: string
  jb_Tool :: string
  jb_IdempotencyKey :: string
  jb_SourceOperationID :: string
  jb_ExecutorRef :: string
  jb_Status :: string
  jb_CWD :: string
  jb_Command :: string
  jb_TimeoutSec :: int
  jb_ExitCode :: "int option"
  jb_Stdout :: string
  jb_Stderr :: string
  jb_StdoutTruncated :: bool
  jb_StderrTruncated :: bool
  jb_Receipt :: string
  jb_FailureReason :: string
  jb_CancelReason :: string
  jb_StartedAt :: time
  jb_CompletedAt :: time
  jb_ToolCallEventID :: string

section \<open>Agent invocations and turns\<close>

record TokenUsage =
  us_InputTokens :: int
  us_OutputTokens :: int
  us_TotalTokens :: int
  us_CacheHitTokens :: int
  us_CacheMissTokens :: int

record FinalMessage =
  fm_Text :: string
  fm_Model :: string
  fm_Usage :: "TokenUsage option"

record TurnError =
  tr_Code :: string
  tr_Message :: string

record CapabilityGrant =
  cg_ToolNames :: "string list"

record AgentInvocationProjection =
  ai_InvocationID :: string
  ai_SessionID :: string
  ai_ParentRoleID :: string
  ai_ParentTurnID :: string
  ai_ParentInvocationID :: string
  ai_Principal :: string
  ai_AgentProfileRef :: string
  ai_ModelProfileID :: string
  ai_ProviderRoute :: string
  ai_CapabilityGrant :: CapabilityGrant
  ai_ContextScope :: string
  ai_ParentResultChannel :: string
  ai_Status :: string
  ai_IdempotencyKey :: string
  ai_AdmittedAt :: time

record AgentInvocationRunProjection =
  ar_InvocationID :: string
  ar_RunID :: string
  ar_SessionID :: string
  ar_Principal :: string
  ar_Status :: string
  ar_ModelInputKinds :: "string list"
  ar_Model :: string
  ar_Usage :: "TokenUsage option"
  ar_Final :: FinalMessage
  ar_Error :: "TurnError option"
  ar_IdempotencyKey :: string
  ar_StartedAt :: time
  ar_CompletedAt :: time

section \<open>Turns\<close>

record InputItem =
  ii_Type :: string
  ii_Text :: string

record ToolCallProjection =
  tc_ToolCallEventID :: string
  tc_ProviderToolCallID :: string
  tc_Tool :: string
  tc_Arguments :: string

record ToolResultProjection =
  tr_ToolCallEventID :: string
  tr_ProviderToolCallID :: string
  tr_Tool :: string
  tr_ForEventID :: string
  tr_Status :: string
  tr_Content :: string

record BudgetLeaseProjection =
  blp_ModelToolRoundBudget :: int
  blp_ModelToolRoundCeiling :: int

record TurnPauseProjection =
  tp_SessionID :: string
  tp_TurnID :: string
  tp_Phase :: string
  tp_WaitReason :: string
  tp_Reason :: string
  tp_RoundBudget :: int
  tp_BudgetLease :: BudgetLeaseProjection
  tp_CompletedToolRounds :: int
  tp_PausedAt :: time

record TurnInterruptionProjection =
  ti_SessionID :: string
  ti_TurnID :: string
  ti_Phase :: string
  ti_TerminalOutcome :: string
  ti_TerminalCause :: string
  ti_Reason :: string
  ti_InterruptedAt :: time

text \<open>What a step of the model stores: its attempts, its reasoning, its accounting and the observations it was shown.\<close>

record ProviderAttemptProjection =
  pa_RoundIndex :: nat
  pa_Attempt :: nat
  pa_MaxAttempts :: nat
  pa_Status :: string
  pa_ReasonCode :: string
  pa_Message :: string
  pa_Retryable :: bool
  pa_RepairKind :: string

record ReasoningMessage =
  rm_ReasoningID :: string
  rm_TurnID :: string
  rm_Text :: string
  rm_AdapterID :: string
  rm_AdapterProfileID :: string
  rm_CreatedAt :: time

record PrefixFingerprintComponents =
  pf_Fingerprint :: string
  pf_SystemInstruction :: string
  pf_SkillIndex :: string
  pf_ToolManifest :: string
  pf_AdapterBinding :: string

record ModelContextAccountingProjection =
  ma_RoundIndex :: nat
  ma_Model :: string
  ma_PrefixFingerprint :: string
  ma_PrefixComponents :: PrefixFingerprintComponents
  ma_PrefixChangeReasons :: "string list"
  ma_ModelInputKinds :: "string list"
  ma_HistoryTurnIDs :: "string list"
  ma_CompactedThroughTurnID :: string
  ma_ToolRoundCount :: nat
  ma_ToolCallCount :: nat
  ma_ToolResultCount :: nat
  ma_ProcessedInputTokens :: int
  ma_ProcessedInputTokenSource :: string
  ma_Usage :: "TokenUsage option"

record KernelObservationDeliveryProjection =
  kd_ObservationEventIDs :: "string list"
  kd_ModelInputKind :: string

text \<open>What the compaction of a session's context stores.\<close>

record ContextCacheStabilityProjection =
  cs_Samples :: int
  cs_CacheHitTokens :: int
  cs_CacheMissTokens :: int
  cs_HitRatePermille :: int
  cs_FirstHitRatePermille :: int
  cs_LatestHitRatePermille :: int
  cs_LatestCacheHitTokens :: int
  cs_LatestCacheMissTokens :: int
  cs_Trend :: string

record ContextCompactionProjection =
  cc_Trigger :: string
  cc_Status :: string
  cc_Summary :: string
  cc_CompactedThroughTurnID :: string
  cc_CompactedTurnCount :: int
  cc_SourceInputTokens :: int
  cc_SourceUsage :: "TokenUsage option"
  cc_CacheStability :: "ContextCacheStabilityProjection option"
  cc_FailureReason :: string
  cc_PreviousFailureReason :: string
  cc_DeferredReason :: string
  cc_RetryAfterCompletedTurns :: int
  cc_BackoffRemainingTurns :: int
  cc_ConsecutiveCompletedCompactions :: int
  cc_Model :: string
  cc_Usage :: "TokenUsage option"

section \<open>Stored events\<close>

record EventData =
  ed_IdempotencyKey :: string
  ed_InputItems :: "InputItem list"
  ed_ToolCall :: "ToolCallProjection option"
  ed_ToolResult :: "ToolResultProjection option"
  ed_ProviderAttempt :: "ProviderAttemptProjection option"
  ed_ModelContextAccounting :: "ModelContextAccountingProjection option"
  ed_Reasoning :: "ReasoningMessage option"
  ed_Final :: "FinalMessage option"
  ed_TurnPause :: "TurnPauseProjection option"
  ed_TurnInterruption :: "TurnInterruptionProjection option"
  ed_TurnError :: "TurnError option"
  ed_Operation :: "OperationProjection option"
  ed_Job :: "JobProjection option"
  ed_KernelObservationDelivery :: "KernelObservationDeliveryProjection option"
  ed_ContextCompaction :: "ContextCompactionProjection option"
  ed_Approval :: "ApprovalProjection option"
  ed_Work :: "WorkProjection option"
  ed_AgentInvocation :: "AgentInvocationProjection option"
  ed_AgentInvocationRun :: "AgentInvocationRunProjection option"
  ed_MemoryCandidate :: "MemoryCandidateProjection option"
  ed_ReplacementMemoryCandidate :: "MemoryCandidateProjection option"
  ed_TaskGraph :: "TaskGraphEventProjection option"

definition no_data :: EventData where
  "no_data = \<lparr> ed_IdempotencyKey = [], ed_InputItems = [], ed_ToolCall = None, ed_ToolResult = None,
     ed_ProviderAttempt = None, ed_ModelContextAccounting = None, ed_Reasoning = None,
     ed_Final = None, ed_TurnPause = None, ed_TurnInterruption = None, ed_TurnError = None,
     ed_Operation = None, ed_Job = None, ed_KernelObservationDelivery = None, ed_ContextCompaction = None, ed_Approval = None, ed_Work = None,
     ed_AgentInvocation = None, ed_AgentInvocationRun = None, ed_MemoryCandidate = None,
     ed_ReplacementMemoryCandidate = None, ed_TaskGraph = None \<rparr>"

record StoredEvent =
  ev_EventID :: string
  ev_SessionID :: string
  ev_TurnID :: string
  ev_OperationID :: string
  ev_JobID :: string
  ev_WorkID :: string
  ev_CandidateID :: string
  ev_ApprovalID :: string
  ev_SandboxReadinessID :: string
  ev_Type :: string
  ev_CreatedAt :: time
  ev_Data :: EventData

text \<open>The zero value of the struct: a composite literal sets the named fields of it.\<close>

definition no_event :: StoredEvent where
  "no_event = \<lparr> ev_EventID = [], ev_SessionID = [], ev_TurnID = [], ev_OperationID = [],
     ev_JobID = [], ev_WorkID = [], ev_CandidateID = [], ev_ApprovalID = [],
     ev_SandboxReadinessID = [], ev_Type = [], ev_CreatedAt = 0, ev_Data = no_data \<rparr>"

lemma no_data_simps [simp]:
  "ed_IdempotencyKey no_data = []" "ed_InputItems no_data = []" "ed_ToolCall no_data = None"
  "ed_ToolResult no_data = None" "ed_Final no_data = None" "ed_TurnPause no_data = None"
  "ed_TurnInterruption no_data = None" "ed_TurnError no_data = None"
  "ed_ProviderAttempt no_data = None" "ed_ModelContextAccounting no_data = None" "ed_Reasoning no_data = None"
  "ed_KernelObservationDelivery no_data = None" "ed_ContextCompaction no_data = None"
  "ed_Operation no_data = None" "ed_Job no_data = None" "ed_Approval no_data = None"
  "ed_Work no_data = None" "ed_AgentInvocation no_data = None"
  "ed_AgentInvocationRun no_data = None" "ed_MemoryCandidate no_data = None"
  "ed_ReplacementMemoryCandidate no_data = None" "ed_TaskGraph no_data = None"
  by (simp_all add: no_data_def)

lemma no_event_simps [simp]:
  "ev_EventID no_event = []" "ev_SessionID no_event = []" "ev_TurnID no_event = []"
  "ev_OperationID no_event = []" "ev_JobID no_event = []" "ev_WorkID no_event = []"
  "ev_CandidateID no_event = []" "ev_ApprovalID no_event = []"
  "ev_SandboxReadinessID no_event = []" "ev_Type no_event = []" "ev_CreatedAt no_event = 0"
  "ev_Data no_event = no_data"
  by (simp_all add: no_event_def)

end
