(* ===== verification/Kernel_Core.thy ===== *)
theory Kernel_Core
  imports Event_Types
begin

text \<open>
  What every component of the kernel uses: the ledger behind the \<open>Ledger\<close> interface
  (\<^verbatim>\<open>ledger.go\<close>), the clock and the identifiers (\<^verbatim>\<open>id.go\<close>), \<open>appendEvent\<close> and
  \<open>loadEvents\<close> with their error classification (\<^verbatim>\<open>kernel.go\<close>), and the validators of
  references and tokens (\<^verbatim>\<open>kernel_refs.go\<close>, \<^verbatim>\<open>shell.go\<close>).
\<close>

section \<open>The ledger\<close>

definition ErrLedgerUnwritable :: go_error where "ErrLedgerUnwritable = Sentinel ''ledger unwritable''"
definition ErrLedgerUnreadable :: go_error where "ErrLedgerUnreadable = Sentinel ''ledger unreadable''"
definition ErrLedgerCorrupt :: go_error where "ErrLedgerCorrupt = Sentinel ''ledger corrupt''"
definition ErrLedgerLocked :: go_error where "ErrLedgerLocked = Sentinel ''ledger locked''"
definition ErrLedgerUnavailable :: go_error where "ErrLedgerUnavailable = Sentinel ''ledger unavailable''"

lemmas ledger_errors =
  ErrLedgerUnwritable_def ErrLedgerUnreadable_def ErrLedgerCorrupt_def ErrLedgerLocked_def
  ErrLedgerUnavailable_def

text \<open>
  The rows of the ledger in the order they were inserted. The outside world (disk, lock
  file, database) may make any call fail: \<open>led_append_fault n\<close> is the failure of the
  append after \<open>n\<close> append attempts, \<open>led_load_fault n\<close> that of the loads between the
  \<open>n\<close>-th and the next attempt.
\<close>

record ledger =
  led_rows :: "StoredEvent list"
  led_attempts :: nat
  led_append_fault :: "nat \<Rightarrow> go_error option"
  led_load_fault :: "nat \<Rightarrow> go_error option"

text \<open>
  \<open>Load\<close> reads the rows ordered by creation time and, for equal times, by insertion.
  \<open>Append\<close> refuses an event identifier that is already stored.
\<close>

definition ledger_Load :: "ledger \<Rightarrow> StoredEvent list res" where
  "ledger_Load l =
     (case led_load_fault l (led_attempts l) of
        Some err \<Rightarrow> Inl err
      | None \<Rightarrow> Inr (sort_key ev_CreatedAt (led_rows l)))"

definition ledger_Append :: "StoredEvent \<Rightarrow> ledger \<Rightarrow> go_error option \<times> ledger" where
  "ledger_Append event l =
     (let l' = l\<lparr>led_attempts := Suc (led_attempts l)\<rparr>
      in case led_append_fault l (led_attempts l) of
           Some err \<Rightarrow> (Some err, l')
         | None \<Rightarrow>
             if ev_EventID event \<in> ev_EventID ` set (led_rows l)
             then (Some (Wrapped ErrLedgerUnwritable (errors_New ''UNIQUE constraint failed'')), l')
             else (None, l'\<lparr>led_rows := led_rows l @ [event]\<rparr>))"

section \<open>The kernel state\<close>

record ToolPolicy =
  tp_PermissionMode :: string
  tp_WorkspaceRoot :: string
  tp_SandboxProfile :: string
  tp_ApprovalPolicy :: string

record BudgetPolicy =
  bp_ModelToolRoundBudget :: int
  bp_ModelToolRoundCeiling :: int

record ShellTimeoutPolicy =
  sp_DefaultForegroundTimeoutSec :: int
  sp_ForegroundTimeoutCapSec :: int
  sp_ManagedJobThresholdSec :: int

record ToolSpec =
  ts_Name :: string
  ts_SideEffectLevel :: string
  ts_ExecutionKind :: string

text \<open>
  What a kernel is created with and never changes: the successive readings of its clock,
  the identifiers the ULID library yields from successive draws of entropy (\<open>None\<close> when
  it fails), the iteration orders of Go's maps, and the policies.
\<close>

record kernel_env =
  env_clock :: "nat \<Rightarrow> time"
  env_ulid :: "time \<Rightarrow> nat \<Rightarrow> string option"
  env_mapOrder :: "nat \<Rightarrow> string list \<Rightarrow> string list"
  env_toolPolicy :: ToolPolicy
  env_budgetPolicy :: BudgetPolicy
  env_shellTimeoutPolicy :: ShellTimeoutPolicy
  env_toolRegistry :: "ToolSpec go_map"

record kernel =
  k_env :: kernel_env
  k_ledger :: ledger
  k_ticks :: nat
  k_draws :: nat
  k_activeInvocationRuns :: "string list"

abbreviation k_rows :: "kernel \<Rightarrow> StoredEvent list" where
  "k_rows k \<equiv> led_rows (k_ledger k)"

definition clock :: "kernel \<Rightarrow> time \<times> kernel" where
  "clock k = (env_clock (k_env k) (k_ticks k), k\<lparr>k_ticks := Suc (k_ticks k)\<rparr>)"

text \<open>The zero time is 62135596800 seconds before the Unix epoch.\<close>

definition UnixNano :: "time \<Rightarrow> int" where
  "UnixNano t = t - 62135596800 * time_Second"

definition newID :: "string \<Rightarrow> time \<Rightarrow> kernel \<Rightarrow> string \<times> kernel" where
  "newID prfx now k =
     (let k' = k\<lparr>k_draws := Suc (k_draws k)\<rparr>
      in case env_ulid (k_env k) now (k_draws k) of
           None \<Rightarrow> (prfx @ ''_'' @ show_int (UnixNano now), k')
         | Some i \<Rightarrow> (prfx @ ''_'' @ i, k'))"

definition map_order :: "kernel \<Rightarrow> string list \<Rightarrow> string list" where
  "map_order k = env_mapOrder (k_env k) (k_ticks k)"

section \<open>Access to the ledger\<close>

definition wrapLedgerUnavailable :: "go_error \<Rightarrow> go_error" where
  "wrapLedgerUnavailable err =
     (if errors_Is err ErrLedgerUnavailable then err else Wrapped ErrLedgerUnavailable err)"

definition ledgerErrorCode :: "go_error \<Rightarrow> string" where
  "ledgerErrorCode err =
     (if errors_Is err ErrLedgerCorrupt then ''ledger_corrupt''
      else if errors_Is err ErrLedgerUnreadable then ''ledger_unreadable''
      else if errors_Is err ErrLedgerLocked then ''ledger_locked''
      else if errors_Is err ErrLedgerUnwritable then ''ledger_unwritable''
      else ''ledger_unavailable'')"

record ReadyCheck =
  rc_Readiness :: string
  rc_ReadinessReason :: string

definition ledger_Ready :: "ledger \<Rightarrow> ReadyCheck" where
  "ledger_Ready l =
     (case ledger_Load l of
        Inl err \<Rightarrow> \<lparr>rc_Readiness = ''not_ready'', rc_ReadinessReason = ledgerErrorCode err\<rparr>
      | Inr _ \<Rightarrow> \<lparr>rc_Readiness = ''ready'', rc_ReadinessReason = []\<rparr>)"

definition ensureLedgerReady :: "kernel \<Rightarrow> go_error option" where
  "ensureLedgerReady k =
     (let check = ledger_Ready (k_ledger k)
      in if rc_Readiness check = ''ready'' then None
         else if rc_ReadinessReason check = ''ledger_corrupt'' then Some (wrapLedgerUnavailable ErrLedgerCorrupt)
         else if rc_ReadinessReason check = ''ledger_unreadable'' then Some (wrapLedgerUnavailable ErrLedgerUnreadable)
         else if rc_ReadinessReason check = ''ledger_locked'' then Some (wrapLedgerUnavailable ErrLedgerLocked)
         else Some (wrapLedgerUnavailable ErrLedgerUnwritable))"

definition appendEvent :: "StoredEvent \<Rightarrow> kernel \<Rightarrow> go_error option \<times> kernel" where
  "appendEvent event k =
     (case ensureLedgerReady k of
        Some err \<Rightarrow> (Some err, k)
      | None \<Rightarrow>
          (case ledger_Append event (k_ledger k) of
             (Some err, l) \<Rightarrow> (Some (wrapLedgerUnavailable err), k\<lparr>k_ledger := l\<rparr>)
           | (None, l) \<Rightarrow> (None, k\<lparr>k_ledger := l\<rparr>)))"

definition loadEvents :: "kernel \<Rightarrow> StoredEvent list res" where
  "loadEvents k =
     (case ledger_Load (k_ledger k) of
        Inl err \<Rightarrow> Inl (wrapLedgerUnavailable err)
      | Inr events \<Rightarrow> Inr events)"

text \<open>
  The idiom \<^verbatim>\<open>if err := k.appendEvent(event); err != nil { return zero, err }; return x, nil\<close>
  with which the operations end.
\<close>

definition append_return :: "StoredEvent \<Rightarrow> 'a \<Rightarrow> kernel \<Rightarrow> 'a res \<times> kernel" where
  "append_return event x k =
     (case appendEvent event k of
        (Some err, k) \<Rightarrow> (Inl err, k)
      | (None, k) \<Rightarrow> (Inr x, k))"

section \<open>References, authorities and tokens\<close>

definition alnum_char :: "char \<Rightarrow> bool" where
  "alnum_char c \<longleftrightarrow> (CHR ''A'' \<le> c \<and> c \<le> CHR ''Z'') \<or> (CHR ''a'' \<le> c \<and> c \<le> CHR ''z'') \<or>
     (CHR ''0'' \<le> c \<and> c \<le> CHR ''9'')"

text \<open>\<^verbatim>\<open>[A-Za-z0-9][A-Za-z0-9._:/-]{0,190}\<close>\<close>

definition ref_body :: "string \<Rightarrow> bool" where
  "ref_body s \<longleftrightarrow> (case s of [] \<Rightarrow> False
     | c # cs \<Rightarrow> alnum_char c \<and> length cs \<le> 190 \<and>
         list_all (\<lambda>d. alnum_char d \<or> d \<in> set ''._:/-'') cs)"

definition kernelRefPattern :: "string \<Rightarrow> bool" where
  "kernelRefPattern s \<longleftrightarrow>
     list_ex (\<lambda>p. HasPrefix s (p @ '':'') \<and> ref_body (drop (length p + 1) s))
       [''turn'', ''review'', ''approval'', ''work'', ''operation'', ''memory'', ''event'',
        ''agent_profile'', ''parent_result'']"

definition kernelAuthorityPattern :: "string \<Rightarrow> bool" where
  "kernelAuthorityPattern s \<longleftrightarrow>
     list_ex (\<lambda>p. HasPrefix s (p @ '':'') \<and> ref_body (drop (length p + 1) s))
       [''runtime'', ''operator'', ''user'', ''daemon'', ''system'', ''application'']"

text \<open>\<^verbatim>\<open>^[A-Za-z0-9][A-Za-z0-9._:-]{0,127}$\<close>\<close>

definition kernelControlTokenPattern :: "string \<Rightarrow> bool" where
  "kernelControlTokenPattern s \<longleftrightarrow> (case s of [] \<Rightarrow> False
     | c # cs \<Rightarrow> alnum_char c \<and> length cs \<le> 127 \<and>
         list_all (\<lambda>d. alnum_char d \<or> d \<in> set ''._:-'') cs)"

definition validateKernelRef :: "string \<Rightarrow> string \<Rightarrow> go_error option" where
  "validateKernelRef field val =
     (if \<not> kernelRefPattern (TrimSpace val) then Some (Errorf ''%s must be a kernel ref'' [field])
      else None)"

definition validateKernelAuthority :: "string \<Rightarrow> string \<Rightarrow> go_error option" where
  "validateKernelAuthority field val =
     (if \<not> kernelAuthorityPattern (TrimSpace val)
      then Some (Errorf ''%s must be a kernel authority ref'' [field]) else None)"

definition validateKernelControlToken :: "string \<Rightarrow> string \<Rightarrow> go_error option" where
  "validateKernelControlToken field val =
     (if val = [] then None
      else if TrimSpace val \<noteq> val
      then Some (Errorf ''%s must not contain leading or trailing whitespace'' [field])
      else if \<not> kernelControlTokenPattern val
      then Some (Errorf (''%s may contain only letters, numbers, '.', '_', '-', or '' @ [CHR 0x27, CHR '':'', CHR 0x27]) [field])
      else None)"

definition validateKernelRefIfPresent :: "string \<Rightarrow> string \<Rightarrow> go_error option" where
  "validateKernelRefIfPresent field val =
     (if TrimSpace val = [] then None else validateKernelRef field val)"

definition validateIdempotencyKey :: "string \<Rightarrow> go_error option" where
  "validateIdempotencyKey key =
     (if key = [] then None
      else if TrimSpace key \<noteq> key
      then Some (errors_New ''idempotency_key must not contain leading or trailing whitespace'')
      else if length key > 128 then Some (errors_New ''idempotency_key must be 128 characters or fewer'')
      else if \<not> list_all (\<lambda>c. alnum_char c \<or> c \<in> set ''-_.:'') key
      then Some (errors_New (''idempotency_key may contain only letters, numbers, '.', '_', '-', or '' @ [CHR 0x27, CHR '':'', CHR 0x27]))
      else None)"

section \<open>The ledger interface\<close>

text \<open>
  What the components rely on: a failed append leaves the stored events as they are, a
  successful one adds exactly its event, and a load returns the stored events in time order
  unless the outside world makes it fail.
\<close>

locale event_ledger =
  fixes append :: "'e \<Rightarrow> 'l \<Rightarrow> go_error option \<times> 'l"
    and load :: "'l \<Rightarrow> 'e list res"
    and stored :: "'l \<Rightarrow> 'e list"
    and created :: "'e \<Rightarrow> time"
    and inv :: "'l \<Rightarrow> bool"
    and adm :: "'e \<Rightarrow> bool"
  assumes append_inv: "inv l \<Longrightarrow> adm e \<Longrightarrow> append e l = (r, l') \<Longrightarrow> inv l'"
    and append_failed: "inv l \<Longrightarrow> append e l = (Some err, l') \<Longrightarrow> stored l' = stored l"
    and append_done: "inv l \<Longrightarrow> adm e \<Longrightarrow> append e l = (None, l') \<Longrightarrow> stored l' = stored l @ [e]"
    and load_ordered: "inv l \<Longrightarrow> load l = Inr es \<Longrightarrow> es = sort_key created (stored l)"
begin

lemma append_keeps: "inv l \<Longrightarrow> adm e \<Longrightarrow> append e l = (r, l') \<Longrightarrow> x \<in> set (stored l) \<Longrightarrow> x \<in> set (stored l')"
  by (cases r) (auto simp: append_failed append_done)

lemma set_load: "inv l \<Longrightarrow> load l = Inr es \<Longrightarrow> set es = set (stored l)"
  by (auto dest!: load_ordered)

lemma sorted_load: "inv l \<Longrightarrow> load l = Inr es \<Longrightarrow> sorted (map created es)"
  by (auto dest!: load_ordered)

lemma load_timely:
  "inv l \<Longrightarrow> load l = Inr es \<Longrightarrow> sorted (map created (stored l)) \<Longrightarrow> es = stored l"
  by (auto dest!: load_ordered simp: sort_key_id_if_sorted)

end

interpretation sl: event_ledger ledger_Append ledger_Load led_rows ev_CreatedAt "\<lambda>_. True" "\<lambda>_. True"
proof
  show "led_rows l' = led_rows l" if "ledger_Append e l = (Some err, l')" for e l err l'
    using that by (auto simp: ledger_Append_def Let_def split: option.splits if_splits)
  show "led_rows l' = led_rows l @ [e]" if "ledger_Append e l = (None, l')" for e l l'
    using that by (auto simp: ledger_Append_def Let_def split: option.splits if_splits)
  show "es = sort_key ev_CreatedAt (led_rows l)" if "ledger_Load l = Inr es" for l es
    using that by (auto simp: ledger_Load_def split: option.splits)
qed simp

text \<open>
  What a client sees of a ledger: the result of each append, and of the load after it.
\<close>

fun ledger_trace :: "('e \<Rightarrow> 'l \<Rightarrow> go_error option \<times> 'l) \<Rightarrow> ('l \<Rightarrow> 'e list res) \<Rightarrow> 'e list \<Rightarrow> 'l \<Rightarrow>
    (go_error option \<times> 'e list res) list" where
  "ledger_trace app load [] l = []"
| "ledger_trace app load (e # es) l =
     (let (r, l') = app e l in (r, load l') # ledger_trace app load es l')"

text \<open>
  A ledger of stored events that accepts an identifier only once is, for a client, the
  abstract ledger with some pattern of faults.
\<close>

locale stored_event_ledger = event_ledger append load stored ev_CreatedAt inv adm
  for append :: "StoredEvent \<Rightarrow> 'l \<Rightarrow> go_error option \<times> 'l" and load stored inv adm +
  assumes append_new: "inv l \<Longrightarrow> append e l = (None, l') \<Longrightarrow> ev_EventID e \<notin> ev_EventID ` set (stored l)"
begin

fun after :: "StoredEvent list \<Rightarrow> 'l \<Rightarrow> nat \<Rightarrow> 'l" where
  "after es l 0 = l"
| "after es l (Suc n) = snd (append (es ! n) (after es l n))"

definition abstraction :: "StoredEvent list \<Rightarrow> 'l \<Rightarrow> nat \<Rightarrow> ledger" where
  "abstraction es l n = \<lparr>led_rows = stored (after es l n), led_attempts = n,
     led_append_fault = (\<lambda>i. fst (append (es ! i) (after es l i))),
     led_load_fault = (\<lambda>i. case load (after es l i) of Inl err \<Rightarrow> Some err | Inr _ \<Rightarrow> None)\<rparr>"

lemma after_inv:
  assumes "inv l" and "\<forall>e \<in> set es. adm e" and "n \<le> length es"
  shows "inv (after es l n)"
  using assms(3)
proof (induction n)
  case 0
  with assms(1) show ?case by simp
next
  case (Suc n)
  then have "inv (after es l n)" and "adm (es ! n)" using assms(2) by simp_all
  then show ?case using append_inv [of "after es l n" "es ! n"] by (metis after.simps(2) prod.collapse)
qed

lemma abstraction_append:
  assumes "inv l" and "\<forall>e \<in> set es. adm e" and "n < length es"
  shows "ledger_Append (es ! n) (abstraction es l n) = (fst (append (es ! n) (after es l n)), abstraction es l (Suc n))"
proof -
  define e where "e = es ! n"
  have adm: "adm e" using assms(2,3) by (simp add: e_def)
  note inv = after_inv [OF assms(1,2) order_less_imp_le [OF assms(3)]]
  have app: "append e (after es l n) = (fst (append e (after es l n)), after es l (Suc n))" by (simp add: e_def)
  show ?thesis
  proof (cases "fst (append e (after es l n))")
    case (Some err)
    with app have "stored (after es l (Suc n)) = stored (after es l n)" using append_failed [OF inv] by metis
    with Some show ?thesis by (simp add: ledger_Append_def abstraction_def e_def)
  next
    case None
    with app have "append e (after es l n) = (None, after es l (Suc n))" by simp
    from append_done [OF inv adm this] append_new [OF inv this] None show ?thesis
      by (simp add: ledger_Append_def abstraction_def e_def)
  qed
qed

lemma abstraction_load:
  assumes "inv l" and "\<forall>e \<in> set es. adm e" and "n \<le> length es"
  shows "ledger_Load (abstraction es l n) = load (after es l n)"
  using load_ordered [OF after_inv [OF assms]]
  by (auto simp: ledger_Load_def abstraction_def split: sum.splits)

lemma refines:
  assumes "inv l" and "\<forall>e \<in> set es. adm e"
  shows "\<exists>a. led_rows a = stored l \<and> ledger_trace append load es l = ledger_trace ledger_Append ledger_Load es a"
proof -
  have "ledger_trace append load (drop n es) (after es l n) =
      ledger_trace ledger_Append ledger_Load (drop n es) (abstraction es l n)" if "n \<le> length es" for n
    using that
  proof (induction "length es - n" arbitrary: n)
    case (Suc d)
    then have n: "n < length es" by simp
    then have drop: "drop n es = es ! n # drop (Suc n) es" by (simp add: Cons_nth_drop_Suc)
    have app: "append (es ! n) (after es l n) = (fst (append (es ! n) (after es l n)), after es l (Suc n))" by simp
    show ?case
      unfolding drop ledger_trace.simps abstraction_append [OF assms n]
      using Suc.hyps(1) [of "Suc n"] Suc.hyps(2) n abstraction_load [OF assms, of "Suc n"]
      by (subst app) (simp add: Let_def del: after.simps)
  qed simp
  from this [of 0] show ?thesis by (intro exI [of _ "abstraction es l 0"]) (simp add: abstraction_def)
qed

end

interpretation al: stored_event_ledger ledger_Append ledger_Load led_rows "\<lambda>_. True" "\<lambda>_. True"
  by unfold_locales (auto simp: ledger_Append_def Let_def split: option.splits if_splits)

section \<open>Kernel states and what an operation may do to them\<close>

text \<open>
  \<open>kernel_ext k k' es\<close>: the configuration of \<open>k'\<close> is that of \<open>k\<close>, its ledger holds the
  events of \<open>k\<close> followed by \<open>es\<close>, and its clock and entropy have only advanced.
\<close>

definition kernel_ext :: "kernel \<Rightarrow> kernel \<Rightarrow> StoredEvent list \<Rightarrow> bool" where
  "kernel_ext k k' es \<longleftrightarrow> k_env k' = k_env k \<and> k_rows k' = k_rows k @ es \<and>
     led_append_fault (k_ledger k') = led_append_fault (k_ledger k) \<and>
     led_load_fault (k_ledger k') = led_load_fault (k_ledger k) \<and>
     k_ticks k \<le> k_ticks k' \<and> k_draws k \<le> k_draws k'"

lemma kernel_ext_refl [simp, intro]: "kernel_ext k k []"
  by (simp add: kernel_ext_def)

lemma kernel_ext_trans: "kernel_ext k k' es \<Longrightarrow> kernel_ext k' k'' fs \<Longrightarrow> kernel_ext k k'' (es @ fs)"
  by (auto simp: kernel_ext_def)

lemma kernel_ext_trans_Nil: "kernel_ext k k' [] \<Longrightarrow> kernel_ext k' k'' es \<Longrightarrow> kernel_ext k k'' es"
  using kernel_ext_trans [of k k' "[]" k'' es] by simp

lemma kernel_ext_clock: "kernel_ext (snd (clock k)) k' es \<Longrightarrow> kernel_ext k k' es"
  by (auto simp: clock_def kernel_ext_def)

lemma kernel_ext_newID: "kernel_ext (snd (newID p t k)) k' es \<Longrightarrow> kernel_ext k k' es"
  by (auto simp: newID_def kernel_ext_def Let_def split: option.splits)

lemma kernel_ext_stamp1:
  "kernel_ext (snd (newID p t (snd (clock k)))) k' es \<Longrightarrow> kernel_ext k k' es"
  by (rule kernel_ext_clock, rule kernel_ext_newID)

lemma kernel_ext_stamp2:
  "kernel_ext (snd (newID p t (snd (newID q u (snd (clock k)))))) k' es \<Longrightarrow> kernel_ext k k' es"
  by (rule kernel_ext_stamp1, rule kernel_ext_newID)

lemma clock_simps [simp]:
  "k_env (snd (clock k)) = k_env k" "k_ledger (snd (clock k)) = k_ledger k"
  "k_draws (snd (clock k)) = k_draws k" "k_ticks (snd (clock k)) = Suc (k_ticks k)"
  "k_activeInvocationRuns (snd (clock k)) = k_activeInvocationRuns k"
  by (simp_all add: clock_def)

lemma newID_simps [simp]:
  "k_env (snd (newID p t k)) = k_env k" "k_ledger (snd (newID p t k)) = k_ledger k"
  "k_draws (snd (newID p t k)) = Suc (k_draws k)" "k_ticks (snd (newID p t k)) = k_ticks k"
  "k_activeInvocationRuns (snd (newID p t k)) = k_activeInvocationRuns k"
  by (simp_all add: newID_def Let_def split: option.splits)

lemma appendEvent_done:
  assumes "appendEvent e k = (None, k')"
  shows "kernel_ext k k' [e]" and "ev_EventID e \<notin> ev_EventID ` set (k_rows k)"
    and "k_ticks k' = k_ticks k" and "k_draws k' = k_draws k"
  using assms
  by (auto simp: appendEvent_def ledger_Append_def kernel_ext_def Let_def
      split: option.splits prod.splits if_splits)

lemma wrapLedgerUnavailable_Is [simp]: "errors_Is (wrapLedgerUnavailable err) ErrLedgerUnavailable"
  by (simp add: wrapLedgerUnavailable_def)

lemma ensureLedgerReady_Some: "ensureLedgerReady k = Some err \<Longrightarrow> errors_Is err ErrLedgerUnavailable"
  unfolding ensureLedgerReady_def Let_def by (metis option.distinct(1) option.inject wrapLedgerUnavailable_Is)

lemma appendEvent_failed:
  assumes "appendEvent e k = (Some err, k')"
  shows "kernel_ext k k' []" and "errors_Is err ErrLedgerUnavailable"
proof -
  show "kernel_ext k k' []"
    using assms
    by (auto simp: appendEvent_def ledger_Append_def kernel_ext_def Let_def
        split: option.splits prod.splits if_splits)
  show "errors_Is err ErrLedgerUnavailable"
    using assms
    by (auto simp: appendEvent_def dest: ensureLedgerReady_Some split: option.splits prod.splits)
qed

lemma appendEvent_ext: "appendEvent e k = (r, k') \<Longrightarrow> kernel_ext k k' (if r = None then [e] else [])"
  by (cases r) (auto dest: appendEvent_done appendEvent_failed)

lemma append_return_cases [consumes 1, case_names appended failed]:
  assumes "append_return e x k = (r, k')"
  obtains "r = Inr x" and "kernel_ext k k' [e]" and "ev_EventID e \<notin> ev_EventID ` set (k_rows k)"
      and "k_ticks k' = k_ticks k" and "k_draws k' = k_draws k"
  | err where "r = Inl err" and "kernel_ext k k' []" and "errors_Is err ErrLedgerUnavailable"
proof (cases "appendEvent e k")
  case (Pair o' k1)
  show ?thesis
  proof (cases o')
    case None
    with Pair assms have "r = Inr x" "k1 = k'" by (auto simp: append_return_def)
    with None Pair that(1) appendEvent_done [of e k k'] show ?thesis by simp
  next
    case (Some err)
    with Pair assms have "r = Inl err" "k1 = k'" by (auto simp: append_return_def)
    with Some Pair that(2) appendEvent_failed [of e k err k'] show ?thesis by simp
  qed
qed

lemma loadEvents_set: "loadEvents k = Inr es \<Longrightarrow> set es = set (k_rows k)"
  by (auto simp: loadEvents_def sl.set_load split: sum.splits)

text \<open>
  A projection that skips some events reads only the others, in the order of their times:
  appending skipped events leaves its result as it is.
\<close>

lemma loadEvents_filter:
  "loadEvents k = Inr es \<Longrightarrow> filter P es = sort_key ev_CreatedAt (filter P (k_rows k))"
  by (auto simp: loadEvents_def filter_sort dest!: sl.load_ordered [OF TrueI] split: sum.splits)

lemma replay_ext_skip:
  assumes "kernel_ext k k' fs" and "\<And>s e. \<not> P e \<Longrightarrow> step s e = Inr s" and "\<forall>e \<in> set fs. \<not> P e"
    and "loadEvents k = Inr es" and "loadEvents k' = Inr es'"
  shows "replay step s es' = replay step s es"
proof -
  have "filter P (k_rows k') = filter P (k_rows k)"
    using assms(1,3) by (simp add: kernel_ext_def)
  with loadEvents_filter [OF assms(4), of P] loadEvents_filter [OF assms(5), of P]
  have "filter P es' = filter P es" by simp
  moreover have "replay step s (filter P xs) = replay step s xs" for xs
    by (rule replay_filter [OF assms(2)])
  ultimately show ?thesis by metis
qed

text \<open>
  A ledger is timely when the creation times of its rows do not decrease and the next
  reading of the clock does not lie before them. On a timely ledger \<open>Load\<close> returns the
  rows in the order they were appended.
\<close>

definition timely :: "kernel \<Rightarrow> bool" where
  "timely k \<longleftrightarrow> mono (env_clock (k_env k)) \<and> sorted (map ev_CreatedAt (k_rows k)) \<and>
     (\<forall>e \<in> set (k_rows k). ev_CreatedAt e \<le> env_clock (k_env k) (k_ticks k))"

lemma loadEvents_timely: "timely k \<Longrightarrow> loadEvents k = Inr es \<Longrightarrow> es = k_rows k"
  by (auto simp: loadEvents_def timely_def sl.load_timely split: sum.splits)

lemma env_clock_mono:
  "timely k \<Longrightarrow> kernel_ext k k' es \<Longrightarrow>
     env_clock (k_env k) (k_ticks k) \<le> env_clock (k_env k) (k_ticks k')"
  by (simp add: timely_def kernel_ext_def mono_def)

lemma timely_ext:
  assumes k: "timely k" and ext: "kernel_ext k k' es"
    and es: "sorted (map ev_CreatedAt es)"
    and low: "\<And>e. e \<in> set es \<Longrightarrow> env_clock (k_env k) (k_ticks k) \<le> ev_CreatedAt e"
    and high: "\<And>e. e \<in> set es \<Longrightarrow> ev_CreatedAt e \<le> env_clock (k_env k) (k_ticks k')"
  shows "timely k'"
proof -
  have old: "ev_CreatedAt x \<le> env_clock (k_env k) (k_ticks k)" if "x \<in> set (k_rows k)" for x
    using k that by (simp add: timely_def)
  have "sorted (map ev_CreatedAt (k_rows k @ es))"
    using k es order_trans [OF old low] by (auto simp: timely_def sorted_append)
  moreover have "ev_CreatedAt x \<le> env_clock (k_env k) (k_ticks k')"
    if "x \<in> set (k_rows k @ es)" for x
    using that high order_trans [OF old env_clock_mono [OF k ext]] by auto
  ultimately show ?thesis
    using k ext by (simp add: timely_def kernel_ext_def)
qed

corollary timely_ext_Nil: "timely k \<Longrightarrow> kernel_ext k k' [] \<Longrightarrow> timely k'"
  by (erule timely_ext) auto

corollary timely_ext_one:
  assumes "timely k" and "kernel_ext k k' [e]" and "ev_CreatedAt e = fst (clock k)"
  shows "timely k'"
  using assms env_clock_mono [OF assms(1,2)] by (auto intro!: timely_ext [OF assms(1,2)] simp: clock_def)

section \<open>Fresh identifiers\<close>

text \<open>
  What the kernel relies on of the ULID library: it yields an identifier, which has no
  underscore in it, and distinct draws of entropy yield distinct identifiers.
\<close>

definition ulid_unique :: "kernel_env \<Rightarrow> bool" where
  "ulid_unique env \<longleftrightarrow>
     (\<forall>t n. \<exists>u. env_ulid env t n = Some u \<and> CHR ''_'' \<notin> set u) \<and>
     (\<forall>t n t' n'. env_ulid env t n = env_ulid env t' n' \<longrightarrow> n = n')"

text \<open>The identifiers a kernel may have handed out so far.\<close>

definition allocated :: "kernel \<Rightarrow> string set" where
  "allocated k = {i. \<exists>p t n u. n < k_draws k \<and> env_ulid (k_env k) t n = Some u \<and> i = p @ ''_'' @ u}"

lemma after_underscore_inj:
  assumes "p @ c # u = p' @ c # u'" and "c \<notin> set u" and "c \<notin> set u'"
  shows "u = u'"
proof -
  have split: "takeWhile (\<lambda>x. x \<noteq> c) (rev v @ c # w) = rev v" if "c \<notin> set v" for v w
    using that by (induction v rule: rev_induct) auto
  from assms(1) have "rev (p @ c # u) = rev (p' @ c # u')" by (rule arg_cong)
  then have "rev u @ c # rev p = rev u' @ c # rev p'" by simp
  with split [OF assms(2), of "rev p"] split [OF assms(3), of "rev p'"] show ?thesis
    by (metis rev_rev_ident)
qed

lemma ulid_some:
  assumes "ulid_unique env"
  obtains u where "env_ulid env t n = Some u" and "CHR ''_'' \<notin> set u"
  using assms unfolding ulid_unique_def by blast

lemma newID_fresh: "ulid_unique (k_env k) \<Longrightarrow> fst (newID p t k) \<notin> allocated k"
proof
  assume uniq: "ulid_unique (k_env k)" and "fst (newID p t k) \<in> allocated k"
  then obtain p' t' n u' where n: "n < k_draws k" "env_ulid (k_env k) t' n = Some u'"
    "fst (newID p t k) = p' @ ''_'' @ u'"
    by (auto simp: allocated_def)
  obtain u where u: "env_ulid (k_env k) t (k_draws k) = Some u" "CHR ''_'' \<notin> set u"
    by (rule ulid_some [OF uniq])
  have "CHR ''_'' \<notin> set u'"
    by (rule ulid_some [OF uniq, of t' n]) (use n(2) in simp)
  with n(3) u have "u = u'"
    by (auto simp: newID_def dest: after_underscore_inj)
  with u n(2) uniq have "n = k_draws k" by (metis ulid_unique_def)
  with n(1) show False by simp
qed

lemma newID_allocated: "ulid_unique (k_env k) \<Longrightarrow> fst (newID p t k) \<in> allocated (snd (newID p t k))"
  by (rule ulid_some [of "k_env k" t "k_draws k"]) (auto simp: newID_def allocated_def)

lemma newID_nonempty [simp]: "fst (newID p t k) \<noteq> []"
  by (simp add: newID_def Let_def split: option.splits)

lemma allocated_mono: "k_env k' = k_env k \<Longrightarrow> k_draws k \<le> k_draws k' \<Longrightarrow> allocated k \<subseteq> allocated k'"
  unfolding allocated_def by (auto intro: order_less_le_trans)

lemma allocated_ext: "kernel_ext k k' es \<Longrightarrow> allocated k \<subseteq> allocated k'"
  by (rule allocated_mono) (auto simp: kernel_ext_def)

lemma allocated_clock [simp]: "allocated (snd (clock k)) = allocated k"
  by (simp add: allocated_def)

text \<open>
  The environments the results below are about: fresh identifiers, and map iterations that
  visit every key.
\<close>

definition env_ok :: "kernel_env \<Rightarrow> bool" where
  "env_ok env \<longleftrightarrow> ulid_unique env \<and> (\<forall>n. permutes_keys (env_mapOrder env n))"

lemma env_ok_ext: "kernel_ext k k' es \<Longrightarrow> env_ok (k_env k') \<longleftrightarrow> env_ok (k_env k)"
  by (simp add: kernel_ext_def)

lemma env_ok_ulid: "env_ok (k_env k) \<Longrightarrow> ulid_unique (k_env k)"
  by (simp add: env_ok_def)

lemma env_ok_order: "env_ok (k_env k) \<Longrightarrow> permutes_keys (map_order k)"
  by (simp add: env_ok_def map_order_def)

section \<open>Logs of keyed facts\<close>

text \<open>
  The interface of a projection whose events carry facts with a key, when the log holds at
  most one fact per key: the projection never fails and holds exactly the facts of the log,
  in whatever order the log is read.
\<close>

locale keyed_log =
  fixes step :: "'v go_map \<Rightarrow> StoredEvent \<Rightarrow> 'v go_map res"
    and fact :: "StoredEvent \<Rightarrow> 'v option"
    and key :: "'v \<Rightarrow> string"
  assumes step_other: "fact e = None \<Longrightarrow> step m e = Inr m"
    and step_fact: "fact e = Some v \<Longrightarrow> key v \<noteq> [] \<Longrightarrow> go_lookup m (key v) \<in> {None, Some v} \<Longrightarrow>
      step m e = Inr (go_store (key v) v m)"
begin

definition facts :: "StoredEvent set \<Rightarrow> 'v set" where
  "facts E = {v. \<exists>e \<in> E. fact e = Some v}"

definition consistent :: "'v set \<Rightarrow> bool" where
  "consistent V \<longleftrightarrow> (\<forall>v \<in> V. key v \<noteq> [] \<and> (\<forall>w \<in> V. key v = key w \<longrightarrow> v = w))"

lemma facts_Un: "facts (E \<union> F) = facts E \<union> facts F"
  by (auto simp: facts_def)

lemma facts_none: "\<forall>e \<in> E. fact e = None \<Longrightarrow> facts E = {}"
  by (auto simp: facts_def)

lemma facts_single: "facts {e} = (case fact e of None \<Rightarrow> {} | Some v \<Rightarrow> {v})"
  by (auto simp: facts_def split: option.splits)

lemma consistent_insert:
  "consistent V \<Longrightarrow> key v \<noteq> [] \<Longrightarrow> key v \<notin> key ` V \<Longrightarrow> consistent (insert v V)"
  unfolding consistent_def by (metis image_eqI insert_iff)

lemma consistent_subset: "consistent V \<Longrightarrow> W \<subseteq> V \<Longrightarrow> consistent W"
  unfolding consistent_def by (meson subsetD)

lemma replay_facts:
  assumes "consistent (facts (set es))"
  shows "\<exists>m. replay step [] es = Inr m \<and> distinct (map fst m) \<and>
    (\<forall>i v. go_lookup m i = Some v \<longleftrightarrow> v \<in> facts (set es) \<and> key v = i)"
  using assms
proof (induction es rule: rev_induct)
  case Nil
  then show ?case by (simp add: facts_def)
next
  case (snoc e es)
  have facts: "facts (set (es @ [e])) = facts {e} \<union> facts (set es)"
    using facts_Un [of "{e}" "set es"] by simp
  with snoc.prems have "consistent (facts (set es))" by (metis consistent_subset Un_upper2)
  with snoc.IH obtain m where m: "replay step [] es = Inr m" "distinct (map fst m)"
    "\<forall>i v. go_lookup m i = Some v \<longleftrightarrow> v \<in> facts (set es) \<and> key v = i" by blast
  show ?case
  proof (cases "fact e")
    case None
    then have "step m e = Inr m" by (rule step_other)
    with m facts None show ?thesis by (simp add: replay_snoc facts_single)
  next
    case (Some v)
    with facts have ins: "facts (set (es @ [e])) = insert v (facts (set es))" by (simp add: facts_single)
    with snoc.prems have v: "key v \<noteq> []" "\<And>w. w \<in> facts (set es) \<Longrightarrow> key w = key v \<Longrightarrow> w = v"
      unfolding consistent_def by auto
    then have "go_lookup m (key v) \<in> {None, Some v}"
      using m(3) by (cases "go_lookup m (key v)") auto
    with Some v(1) have step: "step m e = Inr (go_store (key v) v m)" by (intro step_fact)
    moreover have "go_lookup (go_store (key v) v m) i = Some w \<longleftrightarrow> w \<in> insert v (facts (set es)) \<and> key w = i" for i w
      using m(3) v(2) by auto
    ultimately show ?thesis using m(1,2) ins by (simp add: replay_snoc)
  qed
qed

end

end
