(* ===== verification/Sample_Kernel.thy ===== *)
theory Sample_Kernel
  imports Kernel_Core
begin

text \<open>
  A concrete kernel with an empty ledger, on which the component theories evaluate their
  operations: a clock that advances by one nanosecond per reading, identifiers that count
  the draws of entropy, maps visited in storage order, and a ledger that never fails.
\<close>

definition sample_tool_policy :: ToolPolicy where
  "sample_tool_policy = \<lparr>tp_PermissionMode = ''default'', tp_WorkspaceRoot = ''/w'',
     tp_SandboxProfile = ''controlled_workspace'', tp_ApprovalPolicy = ''on_request''\<rparr>"

definition sample_env :: kernel_env where
  "sample_env = \<lparr>env_clock = (\<lambda>n. 1000 + int n), env_ulid = (\<lambda>t n. Some (replicate n CHR ''x'')),
     env_mapOrder = (\<lambda>n ks. ks), env_toolPolicy = sample_tool_policy,
     env_budgetPolicy = \<lparr>bp_ModelToolRoundBudget = 3, bp_ModelToolRoundCeiling = 8\<rparr>,
     env_shellTimeoutPolicy = \<lparr>sp_DefaultForegroundTimeoutSec = 30, sp_ForegroundTimeoutCapSec = 60,
       sp_ManagedJobThresholdSec = 60\<rparr>,
     env_toolRegistry = [(''read_resource'', \<lparr>ts_Name = ''read_resource'', ts_SideEffectLevel = ''read'',
       ts_ExecutionKind = ''resource''\<rparr>)]\<rparr>"

definition sample_kernel :: kernel where
  "sample_kernel = \<lparr>k_env = sample_env,
     k_ledger = \<lparr>led_rows = [], led_attempts = 0, led_append_fault = (\<lambda>n. None), led_load_fault = (\<lambda>n. None)\<rparr>,
     k_ticks = 0, k_draws = 0, k_activeInvocationRuns = []\<rparr>"

lemma sample_env_ok [simp]: "env_ok (k_env sample_kernel)"
proof -
  have "n = n'" if "replicate n c = replicate n' c" for n n' and c :: char
    using arg_cong [OF that, of length] by simp
  then show ?thesis
    by (auto simp: sample_kernel_def sample_env_def env_ok_def ulid_unique_def permutes_keys_def)
qed

lemma sample_rows [simp]: "k_rows sample_kernel = []"
  by (simp add: sample_kernel_def)

lemma sample_timely [simp]: "timely sample_kernel"
  by (auto simp: timely_def sample_kernel_def sample_env_def mono_def)

text \<open>The states the sample kernel goes through while its ledger never fails, in closed form.\<close>

definition sample_ledger :: "StoredEvent list \<Rightarrow> ledger" where
  "sample_ledger rows = \<lparr>led_rows = rows, led_attempts = length rows, led_append_fault = (\<lambda>n. None), led_load_fault = (\<lambda>n. None)\<rparr>"

definition sample_state :: "StoredEvent list \<Rightarrow> nat \<Rightarrow> nat \<Rightarrow> kernel" where
  "sample_state rows ticks draws = \<lparr>k_env = sample_env, k_ledger = sample_ledger rows, k_ticks = ticks, k_draws = draws,
     k_activeInvocationRuns = []\<rparr>"

lemma sample_state_simps [simp]:
  "k_env (sample_state rs t d) = sample_env"
  "k_rows (sample_state rs t d) = rs"
  "loadEvents (sample_state rs t d) = Inr (sort_key ev_CreatedAt rs)"
  "clock (sample_state rs t d) = (1000 + int t, sample_state rs (Suc t) d)"
  "newID p u (sample_state rs t d) = (p @ ''_'' @ replicate d CHR ''x'', sample_state rs t (Suc d))"
  "appendEvent e (sample_state rs t d) = (if ev_EventID e \<in> ev_EventID ` set rs
     then (Some (wrapLedgerUnavailable (Wrapped ErrLedgerUnwritable (errors_New ''UNIQUE constraint failed''))),
       (sample_state rs t d)\<lparr>k_ledger := (sample_ledger rs)\<lparr>led_attempts := Suc (length rs)\<rparr>\<rparr>)
     else (None, sample_state (rs @ [e]) t d))"
  by (simp_all add: sample_state_def sample_ledger_def loadEvents_def ledger_Load_def clock_def newID_def sample_env_def
      appendEvent_def ensureLedgerReady_def ledger_Ready_def ledger_Append_def Let_def)

lemma sample_kernel_state: "sample_kernel = sample_state [] 0 0"
  by (simp add: sample_kernel_def sample_state_def sample_ledger_def)

lemma sample_env_policy [simp]: "env_toolPolicy sample_env = sample_tool_policy"
  by (simp add: sample_env_def)

end
