(* ===== verification/Work_Registry.thy ===== *)
theory Work_Registry
  imports Sample_Kernel
begin

text \<open>
  The work registry (\<^verbatim>\<open>work.go\<close>, \<^verbatim>\<open>workregistry/types.go\<close>): submission with an
  idempotency key, cancellation, and the projection of the event log to the current works.
  The lemmas show that the log a kernel writes is always replayable, that a key names one
  work for good, and that a cancellation is final.
\<close>

section \<open>Model\<close>

record WorkSubmitRequest =
  ws_SessionID :: string
  ws_Title :: string
  ws_SourceRef :: string
  ws_IdempotencyKey :: string

record WorkCancelRequest =
  wc_CancelAuthority :: string
  wc_CancelReason :: string
  wc_CancelEvidenceRef :: string

definition WorkStatusOpen :: string where "WorkStatusOpen = ''open''"
definition WorkStatusCanceled :: string where "WorkStatusCanceled = ''canceled''"

definition ErrWorkNotFound :: go_error where "ErrWorkNotFound = Sentinel ''work not found''"

definition validateWorkRef :: "string \<Rightarrow> string \<Rightarrow> go_error option" where
  "validateWorkRef field val = validateKernelRef field val"

definition validateWorkAuthority :: "string \<Rightarrow> go_error option" where
  "validateWorkAuthority val = validateKernelAuthority ''cancel_authority'' val"

definition validateWorkSubmitRequest :: "WorkSubmitRequest \<Rightarrow> go_error option" where
  "validateWorkSubmitRequest req =
     (if TrimSpace (ws_SessionID req) = [] then Some (errors_New ''session_id is required'')
      else if TrimSpace (ws_Title req) = [] then Some (errors_New ''title is required'')
      else if TrimSpace (ws_SourceRef req) = [] then Some (errors_New ''source_ref is required'')
      else first_error
        [validateKernelControlToken ''session_id'' (ws_SessionID req),
         validateWorkRef ''source_ref'' (ws_SourceRef req),
         validateIdempotencyKey (ws_IdempotencyKey req)])"

definition validateWorkCancelRequest :: "WorkCancelRequest \<Rightarrow> go_error option" where
  "validateWorkCancelRequest req =
     (if TrimSpace (wc_CancelAuthority req) = [] then Some (errors_New ''cancel_authority is required'')
      else if TrimSpace (wc_CancelReason req) = [] then Some (errors_New ''cancel_reason is required'')
      else if TrimSpace (wc_CancelEvidenceRef req) = [] then Some (errors_New ''cancel_evidence_ref is required'')
      else first_error
        [validateWorkAuthority (wc_CancelAuthority req),
         validateWorkRef ''cancel_evidence_ref'' (wc_CancelEvidenceRef req)])"

definition sameWorkCancelDecision :: "WorkProjection \<Rightarrow> WorkProjection \<Rightarrow> bool" where
  "sameWorkCancelDecision left right \<longleftrightarrow>
     wk_CancelAuthority left = wk_CancelAuthority right \<and>
     wk_CancelReason left = wk_CancelReason right \<and>
     wk_CancelEvidenceRef left = wk_CancelEvidenceRef right"

text \<open>\<open>None\<close> is the argument \<open>exists = false\<close>.\<close>

definition mergeWorkProjection :: "WorkProjection option \<Rightarrow> WorkProjection \<Rightarrow> WorkProjection res" where
  "mergeWorkProjection current incoming =
     (case current of
        None \<Rightarrow> Inr incoming
      | Some cur \<Rightarrow>
          if wk_Status cur = WorkStatusCanceled then
            (if wk_Status incoming = WorkStatusCanceled \<and> \<not> sameWorkCancelDecision cur incoming
             then Inl (Errorf ''competing work cancel evidence for %s'' [wk_WorkID cur])
             else Inr cur)
          else if wk_Status incoming = WorkStatusCanceled then Inr incoming
          else Inr incoming)"

definition works_step :: "WorkProjection go_map \<Rightarrow> StoredEvent \<Rightarrow> WorkProjection go_map res" where
  "works_step ws event =
     (case ed_Work (ev_Data event) of
        None \<Rightarrow> Inr ws
      | Some payload \<Rightarrow>
          if ev_Type event \<in> {''work.submitted'', ''work.canceled''} then
            (let work = (if wk_WorkID payload = [] then payload\<lparr>wk_WorkID := ev_WorkID event\<rparr> else payload)
             in if wk_WorkID work = [] then Inl (Errorf ''%s event missing work id'' [ev_Type event])
                else bind_res (mergeWorkProjection (go_lookup ws (wk_WorkID work)) work)
                       (\<lambda>merged. Inr (go_store (wk_WorkID work) merged ws)))
          else Inr ws)"

definition works :: "kernel \<Rightarrow> WorkProjection go_map res" where
  "works k = bind_res (loadEvents k) (replay works_step [])"

definition workByIdempotencyKey :: "kernel \<Rightarrow> string \<Rightarrow> string \<Rightarrow> WorkProjection option res" where
  "workByIdempotencyKey k sessionID key =
     bind_res (works k) (\<lambda>ws.
       Inr (find (\<lambda>work. wk_SessionID work = sessionID \<and> wk_IdempotencyKey work = key)
              (go_values (map_order k) ws)))"

definition new_work :: "WorkSubmitRequest \<Rightarrow> string \<Rightarrow> string \<Rightarrow> string \<Rightarrow> time \<Rightarrow> WorkProjection" where
  "new_work req workID sessionID idempotencyKey now =
     \<lparr> wk_WorkID = workID, wk_SessionID = sessionID, wk_Title = TrimSpace (ws_Title req),
       wk_SourceRef = TrimSpace (ws_SourceRef req), wk_IdempotencyKey = idempotencyKey,
       wk_Status = WorkStatusOpen, wk_CreatedAt = now, wk_CancelAuthority = [],
       wk_CancelReason = [], wk_CancelEvidenceRef = [], wk_CanceledAt = None \<rparr>"

definition canceled_work :: "WorkCancelRequest \<Rightarrow> time \<Rightarrow> WorkProjection \<Rightarrow> WorkProjection" where
  "canceled_work req now work =
     work\<lparr> wk_Status := WorkStatusCanceled,
       wk_CancelAuthority := TrimSpace (wc_CancelAuthority req),
       wk_CancelReason := TrimSpace (wc_CancelReason req),
       wk_CancelEvidenceRef := TrimSpace (wc_CancelEvidenceRef req),
       wk_CanceledAt := Some now \<rparr>"

definition work_event :: "string \<Rightarrow> string \<Rightarrow> time \<Rightarrow> WorkProjection \<Rightarrow> StoredEvent" where
  "work_event eventID typ now work =
     no_event\<lparr> ev_EventID := eventID, ev_SessionID := wk_SessionID work,
       ev_WorkID := wk_WorkID work, ev_Type := typ, ev_CreatedAt := now,
       ev_Data := no_data\<lparr>ed_Work := Some work\<rparr> \<rparr>"

definition SubmitWork :: "WorkSubmitRequest \<Rightarrow> kernel \<Rightarrow> WorkProjection res \<times> kernel" where
  "SubmitWork req k =
     (case validateWorkSubmitRequest req of Some err \<Rightarrow> (Inl err, k) | None \<Rightarrow>
      let sessionID = TrimSpace (ws_SessionID req);
          idempotencyKey = TrimSpace (ws_IdempotencyKey req)
      in case (if idempotencyKey \<noteq> [] then workByIdempotencyKey k sessionID idempotencyKey else Inr None) of
           Inl err \<Rightarrow> (Inl err, k)
         | Inr (Some work) \<Rightarrow> (Inr work, k)
         | Inr None \<Rightarrow>
             let (now, k) = clock k;
                 (workID, k) = newID ''work'' now k;
                 work = new_work req workID sessionID idempotencyKey now;
                 (eventID, k) = newID ''evt'' now k
             in append_return (work_event eventID ''work.submitted'' now work) work k)"

definition Work :: "string \<Rightarrow> kernel \<Rightarrow> WorkProjection res" where
  "Work workID k =
     (let workID = TrimSpace workID
      in if workID = [] then Inl (errors_New ''work id is required'')
         else bind_res (works k) (\<lambda>ws.
           case go_lookup ws workID of None \<Rightarrow> Inl ErrWorkNotFound | Some work \<Rightarrow> Inr work))"

definition CancelWork :: "string \<Rightarrow> WorkCancelRequest \<Rightarrow> kernel \<Rightarrow> WorkProjection res \<times> kernel" where
  "CancelWork workID req k =
     (let workID = TrimSpace workID
      in if workID = [] then (Inl (errors_New ''work id is required''), k)
         else case validateWorkCancelRequest req of Some err \<Rightarrow> (Inl err, k) | None \<Rightarrow>
         case works k of Inl err \<Rightarrow> (Inl err, k) | Inr ws \<Rightarrow>
         case go_lookup ws workID of None \<Rightarrow> (Inl ErrWorkNotFound, k) | Some work \<Rightarrow>
         if wk_Status work = WorkStatusCanceled then (Inr work, k)
         else
           let (now, k) = clock k;
               work = canceled_work req now work;
               (eventID, k) = newID ''evt'' now k
           in append_return (work_event eventID ''work.canceled'' now work) work k)"

section \<open>The log of the work registry\<close>

definition work_facts :: "StoredEvent set \<Rightarrow> WorkProjection set" where
  "work_facts E = {w. \<exists>e \<in> E. ed_Work (ev_Data e) = Some w}"

definition work_events_typed :: "StoredEvent set \<Rightarrow> bool" where
  "work_events_typed E \<longleftrightarrow> (\<forall>e \<in> E. \<forall>w. ed_Work (ev_Data e) = Some w \<longrightarrow>
     wk_WorkID w \<noteq> [] \<and> ev_Type e \<in> {''work.submitted'', ''work.canceled''})"

text \<open>
  The facts of a well-formed log: an identifier belongs to one session and one key, a
  non-empty key of a session belongs to one identifier, and an identifier has at most one
  cancellation.
\<close>

definition work_compat :: "WorkProjection \<Rightarrow> WorkProjection \<Rightarrow> bool" where
  "work_compat v w \<longleftrightarrow>
     (wk_WorkID v = wk_WorkID w \<longrightarrow>
        wk_SessionID v = wk_SessionID w \<and> wk_IdempotencyKey v = wk_IdempotencyKey w \<and>
        (wk_Status v = WorkStatusCanceled \<longrightarrow> wk_Status w = WorkStatusCanceled \<longrightarrow> v = w)) \<and>
     (wk_SessionID v = wk_SessionID w \<longrightarrow> wk_IdempotencyKey v = wk_IdempotencyKey w \<longrightarrow>
        wk_IdempotencyKey v \<noteq> [] \<longrightarrow> wk_WorkID v = wk_WorkID w)"

definition work_facts_ok :: "WorkProjection set \<Rightarrow> bool" where
  "work_facts_ok W \<longleftrightarrow> (\<forall>v \<in> W. \<forall>w \<in> W. work_compat v w)"

lemma work_compat_refl [simp]: "work_compat w w"
  by (simp add: work_compat_def)

lemma work_compat_sym: "work_compat v w \<Longrightarrow> work_compat w v"
  unfolding work_compat_def by metis

lemma work_compat_update:
  assumes "work_compat u v" and "wk_WorkID w = wk_WorkID v" and "wk_SessionID w = wk_SessionID v"
    and "wk_IdempotencyKey w = wk_IdempotencyKey v"
    and "wk_WorkID u = wk_WorkID v \<Longrightarrow> wk_Status u \<noteq> WorkStatusCanceled"
  shows "work_compat u w"
  using assms unfolding work_compat_def by metis

lemma work_facts_okD: "work_facts_ok W \<Longrightarrow> v \<in> W \<Longrightarrow> w \<in> W \<Longrightarrow> work_compat v w"
  by (simp add: work_facts_ok_def)

lemma work_facts_ok_insert:
  "work_facts_ok (insert w W) \<longleftrightarrow> work_facts_ok W \<and> (\<forall>v \<in> W. work_compat v w)"
  by (auto simp: work_facts_ok_def intro: work_compat_sym)

lemma work_facts_Un: "work_facts (E \<union> F) = work_facts E \<union> work_facts F"
  by (auto simp: work_facts_def)

lemma work_facts_single [simp]:
  "work_facts {e} = (case ed_Work (ev_Data e) of None \<Rightarrow> {} | Some w \<Rightarrow> {w})"
  by (auto simp: work_facts_def split: option.splits)

lemma work_facts_ok_subset: "work_facts_ok W \<Longrightarrow> V \<subseteq> W \<Longrightarrow> work_facts_ok V"
  unfolding work_facts_ok_def by (meson subsetD)

text \<open>
  What the projection of a well-formed log is: it never fails, its keys are the
  identifiers of the log, every entry is a fact of the log, and an entry is canceled
  exactly when the log holds a cancellation of it. The order of the log does not matter.
\<close>

fun work_entry :: "WorkProjection set \<Rightarrow> string \<Rightarrow> WorkProjection option \<Rightarrow> bool" where
  "work_entry W i None \<longleftrightarrow> (\<forall>w \<in> W. wk_WorkID w \<noteq> i)"
| "work_entry W i (Some w) \<longleftrightarrow> w \<in> W \<and> wk_WorkID w = i \<and>
     (wk_Status w = WorkStatusCanceled \<longleftrightarrow>
        (\<exists>v \<in> W. wk_WorkID v = i \<and> wk_Status v = WorkStatusCanceled))"

definition works_of :: "WorkProjection set \<Rightarrow> WorkProjection go_map \<Rightarrow> bool" where
  "works_of W m \<longleftrightarrow> (\<forall>i. work_entry W i (go_lookup m i))"

lemma work_entry_other: "wk_WorkID w \<noteq> i \<Longrightarrow> work_entry (insert w W) i c \<longleftrightarrow> work_entry W i c"
  by (cases c) auto

lemma work_entry_merge:
  assumes c: "work_entry W (wk_WorkID w) c" and ok: "work_facts_ok (insert w W)"
  obtains v where "mergeWorkProjection c w = Inr v"
    and "work_entry (insert w W) (wk_WorkID w) (Some v)"
proof (cases c)
  case None
  with c that show ?thesis by (auto simp: mergeWorkProjection_def)
next
  case (Some x)
  with c have x: "x \<in> W" "wk_WorkID x = wk_WorkID w"
    "wk_Status x = WorkStatusCanceled \<longleftrightarrow>
       (\<exists>v \<in> W. wk_WorkID v = wk_WorkID w \<and> wk_Status v = WorkStatusCanceled)"
    by auto
  have same: "x = w" if "wk_Status x = WorkStatusCanceled" "wk_Status w = WorkStatusCanceled"
    using work_facts_okD [OF ok, of x w] x that by (simp add: work_compat_def)
  show ?thesis
  proof (cases "wk_Status x = WorkStatusCanceled")
    case True
    with x Some same that [of x] show ?thesis
      by (auto simp: mergeWorkProjection_def sameWorkCancelDecision_def)
  next
    case False
    with x Some that [of w] show ?thesis by (auto simp: mergeWorkProjection_def)
  qed
qed

lemma works_of_store:
  assumes m: "works_of W m" and ok: "work_facts_ok (insert w W)"
  obtains v where "mergeWorkProjection (go_lookup m (wk_WorkID w)) w = Inr v"
    and "works_of (insert w W) (go_store (wk_WorkID w) v m)"
proof -
  have "work_entry W (wk_WorkID w) (go_lookup m (wk_WorkID w))"
    using m unfolding works_of_def by blast
  then obtain v where v: "mergeWorkProjection (go_lookup m (wk_WorkID w)) w = Inr v"
    "work_entry (insert w W) (wk_WorkID w) (Some v)"
    using ok by (rule work_entry_merge)
  have "work_entry (insert w W) i (go_lookup (go_store (wk_WorkID w) v m) i)" for i
  proof (cases "i = wk_WorkID w")
    case True
    with v(2) show ?thesis by simp
  next
    case False
    then have "wk_WorkID w \<noteq> i" by simp
    moreover from False have "go_lookup (go_store (wk_WorkID w) v m) i = go_lookup m i" by simp
    ultimately show ?thesis
      using m unfolding works_of_def by (metis work_entry_other)
  qed
  with v(1) that show ?thesis unfolding works_of_def by blast
qed

lemma works_replay:
  assumes "work_events_typed (set es)" and "work_facts_ok (work_facts (set es))"
  shows "\<exists>m. replay works_step [] es = Inr m \<and> works_of (work_facts (set es)) m"
  using assms
proof (induction es rule: rev_induct)
  case Nil
  then show ?case by (simp add: works_of_def work_facts_def)
next
  case (snoc e es)
  have facts: "work_facts (set (es @ [e])) = work_facts {e} \<union> work_facts (set es)"
    using work_facts_Un [of "{e}" "set es"] by simp
  from snoc.prems(1) have "work_events_typed (set es)" by (simp add: work_events_typed_def)
  moreover from snoc.prems(2) facts have "work_facts_ok (work_facts (set es))"
    by (simp only: work_facts_ok_subset Un_upper2)
  ultimately obtain m where m: "replay works_step [] es = Inr m" "works_of (work_facts (set es)) m"
    using snoc.IH by blast
  show ?case
  proof (cases "ed_Work (ev_Data e)")
    case None
    then have "works_step m e = Inr m" by (simp add: works_step_def)
    with None m facts show ?thesis by (simp add: replay_snoc)
  next
    case (Some w)
    with snoc.prems(1) have w: "wk_WorkID w \<noteq> []" "ev_Type e \<in> {''work.submitted'', ''work.canceled''}"
      by (auto simp: work_events_typed_def)
    from facts Some have facts': "work_facts (set (es @ [e])) = insert w (work_facts (set es))" by simp
    with snoc.prems(2) obtain v where
      "mergeWorkProjection (go_lookup m (wk_WorkID w)) w = Inr v"
      "works_of (insert w (work_facts (set es))) (go_store (wk_WorkID w) v m)"
      using works_of_store [OF m(2)] by auto
    moreover from this(1) Some w have "works_step m e = Inr (go_store (wk_WorkID w) v m)"
      by (auto simp: works_step_def Let_def)
    ultimately show ?thesis
      using m(1) facts' by (simp add: replay_snoc)
  qed
qed

section \<open>What the operations append\<close>

lemma SubmitWork_cases [consumes 1, case_names rejected replayed submitted]:
  assumes "SubmitWork req k = (r, k')"
  obtains err where "r = Inl err" and "kernel_ext k k' []"
  | w where "r = Inr w" and "k' = k" and "TrimSpace (ws_IdempotencyKey req) \<noteq> []"
      and "workByIdempotencyKey k (TrimSpace (ws_SessionID req)) (TrimSpace (ws_IdempotencyKey req)) = Inr (Some w)"
  | i t n w where "r = Inr w" and "kernel_ext k k' [work_event i ''work.submitted'' t w]"
      and "t = fst (clock k)" and "n = fst (newID ''work'' t (snd (clock k)))"
      and "k_draws k' = Suc (Suc (k_draws k))"
      and "w = new_work req n (TrimSpace (ws_SessionID req)) (TrimSpace (ws_IdempotencyKey req)) t"
      and "TrimSpace (ws_IdempotencyKey req) \<noteq> [] \<Longrightarrow>
        workByIdempotencyKey k (TrimSpace (ws_SessionID req)) (TrimSpace (ws_IdempotencyKey req)) = Inr None"
proof -
  define key where "key = TrimSpace (ws_IdempotencyKey req)"
  define found where "found = (if key \<noteq> [] then workByIdempotencyKey k (TrimSpace (ws_SessionID req)) key else Inr None)"
  define t where "t = fst (clock k)"
  define k1 where "k1 = snd (clock k)"
  define n where "n = fst (newID ''work'' t k1)"
  define k2 where "k2 = snd (newID ''work'' t k1)"
  define i where "i = fst (newID ''evt'' t k2)"
  define k3 where "k3 = snd (newID ''evt'' t k2)"
  define w where "w = new_work req n (TrimSpace (ws_SessionID req)) key t"
  note defs = key_def found_def t_def k1_def n_def k2_def i_def k3_def w_def
  have ext: "kernel_ext k k' es" if "kernel_ext k3 k' es" for es
    using that unfolding k3_def k2_def k1_def by (rule kernel_ext_stamp2)
  show ?thesis
  proof (cases "validateWorkSubmitRequest req")
    case (Some err)
    with assms have "r = Inl err" "k' = k" by (auto simp: SubmitWork_def)
    with that(1) show ?thesis by simp
  next
    case None
    show ?thesis
    proof (cases found)
      case (Inl err)
      with assms None have "r = Inl err" "k' = k"
        by (auto simp: SubmitWork_def found_def key_def Let_def split: if_splits)
      with that(1) show ?thesis by simp
    next
      case (Inr o')
      show ?thesis
      proof (cases o')
        case (Some w)
        with assms None Inr have "r = Inr w" "k' = k" and found: "found = Inr (Some w)"
          by (auto simp: SubmitWork_def found_def key_def Let_def split: if_splits)
        from found have "key \<noteq> []" "workByIdempotencyKey k (TrimSpace (ws_SessionID req)) key = Inr (Some w)"
          by (auto simp: found_def split: if_splits)
        with \<open>r = Inr w\<close> \<open>k' = k\<close> that(2) show ?thesis by (simp add: key_def)
      next
        case None': None
        with assms None Inr have "append_return (work_event i ''work.submitted'' t w) w k3 = (r, k')"
          by (simp add: SubmitWork_def defs Let_def split_beta split: if_splits)
        then show ?thesis
        proof (cases rule: append_return_cases)
          case appended
          with None' Inr show ?thesis
            by (intro that(3) [of w i t n]) (simp_all add: ext defs split: if_splits)
        next
          case (failed err)
          then show ?thesis by (intro that(1) ext)
        qed
      qed
    qed
  qed
qed

lemma CancelWork_cases [consumes 1, case_names rejected already canceled]:
  assumes "CancelWork workID req k = (r, k')"
  obtains err where "r = Inl err" and "kernel_ext k k' []"
  | ws w where "r = Inr w" and "k' = k" and "works k = Inr ws" and "go_lookup ws (TrimSpace workID) = Some w"
      and "wk_Status w = WorkStatusCanceled"
  | ws v i t w where "r = Inr w" and "works k = Inr ws" and "go_lookup ws (TrimSpace workID) = Some v"
      and "wk_Status v \<noteq> WorkStatusCanceled" and "t = fst (clock k)" and "w = canceled_work req t v"
      and "kernel_ext k k' [work_event i ''work.canceled'' t w]"
proof -
  define t where "t = fst (clock k)"
  define k1 where "k1 = snd (clock k)"
  define i where "i = fst (newID ''evt'' t k1)"
  define k2 where "k2 = snd (newID ''evt'' t k1)"
  note defs = t_def k1_def i_def k2_def
  have ext: "kernel_ext k k' es" if "kernel_ext k2 k' es" for es
    using that unfolding k2_def k1_def by (rule kernel_ext_stamp1)
  have "(\<exists>err. r = Inl err \<and> k' = k) \<or>
    (\<exists>ws w. works k = Inr ws \<and> go_lookup ws (TrimSpace workID) = Some w \<and>
       wk_Status w = WorkStatusCanceled \<and> r = Inr w \<and> k' = k) \<or>
    (\<exists>ws v. works k = Inr ws \<and> go_lookup ws (TrimSpace workID) = Some v \<and>
       wk_Status v \<noteq> WorkStatusCanceled \<and>
       append_return (work_event i ''work.canceled'' t (canceled_work req t v)) (canceled_work req t v) k2 = (r, k'))"
    using assms unfolding CancelWork_def Let_def defs
    by (simp add: split_beta split: if_splits option.splits sum.splits) auto
  then consider (bad) err where "r = Inl err" "k' = k"
    | (old) ws w where "works k = Inr ws" "go_lookup ws (TrimSpace workID) = Some w"
        "wk_Status w = WorkStatusCanceled" "r = Inr w" "k' = k"
    | (new) ws v where "works k = Inr ws" "go_lookup ws (TrimSpace workID) = Some v"
        "wk_Status v \<noteq> WorkStatusCanceled"
        "append_return (work_event i ''work.canceled'' t (canceled_work req t v)) (canceled_work req t v) k2 = (r, k')"
    by blast
  then show ?thesis
  proof cases
    case bad
    with that(1) show ?thesis by simp
  next
    case old
    with that(2) show ?thesis by simp
  next
    case new
    from new(4) show ?thesis
    proof (cases rule: append_return_cases)
      case appended
      with new that(3) [of "canceled_work req t v" ws v t i] show ?thesis by (simp add: ext t_def)
    next
      case (failed err)
      then show ?thesis by (intro that(1) ext)
    qed
  qed
qed

section \<open>The registry invariant\<close>

definition work_inv :: "kernel \<Rightarrow> bool" where
  "work_inv k \<longleftrightarrow> env_ok (k_env k) \<and> work_events_typed (set (k_rows k)) \<and>
     work_facts_ok (work_facts (set (k_rows k))) \<and>
     wk_WorkID ` work_facts (set (k_rows k)) \<subseteq> allocated k"

lemma works_spec:
  assumes "work_inv k" and "loadEvents k = Inr es"
  obtains ws where "works k = Inr ws" and "works_of (work_facts (set (k_rows k))) ws"
  using assms works_replay [of es] loadEvents_set [of k es]
  by (auto simp: work_inv_def works_def)

lemma works_Inr:
  assumes "work_inv k" and "works k = Inr ws"
  shows "works_of (work_facts (set (k_rows k))) ws"
proof -
  from assms(2) obtain es where es: "loadEvents k = Inr es"
    by (auto simp: works_def bind_res_Inr_iff)
  from assms(1) es obtain ws' where "works k = Inr ws'" "works_of (work_facts (set (k_rows k))) ws'"
    by (rule works_spec)
  with assms(2) show ?thesis by simp
qed

lemma works_ofD:
  "works_of W m \<Longrightarrow> go_lookup m i = Some w \<Longrightarrow> w \<in> W \<and> wk_WorkID w = i"
  "works_of W m \<Longrightarrow> w \<in> W \<Longrightarrow> go_lookup m (wk_WorkID w) \<noteq> None"
  unfolding works_of_def by (metis work_entry.simps(2), metis work_entry.simps(1))

lemma works_of_canceled:
  assumes "works_of W m" and "work_facts_ok W" and "w \<in> W" and "wk_Status w = WorkStatusCanceled"
  shows "go_lookup m (wk_WorkID w) = Some w"
proof -
  from works_ofD(2) [OF assms(1,3)] obtain v where v: "go_lookup m (wk_WorkID w) = Some v" by auto
  then have "work_entry W (wk_WorkID w) (Some v)" using assms(1) unfolding works_of_def by metis
  with assms(3,4) have "v \<in> W" "wk_WorkID v = wk_WorkID w" "wk_Status v = WorkStatusCanceled" by auto
  with work_facts_okD [OF assms(2) _ assms(3), of v] assms(4) have "v = w" by (simp add: work_compat_def)
  with v show ?thesis by simp
qed

text \<open>A key is looked up to a fact with that key, and to none only when there is no such fact.\<close>

lemma workByIdempotencyKey_spec:
  assumes inv: "work_inv k" and found: "workByIdempotencyKey k s key = Inr o'"
  shows "case o' of
      Some w \<Rightarrow> w \<in> work_facts (set (k_rows k)) \<and> wk_SessionID w = s \<and> wk_IdempotencyKey w = key
    | None \<Rightarrow> \<forall>w \<in> work_facts (set (k_rows k)). wk_SessionID w = s \<longrightarrow> wk_IdempotencyKey w \<noteq> key"
proof -
  let ?W = "work_facts (set (k_rows k))"
  from found obtain ws where ws: "works k = Inr ws"
    and o': "o' = find (\<lambda>w. wk_SessionID w = s \<and> wk_IdempotencyKey w = key) (go_values (map_order k) ws)"
    by (auto simp: workByIdempotencyKey_def bind_res_Inr_iff)
  note of = works_Inr [OF inv ws]
  have vals: "set (go_values (map_order k) ws) = ran (go_lookup ws)"
    using inv by (simp add: set_go_values env_ok_order work_inv_def)
  show ?thesis
  proof (cases o')
    case None
    have "wk_IdempotencyKey w \<noteq> key" if w: "w \<in> ?W" and s: "wk_SessionID w = s" for w
    proof
      assume "wk_IdempotencyKey w = key"
      from works_ofD(2) [OF of w] obtain v where v: "go_lookup ws (wk_WorkID w) = Some v" by auto
      with works_ofD(1) [OF of v] have "v \<in> ?W" "wk_WorkID v = wk_WorkID w" by auto
      with inv w have "wk_SessionID v = wk_SessionID w" "wk_IdempotencyKey v = wk_IdempotencyKey w"
        using work_facts_okD [of ?W v w] by (simp_all add: work_inv_def work_compat_def)
      moreover from v vals have "v \<in> set (go_values (map_order k) ws)" by (auto simp: ran_def)
      ultimately show False
        using None o' s \<open>wk_IdempotencyKey w = key\<close> by (auto simp: find_None_iff)
    qed
    with None show ?thesis by simp
  next
    case (Some w)
    with o' have "w \<in> set (go_values (map_order k) ws)" "wk_SessionID w = s" "wk_IdempotencyKey w = key"
      by (auto dest!: find_SomeD [OF sym])
    moreover from this(1) vals have "w \<in> ?W" by (auto simp: ran_def dest: works_ofD(1) [OF of])
    ultimately show ?thesis using Some by simp
  qed
qed

lemma work_inv_other:
  assumes "work_inv k" and "kernel_ext k k' es" and "\<And>e. e \<in> set es \<Longrightarrow> ed_Work (ev_Data e) = None"
  shows "work_inv k'" and "work_facts (set (k_rows k')) = work_facts (set (k_rows k))"
proof -
  show facts: "work_facts (set (k_rows k')) = work_facts (set (k_rows k))"
    using assms(2,3) by (auto simp: kernel_ext_def work_facts_def)
  have "work_events_typed (set (k_rows k'))"
    using assms by (auto simp: work_inv_def kernel_ext_def work_events_typed_def)
  with assms(1) facts show "work_inv k'"
    using allocated_ext [OF assms(2)] env_ok_ext [OF assms(2)] by (auto simp: work_inv_def)
qed

lemma work_facts_event:
  assumes "kernel_ext k k' [work_event i ty t w]"
  shows "work_facts (set (k_rows k')) = insert w (work_facts (set (k_rows k)))"
  using assms by (auto simp: kernel_ext_def work_facts_def work_event_def)

lemma work_inv_event:
  assumes "work_inv k" and ext: "kernel_ext k k' [work_event i ty t w]"
    and "ty \<in> {''work.submitted'', ''work.canceled''}" and "wk_WorkID w \<noteq> []"
    and "wk_WorkID w \<in> allocated k'"
    and "work_facts_ok (insert w (work_facts (set (k_rows k))))"
  shows "work_inv k'"
proof -
  have "work_events_typed (set (k_rows k'))"
    using assms by (auto simp: work_inv_def kernel_ext_def work_events_typed_def work_event_def)
  with assms show ?thesis
    using allocated_ext [OF ext] env_ok_ext [OF ext] by (auto simp: work_inv_def work_facts_event [OF ext])
qed

lemma SubmitWork_inv:
  assumes inv: "work_inv k" and run: "SubmitWork req k = (r, k')"
  shows "work_inv k'"
  using run
proof (cases rule: SubmitWork_cases)
  case (rejected err)
  then show ?thesis by (intro work_inv_other(1) [OF inv rejected(2)]) simp
next
  case (replayed w)
  then show ?thesis using inv by simp
next
  case (submitted i t n w)
  let ?W = "work_facts (set (k_rows k))"
  let ?key = "TrimSpace (ws_IdempotencyKey req)"
  have uniq: "ulid_unique (k_env k)" using inv by (simp add: work_inv_def env_ok_ulid)
  have w: "wk_WorkID w = n" "wk_SessionID w = TrimSpace (ws_SessionID req)"
    "wk_IdempotencyKey w = ?key" "wk_Status w = WorkStatusOpen"
    using submitted(6) by (simp_all add: new_work_def)
  have "n \<notin> allocated k"
    using newID_fresh [of "snd (clock k)"] uniq submitted(4) by simp
  with inv have fresh: "wk_WorkID v \<noteq> n" if "v \<in> ?W" for v
    using that by (auto simp: work_inv_def)
  have key: "wk_SessionID v = TrimSpace (ws_SessionID req) \<Longrightarrow> wk_IdempotencyKey v = ?key \<Longrightarrow> ?key = []"
    if "v \<in> ?W" for v
    using workByIdempotencyKey_spec [OF inv submitted(7)] that by auto
  have "n \<in> allocated (snd (newID ''work'' t (snd (clock k))))"
    using newID_allocated [of "snd (clock k)"] uniq submitted(4) by simp
  then have alloc: "n \<in> allocated k'"
    using allocated_mono [of k' "snd (newID ''work'' t (snd (clock k)))"] submitted(2,5)
    by (auto simp: kernel_ext_def)
  have "work_compat v w" if "v \<in> ?W" for v
    using fresh [OF that] key [OF that] w by (auto simp: work_compat_def)
  with inv have "work_facts_ok (insert w ?W)"
    by (simp add: work_facts_ok_insert work_inv_def)
  moreover have "n \<noteq> []" using submitted(4) by simp
  ultimately show ?thesis
    using work_inv_event [OF inv submitted(2)] alloc w by simp
qed

lemma CancelWork_fact:
  assumes inv: "work_inv k" and run: "CancelWork workID req k = (Inr w, k')"
  shows "work_inv k'" and "w \<in> work_facts (set (k_rows k'))"
    and "wk_Status w = WorkStatusCanceled" and "wk_WorkID w = TrimSpace workID"
proof -
  let ?W = "work_facts (set (k_rows k))"
  have "work_inv k' \<and> w \<in> work_facts (set (k_rows k')) \<and> wk_Status w = WorkStatusCanceled \<and>
    wk_WorkID w = TrimSpace workID"
    using run
  proof (cases rule: CancelWork_cases)
    case (rejected err)
    then show ?thesis by simp
  next
    case (already ws v)
    with works_ofD(1) [OF works_Inr [OF inv already(3)] already(4)] inv show ?thesis by simp
  next
    case (canceled ws v i t w')
    note of = works_Inr [OF inv canceled(2)]
    from works_ofD(1) [OF of canceled(3)] have v: "v \<in> ?W" "wk_WorkID v = TrimSpace workID" by auto
    have w': "wk_WorkID w' = wk_WorkID v" "wk_SessionID w' = wk_SessionID v"
      "wk_IdempotencyKey w' = wk_IdempotencyKey v" "wk_Status w' = WorkStatusCanceled"
      using canceled(6) by (simp_all add: canceled_work_def)
    have "work_entry ?W (TrimSpace workID) (Some v)"
      using of canceled(3) unfolding works_of_def by metis
    with canceled(4) have none: "wk_Status u \<noteq> WorkStatusCanceled" if "u \<in> ?W" "wk_WorkID u = TrimSpace workID" for u
      using that by auto
    have "work_compat u w'" if "u \<in> ?W" for u
    proof (rule work_compat_update [OF _ w'(1-3)])
      show "work_compat u v" using inv that v(1) by (auto simp: work_inv_def intro: work_facts_okD)
    qed (use none [OF that] v(2) in simp)
    with inv have "work_facts_ok (insert w' ?W)"
      by (simp add: work_facts_ok_insert work_inv_def)
    moreover have "wk_WorkID v \<noteq> []" "wk_WorkID v \<in> allocated k'"
      using inv v(1) allocated_ext [OF canceled(7)]
      by (auto 0 3 simp: work_inv_def work_events_typed_def work_facts_def)
    ultimately have "work_inv k'"
      using w' by (intro work_inv_event [OF inv canceled(7)]) simp_all
    with canceled(1) w' v show ?thesis by (simp add: work_facts_event [OF canceled(7)])
  qed
  then show "work_inv k'" "w \<in> work_facts (set (k_rows k'))"
    "wk_Status w = WorkStatusCanceled" "wk_WorkID w = TrimSpace workID" by simp_all
qed

lemma CancelWork_inv:
  assumes inv: "work_inv k" and run: "CancelWork workID req k = (r, k')"
  shows "work_inv k'"
proof (cases r)
  case (Inr w)
  with inv run show ?thesis by (metis CancelWork_fact(1))
next
  case (Inl err)
  from run show ?thesis
  proof (cases rule: CancelWork_cases)
    case (rejected err)
    then show ?thesis by (intro work_inv_other(1) [OF inv rejected(2)]) simp
  qed (use Inl in simp_all)
qed

section \<open>Runs of the registry\<close>

text \<open>
  The calls a kernel serves, in any order: submissions, cancellations, and anything else
  it does, which appends no work event.
\<close>

inductive work_run :: "kernel \<Rightarrow> kernel \<Rightarrow> bool" where
  stay: "work_run k k"
| submit: "work_run k k' \<Longrightarrow> SubmitWork req k' = (r, k'') \<Longrightarrow> work_run k k''"
| cancel: "work_run k k' \<Longrightarrow> CancelWork workID creq k' = (r, k'') \<Longrightarrow> work_run k k''"
| other: "work_run k k' \<Longrightarrow> kernel_ext k' k'' es \<Longrightarrow> \<forall>e \<in> set es. ed_Work (ev_Data e) = None \<Longrightarrow> work_run k k''"

lemma work_run_inv: "work_run k k' \<Longrightarrow> work_inv k \<Longrightarrow> work_inv k'"
  by (induction rule: work_run.induct) (auto intro: SubmitWork_inv CancelWork_inv work_inv_other)

lemma SubmitWork_ext: "SubmitWork req k = (r, k') \<Longrightarrow> \<exists>es. kernel_ext k k' es"
  by (erule SubmitWork_cases) blast+

lemma CancelWork_ext: "CancelWork workID req k = (r, k') \<Longrightarrow> \<exists>es. kernel_ext k k' es"
  by (erule CancelWork_cases) blast+

lemma work_run_ext: "work_run k k' \<Longrightarrow> \<exists>es. kernel_ext k k' es"
  by (induction rule: work_run.induct)
    (blast dest: SubmitWork_ext CancelWork_ext intro: kernel_ext_trans)+

lemma work_run_facts:
  "work_run k k' \<Longrightarrow> work_facts (set (k_rows k)) \<subseteq> work_facts (set (k_rows k'))"
  using work_run_ext [of k k'] by (auto simp: kernel_ext_def work_facts_def)

lemma work_inv_empty: "env_ok (k_env k) \<Longrightarrow> k_rows k = [] \<Longrightarrow> work_inv k"
  by (simp add: work_inv_def work_events_typed_def work_facts_def work_facts_ok_def)

lemma SubmitWork_fact:
  assumes inv: "work_inv k" and run: "SubmitWork req k = (Inr w, k')"
  shows "w \<in> work_facts (set (k_rows k')) \<and> wk_SessionID w = TrimSpace (ws_SessionID req) \<and>
    wk_IdempotencyKey w = TrimSpace (ws_IdempotencyKey req)"
  using run
proof (cases rule: SubmitWork_cases)
  case (rejected err)
  then show ?thesis by simp
next
  case (replayed v)
  with workByIdempotencyKey_spec [OF inv replayed(4)] show ?thesis by simp
next
  case (submitted i t n v)
  with work_facts_event [OF submitted(2)] show ?thesis by (simp add: new_work_def)
qed

section \<open>Arbitrary logs\<close>

text \<open>
  Whatever the log holds, the projection keys every work by its own identifier and no
  identifier twice.
\<close>

interpretation wr: replayed works_step "[] :: WorkProjection go_map"
  "\<lambda>m. distinct (map fst m) \<and> (\<forall>i w. go_lookup m i = Some w \<longrightarrow> wk_WorkID w = i)"
proof
  fix m e m'
  assume inv: "distinct (map fst m) \<and> (\<forall>i w. go_lookup m i = Some w \<longrightarrow> wk_WorkID w = i)"
    and step: "works_step m e = Inr m'"
  have merge: "wk_WorkID v = wk_WorkID w"
    if "mergeWorkProjection (go_lookup m (wk_WorkID w)) w = Inr v" for v w
    using that inv by (auto simp: mergeWorkProjection_def split: option.splits if_splits)
  have upd: "wk_WorkID (w\<lparr>wk_WorkID := i\<rparr>) = i" for w :: WorkProjection and i by simp
  from step have "m' = m \<or> (\<exists>w v. m' = go_store (wk_WorkID w) v m \<and>
      mergeWorkProjection (go_lookup m (wk_WorkID w)) w = Inr v)"
    by (auto simp: works_step_def Let_def bind_res_Inr_iff split: option.splits if_splits)
      (metis upd)+
  then show "distinct (map fst m') \<and> (\<forall>i w. go_lookup m' i = Some w \<longrightarrow> wk_WorkID w = i)"
  proof (elim disjE exE conjE)
    fix w v
    assume "m' = go_store (wk_WorkID w) v m" "mergeWorkProjection (go_lookup m (wk_WorkID w)) w = Inr v"
    with inv merge [of w v] show ?thesis by simp
  qed (use inv in simp)
qed simp

lemma works_keyed: "works k = Inr ws \<Longrightarrow> go_lookup ws i = Some w \<Longrightarrow> wk_WorkID w = i"
  by (auto simp: works_def bind_res_Inr_iff dest: wr.inv_replay)

section \<open>Properties\<close>

definition sample_work :: WorkSubmitRequest where
  "sample_work = \<lparr>ws_SessionID = ''s1'', ws_Title = ''t'', ws_SourceRef = ''turn:abc'',
     ws_IdempotencyKey = ''k1''\<rparr>"

definition sample_cancel :: WorkCancelRequest where
  "sample_cancel = \<lparr>wc_CancelAuthority = ''user:u1'', wc_CancelReason = ''obsolete'',
     wc_CancelEvidenceRef = ''turn:abc''\<rparr>"

definition work_k1 :: kernel where "work_k1 = snd (SubmitWork sample_work sample_kernel)"
definition work_k2 :: kernel where "work_k2 = snd (CancelWork ''work_'' sample_cancel work_k1)"

lemma work_k1_run: "work_run sample_kernel work_k1"
  unfolding work_k1_def by (rule work_run.submit [OF work_run.stay prod.collapse [symmetric]])

lemma work_k2_run: "work_run work_k1 work_k2"
  unfolding work_k2_def by (rule work_run.cancel [OF work_run.stay prod.collapse [symmetric]])

text \<open>
  In every state reached from an empty ledger, by any sequence of submissions,
  cancellations and other appends, the work projection succeeds whenever the ledger can be
  read. It has an entry for exactly the identifiers that occur in the log, and an entry is
  canceled exactly when the log holds a cancellation of it, in whatever order the ledger
  returns the events.
\<close>

theorem work_log_replayable:
  assumes "env_ok (k_env k)" and "k_rows k = []" and "work_run k k'" and "loadEvents k' = Inr es"
  shows "\<exists>ws. works k' = Inr ws \<and>
    (\<forall>i. go_lookup ws i \<noteq> None \<longleftrightarrow> (\<exists>e \<in> set es. \<exists>w. ed_Work (ev_Data e) = Some w \<and> wk_WorkID w = i)) \<and>
    (\<forall>i w. go_lookup ws i = Some w \<longrightarrow>
       (wk_Status w = WorkStatusCanceled \<longleftrightarrow>
          (\<exists>e \<in> set es. \<exists>v. ed_Work (ev_Data e) = Some v \<and> wk_WorkID v = i \<and> wk_Status v = WorkStatusCanceled)))"
proof -
  have inv: "work_inv k'" using assms(1-3) work_run_inv work_inv_empty by blast
  have facts: "work_facts (set (k_rows k')) = work_facts (set es)"
    by (simp add: loadEvents_set [OF assms(4)])
  from works_spec [OF inv assms(4)] facts obtain ws where
    ws: "works k' = Inr ws" "works_of (work_facts (set es)) ws" by auto
  have entry: "work_entry (work_facts (set es)) i (go_lookup ws i)" for i
    using ws(2) by (simp add: works_of_def)
  have "go_lookup ws i \<noteq> None \<longleftrightarrow> (\<exists>w \<in> work_facts (set es). wk_WorkID w = i)" for i
    using entry [of i] by (cases "go_lookup ws i") auto
  moreover have "wk_Status w = WorkStatusCanceled \<longleftrightarrow>
      (\<exists>v \<in> work_facts (set es). wk_WorkID v = i \<and> wk_Status v = WorkStatusCanceled)"
    if "go_lookup ws i = Some w" for i w
    using entry [of i] that by simp
  ultimately show ?thesis
    using ws(1) by (auto simp: work_facts_def)
qed

theorem work_log_replayable_witness:
  "\<exists>ws. works work_k1 = Inr ws \<and> go_lookup ws ''work_'' \<noteq> None"
proof -
  have load: "loadEvents work_k1 = Inr (projr (loadEvents work_k1))"
    by (rule res_eq) code_simp
  moreover have "list_ex (\<lambda>e. map_option wk_WorkID (ed_Work (ev_Data e)) = Some ''work_'')
      (projr (loadEvents work_k1))"
    by code_simp
  ultimately show ?thesis
    using work_log_replayable [OF sample_env_ok sample_rows work_k1_run load]
    by (fastforce simp: list_ex_iff)
qed

text \<open>
  C1: a submission with an idempotency key that was already accepted in its session, made
  in any later state, returns the work of the first submission and leaves the kernel as it
  is: nothing is appended and no identifier or clock reading is consumed.
\<close>

theorem SubmitWork_idempotent:
  assumes "env_ok (k_env k)" and "k_rows k = []" and "work_run k k0"
    and "SubmitWork req k0 = (Inr w, k1)" and "work_run k1 k2"
    and "SubmitWork req' k2 = (Inr w', k3)"
    and "TrimSpace (ws_SessionID req') = TrimSpace (ws_SessionID req)"
    and "TrimSpace (ws_IdempotencyKey req') = TrimSpace (ws_IdempotencyKey req)"
    and "TrimSpace (ws_IdempotencyKey req) \<noteq> []"
  shows "wk_WorkID w' = wk_WorkID w \<and> k3 = k2"
proof -
  have inv0: "work_inv k0" using assms(1-3) work_run_inv work_inv_empty by blast
  have inv2: "work_inv k2" using inv0 assms(4,5) SubmitWork_inv work_run_inv by blast
  have w: "w \<in> work_facts (set (k_rows k2))" "wk_SessionID w = TrimSpace (ws_SessionID req)"
    "wk_IdempotencyKey w = TrimSpace (ws_IdempotencyKey req)"
    using SubmitWork_fact [OF inv0 assms(4)] work_run_facts [OF assms(5)] by auto
  from assms(6) show ?thesis
  proof (cases rule: SubmitWork_cases)
    case (rejected err)
    then show ?thesis by simp
  next
    case (replayed v)
    with workByIdempotencyKey_spec [OF inv2 replayed(4)]
    have v: "v \<in> work_facts (set (k_rows k2))" "wk_SessionID v = wk_SessionID w"
      "wk_IdempotencyKey v = wk_IdempotencyKey w"
      using w assms(7,8) by auto
    have "work_compat v w" using inv2 v(1) w(1) by (auto simp: work_inv_def intro: work_facts_okD)
    with v w assms(9) replayed show ?thesis by (simp add: work_compat_def)
  next
    case (submitted i t n v)
    from workByIdempotencyKey_spec [OF inv2 submitted(7)] w assms(7-9) show ?thesis by auto
  qed
qed

theorem SubmitWork_idempotent_witness:
  "wk_WorkID (projr (fst (SubmitWork sample_work work_k2))) = ''work_''"
proof -
  have 1: "ok (SubmitWork sample_work sample_kernel)" by code_simp
  have 2: "ok (SubmitWork sample_work work_k2)" by code_simp
  have 3: "wk_WorkID (projr (fst (SubmitWork sample_work sample_kernel))) = ''work_''" by code_simp
  have 4: "TrimSpace (ws_IdempotencyKey sample_work) \<noteq> []" by code_simp
  show ?thesis
    using SubmitWork_idempotent [OF sample_env_ok sample_rows work_run.stay
        ok_eq [OF 1, folded work_k1_def] work_k2_run ok_eq [OF 2] refl refl 4] 3
    by simp
qed

text \<open>
  Cancellation is final. Once \<open>CancelWork\<close> has returned a work, every later \<open>Work\<close>
  query for it that can read the ledger returns that same record, with the authority,
  reason, evidence and time of the first cancellation, and a later \<open>CancelWork\<close> that
  succeeds returns it too, whatever its own reason was.
\<close>

theorem CancelWork_final:
  assumes "env_ok (k_env k)" and "k_rows k = []" and "work_run k k0"
    and "CancelWork i req k0 = (Inr w, k1)" and "work_run k1 k2"
  shows "(loadEvents k2 = Inr es \<longrightarrow> Work i k2 = Inr w) \<and>
    (CancelWork i req' k2 = (Inr w', k3) \<longrightarrow> w' = w \<and> k3 = k2)"
proof -
  have inv0: "work_inv k0" using assms(1-3) work_run_inv work_inv_empty by blast
  note c = CancelWork_fact [OF inv0 assms(4)]
  have inv2: "work_inv k2" using c(1) assms(5) work_run_inv by blast
  have w: "w \<in> work_facts (set (k_rows k2))" using c(2) work_run_facts [OF assms(5)] by auto
  have entry: "go_lookup ws (TrimSpace i) = Some w" if "works k2 = Inr ws" for ws
    using works_of_canceled [OF works_Inr [OF inv2 that] _ w c(3)] inv2 c(4) by (simp add: work_inv_def)
  have "TrimSpace i \<noteq> []" using assms(4) by (auto simp: CancelWork_def)
  moreover have "\<exists>ws. works k2 = Inr ws" if "loadEvents k2 = Inr es"
    using works_spec [OF inv2 that] by blast
  ultimately have "loadEvents k2 = Inr es \<longrightarrow> Work i k2 = Inr w"
    using entry by (auto simp: Work_def Let_def)
  moreover have "w' = w \<and> k3 = k2" if "CancelWork i req' k2 = (Inr w', k3)"
    using that
  proof (cases rule: CancelWork_cases)
    case (rejected err)
    then show ?thesis by simp
  next
    case (already ws v)
    with entry show ?thesis by auto
  next
    case (canceled ws v j t u)
    with entry c(3) show ?thesis by auto
  qed
  ultimately show ?thesis by blast
qed

theorem CancelWork_final_witness:
  "Work ''work_'' work_k2 = fst (CancelWork ''work_'' sample_cancel work_k1) \<and>
   wk_CancelReason (projr (Work ''work_'' work_k2)) = ''obsolete''"
proof -
  have 1: "ok (CancelWork ''work_'' sample_cancel work_k1)" by code_simp
  have 2: "loadEvents work_k2 = Inr (projr (loadEvents work_k2))" by (rule res_eq) code_simp
  have 3: "wk_CancelReason (projr (fst (CancelWork ''work_'' sample_cancel work_k1))) = ''obsolete''"
    by code_simp
  from CancelWork_final [OF sample_env_ok sample_rows work_k1_run
      ok_eq [OF 1, folded work_k2_def] work_run.stay] 2
  have "Work ''work_'' work_k2 = Inr (projr (fst (CancelWork ''work_'' sample_cancel work_k1)))" by blast
  with 3 ok_eq [OF 1] show ?thesis by (metis fst_conv sum.sel(2))
qed

end
