(* ===== verification/Authority_Gate.thy ===== *)
theory Authority_Gate
  imports Kernel_Core
begin

text \<open>
  The authority gate (\<^verbatim>\<open>authority_gate.go\<close>, with the permission modes of \<^verbatim>\<open>shell.go\<close>): how a
  configured tool policy resolves to an authority, a sandbox profile and an approval policy,
  and which tools it authorizes.
\<close>

record ResolvedToolPolicy =
  rp_PermissionMode :: string
  rp_AuthorityPolicy :: string
  rp_SandboxProfile :: string
  rp_ApprovalPolicy :: string
  rp_WorkspaceRoot :: string
  rp_Known :: bool
  rp_InvalidReason :: string

record toolAuthorizationDecision =
  ta_Allowed :: bool
  ta_Reason :: string

definition normalizedPermissionMode :: "string \<Rightarrow> string" where
  "normalizedPermissionMode mode =
     (let mode = ToLower (TrimSpace mode) in if mode = [] then ''plan'' else mode)"

definition normalizedToolPolicy :: "ToolPolicy \<Rightarrow> ToolPolicy" where
  "normalizedToolPolicy policy =
     (let mode = normalizedPermissionMode (tp_PermissionMode policy);
          mode = (if mode \<noteq> ''plan'' \<and> mode \<noteq> ''default'' \<and> mode \<noteq> ''yolo'' then ''plan'' else mode)
      in \<lparr>tp_PermissionMode = mode, tp_WorkspaceRoot = TrimSpace (tp_WorkspaceRoot policy),
          tp_SandboxProfile = TrimSpace (tp_SandboxProfile policy),
          tp_ApprovalPolicy = TrimSpace (tp_ApprovalPolicy policy)\<rparr>)"

definition normalizedPolicyValue :: "string \<Rightarrow> string" where
  "normalizedPolicyValue val = ToLower (TrimSpace val)"

definition sandboxProfileAllowedForAuthority :: "string \<Rightarrow> string \<Rightarrow> bool" where
  "sandboxProfileAllowedForAuthority authorityPolicy sandboxProfile \<longleftrightarrow>
     (if authorityPolicy = ''read_only'' then sandboxProfile = ''read_only''
      else if authorityPolicy = ''workspace_write''
        then sandboxProfile = ''controlled_workspace'' \<or> sandboxProfile = ''os_workspace''
      else if authorityPolicy = ''full_access''
        then sandboxProfile = ''controlled_workspace'' \<or> sandboxProfile = ''os_workspace'' \<or>
          sandboxProfile = ''host''
      else False)"

definition applySandboxProfileOverride :: "ResolvedToolPolicy \<Rightarrow> string \<Rightarrow> ResolvedToolPolicy" where
  "applySandboxProfileOverride resolved sandboxProfile =
     (if sandboxProfile \<notin> {''read_only'', ''controlled_workspace'', ''os_workspace'', ''host''}
      then resolved\<lparr>rp_SandboxProfile := ''none'', rp_InvalidReason := ''unknown_sandbox_profile''\<rparr>
      else let resolved = resolved\<lparr>rp_SandboxProfile := sandboxProfile\<rparr>
        in if \<not> sandboxProfileAllowedForAuthority (rp_AuthorityPolicy resolved) sandboxProfile
           then resolved\<lparr>rp_InvalidReason := ''sandbox_profile_not_allowed_for_permission_mode''\<rparr>
           else if sandboxProfile = ''os_workspace''
           then resolved\<lparr>rp_InvalidReason := ''sandbox_profile_unavailable=os_workspace''\<rparr>
           else resolved)"

definition applyApprovalPolicyOverride :: "ResolvedToolPolicy \<Rightarrow> string \<Rightarrow> ResolvedToolPolicy" where
  "applyApprovalPolicyOverride resolved approvalPolicy =
     (if approvalPolicy \<in> {''never'', ''on_request''} then resolved\<lparr>rp_ApprovalPolicy := approvalPolicy\<rparr>
      else resolved\<lparr>rp_ApprovalPolicy := approvalPolicy, rp_InvalidReason := ''unknown_approval_policy''\<rparr>)"

definition applyToolPolicyOverrides :: "ResolvedToolPolicy \<Rightarrow> ToolPolicy \<Rightarrow> ResolvedToolPolicy" where
  "applyToolPolicyOverrides resolved policy =
     (if \<not> rp_Known resolved then resolved
      else
        let sandboxProfile = normalizedPolicyValue (tp_SandboxProfile policy);
            resolved = (if sandboxProfile \<noteq> [] then applySandboxProfileOverride resolved sandboxProfile else resolved);
            approvalPolicy = normalizedPolicyValue (tp_ApprovalPolicy policy)
        in if approvalPolicy \<noteq> [] then applyApprovalPolicyOverride resolved approvalPolicy else resolved)"

definition resolveToolPolicy :: "ToolPolicy \<Rightarrow> ResolvedToolPolicy" where
  "resolveToolPolicy policy =
     (let mode = normalizedPermissionMode (tp_PermissionMode policy);
          resolved = \<lparr>rp_PermissionMode = TrimSpace mode, rp_AuthorityPolicy = [], rp_SandboxProfile = [],
            rp_ApprovalPolicy = ''never'', rp_WorkspaceRoot = TrimSpace (tp_WorkspaceRoot policy),
            rp_Known = False, rp_InvalidReason = []\<rparr>;
          resolved =
            (if mode = ''plan''
             then resolved\<lparr>rp_AuthorityPolicy := ''read_only'', rp_SandboxProfile := ''read_only'', rp_Known := True\<rparr>
             else if mode = ''default''
             then resolved\<lparr>rp_AuthorityPolicy := ''workspace_write'', rp_SandboxProfile := ''controlled_workspace'', rp_Known := True\<rparr>
             else if mode = ''yolo''
             then resolved\<lparr>rp_AuthorityPolicy := ''full_access'', rp_SandboxProfile := ''host'', rp_Known := True\<rparr>
             else resolved\<lparr>rp_AuthorityPolicy := ''unknown'', rp_SandboxProfile := ''none''\<rparr>)
      in applyToolPolicyOverrides resolved policy)"

definition authorizeKernelTool :: "ToolPolicy \<Rightarrow> ToolSpec \<Rightarrow> toolAuthorizationDecision" where
  "authorizeKernelTool policy spec =
     (let resolved = resolveToolPolicy policy;
          refuse = (\<lambda>reason. \<lparr>ta_Allowed = False, ta_Reason = reason\<rparr>);
          allow = \<lparr>ta_Allowed = True, ta_Reason = []\<rparr>
      in if \<not> rp_Known resolved then refuse ''unknown_permission_mode''
         else if rp_InvalidReason resolved \<noteq> [] then refuse (rp_InvalidReason resolved)
         else if ts_SideEffectLevel spec = ''read'' then allow
         else if ts_SideEffectLevel spec = ''write'' then
           (if rp_AuthorityPolicy resolved = ''read_only'' then refuse ''blocked_by_permission_mode=plan''
            else if rp_AuthorityPolicy resolved \<in> {''workspace_write'', ''full_access''} then
              (if rp_ApprovalPolicy resolved = ''on_request'' then refuse ''approval_required'' else allow)
            else refuse ''unknown_permission_mode'')
         else refuse ''unknown_tool_kind'')"

section \<open>Specification\<close>

text \<open>
  The policies that resolve: the mode is one of the three, the sandbox profile is absent or
  one the mode may run in, and the approval policy is absent or known.
\<close>

fun allowed_profiles :: "string \<Rightarrow> string set" where
  "allowed_profiles mode =
     (if mode = ''plan'' then {[], ''read_only''}
      else if mode = ''default'' then {[], ''controlled_workspace''}
      else if mode = ''yolo'' then {[], ''controlled_workspace'', ''host''}
      else {})"

definition policy_valid :: "ToolPolicy \<Rightarrow> bool" where
  "policy_valid policy \<longleftrightarrow>
     normalizedPolicyValue (tp_SandboxProfile policy) \<in> allowed_profiles (normalizedPermissionMode (tp_PermissionMode policy)) \<and>
     normalizedPolicyValue (tp_ApprovalPolicy policy) \<in> {[], ''never'', ''on_request''}"

lemmas gate_defs =
  resolveToolPolicy_def applyToolPolicyOverrides_def applySandboxProfileOverride_def
  applyApprovalPolicyOverride_def sandboxProfileAllowedForAuthority_def

lemma resolve_valid_iff:
  "rp_Known (resolveToolPolicy p) \<and> rp_InvalidReason (resolveToolPolicy p) = [] \<longleftrightarrow> policy_valid p"
  by (simp add: gate_defs policy_valid_def Let_def)

lemma resolve_authority:
  assumes "rp_Known (resolveToolPolicy p)"
  shows "rp_AuthorityPolicy (resolveToolPolicy p) =
    (if normalizedPermissionMode (tp_PermissionMode p) = ''plan'' then ''read_only''
     else if normalizedPermissionMode (tp_PermissionMode p) = ''default'' then ''workspace_write''
     else ''full_access'')"
  using assms by (simp add: gate_defs Let_def split: if_splits)

lemma resolve_approval:
  assumes "rp_Known (resolveToolPolicy p)"
  shows "rp_ApprovalPolicy (resolveToolPolicy p) =
    (if normalizedPolicyValue (tp_ApprovalPolicy p) = [] then ''never'' else normalizedPolicyValue (tp_ApprovalPolicy p))"
  using assms by (simp add: gate_defs Let_def split: if_splits)

text \<open>
  The gate authorizes a tool exactly when the policy is valid and the tool either only
  reads, or writes under a mode other than plan whose approval policy is not on request.
  In particular plan mode and an empty mode never authorize a write, and an invalid sandbox
  profile or approval policy authorizes nothing.
\<close>

theorem authorizeKernelTool_iff:
  "ta_Allowed (authorizeKernelTool p spec) \<longleftrightarrow>
     policy_valid p \<and>
     (ts_SideEffectLevel spec = ''read'' \<or>
      ts_SideEffectLevel spec = ''write'' \<and>
      normalizedPermissionMode (tp_PermissionMode p) \<noteq> ''plan'' \<and>
      normalizedPolicyValue (tp_ApprovalPolicy p) \<noteq> ''on_request'')"
  using resolve_valid_iff [of p] resolve_authority [of p] resolve_approval [of p]
  by (auto simp: authorizeKernelTool_def Let_def split: if_splits)

text \<open>
  An approval is asked for exactly for a writing tool under a valid policy with a mode
  other than plan whose approval policy is on request; every refusal carries a reason and
  an authorization carries none.
\<close>

theorem authorizeKernelTool_approval_required:
  "(ta_Reason (authorizeKernelTool p spec) = ''approval_required'' \<longleftrightarrow>
      policy_valid p \<and> ts_SideEffectLevel spec = ''write'' \<and>
      normalizedPermissionMode (tp_PermissionMode p) \<noteq> ''plan'' \<and>
      normalizedPolicyValue (tp_ApprovalPolicy p) = ''on_request'') \<and>
   (ta_Reason (authorizeKernelTool p spec) = [] \<longleftrightarrow> ta_Allowed (authorizeKernelTool p spec))"
proof -
  have "rp_InvalidReason (resolveToolPolicy p) \<noteq> ''approval_required''"
    by (simp add: gate_defs Let_def)
  then show ?thesis
    using resolve_valid_iff [of p] resolve_authority [of p] resolve_approval [of p]
    by (auto simp: authorizeKernelTool_def Let_def split: if_splits)
qed

lemma normalizedToolPolicy_mode:
  "normalizedPermissionMode (tp_PermissionMode (normalizedToolPolicy p)) \<in> {''plan'', ''default'', ''yolo''}"
proof -
  have m: "tp_PermissionMode (normalizedToolPolicy p) \<in> {''plan'', ''default'', ''yolo''}"
    by (simp add: normalizedToolPolicy_def Let_def)
  have "normalizedPermissionMode mode = mode" if "mode \<in> {''plan'', ''default'', ''yolo''}" for mode
  proof -
    from that have "TrimSpace mode = mode"
      by (intro TrimSpace_plain) (auto simp: plain_ends_def ascii_space_def)
    moreover from that have "ToLower mode = mode" by (auto simp: lower_char_def)
    ultimately show ?thesis using that by (auto simp: normalizedPermissionMode_def)
  qed
  with m show ?thesis by metis
qed

end
