(* ===== verification/Agent_Invocation.thy ===== *)
theory Agent_Invocation
  imports Authority_Gate Sample_Kernel
begin

text \<open>
  Admission of agent invocations (\<^verbatim>\<open>agent_invocation.go\<close>, \<^verbatim>\<open>agent_invocation_types.go\<close>):
  capability grants, the projection of the log to invocations and runs, admission with an
  idempotency key, and worker admission under the concurrency limits of the configuration.
  The runs themselves are in \<open>Agent_Runs\<close>.

  The configuration file a worker admission reads is an argument: the result of
  \<open>ResolveParentWorkerRuntimeFromGenesis\<close>.
\<close>

section \<open>Model\<close>

record AgentInvocationAdmissionRequest =
  aq_SessionID :: string
  aq_ParentTurnID :: string
  aq_ParentInvocationID :: string
  aq_Principal :: string
  aq_AgentProfileRef :: string
  aq_CapabilityGrant :: CapabilityGrant
  aq_ContextScope :: string
  aq_ParentResultChannel :: string
  aq_IdempotencyKey :: string

record WorkerInvocationAdmissionRequest =
  wq_RoleID :: string
  wq_SessionID :: string
  wq_ParentTurnID :: string
  wq_ParentInvocationID :: string
  wq_Principal :: string
  wq_RequestedToolNames :: "string list"
  wq_ContextScope :: string
  wq_ParentResultChannel :: string
  wq_IdempotencyKey :: string

record ParentBindingProjection =
  pb_ParentID :: string
  pb_DefaultWorkerRole :: string
  pb_CanCreateWorkers :: bool
  pb_MaxChildren :: int

record WorkerRoleBindingProjection =
  wb_RoleID :: string
  wb_ProfileID :: string
  wb_ProviderRoute :: string
  wb_ToolSet :: "string list"
  wb_ContextPolicyRef :: string
  wb_MaxParallel :: int
  wb_ProfileMaxParallel :: int
  wb_RouteMaxParallel :: int

record ParentWorkerRuntimeProjection =
  pw_Parent :: ParentBindingProjection
  pw_WorkerRoles :: "WorkerRoleBindingProjection list"

definition ErrAgentInvocationNotFound :: go_error where
  "ErrAgentInvocationNotFound = Sentinel ''agent invocation not found''"
definition ErrAgentInvocationAlreadyRunning :: go_error where
  "ErrAgentInvocationAlreadyRunning = Sentinel ''agent invocation already running''"
definition ErrAgentInvocationAlreadyTerminal :: go_error where
  "ErrAgentInvocationAlreadyTerminal = Sentinel ''agent invocation already terminal''"
definition ErrGenesisWorkerRoleBindingMissing :: go_error where
  "ErrGenesisWorkerRoleBindingMissing = Sentinel ''genesis worker role binding missing''"

subsection \<open>Capability grants\<close>

definition normalizeCapabilityGrant :: "CapabilityGrant \<Rightarrow> CapabilityGrant" where
  "normalizeCapabilityGrant grant = \<lparr>cg_ToolNames = sort (trim_dedup (cg_ToolNames grant))\<rparr>"

definition toolRegistry_Resolve :: "kernel \<Rightarrow> string \<Rightarrow> ToolSpec option" where
  "toolRegistry_Resolve k name = go_lookup (env_toolRegistry (k_env k)) (TrimSpace name)"

fun grant_tools_allowed :: "kernel \<Rightarrow> string list \<Rightarrow> go_error option" where
  "grant_tools_allowed k [] = None"
| "grant_tools_allowed k (toolName # tools) =
     (case toolRegistry_Resolve k toolName of
        None \<Rightarrow> Some (Errorf ''capability_grant_unknown_tool: %s'' [toolName])
      | Some spec \<Rightarrow>
          if \<not> ta_Allowed (authorizeKernelTool (env_toolPolicy (k_env k)) spec)
          then Some (Errorf ''capability_grant_tool_not_allowed: %s'' [toolName])
          else grant_tools_allowed k tools)"

definition validateGrantToolsAllowed :: "kernel \<Rightarrow> CapabilityGrant \<Rightarrow> go_error option" where
  "validateGrantToolsAllowed k grant = grant_tools_allowed k (cg_ToolNames grant)"

definition validateGrantSubset :: "CapabilityGrant \<Rightarrow> CapabilityGrant \<Rightarrow> go_error option" where
  "validateGrantSubset child parent =
     (case find (\<lambda>toolName. toolName \<notin> set (cg_ToolNames parent)) (cg_ToolNames child) of
        Some toolName \<Rightarrow> Some (Errorf ''capability_grant_exceeds_parent: %s'' [toolName])
      | None \<Rightarrow> None)"

definition admitCapabilityGrant ::
  "kernel \<Rightarrow> CapabilityGrant \<Rightarrow> AgentInvocationProjection option \<Rightarrow> CapabilityGrant res" where
  "admitCapabilityGrant k grant parent =
     (let normalized = normalizeCapabilityGrant grant
      in case validateGrantToolsAllowed k normalized of Some err \<Rightarrow> Inl err | None \<Rightarrow>
         case parent of
           None \<Rightarrow> Inr normalized
         | Some p \<Rightarrow>
             (case validateGrantSubset normalized (ai_CapabilityGrant p) of
                Some err \<Rightarrow> Inl err | None \<Rightarrow> Inr normalized))"

definition validateRequestedWorkerTools :: "string list \<Rightarrow> string list \<Rightarrow> go_error option" where
  "validateRequestedWorkerTools requested roleTools =
     (let grant = normalizeCapabilityGrant \<lparr>cg_ToolNames = requested\<rparr>
      in case find (\<lambda>tool. tool \<notin> set roleTools) (cg_ToolNames grant) of
           Some tool \<Rightarrow> Some (Errorf ''capability_grant_exceeds_role: %s'' [tool])
         | None \<Rightarrow> None)"

subsection \<open>Projections\<close>

definition sameAgentInvocation :: "AgentInvocationProjection \<Rightarrow> AgentInvocationProjection \<Rightarrow> bool" where
  "sameAgentInvocation left right \<longleftrightarrow>
     ai_InvocationID left = ai_InvocationID right \<and> ai_SessionID left = ai_SessionID right \<and>
     ai_ParentRoleID left = ai_ParentRoleID right \<and>
     ai_ParentInvocationID left = ai_ParentInvocationID right \<and>
     ai_Principal left = ai_Principal right \<and> ai_AgentProfileRef left = ai_AgentProfileRef right \<and>
     ai_ModelProfileID left = ai_ModelProfileID right \<and> ai_ProviderRoute left = ai_ProviderRoute right \<and>
     ai_ContextScope left = ai_ContextScope right \<and>
     ai_ParentResultChannel left = ai_ParentResultChannel right \<and>
     ai_Status left = ai_Status right \<and> ai_IdempotencyKey left = ai_IdempotencyKey right \<and>
     ai_AdmittedAt left = ai_AdmittedAt right \<and>
     cg_ToolNames (ai_CapabilityGrant left) = cg_ToolNames (ai_CapabilityGrant right)"

definition admitted_fact :: "StoredEvent \<Rightarrow> AgentInvocationProjection option" where
  "admitted_fact event =
     (if ev_Type event \<noteq> ''agent_invocation.admitted'' then None
      else map_option (\<lambda>invocation.
        let invocation = (if ai_SessionID invocation = [] then invocation\<lparr>ai_SessionID := ev_SessionID event\<rparr> else invocation);
            invocation = (if ai_AdmittedAt invocation = 0 then invocation\<lparr>ai_AdmittedAt := ev_CreatedAt event\<rparr> else invocation)
        in invocation\<lparr>ai_CapabilityGrant := normalizeCapabilityGrant (ai_CapabilityGrant invocation)\<rparr>)
        (ed_AgentInvocation (ev_Data event)))"

definition agentInvocations_step ::
  "AgentInvocationProjection go_map \<Rightarrow> StoredEvent \<Rightarrow> AgentInvocationProjection go_map res" where
  "agentInvocations_step invocations event =
     (case admitted_fact event of
        None \<Rightarrow> Inr invocations
      | Some invocation \<Rightarrow>
          if ai_InvocationID invocation = []
          then Inl (errors_New ''agent_invocation.admitted event missing invocation id'')
          else case go_lookup invocations (ai_InvocationID invocation) of
              Some current \<Rightarrow>
                if \<not> sameAgentInvocation current invocation
                then Inl (Errorf ''competing agent invocation fact for %s'' [ai_InvocationID invocation])
                else Inr (go_store (ai_InvocationID invocation) invocation invocations)
            | None \<Rightarrow> Inr (go_store (ai_InvocationID invocation) invocation invocations))"

definition agentInvocations :: "kernel \<Rightarrow> AgentInvocationProjection go_map res" where
  "agentInvocations k = bind_res (loadEvents k) (replay agentInvocations_step [])"

definition agentInvocationRuns_step ::
  "AgentInvocationRunProjection go_map \<Rightarrow> StoredEvent \<Rightarrow> AgentInvocationRunProjection go_map res" where
  "agentInvocationRuns_step runs event =
     (case ed_AgentInvocationRun (ev_Data event) of
        None \<Rightarrow> Inr runs
      | Some run \<Rightarrow>
          if ar_RunID run = [] then Inl (errors_New ''agent invocation run event missing run id'')
          else
            let run = (if ar_SessionID run = [] then run\<lparr>ar_SessionID := ev_SessionID event\<rparr> else run);
                run = (if ar_StartedAt run = 0 then run\<lparr>ar_StartedAt := ev_CreatedAt event\<rparr> else run)
            in Inr (go_store (ar_RunID run) run runs))"

definition agentInvocationRuns :: "kernel \<Rightarrow> AgentInvocationRunProjection go_map res" where
  "agentInvocationRuns k = bind_res (loadEvents k) (replay agentInvocationRuns_step [])"

definition isTerminalAgentInvocationRun :: "AgentInvocationRunProjection \<Rightarrow> bool" where
  "isTerminalAgentInvocationRun run \<longleftrightarrow> ar_Status run = ''completed'' \<or> ar_Status run = ''failed''"

fun select_run ::
  "string \<Rightarrow> AgentInvocationRunProjection option \<Rightarrow> AgentInvocationRunProjection list \<Rightarrow> AgentInvocationRunProjection option" where
  "select_run invocationID selected [] = selected"
| "select_run invocationID selected (run # runs) =
     (if ar_InvocationID run \<noteq> invocationID then select_run invocationID selected runs
      else case selected of
          None \<Rightarrow> select_run invocationID (Some run) runs
        | Some s \<Rightarrow>
            if ar_StartedAt run > ar_StartedAt s \<or> ar_StartedAt run = ar_StartedAt s \<and> ar_RunID run > ar_RunID s
            then select_run invocationID (Some run) runs
            else select_run invocationID selected runs)"

definition runsForInvocation ::
  "(string list \<Rightarrow> string list) \<Rightarrow> AgentInvocationRunProjection go_map \<Rightarrow> string \<Rightarrow> AgentInvocationRunProjection option" where
  "runsForInvocation ord runs invocationID = select_run invocationID None (go_values ord runs)"

definition agentInvocationByIdempotencyKey ::
  "kernel \<Rightarrow> string \<Rightarrow> string \<Rightarrow> AgentInvocationProjection option res" where
  "agentInvocationByIdempotencyKey k sessionID key =
     bind_res (agentInvocations k) (\<lambda>invocations.
       Inr (find (\<lambda>invocation. ai_SessionID invocation = sessionID \<and> ai_IdempotencyKey invocation = key)
              (go_values (map_order k) invocations)))"

definition AgentInvocation :: "string \<Rightarrow> kernel \<Rightarrow> AgentInvocationProjection res" where
  "AgentInvocation invocationID k =
     (let invocationID = TrimSpace invocationID
      in if invocationID = [] then Inl (errors_New ''invocation_id is required'')
         else bind_res (agentInvocations k) (\<lambda>invocations.
           case go_lookup invocations invocationID of
             None \<Rightarrow> Inl ErrAgentInvocationNotFound | Some invocation \<Rightarrow> Inr invocation))"

definition agentInvocationRoleID :: "string \<Rightarrow> string" where
  "agentInvocationRoleID agentProfileRef =
     (let agentProfileRef = TrimSpace agentProfileRef
      in if \<not> HasPrefix agentProfileRef ''agent_profile:'' then []
         else TrimSpace (TrimPrefix agentProfileRef ''agent_profile:''))"

text \<open>The listing of a session: the invocations with the status of their latest run, by time and identifier.\<close>

definition AgentInvocations :: "string \<Rightarrow> kernel \<Rightarrow> AgentInvocationProjection list res" where
  "AgentInvocations sessionID k =
     (let sessionID = TrimSpace sessionID
      in if sessionID = [] then Inl (errors_New ''session_id is required'')
         else bind_res (agentInvocations k) (\<lambda>invocations.
           bind_res (agentInvocationRuns k) (\<lambda>runs.
             Inr (sort_key ai_AdmittedAt (sort_key ai_InvocationID
               (map (\<lambda>invocation. case runsForInvocation (map_order k) runs (ai_InvocationID invocation) of
                    Some run \<Rightarrow> invocation\<lparr>ai_Status := ar_Status run\<rparr> | None \<Rightarrow> invocation)
                 (filter (\<lambda>invocation. ai_SessionID invocation = sessionID)
                   (go_values (map_order k) invocations))))))))"

subsection \<open>Admission\<close>

definition validateAgentInvocationAdmissionRequest :: "AgentInvocationAdmissionRequest \<Rightarrow> go_error option" where
  "validateAgentInvocationAdmissionRequest req =
     (if TrimSpace (aq_SessionID req) = [] then Some (errors_New ''session_id is required'')
      else if TrimSpace (aq_Principal req) = [] then Some (errors_New ''principal is required'')
      else first_error
        [validateKernelControlToken ''session_id'' (aq_SessionID req),
         validateKernelAuthority ''principal'' (aq_Principal req),
         validateKernelControlToken ''parent_invocation_id'' (aq_ParentInvocationID req),
         validateKernelControlToken ''parent_turn_id'' (aq_ParentTurnID req),
         validateKernelRefIfPresent ''agent_profile_ref'' (aq_AgentProfileRef req),
         validateKernelControlToken ''context_scope'' (aq_ContextScope req),
         validateKernelRefIfPresent ''parent_result_channel'' (aq_ParentResultChannel req),
         validateIdempotencyKey (aq_IdempotencyKey req)])"

definition new_invocation ::
  "AgentInvocationAdmissionRequest \<Rightarrow> string \<Rightarrow> string \<Rightarrow> string \<Rightarrow> CapabilityGrant \<Rightarrow> string \<Rightarrow> time \<Rightarrow> AgentInvocationProjection" where
  "new_invocation req modelProfileID providerRoute parentRoleID grant invocationID now =
     \<lparr>ai_InvocationID = invocationID, ai_SessionID = TrimSpace (aq_SessionID req),
      ai_ParentRoleID = TrimSpace parentRoleID, ai_ParentTurnID = TrimSpace (aq_ParentTurnID req),
      ai_ParentInvocationID = TrimSpace (aq_ParentInvocationID req),
      ai_Principal = TrimSpace (aq_Principal req), ai_AgentProfileRef = TrimSpace (aq_AgentProfileRef req),
      ai_ModelProfileID = TrimSpace modelProfileID, ai_ProviderRoute = TrimSpace providerRoute,
      ai_CapabilityGrant = grant, ai_ContextScope = TrimSpace (aq_ContextScope req),
      ai_ParentResultChannel = TrimSpace (aq_ParentResultChannel req), ai_Status = ''admitted'',
      ai_IdempotencyKey = TrimSpace (aq_IdempotencyKey req), ai_AdmittedAt = now\<rparr>"

definition invocation_event :: "string \<Rightarrow> time \<Rightarrow> AgentInvocationProjection \<Rightarrow> StoredEvent" where
  "invocation_event eventID now invocation =
     no_event\<lparr>ev_EventID := eventID, ev_SessionID := ai_SessionID invocation,
       ev_Type := ''agent_invocation.admitted'', ev_CreatedAt := now,
       ev_Data := no_data\<lparr>ed_AgentInvocation := Some invocation\<rparr>\<rparr>"

definition parent_invocation ::
  "AgentInvocationProjection go_map \<Rightarrow> string \<Rightarrow> string \<Rightarrow> AgentInvocationProjection option res" where
  "parent_invocation invocations parentInvocationID sessionID =
     (if parentInvocationID = [] then Inr None
      else case go_lookup invocations parentInvocationID of
          None \<Rightarrow> Inl (errors_New ''parent_invocation_not_found'')
        | Some parent \<Rightarrow>
            if ai_SessionID parent \<noteq> sessionID then Inl (errors_New ''parent_invocation_session_mismatch'')
            else Inr (Some parent))"

definition admitAgentInvocationLocked ::
  "AgentInvocationAdmissionRequest \<Rightarrow> string \<Rightarrow> string \<Rightarrow> string \<Rightarrow> kernel \<Rightarrow> AgentInvocationProjection res \<times> kernel" where
  "admitAgentInvocationLocked req modelProfileID providerRoute parentRoleID k =
     (let sessionID = TrimSpace (aq_SessionID req);
          key = TrimSpace (aq_IdempotencyKey req)
      in case (if key \<noteq> [] then agentInvocationByIdempotencyKey k sessionID key else Inr None) of
           Inl err \<Rightarrow> (Inl err, k)
         | Inr (Some existing) \<Rightarrow> (Inr existing, k)
         | Inr None \<Rightarrow>
         case agentInvocations k of Inl err \<Rightarrow> (Inl err, k) | Inr invocations \<Rightarrow>
         case parent_invocation invocations (TrimSpace (aq_ParentInvocationID req)) sessionID of
           Inl err \<Rightarrow> (Inl err, k) | Inr parent \<Rightarrow>
         case admitCapabilityGrant k (aq_CapabilityGrant req) parent of Inl err \<Rightarrow> (Inl err, k) | Inr grant \<Rightarrow>
         let (now, k) = clock k;
             (invocationID, k) = newID ''invocation'' now k;
             invocation = new_invocation req modelProfileID providerRoute parentRoleID grant invocationID now;
             (eventID, k) = newID ''evt'' now k
         in append_return (invocation_event eventID now invocation) invocation k)"

definition admitAgentInvocation ::
  "AgentInvocationAdmissionRequest \<Rightarrow> string \<Rightarrow> string \<Rightarrow> string \<Rightarrow> kernel \<Rightarrow> AgentInvocationProjection res \<times> kernel" where
  "admitAgentInvocation req modelProfileID providerRoute parentRoleID k =
     (case validateAgentInvocationAdmissionRequest req of Some err \<Rightarrow> (Inl err, k) | None \<Rightarrow>
      case validateKernelControlToken ''model_profile_id'' modelProfileID of Some err \<Rightarrow> (Inl err, k) | None \<Rightarrow>
      admitAgentInvocationLocked req modelProfileID providerRoute parentRoleID k)"

definition AdmitAgentInvocation :: "AgentInvocationAdmissionRequest \<Rightarrow> kernel \<Rightarrow> AgentInvocationProjection res \<times> kernel" where
  "AdmitAgentInvocation req k = admitAgentInvocation req [] [] [] k"

subsection \<open>Worker admission\<close>

definition workerRoleByID :: "WorkerRoleBindingProjection list \<Rightarrow> string \<Rightarrow> WorkerRoleBindingProjection option" where
  "workerRoleByID workers roleID = find (\<lambda>worker. wb_RoleID worker = TrimSpace roleID) workers"

text \<open>The invocations the concurrency limits count: those whose latest run is not terminal.\<close>

definition invocation_active ::
  "(string list \<Rightarrow> string list) \<Rightarrow> AgentInvocationRunProjection go_map \<Rightarrow> AgentInvocationProjection \<Rightarrow> bool" where
  "invocation_active ord runs invocation \<longleftrightarrow>
     (case runsForInvocation ord runs (ai_InvocationID invocation) of
        Some run \<Rightarrow> \<not> isTerminalAgentInvocationRun run | None \<Rightarrow> True)"

definition count_active :: "kernel \<Rightarrow> (AgentInvocationProjection \<Rightarrow> bool) \<Rightarrow> int res" where
  "count_active k P =
     bind_res (agentInvocations k) (\<lambda>invocations.
       bind_res (agentInvocationRuns k) (\<lambda>runs.
         Inr (int (length (filter (\<lambda>invocation. P invocation \<and> invocation_active (map_order k) runs invocation)
           (go_values (map_order k) invocations))))))"

definition admitWorkerParentConcurrency :: "kernel \<Rightarrow> ParentBindingProjection \<Rightarrow> go_error option" where
  "admitWorkerParentConcurrency k parent =
     (case count_active k (\<lambda>invocation. TrimSpace (ai_ParentRoleID invocation) = pb_ParentID parent) of
        Inl err \<Rightarrow> Some err
      | Inr active \<Rightarrow> if active \<ge> pb_MaxChildren parent
          then Some (errors_New ''parallel_limit_exceeded: parent_max_children'') else None)"

definition admitWorkerRoleConcurrency :: "kernel \<Rightarrow> WorkerRoleBindingProjection \<Rightarrow> go_error option" where
  "admitWorkerRoleConcurrency k worker =
     (case count_active k (\<lambda>invocation. agentInvocationRoleID (ai_AgentProfileRef invocation) = wb_RoleID worker) of
        Inl err \<Rightarrow> Some err
      | Inr active \<Rightarrow> if active \<ge> wb_MaxParallel worker
          then Some (errors_New ''parallel_limit_exceeded: worker_role'') else None)"

definition admitWorkerProfileAndRouteConcurrency :: "kernel \<Rightarrow> WorkerRoleBindingProjection \<Rightarrow> go_error option" where
  "admitWorkerProfileAndRouteConcurrency k worker =
     (if wb_ProfileMaxParallel worker \<le> 0 \<and> wb_RouteMaxParallel worker \<le> 0 then None
      else case count_active k (\<lambda>invocation. ai_ModelProfileID invocation = wb_ProfileID worker) of
        Inl err \<Rightarrow> Some err | Inr profileActive \<Rightarrow>
      case count_active k (\<lambda>invocation. ai_ProviderRoute invocation = wb_ProviderRoute worker) of
        Inl err \<Rightarrow> Some err | Inr routeActive \<Rightarrow>
      if wb_ProfileMaxParallel worker > 0 \<and> profileActive \<ge> wb_ProfileMaxParallel worker
      then Some (errors_New ''parallel_limit_exceeded: model_profile'')
      else if wb_RouteMaxParallel worker > 0 \<and> routeActive \<ge> wb_RouteMaxParallel worker
      then Some (errors_New ''parallel_limit_exceeded: provider_route'')
      else None)"

definition worker_admission_request ::
  "WorkerInvocationAdmissionRequest \<Rightarrow> WorkerRoleBindingProjection \<Rightarrow> AgentInvocationAdmissionRequest" where
  "worker_admission_request req worker =
     (let contextScope = TrimSpace (wq_ContextScope req);
          contextScope = (if contextScope = [] then TrimSpace (wb_ContextPolicyRef worker) else contextScope)
      in \<lparr>aq_SessionID = wq_SessionID req, aq_ParentTurnID = wq_ParentTurnID req,
          aq_ParentInvocationID = wq_ParentInvocationID req, aq_Principal = wq_Principal req,
          aq_AgentProfileRef = ''agent_profile:'' @ wb_RoleID worker,
          aq_CapabilityGrant = \<lparr>cg_ToolNames = wb_ToolSet worker\<rparr>, aq_ContextScope = contextScope,
          aq_ParentResultChannel = wq_ParentResultChannel req, aq_IdempotencyKey = wq_IdempotencyKey req\<rparr>)"

definition AdmitWorkerInvocationFromRole ::
  "ParentWorkerRuntimeProjection res \<Rightarrow> WorkerInvocationAdmissionRequest \<Rightarrow> kernel \<Rightarrow> AgentInvocationProjection res \<times> kernel" where
  "AdmitWorkerInvocationFromRole resolved req k =
     (case resolved of Inl err \<Rightarrow> (Inl err, k) | Inr runtime \<Rightarrow>
      if \<not> pb_CanCreateWorkers (pw_Parent runtime) then (Inl (errors_New ''parent_worker_creation_denied''), k)
      else
        let roleID = TrimSpace (wq_RoleID req);
            roleID = (if roleID = [] then TrimSpace (pb_DefaultWorkerRole (pw_Parent runtime)) else roleID)
        in case workerRoleByID (pw_WorkerRoles runtime) roleID of
             None \<Rightarrow> (Inl ErrGenesisWorkerRoleBindingMissing, k)
           | Some worker \<Rightarrow>
               (case first_error
                   [admitWorkerParentConcurrency k (pw_Parent runtime), admitWorkerRoleConcurrency k worker,
                    admitWorkerProfileAndRouteConcurrency k worker,
                    validateRequestedWorkerTools (wq_RequestedToolNames req) (wb_ToolSet worker)] of
                  Some err \<Rightarrow> (Inl err, k)
                | None \<Rightarrow>
                    admitAgentInvocationLocked (worker_admission_request req worker) (wb_ProfileID worker)
                      (wb_ProviderRoute worker) (pb_ParentID (pw_Parent runtime)) k))"

section \<open>Grants\<close>

lemma set_normalizeCapabilityGrant [simp]:
  "set (cg_ToolNames (normalizeCapabilityGrant g)) = TrimSpace ` set (cg_ToolNames g) - {[]}"
  by (simp add: normalizeCapabilityGrant_def)

lemma normalizeCapabilityGrant_idem [simp]:
  "normalizeCapabilityGrant (normalizeCapabilityGrant g) = normalizeCapabilityGrant g"
proof -
  have "trim_dedup (sort (trim_dedup ts)) = sort (trim_dedup ts)" for ts
    by (rule trim_dedup_id) auto
  then show ?thesis by (simp add: normalizeCapabilityGrant_def sort_key_id_if_sorted)
qed

definition tool_authorized :: "kernel_env \<Rightarrow> string \<Rightarrow> bool" where
  "tool_authorized env toolName \<longleftrightarrow>
     (\<exists>spec. go_lookup (env_toolRegistry env) (TrimSpace toolName) = Some spec \<and>
        ta_Allowed (authorizeKernelTool (env_toolPolicy env) spec))"

lemma grant_tools_allowed_None:
  "grant_tools_allowed k ts = None \<longleftrightarrow> (\<forall>t \<in> set ts. tool_authorized (k_env k) t)"
  by (induction k ts rule: grant_tools_allowed.induct)
    (auto simp: tool_authorized_def toolRegistry_Resolve_def split: option.splits)

lemma validateGrantSubset_None:
  "validateGrantSubset child parent = None \<longleftrightarrow> set (cg_ToolNames child) \<subseteq> set (cg_ToolNames parent)"
  by (auto simp: validateGrantSubset_def find_None_iff dest!: find_SomeD split: option.splits)

lemma admitCapabilityGrant_Inr:
  assumes "admitCapabilityGrant k g parent = Inr grant"
  shows "grant = normalizeCapabilityGrant g"
    and "\<forall>t \<in> set (cg_ToolNames grant). tool_authorized (k_env k) t"
    and "\<forall>p. parent = Some p \<longrightarrow> set (cg_ToolNames grant) \<subseteq> set (cg_ToolNames (ai_CapabilityGrant p))"
  using assms
  by (auto simp: admitCapabilityGrant_def Let_def validateGrantToolsAllowed_def grant_tools_allowed_None
      validateGrantSubset_None split: option.splits)

section \<open>The log of admissions\<close>

interpretation ag: keyed_log agentInvocations_step admitted_fact ai_InvocationID
proof
  show "agentInvocations_step m e = Inr m" if "admitted_fact e = None" for e m
    using that by (simp add: agentInvocations_step_def)
  show "agentInvocations_step m e = Inr (go_store (ai_InvocationID v) v m)"
    if "admitted_fact e = Some v" "ai_InvocationID v \<noteq> []" "go_lookup m (ai_InvocationID v) \<in> {None, Some v}" for e v m
    using that by (auto simp: agentInvocations_step_def sameAgentInvocation_def)
qed

abbreviation admissions :: "kernel \<Rightarrow> AgentInvocationProjection set" where
  "admissions k \<equiv> ag.facts (set (k_rows k))"

abbreviation tools :: "AgentInvocationProjection \<Rightarrow> string set" where
  "tools v \<equiv> set (cg_ToolNames (ai_CapabilityGrant v))"

text \<open>
  A grant is contained when its tools are registered and authorized by the policy of the
  kernel and, for a delegated invocation, part of the grant of a parent of the same session.
\<close>

definition grant_contained :: "kernel_env \<Rightarrow> AgentInvocationProjection set \<Rightarrow> AgentInvocationProjection \<Rightarrow> bool" where
  "grant_contained env F v \<longleftrightarrow> (\<forall>t \<in> tools v. tool_authorized env t) \<and>
     (ai_ParentInvocationID v \<noteq> [] \<longrightarrow>
        (\<exists>p \<in> F. ai_InvocationID p = ai_ParentInvocationID v \<and> ai_SessionID p = ai_SessionID v \<and> tools v \<subseteq> tools p))"

definition agent_inv :: "kernel \<Rightarrow> bool" where
  "agent_inv k \<longleftrightarrow> env_ok (k_env k) \<and> ag.consistent (admissions k) \<and>
     ai_InvocationID ` admissions k \<subseteq> allocated k \<and>
     (\<forall>v \<in> admissions k. \<forall>w \<in> admissions k. ai_SessionID v = ai_SessionID w \<longrightarrow>
        ai_IdempotencyKey v = ai_IdempotencyKey w \<longrightarrow> ai_IdempotencyKey v \<noteq> [] \<longrightarrow> v = w) \<and>
     (\<forall>v \<in> admissions k. grant_contained (k_env k) (admissions k) v)"

lemma agent_inv_grant: "agent_inv k \<Longrightarrow> v \<in> admissions k \<Longrightarrow> grant_contained (k_env k) (admissions k) v"
  by (simp add: agent_inv_def)

lemma agentInvocations_spec:
  assumes "agent_inv k" and "loadEvents k = Inr es"
  obtains m where "agentInvocations k = Inr m" and "distinct (map fst m)"
    and "\<And>i v. go_lookup m i = Some v \<longleftrightarrow> v \<in> admissions k \<and> ai_InvocationID v = i"
proof -
  have es: "set es = set (k_rows k)" using assms(2) by (rule loadEvents_set)
  with assms(1) have "ag.consistent (ag.facts (set es))" by (simp add: agent_inv_def)
  from ag.replay_facts [OF this] es assms(2) that show thesis by (auto simp: agentInvocations_def)
qed

lemma agentInvocations_Inr:
  assumes "agent_inv k" and "agentInvocations k = Inr m"
  shows "distinct (map fst m)"
    and "go_lookup m i = Some v \<longleftrightarrow> v \<in> admissions k \<and> ai_InvocationID v = i"
proof -
  from assms(2) obtain es where es: "loadEvents k = Inr es"
    by (auto simp: agentInvocations_def bind_res_Inr_iff)
  from agentInvocations_spec [OF assms(1) es] assms(2)
  show "distinct (map fst m)" "go_lookup m i = Some v \<longleftrightarrow> v \<in> admissions k \<and> ai_InvocationID v = i"
    by (metis sum.inject(2))+
qed

lemma agentInvocations_values:
  assumes "agent_inv k" and "agentInvocations k = Inr m"
  shows "set (go_values (map_order k) m) = admissions k"
  using assms agentInvocations_Inr(2) [OF assms]
  by (auto simp: set_go_values env_ok_order agent_inv_def ran_def)

lemma invocation_event_fact:
  "normalizeCapabilityGrant (ai_CapabilityGrant v) = ai_CapabilityGrant v \<Longrightarrow> ai_AdmittedAt v = t \<Longrightarrow>
     admitted_fact (invocation_event i t v) = Some v"
  by (cases v) (auto simp: admitted_fact_def invocation_event_def Let_def)

lemma admit_cases [consumes 1, case_names rejected replayed admitted]:
  assumes "admitAgentInvocationLocked req mp pr role k = (r, k')"
  obtains err where "r = Inl err" and "kernel_ext k k' []"
  | v where "r = Inr v" and "k' = k" and "TrimSpace (aq_IdempotencyKey req) \<noteq> []"
      and "agentInvocationByIdempotencyKey k (TrimSpace (aq_SessionID req)) (TrimSpace (aq_IdempotencyKey req)) = Inr (Some v)"
  | i t n m parent grant v where "r = Inr v" and "kernel_ext k k' [invocation_event i t v]"
      and "t = fst (clock k)" and "n = fst (newID ''invocation'' t (snd (clock k)))"
      and "k_draws k' = Suc (Suc (k_draws k))"
      and "v = new_invocation req mp pr role grant n t" and "agentInvocations k = Inr m"
      and "parent_invocation m (TrimSpace (aq_ParentInvocationID req)) (TrimSpace (aq_SessionID req)) = Inr parent"
      and "admitCapabilityGrant k (aq_CapabilityGrant req) parent = Inr grant"
      and "TrimSpace (aq_IdempotencyKey req) \<noteq> [] \<Longrightarrow>
        agentInvocationByIdempotencyKey k (TrimSpace (aq_SessionID req)) (TrimSpace (aq_IdempotencyKey req)) = Inr None"
proof -
  define key where "key = TrimSpace (aq_IdempotencyKey req)"
  define found where "found = (if key \<noteq> [] then agentInvocationByIdempotencyKey k (TrimSpace (aq_SessionID req)) key else Inr None)"
  define t where "t = fst (clock k)"
  define k1 where "k1 = snd (clock k)"
  define n where "n = fst (newID ''invocation'' t k1)"
  define k2 where "k2 = snd (newID ''invocation'' t k1)"
  define i where "i = fst (newID ''evt'' t k2)"
  define k3 where "k3 = snd (newID ''evt'' t k2)"
  note defs = key_def found_def t_def k1_def n_def k2_def i_def k3_def
  have ext: "kernel_ext k k' es" if "kernel_ext k3 k' es" for es
    using that unfolding k3_def k2_def k1_def by (rule kernel_ext_stamp2)
  have "(\<exists>err. r = Inl err \<and> k' = k) \<or>
    (\<exists>v. found = Inr (Some v) \<and> r = Inr v \<and> k' = k) \<or>
    (\<exists>m parent grant. found = Inr None \<and> agentInvocations k = Inr m \<and>
       parent_invocation m (TrimSpace (aq_ParentInvocationID req)) (TrimSpace (aq_SessionID req)) = Inr parent \<and>
       admitCapabilityGrant k (aq_CapabilityGrant req) parent = Inr grant \<and>
       append_return (invocation_event i t (new_invocation req mp pr role grant n t)) (new_invocation req mp pr role grant n t) k3 = (r, k'))"
    using assms unfolding admitAgentInvocationLocked_def Let_def key_def [symmetric] found_def [symmetric]
    by (simp add: t_def k1_def n_def k2_def i_def k3_def split_beta split: option.splits sum.splits) auto
  then show ?thesis
  proof (elim disjE exE conjE)
    fix err assume "r = Inl err" "k' = k"
    with that(1) show ?thesis by simp
  next
    fix v assume "found = Inr (Some v)" "r = Inr v" "k' = k"
    with that(2) show ?thesis by (simp add: found_def key_def split: if_splits)
  next
    fix m parent grant
    assume *: "found = Inr None" "agentInvocations k = Inr m"
      "parent_invocation m (TrimSpace (aq_ParentInvocationID req)) (TrimSpace (aq_SessionID req)) = Inr parent"
      "admitCapabilityGrant k (aq_CapabilityGrant req) parent = Inr grant"
      "append_return (invocation_event i t (new_invocation req mp pr role grant n t)) (new_invocation req mp pr role grant n t) k3 = (r, k')"
    from *(5) show ?thesis
    proof (cases rule: append_return_cases)
      case appended
      with * show ?thesis
        by (intro that(3) [of "new_invocation req mp pr role grant n t" i t n grant m parent])
          (simp_all add: ext defs split: if_splits)
    next
      case (failed err)
      then show ?thesis by (intro that(1) ext)
    qed
  qed
qed

section \<open>The admission invariant\<close>

lemma agentInvocationByIdempotencyKey_spec:
  assumes inv: "agent_inv k" and found: "agentInvocationByIdempotencyKey k s key = Inr o'"
  shows "case o' of
      Some v \<Rightarrow> v \<in> admissions k \<and> ai_SessionID v = s \<and> ai_IdempotencyKey v = key
    | None \<Rightarrow> \<forall>v \<in> admissions k. ai_SessionID v = s \<longrightarrow> ai_IdempotencyKey v \<noteq> key"
proof -
  from found obtain m where m: "agentInvocations k = Inr m"
    and o': "o' = find (\<lambda>v. ai_SessionID v = s \<and> ai_IdempotencyKey v = key) (go_values (map_order k) m)"
    by (auto simp: agentInvocationByIdempotencyKey_def bind_res_Inr_iff)
  show ?thesis
  proof (cases o')
    case None
    with o' have "find (\<lambda>v. ai_SessionID v = s \<and> ai_IdempotencyKey v = key) (go_values (map_order k) m) = None"
      by simp
    from find_NoneD [OF this] None show ?thesis by (auto simp: agentInvocations_values [OF inv m])
  next
    case (Some v)
    with o' have "find (\<lambda>v. ai_SessionID v = s \<and> ai_IdempotencyKey v = key) (go_values (map_order k) m) = Some v"
      by simp
    from find_SomeD [OF this] Some show ?thesis by (simp add: agentInvocations_values [OF inv m])
  qed
qed

lemma agent_inv_other:
  assumes inv: "agent_inv k" and ext: "kernel_ext k k' es" and "\<forall>e \<in> set es. admitted_fact e = None"
  shows "agent_inv k'" and "admissions k' = admissions k"
proof -
  show same: "admissions k' = admissions k"
    using ext ag.facts_none [OF assms(3)] by (simp add: kernel_ext_def ag.facts_Un)
  have "k_env k' = k_env k" using ext by (simp add: kernel_ext_def)
  with inv allocated_ext [OF ext] show "agent_inv k'"
    unfolding agent_inv_def same by auto
qed

lemma agent_inv_admitted:
  assumes inv: "agent_inv k" and ext: "kernel_ext k k' [invocation_event i t v]"
    and fact: "admitted_fact (invocation_event i t v) = Some v"
    and id: "ai_InvocationID v \<noteq> []" "ai_InvocationID v \<notin> allocated k" "ai_InvocationID v \<in> allocated k'"
    and key: "ai_IdempotencyKey v \<noteq> [] \<Longrightarrow>
      \<forall>w \<in> admissions k. ai_SessionID w = ai_SessionID v \<longrightarrow> ai_IdempotencyKey w \<noteq> ai_IdempotencyKey v"
    and grant: "grant_contained (k_env k) (admissions k) v"
  shows "agent_inv k'" and "admissions k' = insert v (admissions k)"
proof -
  have env: "k_env k' = k_env k" using ext by (simp add: kernel_ext_def)
  show ins: "admissions k' = insert v (admissions k)"
    using ext fact ag.facts_Un [of "{invocation_event i t v}" "set (k_rows k)"]
    by (simp add: kernel_ext_def ag.facts_single)
  have fresh: "ai_InvocationID v \<notin> ai_InvocationID ` admissions k"
    using inv id(2) by (auto simp: agent_inv_def)
  have "ag.consistent (admissions k')"
    unfolding ins using inv id(1) fresh by (intro ag.consistent_insert) (simp_all add: agent_inv_def)
  moreover have "ai_InvocationID ` admissions k' \<subseteq> allocated k'"
    using inv id(3) allocated_ext [OF ext] by (auto simp: ins agent_inv_def)
  moreover have "\<forall>x \<in> admissions k'. \<forall>y \<in> admissions k'. ai_SessionID x = ai_SessionID y \<longrightarrow>
      ai_IdempotencyKey x = ai_IdempotencyKey y \<longrightarrow> ai_IdempotencyKey x \<noteq> [] \<longrightarrow> x = y"
    using inv key unfolding ins agent_inv_def by (metis insert_iff)
  moreover have "grant_contained (k_env k) (insert v (admissions k)) x" if "x \<in> insert v (admissions k)" for x
    using that inv grant unfolding agent_inv_def grant_contained_def by (metis insert_iff)
  ultimately show "agent_inv k'"
    using inv env unfolding agent_inv_def ins by simp
qed

lemma new_invocation_contained:
  assumes inv: "agent_inv k" and m: "agentInvocations k = Inr m"
    and parent: "parent_invocation m (TrimSpace (aq_ParentInvocationID req)) (TrimSpace (aq_SessionID req)) = Inr parent"
    and grant: "admitCapabilityGrant k (aq_CapabilityGrant req) parent = Inr grant"
  shows "grant_contained (k_env k) (admissions k) (new_invocation req mp pr role grant n t)"
proof -
  note g = admitCapabilityGrant_Inr [OF grant]
  have "\<exists>p \<in> admissions k. ai_InvocationID p = TrimSpace (aq_ParentInvocationID req) \<and>
      ai_SessionID p = TrimSpace (aq_SessionID req) \<and> set (cg_ToolNames grant) \<subseteq> tools p"
    if "TrimSpace (aq_ParentInvocationID req) \<noteq> []"
  proof -
    from parent that have "\<exists>p. go_lookup m (TrimSpace (aq_ParentInvocationID req)) = Some p \<and> parent = Some p \<and>
      ai_SessionID p = TrimSpace (aq_SessionID req)"
      unfolding parent_invocation_def
      by (cases "go_lookup m (TrimSpace (aq_ParentInvocationID req))") (simp_all split: if_splits)
    with g(3) agentInvocations_Inr(2) [OF inv m] show ?thesis by auto
  qed
  with g(2) show ?thesis by (simp add: grant_contained_def new_invocation_def)
qed

lemma admit_spec:
  assumes inv: "agent_inv k" and run: "admitAgentInvocationLocked req mp pr role k = (r, k')"
  shows "agent_inv k'"
    and "r = Inr v \<Longrightarrow> v \<in> admissions k' \<and> ai_SessionID v = TrimSpace (aq_SessionID req) \<and>
      ai_IdempotencyKey v = TrimSpace (aq_IdempotencyKey req)"
    and "r = Inr v \<Longrightarrow> k' = k \<or> (ai_InvocationID v \<notin> allocated k \<and> admissions k' = insert v (admissions k) \<and>
      (\<exists>i t. kernel_ext k k' [invocation_event i t v]))"
proof -
  have "agent_inv k' \<and> (\<forall>v. r = Inr v \<longrightarrow> v \<in> admissions k' \<and> ai_SessionID v = TrimSpace (aq_SessionID req) \<and>
      ai_IdempotencyKey v = TrimSpace (aq_IdempotencyKey req) \<and>
      (k' = k \<or> (ai_InvocationID v \<notin> allocated k \<and> admissions k' = insert v (admissions k) \<and>
      (\<exists>i t. kernel_ext k k' [invocation_event i t v]))))"
    using run
  proof (cases rule: admit_cases)
    case (rejected err)
    then show ?thesis using agent_inv_other [OF inv rejected(2)] by simp
  next
    case (replayed v)
    with agentInvocationByIdempotencyKey_spec [OF inv replayed(4)] inv show ?thesis by simp
  next
    case (admitted i t n m parent grant v)
    have uniq: "ulid_unique (k_env k)" using inv by (simp add: agent_inv_def env_ok_ulid)
    have v: "ai_InvocationID v = n" "ai_SessionID v = TrimSpace (aq_SessionID req)"
      "ai_IdempotencyKey v = TrimSpace (aq_IdempotencyKey req)" "ai_AdmittedAt v = t" "ai_CapabilityGrant v = grant"
      using admitted(6) by (simp_all add: new_invocation_def)
    have fresh: "ai_InvocationID v \<notin> allocated k"
      using newID_fresh [of "snd (clock k)"] uniq admitted(4) v(1) by simp
    have "n \<in> allocated (snd (newID ''invocation'' t (snd (clock k))))"
      using newID_allocated [of "snd (clock k)"] uniq admitted(4) by simp
    then have alloc: "ai_InvocationID v \<in> allocated k'"
      using allocated_mono [of k' "snd (newID ''invocation'' t (snd (clock k)))"] admitted(2,5) v(1)
      by (auto simp: kernel_ext_def)
    have "normalizeCapabilityGrant grant = grant" using admitCapabilityGrant_Inr(1) [OF admitted(9)] by simp
    then have fact: "admitted_fact (invocation_event i t v) = Some v"
      by (intro invocation_event_fact) (simp_all add: v)
    have key: "\<forall>w \<in> admissions k. ai_SessionID w = ai_SessionID v \<longrightarrow> ai_IdempotencyKey w \<noteq> ai_IdempotencyKey v"
      if "ai_IdempotencyKey v \<noteq> []"
      using agentInvocationByIdempotencyKey_spec [OF inv admitted(10)] that v by simp
    have "ai_InvocationID v \<noteq> []" using v(1) admitted(4) by simp
    note agent_inv_admitted [OF inv admitted(2) fact this fresh alloc key
        new_invocation_contained [OF inv admitted(7,8,9), of mp pr role n t, folded admitted(6)]]
    with admitted(1,2) v fresh show ?thesis by auto
  qed
  then show "agent_inv k'"
    "r = Inr v \<Longrightarrow> v \<in> admissions k' \<and> ai_SessionID v = TrimSpace (aq_SessionID req) \<and>
      ai_IdempotencyKey v = TrimSpace (aq_IdempotencyKey req)"
    "r = Inr v \<Longrightarrow> k' = k \<or> (ai_InvocationID v \<notin> allocated k \<and> admissions k' = insert v (admissions k) \<and>
      (\<exists>i t. kernel_ext k k' [invocation_event i t v]))"
    by blast+
qed

text \<open>The two public admissions are the locked one, or fail and change nothing.\<close>

lemma AdmitAgentInvocation_cases:
  "AdmitAgentInvocation req k = (r, k') \<Longrightarrow>
     (\<exists>err. r = Inl err \<and> k' = k) \<or> admitAgentInvocationLocked req [] [] [] k = (r, k')"
  by (auto simp: AdmitAgentInvocation_def admitAgentInvocation_def split: option.splits)

lemma AdmitWorker_cases:
  assumes "AdmitWorkerInvocationFromRole resolved req k = (r, k')"
  shows "(\<exists>err. r = Inl err \<and> k' = k) \<or>
    (\<exists>runtime worker. resolved = Inr runtime \<and>
       workerRoleByID (pw_WorkerRoles runtime) (let roleID = TrimSpace (wq_RoleID req) in
         if roleID = [] then TrimSpace (pb_DefaultWorkerRole (pw_Parent runtime)) else roleID) = Some worker \<and>
       pb_CanCreateWorkers (pw_Parent runtime) \<and>
       admitWorkerParentConcurrency k (pw_Parent runtime) = None \<and> admitWorkerRoleConcurrency k worker = None \<and>
       admitWorkerProfileAndRouteConcurrency k worker = None \<and>
       validateRequestedWorkerTools (wq_RequestedToolNames req) (wb_ToolSet worker) = None \<and>
       admitAgentInvocationLocked (worker_admission_request req worker) (wb_ProfileID worker)
         (wb_ProviderRoute worker) (pb_ParentID (pw_Parent runtime)) k = (r, k'))"
proof (cases resolved)
  case (Inl err)
  with assms show ?thesis by (auto simp: AdmitWorkerInvocationFromRole_def)
next
  case (Inr runtime)
  define roleID where "roleID = (let roleID = TrimSpace (wq_RoleID req) in
    if roleID = [] then TrimSpace (pb_DefaultWorkerRole (pw_Parent runtime)) else roleID)"
  show ?thesis
  proof (cases "pb_CanCreateWorkers (pw_Parent runtime)")
    case False
    with assms Inr show ?thesis by (auto simp: AdmitWorkerInvocationFromRole_def)
  next
    case True
    show ?thesis
    proof (cases "workerRoleByID (pw_WorkerRoles runtime) roleID")
      case None
      with assms Inr True show ?thesis by (auto simp: AdmitWorkerInvocationFromRole_def roleID_def Let_def)
    next
      case (Some worker)
      define checks where "checks = [admitWorkerParentConcurrency k (pw_Parent runtime), admitWorkerRoleConcurrency k worker,
        admitWorkerProfileAndRouteConcurrency k worker,
        validateRequestedWorkerTools (wq_RequestedToolNames req) (wb_ToolSet worker)]"
      have "AdmitWorkerInvocationFromRole resolved req k = (case first_error checks of Some err \<Rightarrow> (Inl err, k) | None \<Rightarrow>
        admitAgentInvocationLocked (worker_admission_request req worker) (wb_ProfileID worker)
         (wb_ProviderRoute worker) (pb_ParentID (pw_Parent runtime)) k)"
        using Inr True Some by (simp add: AdmitWorkerInvocationFromRole_def roleID_def Let_def checks_def)
      with assms have "(\<exists>err. r = Inl err \<and> k' = k) \<or> first_error checks = None \<and>
        admitAgentInvocationLocked (worker_admission_request req worker) (wb_ProfileID worker)
         (wb_ProviderRoute worker) (pb_ParentID (pw_Parent runtime)) k = (r, k')"
        by (auto split: option.splits)
      with Inr True Some show ?thesis by (auto simp: roleID_def checks_def)
    qed
  qed
qed

section \<open>Counting active invocations\<close>

text \<open>
  The run an invocation is judged by does not depend on the iteration order of the map: it is
  the latest by start time and identifier.
\<close>

definition run_le :: "AgentInvocationRunProjection \<Rightarrow> AgentInvocationRunProjection \<Rightarrow> bool" where
  "run_le q r \<longleftrightarrow> ar_StartedAt q < ar_StartedAt r \<or> ar_StartedAt q = ar_StartedAt r \<and> ar_RunID q \<le> ar_RunID r"

lemma run_le_trans: "run_le p q \<Longrightarrow> run_le q r \<Longrightarrow> run_le p r"
  by (auto simp: run_le_def)

definition latest_run :: "AgentInvocationRunProjection set \<Rightarrow> AgentInvocationRunProjection option \<Rightarrow> bool" where
  "latest_run R o' \<longleftrightarrow> (case o' of None \<Rightarrow> R = {} | Some r \<Rightarrow> r \<in> R \<and> (\<forall>q \<in> R. run_le q r))"

lemma select_run_latest:
  "latest_run R sel \<Longrightarrow> latest_run (R \<union> {r \<in> set xs. ar_InvocationID r = i}) (select_run i sel xs)"
proof (induction i sel xs arbitrary: R rule: select_run.induct)
  case (1 i sel)
  then show ?case by (simp add: latest_run_def)
next
  case (2 i sel run xs)
  show ?case
  proof (cases "ar_InvocationID run = i")
    case False
    then have "{r \<in> set (run # xs). ar_InvocationID r = i} = {r \<in> set xs. ar_InvocationID r = i}" by auto
    with False "2.IH"(1) "2.prems" show ?thesis by simp
  next
    case True
    then have un: "R \<union> {r \<in> set (run # xs). ar_InvocationID r = i} = insert run R \<union> {r \<in> set xs. ar_InvocationID r = i}"
      by auto
    show ?thesis
    proof (cases sel)
      case None
      with "2.prems" have "latest_run (insert run R) (Some run)" by (simp add: latest_run_def run_le_def)
      from "2.IH"(2) [OF _ None this] True None show ?thesis unfolding un by simp
    next
      case (Some s)
      show ?thesis
      proof (cases "ar_StartedAt run > ar_StartedAt s \<or> ar_StartedAt run = ar_StartedAt s \<and> ar_RunID run > ar_RunID s")
        case later: True
        with "2.prems" Some have "latest_run (insert run R) (Some run)"
          by (auto simp: latest_run_def run_le_def intro: order.strict_implies_order)
        from "2.IH"(3) [OF _ Some later this] True Some later show ?thesis unfolding un by simp
      next
        case earlier: False
        with "2.prems" Some have "latest_run (insert run R) (Some s)"
          by (auto simp: latest_run_def run_le_def not_less)
        with Some have "latest_run (insert run R) sel" by simp
        from "2.IH"(4) [OF _ Some earlier this] True Some earlier show ?thesis unfolding un by auto
      qed
    qed
  qed
qed

lemma latest_run_unique:
  assumes "latest_run R a" and "latest_run R b" and "inj_on ar_RunID R"
  shows "a = b"
proof -
  have "r = q" if "r \<in> R" "q \<in> R" "run_le q r" "run_le r q" for r q
    using that assms(3) by (auto simp: run_le_def inj_on_def)
  with assms(1,2) show ?thesis by (auto simp: latest_run_def split: option.splits)
qed

interpretation rn: replayed agentInvocationRuns_step "[] :: AgentInvocationRunProjection go_map"
  "\<lambda>m. distinct (map fst m) \<and> (\<forall>i r. go_lookup m i = Some r \<longrightarrow> ar_RunID r = i)"
proof
  fix m e m'
  assume inv: "distinct (map fst m) \<and> (\<forall>i r. go_lookup m i = Some r \<longrightarrow> ar_RunID r = i)"
    and step: "agentInvocationRuns_step m e = Inr m'"
  show "distinct (map fst m') \<and> (\<forall>i r. go_lookup m' i = Some r \<longrightarrow> ar_RunID r = i)"
  proof (cases "ed_AgentInvocationRun (ev_Data e)")
    case None
    with step inv show ?thesis by (simp add: agentInvocationRuns_step_def)
  next
    case (Some run)
    define run' where "run' = (let run = (if ar_SessionID run = [] then run\<lparr>ar_SessionID := ev_SessionID e\<rparr> else run)
      in if ar_StartedAt run = 0 then run\<lparr>ar_StartedAt := ev_CreatedAt e\<rparr> else run)"
    have "m' = go_store (ar_RunID run') run' m"
      using step Some by (auto simp: agentInvocationRuns_step_def run'_def Let_def split: if_splits)
    with inv show ?thesis by auto
  qed
qed simp

lemma runsForInvocation_order:
  assumes "permutes_keys ord" and "permutes_keys ord'"
    and "distinct (map fst runs)" and "\<forall>i r. go_lookup runs i = Some r \<longrightarrow> ar_RunID r = i"
  shows "runsForInvocation ord runs i = runsForInvocation ord' runs i"
proof (rule latest_run_unique)
  let ?R = "{r \<in> ran (go_lookup runs). ar_InvocationID r = i}"
  have *: "latest_run ?R (runsForInvocation od runs i)" if "permutes_keys od" for od
    using select_run_latest [of "{}" None "go_values od runs" i] set_go_values [OF that, of runs]
    by (simp add: runsForInvocation_def latest_run_def)
  from * assms(1,2) show "latest_run ?R (runsForInvocation ord runs i)" "latest_run ?R (runsForInvocation ord' runs i)"
    by blast+
  show "inj_on ar_RunID ?R"
    using assms(4) by (auto simp: inj_on_def ran_def)
qed

lemma count_admissions:
  assumes inv: "agent_inv k" and m: "agentInvocations k = Inr m"
  shows "length (filter P (go_values (map_order k) m)) = card {v \<in> admissions k. P v}"
proof -
  note dist = agentInvocations_Inr(1) [OF inv m]
  have snd: "snd p \<in> admissions k \<and> ai_InvocationID (snd p) = fst p" if "p \<in> set m" for p
    using that agentInvocations_Inr(2) [OF inv m, of "fst p" "snd p"] dist by (metis map_of_eq_Some_iff prod.collapse)
  have "distinct (map snd m)"
  proof -
    have "distinct (map ai_InvocationID (map snd m))"
    proof -
      have "map ai_InvocationID (map snd m) = map fst m" using snd by simp
      with dist show ?thesis by metis
    qed
    then show ?thesis by (simp only: distinct_map)
  qed
  moreover have "set (map snd m) = admissions k"
  proof -
    have "mset (go_values (map_order k) m) = mset (map snd m)"
      using inv dist by (intro mset_go_values) (auto simp: agent_inv_def env_ok_order)
    with agentInvocations_values [OF inv m] show ?thesis by (metis mset_eq_setD)
  qed
  ultimately have "card {v \<in> admissions k. P v} = length (filter P (map snd m))"
    by (metis distinct_card distinct_filter set_filter)
  also have "\<dots> = length (filter P (go_values (map_order k) m))"
    using inv dist by (intro count_go_values [symmetric]) (auto simp: agent_inv_def env_ok_order)
  finally show ?thesis by simp
qed

lemma finite_admissions: "finite (admissions k)"
proof -
  have "admissions k \<subseteq> (\<lambda>e. the (admitted_fact e)) ` set (k_rows k)"
    by (force simp: ag.facts_def)
  then show ?thesis by (rule finite_subset) simp
qed

text \<open>An admission raises the count of any kind of active invocation by one at most.\<close>

lemma count_active_admitted:
  assumes inv: "agent_inv k" and inv': "agent_inv k'" and ins: "admissions k' = insert v (admissions k)"
    and ext: "kernel_ext k k' [invocation_event i t v]"
    and n: "count_active k P = Inr n" and n': "count_active k' P = Inr n'"
  shows "n' \<le> n + 1"
proof -
  from n obtain m runs where m: "agentInvocations k = Inr m" "agentInvocationRuns k = Inr runs"
    "n = int (length (filter (\<lambda>v. P v \<and> invocation_active (map_order k) runs v) (go_values (map_order k) m)))"
    by (auto simp: count_active_def bind_res_Inr_iff)
  from n' obtain m' runs' where m': "agentInvocations k' = Inr m'" "agentInvocationRuns k' = Inr runs'"
    "n' = int (length (filter (\<lambda>v. P v \<and> invocation_active (map_order k') runs' v) (go_values (map_order k') m')))"
    by (auto simp: count_active_def bind_res_Inr_iff)
  from m(2) m'(2) obtain es es' where es: "loadEvents k = Inr es" "loadEvents k' = Inr es'"
    "replay agentInvocationRuns_step [] es = Inr runs" "replay agentInvocationRuns_step [] es' = Inr runs'"
    by (auto simp: agentInvocationRuns_def bind_res_Inr_iff)
  have "replay agentInvocationRuns_step [] es' = replay agentInvocationRuns_step [] es"
    by (rule replay_ext_skip [OF ext, where P = "\<lambda>e. ed_AgentInvocationRun (ev_Data e) \<noteq> None"])
      (simp_all add: agentInvocationRuns_step_def invocation_event_def es)
  with es have runs: "runs' = runs" by simp
  have "permutes_keys (map_order k)" "permutes_keys (map_order k')"
    using inv inv' by (simp_all add: agent_inv_def env_ok_order)
  with rn.inv_replay [OF es(3)] have act: "invocation_active (map_order k') runs = invocation_active (map_order k) runs"
    unfolding invocation_active_def by (metis runsForInvocation_order)
  let ?Q = "\<lambda>v. P v \<and> invocation_active (map_order k) runs v"
  have "n' = int (card {w \<in> insert v (admissions k). ?Q w})"
    using m'(3) count_admissions [OF inv' m'(1), of ?Q] by (simp add: runs act ins)
  also have "\<dots> \<le> int (Suc (card {w \<in> admissions k. ?Q w}))"
  proof -
    have "{w \<in> insert v (admissions k). ?Q w} \<subseteq> insert v {w \<in> admissions k. ?Q w}" by auto
    then have "card {w \<in> insert v (admissions k). ?Q w} \<le> card (insert v {w \<in> admissions k. ?Q w})"
      by (intro card_mono) (auto simp: finite_admissions)
    also have "\<dots> \<le> Suc (card {w \<in> admissions k. ?Q w})"
      by (rule card_insert_le_m1) auto
    finally show ?thesis by simp
  qed
  also have "int (Suc (card {w \<in> admissions k. ?Q w})) = n + 1"
    using m(3) count_admissions [OF inv m(1), of ?Q] by simp
  finally show ?thesis .
qed

section \<open>Runs\<close>

text \<open>Admissions in any order, among anything else that appends no admission.\<close>

inductive agent_run :: "kernel \<Rightarrow> kernel \<Rightarrow> bool" where
  stay: "agent_run k k"
| admit: "agent_run k k' \<Longrightarrow> AdmitAgentInvocation req k' = (r, k'') \<Longrightarrow> agent_run k k''"
| admit_worker: "agent_run k k' \<Longrightarrow> AdmitWorkerInvocationFromRole resolved wreq k' = (r, k'') \<Longrightarrow> agent_run k k''"
| other: "agent_run k k' \<Longrightarrow> kernel_ext k' k'' es \<Longrightarrow> \<forall>e \<in> set es. admitted_fact e = None \<Longrightarrow> agent_run k k''"

lemma AdmitAgentInvocation_inv: "agent_inv k \<Longrightarrow> AdmitAgentInvocation req k = (r, k') \<Longrightarrow> agent_inv k'"
  by (drule AdmitAgentInvocation_cases) (auto dest: admit_spec(1))

lemma AdmitWorker_inv: "agent_inv k \<Longrightarrow> AdmitWorkerInvocationFromRole rs req k = (r, k') \<Longrightarrow> agent_inv k'"
  by (drule AdmitWorker_cases) (auto dest: admit_spec(1))

lemma agent_run_inv: "agent_run k k' \<Longrightarrow> agent_inv k \<Longrightarrow> agent_inv k'"
  by (induction rule: agent_run.induct) (auto intro: AdmitAgentInvocation_inv AdmitWorker_inv agent_inv_other)

lemma agent_inv_empty: "env_ok (k_env k) \<Longrightarrow> k_rows k = [] \<Longrightarrow> agent_inv k"
  by (simp add: agent_inv_def ag.facts_def ag.consistent_def)

lemma admit_ext: "admitAgentInvocationLocked req mp pr role k = (r, k') \<Longrightarrow> \<exists>es. kernel_ext k k' es"
  by (erule admit_cases) blast+

lemma agent_run_ext: "agent_run k k' \<Longrightarrow> \<exists>es. kernel_ext k k' es"
proof (induction rule: agent_run.induct)
  case (admit k k' req r k'')
  from AdmitAgentInvocation_cases [OF admit.hyps(2)] have "\<exists>es. kernel_ext k' k'' es"
    using admit_ext kernel_ext_refl by blast
  with admit.IH show ?case by (blast intro: kernel_ext_trans)
next
  case (admit_worker k k' resolved wreq r k'')
  from AdmitWorker_cases [OF admit_worker.hyps(2)] have "\<exists>es. kernel_ext k' k'' es"
    using admit_ext kernel_ext_refl by blast
  with admit_worker.IH show ?case by (blast intro: kernel_ext_trans)
qed (blast intro: kernel_ext_trans)+

lemma agent_run_admissions: "agent_run k k' \<Longrightarrow> admissions k \<subseteq> admissions k'"
  using agent_run_ext [of k k'] by (auto simp: kernel_ext_def ag.facts_Un)

section \<open>Properties\<close>

definition sample_admission :: "string \<Rightarrow> string \<Rightarrow> AgentInvocationAdmissionRequest" where
  "sample_admission parent key = \<lparr>aq_SessionID = ''s1'', aq_ParentTurnID = [], aq_ParentInvocationID = parent,
     aq_Principal = ''application:a'', aq_AgentProfileRef = [],
     aq_CapabilityGrant = \<lparr>cg_ToolNames = ['' read_resource'', ''read_resource'']\<rparr>,
     aq_ContextScope = [], aq_ParentResultChannel = [], aq_IdempotencyKey = key\<rparr>"

definition agent_k1 :: kernel where
  "agent_k1 = snd (AdmitAgentInvocation (sample_admission [] ''k1'') sample_kernel)"

definition agent_k2 :: kernel where
  "agent_k2 = snd (AdmitAgentInvocation (sample_admission ''invocation_'' ''k2'') agent_k1)"

lemma agent_k1_run: "agent_run sample_kernel agent_k1"
  unfolding agent_k1_def by (rule agent_run.admit [OF agent_run.stay prod.collapse [symmetric]])

lemma agent_k12_run: "agent_run agent_k1 agent_k2"
  unfolding agent_k2_def by (rule agent_run.admit [OF agent_run.stay prod.collapse [symmetric]])

lemma agent_k2_run: "agent_run sample_kernel agent_k2"
  unfolding agent_k2_def by (rule agent_run.admit [OF agent_k1_run prod.collapse [symmetric]])

definition sample_runtime :: ParentWorkerRuntimeProjection where
  "sample_runtime = \<lparr>pw_Parent = \<lparr>pb_ParentID = ''parent'', pb_DefaultWorkerRole = ''w'', pb_CanCreateWorkers = True,
       pb_MaxChildren = 1\<rparr>,
     pw_WorkerRoles = [\<lparr>wb_RoleID = ''w'', wb_ProfileID = ''p'', wb_ProviderRoute = ''r'', wb_ToolSet = [''read_resource''],
       wb_ContextPolicyRef = [], wb_MaxParallel = 1, wb_ProfileMaxParallel = 1, wb_RouteMaxParallel = 2\<rparr>]\<rparr>"

definition sample_worker_request :: WorkerInvocationAdmissionRequest where
  "sample_worker_request = \<lparr>wq_RoleID = [], wq_SessionID = ''s1'', wq_ParentTurnID = [], wq_ParentInvocationID = [],
     wq_Principal = ''application:a'', wq_RequestedToolNames = [], wq_ContextScope = [], wq_ParentResultChannel = [],
     wq_IdempotencyKey = []\<rparr>"

definition worker_k1 :: kernel where
  "worker_k1 = snd (AdmitWorkerInvocationFromRole (Inr sample_runtime) sample_worker_request sample_kernel)"

text \<open>The delegation edges of a projection: from an invocation to the one it was delegated by.\<close>

definition delegated_by :: "AgentInvocationProjection go_map \<Rightarrow> (string \<times> string) set" where
  "delegated_by m = {(i, j). \<exists>v. go_lookup m i = Some v \<and> ai_ParentInvocationID v = j \<and> j \<noteq> []}"

text \<open>
  C6: no delegation widens authority. In every state reached from an empty ledger, every
  tool of an invocation's grant is registered and authorized by the kernel's policy, and
  every ancestor of the invocation, at any depth of delegation, exists, is of the same
  session and holds every tool of that grant.
\<close>

theorem delegation_never_widens:
  assumes "env_ok (k_env k)" and "k_rows k = []" and "agent_run k k'" and "agentInvocations k' = Inr m"
    and "go_lookup m i = Some v" and "(i, j) \<in> (delegated_by m)\<^sup>*"
  shows "(\<forall>t \<in> set (cg_ToolNames (ai_CapabilityGrant v)). tool_authorized (k_env k') t) \<and>
    (\<exists>p. go_lookup m j = Some p \<and> ai_SessionID p = ai_SessionID v \<and>
       set (cg_ToolNames (ai_CapabilityGrant v)) \<subseteq> set (cg_ToolNames (ai_CapabilityGrant p)))"
proof -
  have inv: "agent_inv k'" using assms(1-3) agent_run_inv agent_inv_empty by blast
  note look = agentInvocations_Inr(2) [OF inv assms(4)]
  have "v \<in> admissions k'" using look assms(5) by simp
  with agent_inv_grant [OF inv] have "\<forall>t \<in> tools v. tool_authorized (k_env k') t"
    by (simp add: grant_contained_def)
  moreover have "\<exists>p. go_lookup m j = Some p \<and> ai_SessionID p = ai_SessionID v \<and> tools v \<subseteq> tools p"
    using assms(6)
  proof (induction rule: rtrancl_induct)
    case base
    with assms(5) show ?case by blast
  next
    case (step x y)
    then obtain p where p: "go_lookup m x = Some p" "ai_SessionID p = ai_SessionID v" "tools v \<subseteq> tools p" by blast
    with step.hyps(2) have y: "ai_ParentInvocationID p = y" "y \<noteq> []" by (auto simp: delegated_by_def)
    from p(1) look have "p \<in> admissions k'" by simp
    with agent_inv_grant [OF inv] y obtain q where
      "q \<in> admissions k'" "ai_InvocationID q = y" "ai_SessionID q = ai_SessionID p" "tools p \<subseteq> tools q"
      unfolding grant_contained_def by metis
    with look p show ?case by (intro exI [of _ q]) auto
  qed
  ultimately show ?thesis by blast
qed

theorem delegation_never_widens_witness:
  "\<exists>m v p. agentInvocations agent_k2 = Inr m \<and> go_lookup m ''invocation_xx'' = Some v \<and>
     go_lookup m ''invocation_'' = Some p \<and> ai_SessionID p = ai_SessionID v \<and>
     cg_ToolNames (ai_CapabilityGrant v) = [''read_resource''] \<and>
     set (cg_ToolNames (ai_CapabilityGrant v)) \<subseteq> set (cg_ToolNames (ai_CapabilityGrant p))"
proof -
  define m where "m = projr (agentInvocations agent_k2)"
  have m: "agentInvocations agent_k2 = Inr m" unfolding m_def by (rule res_eq) code_simp
  have "map_option (\<lambda>v. (ai_ParentInvocationID v, cg_ToolNames (ai_CapabilityGrant v))) (go_lookup m ''invocation_xx'') =
      Some (''invocation_'', [''read_resource''])"
    unfolding m_def by code_simp
  then obtain v where v: "go_lookup m ''invocation_xx'' = Some v" "ai_ParentInvocationID v = ''invocation_''"
    "cg_ToolNames (ai_CapabilityGrant v) = [''read_resource'']" by auto
  then have "(''invocation_xx'', ''invocation_'') \<in> (delegated_by m)\<^sup>*"
    by (intro r_into_rtrancl) (simp add: delegated_by_def)
  from delegation_never_widens [OF sample_env_ok sample_rows agent_k2_run m v(1) this] m v show ?thesis by blast
qed

text \<open>
  An admission with an idempotency key that was already admitted in its session, made
  in any later state, returns the invocation of the first admission, whatever grant, parent
  or principal it names, and changes nothing.
\<close>

theorem AdmitAgentInvocation_idempotent:
  assumes "env_ok (k_env k)" and "k_rows k = []" and "agent_run k k0"
    and "AdmitAgentInvocation req k0 = (Inr v, k1)" and "agent_run k1 k2"
    and "AdmitAgentInvocation req' k2 = (Inr v', k3)"
    and "TrimSpace (aq_SessionID req') = TrimSpace (aq_SessionID req)"
    and "TrimSpace (aq_IdempotencyKey req') = TrimSpace (aq_IdempotencyKey req)"
    and "TrimSpace (aq_IdempotencyKey req) \<noteq> []"
  shows "v' = v \<and> k3 = k2"
proof -
  have inv0: "agent_inv k0" using assms(1-3) agent_run_inv agent_inv_empty by blast
  from AdmitAgentInvocation_cases [OF assms(4)] have first: "admitAgentInvocationLocked req [] [] [] k0 = (Inr v, k1)" by simp
  from AdmitAgentInvocation_cases [OF assms(6)] have again: "admitAgentInvocationLocked req' [] [] [] k2 = (Inr v', k3)" by simp
  have inv2: "agent_inv k2" using admit_spec(1) [OF inv0 first] assms(5) agent_run_inv by blast
  have v: "v \<in> admissions k2" "ai_SessionID v = TrimSpace (aq_SessionID req)"
    "ai_IdempotencyKey v = TrimSpace (aq_IdempotencyKey req)"
    using admit_spec(2) [OF inv0 first] agent_run_admissions [OF assms(5)] by auto
  from again show ?thesis
  proof (cases rule: admit_cases)
    case (rejected err)
    then show ?thesis by simp
  next
    case (replayed w)
    with agentInvocationByIdempotencyKey_spec [OF inv2 replayed(4)] v assms(7-9)
    have w: "w \<in> admissions k2" "ai_SessionID w = ai_SessionID v" "ai_IdempotencyKey w = ai_IdempotencyKey v"
      "ai_IdempotencyKey v \<noteq> []" by auto
    have "w = v" using inv2 w v(1) unfolding agent_inv_def by metis
    with replayed show ?thesis by simp
  next
    case (admitted i t n m parent grant w)
    have "TrimSpace (aq_IdempotencyKey req') \<noteq> []" using assms(8,9) by simp
    with agentInvocationByIdempotencyKey_spec [OF inv2 admitted(10)] v assms(7,8) show ?thesis by auto
  qed
qed

theorem AdmitAgentInvocation_idempotent_witness:
  "fst (AdmitAgentInvocation (sample_admission ''invocation_'' ''k1'') agent_k2) =
     fst (AdmitAgentInvocation (sample_admission [] ''k1'') sample_kernel)"
proof -
  have 1: "ok (AdmitAgentInvocation (sample_admission [] ''k1'') sample_kernel)" by code_simp
  have 2: "ok (AdmitAgentInvocation (sample_admission ''invocation_'' ''k1'') agent_k2)" by code_simp
  have 3: "TrimSpace (aq_IdempotencyKey (sample_admission [] ''k1'')) \<noteq> []" by code_simp
  have same: "TrimSpace (aq_SessionID (sample_admission ''invocation_'' ''k1'')) = TrimSpace (aq_SessionID (sample_admission [] ''k1''))"
    "TrimSpace (aq_IdempotencyKey (sample_admission ''invocation_'' ''k1'')) = TrimSpace (aq_IdempotencyKey (sample_admission [] ''k1''))"
    by (simp_all add: sample_admission_def)
  show ?thesis
    using AdmitAgentInvocation_idempotent [OF sample_env_ok sample_rows agent_run.stay
        ok_eq [OF 1, folded agent_k1_def] agent_k12_run ok_eq [OF 2] same 3] ok_eq [OF 1] ok_eq [OF 2]
    by (metis fst_conv)
qed

text \<open>
  C7: a worker admission that creates an invocation leaves the kernel within every limit of
  its configuration: the active invocations of the parent do not exceed its maximum number
  of children, those of the worker role its parallel limit, and, where they are set, those
  of the model profile and of the provider route their limits.
\<close>

theorem AdmitWorker_within_limits:
  assumes "env_ok (k_env k)" and "k_rows k = []" and "agent_run k k0"
    and "AdmitWorkerInvocationFromRole (Inr runtime) req k0 = (Inr v, k1)" and "k1 \<noteq> k0"
    and "count_active k1 (\<lambda>i. TrimSpace (ai_ParentRoleID i) = pb_ParentID (pw_Parent runtime)) = Inr children"
    and "workerRoleByID (pw_WorkerRoles runtime) (let roleID = TrimSpace (wq_RoleID req) in
        if roleID = [] then TrimSpace (pb_DefaultWorkerRole (pw_Parent runtime)) else roleID) = Some worker"
    and "count_active k1 (\<lambda>i. agentInvocationRoleID (ai_AgentProfileRef i) = wb_RoleID worker) = Inr inRole"
    and "count_active k1 (\<lambda>i. ai_ModelProfileID i = wb_ProfileID worker) = Inr inProfile"
    and "count_active k1 (\<lambda>i. ai_ProviderRoute i = wb_ProviderRoute worker) = Inr inRoute"
  shows "children \<le> pb_MaxChildren (pw_Parent runtime) \<and> inRole \<le> wb_MaxParallel worker \<and>
    (0 < wb_ProfileMaxParallel worker \<longrightarrow> inProfile \<le> wb_ProfileMaxParallel worker) \<and>
    (0 < wb_RouteMaxParallel worker \<longrightarrow> inRoute \<le> wb_RouteMaxParallel worker)"
proof -
  have inv0: "agent_inv k0" using assms(1-3) agent_run_inv agent_inv_empty by blast
  from AdmitWorker_cases [OF assms(4)] assms(7) have
    checks: "admitWorkerParentConcurrency k0 (pw_Parent runtime) = None" "admitWorkerRoleConcurrency k0 worker = None"
      "admitWorkerProfileAndRouteConcurrency k0 worker = None"
    and locked: "admitAgentInvocationLocked (worker_admission_request req worker) (wb_ProfileID worker)
         (wb_ProviderRoute worker) (pb_ParentID (pw_Parent runtime)) k0 = (Inr v, k1)"
    by auto
  note inv1 = admit_spec(1) [OF inv0 locked]
  from admit_spec(3) [OF inv0 locked refl] assms(5) obtain i t where
    new: "admissions k1 = insert v (admissions k0)" "kernel_ext k0 k1 [invocation_event i t v]" by blast
  have grow: "n1 \<le> n0 + 1" if "count_active k0 P = Inr n0" "count_active k1 P = Inr n1" for P n0 n1
    using count_active_admitted [OF inv0 inv1 new] that by blast
  from checks(1) assms(6) grow have "children \<le> pb_MaxChildren (pw_Parent runtime)"
    by (fastforce simp: admitWorkerParentConcurrency_def split: sum.splits if_splits)
  moreover from checks(2) assms(8) grow have "inRole \<le> wb_MaxParallel worker"
    by (fastforce simp: admitWorkerRoleConcurrency_def split: sum.splits if_splits)
  moreover from checks(3) assms(9) grow have "0 < wb_ProfileMaxParallel worker \<Longrightarrow> inProfile \<le> wb_ProfileMaxParallel worker"
    by (fastforce simp: admitWorkerProfileAndRouteConcurrency_def split: sum.splits if_splits)
  moreover from checks(3) assms(10) grow have "0 < wb_RouteMaxParallel worker \<Longrightarrow> inRoute \<le> wb_RouteMaxParallel worker"
    by (fastforce simp: admitWorkerProfileAndRouteConcurrency_def split: sum.splits if_splits)
  ultimately show ?thesis by blast
qed

theorem AdmitWorker_within_limits_witness:
  "k_rows worker_k1 \<noteq> [] \<and>
   projr (count_active worker_k1 (\<lambda>i. TrimSpace (ai_ParentRoleID i) = ''parent'')) \<le> 1"
proof -
  let ?worker = "hd (pw_WorkerRoles sample_runtime)"
  have 1: "ok (AdmitWorkerInvocationFromRole (Inr sample_runtime) sample_worker_request sample_kernel)" by code_simp
  have rows: "length (k_rows worker_k1) = 1" by code_simp
  then have 2: "worker_k1 \<noteq> sample_kernel" by auto
  have load: "\<not> isl (agentInvocations worker_k1)" "\<not> isl (agentInvocationRuns worker_k1)" by code_simp+
  then have count: "count_active worker_k1 P = Inr (projr (count_active worker_k1 P))" for P
    by (intro res_eq) (auto simp: count_active_def isl_def bind_res_def split: sum.splits)
  have 3: "workerRoleByID (pw_WorkerRoles sample_runtime) (let roleID = TrimSpace (wq_RoleID sample_worker_request) in
        if roleID = [] then TrimSpace (pb_DefaultWorkerRole (pw_Parent sample_runtime)) else roleID) = Some ?worker"
    by code_simp
  have "pb_ParentID (pw_Parent sample_runtime) = ''parent''" "pb_MaxChildren (pw_Parent sample_runtime) = 1"
    by (simp_all add: sample_runtime_def)
  with AdmitWorker_within_limits [OF sample_env_ok sample_rows agent_run.stay ok_eq [OF 1, folded worker_k1_def] 2
      count 3 count count count] rows
  show ?thesis by auto
qed

end
