(* ===== verification/Graph_DFS.thy ===== *)
theory Graph_DFS
  imports Go_Prelude
begin

text \<open>
  The depth-first cycle search that the task graphs (\<^verbatim>\<open>task_graph.go\<close>) and the workflow
  compiler (\<^verbatim>\<open>workflow.go\<close>) run over a finite list of edges: \<open>seen\<close> holds the nodes that
  were entered, \<open>stack\<close> those that were entered and not left. It answers True exactly when
  the edges have a cycle.
\<close>

section \<open>The search\<close>

type_synonym edges = "(string \<times> string) list"

text \<open>The adjacency map a search builds first: the targets of a node in the order of the edges.\<close>

definition next_nodes :: "edges \<Rightarrow> string \<Rightarrow> string list" where
  "next_nodes es i = map snd (filter (\<lambda>e. fst e = i) es)"

text \<open>
  \<open>visit_all\<close> visits the given nodes one after the other and stops at the first visit that
  finds a cycle. A visit of a node that is on the stack has found one; a node that was seen
  is skipped; any other node is entered, its targets are visited with it on the stack, and
  it is left. The result is the answer and the nodes seen.
\<close>

function visit_all :: "edges \<Rightarrow> string list \<Rightarrow> string list \<Rightarrow> string list \<Rightarrow> bool \<times> string list" where
  "visit_all es stack seen [] = (False, seen)"
| "visit_all es stack seen (i # is) =
     (if i \<in> set stack then (True, seen)
      else if i \<in> set seen then visit_all es stack seen is
      else let (found, seen') = visit_all es (i # stack) (i # seen) (next_nodes es i)
        in if found then (True, seen') else visit_all es stack seen' is)"
  by pat_completeness auto

lemma next_nodes_Nil: "i \<notin> fst ` set es \<Longrightarrow> next_nodes es i = []"
  by (auto simp: next_nodes_def filter_empty_conv)

lemma set_next_nodes: "set (next_nodes es i) = {j. (i, j) \<in> set es}"
  by (force simp: next_nodes_def)

lemma visit_all_seen_partial:
  "visit_all_dom (es, stack, seen, is) \<Longrightarrow> set seen \<subseteq> set (snd (visit_all es stack seen is))"
proof (induction rule: visit_all.pinduct)
  case (2 es stack seen i "is")
  define r where "r = visit_all es (i # stack) (i # seen) (next_nodes es i)"
  show ?case
  proof (cases "i \<in> set stack \<or> i \<in> set seen")
    case True
    with 2 show ?thesis by (auto simp: visit_all.psimps)
  next
    case False
    then have new: "i \<notin> set stack" "i \<notin> set seen" by simp_all
    have "set (i # seen) \<subseteq> set (snd r)" unfolding r_def by (rule "2.IH"(2) [OF new])
    moreover have "set (snd r) \<subseteq> set (snd (visit_all es stack (snd r) is))" if "\<not> fst r"
      by (rule "2.IH"(3) [OF new r_def prod.collapse that])
    ultimately show ?thesis
      using "2.hyps" new by (auto simp: visit_all.psimps r_def [symmetric] split_beta Let_def)
  qed
qed (simp add: visit_all.psimps)

termination visit_all
proof (relation "inv_image (finite_psubset <*lex*> less_than)
    (\<lambda>(es, stack, seen, is). (fst ` set es - set seen, length is))")
  show "wf (inv_image (finite_psubset <*lex*> less_than)
    (\<lambda>(es :: edges, stack :: string list, seen, is :: string list). (fst ` set es - set seen, length is)))"
    by auto
next
  fix es :: edges and stack seen "is" :: "string list" and i
  assume "i \<notin> set seen"
  then show "((es, i # stack, i # seen, next_nodes es i), es, stack, seen, i # is) \<in>
    inv_image (finite_psubset <*lex*> less_than) (\<lambda>(es, stack, seen, is). (fst ` set es - set seen, length is))"
    by (cases "i \<in> fst ` set es") (auto simp: next_nodes_Nil finite_psubset_def)
next
  fix es :: edges and stack seen "is" :: "string list" and i r found seen'
  assume "visit_all_dom (es, i # stack, i # seen, next_nodes es i)"
    and "r = visit_all es (i # stack) (i # seen) (next_nodes es i)" and "(found, seen') = r"
  then have "set (i # seen) \<subseteq> set seen'"
    by (metis visit_all_seen_partial snd_conv)
  then have "fst ` set es - set seen' \<subset> fst ` set es - set seen \<or> fst ` set es - set seen' = fst ` set es - set seen"
    by auto
  then show "((es, stack, seen', is), es, stack, seen, i # is) \<in>
    inv_image (finite_psubset <*lex*> less_than) (\<lambda>(es, stack, seen, is). (fst ` set es - set seen, length is))"
    by (auto simp: finite_psubset_def)
qed simp

declare visit_all.simps [simp del]

definition has_cycle :: "edges \<Rightarrow> string list \<Rightarrow> bool" where
  "has_cycle es nodes = fst (visit_all es [] [] nodes)"

section \<open>Correctness\<close>

text \<open>
  The nodes that were left: their successors were left too, and no cycle goes through them.
\<close>

definition finished :: "edges \<Rightarrow> string set \<Rightarrow> bool" where
  "finished es B \<longleftrightarrow> (\<forall>x \<in> B. (\<forall>y. (x, y) \<in> set es \<longrightarrow> y \<in> B) \<and> (x, x) \<notin> (set es)\<^sup>+)"

text \<open>The stack is a path that ends in its head.\<close>

fun path_stack :: "edges \<Rightarrow> string list \<Rightarrow> bool" where
  "path_stack es (a # b # s) \<longleftrightarrow> (b, a) \<in> set es \<and> path_stack es (b # s)"
| "path_stack es _ \<longleftrightarrow> True"

lemma path_stack_reach: "path_stack es (a # s) \<Longrightarrow> x \<in> set (a # s) \<Longrightarrow> (x, a) \<in> (set es)\<^sup>*"
proof (induction s arbitrary: a)
  case (Cons b s)
  then have step: "(b, a) \<in> set es" and "path_stack es (b # s)" by auto
  with Cons.IH Cons.prems(2) have "x \<in> set (b # s) \<Longrightarrow> (x, b) \<in> (set es)\<^sup>*" by blast
  with Cons.prems(2) step show ?case by (auto intro: rtrancl.rtrancl_into_rtrancl)
qed simp

lemma finished_closed: "finished es B \<Longrightarrow> x \<in> B \<Longrightarrow> (x, y) \<in> (set es)\<^sup>* \<Longrightarrow> y \<in> B"
  by (rotate_tac 2, induction rule: rtrancl_induct) (auto simp: finished_def)

lemma finished_insert:
  assumes "finished es B" and "\<forall>j. (i, j) \<in> set es \<longrightarrow> j \<in> B" and "i \<notin> B"
  shows "finished es (insert i B)"
proof -
  have "(i, i) \<notin> (set es)\<^sup>+"
  proof
    assume "(i, i) \<in> (set es)\<^sup>+"
    then obtain j where "(i, j) \<in> set es" "(j, i) \<in> (set es)\<^sup>*" by (metis tranclD)
    with assms(1,2) have "i \<in> B" by (metis finished_closed)
    with assms(3) show False by contradiction
  qed
  with assms(1,2) show ?thesis by (auto simp: finished_def)
qed

lemma visit_all_sound:
  "fst (visit_all es stack seen is) \<Longrightarrow> path_stack es stack \<Longrightarrow>
     (\<forall>i \<in> set is. stack = [] \<or> (hd stack, i) \<in> set es) \<Longrightarrow> \<not> acyclic (set es)"
proof (induction es stack seen "is" rule: visit_all.induct)
  case (1 es stack seen)
  then show ?case by (simp add: visit_all.simps)
next
  case (2 es stack seen i "is")
  consider (stack) "i \<in> set stack" | (seen) "i \<notin> set stack" "i \<in> set seen" | (new) "i \<notin> set stack" "i \<notin> set seen"
    by blast
  then show ?case
  proof cases
    case stack
    then obtain a s where s: "stack = a # s" by (cases stack) auto
    with stack "2.prems"(2,3) have "(i, a) \<in> (set es)\<^sup>*" "(a, i) \<in> set es"
      by (auto intro: path_stack_reach)
    then have "(i, i) \<in> (set es)\<^sup>+" by (rule rtrancl_into_trancl1)
    then show ?thesis by (auto simp: acyclic_def)
  next
    case seen
    with 2 show ?thesis by (auto simp: visit_all.simps)
  next
    case new
    define r where "r = visit_all es (i # stack) (i # seen) (next_nodes es i)"
    show ?thesis
    proof (cases "fst r")
      case True
      have "path_stack es (i # stack)" using "2.prems" by (cases stack) auto
      with True "2.IH"(2) [OF new] show ?thesis by (simp add: r_def set_next_nodes)
    next
      case False
      with "2.prems"(1) new have "fst (visit_all es stack (snd r) is)"
        by (simp add: visit_all.simps(2) [of es stack seen i "is"] r_def split_beta Let_def)
      with "2.IH"(3) [OF new r_def prod.collapse False] "2.prems"(2,3) show ?thesis by simp
    qed
  qed
qed

lemma visit_all_complete:
  "\<not> fst (visit_all es stack seen is) \<Longrightarrow> set stack \<subseteq> set seen \<Longrightarrow> finished es (set seen - set stack) \<Longrightarrow>
     set seen \<subseteq> set (snd (visit_all es stack seen is)) \<and>
     finished es (set (snd (visit_all es stack seen is)) - set stack) \<and>
     set is \<subseteq> set (snd (visit_all es stack seen is)) - set stack"
proof (induction es stack seen "is" rule: visit_all.induct)
  case (1 es stack seen)
  then show ?case by (simp add: visit_all.simps)
next
  case (2 es stack seen i "is")
  from "2.prems"(1) have i: "i \<notin> set stack" by (auto simp: visit_all.simps)
  show ?case
  proof (cases "i \<in> set seen")
    case True
    have eq: "visit_all es stack seen (i # is) = visit_all es stack seen is"
      using i True by (simp add: visit_all.simps)
    from "2.IH"(1) [OF i True] "2.prems" i True show ?thesis unfolding eq by auto
  next
    case False
    define r where "r = visit_all es (i # stack) (i # seen) (next_nodes es i)"
    have eq: "visit_all es stack seen (i # is) = (if fst r then (True, snd r) else visit_all es stack (snd r) is)"
      using i False by (simp add: visit_all.simps(2) [of es stack seen i "is"] r_def split_beta Let_def)
    with "2.prems"(1) have nr: "\<not> fst r" by auto
    have "set (i # seen) - set (i # stack) = set seen - set stack" using False by auto
    then have inner: "set (i # seen) \<subseteq> set (snd r)" "finished es (set (snd r) - set (i # stack))"
      "set (next_nodes es i) \<subseteq> set (snd r) - set (i # stack)"
      using "2.IH"(2) [OF i False] nr "2.prems"(2,3) by (auto simp: r_def)
    let ?B = "set (snd r) - set (i # stack)"
    have "finished es (insert i ?B)"
      using inner(2,3) by (intro finished_insert) (auto simp: set_next_nodes)
    moreover have "insert i ?B = set (snd r) - set stack" using inner(1) i by auto
    ultimately have fin: "finished es (set (snd r) - set stack)" by simp
    have "set stack \<subseteq> set (snd r)" using inner(1) "2.prems"(2) by auto
    with "2.IH"(3) [OF i False r_def prod.collapse nr] nr fin "2.prems"(1)
    have outer: "set (snd r) \<subseteq> set (snd (visit_all es stack (snd r) is))"
      "finished es (set (snd (visit_all es stack (snd r) is)) - set stack)"
      "set is \<subseteq> set (snd (visit_all es stack (snd r) is)) - set stack"
      by (simp_all add: eq)
    with inner(1) i show ?thesis by (auto simp: eq nr)
  qed
qed

text \<open>When the search starts from every node that has an outgoing edge, it decides acyclicity.\<close>

theorem has_cycle_iff:
  assumes "fst ` set es \<subseteq> set nodes"
  shows "has_cycle es nodes \<longleftrightarrow> \<not> acyclic (set es)"
proof
  assume "has_cycle es nodes"
  then show "\<not> acyclic (set es)" 
    using visit_all_sound [of es "[]" "[]" nodes] by (simp add: has_cycle_def)
next
  assume cyc: "\<not> acyclic (set es)"
  show "has_cycle es nodes"
  proof (rule ccontr)
    assume "\<not> has_cycle es nodes"
    then have fin: "finished es (set (snd (visit_all es [] [] nodes)))" "set nodes \<subseteq> set (snd (visit_all es [] [] nodes))"
      using visit_all_complete [of es "[]" "[]" nodes] by (auto simp: has_cycle_def finished_def)
    from cyc obtain x where x: "(x, x) \<in> (set es)\<^sup>+" by (auto simp: acyclic_def)
    then have "x \<in> fst ` set es" by (metis tranclD fst_conv image_eqI)
    with assms fin x show False by (auto simp: finished_def)
  qed
qed

end
