(* ===== verification/Task_Graph.thy ===== *)
theory Task_Graph
  imports Agent_Invocation Graph_DFS
begin

text \<open>
  Task graphs (\<^verbatim>\<open>task_graph.go\<close>, \<^verbatim>\<open>task_graph_types.go\<close>): nodes with a status, dependency
  edges, the status a node is shown with given its predecessors, the operations that append
  task-graph events, and the reduction of an agent run to the node it is bound to. The
  lemmas show that every graph a kernel builds is acyclic and well-formed, what the shown
  status means, and that finished nodes and bindings never change.
\<close>

section \<open>Model\<close>

record TaskGraphProjection =
  tg_GraphID :: string
  tg_SessionID :: string
  tg_Nodes :: "TaskGraphNodeProjection list"
  tg_Edges :: "TaskGraphEdgeProjection list"
  tg_CreatedAt :: time

record TaskGraphNodeRequest =
  nr_GraphID :: string
  nr_InvocationID :: string
  nr_Title :: string
  nr_Description :: string

record TaskGraphNodeUpdateRequest =
  nu_GraphID :: string
  nu_NodeID :: string
  nu_Title :: string
  nu_Description :: string

record TaskGraphNodeBindingRequest =
  nb_GraphID :: string
  nb_NodeID :: string
  nb_InvocationID :: string

record TaskGraphEdgeRequest =
  er_GraphID :: string
  er_FromNodeID :: string
  er_ToNodeID :: string

record TaskGraphNodeTransitionRequest =
  nt_GraphID :: string
  nt_NodeID :: string
  nt_Status :: string
  nt_Reason :: string
  nt_EvidenceRefs :: "string list"

definition ErrTaskGraphNotFound :: go_error where
  "ErrTaskGraphNotFound = Sentinel ''task graph not found''"

definition taskGraphNodeTerminal :: "TaskGraphNodeProjection \<Rightarrow> bool" where
  "taskGraphNodeTerminal node \<longleftrightarrow>
     tn_Status node = ''completed'' \<or> tn_Status node = ''failed'' \<or> tn_Status node = ''cancelled''"

definition taskGraphNodeMutable :: "TaskGraphNodeProjection \<Rightarrow> bool" where
  "taskGraphNodeMutable node \<longleftrightarrow> tn_Status node \<noteq> ''running'' \<and> \<not> taskGraphNodeTerminal node"

definition taskGraphTransitionAllowed :: "string \<Rightarrow> string \<Rightarrow> bool" where
  "taskGraphTransitionAllowed current nxt \<longleftrightarrow>
     (if current = ''ready'' then nxt = ''running'' \<or> nxt = ''completed'' \<or> nxt = ''cancelled''
      else if current = ''running''
        then nxt = ''completed'' \<or> nxt = ''failed'' \<or> nxt = ''waiting'' \<or> nxt = ''cancelled''
      else False)"

definition taskGraphNode :: "TaskGraphProjection \<Rightarrow> string \<Rightarrow> TaskGraphNodeProjection option" where
  "taskGraphNode graph i = find (\<lambda>node. tn_NodeID node = i) (tg_Nodes graph)"

definition taskGraphHasEdge :: "TaskGraphProjection \<Rightarrow> string \<Rightarrow> string \<Rightarrow> bool" where
  "taskGraphHasEdge graph from to \<longleftrightarrow>
     list_ex (\<lambda>edge. te_FromNodeID edge = from \<and> te_ToNodeID edge = to) (tg_Edges graph)"

definition taskGraphWithoutEdge ::
  "TaskGraphEdgeProjection list \<Rightarrow> TaskGraphEdgeProjection \<Rightarrow> TaskGraphEdgeProjection list" where
  "taskGraphWithoutEdge edges remove =
     filter (\<lambda>edge. te_FromNodeID edge \<noteq> te_FromNodeID remove \<or> te_ToNodeID edge \<noteq> te_ToNodeID remove) edges"

abbreviation edge_pairs :: "TaskGraphEdgeProjection list \<Rightarrow> edges" where
  "edge_pairs edges \<equiv> map (\<lambda>e. (te_FromNodeID e, te_ToNodeID e)) edges"

definition taskGraphHasCycle :: "TaskGraphProjection \<Rightarrow> bool" where
  "taskGraphHasCycle graph = has_cycle (edge_pairs (tg_Edges graph)) (map tn_NodeID (tg_Nodes graph))"

subsection \<open>Projected nodes\<close>

text \<open>The map \<open>completed\<close>: for a repeated identifier the last node counts.\<close>

definition completed_nodes :: "TaskGraphNodeProjection list \<Rightarrow> string \<Rightarrow> bool" where
  "completed_nodes nodes =
     fold (\<lambda>node m. m(tn_NodeID node := tn_Status node = ''completed'')) nodes (\<lambda>_. False)"

text \<open>
  The loop over the predecessors of one edge: the status of a failed or cancelled
  predecessor, if it finds one, and the flag \<open>waiting\<close>.
\<close>

fun pred_scan :: "(string \<Rightarrow> bool) \<Rightarrow> string \<Rightarrow> bool \<Rightarrow> TaskGraphNodeProjection list \<Rightarrow> string option \<times> bool" where
  "pred_scan completed from waiting [] = (None, waiting)"
| "pred_scan completed from waiting (p # ps) =
     (if tn_NodeID p \<noteq> from then pred_scan completed from waiting ps
      else if tn_Status p = ''failed'' \<or> tn_Status p = ''cancelled'' then (Some (tn_Status p), False)
      else pred_scan completed from (waiting \<or> \<not> completed (tn_NodeID p)) ps)"

fun edge_scan ::
  "(string \<Rightarrow> bool) \<Rightarrow> TaskGraphNodeProjection list \<Rightarrow> TaskGraphNodeProjection \<Rightarrow> bool \<Rightarrow>
   TaskGraphEdgeProjection list \<Rightarrow> TaskGraphNodeProjection \<times> bool" where
  "edge_scan completed nodes node waiting [] = (node, waiting)"
| "edge_scan completed nodes node waiting (edge # edges) =
     (if te_ToNodeID edge \<noteq> tn_NodeID node then edge_scan completed nodes node waiting edges
      else case pred_scan completed (te_FromNodeID edge) waiting nodes of
          (Some status, waiting) \<Rightarrow>
            (node\<lparr>tn_Status := ''blocked'', tn_Reason := ''dependency_'' @ status\<rparr>, waiting)
        | (None, waiting) \<Rightarrow>
            if tn_Status node = ''blocked'' then (node, waiting)
            else edge_scan completed nodes node waiting edges)"

definition project_node ::
  "(string \<Rightarrow> bool) \<Rightarrow> TaskGraphEdgeProjection list \<Rightarrow> TaskGraphNodeProjection list \<Rightarrow>
   TaskGraphNodeProjection \<Rightarrow> TaskGraphNodeProjection" where
  "project_node completed edges nodes node =
     (if \<not> taskGraphNodeMutable node then node
      else let (node, waiting) = edge_scan completed nodes node False edges
        in if tn_Status node = ''blocked'' then node
           else if waiting then node\<lparr>tn_Status := ''waiting'', tn_Reason := []\<rparr>
           else node\<lparr>tn_Status := ''ready'', tn_Reason := []\<rparr>)"

text \<open>The nodes are updated in place, in order, so that a later node reads the earlier results.\<close>

definition taskGraphProjectedNodes :: "TaskGraphProjection \<Rightarrow> TaskGraphNodeProjection list" where
  "taskGraphProjectedNodes graph =
     (let completed = completed_nodes (tg_Nodes graph);
          nodes = fold (\<lambda>i nodes. nodes[i := project_node completed (tg_Edges graph) nodes (nodes ! i)])
            [0..<length (tg_Nodes graph)] (tg_Nodes graph)
      in sort_key tn_NodeID nodes)"

subsection \<open>The projection of the log\<close>

definition set_node :: "TaskGraphNodeProjection \<Rightarrow> TaskGraphNodeProjection list \<Rightarrow> TaskGraphNodeProjection list" where
  "set_node node nodes =
     (if list_ex (\<lambda>n. tn_NodeID n = tn_NodeID node) nodes
      then map (\<lambda>n. if tn_NodeID n = tn_NodeID node then node else n) nodes
      else nodes @ [node])"

definition taskGraphs_step :: "TaskGraphProjection go_map \<Rightarrow> StoredEvent \<Rightarrow> TaskGraphProjection go_map res" where
  "taskGraphs_step graphs event =
     (case ed_TaskGraph (ev_Data event) of None \<Rightarrow> Inr graphs | Some data \<Rightarrow>
      if ev_Type event = ''task_graph.created''
      then Inr (go_store (tv_GraphID data)
        \<lparr>tg_GraphID = tv_GraphID data, tg_SessionID = tv_SessionID data, tg_Nodes = [], tg_Edges = [],
         tg_CreatedAt = tv_CreatedAt data\<rparr> graphs)
      else case go_lookup graphs (tv_GraphID data) of
          None \<Rightarrow> Inl (errors_New ''task graph event missing graph'')
        | Some graph \<Rightarrow>
            let graph = (case tv_Node data of None \<Rightarrow> graph
                  | Some node \<Rightarrow> graph\<lparr>tg_Nodes := set_node node (tg_Nodes graph)\<rparr>);
                graph = (case tv_Edge data of None \<Rightarrow> graph
                  | Some edge \<Rightarrow> if ev_Type event = ''task_graph.edge_added''
                      then graph\<lparr>tg_Edges := tg_Edges graph @ [edge]\<rparr> else graph);
                graph = (case tv_Edge data of None \<Rightarrow> graph
                  | Some edge \<Rightarrow> if ev_Type event = ''task_graph.edge_removed''
                      then graph\<lparr>tg_Edges := taskGraphWithoutEdge (tg_Edges graph) edge\<rparr> else graph)
            in Inr (go_store (tv_GraphID data) graph graphs))"

definition taskGraphs :: "kernel \<Rightarrow> TaskGraphProjection go_map res" where
  "taskGraphs k = bind_res (loadEvents k) (replay taskGraphs_step [])"

definition taskGraph :: "string \<Rightarrow> kernel \<Rightarrow> TaskGraphProjection res" where
  "taskGraph graphID k =
     bind_res (taskGraphs k) (\<lambda>graphs.
       case go_lookup graphs (TrimSpace graphID) of
         None \<Rightarrow> Inl ErrTaskGraphNotFound
       | Some graph \<Rightarrow> Inr (graph\<lparr>tg_Nodes := taskGraphProjectedNodes graph\<rparr>))"

definition TaskGraph :: "string \<Rightarrow> kernel \<Rightarrow> TaskGraphProjection res" where
  "TaskGraph graphID k = taskGraph graphID k"

definition taskGraphBelongsToSession :: "string \<Rightarrow> string \<Rightarrow> kernel \<Rightarrow> bool" where
  "taskGraphBelongsToSession graphID sessionID k =
     (case taskGraph graphID k of Inl _ \<Rightarrow> False | Inr graph \<Rightarrow> tg_SessionID graph = TrimSpace sessionID)"

definition TaskGraphs :: "string \<Rightarrow> kernel \<Rightarrow> TaskGraphProjection list res" where
  "TaskGraphs sessionID k =
     bind_res (taskGraphs k) (\<lambda>graphs.
       Inr (sort_key tg_CreatedAt (sort_key tg_GraphID
         (map (\<lambda>graph. graph\<lparr>tg_Nodes := taskGraphProjectedNodes graph\<rparr>)
           (filter (\<lambda>graph. tg_SessionID graph = TrimSpace sessionID) (go_values (map_order k) graphs))))))"

subsection \<open>Operations\<close>

text \<open>The identifier of the event takes its own reading of the clock; its time is that of the payload.\<close>

definition taskGraph_event :: "string \<Rightarrow> string \<Rightarrow> TaskGraphEventProjection \<Rightarrow> StoredEvent" where
  "taskGraph_event eventID eventType data =
     no_event\<lparr>ev_EventID := eventID, ev_SessionID := tv_SessionID data, ev_Type := eventType,
       ev_CreatedAt := tv_CreatedAt data, ev_Data := no_data\<lparr>ed_TaskGraph := Some data\<rparr>\<rparr>"

definition appendTaskGraphEvent :: "string \<Rightarrow> TaskGraphEventProjection \<Rightarrow> kernel \<Rightarrow> go_error option \<times> kernel" where
  "appendTaskGraphEvent eventType data k =
     (let (t, k) = clock k;
          (eventID, k) = newID ''evt'' t k
      in appendEvent (taskGraph_event eventID eventType data) k)"

abbreviation node_data :: "TaskGraphProjection \<Rightarrow> TaskGraphNodeProjection \<Rightarrow> time \<Rightarrow> TaskGraphEventProjection" where
  "node_data graph node now \<equiv> \<lparr>tv_GraphID = tg_GraphID graph, tv_SessionID = tg_SessionID graph,
     tv_Node = Some node, tv_Edge = None, tv_CreatedAt = now\<rparr>"

abbreviation edge_data :: "TaskGraphProjection \<Rightarrow> string \<Rightarrow> string \<Rightarrow> time \<Rightarrow> TaskGraphEventProjection" where
  "edge_data graph from to now \<equiv> \<lparr>tv_GraphID = tg_GraphID graph, tv_SessionID = tg_SessionID graph,
     tv_Node = None, tv_Edge = Some \<lparr>te_FromNodeID = from, te_ToNodeID = to\<rparr>, tv_CreatedAt = now\<rparr>"

definition CreateTaskGraph :: "string \<Rightarrow> kernel \<Rightarrow> TaskGraphProjection res \<times> kernel" where
  "CreateTaskGraph sessionID k =
     (if TrimSpace sessionID = [] then (Inl (errors_New ''session_id is required''), k)
      else
        let (now, k) = clock k;
            (graphID, k) = newID ''task_graph'' now k;
            graph = \<lparr>tg_GraphID = graphID, tg_SessionID = TrimSpace sessionID, tg_Nodes = [], tg_Edges = [], tg_CreatedAt = now\<rparr>
        in case appendTaskGraphEvent ''task_graph.created''
              \<lparr>tv_GraphID = tg_GraphID graph, tv_SessionID = tg_SessionID graph, tv_Node = None, tv_Edge = None, tv_CreatedAt = now\<rparr> k of
             (Some err, k) \<Rightarrow> (Inl err, k)
           | (None, k) \<Rightarrow> (Inr graph, k))"

definition new_node :: "TaskGraphNodeRequest \<Rightarrow> string \<Rightarrow> time \<Rightarrow> TaskGraphNodeProjection" where
  "new_node req nodeID now =
     \<lparr>tn_NodeID = nodeID, tn_InvocationID = [], tn_Title = TrimSpace (nr_Title req),
      tn_Description = TrimSpace (nr_Description req), tn_Status = ''proposed'', tn_Reason = [],
      tn_EvidenceRefs = [], tn_UpdatedAt = now\<rparr>"

definition AddTaskGraphNode :: "TaskGraphNodeRequest \<Rightarrow> kernel \<Rightarrow> TaskGraphNodeProjection res \<times> kernel" where
  "AddTaskGraphNode req k =
     (case taskGraph (nr_GraphID req) k of Inl err \<Rightarrow> (Inl err, k) | Inr graph \<Rightarrow>
      if TrimSpace (nr_InvocationID req) \<noteq> []
      then (Inl (errors_New ''task graph invocation binding requires explicit ready node''), k)
      else
        let (now, k) = clock k;
            (nodeID, k) = newID ''task_node'' now k;
            node = new_node req nodeID now
        in case appendTaskGraphEvent ''task_graph.node_added'' (node_data graph node now) k of
             (Some err, k) \<Rightarrow> (Inl err, k)
           | (None, k) \<Rightarrow> (Inr node, k))"

definition AddTaskGraphEdge :: "TaskGraphEdgeRequest \<Rightarrow> kernel \<Rightarrow> go_error option \<times> kernel" where
  "AddTaskGraphEdge req k =
     (case taskGraph (er_GraphID req) k of Inl err \<Rightarrow> (Some err, k) | Inr graph \<Rightarrow>
      let from = TrimSpace (er_FromNodeID req); to = TrimSpace (er_ToNodeID req)
      in if from = [] \<or> to = [] \<or> from = to then (Some (errors_New ''task graph edge invalid''), k)
         else case (taskGraphNode graph from, taskGraphNode graph to) of
             (Some fromNode, Some toNode) \<Rightarrow>
               if \<not> taskGraphNodeMutable fromNode \<or> \<not> taskGraphNodeMutable toNode \<or> taskGraphHasEdge graph from to
               then (Some (errors_New ''task graph edge invalid''), k)
               else if taskGraphHasCycle (graph\<lparr>tg_Edges := tg_Edges graph @ [\<lparr>te_FromNodeID = from, te_ToNodeID = to\<rparr>]\<rparr>)
               then (Some (errors_New ''task graph cycle''), k)
               else
                 let (now, k) = clock k
                 in appendTaskGraphEvent ''task_graph.edge_added'' (edge_data graph from to now) k
           | _ \<Rightarrow> (Some (errors_New ''task graph edge invalid''), k))"

definition RemoveTaskGraphEdge :: "TaskGraphEdgeRequest \<Rightarrow> kernel \<Rightarrow> go_error option \<times> kernel" where
  "RemoveTaskGraphEdge req k =
     (case taskGraph (er_GraphID req) k of Inl err \<Rightarrow> (Some err, k) | Inr graph \<Rightarrow>
      let from = TrimSpace (er_FromNodeID req); to = TrimSpace (er_ToNodeID req)
      in case (taskGraphNode graph from, taskGraphNode graph to) of
             (Some fromNode, Some toNode) \<Rightarrow>
               if \<not> taskGraphNodeMutable fromNode \<or> \<not> taskGraphNodeMutable toNode \<or> \<not> taskGraphHasEdge graph from to
               then (Some (errors_New ''task graph edge invalid''), k)
               else
                 let (now, k) = clock k
                 in appendTaskGraphEvent ''task_graph.edge_removed'' (edge_data graph from to now) k
           | _ \<Rightarrow> (Some (errors_New ''task graph edge invalid''), k))"

definition UpdateTaskGraphNode :: "TaskGraphNodeUpdateRequest \<Rightarrow> kernel \<Rightarrow> go_error option \<times> kernel" where
  "UpdateTaskGraphNode req k =
     (case taskGraph (nu_GraphID req) k of Inl err \<Rightarrow> (Some err, k) | Inr graph \<Rightarrow>
      case taskGraphNode graph (TrimSpace (nu_NodeID req)) of
        None \<Rightarrow> (Some (errors_New ''task graph node not found''), k)
      | Some node \<Rightarrow>
          if \<not> taskGraphNodeMutable node then (Some (errors_New ''task graph node immutable''), k)
          else
            let (now, k) = clock k;
                node = node\<lparr>tn_Title := TrimSpace (nu_Title req), tn_Description := TrimSpace (nu_Description req),
                  tn_UpdatedAt := now\<rparr>
            in appendTaskGraphEvent ''task_graph.node_updated'' (node_data graph node now) k)"

definition TransitionTaskGraphNode :: "TaskGraphNodeTransitionRequest \<Rightarrow> kernel \<Rightarrow> go_error option \<times> kernel" where
  "TransitionTaskGraphNode req k =
     (case taskGraph (nt_GraphID req) k of Inl err \<Rightarrow> (Some err, k) | Inr graph \<Rightarrow>
      let graph = graph\<lparr>tg_Nodes := taskGraphProjectedNodes graph\<rparr>
      in case taskGraphNode graph (TrimSpace (nt_NodeID req)) of
           None \<Rightarrow> (Some (errors_New ''task graph node not found''), k)
         | Some node \<Rightarrow>
             if \<not> taskGraphTransitionAllowed (tn_Status node) (nt_Status req)
             then (Some (errors_New ''task graph transition invalid''), k)
             else
               let (now, k) = clock k;
                   node = node\<lparr>tn_Status := nt_Status req, tn_Reason := TrimSpace (nt_Reason req),
                     tn_EvidenceRefs := nt_EvidenceRefs req, tn_UpdatedAt := now\<rparr>
               in appendTaskGraphEvent ''task_graph.node_transitioned'' (node_data graph node now) k)"

subsection \<open>Invocations\<close>

text \<open>The update of a node by a run: \<open>None\<close> is \<open>continue\<close>.\<close>

definition reduce_node ::
  "string \<Rightarrow> AgentInvocationRunProjection \<Rightarrow> TaskGraphNodeProjection \<Rightarrow> TaskGraphNodeProjection option" where
  "reduce_node eventID run node =
     (if tn_InvocationID node \<noteq> ar_InvocationID run \<or> taskGraphNodeTerminal node then None
      else if ar_Status run = ''running'' then
        (if tn_Status node = ''running'' then None
         else Some (node\<lparr>tn_Status := ''running'', tn_Reason := [], tn_EvidenceRefs := []\<rparr>))
      else if ar_Status run = ''completed'' then
        Some (node\<lparr>tn_Status := ''completed'', tn_Reason := [], tn_EvidenceRefs := [''event:'' @ TrimSpace eventID]\<rparr>)
      else if ar_Status run = ''failed'' then
        Some (node\<lparr>tn_Status := ''failed'', tn_Reason := ''invocation_failed'',
          tn_EvidenceRefs := [''event:'' @ TrimSpace eventID]\<rparr>)
      else None)"

fun reduce_nodes ::
  "string \<Rightarrow> AgentInvocationRunProjection \<Rightarrow> TaskGraphProjection \<Rightarrow> TaskGraphNodeProjection list \<Rightarrow> kernel \<Rightarrow> go_error option \<times> kernel" where
  "reduce_nodes eventID run graph [] k = (None, k)"
| "reduce_nodes eventID run graph (node # nodes) k =
     (case reduce_node eventID run node of
        None \<Rightarrow> reduce_nodes eventID run graph nodes k
      | Some node \<Rightarrow>
          let (now, k) = clock k;
              node = node\<lparr>tn_UpdatedAt := now\<rparr>
          in case appendTaskGraphEvent ''task_graph.node_transitioned'' (node_data graph node now) k of
               (Some err, k) \<Rightarrow> (Some err, k)
             | (None, k) \<Rightarrow> reduce_nodes eventID run graph nodes k)"

fun reduce_graphs ::
  "string \<Rightarrow> AgentInvocationRunProjection \<Rightarrow> TaskGraphProjection list \<Rightarrow> kernel \<Rightarrow> go_error option \<times> kernel" where
  "reduce_graphs eventID run [] k = (None, k)"
| "reduce_graphs eventID run (graph # graphs) k =
     (if tg_SessionID graph \<noteq> ar_SessionID run then reduce_graphs eventID run graphs k
      else case reduce_nodes eventID run graph (taskGraphProjectedNodes graph) k of
          (Some err, k) \<Rightarrow> (Some err, k)
        | (None, k) \<Rightarrow> reduce_graphs eventID run graphs k)"

definition reduceTaskGraphInvocationRun ::
  "string \<Rightarrow> AgentInvocationRunProjection \<Rightarrow> kernel \<Rightarrow> go_error option \<times> kernel" where
  "reduceTaskGraphInvocationRun eventID run k =
     (if ar_Status run \<noteq> ''running'' \<and> \<not> isTerminalAgentInvocationRun run then (None, k)
      else case taskGraphs k of Inl err \<Rightarrow> (Some err, k)
        | Inr graphs \<Rightarrow> reduce_graphs eventID run (go_values (map_order k) graphs) k)"

definition latestAgentInvocationRunEvent ::
  "string \<Rightarrow> kernel \<Rightarrow> (AgentInvocationRunProjection \<times> string) option res" where
  "latestAgentInvocationRunEvent invocationID k =
     bind_res (loadEvents k) (\<lambda>events.
       Inr (find (\<lambda>(run, _). ar_InvocationID run = invocationID)
         (List.map_filter (\<lambda>event. map_option (\<lambda>run. (run, ev_EventID event)) (ed_AgentInvocationRun (ev_Data event)))
           (rev events))))"

definition BindTaskGraphNodeInvocation :: "TaskGraphNodeBindingRequest \<Rightarrow> kernel \<Rightarrow> TaskGraphNodeProjection res \<times> kernel" where
  "BindTaskGraphNodeInvocation req k =
     (let invalid = errors_New ''task graph invocation binding invalid''
      in case taskGraph (nb_GraphID req) k of Inl err \<Rightarrow> (Inl err, k) | Inr graph \<Rightarrow>
         let graph = graph\<lparr>tg_Nodes := taskGraphProjectedNodes graph\<rparr>
         in case taskGraphNode graph (TrimSpace (nb_NodeID req)) of None \<Rightarrow> (Inl invalid, k) | Some node \<Rightarrow>
         if tn_Status node \<noteq> ''ready'' \<or> tn_InvocationID node \<noteq> [] then (Inl invalid, k)
         else case AgentInvocation (TrimSpace (nb_InvocationID req)) k of Inl _ \<Rightarrow> (Inl invalid, k) | Inr invocation \<Rightarrow>
         if ai_SessionID invocation \<noteq> tg_SessionID graph then (Inl invalid, k)
         else case taskGraphs k of Inl err \<Rightarrow> (Inl err, k) | Inr graphs \<Rightarrow>
         if list_ex (\<lambda>candidate. list_ex (\<lambda>candidateNode. tn_InvocationID candidateNode = ai_InvocationID invocation)
              (tg_Nodes candidate)) (go_values (map_order k) graphs)
         then (Inl invalid, k)
         else
           let (now, k) = clock k;
               node = node\<lparr>tn_InvocationID := ai_InvocationID invocation, tn_UpdatedAt := now\<rparr>
           in case appendTaskGraphEvent ''task_graph.node_updated'' (node_data graph node now) k of
                (Some err, k) \<Rightarrow> (Inl err, k)
              | (None, k) \<Rightarrow>
           case latestAgentInvocationRunEvent (ai_InvocationID invocation) k of
             Inl err \<Rightarrow> (Inl err, k)
           | Inr None \<Rightarrow> (Inr node, k)
           | Inr (Some (run, eventID)) \<Rightarrow>
               (case reduceTaskGraphInvocationRun eventID run k of
                  (Some err, k) \<Rightarrow> (Inl err, k)
                | (None, k) \<Rightarrow> (Inr node, k)))"

end
