(* ===== verification/Task_Graph_Correct.thy ===== *)
theory Task_Graph_Correct
  imports Task_Graph
begin

text \<open>
  Correctness of the task graphs: the meaning of the projected status, the well-formedness
  of every graph the kernel builds, and the finality of finished nodes and bindings.
\<close>

section \<open>What the projected status means\<close>

definition dependency_failed :: "TaskGraphEdgeProjection list \<Rightarrow> TaskGraphNodeProjection list \<Rightarrow> string \<Rightarrow> bool" where
  "dependency_failed E N i \<longleftrightarrow>
     (\<exists>e \<in> set E. \<exists>p \<in> set N. te_ToNodeID e = i \<and> te_FromNodeID e = tn_NodeID p \<and> tn_Status p \<in> {''failed'', ''cancelled''})"

definition dependency_open :: "(string \<Rightarrow> bool) \<Rightarrow> TaskGraphEdgeProjection list \<Rightarrow> TaskGraphNodeProjection list \<Rightarrow> string \<Rightarrow> bool" where
  "dependency_open c E N i \<longleftrightarrow>
     (\<exists>e \<in> set E. \<exists>p \<in> set N. te_ToNodeID e = i \<and> te_FromNodeID e = tn_NodeID p \<and> \<not> c (tn_NodeID p))"

lemma pred_scan_fst:
  "fst (pred_scan c f w N) \<noteq> None \<longleftrightarrow> (\<exists>p \<in> set N. tn_NodeID p = f \<and> tn_Status p \<in> {''failed'', ''cancelled''})"
  by (induction c f w N rule: pred_scan.induct) auto

lemma pred_scan_snd:
  "fst (pred_scan c f w N) = None \<Longrightarrow> snd (pred_scan c f w N) \<longleftrightarrow> w \<or> (\<exists>p \<in> set N. tn_NodeID p = f \<and> \<not> c f)"
  by (induction c f w N rule: pred_scan.induct) (auto split: if_splits)

lemma edge_scan_blocked: "tn_Status n = ''blocked'' \<Longrightarrow> tn_Status (fst (edge_scan c N n w E)) = ''blocked''"
  by (induction c N n w E rule: edge_scan.induct) (auto split: prod.splits option.splits)

text \<open>Only the status and the reason of a node change.\<close>

definition same_node :: "TaskGraphNodeProjection \<Rightarrow> TaskGraphNodeProjection \<Rightarrow> bool" where
  "same_node m n \<longleftrightarrow> tn_NodeID m = tn_NodeID n \<and> tn_InvocationID m = tn_InvocationID n \<and> tn_Title m = tn_Title n \<and>
     tn_Description m = tn_Description n \<and> tn_EvidenceRefs m = tn_EvidenceRefs n \<and> tn_UpdatedAt m = tn_UpdatedAt n"

lemma edge_scan_same: "same_node (fst (edge_scan c N n w E)) n"
  by (induction c N n w E rule: edge_scan.induct) (auto simp: same_node_def split: prod.splits option.splits)

lemma edge_scan_failed:
  "tn_Status n \<noteq> ''blocked'' \<Longrightarrow> tn_Status (fst (edge_scan c N n w E)) = ''blocked'' \<longleftrightarrow> dependency_failed E N (tn_NodeID n)"
proof (induction c N n w E rule: edge_scan.induct)
  case (1 c N n w)
  then show ?case by (simp add: dependency_failed_def)
next
  case (2 c N n w e E)
  have split: "dependency_failed (e # E) N (tn_NodeID n) \<longleftrightarrow>
      te_ToNodeID e = tn_NodeID n \<and> fst (pred_scan c (te_FromNodeID e) w N) \<noteq> None \<or> dependency_failed E N (tn_NodeID n)"
    unfolding pred_scan_fst by (auto simp: dependency_failed_def)
  show ?case
  proof (cases "te_ToNodeID e = tn_NodeID n")
    case False
    with 2 split show ?thesis by auto
  next
    case True
    show ?thesis
    proof (cases "pred_scan c (te_FromNodeID e) w N")
      case (Pair s w')
      show ?thesis
      proof (cases s)
        case None
        with True Pair split 2 show ?thesis by simp
      next
        case (Some st)
        with True Pair split show ?thesis by simp
      qed
    qed
  qed
qed

lemma edge_scan_open:
  "\<not> dependency_failed E N (tn_NodeID n) \<Longrightarrow> tn_Status n \<noteq> ''blocked'' \<Longrightarrow>
     edge_scan c N n w E = (n, w \<or> dependency_open c E N (tn_NodeID n))"
proof (induction c N n w E rule: edge_scan.induct)
  case (1 c N n w)
  then show ?case by (simp add: dependency_open_def)
next
  case (2 c N n w e E)
  have rest: "\<not> dependency_failed E N (tn_NodeID n)" using "2.prems"(1) by (auto simp: dependency_failed_def)
  show ?case
  proof (cases "te_ToNodeID e = tn_NodeID n")
    case False
    then have "dependency_open c (e # E) N (tn_NodeID n) = dependency_open c E N (tn_NodeID n)"
      by (auto simp: dependency_open_def)
    with False 2 rest show ?thesis by simp
  next
    case True
    with "2.prems"(1) have "fst (pred_scan c (te_FromNodeID e) w N) = None"
      using pred_scan_fst [of c "te_FromNodeID e" w N] by (fastforce simp: dependency_failed_def)
    moreover from pred_scan_snd [OF this]
    have "snd (pred_scan c (te_FromNodeID e) w N) \<longleftrightarrow>
        w \<or> (\<exists>p \<in> set N. tn_NodeID p = te_FromNodeID e \<and> \<not> c (te_FromNodeID e))" .
    ultimately obtain w' where w': "pred_scan c (te_FromNodeID e) w N = (None, w')"
      "w' \<longleftrightarrow> w \<or> (\<exists>p \<in> set N. tn_NodeID p = te_FromNodeID e \<and> \<not> c (te_FromNodeID e))"
      by (metis prod.collapse)
    have "w' \<or> dependency_open c E N (tn_NodeID n) \<longleftrightarrow> w \<or> dependency_open c (e # E) N (tn_NodeID n)"
      using True w'(2) unfolding dependency_open_def by (metis list.set_intros(1) list.set_intros(2) set_ConsD)
    with True w'(1) "2.prems"(2) "2.IH"(2) rest show ?thesis by simp
  qed
qed

lemma project_node_same: "same_node (project_node c E N n) n"
  using edge_scan_same [of c N n False E]
  by (auto simp: project_node_def same_node_def split: prod.splits)

lemma project_node_status:
  "tn_Status (project_node c E N n) =
     (if \<not> taskGraphNodeMutable n then tn_Status n
      else if tn_Status n = ''blocked'' \<or> dependency_failed E N (tn_NodeID n) then ''blocked''
      else if dependency_open c E N (tn_NodeID n) then ''waiting'' else ''ready'')"
proof (cases "taskGraphNodeMutable n \<and> tn_Status n \<noteq> ''blocked'' \<and> \<not> dependency_failed E N (tn_NodeID n)")
  case True
  then show ?thesis by (auto simp: project_node_def edge_scan_open)
next
  case False
  then show ?thesis
    using edge_scan_blocked [of n c N False E] edge_scan_failed [of n c N False E]
    by (auto simp: project_node_def split_beta)
qed

lemma project_node_immutable: "\<not> taskGraphNodeMutable n \<Longrightarrow> project_node c E N n = n"
  by (simp add: project_node_def)

lemmas node_status = taskGraphNodeMutable_def taskGraphNodeTerminal_def

lemma project_node_mutable [simp]: "taskGraphNodeMutable (project_node c E N n) \<longleftrightarrow> taskGraphNodeMutable n"
proof (cases "taskGraphNodeMutable n")
  case True
  with project_node_status [of c E N n] show ?thesis by (auto simp: node_status split: if_splits)
qed (simp add: project_node_immutable)

section \<open>The updates in place\<close>

text \<open>
  What a scan reads of the other nodes is their identifier and whether they failed or were
  cancelled; a projected node agrees with the stored one on that.
\<close>

definition scan_equal :: "TaskGraphNodeProjection \<Rightarrow> TaskGraphNodeProjection \<Rightarrow> bool" where
  "scan_equal m n \<longleftrightarrow> tn_NodeID m = tn_NodeID n \<and>
     (tn_Status m \<in> {''failed'', ''cancelled''} \<or> tn_Status n \<in> {''failed'', ''cancelled''} \<longrightarrow> tn_Status m = tn_Status n)"

lemma scan_equal_refl [simp]: "scan_equal n n"
  by (simp add: scan_equal_def)

lemma scan_equal_project: "scan_equal (project_node c E N n) n"
proof (cases "taskGraphNodeMutable n")
  case True
  then show ?thesis
    using project_node_status [of c E N n] project_node_same [of c E N n]
    by (auto simp: scan_equal_def same_node_def node_status split: if_splits)
qed (simp add: project_node_immutable)

lemma pred_scan_cong: "list_all2 scan_equal M N \<Longrightarrow> pred_scan c f w M = pred_scan c f w N"
proof (induction M N arbitrary: w rule: list_all2_induct)
  case (Cons m M n N)
  have id: "tn_NodeID m = tn_NodeID n" using Cons(1) by (simp add: scan_equal_def)
  show ?case
  proof (cases "tn_Status n = ''failed'' \<or> tn_Status n = ''cancelled''")
    case True
    with Cons(1) have "tn_Status m = tn_Status n" by (auto simp: scan_equal_def)
    with id Cons.IH True show ?thesis by simp
  next
    case False
    with Cons(1) have "\<not> (tn_Status m = ''failed'' \<or> tn_Status m = ''cancelled'')" by (auto simp: scan_equal_def)
    with id Cons.IH False show ?thesis by simp
  qed
qed simp

lemma edge_scan_cong:
  assumes "list_all2 scan_equal M N"
  shows "edge_scan c M n w E = edge_scan c N n w E"
proof (induction E arbitrary: w)
  case (Cons e E)
  then show ?case
    by (simp add: pred_scan_cong [OF assms] split: prod.splits option.splits)
qed simp

lemma project_node_cong: "list_all2 scan_equal M N \<Longrightarrow> project_node c E M n = project_node c E N n"
  by (simp add: project_node_def edge_scan_cong)

lemma project_in_place:
  "fold (\<lambda>i nodes. nodes[i := project_node c E nodes (nodes ! i)]) [0..<k] N =
     map (project_node c E N) (take k N) @ drop k N" if "k \<le> length N"
  using that
proof (induction k)
  case (Suc k)
  let ?nodes = "map (project_node c E N) (take k N) @ drop k N"
  have k: "k < length N" using Suc.prems by simp
  have "list_all2 scan_equal (map (project_node c E N) (take k N)) (take k N)"
    by (simp add: list_all2_conv_all_nth scan_equal_project)
  then have "list_all2 scan_equal ?nodes (take k N @ drop k N)"
    by (intro list_all2_appendI list_all2_refl) simp_all
  then have cong: "project_node c E ?nodes n = project_node c E N n" for n
    using project_node_cong by (metis append_take_drop_id)
  have "?nodes ! k = N ! k" using k by (simp add: nth_append)
  moreover have "?nodes[k := x] = map (project_node c E N) (take k N) @ x # drop (Suc k) N" for x
    using k by (simp add: list_update_append Cons_nth_drop_Suc [symmetric])
  ultimately show ?case
    using Suc k by (simp add: cong take_Suc_conv_app_nth)
qed simp

text \<open>The node a graph shows.\<close>

abbreviation shown :: "TaskGraphProjection \<Rightarrow> TaskGraphNodeProjection \<Rightarrow> TaskGraphNodeProjection" where
  "shown g \<equiv> project_node (completed_nodes (tg_Nodes g)) (tg_Edges g) (tg_Nodes g)"

lemma taskGraphProjectedNodes_eq:
  "taskGraphProjectedNodes g = sort_key tn_NodeID (map (shown g) (tg_Nodes g))"
  by (simp add: taskGraphProjectedNodes_def Let_def project_in_place)

lemma set_projected [simp]: "set (taskGraphProjectedNodes g) = shown g ` set (tg_Nodes g)"
  by (simp add: taskGraphProjectedNodes_eq)

lemma shown_id [simp]: "tn_NodeID (project_node c E N n) = tn_NodeID n"
  and shown_invocation [simp]: "tn_InvocationID (project_node c E N n) = tn_InvocationID n"
  using project_node_same by (auto simp: same_node_def)

lemma distinct_projected:
  assumes "distinct (map tn_NodeID (tg_Nodes g))"
  shows "distinct (map tn_NodeID (taskGraphProjectedNodes g))"
proof -
  have "mset (map tn_NodeID (taskGraphProjectedNodes g)) = mset (map tn_NodeID (tg_Nodes g))"
    by (simp add: taskGraphProjectedNodes_eq image_mset.compositionality comp_def)
  with assms show ?thesis by (metis mset_eq_imp_distinct_iff)
qed

lemma taskGraphNode_iff:
  "distinct (map tn_NodeID (tg_Nodes g)) \<Longrightarrow>
     taskGraphNode g i = Some n \<longleftrightarrow> n \<in> set (tg_Nodes g) \<and> tn_NodeID n = i"
  by (simp add: taskGraphNode_def find_key_iff)

lemma taskGraphNode_projected:
  assumes "distinct (map tn_NodeID (tg_Nodes g))"
    and "taskGraphNode (g\<lparr>tg_Nodes := taskGraphProjectedNodes g\<rparr>) i = Some m"
  obtains n where "n \<in> set (tg_Nodes g)" and "tn_NodeID n = i" and "m = shown g n"
proof -
  from assms have "m \<in> set (taskGraphProjectedNodes g)" "tn_NodeID m = i"
    by (simp_all add: taskGraphNode_iff distinct_projected del: set_projected)
  with that show thesis by auto
qed

subsection \<open>Projecting twice\<close>

lemma completed_nodes_iff:
  assumes "distinct (map tn_NodeID N)"
  shows "completed_nodes N i \<longleftrightarrow> (\<exists>n \<in> set N. tn_NodeID n = i \<and> tn_Status n = ''completed'')"
proof -
  have "fold (\<lambda>node m. m(tn_NodeID node := tn_Status node = ''completed'')) N m i \<longleftrightarrow>
      (if i \<in> tn_NodeID ` set N then \<exists>n \<in> set N. tn_NodeID n = i \<and> tn_Status n = ''completed'' else m i)" for m
    using assms
  proof (induction N arbitrary: m)
    case (Cons x N)
    then show ?case by (auto simp: image_iff)
  qed simp
  then show ?thesis by (auto simp: completed_nodes_def)
qed

lemma shown_status:
  assumes "distinct (map tn_NodeID (tg_Nodes g))"
  shows "tn_Status (shown g n) =
     (if \<not> taskGraphNodeMutable n then tn_Status n
      else if tn_Status n = ''blocked'' \<or> dependency_failed (tg_Edges g) (tg_Nodes g) (tn_NodeID n) then ''blocked''
      else if (\<exists>e \<in> set (tg_Edges g). \<exists>p \<in> set (tg_Nodes g). te_ToNodeID e = tn_NodeID n \<and>
          te_FromNodeID e = tn_NodeID p \<and> tn_Status p \<noteq> ''completed'') then ''waiting'' else ''ready'')"
proof -
  have uniq: "p = q" if "p \<in> set (tg_Nodes g)" "q \<in> set (tg_Nodes g)" "tn_NodeID p = tn_NodeID q" for p q
    using assms that by (metis distinct_map inj_onD)
  have "dependency_open (completed_nodes (tg_Nodes g)) (tg_Edges g) (tg_Nodes g) (tn_NodeID n) \<longleftrightarrow>
     (\<exists>e \<in> set (tg_Edges g). \<exists>p \<in> set (tg_Nodes g). te_ToNodeID e = tn_NodeID n \<and>
          te_FromNodeID e = tn_NodeID p \<and> tn_Status p \<noteq> ''completed'')"
    unfolding dependency_open_def completed_nodes_iff [OF assms] using uniq by metis
  then show ?thesis unfolding project_node_status by simp
qed

lemma shown_final: "tn_Status (shown g n) \<in> {''completed'', ''failed'', ''cancelled'', ''running''} \<longleftrightarrow>
    tn_Status n \<in> {''completed'', ''failed'', ''cancelled'', ''running''}"
  and shown_final_eq: "tn_Status n \<in> {''completed'', ''failed'', ''cancelled'', ''running''} \<Longrightarrow> tn_Status (shown g n) = tn_Status n"
  by (auto simp: project_node_status node_status)

lemma shown_twice:
  assumes "distinct (map tn_NodeID (tg_Nodes g))"
    and g': "g' = g\<lparr>tg_Nodes := taskGraphProjectedNodes g\<rparr>"
  shows "tn_Status (shown g' (shown g n)) = tn_Status (shown g n)"
proof -
  have d': "distinct (map tn_NodeID (tg_Nodes g'))" using assms by (simp add: distinct_projected)
  have fin: "tn_Status (shown g p) = st \<longleftrightarrow> tn_Status p = st"
    if "st \<in> {''completed'', ''failed'', ''cancelled''}" for p st
    using that shown_final [of g p] shown_final_eq [of p g] by auto
  have failed: "dependency_failed (tg_Edges g') (tg_Nodes g') i \<longleftrightarrow> dependency_failed (tg_Edges g) (tg_Nodes g) i" for i
    by (simp add: dependency_failed_def g' fin)
  have open': "(\<exists>e \<in> set (tg_Edges g'). \<exists>p \<in> set (tg_Nodes g'). te_ToNodeID e = i \<and> te_FromNodeID e = tn_NodeID p \<and> tn_Status p \<noteq> ''completed'') \<longleftrightarrow>
     (\<exists>e \<in> set (tg_Edges g). \<exists>p \<in> set (tg_Nodes g). te_ToNodeID e = i \<and> te_FromNodeID e = tn_NodeID p \<and> tn_Status p \<noteq> ''completed'')" for i
    by (simp add: g' fin)
  show ?thesis
    unfolding shown_status [OF d', of "shown g n"] failed open' project_node_mutable shown_id
    using shown_status [OF assms(1), of n] by auto
qed

section \<open>Well-formed graphs\<close>

definition node_ids :: "TaskGraphProjection \<Rightarrow> string set" where
  "node_ids g = tn_NodeID ` set (tg_Nodes g)"

text \<open>Every predecessor of the node is completed.\<close>

definition deps_completed :: "TaskGraphProjection \<Rightarrow> string \<Rightarrow> bool" where
  "deps_completed g i \<longleftrightarrow> (\<forall>e \<in> set (tg_Edges g). te_ToNodeID e = i \<longrightarrow>
     (\<exists>p \<in> set (tg_Nodes g). tn_NodeID p = te_FromNodeID e \<and> tn_Status p = ''completed''))"

text \<open>
  The form of a graph (identifiers, endpoints, no repeated edge, no cycle), and what its
  stored statuses say: a blocked node has a failed or cancelled predecessor, and a node that
  is not bound to an invocation runs or is completed only if its predecessors are completed.
\<close>

definition graph_form :: "TaskGraphProjection \<Rightarrow> bool" where
  "graph_form g \<longleftrightarrow> distinct (map tn_NodeID (tg_Nodes g)) \<and>
     (\<forall>e \<in> set (tg_Edges g). te_FromNodeID e \<in> node_ids g \<and> te_ToNodeID e \<in> node_ids g) \<and>
     distinct (edge_pairs (tg_Edges g)) \<and> acyclic (set (edge_pairs (tg_Edges g)))"

definition node_ok :: "TaskGraphProjection \<Rightarrow> TaskGraphNodeProjection \<Rightarrow> bool" where
  "node_ok g n \<longleftrightarrow>
     (tn_Status n = ''blocked'' \<longrightarrow> dependency_failed (tg_Edges g) (tg_Nodes g) (tn_NodeID n)) \<and>
     (tn_InvocationID n = [] \<longrightarrow> tn_Status n \<in> {''running'', ''completed''} \<longrightarrow> deps_completed g (tn_NodeID n))"

definition graph_ok :: "TaskGraphProjection \<Rightarrow> bool" where
  "graph_ok g \<longleftrightarrow> graph_form g \<and> (\<forall>n \<in> set (tg_Nodes g). node_ok g n)"

lemma graph_ok_distinct: "graph_ok g \<Longrightarrow> distinct (map tn_NodeID (tg_Nodes g))"
  by (simp add: graph_ok_def graph_form_def)

lemma graph_node_unique:
  "graph_ok g \<Longrightarrow> p \<in> set (tg_Nodes g) \<Longrightarrow> q \<in> set (tg_Nodes g) \<Longrightarrow> tn_NodeID p = tn_NodeID q \<Longrightarrow> p = q"
  by (metis graph_ok_distinct distinct_map inj_onD)

text \<open>How a graph may evolve: nodes are kept, finished nodes as they are, and bindings are kept.\<close>

definition graph_le :: "TaskGraphProjection \<Rightarrow> TaskGraphProjection \<Rightarrow> bool" where
  "graph_le g g' \<longleftrightarrow> tg_SessionID g' = tg_SessionID g \<and> tg_CreatedAt g' = tg_CreatedAt g \<and>
     (\<forall>n \<in> set (tg_Nodes g). \<exists>n' \<in> set (tg_Nodes g'). tn_NodeID n' = tn_NodeID n \<and>
        (taskGraphNodeTerminal n \<longrightarrow> n' = n) \<and> (tn_InvocationID n \<noteq> [] \<longrightarrow> tn_InvocationID n' = tn_InvocationID n))"

lemma graph_le_refl [simp]: "graph_le g g"
  by (auto simp: graph_le_def)

lemma graph_le_trans: "graph_le g h \<Longrightarrow> graph_le h i \<Longrightarrow> graph_le g i"
  unfolding graph_le_def by metis

subsection \<open>Adding and replacing nodes\<close>

lemma set_node_new: "tn_NodeID n \<notin> tn_NodeID ` set N \<Longrightarrow> set_node n N = N @ [n]"
  unfolding set_node_def list_ex_iff by (metis image_eqI)

lemma set_node_old:
  "tn_NodeID n \<in> tn_NodeID ` set N \<Longrightarrow> set_node n N = map (\<lambda>m. if tn_NodeID m = tn_NodeID n then n else m) N"
  unfolding set_node_def list_ex_iff by (metis imageE)

lemma graph_ok_add_node:
  assumes ok: "graph_ok g" and new: "tn_NodeID n \<notin> node_ids g" and st: "tn_Status n = ''proposed''"
    and g': "g' = g\<lparr>tg_Nodes := set_node n (tg_Nodes g)\<rparr>"
  shows "graph_ok g'" and "graph_le g g'" and "set (tg_Nodes g') = insert n (set (tg_Nodes g))"
proof -
  have nodes: "tg_Nodes g' = tg_Nodes g @ [n]" and edges: "tg_Edges g' = tg_Edges g"
    using new set_node_new [of n "tg_Nodes g"] by (simp_all add: g' node_ids_def)
  show "set (tg_Nodes g') = insert n (set (tg_Nodes g))" by (simp add: nodes)
  have "graph_form g'"
    using ok new by (auto simp: graph_ok_def graph_form_def node_ids_def nodes edges)
  moreover have "node_ok g' m" if "node_ok g m" for m
    using that by (auto simp: node_ok_def dependency_failed_def deps_completed_def nodes edges)
  moreover have "node_ok g' n" by (simp add: node_ok_def st)
  ultimately show "graph_ok g'" using ok by (auto simp: graph_ok_def nodes)
  show "graph_le g g'" using nodes by (auto simp: graph_le_def g')
qed

lemma graph_ok_set_node:
  assumes ok: "graph_ok g" and n: "n \<in> set (tg_Nodes g)" "\<not> taskGraphNodeTerminal n"
    and n': "tn_NodeID n' = tn_NodeID n" "tn_InvocationID n \<noteq> [] \<longrightarrow> tn_InvocationID n' = tn_InvocationID n"
    and blocked: "tn_Status n' = ''blocked'' \<Longrightarrow> dependency_failed (tg_Edges g) (tg_Nodes g) (tn_NodeID n)"
    and deps: "tn_InvocationID n' = [] \<Longrightarrow> tn_Status n' \<in> {''running'', ''completed''} \<Longrightarrow> deps_completed g (tn_NodeID n)"
    and g': "g' = g\<lparr>tg_Nodes := set_node n' (tg_Nodes g)\<rparr>"
  shows "graph_ok g'" and "graph_le g g'"
    and "set (tg_Nodes g') = insert n' (set (tg_Nodes g) - {n})"
proof -
  let ?f = "\<lambda>m. if tn_NodeID m = tn_NodeID n' then n' else m"
  have nodes: "tg_Nodes g' = map ?f (tg_Nodes g)" and edges: "tg_Edges g' = tg_Edges g"
    using n n'(1) set_node_old [of n' "tg_Nodes g"] by (simp_all add: g')
  have other: "m \<in> set (tg_Nodes g)" "m \<noteq> n \<Longrightarrow> tn_NodeID m \<noteq> tn_NodeID n'" if "m \<in> set (tg_Nodes g)" for m
    using that graph_node_unique [OF ok that n(1)] n'(1) by auto
  show set': "set (tg_Nodes g') = insert n' (set (tg_Nodes g) - {n})"
    using n n'(1) other(2) by (auto simp: nodes)
  have ids: "map tn_NodeID (tg_Nodes g') = map tn_NodeID (tg_Nodes g)" by (simp add: nodes)
  then have ids': "node_ids g' = node_ids g" unfolding node_ids_def by (metis list.set_map)
  have form: "graph_form g'"
    using ok unfolding graph_ok_def graph_form_def ids ids' edges by blast
  have keep: "p \<in> set (tg_Nodes g')" if "p \<in> set (tg_Nodes g)" "taskGraphNodeTerminal p" for p
    using that n(2) set' by auto
  have failed: "dependency_failed (tg_Edges g') (tg_Nodes g') i" if failed: "dependency_failed (tg_Edges g) (tg_Nodes g) i" for i
  proof -
    from failed obtain e p where "e \<in> set (tg_Edges g)" "p \<in> set (tg_Nodes g)" "te_ToNodeID e = i"
      "te_FromNodeID e = tn_NodeID p" "tn_Status p \<in> {''failed'', ''cancelled''}"
      unfolding dependency_failed_def by blast
    moreover from this have "p \<in> set (tg_Nodes g')" by (intro keep) (auto simp: taskGraphNodeTerminal_def)
    ultimately show ?thesis unfolding dependency_failed_def edges by blast
  qed
  have completed: "deps_completed g' i" if completed: "deps_completed g i" for i
    unfolding deps_completed_def
  proof (intro ballI impI)
    fix e assume "e \<in> set (tg_Edges g')" "te_ToNodeID e = i"
    with completed obtain p where "p \<in> set (tg_Nodes g)" "tn_NodeID p = te_FromNodeID e" "tn_Status p = ''completed''"
      unfolding deps_completed_def edges by blast
    moreover from this have "p \<in> set (tg_Nodes g')" by (intro keep) (auto simp: taskGraphNodeTerminal_def)
    ultimately show "\<exists>p \<in> set (tg_Nodes g'). tn_NodeID p = te_FromNodeID e \<and> tn_Status p = ''completed''" by blast
  qed
  have "node_ok g' m" if "m \<in> set (tg_Nodes g')" for m
  proof (cases "m = n'")
    case True
    with blocked deps n'(1) failed completed show ?thesis by (simp add: node_ok_def)
  next
    case False
    with that set' ok have "node_ok g m" by (auto simp: graph_ok_def)
    with failed completed show ?thesis by (simp add: node_ok_def)
  qed
  with form show "graph_ok g'" by (simp add: graph_ok_def)
  show "graph_le g g'"
    unfolding graph_le_def
  proof (intro conjI ballI)
    fix m assume m: "m \<in> set (tg_Nodes g)"
    show "\<exists>m' \<in> set (tg_Nodes g'). tn_NodeID m' = tn_NodeID m \<and> (taskGraphNodeTerminal m \<longrightarrow> m' = m) \<and>
      (tn_InvocationID m \<noteq> [] \<longrightarrow> tn_InvocationID m' = tn_InvocationID m)"
    proof (cases "m = n")
      case True
      with n n' set' show ?thesis by (intro bexI [of _ n']) auto
    next
      case False
      with m set' show ?thesis by (intro bexI [of _ m]) auto
    qed
  qed (simp_all add: g')
qed

subsection \<open>Adding and removing edges\<close>

lemma edge_pair_eq: "(te_FromNodeID e, te_ToNodeID e) = (te_FromNodeID d, te_ToNodeID d) \<Longrightarrow> e = (d :: TaskGraphEdgeProjection)"
  by (cases e; cases d) simp

lemma graph_ok_add_edge:
  assumes ok: "graph_ok g" and src: "p \<in> set (tg_Nodes g)" "tn_NodeID p = te_FromNodeID d"
    and to: "q \<in> set (tg_Nodes g)" "tn_NodeID q = te_ToNodeID d" "taskGraphNodeMutable q"
    and new: "\<not> taskGraphHasEdge g (te_FromNodeID d) (te_ToNodeID d)"
    and acyc: "acyclic (set (edge_pairs (tg_Edges g @ [d])))"
    and g': "g' = g\<lparr>tg_Edges := tg_Edges g @ [d]\<rparr>"
  shows "graph_ok g'"
proof -
  have "te_FromNodeID d \<in> node_ids g" "te_ToNodeID d \<in> node_ids g"
    using src to(1,2) by (metis image_eqI node_ids_def)+
  then have "graph_form g'"
    using ok new acyc
    by (auto simp: g' graph_ok_def graph_form_def node_ids_def taskGraphHasEdge_def list_ex_iff)
  moreover have "node_ok g' m" if m: "m \<in> set (tg_Nodes g)" for m
  proof -
    from ok m have old: "node_ok g m" by (simp add: graph_ok_def)
    have "deps_completed g' (tn_NodeID m)" if "deps_completed g (tn_NodeID m)" "tn_Status m \<in> {''running'', ''completed''}"
    proof -
      from that(2) to(3) have "m \<noteq> q" by (auto simp: node_status)
      with graph_node_unique [OF ok m to(1)] to(2) have "tn_NodeID m \<noteq> te_ToNodeID d" by auto
      with that(1) show ?thesis by (auto simp: g' deps_completed_def)
    qed
    with old show ?thesis by (auto simp: g' node_ok_def dependency_failed_def)
  qed
  ultimately show ?thesis by (simp add: graph_ok_def g')
qed

lemma graph_ok_remove_edge:
  assumes ok: "graph_ok g" and src: "p \<in> set (tg_Nodes g)" "tn_NodeID p = te_FromNodeID d" "taskGraphNodeMutable p"
    and g': "g' = g\<lparr>tg_Edges := taskGraphWithoutEdge (tg_Edges g) d\<rparr>"
  shows "graph_ok g'"
proof -
  have sub: "set (tg_Edges g') \<subseteq> set (tg_Edges g)" by (auto simp: g' taskGraphWithoutEdge_def)
  have "set (edge_pairs (tg_Edges g')) \<subseteq> set (edge_pairs (tg_Edges g))" using sub by auto
  then have "acyclic (set (edge_pairs (tg_Edges g')))"
    using ok acyclic_subset unfolding graph_ok_def graph_form_def by blast
  moreover have "distinct (edge_pairs (tg_Edges g'))"
    using ok by (simp add: graph_ok_def graph_form_def g' taskGraphWithoutEdge_def distinct_map_filter)
  ultimately have "graph_form g'"
    using ok sub by (auto simp: graph_ok_def graph_form_def g' node_ids_def)
  moreover have "node_ok g' m" if m: "m \<in> set (tg_Nodes g)" for m
  proof -
    have "dependency_failed (tg_Edges g') (tg_Nodes g) i" if "dependency_failed (tg_Edges g) (tg_Nodes g) i" for i
    proof -
      from that obtain e r where e: "e \<in> set (tg_Edges g)" "r \<in> set (tg_Nodes g)" "te_ToNodeID e = i"
        "te_FromNodeID e = tn_NodeID r" "tn_Status r \<in> {''failed'', ''cancelled''}"
        unfolding dependency_failed_def by blast
      with src(3) have "r \<noteq> p" by (auto simp: node_status)
      with graph_node_unique [OF ok e(2) src(1)] e(4) src(2) have "te_FromNodeID e \<noteq> te_FromNodeID d" by auto
      with e(1) have "e \<in> set (tg_Edges g')" by (simp add: g' taskGraphWithoutEdge_def)
      with e show ?thesis unfolding dependency_failed_def by blast
    qed
    moreover have "deps_completed g' i" if "deps_completed g i" for i
      using that sub by (auto simp: deps_completed_def g')
    ultimately show ?thesis using ok m by (auto simp: graph_ok_def node_ok_def g')
  qed
  ultimately show ?thesis by (simp add: graph_ok_def g')
qed

end
