(* ===== verification/Task_Graph_Runs.thy ===== *)
theory Task_Graph_Runs
  imports Task_Graph_Correct
begin

text \<open>
  The task graphs of a running kernel: what each operation does to the graphs the log
  projects to, the invariant of every run, and the properties of the component.
\<close>

section \<open>The graphs of a log\<close>

definition graph_rows :: "kernel \<Rightarrow> StoredEvent list" where
  "graph_rows k = filter (\<lambda>e. ed_TaskGraph (ev_Data e) \<noteq> None) (k_rows k)"

text \<open>
  The operations hold a mutex from reading the clock to appending, so task-graph events are
  appended in the order of their times as long as the clock does not go back. Events of
  other kinds may have any time.
\<close>

definition graph_timely :: "kernel \<Rightarrow> bool" where
  "graph_timely k \<longleftrightarrow> mono (env_clock (k_env k)) \<and> sorted (map ev_CreatedAt (graph_rows k)) \<and>
     (\<forall>e \<in> set (graph_rows k). ev_CreatedAt e \<le> env_clock (k_env k) (k_ticks k))"

definition graphs :: "kernel \<Rightarrow> TaskGraphProjection go_map res" where
  "graphs k = replay taskGraphs_step [] (graph_rows k)"

lemma taskGraphs_step_other: "ed_TaskGraph (ev_Data e) = None \<Longrightarrow> taskGraphs_step m e = Inr m"
  by (simp add: taskGraphs_step_def)

lemma taskGraphs_eq:
  assumes "graph_timely k" and "loadEvents k = Inr es"
  shows "taskGraphs k = graphs k"
proof -
  have "filter (\<lambda>e. ed_TaskGraph (ev_Data e) \<noteq> None) es = graph_rows k"
    using loadEvents_filter [OF assms(2)] assms(1)
    by (simp add: graph_rows_def graph_timely_def sort_key_id_if_sorted)
  moreover have "replay taskGraphs_step [] (filter (\<lambda>e. ed_TaskGraph (ev_Data e) \<noteq> None) es) = replay taskGraphs_step [] es"
    by (rule replay_filter) (simp add: taskGraphs_step_other)
  ultimately show ?thesis using assms(2) by (simp add: taskGraphs_def graphs_def)
qed

lemma taskGraphs_Inr:
  assumes "graph_timely k" and "taskGraphs k = Inr m"
  shows "graphs k = Inr m"
proof -
  from assms(2) obtain es where "loadEvents k = Inr es" by (auto simp: taskGraphs_def bind_res_Inr_iff)
  with assms taskGraphs_eq show ?thesis by metis
qed

section \<open>Collections of graphs\<close>

text \<open>No invocation is bound to two nodes, in one graph or in two.\<close>

definition bound_once :: "TaskGraphProjection go_map \<Rightarrow> bool" where
  "bound_once m \<longleftrightarrow> (\<forall>i g n j h p. go_lookup m i = Some g \<longrightarrow> go_lookup m j = Some h \<longrightarrow>
     n \<in> set (tg_Nodes g) \<longrightarrow> p \<in> set (tg_Nodes h) \<longrightarrow> tn_InvocationID n = tn_InvocationID p \<longrightarrow>
     tn_InvocationID n \<noteq> [] \<longrightarrow> i = j \<and> tn_NodeID n = tn_NodeID p)"

definition graphs_ok :: "TaskGraphProjection go_map \<Rightarrow> bool" where
  "graphs_ok m \<longleftrightarrow> distinct (map fst m) \<and>
     (\<forall>i g. go_lookup m i = Some g \<longrightarrow> tg_GraphID g = i \<and> graph_ok g) \<and> bound_once m"

definition graphs_le :: "TaskGraphProjection go_map \<Rightarrow> TaskGraphProjection go_map \<Rightarrow> bool" where
  "graphs_le m m' \<longleftrightarrow> (\<forall>i g. go_lookup m i = Some g \<longrightarrow> (\<exists>g'. go_lookup m' i = Some g' \<and> graph_le g g'))"

lemma graphs_le_refl [simp]: "graphs_le m m"
  by (auto simp: graphs_le_def)

lemma graphs_le_trans: "graphs_le m m' \<Longrightarrow> graphs_le m' m'' \<Longrightarrow> graphs_le m m''"
  unfolding graphs_le_def by (meson graph_le_trans)

text \<open>The identifiers in use.\<close>

definition graph_idents :: "TaskGraphProjection go_map \<Rightarrow> string set" where
  "graph_idents m = fst ` set m \<union> {i. \<exists>j g. go_lookup m j = Some g \<and> i \<in> node_ids g}"

lemma graphs_ok_store:
  assumes ok: "graphs_ok m" and g': "graph_ok g'" "tg_GraphID g' = i"
    and old: "go_lookup m i = Some g \<Longrightarrow> graph_le g g'"
    and bind: "\<And>n. n \<in> set (tg_Nodes g') \<Longrightarrow> tn_InvocationID n \<noteq> [] \<Longrightarrow>
      (\<exists>h p. go_lookup m i = Some h \<and> p \<in> set (tg_Nodes h) \<and> tn_NodeID p = tn_NodeID n \<and> tn_InvocationID p = tn_InvocationID n) \<or>
      (\<forall>j h p. go_lookup m j = Some h \<longrightarrow> p \<in> set (tg_Nodes h) \<longrightarrow> tn_InvocationID p \<noteq> tn_InvocationID n) \<and>
      (\<forall>p \<in> set (tg_Nodes g'). tn_InvocationID p = tn_InvocationID n \<longrightarrow> p = n)"
  shows "graphs_ok (go_store i g' m)"
proof -
  let ?m = "go_store i g' m"
  have once: "bound_once m" using ok by (simp add: graphs_ok_def)
  have origin: "(\<exists>h p. go_lookup m j = Some h \<and> p \<in> set (tg_Nodes h) \<and> tn_NodeID p = tn_NodeID n \<and> tn_InvocationID p = tn_InvocationID n) \<or>
      j = i \<and> n \<in> set (tg_Nodes g') \<and>
      (\<forall>j h p. go_lookup m j = Some h \<longrightarrow> p \<in> set (tg_Nodes h) \<longrightarrow> tn_InvocationID p \<noteq> tn_InvocationID n) \<and>
      (\<forall>p \<in> set (tg_Nodes g'). tn_InvocationID p = tn_InvocationID n \<longrightarrow> p = n)"
    if "go_lookup ?m j = Some h" "n \<in> set (tg_Nodes h)" "tn_InvocationID n \<noteq> []" for j h n
  proof (cases "j = i")
    case True
    with that have "n \<in> set (tg_Nodes g')" by simp
    with bind [OF this that(3)] True show ?thesis by blast
  next
    case False
    with that show ?thesis by auto
  qed
  have "bound_once ?m"
    unfolding bound_once_def
  proof (intro allI impI)
    fix a g n b h p
    assume n: "go_lookup ?m a = Some g" "n \<in> set (tg_Nodes g)" and p: "go_lookup ?m b = Some h" "p \<in> set (tg_Nodes h)"
      and same: "tn_InvocationID n = tn_InvocationID p" "tn_InvocationID n \<noteq> []"
    from origin [OF n same(2)] show "a = b \<and> tn_NodeID n = tn_NodeID p"
    proof
      assume "\<exists>h p. go_lookup m a = Some h \<and> p \<in> set (tg_Nodes h) \<and> tn_NodeID p = tn_NodeID n \<and> tn_InvocationID p = tn_InvocationID n"
      then obtain g0 n0 where n0: "go_lookup m a = Some g0" "n0 \<in> set (tg_Nodes g0)" "tn_NodeID n0 = tn_NodeID n" "tn_InvocationID n0 = tn_InvocationID n"
        by blast
      have "\<exists>h p'. go_lookup m b = Some h \<and> p' \<in> set (tg_Nodes h) \<and> tn_NodeID p' = tn_NodeID p \<and> tn_InvocationID p' = tn_InvocationID p"
        using origin [OF p] same n0 by metis
      then show ?thesis using once n0 same unfolding bound_once_def by metis
    next
      assume new: "a = i \<and> n \<in> set (tg_Nodes g') \<and>
        (\<forall>j h p. go_lookup m j = Some h \<longrightarrow> p \<in> set (tg_Nodes h) \<longrightarrow> tn_InvocationID p \<noteq> tn_InvocationID n) \<and>
        (\<forall>p \<in> set (tg_Nodes g'). tn_InvocationID p = tn_InvocationID n \<longrightarrow> p = n)"
      with origin [OF p] same have "b = i \<and> p \<in> set (tg_Nodes g')" by metis
      with new same show ?thesis by metis
    qed
  qed
  with ok g' show ?thesis by (auto simp: graphs_ok_def)
qed

lemma graphs_le_store:
  "(\<And>g. go_lookup m i = Some g \<Longrightarrow> graph_le g g') \<Longrightarrow> graphs_le m (go_store i g' m)"
  by (auto simp: graphs_le_def)

lemma graph_idents_store: "graph_idents (go_store i g' m) \<subseteq> insert i (node_ids g') \<union> graph_idents m"
  by (auto simp: graph_idents_def split: if_splits)

lemma graph_idents_lookup: "go_lookup m j = Some g \<Longrightarrow> insert j (node_ids g) \<subseteq> graph_idents m"
  by (force simp: graph_idents_def dest: map_of_SomeD)

section \<open>The invariant\<close>

definition tg_inv :: "kernel \<Rightarrow> bool" where
  "tg_inv k \<longleftrightarrow> env_ok (k_env k) \<and> graph_timely k \<and>
     (\<exists>m. graphs k = Inr m \<and> graphs_ok m \<and> graph_idents m \<subseteq> allocated k)"

lemma tg_invE:
  assumes "tg_inv k"
  obtains m where "graphs k = Inr m" and "graphs_ok m" and "graph_idents m \<subseteq> allocated k"
  using assms by (auto simp: tg_inv_def)

text \<open>What a step of a run is shown to be: it keeps the invariant and every graph evolves.\<close>

definition tg_step :: "kernel \<Rightarrow> kernel \<Rightarrow> bool" where
  "tg_step k k' \<longleftrightarrow> (tg_inv k \<longrightarrow> tg_inv k' \<and> (\<forall>m m'. graphs k = Inr m \<longrightarrow> graphs k' = Inr m' \<longrightarrow> graphs_le m m'))"

lemma tg_step_refl [simp]: "tg_step k k"
  by (simp add: tg_step_def)

lemma tg_step_trans: "tg_step k k' \<Longrightarrow> tg_step k' k'' \<Longrightarrow> tg_step k k''"
  unfolding tg_step_def by (metis graphs_le_trans tg_invE)

lemma tg_step_other:
  assumes ext: "kernel_ext k k' es" and none: "\<forall>e \<in> set es. ed_TaskGraph (ev_Data e) = None"
  shows "tg_step k k'"
proof -
  have rows: "graph_rows k' = graph_rows k" using assms by (simp add: graph_rows_def kernel_ext_def)
  have "graph_timely k'" if t: "graph_timely k"
  proof -
    have "env_clock (k_env k) (k_ticks k) \<le> env_clock (k_env k) (k_ticks k')"
      using t ext by (simp add: graph_timely_def kernel_ext_def mono_def)
    with t ext show ?thesis unfolding graph_timely_def rows kernel_ext_def by (metis order_trans)
  qed
  with rows allocated_ext [OF ext] env_ok_ext [OF ext] show ?thesis
    unfolding tg_step_def tg_inv_def graphs_def by auto
qed

corollary tg_step_Nil: "kernel_ext k k' [] \<Longrightarrow> tg_step k k'"
  by (rule tg_step_other) auto

lemma tg_step_event:
  assumes ext: "kernel_ext k k' [taskGraph_event i ty d]" and now: "tv_CreatedAt d = fst (clock k)"
    and eff: "\<And>m. graphs k = Inr m \<Longrightarrow> graphs_ok m \<Longrightarrow> graph_idents m \<subseteq> allocated k \<Longrightarrow>
      \<exists>m'. taskGraphs_step m (taskGraph_event i ty d) = Inr m' \<and> graphs_ok m' \<and> graphs_le m m' \<and>
        graph_idents m' \<subseteq> allocated k'"
  shows "tg_step k k'"
  unfolding tg_step_def
proof (intro impI conjI)
  assume inv: "tg_inv k"
  then obtain m where m: "graphs k = Inr m" "graphs_ok m" "graph_idents m \<subseteq> allocated k" by (rule tg_invE)
  from eff [OF m] obtain m' where m': "taskGraphs_step m (taskGraph_event i ty d) = Inr m'" "graphs_ok m'" "graphs_le m m'"
    "graph_idents m' \<subseteq> allocated k'" by blast
  have rows: "graph_rows k' = graph_rows k @ [taskGraph_event i ty d]"
    using ext by (simp add: graph_rows_def kernel_ext_def taskGraph_event_def)
  have g': "graphs k' = Inr m'"
    using m(1) m'(1) by (simp add: graphs_def rows replay_snoc)
  from inv have t: "graph_timely k" by (simp add: tg_inv_def)
  have clk: "env_clock (k_env k) (k_ticks k) \<le> env_clock (k_env k) (k_ticks k')"
    using t ext by (simp add: graph_timely_def kernel_ext_def mono_def)
  have e: "ev_CreatedAt (taskGraph_event i ty d) = env_clock (k_env k) (k_ticks k)"
    using now by (simp add: taskGraph_event_def clock_def)
  have "graph_timely k'"
    using t clk ext unfolding graph_timely_def rows
    by (auto simp: sorted_append e kernel_ext_def intro: order_trans)
  with inv g' m' env_ok_ext [OF ext] show "tg_inv k'" by (simp add: tg_inv_def)
  show "\<forall>m m'. graphs k = Inr m \<longrightarrow> graphs k' = Inr m' \<longrightarrow> graphs_le m m'"
    using m(1) g' m'(3) by simp
qed

section \<open>The operations\<close>

lemma appendTaskGraphEvent_cases:
  assumes "appendTaskGraphEvent ty d k = (r, k')"
  obtains i where "r = None" and "kernel_ext k k' [taskGraph_event i ty d]"
  | err where "r = Some err" and "kernel_ext k k' []"
proof -
  define t where "t = fst (clock k)"
  define k2 where "k2 = snd (newID ''evt'' t (snd (clock k)))"
  define i where "i = fst (newID ''evt'' t (snd (clock k)))"
  have ext: "kernel_ext k k' es" if "kernel_ext k2 k' es" for es
    using that unfolding k2_def by (rule kernel_ext_stamp1)
  have app: "appendEvent (taskGraph_event i ty d) k2 = (r, k')"
    using assms by (simp add: appendTaskGraphEvent_def split_beta k2_def i_def t_def)
  show thesis
  proof (cases r)
    case None
    with app appendEvent_done(1) ext that(1) show thesis by blast
  next
    case (Some err)
    with app appendEvent_failed(1) ext that(2) show thesis by blast
  qed
qed

lemma taskGraph_spec:
  assumes inv: "tg_inv k" and g: "taskGraph gid k = Inr g"
  obtains m g0 where "graphs k = Inr m" and "graphs_ok m" and "graph_idents m \<subseteq> allocated k"
    and "go_lookup m (TrimSpace gid) = Some g0" and "tg_GraphID g0 = TrimSpace gid" and "graph_ok g0"
    and "g = g0\<lparr>tg_Nodes := taskGraphProjectedNodes g0\<rparr>"
proof -
  from g obtain m g0 where m: "taskGraphs k = Inr m" "go_lookup m (TrimSpace gid) = Some g0"
    "g = g0\<lparr>tg_Nodes := taskGraphProjectedNodes g0\<rparr>"
    by (auto simp: taskGraph_def bind_res_Inr_iff split: option.splits)
  from inv m(1) have gk: "graphs k = Inr m" by (intro taskGraphs_Inr) (simp_all add: tg_inv_def)
  with inv have "graphs_ok m" "graph_idents m \<subseteq> allocated k" by (metis tg_invE sum.inject(2))+
  moreover from this m(2) have "tg_GraphID g0 = TrimSpace gid" "graph_ok g0" by (auto simp: graphs_ok_def)
  ultimately show thesis using that gk m by blast
qed

lemma node_event_step:
  assumes "go_lookup m (tg_GraphID g) = Some g0" and "ty \<noteq> ''task_graph.created''"
  shows "taskGraphs_step m (taskGraph_event i ty (node_data g n t)) =
    Inr (go_store (tg_GraphID g) (g0\<lparr>tg_Nodes := set_node n (tg_Nodes g0)\<rparr>) m)"
  using assms by (simp add: taskGraphs_step_def taskGraph_event_def)

lemma tg_step_set_node:
  assumes ext: "kernel_ext k k' [taskGraph_event i ty (node_data g n' now)]" and now: "now = fst (clock k)"
    and ty: "ty \<noteq> ''task_graph.created''"
    and gk: "graphs k = Inr m" "go_lookup m (tg_GraphID g) = Some g0" "graph_ok g0" "tg_GraphID g0 = tg_GraphID g"
    and n: "n \<in> set (tg_Nodes g0)" "\<not> taskGraphNodeTerminal n" and n': "tn_NodeID n' = tn_NodeID n"
    and bind: "tn_InvocationID n' = tn_InvocationID n \<or> tn_InvocationID n = [] \<and>
      (\<forall>j h p. go_lookup m j = Some h \<longrightarrow> p \<in> set (tg_Nodes h) \<longrightarrow> tn_InvocationID p \<noteq> tn_InvocationID n')"
    and blocked: "tn_Status n' = ''blocked'' \<Longrightarrow> dependency_failed (tg_Edges g0) (tg_Nodes g0) (tn_NodeID n)"
    and deps: "tn_InvocationID n' = [] \<Longrightarrow> tn_Status n' \<in> {''running'', ''completed''} \<Longrightarrow> deps_completed g0 (tn_NodeID n)"
  shows "tg_step k k'"
proof (rule tg_step_event [OF ext])
  show "tv_CreatedAt (node_data g n' now) = fst (clock k)" by (simp add: now)
next
  fix m1 assume "graphs k = Inr m1" "graphs_ok m1" "graph_idents m1 \<subseteq> allocated k"
  with gk(1) have ok: "graphs_ok m" "graph_idents m \<subseteq> allocated k" and m1: "m1 = m" by simp_all
  define g' where "g' = g0\<lparr>tg_Nodes := set_node n' (tg_Nodes g0)\<rparr>"
  have keep: "tn_InvocationID n \<noteq> [] \<longrightarrow> tn_InvocationID n' = tn_InvocationID n" using bind by auto
  note set = graph_ok_set_node [OF gk(3) n n' keep blocked deps g'_def]
  have "graphs_ok (go_store (tg_GraphID g) g' m)"
  proof (rule graphs_ok_store [OF ok(1) set(1)])
    show "tg_GraphID g' = tg_GraphID g" by (simp add: g'_def gk(4))
    show "graph_le h g'" if "go_lookup m (tg_GraphID g) = Some h" for h using that gk(2) set(2) by simp
  next
    fix x assume x: "x \<in> set (tg_Nodes g')" "tn_InvocationID x \<noteq> []"
    show "(\<exists>h p. go_lookup m (tg_GraphID g) = Some h \<and> p \<in> set (tg_Nodes h) \<and> tn_NodeID p = tn_NodeID x \<and> tn_InvocationID p = tn_InvocationID x) \<or>
      (\<forall>j h p. go_lookup m j = Some h \<longrightarrow> p \<in> set (tg_Nodes h) \<longrightarrow> tn_InvocationID p \<noteq> tn_InvocationID x) \<and>
      (\<forall>p \<in> set (tg_Nodes g'). tn_InvocationID p = tn_InvocationID x \<longrightarrow> p = x)"
    proof (cases "x = n' \<and> tn_InvocationID n' \<noteq> tn_InvocationID n")
      case True
      with bind gk(2) set(3) show ?thesis by (intro disjI2) auto
    next
      case False
      with x(1) set(3) gk(2) n(1) n' show ?thesis by (intro disjI1) (metis Diff_iff insert_iff)
    qed
  qed
  moreover have "graphs_le m (go_store (tg_GraphID g) g' m)"
    using gk(2) set(2) by (intro graphs_le_store) simp
  moreover have "node_ids g' = node_ids g0" using set(3) n(1) n' unfolding node_ids_def by (auto simp: rev_image_eqI)
  then have "graph_idents (go_store (tg_GraphID g) g' m) \<subseteq> graph_idents m"
    using graph_idents_store [of "tg_GraphID g" g' m] graph_idents_lookup [OF gk(2)] by blast
  ultimately show "\<exists>m'. taskGraphs_step m1 (taskGraph_event i ty (node_data g n' now)) = Inr m' \<and> graphs_ok m' \<and>
      graphs_le m1 m' \<and> graph_idents m' \<subseteq> allocated k'"
    using node_event_step [OF gk(2) ty, of i n' now] ok(2) allocated_ext [OF ext]
    unfolding m1 g'_def by blast
qed

lemma CreateTaskGraph_step: "CreateTaskGraph sid k = (r, k') \<Longrightarrow> tg_step k k'"
proof (cases "TrimSpace sid = []")
  case True
  moreover assume "CreateTaskGraph sid k = (r, k')"
  ultimately show ?thesis by (simp add: CreateTaskGraph_def)
next
  case False
  assume run: "CreateTaskGraph sid k = (r, k')"
  define now where "now = fst (clock k)"
  define gid where "gid = fst (newID ''task_graph'' now (snd (clock k)))"
  define k1 where "k1 = snd (newID ''task_graph'' now (snd (clock k)))"
  define d where "d = \<lparr>tv_GraphID = gid, tv_SessionID = TrimSpace sid, tv_Node = None, tv_Edge = None, tv_CreatedAt = now\<rparr>"
  obtain r1 where app: "appendTaskGraphEvent ''task_graph.created'' d k1 = (r1, k')"
    using run False unfolding CreateTaskGraph_def Let_def case_prod_unfold
    by (simp add: d_def gid_def k1_def now_def split: option.splits) (metis prod.collapse)+
  have ext: "kernel_ext k k' es" if "kernel_ext k1 k' es" for es
    using that unfolding k1_def by (rule kernel_ext_stamp1)
  from app show ?thesis
  proof (cases rule: appendTaskGraphEvent_cases)
    case (2 err)
    then show ?thesis by (intro tg_step_Nil ext)
  next
    case (1 i)
    show ?thesis
      unfolding tg_step_def
    proof
      assume inv: "tg_inv k"
      then have uniq: "ulid_unique (k_env k)" by (simp add: tg_inv_def env_ok_ulid)
      have "tg_step k k'"
      proof (rule tg_step_event [OF ext [OF 1(2)]])
        show "tv_CreatedAt d = fst (clock k)" by (simp add: d_def now_def)
      next
        fix m assume m: "graphs k = Inr m" "graphs_ok m" "graph_idents m \<subseteq> allocated k"
        define g where "g = \<lparr>tg_GraphID = gid, tg_SessionID = TrimSpace sid, tg_Nodes = [], tg_Edges = [], tg_CreatedAt = now\<rparr>"
        have "gid \<notin> allocated k" using newID_fresh [of "snd (clock k)"] uniq by (simp add: gid_def)
        with m(3) have new: "go_lookup m gid = None"
          by (auto simp: graph_idents_def map_of_eq_None_iff)
        have step: "taskGraphs_step m (taskGraph_event i ''task_graph.created'' d) = Inr (go_store gid g m)"
          by (simp add: taskGraphs_step_def taskGraph_event_def d_def g_def)
        have ok: "graph_ok g" by (simp add: graph_ok_def graph_form_def g_def acyclic_def)
        have "graphs_ok (go_store gid g m)"
          by (rule graphs_ok_store [OF m(2) ok]) (use new in \<open>simp_all add: g_def\<close>)
        moreover have "gid \<in> allocated k1" using newID_allocated [of "snd (clock k)"] uniq by (simp add: gid_def k1_def)
        then have "graph_idents (go_store gid g m) \<subseteq> allocated k'"
          using graph_idents_store [of gid g m] m(3) allocated_ext [OF 1(2)] allocated_ext [OF ext [OF 1(2)]]
          by (auto simp: node_ids_def g_def)
        ultimately show "\<exists>m'. taskGraphs_step m (taskGraph_event i ''task_graph.created'' d) = Inr m' \<and> graphs_ok m' \<and>
            graphs_le m m' \<and> graph_idents m' \<subseteq> allocated k'"
          using step new graphs_le_store [of m gid g] by auto
      qed
      with inv show "tg_inv k' \<and> (\<forall>m m'. graphs k = Inr m \<longrightarrow> graphs k' = Inr m' \<longrightarrow> graphs_le m m')"
        by (simp add: tg_step_def)
    qed
  qed
qed

lemma AddTaskGraphNode_step: "AddTaskGraphNode req k = (r, k') \<Longrightarrow> tg_step k k'"
proof -
  assume run: "AddTaskGraphNode req k = (r, k')"
  define now where "now = fst (clock k)"
  define nid where "nid = fst (newID ''task_node'' now (snd (clock k)))"
  define k1 where "k1 = snd (newID ''task_node'' now (snd (clock k)))"
  have "k' = k \<or> (\<exists>g o'. taskGraph (nr_GraphID req) k = Inr g \<and>
      appendTaskGraphEvent ''task_graph.node_added'' (node_data g (new_node req nid now) now) k1 = (o', k'))"
    using run unfolding AddTaskGraphNode_def Let_def case_prod_unfold
    by (simp add: nid_def k1_def now_def split: sum.splits if_splits option.splits) (metis prod.collapse)+
  then show "tg_step k k'"
  proof (elim disjE exE conjE)
    assume "k' = k"
    then show ?thesis by simp
  next
    fix g o' assume g: "taskGraph (nr_GraphID req) k = Inr g"
      and app: "appendTaskGraphEvent ''task_graph.node_added'' (node_data g (new_node req nid now) now) k1 = (o', k')"
    have ext: "kernel_ext k k' es" if "kernel_ext k1 k' es" for es
      using that unfolding k1_def by (rule kernel_ext_stamp1)
    from app show ?thesis
    proof (cases rule: appendTaskGraphEvent_cases)
      case (2 err)
      then show ?thesis by (intro tg_step_Nil ext)
    next
      case (1 i)
      have "tg_step k k'" if inv: "tg_inv k"
      proof -
        from inv g obtain m g0 where m: "graphs k = Inr m" "graphs_ok m" "graph_idents m \<subseteq> allocated k"
          "go_lookup m (TrimSpace (nr_GraphID req)) = Some g0" "tg_GraphID g0 = TrimSpace (nr_GraphID req)" "graph_ok g0"
          "g = g0\<lparr>tg_Nodes := taskGraphProjectedNodes g0\<rparr>" by (rule taskGraph_spec)
        from m(7) have gid: "tg_GraphID g = tg_GraphID g0" by simp
        have uniq: "ulid_unique (k_env k)" using inv by (simp add: tg_inv_def env_ok_ulid)
        have fresh: "nid \<notin> allocated k" using newID_fresh [of "snd (clock k)"] uniq by (simp add: nid_def)
        have alloc: "nid \<in> allocated k'"
          using newID_allocated [of "snd (clock k)"] uniq allocated_ext [OF 1(2)] by (auto simp: nid_def k1_def)
        define n where "n = new_node req nid now"
        define g' where "g' = g0\<lparr>tg_Nodes := set_node n (tg_Nodes g0)\<rparr>"
        have n: "tn_NodeID n \<notin> node_ids g0" "tn_Status n = ''proposed''" "tn_InvocationID n = []" "tn_NodeID n = nid"
          using fresh m(3) graph_idents_lookup [OF m(4)] by (auto simp: n_def new_node_def)
        note add = graph_ok_add_node [OF m(6) n(1,2) g'_def]
        show ?thesis
        proof (rule tg_step_event [OF ext [OF 1(2)]])
          show "tv_CreatedAt (node_data g (new_node req nid now) now) = fst (clock k)" by (simp add: now_def)
        next
          fix m1 assume "graphs k = Inr m1"
          with m(1) have m1: "m1 = m" by simp
          have "graphs_ok (go_store (tg_GraphID g0) g' m)"
          proof (rule graphs_ok_store [OF m(2) add(1)])
            show "tg_GraphID g' = tg_GraphID g0" by (simp add: g'_def)
            show "graph_le h g'" if "go_lookup m (tg_GraphID g0) = Some h" for h using that m(4,5) add(2) by simp
            show "(\<exists>h p. go_lookup m (tg_GraphID g0) = Some h \<and> p \<in> set (tg_Nodes h) \<and> tn_NodeID p = tn_NodeID x \<and> tn_InvocationID p = tn_InvocationID x) \<or>
                (\<forall>j h p. go_lookup m j = Some h \<longrightarrow> p \<in> set (tg_Nodes h) \<longrightarrow> tn_InvocationID p \<noteq> tn_InvocationID x) \<and>
                (\<forall>p \<in> set (tg_Nodes g'). tn_InvocationID p = tn_InvocationID x \<longrightarrow> p = x)"
              if "x \<in> set (tg_Nodes g')" "tn_InvocationID x \<noteq> []" for x
              using that add(3) n(3) m(4,5) by auto
          qed
          moreover have "node_ids g' = insert nid (node_ids g0)" using add(3) n(4) by (simp add: node_ids_def)
          then have "insert (tg_GraphID g0) (node_ids g') \<union> graph_idents m \<subseteq> insert nid (allocated k)"
            using graph_idents_lookup [OF m(4)] m(3) unfolding m(5) [symmetric] by auto
          then have "graph_idents (go_store (tg_GraphID g0) g' m) \<subseteq> insert nid (allocated k)"
            using graph_idents_store by (rule subset_trans [rotated])
          then have "graph_idents (go_store (tg_GraphID g0) g' m) \<subseteq> allocated k'"
            using alloc allocated_ext [OF ext [OF 1(2)]] by auto
          ultimately show "\<exists>m'. taskGraphs_step m1 (taskGraph_event i ''task_graph.node_added'' (node_data g (new_node req nid now) now)) = Inr m' \<and>
              graphs_ok m' \<and> graphs_le m1 m' \<and> graph_idents m' \<subseteq> allocated k'"
            using node_event_step [of m g g0 "''task_graph.node_added''" i n now] graphs_le_store [of m "tg_GraphID g0" g'] add(2) m(4,5) gid
            unfolding m1 n_def g'_def by auto
        qed
      qed
      then show ?thesis by (auto simp: tg_step_def)
    qed
  qed
qed

text \<open>
  The nodes an operation may write to a graph: they replace a node that is not finished, keep
  its binding or bind it to an invocation that is not bound, and their status is justified.
\<close>

definition node_write_ok :: "TaskGraphProjection go_map \<Rightarrow> string \<Rightarrow> TaskGraphNodeProjection \<Rightarrow> bool" where
  "node_write_ok m gid n' \<longleftrightarrow> (\<exists>g0 n. go_lookup m gid = Some g0 \<and>
      n \<in> set (tg_Nodes g0) \<and> \<not> taskGraphNodeTerminal n \<and> tn_NodeID n' = tn_NodeID n \<and>
      (tn_InvocationID n' = tn_InvocationID n \<or> tn_InvocationID n = [] \<and>
        (\<forall>j h p. go_lookup m j = Some h \<longrightarrow> p \<in> set (tg_Nodes h) \<longrightarrow> tn_InvocationID p \<noteq> tn_InvocationID n')) \<and>
      (tn_Status n' = ''blocked'' \<longrightarrow> dependency_failed (tg_Edges g0) (tg_Nodes g0) (tn_NodeID n)) \<and>
      (tn_InvocationID n' = [] \<longrightarrow> tn_Status n' \<in> {''running'', ''completed''} \<longrightarrow> deps_completed g0 (tn_NodeID n)))"

lemma tg_step_write:
  assumes app: "appendTaskGraphEvent ty (node_data g n' (fst (clock k))) (snd (clock k)) = (o', k')"
    and ty: "ty \<noteq> ''task_graph.created''"
    and rep: "\<And>m. tg_inv k \<Longrightarrow> graphs k = Inr m \<Longrightarrow> graphs_ok m \<Longrightarrow> node_write_ok m (tg_GraphID g) n'"
  shows "tg_step k k'"
  using app
proof (cases rule: appendTaskGraphEvent_cases)
  case (2 err)
  from 2(2) show ?thesis by (rule tg_step_Nil [OF kernel_ext_clock])
next
  case (1 i)
  have "tg_step k k'" if inv: "tg_inv k"
  proof -
    from inv obtain m where m: "graphs k = Inr m" "graphs_ok m" by (rule tg_invE)
    from rep [OF inv m] obtain g0 n where w: "go_lookup m (tg_GraphID g) = Some g0"
      "n \<in> set (tg_Nodes g0)" "\<not> taskGraphNodeTerminal n" "tn_NodeID n' = tn_NodeID n"
      "tn_InvocationID n' = tn_InvocationID n \<or> tn_InvocationID n = [] \<and>
        (\<forall>j h p. go_lookup m j = Some h \<longrightarrow> p \<in> set (tg_Nodes h) \<longrightarrow> tn_InvocationID p \<noteq> tn_InvocationID n')"
      "tn_Status n' = ''blocked'' \<Longrightarrow> dependency_failed (tg_Edges g0) (tg_Nodes g0) (tn_NodeID n)"
      "tn_InvocationID n' = [] \<Longrightarrow> tn_Status n' \<in> {''running'', ''completed''} \<Longrightarrow> deps_completed g0 (tn_NodeID n)"
      unfolding node_write_ok_def by blast
    from m(2) w(1) have "graph_ok g0" "tg_GraphID g0 = tg_GraphID g" by (auto simp: graphs_ok_def)
    from tg_step_set_node [OF kernel_ext_clock [OF 1(2)] refl ty m(1) w(1) this w(2-7)] show ?thesis .
  qed
  then show ?thesis by (auto simp: tg_step_def)
qed

text \<open>What an operation knows of a node that the projection, or the projection of it, shows.\<close>

lemma shown_ready_deps:
  assumes ok: "graph_ok g" and n: "n \<in> set (tg_Nodes g)" and ready: "tn_Status (shown g n) = ''ready''"
  shows "deps_completed g (tn_NodeID n)"
  unfolding deps_completed_def
proof (intro ballI impI)
  fix e assume e: "e \<in> set (tg_Edges g)" "te_ToNodeID e = tn_NodeID n"
  with ok have "te_FromNodeID e \<in> node_ids g" by (auto simp: graph_ok_def graph_form_def)
  then obtain p where p: "p \<in> set (tg_Nodes g)" "tn_NodeID p = te_FromNodeID e" by (auto simp: node_ids_def)
  have "taskGraphNodeMutable n" 
    using ready project_node_mutable [of "completed_nodes (tg_Nodes g)" "tg_Edges g" "tg_Nodes g" n] by (simp add: node_status)
  then have "tn_Status p = ''completed''"
    using ready e p shown_status [OF graph_ok_distinct [OF ok], of n] by (auto split: if_splits)
  with p show "\<exists>p \<in> set (tg_Nodes g). tn_NodeID p = te_FromNodeID e \<and> tn_Status p = ''completed''" by blast
qed

lemma shown_blocked_failed:
  assumes ok: "graph_ok g" and n: "n \<in> set (tg_Nodes g)" and b: "tn_Status (shown g n) = ''blocked''"
  shows "dependency_failed (tg_Edges g) (tg_Nodes g) (tn_NodeID n)"
proof -
  have "taskGraphNodeMutable n" 
    using b project_node_mutable [of "completed_nodes (tg_Nodes g)" "tg_Edges g" "tg_Nodes g" n] by (simp add: node_status)
  with b ok n show ?thesis
    using shown_status [OF graph_ok_distinct [OF ok], of n] by (auto simp: graph_ok_def node_ok_def split: if_splits)
qed

lemma shown_not_terminal: "\<not> taskGraphNodeTerminal (shown g n) \<Longrightarrow> \<not> taskGraphNodeTerminal n"
  using shown_final_eq [of n g] by (auto simp: taskGraphNodeTerminal_def)

text \<open>The stored node behind one that was read through one or two projections.\<close>

lemma read_node:
  assumes inv: "tg_inv k" and g: "taskGraph gid k = Inr g" and n: "taskGraphNode g i = Some n"
    and m: "graphs k = Inr m"
  obtains g0 n0 where "go_lookup m (tg_GraphID g) = Some g0" and "graph_ok g0" and "n0 \<in> set (tg_Nodes g0)"
    and "n = shown g0 n0" and "tg_SessionID g = tg_SessionID g0"
proof -
  from inv g obtain m1 g0 where m1: "graphs k = Inr m1" "graphs_ok m1" "graph_idents m1 \<subseteq> allocated k"
    "go_lookup m1 (TrimSpace gid) = Some g0" "tg_GraphID g0 = TrimSpace gid" "graph_ok g0"
    "g = g0\<lparr>tg_Nodes := taskGraphProjectedNodes g0\<rparr>" by (rule taskGraph_spec)
  from graph_ok_distinct [OF m1(6)] n [unfolded m1(7)] obtain n0 where "n0 \<in> set (tg_Nodes g0)" "n = shown g0 n0"
    by (rule taskGraphNode_projected)
  with m1 m that show thesis by simp
qed

lemma read_node_twice:
  assumes inv: "tg_inv k" and g: "taskGraph gid k = Inr g"
    and n: "taskGraphNode (g\<lparr>tg_Nodes := taskGraphProjectedNodes g\<rparr>) i = Some n" and m: "graphs k = Inr m"
  obtains g0 n0 where "go_lookup m (tg_GraphID g) = Some g0" and "graph_ok g0" and "n0 \<in> set (tg_Nodes g0)"
    and "tn_Status n = tn_Status (shown g0 n0)" and "tn_NodeID n = tn_NodeID n0"
    and "tn_InvocationID n = tn_InvocationID n0" and "tg_SessionID g = tg_SessionID g0"
proof -
  from inv g obtain m1 g0 where m1: "graphs k = Inr m1" "graphs_ok m1" "graph_idents m1 \<subseteq> allocated k"
    "go_lookup m1 (TrimSpace gid) = Some g0" "tg_GraphID g0 = TrimSpace gid" "graph_ok g0"
    "g = g0\<lparr>tg_Nodes := taskGraphProjectedNodes g0\<rparr>" by (rule taskGraph_spec)
  note d = graph_ok_distinct [OF m1(6)]
  have "distinct (map tn_NodeID (tg_Nodes g))" using d by (simp add: m1(7) distinct_projected)
  then obtain n1 where n1: "n1 \<in> set (tg_Nodes g)" "n = shown g n1"
    using n by (rule taskGraphNode_projected)
  then obtain n0 where n0: "n0 \<in> set (tg_Nodes g0)" "n1 = shown g0 n0" by (auto simp: m1(7))
  have "tn_Status n = tn_Status (shown g0 n0)"
    using shown_twice [OF d m1(7), of n0] n1(2) n0(2) by simp
  with n0 n1(2) m1 m that [of g0 n0] show thesis by simp
qed

lemma mutable_stored: "taskGraphNodeMutable (project_node c E N n) \<Longrightarrow> \<not> taskGraphNodeTerminal n"
  using project_node_mutable [of c E N n] by (simp add: taskGraphNodeMutable_def)

lemma UpdateTaskGraphNode_step: "UpdateTaskGraphNode req k = (r, k') \<Longrightarrow> tg_step k k'"
proof -
  assume run: "UpdateTaskGraphNode req k = (r, k')"
  have "k' = k \<or> (\<exists>g n. taskGraph (nu_GraphID req) k = Inr g \<and> taskGraphNode g (TrimSpace (nu_NodeID req)) = Some n \<and>
      taskGraphNodeMutable n \<and> appendTaskGraphEvent ''task_graph.node_updated'' (node_data g
        (n\<lparr>tn_Title := TrimSpace (nu_Title req), tn_Description := TrimSpace (nu_Description req), tn_UpdatedAt := fst (clock k)\<rparr>)
        (fst (clock k))) (snd (clock k)) = (r, k'))"
    using run unfolding UpdateTaskGraphNode_def Let_def case_prod_unfold
    by (simp split: sum.splits if_splits option.splits)
  then show "tg_step k k'"
  proof (elim disjE exE conjE)
    fix g n
    assume g: "taskGraph (nu_GraphID req) k = Inr g" "taskGraphNode g (TrimSpace (nu_NodeID req)) = Some n" "taskGraphNodeMutable n"
      and app: "appendTaskGraphEvent ''task_graph.node_updated'' (node_data g
        (n\<lparr>tn_Title := TrimSpace (nu_Title req), tn_Description := TrimSpace (nu_Description req), tn_UpdatedAt := fst (clock k)\<rparr>)
        (fst (clock k))) (snd (clock k)) = (r, k')"
    show ?thesis
    proof (rule tg_step_write [OF app])
      fix m assume inv: "tg_inv k" and m: "graphs k = Inr m"
      from read_node [OF inv g(1,2) m] obtain g0 n0 where r: "go_lookup m (tg_GraphID g) = Some g0" "graph_ok g0"
        "n0 \<in> set (tg_Nodes g0)" "n = shown g0 n0" by blast
      have "tn_Status n \<notin> {''running'', ''completed''}" using g(3) by (auto simp: node_status)
      with r mutable_stored g(3) shown_blocked_failed [OF r(2,3)]
      show "node_write_ok m (tg_GraphID g) (n\<lparr>tn_Title := TrimSpace (nu_Title req),
          tn_Description := TrimSpace (nu_Description req), tn_UpdatedAt := fst (clock k)\<rparr>)"
        unfolding node_write_ok_def by (intro exI [of _ g0] exI [of _ n0]) auto
    qed simp
  qed simp
qed

lemma TransitionTaskGraphNode_step: "TransitionTaskGraphNode req k = (r, k') \<Longrightarrow> tg_step k k'"
proof -
  assume run: "TransitionTaskGraphNode req k = (r, k')"
  have "k' = k \<or> (\<exists>g n. taskGraph (nt_GraphID req) k = Inr g \<and>
      taskGraphNode (g\<lparr>tg_Nodes := taskGraphProjectedNodes g\<rparr>) (TrimSpace (nt_NodeID req)) = Some n \<and>
      taskGraphTransitionAllowed (tn_Status n) (nt_Status req) \<and> appendTaskGraphEvent ''task_graph.node_transitioned'' (node_data g
        (n\<lparr>tn_Status := nt_Status req, tn_Reason := TrimSpace (nt_Reason req), tn_EvidenceRefs := nt_EvidenceRefs req, tn_UpdatedAt := fst (clock k)\<rparr>)
        (fst (clock k))) (snd (clock k)) = (r, k'))"
    using run unfolding TransitionTaskGraphNode_def Let_def case_prod_unfold
    by (simp split: sum.splits if_splits option.splits)
  then show "tg_step k k'"
  proof (elim disjE exE conjE)
    fix g and n :: TaskGraphNodeProjection
    let ?n = "n\<lparr>tn_Status := nt_Status req, tn_Reason := TrimSpace (nt_Reason req), tn_EvidenceRefs := nt_EvidenceRefs req, tn_UpdatedAt := fst (clock k)\<rparr>"
    assume g: "taskGraph (nt_GraphID req) k = Inr g"
        "taskGraphNode (g\<lparr>tg_Nodes := taskGraphProjectedNodes g\<rparr>) (TrimSpace (nt_NodeID req)) = Some n"
        "taskGraphTransitionAllowed (tn_Status n) (nt_Status req)"
      and app: "appendTaskGraphEvent ''task_graph.node_transitioned'' (node_data g ?n (fst (clock k))) (snd (clock k)) = (r, k')"
    show ?thesis
    proof (rule tg_step_write [OF app])
      fix m assume inv: "tg_inv k" and m: "graphs k = Inr m"
      from read_node_twice [OF inv g(1,2) m] obtain g0 n0 where r: "go_lookup m (tg_GraphID g) = Some g0" "graph_ok g0"
        "n0 \<in> set (tg_Nodes g0)" "tn_Status n = tn_Status (shown g0 n0)" "tn_NodeID n = tn_NodeID n0"
        "tn_InvocationID n = tn_InvocationID n0" by blast
      have st: "tn_Status n = ''ready'' \<or> tn_Status n = ''running''" and next': "nt_Status req \<noteq> ''blocked''"
        using g(3) by (auto simp: taskGraphTransitionAllowed_def split: if_splits)
      have "\<not> taskGraphNodeTerminal n0" using st r(4) shown_not_terminal [of g0 n0] by (auto simp: taskGraphNodeTerminal_def)
      moreover have "deps_completed g0 (tn_NodeID n0)" if "tn_InvocationID n = []"
      proof (cases "tn_Status n = ''ready''")
        case True
        with r(4) shown_ready_deps [OF r(2,3)] show ?thesis by simp
      next
        case False
        with st r(4) shown_final [of g0 n0] shown_final_eq [of n0 g0] have "tn_Status n0 = ''running''" by auto
        with r that show ?thesis by (auto simp: graph_ok_def node_ok_def)
      qed
      ultimately show "node_write_ok m (tg_GraphID g) ?n"
        unfolding node_write_ok_def using r next' by (intro exI [of _ g0] exI [of _ n0]) auto
    qed simp
  qed simp
qed

lemma AddTaskGraphEdge_step: "AddTaskGraphEdge req k = (r, k') \<Longrightarrow> tg_step k k'"
proof -
  assume run: "AddTaskGraphEdge req k = (r, k')"
  define d where "d = \<lparr>te_FromNodeID = TrimSpace (er_FromNodeID req), te_ToNodeID = TrimSpace (er_ToNodeID req)\<rparr>"
  have "k' = k \<or> (\<exists>g p q. taskGraph (er_GraphID req) k = Inr g \<and>
      taskGraphNode g (te_FromNodeID d) = Some p \<and> taskGraphNode g (te_ToNodeID d) = Some q \<and>
      taskGraphNodeMutable p \<and> taskGraphNodeMutable q \<and> \<not> taskGraphHasEdge g (te_FromNodeID d) (te_ToNodeID d) \<and>
      \<not> taskGraphHasCycle (g\<lparr>tg_Edges := tg_Edges g @ [d]\<rparr>) \<and>
      appendTaskGraphEvent ''task_graph.edge_added'' (edge_data g (te_FromNodeID d) (te_ToNodeID d) (fst (clock k))) (snd (clock k)) = (r, k'))"
    using run unfolding AddTaskGraphEdge_def Let_def case_prod_unfold
    by (simp add: d_def split: sum.splits if_splits option.splits)
  then show "tg_step k k'"
  proof (elim disjE exE conjE)
    fix g p q
    assume g: "taskGraph (er_GraphID req) k = Inr g" "taskGraphNode g (te_FromNodeID d) = Some p" "taskGraphNode g (te_ToNodeID d) = Some q"
        "taskGraphNodeMutable p" "taskGraphNodeMutable q" "\<not> taskGraphHasEdge g (te_FromNodeID d) (te_ToNodeID d)"
        "\<not> taskGraphHasCycle (g\<lparr>tg_Edges := tg_Edges g @ [d]\<rparr>)"
      and app: "appendTaskGraphEvent ''task_graph.edge_added'' (edge_data g (te_FromNodeID d) (te_ToNodeID d) (fst (clock k))) (snd (clock k)) = (r, k')"
    from app show ?thesis
    proof (cases rule: appendTaskGraphEvent_cases)
      case (2 err)
      from 2(2) show ?thesis by (rule tg_step_Nil [OF kernel_ext_clock])
    next
      case (1 i)
      have "tg_step k k'" if inv: "tg_inv k"
      proof (rule tg_step_event [OF kernel_ext_clock [OF 1(2)]])
        fix m assume m: "graphs k = Inr m" "graphs_ok m" "graph_idents m \<subseteq> allocated k"
        from inv g(1) obtain m1 g0 where m1: "graphs k = Inr m1" "graphs_ok m1" "graph_idents m1 \<subseteq> allocated k"
          "go_lookup m1 (TrimSpace (er_GraphID req)) = Some g0" "tg_GraphID g0 = TrimSpace (er_GraphID req)" "graph_ok g0"
          "g = g0\<lparr>tg_Nodes := taskGraphProjectedNodes g0\<rparr>" by (rule taskGraph_spec)
        with m(1) have look: "go_lookup m (tg_GraphID g0) = Some g0" by simp
        note dist = graph_ok_distinct [OF m1(6)]
        from dist g(2) [unfolded m1(7)] obtain p0 where p0: "p0 \<in> set (tg_Nodes g0)" "tn_NodeID p0 = te_FromNodeID d"
          by (rule taskGraphNode_projected)
        from dist g(3) [unfolded m1(7)] obtain q0 where q0: "q0 \<in> set (tg_Nodes g0)" "tn_NodeID q0 = te_ToNodeID d" "q = shown g0 q0"
          by (rule taskGraphNode_projected)
        have q0m: "taskGraphNodeMutable q0" using g(5) q0(3) by simp
        have noedge: "\<not> taskGraphHasEdge g0 (te_FromNodeID d) (te_ToNodeID d)" using g(6) by (simp add: m1(7) taskGraphHasEdge_def)
        have ids: "tn_NodeID ` set (taskGraphProjectedNodes g0) = node_ids g0" by (simp add: node_ids_def image_image)
        have "fst ` set (edge_pairs (tg_Edges g0 @ [d])) \<subseteq> tn_NodeID ` set (taskGraphProjectedNodes g0)"
          unfolding ids using m1(6) p0 by (auto simp: graph_ok_def graph_form_def node_ids_def rev_image_eqI)
        then have acyc: "acyclic (set (edge_pairs (tg_Edges g0 @ [d])))"
          using g(7) has_cycle_iff [of "edge_pairs (tg_Edges g0 @ [d])" "map tn_NodeID (taskGraphProjectedNodes g0)"]
          by (simp add: m1(7) taskGraphHasCycle_def)
        define g' where "g' = g0\<lparr>tg_Edges := tg_Edges g0 @ [d]\<rparr>"
        have ok: "graph_ok g'" by (rule graph_ok_add_edge [OF m1(6) p0 q0(1,2) q0m noedge acyc g'_def])
        have le: "graph_le g0 g'" by (auto simp: graph_le_def g'_def)
        have "graphs_ok (go_store (tg_GraphID g0) g' m)"
          by (rule graphs_ok_store [OF m(2) ok]) (use look le in \<open>auto simp: g'_def\<close>)
        moreover have "graph_idents (go_store (tg_GraphID g0) g' m) \<subseteq> graph_idents m"
          using graph_idents_store [of "tg_GraphID g0" g' m] graph_idents_lookup [OF look] by (simp add: node_ids_def g'_def) blast
        moreover have "taskGraphs_step m (taskGraph_event i ''task_graph.edge_added'' (edge_data g (te_FromNodeID d) (te_ToNodeID d) (fst (clock k)))) =
            Inr (go_store (tg_GraphID g0) g' m)"
          using look by (simp add: taskGraphs_step_def taskGraph_event_def m1(7) g'_def d_def)
        ultimately show "\<exists>m'. taskGraphs_step m (taskGraph_event i ''task_graph.edge_added'' (edge_data g (te_FromNodeID d) (te_ToNodeID d) (fst (clock k)))) = Inr m' \<and>
            graphs_ok m' \<and> graphs_le m m' \<and> graph_idents m' \<subseteq> allocated k'"
          using look le m(3) allocated_ext [OF kernel_ext_clock [OF 1(2)]] graphs_le_store [of m "tg_GraphID g0" g'] by auto
      qed simp
      then show ?thesis by (auto simp: tg_step_def)
    qed
  qed simp
qed

end
