(* ===== verification/Task_Graph_Properties.thy ===== *)
theory Task_Graph_Properties
  imports Task_Graph_Runs
begin

text \<open>
  The remaining operations of task graphs (removing an edge, following the runs of an
  invocation, binding one), the runs of a kernel, and the properties that hold in all of them.
\<close>

section \<open>Removing an edge\<close>

lemma RemoveTaskGraphEdge_step: "RemoveTaskGraphEdge req k = (r, k') \<Longrightarrow> tg_step k k'"
proof -
  assume run: "RemoveTaskGraphEdge req k = (r, k')"
  define d where "d = \<lparr>te_FromNodeID = TrimSpace (er_FromNodeID req), te_ToNodeID = TrimSpace (er_ToNodeID req)\<rparr>"
  let ?d = "\<lambda>g. edge_data g (te_FromNodeID d) (te_ToNodeID d) (fst (clock k))"
  have "k' = k \<or> (\<exists>g p. taskGraph (er_GraphID req) k = Inr g \<and>
      taskGraphNode g (te_FromNodeID d) = Some p \<and> taskGraphNodeMutable p \<and>
      appendTaskGraphEvent ''task_graph.edge_removed'' (?d g) (snd (clock k)) = (r, k'))"
    using run unfolding RemoveTaskGraphEdge_def Let_def case_prod_unfold
    by (simp add: d_def split: sum.splits if_splits option.splits)
  then show "tg_step k k'"
  proof (elim disjE exE conjE)
    fix g p
    assume g: "taskGraph (er_GraphID req) k = Inr g" "taskGraphNode g (te_FromNodeID d) = Some p" "taskGraphNodeMutable p"
      and app: "appendTaskGraphEvent ''task_graph.edge_removed'' (?d g) (snd (clock k)) = (r, k')"
    from app show ?thesis
    proof (cases rule: appendTaskGraphEvent_cases)
      case (2 err)
      from 2(2) show ?thesis by (rule tg_step_Nil [OF kernel_ext_clock])
    next
      case (1 i)
      have "tg_step k k'" if inv: "tg_inv k"
      proof (rule tg_step_event [OF kernel_ext_clock [OF 1(2)]])
        fix m assume m: "graphs k = Inr m" "graphs_ok m" "graph_idents m \<subseteq> allocated k"
        from inv g(1) obtain m1 g0 where m1: "graphs k = Inr m1" "graphs_ok m1" "graph_idents m1 \<subseteq> allocated k"
          "go_lookup m1 (TrimSpace (er_GraphID req)) = Some g0" "tg_GraphID g0 = TrimSpace (er_GraphID req)" "graph_ok g0"
          "g = g0\<lparr>tg_Nodes := taskGraphProjectedNodes g0\<rparr>" by (rule taskGraph_spec)
        with m(1) have look: "go_lookup m (tg_GraphID g0) = Some g0" by simp
        from graph_ok_distinct [OF m1(6)] g(2) [unfolded m1(7)] obtain p0 where
          p0: "p0 \<in> set (tg_Nodes g0)" "tn_NodeID p0 = te_FromNodeID d" "p = shown g0 p0"
          by (rule taskGraphNode_projected)
        have p0m: "taskGraphNodeMutable p0" using g(3) p0(3) by simp
        define g' where "g' = g0\<lparr>tg_Edges := taskGraphWithoutEdge (tg_Edges g0) d\<rparr>"
        have ok: "graph_ok g'" by (rule graph_ok_remove_edge [OF m1(6) p0(1,2) p0m g'_def])
        have le: "graph_le g0 g'" by (auto simp: graph_le_def g'_def)
        have "graphs_ok (go_store (tg_GraphID g0) g' m)"
          by (rule graphs_ok_store [OF m(2) ok]) (use look le in \<open>auto simp: g'_def\<close>)
        moreover have "graph_idents (go_store (tg_GraphID g0) g' m) \<subseteq> graph_idents m"
          using graph_idents_store [of "tg_GraphID g0" g' m] graph_idents_lookup [OF look] by (simp add: node_ids_def g'_def) blast
        moreover have "taskGraphs_step m (taskGraph_event i ''task_graph.edge_removed'' (?d g)) = Inr (go_store (tg_GraphID g0) g' m)"
          using look by (simp add: taskGraphs_step_def taskGraph_event_def m1(7) g'_def d_def)
        ultimately show "\<exists>m'. taskGraphs_step m (taskGraph_event i ''task_graph.edge_removed'' (?d g)) = Inr m' \<and>
            graphs_ok m' \<and> graphs_le m m' \<and> graph_idents m' \<subseteq> allocated k'"
          using look le m(3) allocated_ext [OF kernel_ext_clock [OF 1(2)]] graphs_le_store [of m "tg_GraphID g0" g'] by auto
      qed simp
      then show ?thesis by (auto simp: tg_step_def)
    qed
  qed simp
qed

section \<open>Following a run\<close>

text \<open>
  The two loops of \<^const>\<open>reduceTaskGraphInvocationRun\<close> write one list of nodes, in order. As an
  invocation is bound to one node at most, the list has at most one entry.
\<close>

fun write_nodes :: "(TaskGraphProjection \<times> TaskGraphNodeProjection) list \<Rightarrow> kernel \<Rightarrow> go_error option \<times> kernel" where
  "write_nodes [] k = (None, k)"
| "write_nodes ((g, n) # ts) k =
     (case appendTaskGraphEvent ''task_graph.node_transitioned'' (node_data g (n\<lparr>tn_UpdatedAt := fst (clock k)\<rparr>) (fst (clock k))) (snd (clock k)) of
        (Some err, k) \<Rightarrow> (Some err, k)
      | (None, k) \<Rightarrow> write_nodes ts k)"

definition reduce_targets ::
  "string \<Rightarrow> AgentInvocationRunProjection \<Rightarrow> TaskGraphProjection list \<Rightarrow> (TaskGraphProjection \<times> TaskGraphNodeProjection) list" where
  "reduce_targets ev run gs = concat (map (\<lambda>g. map (Pair g) (List.map_filter (reduce_node ev run) (taskGraphProjectedNodes g)))
     (filter (\<lambda>g. tg_SessionID g = ar_SessionID run) gs))"

lemma write_nodes_append:
  "write_nodes (xs @ ys) k = (case write_nodes xs k of (Some err, k) \<Rightarrow> (Some err, k) | (None, k) \<Rightarrow> write_nodes ys k)"
  by (induction xs k rule: write_nodes.induct) (auto split: prod.splits option.splits)

lemma reduce_nodes_eq:
  "reduce_nodes ev run g ns k = write_nodes (map (Pair g) (List.map_filter (reduce_node ev run) ns)) k"
  by (induction ns arbitrary: k) (simp_all add: Let_def case_prod_unfold split: option.splits)

lemma reduce_graphs_eq: "reduce_graphs ev run gs k = write_nodes (reduce_targets ev run gs) k"
  by (induction gs arbitrary: k)
    (simp_all add: reduce_targets_def reduce_nodes_eq write_nodes_append split: prod.splits option.splits)

lemma reduce_node_Some:
  assumes "reduce_node ev run n = Some n'"
  shows "tn_InvocationID n = ar_InvocationID run" and "\<not> taskGraphNodeTerminal n" and "tn_NodeID n' = tn_NodeID n"
    and "tn_InvocationID n' = tn_InvocationID n" and "tn_Status n' \<noteq> ''blocked''"
  using assms by (auto simp: reduce_node_def split: if_splits)

lemma reduce_targets_mem:
  assumes "(g, n') \<in> set (reduce_targets ev run gs)"
  obtains n where "g \<in> set gs" and "n \<in> set (tg_Nodes g)" and "reduce_node ev run (shown g n) = Some n'"
  using assms by (auto simp: reduce_targets_def map_filter_def)

lemma reduce_targets_distinct:
  assumes "distinct (map tg_GraphID gs)" and "\<forall>g \<in> set gs. distinct (map tn_NodeID (tg_Nodes g))"
  shows "distinct (map (\<lambda>(g, n). (tg_GraphID g, tn_NodeID n)) (reduce_targets ev run gs))"
  using assms
proof (induction gs)
  case (Cons g gs)
  have "distinct (map tn_NodeID (List.map_filter (reduce_node ev run) ns))" if "distinct (map tn_NodeID ns)" for ns
    using that
  proof (induction ns)
    case (Cons n ns)
    then show ?case using reduce_node_Some(3) by (fastforce simp: map_filter_def split: option.splits)
  qed (simp add: map_filter_def)
  moreover have "distinct (map tn_NodeID (taskGraphProjectedNodes g))" using Cons.prems by (simp add: distinct_projected)
  ultimately have "distinct (map (Pair (tg_GraphID g)) (map tn_NodeID (List.map_filter (reduce_node ev run) (taskGraphProjectedNodes g))))"
    by (simp only: distinct_map) (simp add: inj_on_def)
  moreover have "tg_GraphID h \<noteq> tg_GraphID g" if "(h, n) \<in> set (reduce_targets ev run gs)" for h n
    using reduce_targets_mem [OF that] Cons.prems by (metis distinct.simps(2) image_eqI list.set_map list.simps(9))
  ultimately show ?case
    using Cons by (force simp: reduce_targets_def comp_def)
qed (simp add: reduce_targets_def)

lemma length_le_1:
  assumes "distinct (map f xs)" and "\<And>x y. x \<in> set xs \<Longrightarrow> y \<in> set xs \<Longrightarrow> f x = f y"
  shows "xs = [] \<or> (\<exists>x. xs = [x])"
proof (cases xs)
  case (Cons x ys)
  have "ys = []"
  proof (cases ys)
    case (Cons y zs)
    with \<open>xs = x # ys\<close> assms show ?thesis using assms(2) [of x y] by simp
  qed
  with Cons show ?thesis by simp
qed simp

lemma graph_values:
  assumes order: "permutes_keys order" and ok: "graphs_ok m"
  shows "distinct (map tg_GraphID (go_values order m))"
    and "g \<in> set (go_values order m) \<Longrightarrow> go_lookup m (tg_GraphID g) = Some g"
proof -
  have d: "distinct (map fst m)" and ids: "\<And>i g. go_lookup m i = Some g \<Longrightarrow> tg_GraphID g = i"
    using ok by (auto simp: graphs_ok_def)
  have "map tg_GraphID (map snd m) = map fst m"
    using d ids by (auto simp: comp_def intro!: map_cong)
  then have "mset (map tg_GraphID (go_values order m)) = mset (map fst m)"
    using mset_go_values [OF order d] by (metis mset_map)
  with d show "distinct (map tg_GraphID (go_values order m))" by (metis mset_eq_imp_distinct_iff)
  assume "g \<in> set (go_values order m)"
  then have "g \<in> ran (go_lookup m)" using set_go_values [OF order, of m] by simp
  then obtain i where "go_lookup m i = Some g" unfolding ran_def by blast
  with ids show "go_lookup m (tg_GraphID g) = Some g" by auto
qed

lemma reduce_targets_single:
  assumes order: "permutes_keys order" and ok: "graphs_ok m" and id: "ar_InvocationID run \<noteq> []"
  shows "reduce_targets ev run (go_values order m) = [] \<or>
    (\<exists>g n. reduce_targets ev run (go_values order m) = [(g, n)])"
proof -
  let ?ts = "reduce_targets ev run (go_values order m)"
  have origin: "\<exists>n0. go_lookup m (tg_GraphID g) = Some g \<and> n0 \<in> set (tg_Nodes g) \<and> tn_NodeID n0 = tn_NodeID n \<and>
      tn_InvocationID n0 = ar_InvocationID run" if t: "(g, n) \<in> set ?ts" for g n
  proof -
    from t obtain n0 where n0: "g \<in> set (go_values order m)" "n0 \<in> set (tg_Nodes g)" "reduce_node ev run (shown g n0) = Some n"
      by (rule reduce_targets_mem)
    from reduce_node_Some [OF n0(3)] project_node_same [of "completed_nodes (tg_Nodes g)" "tg_Edges g" "tg_Nodes g" n0]
    have "tn_NodeID n0 = tn_NodeID n" "tn_InvocationID n0 = ar_InvocationID run" by (simp_all add: same_node_def)
    with n0 graph_values(2) [OF order ok n0(1)] show ?thesis by blast
  qed
  have once: "bound_once m" using ok by (simp add: graphs_ok_def)
  have "?ts = [] \<or> (\<exists>x. ?ts = [x])"
  proof (rule length_le_1)
    have "\<forall>g \<in> set (go_values order m). distinct (map tn_NodeID (tg_Nodes g))"
      using graph_values(2) [OF order ok] ok graph_ok_distinct unfolding graphs_ok_def by blast
    with graph_values(1) [OF order ok] show "distinct (map (\<lambda>(g, n). (tg_GraphID g, tn_NodeID n)) ?ts)"
      by (rule reduce_targets_distinct)
  next
    fix x y assume "x \<in> set ?ts" "y \<in> set ?ts"
    with origin [of "fst x" "snd x"] origin [of "fst y" "snd y"] id once
    show "(case x of (g, n) \<Rightarrow> (tg_GraphID g, tn_NodeID n)) = (case y of (g, n) \<Rightarrow> (tg_GraphID g, tn_NodeID n))"
      unfolding bound_once_def case_prod_unfold prod.collapse by (metis prod.inject)
  qed
  then show ?thesis by auto
qed

lemma reduceTaskGraphInvocationRun_step:
  assumes id: "ar_InvocationID run \<noteq> []" and red: "reduceTaskGraphInvocationRun ev run k = (r, k')"
  shows "tg_step k k'"
proof -
  have "tg_step k k'" if inv: "tg_inv k"
  proof (cases "k' = k")
    case False
    with red obtain m where m: "taskGraphs k = Inr m"
      and w: "write_nodes (reduce_targets ev run (go_values (map_order k) m)) k = (r, k')"
      by (auto simp: reduceTaskGraphInvocationRun_def reduce_graphs_eq split: if_splits sum.splits)
    from inv have gk: "graphs k = Inr m" and order: "permutes_keys (map_order k)"
      using taskGraphs_Inr [OF _ m] env_ok_order by (simp_all add: tg_inv_def)
    with inv have ok: "graphs_ok m" by (metis tg_invE sum.inject(2))
    from w False obtain g n where t: "reduce_targets ev run (go_values (map_order k) m) = [(g, n)]"
      using reduce_targets_single [OF order ok id, of ev] by auto
    from t have "(g, n) \<in> set (reduce_targets ev run (go_values (map_order k) m))" by simp
    then obtain n0 where n0: "g \<in> set (go_values (map_order k) m)" "n0 \<in> set (tg_Nodes g)" "reduce_node ev run (shown g n0) = Some n"
      by (rule reduce_targets_mem)
    note n = reduce_node_Some [OF n0(3)]
    have inv0: "tn_InvocationID (shown g n0) = tn_InvocationID n0"
      using project_node_same [of "completed_nodes (tg_Nodes g)" "tg_Edges g" "tg_Nodes g" n0] by (simp add: same_node_def)
    have "node_write_ok m (tg_GraphID g) (n\<lparr>tn_UpdatedAt := fst (clock k)\<rparr>)"
      unfolding node_write_ok_def
      by (rule exI [of _ g], rule exI [of _ n0])
        (use n n0(2) inv0 id graph_values(2) [OF order ok n0(1)] shown_not_terminal in auto)
    moreover obtain r1 where "appendTaskGraphEvent ''task_graph.node_transitioned''
        (node_data g (n\<lparr>tn_UpdatedAt := fst (clock k)\<rparr>) (fst (clock k))) (snd (clock k)) = (r1, k')"
      using w t by (auto split: prod.splits option.splits)
    ultimately show ?thesis using gk by (intro tg_step_write) auto
  qed simp
  then show ?thesis by (auto simp: tg_step_def)
qed

section \<open>Binding\<close>

interpretation av: replayed agentInvocations_step "[] :: AgentInvocationProjection go_map"
  "\<lambda>m. \<forall>i v. go_lookup m i = Some v \<longrightarrow> ai_InvocationID v = i \<and> i \<noteq> []"
proof
  fix m e m'
  assume inv: "\<forall>i v. go_lookup m i = Some v \<longrightarrow> ai_InvocationID v = i \<and> i \<noteq> []"
    and step: "agentInvocations_step m e = Inr m'"
  show "\<forall>i v. go_lookup m' i = Some v \<longrightarrow> ai_InvocationID v = i \<and> i \<noteq> []"
  proof (cases "admitted_fact e")
    case None
    with step inv show ?thesis by (simp add: agentInvocations_step_def)
  next
    case (Some v)
    with step have "m' = go_store (ai_InvocationID v) v m" "ai_InvocationID v \<noteq> []"
      by (auto simp: agentInvocations_step_def split: if_splits option.splits)
    with inv show ?thesis by auto
  qed
qed simp

lemma AgentInvocation_id: "AgentInvocation i k = Inr v \<Longrightarrow> ai_InvocationID v = TrimSpace i \<and> ai_InvocationID v \<noteq> []"
  using av.inv_replay
  by (auto simp: AgentInvocation_def agentInvocations_def bind_res_Inr_iff Let_def split: if_splits option.splits)

lemma latest_run_id: "latestAgentInvocationRunEvent i k = Inr (Some (run, ev)) \<Longrightarrow> ar_InvocationID run = i"
  by (auto simp: latestAgentInvocationRunEvent_def bind_res_Inr_iff dest: find_SomeD)

lemma BindTaskGraphNodeInvocation_step: "BindTaskGraphNodeInvocation req k = (r, k') \<Longrightarrow> tg_step k k'"
proof -
  assume run: "BindTaskGraphNodeInvocation req k = (r, k')"
  let ?n = "\<lambda>n v. n\<lparr>tn_InvocationID := ai_InvocationID v, tn_UpdatedAt := fst (clock k)\<rparr>"
  have "k' = k \<or> (\<exists>g n v m o' k1. taskGraph (nb_GraphID req) k = Inr g \<and>
      taskGraphNode (g\<lparr>tg_Nodes := taskGraphProjectedNodes g\<rparr>) (TrimSpace (nb_NodeID req)) = Some n \<and>
      tn_Status n = ''ready'' \<and> tn_InvocationID n = [] \<and> AgentInvocation (TrimSpace (nb_InvocationID req)) k = Inr v \<and>
      taskGraphs k = Inr m \<and>
      \<not> list_ex (\<lambda>c. list_ex (\<lambda>p. tn_InvocationID p = ai_InvocationID v) (tg_Nodes c)) (go_values (map_order k) m) \<and>
      appendTaskGraphEvent ''task_graph.node_updated'' (node_data g (?n n v) (fst (clock k))) (snd (clock k)) = (o', k1) \<and>
      (k' = k1 \<or> (\<exists>rn ev o2. latestAgentInvocationRunEvent (ai_InvocationID v) k1 = Inr (Some (rn, ev)) \<and>
        reduceTaskGraphInvocationRun ev rn k1 = (o2, k'))))"
    using run unfolding BindTaskGraphNodeInvocation_def Let_def case_prod_unfold
    by (simp split: sum.splits if_splits option.splits) (metis prod.collapse)+
  then show "tg_step k k'"
  proof (elim disjE [of "k' = k"] exE conjE)
    fix g v m o' k1 and n :: TaskGraphNodeProjection
    assume g: "taskGraph (nb_GraphID req) k = Inr g"
        "taskGraphNode (g\<lparr>tg_Nodes := taskGraphProjectedNodes g\<rparr>) (TrimSpace (nb_NodeID req)) = Some n"
      and n: "tn_Status n = ''ready''" "tn_InvocationID n = []"
      and v: "AgentInvocation (TrimSpace (nb_InvocationID req)) k = Inr v" and m: "taskGraphs k = Inr m"
      and free: "\<not> list_ex (\<lambda>c. list_ex (\<lambda>p. tn_InvocationID p = ai_InvocationID v) (tg_Nodes c)) (go_values (map_order k) m)"
      and app: "appendTaskGraphEvent ''task_graph.node_updated'' (node_data g (?n n v) (fst (clock k))) (snd (clock k)) = (o', k1)"
      and rest: "k' = k1 \<or> (\<exists>rn ev o2. latestAgentInvocationRunEvent (ai_InvocationID v) k1 = Inr (Some (rn, ev)) \<and>
        reduceTaskGraphInvocationRun ev rn k1 = (o2, k'))"
    have id: "ai_InvocationID v \<noteq> []" using AgentInvocation_id [OF v] by blast
    have "tg_step k k1"
    proof (rule tg_step_write [OF app])
      fix m1 assume inv: "tg_inv k" and m1: "graphs k = Inr m1" "graphs_ok m1"
      with taskGraphs_Inr [OF _ m] have "m1 = m" by (simp add: tg_inv_def)
      have order: "permutes_keys (map_order k)" using inv env_ok_order by (simp add: tg_inv_def)
      have new: "tn_InvocationID p \<noteq> ai_InvocationID v" if "go_lookup m1 j = Some h" "p \<in> set (tg_Nodes h)" for j h p
        using that free set_go_values [OF order, of m] unfolding list_ex_iff \<open>m1 = m\<close> ran_def by blast
      from read_node_twice [OF inv g m1(1)] obtain g0 n0 where r: "go_lookup m1 (tg_GraphID g) = Some g0" "graph_ok g0"
        "n0 \<in> set (tg_Nodes g0)" "tn_Status n = tn_Status (shown g0 n0)" "tn_NodeID n = tn_NodeID n0"
        "tn_InvocationID n = tn_InvocationID n0" by blast
      have "\<not> taskGraphNodeTerminal n0" using n r(4) shown_not_terminal [of g0 n0] by (simp add: taskGraphNodeTerminal_def)
      with r n new id show "node_write_ok m1 (tg_GraphID g) (?n n v)"
        unfolding node_write_ok_def by (intro exI [of _ g0] exI [of _ n0]) auto
    qed simp
    moreover have "tg_step k1 k'"
      using rest latest_run_id reduceTaskGraphInvocationRun_step id by (metis tg_step_refl)
    ultimately show ?thesis by (rule tg_step_trans)
  qed simp
qed

section \<open>Runs\<close>

text \<open>
  Everything that happens to the log of a kernel: the operations on task graphs in any order,
  each successful or not, the reports of agent runs, and events of the other components.
\<close>

inductive tg_run :: "kernel \<Rightarrow> kernel \<Rightarrow> bool" where
  tg_stay: "tg_run k k"
| tg_create: "tg_run k k' \<Longrightarrow> CreateTaskGraph sid k' = (cr, k'') \<Longrightarrow> tg_run k k''"
| tg_add_node: "tg_run k k' \<Longrightarrow> AddTaskGraphNode nreq k' = (nr, k'') \<Longrightarrow> tg_run k k''"
| tg_add_edge: "tg_run k k' \<Longrightarrow> AddTaskGraphEdge ereq k' = (r, k'') \<Longrightarrow> tg_run k k''"
| tg_remove_edge: "tg_run k k' \<Longrightarrow> RemoveTaskGraphEdge ereq k' = (r, k'') \<Longrightarrow> tg_run k k''"
| tg_update: "tg_run k k' \<Longrightarrow> UpdateTaskGraphNode ureq k' = (r, k'') \<Longrightarrow> tg_run k k''"
| tg_transition: "tg_run k k' \<Longrightarrow> TransitionTaskGraphNode treq k' = (r, k'') \<Longrightarrow> tg_run k k''"
| tg_bind: "tg_run k k' \<Longrightarrow> BindTaskGraphNodeInvocation breq k' = (nr, k'') \<Longrightarrow> tg_run k k''"
| tg_reduce: "tg_run k k' \<Longrightarrow> ar_InvocationID run \<noteq> [] \<Longrightarrow> reduceTaskGraphInvocationRun ev run k' = (r, k'') \<Longrightarrow> tg_run k k''"
| tg_other: "tg_run k k' \<Longrightarrow> kernel_ext k' k'' es \<Longrightarrow> \<forall>e \<in> set es. ed_TaskGraph (ev_Data e) = None \<Longrightarrow> tg_run k k''"

lemma tg_run_step: "tg_run k k' \<Longrightarrow> tg_step k k'"
  by (induction rule: tg_run.induct)
    (blast intro: tg_step_refl tg_step_trans CreateTaskGraph_step AddTaskGraphNode_step AddTaskGraphEdge_step
      RemoveTaskGraphEdge_step UpdateTaskGraphNode_step TransitionTaskGraphNode_step BindTaskGraphNodeInvocation_step
      reduceTaskGraphInvocationRun_step tg_step_other)+

lemma tg_inv_empty:
  assumes "env_ok (k_env k)" and "mono (env_clock (k_env k))" and "k_rows k = []"
  shows "tg_inv k"
  using assms by (simp add: tg_inv_def graph_timely_def graph_rows_def graphs_def graphs_ok_def bound_once_def graph_idents_def)

text \<open>What a reader of a graph gets in a reachable state.\<close>

lemma tg_run_inv:
  assumes "tg_run k0 k" and "env_ok (k_env k0)" and "mono (env_clock (k_env k0))" and "k_rows k0 = []"
  shows "tg_inv k"
  using tg_run_step [OF assms(1)] tg_inv_empty [OF assms(2-4)] by (simp add: tg_step_def)

definition fresh_kernel :: "kernel \<Rightarrow> bool" where
  "fresh_kernel k \<longleftrightarrow> env_ok (k_env k) \<and> mono (env_clock (k_env k)) \<and> k_rows k = []"

lemma fresh_run_inv: "fresh_kernel k0 \<Longrightarrow> tg_run k0 k \<Longrightarrow> tg_inv k"
  using tg_run_inv by (simp add: fresh_kernel_def)

definition predecessors :: "TaskGraphProjection \<Rightarrow> string \<Rightarrow> TaskGraphNodeProjection set" where
  "predecessors g i = {p \<in> set (tg_Nodes g). \<exists>e \<in> set (tg_Edges g). te_FromNodeID e = tn_NodeID p \<and> te_ToNodeID e = i}"

lemma read_graph:
  assumes "tg_inv k" and "TaskGraph gid k = Inr g"
  obtains m g0 where "graphs k = Inr m" and "graphs_ok m" and "go_lookup m (TrimSpace gid) = Some g0" and "graph_ok g0"
    and "g = g0\<lparr>tg_Nodes := taskGraphProjectedNodes g0\<rparr>"
  using assms taskGraph_spec unfolding TaskGraph_def by blast

lemma shown_completed: "tn_Status (shown g n) = ''completed'' \<longleftrightarrow> tn_Status n = ''completed''"
  and shown_failed: "tn_Status (shown g n) \<in> {''failed'', ''cancelled''} \<longleftrightarrow> tn_Status n \<in> {''failed'', ''cancelled''}"
  by (auto simp: project_node_status node_status)

lemma shown_invocation: "tn_InvocationID (shown g n) = tn_InvocationID n"
  using project_node_same [of "completed_nodes (tg_Nodes g)" "tg_Edges g" "tg_Nodes g" n] by (simp add: same_node_def)

lemma shown_by_predecessors:
  assumes ok: "graph_ok g0" and g: "g = g0\<lparr>tg_Nodes := taskGraphProjectedNodes g0\<rparr>" and n: "n \<in> set (tg_Nodes g0)"
  shows "taskGraphNodeMutable n \<Longrightarrow> tn_Status (shown g0 n) =
      (if \<exists>p \<in> predecessors g (tn_NodeID n). tn_Status p \<in> {''failed'', ''cancelled''} then ''blocked''
       else if \<exists>p \<in> predecessors g (tn_NodeID n). tn_Status p \<noteq> ''completed'' then ''waiting'' else ''ready'')"
    and "deps_completed g0 (tn_NodeID n) \<Longrightarrow> \<forall>p \<in> predecessors g (tn_NodeID n). tn_Status p = ''completed''"
proof -
  have preds: "predecessors g i = shown g0 ` predecessors g0 i" for i
    by (fastforce simp: predecessors_def g)
  have fail: "(\<exists>p \<in> predecessors g (tn_NodeID n). tn_Status p \<in> {''failed'', ''cancelled''}) \<longleftrightarrow>
      dependency_failed (tg_Edges g0) (tg_Nodes g0) (tn_NodeID n)"
    unfolding preds bex_simps shown_failed by (auto simp: predecessors_def dependency_failed_def)
  have opn: "(\<exists>p \<in> predecessors g (tn_NodeID n). tn_Status p \<noteq> ''completed'') \<longleftrightarrow>
      (\<exists>e \<in> set (tg_Edges g0). \<exists>p \<in> set (tg_Nodes g0). te_ToNodeID e = tn_NodeID n \<and>
        te_FromNodeID e = tn_NodeID p \<and> tn_Status p \<noteq> ''completed'')"
    unfolding preds bex_simps shown_completed by (auto simp: predecessors_def)
  have "tn_Status n = ''blocked'' \<longrightarrow> dependency_failed (tg_Edges g0) (tg_Nodes g0) (tn_NodeID n)"
    using ok n by (auto simp: graph_ok_def node_ok_def)
  then show "tn_Status (shown g0 n) = (if \<exists>p \<in> predecessors g (tn_NodeID n). tn_Status p \<in> {''failed'', ''cancelled''} then ''blocked''
       else if \<exists>p \<in> predecessors g (tn_NodeID n). tn_Status p \<noteq> ''completed'' then ''waiting'' else ''ready'')"
    if "taskGraphNodeMutable n"
    using that unfolding shown_status [OF graph_ok_distinct [OF ok]] fail opn by auto
  show "\<forall>p \<in> predecessors g (tn_NodeID n). tn_Status p = ''completed''" if "deps_completed g0 (tn_NodeID n)"
    using that opn graph_node_unique [OF ok] unfolding deps_completed_def by metis
qed

section \<open>Sample run\<close>

lemma sample_fresh [simp]: "fresh_kernel sample_kernel"
  using sample_timely by (simp add: fresh_kernel_def timely_def)

text \<open>
  A graph with two nodes, the second depending on the first; the first is bound to an admitted
  invocation, runs and completes.
\<close>

definition graph_k1 :: kernel where "graph_k1 = snd (CreateTaskGraph ''s1'' agent_k1)"

definition sample_graph :: string where "sample_graph = tg_GraphID (projr (fst (CreateTaskGraph ''s1'' agent_k1)))"

definition sample_node :: TaskGraphNodeRequest where
  "sample_node = \<lparr>nr_GraphID = sample_graph, nr_InvocationID = [], nr_Title = ''t'', nr_Description = []\<rparr>"

definition graph_k2 :: kernel where "graph_k2 = snd (AddTaskGraphNode sample_node graph_k1)"

definition node_a :: string where "node_a = tn_NodeID (projr (fst (AddTaskGraphNode sample_node graph_k1)))"

definition graph_k3 :: kernel where "graph_k3 = snd (AddTaskGraphNode sample_node graph_k2)"

definition node_b :: string where "node_b = tn_NodeID (projr (fst (AddTaskGraphNode sample_node graph_k2)))"

definition sample_edge :: TaskGraphEdgeRequest where
  "sample_edge = \<lparr>er_GraphID = sample_graph, er_FromNodeID = node_a, er_ToNodeID = node_b\<rparr>"

definition graph_k4 :: kernel where "graph_k4 = snd (AddTaskGraphEdge sample_edge graph_k3)"

definition graph_k5 :: kernel where
  "graph_k5 = snd (BindTaskGraphNodeInvocation \<lparr>nb_GraphID = sample_graph, nb_NodeID = node_a, nb_InvocationID = ''invocation_''\<rparr> graph_k4)"

definition move :: "string \<Rightarrow> string \<Rightarrow> TaskGraphNodeTransitionRequest" where
  "move n s = \<lparr>nt_GraphID = sample_graph, nt_NodeID = n, nt_Status = s, nt_Reason = [], nt_EvidenceRefs = []\<rparr>"

definition graph_k6 :: kernel where "graph_k6 = snd (TransitionTaskGraphNode (move node_a ''completed'') graph_k5)"

definition graph_k7 :: kernel where "graph_k7 = snd (TransitionTaskGraphNode (move node_b ''running'') graph_k6)"

lemma graph_k4_run: "tg_run sample_kernel graph_k4"
proof -
  have "tg_run sample_kernel agent_k1"
  proof -
    obtain es where es: "kernel_ext sample_kernel agent_k1 es" using agent_run_ext [OF agent_k1_run] by blast
    then have "k_rows agent_k1 = es" by (simp add: kernel_ext_def)
    moreover have "\<forall>e \<in> set (k_rows agent_k1). ed_TaskGraph (ev_Data e) = None" by code_simp
    ultimately show ?thesis using tg_other [OF tg_stay es] by simp
  qed
  then show ?thesis
    unfolding graph_k4_def graph_k3_def graph_k2_def graph_k1_def
    by (intro tg_add_edge [OF _ prod.collapse [symmetric]] tg_add_node [OF _ prod.collapse [symmetric]]
        tg_create [OF _ prod.collapse [symmetric]])
qed

lemma graph_k67_run: "tg_run graph_k6 graph_k7"
  unfolding graph_k7_def by (rule tg_transition [OF tg_stay prod.collapse [symmetric]])

lemma graph_k6_run: "tg_run sample_kernel graph_k6"
  unfolding graph_k6_def graph_k5_def
  by (rule tg_transition [OF tg_bind [OF graph_k4_run prod.collapse [symmetric]] prod.collapse [symmetric]])

lemma graph_k7_run: "tg_run sample_kernel graph_k7"
  unfolding graph_k7_def by (rule tg_transition [OF graph_k6_run prod.collapse [symmetric]])

definition sample_read :: "string \<Rightarrow> time \<Rightarrow> TaskGraphProjection" where
  "sample_read st t = \<lparr>tg_GraphID = ''task_graph_xx'', tg_SessionID = ''s1'',
     tg_Nodes = [\<lparr>tn_NodeID = ''task_node_xxxx'', tn_InvocationID = ''invocation_'', tn_Title = ''t'', tn_Description = [],
        tn_Status = ''completed'', tn_Reason = [], tn_EvidenceRefs = [], tn_UpdatedAt = 1011\<rparr>,
       \<lparr>tn_NodeID = ''task_node_xxxxxx'', tn_InvocationID = [], tn_Title = ''t'', tn_Description = [],
        tn_Status = st, tn_Reason = [], tn_EvidenceRefs = [], tn_UpdatedAt = t\<rparr>],
     tg_Edges = [\<lparr>te_FromNodeID = ''task_node_xxxx'', te_ToNodeID = ''task_node_xxxxxx''\<rparr>], tg_CreatedAt = 1001\<rparr>"

lemma graph_k6_read: "TaskGraph sample_graph graph_k6 = Inr (sample_read ''ready'' 1005)"
  by code_simp

lemma graph_k7_read: "TaskGraph sample_graph graph_k7 = Inr (sample_read ''running'' 1013)"
  by code_simp

section \<open>Properties\<close>

text \<open>
  C4: the cycle check decides cycles. For a graph whose edges start at its nodes, the depth
  first search over the nodes reports a cycle exactly when the edges are cyclic.
\<close>

theorem taskGraphHasCycle_correct:
  assumes "\<forall>e \<in> set (tg_Edges g). te_FromNodeID e \<in> tn_NodeID ` set (tg_Nodes g)"
  shows "taskGraphHasCycle g \<longleftrightarrow> \<not> acyclic {(te_FromNodeID e, te_ToNodeID e) |e. e \<in> set (tg_Edges g)}"
proof -
  have "fst ` set (edge_pairs (tg_Edges g)) \<subseteq> set (map tn_NodeID (tg_Nodes g))" using assms by auto
  from has_cycle_iff [OF this] have "taskGraphHasCycle g \<longleftrightarrow> \<not> acyclic (set (edge_pairs (tg_Edges g)))"
    by (simp only: taskGraphHasCycle_def)
  moreover have "set (edge_pairs (tg_Edges g)) = {(te_FromNodeID e, te_ToNodeID e) |e. e \<in> set (tg_Edges g)}" by auto
  ultimately show ?thesis by (simp only:)
qed

definition cyclic_graph :: TaskGraphProjection where
  "cyclic_graph = \<lparr>tg_GraphID = ''g'', tg_SessionID = ''s'', tg_Nodes = [new_node sample_node ''a'' 0, new_node sample_node ''b'' 0],
     tg_Edges = [\<lparr>te_FromNodeID = ''a'', te_ToNodeID = ''b''\<rparr>, \<lparr>te_FromNodeID = ''b'', te_ToNodeID = ''a''\<rparr>], tg_CreatedAt = 0\<rparr>"

theorem taskGraphHasCycle_correct_witness:
  "\<not> acyclic {(te_FromNodeID e, te_ToNodeID e) |e. e \<in> set (tg_Edges cyclic_graph)}"
proof -
  have "taskGraphHasCycle cyclic_graph" by code_simp
  moreover have "\<forall>e \<in> set (tg_Edges cyclic_graph). te_FromNodeID e \<in> tn_NodeID ` set (tg_Nodes cyclic_graph)" by code_simp
  ultimately show ?thesis using taskGraphHasCycle_correct [of cyclic_graph] by blast
qed

text \<open>
  C2: in every state a kernel reaches from an empty ledger by operations on task graphs and
  by anything else that happens to its log, the task graphs can be projected whenever the
  ledger can be read, and every graph read from it is a finite directed acyclic graph: node
  identifiers are unique, every edge connects nodes of the graph, and no edge is repeated.
\<close>

theorem task_graphs_acyclic:
  assumes "fresh_kernel k0" and "tg_run k0 k"
  shows "((\<exists>es. loadEvents k = Inr es) \<longleftrightarrow> (\<exists>m. taskGraphs k = Inr m)) \<and>
    (TaskGraph gid k = Inr g \<longrightarrow> distinct (map tn_NodeID (tg_Nodes g)) \<and>
      (\<forall>e \<in> set (tg_Edges g). te_FromNodeID e \<in> tn_NodeID ` set (tg_Nodes g) \<and> te_ToNodeID e \<in> tn_NodeID ` set (tg_Nodes g)) \<and>
      distinct (edge_pairs (tg_Edges g)) \<and> acyclic (set (edge_pairs (tg_Edges g))))"
proof (intro conjI [of "_ \<longleftrightarrow> _"] impI)
  note inv = fresh_run_inv [OF assms]
  have "\<exists>m. taskGraphs k = Inr m" if "loadEvents k = Inr es" for es
    using inv that taskGraphs_eq by (auto simp: tg_inv_def)
  moreover have "\<exists>es. loadEvents k = Inr es" if "taskGraphs k = Inr m" for m
    using that by (auto simp: taskGraphs_def bind_res_Inr_iff)
  ultimately show "(\<exists>es. loadEvents k = Inr es) \<longleftrightarrow> (\<exists>m. taskGraphs k = Inr m)" by blast
  assume "TaskGraph gid k = Inr g"
  with inv obtain m g0 where r: "graph_ok g0" "g = g0\<lparr>tg_Nodes := taskGraphProjectedNodes g0\<rparr>" by (rule read_graph)
  have "tn_NodeID ` set (tg_Nodes g) = node_ids g0" by (simp add: r(2) node_ids_def image_image)
  with r show "distinct (map tn_NodeID (tg_Nodes g)) \<and>
      (\<forall>e \<in> set (tg_Edges g). te_FromNodeID e \<in> tn_NodeID ` set (tg_Nodes g) \<and> te_ToNodeID e \<in> tn_NodeID ` set (tg_Nodes g)) \<and>
      distinct (edge_pairs (tg_Edges g)) \<and> acyclic (set (edge_pairs (tg_Edges g)))"
    by (simp add: graph_ok_def graph_form_def distinct_projected)
qed

theorem task_graphs_acyclic_witness:
  "acyclic (set (edge_pairs (tg_Edges (sample_read ''running'' 1013))))"
  using task_graphs_acyclic [OF sample_fresh graph_k7_run, of sample_graph "sample_read ''running'' 1013"] graph_k7_read by blast

text \<open>
  C3: what the status of a node says, in every reachable state. A node that is not running
  or finished is blocked exactly if a predecessor failed or was cancelled, waiting if
  otherwise a predecessor is not completed, and ready if all are; and a node without an
  invocation that runs or has completed has only completed predecessors.
\<close>

theorem task_graph_status:
  assumes "fresh_kernel k0" and "tg_run k0 k" and "TaskGraph gid k = Inr g" and "n \<in> set (tg_Nodes g)"
  shows "(tn_Status n \<notin> {''running'', ''completed'', ''failed'', ''cancelled''} \<longrightarrow> tn_Status n =
      (if \<exists>p \<in> predecessors g (tn_NodeID n). tn_Status p \<in> {''failed'', ''cancelled''} then ''blocked''
       else if \<exists>p \<in> predecessors g (tn_NodeID n). tn_Status p \<noteq> ''completed'' then ''waiting'' else ''ready'')) \<and>
    (tn_InvocationID n = [] \<longrightarrow> tn_Status n \<in> {''running'', ''completed''} \<longrightarrow>
      (\<forall>p \<in> predecessors g (tn_NodeID n). tn_Status p = ''completed''))"
proof -
  from fresh_run_inv [OF assms(1,2)] assms(3) obtain m g0 where r: "graph_ok g0" "g = g0\<lparr>tg_Nodes := taskGraphProjectedNodes g0\<rparr>"
    by (rule read_graph)
  from assms(4) r(2) obtain n0 where n0: "n0 \<in> set (tg_Nodes g0)" "n = shown g0 n0" by auto
  note s = shown_by_predecessors [OF r n0(1)]
  show ?thesis
  proof (intro conjI impI)
    assume "tn_Status n \<notin> {''running'', ''completed'', ''failed'', ''cancelled''}"
    then have "taskGraphNodeMutable n0" using shown_final_eq [of n0 g0] n0(2) by (auto simp: node_status)
    from s(1) [OF this] n0(2) show "tn_Status n =
      (if \<exists>p \<in> predecessors g (tn_NodeID n). tn_Status p \<in> {''failed'', ''cancelled''} then ''blocked''
       else if \<exists>p \<in> predecessors g (tn_NodeID n). tn_Status p \<noteq> ''completed'' then ''waiting'' else ''ready'')" by simp
  next
    assume "tn_InvocationID n = []" and st: "tn_Status n \<in> {''running'', ''completed''}"
    then have "tn_InvocationID n0 = []" "tn_Status n0 \<in> {''running'', ''completed''}"
      using n0(2) shown_invocation shown_final [of g0 n0] shown_final_eq [of n0 g0] by auto
    then have "deps_completed g0 (tn_NodeID n0)" using r(1) n0(1) unfolding graph_ok_def node_ok_def by blast
    from s(2) [OF this] n0(2) show "\<forall>p \<in> predecessors g (tn_NodeID n). tn_Status p = ''completed''" by simp
  qed
qed

theorem task_graph_status_witness:
  "hd (tg_Nodes (sample_read ''running'' 1013)) \<in> predecessors (sample_read ''running'' 1013) ''task_node_xxxxxx'' \<and>
   tn_Status (hd (tg_Nodes (sample_read ''running'' 1013))) = ''completed''"
proof -
  let ?g = "sample_read ''running'' 1013"
  have "hd (tg_Nodes ?g) \<in> predecessors ?g ''task_node_xxxxxx''" by (simp add: sample_read_def predecessors_def)
  with task_graph_status [OF sample_fresh graph_k7_run graph_k7_read, of "tg_Nodes ?g ! 1"] show ?thesis
    by (simp add: sample_read_def)
qed

text \<open>
  Finished nodes and bindings are final. Between two reads of a graph, any operations in
  between, every node is kept; one that had completed, failed or been cancelled is unchanged
  in all its fields, and one that was bound to an invocation is bound to the same one.
\<close>

theorem task_graph_final:
  assumes "fresh_kernel k0" and "tg_run k0 k1" and "tg_run k1 k2"
    and "TaskGraph gid k1 = Inr g1" and "TaskGraph gid k2 = Inr g2" and "n \<in> set (tg_Nodes g1)"
  shows "\<exists>n' \<in> set (tg_Nodes g2). tn_NodeID n' = tn_NodeID n \<and> (taskGraphNodeTerminal n \<longrightarrow> n' = n) \<and>
    (tn_InvocationID n \<noteq> [] \<longrightarrow> tn_InvocationID n' = tn_InvocationID n)"
proof -
  note inv1 = fresh_run_inv [OF assms(1,2)]
  have step: "tg_step k1 k2" by (rule tg_run_step [OF assms(3)])
  with inv1 have inv2: "tg_inv k2" by (simp add: tg_step_def)
  from inv1 assms(4) obtain m1 h1 where r1: "graphs k1 = Inr m1" "go_lookup m1 (TrimSpace gid) = Some h1" "graph_ok h1"
    "g1 = h1\<lparr>tg_Nodes := taskGraphProjectedNodes h1\<rparr>" by (rule read_graph)
  from inv2 assms(5) obtain m2 h2 where r2: "graphs k2 = Inr m2" "go_lookup m2 (TrimSpace gid) = Some h2"
    "g2 = h2\<lparr>tg_Nodes := taskGraphProjectedNodes h2\<rparr>" by (rule read_graph)
  from step inv1 r1(1) r2(1) have "graphs_le m1 m2" by (simp add: tg_step_def)
  with r1(2) r2(2) have le: "graph_le h1 h2" unfolding graphs_le_def by fastforce
  from assms(6) r1(4) obtain a where a: "a \<in> set (tg_Nodes h1)" "n = shown h1 a" by auto
  with le obtain b where b: "b \<in> set (tg_Nodes h2)" "tn_NodeID b = tn_NodeID a" "taskGraphNodeTerminal a \<longrightarrow> b = a"
    "tn_InvocationID a \<noteq> [] \<longrightarrow> tn_InvocationID b = tn_InvocationID a" unfolding graph_le_def by metis
  have "shown h2 b = n" if "taskGraphNodeTerminal n"
  proof -
    from that a(2) have "taskGraphNodeTerminal a"
      using shown_final [of h1 a] shown_final_eq [of a h1] by (auto simp: taskGraphNodeTerminal_def)
    then have "b = a" "\<not> taskGraphNodeMutable a" using b(3) by (auto simp: taskGraphNodeMutable_def)
    with a(2) show ?thesis by (simp add: project_node_immutable)
  qed
  with a(2) b r2(3) show ?thesis by (intro bexI [of _ "shown h2 b"]) (simp_all add: shown_invocation)
qed

theorem task_graph_final_witness:
  "hd (tg_Nodes (sample_read ''ready'' 1005)) \<in> set (tg_Nodes (sample_read ''running'' 1013))"
proof -
  let ?n = "hd (tg_Nodes (sample_read ''ready'' 1005))"
  have "?n \<in> set (tg_Nodes (sample_read ''ready'' 1005))" "taskGraphNodeTerminal ?n"
    by (simp_all add: sample_read_def taskGraphNodeTerminal_def)
  with task_graph_final [OF sample_fresh graph_k6_run graph_k67_run graph_k6_read graph_k7_read] show ?thesis by blast
qed

text \<open>
  In every reachable state an invocation is bound to at most one node, of all graphs of
  all sessions.
\<close>

theorem task_graph_binding_unique:
  assumes "fresh_kernel k0" and "tg_run k0 k"
    and "TaskGraph gid k = Inr g" and "n \<in> set (tg_Nodes g)"
    and "TaskGraph gid' k = Inr g'" and "n' \<in> set (tg_Nodes g')"
    and "tn_InvocationID n = tn_InvocationID n'" and "tn_InvocationID n \<noteq> []"
  shows "g = g' \<and> n = n'"
proof -
  note inv = fresh_run_inv [OF assms(1,2)]
  from inv assms(3) obtain m h where r: "graphs k = Inr m" "graphs_ok m" "go_lookup m (TrimSpace gid) = Some h" "graph_ok h"
    "g = h\<lparr>tg_Nodes := taskGraphProjectedNodes h\<rparr>" by (rule read_graph)
  from inv assms(5) obtain m' h' where r': "graphs k = Inr m'" "go_lookup m' (TrimSpace gid') = Some h'"
    "g' = h'\<lparr>tg_Nodes := taskGraphProjectedNodes h'\<rparr>" by (rule read_graph)
  from assms(4) r(5) obtain a where a: "a \<in> set (tg_Nodes h)" "n = shown h a" by auto
  from assms(6) r'(3) obtain b where b: "b \<in> set (tg_Nodes h')" "n' = shown h' b" by auto
  from r r' have m: "m' = m" by simp
  from assms(7,8) a(2) b(2) have inv_eq: "tn_InvocationID a = tn_InvocationID b" "tn_InvocationID a \<noteq> []"
    by (simp_all add: shown_invocation)
  have same: "TrimSpace gid = TrimSpace gid' \<and> tn_NodeID a = tn_NodeID b"
    using r(2) r(3) r'(2) [unfolded m] a(1) b(1) inv_eq unfolding graphs_ok_def bound_once_def by metis
  with r r' m have "h = h'" by simp
  moreover from this same have "a = b" using graph_node_unique [OF r(4)] a b by metis
  ultimately show ?thesis using r r' a b by simp
qed

theorem task_graph_binding_unique_witness:
  "tn_InvocationID (tg_Nodes (sample_read ''running'' 1013) ! 1) \<noteq> ''invocation_''"
proof
  let ?g = "sample_read ''running'' 1013"
  assume "tn_InvocationID (tg_Nodes ?g ! 1) = ''invocation_''"
  then have "tn_InvocationID (tg_Nodes ?g ! 0) = tn_InvocationID (tg_Nodes ?g ! 1)"
    and "tg_Nodes ?g ! 0 \<in> set (tg_Nodes ?g)" "tg_Nodes ?g ! 1 \<in> set (tg_Nodes ?g)" "tn_InvocationID (tg_Nodes ?g ! 0) \<noteq> []"
    by (simp_all add: sample_read_def)
  from task_graph_binding_unique [OF sample_fresh graph_k7_run graph_k7_read this(2) graph_k7_read this(3,1,4)]
  show False by (simp add: sample_read_def)
qed

text \<open>What a successful transition does to the log.\<close>

lemma transition_effect:
  assumes inv: "tg_inv k" and run: "TransitionTaskGraphNode req k = (None, k')"
  shows "\<exists>m g0 n0 n'. graphs k = Inr m \<and> go_lookup m (TrimSpace (nt_GraphID req)) = Some g0 \<and> graph_ok g0 \<and>
    n0 \<in> set (tg_Nodes g0) \<and> tn_NodeID n0 = TrimSpace (nt_NodeID req) \<and>
    taskGraphTransitionAllowed (tn_Status (shown g0 n0)) (nt_Status req) \<and>
    tn_NodeID n' = tn_NodeID n0 \<and> tn_Status n' = nt_Status req \<and> tn_InvocationID n' = tn_InvocationID n0 \<and>
    graphs k' = Inr (go_store (TrimSpace (nt_GraphID req)) (g0\<lparr>tg_Nodes := set_node n' (tg_Nodes g0)\<rparr>) m)"
proof -
  let ?w = "\<lambda>n. n\<lparr>tn_Status := nt_Status req, tn_Reason := TrimSpace (nt_Reason req), tn_EvidenceRefs := nt_EvidenceRefs req, tn_UpdatedAt := fst (clock k)\<rparr>"
  from run obtain g and n :: TaskGraphNodeProjection where g: "taskGraph (nt_GraphID req) k = Inr g"
      and n: "taskGraphNode (g\<lparr>tg_Nodes := taskGraphProjectedNodes g\<rparr>) (TrimSpace (nt_NodeID req)) = Some n"
        "taskGraphTransitionAllowed (tn_Status n) (nt_Status req)"
      and app: "appendTaskGraphEvent ''task_graph.node_transitioned'' (node_data g (?w n) (fst (clock k))) (snd (clock k)) = (None, k')"
    unfolding TransitionTaskGraphNode_def Let_def case_prod_unfold
    by (auto split: sum.splits if_splits option.splits)
  from inv g obtain m g1 where m: "graphs k = Inr m" "go_lookup m (TrimSpace (nt_GraphID req)) = Some g1" "tg_GraphID g1 = TrimSpace (nt_GraphID req)"
    "g = g1\<lparr>tg_Nodes := taskGraphProjectedNodes g1\<rparr>" by (rule taskGraph_spec)
  from m have gid: "tg_GraphID g = TrimSpace (nt_GraphID req)" by simp
  from read_node_twice [OF inv g n(1) m(1)] obtain g0 n0 where r: "go_lookup m (tg_GraphID g) = Some g0" "graph_ok g0"
    "n0 \<in> set (tg_Nodes g0)" "tn_Status n = tn_Status (shown g0 n0)" "tn_NodeID n = tn_NodeID n0"
    "tn_InvocationID n = tn_InvocationID n0" by blast
  have id: "tn_NodeID n = TrimSpace (nt_NodeID req)" using n(1) find_SomeD unfolding taskGraphNode_def by fastforce
  from app obtain i where ext: "kernel_ext k k' [taskGraph_event i ''task_graph.node_transitioned'' (node_data g (?w n) (fst (clock k)))]"
    by (cases rule: appendTaskGraphEvent_cases) (auto dest: kernel_ext_clock)
  then have "graph_rows k' = graph_rows k @ [taskGraph_event i ''task_graph.node_transitioned'' (node_data g (?w n) (fst (clock k)))]"
    by (simp add: graph_rows_def kernel_ext_def taskGraph_event_def)
  with m(1) node_event_step [OF r(1), of "''task_graph.node_transitioned''" i "?w n" "fst (clock k)"]
  have "graphs k' = Inr (go_store (tg_GraphID g) (g0\<lparr>tg_Nodes := set_node (?w n) (tg_Nodes g0)\<rparr>) m)"
    by (simp add: graphs_def replay_snoc)
  with m(1) r n(2) gid id show ?thesis
    by (intro exI [of _ m] exI [of _ g0] exI [of _ n0] exI [of _ "?w n"]) simp
qed

text \<open>
  A node that is put to \<open>waiting\<close> while it runs does not wait. A node without an invocation
  that runs has only completed predecessors, so after a successful transition of it to
  \<open>waiting\<close> the next read of the graph shows it as \<open>ready\<close>.
\<close>

theorem running_to_waiting_shows_ready:
  assumes "fresh_kernel k0" and "tg_run k0 k" and "TransitionTaskGraphNode req k = (None, k')"
    and "nt_Status req = ''waiting''"
    and "TaskGraph (nt_GraphID req) k' = Inr g" and "n \<in> set (tg_Nodes g)" and "tn_NodeID n = TrimSpace (nt_NodeID req)"
    and "tn_InvocationID n = []"
  shows "tn_Status n = ''ready''"
proof -
  note inv = fresh_run_inv [OF assms(1,2)]
  have inv': "tg_inv k'" using inv TransitionTaskGraphNode_step [OF assms(3)] by (simp add: tg_step_def)
  from transition_effect [OF inv assms(3)] obtain m g0 n0 n' where e: "go_lookup m (TrimSpace (nt_GraphID req)) = Some g0" "graph_ok g0"
    "n0 \<in> set (tg_Nodes g0)" "tn_NodeID n0 = TrimSpace (nt_NodeID req)" "taskGraphTransitionAllowed (tn_Status (shown g0 n0)) ''waiting''"
    "tn_NodeID n' = tn_NodeID n0" "tn_Status n' = ''waiting''" "tn_InvocationID n' = tn_InvocationID n0"
    "graphs k' = Inr (go_store (TrimSpace (nt_GraphID req)) (g0\<lparr>tg_Nodes := set_node n' (tg_Nodes g0)\<rparr>) m)"
    using assms(4) by metis
  define g' where "g' = g0\<lparr>tg_Nodes := set_node n' (tg_Nodes g0)\<rparr>"
  from inv' assms(5) obtain m2 h where h: "graphs k' = Inr m2" "go_lookup m2 (TrimSpace (nt_GraphID req)) = Some h" "graph_ok h"
    "g = h\<lparr>tg_Nodes := taskGraphProjectedNodes h\<rparr>" by (rule read_graph)
  with e(9) have hg: "h = g'" by (simp add: g'_def)
  have nodes: "set (tg_Nodes g') = insert n' {p \<in> set (tg_Nodes g0). tn_NodeID p \<noteq> tn_NodeID n'}"
    using e(3,6) by (auto simp: g'_def set_node_old)
  from assms(6) h(4) obtain n1 where n1: "n1 \<in> set (tg_Nodes g')" "n = shown g' n1" unfolding hg by auto
  then have "n1 = n'" using nodes e(4,6) assms(7) by auto
  with n1 e(8) assms(8) have bound: "tn_InvocationID n0 = []" by (simp add: shown_invocation)
  from e(5) have "tn_Status (shown g0 n0) = ''running''" by (auto simp: taskGraphTransitionAllowed_def split: if_splits)
  then have run: "tn_Status n0 = ''running''" using shown_final [of g0 n0] shown_final_eq [of n0 g0] by auto
  with bound e(2,3) have "deps_completed g0 (tn_NodeID n0)" unfolding graph_ok_def node_ok_def by blast
  then have "deps_completed g' (tn_NodeID n1)"
    using run e(2,3,6) graph_node_unique [OF e(2)] unfolding deps_completed_def nodes \<open>n1 = n'\<close>
    by (fastforce simp: g'_def)
  with shown_by_predecessors [OF h(3,4), of n1] n1 e(7) show ?thesis
    unfolding hg \<open>n1 = n'\<close> by (fastforce simp: node_status)
qed

definition graph_k8 :: kernel where "graph_k8 = snd (TransitionTaskGraphNode (move node_b ''waiting'') graph_k7)"

theorem running_to_waiting_shows_ready_witness:
  "tn_Status (tg_Nodes (projr (TaskGraph sample_graph graph_k8)) ! 1) = ''ready''"
proof -
  have 1: "fst (TransitionTaskGraphNode (move node_b ''waiting'') graph_k7) = None" by code_simp
  have 2: "TaskGraph (nt_GraphID (move node_b ''waiting'')) graph_k8 = Inr (sample_read ''ready'' 1015)" by code_simp
  have 3: "TrimSpace (nt_NodeID (move node_b ''waiting'')) = ''task_node_xxxxxx''" by code_simp
  have 4: "TransitionTaskGraphNode (move node_b ''waiting'') graph_k7 = (None, graph_k8)"
    using 1 by (simp add: graph_k8_def prod_eq_iff)
  have "tn_Status (tg_Nodes (sample_read ''ready'' 1015) ! 1) = ''ready''"
    by (rule running_to_waiting_shows_ready [OF sample_fresh graph_k7_run 4 _ 2])
      (use 3 in \<open>simp_all add: move_def sample_read_def\<close>)
  with 2 show ?thesis by (simp add: move_def)
qed

subsection \<open>A clock that steps back\<close>

text \<open>The event that creates the graph of an identifier.\<close>

definition creates :: "string \<Rightarrow> StoredEvent \<Rightarrow> bool" where
  "creates gid e \<longleftrightarrow> ev_Type e = ''task_graph.created'' \<and>
     (case ed_TaskGraph (ev_Data e) of None \<Rightarrow> False | Some d \<Rightarrow> tv_GraphID d = gid)"

interpretation keyed: replayed taskGraphs_step "[]" "\<lambda>m. \<forall>i g. go_lookup m i = Some g \<longrightarrow> tg_GraphID g = i"
  by unfold_locales
    (auto simp: taskGraphs_step_def Let_def split: option.splits if_splits)

lemma step_absent:
  assumes "taskGraphs_step m e = Inr m'" and "go_lookup m gid = None" and "\<not> creates gid e"
  shows "go_lookup m' gid = None"
  using assms
  by (auto simp: taskGraphs_step_def creates_def Let_def split: option.splits if_splits)

lemma replay_absent:
  assumes "replay taskGraphs_step m es = Inr m'" and "go_lookup m gid = None" and "\<forall>e \<in> set es. \<not> creates gid e"
  shows "go_lookup m' gid = None"
  using assms by (induction es arbitrary: m) (auto simp: bind_res_Inr_iff dest: step_absent)

lemma early_event_unreadable:
  assumes load: "loadEvents k = Inr es" and e: "e \<in> set (k_rows k)" "ev_Type e \<noteq> ''task_graph.created''"
    and d: "ed_TaskGraph (ev_Data e) = Some d"
    and early: "\<forall>c \<in> set (k_rows k). creates (tv_GraphID d) c \<longrightarrow> ev_CreatedAt e < ev_CreatedAt c"
  shows "\<exists>err. taskGraphs k = Inl err"
proof -
  have es: "es = sort_key ev_CreatedAt (k_rows k)"
    using loadEvents_filter [OF load, of "\<lambda>_. True"] by simp
  with e(1) obtain us vs where split: "es = us @ e # vs" by (metis set_sort split_list)
  have "sorted (map ev_CreatedAt es)" by (simp add: es)
  then have before: "\<forall>c \<in> set us. \<not> creates (tv_GraphID d) c"
    using early loadEvents_set [OF load] unfolding split by (force simp: sorted_append)
  show ?thesis
  proof (cases "replay taskGraphs_step [] us")
    case (Inl err)
    then show ?thesis by (simp add: taskGraphs_def load split replay_append)
  next
    case (Inr m)
    from replay_absent [OF Inr _ before] have "go_lookup m (tv_GraphID d) = None" by simp
    with e(2) d have "taskGraphs_step m e = Inl (errors_New ''task graph event missing graph'')"
      by (simp add: taskGraphs_step_def)
    with Inr show ?thesis by (simp add: taskGraphs_def load split replay_append)
  qed
qed

lemma AddTaskGraphNode_stored:
  assumes "AddTaskGraphNode req k = (Inr node, k')"
  obtains i g where "kernel_ext k k' [taskGraph_event i ''task_graph.node_added'' (node_data g node (fst (clock k)))]"
    and "tg_GraphID g = TrimSpace (nr_GraphID req)"
proof -
  obtain g where g: "taskGraph (nr_GraphID req) k = Inr g"
    using assms by (auto simp: AddTaskGraphNode_def split: sum.splits)
  then have gid: "tg_GraphID g = TrimSpace (nr_GraphID req)"
    by (auto simp: taskGraph_def taskGraphs_def bind_res_Inr_iff split: option.splits dest!: keyed.inv_replay)
  define now where "now = fst (clock k)"
  define k1 where "k1 = snd (newID ''task_node'' now (snd (clock k)))"
  have app: "appendTaskGraphEvent ''task_graph.node_added'' (node_data g node now) k1 = (None, k')"
    using assms g unfolding AddTaskGraphNode_def Let_def case_prod_unfold
    by (simp add: k1_def now_def split: if_splits option.splits) (metis prod.collapse)+
  have ext: "kernel_ext k k' es" if "kernel_ext k1 k' es" for es
    using that unfolding k1_def by (rule kernel_ext_stamp1)
  from app that [OF ext gid] show thesis
    by (cases rule: appendTaskGraphEvent_cases) (auto simp: now_def)
qed

definition back_kernel :: kernel where
  "back_kernel = sample_kernel\<lparr>k_env := sample_env\<lparr>env_clock := (\<lambda>n. if n < 4 then 1000 else 900)\<rparr>\<rparr>"

definition back_k1 :: kernel where "back_k1 = snd (CreateTaskGraph ''s1'' back_kernel)"
definition back_k2 :: kernel where "back_k2 = snd (CreateTaskGraph ''s2'' back_k1)"

definition back_node :: TaskGraphNodeRequest where
  "back_node = \<lparr>nr_GraphID = tg_GraphID (projr (fst (CreateTaskGraph ''s1'' back_kernel))), nr_InvocationID = [],
     nr_Title = ''t'', nr_Description = []\<rparr>"

definition back_k3 :: kernel where "back_k3 = snd (AddTaskGraphNode back_node back_k2)"

text \<open>
  C5: a clock that steps back makes every task graph unreadable. Events are replayed in the
  order of their times. When a node is added, successfully, at a time before that of the
  creation of its graph, then from that moment on, whatever is appended to the log except a
  second creation of the same graph, no log that can be read can be projected: the graphs of
  every session are lost, and every operation that looks a graph up fails.
\<close>

theorem clock_step_back_corrupts:
  assumes add: "AddTaskGraphNode req k = (Inr node, k')"
    and behind: "\<forall>e \<in> set (k_rows k). creates (TrimSpace (nr_GraphID req)) e \<longrightarrow> fst (clock k) < ev_CreatedAt e"
    and later: "kernel_ext k' k'' fs" "\<forall>e \<in> set fs. \<not> creates (TrimSpace (nr_GraphID req)) e"
    and load: "loadEvents k'' = Inr es"
  shows "\<exists>err. taskGraphs k'' = Inl err \<and> (\<forall>sid. TaskGraphs sid k'' = Inl err) \<and>
    (\<forall>gid. TaskGraph gid k'' = Inl err)"
proof -
  obtain i g where ext: "kernel_ext k k' [taskGraph_event i ''task_graph.node_added'' (node_data g node (fst (clock k)))]"
    and gid: "tg_GraphID g = TrimSpace (nr_GraphID req)" by (rule AddTaskGraphNode_stored [OF add])
  define e where "e = taskGraph_event i ''task_graph.node_added'' (node_data g node (fst (clock k)))"
  have rows: "k_rows k'' = k_rows k @ e # fs" using ext later(1) by (simp add: kernel_ext_def e_def)
  have e: "ev_Type e = ''task_graph.node_added''" "ev_CreatedAt e = fst (clock k)"
    "ed_TaskGraph (ev_Data e) = Some (node_data g node (fst (clock k)))" by (simp_all add: e_def taskGraph_event_def)
  have "\<exists>err. taskGraphs k'' = Inl err"
  proof (rule early_event_unreadable [OF load _ _ e(3)])
    show "\<forall>c \<in> set (k_rows k''). creates (tv_GraphID (node_data g node (fst (clock k)))) c \<longrightarrow> ev_CreatedAt e < ev_CreatedAt c"
      using behind later(2) e(1,2) by (auto simp: rows gid creates_def)
  qed (simp_all add: rows e(1))
  then show ?thesis by (auto simp: TaskGraphs_def TaskGraph_def taskGraph_def)
qed

theorem clock_step_back_corrupts_witness:
  "\<exists>err. taskGraphs back_k3 = Inl err \<and> (\<forall>sid. TaskGraphs sid back_k3 = Inl err) \<and>
    (\<forall>gid. TaskGraph gid back_k3 = Inl err)"
proof -
  have 1: "ok (AddTaskGraphNode back_node back_k2)" by code_simp
  then obtain node where "fst (AddTaskGraphNode back_node back_k2) = Inr node"
    by (cases "fst (AddTaskGraphNode back_node back_k2)") (auto simp: ok_def)
  then have add: "AddTaskGraphNode back_node back_k2 = (Inr node, back_k3)" by (simp add: back_k3_def prod_eq_iff)
  have behind: "\<forall>e \<in> set (k_rows back_k2). creates (TrimSpace (nr_GraphID back_node)) e \<longrightarrow> fst (clock back_k2) < ev_CreatedAt e"
    by code_simp
  have "\<not> (case loadEvents back_k3 of Inl _ \<Rightarrow> True | Inr _ \<Rightarrow> False)" by code_simp
  then obtain es where load: "loadEvents back_k3 = Inr es" by (auto split: sum.splits)
  show ?thesis by (rule clock_step_back_corrupts [OF add behind kernel_ext_refl _ load]) simp
qed

end
