(* ===== verification/Runtime_Policy.thy ===== *)
theory Runtime_Policy
  imports Kernel_Core
begin

text \<open>
  The limits a turn runs under: the lease on model-tool rounds (\<^verbatim>\<open>budget_lease.go\<close>), the
  shell timeouts (\<^verbatim>\<open>shell_timeout_policy.go\<close>), and the state axes an owner's outcome is
  reported on (\<^verbatim>\<open>state_axes.go\<close>). The policies come from the configuration and may hold any
  integers; normalization makes them usable.
\<close>

section \<open>Model-tool round budget\<close>

definition defaultModelToolRoundBudget :: int where "defaultModelToolRoundBudget = 4"
definition defaultModelToolRoundCeiling :: int where "defaultModelToolRoundCeiling = 32"

record budgetLease =
  bl_modelToolRoundBudget :: int
  bl_modelToolRoundCeiling :: int

definition normalizedBudgetPolicy :: "BudgetPolicy \<Rightarrow> BudgetPolicy" where
  "normalizedBudgetPolicy policy =
     (let ceiling = bp_ModelToolRoundCeiling policy;
          ceiling = (if ceiling \<le> 0 then defaultModelToolRoundCeiling else ceiling);
          budget = bp_ModelToolRoundBudget policy;
          budget = (if budget \<le> 0 then defaultModelToolRoundBudget else budget);
          budget = (if budget > ceiling then ceiling else budget)
      in \<lparr>bp_ModelToolRoundBudget = budget, bp_ModelToolRoundCeiling = ceiling\<rparr>)"

definition newBudgetLease :: "BudgetPolicy \<Rightarrow> budgetLease" where
  "newBudgetLease policy =
     (let normalized = normalizedBudgetPolicy policy
      in \<lparr>bl_modelToolRoundBudget = bp_ModelToolRoundBudget normalized,
          bl_modelToolRoundCeiling = bp_ModelToolRoundCeiling normalized\<rparr>)"

definition newTurnBudgetLease :: "kernel \<Rightarrow> budgetLease" where
  "newTurnBudgetLease k = newBudgetLease (env_budgetPolicy (k_env k))"

definition lease_projection :: "budgetLease \<Rightarrow> BudgetLeaseProjection" where
  "lease_projection l =
     \<lparr>blp_ModelToolRoundBudget = bl_modelToolRoundBudget l,
      blp_ModelToolRoundCeiling = bl_modelToolRoundCeiling l\<rparr>"

definition budgetLeaseProjection :: "kernel \<Rightarrow> BudgetLeaseProjection" where
  "budgetLeaseProjection k = lease_projection (newTurnBudgetLease k)"

definition allowModelToolRound :: "budgetLease \<Rightarrow> int \<Rightarrow> bool" where
  "allowModelToolRound l roundIndex \<longleftrightarrow> roundIndex < bl_modelToolRoundBudget l"

section \<open>Shell timeouts\<close>

definition defaultShellTimeoutSec :: int where "defaultShellTimeoutSec = 30"
definition maxForegroundShellTimeoutSec :: int where "maxForegroundShellTimeoutSec = 180"

definition normalizedShellTimeoutPolicy :: "ShellTimeoutPolicy \<Rightarrow> ShellTimeoutPolicy" where
  "normalizedShellTimeoutPolicy policy =
     (let defaultTimeout = sp_DefaultForegroundTimeoutSec policy;
          defaultTimeout = (if defaultTimeout \<le> 0 then defaultShellTimeoutSec else defaultTimeout);
          foregroundCap = sp_ForegroundTimeoutCapSec policy;
          foregroundCap = (if foregroundCap \<le> 0 then maxForegroundShellTimeoutSec else foregroundCap);
          defaultTimeout = (if defaultTimeout > foregroundCap then foregroundCap else defaultTimeout);
          managedThreshold = sp_ManagedJobThresholdSec policy;
          managedThreshold = (if managedThreshold \<le> 0 \<or> managedThreshold \<noteq> foregroundCap
            then foregroundCap else managedThreshold)
      in \<lparr>sp_DefaultForegroundTimeoutSec = defaultTimeout, sp_ForegroundTimeoutCapSec = foregroundCap,
          sp_ManagedJobThresholdSec = managedThreshold\<rparr>)"

definition normalizedShellTimeoutSec :: "kernel \<Rightarrow> int \<Rightarrow> int" where
  "normalizedShellTimeoutSec k timeoutSec =
     (if timeoutSec = 0 then sp_DefaultForegroundTimeoutSec (env_shellTimeoutPolicy (k_env k)) else timeoutSec)"

definition shellTimeoutExceedsForeground :: "kernel \<Rightarrow> int \<Rightarrow> bool" where
  "shellTimeoutExceedsForeground k timeoutSec \<longleftrightarrow>
     timeoutSec > sp_ManagedJobThresholdSec (env_shellTimeoutPolicy (k_env k))"

section \<open>State axes\<close>

record runtimeStateAxes =
  ax_Phase :: string
  ax_WaitReason :: string
  ax_TerminalOutcome :: string
  ax_TerminalCause :: string

definition no_axes :: runtimeStateAxes where
  "no_axes = \<lparr>ax_Phase = [], ax_WaitReason = [], ax_TerminalOutcome = [], ax_TerminalCause = []\<rparr>"

definition runtimeAxesFromOwnerOutcome :: "string \<Rightarrow> runtimeStateAxes" where
  "runtimeAxesFromOwnerOutcome status =
     (if status \<in> {[], ''running'', ''ok''} then no_axes\<lparr>ax_Phase := ''running''\<rparr>
      else if status \<in> {''completed'', ''complete'', ''delivered''}
        then no_axes\<lparr>ax_Phase := ''ended'', ax_TerminalOutcome := ''succeeded''\<rparr>
      else if status \<in> {''failed'', ''tool_request_invalid''}
        then no_axes\<lparr>ax_Phase := ''ended'', ax_TerminalOutcome := ''failed'', ax_TerminalCause := ''runtime_error''\<rparr>
      else if status \<in> {''blocked'', ''permission_denied''}
        then no_axes\<lparr>ax_Phase := ''ended'', ax_TerminalOutcome := ''failed'', ax_TerminalCause := ''permission_denied''\<rparr>
      else if status = ''approval_required''
        then no_axes\<lparr>ax_Phase := ''waiting'', ax_WaitReason := ''approval_required''\<rparr>
      else if status \<in> {''paused'', ''deferred''}
        then no_axes\<lparr>ax_Phase := ''waiting'', ax_WaitReason := ''budget_pause''\<rparr>
      else if status = ''waiting_for_user''
        then no_axes\<lparr>ax_Phase := ''waiting'', ax_WaitReason := ''user_input_required''\<rparr>
      else if status \<in> {''interrupted'', ''interrupt_requested''}
        then no_axes\<lparr>ax_Phase := ''ended'', ax_TerminalOutcome := ''interrupted'', ax_TerminalCause := ''user_cancelled''\<rparr>
      else if status \<in> {''cancelled'', ''canceled''}
        then no_axes\<lparr>ax_Phase := ''ended'', ax_TerminalOutcome := ''cancelled'', ax_TerminalCause := ''user_cancelled''\<rparr>
      else if status \<in> {''cancel_requested'', ''running_cancel_requested''}
        then no_axes\<lparr>ax_Phase := ''waiting'', ax_WaitReason := ''user_input_required''\<rparr>
      else no_axes\<lparr>ax_Phase := ''ended'', ax_TerminalOutcome := ''failed'', ax_TerminalCause := status\<rparr>)"

section \<open>Properties\<close>

lemmas runtime_limits =
  defaultModelToolRoundBudget_def defaultModelToolRoundCeiling_def defaultShellTimeoutSec_def
  maxForegroundShellTimeoutSec_def

text \<open>The interface of a normalization: its results satisfy the bounds, and it keeps those that do.\<close>

locale normalization =
  fixes normalize :: "'p \<Rightarrow> 'p" and bounds :: "'p \<Rightarrow> bool"
  assumes normalize_bounds: "bounds (normalize p)"
    and normalize_keeps: "bounds p \<Longrightarrow> normalize p = p"
begin

lemma normalize_idem: "normalize (normalize p) = normalize p"
  by (rule normalize_keeps [OF normalize_bounds])

lemma normalize_fixed_iff: "normalize p = p \<longleftrightarrow> bounds p"
  by (metis normalize_bounds normalize_keeps)

end

definition budget_bounds :: "BudgetPolicy \<Rightarrow> bool" where
  "budget_bounds p \<longleftrightarrow> 1 \<le> bp_ModelToolRoundBudget p \<and>
     bp_ModelToolRoundBudget p \<le> bp_ModelToolRoundCeiling p"

definition shell_timeout_bounds :: "ShellTimeoutPolicy \<Rightarrow> bool" where
  "shell_timeout_bounds p \<longleftrightarrow> 1 \<le> sp_DefaultForegroundTimeoutSec p \<and>
     sp_DefaultForegroundTimeoutSec p \<le> sp_ForegroundTimeoutCapSec p \<and>
     sp_ManagedJobThresholdSec p = sp_ForegroundTimeoutCapSec p"

interpretation bn: normalization normalizedBudgetPolicy budget_bounds
proof
  show "budget_bounds (normalizedBudgetPolicy p)" for p
    by (simp add: normalizedBudgetPolicy_def budget_bounds_def Let_def runtime_limits)
  show "normalizedBudgetPolicy p = p" if "budget_bounds p" for p
    using that by (simp add: normalizedBudgetPolicy_def budget_bounds_def Let_def)
qed

interpretation sn: normalization normalizedShellTimeoutPolicy shell_timeout_bounds
proof
  show "shell_timeout_bounds (normalizedShellTimeoutPolicy p)" for p
    by (simp add: normalizedShellTimeoutPolicy_def shell_timeout_bounds_def Let_def runtime_limits)
  show "normalizedShellTimeoutPolicy p = p" if "shell_timeout_bounds p" for p
    using that by (simp add: normalizedShellTimeoutPolicy_def shell_timeout_bounds_def Let_def)
qed

lemma newTurnBudgetLease_bounds:
  "1 \<le> bl_modelToolRoundBudget (newTurnBudgetLease k)"
  "bl_modelToolRoundBudget (newTurnBudgetLease k) \<le> bl_modelToolRoundCeiling (newTurnBudgetLease k)"
  using bn.normalize_bounds [of "env_budgetPolicy (k_env k)"]
  by (simp_all add: newTurnBudgetLease_def newBudgetLease_def Let_def budget_bounds_def)

text \<open>
  Whatever the configured budget, the lease of a turn admits its first model-tool round,
  admits exactly the round indexes below its budget, and never more rounds than its ceiling.
\<close>

theorem allowModelToolRound_bounded:
  "allowModelToolRound (newTurnBudgetLease k) 0 \<and>
   card {i :: nat. allowModelToolRound (newTurnBudgetLease k) (int i)} =
     nat (bl_modelToolRoundBudget (newTurnBudgetLease k)) \<and>
   int (card {i :: nat. allowModelToolRound (newTurnBudgetLease k) (int i)})
     \<le> bl_modelToolRoundCeiling (newTurnBudgetLease k)"
proof -
  let ?b = "bl_modelToolRoundBudget (newTurnBudgetLease k)"
  have "{i :: nat. allowModelToolRound (newTurnBudgetLease k) (int i)} = {..< nat ?b}"
    by (auto simp: allowModelToolRound_def)
  with newTurnBudgetLease_bounds [of k] show ?thesis
    by (simp add: allowModelToolRound_def)
qed

text \<open>
  A kernel whose timeout policy is normalized runs a shell request without a timeout
  in the foreground, for at least one second and at most the foreground cap, and sends a
  request to a managed job exactly when its timeout exceeds the foreground cap. A policy is
  left as it is exactly when it satisfies those bounds.
\<close>

theorem shell_timeout_policy_normalized:
  assumes "env_shellTimeoutPolicy (k_env k) = normalizedShellTimeoutPolicy p"
  shows "1 \<le> normalizedShellTimeoutSec k 0 \<and>
    normalizedShellTimeoutSec k 0 \<le> sp_ForegroundTimeoutCapSec (env_shellTimeoutPolicy (k_env k)) \<and>
    \<not> shellTimeoutExceedsForeground k (normalizedShellTimeoutSec k 0) \<and>
    (shellTimeoutExceedsForeground k t \<longleftrightarrow> sp_ForegroundTimeoutCapSec (env_shellTimeoutPolicy (k_env k)) < t) \<and>
    (normalizedShellTimeoutPolicy q = q \<longleftrightarrow> shell_timeout_bounds q)"
  using sn.normalize_bounds [of p] sn.normalize_fixed_iff [of q] assms
  by (simp add: normalizedShellTimeoutSec_def shellTimeoutExceedsForeground_def shell_timeout_bounds_def)

definition policy_kernel :: kernel where
  "policy_kernel = \<lparr>k_env = \<lparr>env_clock = (\<lambda>n. int n), env_ulid = (\<lambda>t n. None), env_mapOrder = (\<lambda>n ks. ks),
      env_toolPolicy = \<lparr>tp_PermissionMode = [], tp_WorkspaceRoot = [], tp_SandboxProfile = [], tp_ApprovalPolicy = []\<rparr>,
      env_budgetPolicy = \<lparr>bp_ModelToolRoundBudget = 0, bp_ModelToolRoundCeiling = 0\<rparr>,
      env_shellTimeoutPolicy = normalizedShellTimeoutPolicy
        \<lparr>sp_DefaultForegroundTimeoutSec = 90, sp_ForegroundTimeoutCapSec = 60, sp_ManagedJobThresholdSec = 0\<rparr>,
      env_toolRegistry = []\<rparr>,
     k_ledger = \<lparr>led_rows = [], led_attempts = 0, led_append_fault = (\<lambda>n. None), led_load_fault = (\<lambda>n. None)\<rparr>,
     k_ticks = 0, k_draws = 0, k_activeInvocationRuns = []\<rparr>"

theorem shell_timeout_policy_normalized_witness:
  "normalizedShellTimeoutSec policy_kernel 0 \<le> 60 \<and> shellTimeoutExceedsForeground policy_kernel 61"
proof -
  let ?p = "\<lparr>sp_DefaultForegroundTimeoutSec = 90, sp_ForegroundTimeoutCapSec = 60, sp_ManagedJobThresholdSec = 0\<rparr>"
  have "env_shellTimeoutPolicy (k_env policy_kernel) = normalizedShellTimeoutPolicy ?p"
    by (simp add: policy_kernel_def)
  from shell_timeout_policy_normalized [OF this, of 61] show ?thesis
    by (simp add: policy_kernel_def normalizedShellTimeoutPolicy_def)
qed

text \<open>
  The axes of an outcome are consistent: a phase is running, waiting or ended; a wait
  reason is present exactly when waiting; a terminal outcome is present exactly when ended,
  and a terminal cause is present exactly when it ended without success.
\<close>

theorem runtimeAxes_consistent:
  "let a = runtimeAxesFromOwnerOutcome status in
     ax_Phase a \<in> {''running'', ''waiting'', ''ended''} \<and>
     (ax_WaitReason a \<noteq> [] \<longleftrightarrow> ax_Phase a = ''waiting'') \<and>
     (ax_TerminalOutcome a \<noteq> [] \<longleftrightarrow> ax_Phase a = ''ended'') \<and>
     (ax_TerminalCause a \<noteq> [] \<longleftrightarrow> ax_TerminalOutcome a \<notin> {[], ''succeeded''})"
  by (simp add: runtimeAxesFromOwnerOutcome_def no_axes_def)

end
