(* ===== verification/Tool_Scheduling.thy ===== *)
theory Tool_Scheduling
  imports Runtime_Policy
begin

text \<open>
  Scheduling of the tool calls of one model round (\<^verbatim>\<open>toolruntime/scheduling.go\<close>,
  \<^verbatim>\<open>tool_scheduling.go\<close>): the access plan of each built-in tool and the partition of a
  round into execution batches. The lemmas show that the batches are the calls in order,
  and that only calls that cannot conflict share one.
\<close>

section \<open>Access plans\<close>

record ResourceFootprint =
  rf_ReadScopes :: "string list"
  rf_WriteScopes :: "string list"
  rf_StateScopes :: "string list"
  rf_Handles :: "string list"
  rf_ExternalTargets :: "string list"

definition no_footprint :: ResourceFootprint where
  "no_footprint = \<lparr>rf_ReadScopes = [], rf_WriteScopes = [], rf_StateScopes = [], rf_Handles = [],
     rf_ExternalTargets = []\<rparr>"

record SchedulingSpec =
  ss_EffectClass :: string
  ss_ResourceFootprint :: ResourceFootprint
  ss_ParallelPolicy :: string

record AccessPlan =
  pl_ToolName :: string
  pl_EffectClass :: string
  pl_ParallelPolicy :: string
  pl_ResourceFootprint :: ResourceFootprint
  pl_Trusted :: bool
  pl_Reason :: string

record PlannedCall =
  pc_Name :: string
  pc_AccessPlan :: AccessPlan

record ExecutionBatch =
  eb_CallIndexes :: "nat list"
  eb_Parallel :: bool
  eb_Reason :: string

definition ShellExecSchedulingSpec :: SchedulingSpec where
  "ShellExecSchedulingSpec = \<lparr>ss_EffectClass = ''workspace_write'',
     ss_ResourceFootprint = no_footprint\<lparr>rf_WriteScopes := [''workspace'']\<rparr>,
     ss_ParallelPolicy = ''serial_fence''\<rparr>"

definition JobControlSchedulingSpec :: SchedulingSpec where
  "JobControlSchedulingSpec = \<lparr>ss_EffectClass = ''process_io'', ss_ResourceFootprint = no_footprint,
     ss_ParallelPolicy = ''per_handle_serial''\<rparr>"

definition ResourceReadSchedulingSpec :: SchedulingSpec where
  "ResourceReadSchedulingSpec = \<lparr>ss_EffectClass = ''pure_read'',
     ss_ResourceFootprint = no_footprint\<lparr>rf_ReadScopes := [''resource'']\<rparr>,
     ss_ParallelPolicy = ''compatible_locks''\<rparr>"

definition workspaceEditToolSchedulingSpec :: SchedulingSpec where
  "workspaceEditToolSchedulingSpec = \<lparr>ss_EffectClass = ''workspace_write'',
     ss_ResourceFootprint = no_footprint\<lparr>rf_WriteScopes := [''workspace'']\<rparr>,
     ss_ParallelPolicy = ''serial_fence''\<rparr>"

definition contextDiscoveryToolSchedulingSpec :: SchedulingSpec where
  "contextDiscoveryToolSchedulingSpec = \<lparr>ss_EffectClass = ''state_read'',
     ss_ResourceFootprint = no_footprint\<lparr>rf_StateScopes := [''discovery'']\<rparr>,
     ss_ParallelPolicy = ''serial_fence''\<rparr>"

definition delegateWorkerToolSchedulingSpec :: SchedulingSpec where
  "delegateWorkerToolSchedulingSpec = \<lparr>ss_EffectClass = ''kernel_state_write'',
     ss_ResourceFootprint = no_footprint\<lparr>rf_StateScopes := [''agent_invocation'']\<rparr>,
     ss_ParallelPolicy = ''serial_fence''\<rparr>"

text \<open>The composite literal every plan ends with: the fields of a spec, trusted, no reason.\<close>

definition plan_of_spec :: "string \<Rightarrow> SchedulingSpec \<Rightarrow> AccessPlan" where
  "plan_of_spec toolName spec = \<lparr>pl_ToolName = toolName, pl_EffectClass = ss_EffectClass spec,
     pl_ParallelPolicy = ss_ParallelPolicy spec, pl_ResourceFootprint = ss_ResourceFootprint spec,
     pl_Trusted = True, pl_Reason = []\<rparr>"

definition ShellExecAccessPlan :: "string \<Rightarrow> string \<Rightarrow> int \<Rightarrow> int \<Rightarrow> AccessPlan" where
  "ShellExecAccessPlan toolName cwd timeoutSec maxForegroundTimeoutSec =
     (let spec = ShellExecSchedulingSpec;
          spec = (if timeoutSec > maxForegroundTimeoutSec
            then spec\<lparr>ss_EffectClass := ''process_start'', ss_ParallelPolicy := ''background_after_admission''\<rparr>
            else spec);
          scope = TrimSpace cwd;
          scope = (if scope = [] then ''workspace'' else scope);
          spec = spec\<lparr>ss_ResourceFootprint := (ss_ResourceFootprint spec)\<lparr>rf_WriteScopes := [scope]\<rparr>\<rparr>
      in plan_of_spec (TrimSpace toolName) spec)"

definition shellExecAccessPlan :: "kernel \<Rightarrow> string \<Rightarrow> string \<Rightarrow> int \<Rightarrow> AccessPlan" where
  "shellExecAccessPlan k toolName cwd timeoutSec =
     ShellExecAccessPlan toolName cwd timeoutSec (sp_ManagedJobThresholdSec (env_shellTimeoutPolicy (k_env k)))"

definition shellExecToolAccessPlan :: "string \<Rightarrow> string \<Rightarrow> int \<Rightarrow> AccessPlan" where
  "shellExecToolAccessPlan toolName cwd timeoutSec =
     ShellExecAccessPlan toolName cwd timeoutSec maxForegroundShellTimeoutSec"

definition ResourceReadAccessPlan :: "string \<Rightarrow> string \<Rightarrow> AccessPlan" where
  "ResourceReadAccessPlan toolName resourceRef =
     (let spec = ResourceReadSchedulingSpec;
          spec = spec\<lparr>ss_ResourceFootprint := (ss_ResourceFootprint spec)
            \<lparr>rf_ReadScopes := [''resource:'' @ TrimSpace resourceRef]\<rparr>\<rparr>
      in plan_of_spec (TrimSpace toolName) spec)"

definition JobControlAccessPlan :: "string \<Rightarrow> string \<Rightarrow> AccessPlan" where
  "JobControlAccessPlan toolName jobID =
     (let spec = JobControlSchedulingSpec;
          spec = spec\<lparr>ss_ResourceFootprint := (ss_ResourceFootprint spec)
            \<lparr>rf_Handles := [''job:'' @ TrimSpace jobID]\<rparr>\<rparr>
      in plan_of_spec (TrimSpace toolName) spec)"

definition workspaceEditToolAccessPlan :: "string \<Rightarrow> string \<Rightarrow> AccessPlan" where
  "workspaceEditToolAccessPlan toolName path =
     (let spec = workspaceEditToolSchedulingSpec;
          scope = TrimSpace path;
          scope = (if scope = [] then ''workspace'' else scope);
          spec = spec\<lparr>ss_ResourceFootprint := (ss_ResourceFootprint spec)\<lparr>rf_WriteScopes := [scope]\<rparr>\<rparr>
      in plan_of_spec (TrimSpace toolName) spec)"

definition sourceReadToolAccessPlan :: "string \<Rightarrow> string \<Rightarrow> AccessPlan" where
  "sourceReadToolAccessPlan toolName sourceRef =
     (let plan = ResourceReadAccessPlan toolName (''source:'' @ sourceRef)
      in plan\<lparr>pl_ResourceFootprint := (pl_ResourceFootprint plan)
           \<lparr>rf_ReadScopes := [''source:'' @ sourceRef]\<rparr>\<rparr>)"

definition contextDiscoveryToolAccessPlan :: "string \<Rightarrow> AccessPlan" where
  "contextDiscoveryToolAccessPlan toolName = plan_of_spec toolName contextDiscoveryToolSchedulingSpec"

definition delegateWorkerToolAccessPlan :: "string \<Rightarrow> AccessPlan" where
  "delegateWorkerToolAccessPlan toolName = plan_of_spec toolName delegateWorkerToolSchedulingSpec"

section \<open>Batches\<close>

definition normalizedHandles :: "string list \<Rightarrow> string list" where
  "normalizedHandles handles = trim_dedup handles"

definition hasAnyHandle :: "string list \<Rightarrow> string list \<Rightarrow> bool" where
  "hasAnyHandle existing handles \<longleftrightarrow> list_ex (\<lambda>handle. handle \<in> set existing) handles"

definition ParallelClass :: "AccessPlan \<Rightarrow> string" where
  "ParallelClass p =
     (if \<not> pl_Trusted p then []
      else if TrimSpace (pl_EffectClass p) = ''pure_read'' then
        (if TrimSpace (pl_ParallelPolicy p) = ''compatible_locks'' then ''pure_read'' else [])
      else if TrimSpace (pl_EffectClass p) = ''process_io'' then
        (if TrimSpace (pl_ParallelPolicy p) = ''per_handle_serial'' \<and>
            length (normalizedHandles (rf_Handles (pl_ResourceFootprint p))) \<noteq> 0
         then ''process_io'' else [])
      else [])"

definition SerialReason :: "AccessPlan \<Rightarrow> string \<Rightarrow> string" where
  "SerialReason p toolName =
     (if TrimSpace (pl_Reason p) \<noteq> [] then TrimSpace (pl_Reason p)
      else if \<not> pl_Trusted p then ''missing_or_untrusted_tool_access_plan''
      else let class = TrimSpace (pl_EffectClass p)
        in if class = [] then ''missing_tool_effect_class''
           else if class = ''state_read'' then ''state_read_waits_for_prior_committed_facts''
           else if class \<in> {''workspace_write'', ''kernel_state_write''} then ''write_effect_serial_fence''
           else if class = ''process_start'' then ''process_start_serial_admission''
           else if class = ''process_io'' then ''process_io_missing_handle_or_policy''
           else if class = ''external_side_effect'' then ''external_side_effect_routes_through_owner''
           else ''unknown_tool_effect_class:'' @ TrimSpace toolName)"

record plan_state =
  pt_batches :: "ExecutionBatch list"
  pt_current :: ExecutionBatch
  pt_currentKind :: string
  pt_currentHandles :: "string list"

definition no_batch :: ExecutionBatch where
  "no_batch = \<lparr>eb_CallIndexes = [], eb_Parallel = False, eb_Reason = []\<rparr>"

definition flush :: "plan_state \<Rightarrow> plan_state" where
  "flush st =
     (let current = pt_current st
      in if length (eb_CallIndexes current) = 0 then st
         else \<lparr>pt_batches = pt_batches st @ [current\<lparr>eb_Parallel :=
                  length (eb_CallIndexes current) > 1 \<and> eb_Reason current = ''pure_read''\<rparr>],
               pt_current = no_batch, pt_currentKind = [], pt_currentHandles = []\<rparr>)"

definition plan_call :: "nat \<Rightarrow> PlannedCall \<Rightarrow> plan_state \<Rightarrow> plan_state" where
  "plan_call i call st =
     (let class = ParallelClass (pc_AccessPlan call)
      in if class = [] then
           let st = flush st
           in st\<lparr>pt_batches := pt_batches st @
                [no_batch\<lparr>eb_CallIndexes := [i], eb_Reason := SerialReason (pc_AccessPlan call) (pc_Name call)\<rparr>]\<rparr>
         else
           let handles = normalizedHandles (rf_Handles (pl_ResourceFootprint (pc_AccessPlan call)));
               st = (if pt_currentKind st = [] then st\<lparr>pt_currentKind := class\<rparr> else st);
               st = (if pt_currentKind st \<noteq> class \<or>
                        class = ''process_io'' \<and> hasAnyHandle (pt_currentHandles st) handles
                     then (flush st)\<lparr>pt_currentKind := class\<rparr> else st);
               st = st\<lparr>pt_current := (pt_current st)
                    \<lparr>eb_CallIndexes := eb_CallIndexes (pt_current st) @ [i], eb_Reason := class\<rparr>\<rparr>
           in if class = ''process_io'' then st\<lparr>pt_currentHandles := handles @ pt_currentHandles st\<rparr> else st)"

fun plan_loop :: "nat \<Rightarrow> PlannedCall list \<Rightarrow> plan_state \<Rightarrow> plan_state" where
  "plan_loop i [] st = st"
| "plan_loop i (call # calls) st = plan_loop (Suc i) calls (plan_call i call st)"

definition PlanExecutionBatches :: "PlannedCall list \<Rightarrow> ExecutionBatch list" where
  "PlanExecutionBatches calls =
     pt_batches (flush (plan_loop 0 calls
       \<lparr>pt_batches = [], pt_current = no_batch, pt_currentKind = [], pt_currentHandles = []\<rparr>))"

section \<open>Correctness of the partition\<close>

abbreviation call_class :: "PlannedCall list \<Rightarrow> nat \<Rightarrow> string" where
  "call_class calls i \<equiv> ParallelClass (pc_AccessPlan (calls ! i))"

definition call_handles :: "PlannedCall list \<Rightarrow> nat \<Rightarrow> string set" where
  "call_handles calls i = set (normalizedHandles (rf_Handles (pl_ResourceFootprint (pc_AccessPlan (calls ! i)))))"

text \<open>
  The calls that may share a batch: all of one parallel class, and for process input and
  output no two of them on the same handle.
\<close>

definition shareable :: "PlannedCall list \<Rightarrow> string \<Rightarrow> nat list \<Rightarrow> bool" where
  "shareable calls class is \<longleftrightarrow> class \<noteq> [] \<and> (\<forall>i \<in> set is. call_class calls i = class) \<and>
     (class = ''process_io'' \<longrightarrow>
        (\<forall>i \<in> set is. \<forall>j \<in> set is. i \<noteq> j \<longrightarrow> call_handles calls i \<inter> call_handles calls j = {}))"

definition batch_ok :: "PlannedCall list \<Rightarrow> ExecutionBatch \<Rightarrow> bool" where
  "batch_ok calls b \<longleftrightarrow> eb_CallIndexes b \<noteq> [] \<and>
     ((\<exists>i. eb_CallIndexes b = [i] \<and> call_class calls i = [] \<and> \<not> eb_Parallel b) \<or>
      shareable calls (eb_Reason b) (eb_CallIndexes b) \<and>
      (eb_Parallel b \<longleftrightarrow> length (eb_CallIndexes b) > 1 \<and> eb_Reason b = ''pure_read''))"

definition plan_inv :: "PlannedCall list \<Rightarrow> nat \<Rightarrow> plan_state \<Rightarrow> bool" where
  "plan_inv calls n st \<longleftrightarrow>
     concat (map eb_CallIndexes (pt_batches st)) @ eb_CallIndexes (pt_current st) = [0..<n] \<and>
     (\<forall>b \<in> set (pt_batches st). batch_ok calls b) \<and>
     (if eb_CallIndexes (pt_current st) = [] then pt_currentKind st = [] \<and> pt_currentHandles st = []
      else eb_Reason (pt_current st) = pt_currentKind st \<and>
        shareable calls (pt_currentKind st) (eb_CallIndexes (pt_current st)) \<and>
        (pt_currentKind st = ''process_io'' \<longrightarrow>
           set (pt_currentHandles st) = (\<Union>i \<in> set (eb_CallIndexes (pt_current st)). call_handles calls i)))"

lemma plan_inv_flush:
  assumes "plan_inv calls n st"
  shows "plan_inv calls n (flush st)" and "eb_CallIndexes (pt_current (flush st)) = []"
  using assms by (auto simp: plan_inv_def flush_def Let_def no_batch_def batch_ok_def split: if_splits)

text \<open>Adding a call to the current batch, when it fits.\<close>

lemma plan_inv_extend:
  assumes inv: "plan_inv calls n st" and cl: "call_class calls n = cl" "cl \<noteq> []"
    and kind: "eb_CallIndexes (pt_current st) \<noteq> [] \<Longrightarrow> pt_currentKind st = cl"
    and free: "cl = ''process_io'' \<Longrightarrow> set (pt_currentHandles st) \<inter> call_handles calls n = {}"
    and hs: "cl = ''process_io'' \<Longrightarrow> set hs = call_handles calls n \<union> set (pt_currentHandles st)"
  shows "plan_inv calls (Suc n) (st\<lparr>pt_current := (pt_current st)
      \<lparr>eb_CallIndexes := eb_CallIndexes (pt_current st) @ [n], eb_Reason := cl\<rparr>,
    pt_currentKind := cl, pt_currentHandles := hs\<rparr>)"
proof -
  let ?is = "eb_CallIndexes (pt_current st)"
  have order: "concat (map eb_CallIndexes (pt_batches st)) @ ?is = [0..<n]"
    and ok: "\<forall>b \<in> set (pt_batches st). batch_ok calls b"
    using inv by (simp_all add: plan_inv_def)
  have handles: "set (pt_currentHandles st) = (\<Union>i \<in> set ?is. call_handles calls i)"
    if "cl = ''process_io''"
    using inv kind that by (cases "?is = []") (simp_all add: plan_inv_def)
  have old: "shareable calls cl ?is"
    using inv kind cl by (cases "?is = []") (simp_all add: plan_inv_def shareable_def)
  have "shareable calls cl (?is @ [n])"
    using old cl free handles by (auto simp: shareable_def)
  moreover have "cl = ''process_io'' \<Longrightarrow> set hs = (\<Union>i \<in> set (?is @ [n]). call_handles calls i)"
    using hs handles by auto
  ultimately show ?thesis
    using order ok by (auto simp: plan_inv_def simp flip: append_assoc)
qed

lemma plan_inv_serial:
  assumes inv: "plan_inv calls n st" and empty: "eb_CallIndexes (pt_current st) = []"
    and cl: "call_class calls n = []"
  shows "plan_inv calls (Suc n) (st\<lparr>pt_batches := pt_batches st @
    [no_batch\<lparr>eb_CallIndexes := [n], eb_Reason := r\<rparr>]\<rparr>)"
  using assms by (auto simp: plan_inv_def batch_ok_def no_batch_def)

lemma plan_inv_call:
  assumes inv: "plan_inv calls n st" and n: "calls ! n = call"
  shows "plan_inv calls (Suc n) (plan_call n call st)"
proof (cases "call_class calls n = []")
  case True
  with n plan_inv_serial [OF plan_inv_flush [OF inv]] show ?thesis
    by (simp add: plan_call_def Let_def)
next
  case False
  define cl where "cl = call_class calls n"
  define handles where "handles = normalizedHandles (rf_Handles (pl_ResourceFootprint (pc_AccessPlan call)))"
  define st1 where "st1 = (if pt_currentKind st = [] then st\<lparr>pt_currentKind := cl\<rparr> else st)"
  define fits where "fits \<longleftrightarrow> \<not> (pt_currentKind st1 \<noteq> cl \<or>
    cl = ''process_io'' \<and> hasAnyHandle (pt_currentHandles st1) handles)"
  define base where "base = (if fits then st else flush st)"
  have cl: "cl \<noteq> []" using False cl_def by simp
  have hs: "set handles = call_handles calls n" by (simp add: handles_def call_handles_def n)
  have base_inv: "plan_inv calls n base" using inv plan_inv_flush(1) [OF inv] by (simp add: base_def)
  have kind: "pt_currentKind base = cl" if "eb_CallIndexes (pt_current base) \<noteq> []"
    using that inv plan_inv_flush(2) [OF inv] cl
    by (auto simp: base_def fits_def st1_def plan_inv_def shareable_def split: if_splits)
  have free: "set (pt_currentHandles base) \<inter> call_handles calls n = {}" if "cl = ''process_io''"
  proof (cases fits)
    case True
    with that hs show ?thesis
      by (auto simp: base_def fits_def st1_def hasAnyHandle_def list_ex_iff split: if_splits)
  next
    case False
    with plan_inv_flush [OF inv] show ?thesis by (simp add: base_def plan_inv_def)
  qed
  have call: "plan_call n call st =
      (let st' = (if fits then st1 else (flush st1)\<lparr>pt_currentKind := cl\<rparr>);
           st' = st'\<lparr>pt_current := (pt_current st')
             \<lparr>eb_CallIndexes := eb_CallIndexes (pt_current st') @ [n], eb_Reason := cl\<rparr>\<rparr>
       in if cl = ''process_io'' then st'\<lparr>pt_currentHandles := handles @ pt_currentHandles st'\<rparr> else st')"
    using cl unfolding plan_call_def Let_def n [symmetric] cl_def [symmetric]
    by (simp add: fits_def handles_def st1_def n)
  have same: "(if fits then st1 else (flush st1)\<lparr>pt_currentKind := cl\<rparr>) = base\<lparr>pt_currentKind := cl\<rparr>"
  proof (cases fits)
    case True
    then have "st1 = st\<lparr>pt_currentKind := cl\<rparr>" by (cases st) (auto simp: st1_def fits_def split: if_splits)
    with True show ?thesis by (simp add: base_def)
  next
    case False
    then have "eb_CallIndexes (pt_current st) \<noteq> []"
      using inv by (auto simp: plan_inv_def st1_def fits_def hasAnyHandle_def list_ex_iff split: if_splits)
    then have "flush st1 = flush st" by (simp add: flush_def st1_def Let_def)
    with False show ?thesis by (simp add: base_def)
  qed
  have "plan_call n call st = base\<lparr>pt_current := (pt_current base)
      \<lparr>eb_CallIndexes := eb_CallIndexes (pt_current base) @ [n], eb_Reason := cl\<rparr>,
    pt_currentKind := cl,
    pt_currentHandles := if cl = ''process_io'' then handles @ pt_currentHandles base else pt_currentHandles base\<rparr>"
    by (simp add: call same Let_def)
  then show ?thesis
    using plan_inv_extend [OF base_inv _ cl kind free] hs cl_def by auto
qed

lemma plan_inv_loop:
  "plan_inv calls n st \<Longrightarrow> drop n calls = cs \<Longrightarrow> plan_inv calls (n + length cs) (plan_loop n cs st)"
proof (induction n cs st rule: plan_loop.induct)
  case (2 i call cs st)
  then have "calls ! i = call" "drop (Suc i) calls = cs"
    by (metis nth_via_drop, metis drop_Suc list.sel(3) tl_drop)
  with "2.prems" plan_inv_call "2.IH" show ?case by simp
qed simp

lemma PlanExecutionBatches_ok:
  "concat (map eb_CallIndexes (PlanExecutionBatches calls)) = [0..<length calls]"
  "b \<in> set (PlanExecutionBatches calls) \<Longrightarrow> batch_ok calls b"
proof -
  let ?st = "\<lparr>pt_batches = [], pt_current = no_batch, pt_currentKind = [], pt_currentHandles = []\<rparr>"
  have "plan_inv calls 0 ?st" by (simp add: plan_inv_def no_batch_def)
  then have "plan_inv calls (length calls) (plan_loop 0 calls ?st)"
    using plan_inv_loop [of calls 0 ?st calls] by simp
  from plan_inv_flush [OF this]
  show "concat (map eb_CallIndexes (PlanExecutionBatches calls)) = [0..<length calls]"
    "b \<in> set (PlanExecutionBatches calls) \<Longrightarrow> batch_ok calls b"
    by (auto simp: PlanExecutionBatches_def plan_inv_def)
qed

lemma ParallelClass_iff:
  "ParallelClass p = ''pure_read'' \<longleftrightarrow> pl_Trusted p \<and> TrimSpace (pl_EffectClass p) = ''pure_read'' \<and>
     TrimSpace (pl_ParallelPolicy p) = ''compatible_locks''"
  "ParallelClass p = ''process_io'' \<longleftrightarrow> pl_Trusted p \<and> TrimSpace (pl_EffectClass p) = ''process_io'' \<and>
     TrimSpace (pl_ParallelPolicy p) = ''per_handle_serial'' \<and>
     normalizedHandles (rf_Handles (pl_ResourceFootprint p)) \<noteq> []"
  by (auto simp: ParallelClass_def)

section \<open>Properties\<close>

text \<open>
  The batches of a round, read in order, are exactly the calls of the round in the
  order the model issued them: no call is dropped, repeated or moved, and no batch is empty.
\<close>

theorem PlanExecutionBatches_order:
  "concat (map eb_CallIndexes (PlanExecutionBatches calls)) = [0..<length calls] \<and>
   list_all (\<lambda>b. eb_CallIndexes b \<noteq> []) (PlanExecutionBatches calls)"
  using PlanExecutionBatches_ok [where calls = calls] by (auto simp: batch_ok_def list_all_iff)

text \<open>
  C8: a batch runs in parallel only if it has several calls and every one of them has a
  trusted plan that only reads under compatible locks; two calls that share a batch of
  process input and output have no handle in common; and a call of any other kind (a write,
  a process start, an untrusted or unknown plan) is alone in its batch.
\<close>

theorem PlanExecutionBatches_safe:
  assumes "b \<in> set (PlanExecutionBatches calls)" and "i \<in> set (eb_CallIndexes b)"
  shows "(eb_Parallel b \<longrightarrow> 1 < length (eb_CallIndexes b) \<and>
      (let p = pc_AccessPlan (calls ! i) in pl_Trusted p \<and> TrimSpace (pl_EffectClass p) = ''pure_read'' \<and>
        TrimSpace (pl_ParallelPolicy p) = ''compatible_locks'')) \<and>
    (ParallelClass (pc_AccessPlan (calls ! i)) = ''process_io'' \<longrightarrow>
      (\<forall>j \<in> set (eb_CallIndexes b). j \<noteq> i \<longrightarrow>
        set (normalizedHandles (rf_Handles (pl_ResourceFootprint (pc_AccessPlan (calls ! i))))) \<inter>
        set (normalizedHandles (rf_Handles (pl_ResourceFootprint (pc_AccessPlan (calls ! j))))) = {})) \<and>
    (ParallelClass (pc_AccessPlan (calls ! i)) = [] \<longrightarrow> eb_CallIndexes b = [i] \<and> \<not> eb_Parallel b)"
proof -
  from PlanExecutionBatches_ok(2) [OF assms(1)] consider
      (serial) j where "eb_CallIndexes b = [j]" "call_class calls j = []" "\<not> eb_Parallel b"
    | (shared) "shareable calls (eb_Reason b) (eb_CallIndexes b)"
        "eb_Parallel b \<longleftrightarrow> length (eb_CallIndexes b) > 1 \<and> eb_Reason b = ''pure_read''"
    by (auto simp: batch_ok_def)
  then show ?thesis
  proof cases
    case serial
    with assms(2) show ?thesis by simp
  next
    case shared
    from shared(1) assms(2) have i: "call_class calls i = eb_Reason b" "eb_Reason b \<noteq> []"
      by (auto simp: shareable_def)
    have disj: "call_handles calls i \<inter> call_handles calls j = {}"
      if "eb_Reason b = ''process_io''" "j \<in> set (eb_CallIndexes b)" "j \<noteq> i" for j
      using shared(1) assms(2) that unfolding shareable_def by blast
    have "eb_Parallel b \<Longrightarrow> 1 < length (eb_CallIndexes b) \<and> call_class calls i = ''pure_read''"
      using shared(2) i by simp
    then show ?thesis
      using i disj by (auto simp: ParallelClass_iff(1) Let_def call_handles_def)
  qed
qed

definition sample_calls :: "PlannedCall list" where
  "sample_calls =
     [\<lparr>pc_Name = ''r'', pc_AccessPlan = ResourceReadAccessPlan ''r'' ''a''\<rparr>,
      \<lparr>pc_Name = ''r'', pc_AccessPlan = ResourceReadAccessPlan ''r'' ''b''\<rparr>,
      \<lparr>pc_Name = ''w'', pc_AccessPlan = workspaceEditToolAccessPlan ''w'' ''f''\<rparr>]"

theorem PlanExecutionBatches_safe_witness:
  "\<exists>b \<in> set (PlanExecutionBatches sample_calls). eb_Parallel b \<and> eb_CallIndexes b = [0, 1] \<and>
     pl_Trusted (pc_AccessPlan (sample_calls ! 1))"
proof -
  have "list_ex (\<lambda>b. eb_Parallel b \<and> eb_CallIndexes b = [0, 1]) (PlanExecutionBatches sample_calls)"
    by code_simp
  then obtain b where b: "b \<in> set (PlanExecutionBatches sample_calls)" "eb_Parallel b" "eb_CallIndexes b = [0, 1]"
    by (auto simp: list_ex_iff)
  with PlanExecutionBatches_safe [OF b(1), of 1] show ?thesis by (auto simp: Let_def)
qed

end
