(* ===== verification/Output_Capture.thy ===== *)
theory Output_Capture
  imports Kernel_Core
begin

text \<open>
  The bounded capture of process output (\<^verbatim>\<open>shell.go\<close>): \<open>cappedBuffer\<close> keeps the whole
  stream while it fits, and its head and tail around a marker when it does not. The lemmas
  show that the result does not depend on how the process chunks its output, that it is
  never longer than the limit, and that what it omits is what the marker says.
\<close>

section \<open>Model\<close>

record cappedBuffer =
  cb_limit :: int
  cb_full :: string
  cb_head :: string
  cb_tail :: string
  cb_total :: int
  cb_truncated :: bool

record capturedOutput =
  co_Text :: string
  co_Truncated :: bool
  co_OriginalBytes :: int
  co_OmittedBytes :: int

definition len :: "string \<Rightarrow> int" where "len s = int (length s)"

definition minInt :: "int \<Rightarrow> int \<Rightarrow> int" where "minInt a b = (if a < b then a else b)"
definition maxInt :: "int \<Rightarrow> int \<Rightarrow> int" where "maxInt a b = (if a > b then a else b)"

definition outputOmissionMarker :: "int \<Rightarrow> string" where
  "outputOmissionMarker n = CHR 0x0A # ''[... '' @ show_int n @ '' bytes omitted ...]'' @ [CHR 0x0A]"

definition headTailLimits :: "int \<Rightarrow> int \<times> int" where
  "headTailLimits limit =
     (if limit \<le> 0 then (0, 0)
      else let headLimit = limit div 2;
               headLimit = (if headLimit = 0 then 1 else headLimit)
        in (headLimit, limit - headLimit))"

definition joinHeadTailWithMarker :: "string \<Rightarrow> string \<Rightarrow> int \<Rightarrow> int \<Rightarrow> string \<Rightarrow> string" where
  "joinHeadTailWithMarker head tail headLen tailLen marker =
     take (nat headLen) head @ marker @
     (if tailLen > 0 then drop (nat (len tail - tailLen)) tail else [])"

text \<open>
  The loop of \<open>boundedHeadTailText\<close>, with the number of iterations that are left: \<open>Inr\<close> is
  a \<open>return\<close> from inside the loop, \<open>Inl\<close> the lengths the loop ends with.
\<close>

fun bounded_loop :: "nat \<Rightarrow> string \<Rightarrow> string \<Rightarrow> int \<Rightarrow> int \<Rightarrow> int \<Rightarrow> int \<Rightarrow> (int \<times> int) + (string \<times> int)" where
  "bounded_loop 0 head tail ttl limit headLen tailLen = Inl (headLen, tailLen)"
| "bounded_loop (Suc i) head tail ttl limit headLen tailLen =
     (let omittedBytes = maxInt 0 (ttl - headLen - tailLen);
          marker = outputOmissionMarker omittedBytes;
          budget = limit - len marker
      in if budget \<le> 0 then Inr (take (nat (minInt (len marker) limit)) marker, maxInt 0 ttl)
         else
           let (nextHeadLen, nextTailLen) = headTailLimits budget;
               nextHeadLen = minInt nextHeadLen (len head);
               nextTailLen = minInt nextTailLen (len tail)
           in if nextHeadLen = headLen \<and> nextTailLen = tailLen
              then Inr (joinHeadTailWithMarker head tail headLen tailLen marker, omittedBytes)
              else bounded_loop i head tail ttl limit nextHeadLen nextTailLen)"

definition boundedHeadTailText :: "string \<Rightarrow> string \<Rightarrow> int \<Rightarrow> int \<Rightarrow> string \<times> int" where
  "boundedHeadTailText head tail ttl limit =
     (if limit \<le> 0 then ([], maxInt 0 ttl)
      else case bounded_loop 8 head tail ttl limit (len head) (len tail) of
        Inr result \<Rightarrow> result
      | Inl (headLen, tailLen) \<Rightarrow>
          let omittedBytes = maxInt 0 (ttl - headLen - tailLen);
              marker = outputOmissionMarker omittedBytes
          in if len marker + headLen + tailLen > limit then
               let budget = maxInt 0 (limit - len marker);
                   (headLen, tailLen) = headTailLimits budget;
                   headLen = minInt headLen (len head);
                   tailLen = minInt tailLen (len tail);
                   omittedBytes = maxInt 0 (ttl - headLen - tailLen);
                   marker = outputOmissionMarker omittedBytes
               in (joinHeadTailWithMarker head tail headLen tailLen marker, omittedBytes)
             else (joinHeadTailWithMarker head tail headLen tailLen marker, omittedBytes))"

definition initializeHeadTail :: "string \<Rightarrow> cappedBuffer \<Rightarrow> cappedBuffer" where
  "initializeHeadTail data b =
     (let (headLimit, tailLimit) = headTailLimits (cb_limit b);
          headLimit = (if headLimit > len data then len data else headLimit);
          tailLimit = (if tailLimit > len data - headLimit then len data - headLimit else tailLimit);
          b = b\<lparr>cb_truncated := True, cb_head := take (nat headLimit) data\<rparr>
      in if tailLimit > 0 then b\<lparr>cb_tail := drop (nat (len data - tailLimit)) data\<rparr> else b)"

definition appendTail :: "string \<Rightarrow> cappedBuffer \<Rightarrow> cappedBuffer" where
  "appendTail data b =
     (let (_, tailLimit) = headTailLimits (cb_limit b)
      in if tailLimit \<le> 0 then b
         else let tail = cb_tail b @ data
           in if len tail > tailLimit
              then b\<lparr>cb_tail := drop (nat (len tail - tailLimit)) tail\<rparr>
              else b\<lparr>cb_tail := tail\<rparr>)"

definition buffer_Write :: "string \<Rightarrow> cappedBuffer \<Rightarrow> cappedBuffer" where
  "buffer_Write p b =
     (let written = len p
      in if written = 0 then b
         else if cb_limit b \<le> 0 then b\<lparr>cb_total := cb_total b + written, cb_truncated := True\<rparr>
         else
           let b = b\<lparr>cb_total := cb_total b + written\<rparr>
           in if \<not> cb_truncated b \<and> len (cb_full b) + written \<le> cb_limit b
              then b\<lparr>cb_full := cb_full b @ p\<rparr>
              else if \<not> cb_truncated b
              then initializeHeadTail (cb_full b @ p) (b\<lparr>cb_full := []\<rparr>)
              else appendTail p b)"

definition Capture :: "cappedBuffer \<Rightarrow> capturedOutput" where
  "Capture b =
     (if \<not> cb_truncated b
      then \<lparr>co_Text = cb_full b, co_Truncated = False, co_OriginalBytes = len (cb_full b), co_OmittedBytes = 0\<rparr>
      else let (text, omittedBytes) = boundedHeadTailText (cb_head b) (cb_tail b) (cb_total b) (cb_limit b)
        in \<lparr>co_Text = text, co_Truncated = True, co_OriginalBytes = cb_total b, co_OmittedBytes = omittedBytes\<rparr>)"

definition empty_buffer :: "int \<Rightarrow> cappedBuffer" where
  "empty_buffer limit = \<lparr>cb_limit = limit, cb_full = [], cb_head = [], cb_tail = [], cb_total = 0, cb_truncated = False\<rparr>"

definition captureBytes :: "string \<Rightarrow> int \<Rightarrow> capturedOutput" where
  "captureBytes data limit = Capture (buffer_Write data (empty_buffer limit))"

definition applyOperationOutputCapture ::
  "OperationProjection \<Rightarrow> capturedOutput \<Rightarrow> capturedOutput \<Rightarrow> OperationProjection" where
  "applyOperationOutputCapture operation stdout stderr =
     (let operation = operation\<lparr>op_Stdout := co_Text stdout, op_Stderr := co_Text stderr\<rparr>;
          operation = (if co_Truncated stdout
            then operation\<lparr>op_StdoutTruncated := True, op_StdoutOriginalBytes := co_OriginalBytes stdout,
              op_StdoutOmittedBytes := co_OmittedBytes stdout, op_OutputTruncation := ''head_tail''\<rparr>
            else operation)
      in if co_Truncated stderr
         then operation\<lparr>op_StderrTruncated := True, op_StderrOriginalBytes := co_OriginalBytes stderr,
           op_StderrOmittedBytes := co_OmittedBytes stderr, op_OutputTruncation := ''head_tail''\<rparr>
         else operation)"

definition applyJobOutputCapture :: "JobProjection \<Rightarrow> capturedOutput \<Rightarrow> capturedOutput \<Rightarrow> JobProjection" where
  "applyJobOutputCapture job stdout stderr =
     (let job = job\<lparr>jb_Stdout := co_Text stdout, jb_Stderr := co_Text stderr\<rparr>;
          job = (if co_Truncated stdout then job\<lparr>jb_StdoutTruncated := True\<rparr> else job)
      in if co_Truncated stderr then job\<lparr>jb_StderrTruncated := True\<rparr> else job)"

section \<open>The state of a buffer is a function of the stream\<close>

lemma headTailLimits_pos:
  assumes "1 \<le> limit"
  obtains h t where "headTailLimits limit = (h, t)" and "h + t = limit" and "1 \<le> h" and "0 \<le> t"
    and "h \<le> limit"
proof -
  define h where "h = (if limit div 2 = 0 then 1 else limit div 2)"
  have "headTailLimits limit = (h, limit - h)" using assms by (simp add: headTailLimits_def h_def Let_def)
  moreover have "1 \<le> h" "h \<le> limit" using assms unfolding h_def by presburger+
  ultimately show ?thesis using that by simp
qed

definition buffer_of :: "int \<Rightarrow> string \<Rightarrow> cappedBuffer" where
  "buffer_of limit s =
     (let (h, t) = headTailLimits limit
      in if limit \<le> 0
         then (empty_buffer limit)\<lparr>cb_total := len s, cb_truncated := s \<noteq> []\<rparr>
         else if len s \<le> limit
         then (empty_buffer limit)\<lparr>cb_total := len s, cb_full := s\<rparr>
         else (empty_buffer limit)\<lparr>cb_total := len s, cb_truncated := True, cb_head := take (nat h) s,
           cb_tail := drop (length s - nat t) s\<rparr>)"

lemma drop_tail_append:
  assumes "t \<le> length s"
  shows "drop (length (drop (length s - t) s @ p) - t) (drop (length s - t) s @ p) =
    drop (length (s @ p) - t) (s @ p)"
proof -
  have "drop (length s - t) s @ p = drop (length s - t) (s @ p)" using assms by simp
  then have "drop n (drop (length s - t) s @ p) = drop (n + (length s - t)) (s @ p)" for n
    by (simp only: drop_drop)
  moreover have "length (drop (length s - t) s @ p) - t + (length s - t) = length (s @ p) - t"
    using assms by simp
  ultimately show ?thesis by metis
qed

lemma buffer_Write_of: "buffer_Write p (buffer_of limit s) = buffer_of limit (s @ p)"
proof (cases "1 \<le> limit")
  case False
  then show ?thesis
    by (cases p) (auto simp: buffer_Write_def buffer_of_def empty_buffer_def headTailLimits_def len_def)
next
  case True
  then obtain h t where ht: "headTailLimits limit = (h, t)" "h + t = limit" "1 \<le> h" "0 \<le> t" "h \<le> limit"
    by (rule headTailLimits_pos)
  consider (none) "p = []" | (fits) "p \<noteq> []" "len (s @ p) \<le> limit"
    | (first) "p \<noteq> []" "len s \<le> limit" "limit < len (s @ p)" | (more) "p \<noteq> []" "limit < len s"
    by (cases "p = []"; cases "len (s @ p) \<le> limit"; cases "len s \<le> limit") auto
  then show ?thesis
  proof cases
    case none
    then show ?thesis by (simp add: buffer_Write_def len_def)
  next
    case fits
    with ht True show ?thesis
      by (auto simp: buffer_Write_def buffer_of_def empty_buffer_def len_def)
  next
    case first
    have "nat (len (s @ p) - t) = length (s @ p) - nat t"
      using ht by (simp add: len_def nat_diff_distrib')
    with first ht True show ?thesis
      by (auto simp: buffer_Write_def buffer_of_def empty_buffer_def initializeHeadTail_def len_def Let_def)
  next
    case more
    then have hs: "nat h \<le> length s" "nat t \<le> length s" using ht by (auto simp: len_def)
    have "appendTail p b = b\<lparr>cb_tail := drop (length (s @ p) - nat t) (s @ p)\<rparr>"
      if b: "cb_limit b = limit" "cb_tail b = drop (length s - nat t) s" for b
    proof (cases "t = 0")
      case True
      then show ?thesis using b ht by (cases b) (simp add: appendTail_def)
    next
      case False
      have "nat (len (cb_tail b @ p) - t) = length (cb_tail b @ p) - nat t"
        using ht by (simp add: len_def nat_diff_distrib')
      moreover have "t < len (cb_tail b @ p)" using more hs ht b by (simp add: len_def)
      ultimately show ?thesis
        using False ht b drop_tail_append [OF hs(2), of p] by (simp add: appendTail_def Let_def)
    qed
    with more ht True show ?thesis
      by (auto simp: buffer_Write_def buffer_of_def empty_buffer_def len_def)
  qed
qed

lemma buffer_of_empty: "buffer_of limit [] = empty_buffer limit"
  by (auto simp: buffer_of_def len_def empty_buffer_def split: prod.splits)

lemma fold_buffer_Write: "fold buffer_Write chunks (buffer_of limit s) = buffer_of limit (s @ concat chunks)"
  by (induction chunks arbitrary: s) (simp_all add: buffer_Write_of)

lemma captureBytes_eq: "captureBytes s limit = Capture (buffer_of limit s)"
  using buffer_Write_of [of s limit "[]"] by (simp add: captureBytes_def buffer_of_empty)

section \<open>The loop settles\<close>

text \<open>The number of decimal digits.\<close>

abbreviation digits :: "nat \<Rightarrow> nat" where "digits n \<equiv> length (show_nat n)"

lemma digits_pos: "1 \<le> digits n"
  by (subst show_nat.simps) simp

lemma digits_upper: "n < 10 ^ digits n"
proof (induction n rule: show_nat.induct)
  case (1 n)
  then show ?case
    by (subst show_nat.simps) (auto simp: less_mult_imp_div_less)
qed

lemma digits_lower: "10 \<le> n \<Longrightarrow> 10 ^ (digits n - 1) \<le> n"
proof (induction n rule: show_nat.induct)
  case (1 n)
  have d: "digits n = Suc (digits (n div 10))" using "1.prems" by (subst show_nat.simps) simp
  have "10 ^ (digits (n div 10) - 1) \<le> n div 10"
  proof (cases "10 \<le> n div 10")
    case True
    with 1 show ?thesis by simp
  next
    case False
    then have "digits (n div 10) = 1" by (subst show_nat.simps) simp
    with "1.prems" show ?thesis by simp
  qed
  then have "10 ^ (digits (n div 10) - 1) * 10 \<le> n" by linarith
  moreover obtain e where "digits (n div 10) = Suc e"
    using digits_pos [of "n div 10"] by (metis Suc_le_D One_nat_def)
  ultimately show ?case by (simp add: d mult.commute)
qed

lemma digits_le: "n < 10 ^ k \<Longrightarrow> 1 \<le> k \<Longrightarrow> digits n \<le> k"
proof (rule ccontr)
  assume n: "n < 10 ^ k" and k: "1 \<le> k" and "\<not> digits n \<le> k"
  then have kd: "k \<le> digits n - 1" "1 < digits n" by auto
  then have "10 \<le> n" by (subst (asm) show_nat.simps) (auto split: if_splits)
  then have "10 ^ (digits n - 1) \<le> n" by (rule digits_lower)
  moreover have "(10 :: nat) ^ k \<le> 10 ^ (digits n - 1)" using kd(1) by (intro power_increasing) simp_all
  ultimately show False using n by linarith
qed

lemma digits_ge: "10 ^ k \<le> n \<Longrightarrow> k < digits n"
proof (rule ccontr)
  assume n: "10 ^ k \<le> n" and "\<not> k < digits n"
  then have "(10 :: nat) ^ digits n \<le> 10 ^ k" by (intro power_increasing) simp_all
  with n digits_upper [of n] show False by linarith
qed

lemma digits_room: "1 \<le> d \<Longrightarrow> 27 + d \<le> 9 * 10 ^ d"
proof (induction d)
  case (Suc d)
  then show ?case by (cases "d = 0") auto
qed simp

lemma len_marker: "len (outputOmissionMarker (int n)) = 26 + int (digits n)"
  by (simp add: outputOmissionMarker_def len_def show_int_def)

text \<open>
  With \<open>x\<close> bytes more than the limit, the length of the marker for \<open>x + m\<close> omitted bytes,
  where \<open>m\<close> is the length of the previous marker, is stable after two rounds.
\<close>

definition marker_len :: "nat \<Rightarrow> nat \<Rightarrow> nat" where
  "marker_len x m = 26 + digits (x + m)"

lemma marker_len_stable:
  assumes "1 \<le> x"
  shows "marker_len x (marker_len x (marker_len x 0)) = marker_len x (marker_len x 0)"
proof -
  define d where "d = digits x"
  define m1 where "m1 = 26 + d"
  have d: "1 \<le> d" "x < 10 ^ d" using digits_pos digits_upper by (auto simp: d_def)
  have room: "27 + d \<le> 9 * 10 ^ d" using d(1) by (rule digits_room)
  have below: "digits (x + m) \<le> Suc d" if "m \<le> Suc m1" for m
    using that d room by (intro digits_le) (auto simp: m1_def)
  have m1: "marker_len x 0 = m1" by (simp add: marker_len_def m1_def d_def)
  show ?thesis
  proof (cases "10 ^ d \<le> x + m1")
    case False
    then have "digits (x + m1) \<le> d" using d by (intro digits_le) auto
    moreover have "d \<le> digits (x + m1)"
    proof (cases "d = 1")
      case True
      then show ?thesis using digits_pos by simp
    next
      case False
      with d have "10 \<le> x" by (auto simp: d_def) (subst (asm) show_nat.simps, auto split: if_splits)
      from digits_lower [OF this] have "10 ^ (d - 1) \<le> x + m1" by (simp add: d_def)
      from digits_ge [OF this] d show ?thesis by simp
    qed
    ultimately have "marker_len x m1 = m1" by (simp add: marker_len_def m1_def)
    with m1 show ?thesis by simp
  next
    case True
    then have "digits (x + m1) = Suc d" using below [of m1] digits_ge [OF True] by simp
    then have m2: "marker_len x m1 = Suc m1" by (simp add: marker_len_def m1_def)
    have "10 ^ d \<le> x + Suc m1" using True by simp
    then have "digits (x + Suc m1) = Suc d" using below [of "Suc m1"] digits_ge by fastforce
    then have "marker_len x (Suc m1) = Suc m1" by (simp add: marker_len_def m1_def)
    with m1 m2 show ?thesis by simp
  qed
qed

lemma headTailLimits_mono:
  assumes "1 \<le> b" and "b \<le> limit"
  shows "fst (headTailLimits b) \<le> fst (headTailLimits limit)"
    and "snd (headTailLimits b) \<le> snd (headTailLimits limit)"
    and "fst (headTailLimits b) + snd (headTailLimits b) = b"
    and "0 \<le> fst (headTailLimits b)" and "0 \<le> snd (headTailLimits b)"
proof -
  have half: "c div 2 = 0 \<longleftrightarrow> c = 1" if "1 \<le> c" for c :: int using that by presburger
  have "b div 2 \<le> limit div 2" "b - b div 2 \<le> limit - limit div 2" "0 \<le> b div 2" "b div 2 \<le> b"
    using assms by (simp add: zdiv_mono1, presburger, presburger, presburger)
  with assms half [of b] half [of limit]
  show "fst (headTailLimits b) \<le> fst (headTailLimits limit)"
    "snd (headTailLimits b) \<le> snd (headTailLimits limit)"
    "fst (headTailLimits b) + snd (headTailLimits b) = b"
    "0 \<le> fst (headTailLimits b)" "0 \<le> snd (headTailLimits b)"
    by (auto simp: headTailLimits_def Let_def)
qed

text \<open>One iteration, from the lengths that leave \<open>m\<close> bytes for the marker.\<close>

lemma bounded_loop_step:
  assumes m: "int m < limit" and head: "len head = fst (headTailLimits limit)"
    and tail: "len tail = snd (headTailLimits limit)" and ttl: "ttl = limit + int x"
    and h: "h = fst (headTailLimits (limit - int m))" and t: "t = snd (headTailLimits (limit - int m))"
  shows "bounded_loop (Suc n) head tail ttl limit h t =
    (if limit \<le> int (marker_len x m) then Inr (take (nat limit) (outputOmissionMarker (int (x + m))), ttl)
     else if marker_len x m = m
       then Inr (joinHeadTailWithMarker head tail h t (outputOmissionMarker (int (x + m))), int (x + m))
     else bounded_loop n head tail ttl limit (fst (headTailLimits (limit - int (marker_len x m))))
       (snd (headTailLimits (limit - int (marker_len x m)))))"
proof -
  let ?l = "int (marker_len x m)"
  note sum = headTailLimits_mono(3) [of "limit - int m" limit]
  have omitted: "maxInt 0 (ttl - h - t) = int (x + m)"
    using sum m by (simp add: maxInt_def ttl h t)
  have marker: "len (outputOmissionMarker (int (x + m))) = ?l"
    using len_marker [of "x + m"] by (simp add: marker_len_def)
  have ttl0: "maxInt 0 ttl = ttl" using m by (simp add: maxInt_def ttl)
  show ?thesis
  proof (cases "limit \<le> ?l")
    case True
    then show ?thesis by (simp add: Let_def omitted marker ttl0 minInt_def del: of_nat_add)
  next
    case False
    note next' = headTailLimits_mono [of "limit - ?l" limit]
    have min: "minInt (fst (headTailLimits (limit - ?l))) (len head) = fst (headTailLimits (limit - ?l))"
      "minInt (snd (headTailLimits (limit - ?l))) (len tail) = snd (headTailLimits (limit - ?l))"
      using next' False head tail by (simp_all add: minInt_def)
    have same: "fst (headTailLimits (limit - ?l)) = h \<and> snd (headTailLimits (limit - ?l)) = t \<longleftrightarrow>
      marker_len x m = m"
      using next'(3) sum False m by (auto simp: h t)
    have step: "bounded_loop (Suc n) head tail ttl limit h t =
      (if fst (headTailLimits (limit - ?l)) = h \<and> snd (headTailLimits (limit - ?l)) = t
       then Inr (joinHeadTailWithMarker head tail h t (outputOmissionMarker (int (x + m))), int (x + m))
       else bounded_loop n head tail ttl limit (fst (headTailLimits (limit - ?l))) (snd (headTailLimits (limit - ?l))))"
      using False by (simp only: bounded_loop.simps Let_def omitted marker split_beta min) simp
    show ?thesis unfolding step same using False by simp
  qed
qed

text \<open>What a truncated capture of a stream is.\<close>

definition capture_ok :: "int \<Rightarrow> string \<Rightarrow> string \<times> int \<Rightarrow> bool" where
  "capture_ok limit s r \<longleftrightarrow> (case r of (text, omitted) \<Rightarrow> len text = limit \<and>
     ((\<exists>n. text = take (nat limit) (outputOmissionMarker n)) \<and> omitted = len s \<or>
      (\<exists>h t. text = take h s @ outputOmissionMarker omitted @ drop (length s - t) s \<and>
         omitted = len s - int h - int t \<and> h + t < length s)))"

lemma capture_ok_join:
  assumes "1 \<le> limit" and "limit < len s" and "headTailLimits limit = (H, T)"
    and "marker_len x m = m" and "int m < limit" and "len s = limit + int x"
    and "h = fst (headTailLimits (limit - int m))" and "t = snd (headTailLimits (limit - int m))"
  shows "capture_ok limit s
    (joinHeadTailWithMarker (take (nat H) s) (drop (length s - nat T) s) h t (outputOmissionMarker (int (x + m))), int (x + m))"
proof -
  note b = headTailLimits_mono [of "limit - int m" limit, folded assms(7,8), unfolded assms(3) fst_conv snd_conv]
  have ht: "h \<le> H" "t \<le> T" "h + t = limit - int m" "0 \<le> h" "0 \<le> t" using b assms(5) by simp_all
  have HT: "H + T = limit" using headTailLimits_mono(3) [of limit limit] assms(1,3) by simp
  have lens: "nat H \<le> length s" "nat T \<le> length s" "nat t \<le> length s"
    using ht HT assms(2) by (auto simp: len_def)
  have "take (nat h) (take (nat H) s) = take (nat h) s" using ht by (simp add: min_def)
  moreover have "(if t > 0 then drop (nat (len (drop (length s - nat T) s) - t)) (drop (length s - nat T) s) else [])
      = drop (length s - nat t) s"
  proof -
    have "nat (len (drop (length s - nat T) s) - t) + (length s - nat T) = length s - nat t"
      using lens ht by (simp add: len_def)
    then show ?thesis by (simp add: drop_drop len_def)
  qed
  ultimately have join: "joinHeadTailWithMarker (take (nat H) s) (drop (length s - nat T) s) h t (outputOmissionMarker (int (x + m)))
    = take (nat h) s @ outputOmissionMarker (int (x + m)) @ drop (length s - nat t) s"
    by (simp add: joinHeadTailWithMarker_def)
  have "len (take (nat h) s @ outputOmissionMarker (int (x + m)) @ drop (length s - nat t) s) = h + int m + t"
    using len_marker [of "x + m"] assms(4) lens ht by (simp add: marker_len_def len_def)
  moreover have "int (x + m) = len s - int (nat h) - int (nat t)" "nat h + nat t < length s"
    using ht assms(2,6) by (auto simp: len_def)
  ultimately show ?thesis
    unfolding capture_ok_def join prod.case
    using ht(3) by (intro conjI [OF _ disjI2 [OF exI [of _ "nat h", OF exI [of _ "nat t"]]]]) auto
qed

lemma boundedHeadTailText_ok:
  assumes limit: "1 \<le> limit" and s: "limit < len s" and HT: "headTailLimits limit = (H, T)"
  shows "capture_ok limit s (boundedHeadTailText (take (nat H) s) (drop (length s - nat T) s) (len s) limit)"
proof -
  let ?head = "take (nat H) s" and ?tail = "drop (length s - nat T) s"
  define x where "x = nat (len s - limit)"
  have x: "1 \<le> x" "len s = limit + int x" using s by (auto simp: x_def)
  note lim = headTailLimits_mono [of limit limit, unfolded HT fst_conv snd_conv]
  have head: "len ?head = fst (headTailLimits limit)" and tail: "len ?tail = snd (headTailLimits limit)"
    using lim limit s by (auto simp: HT len_def)
  define m1 where "m1 = marker_len x 0"
  define m2 where "m2 = marker_len x m1"
  have stable: "marker_len x m2 = m2" using marker_len_stable [OF x(1)] by (simp add: m1_def m2_def)
  define lp where "lp = (\<lambda>n m. bounded_loop n ?head ?tail (len s) limit (fst (headTailLimits (limit - int m)))
    (snd (headTailLimits (limit - int m))))"
  have short: "capture_ok limit s (take (nat limit) (outputOmissionMarker (int (x + m))), len s)"
    if "limit \<le> int (marker_len x m)" for m
    using that limit len_marker [of "x + m"] by (auto simp: capture_ok_def len_def marker_len_def)
  have step: "(\<exists>r. lp (Suc n) m = Inr r \<and> capture_ok limit s r) \<or>
      int (marker_len x m) < limit \<and> marker_len x m \<noteq> m \<and> lp (Suc n) m = lp n (marker_len x m)"
    if "int m < limit" for n m
    using bounded_loop_step [OF that head tail x(2) refl refl, of n] short [of m] capture_ok_join [OF limit s HT _ that x(2) refl refl]
    by (auto simp: lp_def not_le)
  have eight: "(8 :: nat) = Suc (Suc (Suc 5))" by simp
  have "\<exists>r. lp (Suc (Suc (Suc 5))) 0 = Inr r \<and> capture_ok limit s r"
  proof (rule ccontr)
    assume no: "\<nexists>r. lp (Suc (Suc (Suc 5))) 0 = Inr r \<and> capture_ok limit s r"
    with step [of 0 "Suc (Suc 5)"] limit have 1: "int m1 < limit" "lp (Suc (Suc (Suc 5))) 0 = lp (Suc (Suc 5)) m1"
      by (auto simp: m1_def)
    with no step [of m1 "Suc 5"] have 2: "int m2 < limit" "lp (Suc (Suc 5)) m1 = lp (Suc 5) m2"
      by (auto simp: m2_def)
    with no 1 step [of m2 5] stable show False by auto
  qed
  then obtain r where "bounded_loop 8 ?head ?tail (len s) limit H T = Inr r" "capture_ok limit s r"
    using HT lp_def by (auto simp del: bounded_loop.simps simp flip: eight)
  with limit head tail HT show ?thesis
    by (simp add: boundedHeadTailText_def)
qed

section \<open>Properties\<close>

text \<open>
  What is captured does not depend on how the output was chunked: writing any sequence
  of chunks to a buffer captures what one write of the whole stream captures.
\<close>

theorem Capture_chunking:
  "Capture (fold buffer_Write chunks (empty_buffer limit)) = captureBytes (concat chunks) limit"
  using fold_buffer_Write [of chunks limit "[]"] by (simp add: captureBytes_eq buffer_of_empty)

text \<open>
  A stream that fits its limit is captured unchanged. A longer one is marked truncated,
  reports its original size, and its text is exactly as long as the limit: either a prefix of
  the stream, the omission marker and a suffix of it, where the marker and the projection name
  exactly the number of bytes in between, or, when the limit leaves no room beside the marker,
  a piece of the marker with the whole stream reported as omitted.
\<close>

theorem captureBytes_bounded:
  assumes "1 \<le> limit"
  shows "(len s \<le> limit \<longrightarrow> captureBytes s limit =
      \<lparr>co_Text = s, co_Truncated = False, co_OriginalBytes = len s, co_OmittedBytes = 0\<rparr>) \<and>
    (limit < len s \<longrightarrow>
      (let c = captureBytes s limit in co_Truncated c \<and> co_OriginalBytes c = len s \<and> len (co_Text c) = limit \<and>
        ((\<exists>h t. co_Text c = take h s @ outputOmissionMarker (co_OmittedBytes c) @ drop (length s - t) s \<and>
            co_OmittedBytes c = len s - int h - int t \<and> h + t < length s) \<or>
         (\<exists>n. co_Text c = take (nat limit) (outputOmissionMarker n)) \<and> co_OmittedBytes c = len s)))"
proof (cases "len s \<le> limit")
  case True
  with assms show ?thesis
    by (auto simp: captureBytes_eq Capture_def buffer_of_def empty_buffer_def split: prod.splits)
next
  case False
  obtain H T where HT: "headTailLimits limit = (H, T)" by fastforce
  from False boundedHeadTailText_ok [OF assms _ HT, of s]
  have "capture_ok limit s (boundedHeadTailText (take (nat H) s) (drop (length s - nat T) s) (len s) limit)"
    by simp
  with False assms HT show ?thesis
    by (auto simp: captureBytes_eq Capture_def buffer_of_def empty_buffer_def capture_ok_def split: prod.splits)
qed

theorem captureBytes_bounded_witness:
  "co_Text (captureBytes (replicate 60 CHR ''a'') 40) =
     replicate 6 CHR ''a'' @ outputOmissionMarker 48 @ replicate 6 CHR ''a'' \<and>
   len (co_Text (captureBytes (replicate 60 CHR ''a'') 40)) = 40"
proof -
  have "len (co_Text (captureBytes (replicate 60 CHR ''a'') 40)) = 40"
    using captureBytes_bounded [of 40 "replicate 60 CHR ''a''"] by (simp add: len_def Let_def)
  moreover have "co_Text (captureBytes (replicate 60 CHR ''a'') 40) =
     replicate 6 CHR ''a'' @ outputOmissionMarker 48 @ replicate 6 CHR ''a''"
    by code_simp
  ultimately show ?thesis by blast
qed

end
