(* ===== verification/Go_Text.thy ===== *)
theory Go_Text
  imports Go_Prelude
begin

text \<open>
  What the sources use of \<open>strings\<close>, \<open>unicode/utf8\<close>, \<open>path\<close> and \<open>path/filepath\<close> on Unix beyond the
  prelude: splitting, joining, cutting, fields, runes, and lexical cleaning of paths.
\<close>

section \<open>Splitting and joining\<close>

fun split_on :: "char \<Rightarrow> string \<Rightarrow> string list" where
  "split_on c [] = [[]]"
| "split_on c (d # s) =
     (if d = c then [] # split_on c s
      else case split_on c s of [] \<Rightarrow> [[d]] | x # xs \<Rightarrow> (d # x) # xs)"

fun join_with :: "string \<Rightarrow> string list \<Rightarrow> string" where
  "join_with sep [] = []"
| "join_with sep [x] = x"
| "join_with sep (x # y # xs) = x @ sep @ join_with sep (y # xs)"

lemma split_on_nonempty [simp]: "split_on c s \<noteq> []"
  by (induction s) (auto split: list.splits)

lemma split_on_parts: "x \<in> set (split_on c s) \<Longrightarrow> c \<notin> set x"
  by (induction s arbitrary: x) (auto split: list.splits if_splits)

lemma split_on_append:
  "c \<notin> set x \<Longrightarrow> split_on c (x @ c # s) = x # split_on c s"
  by (induction x) auto

lemma split_on_single: "c \<notin> set x \<Longrightarrow> split_on c x = [x]"
  by (induction x) auto

lemma split_on_join:
  "xs \<noteq> [] \<Longrightarrow> \<forall>x \<in> set xs. c \<notin> set x \<Longrightarrow> split_on c (join_with [c] xs) = xs"
proof (induction "[c]" xs rule: join_with.induct)
  case (3 x y xs)
  then show ?case using split_on_append [of c x "join_with [c] (y # xs)"] by simp
qed (auto simp: split_on_single)

lemma join_with_append:
  "xs \<noteq> [] \<Longrightarrow> ys \<noteq> [] \<Longrightarrow> join_with sep (xs @ ys) = join_with sep xs @ sep @ join_with sep ys"
proof (induction sep xs rule: join_with.induct)
  case (2 sep x)
  then show ?case by (cases ys) auto
qed auto

lemma join_split_on: "join_with [c] (split_on c s) = s"
proof (induction s)
  case (Cons d s)
  then show ?case
    by (cases "split_on c s"; cases "tl (split_on c s)") auto
qed simp

text \<open>\<open>strings.Cut\<close>: the parts before and after the first occurrence of the separator.\<close>

fun Cut :: "string \<Rightarrow> string \<Rightarrow> (string \<times> string) option" where
  "Cut [] sep = (if sep = [] then Some ([], []) else None)"
| "Cut (c # s) sep =
     (if HasPrefix (c # s) sep then Some ([], drop (length sep) (c # s))
      else map_option (\<lambda>(a, b). (c # a, b)) (Cut s sep))"

lemma Cut_Some: "Cut s sep = Some (a, b) \<Longrightarrow> s = a @ sep @ b"
  by (induction s arbitrary: a) (auto simp: HasPrefix_iff split: if_splits)

text \<open>\<open>strings.Contains\<close>.\<close>

definition Contains :: "string \<Rightarrow> string \<Rightarrow> bool" where
  "Contains s sub \<longleftrightarrow> Cut s sub \<noteq> None"

text \<open>\<open>strings.Fields\<close>: the maximal runs without space.\<close>

fun fields_loop :: "nat \<Rightarrow> string \<Rightarrow> string \<Rightarrow> string list" where
  "fields_loop 0 cur s = (if cur = [] then [] else [rev cur])"
| "fields_loop (Suc n) cur s =
     (case s of [] \<Rightarrow> (if cur = [] then [] else [rev cur])
      | c # s' \<Rightarrow>
          if space_rune s \<noteq> 0
          then (if cur = [] then [] else [rev cur]) @ fields_loop n [] (drop (space_rune s) s)
          else fields_loop n (c # cur) s')"

definition Fields :: "string \<Rightarrow> string list" where
  "Fields s = fields_loop (Suc (length s)) [] s"

section \<open>Runes\<close>

text \<open>
  The first rune of a string as its bytes: \<open>[]rune(s)\<close> decodes an invalid byte to U+FFFD, so
  that converting back writes the three bytes of that code point.
\<close>

definition cont :: "char \<Rightarrow> bool" where "cont c \<longleftrightarrow> CHR 0x80 \<le> c \<and> c \<le> CHR 0xBF"

fun rune_bytes :: "string \<Rightarrow> nat" where
  "rune_bytes [] = 0"
| "rune_bytes (b # s) =
     (if b < CHR 0x80 then 1
      else if CHR 0xC2 \<le> b \<and> b \<le> CHR 0xDF then (case s of c # _ \<Rightarrow> if cont c then 2 else 0 | _ \<Rightarrow> 0)
      else if CHR 0xE0 \<le> b \<and> b \<le> CHR 0xEF then
        (case s of c # d # _ \<Rightarrow>
           if cont c \<and> cont d \<and> (b = CHR 0xE0 \<longrightarrow> CHR 0xA0 \<le> c) \<and> (b = CHR 0xED \<longrightarrow> c \<le> CHR 0x9F) then 3 else 0
         | _ \<Rightarrow> 0)
      else if CHR 0xF0 \<le> b \<and> b \<le> CHR 0xF4 then
        (case s of c # d # e # _ \<Rightarrow>
           if cont c \<and> cont d \<and> cont e \<and> (b = CHR 0xF0 \<longrightarrow> CHR 0x90 \<le> c) \<and> (b = CHR 0xF4 \<longrightarrow> c \<le> CHR 0x8F) then 4 else 0
         | _ \<Rightarrow> 0)
      else 0)"

fun runes_loop :: "nat \<Rightarrow> string \<Rightarrow> string list" where
  "runes_loop 0 s = []"
| "runes_loop (Suc n) s =
     (if s = [] then []
      else if rune_bytes s = 0 then [CHR 0xEF, CHR 0xBF, CHR 0xBD] # runes_loop n (drop 1 s)
      else take (rune_bytes s) s # runes_loop n (drop (rune_bytes s) s))"

definition runes :: "string \<Rightarrow> string list" where
  "runes s = runes_loop (length s) s"

section \<open>Paths\<close>

text \<open>
  \<open>path.Clean\<close>, which is \<open>filepath.Clean\<close> on Unix: empty and \<^verbatim>\<open>.\<close> components are dropped, \<^verbatim>\<open>..\<close>
  removes the component before it, at the root it is dropped. The components kept so far
  are in reverse.
\<close>

fun clean_comps :: "bool \<Rightarrow> string list \<Rightarrow> string list \<Rightarrow> string list" where
  "clean_comps rooted out [] = rev out"
| "clean_comps rooted out (c # cs) =
     (if c = [] \<or> c = ''.'' then clean_comps rooted out cs
      else if c = ''..'' then
        (case out of
           o1 # os \<Rightarrow> if o1 \<noteq> ''..'' then clean_comps rooted os cs else clean_comps rooted (''..'' # out) cs
         | [] \<Rightarrow> if rooted then clean_comps rooted [] cs else clean_comps rooted [''..''] cs)
      else clean_comps rooted (c # out) cs)"

definition IsAbs :: "string \<Rightarrow> bool" where
  "IsAbs p \<longleftrightarrow> HasPrefix p ''/''"

definition path_Clean :: "string \<Rightarrow> string" where
  "path_Clean p =
     (if p = [] then ''.''
      else let cs = clean_comps (IsAbs p) [] (split_on (CHR ''/'') p)
        in if IsAbs p then ''/'' @ join_with ''/'' cs
           else if cs = [] then ''.'' else join_with ''/'' cs)"

definition path_Dir :: "string \<Rightarrow> string" where
  "path_Dir p = path_Clean (rev (dropWhile (\<lambda>c. c \<noteq> CHR ''/'') (rev p)))"

definition path_Join :: "string list \<Rightarrow> string" where
  "path_Join es =
     (let es = filter (\<lambda>e. e \<noteq> []) es
      in if es = [] then [] else path_Clean (join_with ''/'' es))"

text \<open>A plain component: one that cleaning keeps.\<close>

definition plain_comp :: "string \<Rightarrow> bool" where
  "plain_comp c \<longleftrightarrow> c \<noteq> [] \<and> c \<noteq> ''.'' \<and> c \<noteq> ''..'' \<and> CHR ''/'' \<notin> set c"

lemma clean_comps_plain: "\<forall>c \<in> set cs. plain_comp c \<Longrightarrow> clean_comps r out cs = rev out @ cs"
  by (induction cs arbitrary: out) (auto simp: plain_comp_def)

text \<open>The components that are kept satisfy what the given ones do, \<open>Q\<close>, and what \<^verbatim>\<open>..\<close> at the start does.\<close>

lemma clean_comps_all:
  assumes "\<And>c. c \<in> set cs \<Longrightarrow> c \<noteq> [] \<Longrightarrow> c \<noteq> ''.'' \<Longrightarrow> c \<noteq> ''..'' \<Longrightarrow> Q c"
    and "\<not> r \<Longrightarrow> Q ''..''" and "\<And>c. c \<in> set out \<Longrightarrow> Q c" and "r \<Longrightarrow> ''..'' \<notin> set out"
    and "c \<in> set (clean_comps r out cs)"
  shows "Q c"
  using assms
proof (induction cs arbitrary: out)
  case (Cons d cs)
  note later = Cons.prems(1) [OF list.set_intros(2)]
  consider "d = [] \<or> d = ''.''" | "d = ''..''" | "d \<noteq> []" "d \<noteq> ''.''" "d \<noteq> ''..''" by blast
  then show ?case
  proof cases
    case 1
    with Cons.prems(5) have "c \<in> set (clean_comps r out cs)" by auto
    from Cons.IH [OF later Cons.prems(2,3,4) this] show ?thesis by blast
  next
    case 2
    define out' where "out' = (case out of o1 # os \<Rightarrow> if o1 \<noteq> ''..'' then os else ''..'' # out | [] \<Rightarrow> if r then [] else [''..''])"
    have c: "c \<in> set (clean_comps r out' cs)" using Cons.prems(5) 2 by (auto simp: out'_def split: list.splits if_splits)
    have "Q x" if "x \<in> set out'" for x
      using that Cons.prems(2-4) by (cases out) (auto simp: out'_def split: if_splits)
    moreover have "''..'' \<notin> set out'" if r
      using that Cons.prems(4) by (cases out) (auto simp: out'_def split: if_splits)
    ultimately show ?thesis using Cons.IH [OF later Cons.prems(2) _ _ c] by blast
  next
    case 3
    with Cons.prems(5) have c: "c \<in> set (clean_comps r (d # out) cs)" by simp
    have "Q x" if "x \<in> set (d # out)" for x using that 3 Cons.prems(1) [of d] Cons.prems(3) by auto
    moreover have "''..'' \<notin> set (d # out)" if r using that 3 Cons.prems(4) by auto
    ultimately show ?thesis using Cons.IH [OF later Cons.prems(2) _ _ c] by blast
  qed
qed simp

lemma clean_comps_rooted:
  assumes "\<forall>c \<in> set cs. CHR ''/'' \<notin> set c"
  shows "\<forall>c \<in> set (clean_comps True [] cs). plain_comp c"
proof
  fix c assume "c \<in> set (clean_comps True [] cs)"
  then show "plain_comp c"
    by (rule clean_comps_all [rotated -1]) (use assms in \<open>auto simp: plain_comp_def\<close>)
qed

lemma clean_comps_relative:
  assumes "\<forall>c \<in> set cs. CHR ''/'' \<notin> set c"
  shows "\<forall>c \<in> set (clean_comps False [] cs). c \<noteq> [] \<and> CHR ''/'' \<notin> set c"
proof
  fix c assume "c \<in> set (clean_comps False [] cs)"
  then show "c \<noteq> [] \<and> CHR ''/'' \<notin> set c"
    by (rule clean_comps_all [rotated -1]) (use assms in auto)
qed

text \<open>A rooted path is cleaned to the root followed by plain components.\<close>

definition rooted_path :: "string list \<Rightarrow> string" where
  "rooted_path cs = ''/'' @ join_with ''/'' cs"

lemma path_Clean_rooted:
  assumes "IsAbs p"
  obtains cs where "path_Clean p = rooted_path cs" and "\<forall>c \<in> set cs. plain_comp c"
proof -
  have "p \<noteq> []" using assms by (auto simp: IsAbs_def HasPrefix_def)
  then have "path_Clean p = rooted_path (clean_comps True [] (split_on (CHR ''/'') p))"
    using assms by (simp add: path_Clean_def rooted_path_def)
  moreover have "\<forall>c \<in> set (clean_comps True [] (split_on (CHR ''/'') p)). plain_comp c"
    by (rule clean_comps_rooted) (auto simp: split_on_parts)
  ultimately show thesis by (rule that)
qed

lemma path_Clean_relative: "\<not> IsAbs p \<Longrightarrow> \<not> IsAbs (path_Clean p)"
proof (cases "p = []")
  case False
  assume rel: "\<not> IsAbs p"
  define cs where "cs = clean_comps False [] (split_on (CHR ''/'') p)"
  have parts: "\<forall>c \<in> set cs. c \<noteq> [] \<and> CHR ''/'' \<notin> set c"
    unfolding cs_def by (rule clean_comps_relative) (auto simp: split_on_parts)
  have "path_Clean p = (if cs = [] then ''.'' else join_with ''/'' cs)"
    using False rel by (simp add: path_Clean_def cs_def)
  moreover have "\<not> IsAbs (join_with ''/'' cs)" if some: "cs \<noteq> []"
  proof -
    obtain c ds where "cs = c # ds" "c \<noteq> []" "CHR ''/'' \<notin> set c" using parts some by (cases cs) auto
    then show ?thesis by (cases ds; cases c) (auto simp: IsAbs_def HasPrefix_def)
  qed
  ultimately show ?thesis by (simp add: IsAbs_def HasPrefix_def)
qed (simp add: path_Clean_def IsAbs_def HasPrefix_def)

lemma path_Clean_rooted_path: "\<forall>c \<in> set cs. plain_comp c \<Longrightarrow> path_Clean (rooted_path cs) = rooted_path cs"
proof (cases "cs = []")
  case False
  assume plain: "\<forall>c \<in> set cs. plain_comp c"
  then have "split_on (CHR ''/'') (rooted_path cs) = [] # cs"
    using split_on_join [OF False, of "CHR ''/''"] by (simp add: rooted_path_def plain_comp_def)
  with plain show ?thesis
    by (simp add: path_Clean_def rooted_path_def IsAbs_def HasPrefix_def clean_comps_plain)
qed (simp add: path_Clean_def rooted_path_def IsAbs_def HasPrefix_def)

lemma rooted_path_inj:
  assumes "\<forall>c \<in> set cs. plain_comp c" and "\<forall>c \<in> set ds. plain_comp c" and "rooted_path cs = rooted_path ds"
  shows "cs = ds"
proof -
  have parts: "split_on (CHR ''/'') (rooted_path es) = (if es = [] then [[], []] else [] # es)" if "\<forall>c \<in> set es. plain_comp c" for es
    using that split_on_join [of es "CHR ''/''"] by (auto simp: rooted_path_def plain_comp_def)
  have "[] \<notin> set cs" "[] \<notin> set ds" using assms by (auto simp: plain_comp_def)
  moreover have "split_on (CHR ''/'') (rooted_path cs) = split_on (CHR ''/'') (rooted_path ds)" by (simp only: assms(3))
  ultimately show ?thesis
    unfolding parts [OF assms(1)] parts [OF assms(2)] by (cases "cs = []"; cases "ds = []") auto
qed

end
