(* ===== verification/Sqlite_Ledger.thy ===== *)
theory Sqlite_Ledger
  imports Kernel_Core Go_Text
begin

text \<open>
  The ledger on disk (\<^verbatim>\<open>sqlite_ledger.go\<close>): append-only frame files per session, an SQLite index over
  them, a table of sessions, and the rebuilding of the index when a process opens the ledger.
  The model shows what the rest of the development assumes of a ledger, under any pattern of
  disk faults, and what a restart recovers.
\<close>

section \<open>Model\<close>

text \<open>
  What the ledger uses of the standard library and is a parameter: the JSON encoding of an
  event, its decoding, and the hexadecimal SHA-256 digest.
\<close>

record ledger_env =
  le_path :: string
  le_marshal :: "StoredEvent \<Rightarrow> string option"
  le_unmarshal :: "string \<Rightarrow> StoredEvent option"
  le_sha256hex :: "string \<Rightarrow> string"

record sqliteLedgerEventRow =
  er_EventID :: string
  er_SessionID :: string
  er_TurnID :: string
  er_EventType :: string
  er_FileRef :: string
  er_FrameOffset :: int
  er_FrameBytes :: int
  er_EventBytes :: int
  er_EventHash :: string

text \<open>A row of \<^verbatim>\<open>session_events\<close>, whose position in the table is \<^verbatim>\<open>seq\<close>, and a row of \<^verbatim>\<open>sessions\<close>.\<close>

record index_row =
  ix_row :: sqliteLedgerEventRow
  ix_created :: int

record session_row =
  sr_title :: string
  sr_updated :: int

text \<open>
  What may go wrong outside: opening the database, writing a frame (after some of its bytes
  reached the file), or the transaction on the index, which is then rolled back.
\<close>

datatype io_fault = Open_fault go_error | Write_fault nat string | Index_fault string

record SQLiteLedger =
  sq_env :: ledger_env
  sq_files :: "string go_map"
  sq_index :: "index_row list"
  sq_sessions :: "session_row go_map"
  sq_indexRebuilt :: bool
  sq_attempts :: nat
  sq_append_fault :: "nat \<Rightarrow> io_fault option"
  sq_load_fault :: "nat \<Rightarrow> go_error option"

definition ledgerFrameHeaderBytes :: nat where "ledgerFrameHeaderBytes = 8"
definition sqliteLedgerMaxFrameBodyBytes :: nat where "sqliteLedgerMaxFrameBodyBytes = 64 * 1024 * 1024"

definition classifySQLiteError :: "string \<Rightarrow> go_error \<Rightarrow> go_error" where
  "classifySQLiteError err fallback =
     (let message = ToLower err
      in if Contains message ''file is not a database'' \<or> Contains message ''database disk image is malformed'' \<or>
            Contains message ''file is encrypted'' \<or> Contains message ''not a database''
         then Wrapped ErrLedgerCorrupt (errors_New err)
         else Wrapped fallback (errors_New err))"

subsection \<open>File references\<close>

definition sessionEventFileRef :: "ledger_env \<Rightarrow> string \<Rightarrow> string" where
  "sessionEventFileRef env sessionID =
     (let key = TrimSpace sessionID;
          key = (if key = [] then ''_system'' else key)
      in path_Join [''session-events'', le_sha256hex env key @ ''.events''])"

definition resolveFileRef :: "string \<Rightarrow> string \<Rightarrow> string res" where
  "resolveFileRef path ref =
     (let ref = TrimSpace ref
      in if ref = [] then Inl (Wrapped ErrLedgerCorrupt (errors_New ''empty event file ref''))
         else
           let clean = TrimPrefix (path_Clean (''/'' @ ref)) ''/''
           in if clean = ''.'' \<or> HasPrefix clean ''../'' \<or> IsAbs ref
              then Inl (Wrapped ErrLedgerCorrupt (errors_New ''invalid event file ref''))
              else
                let base = path_Clean (path_Dir path);
                    full = path_Clean (path_Join [base, clean])
                in if full \<noteq> base \<and> \<not> HasPrefix full (base @ ''/'')
                   then Inl (Wrapped ErrLedgerCorrupt (errors_New ''event file ref escapes ledger root''))
                   else Inr full)"

definition eventFilesDir :: "string \<Rightarrow> string" where
  "eventFilesDir path = path_Join [path_Dir path, ''session-events'']"

subsection \<open>Frames\<close>

text \<open>\<open>binary.BigEndian\<close> on eight bytes.\<close>

definition PutUint64 :: "nat \<Rightarrow> string" where
  "PutUint64 n = map (\<lambda>i. char_of (n div 256 ^ i mod 256)) (rev [0..<8])"

definition Uint64 :: "string \<Rightarrow> nat" where
  "Uint64 s = foldl (\<lambda>n c. n * 256 + of_char c) 0 s"

text \<open>The conversion of a \<open>uint64\<close> to \<open>int\<close>.\<close>

definition int_of_uint64 :: "nat \<Rightarrow> int" where
  "int_of_uint64 n = (if n < 2 ^ 63 then int n else int n - 2 ^ 64)"

definition event_frame :: "string \<Rightarrow> string" where
  "event_frame encoded = PutUint64 (length encoded mod 2 ^ 64) @ encoded"

definition appendEventFrameLocked ::
  "io_fault option \<Rightarrow> string \<Rightarrow> string \<Rightarrow> string \<Rightarrow> string go_map \<Rightarrow> (int \<times> int) res \<times> string go_map" where
  "appendEventFrameLocked fault path fileRef encoded files =
     (case resolveFileRef path fileRef of
        Inl err \<Rightarrow> (Inl err, files)
      | Inr eventPath \<Rightarrow>
          let content = (case go_lookup files eventPath of None \<Rightarrow> [] | Some content \<Rightarrow> content);
              frame = event_frame encoded
          in case fault of
               Some (Write_fault n msg) \<Rightarrow>
                 (Inl (Wrapped ErrLedgerUnwritable (errors_New msg)), go_store eventPath (content @ take n frame) files)
             | _ \<Rightarrow> (Inr (int (length content), int (length frame)), go_store eventPath (content @ frame) files))"

text \<open>\<open>ReadAt\<close> fails unless the whole range is in the file.\<close>

definition ReadAt :: "string \<Rightarrow> int \<Rightarrow> int \<Rightarrow> string option" where
  "ReadAt content offset n =
     (if offset < 0 \<or> n < 0 \<or> int (length content) < offset + n then None
      else Some (take (nat n) (drop (nat offset) content)))"

definition corrupt :: "string \<Rightarrow> string \<Rightarrow> go_error" where
  "corrupt msg eventID = Wrapped ErrLedgerCorrupt (Errorf msg [eventID])"

definition readEventFrame :: "ledger_env \<Rightarrow> string go_map \<Rightarrow> sqliteLedgerEventRow \<Rightarrow> StoredEvent res" where
  "readEventFrame env files row =
     (if er_FrameBytes row \<noteq> int ledgerFrameHeaderBytes + er_EventBytes row
      then Inl (corrupt ''indexed frame length mismatch for %s'' (er_EventID row))
      else case resolveFileRef (le_path env) (er_FileRef row) of
          Inl err \<Rightarrow> Inl err
        | Inr eventPath \<Rightarrow>
      case go_lookup files eventPath of
          None \<Rightarrow> Inl (corrupt ''missing event file for %s'' (er_EventID row))
        | Some content \<Rightarrow>
      case ReadAt content (er_FrameOffset row) (er_FrameBytes row) of
          None \<Rightarrow> Inl (corrupt ''read frame for %s'' (er_EventID row))
        | Some frame \<Rightarrow>
      let size = int_of_uint64 (Uint64 (take ledgerFrameHeaderBytes frame));
          encoded = drop ledgerFrameHeaderBytes frame
      in if size \<noteq> er_EventBytes row \<or> size \<noteq> int (length frame) - int ledgerFrameHeaderBytes
         then Inl (corrupt ''frame header mismatch for %s'' (er_EventID row))
         else if le_sha256hex env encoded \<noteq> er_EventHash row
         then Inl (corrupt ''event hash mismatch for %s'' (er_EventID row))
         else case le_unmarshal env encoded of
             None \<Rightarrow> Inl (corrupt ''unmarshal event %s'' (er_EventID row))
           | Some event \<Rightarrow>
               if ev_EventID event \<noteq> er_EventID row \<or> ev_SessionID event \<noteq> er_SessionID row \<or>
                  ev_TurnID event \<noteq> er_TurnID row \<or> ev_Type event \<noteq> er_EventType row
               then Inl (corrupt ''indexed metadata mismatch for %s'' (er_EventID row))
               else Inr event)"

subsection \<open>The table of sessions\<close>

definition sqliteSessionTitleText :: "string \<Rightarrow> string" where
  "sqliteSessionTitleText s =
     (case Cut s ([CHR 0x0A, CHR 0x0A] @ ''text:'' @ [CHR 0x0A]) of Some (_, body) \<Rightarrow> body | None \<Rightarrow> s)"

fun title_of_items :: "InputItem list \<Rightarrow> string" where
  "title_of_items [] = []"
| "title_of_items (item # items) =
     (if ii_Type item \<noteq> ''text'' then title_of_items items
      else
        let title = join_with '' '' (Fields (sqliteSessionTitleText (ii_Text item)))
        in if title = [] then title_of_items items
           else if length (runes title) > 80 then concat (take 77 (runes title)) @ ''...'' else title)"

definition sqliteSessionTitleFromEvent :: "StoredEvent \<Rightarrow> string" where
  "sqliteSessionTitleFromEvent event =
     (if ev_Type event \<noteq> ''turn.submitted'' then [] else title_of_items (ed_InputItems (ev_Data event)))"

definition upsertSQLiteSessionFromEvent :: "StoredEvent \<Rightarrow> session_row go_map \<Rightarrow> session_row go_map" where
  "upsertSQLiteSessionFromEvent event sessions =
     (let sessionID = TrimSpace (ev_SessionID event);
          title = sqliteSessionTitleFromEvent event;
          nano = UnixNano (ev_CreatedAt event)
      in if sessionID = [] then sessions
         else case go_lookup sessions sessionID of
             None \<Rightarrow> go_store sessionID \<lparr>sr_title = title, sr_updated = nano\<rparr> sessions
           | Some row \<Rightarrow> go_store sessionID
               \<lparr>sr_title = (if sr_title row = [] \<and> title \<noteq> [] then title else sr_title row),
                sr_updated = (if nano > sr_updated row then nano else sr_updated row)\<rparr> sessions)"

subsection \<open>Rebuilding the index\<close>

type_synonym tables = "index_row list \<times> session_row go_map"

definition index_entry :: "sqliteLedgerEventRow \<Rightarrow> StoredEvent \<Rightarrow> index_row" where
  "index_entry row event = \<lparr>ix_row = row, ix_created = UnixNano (ev_CreatedAt event)\<rparr>"

definition event_row :: "ledger_env \<Rightarrow> string \<Rightarrow> int \<Rightarrow> string \<Rightarrow> StoredEvent \<Rightarrow> sqliteLedgerEventRow" where
  "event_row env fileRef offset encoded event =
     \<lparr>er_EventID = ev_EventID event, er_SessionID = ev_SessionID event, er_TurnID = ev_TurnID event,
      er_EventType = ev_Type event, er_FileRef = fileRef, er_FrameOffset = offset,
      er_FrameBytes = int (ledgerFrameHeaderBytes + length encoded), er_EventBytes = int (length encoded),
      er_EventHash = le_sha256hex env encoded\<rparr>"

definition reconcileSQLiteEventRow :: "sqliteLedgerEventRow \<Rightarrow> StoredEvent \<Rightarrow> tables \<Rightarrow> tables res" where
  "reconcileSQLiteEventRow row event t =
     (case find (\<lambda>ix. er_EventID (ix_row ix) = er_EventID row) (fst t) of
        Some existing \<Rightarrow>
          if ix_row existing \<noteq> row then Inl (corrupt ''indexed metadata mismatch for %s'' (er_EventID row))
          else Inr (fst t, upsertSQLiteSessionFromEvent event (snd t))
      | None \<Rightarrow> Inr (fst t @ [index_entry row event], upsertSQLiteSessionFromEvent event (snd t)))"

definition frame_error :: "string \<Rightarrow> string \<Rightarrow> nat \<Rightarrow> go_error" where
  "frame_error msg fileRef offset = Wrapped ErrLedgerCorrupt (Errorf msg [fileRef, show_nat offset])"

function reconcile_frames :: "ledger_env \<Rightarrow> string \<Rightarrow> nat \<Rightarrow> string \<Rightarrow> tables \<Rightarrow> tables res" where
  "reconcile_frames env fileRef offset rest t =
     (if rest = [] then Inr t
      else if length rest < ledgerFrameHeaderBytes
      then Inl (frame_error ''incomplete frame header in %s at %d'' fileRef offset)
      else
        let bodyBytes = Uint64 (take ledgerFrameHeaderBytes rest);
            rest = drop ledgerFrameHeaderBytes rest
        in if bodyBytes = 0 \<or> bodyBytes > sqliteLedgerMaxFrameBodyBytes
           then Inl (frame_error ''invalid frame body length in %s at %d'' fileRef offset)
           else if length rest < bodyBytes
           then Inl (frame_error ''incomplete frame body in %s at %d'' fileRef offset)
           else
             let encoded = take bodyBytes rest
             in case le_unmarshal env encoded of
                  None \<Rightarrow> Inl (frame_error ''unmarshal frame in %s at %d'' fileRef offset)
                | Some event \<Rightarrow>
                    if ev_EventID event = [] then Inl (frame_error ''event frame missing event_id in %s at %d'' fileRef offset)
                    else if fileRef \<noteq> sessionEventFileRef env (ev_SessionID event)
                    then Inl (Wrapped ErrLedgerCorrupt (Errorf ''event %s stored in %s, want %s''
                      [ev_EventID event, fileRef, sessionEventFileRef env (ev_SessionID event)]))
                    else
                      case reconcileSQLiteEventRow (event_row env fileRef (int offset) encoded event) event t of
                        Inl err \<Rightarrow> Inl err
                      | Inr t \<Rightarrow> reconcile_frames env fileRef (offset + ledgerFrameHeaderBytes + length encoded)
                          (drop bodyBytes rest) t)"
  by pat_completeness auto
termination by (relation "measure (\<lambda>(env, ref, off, rest, t). length rest)") (auto simp: ledgerFrameHeaderBytes_def)

declare reconcile_frames.simps [simp del]

definition reconcileSQLiteEventFileLocked :: "ledger_env \<Rightarrow> string \<Rightarrow> string \<Rightarrow> tables \<Rightarrow> tables res" where
  "reconcileSQLiteEventFileLocked env fileRef content t = reconcile_frames env fileRef 0 content t"

text \<open>
  The files below the event directory in the order of \<open>WalkDir\<close>, with their references
  relative to the directory of the ledger.
\<close>

definition event_files :: "ledger_env \<Rightarrow> string go_map \<Rightarrow> (string \<times> string) list" where
  "event_files env files =
     map (\<lambda>(p, content). (drop (length (path_Dir (le_path env)) + 1) p, content))
       (sort_key (\<lambda>(p, _). split_on (CHR ''/'') p)
         (filter (\<lambda>(p, _). HasPrefix p (eventFilesDir (le_path env) @ ''/'')) files))"

fun reconcile_files :: "ledger_env \<Rightarrow> (string \<times> string) list \<Rightarrow> tables \<Rightarrow> tables res" where
  "reconcile_files env [] t = Inr t"
| "reconcile_files env ((fileRef, content) # fs) t =
     (if \<not> HasPrefix fileRef ''session-events/''
      then Inl (Wrapped ErrLedgerCorrupt (Errorf ''event file outside session-events: %s'' [fileRef]))
      else case reconcileSQLiteEventFileLocked env fileRef content t of
          Inl err \<Rightarrow> Inl err
        | Inr t \<Rightarrow> reconcile_files env fs t)"

definition rebuildSQLiteIndexFromEventFramesLocked :: "SQLiteLedger \<Rightarrow> tables res" where
  "rebuildSQLiteIndexFromEventFramesLocked l =
     reconcile_files (sq_env l) (event_files (sq_env l) (sq_files l)) (sq_index l, sq_sessions l)"

subsection \<open>The operations\<close>

definition openDBLocked :: "go_error option \<Rightarrow> SQLiteLedger \<Rightarrow> go_error option \<times> SQLiteLedger" where
  "openDBLocked fault l =
     (if TrimSpace (le_path (sq_env l)) = []
      then (Some (Wrapped ErrLedgerUnwritable (errors_New ''ledger path is required'')), l)
      else case fault of Some err \<Rightarrow> (Some err, l)
        | None \<Rightarrow>
            if sq_indexRebuilt l then (None, l)
            else case rebuildSQLiteIndexFromEventFramesLocked l of
                Inl err \<Rightarrow> (Some err, l)
              | Inr (index, sessions) \<Rightarrow>
                  (None, l\<lparr>sq_index := index, sq_sessions := sessions, sq_indexRebuilt := True\<rparr>))"

fun read_rows :: "ledger_env \<Rightarrow> string go_map \<Rightarrow> index_row list \<Rightarrow> StoredEvent list res" where
  "read_rows env files [] = Inr []"
| "read_rows env files (ix # ixs) =
     (case readEventFrame env files (ix_row ix) of
        Inl err \<Rightarrow> Inl err
      | Inr event \<Rightarrow> (case read_rows env files ixs of Inl err \<Rightarrow> Inl err | Inr events \<Rightarrow> Inr (event # events)))"

definition loadLocked :: "SQLiteLedger \<Rightarrow> StoredEvent list res \<times> SQLiteLedger" where
  "loadLocked l =
     (case openDBLocked (sq_load_fault l (sq_attempts l)) l of
        (Some err, l) \<Rightarrow> (Inl err, l)
      | (None, l) \<Rightarrow> (read_rows (sq_env l) (sq_files l) (sort_key ix_created (sq_index l)), l))"

definition sqlite_Load :: "SQLiteLedger \<Rightarrow> StoredEvent list res \<times> SQLiteLedger" where
  "sqlite_Load l = loadLocked l"

definition sqlite_Ready :: "SQLiteLedger \<Rightarrow> ReadyCheck \<times> SQLiteLedger" where
  "sqlite_Ready l =
     (case loadLocked l of
        (Inl err, l) \<Rightarrow> (\<lparr>rc_Readiness = ''not_ready'', rc_ReadinessReason = ledgerErrorCode err\<rparr>, l)
      | (Inr _, l) \<Rightarrow> (\<lparr>rc_Readiness = ''ready'', rc_ReadinessReason = []\<rparr>, l))"

definition open_fault :: "io_fault option \<Rightarrow> go_error option" where
  "open_fault fault = (case fault of Some (Open_fault err) \<Rightarrow> Some err | _ \<Rightarrow> None)"

definition sqlite_Append :: "StoredEvent \<Rightarrow> SQLiteLedger \<Rightarrow> go_error option \<times> SQLiteLedger" where
  "sqlite_Append event l =
     (let fault = sq_append_fault l (sq_attempts l)
      in case openDBLocked (open_fault fault) (l\<lparr>sq_attempts := Suc (sq_attempts l)\<rparr>) of
           (Some err, l) \<Rightarrow> (Some err, l)
         | (None, l) \<Rightarrow>
      case le_marshal (sq_env l) event of
           None \<Rightarrow> (Some (errors_New ''json: unsupported value''), l)
         | Some encoded \<Rightarrow>
      let fileRef = sessionEventFileRef (sq_env l) (ev_SessionID event)
      in case appendEventFrameLocked fault (le_path (sq_env l)) fileRef encoded (sq_files l) of
           (Inl err, files) \<Rightarrow> (Some err, l\<lparr>sq_files := files\<rparr>)
         | (Inr (offset, frameBytes), files) \<Rightarrow>
      case fault of
           Some (Index_fault msg) \<Rightarrow> (Some (classifySQLiteError msg ErrLedgerUnwritable), l\<lparr>sq_files := files\<rparr>)
         | _ \<Rightarrow>
             if list_ex (\<lambda>ix. er_EventID (ix_row ix) = ev_EventID event) (sq_index l)
             then (Some (classifySQLiteError ''UNIQUE constraint failed: session_events.event_id'' ErrLedgerUnwritable),
                   l\<lparr>sq_files := files\<rparr>)
             else (None, l\<lparr>sq_files := files,
                   sq_index := sq_index l @ [index_entry ((event_row (sq_env l) fileRef offset encoded event)\<lparr>er_FrameBytes := frameBytes\<rparr>) event],
                   sq_sessions := upsertSQLiteSessionFromEvent event (sq_sessions l)\<rparr>))"

record SessionListItem =
  sli_SessionID :: string
  sli_Title :: string
  sli_UpdatedAt :: int

definition ListSessions :: "SQLiteLedger \<Rightarrow> SessionListItem list res \<times> SQLiteLedger" where
  "ListSessions l =
     (case openDBLocked (sq_load_fault l (sq_attempts l)) l of
        (Some err, l) \<Rightarrow> (Inl err, l)
      | (None, l) \<Rightarrow>
          (Inr (map (\<lambda>(i, row). \<lparr>sli_SessionID = i, sli_Title = sr_title row, sli_UpdatedAt = sr_updated row\<rparr>)
             (sort_key (\<lambda>(i, row). - sr_updated row) (sort_key fst (sq_sessions l)))), l))"

end
