(* ===== verification/Sqlite_Ledger_Correct.thy ===== *)
theory Sqlite_Ledger_Correct
  imports Sqlite_Ledger Sample_Kernel
begin

text \<open>
  Correctness of the ledger on disk: frames are read back as they were written, an opened
  ledger satisfies the contract the kernel relies on whatever the disk does, and opening the
  ledger again recovers the events of all complete frames and refuses everything else.
\<close>

section \<open>Frames\<close>

lemma Uint64_snoc: "Uint64 (s @ [c]) = Uint64 s * 256 + of_char c"
  by (simp add: Uint64_def)

lemma Uint64_digits: "Uint64 (map (\<lambda>i. char_of (n div 256 ^ i mod 256)) (rev [0..<k])) = n mod 256 ^ k"
proof (induction k arbitrary: n)
  case (Suc k)
  have shift: "rev [0..<Suc k] = map Suc (rev [0..<k]) @ [0]"
    by (simp add: upt_conv_Cons map_Suc_upt [symmetric] rev_map del: upt_Suc)
  have "Uint64 (map (\<lambda>i. char_of (n div 256 ^ i mod 256)) (rev [0..<Suc k])) =
      Uint64 (map (\<lambda>i. char_of (n div 256 div 256 ^ i mod 256)) (rev [0..<k])) * 256 + n mod 256"
    unfolding shift by (simp add: Uint64_snoc comp_def div_mult2_eq)
  also have "\<dots> = n mod 256 ^ Suc k"
    unfolding Suc.IH by (simp add: mod_mult2_eq)
  finally show ?case .
qed (simp add: Uint64_def)

lemma length_PutUint64 [simp]: "length (PutUint64 n) = 8"
  by (simp add: PutUint64_def)

lemma Uint64_PutUint64 [simp]: "Uint64 (PutUint64 n) = n mod 2 ^ 64"
  unfolding PutUint64_def Uint64_digits by simp

lemma length_event_frame [simp]: "length (event_frame s) = 8 + length s"
  by (simp add: event_frame_def)

lemma ReadAt_append: "ReadAt c off n = Some s \<Longrightarrow> ReadAt (c @ t) off n = Some s"
  by (auto simp: ReadAt_def split: if_splits)

section \<open>File references\<close>

text \<open>A ledger in a directory other than the root, given by an absolute path.\<close>

definition ledger_root :: "string \<Rightarrow> string list \<Rightarrow> bool" where
  "ledger_root path cs \<longleftrightarrow> cs \<noteq> [] \<and> (\<forall>c \<in> set cs. plain_comp c) \<and> path_Dir path = rooted_path cs"

lemma rooted_path_append:
  "cs \<noteq> [] \<Longrightarrow> ds \<noteq> [] \<Longrightarrow> rooted_path (cs @ ds) = rooted_path cs @ ''/'' @ join_with ''/'' ds"
  by (simp add: rooted_path_def join_with_append)

lemma TrimPrefix_rooted: "TrimPrefix (rooted_path ds) ''/'' = join_with ''/'' ds"
  by (simp add: TrimPrefix_def rooted_path_def HasPrefix_def)

lemma join_eq_dot: "ds \<noteq> [] \<Longrightarrow> \<forall>c \<in> set ds. plain_comp c \<Longrightarrow> join_with ''/'' ds \<noteq> ''.'' \<and> \<not> HasPrefix (join_with ''/'' ds) ''../''"
proof -
  assume ds: "ds \<noteq> []" "\<forall>c \<in> set ds. plain_comp c"
  have parts: "split_on (CHR ''/'') (join_with ''/'' ds) = ds"
    using ds by (intro split_on_join) (auto simp: plain_comp_def)
  have "join_with ''/'' ds \<noteq> ''.''"
  proof
    assume dot: "join_with ''/'' ds = ''.''"
    have "ds = [''.'']" using parts unfolding dot by simp
    with ds show False by (simp add: plain_comp_def)
  qed
  moreover have "\<not> HasPrefix (join_with ''/'' ds) ''../''"
  proof
    assume "HasPrefix (join_with ''/'' ds) ''../''"
    then obtain t where "join_with ''/'' ds = ''..'' @ CHR ''/'' # t" by (auto simp: HasPrefix_iff)
    have "ds = ''..'' # split_on (CHR ''/'') t" using parts unfolding \<open>join_with ''/'' ds = _\<close> by simp
    with ds(2) show False by (simp add: plain_comp_def)
  qed
  ultimately show ?thesis by simp
qed

lemma resolveFileRef_rooted:
  assumes root: "ledger_root path cs" and clean: "path_Clean (''/'' @ TrimSpace ref) = rooted_path ds"
    and plain: "\<forall>c \<in> set ds. plain_comp c" and rel: "TrimSpace ref \<noteq> []" "\<not> IsAbs (TrimSpace ref)"
  shows "resolveFileRef path ref = Inr (rooted_path (cs @ ds))"
proof -
  from root have cs: "cs \<noteq> []" "\<forall>c \<in> set cs. plain_comp c" and dir: "path_Dir path = rooted_path cs"
    by (simp_all add: ledger_root_def)
  have base: "path_Clean (path_Dir path) = rooted_path cs" by (simp add: dir path_Clean_rooted_path cs)
  show ?thesis
  proof (cases "ds = []")
    case True
    have join: "path_Join [rooted_path cs, []] = rooted_path cs"
      using path_Clean_rooted_path [OF cs(2)] by (simp add: path_Join_def rooted_path_def)
    from True show ?thesis
      using rel clean unfolding resolveFileRef_def Let_def base
      by (simp add: TrimPrefix_rooted join path_Clean_rooted_path cs HasPrefix_def)
  next
    case False
    note dot = join_eq_dot [OF False plain]
    have all: "\<forall>c \<in> set (cs @ ds). plain_comp c" using cs plain by auto
    have ne: "join_with ''/'' ds \<noteq> []" using False plain by (cases ds; cases "tl ds") (auto simp: plain_comp_def)
    have join: "path_Join [rooted_path cs, join_with ''/'' ds] = rooted_path (cs @ ds)"
      using ne path_Clean_rooted_path [OF all] rooted_path_append [OF cs(1) False]
      by (simp add: path_Join_def) (simp add: rooted_path_def)
    have pre: "HasPrefix (rooted_path (cs @ ds)) (rooted_path cs @ ''/'')"
      by (simp add: rooted_path_append cs False HasPrefix_iff)
    show ?thesis
      using rel clean dot pre path_Clean_rooted_path [OF all] unfolding resolveFileRef_def Let_def base
      by (simp add: TrimPrefix_rooted join)
  qed
qed

definition digest_ok :: "ledger_env \<Rightarrow> bool" where
  "digest_ok env \<longleftrightarrow> (\<forall>k. list_all (\<lambda>c. c \<in> set ''0123456789abcdef'') (le_sha256hex env k))"

definition event_file_name :: "ledger_env \<Rightarrow> string \<Rightarrow> string" where
  "event_file_name env sid =
     le_sha256hex env (if TrimSpace sid = [] then ''_system'' else TrimSpace sid) @ ''.events''"

lemma event_file_name_plain: "digest_ok env \<Longrightarrow> plain_comp (event_file_name env sid)"
  by (auto simp: digest_ok_def event_file_name_def plain_comp_def list_all_iff)

lemma sessionEventFileRef_eq:
  assumes "digest_ok env"
  shows "sessionEventFileRef env sid = ''session-events/'' @ event_file_name env sid"
proof -
  let ?cs = "[''session-events'', event_file_name env sid]"
  have plain: "\<forall>c \<in> set ?cs. plain_comp c" using event_file_name_plain [OF assms] by (simp add: plain_comp_def)
  have parts: "split_on (CHR ''/'') (join_with ''/'' ?cs) = ?cs"
    using plain by (intro split_on_join) (auto simp: plain_comp_def)
  have "path_Join ?cs = join_with ''/'' ?cs"
    using clean_comps_plain [OF plain, of False "[]"] parts plain
    by (simp add: path_Join_def path_Clean_def IsAbs_def HasPrefix_def plain_comp_def)
  then show ?thesis by (simp add: sessionEventFileRef_def Let_def event_file_name_def)
qed

definition event_path :: "ledger_env \<Rightarrow> string list \<Rightarrow> string \<Rightarrow> string" where
  "event_path env cs sid = rooted_path (cs @ [''session-events'', event_file_name env sid])"

lemma resolve_session:
  assumes "ledger_root (le_path env) cs" and "digest_ok env"
  shows "resolveFileRef (le_path env) (sessionEventFileRef env sid) = Inr (event_path env cs sid)"
proof -
  let ?ds = "[''session-events'', event_file_name env sid]"
  let ?ref = "''session-events/'' @ event_file_name env sid"
  have plain: "\<forall>c \<in> set ?ds. plain_comp c" using event_file_name_plain [OF assms(2)] by (simp add: plain_comp_def)
  have "plain_ends ?ref" by (simp add: plain_ends_def event_file_name_def ascii_space_def)
  then have trim: "TrimSpace ?ref = ?ref" by (rule TrimSpace_plain)
  have "path_Clean (''/'' @ ?ref) = rooted_path ?ds"
    using path_Clean_rooted_path [OF plain] by (simp add: rooted_path_def)
  then show ?thesis
    using resolveFileRef_rooted [OF assms(1) _ plain, of ?ref] trim
    by (simp add: sessionEventFileRef_eq [OF assms(2)] event_path_def IsAbs_def HasPrefix_def)
qed

section \<open>Reading back\<close>

definition codec_ok :: "ledger_env \<Rightarrow> StoredEvent \<Rightarrow> bool" where
  "codec_ok env e \<longleftrightarrow> (\<forall>s. le_marshal env e = Some s \<longrightarrow> le_unmarshal env s = Some e \<and> length s < 2 ^ 63)"

definition files_grow :: "string go_map \<Rightarrow> string go_map \<Rightarrow> bool" where
  "files_grow f f' \<longleftrightarrow> (\<forall>p c. go_lookup f p = Some c \<longrightarrow> (\<exists>t. go_lookup f' p = Some (c @ t)))"

lemma files_grow_refl [simp]: "files_grow f f"
  by (auto simp: files_grow_def)

lemma readEventFrame_grow:
  assumes "files_grow f f'" and "readEventFrame env f row = Inr e"
  shows "readEventFrame env f' row = Inr e"
proof -
  from assms(2) obtain p c frame where p: "resolveFileRef (le_path env) (er_FileRef row) = Inr p" "go_lookup f p = Some c"
    "ReadAt c (er_FrameOffset row) (er_FrameBytes row) = Some frame"
    unfolding readEventFrame_def Let_def by (auto split: if_splits sum.splits option.splits)
  from assms(1) p(2) obtain t where t: "go_lookup f' p = Some (c @ t)" unfolding files_grow_def by blast
  from assms(2) p t ReadAt_append [OF p(3), of t] show ?thesis
    unfolding readEventFrame_def Let_def by (simp split: if_splits option.splits)
qed

lemma readEventFrame_id: "readEventFrame env f row = Inr e \<Longrightarrow> ev_EventID e = er_EventID row"
  unfolding readEventFrame_def Let_def by (auto split: if_splits sum.splits option.splits)

lemma readEventFrame_new:
  assumes p: "resolveFileRef (le_path env) ref = Inr p" and c: "go_lookup files p = Some (c @ event_frame s)"
    and e: "le_unmarshal env s = Some e" and len: "length s < 2 ^ 63"
  shows "readEventFrame env files (event_row env ref (int (length c)) s e) = Inr e"
proof -
  have "ReadAt (c @ event_frame s) (int (length c)) (int (8 + length s)) = Some (event_frame s)"
    by (simp add: ReadAt_def nat_add_distrib)
  moreover have "Uint64 (take 8 (event_frame s)) = length s" "drop 8 (event_frame s) = s"
    using len by (simp_all add: event_frame_def)
  ultimately show ?thesis
    using p c e len by (simp add: readEventFrame_def event_row_def ledgerFrameHeaderBytes_def int_of_uint64_def)
qed

lemma appendEventFrameLocked_spec:
  assumes "appendEventFrameLocked fault path ref s files = (r, files')"
  shows "files_grow files files'"
    and "r = Inr (off, n) \<Longrightarrow> \<exists>p c. resolveFileRef path ref = Inr p \<and> go_lookup files' p = Some (c @ event_frame s) \<and>
      off = int (length c) \<and> n = int (8 + length s)"
proof -
  show "files_grow files files'"
    using assms unfolding appendEventFrameLocked_def Let_def files_grow_def
    by (auto split: sum.splits option.splits io_fault.splits)
  show "\<exists>p c. resolveFileRef path ref = Inr p \<and> go_lookup files' p = Some (c @ event_frame s) \<and>
      off = int (length c) \<and> n = int (8 + length s)" if "r = Inr (off, n)"
    using assms that unfolding appendEventFrameLocked_def Let_def
    by (auto split: sum.splits option.splits io_fault.splits)
qed

section \<open>An opened ledger\<close>

definition stored_events :: "SQLiteLedger \<Rightarrow> StoredEvent list" where
  "stored_events l = map (\<lambda>ix. projr (readEventFrame (sq_env l) (sq_files l) (ix_row ix))) (sq_index l)"

definition row_ok :: "ledger_env \<Rightarrow> string go_map \<Rightarrow> index_row \<Rightarrow> bool" where
  "row_ok env files ix \<longleftrightarrow> (\<exists>e. readEventFrame env files (ix_row ix) = Inr e \<and> ix_created ix = UnixNano (ev_CreatedAt e))"

definition sq_ok :: "ledger_env \<Rightarrow> SQLiteLedger \<Rightarrow> bool" where
  "sq_ok env l \<longleftrightarrow> sq_env l = env \<and> sq_indexRebuilt l \<and> (\<forall>ix \<in> set (sq_index l). row_ok env (sq_files l) ix)"

lemma row_ok_grow: "files_grow f f' \<Longrightarrow> row_ok env f ix \<Longrightarrow> row_ok env f' ix"
  using readEventFrame_grow unfolding row_ok_def by blast

lemma stored_events_grow:
  assumes "sq_ok env l" and "files_grow (sq_files l) (sq_files l')" and "sq_env l' = env" and "sq_index l' = sq_index l"
  shows "stored_events l' = stored_events l"
  unfolding stored_events_def assms(4)
proof (rule map_cong [OF refl])
  fix ix assume "ix \<in> set (sq_index l)"
  with assms(1) obtain e where "readEventFrame env (sq_files l) (ix_row ix) = Inr e" by (auto simp: sq_ok_def row_ok_def)
  with readEventFrame_grow [OF assms(2) this] assms(1,3) show
    "projr (readEventFrame (sq_env l') (sq_files l') (ix_row ix)) = projr (readEventFrame (sq_env l) (sq_files l) (ix_row ix))"
    by (simp add: sq_ok_def)
qed

lemma sqlite_Append_cases:
  assumes ok: "sq_ok env l" and app: "sqlite_Append e l = (r, l')"
  obtains err where "r = Some err" and "files_grow (sq_files l) (sq_files l')" and "sq_env l' = env"
      and "sq_index l' = sq_index l" and "sq_indexRebuilt l'"
  | s ref off where "r = None" and "files_grow (sq_files l) (sq_files l')" and "sq_env l' = env" and "sq_indexRebuilt l'"
      and "le_marshal env e = Some s" and "\<not> list_ex (\<lambda>ix. er_EventID (ix_row ix) = ev_EventID e) (sq_index l)"
      and "sq_index l' = sq_index l @ [index_entry (event_row env ref off s e) e]"
      and "\<exists>p c. resolveFileRef (le_path env) ref = Inr p \<and> go_lookup (sq_files l') p = Some (c @ event_frame s) \<and> off = int (length c)"
proof -
  define l1 where "l1 = l\<lparr>sq_attempts := Suc (sq_attempts l)\<rparr>"
  define fault where "fault = sq_append_fault l (sq_attempts l)"
  have l1: "sq_files l1 = sq_files l" "sq_env l1 = env" "sq_index l1 = sq_index l" "sq_indexRebuilt l1"
    using ok by (simp_all add: l1_def sq_ok_def)
  have opn: "snd (openDBLocked f l1) = l1" for f
    using l1(4) by (simp add: openDBLocked_def split: option.splits)
  show thesis
  proof (cases "fst (openDBLocked (open_fault fault) l1)")
    case (Some err)
    with opn have "openDBLocked (open_fault fault) l1 = (Some err, l1)" by (metis prod.collapse)
    with app have "r = Some err" "l' = l1" by (auto simp: sqlite_Append_def Let_def fault_def l1_def)
    with l1 that(1) show thesis by simp
  next
    case None
    with opn have o: "openDBLocked (open_fault fault) l1 = (None, l1)" by (metis prod.collapse)
    show thesis
    proof (cases "le_marshal env e")
      case None
      with o app l1 have "r = Some (errors_New ''json: unsupported value'')" "l' = l1"
        by (auto simp: sqlite_Append_def Let_def fault_def l1_def)
      with l1 that(1) show thesis by simp
    next
      case (Some s)
      define ref where "ref = sessionEventFileRef env (ev_SessionID e)"
      obtain r1 files where a: "appendEventFrameLocked fault (le_path env) ref s (sq_files l) = (r1, files)" by fastforce
      note grow = appendEventFrameLocked_spec(1) [OF a]
      show thesis
      proof (cases r1)
        case (Inl err)
        with o app l1 Some a have "r = Some err" "l' = l1\<lparr>sq_files := files\<rparr>"
          by (auto simp: sqlite_Append_def Let_def fault_def l1_def ref_def)
        with l1 grow that(1) show thesis by simp
      next
        case (Inr on)
        obtain off n where on: "on = (off, n)" by fastforce
        from appendEventFrameLocked_spec(2) [OF a, of off n] Inr on obtain p c where
          pc: "resolveFileRef (le_path env) ref = Inr p" "go_lookup files p = Some (c @ event_frame s)" "off = int (length c)" "n = int (8 + length s)"
          by blast
        have row: "(event_row env ref off s e)\<lparr>er_FrameBytes := n\<rparr> = event_row env ref off s e"
          by (simp add: event_row_def pc(4) ledgerFrameHeaderBytes_def)
        have "(\<exists>err. r = Some err \<and> l' = l1\<lparr>sq_files := files\<rparr>) \<or>
          r = None \<and> \<not> list_ex (\<lambda>ix. er_EventID (ix_row ix) = ev_EventID e) (sq_index l) \<and>
          l' = l1\<lparr>sq_files := files, sq_index := sq_index l @ [index_entry (event_row env ref off s e) e],
            sq_sessions := upsertSQLiteSessionFromEvent e (sq_sessions l)\<rparr>"
          using o app l1 Some a Inr on row
          by (auto simp: sqlite_Append_def Let_def fault_def l1_def ref_def split: option.splits io_fault.splits if_splits)
        then show thesis
        proof (elim disjE exE conjE)
          fix err assume "r = Some err" "l' = l1\<lparr>sq_files := files\<rparr>"
          with l1 grow that(1) show thesis by simp
        next
          assume "r = None" "\<not> list_ex (\<lambda>ix. er_EventID (ix_row ix) = ev_EventID e) (sq_index l)"
            "l' = l1\<lparr>sq_files := files, sq_index := sq_index l @ [index_entry (event_row env ref off s e) e],
              sq_sessions := upsertSQLiteSessionFromEvent e (sq_sessions l)\<rparr>"
          with l1 grow Some pc that(2) [of s ref off] show thesis by simp
        qed
      qed
    qed
  qed
qed

lemma index_ids: "sq_ok env l \<Longrightarrow> ev_EventID ` set (stored_events l) = (\<lambda>ix. er_EventID (ix_row ix)) ` set (sq_index l)"
  unfolding stored_events_def set_map image_image
  by (rule image_cong [OF refl]) (use readEventFrame_id in \<open>fastforce simp: sq_ok_def row_ok_def\<close>)

lemma sqlite_Append_done:
  assumes ok: "sq_ok env l" and adm: "codec_ok env e" and app: "sqlite_Append e l = (r, l')"
  shows "sq_ok env l' \<and> (r = None \<longrightarrow> stored_events l' = stored_events l @ [e])"
  using ok app
proof (cases rule: sqlite_Append_cases)
  case (1 err)
  with ok row_ok_grow show ?thesis by (auto simp: sq_ok_def)
next
  case (2 s ref off)
  then obtain p c where p: "resolveFileRef (le_path env) ref = Inr p" "go_lookup (sq_files l') p = Some (c @ event_frame s)" "off = int (length c)"
    by blast
  have s: "le_unmarshal env s = Some e" "length s < 2 ^ 63" using adm 2(5) by (auto simp: codec_ok_def)
  have read: "readEventFrame env (sq_files l') (event_row env ref off s e) = Inr e"
    unfolding p(3) by (rule readEventFrame_new [OF p(1,2) s])
  define l1 where "l1 = l'\<lparr>sq_index := sq_index l\<rparr>"
  have "stored_events l1 = stored_events l"
    using 2 by (intro stored_events_grow [OF ok]) (simp_all add: l1_def)
  moreover have "stored_events l' = stored_events l1 @ [e]"
    using 2 read by (simp add: stored_events_def l1_def index_entry_def)
  moreover have "sq_ok env l'"
    using ok 2 read row_ok_grow [OF 2(2)] by (auto simp: sq_ok_def row_ok_def index_entry_def)
  ultimately show ?thesis by simp
qed

lemma sort_key_order:
  assumes "\<And>x y. f x \<le> f y \<longleftrightarrow> g x \<le> (g y :: int)"
  shows "sort_key f xs = sort_key (g :: 'a \<Rightarrow> int) xs"
proof -
  have "insort_key f x ys = insort_key g x ys" for x ys by (induction ys) (simp_all add: assms)
  then show ?thesis by (induction xs) simp_all
qed

lemma map_sort_key: "map h (sort_key (\<lambda>x. g (h x)) xs) = sort_key g (map h xs)"
proof -
  have "map h (insort_key (\<lambda>x. g (h x)) x ys) = insort_key g (h x) (map h ys)" for x ys by (induction ys) auto
  then show ?thesis by (induction xs) simp_all
qed

lemma sort_key_cong_set: "(\<And>x. x \<in> set xs \<Longrightarrow> f x = g x) \<Longrightarrow> sort_key f xs = sort_key g xs"
proof (induction xs)
  case (Cons x xs)
  have "insort_key f x ys = insort_key g x ys" if "set ys \<subseteq> set (x # xs)" for ys
    using that Cons.prems by (induction ys) auto
  moreover have "set (sort_key g xs) \<subseteq> set (x # xs)" by auto
  ultimately show ?case using Cons by (simp del: set_sort)
qed simp

lemma read_rows_eq:
  "\<forall>ix \<in> set ixs. row_ok env files ix \<Longrightarrow>
   read_rows env files ixs = Inr (map (\<lambda>ix. projr (readEventFrame env files (ix_row ix))) ixs)"
  by (induction ixs) (auto simp: row_ok_def)

lemma read_sorted:
  assumes ok: "sq_ok env l"
  shows "read_rows (sq_env l) (sq_files l) (sort_key ix_created (sq_index l)) = Inr (sort_key ev_CreatedAt (stored_events l))"
proof -
  let ?ev = "\<lambda>ix. projr (readEventFrame env (sq_files l) (ix_row ix))"
  have env: "sq_env l = env" and rows: "\<forall>ix \<in> set (sq_index l). row_ok env (sq_files l) ix"
    using ok by (simp_all add: sq_ok_def)
  have "sort_key ix_created (sq_index l) = sort_key (\<lambda>ix. UnixNano (ev_CreatedAt (?ev ix))) (sq_index l)"
    using rows by (intro sort_key_cong_set) (auto simp: row_ok_def)
  also have "\<dots> = sort_key (\<lambda>ix. ev_CreatedAt (?ev ix)) (sq_index l)"
    by (rule sort_key_order) (simp add: UnixNano_def)
  finally have "map ?ev (sort_key ix_created (sq_index l)) = sort_key ev_CreatedAt (stored_events l)"
    using map_sort_key [of ?ev ev_CreatedAt "sq_index l"] by (simp add: stored_events_def env)
  moreover have "read_rows env (sq_files l) (sort_key ix_created (sq_index l)) = Inr (map ?ev (sort_key ix_created (sq_index l)))"
    using rows by (intro read_rows_eq) auto
  ultimately show ?thesis by (simp add: env)
qed

lemma sqlite_Load_eq:
  assumes ok: "sq_ok env l"
  shows "sqlite_Load l = (case fst (openDBLocked (sq_load_fault l (sq_attempts l)) l) of
      Some err \<Rightarrow> Inl err | None \<Rightarrow> Inr (sort_key ev_CreatedAt (stored_events l)), l)"
proof -
  have opn: "snd (openDBLocked f l) = l" for f using ok by (simp add: sq_ok_def openDBLocked_def split: option.splits)
  show ?thesis
    using opn read_sorted [OF ok] by (auto simp: sqlite_Load_def loadLocked_def split: prod.splits option.splits) (metis snd_conv)+
qed

interpretation sq: stored_event_ledger sqlite_Append "\<lambda>l. fst (sqlite_Load l)" stored_events "sq_ok env" "codec_ok env" for env
proof
  show "sq_ok env l'" if "sq_ok env l" "codec_ok env e" "sqlite_Append e l = (r, l')" for l e r l'
    using sqlite_Append_done [OF that] by simp
  show "stored_events l' = stored_events l" if "sq_ok env l" "sqlite_Append e l = (Some err, l')" for l e err l'
    using that by (cases rule: sqlite_Append_cases) (auto intro: stored_events_grow [OF that(1)])
  show "stored_events l' = stored_events l @ [e]" if "sq_ok env l" "codec_ok env e" "sqlite_Append e l = (None, l')" for l e l'
    using sqlite_Append_done [OF that] by simp
  show "es = sort_key ev_CreatedAt (stored_events l)" if "sq_ok env l" "fst (sqlite_Load l) = Inr es" for l es
    using that by (simp add: sqlite_Load_eq split: option.splits)
  show "ev_EventID e \<notin> ev_EventID ` set (stored_events l)" if "sq_ok env l" "sqlite_Append e l = (None, l')" for l e l'
    unfolding index_ids [OF that(1)] using that by (cases rule: sqlite_Append_cases) (auto simp: list_ex_iff)
qed

end
