(* ===== verification/Sqlite_Ledger_Recovery.thy ===== *)
theory Sqlite_Ledger_Recovery
  imports Sqlite_Ledger_Correct
begin

text \<open>
  What a restart makes of the frame files: which events the rebuilt index holds, and the
  properties of the ledger on disk.
\<close>

section \<open>Frames of a file\<close>

definition event_body :: "ledger_env \<Rightarrow> StoredEvent \<Rightarrow> string" where
  "event_body env e = the (le_marshal env e)"

text \<open>An event whose frame can be read back after a restart.\<close>

definition writable :: "ledger_env \<Rightarrow> StoredEvent \<Rightarrow> bool" where
  "writable env e \<longleftrightarrow> le_marshal env e \<noteq> None \<and> le_unmarshal env (event_body env e) = Some e \<and>
     event_body env e \<noteq> [] \<and> length (event_body env e) \<le> sqliteLedgerMaxFrameBodyBytes \<and> ev_EventID e \<noteq> []"

definition frames :: "ledger_env \<Rightarrow> StoredEvent list \<Rightarrow> string" where
  "frames env es = concat (map (\<lambda>e. event_frame (event_body env e)) es)"

definition file_entry :: "ledger_env \<Rightarrow> string \<Rightarrow> nat \<Rightarrow> StoredEvent \<Rightarrow> index_row" where
  "file_entry env ref off e = index_entry (event_row env ref (int off) (event_body env e) e) e"

fun file_entries :: "ledger_env \<Rightarrow> string \<Rightarrow> nat \<Rightarrow> StoredEvent list \<Rightarrow> index_row list" where
  "file_entries env ref off [] = []"
| "file_entries env ref off (e # es) =
     file_entry env ref off e # file_entries env ref (off + 8 + length (event_body env e)) es"

lemma file_entries_append:
  "file_entries env ref off (es @ fs) = file_entries env ref off es @ file_entries env ref (off + length (frames env es)) fs"
  by (induction es arbitrary: off) (simp_all add: frames_def add.assoc)

abbreviation row_id :: "index_row \<Rightarrow> string" where
  "row_id ix \<equiv> er_EventID (ix_row ix)"

lemma file_entries_ids: "map row_id (file_entries env ref off es) = map ev_EventID es"
  by (induction es arbitrary: off) (simp_all add: file_entry_def index_entry_def event_row_def)

text \<open>The table with the entries it does not have yet.\<close>

fun add_new :: "index_row list \<Rightarrow> index_row list \<Rightarrow> index_row list" where
  "add_new idx [] = idx"
| "add_new idx (x # xs) = add_new (if x \<in> set idx then idx else idx @ [x]) xs"

lemma set_add_new: "set (add_new idx xs) = set idx \<union> set xs"
  by (induction idx xs rule: add_new.induct) auto

lemma distinct_add_new: "distinct idx \<Longrightarrow> distinct (add_new idx xs)"
  by (induction idx xs rule: add_new.induct) auto

lemma add_new_append: "add_new idx (xs @ ys) = add_new (add_new idx xs) ys"
  by (induction idx xs rule: add_new.induct) auto

lemma reconcile_row:
  assumes "inj_on row_id A" and "set (fst t) \<subseteq> A" and "file_entry env ref off e \<in> A"
  shows "reconcileSQLiteEventRow (event_row env ref (int off) (event_body env e) e) e t =
    Inr (add_new (fst t) [file_entry env ref off e], upsertSQLiteSessionFromEvent e (snd t))"
proof -
  let ?x = "file_entry env ref off e"
  have row: "event_row env ref (int off) (event_body env e) e = ix_row ?x" by (simp add: file_entry_def index_entry_def)
  show ?thesis
  proof (cases "find (\<lambda>ix. row_id ix = row_id ?x) (fst t)")
    case None
    have "?x \<notin> set (fst t)" using find_NoneD [OF None] by blast
    with None show ?thesis unfolding reconcileSQLiteEventRow_def row by (simp add: file_entry_def index_entry_def)
  next
    case (Some y)
    from find_SomeD [OF this] have "y \<in> set (fst t)" "row_id y = row_id ?x" by simp_all
    moreover from this assms have "y = ?x" by (meson inj_onD subsetD)
    ultimately show ?thesis using Some unfolding reconcileSQLiteEventRow_def row by simp
  qed
qed

lemma reconcile_frames_prefix:
  assumes "inj_on row_id A" and "\<forall>e \<in> set es. writable env e \<and> sessionEventFileRef env (ev_SessionID e) = ref"
    and "set (file_entries env ref off es) \<subseteq> A" and "set (fst t) \<subseteq> A"
  shows "\<exists>ss. reconcile_frames env ref off (frames env es @ rest) t =
    reconcile_frames env ref (off + length (frames env es)) rest (add_new (fst t) (file_entries env ref off es), ss)"
  using assms(2-4)
proof (induction es arbitrary: off t)
  case Nil
  then show ?case by (simp add: frames_def) (metis prod.collapse)
next
  case (Cons e es)
  define s where "s = event_body env e"
  have w: "le_unmarshal env s = Some e" "s \<noteq> []" "length s \<le> sqliteLedgerMaxFrameBodyBytes" "ev_EventID e \<noteq> []"
    "sessionEventFileRef env (ev_SessionID e) = ref"
    using Cons.prems(1) by (simp_all add: writable_def s_def)
  have fr: "frames env (e # es) @ rest = PutUint64 (length s) @ s @ (frames env es @ rest)"
    using w(3) by (simp add: frames_def event_frame_def s_def sqliteLedgerMaxFrameBodyBytes_def)
  define t' where "t' = (add_new (fst t) [file_entry env ref off e], upsertSQLiteSessionFromEvent e (snd t))"
  have row: "reconcileSQLiteEventRow (event_row env ref (int off) s e) e t = Inr t'"
    using reconcile_row [OF assms(1) Cons.prems(3), of env ref off e] Cons.prems(2) by (simp add: s_def t'_def)
  have "reconcile_frames env ref off (frames env (e # es) @ rest) t =
      reconcile_frames env ref (off + 8 + length s) (frames env es @ rest) t'"
    using w row unfolding fr
    by (subst reconcile_frames.simps)
      (simp add: ledgerFrameHeaderBytes_def sqliteLedgerMaxFrameBodyBytes_def Let_def)
  moreover have "set (fst t') \<subseteq> A" using Cons.prems(2,3) by (auto simp: t'_def)
  then obtain ss where "reconcile_frames env ref (off + 8 + length s) (frames env es @ rest) t' =
      reconcile_frames env ref (off + 8 + length s + length (frames env es)) rest
        (add_new (fst t') (file_entries env ref (off + 8 + length s) es), ss)"
    using Cons.IH [of "off + 8 + length s" t'] Cons.prems by (auto simp: s_def)
  ultimately show ?case by (intro exI [of _ ss]) (simp add: t'_def s_def frames_def add.assoc)
qed

lemma reconcile_frames_ok:
  assumes "inj_on row_id A" and "\<forall>e \<in> set es. writable env e \<and> sessionEventFileRef env (ev_SessionID e) = ref"
    and "set (file_entries env ref off es) \<subseteq> A" and "set (fst t) \<subseteq> A"
  shows "\<exists>ss. reconcile_frames env ref off (frames env es) t = Inr (add_new (fst t) (file_entries env ref off es), ss)"
  using reconcile_frames_prefix [OF assms, of "[]"] reconcile_frames.simps [of env ref _ "[]"] by auto

text \<open>The entries of a file are read back as its events.\<close>

definition reads :: "ledger_env \<Rightarrow> string go_map \<Rightarrow> index_row \<Rightarrow> StoredEvent \<Rightarrow> bool" where
  "reads env files x e \<longleftrightarrow> readEventFrame env files (ix_row x) = Inr e \<and> ix_created x = UnixNano (ev_CreatedAt e)"

lemma file_entries_read:
  assumes "resolveFileRef (le_path env) ref = Inr p" and "\<forall>e \<in> set es. writable env e"
    and "go_lookup files p = Some (frames env es @ rest)"
  shows "list_all2 (reads env files) (file_entries env ref 0 es) es"
  using assms(2,3)
proof (induction es arbitrary: rest rule: rev_induct)
  case (snoc e es)
  define s where "s = event_body env e"
  have content: "frames env (es @ [e]) @ rest = frames env es @ (event_frame s @ rest)" by (simp add: frames_def s_def)
  have "list_all2 (reads env files) (file_entries env ref 0 es) es"
    using snoc.IH [of "event_frame s @ rest"] snoc.prems content by simp
  moreover have s: "le_unmarshal env s = Some e" "length s < 2 ^ 63"
    using snoc.prems by (auto simp: writable_def s_def sqliteLedgerMaxFrameBodyBytes_def)
  have "files_grow [(p, frames env es @ event_frame s)] files"
    using snoc.prems(2) unfolding content by (auto simp: files_grow_def)
  then have "readEventFrame env files (event_row env ref (int (length (frames env es))) s e) = Inr e"
    by (rule readEventFrame_grow) (rule readEventFrame_new [OF assms(1) _ s], simp)
  then have "reads env files (file_entry env ref (length (frames env es)) e) e"
    by (simp add: reads_def file_entry_def index_entry_def s_def)
  ultimately show ?case by (simp add: file_entries_append list_all2_appendI)
qed simp

section \<open>The files of a ledger\<close>

definition ref_of :: "ledger_env \<Rightarrow> string \<Rightarrow> string" where
  "ref_of env p = drop (length (path_Dir (le_path env)) + 1) p"

text \<open>\<open>L p\<close> are the events whose frames were written to the file \<open>p\<close>.\<close>

definition disk_ok :: "ledger_env \<Rightarrow> string list \<Rightarrow> string go_map \<Rightarrow> (string \<Rightarrow> StoredEvent list) \<Rightarrow> bool" where
  "disk_ok env cs files L \<longleftrightarrow> distinct (map fst files) \<and>
     (\<forall>p c. go_lookup files p = Some c \<longrightarrow> (\<exists>sid. p = event_path env cs sid) \<and> c = frames env (L p)) \<and>
     (\<forall>p. go_lookup files p = None \<longrightarrow> L p = []) \<and>
     (\<forall>p. \<forall>e \<in> set (L p). writable env e \<and> event_path env cs (ev_SessionID e) = p)"

definition disk_events :: "string go_map \<Rightarrow> (string \<Rightarrow> StoredEvent list) \<Rightarrow> StoredEvent list" where
  "disk_events files L = concat (map (\<lambda>(p, c). L p) files)"

definition disk_entries :: "ledger_env \<Rightarrow> string go_map \<Rightarrow> (string \<Rightarrow> StoredEvent list) \<Rightarrow> index_row list" where
  "disk_entries env files L = concat (map (\<lambda>(p, c). file_entries env (ref_of env p) 0 (L p)) files)"

lemma ref_of_event_path:
  assumes "ledger_root (le_path env) cs" and "digest_ok env"
  shows "ref_of env (event_path env cs sid) = sessionEventFileRef env sid"
proof -
  have cs: "cs \<noteq> []" and dir: "path_Dir (le_path env) = rooted_path cs" using assms(1) by (simp_all add: ledger_root_def)
  have "event_path env cs sid = rooted_path cs @ ''/'' @ ''session-events/'' @ event_file_name env sid"
    using rooted_path_append [OF cs, of "[''session-events'', event_file_name env sid]"] by (simp add: event_path_def)
  then show ?thesis by (simp add: ref_of_def dir sessionEventFileRef_eq [OF assms(2)])
qed

lemma event_path_in_dir:
  assumes "ledger_root (le_path env) cs"
  shows "HasPrefix (event_path env cs sid) (eventFilesDir (le_path env) @ ''/'')"
proof -
  have cs: "cs \<noteq> []" "\<forall>c \<in> set cs. plain_comp c" and dir: "path_Dir (le_path env) = rooted_path cs"
    using assms by (simp_all add: ledger_root_def)
  have plain: "\<forall>c \<in> set (cs @ [''session-events'']). plain_comp c" using cs by (auto simp: plain_comp_def)
  have "path_Join [rooted_path cs, ''session-events''] = rooted_path (cs @ [''session-events''])"
    using path_Clean_rooted_path [OF plain] rooted_path_append [OF cs(1), of "[''session-events'']"]
    by (simp add: path_Join_def) (simp add: rooted_path_def)
  moreover have "event_path env cs sid = rooted_path (cs @ [''session-events'']) @ ''/'' @ event_file_name env sid"
    using rooted_path_append [of "cs @ [''session-events'']" "[event_file_name env sid]"] by (simp add: event_path_def)
  ultimately show ?thesis by (simp add: eventFilesDir_def dir HasPrefix_iff)
qed

lemma disk_entries_ids: "map row_id (disk_entries env files L) = map ev_EventID (disk_events files L)"
  by (induction files) (auto simp: disk_entries_def disk_events_def file_entries_ids)

lemma disk_entries_inj:
  assumes "distinct (map ev_EventID (disk_events files L))"
  shows "distinct (disk_entries env files L)" and "inj_on row_id (set (disk_entries env files L))"
  using assms unfolding disk_entries_ids [of env, symmetric] by (simp_all add: distinct_map)

lemma set_disk_entries:
  "set (disk_entries env files L) = (\<Union>p \<in> fst ` set files. set (file_entries env (ref_of env p) 0 (L p)))"
  by (auto simp: disk_entries_def)

lemma disk_entries_read:
  assumes root: "ledger_root (le_path env) cs" "digest_ok env" and disk: "disk_ok env cs files L"
  shows "list_all2 (reads env files) (disk_entries env files L) (disk_events files L)"
proof -
  have "list_all2 (reads env files) (file_entries env (ref_of env p) 0 (L p)) (L p)" if "(p, c) \<in> set files" for p c
  proof -
    have look: "go_lookup files p = Some c" using that disk by (simp add: disk_ok_def)
    with disk obtain sid where p: "p = event_path env cs sid" "c = frames env (L p)" unfolding disk_ok_def by blast
    have "resolveFileRef (le_path env) (ref_of env p) = Inr p"
      unfolding p(1) ref_of_event_path [OF root] by (rule resolve_session [OF root])
    moreover have "\<forall>e \<in> set (L p). writable env e" using disk unfolding disk_ok_def by blast
    moreover have "go_lookup files p = Some (frames env (L p) @ [])" using look p(2) by simp
    ultimately show ?thesis by (rule file_entries_read)
  qed
  moreover have "list_all2 (reads env files) (concat (map F fs)) (concat (map G fs))"
    if "\<And>x. x \<in> set fs \<Longrightarrow> list_all2 (reads env files) (F x) (G x)" for F G and fs :: "(string \<times> string) list"
    using that by (induction fs) (simp_all add: list_all2_appendI)
  ultimately show ?thesis unfolding disk_entries_def disk_events_def by (auto simp: split_beta)
qed

text \<open>One file of the ledger is processed, whatever follows its frames.\<close>

lemma reconcile_file:
  assumes root: "ledger_root (le_path env) cs" "digest_ok env" and disk: "disk_ok env cs files L"
    and inj: "inj_on row_id A" "set (disk_entries env files L) \<subseteq> A" and p: "p = event_path env cs sid" and t: "set (fst t) \<subseteq> A"
  defines "idx \<equiv> add_new (fst t) (file_entries env (ref_of env p) 0 (L p))"
  shows "HasPrefix (ref_of env p) ''session-events/''" and "set idx \<subseteq> A"
    and "\<exists>ss. reconcile_frames env (ref_of env p) 0 (frames env (L p) @ rest) t =
      reconcile_frames env (ref_of env p) (length (frames env (L p))) rest (idx, ss)"
proof -
  have ref: "ref_of env p = sessionEventFileRef env sid" by (simp add: p ref_of_event_path [OF root])
  show "HasPrefix (ref_of env p) ''session-events/''" by (simp add: ref sessionEventFileRef_eq [OF root(2)] HasPrefix_def)
  have evs: "\<forall>e \<in> set (L p). writable env e \<and> sessionEventFileRef env (ev_SessionID e) = ref_of env p"
  proof
    fix e assume "e \<in> set (L p)"
    with disk have "writable env e" "event_path env cs (ev_SessionID e) = p" unfolding disk_ok_def by blast+
    with ref_of_event_path [OF root, of "ev_SessionID e"] show "writable env e \<and> sessionEventFileRef env (ev_SessionID e) = ref_of env p"
      by simp
  qed
  have sub: "set (file_entries env (ref_of env p) 0 (L p)) \<subseteq> A"
  proof (cases "p \<in> fst ` set files")
    case True
    with inj(2) show ?thesis unfolding set_disk_entries by force
  next
    case False
    then have "L p = []" using disk by (auto simp: disk_ok_def map_of_eq_None_iff)
    then show ?thesis by simp
  qed
  with t show "set idx \<subseteq> A" by (simp add: set_add_new idx_def)
  from reconcile_frames_prefix [OF inj(1) evs sub t] show "\<exists>ss. reconcile_frames env (ref_of env p) 0 (frames env (L p) @ rest) t =
      reconcile_frames env (ref_of env p) (length (frames env (L p))) rest (idx, ss)" by (simp add: idx_def)
qed

lemma disk_file:
  assumes "disk_ok env cs files L" and "(p, c) \<in> set files"
  obtains sid where "p = event_path env cs sid" and "c = frames env (L p)"
proof -
  have "go_lookup files p = Some c" using assms by (simp add: disk_ok_def)
  with assms(1) that show thesis unfolding disk_ok_def by blast
qed

lemma reconcile_files_ok:
  assumes root: "ledger_root (le_path env) cs" "digest_ok env" and disk: "disk_ok env cs files L"
    and inj: "inj_on row_id A" "set (disk_entries env files L) \<subseteq> A"
    and fs: "set fs \<subseteq> set files" and t: "set (fst t) \<subseteq> A"
  shows "\<exists>ss. reconcile_files env (map (\<lambda>(p, c). (ref_of env p, c)) fs) t =
    Inr (add_new (fst t) (concat (map (\<lambda>(p, c). file_entries env (ref_of env p) 0 (L p)) fs)), ss)"
  using fs t
proof (induction fs arbitrary: t)
  case Nil
  then show ?case by simp (metis prod.collapse)
next
  case (Cons pc fs)
  obtain p c where pc: "pc = (p, c)" by fastforce
  then obtain sid where p: "p = event_path env cs sid" and c: "c = frames env (L p)"
    using Cons.prems(1) disk_file [OF disk, of p c] by auto
  note one = reconcile_file [OF root disk inj p Cons.prems(2)]
  from one(3) [of "[]"] obtain ss where
    r: "reconcile_frames env (ref_of env p) 0 c t = Inr (add_new (fst t) (file_entries env (ref_of env p) 0 (L p)), ss)"
    unfolding c by (auto simp: reconcile_frames.simps [of env _ _ "[]"])
  from Cons.IH [of "(add_new (fst t) (file_entries env (ref_of env p) 0 (L p)), ss)"] one(1,2) Cons.prems(1) r
  show ?case by (simp add: pc reconcileSQLiteEventFileLocked_def add_new_append)
qed

text \<open>Bytes after the frames of one file that are no frame stop the rebuilding.\<close>

lemma reconcile_files_bad:
  assumes root: "ledger_root (le_path env) cs" "digest_ok env" and disk: "disk_ok env cs files L"
    and inj: "inj_on row_id A" "set (disk_entries env files L) \<subseteq> A"
    and fs: "(q, frames env (L q) @ bad) \<in> set fs" "set fs \<subseteq> insert (q, frames env (L q) @ bad) (set files)"
    and q: "q = event_path env cs qid" and t: "set (fst t) \<subseteq> A"
    and bad: "\<And>ref off t. \<exists>err. reconcile_frames env ref off bad t = Inl err \<and> errors_Is err ErrLedgerCorrupt"
  shows "\<exists>err. reconcile_files env (map (\<lambda>(p, c). (ref_of env p, c)) fs) t = Inl err \<and> errors_Is err ErrLedgerCorrupt"
  using fs t
proof (induction fs arbitrary: t)
  case (Cons pc fs)
  show ?case
  proof (cases "pc = (q, frames env (L q) @ bad)")
    case True
    note one = reconcile_file [OF root disk inj q Cons.prems(3)]
    from one(3) [of bad] obtain ss where "reconcile_frames env (ref_of env q) 0 (frames env (L q) @ bad) t =
      reconcile_frames env (ref_of env q) (length (frames env (L q))) bad (add_new (fst t) (file_entries env (ref_of env q) 0 (L q)), ss)"
      by blast
    moreover obtain err where "reconcile_frames env (ref_of env q) (length (frames env (L q))) bad
        (add_new (fst t) (file_entries env (ref_of env q) 0 (L q)), ss) = Inl err" "errors_Is err ErrLedgerCorrupt"
      using bad by blast
    ultimately show ?thesis using True one(1) by (simp add: reconcileSQLiteEventFileLocked_def)
  next
    case False
    obtain p c where pc: "pc = (p, c)" by fastforce
    with False Cons.prems(2) have "(p, c) \<in> set files" by auto
    with disk obtain sid where p: "p = event_path env cs sid" and c: "c = frames env (L p)" by (rule disk_file)
    note one = reconcile_file [OF root disk inj p Cons.prems(3)]
    from one(3) [of "[]"] obtain ss where
      r: "reconcile_frames env (ref_of env p) 0 c t = Inr (add_new (fst t) (file_entries env (ref_of env p) 0 (L p)), ss)"
      unfolding c by (auto simp: reconcile_frames.simps [of env _ _ "[]"])
    have "(q, frames env (L q) @ bad) \<in> set fs" using False Cons.prems(1) by auto
    with Cons.IH [of "(add_new (fst t) (file_entries env (ref_of env p) 0 (L p)), ss)"] one(1,2) Cons.prems(2) r
    show ?thesis by (simp add: pc reconcileSQLiteEventFileLocked_def)
  qed
qed simp

text \<open>A restart rebuilds an index with exactly one entry per frame.\<close>

lemma reopen:
  assumes root: "ledger_root (le_path env) cs" "digest_ok env" and disk: "disk_ok env cs files L"
    and ids: "distinct (map ev_EventID (disk_events files L))"
    and path: "TrimSpace (le_path env) \<noteq> []"
    and l: "sq_env l = env" "sq_files l = files" "\<not> sq_indexRebuilt l"
    and idx: "distinct (sq_index l)" "set (sq_index l) \<subseteq> set (disk_entries env files L)"
  shows "\<exists>l'. openDBLocked None l = (None, l') \<and> sq_ok env l' \<and> sq_attempts l' = sq_attempts l \<and>
    sq_load_fault l' = sq_load_fault l \<and> mset (stored_events l') = mset (disk_events files L)"
proof -
  define fs where "fs = sort_key (\<lambda>(p, _). split_on (CHR ''/'') p) (filter (\<lambda>(p, _). HasPrefix p (eventFilesDir (le_path env) @ ''/'')) files)"
  have all: "filter (\<lambda>(p, _). HasPrefix p (eventFilesDir (le_path env) @ ''/'')) files = files"
    unfolding filter_id_conv
  proof (intro ballI, clarify)
    fix p c assume "(p, c) \<in> set files"
    then have "go_lookup files p = Some c" using disk by (simp add: disk_ok_def)
    with disk obtain sid where "p = event_path env cs sid" unfolding disk_ok_def by blast
    with event_path_in_dir [OF root(1)] show "HasPrefix p (eventFilesDir (le_path env) @ ''/'')" by simp
  qed
  have fs: "mset fs = mset files" unfolding fs_def all by simp
  then have fset: "set fs = set files" by (metis set_mset_mset)
  have ef: "event_files env files = map (\<lambda>(p, c). (ref_of env p, c)) fs"
    by (simp add: event_files_def fs_def ref_of_def)
  let ?E = "concat (map (\<lambda>(p, c). file_entries env (ref_of env p) 0 (L p)) fs)"
  from reconcile_files_ok [OF root disk disk_entries_inj(2) [OF ids] subset_refl, of fs "(sq_index l, sq_sessions l)"] fset idx(2)
  obtain ss where rec: "rebuildSQLiteIndexFromEventFramesLocked l = Inr (add_new (sq_index l) ?E, ss)"
    using l by (auto simp: rebuildSQLiteIndexFromEventFramesLocked_def ef)
  define l' where "l' = l\<lparr>sq_index := add_new (sq_index l) ?E, sq_sessions := ss, sq_indexRebuilt := True\<rparr>"
  have E: "set ?E = set (disk_entries env files L)" using fset by (auto simp: disk_entries_def)
  have set': "set (sq_index l') = set (disk_entries env files L)" using E idx(2) by (auto simp: l'_def set_add_new)
  have "distinct (sq_index l')" using idx(1) by (simp add: l'_def distinct_add_new)
  then have ms: "mset (sq_index l') = mset (disk_entries env files L)"
    using set' disk_entries_inj(1) [OF ids] by (metis set_eq_iff_mset_eq_distinct)
  note reads = disk_entries_read [OF root disk]
  have "\<exists>e. reads env files x e" if "x \<in> set (disk_entries env files L)" for x
    using that reads by (metis in_set_conv_nth list_all2_conv_all_nth)
  then have ok: "sq_ok env l'" using set' l by (auto simp: sq_ok_def l'_def row_ok_def reads_def)
  have "map (\<lambda>x. projr (readEventFrame env files (ix_row x))) (disk_entries env files L) = disk_events files L"
    using reads by (induction rule: list_all2_induct) (simp_all add: reads_def)
  with ms have "mset (stored_events l') = mset (disk_events files L)"
    using l by (simp add: stored_events_def l'_def) (metis mset_map)
  moreover have "openDBLocked None l = (None, l')" using l path rec by (simp add: openDBLocked_def l'_def)
  ultimately show ?thesis using ok by (intro exI [of _ l']) (simp add: l'_def)
qed

section \<open>Appending to the files\<close>

definition frame_written :: "io_fault option \<Rightarrow> bool" where
  "frame_written fault \<longleftrightarrow> fault = None \<or> (\<exists>msg. fault = Some (Index_fault msg))"

definition not_torn :: "io_fault option \<Rightarrow> bool" where
  "not_torn fault \<longleftrightarrow> (\<forall>n msg. fault \<noteq> Some (Write_fault n msg))"

text \<open>A ledger whose files hold the frames of \<open>L\<close> and whose index covers some of them.\<close>

definition dlog :: "ledger_env \<Rightarrow> string list \<Rightarrow> (string \<Rightarrow> StoredEvent list) \<Rightarrow> SQLiteLedger \<Rightarrow> bool" where
  "dlog env cs L l \<longleftrightarrow> sq_env l = env \<and> sq_indexRebuilt l \<and> disk_ok env cs (sq_files l) L \<and>
     distinct (map ev_EventID (disk_events (sq_files l) L)) \<and>
     distinct (sq_index l) \<and> set (sq_index l) \<subseteq> set (disk_entries env (sq_files l) L)"

definition file_content :: "string go_map \<Rightarrow> string \<Rightarrow> string" where
  "file_content files p = (case go_lookup files p of None \<Rightarrow> [] | Some c \<Rightarrow> c)"

lemma disk_content: "disk_ok env cs files L \<Longrightarrow> file_content files p = frames env (L p)"
  by (cases "go_lookup files p") (auto simp: disk_ok_def file_content_def frames_def)

lemma sqlite_Append_exact:
  assumes "sq_env l = env" and "sq_indexRebuilt l" and path: "TrimSpace (le_path env) \<noteq> []"
    and p: "resolveFileRef (le_path env) (sessionEventFileRef env (ev_SessionID e)) = Inr p"
    and s: "le_marshal env e = Some s" and torn: "not_torn (sq_append_fault l (sq_attempts l))"
    and new: "ev_EventID e \<notin> row_id ` set (sq_index l)"
  defines "l1 \<equiv> l\<lparr>sq_attempts := Suc (sq_attempts l)\<rparr>"
    and "files \<equiv> go_store p (file_content (sq_files l) p @ event_frame s) (sq_files l)"
  shows "snd (sqlite_Append e l) =
    (case sq_append_fault l (sq_attempts l) of
       None \<Rightarrow> l1\<lparr>sq_files := files, sq_index := sq_index l @ [index_entry
         (event_row env (sessionEventFileRef env (ev_SessionID e)) (int (length (file_content (sq_files l) p))) s e) e],
         sq_sessions := upsertSQLiteSessionFromEvent e (sq_sessions l)\<rparr>
     | Some (Open_fault err) \<Rightarrow> l1
     | Some (Index_fault msg) \<Rightarrow> l1\<lparr>sq_files := files\<rparr>)"
proof -
  have dup: "\<not> list_ex (\<lambda>ix. row_id ix = ev_EventID e) (sq_index l)" using new by (force simp: list_ex_iff)
  have row: "(event_row env ref off s e)\<lparr>er_FrameBytes := int (8 + length s)\<rparr> = event_row env ref off s e" for ref off
    by (simp add: event_row_def ledgerFrameHeaderBytes_def)
  show ?thesis
  proof (cases "sq_append_fault l (sq_attempts l)")
    case None
    with assms(1,2) path p s dup row show ?thesis
      by (simp add: sqlite_Append_def openDBLocked_def open_fault_def appendEventFrameLocked_def l1_def files_def file_content_def Let_def)
  next
    case (Some f)
    with assms(1,2) path p s torn show ?thesis
      by (cases f) (simp_all add: sqlite_Append_def openDBLocked_def open_fault_def appendEventFrameLocked_def l1_def files_def
          file_content_def Let_def not_torn_def)
  qed
qed

lemma disk_events_store:
  assumes "distinct (map fst files)" and "p \<notin> fst ` set files \<Longrightarrow> L p = []"
  shows "mset (disk_events (go_store p c files) (L(p := L p @ [e]))) = add_mset e (mset (disk_events files L))"
  using assms
proof (induction files)
  case (Cons f files)
  have other: "disk_events files (L(p := L p @ [e])) = disk_events files L" if "p \<notin> fst ` set files"
    using that unfolding disk_events_def by (intro arg_cong [where f = concat] map_cong) force+
  show ?case
  proof (cases "fst f = p")
    case True
    with Cons.prems(1) other show ?thesis by (cases f) (auto simp: disk_events_def)
  next
    case False
    with Cons show ?thesis by (cases f) (auto simp: disk_events_def)
  qed
qed (simp add: disk_events_def)

lemma dlog_append:
  assumes root: "ledger_root (le_path env) cs" "digest_ok env" and path: "TrimSpace (le_path env) \<noteq> []"
    and l: "dlog env cs L l" and e: "writable env e" "ev_EventID e \<notin> ev_EventID ` set (disk_events (sq_files l) L)"
    and torn: "not_torn (sq_append_fault l (sq_attempts l))"
  defines "l' \<equiv> snd (sqlite_Append e l)" and "f \<equiv> sq_append_fault l (sq_attempts l)"
  shows "\<exists>L'. dlog env cs L' l' \<and> sq_attempts l' = Suc (sq_attempts l) \<and> sq_append_fault l' = sq_append_fault l \<and>
    mset (disk_events (sq_files l') L') = mset (disk_events (sq_files l) L) + (if frame_written f then {#e#} else {#})"
proof -
  define p where "p = event_path env cs (ev_SessionID e)"
  define s where "s = event_body env e"
  define ref where "ref = sessionEventFileRef env (ev_SessionID e)"
  have env: "sq_env l = env" "sq_indexRebuilt l" and disk: "disk_ok env cs (sq_files l) L"
    and idx: "distinct (sq_index l)" "set (sq_index l) \<subseteq> set (disk_entries env (sq_files l) L)"
    and ids: "distinct (map ev_EventID (disk_events (sq_files l) L))"
    using l by (simp_all add: dlog_def)
  have s: "le_marshal env e = Some s" using e(1) by (auto simp: writable_def s_def event_body_def)
  have refp: "ref_of env p = ref" by (simp add: p_def ref_def ref_of_event_path [OF root])
  note res = resolve_session [OF root, of "ev_SessionID e", folded p_def]
  have new: "ev_EventID e \<notin> row_id ` set (sq_index l)"
  proof
    assume "ev_EventID e \<in> row_id ` set (sq_index l)"
    with idx(2) have "ev_EventID e \<in> set (map row_id (disk_entries env (sq_files l) L))" by auto
    with e(2) show False by (simp add: disk_entries_ids)
  qed
  note app = sqlite_Append_exact [OF env path res s torn new]
  define files where "files = go_store p (file_content (sq_files l) p @ event_frame s) (sq_files l)"
  define L' where "L' = L(p := L p @ [e])"
  define x where "x = file_entry env ref (length (frames env (L p))) e"
  have keys: "p \<notin> fst ` set (sq_files l) \<Longrightarrow> L p = []" and dist: "distinct (map fst (sq_files l))"
    using disk by (auto simp: disk_ok_def map_of_eq_None_iff)
  have disk': "disk_ok env cs files L'"
    unfolding disk_ok_def
  proof (intro conjI allI impI)
    show "distinct (map fst files)" using dist by (simp add: files_def)
    show "\<exists>sid. q = event_path env cs sid" if "go_lookup files q = Some c" for q c
      using that disk by (auto simp: files_def disk_ok_def p_def split: if_splits)
    show "c = frames env (L' q)" if "go_lookup files q = Some c" for q c
      using that disk disk_content [OF disk, of p]
      by (auto simp: files_def L'_def s_def frames_def disk_ok_def split: if_splits)
    show "L' q = []" if "go_lookup files q = None" for q
      using that disk by (auto simp: files_def L'_def disk_ok_def split: if_splits)
    show "\<forall>a \<in> set (L' q). writable env a \<and> event_path env cs (ev_SessionID a) = q" for q
    proof (cases "q = p")
      case True
      have "\<forall>a \<in> set (L p). writable env a \<and> event_path env cs (ev_SessionID a) = p" using disk unfolding disk_ok_def by blast
      with True e(1) show ?thesis by (simp add: L'_def p_def)
    next
      case False
      with disk show ?thesis by (simp add: L'_def disk_ok_def)
    qed
  qed
  have ms: "mset (disk_events files L') = add_mset e (mset (disk_events (sq_files l) L))"
    unfolding files_def L'_def using dist keys by (rule disk_events_store)
  then have ids': "distinct (map ev_EventID (disk_events files L'))"
  proof -
    from ms have "mset (map ev_EventID (disk_events files L')) = mset (ev_EventID e # map ev_EventID (disk_events (sq_files l) L))"
      by simp
    moreover have "distinct (ev_EventID e # map ev_EventID (disk_events (sq_files l) L))" using ids e(2) by simp
    ultimately show ?thesis by (metis mset_eq_imp_distinct_iff)
  qed
  have ents: "set (disk_entries env (sq_files l) L) \<subseteq> set (disk_entries env files L')" "x \<in> set (disk_entries env files L')"
  proof -
    have grow: "set (file_entries env (ref_of env q) 0 (L q)) \<subseteq> set (file_entries env (ref_of env q) 0 (L' q))" for q
      by (auto simp: L'_def file_entries_append)
    have "fst ` set (sq_files l) \<subseteq> fst ` set files" by (auto simp: files_def)
    then show "set (disk_entries env (sq_files l) L) \<subseteq> set (disk_entries env files L')"
      unfolding set_disk_entries using grow by (rule UN_mono)
    have "x \<in> set (file_entries env (ref_of env p) 0 (L' p))" by (simp add: L'_def file_entries_append x_def refp)
    moreover have "p \<in> fst ` set files" by (simp add: files_def)
    ultimately show "x \<in> set (disk_entries env files L')" unfolding set_disk_entries by (rule UN_I [rotated])
  qed
  have xrow: "index_entry (event_row env ref (int (length (file_content (sq_files l) p))) s e) e = x"
    by (simp add: x_def file_entry_def disk_content [OF disk] s_def)
  have xnew: "x \<notin> set (sq_index l)" using new by (force simp: x_def file_entry_def index_entry_def event_row_def)
  show ?thesis
  proof (cases f)
    case None
    then have l': "l' = l\<lparr>sq_attempts := Suc (sq_attempts l), sq_files := files, sq_index := sq_index l @ [x],
        sq_sessions := upsertSQLiteSessionFromEvent e (sq_sessions l)\<rparr>"
      using app xrow by (simp add: l'_def f_def files_def ref_def)
    show ?thesis
      using None env disk' ids' idx ents xnew ms by (intro exI [of _ L']) (auto simp: l' dlog_def frame_written_def)
  next
    case (Some g)
    show ?thesis
    proof (cases g)
      case (Open_fault err)
      with Some app have l': "l' = l\<lparr>sq_attempts := Suc (sq_attempts l)\<rparr>" by (simp add: l'_def f_def)
      show ?thesis
        using Some Open_fault l by (intro exI [of _ L]) (simp add: l' dlog_def frame_written_def)
    next
      case (Write_fault n msg)
      with Some torn show ?thesis by (simp add: not_torn_def f_def)
    next
      case (Index_fault msg)
      with Some app have l': "l' = l\<lparr>sq_attempts := Suc (sq_attempts l), sq_files := files\<rparr>"
        by (simp add: l'_def f_def files_def)
      show ?thesis
        using Some Index_fault env disk' ids' idx ents ms by (intro exI [of _ L']) (auto simp: l' dlog_def frame_written_def)
    qed
  qed
qed

section \<open>Runs\<close>

definition new_ledger :: "ledger_env \<Rightarrow> (nat \<Rightarrow> io_fault option) \<Rightarrow> (nat \<Rightarrow> go_error option) \<Rightarrow> SQLiteLedger" where
  "new_ledger env af lf = \<lparr>sq_env = env, sq_files = [], sq_index = [], sq_sessions = [], sq_indexRebuilt = False,
     sq_attempts = 0, sq_append_fault = af, sq_load_fault = lf\<rparr>"

definition append_events :: "StoredEvent list \<Rightarrow> SQLiteLedger \<Rightarrow> SQLiteLedger" where
  "append_events es l = fold (\<lambda>e l. snd (sqlite_Append e l)) es l"

definition opened_ledger :: "ledger_env \<Rightarrow> (nat \<Rightarrow> io_fault option) \<Rightarrow> (nat \<Rightarrow> go_error option) \<Rightarrow> SQLiteLedger" where
  "opened_ledger env af lf = snd (openDBLocked None (new_ledger env af lf))"

text \<open>A new process, which finds what is left of the index and of the table of sessions.\<close>

definition restart :: "nat \<Rightarrow> session_row go_map \<Rightarrow> SQLiteLedger \<Rightarrow> SQLiteLedger" where
  "restart n ss l = l\<lparr>sq_index := take n (sq_index l), sq_sessions := ss, sq_indexRebuilt := False\<rparr>"

definition durable :: "(nat \<Rightarrow> io_fault option) \<Rightarrow> nat \<Rightarrow> StoredEvent list \<Rightarrow> StoredEvent list" where
  "durable af n es = map fst (filter (\<lambda>(e, i). frame_written (af i)) (zip es [n..<n + length es]))"

lemma opened_dlog:
  assumes "TrimSpace (le_path env) \<noteq> []"
  shows "dlog env cs (\<lambda>_. []) (opened_ledger env af lf)" and "sq_attempts (opened_ledger env af lf) = 0"
    and "sq_append_fault (opened_ledger env af lf) = af" and "sq_files (opened_ledger env af lf) = []"
    and "sq_load_fault (opened_ledger env af lf) = lf"
  using assms by (simp_all add: dlog_def opened_ledger_def new_ledger_def openDBLocked_def event_files_def
      rebuildSQLiteIndexFromEventFramesLocked_def disk_ok_def disk_events_def)

lemma Append_load_fault: "sq_load_fault (snd (sqlite_Append e l)) = sq_load_fault l"
  by (auto simp: sqlite_Append_def openDBLocked_def Let_def split: prod.splits option.splits sum.splits io_fault.splits)

lemma append_events_load_fault: "sq_load_fault (append_events es l) = sq_load_fault l"
  by (induction es arbitrary: l) (simp_all add: append_events_def Append_load_fault)

lemma disjoint_insert_step: "D' \<subseteq> insert a D \<Longrightarrow> a \<notin> S \<Longrightarrow> insert a S \<inter> D = {} \<Longrightarrow> S \<inter> D' = {}"
  by blast

lemma append_events_dlog:
  assumes root: "ledger_root (le_path env) cs" "digest_ok env" and path: "TrimSpace (le_path env) \<noteq> []"
    and "dlog env cs L l" and "\<forall>e \<in> set es. writable env e"
    and "distinct (map ev_EventID es)" and "ev_EventID ` set es \<inter> ev_EventID ` set (disk_events (sq_files l) L) = {}"
    and "\<forall>i < length es. not_torn (sq_append_fault l (sq_attempts l + i))"
  shows "\<exists>L'. dlog env cs L' (append_events es l) \<and> sq_attempts (append_events es l) = sq_attempts l + length es \<and>
    sq_append_fault (append_events es l) = sq_append_fault l \<and>
    mset (disk_events (sq_files (append_events es l)) L') =
      mset (disk_events (sq_files l) L) + mset (durable (sq_append_fault l) (sq_attempts l) es)"
  using assms(4-)
proof (induction es arbitrary: l L)
  case (Cons e es)
  define l1 where "l1 = snd (sqlite_Append e l)"
  have e: "writable env e" "ev_EventID e \<notin> ev_EventID ` set (disk_events (sq_files l) L)" using Cons.prems by auto
  have torn: "not_torn (sq_append_fault l (sq_attempts l))" using Cons.prems(5) by force
  from dlog_append [OF root path Cons.prems(1) e torn] obtain L1 where
    L1: "dlog env cs L1 l1" "sq_attempts l1 = Suc (sq_attempts l)" "sq_append_fault l1 = sq_append_fault l"
    "mset (disk_events (sq_files l1) L1) = mset (disk_events (sq_files l) L) +
       (if frame_written (sq_append_fault l (sq_attempts l)) then {#e#} else {#})"
    unfolding l1_def by blast
  have "set_mset (mset (disk_events (sq_files l1) L1)) \<subseteq> insert e (set (disk_events (sq_files l) L))"
    unfolding L1(4) by auto
  then have "ev_EventID ` set (disk_events (sq_files l1) L1) \<subseteq> insert (ev_EventID e) (ev_EventID ` set (disk_events (sq_files l) L))"
    by (simp only: set_mset_mset) blast
  moreover have "ev_EventID e \<notin> ev_EventID ` set es" using Cons.prems(3) by simp
  ultimately have disj: "ev_EventID ` set es \<inter> ev_EventID ` set (disk_events (sq_files l1) L1) = {}"
    using Cons.prems(4) unfolding list.set(2) image_insert by (rule disjoint_insert_step)
  have torn': "\<forall>i < length es. not_torn (sq_append_fault l1 (sq_attempts l1 + i))"
  proof (intro allI impI)
    fix i assume "i < length es"
    then have "Suc i < length (e # es)" by simp
    with Cons.prems(5) have "not_torn (sq_append_fault l (sq_attempts l + Suc i))" by blast
    then show "not_torn (sq_append_fault l1 (sq_attempts l1 + i))" by (simp add: L1(2,3))
  qed
  have "durable (sq_append_fault l) (sq_attempts l) (e # es) =
      (if frame_written (sq_append_fault l (sq_attempts l)) then [e] else []) @ durable (sq_append_fault l) (Suc (sq_attempts l)) es"
    by (simp add: durable_def upt_conv_Cons del: upt_Suc)
  with Cons.IH [OF L1(1) _ _ disj torn'] Cons.prems(2,3) L1(2-4) show ?case
    by (simp add: append_events_def l1_def [symmetric]) (auto simp: add.assoc)
qed (auto simp: append_events_def durable_def)

text \<open>What a run from a new ledger leaves.\<close>

lemma run_dlog:
  fixes af lf
  assumes "ledger_root (le_path env) cs" and "digest_ok env" and "TrimSpace (le_path env) \<noteq> []"
    and "\<forall>e \<in> set es. writable env e" and "distinct (map ev_EventID es)" and "\<forall>i < length es. not_torn (af i)"
    and l_def: "l = append_events es (opened_ledger env af lf)"
  obtains L where "dlog env cs L l" and "sq_attempts l = length es" and "sq_append_fault l = af" and "sq_load_fault l = lf"
    and "mset (disk_events (sq_files l) L) = mset (durable af 0 es)"
proof -
  note o = opened_dlog [OF assms(3)]
  have "sq_load_fault l = lf" by (simp add: l_def append_events_load_fault o(5))
  moreover obtain L where "dlog env cs L l" "sq_attempts l = length es" "sq_append_fault l = af"
    "mset (disk_events (sq_files l) L) = mset (durable af 0 es)"
    using append_events_dlog [OF assms(1-3) o(1) assms(4,5), of af lf] assms(6)
    unfolding l_def o(2-4) disk_events_def by auto
  ultimately show thesis using that by blast
qed

lemma durable_subset: "set (durable af n es) \<subseteq> set es"
  by (auto simp: durable_def dest: set_zip_leftD)

subsection \<open>Files that end in no frame\<close>

lemma set_go_store: "set (go_store k v m) \<subseteq> insert (k, v) (set m)" and go_store_mem: "(k, v) \<in> set (go_store k v m)"
  by (induction m) auto

lemma bad_rebuild:
  assumes root: "ledger_root (le_path env) cs" "digest_ok env" and disk: "disk_ok env cs files L"
    and inj: "inj_on row_id A" "set (disk_entries env files L) \<subseteq> A"
    and l: "sq_env l = env" "set (sq_index l) \<subseteq> A" "sq_files l = go_store p (frames env (L p) @ bad) files" "p = event_path env cs sid"
    and bad: "\<And>ref off t. \<exists>err. reconcile_frames env ref off bad t = Inl err \<and> errors_Is err ErrLedgerCorrupt"
    and path: "TrimSpace (le_path env) \<noteq> []" and open_ok: "sq_load_fault l (sq_attempts l) = None"
  shows "\<exists>err. fst (sqlite_Load (restart n ss l)) = Inl err \<and> errors_Is err ErrLedgerCorrupt"
proof -
  let ?b = "frames env (L p) @ bad"
  define fs where "fs = sort_key (\<lambda>(p, _). split_on (CHR ''/'') p)
    (filter (\<lambda>(p, _). HasPrefix p (eventFilesDir (le_path env) @ ''/'')) (sq_files l))"
  have dir: "HasPrefix q (eventFilesDir (le_path env) @ ''/'')" if "(q, c) \<in> set (sq_files l)" for q c
  proof -
    from that set_go_store [of p ?b files] have "q = p \<or> (q, c) \<in> set files" unfolding l(3) by blast
    then show ?thesis using event_path_in_dir [OF root(1)] l(4) disk_file [OF disk, of q c] by metis
  qed
  have "filter (\<lambda>(p, _). HasPrefix p (eventFilesDir (le_path env) @ ''/'')) (sq_files l) = sq_files l"
    using dir by (auto simp: filter_id_conv)
  then have fset: "set fs = set (go_store p ?b files)" by (simp add: fs_def l(3))
  have "set (fst (take n (sq_index l), ss)) \<subseteq> A" using l(2) set_take_subset [of n "sq_index l"] by auto
  from reconcile_files_bad [OF root disk inj _ _ l(4) this bad, of fs] fset set_go_store [of p ?b files] go_store_mem [of p ?b files]
  obtain err where "reconcile_files env (map (\<lambda>(p, c). (ref_of env p, c)) fs) (take n (sq_index l), ss) = Inl err" "errors_Is err ErrLedgerCorrupt"
    by auto
  moreover have "event_files env (sq_files l) = map (\<lambda>(p, c). (ref_of env p, c)) fs"
    by (simp add: event_files_def fs_def ref_of_def)
  ultimately show ?thesis
    using l(1) path open_ok
    by (simp add: sqlite_Load_def loadLocked_def openDBLocked_def rebuildSQLiteIndexFromEventFramesLocked_def restart_def)
qed

lemma torn_frame_bad:
  assumes "s \<noteq> []" and "length s \<le> sqliteLedgerMaxFrameBodyBytes" and "0 < n" and "n < 8 + length s"
  shows "\<exists>err. reconcile_frames env ref off (take n (event_frame s)) t = Inl err \<and> errors_Is err ErrLedgerCorrupt"
proof -
  have ne: "take n (event_frame s) \<noteq> []" using assms(3) by (simp add: event_frame_def PutUint64_def)
  show ?thesis
  proof (cases "n < 8")
    case True
    with ne assms show ?thesis
      by (subst reconcile_frames.simps) (simp add: ledgerFrameHeaderBytes_def frame_error_def)
  next
    case False
    have hd: "take 8 (take n (event_frame s)) = PutUint64 (length s)"
      using False assms(2) by (simp add: event_frame_def sqliteLedgerMaxFrameBodyBytes_def min_def)
    have "length (drop 8 (take n (event_frame s))) < length s" using assms(4) False by simp
    with ne assms hd False show ?thesis
      by (subst reconcile_frames.simps)
        (simp add: ledgerFrameHeaderBytes_def frame_error_def sqliteLedgerMaxFrameBodyBytes_def Let_def)
  qed
qed

lemma oversize_frame_bad:
  assumes "sqliteLedgerMaxFrameBodyBytes < length s" and "length s < 2 ^ 64"
  shows "\<exists>err. reconcile_frames env ref off (event_frame s) t = Inl err \<and> errors_Is err ErrLedgerCorrupt"
proof -
  have "event_frame s \<noteq> []" using length_event_frame [of s] by force
  then show ?thesis
    using assms by (subst reconcile_frames.simps)
      (simp add: ledgerFrameHeaderBytes_def frame_error_def Let_def event_frame_def)
qed

section \<open>Properties\<close>

definition sample_ledger_env :: ledger_env where
  "sample_ledger_env = \<lparr>le_path = ''/g/ledger.db'', le_marshal = (\<lambda>e. Some (ev_EventID e)),
     le_unmarshal = (\<lambda>s. Some (no_event\<lparr>ev_EventID := s\<rparr>)), le_sha256hex = (\<lambda>k. ''ab'')\<rparr>"

lemma sample_ledger_root: "ledger_root (le_path sample_ledger_env) [''g'']"
proof -
  have "path_Dir ''/g/ledger.db'' = rooted_path [''g'']" by code_simp
  then show ?thesis by (simp add: ledger_root_def sample_ledger_env_def plain_comp_def)
qed

lemma sample_digest: "digest_ok sample_ledger_env"
  by (simp add: digest_ok_def sample_ledger_env_def)

lemma sample_path: "TrimSpace (le_path sample_ledger_env) \<noteq> []"
  by code_simp

lemma sample_writable: "i \<noteq> [] \<Longrightarrow> length i < 10 \<Longrightarrow> writable sample_ledger_env (no_event\<lparr>ev_EventID := i\<rparr>)"
  by (simp add: writable_def event_body_def sample_ledger_env_def sqliteLedgerMaxFrameBodyBytes_def)

lemma sample_codec: "length i < 10 \<Longrightarrow> codec_ok sample_ledger_env (no_event\<lparr>ev_EventID := i\<rparr>)"
  by (simp add: codec_ok_def sample_ledger_env_def)

text \<open>
  C9: the ledger on disk refines the abstract ledger. For every opened ledger, every sequence
  of events whose JSON encoding is read back, and every pattern of faults of the disk and of
  the database (failed opens, torn writes, rolled-back transactions, failed loads), the
  results of the appends and of the loads between them are those of an abstract ledger with
  some pattern of faults that holds the same events.
\<close>

theorem sqlite_ledger_refines:
  assumes "sq_ok env l" and "\<forall>e \<in> set es. codec_ok env e"
  shows "\<exists>a. led_rows a = stored_events l \<and>
    ledger_trace sqlite_Append (\<lambda>l. fst (sqlite_Load l)) es l = ledger_trace ledger_Append ledger_Load es a"
  using assms by (rule sq.refines)

theorem sqlite_ledger_refines_witness:
  "\<exists>a. led_rows a = [] \<and> ledger_trace sqlite_Append (\<lambda>l. fst (sqlite_Load l))
       [no_event\<lparr>ev_EventID := ''a''\<rparr>, no_event\<lparr>ev_EventID := ''a''\<rparr>] (opened_ledger sample_ledger_env (\<lambda>_. None) (\<lambda>_. None)) =
     ledger_trace ledger_Append ledger_Load [no_event\<lparr>ev_EventID := ''a''\<rparr>, no_event\<lparr>ev_EventID := ''a''\<rparr>] a"
proof -
  let ?l = "opened_ledger sample_ledger_env (\<lambda>_. None) (\<lambda>_. None)"
  have l: "sq_index ?l = []" "sq_env ?l = sample_ledger_env" "sq_indexRebuilt ?l"
    using opened_dlog(1) [OF sample_path, of "[''g'']" "\<lambda>_. None" "\<lambda>_. None"]
    by (simp_all add: dlog_def disk_entries_def opened_dlog(4) [OF sample_path])
  then have "sq_ok sample_ledger_env ?l" "stored_events ?l = []" by (simp_all add: sq_ok_def stored_events_def)
  with sqlite_ledger_refines [of sample_ledger_env ?l "[no_event\<lparr>ev_EventID := ''a''\<rparr>, no_event\<lparr>ev_EventID := ''a''\<rparr>]"]
  show ?thesis by (simp add: sample_codec)
qed

text \<open>
  C10: a restart recovers every durable event. After any sequence of appends to a new ledger
  in which no write was torn, and whatever prefix of the index and whatever table of sessions
  survived, the next load succeeds and returns, in the order of their times, exactly the
  events whose frames were written: those whose append was accepted and those whose append
  was reported as failed because the index could not be updated.
\<close>

theorem ledger_restart_recovers:
  assumes "ledger_root (le_path env) cs" and "digest_ok env" and "TrimSpace (le_path env) \<noteq> []"
    and "\<forall>e \<in> set es. writable env e" and "distinct (map ev_EventID es)"
    and "\<forall>i < length es. not_torn (af i)" and "lf (length es) = None"
  shows "\<exists>xs. fst (sqlite_Load (restart n ss (append_events es (opened_ledger env af lf)))) = Inr xs \<and>
    sorted (map ev_CreatedAt xs) \<and> mset xs = mset (durable af 0 es)"
proof -
  define l where "l = append_events es (opened_ledger env af lf)"
  obtain L where L: "dlog env cs L l" "sq_attempts l = length es" "sq_append_fault l = af" and lf: "sq_load_fault l = lf"
    and ms: "mset (disk_events (sq_files l) L) = mset (durable af 0 es)"
    by (rule run_dlog [OF assms(1-6) l_def])
  let ?r = "restart n ss l"
  have idx: "distinct (sq_index ?r)" "set (sq_index ?r) \<subseteq> set (disk_entries env (sq_files l) L)"
    using L(1) set_take_subset [of n "sq_index l"] by (auto simp: dlog_def restart_def)
  have "disk_ok env cs (sq_files l) L" "distinct (map ev_EventID (disk_events (sq_files l) L))" "sq_env ?r = env"
      "sq_files ?r = sq_files l" "\<not> sq_indexRebuilt ?r"
    using L(1) by (simp_all add: dlog_def restart_def)
  from reopen [OF assms(1,2) this(1,2) assms(3) this(3-5) idx] obtain l' where
    l': "openDBLocked None ?r = (None, l')" "sq_ok env l'" "mset (stored_events l') = mset (disk_events (sq_files l) L)" by blast
  have none: "sq_load_fault ?r (sq_attempts ?r) = None" using lf L(2) assms(7) by (simp add: restart_def)
  have "fst (sqlite_Load ?r) = read_rows (sq_env l') (sq_files l') (sort_key ix_created (sq_index l'))"
    using l'(1) none by (simp add: sqlite_Load_def loadLocked_def)
  also have "\<dots> = Inr (sort_key ev_CreatedAt (stored_events l'))"
    using read_sorted [OF l'(2)] .
  finally show ?thesis using l'(3) ms unfolding l_def by simp
qed

theorem ledger_restart_recovers_witness:
  "\<exists>xs. fst (sqlite_Load (restart 0 [] (append_events [no_event\<lparr>ev_EventID := ''a''\<rparr>, no_event\<lparr>ev_EventID := ''b''\<rparr>]
      (opened_ledger sample_ledger_env (\<lambda>i. if i = 1 then Some (Index_fault ''disk I/O error'') else None) (\<lambda>_. None))))) = Inr xs \<and>
    mset xs = {#no_event\<lparr>ev_EventID := ''a''\<rparr>, no_event\<lparr>ev_EventID := ''b''\<rparr>#}"
proof -
  let ?es = "[no_event\<lparr>ev_EventID := ''a''\<rparr>, no_event\<lparr>ev_EventID := ''b''\<rparr>]"
  let ?af = "\<lambda>i. if i = 1 then Some (Index_fault ''disk I/O error'') else None :: io_fault option"
  have "durable ?af 0 ?es = ?es" by (simp add: durable_def frame_written_def)
  moreover have "\<forall>i < length ?es. not_torn (?af i)" by (simp add: not_torn_def)
  ultimately show ?thesis
    using ledger_restart_recovers [OF sample_ledger_root sample_digest sample_path, of ?es ?af "\<lambda>_. None" 0 "[]"]
    by (auto simp: sample_writable)
qed

text \<open>
  A torn write is detected, not repaired. If the last append of a run failed after some,
  but not all, bytes of its frame had reached the file, it is reported as failed, and every
  load after a restart fails with a corrupt ledger: no event of any session can be read.
\<close>

theorem ledger_torn_write_refused:
  assumes "ledger_root (le_path env) cs" and "digest_ok env" and "TrimSpace (le_path env) \<noteq> []"
    and "\<forall>e \<in> set (es @ [e]). writable env e" and "distinct (map ev_EventID (es @ [e]))"
    and "\<forall>i < length es. not_torn (af i)"
    and "af (length es) = Some (Write_fault n msg)" and "0 < n" and "n < 8 + length (event_body env e)"
    and "lf (Suc (length es)) = None"
  shows "\<exists>err l'. sqlite_Append e (append_events es (opened_ledger env af lf)) = (Some err, l') \<and>
    (\<exists>err'. fst (sqlite_Load (restart m ss l')) = Inl err' \<and> errors_Is err' ErrLedgerCorrupt)"
proof -
  define l where "l = append_events es (opened_ledger env af lf)"
  have es: "\<forall>e \<in> set es. writable env e" "distinct (map ev_EventID es)" and e: "writable env e" using assms(4,5) by auto
  obtain L where L: "dlog env cs L l" "sq_attempts l = length es" "sq_append_fault l = af" and lf: "sq_load_fault l = lf"
    by (rule run_dlog [OF assms(1-3) es assms(6) l_def])
  define p where "p = event_path env cs (ev_SessionID e)"
  define s where "s = event_body env e"
  have s: "le_marshal env e = Some s" "s \<noteq> []" "length s \<le> sqliteLedgerMaxFrameBodyBytes"
    using e by (auto simp: writable_def s_def event_body_def)
  have disk: "disk_ok env cs (sq_files l) L" and ids: "distinct (map ev_EventID (disk_events (sq_files l) L))"
    and l: "sq_env l = env" "sq_indexRebuilt l" "set (sq_index l) \<subseteq> set (disk_entries env (sq_files l) L)"
    using L(1) by (simp_all add: dlog_def)
  define l' where "l' = l\<lparr>sq_attempts := Suc (length es), sq_files := go_store p (frames env (L p) @ take n (event_frame s)) (sq_files l)\<rparr>"
  have "sqlite_Append e l = (Some (Wrapped ErrLedgerUnwritable (errors_New msg)), l')"
    using L(2,3) l assms(3,7) s(1) resolve_session [OF assms(1,2), of "ev_SessionID e"] disk_content [OF disk, of p]
    by (simp add: sqlite_Append_def openDBLocked_def open_fault_def appendEventFrameLocked_def Let_def l'_def p_def file_content_def)
  moreover have "\<exists>err'. fst (sqlite_Load (restart m ss l')) = Inl err' \<and> errors_Is err' ErrLedgerCorrupt"
    by (rule bad_rebuild [OF assms(1,2) disk disk_entries_inj(2) [OF ids] subset_refl _ _ _ p_def
          torn_frame_bad [OF s(2,3) assms(8) assms(9) [folded s_def]] assms(3)])
      (use l lf assms(10) in \<open>simp_all add: l'_def\<close>)
  ultimately show ?thesis unfolding l_def by blast
qed

theorem ledger_torn_write_refused_witness:
  "\<exists>err l'. sqlite_Append (no_event\<lparr>ev_EventID := ''b''\<rparr>) (append_events [no_event\<lparr>ev_EventID := ''a''\<rparr>]
      (opened_ledger sample_ledger_env (\<lambda>i. if i = 1 then Some (Write_fault 8 ''no space left on device'') else None) (\<lambda>_. None))) = (Some err, l') \<and>
    (\<exists>err'. fst (sqlite_Load (restart 1 [] l')) = Inl err' \<and> errors_Is err' ErrLedgerCorrupt)"
proof -
  let ?af = "\<lambda>i. if i = 1 then Some (Write_fault 8 ''no space left on device'') else None :: io_fault option"
  have "event_body sample_ledger_env (no_event\<lparr>ev_EventID := ''b''\<rparr>) = ''b''" by (simp add: event_body_def sample_ledger_env_def)
  then show ?thesis
    using ledger_torn_write_refused [OF sample_ledger_root sample_digest sample_path, of "[no_event\<lparr>ev_EventID := ''a''\<rparr>]"
        "no_event\<lparr>ev_EventID := ''b''\<rparr>" ?af 8 "''no space left on device''" "\<lambda>_. None" 1 "[]"]
    by (simp add: sample_writable not_torn_def)
qed

text \<open>
  An event whose encoding exceeds the frame limit is accepted and then makes the ledger
  unreadable. An append does not check the limit of 64 MiB: it succeeds, and every load after
  a restart fails with a corrupt ledger.
\<close>

theorem ledger_oversized_event_corrupts:
  assumes "ledger_root (le_path env) cs" and "digest_ok env" and "TrimSpace (le_path env) \<noteq> []"
    and "\<forall>e \<in> set es. writable env e" and "distinct (map ev_EventID (es @ [e]))"
    and "\<forall>i < length es. not_torn (af i)" and "af (length es) = None" and "lf (Suc (length es)) = None"
    and "le_marshal env e = Some s" and "sqliteLedgerMaxFrameBodyBytes < length s" and "length s < 2 ^ 64"
  shows "\<exists>l'. sqlite_Append e (append_events es (opened_ledger env af lf)) = (None, l') \<and>
    (\<exists>err'. fst (sqlite_Load (restart m ss l')) = Inl err' \<and> errors_Is err' ErrLedgerCorrupt)"
proof -
  define l where "l = append_events es (opened_ledger env af lf)"
  have es: "distinct (map ev_EventID es)" using assms(5) by auto
  obtain L where L: "dlog env cs L l" "sq_attempts l = length es" "sq_append_fault l = af" and lf: "sq_load_fault l = lf"
    and ms: "mset (disk_events (sq_files l) L) = mset (durable af 0 es)"
    by (rule run_dlog [OF assms(1-4) es assms(6) l_def])
  define p where "p = event_path env cs (ev_SessionID e)"
  have disk: "disk_ok env cs (sq_files l) L" and ids: "distinct (map ev_EventID (disk_events (sq_files l) L))"
    and l: "sq_env l = env" "sq_indexRebuilt l" "set (sq_index l) \<subseteq> set (disk_entries env (sq_files l) L)"
    using L(1) by (simp_all add: dlog_def)
  have "ev_EventID e \<notin> ev_EventID ` set es" using assms(5) by auto
  then have fresh: "ev_EventID e \<notin> ev_EventID ` set (disk_events (sq_files l) L)"
    using ms durable_subset [of af 0 es] by (metis image_mono set_mset_mset subsetD)
  define x where "x = index_entry (event_row env (sessionEventFileRef env (ev_SessionID e)) (int (length (frames env (L p)))) s e) e"
  have xid: "row_id x \<notin> row_id ` set (disk_entries env (sq_files l) L)"
    using fresh arg_cong [OF disk_entries_ids [of env "sq_files l" L], of set] by (simp add: x_def index_entry_def event_row_def)
  then have new: "ev_EventID e \<notin> row_id ` set (sq_index l)"
    using l(3) by (auto simp: x_def index_entry_def event_row_def)
  then have dup: "\<not> list_ex (\<lambda>ix. row_id ix = ev_EventID e) (sq_index l)" by (force simp: list_ex_iff)
  define A where "A = insert x (set (disk_entries env (sq_files l) L))"
  have inj: "inj_on row_id A" using disk_entries_inj(2) [OF ids] xid unfolding A_def by (auto simp: inj_on_insert)
  define l' where "l' = l\<lparr>sq_attempts := Suc (length es), sq_files := go_store p (frames env (L p) @ event_frame s) (sq_files l),
    sq_index := sq_index l @ [x], sq_sessions := upsertSQLiteSessionFromEvent e (sq_sessions l)\<rparr>"
  have "(event_row env ref off s e)\<lparr>er_FrameBytes := int (8 + length s)\<rparr> = event_row env ref off s e" for ref off
    by (simp add: event_row_def ledgerFrameHeaderBytes_def)
  then have "sqlite_Append e l = (None, l')"
    using L(2,3) l assms(3,7,9) dup resolve_session [OF assms(1,2), of "ev_SessionID e"] disk_content [OF disk, of p]
    by (simp add: sqlite_Append_def openDBLocked_def open_fault_def appendEventFrameLocked_def Let_def l'_def p_def file_content_def x_def)
  moreover have "\<exists>err'. fst (sqlite_Load (restart m ss l')) = Inl err' \<and> errors_Is err' ErrLedgerCorrupt"
    by (rule bad_rebuild [OF assms(1,2) disk inj _ _ _ _ p_def oversize_frame_bad [OF assms(10,11)] assms(3)])
      (use l lf assms(8) in \<open>auto simp: l'_def A_def\<close>)
  ultimately show ?thesis unfolding l_def by blast
qed

definition large_event_env :: ledger_env where
  "large_event_env = sample_ledger_env\<lparr>le_marshal := (\<lambda>e. Some (replicate 67108865 CHR ''x''))\<rparr>"

theorem ledger_oversized_event_corrupts_witness:
  "\<exists>l'. sqlite_Append (no_event\<lparr>ev_EventID := ''a''\<rparr>) (append_events [] (opened_ledger large_event_env (\<lambda>_. None) (\<lambda>_. None))) = (None, l') \<and>
    (\<exists>err'. fst (sqlite_Load (restart 1 [] l')) = Inl err' \<and> errors_Is err' ErrLedgerCorrupt)"
proof -
  have "ledger_root (le_path large_event_env) [''g'']" "digest_ok large_event_env" "TrimSpace (le_path large_event_env) \<noteq> []"
    using sample_ledger_root sample_digest sample_path by (simp_all add: large_event_env_def digest_ok_def)
  from ledger_oversized_event_corrupts [OF this, of "[]" "no_event\<lparr>ev_EventID := ''a''\<rparr>" "\<lambda>_. None" "\<lambda>_. None"
      "replicate 67108865 CHR ''x''" 1 "[]"]
  show ?thesis by (simp add: large_event_env_def sqliteLedgerMaxFrameBodyBytes_def)
qed

text \<open>
  C11: no reference leaves the directory of the ledger. For a ledger in an absolute directory
  other than the root, a reference that is accepted resolves to that directory followed by
  plain components; every other reference, also one full of \<^verbatim>\<open>..\<close>, is refused or resolves
  below the directory.
\<close>

theorem resolveFileRef_confined:
  assumes "ledger_root path cs" and "resolveFileRef path ref = Inr full"
  shows "\<exists>ds. full = rooted_path (cs @ ds) \<and> (\<forall>c \<in> set ds. plain_comp c)"
proof -
  have ref: "TrimSpace ref \<noteq> []" "\<not> IsAbs (TrimSpace ref)"
    using assms(2) by (auto simp: resolveFileRef_def Let_def split: if_splits)
  have "IsAbs (''/'' @ TrimSpace ref)" by (simp add: IsAbs_def HasPrefix_def)
  then obtain ds where ds: "path_Clean (''/'' @ TrimSpace ref) = rooted_path ds" "\<forall>c \<in> set ds. plain_comp c"
    by (rule path_Clean_rooted)
  from resolveFileRef_rooted [OF assms(1) ds ref] assms(2) ds(2) show ?thesis by auto
qed

theorem resolveFileRef_confined_witness:
  "\<exists>ds. ''/g/session-events/c'' = rooted_path ([''g''] @ ds)"
proof -
  have "resolveFileRef (le_path sample_ledger_env) ''session-events/../../../session-events/c'' = Inr ''/g/session-events/c''"
    by code_simp
  from resolveFileRef_confined [OF sample_ledger_root this] show ?thesis by blast
qed

text \<open>
  A ledger named by a bare file name refuses every event. With no directory in the path
  the base is \<^verbatim>\<open>.\<close>, which is no prefix of the resolved file, so that the file of every
  session is taken to lie outside the ledger.
\<close>

theorem bare_ledger_path_refuses:
  "resolveFileRef ''ledger.db'' ''session-events/ab.events'' =
     Inl (Wrapped ErrLedgerCorrupt (errors_New ''event file ref escapes ledger root''))"
  by code_simp

end
