(* ===== verification/Timed_Log.thy ===== *)
theory Timed_Log
  imports Kernel_Core
begin

text \<open>
  Projections that depend on the order of the log. A component reads only its own events and
  stamps each with a reading of the clock; when the clock does not step back, the component
  sees its events in the order it appended them, whatever the other components append. The
  locale states what such a projection skips; its lemmas carry the projection over appends.
\<close>

locale timed_projection =
  fixes step :: "'s \<Rightarrow> StoredEvent \<Rightarrow> 's res"
    and init :: 's
    and relevant :: "StoredEvent \<Rightarrow> bool"
  assumes step_skip: "\<not> relevant e \<Longrightarrow> step s e = Inr s"
begin

definition rows :: "kernel \<Rightarrow> StoredEvent list" where
  "rows k = filter relevant (k_rows k)"

definition in_time :: "kernel \<Rightarrow> bool" where
  "in_time k \<longleftrightarrow> mono (env_clock (k_env k)) \<and> sorted (map ev_CreatedAt (rows k)) \<and>
     (\<forall>e \<in> set (rows k). ev_CreatedAt e \<le> env_clock (k_env k) (k_ticks k))"

definition view :: "kernel \<Rightarrow> 's res" where
  "view k = replay step init (rows k)"

lemma in_time_empty: "mono (env_clock (k_env k)) \<Longrightarrow> k_rows k = [] \<Longrightarrow> in_time k"
  by (simp add: in_time_def rows_def)

lemma view_empty: "k_rows k = [] \<Longrightarrow> view k = Inr init"
  by (simp add: view_def rows_def)

lemma load_view:
  assumes "in_time k" and "loadEvents k = Inr es"
  shows "replay step init es = view k"
proof -
  have "filter relevant es = rows k"
    using loadEvents_filter [OF assms(2), of relevant] assms(1)
    by (simp add: in_time_def rows_def sort_key_id_if_sorted)
  then show ?thesis using replay_filter [of relevant step, OF step_skip] by (metis view_def)
qed

lemma clock_grows:
  assumes "in_time k" and "kernel_ext k k' es"
  shows "env_clock (k_env k) (k_ticks k) \<le> env_clock (k_env k') (k_ticks k')"
  using assms by (simp add: in_time_def kernel_ext_def mono_def)

lemma in_time_skip:
  assumes "in_time k" and "kernel_ext k k' es" and "\<forall>e \<in> set es. \<not> relevant e"
  shows "in_time k'" and "view k' = view k"
proof -
  have rows: "rows k' = rows k" using assms(2,3) by (simp add: rows_def kernel_ext_def)
  then show "view k' = view k" by (simp add: view_def)
  show "in_time k'"
    using assms(1,2) clock_grows [OF assms(1,2)] unfolding in_time_def rows kernel_ext_def by (metis order_trans)
qed

lemma in_time_event_at:
  assumes "in_time k" and "kernel_ext k k' [e]"
    and "\<forall>x \<in> set (rows k). ev_CreatedAt x \<le> ev_CreatedAt e" and "ev_CreatedAt e \<le> env_clock (k_env k') (k_ticks k')"
  shows "in_time k'" and "view k' = bind_res (view k) (\<lambda>s. step s e)"
proof -
  have rows: "rows k' = rows k @ (if relevant e then [e] else [])"
    using assms(2) by (simp add: rows_def kernel_ext_def)
  have old: "\<forall>x \<in> set (rows k). ev_CreatedAt x \<le> env_clock (k_env k) (k_ticks k)"
    and sorted: "sorted (map ev_CreatedAt (rows k))" and mono: "mono (env_clock (k_env k))"
    using assms(1) by (simp_all add: in_time_def)
  have env: "k_env k' = k_env k" using assms(2) by (simp add: kernel_ext_def)
  have "sorted (map ev_CreatedAt (rows k'))" using sorted assms(3) by (simp add: rows sorted_append)
  moreover have "\<forall>x \<in> set (rows k'). ev_CreatedAt x \<le> env_clock (k_env k') (k_ticks k')"
    using assms(3,4) order_trans [OF _ clock_grows [OF assms(1,2)]] old by (auto simp: rows split: if_splits)
  ultimately show "in_time k'" using mono env by (simp add: in_time_def)
  show "view k' = bind_res (view k) (\<lambda>s. step s e)"
    by (cases "relevant e"; cases "view k") (simp_all add: view_def rows replay_snoc step_skip)
qed

lemma in_time_event:
  assumes "in_time k" and "kernel_ext k k' [e]" and "ev_CreatedAt e = fst (clock k)"
  shows "in_time k'" and "view k' = bind_res (view k) (\<lambda>s. step s e)"
proof -
  have e: "ev_CreatedAt e = env_clock (k_env k) (k_ticks k)" using assms(3) by (simp add: clock_def)
  then have "\<forall>x \<in> set (rows k). ev_CreatedAt x \<le> ev_CreatedAt e" using assms(1) by (simp add: in_time_def)
  from in_time_event_at [OF assms(1,2) this] clock_grows [OF assms(1,2)] e
  show "in_time k'" and "view k' = bind_res (view k) (\<lambda>s. step s e)" by simp_all
qed

end

text \<open>
  The idiom with which most operations end: read the clock, stamp an event with it, append
  the event and return a value that is built from the same reading.
\<close>

definition stamp_append :: "(time \<Rightarrow> string \<Rightarrow> StoredEvent) \<Rightarrow> (time \<Rightarrow> 'a) \<Rightarrow> kernel \<Rightarrow> 'a res \<times> kernel" where
  "stamp_append event x k =
     (let (now, k) = clock k;
          (eventID, k) = newID ''evt'' now k
      in append_return (event now eventID) (x now) k)"

lemma stamp_append_cases [consumes 1, case_names appended failed]:
  assumes "stamp_append event x k = (r, k')"
  obtains i where "r = Inr (x (fst (clock k)))" and "kernel_ext k k' [event (fst (clock k)) i]"
  | err where "r = Inl err" and "kernel_ext k k' []" and "errors_Is err ErrLedgerUnavailable"
proof -
  define i where "i = fst (newID ''evt'' (fst (clock k)) (snd (clock k)))"
  have "append_return (event (fst (clock k)) i) (x (fst (clock k)))
      (snd (newID ''evt'' (fst (clock k)) (snd (clock k)))) = (r, k')"
    using assms by (simp add: stamp_append_def Let_def case_prod_unfold i_def)
  then show ?thesis
  proof (cases rule: append_return_cases)
    case appended
    then show ?thesis by (intro that(1)) (auto intro: kernel_ext_stamp1)
  next
    case (failed err)
    then show ?thesis by (intro that(2)) (auto intro: kernel_ext_stamp1)
  qed
qed

end
