(* ===== verification/Memory_Review.thy ===== *)
theory Memory_Review
  imports Timed_Log Sample_Kernel
begin

text \<open>
  Memory candidates and their review (\<^verbatim>\<open>memory.go\<close>, \<^verbatim>\<open>memory_types.go\<close>): creation, approval,
  rejection, supersession by a replacement, forgetting, and the projection of the log to the
  current candidates.
\<close>

section \<open>Model\<close>

abbreviation MemoryCandidatePending :: string where "MemoryCandidatePending \<equiv> ''pending''"
abbreviation MemoryCandidateApproved :: string where "MemoryCandidateApproved \<equiv> ''approved''"
abbreviation MemoryCandidateRejected :: string where "MemoryCandidateRejected \<equiv> ''rejected''"
abbreviation MemoryCandidateSuperseded :: string where "MemoryCandidateSuperseded \<equiv> ''superseded''"
abbreviation MemoryCandidateForgotten :: string where "MemoryCandidateForgotten \<equiv> ''forgotten''"

definition ErrMemoryCandidateNotFound :: go_error where
  "ErrMemoryCandidateNotFound = Sentinel ''memory candidate not found''"

record MemoryCandidateRequest =
  mq_SessionID :: string
  mq_Text :: string
  mq_SourceRef :: string
  mq_Kind :: string
  mq_Scope :: string
  mq_AppliesWhen :: string
  mq_YieldsTo :: string
  mq_Strength :: string

record MemoryApprovalRequest =
  ma_ApprovalAuthority :: string
  ma_ApprovalReason :: string
  ma_ApprovalEvidenceRef :: string

record MemoryRejectionRequest =
  mr_RejectionAuthority :: string
  mr_RejectionReason :: string
  mr_RejectionEvidenceRef :: string

record MemorySupersessionRequest =
  ms_ReplacementText :: string
  ms_ReplacementSourceRef :: string
  ms_SupersessionAuthority :: string
  ms_SupersessionReason :: string
  ms_SupersessionEvidenceRef :: string

record MemoryForgetRequest =
  mf_ForgetAuthority :: string
  mf_ForgetReason :: string
  mf_ForgetEvidenceRef :: string

record MemorySupersessionProjection =
  msp_Superseded :: MemoryCandidateProjection
  msp_Replacement :: MemoryCandidateProjection

subsection \<open>Validation\<close>

definition validMemoryCandidateStatus :: "string \<Rightarrow> bool" where
  "validMemoryCandidateStatus status \<longleftrightarrow> status \<in> {MemoryCandidatePending, MemoryCandidateApproved,
     MemoryCandidateRejected, MemoryCandidateSuperseded, MemoryCandidateForgotten}"

definition validMemoryKind :: "string \<Rightarrow> bool" where
  "validMemoryKind kind \<longleftrightarrow> kind \<in> {''preference'', ''heuristic'', ''method'', ''lesson'', ''project_overlay'',
     ''capability_hint'', ''memory_fact''}"

definition validMemoryScope :: "string \<Rightarrow> bool" where
  "validMemoryScope scope \<longleftrightarrow> scope \<in> {''global'', ''project'', ''workspace'', ''capability''}"

definition validMemoryStrength :: "string \<Rightarrow> bool" where
  "validMemoryStrength strength \<longleftrightarrow> strength \<in> {''weak_hint'', ''preference'', ''strong_rule'', ''contract_hint''}"

record memoryCandidateMetadata =
  md_kind :: string
  md_scope :: string
  md_appliesWhen :: string
  md_yieldsTo :: string
  md_strength :: string

definition normalizedMemoryCandidateMetadata :: "MemoryCandidateRequest \<Rightarrow> memoryCandidateMetadata res" where
  "normalizedMemoryCandidateMetadata req =
     (let kind = TrimSpace (mq_Kind req);
          kind = (if kind = [] then ''memory_fact'' else kind)
      in if \<not> validMemoryKind kind then Inl (Errorf ''unsupported memory candidate kind %q'' [kind])
         else
      let scope = TrimSpace (mq_Scope req);
          scope = (if scope = [] then ''global'' else scope)
      in if \<not> validMemoryScope scope then Inl (Errorf ''unsupported memory candidate scope %q'' [scope])
         else
      let strength = TrimSpace (mq_Strength req);
          strength = (if strength = [] then ''weak_hint'' else strength)
      in if \<not> validMemoryStrength strength then Inl (Errorf ''unsupported memory candidate strength %q'' [strength])
         else Inr \<lparr>md_kind = kind, md_scope = scope, md_appliesWhen = TrimSpace (mq_AppliesWhen req),
                md_yieldsTo = TrimSpace (mq_YieldsTo req), md_strength = strength\<rparr>)"

definition validateMemoryCandidateRequest :: "MemoryCandidateRequest \<Rightarrow> go_error option" where
  "validateMemoryCandidateRequest req =
     (if TrimSpace (mq_SessionID req) = [] then Some (errors_New ''session_id is required'')
      else if TrimSpace (mq_Text req) = [] then Some (errors_New ''text is required'')
      else if TrimSpace (mq_SourceRef req) = [] then Some (errors_New ''source_ref is required'')
      else first_error
        [validateKernelControlToken ''session_id'' (mq_SessionID req),
         validateKernelRef ''source_ref'' (mq_SourceRef req),
         (case normalizedMemoryCandidateMetadata req of Inl err \<Rightarrow> Some err | Inr _ \<Rightarrow> None)])"

definition validateMemoryApprovalRequest :: "MemoryApprovalRequest \<Rightarrow> go_error option" where
  "validateMemoryApprovalRequest req =
     (if TrimSpace (ma_ApprovalAuthority req) = [] then Some (errors_New ''approval_authority is required'')
      else if TrimSpace (ma_ApprovalReason req) = [] then Some (errors_New ''approval_reason is required'')
      else if TrimSpace (ma_ApprovalEvidenceRef req) = [] then Some (errors_New ''approval_evidence_ref is required'')
      else first_error
        [validateKernelAuthority ''approval_authority'' (ma_ApprovalAuthority req),
         validateKernelRef ''approval_evidence_ref'' (ma_ApprovalEvidenceRef req)])"

definition validateMemoryRejectionRequest :: "MemoryRejectionRequest \<Rightarrow> go_error option" where
  "validateMemoryRejectionRequest req =
     (if TrimSpace (mr_RejectionAuthority req) = [] then Some (errors_New ''rejection_authority is required'')
      else if TrimSpace (mr_RejectionReason req) = [] then Some (errors_New ''rejection_reason is required'')
      else if TrimSpace (mr_RejectionEvidenceRef req) = [] then Some (errors_New ''rejection_evidence_ref is required'')
      else first_error
        [validateKernelAuthority ''rejection_authority'' (mr_RejectionAuthority req),
         validateKernelRef ''rejection_evidence_ref'' (mr_RejectionEvidenceRef req)])"

definition validateMemorySupersessionRequest :: "MemorySupersessionRequest \<Rightarrow> go_error option" where
  "validateMemorySupersessionRequest req =
     (if TrimSpace (ms_ReplacementText req) = [] then Some (errors_New ''replacement_text is required'')
      else if TrimSpace (ms_ReplacementSourceRef req) = [] then Some (errors_New ''replacement_source_ref is required'')
      else if TrimSpace (ms_SupersessionAuthority req) = [] then Some (errors_New ''supersession_authority is required'')
      else if TrimSpace (ms_SupersessionReason req) = [] then Some (errors_New ''supersession_reason is required'')
      else if TrimSpace (ms_SupersessionEvidenceRef req) = [] then Some (errors_New ''supersession_evidence_ref is required'')
      else first_error
        [validateKernelRef ''replacement_source_ref'' (ms_ReplacementSourceRef req),
         validateKernelAuthority ''supersession_authority'' (ms_SupersessionAuthority req),
         validateKernelRef ''supersession_evidence_ref'' (ms_SupersessionEvidenceRef req)])"

definition validateMemoryForgetRequest :: "MemoryForgetRequest \<Rightarrow> go_error option" where
  "validateMemoryForgetRequest req =
     (if TrimSpace (mf_ForgetAuthority req) = [] then Some (errors_New ''forget_authority is required'')
      else if TrimSpace (mf_ForgetReason req) = [] then Some (errors_New ''forget_reason is required'')
      else if TrimSpace (mf_ForgetEvidenceRef req) = [] then Some (errors_New ''forget_evidence_ref is required'')
      else first_error
        [validateKernelAuthority ''forget_authority'' (mf_ForgetAuthority req),
         validateKernelRef ''forget_evidence_ref'' (mf_ForgetEvidenceRef req)])"

subsection \<open>The projection of the log\<close>

text \<open>\<open>sameOptionalTime\<close> is equality of the two optional times.\<close>

definition sameMemoryCandidateCore :: "MemoryCandidateProjection \<Rightarrow> MemoryCandidateProjection \<Rightarrow> bool" where
  "sameMemoryCandidateCore left right \<longleftrightarrow>
     mc_CandidateID left = mc_CandidateID right \<and> mc_SessionID left = mc_SessionID right \<and>
     mc_Text left = mc_Text right \<and> mc_SourceRef left = mc_SourceRef right \<and>
     mc_Kind left = mc_Kind right \<and> mc_Scope left = mc_Scope right \<and>
     mc_AppliesWhen left = mc_AppliesWhen right \<and> mc_YieldsTo left = mc_YieldsTo right \<and>
     mc_Strength left = mc_Strength right \<and> mc_CreatedAt left = mc_CreatedAt right"

definition sameMemoryApprovalDecision :: "MemoryCandidateProjection \<Rightarrow> MemoryCandidateProjection \<Rightarrow> bool" where
  "sameMemoryApprovalDecision left right \<longleftrightarrow>
     mc_ApprovalAuthority left = mc_ApprovalAuthority right \<and> mc_ApprovalReason left = mc_ApprovalReason right \<and>
     mc_ApprovalEvidenceRef left = mc_ApprovalEvidenceRef right \<and> mc_ApprovedAt left = mc_ApprovedAt right"

definition sameMemoryRejectionDecision :: "MemoryCandidateProjection \<Rightarrow> MemoryCandidateProjection \<Rightarrow> bool" where
  "sameMemoryRejectionDecision left right \<longleftrightarrow>
     mc_RejectionAuthority left = mc_RejectionAuthority right \<and> mc_RejectionReason left = mc_RejectionReason right \<and>
     mc_RejectionEvidenceRef left = mc_RejectionEvidenceRef right \<and> mc_RejectedAt left = mc_RejectedAt right"

definition sameMemorySupersessionDecision :: "MemoryCandidateProjection \<Rightarrow> MemoryCandidateProjection \<Rightarrow> bool" where
  "sameMemorySupersessionDecision left right \<longleftrightarrow>
     mc_SupersessionAuthority left = mc_SupersessionAuthority right \<and>
     mc_SupersessionReason left = mc_SupersessionReason right \<and>
     mc_SupersessionEvidenceRef left = mc_SupersessionEvidenceRef right \<and>
     mc_ReplacementCandidateID left = mc_ReplacementCandidateID right \<and>
     mc_SupersededAt left = mc_SupersededAt right"

definition sameMemoryForgetDecision :: "MemoryCandidateProjection \<Rightarrow> MemoryCandidateProjection \<Rightarrow> bool" where
  "sameMemoryForgetDecision left right \<longleftrightarrow>
     mc_ForgetAuthority left = mc_ForgetAuthority right \<and> mc_ForgetReason left = mc_ForgetReason right \<and>
     mc_ForgetEvidenceRef left = mc_ForgetEvidenceRef right \<and> mc_ForgottenAt left = mc_ForgottenAt right"

text \<open>\<open>None\<close> is the argument \<open>exists = false\<close>.\<close>

definition mergeMemoryCandidateProjection ::
  "MemoryCandidateProjection option \<Rightarrow> MemoryCandidateProjection \<Rightarrow> MemoryCandidateProjection res" where
  "mergeMemoryCandidateProjection existing incoming =
     (case existing of
        None \<Rightarrow> Inr incoming
      | Some current \<Rightarrow>
          let competing = Inl (Errorf ''competing memory review evidence for %s'' [mc_CandidateID current])
          in if \<not> sameMemoryCandidateCore current incoming then competing
             else if mc_Status current = MemoryCandidateForgotten then
               (if mc_Status incoming = MemoryCandidateForgotten \<and> sameMemoryForgetDecision current incoming
                then Inr current else competing)
             else if mc_Status current = MemoryCandidateSuperseded then
               (if mc_Status incoming = MemoryCandidateForgotten then Inr incoming
                else if mc_Status incoming = MemoryCandidateSuperseded \<and> sameMemorySupersessionDecision current incoming
                then Inr current else competing)
             else if mc_Status incoming = MemoryCandidateForgotten then Inr incoming
             else if mc_Status incoming = MemoryCandidateSuperseded then Inr incoming
             else if mc_Status incoming = MemoryCandidateApproved then
               (if mc_Status current = MemoryCandidateRejected \<or> mc_Status current = MemoryCandidateSuperseded then competing
                else if mc_Status current = MemoryCandidateApproved \<and> \<not> sameMemoryApprovalDecision current incoming then competing
                else if mc_Status current = MemoryCandidateApproved then Inr current
                else Inr incoming)
             else if mc_Status incoming = MemoryCandidateRejected then
               (if mc_Status current = MemoryCandidateApproved \<or> mc_Status current = MemoryCandidateSuperseded then competing
                else if mc_Status current = MemoryCandidateRejected \<and> \<not> sameMemoryRejectionDecision current incoming then competing
                else if mc_Status current = MemoryCandidateRejected then Inr current
                else Inr incoming)
             else if mc_Status incoming = MemoryCandidatePending then
               (if mc_Status current \<noteq> MemoryCandidatePending then competing else Inr current)
             else Inl (Errorf ''unsupported memory candidate status %q'' [mc_Status incoming]))"

type_synonym memory_view = "MemoryCandidateProjection go_map \<times> string list"

definition candidateFromEvent :: "StoredEvent \<Rightarrow> MemoryCandidateProjection \<Rightarrow> string \<Rightarrow> MemoryCandidateProjection res" where
  "candidateFromEvent event candidate fallbackCandidateID =
     (let candidate = (if mc_CandidateID candidate = [] then candidate\<lparr>mc_CandidateID := fallbackCandidateID\<rparr> else candidate)
      in if mc_CandidateID candidate = [] then Inl (Errorf ''%s event missing candidate id'' [ev_Type event])
         else Inr candidate)"

definition recordMemoryCandidate :: "MemoryCandidateProjection \<Rightarrow> memory_view \<Rightarrow> memory_view res" where
  "recordMemoryCandidate candidate v =
     (let current = go_lookup (fst v) (mc_CandidateID candidate)
      in bind_res (mergeMemoryCandidateProjection current candidate) (\<lambda>merged.
           Inr (go_store (mc_CandidateID candidate) merged (fst v),
                if current = None then snd v @ [mc_CandidateID candidate] else snd v)))"

definition memory_step :: "memory_view \<Rightarrow> StoredEvent \<Rightarrow> memory_view res" where
  "memory_step v event =
     (case ed_MemoryCandidate (ev_Data event) of
        None \<Rightarrow> Inr v
      | Some payload \<Rightarrow>
          if ev_Type event \<in> {''memory.candidate.created'', ''memory.candidate.approved'', ''memory.candidate.rejected'',
              ''memory.candidate.superseded'', ''memory.candidate.forgotten''}
          then bind_res (candidateFromEvent event payload (ev_CandidateID event)) (\<lambda>candidate.
               bind_res (recordMemoryCandidate candidate v) (\<lambda>v.
                 if ev_Type event = ''memory.candidate.superseded''
                 then case ed_ReplacementMemoryCandidate (ev_Data event) of
                     None \<Rightarrow> Inl (errors_New ''superseded memory candidate missing replacement candidate'')
                   | Some payload \<Rightarrow>
                       bind_res (candidateFromEvent event payload []) (\<lambda>replacement. recordMemoryCandidate replacement v)
                 else Inr v))
          else Inr v)"

definition memoryCandidateList :: "kernel \<Rightarrow> (MemoryCandidateProjection list \<times> MemoryCandidateProjection go_map) res" where
  "memoryCandidateList k =
     bind_res (loadEvents k) (\<lambda>events.
     bind_res (replay memory_step ([], []) events) (\<lambda>(candidates, order).
       Inr (List.map_filter (go_lookup candidates) order, candidates)))"

definition memoryCandidates :: "kernel \<Rightarrow> MemoryCandidateProjection go_map res" where
  "memoryCandidates k = bind_res (memoryCandidateList k) (\<lambda>(_, candidates). Inr candidates)"

subsection \<open>The operations\<close>

definition pending_candidate ::
  "string \<Rightarrow> string \<Rightarrow> string \<Rightarrow> string \<Rightarrow> memoryCandidateMetadata \<Rightarrow> time \<Rightarrow> MemoryCandidateProjection" where
  "pending_candidate candidateID sessionID txt sourceRef metadata now =
     \<lparr>mc_CandidateID = candidateID, mc_SessionID = sessionID, mc_Text = txt, mc_SourceRef = sourceRef,
      mc_Kind = md_kind metadata, mc_Scope = md_scope metadata, mc_AppliesWhen = md_appliesWhen metadata,
      mc_YieldsTo = md_yieldsTo metadata, mc_Strength = md_strength metadata,
      mc_Status = MemoryCandidatePending, mc_CreatedAt = now,
      mc_ApprovalAuthority = [], mc_ApprovalReason = [], mc_ApprovalEvidenceRef = [], mc_ApprovedAt = None,
      mc_RejectionAuthority = [], mc_RejectionReason = [], mc_RejectionEvidenceRef = [], mc_RejectedAt = None,
      mc_SupersessionAuthority = [], mc_SupersessionReason = [], mc_SupersessionEvidenceRef = [],
      mc_ReplacementCandidateID = [], mc_SupersededAt = None,
      mc_ForgetAuthority = [], mc_ForgetReason = [], mc_ForgetEvidenceRef = [], mc_ForgottenAt = None\<rparr>"

definition memory_event :: "string \<Rightarrow> MemoryCandidateProjection \<Rightarrow> time \<Rightarrow> string \<Rightarrow> StoredEvent" where
  "memory_event typ candidate now eventID =
     no_event\<lparr>ev_EventID := eventID, ev_SessionID := mc_SessionID candidate, ev_CandidateID := mc_CandidateID candidate,
       ev_Type := typ, ev_CreatedAt := now, ev_Data := no_data\<lparr>ed_MemoryCandidate := Some candidate\<rparr>\<rparr>"

definition CreateMemoryCandidate :: "MemoryCandidateRequest \<Rightarrow> kernel \<Rightarrow> MemoryCandidateProjection res \<times> kernel" where
  "CreateMemoryCandidate req k =
     (case validateMemoryCandidateRequest req of Some err \<Rightarrow> (Inl err, k) | None \<Rightarrow>
      case normalizedMemoryCandidateMetadata req of Inl err \<Rightarrow> (Inl err, k) | Inr metadata \<Rightarrow>
      let (now, k) = clock k;
          (candidateID, k) = newID ''mem'' now k;
          candidate = pending_candidate candidateID (TrimSpace (mq_SessionID req)) (TrimSpace (mq_Text req))
            (TrimSpace (mq_SourceRef req)) metadata now;
          (eventID, k) = newID ''evt'' now k
      in append_return (memory_event ''memory.candidate.created'' candidate now eventID) candidate k)"

text \<open>The lookup with which every review begins.\<close>

definition review_candidate :: "string \<Rightarrow> kernel \<Rightarrow> (MemoryCandidateProjection \<times> MemoryCandidateProjection go_map) res" where
  "review_candidate candidateID k =
     bind_res (memoryCandidates k) (\<lambda>candidates.
       case go_lookup candidates candidateID of
         None \<Rightarrow> Inl ErrMemoryCandidateNotFound
       | Some candidate \<Rightarrow> Inr (candidate, candidates))"

definition approved_candidate :: "MemoryApprovalRequest \<Rightarrow> MemoryCandidateProjection \<Rightarrow> time \<Rightarrow> MemoryCandidateProjection" where
  "approved_candidate req candidate now =
     candidate\<lparr>mc_Status := MemoryCandidateApproved, mc_ApprovalAuthority := TrimSpace (ma_ApprovalAuthority req),
       mc_ApprovalReason := TrimSpace (ma_ApprovalReason req),
       mc_ApprovalEvidenceRef := TrimSpace (ma_ApprovalEvidenceRef req), mc_ApprovedAt := Some now\<rparr>"

definition ApproveMemoryCandidate ::
  "string \<Rightarrow> MemoryApprovalRequest \<Rightarrow> kernel \<Rightarrow> MemoryCandidateProjection res \<times> kernel" where
  "ApproveMemoryCandidate candidateID req k =
     (let candidateID = TrimSpace candidateID
      in if candidateID = [] then (Inl (errors_New ''candidate id is required''), k)
         else case validateMemoryApprovalRequest req of Some err \<Rightarrow> (Inl err, k) | None \<Rightarrow>
         case review_candidate candidateID k of Inl err \<Rightarrow> (Inl err, k) | Inr (candidate, _) \<Rightarrow>
         if mc_Status candidate = MemoryCandidateApproved then (Inr candidate, k)
         else if mc_Status candidate = MemoryCandidateRejected
         then (Inl (errors_New ''rejected memory candidate cannot be approved''), k)
         else if mc_Status candidate = MemoryCandidateSuperseded
         then (Inl (errors_New ''superseded memory candidate cannot be approved''), k)
         else if mc_Status candidate = MemoryCandidateForgotten
         then (Inl (errors_New ''forgotten memory candidate cannot be approved''), k)
         else stamp_append (\<lambda>now. memory_event ''memory.candidate.approved'' (approved_candidate req candidate now) now)
                (approved_candidate req candidate) k)"

definition rejected_candidate :: "MemoryRejectionRequest \<Rightarrow> MemoryCandidateProjection \<Rightarrow> time \<Rightarrow> MemoryCandidateProjection" where
  "rejected_candidate req candidate now =
     candidate\<lparr>mc_Status := MemoryCandidateRejected, mc_RejectionAuthority := TrimSpace (mr_RejectionAuthority req),
       mc_RejectionReason := TrimSpace (mr_RejectionReason req),
       mc_RejectionEvidenceRef := TrimSpace (mr_RejectionEvidenceRef req), mc_RejectedAt := Some now\<rparr>"

definition RejectMemoryCandidate ::
  "string \<Rightarrow> MemoryRejectionRequest \<Rightarrow> kernel \<Rightarrow> MemoryCandidateProjection res \<times> kernel" where
  "RejectMemoryCandidate candidateID req k =
     (let candidateID = TrimSpace candidateID
      in if candidateID = [] then (Inl (errors_New ''candidate id is required''), k)
         else case validateMemoryRejectionRequest req of Some err \<Rightarrow> (Inl err, k) | None \<Rightarrow>
         case review_candidate candidateID k of Inl err \<Rightarrow> (Inl err, k) | Inr (candidate, _) \<Rightarrow>
         if mc_Status candidate = MemoryCandidateRejected then (Inr candidate, k)
         else if mc_Status candidate = MemoryCandidateApproved
         then (Inl (errors_New ''approved memory candidate cannot be rejected''), k)
         else if mc_Status candidate = MemoryCandidateSuperseded
         then (Inl (errors_New ''superseded memory candidate cannot be rejected''), k)
         else if mc_Status candidate = MemoryCandidateForgotten
         then (Inl (errors_New ''forgotten memory candidate cannot be rejected''), k)
         else stamp_append (\<lambda>now. memory_event ''memory.candidate.rejected'' (rejected_candidate req candidate now) now)
                (rejected_candidate req candidate) k)"

definition existingMemorySupersession ::
  "MemoryCandidateProjection \<Rightarrow> MemoryCandidateProjection go_map \<Rightarrow> MemorySupersessionProjection res" where
  "existingMemorySupersession candidate candidates =
     (if TrimSpace (mc_ReplacementCandidateID candidate) = []
      then Inl (errors_New ''superseded memory candidate missing replacement id'')
      else case go_lookup candidates (mc_ReplacementCandidateID candidate) of
          None \<Rightarrow> Inl (errors_New ''superseded memory candidate replacement not found'')
        | Some replacement \<Rightarrow> Inr \<lparr>msp_Superseded = candidate, msp_Replacement = replacement\<rparr>)"

definition replacement_candidate ::
  "MemorySupersessionRequest \<Rightarrow> MemoryCandidateProjection \<Rightarrow> string \<Rightarrow> time \<Rightarrow> MemoryCandidateProjection" where
  "replacement_candidate req candidate candidateID now =
     pending_candidate candidateID (mc_SessionID candidate) (TrimSpace (ms_ReplacementText req))
       (TrimSpace (ms_ReplacementSourceRef req))
       \<lparr>md_kind = mc_Kind candidate, md_scope = mc_Scope candidate, md_appliesWhen = mc_AppliesWhen candidate,
        md_yieldsTo = mc_YieldsTo candidate, md_strength = mc_Strength candidate\<rparr> now"

definition superseded_candidate ::
  "MemorySupersessionRequest \<Rightarrow> MemoryCandidateProjection \<Rightarrow> string \<Rightarrow> time \<Rightarrow> MemoryCandidateProjection" where
  "superseded_candidate req candidate replacementID now =
     candidate\<lparr>mc_Status := MemoryCandidateSuperseded,
       mc_SupersessionAuthority := TrimSpace (ms_SupersessionAuthority req),
       mc_SupersessionReason := TrimSpace (ms_SupersessionReason req),
       mc_SupersessionEvidenceRef := TrimSpace (ms_SupersessionEvidenceRef req),
       mc_ReplacementCandidateID := replacementID, mc_SupersededAt := Some now\<rparr>"

definition supersession_event ::
  "MemoryCandidateProjection \<Rightarrow> MemoryCandidateProjection \<Rightarrow> time \<Rightarrow> string \<Rightarrow> StoredEvent" where
  "supersession_event candidate replacement now eventID =
     (memory_event ''memory.candidate.superseded'' candidate now eventID)
       \<lparr>ev_Data := no_data\<lparr>ed_MemoryCandidate := Some candidate, ed_ReplacementMemoryCandidate := Some replacement\<rparr>\<rparr>"

definition SupersedeMemoryCandidate ::
  "string \<Rightarrow> MemorySupersessionRequest \<Rightarrow> kernel \<Rightarrow> MemorySupersessionProjection res \<times> kernel" where
  "SupersedeMemoryCandidate candidateID req k =
     (let candidateID = TrimSpace candidateID
      in if candidateID = [] then (Inl (errors_New ''candidate id is required''), k)
         else case validateMemorySupersessionRequest req of Some err \<Rightarrow> (Inl err, k) | None \<Rightarrow>
         case review_candidate candidateID k of Inl err \<Rightarrow> (Inl err, k) | Inr (candidate, candidates) \<Rightarrow>
         if mc_Status candidate = MemoryCandidateSuperseded
         then (existingMemorySupersession candidate candidates, k)
         else if mc_Status candidate = MemoryCandidateForgotten
         then (Inl (errors_New ''forgotten memory candidate cannot be superseded''), k)
         else
           let (now, k) = clock k;
               (replacementID, k) = newID ''mem'' now k;
               replacement = replacement_candidate req candidate replacementID now;
               candidate = superseded_candidate req candidate replacementID now;
               (eventID, k) = newID ''evt'' now k
           in append_return (supersession_event candidate replacement now eventID)
                \<lparr>msp_Superseded = candidate, msp_Replacement = replacement\<rparr> k)"

definition forgotten_candidate :: "MemoryForgetRequest \<Rightarrow> MemoryCandidateProjection \<Rightarrow> time \<Rightarrow> MemoryCandidateProjection" where
  "forgotten_candidate req candidate now =
     candidate\<lparr>mc_Status := MemoryCandidateForgotten, mc_ForgetAuthority := TrimSpace (mf_ForgetAuthority req),
       mc_ForgetReason := TrimSpace (mf_ForgetReason req),
       mc_ForgetEvidenceRef := TrimSpace (mf_ForgetEvidenceRef req), mc_ForgottenAt := Some now\<rparr>"

definition ForgetMemoryCandidate ::
  "string \<Rightarrow> MemoryForgetRequest \<Rightarrow> kernel \<Rightarrow> MemoryCandidateProjection res \<times> kernel" where
  "ForgetMemoryCandidate candidateID req k =
     (let candidateID = TrimSpace candidateID
      in if candidateID = [] then (Inl (errors_New ''candidate id is required''), k)
         else case validateMemoryForgetRequest req of Some err \<Rightarrow> (Inl err, k) | None \<Rightarrow>
         case review_candidate candidateID k of Inl err \<Rightarrow> (Inl err, k) | Inr (candidate, _) \<Rightarrow>
         if mc_Status candidate = MemoryCandidateForgotten then (Inr candidate, k)
         else stamp_append (\<lambda>now. memory_event ''memory.candidate.forgotten'' (forgotten_candidate req candidate now) now)
                (forgotten_candidate req candidate) k)"

definition MemoryCandidates :: "string \<Rightarrow> kernel \<Rightarrow> MemoryCandidateProjection list res" where
  "MemoryCandidates status k =
     (let status = TrimSpace status
      in if status \<noteq> [] \<and> \<not> validMemoryCandidateStatus status
         then Inl (Errorf ''unsupported memory candidate status %q'' [status])
         else bind_res (memoryCandidateList k) (\<lambda>(candidates, _).
           if status = [] then Inr candidates
           else Inr (filter (\<lambda>candidate. mc_Status candidate = status) candidates)))"

definition MemoryCandidate :: "string \<Rightarrow> kernel \<Rightarrow> MemoryCandidateProjection res" where
  "MemoryCandidate candidateID k =
     (let candidateID = TrimSpace candidateID
      in if candidateID = [] then Inl (errors_New ''candidate id is required'')
         else bind_res (review_candidate candidateID k) (\<lambda>(candidate, _). Inr candidate))"

section \<open>The life of a candidate\<close>

text \<open>
  The abstract specification of a review: a pending candidate may be approved or rejected, any
  candidate that was not superseded or forgotten may be superseded, and any may be forgotten.
\<close>

definition lifecycle :: "string \<Rightarrow> string \<Rightarrow> bool" where
  "lifecycle s s' \<longleftrightarrow> s' = s \<or> s = MemoryCandidatePending \<or> s' = MemoryCandidateForgotten \<or>
     s \<in> {MemoryCandidateApproved, MemoryCandidateRejected} \<and> s' = MemoryCandidateSuperseded"

text \<open>What a later record of a candidate keeps of an earlier one.\<close>

definition reviewed :: "MemoryCandidateProjection \<Rightarrow> MemoryCandidateProjection \<Rightarrow> bool" where
  "reviewed c c' \<longleftrightarrow> sameMemoryCandidateCore c c' \<and> lifecycle (mc_Status c) (mc_Status c') \<and>
     (mc_Status c = mc_Status c' \<longrightarrow> c = c') \<and>
     (mc_ApprovedAt c \<noteq> None \<longrightarrow> sameMemoryApprovalDecision c c') \<and>
     (mc_RejectedAt c \<noteq> None \<longrightarrow> sameMemoryRejectionDecision c c') \<and>
     (mc_SupersededAt c \<noteq> None \<longrightarrow> sameMemorySupersessionDecision c c')"

text \<open>The evidence a record carries is that of the decisions its status allows.\<close>

definition candidate_ok :: "MemoryCandidateProjection \<Rightarrow> bool" where
  "candidate_ok c \<longleftrightarrow> mc_CandidateID c \<noteq> [] \<and> validMemoryCandidateStatus (mc_Status c) \<and>
     (mc_Status c = MemoryCandidatePending \<longrightarrow> mc_ApprovedAt c = None \<and> mc_RejectedAt c = None) \<and>
     (mc_Status c \<in> {MemoryCandidatePending, MemoryCandidateApproved, MemoryCandidateRejected} \<longrightarrow>
        mc_SupersededAt c = None) \<and>
     (if mc_SupersededAt c = None then mc_ReplacementCandidateID c = []
      else TrimSpace (mc_ReplacementCandidateID c) \<noteq> []) \<and>
     (mc_Status c = MemoryCandidateSuperseded \<longrightarrow> mc_SupersededAt c \<noteq> None)"

lemmas same_decision_defs = sameMemoryApprovalDecision_def sameMemoryRejectionDecision_def
  sameMemorySupersessionDecision_def sameMemoryForgetDecision_def

lemma lifecycle_refl [simp]: "lifecycle s s"
  by (simp add: lifecycle_def)

lemma lifecycle_antisym:
  "lifecycle s s' \<Longrightarrow> lifecycle s' s \<Longrightarrow> validMemoryCandidateStatus s \<Longrightarrow> validMemoryCandidateStatus s' \<Longrightarrow> s = s'"
  by (auto simp: lifecycle_def validMemoryCandidateStatus_def)

lemma lifecycle_trans: "lifecycle s s' \<Longrightarrow> lifecycle s' s'' \<Longrightarrow> validMemoryCandidateStatus s'' \<Longrightarrow> lifecycle s s''"
  unfolding lifecycle_def validMemoryCandidateStatus_def by auto

lemma reviewed_refl [simp]: "reviewed c c"
  by (simp add: reviewed_def sameMemoryCandidateCore_def same_decision_defs)

lemma sameMemoryCandidateCore_trans:
  "sameMemoryCandidateCore c c' \<Longrightarrow> sameMemoryCandidateCore c' c'' \<Longrightarrow> sameMemoryCandidateCore c c''"
  by (simp add: sameMemoryCandidateCore_def)

lemma reviewed_trans:
  assumes "reviewed c c'" and "reviewed c' c''" and "candidate_ok c'" and "candidate_ok c''"
  shows "reviewed c c''"
proof -
  have valid: "validMemoryCandidateStatus (mc_Status c')" "validMemoryCandidateStatus (mc_Status c'')"
    using assms(3,4) by (simp_all add: candidate_ok_def)
  have life: "lifecycle (mc_Status c) (mc_Status c')" "lifecycle (mc_Status c') (mc_Status c'')"
    using assms(1,2) by (simp_all add: reviewed_def)
  have "c = c''" if "mc_Status c = mc_Status c''"
    using lifecycle_antisym [of "mc_Status c'" "mc_Status c''"] life valid that assms(1,2) by (simp add: reviewed_def)
  moreover have "sameMemoryCandidateCore c c''"
    using assms(1,2) sameMemoryCandidateCore_trans unfolding reviewed_def by blast
  moreover have "mc_ApprovedAt c \<noteq> None \<longrightarrow> sameMemoryApprovalDecision c c''"
    "mc_RejectedAt c \<noteq> None \<longrightarrow> sameMemoryRejectionDecision c c''"
    "mc_SupersededAt c \<noteq> None \<longrightarrow> sameMemorySupersessionDecision c c''"
    using assms(1,2) unfolding reviewed_def same_decision_defs by metis+
  ultimately show ?thesis using lifecycle_trans [OF life valid(2)] unfolding reviewed_def by blast
qed

text \<open>A decision is recorded as it is: the merge of the log agrees with the lifecycle.\<close>

lemma merge_reviewed:
  assumes "reviewed c c'" and "candidate_ok c" and "candidate_ok c'" and "mc_Status c \<noteq> mc_Status c'"
  shows "mergeMemoryCandidateProjection (Some c) c' = Inr c'"
proof -
  have core: "sameMemoryCandidateCore c c'" and life: "lifecycle (mc_Status c) (mc_Status c')"
    and valid: "validMemoryCandidateStatus (mc_Status c)" "validMemoryCandidateStatus (mc_Status c')"
    using assms by (simp_all add: reviewed_def candidate_ok_def)
  from life valid assms(4) consider "mc_Status c' = MemoryCandidateForgotten" "mc_Status c \<noteq> MemoryCandidateForgotten"
    | "mc_Status c' = MemoryCandidateSuperseded" "mc_Status c \<in> {MemoryCandidatePending, MemoryCandidateApproved, MemoryCandidateRejected}"
    | "mc_Status c' \<in> {MemoryCandidateApproved, MemoryCandidateRejected}" "mc_Status c = MemoryCandidatePending"
    unfolding lifecycle_def validMemoryCandidateStatus_def by auto
  then show ?thesis
    by cases (use core in \<open>auto simp: mergeMemoryCandidateProjection_def Let_def\<close>)
qed

section \<open>The view of the log\<close>

definition is_memory_event :: "StoredEvent \<Rightarrow> bool" where
  "is_memory_event e \<longleftrightarrow> ed_MemoryCandidate (ev_Data e) \<noteq> None"

interpretation mv: timed_projection memory_step "([], []) :: memory_view" is_memory_event
  by unfold_locales (auto simp: memory_step_def is_memory_event_def)

text \<open>
  A well-formed view: the order lists the keys of the map, every record has its key and fits
  its status, and the replacement of a record stands behind it in \<open>L\<close>, which is the order
  followed by the candidates about to be recorded.
\<close>

definition behind :: "string list \<Rightarrow> string \<Rightarrow> string \<Rightarrow> bool" where
  "behind L i j \<longleftrightarrow> (\<exists>xs ys. L = xs @ ys \<and> i \<in> set xs \<and> j \<in> set ys)"

definition view_ok :: "string set \<Rightarrow> string list \<Rightarrow> memory_view \<Rightarrow> bool" where
  "view_ok A L v \<longleftrightarrow> snd v = map fst (fst v) \<and> distinct (snd v) \<and> prefix (snd v) L \<and> distinct L \<and>
     (\<forall>i c. go_lookup (fst v) i = Some c \<longrightarrow> mc_CandidateID c = i \<and> i \<in> A \<and> candidate_ok c \<and>
        (mc_ReplacementCandidateID c \<noteq> [] \<longrightarrow> behind L i (mc_ReplacementCandidateID c)))"

definition view_le :: "memory_view \<Rightarrow> memory_view \<Rightarrow> bool" where
  "view_le v v' \<longleftrightarrow> (\<forall>i c. go_lookup (fst v) i = Some c \<longrightarrow>
     (\<exists>c'. go_lookup (fst v') i = Some c' \<and> reviewed c c'))"

lemma behind_snoc: "behind L i j \<Longrightarrow> behind (L @ [x]) i j"
  unfolding behind_def by (metis append.assoc Un_iff set_append)

lemma behind_new: "i \<in> set L \<Longrightarrow> behind (L @ [j]) i j"
  unfolding behind_def by force

lemma view_okD:
  assumes "view_ok A L v" and "go_lookup (fst v) i = Some c"
  shows "mc_CandidateID c = i" and "i \<in> A" and "candidate_ok c"
    and "mc_ReplacementCandidateID c \<noteq> [] \<Longrightarrow> behind L i (mc_ReplacementCandidateID c)"
  using assms by (simp_all add: view_ok_def)

lemma view_ok_keys: "view_ok A L v \<Longrightarrow> snd v = map fst (fst v) \<and> distinct (snd v)"
  unfolding view_ok_def by blast

lemma view_ok_extend:
  assumes "view_ok A L v" and "A \<subseteq> B" and "j \<notin> set L"
  shows "view_ok B (L @ [j]) v"
  using assms by (auto simp: view_ok_def behind_snoc)

lemma view_ok_mono: "view_ok A L v \<Longrightarrow> A \<subseteq> B \<Longrightarrow> view_ok B L v"
  unfolding view_ok_def by (metis subsetD)

lemma map_fst_store_old: "go_lookup m i = Some c \<Longrightarrow> map fst (go_store i c' m) = map fst m"
  by (induction m) auto

lemma record_review:
  assumes ok: "view_ok A L v" and c: "go_lookup (fst v) i = Some c"
    and rev: "reviewed c c'" "candidate_ok c'" "mc_Status c \<noteq> mc_Status c'"
    and repl: "mc_ReplacementCandidateID c' = mc_ReplacementCandidateID c \<or> behind L i (mc_ReplacementCandidateID c')"
  shows "recordMemoryCandidate c' v = Inr (go_store i c' (fst v), snd v)" and "view_ok A L (go_store i c' (fst v), snd v)"
    and "view_le v (go_store i c' (fst v), snd v)"
proof -
  note cd = view_okD [OF ok c]
  have id: "mc_CandidateID c' = i" using rev(1) cd(1) by (simp add: reviewed_def sameMemoryCandidateCore_def)
  show "recordMemoryCandidate c' v = Inr (go_store i c' (fst v), snd v)"
    using merge_reviewed [OF rev(1) cd(3) rev(2,3)] c id by (simp add: recordMemoryCandidate_def)
  have "mc_ReplacementCandidateID c' \<noteq> [] \<longrightarrow> behind L i (mc_ReplacementCandidateID c')"
    using repl cd(4) by auto
  then show "view_ok A L (go_store i c' (fst v), snd v)"
    using ok id cd(2) rev(2) map_fst_store_old [OF c] by (auto simp: view_ok_def)
  show "view_le v (go_store i c' (fst v), snd v)"
    using c rev(1) by (auto simp: view_le_def)
qed

lemma record_new:
  assumes ok: "view_ok A L v" and L: "L = snd v @ [i]" and c: "mc_CandidateID c = i" "i \<in> A"
    "candidate_ok c" "mc_ReplacementCandidateID c = []"
  shows "recordMemoryCandidate c v = Inr (go_store i c (fst v), L)" and "view_ok A L (go_store i c (fst v), L)"
    and "view_le v (go_store i c (fst v), L)"
proof -
  have keys: "snd v = map fst (fst v)" and dist: "distinct L" using ok by (simp_all add: view_ok_def)
  with L have new: "i \<notin> fst ` set (fst v)" by auto
  then have none: "go_lookup (fst v) i = None" by (simp add: map_of_eq_None_iff)
  then show "recordMemoryCandidate c v = Inr (go_store i c (fst v), L)"
    using c(1) L by (simp add: recordMemoryCandidate_def mergeMemoryCandidateProjection_def)
  show "view_ok A L (go_store i c (fst v), L)"
    using ok dist keys L c go_store_new [OF new, of c] by (simp add: view_ok_def) (auto split: if_splits)
  show "view_le v (go_store i c (fst v), L)"
    using none by (auto simp: view_le_def intro: reviewed_refl)
qed

lemma view_le_refl [simp]: "view_le v v"
  by (auto simp: view_le_def)

lemma view_le_trans:
  assumes "view_le v v'" and "view_le v' v''" and "view_ok A L v'" and "view_ok B M v''"
  shows "view_le v v''"
  unfolding view_le_def
proof (intro allI impI)
  fix i c assume "go_lookup (fst v) i = Some c"
  with assms(1) obtain c' where c': "go_lookup (fst v') i = Some c'" "reviewed c c'" unfolding view_le_def by blast
  with assms(2) obtain c'' where c'': "go_lookup (fst v'') i = Some c''" "reviewed c' c''" unfolding view_le_def by blast
  from reviewed_trans [OF c'(2) c''(2) view_okD(3) [OF assms(3) c'(1)] view_okD(3) [OF assms(4) c''(1)]] c''(1)
  show "\<exists>c''. go_lookup (fst v'') i = Some c'' \<and> reviewed c c''" by blast
qed

section \<open>The invariant of the kernel\<close>

definition memory_inv :: "kernel \<Rightarrow> memory_view \<Rightarrow> bool" where
  "memory_inv k v \<longleftrightarrow> env_ok (k_env k) \<and> mv.in_time k \<and> mv.view k = Inr v \<and> view_ok (allocated k) (snd v) v"

definition memory_ext :: "kernel \<Rightarrow> kernel \<Rightarrow> bool" where
  "memory_ext k k' \<longleftrightarrow> (\<forall>v. memory_inv k v \<longrightarrow> (\<exists>v'. memory_inv k' v' \<and> view_le v v'))"

lemma memory_inv_candidate: "memory_inv k v \<Longrightarrow> go_lookup (fst v) i = Some c \<Longrightarrow> candidate_ok c"
  unfolding memory_inv_def by (metis view_okD(3))

lemma memory_ext_refl: "memory_ext k k"
  unfolding memory_ext_def using view_le_refl by blast

lemma memory_ext_trans:
  assumes "memory_ext k k'" and "memory_ext k' k''"
  shows "memory_ext k k''"
  unfolding memory_ext_def
proof (intro allI impI)
  fix v assume "memory_inv k v"
  with assms(1) obtain v' where v': "memory_inv k' v'" "view_le v v'" unfolding memory_ext_def by blast
  with assms(2) obtain v'' where v'': "memory_inv k'' v''" "view_le v' v''" unfolding memory_ext_def by blast
  have "view_le v v''"
    using view_le_trans [OF v'(2) v''(2)] v'(1) v''(1) unfolding memory_inv_def by blast
  with v''(1) show "\<exists>v'. memory_inv k'' v' \<and> view_le v v'" by blast
qed

lemma memory_ext_skip:
  assumes "kernel_ext k k' es" and "\<forall>e \<in> set es. \<not> is_memory_event e"
  shows "memory_ext k k'"
  unfolding memory_ext_def
proof (intro allI impI)
  fix v assume inv: "memory_inv k v"
  then have "mv.in_time k" by (simp add: memory_inv_def)
  from mv.in_time_skip [OF this assms] inv have "memory_inv k' v"
    using env_ok_ext [OF assms(1)] view_ok_mono [OF _ allocated_ext [OF assms(1)]] by (simp add: memory_inv_def)
  then show "\<exists>v'. memory_inv k' v' \<and> view_le v v'" using view_le_refl by blast
qed

lemma memory_ext_same: "kernel_ext k k' [] \<Longrightarrow> memory_ext k k'"
  by (erule memory_ext_skip) simp

lemma memory_inv_event:
  assumes "memory_inv k v" and "kernel_ext k k' [e]" and "ev_CreatedAt e = fst (clock k)"
    and "memory_step v e = Inr v'" and "view_ok (allocated k') (snd v') v'"
  shows "memory_inv k' v'"
proof -
  have t: "mv.in_time k" "mv.view k = Inr v" using assms(1) by (simp_all add: memory_inv_def)
  from mv.in_time_event [OF t(1) assms(2,3)] t(2) assms show ?thesis
    using env_ok_ext [OF assms(2)] by (simp add: memory_inv_def)
qed

text \<open>What a component reads in such a state.\<close>


lemma memory_read:
  assumes "memory_inv k v" and "loadEvents k = Inr es"
  shows "memoryCandidateList k = Inr (map snd (fst v), fst v)" and "memoryCandidates k = Inr (fst v)"
proof -
  have "replay memory_step ([], []) es = Inr v"
    using mv.load_view [OF _ assms(2)] assms(1) by (simp add: memory_inv_def)
  moreover have "snd v = map fst (fst v)" "distinct (map fst (fst v))"
    using assms(1) by (auto simp: memory_inv_def view_ok_def)
  ultimately show "memoryCandidateList k = Inr (map snd (fst v), fst v)"
    using assms(2) map_filter_keys by (simp add: memoryCandidateList_def case_prod_unfold)
  then show "memoryCandidates k = Inr (fst v)" by (simp add: memoryCandidates_def)
qed

lemma memory_read_any:
  assumes "memory_inv k v" and "memoryCandidates k = Inr cs"
  shows "cs = fst v"
proof -
  obtain es where "loadEvents k = Inr es"
    using assms(2) by (auto simp: memoryCandidates_def memoryCandidateList_def bind_res_Inr_iff)
  from memory_read(2) [OF assms(1) this] assms(2) show ?thesis by simp
qed

lemma review_candidate_lookup:
  assumes "memory_inv k v" and "review_candidate i k = Inr (c, cs)"
  shows "cs = fst v" and "go_lookup (fst v) i = Some c"
proof -
  obtain es where "loadEvents k = Inr es"
    using assms(2) by (auto simp: review_candidate_def memoryCandidates_def memoryCandidateList_def bind_res_Inr_iff)
  from memory_read(2) [OF assms(1) this] assms(2) show "cs = fst v" "go_lookup (fst v) i = Some c"
    by (auto simp: review_candidate_def split: option.splits)
qed

section \<open>The operations keep the invariant\<close>

text \<open>A stamped review: the record \<open>upd now\<close> of a candidate that is in the view.\<close>

lemma memory_step_review:
  assumes "ty \<in> {''memory.candidate.approved'', ''memory.candidate.rejected'', ''memory.candidate.forgotten''}"
    and "mc_CandidateID c \<noteq> []"
  shows "memory_step v (memory_event ty c now i) = recordMemoryCandidate c v"
  using assms by (auto simp: memory_step_def memory_event_def candidateFromEvent_def bind_res_def split: sum.splits)

lemma stamped_review:
  assumes inv: "memory_inv k v" and c: "go_lookup (fst v) i = Some c"
    and ty: "ty \<in> {''memory.candidate.approved'', ''memory.candidate.rejected'', ''memory.candidate.forgotten''}"
    and upd: "\<And>now. reviewed c (upd now)" "\<And>now. candidate_ok (upd now)" "\<And>now. mc_Status c \<noteq> mc_Status (upd now)"
      "\<And>now. mc_ReplacementCandidateID (upd now) = mc_ReplacementCandidateID c"
    and run: "stamp_append (\<lambda>now. memory_event ty (upd now) now) upd k = (r, k')"
  shows "\<exists>v'. memory_inv k' v' \<and> view_le v v' \<and> (\<forall>c'. r = Inr c' \<longrightarrow> go_lookup (fst v') i = Some c')"
  using run
proof (cases rule: stamp_append_cases)
  case (failed err)
  from memory_ext_same [OF failed(2)] inv obtain v' where "memory_inv k' v'" "view_le v v'"
    unfolding memory_ext_def by blast
  with failed(1) show ?thesis by blast
next
  case (appended n)
  let ?t = "fst (clock k)"
  let ?v = "(go_store i (upd ?t) (fst v), snd v)"
  have ok: "view_ok (allocated k) (snd v) v" using inv by (simp add: memory_inv_def)
  note rec = record_review [OF ok c upd(1-3) disjI1 [OF upd(4)], of ?t]
  have id: "mc_CandidateID (upd ?t) \<noteq> []" using upd(2) [of ?t] by (simp add: candidate_ok_def)
  have "memory_inv k' ?v"
  proof (rule memory_inv_event [OF inv appended(2)])
    show "memory_step v (memory_event ty (upd ?t) ?t n) = Inr ?v"
      using memory_step_review [OF ty id] rec(1) by simp
    show "view_ok (allocated k') (snd ?v) ?v"
      using view_ok_mono [OF rec(2) allocated_ext [OF appended(2)]] by simp
  qed (simp add: memory_event_def)
  with rec(3) appended(1) show ?thesis by (intro exI [of _ ?v]) simp
qed

lemma TrimSpace_newID [simp]: "TrimSpace (fst (newID ''mem'' t k)) \<noteq> []"
proof -
  have rune: "space_rune (fst (newID ''mem'' t k)) = 0" by (simp add: newID_def Let_def ascii_space_def split: option.splits)
  then show ?thesis using trim_right_nonempty [OF rune] by (simp add: TrimSpace_def trim_left_id)
qed

text \<open>The guards with which every decision begins.\<close>

lemma review_guards:
  assumes "(if b then (Inl e, k) else case val of Some err \<Rightarrow> (Inl err, k) | None \<Rightarrow>
      case rc of Inl err \<Rightarrow> (Inl err, k) | Inr (c, cs) \<Rightarrow> F c cs) = (r, k')"
  obtains err where "r = Inl err" and "k' = k" | c cs where "rc = Inr (c, cs)" and "F c cs = (r, k')"
  using assms by (cases b; cases val; cases rc) (auto split: prod.splits)

lemma ApproveMemoryCandidate_cases [consumes 1, case_names refused already decided]:
  assumes "ApproveMemoryCandidate i req k = (r, k')"
  obtains err where "r = Inl err" and "k' = k"
  | c cs where "review_candidate (TrimSpace i) k = Inr (c, cs)" and "mc_Status c = MemoryCandidateApproved"
      and "r = Inr c" and "k' = k"
  | c cs where "review_candidate (TrimSpace i) k = Inr (c, cs)" and "mc_Status c \<notin> {MemoryCandidateApproved, MemoryCandidateRejected, MemoryCandidateSuperseded, MemoryCandidateForgotten}"
      and "stamp_append (\<lambda>now. memory_event ''memory.candidate.approved'' (approved_candidate req c now) now)
        (approved_candidate req c) k = (r, k')"
proof (rule review_guards [OF assms [unfolded ApproveMemoryCandidate_def Let_def]], goal_cases)
  case (2 c cs)
  from 2(5) show ?case using that(1) that(2,3) [OF 2(4)] by (auto split: if_splits)
qed

lemma RejectMemoryCandidate_cases [consumes 1, case_names refused already decided]:
  assumes "RejectMemoryCandidate i req k = (r, k')"
  obtains err where "r = Inl err" and "k' = k"
  | c cs where "review_candidate (TrimSpace i) k = Inr (c, cs)" and "mc_Status c = MemoryCandidateRejected"
      and "r = Inr c" and "k' = k"
  | c cs where "review_candidate (TrimSpace i) k = Inr (c, cs)" and "mc_Status c \<notin> {MemoryCandidateApproved, MemoryCandidateRejected, MemoryCandidateSuperseded, MemoryCandidateForgotten}"
      and "stamp_append (\<lambda>now. memory_event ''memory.candidate.rejected'' (rejected_candidate req c now) now)
        (rejected_candidate req c) k = (r, k')"
proof (rule review_guards [OF assms [unfolded RejectMemoryCandidate_def Let_def]], goal_cases)
  case (2 c cs)
  from 2(5) show ?case using that(1) that(2,3) [OF 2(4)] by (auto split: if_splits)
qed

lemma ForgetMemoryCandidate_cases [consumes 1, case_names refused already decided]:
  assumes "ForgetMemoryCandidate i req k = (r, k')"
  obtains err where "r = Inl err" and "k' = k"
  | c cs where "review_candidate (TrimSpace i) k = Inr (c, cs)" and "mc_Status c = MemoryCandidateForgotten"
      and "r = Inr c" and "k' = k"
  | c cs where "review_candidate (TrimSpace i) k = Inr (c, cs)" and "mc_Status c \<notin> {MemoryCandidateForgotten}"
      and "stamp_append (\<lambda>now. memory_event ''memory.candidate.forgotten'' (forgotten_candidate req c now) now)
        (forgotten_candidate req c) k = (r, k')"
proof (rule review_guards [OF assms [unfolded ForgetMemoryCandidate_def Let_def]], goal_cases)
  case (2 c cs)
  from 2(5) show ?case using that(1) that(2,3) [OF 2(4)] by (auto split: if_splits)
qed

text \<open>The new records of a decision are reviews of the old ones.\<close>

lemma approved_candidate_review:
  assumes "candidate_ok c" and "mc_Status c \<notin> {MemoryCandidateApproved, MemoryCandidateRejected, MemoryCandidateSuperseded, MemoryCandidateForgotten}"
  shows "reviewed c (approved_candidate req c now)" and "candidate_ok (approved_candidate req c now)"
    and "mc_Status c \<noteq> mc_Status (approved_candidate req c now)"
    and "mc_ReplacementCandidateID (approved_candidate req c now) = mc_ReplacementCandidateID c"
proof -
  have "mc_Status c = MemoryCandidatePending"
    using assms by (auto simp: candidate_ok_def validMemoryCandidateStatus_def)
  then show "reviewed c (approved_candidate req c now)" "candidate_ok (approved_candidate req c now)"
    "mc_Status c \<noteq> mc_Status (approved_candidate req c now)"
    "mc_ReplacementCandidateID (approved_candidate req c now) = mc_ReplacementCandidateID c"
    using assms(1) by (auto simp: reviewed_def candidate_ok_def approved_candidate_def lifecycle_def
      validMemoryCandidateStatus_def sameMemoryCandidateCore_def)
qed

lemma rejected_candidate_review:
  assumes "candidate_ok c" and "mc_Status c \<notin> {MemoryCandidateApproved, MemoryCandidateRejected, MemoryCandidateSuperseded, MemoryCandidateForgotten}"
  shows "reviewed c (rejected_candidate req c now)" and "candidate_ok (rejected_candidate req c now)"
    and "mc_Status c \<noteq> mc_Status (rejected_candidate req c now)"
    and "mc_ReplacementCandidateID (rejected_candidate req c now) = mc_ReplacementCandidateID c"
proof -
  have "mc_Status c = MemoryCandidatePending"
    using assms by (auto simp: candidate_ok_def validMemoryCandidateStatus_def)
  then show "reviewed c (rejected_candidate req c now)" "candidate_ok (rejected_candidate req c now)"
    "mc_Status c \<noteq> mc_Status (rejected_candidate req c now)"
    "mc_ReplacementCandidateID (rejected_candidate req c now) = mc_ReplacementCandidateID c"
    using assms(1) by (auto simp: reviewed_def candidate_ok_def rejected_candidate_def lifecycle_def
      validMemoryCandidateStatus_def sameMemoryCandidateCore_def)
qed

lemma forgotten_candidate_review:
  assumes "candidate_ok c" and "mc_Status c \<notin> {MemoryCandidateForgotten}"
  shows "reviewed c (forgotten_candidate req c now)" and "candidate_ok (forgotten_candidate req c now)"
    and "mc_Status c \<noteq> mc_Status (forgotten_candidate req c now)"
    and "mc_ReplacementCandidateID (forgotten_candidate req c now) = mc_ReplacementCandidateID c"
  using assms by (simp_all add: reviewed_def candidate_ok_def forgotten_candidate_def lifecycle_def
      validMemoryCandidateStatus_def sameMemoryCandidateCore_def same_decision_defs)

text \<open>
  What a decision does, in the form all three share: the view only advances, and the record
  that is returned is the one in the view.
\<close>

definition decides :: "string \<Rightarrow> kernel \<Rightarrow> MemoryCandidateProjection res \<Rightarrow> kernel \<Rightarrow> bool" where
  "decides i k r k' \<longleftrightarrow> (\<forall>v. memory_inv k v \<longrightarrow>
     (\<exists>v'. memory_inv k' v' \<and> view_le v v' \<and> (\<forall>c. r = Inr c \<longrightarrow> go_lookup (fst v') (TrimSpace i) = Some c)))"

lemma decides_stay: "k' = k \<Longrightarrow> (\<And>v c. memory_inv k v \<Longrightarrow> r = Inr c \<Longrightarrow> go_lookup (fst v) (TrimSpace i) = Some c) \<Longrightarrow> decides i k r k'"
  unfolding decides_def using view_le_refl by blast

lemma ApproveMemoryCandidate_decides:
  assumes "ApproveMemoryCandidate i req k = (r, k')"
  shows "decides i k r k'"
  using assms
proof (cases rule: ApproveMemoryCandidate_cases)
  case (decided c cs)
  show ?thesis unfolding decides_def
  proof (intro allI impI)
    fix v assume inv: "memory_inv k v"
    note c = review_candidate_lookup(2) [OF inv decided(1)]
    note approved_candidate_review [OF memory_inv_candidate [OF inv c] decided(2)]
    from stamped_review [OF inv c _ this decided(3)]
    show "\<exists>v'. memory_inv k' v' \<and> view_le v v' \<and> (\<forall>c. r = Inr c \<longrightarrow> go_lookup (fst v') (TrimSpace i) = Some c)" by simp
  qed
qed (auto intro!: decides_stay dest: review_candidate_lookup)

lemma RejectMemoryCandidate_decides:
  assumes "RejectMemoryCandidate i req k = (r, k')"
  shows "decides i k r k'"
  using assms
proof (cases rule: RejectMemoryCandidate_cases)
  case (decided c cs)
  show ?thesis unfolding decides_def
  proof (intro allI impI)
    fix v assume inv: "memory_inv k v"
    note c = review_candidate_lookup(2) [OF inv decided(1)]
    note rejected_candidate_review [OF memory_inv_candidate [OF inv c] decided(2)]
    from stamped_review [OF inv c _ this decided(3)]
    show "\<exists>v'. memory_inv k' v' \<and> view_le v v' \<and> (\<forall>c. r = Inr c \<longrightarrow> go_lookup (fst v') (TrimSpace i) = Some c)" by simp
  qed
qed (auto intro!: decides_stay dest: review_candidate_lookup)

lemma ForgetMemoryCandidate_decides:
  assumes "ForgetMemoryCandidate i req k = (r, k')"
  shows "decides i k r k'"
  using assms
proof (cases rule: ForgetMemoryCandidate_cases)
  case (decided c cs)
  show ?thesis unfolding decides_def
  proof (intro allI impI)
    fix v assume inv: "memory_inv k v"
    note c = review_candidate_lookup(2) [OF inv decided(1)]
    note forgotten_candidate_review [OF memory_inv_candidate [OF inv c] decided(2)]
    from stamped_review [OF inv c _ this decided(3)]
    show "\<exists>v'. memory_inv k' v' \<and> view_le v v' \<and> (\<forall>c. r = Inr c \<longrightarrow> go_lookup (fst v') (TrimSpace i) = Some c)" by simp
  qed
qed (auto intro!: decides_stay dest: review_candidate_lookup)

text \<open>A new identifier is behind every candidate of the view.\<close>

lemma memory_newID:
  assumes inv: "memory_inv k v" and j: "j = fst (newID ''mem'' (fst (clock k)) (snd (clock k)))"
    and ext: "kernel_ext (snd (newID ''mem'' (fst (clock k)) (snd (clock k)))) k' es"
  shows "view_ok (allocated k') (snd v @ [j]) v" and "j \<in> allocated k'" and "j \<noteq> []" and "kernel_ext k k' es"
proof -
  have uniq: "ulid_unique (k_env (snd (clock k)))" using inv by (simp add: memory_inv_def env_ok_def)
  show ext': "kernel_ext k k' es" using ext by (rule kernel_ext_stamp1)
  have ok: "view_ok (allocated k) (snd v) v" using inv by (simp add: memory_inv_def)
  have "set (snd v) \<subseteq> allocated k"
  proof
    fix i assume "i \<in> set (snd v)"
    then have "i \<in> fst ` set (fst v)" using ok by (auto simp: view_ok_def)
    then obtain c where "go_lookup (fst v) i = Some c" by (metis map_of_eq_None_iff option.exhaust)
    then show "i \<in> allocated k" using view_okD(2) [OF ok] by blast
  qed
  then have "j \<notin> set (snd v)" using newID_fresh [OF uniq] j by auto
  then show "view_ok (allocated k') (snd v @ [j]) v"
    by (rule view_ok_extend [OF ok allocated_ext [OF ext']])
  have "j \<in> allocated (snd (newID ''mem'' (fst (clock k)) (snd (clock k))))" using newID_allocated [OF uniq] j by simp
  then show "j \<in> allocated k'" using allocated_ext [OF ext] by blast
  show "j \<noteq> []" using j by simp
qed

lemma candidate_ok_pending: "i \<noteq> [] \<Longrightarrow> candidate_ok (pending_candidate i sid txt ref md now)"
  by (simp add: candidate_ok_def pending_candidate_def validMemoryCandidateStatus_def)

lemma pending_candidate_simps [simp]:
  "mc_CandidateID (pending_candidate i sid txt ref md now) = i"
  "mc_ReplacementCandidateID (pending_candidate i sid txt ref md now) = []"
  by (simp_all add: pending_candidate_def)

lemma CreateMemoryCandidate_ext:
  assumes "CreateMemoryCandidate req k = (r, k')"
  shows "memory_ext k k'"
  unfolding memory_ext_def
proof (intro allI impI)
  fix v assume inv: "memory_inv k v"
  let ?t = "fst (clock k)"
  define j where "j = fst (newID ''mem'' ?t (snd (clock k)))"
  define k1 where "k1 = snd (newID ''mem'' ?t (snd (clock k)))"
  show "\<exists>v'. memory_inv k' v' \<and> view_le v v'"
  proof (cases "k' = k")
    case True
    with inv view_le_refl show ?thesis by blast
  next
    case False
    then obtain md where run: "append_return (memory_event ''memory.candidate.created''
        (pending_candidate j (TrimSpace (mq_SessionID req)) (TrimSpace (mq_Text req)) (TrimSpace (mq_SourceRef req)) md ?t) ?t (fst (newID ''evt'' ?t k1)))
        (pending_candidate j (TrimSpace (mq_SessionID req)) (TrimSpace (mq_Text req)) (TrimSpace (mq_SourceRef req)) md ?t)
        (snd (newID ''evt'' ?t k1)) = (r, k')"
      using assms by (auto simp: CreateMemoryCandidate_def Let_def case_prod_unfold j_def k1_def split: option.splits sum.splits)
    let ?c = "pending_candidate j (TrimSpace (mq_SessionID req)) (TrimSpace (mq_Text req)) (TrimSpace (mq_SourceRef req)) md ?t"
    from run show ?thesis
    proof (cases rule: append_return_cases)
      case (failed err)
      have "kernel_ext k1 k' []" using failed(2) by (rule kernel_ext_newID)
      then have "memory_ext k k'" unfolding k1_def by (rule memory_ext_same [OF kernel_ext_stamp1])
      with inv show ?thesis unfolding memory_ext_def by blast
    next
      case appended
      have ext: "kernel_ext k1 k' [memory_event ''memory.candidate.created'' ?c ?t (fst (newID ''evt'' ?t k1))]"
        using appended(2) by (rule kernel_ext_newID)
      note new = memory_newID [OF inv j_def ext [unfolded k1_def]]
      have c: "mc_CandidateID ?c = j" "candidate_ok ?c" "mc_ReplacementCandidateID ?c = []"
        using candidate_ok_pending [OF new(3)] by simp_all
      note rec = record_new [OF new(1) refl c(1) new(2) c(2,3)]
      have "memory_inv k' (go_store j ?c (fst v), snd v @ [j])"
      proof (rule memory_inv_event [OF inv new(4)])
        show "memory_step v (memory_event ''memory.candidate.created'' ?c ?t (fst (newID ''evt'' ?t (snd (newID ''mem'' ?t (snd (clock k))))))) =
            Inr (go_store j ?c (fst v), snd v @ [j])"
          using rec(1) c(1) new(3) by (simp add: memory_step_def memory_event_def candidateFromEvent_def)
      qed (use rec(2) in \<open>simp_all add: memory_event_def\<close>)
      with rec(3) show ?thesis by blast
    qed
  qed
qed

lemma SupersedeMemoryCandidate_cases [consumes 1, case_names refused already replaced]:
  assumes "SupersedeMemoryCandidate i req k = (r, k')"
  obtains err where "r = Inl err" and "k' = k"
  | c cs where "review_candidate (TrimSpace i) k = Inr (c, cs)" and "mc_Status c = MemoryCandidateSuperseded"
      and "r = existingMemorySupersession c cs" and "k' = k"
  | c cs t j k1 where "review_candidate (TrimSpace i) k = Inr (c, cs)"
      and "mc_Status c \<notin> {MemoryCandidateSuperseded, MemoryCandidateForgotten}"
      and "t = fst (clock k)" and "j = fst (newID ''mem'' t (snd (clock k)))" and "k1 = snd (newID ''mem'' t (snd (clock k)))"
      and "append_return (supersession_event (superseded_candidate req c j t) (replacement_candidate req c j t) t (fst (newID ''evt'' t k1)))
        \<lparr>msp_Superseded = superseded_candidate req c j t, msp_Replacement = replacement_candidate req c j t\<rparr>
        (snd (newID ''evt'' t k1)) = (r, k')"
proof (rule review_guards [OF assms [unfolded SupersedeMemoryCandidate_def Let_def]], goal_cases)
  case (2 c cs)
  show ?case
  proof (cases "mc_Status c \<in> {MemoryCandidateSuperseded, MemoryCandidateForgotten}")
    case True
    with 2(5) show ?thesis using that(1) that(2) [OF 2(4)] by (auto split: if_splits)
  next
    case False
    with 2(5) show ?thesis by (intro that(3) [OF 2(4) False refl refl refl]) (simp add: case_prod_unfold)
  qed
qed

lemma superseded_candidate_review:
  assumes "candidate_ok c" and "mc_Status c \<notin> {MemoryCandidateSuperseded, MemoryCandidateForgotten}" and "TrimSpace j \<noteq> []"
  shows "reviewed c (superseded_candidate req c j now)" and "candidate_ok (superseded_candidate req c j now)"
    and "mc_Status c \<noteq> mc_Status (superseded_candidate req c j now)"
proof -
  have "mc_Status c \<in> {MemoryCandidatePending, MemoryCandidateApproved, MemoryCandidateRejected}"
    using assms(1,2) by (auto simp: candidate_ok_def validMemoryCandidateStatus_def)
  then have "reviewed c (superseded_candidate req c j now) \<and> candidate_ok (superseded_candidate req c j now) \<and>
      mc_Status c \<noteq> mc_Status (superseded_candidate req c j now)"
    by (elim insertE emptyE) (use assms(1,3) in \<open>simp_all add: reviewed_def candidate_ok_def superseded_candidate_def
      lifecycle_def validMemoryCandidateStatus_def sameMemoryCandidateCore_def same_decision_defs\<close>)
  then show "reviewed c (superseded_candidate req c j now)" "candidate_ok (superseded_candidate req c j now)"
    "mc_Status c \<noteq> mc_Status (superseded_candidate req c j now)" by blast+
qed

lemma memory_step_supersession:
  assumes "mc_CandidateID c \<noteq> []" and "mc_CandidateID d \<noteq> []"
  shows "memory_step v (supersession_event c d now i) = bind_res (recordMemoryCandidate c v) (recordMemoryCandidate d)"
  using assms by (simp add: memory_step_def supersession_event_def memory_event_def candidateFromEvent_def)

lemma SupersedeMemoryCandidate_ext:
  assumes "SupersedeMemoryCandidate i req k = (r, k')"
  shows "memory_ext k k'"
  unfolding memory_ext_def
proof (intro allI impI)
  fix v assume inv: "memory_inv k v"
  from assms show "\<exists>v'. memory_inv k' v' \<and> view_le v v'"
  proof (cases rule: SupersedeMemoryCandidate_cases)
    case (replaced c cs t j k1)
    note c = review_candidate_lookup(2) [OF inv replaced(1)]
    from replaced(6) show ?thesis
    proof (cases rule: append_return_cases)
      case (failed err)
      have "kernel_ext k1 k' []" using failed(2) by (rule kernel_ext_newID)
      then have "memory_ext k k'" unfolding replaced(5) by (rule memory_ext_same [OF kernel_ext_stamp1])
      with inv show ?thesis unfolding memory_ext_def by blast
    next
      case appended
      let ?c = "superseded_candidate req c j t" and ?d = "replacement_candidate req c j t"
      have ext: "kernel_ext k1 k' [supersession_event ?c ?d t (fst (newID ''evt'' t k1))]"
        using appended(2) by (rule kernel_ext_newID)
      note new = memory_newID [OF inv replaced(4) [unfolded replaced(3)] ext [unfolded replaced(5) replaced(3)]]
      have "TrimSpace j \<noteq> []" using replaced(4) by simp
      note rev = superseded_candidate_review [OF memory_inv_candidate [OF inv c] replaced(2) this, of req t]
      have d: "mc_CandidateID ?d = j" "candidate_ok ?d" "mc_ReplacementCandidateID ?d = []"
        using candidate_ok_pending [OF new(3)] by (simp_all add: replacement_candidate_def)
      have "TrimSpace i \<in> set (snd v)"
        using c inv by (force simp: memory_inv_def view_ok_def dest: map_of_SomeD)
      then have beh: "behind (snd v @ [j]) (TrimSpace i) (mc_ReplacementCandidateID ?c)"
        by (simp add: superseded_candidate_def behind_new)
      note rec = record_review [OF new(1) c rev disjI2 [OF beh]]
      have L: "snd v @ [j] = snd (go_store (TrimSpace i) ?c (fst v), snd v) @ [j]" by simp
      note rec' = record_new [OF rec(2) L d(1) new(2) d(2,3)]
      let ?v = "(go_store j ?d (go_store (TrimSpace i) ?c (fst v)), snd v @ [j])"
      have ids: "mc_CandidateID ?c \<noteq> []" "mc_CandidateID ?d \<noteq> []" using rev(2) d(2) by (simp_all add: candidate_ok_def)
      have "memory_inv k' ?v"
      proof (rule memory_inv_event [OF inv])
        show "kernel_ext k k' [supersession_event ?c ?d t (fst (newID ''evt'' t k1))]"
          using new(4) by (simp only: replaced(3,5))
        show "memory_step v (supersession_event ?c ?d t (fst (newID ''evt'' t k1))) = Inr ?v"
          using memory_step_supersession [OF ids] rec(1) rec'(1) by simp
      qed (use rec'(2) in \<open>simp_all add: supersession_event_def memory_event_def replaced(3)\<close>)
      moreover have "view_le v ?v"
        using view_le_trans [OF rec(3) rec'(3) rec(2) rec'(2)] by simp
      ultimately show ?thesis by blast
    qed
  qed (use inv view_le_refl in blast)+
qed

lemma decides_ext: "decides i k r k' \<Longrightarrow> memory_ext k k'"
  unfolding decides_def memory_ext_def by blast

section \<open>Runs\<close>

text \<open>
  A run of the component: its operations, in any order and with any requests, among appends of
  other components.
\<close>

inductive memory_run :: "kernel \<Rightarrow> kernel \<Rightarrow> bool" where
  stay: "memory_run k k"
| create: "memory_run k k' \<Longrightarrow> CreateMemoryCandidate creq k' = (r, k'') \<Longrightarrow> memory_run k k''"
| approve: "memory_run k k' \<Longrightarrow> ApproveMemoryCandidate i areq k' = (r, k'') \<Longrightarrow> memory_run k k''"
| reject: "memory_run k k' \<Longrightarrow> RejectMemoryCandidate i rreq k' = (r, k'') \<Longrightarrow> memory_run k k''"
| supersede: "memory_run k k' \<Longrightarrow> SupersedeMemoryCandidate i sreq k' = (sr, k'') \<Longrightarrow> memory_run k k''"
| forget: "memory_run k k' \<Longrightarrow> ForgetMemoryCandidate i freq k' = (r, k'') \<Longrightarrow> memory_run k k''"
| other: "memory_run k k' \<Longrightarrow> kernel_ext k' k'' es \<Longrightarrow> \<forall>e \<in> set es. \<not> is_memory_event e \<Longrightarrow> memory_run k k''"

lemma memory_run_ext: "memory_run k k' \<Longrightarrow> memory_ext k k'"
  by (induction rule: memory_run.induct)
    (blast intro: memory_ext_refl memory_ext_trans CreateMemoryCandidate_ext SupersedeMemoryCandidate_ext memory_ext_skip
      decides_ext ApproveMemoryCandidate_decides RejectMemoryCandidate_decides ForgetMemoryCandidate_decides)+

lemma memory_inv_empty:
  assumes "env_ok (k_env k)" and "mono (env_clock (k_env k))" and "k_rows k = []"
  shows "memory_inv k ([], [])"
  using assms mv.in_time_empty mv.view_empty by (simp add: memory_inv_def view_ok_def)

lemma memory_run_inv:
  assumes "env_ok (k_env k)" and "mono (env_clock (k_env k))" and "k_rows k = []" and "memory_run k k'"
  obtains v where "memory_inv k' v"
  using memory_run_ext [OF assms(4)] memory_inv_empty [OF assms(1-3)] unfolding memory_ext_def by blast

lemma memory_ext_inv:
  assumes "memory_ext k k'" and "memory_inv k v" and "memory_inv k' v'"
  shows "view_le v v'"
proof -
  obtain w where "memory_inv k' w" "view_le v w" using assms(1,2) unfolding memory_ext_def by blast
  with assms(3) show ?thesis by (simp add: memory_inv_def)
qed

text \<open>Replacements lead forward in the order of the candidates.\<close>

lemma behind_shrinks:
  assumes "behind L i j" and "distinct L"
  shows "length (dropWhile (\<lambda>x. x \<noteq> j) L) < length (dropWhile (\<lambda>x. x \<noteq> i) L)"
proof -
  obtain xs ys where L: "L = xs @ ys" and i: "i \<in> set xs" and j: "j \<in> set ys" using assms(1) by (auto simp: behind_def)
  have "dropWhile (\<lambda>x. x \<noteq> j) L = dropWhile (\<lambda>x. x \<noteq> j) ys"
    unfolding L by (rule dropWhile_append2) (use assms(2) L j in auto)
  then have "length (dropWhile (\<lambda>x. x \<noteq> j) L) \<le> length ys" by (simp add: length_dropWhile_le)
  moreover have "dropWhile (\<lambda>x. x \<noteq> i) L = dropWhile (\<lambda>x. x \<noteq> i) xs @ ys"
    unfolding L by (rule dropWhile_append1 [OF i]) simp
  then have "length (dropWhile (\<lambda>x. x \<noteq> i) L) = length (dropWhile (\<lambda>x. x \<noteq> i) xs) + length ys" by simp
  moreover have "length (dropWhile (\<lambda>x. x \<noteq> i) xs) \<noteq> 0" using i by (simp add: dropWhile_eq_Nil_conv)
  ultimately show ?thesis by linarith
qed

definition replacements :: "MemoryCandidateProjection go_map \<Rightarrow> (string \<times> string) set" where
  "replacements cs = {(i, j). \<exists>c. go_lookup cs i = Some c \<and> mc_ReplacementCandidateID c = j \<and> j \<noteq> []}"

lemma acyclic_replacements:
  assumes "view_ok A (snd v) v"
  shows "acyclic (replacements (fst v))"
proof (rule acyclicI_order [where f = "\<lambda>i. length (dropWhile (\<lambda>x. x \<noteq> i) (snd v))"])
  fix i j assume "(i, j) \<in> replacements (fst v)"
  then have "behind (snd v) i j" using view_okD(4) [OF assms] by (auto simp: replacements_def)
  then show "length (dropWhile (\<lambda>x. x \<noteq> j) (snd v)) < length (dropWhile (\<lambda>x. x \<noteq> i) (snd v))"
    using view_ok_keys [OF assms] by (blast intro: behind_shrinks)
qed

lemma existing_supersession:
  assumes ok: "view_ok A (snd v) v" and c: "go_lookup (fst v) i = Some c" and "mc_Status c = MemoryCandidateSuperseded"
  obtains d where "existingMemorySupersession c (fst v) = Inr \<lparr>msp_Superseded = c, msp_Replacement = d\<rparr>"
    and "go_lookup (fst v) (mc_ReplacementCandidateID c) = Some d"
proof -
  have r: "TrimSpace (mc_ReplacementCandidateID c) \<noteq> []" using view_okD(3) [OF ok c] assms(3) by (simp add: candidate_ok_def)
  then have "mc_ReplacementCandidateID c \<noteq> []" by auto
  then have "behind (snd v) i (mc_ReplacementCandidateID c)" by (rule view_okD(4) [OF ok c])
  then have "mc_ReplacementCandidateID c \<in> set (snd v)" by (auto simp: behind_def)
  then have "mc_ReplacementCandidateID c \<in> set (map fst (fst v))" using view_ok_keys [OF ok] by simp
  then obtain d where "go_lookup (fst v) (mc_ReplacementCandidateID c) = Some d"
    by (metis list.set_map map_of_eq_None_iff option.exhaust)
  with r that show ?thesis by (simp add: existingMemorySupersession_def)
qed

section \<open>Properties\<close>

definition sample_candidate :: MemoryCandidateRequest where
  "sample_candidate = \<lparr>mq_SessionID = ''s1'', mq_Text = ''prefers tea'', mq_SourceRef = ''turn:abc'', mq_Kind = ''preference'',
     mq_Scope = [], mq_AppliesWhen = [], mq_YieldsTo = [], mq_Strength = []\<rparr>"

definition sample_approval :: MemoryApprovalRequest where
  "sample_approval = \<lparr>ma_ApprovalAuthority = ''user:u1'', ma_ApprovalReason = ''confirmed'', ma_ApprovalEvidenceRef = ''turn:abc''\<rparr>"

definition sample_supersession :: MemorySupersessionRequest where
  "sample_supersession = \<lparr>ms_ReplacementText = ''prefers coffee'', ms_ReplacementSourceRef = ''turn:abd'',
     ms_SupersessionAuthority = ''user:u1'', ms_SupersessionReason = ''changed'', ms_SupersessionEvidenceRef = ''turn:abd''\<rparr>"

definition memory_k1 :: kernel where "memory_k1 = snd (CreateMemoryCandidate sample_candidate sample_kernel)"
definition memory_k2 :: kernel where "memory_k2 = snd (ApproveMemoryCandidate ''mem_'' sample_approval memory_k1)"
definition memory_k3 :: kernel where "memory_k3 = snd (SupersedeMemoryCandidate ''mem_'' sample_supersession memory_k2)"

lemma memory_k1_run: "memory_run sample_kernel memory_k1"
  unfolding memory_k1_def by (rule memory_run.create [OF memory_run.stay prod.collapse [symmetric]])

lemma memory_k2_run: "memory_run memory_k1 memory_k2"
  unfolding memory_k2_def by (rule memory_run.approve [OF memory_run.stay prod.collapse [symmetric]])

lemma memory_k3_run: "memory_run memory_k2 memory_k3"
  unfolding memory_k3_def by (rule memory_run.supersede [OF memory_run.stay prod.collapse [symmetric]])

lemma memory_run_trans: "memory_run k' k'' \<Longrightarrow> memory_run k k' \<Longrightarrow> memory_run k k''"
  by (induction rule: memory_run.induct) (blast intro: memory_run.intros)+

lemma sample_mono: "mono (env_clock (k_env sample_kernel))"
  using sample_timely by (simp add: timely_def)

text \<open>
  The memory projection is total and sound. In every state reached from an empty ledger
  while the clock does not step back, whenever the ledger can be read the projection succeeds:
  it lists every candidate once, under its own identifier and with one of the five statuses; the
  replacement of every superseded candidate is found; and following replacements never leads
  back to a candidate.
\<close>

theorem memory_projection_sound:
  assumes "env_ok (k_env k)" and "mono (env_clock (k_env k))" and "k_rows k = []" and "memory_run k k'"
    and "loadEvents k' = Inr es"
  shows "\<exists>cs. memoryCandidateList k' = Inr (map snd cs, cs) \<and> distinct (map fst cs) \<and>
    (\<forall>i c. go_lookup cs i = Some c \<longrightarrow> mc_CandidateID c = i \<and> validMemoryCandidateStatus (mc_Status c) \<and>
       (mc_Status c = MemoryCandidateSuperseded \<longrightarrow>
          (\<exists>d. existingMemorySupersession c cs = Inr \<lparr>msp_Superseded = c, msp_Replacement = d\<rparr>))) \<and>
    acyclic (replacements cs)"
proof -
  obtain v where inv: "memory_inv k' v" by (rule memory_run_inv [OF assms(1-4)])
  then have ok: "view_ok (allocated k') (snd v) v" by (simp add: memory_inv_def)
  have "mc_CandidateID c = i \<and> validMemoryCandidateStatus (mc_Status c) \<and>
       (mc_Status c = MemoryCandidateSuperseded \<longrightarrow>
          (\<exists>d. existingMemorySupersession c (fst v) = Inr \<lparr>msp_Superseded = c, msp_Replacement = d\<rparr>))"
    if c: "go_lookup (fst v) i = Some c" for i c
    using view_okD(1,3) [OF ok c] existing_supersession [OF ok c] unfolding candidate_ok_def by metis
  moreover have "distinct (map fst (fst v))" using view_ok_keys [OF ok] by metis
  ultimately show ?thesis
    using memory_read(1) [OF inv assms(5)] acyclic_replacements [OF ok] by blast
qed

theorem memory_projection_sound_witness:
  "\<exists>cs. memoryCandidateList memory_k3 = Inr (map snd cs, cs) \<and> map mc_Status (map snd cs) = [MemoryCandidateSuperseded, MemoryCandidatePending]"
proof -
  have load: "loadEvents memory_k3 = Inr (projr (loadEvents memory_k3))" by (rule res_eq) code_simp
  have st: "map mc_Status (fst (projr (memoryCandidateList memory_k3))) = [MemoryCandidateSuperseded, MemoryCandidatePending]"
    by code_simp
  from memory_projection_sound [OF sample_env_ok sample_mono sample_rows
        memory_run_trans [OF memory_k3_run memory_run_trans [OF memory_k2_run memory_k1_run]] load]
  obtain cs where cs: "memoryCandidateList memory_k3 = Inr (map snd cs, cs)" by (elim exE conjE)
  with st have "map mc_Status (map snd cs) = [MemoryCandidateSuperseded, MemoryCandidatePending]" by simp
  with cs show ?thesis by (intro exI [of _ cs] conjI)
qed

text \<open>
  C12: the life of a candidate. Between two reads of the candidates, any operations in between,
  no candidate is lost and its text, source, kind, scope and conditions stay as they were. Its
  status only moves from pending to any other, from approved or rejected to superseded and from
  any to forgotten; while it stays the whole record stays, and the evidence of an earlier
  approval, rejection or supersession is kept by every later status.
\<close>

theorem memory_lifecycle:
  assumes "env_ok (k_env k)" and "mono (env_clock (k_env k))" and "k_rows k = []"
    and "memory_run k k1" and "memory_run k1 k2"
    and "memoryCandidates k1 = Inr cs1" and "memoryCandidates k2 = Inr cs2" and "go_lookup cs1 i = Some c1"
  shows "\<exists>c2. go_lookup cs2 i = Some c2 \<and> sameMemoryCandidateCore c1 c2 \<and> lifecycle (mc_Status c1) (mc_Status c2) \<and>
    (mc_Status c1 = mc_Status c2 \<longrightarrow> c1 = c2) \<and>
    (mc_ApprovedAt c1 \<noteq> None \<longrightarrow> sameMemoryApprovalDecision c1 c2) \<and>
    (mc_RejectedAt c1 \<noteq> None \<longrightarrow> sameMemoryRejectionDecision c1 c2) \<and>
    (mc_SupersededAt c1 \<noteq> None \<longrightarrow> sameMemorySupersessionDecision c1 c2)"
proof -
  obtain v1 where v1: "memory_inv k1 v1" by (rule memory_run_inv [OF assms(1-4)])
  obtain v2 where v2: "memory_inv k2 v2" by (rule memory_run_inv [OF assms(1-3) memory_run_trans [OF assms(5,4)]])
  have "cs1 = fst v1" "cs2 = fst v2" using memory_read_any [OF v1 assms(6)] memory_read_any [OF v2 assms(7)] by simp_all
  moreover have "view_le v1 v2" by (rule memory_ext_inv [OF memory_run_ext [OF assms(5)] v1 v2])
  ultimately show ?thesis using assms(8) unfolding view_le_def reviewed_def by blast
qed

theorem memory_lifecycle_witness:
  "\<exists>c1 c2. go_lookup (projr (memoryCandidates memory_k2)) ''mem_'' = Some c1 \<and>
     go_lookup (projr (memoryCandidates memory_k3)) ''mem_'' = Some c2 \<and>
     mc_Status c1 = MemoryCandidateApproved \<and> sameMemoryApprovalDecision c1 c2"
proof -
  have 1: "memoryCandidates memory_k2 = Inr (projr (memoryCandidates memory_k2))" by (rule res_eq) code_simp
  have 2: "memoryCandidates memory_k3 = Inr (projr (memoryCandidates memory_k3))" by (rule res_eq) code_simp
  have "map_option (\<lambda>c. (mc_Status c, mc_ApprovedAt c)) (go_lookup (projr (memoryCandidates memory_k2)) ''mem_'') =
      Some (MemoryCandidateApproved, Some 1001)" by code_simp
  then obtain c1 where c1: "go_lookup (projr (memoryCandidates memory_k2)) ''mem_'' = Some c1"
    "mc_Status c1 = MemoryCandidateApproved" "mc_ApprovedAt c1 \<noteq> None" unfolding map_option_eq_Some by (elim exE conjE) simp
  from memory_lifecycle [OF sample_env_ok sample_mono sample_rows memory_run_trans [OF memory_k2_run memory_k1_run] memory_k3_run
      1 2 c1(1)] obtain c2 where "go_lookup (projr (memoryCandidates memory_k3)) ''mem_'' = Some c2"
    "mc_ApprovedAt c1 \<noteq> None \<longrightarrow> sameMemoryApprovalDecision c1 c2" by (elim exE conjE)
  with c1 show ?thesis by (intro exI [of _ c1] exI [of _ c2] conjI) simp_all
qed

text \<open>What a later decision finds of an earlier one.\<close>

lemma decision_later:
  assumes "memory_inv k0 v0" and "decides i k0 (Inr c) k1" and "memory_run k1 k2"
    and "review_candidate (TrimSpace i) k2 = Inr (d, ds)"
  shows "lifecycle (mc_Status c) (mc_Status d) \<and> (mc_Status c = mc_Status d \<longrightarrow> c = d)"
proof -
  obtain v1 where v1: "memory_inv k1 v1" "go_lookup (fst v1) (TrimSpace i) = Some c"
    using assms(1,2) unfolding decides_def by blast
  obtain v2 where v2: "memory_inv k2 v2" "view_le v1 v2"
    using memory_run_ext [OF assms(3)] v1(1) unfolding memory_ext_def by blast
  with v1(2) review_candidate_lookup(2) [OF v2(1) assms(4)] show ?thesis unfolding view_le_def reviewed_def by fastforce
qed

lemma approve_later:
  assumes "\<And>d ds. review_candidate (TrimSpace i) k = Inr (d, ds) \<Longrightarrow> d = c \<or> mc_Status d \<in> {MemoryCandidateSuperseded, MemoryCandidateForgotten}"
    and "mc_Status c \<in> {MemoryCandidateApproved, MemoryCandidateRejected}" and "ApproveMemoryCandidate i req k = (r, k')"
  shows "k' = k \<and> (isl r \<or> r = Inr c \<and> mc_Status c = MemoryCandidateApproved)"
  using assms(3) by (cases rule: ApproveMemoryCandidate_cases) (use assms(1,2) in fastforce)+

lemma reject_later:
  assumes "\<And>d ds. review_candidate (TrimSpace i) k = Inr (d, ds) \<Longrightarrow> d = c \<or> mc_Status d \<in> {MemoryCandidateSuperseded, MemoryCandidateForgotten}"
    and "mc_Status c \<in> {MemoryCandidateApproved, MemoryCandidateRejected}" and "RejectMemoryCandidate i req k = (r, k')"
  shows "k' = k \<and> (isl r \<or> r = Inr c \<and> mc_Status c = MemoryCandidateRejected)"
  using assms(3) by (cases rule: RejectMemoryCandidate_cases) (use assms(1,2) in fastforce)+

text \<open>
  Decisions are exclusive and final. Once a candidate was approved, in every later state
  another approval that succeeds returns the first record and appends nothing, and no rejection
  succeeds, whatever was done in between; and the other way round for a rejection.
\<close>

theorem memory_decision_final:
  assumes "env_ok (k_env k)" and "mono (env_clock (k_env k))" and "k_rows k = []" and "memory_run k k0"
    and "memory_run k1 k2"
  shows "(ApproveMemoryCandidate i areq k0 = (Inr c, k1) \<longrightarrow> mc_Status c = MemoryCandidateApproved \<and>
       (ApproveMemoryCandidate i areq' k2 = (Inr c', k3) \<longrightarrow> c' = c \<and> k3 = k2) \<and>
       (RejectMemoryCandidate i rreq' k2 = (r, k3) \<longrightarrow> isl r \<and> k3 = k2)) \<and>
     (RejectMemoryCandidate i rreq k0 = (Inr c, k1) \<longrightarrow> mc_Status c = MemoryCandidateRejected \<and>
       (RejectMemoryCandidate i rreq' k2 = (Inr c', k3) \<longrightarrow> c' = c \<and> k3 = k2) \<and>
       (ApproveMemoryCandidate i areq' k2 = (r, k3) \<longrightarrow> isl r \<and> k3 = k2))"
proof -
  obtain v0 where v0: "memory_inv k0 v0" by (rule memory_run_inv [OF assms(1-4)])
  have later: "d = c \<or> mc_Status d \<in> {MemoryCandidateSuperseded, MemoryCandidateForgotten}"
    if "decides i k0 (Inr c) k1" "mc_Status c \<in> {MemoryCandidateApproved, MemoryCandidateRejected}"
      "review_candidate (TrimSpace i) k2 = Inr (d, ds)" for d ds
    using decision_later [OF v0 that(1) assms(5) that(3)] that(2) by (auto simp: lifecycle_def)
  have "mc_Status c = MemoryCandidateApproved \<and>
       (ApproveMemoryCandidate i areq' k2 = (Inr c', k3) \<longrightarrow> c' = c \<and> k3 = k2) \<and>
       (RejectMemoryCandidate i rreq' k2 = (r, k3) \<longrightarrow> isl r \<and> k3 = k2)"
    if a: "ApproveMemoryCandidate i areq k0 = (Inr c, k1)"
  proof -
    have st: "mc_Status c = MemoryCandidateApproved"
      using a by (cases rule: ApproveMemoryCandidate_cases) (auto elim!: stamp_append_cases simp: approved_candidate_def)
    then have c: "mc_Status c \<in> {MemoryCandidateApproved, MemoryCandidateRejected}" by simp
    note l = later [OF ApproveMemoryCandidate_decides [OF a] c]
    from approve_later [OF l c] reject_later [OF l c] st show ?thesis by fastforce
  qed
  moreover have "mc_Status c = MemoryCandidateRejected \<and>
       (RejectMemoryCandidate i rreq' k2 = (Inr c', k3) \<longrightarrow> c' = c \<and> k3 = k2) \<and>
       (ApproveMemoryCandidate i areq' k2 = (r, k3) \<longrightarrow> isl r \<and> k3 = k2)"
    if a: "RejectMemoryCandidate i rreq k0 = (Inr c, k1)"
  proof -
    have st: "mc_Status c = MemoryCandidateRejected"
      using a by (cases rule: RejectMemoryCandidate_cases) (auto elim!: stamp_append_cases simp: rejected_candidate_def)
    then have c: "mc_Status c \<in> {MemoryCandidateApproved, MemoryCandidateRejected}" by simp
    note l = later [OF RejectMemoryCandidate_decides [OF a] c]
    from approve_later [OF l c] reject_later [OF l c] st show ?thesis by fastforce
  qed
  ultimately show ?thesis by blast
qed

definition sample_rejection :: MemoryRejectionRequest where
  "sample_rejection = \<lparr>mr_RejectionAuthority = ''user:u2'', mr_RejectionReason = ''stale'', mr_RejectionEvidenceRef = ''turn:abe''\<rparr>"

theorem memory_decision_final_witness:
  "isl (fst (RejectMemoryCandidate ''mem_'' sample_rejection memory_k3))"
proof -
  have 1: "ok (ApproveMemoryCandidate ''mem_'' sample_approval memory_k1)" by code_simp
  have "RejectMemoryCandidate ''mem_'' sample_rejection memory_k3 =
      (fst (RejectMemoryCandidate ''mem_'' sample_rejection memory_k3), snd (RejectMemoryCandidate ''mem_'' sample_rejection memory_k3))"
    by (rule prod.collapse [symmetric])
  with memory_decision_final [OF sample_env_ok sample_mono sample_rows memory_k1_run memory_k3_run] ok_eq [OF 1, folded memory_k2_def]
  show ?thesis by metis
qed

end
