(* ===== verification/Active_Turns.thy ===== *)
theory Active_Turns
  imports Timed_Log Sample_Kernel
begin

text \<open>
  Which session is busy with what (\<^verbatim>\<open>turn_interrupt.go\<close>): the map from a session to the turn or
  control operation that holds it, shared by all requests under one mutex, the interruption of
  a turn, and the event that records it. A \<open>*activeTurn\<close> is its position in the list of the
  objects allocated so far, so that the comparison of pointers is the comparison of positions;
  a context is cancelled when its object is in \<open>as_cancelled\<close>.
\<close>

section \<open>Model\<close>

definition ErrTurnInterrupted :: go_error where "ErrTurnInterrupted = Sentinel ''turn interrupted''"
definition ErrNoActiveTurn :: go_error where "ErrNoActiveTurn = Sentinel ''no active turn''"
definition ErrSessionActive :: go_error where "ErrSessionActive = Sentinel ''session has active work''"

abbreviation activeSessionKindTurn :: string where "activeSessionKindTurn \<equiv> ''turn''"

record activeTurn =
  at_sessionID :: string
  at_turnID :: string
  at_kind :: string
  at_reason :: string

record active_turns =
  as_heap :: "activeTurn list"
  as_activeTurns :: "nat go_map"
  as_cancelled :: "nat list"

record TurnInterruptRequest =
  ti_RequestReason :: string

text \<open>The object a session is held by, if it is.\<close>

definition active_of :: "active_turns \<Rightarrow> string \<Rightarrow> activeTurn option" where
  "active_of a sessionID = map_option (nth (as_heap a)) (go_lookup (as_activeTurns a) sessionID)"

definition interruption :: "string \<Rightarrow> string \<Rightarrow> string \<Rightarrow> time \<Rightarrow> TurnInterruptionProjection" where
  "interruption sessionID turnID reason now =
     \<lparr>ti_SessionID = sessionID, ti_TurnID = turnID, ti_Phase = ''ended'', ti_TerminalOutcome = ''interrupted'',
      ti_TerminalCause = ''user_cancelled'', ti_Reason = reason, ti_InterruptedAt = now\<rparr>"

definition InterruptSession ::
  "string \<Rightarrow> TurnInterruptRequest \<Rightarrow> kernel \<times> active_turns \<Rightarrow> TurnInterruptionProjection res \<times> kernel \<times> active_turns" where
  "InterruptSession sessionID req s =
     (let sessionID = TrimSpace sessionID; (k, a) = s
      in if sessionID = [] then (Inl (errors_New ''session id is required''), k, a)
         else
      let reason = TrimSpace (ti_RequestReason req)
      in case go_lookup (as_activeTurns a) sessionID of
           None \<Rightarrow> (Inl ErrNoActiveTurn, k, a)
         | Some n \<Rightarrow>
             if at_kind (as_heap a ! n) \<noteq> activeSessionKindTurn then (Inl ErrNoActiveTurn, k, a)
             else
               let active = (as_heap a ! n)\<lparr>at_reason := reason\<rparr>;
                   (now, k) = clock k
               in (Inr (interruption (at_sessionID active) (at_turnID active) reason now), k,
                   a\<lparr>as_heap := (as_heap a)[n := active], as_cancelled := n # as_cancelled a\<rparr>))"

text \<open>Returns the object whose \<open>finish\<close> the caller has to call, if the turn was admitted.\<close>

definition tryBeginActiveTurn :: "string \<Rightarrow> string \<Rightarrow> active_turns \<Rightarrow> nat option \<times> active_turns" where
  "tryBeginActiveTurn sessionID turnID a =
     (let n = length (as_heap a);
          active = \<lparr>at_sessionID = TrimSpace sessionID, at_turnID = TrimSpace turnID, at_kind = activeSessionKindTurn,
            at_reason = []\<rparr>;
          a = a\<lparr>as_heap := as_heap a @ [active]\<rparr>
      in if go_lookup (as_activeTurns a) (at_sessionID active) \<noteq> None
         then (None, a\<lparr>as_cancelled := n # as_cancelled a\<rparr>)
         else (Some n, a\<lparr>as_activeTurns := go_store (at_sessionID active) n (as_activeTurns a)\<rparr>))"

text \<open>The removal that \<open>finish\<close> of a turn and of a control operation share.\<close>

definition release_active :: "nat \<Rightarrow> active_turns \<Rightarrow> active_turns" where
  "release_active n a =
     (let sessionID = at_sessionID (as_heap a ! n)
      in if go_lookup (as_activeTurns a) sessionID = Some n
         then a\<lparr>as_activeTurns := AList.delete sessionID (as_activeTurns a)\<rparr> else a)"

definition finishActiveTurn :: "nat \<Rightarrow> active_turns \<Rightarrow> active_turns" where
  "finishActiveTurn n a = (let a = release_active n a in a\<lparr>as_cancelled := n # as_cancelled a\<rparr>)"

definition reserveActiveSessionControl :: "string \<Rightarrow> string \<Rightarrow> active_turns \<Rightarrow> nat option \<times> active_turns" where
  "reserveActiveSessionControl sessionID kind a =
     (let n = length (as_heap a);
          kind = TrimSpace kind;
          active = \<lparr>at_sessionID = TrimSpace sessionID, at_turnID = [], at_kind = (if kind = [] then ''control'' else kind),
            at_reason = []\<rparr>;
          a = a\<lparr>as_heap := as_heap a @ [active]\<rparr>
      in if at_sessionID active = [] \<or> go_lookup (as_activeTurns a) (at_sessionID active) \<noteq> None
         then (None, a)
         else (Some n, a\<lparr>as_activeTurns := go_store (at_sessionID active) n (as_activeTurns a)\<rparr>))"

definition activeTurnInterruptReason :: "string \<Rightarrow> string \<Rightarrow> active_turns \<Rightarrow> string" where
  "activeTurnInterruptReason sessionID turnID a =
     (case active_of a (TrimSpace sessionID) of
        None \<Rightarrow> []
      | Some active \<Rightarrow>
          if at_kind active \<noteq> activeSessionKindTurn \<or> at_turnID active \<noteq> TrimSpace turnID then [] else at_reason active)"

definition interruption_event :: "TurnInterruptionProjection \<Rightarrow> time \<Rightarrow> string \<Rightarrow> StoredEvent" where
  "interruption_event interrupted now eventID =
     no_event\<lparr>ev_EventID := eventID, ev_SessionID := ti_SessionID interrupted, ev_TurnID := ti_TurnID interrupted,
       ev_Type := ''assistant.interrupted'', ev_CreatedAt := now,
       ev_Data := no_data\<lparr>ed_TurnInterruption := Some interrupted\<rparr>\<rparr>"

definition appendTurnInterruption :: "string \<Rightarrow> string \<Rightarrow> active_turns \<Rightarrow> kernel \<Rightarrow> go_error option \<times> kernel" where
  "appendTurnInterruption sessionID turnID a k =
     (let record = interruption (TrimSpace sessionID) (TrimSpace turnID) (activeTurnInterruptReason sessionID turnID a)
      in case stamp_append (\<lambda>now. interruption_event (record now) now) (\<lambda>_. ()) k of
           (Inl err, k) \<Rightarrow> (Some err, k)
         | (Inr _, k) \<Rightarrow> (None, k))"

section \<open>Interleavings\<close>

text \<open>
  Every request runs its critical sections in some order among those of all others. The ghost
  component is the set of the objects whose holder was admitted and has not called \<open>finish\<close> yet;
  \<open>finish\<close> may be called for any object, also again after it was released.
\<close>

inductive active_step :: "active_turns \<times> nat set \<Rightarrow> active_turns \<times> nat set \<Rightarrow> bool" where
  begin_admitted: "tryBeginActiveTurn sid tid a = (Some n, a') \<Longrightarrow> active_step (a, H) (a', insert n H)"
| begin_refused: "tryBeginActiveTurn sid tid a = (None, a') \<Longrightarrow> active_step (a, H) (a', H)"
| reserve_admitted: "reserveActiveSessionControl sid kind a = (Some n, a') \<Longrightarrow> active_step (a, H) (a', insert n H)"
| reserve_refused: "reserveActiveSessionControl sid kind a = (None, a') \<Longrightarrow> active_step (a, H) (a', H)"
| finish_turn: "n < length (as_heap a) \<Longrightarrow> active_step (a, H) (finishActiveTurn n a, H - {n})"
| finish_control: "n < length (as_heap a) \<Longrightarrow> active_step (a, H) (release_active n a, H - {n})"
| interrupt: "InterruptSession sid req (k, a) = (r, k', a') \<Longrightarrow> active_step (a, H) (a', H)"

inductive active_steps :: "active_turns \<times> nat set \<Rightarrow> active_turns \<times> nat set \<Rightarrow> bool" where
  refl: "active_steps s s"
| step: "active_steps s s' \<Longrightarrow> active_step s' s'' \<Longrightarrow> active_steps s s''"

inductive_cases active_stepE: "active_step (a, H) s'"

definition no_active_turns :: active_turns where
  "no_active_turns = \<lparr>as_heap = [], as_activeTurns = [], as_cancelled = []\<rparr>"

text \<open>
  The sessions that are held are exactly those of the holders that have not finished, each by
  its own object, and no object of a holder has been overwritten.
\<close>

definition active_inv :: "active_turns \<Rightarrow> nat set \<Rightarrow> bool" where
  "active_inv a H \<longleftrightarrow> distinct (map fst (as_activeTurns a)) \<and> (\<forall>n \<in> H. n < length (as_heap a)) \<and>
     (\<forall>s n. go_lookup (as_activeTurns a) s = Some n \<longleftrightarrow> n \<in> H \<and> at_sessionID (as_heap a ! n) = s)"

text \<open>Sessions, turns and kinds of objects never change.\<close>

definition same_object :: "activeTurn \<Rightarrow> activeTurn \<Rightarrow> bool" where
  "same_object x y \<longleftrightarrow> at_sessionID y = at_sessionID x \<and> at_turnID y = at_turnID x \<and> at_kind y = at_kind x"

definition heap_le :: "active_turns \<Rightarrow> active_turns \<Rightarrow> bool" where
  "heap_le a a' \<longleftrightarrow> length (as_heap a) \<le> length (as_heap a') \<and>
     (\<forall>n < length (as_heap a). same_object (as_heap a ! n) (as_heap a' ! n))"

lemma heap_le_refl [simp]: "heap_le a a"
  by (simp add: heap_le_def same_object_def)

lemma heap_le_reason: "heap_le a (a\<lparr>as_heap := (as_heap a)[n := (as_heap a ! n)\<lparr>at_reason := r\<rparr>], as_cancelled := cs\<rparr>)"
proof -
  have "same_object (as_heap a ! m) ((as_heap a)[n := (as_heap a ! n)\<lparr>at_reason := r\<rparr>] ! m)" if "m < length (as_heap a)" for m
    using that by (cases "m = n") (simp_all add: same_object_def)
  then show ?thesis by (simp add: heap_le_def)
qed

lemma heap_le_trans: "heap_le a b \<Longrightarrow> heap_le b c \<Longrightarrow> heap_le a c"
  by (simp add: heap_le_def same_object_def)

lemma admitted_inv:
  assumes "active_inv a H" and "a' = a\<lparr>as_heap := as_heap a @ [x], as_activeTurns := go_store (at_sessionID x) (length (as_heap a)) (as_activeTurns a)\<rparr>"
    and "go_lookup (as_activeTurns a) (at_sessionID x) = None"
  shows "active_inv a' (insert (length (as_heap a)) H)"
  using assms by (auto simp: active_inv_def nth_append)

lemma refused_inv: "active_inv a H \<Longrightarrow> active_inv (a\<lparr>as_heap := as_heap a @ [x], as_cancelled := cs\<rparr>) H"
  by (auto simp: active_inv_def nth_append)

lemma release_active_holder:
  assumes "active_inv a H" and "n \<in> H"
  shows "release_active n a = a\<lparr>as_activeTurns := AList.delete (at_sessionID (as_heap a ! n)) (as_activeTurns a)\<rparr>"
  using assms by (simp add: release_active_def active_inv_def)

lemma release_active_stale: "active_inv a H \<Longrightarrow> n \<notin> H \<Longrightarrow> release_active n a = a"
  by (simp add: release_active_def active_inv_def)

lemma release_inv:
  assumes inv: "active_inv a H"
  shows "active_inv (release_active n a) (H - {n})"
proof (cases "n \<in> H")
  case True
  have "go_lookup (AList.delete s m) t = (if t = s then None else go_lookup m t)" for s t and m :: "nat go_map"
    by (simp add: delete_conv')
  moreover have "go_lookup (as_activeTurns a) s = Some m \<longleftrightarrow> m \<in> H \<and> at_sessionID (as_heap a ! m) = s" for s m
    using inv by (simp add: active_inv_def)
  ultimately show ?thesis
    using inv True unfolding release_active_holder [OF inv True] active_inv_def
    by (simp add: distinct_delete) (metis option.inject)
next
  case False
  with inv release_active_stale [OF inv False] show ?thesis by simp
qed

lemma tryBeginActiveTurn_cases:
  assumes "tryBeginActiveTurn sid tid a = (r, a')"
  obtains (admitted) x where "r = Some (length (as_heap a))" and "go_lookup (as_activeTurns a) (at_sessionID x) = None"
      and "a' = a\<lparr>as_heap := as_heap a @ [x], as_activeTurns := go_store (at_sessionID x) (length (as_heap a)) (as_activeTurns a)\<rparr>"
      and "at_sessionID x = TrimSpace sid"
  | (refused) x where "r = None" and "a' = a\<lparr>as_heap := as_heap a @ [x], as_cancelled := length (as_heap a) # as_cancelled a\<rparr>"
      and "go_lookup (as_activeTurns a) (TrimSpace sid) \<noteq> None"
  using assms unfolding tryBeginActiveTurn_def Let_def by (cases "go_lookup (as_activeTurns a) (TrimSpace sid)") auto

lemma reserveActiveSessionControl_cases:
  assumes "reserveActiveSessionControl sid kind a = (r, a')"
  obtains (admitted) x where "r = Some (length (as_heap a))" and "go_lookup (as_activeTurns a) (at_sessionID x) = None"
      and "a' = a\<lparr>as_heap := as_heap a @ [x], as_activeTurns := go_store (at_sessionID x) (length (as_heap a)) (as_activeTurns a)\<rparr>"
  | (refused) x where "r = None" and "a' = a\<lparr>as_heap := as_heap a @ [x]\<rparr>"
proof -
  define x where "x = \<lparr>at_sessionID = TrimSpace sid, at_turnID = [], at_kind = (if TrimSpace kind = [] then ''control'' else TrimSpace kind),
    at_reason = []\<rparr>"
  have x: "at_sessionID x = TrimSpace sid" by (simp add: x_def)
  show ?thesis
    using assms that [of x] unfolding reserveActiveSessionControl_def Let_def x_def [symmetric] x
    by (cases "TrimSpace sid = [] \<or> go_lookup (as_activeTurns a) (TrimSpace sid) \<noteq> None") auto
qed

lemma InterruptSession_cases:
  assumes "InterruptSession sid req (k, a) = (r, k', a')"
  obtains (refused) err where "r = Inl err" and "a' = a"
  | (interrupted) n where "go_lookup (as_activeTurns a) (TrimSpace sid) = Some n"
      and "at_kind (as_heap a ! n) = activeSessionKindTurn"
      and "r = Inr (interruption (at_sessionID (as_heap a ! n)) (at_turnID (as_heap a ! n)) (TrimSpace (ti_RequestReason req)) (fst (clock k)))"
      and "a' = a\<lparr>as_heap := (as_heap a)[n := (as_heap a ! n)\<lparr>at_reason := TrimSpace (ti_RequestReason req)\<rparr>], as_cancelled := n # as_cancelled a\<rparr>"
proof (cases "TrimSpace sid = []")
  case True
  with assms that(1) show ?thesis by (auto simp: InterruptSession_def)
next
  case False
  show ?thesis
  proof (cases "go_lookup (as_activeTurns a) (TrimSpace sid)")
    case None
    with assms False that(1) show ?thesis by (auto simp: InterruptSession_def)
  next
    case (Some n)
    with assms False that(1) that(2) [OF Some] show ?thesis
      by (auto simp: InterruptSession_def case_prod_unfold Let_def split: if_splits)
  qed
qed

lemma interrupt_inv:
  assumes "active_inv a H" and "go_lookup (as_activeTurns a) s = Some n"
  shows "active_inv (a\<lparr>as_heap := (as_heap a)[n := (as_heap a ! n)\<lparr>at_reason := r\<rparr>], as_cancelled := cs\<rparr>) H"
proof -
  have "n < length (as_heap a)" using assms by (simp add: active_inv_def)
  then have "at_sessionID ((as_heap a)[n := (as_heap a ! n)\<lparr>at_reason := r\<rparr>] ! m) = at_sessionID (as_heap a ! m)" for m
    by (cases "m = n") simp_all
  with assms(1) show ?thesis by (simp add: active_inv_def)
qed

lemma active_inv_cancel: "active_inv (a\<lparr>as_cancelled := cs\<rparr>) H \<longleftrightarrow> active_inv a H"
  by (simp add: active_inv_def)

lemma active_step_inv:
  assumes "active_step (a, H) (a', H')" and inv: "active_inv a H"
  shows "active_inv a' H'"
  using assms(1)
proof (cases rule: active_step.cases)
  case (begin_admitted sid tid n)
  from begin_admitted(2) show ?thesis
  proof (cases rule: tryBeginActiveTurn_cases)
    case (admitted x)
    with admitted_inv [OF inv admitted(3,2)] begin_admitted(1) show ?thesis by simp
  qed simp
next
  case (begin_refused sid tid)
  from begin_refused(2) show ?thesis
    by (cases rule: tryBeginActiveTurn_cases) (use begin_refused(1) refused_inv [OF inv] in auto)
next
  case (reserve_admitted sid kind n)
  from reserve_admitted(2) show ?thesis
  proof (cases rule: reserveActiveSessionControl_cases)
    case (admitted x)
    with admitted_inv [OF inv admitted(3,2)] reserve_admitted(1) show ?thesis by simp
  qed simp
next
  case (reserve_refused sid kind)
  have "active_inv (a\<lparr>as_heap := as_heap a @ [x]\<rparr>) H" for x
    using refused_inv [OF inv, where x = x and cs = "as_cancelled a"] by (simp add: active_inv_def)
  with reserve_refused show ?thesis by (cases rule: reserveActiveSessionControl_cases [OF reserve_refused(2)]) auto
next
  case (finish_turn n)
  with release_inv [OF inv, of n] show ?thesis by (simp add: finishActiveTurn_def active_inv_cancel Let_def)
next
  case (finish_control n)
  with release_inv [OF inv, of n] show ?thesis by simp
next
  case (interrupt sid req k r k')
  from interrupt(2) show ?thesis
    by (cases rule: InterruptSession_cases) (use interrupt(1) inv interrupt_inv [OF inv] in auto)
qed


lemma active_steps_inv: "active_steps s s' \<Longrightarrow> active_inv (fst s) (snd s) \<Longrightarrow> active_inv (fst s') (snd s')"
  by (induction rule: active_steps.induct) (metis active_step_inv prod.collapse)+

lemma no_active_inv: "active_inv no_active_turns {}"
  by (simp add: active_inv_def no_active_turns_def)

text \<open>Objects keep their session, turn and kind, and a cancelled context stays cancelled.\<close>

lemma active_step_keeps:
  assumes "active_step (a, H) (a', H')" and inv: "active_inv a H"
  shows "heap_le a a' \<and> set (as_cancelled a) \<subseteq> set (as_cancelled a')"
  using assms(1)
proof (cases rule: active_step.cases)
  case (interrupt sid req k r k')
  from interrupt(2) show ?thesis
    by (cases rule: InterruptSession_cases) (auto simp: heap_le_reason)
qed (auto simp: heap_le_def same_object_def nth_append release_active_def finishActiveTurn_def Let_def
    elim!: tryBeginActiveTurn_cases reserveActiveSessionControl_cases)

lemma active_steps_keep:
  "active_steps s s' \<Longrightarrow> active_inv (fst s) (snd s) \<Longrightarrow>
     heap_le (fst s) (fst s') \<and> set (as_cancelled (fst s)) \<subseteq> set (as_cancelled (fst s'))"
proof (induction rule: active_steps.induct)
  case (step s s' s'')
  have "active_inv (fst s') (snd s')" by (rule active_steps_inv [OF step.hyps(1) step.prems])
  with active_step_keeps [of "fst s'" "snd s'" "fst s''" "snd s''"] step.hyps(2)
  have "heap_le (fst s') (fst s'') \<and> set (as_cancelled (fst s')) \<subseteq> set (as_cancelled (fst s''))" by simp
  with step.IH [OF step.prems] show ?case using heap_le_trans by blast
qed simp

section \<open>Properties\<close>

text \<open>
  C13: one holder per session. Whatever the interleaving of the requests, no two turns or control
  operations that were admitted and have not finished belong to the same session, and a turn is
  admitted exactly when its session has no such holder: in particular finishing a holder frees
  its session, and finishing one that was refused or had finished before frees no session.
\<close>

theorem one_holder_per_session:
  assumes "active_steps (no_active_turns, {}) (a, H)"
  shows "(\<forall>m \<in> H. \<forall>n \<in> H. at_sessionID (as_heap a ! m) = at_sessionID (as_heap a ! n) \<longrightarrow> m = n) \<and>
    (fst (tryBeginActiveTurn sid tid a) \<noteq> None \<longleftrightarrow> (\<forall>n \<in> H. at_sessionID (as_heap a ! n) \<noteq> TrimSpace sid))"
proof -
  have inv: "active_inv a H" using active_steps_inv [OF assms] no_active_inv by simp
  then have look: "go_lookup (as_activeTurns a) s = Some n \<longleftrightarrow> n \<in> H \<and> at_sessionID (as_heap a ! n) = s" for s n
    by (simp add: active_inv_def)
  have "fst (tryBeginActiveTurn sid tid a) \<noteq> None \<longleftrightarrow> go_lookup (as_activeTurns a) (TrimSpace sid) = None"
    by (simp add: tryBeginActiveTurn_def Let_def)
  also have "\<dots> \<longleftrightarrow> (\<forall>n \<in> H. at_sessionID (as_heap a ! n) \<noteq> TrimSpace sid)"
    using look by (metis option.exhaust option.distinct(1))
  finally have "fst (tryBeginActiveTurn sid tid a) \<noteq> None \<longleftrightarrow> (\<forall>n \<in> H. at_sessionID (as_heap a ! n) \<noteq> TrimSpace sid)" .
  moreover have "\<forall>m \<in> H. \<forall>n \<in> H. at_sessionID (as_heap a ! m) = at_sessionID (as_heap a ! n) \<longrightarrow> m = n"
    using look by (metis option.inject)
  ultimately show ?thesis by blast
qed

definition active_a1 :: active_turns where "active_a1 = snd (tryBeginActiveTurn ''s1'' ''t1'' no_active_turns)"
definition active_a2 :: active_turns where "active_a2 = snd (reserveActiveSessionControl '' s1 '' ''compaction'' active_a1)"

lemma active_a2_steps: "active_steps (no_active_turns, {}) (active_a2, {0})"
proof -
  have "tryBeginActiveTurn ''s1'' ''t1'' no_active_turns = (Some 0, active_a1)"
    "reserveActiveSessionControl '' s1 '' ''compaction'' active_a1 = (None, active_a2)" by code_simp+
  then show ?thesis by (blast intro: active_steps.intros active_step.intros)
qed

theorem one_holder_per_session_witness: "fst (tryBeginActiveTurn ''s1'' ''t2'' active_a2) = None"
proof -
  have "at_sessionID (as_heap active_a2 ! 0) = TrimSpace ''s1''" by code_simp
  with one_holder_per_session [OF active_a2_steps, of "''s1''" "''t2''"] show ?thesis by blast
qed

text \<open>
  C14: an interruption reaches the turn that holds the session and nothing else. It cancels
  exactly the context of that turn, which stays cancelled and keeps its identity in every later
  state, the reason is the one the turn records when it ends, and an interruption of a session
  that is idle or held by a control operation is refused and changes nothing.
\<close>

theorem interrupt_reaches_holder:
  assumes "active_steps (no_active_turns, {}) (a, H)" and "InterruptSession sid req (k, a) = (r, k', a')"
  shows "(\<exists>p n. r = Inr p \<and> n \<in> H \<and> at_sessionID (as_heap a ! n) = TrimSpace sid \<and> at_kind (as_heap a ! n) = activeSessionKindTurn \<and>
       ti_SessionID p = TrimSpace sid \<and> ti_TurnID p = at_turnID (as_heap a ! n) \<and>
       set (as_cancelled a') = insert n (set (as_cancelled a)) \<and>
       (at_turnID (as_heap a ! n) = TrimSpace tid \<longrightarrow> activeTurnInterruptReason sid tid a' = TrimSpace (ti_RequestReason req)) \<and>
       (\<forall>a'' H''. active_steps (a', H) (a'', H'') \<longrightarrow> n \<in> set (as_cancelled a'') \<and> same_object (as_heap a ! n) (as_heap a'' ! n))) \<or>
     (isl r \<and> a' = a \<and> (TrimSpace sid \<noteq> [] \<longrightarrow>
       (\<forall>n \<in> H. at_sessionID (as_heap a ! n) = TrimSpace sid \<longrightarrow> at_kind (as_heap a ! n) \<noteq> activeSessionKindTurn)))"
proof -
  have inv: "active_inv a H" using active_steps_inv [OF assms(1)] no_active_inv by simp
  then have look: "go_lookup (as_activeTurns a) s = Some n \<longleftrightarrow> n \<in> H \<and> at_sessionID (as_heap a ! n) = s" for s n
    by (simp add: active_inv_def)
  from assms(2) show ?thesis
  proof (cases rule: InterruptSession_cases)
    case (interrupted n)
    note n = look [of "TrimSpace sid" n, THEN iffD1, OF interrupted(1)]
    have len: "n < length (as_heap a)" using inv n by (simp add: active_inv_def)
    have inv': "active_inv a' H" unfolding interrupted(4) by (rule interrupt_inv [OF inv interrupted(1)])
    have le: "heap_le a a'" and can: "n \<in> set (as_cancelled a')"
      unfolding interrupted(4) by (rule heap_le_reason, simp)
    have "n \<in> set (as_cancelled a'') \<and> same_object (as_heap a ! n) (as_heap a'' ! n)"
      if "active_steps (a', H) (a'', H'')" for a'' H''
    proof -
      from active_steps_keep [OF that] inv' have keep: "heap_le a' a''" "set (as_cancelled a') \<subseteq> set (as_cancelled a'')" by simp_all
      from heap_le_trans [OF le keep(1)] len have "same_object (as_heap a ! n) (as_heap a'' ! n)" by (simp add: heap_le_def)
      with can keep(2) show ?thesis by blast
    qed
    moreover have "activeTurnInterruptReason sid tid a' = TrimSpace (ti_RequestReason req)" if "at_turnID (as_heap a ! n) = TrimSpace tid"
      using that interrupted len by (simp add: activeTurnInterruptReason_def active_of_def)
    ultimately show ?thesis
      using n interrupted by (intro disjI1 exI [of _ "projr r"] exI [of _ n]) (simp add: interruption_def)
  next
    case (refused err)
    have "\<forall>n \<in> H. at_sessionID (as_heap a ! n) = TrimSpace sid \<longrightarrow> at_kind (as_heap a ! n) \<noteq> activeSessionKindTurn"
      if "TrimSpace sid \<noteq> []"
    proof (intro ballI impI notI)
      fix n assume n: "n \<in> H" "at_sessionID (as_heap a ! n) = TrimSpace sid" "at_kind (as_heap a ! n) = activeSessionKindTurn"
      then have "go_lookup (as_activeTurns a) (TrimSpace sid) = Some n" by (simp add: look)
      with n(3) that have "\<not> isl (fst (InterruptSession sid req (k, a)))"
        by (simp add: InterruptSession_def case_prod_unfold Let_def)
      with assms(2) refused(1) show False by simp
    qed
    with refused show ?thesis by simp
  qed
qed


definition sample_interrupt :: TurnInterruptRequest where "sample_interrupt = \<lparr>ti_RequestReason = ''stop''\<rparr>"

theorem interrupt_reaches_holder_witness:
  "0 \<in> set (as_cancelled (snd (snd (InterruptSession ''s1'' sample_interrupt (sample_kernel, active_a2)))))"
proof -
  let ?i = "InterruptSession ''s1'' sample_interrupt (sample_kernel, active_a2)"
  have "?i = (fst ?i, fst (snd ?i), snd (snd ?i))" by simp
  from interrupt_reaches_holder [OF active_a2_steps this, of "[]"] have "isl (fst ?i) \<or> 0 \<in> set (as_cancelled (snd (snd ?i)))"
    by (elim disjE exE conjE) simp_all
  moreover have "\<not> isl (fst ?i)" by code_simp
  ultimately show ?thesis by blast
qed

end
