(* ===== verification/Inspection.thy ===== *)
theory Inspection
  imports Kernel_Core
begin

text \<open>
  What a reader of the event log is shown (\<^verbatim>\<open>projections.go\<close>, \<^verbatim>\<open>capabilities.go\<close>,
  \<^verbatim>\<open>evidence_redaction.go\<close>): the events of a turn with the call identifiers of the provider
  replaced when they look like a credential. The patterns are regular expressions of the Go
  library, which are matched here over bytes; a byte class that is not ASCII stands for all
  bytes from 0x80, as every class of these patterns contains either no rune outside ASCII, all
  of them, or the two that fold to an ASCII letter.
\<close>

section \<open>Regular expressions\<close>

datatype regexp =
    Class "char \<Rightarrow> bool"
  | Seq regexp regexp
  | Alt regexp regexp
  | Many nat regexp
  | Empty
  | WordBoundary
  | BeginText
  | EndText

text \<open>A match of an expression is a pair of positions in the text.\<close>

definition word_char :: "char \<Rightarrow> bool" where
  "word_char c \<longleftrightarrow> alnum_char c \<or> c = CHR ''_''"

definition word_at :: "string \<Rightarrow> nat \<Rightarrow> bool" where
  "word_at s i \<longleftrightarrow> i < length s \<and> word_char (s ! i)"

definition word_boundary :: "string \<Rightarrow> nat \<Rightarrow> bool" where
  "word_boundary s i \<longleftrightarrow> (0 < i \<and> word_at s (i - 1)) \<noteq> word_at s i"

inductive matches :: "string \<Rightarrow> regexp \<Rightarrow> nat \<Rightarrow> nat \<Rightarrow> bool" where
  class_m: "i < length s \<Longrightarrow> P (s ! i) \<Longrightarrow> matches s (Class P) i (Suc i)"
| seq_m: "matches s r i j \<Longrightarrow> matches s q j k \<Longrightarrow> matches s (Seq r q) i k"
| alt_left: "matches s r i j \<Longrightarrow> matches s (Alt r q) i j"
| alt_right: "matches s q i j \<Longrightarrow> matches s (Alt r q) i j"
| many_stop: "i \<le> length s \<Longrightarrow> matches s (Many 0 r) i i"
| many_step: "matches s r i j \<Longrightarrow> i < j \<Longrightarrow> matches s (Many (n - 1) r) j k \<Longrightarrow> matches s (Many n r) i k"
| empty_m: "i \<le> length s \<Longrightarrow> matches s Empty i i"
| boundary_m: "i \<le> length s \<Longrightarrow> word_boundary s i \<Longrightarrow> matches s WordBoundary i i"
| begin_m: "matches s BeginText 0 0"
| end_m: "matches s EndText (length s) (length s)"

inductive_simps matches_simps [simp]:
  "matches s (Class P) i j" "matches s (Seq r q) i j" "matches s (Alt r q) i j"
  "matches s Empty i j" "matches s WordBoundary i j" "matches s BeginText i j" "matches s EndText i j"

inductive_simps matches_Many: "matches s (Many n r) i j"

text \<open>
  All ends of the matches that begin at a position. The repetition consumes at least one byte
  each time, so that the length of the text bounds it.
\<close>

fun many_ends :: "(nat \<Rightarrow> nat list) \<Rightarrow> nat \<Rightarrow> nat \<Rightarrow> nat \<Rightarrow> nat list" where
  "many_ends f 0 n i = (if n = 0 then [i] else [])"
| "many_ends f (Suc fuel) n i =
     remdups ((if n = 0 then [i] else []) @ concat (map (many_ends f fuel (n - 1)) (filter (\<lambda>j. i < j) (f i))))"

fun ends :: "string \<Rightarrow> regexp \<Rightarrow> nat \<Rightarrow> nat list" where
  "ends s (Class P) i = (if i < length s \<and> P (s ! i) then [Suc i] else [])"
| "ends s (Seq r q) i = remdups (concat (map (ends s q) (ends s r i)))"
| "ends s (Alt r q) i = ends s r i @ ends s q i"
| "ends s (Many n r) i = (if i \<le> length s then many_ends (ends s r) (length s - i) n i else [])"
| "ends s Empty i = (if i \<le> length s then [i] else [])"
| "ends s WordBoundary i = (if i \<le> length s \<and> word_boundary s i then [i] else [])"
| "ends s BeginText i = (if i = 0 then [0] else [])"
| "ends s EndText i = (if i = length s then [i] else [])"

definition MatchString :: "regexp \<Rightarrow> string \<Rightarrow> bool" where
  "MatchString r s \<longleftrightarrow> list_ex (\<lambda>i. ends s r i \<noteq> []) [0..<Suc (length s)]"

lemma matches_range: "matches s r i j \<Longrightarrow> i \<le> j \<and> j \<le> length s"
  by (induction rule: matches.induct) auto

lemma many_ends_iff:
  assumes r: "\<And>i j. j \<in> set (f i) \<longleftrightarrow> matches s r i j"
  shows "i \<le> length s \<Longrightarrow> length s - i \<le> fuel \<Longrightarrow> j \<in> set (many_ends f fuel n i) \<longleftrightarrow> matches s (Many n r) i j"
proof (induction fuel arbitrary: n i j)
  case 0
  then have "i = length s" by simp
  then have none: "\<not> (matches s r i m \<and> i < m)" for m using matches_range [of s r i m] by auto
  then have "matches s (Many n r) i j \<longleftrightarrow> n = 0 \<and> j = i" using 0(1) by (subst matches_Many) blast
  then show ?case by simp blast
next
  case (Suc fuel)
  have "j \<in> set (many_ends f fuel (n - 1) m) \<longleftrightarrow> matches s (Many (n - 1) r) m j" if "m \<in> set (f i)" "i < m" for m
  proof (rule Suc.IH)
    show "m \<le> length s" using that r matches_range by blast
    show "length s - m \<le> fuel" using that Suc.prems by linarith
  qed
  then have "j \<in> set (many_ends f (Suc fuel) n i) \<longleftrightarrow>
      (n = 0 \<and> j = i) \<or> (\<exists>m. matches s r i m \<and> i < m \<and> matches s (Many (n - 1) r) m j)"
    using r by auto
  also have "\<dots> \<longleftrightarrow> matches s (Many n r) i j"
    using Suc.prems(1) unfolding matches_Many [of s n r i j] One_nat_def by blast
  finally show ?case .
qed

lemma ends_iff: "j \<in> set (ends s r i) \<longleftrightarrow> matches s r i j"
proof (induction r arbitrary: i j)
  case (Many n r)
  show ?case
  proof (cases "i \<le> length s")
    case True
    with many_ends_iff [of "ends s r" s r, OF Many.IH True order_refl] show ?thesis by simp
  next
    case False
    then have "\<not> matches s (Many n r) i j" using matches_range [of s "Many n r" i j] by linarith
    with False show ?thesis by simp
  qed
qed auto

lemma MatchString_iff: "MatchString r s \<longleftrightarrow> (\<exists>i j. matches s r i j)"
proof -
  have "MatchString r s \<longleftrightarrow> (\<exists>i \<le> length s. \<exists>j. matches s r i j)"
    unfolding MatchString_def list_ex_iff ends_iff [symmetric] ex_in_conv set_empty by (simp add: Bex_def) (metis le_eq_less_or_eq)
  then show ?thesis using matches_range by (meson order_trans)
qed


section \<open>Credentials\<close>

text \<open>Literals, and literals and classes under the flag \<^verbatim>\<open>(?i)\<close>.\<close>

fun lit :: "string \<Rightarrow> regexp" where
  "lit [] = Empty"
| "lit (c # cs) = Seq (Class (\<lambda>d. d = c)) (lit cs)"

definition kelvin :: regexp where "kelvin = lit [CHR 0xE2, CHR 0x84, CHR 0xAA]"
definition long_s :: regexp where "long_s = lit [CHR 0xC5, CHR 0xBF]"

definition upper_char :: "char \<Rightarrow> char" where
  "upper_char c = (if CHR ''a'' \<le> c \<and> c \<le> CHR ''z'' then char_of (of_char c - (32 :: nat)) else c)"

definition fold_class :: "(char \<Rightarrow> bool) \<Rightarrow> regexp" where
  "fold_class P =
     (let r = Class (\<lambda>d. P d \<or> P (lower_char d) \<or> P (upper_char d));
          r = (if P (CHR ''k'') \<or> P (CHR ''K'') then Alt r kelvin else r)
      in if P (CHR ''s'') \<or> P (CHR ''S'') then Alt r long_s else r)"

fun fold_lit :: "string \<Rightarrow> regexp" where
  "fold_lit [] = Empty"
| "fold_lit (c # cs) = Seq (fold_class (\<lambda>d. d = c)) (fold_lit cs)"

fun seqs :: "regexp list \<Rightarrow> regexp" where
  "seqs [] = Empty"
| "seqs (r # rs) = Seq r (seqs rs)"

fun alts :: "regexp \<Rightarrow> regexp list \<Rightarrow> regexp" where
  "alts r [] = r"
| "alts r (q # rs) = Alt r (alts q rs)"

definition opt :: "regexp \<Rightarrow> regexp" where "opt r = Alt r Empty"

definition token_char :: "char \<Rightarrow> bool" where "token_char c \<longleftrightarrow> alnum_char c \<or> c = CHR ''_'' \<or> c = CHR ''-''"
definition blanks :: "nat \<Rightarrow> regexp" where "blanks n = Many n (Class (\<lambda>c. c \<in> set [CHR 0x09, CHR 0x0D, CHR 0x0A, CHR '' '']))"
definition dash :: regexp where "dash = opt (Class (\<lambda>c. c = CHR ''_'' \<or> c = CHR ''-''))"
definition quote :: regexp where "quote = Class (\<lambda>c. c = CHR 0x22)"
definition unquoted :: "string \<Rightarrow> regexp" where
  "unquoted stops = Many 1 (Class (\<lambda>c. c \<notin> set ([CHR 0x09, CHR 0x0D, CHR 0x0A, CHR '' '', CHR 0x22] @ stops)))"

definition secret_names :: "regexp list" where
  "secret_names = [fold_lit ''token'', fold_lit ''secret'', fold_lit ''password'',
     seqs [fold_lit ''access'', dash, fold_lit ''token''], seqs [fold_lit ''refresh'', dash, fold_lit ''token'']]"

definition api_key :: regexp where "api_key = seqs [fold_lit ''api'', dash, fold_lit ''key'']"

definition credentialShapedTextRules :: "regexp list" where
  "credentialShapedTextRules =
     [seqs [WordBoundary, lit ''sk-'', opt (lit ''proj-''), Many 6 (Class token_char), WordBoundary],
      seqs [WordBoundary, lit ''eyJ'', Many 5 (Class token_char), lit ''.'', Many 10 (Class token_char), lit ''.'',
        Many 10 (Class token_char), WordBoundary],
      seqs [fold_lit ''authorization'', blanks 0, lit '':'', blanks 0, fold_lit ''bearer'', blanks 1, unquoted [CHR 0x27]],
      seqs [WordBoundary, fold_lit ''bearer'', blanks 1, Many 8 (fold_class (\<lambda>c. alnum_char c \<or> c \<in> set ''._~+/=-''))],
      seqs [WordBoundary, Many 0 (fold_class word_char),
        alts (seqs [fold_lit ''API'', dash, fold_lit ''KEY'']) [fold_lit ''TOKEN'', fold_lit ''SECRET'', fold_lit ''PASSWORD''],
        Many 0 (fold_class word_char), blanks 0, lit ''='', blanks 0, unquoted [CHR 0x27, CHR '','', CHR '';'']],
      seqs [quote, alts api_key (secret_names @ [fold_lit ''authorization'']), quote, blanks 0, lit '':'', blanks 0, quote,
        Many 1 (Class (\<lambda>c. c \<noteq> CHR 0x22)), quote],
      seqs [WordBoundary, alts api_key secret_names, blanks 0, Class (\<lambda>c. c = CHR '':'' \<or> c = CHR ''=''), blanks 0,
        unquoted [CHR 0x27, CHR '','', CHR '';'']]]"

definition containsCredentialShapedText :: "string \<Rightarrow> bool" where
  "containsCredentialShapedText s \<longleftrightarrow> list_ex (\<lambda>rule. MatchString rule s) credentialShapedTextRules"

definition credentialShapedInspectionTokenPattern :: regexp where
  "credentialShapedInspectionTokenPattern =
     (let ti = fold_class token_char; sep = Class (\<lambda>c. c \<in> set ''._-'')
      in Alt (seqs [Alt BeginText sep, fold_lit ''sk-'', opt (fold_lit ''proj-''), Many 6 ti, Alt EndText sep])
           (seqs [BeginText, Many 20 ti, lit ''.'', Many 20 ti, lit ''.'', Many 20 ti, EndText]))"

definition safeInspectionToken :: "string \<Rightarrow> string \<Rightarrow> string" where
  "safeInspectionToken val fallback =
     (let val = TrimSpace val
      in if val = [] \<or> length val > 120 \<or> containsCredentialShapedText val \<or> MatchString credentialShapedInspectionTokenPattern val
         then fallback
         else if list_all (\<lambda>c. alnum_char c \<or> c \<in> set ''._-'') val then val else fallback)"

section \<open>Shown events\<close>

definition redactProviderToolCallID :: "string \<Rightarrow> string" where
  "redactProviderToolCallID i =
     (let i = TrimSpace i in if i = [] then [] else safeInspectionToken i ''provider_tool_call_id_unavailable'')"

text \<open>The copy of a reasoning message leaves the adapter out.\<close>

definition cloneReasoningMessage :: "ReasoningMessage \<Rightarrow> ReasoningMessage" where
  "cloneReasoningMessage message = message\<lparr>rm_AdapterID := [], rm_AdapterProfileID := []\<rparr>"

definition inspectionEventData :: "EventData \<Rightarrow> EventData" where
  "inspectionEventData data =
     data\<lparr>ed_Reasoning := map_option cloneReasoningMessage (ed_Reasoning data),
       ed_ToolCall := map_option (\<lambda>c. c\<lparr>tc_ProviderToolCallID := redactProviderToolCallID (tc_ProviderToolCallID c)\<rparr>) (ed_ToolCall data),
       ed_ToolResult := map_option (\<lambda>r. r\<lparr>tr_ProviderToolCallID := redactProviderToolCallID (tr_ProviderToolCallID r)\<rparr>) (ed_ToolResult data)\<rparr>"

text \<open>An \<open>Event\<close> has the fields of a stored event.\<close>

definition toInspectionEvent :: "StoredEvent \<Rightarrow> StoredEvent" where
  "toInspectionEvent event = event\<lparr>ev_Data := inspectionEventData (ev_Data event)\<rparr>"

section \<open>What the patterns recognise\<close>

lemma matches_many_each:
  assumes "i \<le> j" and "j \<le> length s" and "\<And>x. i \<le> x \<Longrightarrow> x < j \<Longrightarrow> matches s r x (Suc x)" and "n \<le> j - i"
  shows "matches s (Many n r) i j"
  using assms
proof (induction "j - i" arbitrary: i n)
  case 0
  then show ?case by (simp add: matches.many_stop)
next
  case (Suc d)
  have "matches s (Many (n - 1) r) (Suc i) j"
    by (rule Suc.hyps(1)) (use Suc.hyps(2) Suc.prems in simp_all)
  moreover have "matches s r i (Suc i)" using Suc.hyps(2) Suc.prems(3) by simp
  ultimately show ?case by (blast intro: matches.many_step)
qed

lemma matches_fold_class: "i < length s \<Longrightarrow> P (s ! i) \<Longrightarrow> matches s (fold_class P) i (Suc i)"
  by (simp add: fold_class_def Let_def)

lemma matches_fold_lit: "matches (a @ l @ c) (fold_lit l) (length a) (length a + length l)"
proof (induction l arbitrary: a)
  case (Cons x l)
  have "matches (a @ (x # l) @ c) (fold_class (\<lambda>d. d = x)) (length a) (Suc (length a))"
    by (rule matches_fold_class) simp_all
  moreover have "matches (a @ (x # l) @ c) (fold_lit l) (Suc (length a)) (length a + length (x # l))"
    using Cons.IH [of "a @ [x]"] by simp
  ultimately show ?case unfolding fold_lit.simps matches_simps by blast
qed simp

definition separator :: "char \<Rightarrow> bool" where "separator c \<longleftrightarrow> c \<in> set ''._-''"

text \<open>A secret key: \<^verbatim>\<open>sk-\<close> and at least six token characters between separators or the ends.\<close>

definition has_secret_key :: "string \<Rightarrow> bool" where
  "has_secret_key t \<longleftrightarrow> (\<exists>a b c. t = a @ ''sk-'' @ b @ c \<and> 6 \<le> length b \<and> list_all token_char b \<and>
     (a = [] \<or> separator (last a)) \<and> (c = [] \<or> separator (hd c)))"

lemma secret_key_matched:
  assumes "has_secret_key t"
  shows "MatchString credentialShapedInspectionTokenPattern t"
proof -
  let ?sep = "Class (\<lambda>c. c \<in> set ''._-'')"
  obtain a b c where t: "t = a @ ''sk-'' @ b @ c" and b: "6 \<le> length b" "list_all token_char b"
    and ends: "a = [] \<or> separator (last a)" "c = [] \<or> separator (hd c)"
    using assms unfolding has_secret_key_def by blast
  define i j where "i = length a + 3" and "j = length a + 3 + length b"
  have "matches t (fold_lit ''sk-'') (length a) i" 
  proof -
    have three: "length ''sk-'' = 3" by simp
    from matches_fold_lit [of a "''sk-''" "b @ c", unfolded three] show ?thesis unfolding t i_def .
  qed
  moreover have "matches t (opt (fold_lit ''proj-'')) i i" by (simp add: opt_def t i_def)
  moreover have "matches t (Many 6 (fold_class token_char)) i j"
  proof (rule matches_many_each)
    fix x assume x: "i \<le> x" "x < j"
    have "t = (a @ ''sk-'') @ b @ c" "length (a @ ''sk-'') = i" by (simp_all add: t i_def)
    then have "t ! x = (b @ c) ! (x - i)" using x(1) by (metis nth_append leD)
    moreover have "x - i < length b" using x by (simp add: i_def j_def)
    ultimately have "t ! x = b ! (x - i)" by (simp add: nth_append)
    moreover have "b ! (x - i) \<in> set b" using x by (simp add: i_def j_def)
    ultimately show "matches t (fold_class token_char) x (Suc x)"
      using x b(2) by (intro matches_fold_class) (simp_all add: t j_def list_all_iff)
  qed (use b(1) in \<open>simp_all add: t i_def j_def\<close>)
  moreover have "\<exists>k. matches t (Alt EndText ?sep) j k"
  proof (cases c)
    case Nil
    then show ?thesis by (simp add: t j_def)
  next
    case (Cons y ys)
    with ends(2) show ?thesis by (simp add: t j_def nth_append separator_def)
  qed
  moreover have "\<exists>h. matches t (Alt BeginText ?sep) h (length a)"
  proof (cases a rule: rev_cases)
    case (snoc xs x)
    with ends(1) show ?thesis by (intro exI [of _ "length xs"]) (simp add: t nth_append separator_def)
  qed simp
  moreover have "k \<le> length t" if "matches t (Alt EndText ?sep) j k" for k using matches_range that by blast
  ultimately have "\<exists>h k. matches t (seqs [Alt BeginText ?sep, fold_lit ''sk-'', opt (fold_lit ''proj-''),
      Many 6 (fold_class token_char), Alt EndText ?sep]) h k"
    unfolding seqs.simps matches_simps(2,4) by blast
  then show ?thesis
    unfolding MatchString_iff credentialShapedInspectionTokenPattern_def Let_def matches_simps(3) by blast
qed

section \<open>Properties\<close>

text \<open>
  C17: what a reader sees of the call identifier of a provider is nothing, the fixed
  replacement, or the trimmed identifier itself, and then it is at most 120 letters, digits,
  dots, underscores and dashes in which no secret key occurs.
\<close>

theorem inspection_ids_safe:
  "redactProviderToolCallID i \<in> {[], ''provider_tool_call_id_unavailable''} \<union>
     {t. t = TrimSpace i \<and> length t \<le> 120 \<and> list_all (\<lambda>c. alnum_char c \<or> c \<in> set ''._-'') t \<and>
        \<not> containsCredentialShapedText t \<and> \<not> has_secret_key t}"
proof -
  define t where "t = TrimSpace i"
  define bad where "bad \<longleftrightarrow> length t > 120 \<or> containsCredentialShapedText t \<or> MatchString credentialShapedInspectionTokenPattern t"
  define good where "good \<longleftrightarrow> list_all (\<lambda>c. alnum_char c \<or> c \<in> set ''._-'') t"
  let ?fb = "''provider_tool_call_id_unavailable''"
  have "redactProviderToolCallID i = (if t = [] then [] else if bad \<or> \<not> good then ?fb else t)"
    unfolding redactProviderToolCallID_def safeInspectionToken_def Let_def TrimSpace_idem unfolding t_def [symmetric] good_def bad_def by auto
  then consider "redactProviderToolCallID i = []" | "redactProviderToolCallID i = ?fb"
    | "redactProviderToolCallID i = t" "\<not> bad" "good" by metis
  then show ?thesis
  proof cases
    case 3
    then have "length t \<le> 120" "\<not> containsCredentialShapedText t" "\<not> has_secret_key t"
      using secret_key_matched [of t] by (auto simp: bad_def)
    with 3 show ?thesis unfolding good_def t_def by simp
  qed simp_all
qed

theorem inspection_ids_safe_witness:
  "redactProviderToolCallID ''call_7'' = ''call_7'' \<and> \<not> has_secret_key ''call_7''"
proof -
  have 1: "redactProviderToolCallID ''call_7'' = ''call_7''" by code_simp
  from inspection_ids_safe [of "''call_7''"] have "\<not> has_secret_key ''call_7''" unfolding 1 by simp
  with 1 show ?thesis by (rule conjI)
qed

end
