(* ===== verification/Turn_Log.thy ===== *)
theory Turn_Log
  imports Active_Turns Inspection Runtime_Policy
begin

text \<open>
  The log of a turn (\<^verbatim>\<open>kernel.go\<close>, \<^verbatim>\<open>turn_interrupt.go\<close>): the events a turn appends, the answer to
  a repeated submission, the events of a turn as they are shown, and the tool rounds that the
  next request to the model is built from.
\<close>

section \<open>Model\<close>

definition ErrTurnNotFound :: go_error where "ErrTurnNotFound = Sentinel ''turn not found''"
definition ErrProviderUnavailable :: go_error where "ErrProviderUnavailable = Sentinel ''provider unavailable''"
definition ErrModelToolCallRejected :: go_error where "ErrModelToolCallRejected = Sentinel ''model tool call rejected''"
definition ErrToolInfrastructureFailed :: go_error where "ErrToolInfrastructureFailed = Sentinel ''tool infrastructure failed''"
definition ErrIngressSecurityBlocked :: go_error where "ErrIngressSecurityBlocked = Sentinel ''ingress security blocked turn''"

record TurnRequest =
  rq_SessionID :: string
  rq_IdempotencyKey :: string
  rq_InputItems :: "InputItem list"

record TurnResponse =
  rs_SessionID :: string
  rs_TurnID :: string
  rs_Events :: "StoredEvent list"
  rs_Final :: "FinalMessage option"
  rs_Pause :: "TurnPauseProjection option"
  rs_Error :: "TurnError option"

text \<open>The zero response; \<open>rs_Final = None\<close> is the zero \<open>FinalMessage\<close>.\<close>

definition no_response :: TurnResponse where
  "no_response = \<lparr>rs_SessionID = [], rs_TurnID = [], rs_Events = [], rs_Final = None, rs_Pause = None, rs_Error = None\<rparr>"

record ModelToolCall =
  mtc_ToolCallID :: string
  mtc_ToolCallEventID :: string
  mtc_Name :: string
  mtc_Arguments :: string

record AgentInvocationRunRequest =
  rnq_InvocationID :: string
  rnq_Principal :: string
  rnq_InputItems :: "InputItem list"
  rnq_IdempotencyKey :: string

record ModelToolResult =
  mtr_ToolCallID :: string
  mtr_ToolCallEventID :: string
  mtr_Name :: string
  mtr_Content :: string
  mtr_PendingJobStart :: "JobProjection option"
  mtr_PendingAgentInvocationStart :: "AgentInvocationRunRequest option"

record ModelToolRound =
  mtu_Calls :: "ModelToolCall list"
  mtu_Results :: "ModelToolResult list"

subsection \<open>Validation\<close>

fun validate_items :: "nat \<Rightarrow> InputItem list \<Rightarrow> go_error option" where
  "validate_items i [] = None"
| "validate_items i (item # items) =
     (if ii_Type item \<noteq> ''text'' then Some (Errorf ''input_items[%d].type must be text'' [show_nat i])
      else if TrimSpace (ii_Text item) = [] then Some (Errorf ''input_items[%d].text is required'' [show_nat i])
      else validate_items (Suc i) items)"

definition validateTurnRequest :: "TurnRequest \<Rightarrow> go_error option" where
  "validateTurnRequest req =
     first_error
       [if TrimSpace (rq_SessionID req) \<noteq> [] then validateKernelControlToken ''session_id'' (rq_SessionID req) else None,
        validateIdempotencyKey (rq_IdempotencyKey req),
        if TrimSpace (rq_IdempotencyKey req) \<noteq> [] \<and> TrimSpace (rq_SessionID req) = []
        then Some (errors_New ''session_id is required when idempotency_key is set'') else None,
        if rq_InputItems req = [] then Some (errors_New ''input_items is required'') else None,
        validate_items 0 (rq_InputItems req)]"

definition providerToolCallID :: "ModelToolCall \<Rightarrow> string" where
  "providerToolCallID call = TrimSpace (mtc_ToolCallID call)"

fun validate_calls :: "string list \<Rightarrow> ModelToolCall list \<Rightarrow> go_error option" where
  "validate_calls seen [] = None"
| "validate_calls seen (call # calls) =
     (if TrimSpace (mtc_ToolCallEventID call) \<noteq> []
      then Some (Wrapped ErrModelToolCallRejected (errors_New ''provider supplied kernel-owned tool_call_event_id''))
      else
        let i = providerToolCallID call
        in if i = [] then validate_calls seen calls
           else if i \<in> set seen then Some (Wrapped ErrModelToolCallRejected (errors_New ''duplicate provider tool_call_id''))
           else validate_calls (i # seen) calls)"

definition validateProviderToolCallBatch :: "ModelToolCall list \<Rightarrow> go_error option" where
  "validateProviderToolCallBatch calls = validate_calls [] calls"

subsection \<open>The events of a turn\<close>

definition turn_event :: "string \<Rightarrow> string \<Rightarrow> string \<Rightarrow> EventData \<Rightarrow> time \<Rightarrow> string \<Rightarrow> StoredEvent" where
  "turn_event ty sessionID turnID data now eventID =
     no_event\<lparr>ev_EventID := eventID, ev_SessionID := sessionID, ev_TurnID := turnID, ev_Type := ty,
       ev_CreatedAt := now, ev_Data := data\<rparr>"

definition append_turn_event :: "(time \<Rightarrow> string \<Rightarrow> StoredEvent) \<Rightarrow> kernel \<Rightarrow> go_error option \<times> kernel" where
  "append_turn_event event k =
     (case stamp_append event (\<lambda>_. ()) k of (Inl err, k) \<Rightarrow> (Some err, k) | (Inr _, k) \<Rightarrow> (None, k))"

definition appendTurnFailure :: "string \<Rightarrow> string \<Rightarrow> TurnError \<Rightarrow> kernel \<Rightarrow> go_error option \<times> kernel" where
  "appendTurnFailure sessionID turnID failure =
     append_turn_event (turn_event ''turn.failed'' sessionID turnID (no_data\<lparr>ed_TurnError := Some failure\<rparr>))"

definition modelToolRoundCounts :: "ModelToolRound list \<Rightarrow> nat \<times> nat \<times> nat" where
  "modelToolRoundCounts rounds =
     foldl (\<lambda>(roundCount, callCount, resultCount) round.
         if length (mtu_Calls round) = 0 \<and> length (mtu_Results round) = 0 then (roundCount, callCount, resultCount)
         else (roundCount + 1, callCount + length (mtu_Calls round), resultCount + length (mtu_Results round)))
       (0, 0, 0) rounds"

definition budget_pause :: "string \<Rightarrow> string \<Rightarrow> ModelToolRound list \<Rightarrow> budgetLease \<Rightarrow> time \<Rightarrow> TurnPauseProjection" where
  "budget_pause sessionID turnID rounds lease now =
     \<lparr>tp_SessionID = TrimSpace sessionID, tp_TurnID = TrimSpace turnID, tp_Phase = ''waiting'', tp_WaitReason = ''budget_pause'',
      tp_Reason = ''tool_loop_round_budget_exhausted'', tp_RoundBudget = bl_modelToolRoundBudget lease,
      tp_BudgetLease = lease_projection lease, tp_CompletedToolRounds = int (fst (modelToolRoundCounts rounds)),
      tp_PausedAt = now\<rparr>"

definition appendToolLoopBudgetPause ::
  "string \<Rightarrow> string \<Rightarrow> ModelToolRound list \<Rightarrow> budgetLease \<Rightarrow> kernel \<Rightarrow> TurnPauseProjection res \<times> kernel" where
  "appendToolLoopBudgetPause sessionID turnID rounds lease =
     (let pause = budget_pause sessionID turnID rounds lease
      in stamp_append (\<lambda>now. turn_event ''turn.paused'' sessionID turnID (no_data\<lparr>ed_TurnPause := Some (pause now)\<rparr>) now) pause)"

definition delegation_pause :: "string \<Rightarrow> string \<Rightarrow> time \<Rightarrow> TurnPauseProjection" where
  "delegation_pause sessionID turnID now =
     \<lparr>tp_SessionID = TrimSpace sessionID, tp_TurnID = TrimSpace turnID, tp_Phase = ''waiting'', tp_WaitReason = ''agent_delegation'',
      tp_Reason = ''worker_delegation_pending'', tp_RoundBudget = 0,
      tp_BudgetLease = \<lparr>blp_ModelToolRoundBudget = 0, blp_ModelToolRoundCeiling = 0\<rparr>, tp_CompletedToolRounds = 0, tp_PausedAt = now\<rparr>"

definition appendAgentDelegationPause :: "string \<Rightarrow> string \<Rightarrow> kernel \<Rightarrow> TurnPauseProjection res \<times> kernel" where
  "appendAgentDelegationPause sessionID turnID =
     (let pause = delegation_pause sessionID turnID
      in stamp_append (\<lambda>now. turn_event ''turn.paused'' sessionID turnID (no_data\<lparr>ed_TurnPause := Some (pause now)\<rparr>) now) pause)"

definition tool_call_event :: "string \<Rightarrow> string \<Rightarrow> ModelToolCall \<Rightarrow> time \<Rightarrow> string \<Rightarrow> StoredEvent" where
  "tool_call_event sessionID turnID call now eventID =
     turn_event ''tool.call'' sessionID turnID
       (no_data\<lparr>ed_ToolCall := Some \<lparr>tc_ToolCallEventID = eventID, tc_ProviderToolCallID = providerToolCallID call,
          tc_Tool = TrimSpace (mtc_Name call), tc_Arguments = mtc_Arguments call\<rparr>\<rparr>) now eventID"

fun append_calls :: "string \<Rightarrow> string \<Rightarrow> ModelToolCall list \<Rightarrow> ModelToolCall list \<Rightarrow> kernel \<Rightarrow> ModelToolCall list res \<times> kernel" where
  "append_calls sessionID turnID normalized [] k = (Inr normalized, k)"
| "append_calls sessionID turnID normalized (call # calls) k =
     (let (createdAt, k) = clock k;
          (eventID, k) = newID ''evt'' createdAt k
      in case appendEvent (tool_call_event sessionID turnID call createdAt eventID) k of
           (Some err, k) \<Rightarrow> (Inl err, k)
         | (None, k) \<Rightarrow>
             append_calls sessionID turnID
               (normalized @ [\<lparr>mtc_ToolCallID = providerToolCallID call, mtc_ToolCallEventID = eventID,
                  mtc_Name = mtc_Name call, mtc_Arguments = mtc_Arguments call\<rparr>]) calls k)"

text \<open>The second result of the function maps every new event identifier to itself.\<close>

definition appendToolCallEvents ::
  "string \<Rightarrow> string \<Rightarrow> ModelToolCall list \<Rightarrow> kernel \<Rightarrow> (ModelToolCall list \<times> string go_map) res \<times> kernel" where
  "appendToolCallEvents sessionID turnID calls k =
     (case validateProviderToolCallBatch calls of
        Some err \<Rightarrow> (Inl err, k)
      | None \<Rightarrow>
          (case append_calls sessionID turnID [] calls k of
             (Inl err, k) \<Rightarrow> (Inl err, k)
           | (Inr normalized, k) \<Rightarrow>
               (Inr (normalized, map (\<lambda>call. (mtc_ToolCallEventID call, mtc_ToolCallEventID call)) normalized), k)))"

text \<open>
  \<open>status\<close> is the field of that name of the decoded content, \<open>None\<close> if it is no such JSON object.
\<close>

definition toolResultStatus :: "(string \<Rightarrow> string option) \<Rightarrow> string \<Rightarrow> string" where
  "toolResultStatus status content =
     (case status content of
        Some st \<Rightarrow> if TrimSpace st \<noteq> [] then TrimSpace st else ''tool_result''
      | None \<Rightarrow> ''tool_result'')"

definition tool_result_event ::
  "(string \<Rightarrow> string option) \<Rightarrow> string \<Rightarrow> string \<Rightarrow> ModelToolResult \<Rightarrow> string \<Rightarrow> time \<Rightarrow> string \<Rightarrow> StoredEvent" where
  "tool_result_event status sessionID turnID result forEventID =
     turn_event ''tool.result'' sessionID turnID
       (no_data\<lparr>ed_ToolResult := Some \<lparr>tr_ToolCallEventID = TrimSpace (mtr_ToolCallEventID result),
          tr_ProviderToolCallID = TrimSpace (mtr_ToolCallID result), tr_Tool = TrimSpace (mtr_Name result),
          tr_ForEventID = TrimSpace forEventID, tr_Status = toolResultStatus status (mtr_Content result),
          tr_Content = mtr_Content result\<rparr>\<rparr>)"

definition appendToolResultEvent ::
  "(string \<Rightarrow> string option) \<Rightarrow> string \<Rightarrow> string \<Rightarrow> ModelToolResult \<Rightarrow> string \<Rightarrow> kernel \<Rightarrow> go_error option \<times> kernel" where
  "appendToolResultEvent status sessionID turnID result forEventID =
     append_turn_event (tool_result_event status sessionID turnID result forEventID)"

subsection \<open>Reading a turn\<close>

definition replayedTurnFailure :: "TurnError \<Rightarrow> go_error" where
  "replayedTurnFailure failure =
     (let message = errors_New (if tr_Message failure \<noteq> [] then tr_Message failure
            else if tr_Code failure \<noteq> [] then tr_Code failure else ''turn failed'')
      in if tr_Code failure = ''provider_unavailable'' then Wrapped ErrProviderUnavailable message
         else if tr_Code failure = ''tool_call_rejected'' then Wrapped ErrModelToolCallRejected message
         else if tr_Code failure = ''tool_infrastructure_failed'' then Wrapped ErrToolInfrastructureFailed message
         else if tr_Code failure = ''turn_blocked_by_ingress_security'' then Wrapped ErrIngressSecurityBlocked message
         else if tr_Code failure = ''turn_interrupted'' then Wrapped ErrTurnInterrupted message
         else if tr_Code failure = ''session_active'' then Wrapped ErrSessionActive message
         else message)"

record turn_scan =
  sc_turnID :: string
  sc_events :: "StoredEvent list"
  sc_final :: "FinalMessage option"
  sc_pause :: "TurnPauseProjection option"
  sc_failure :: "TurnError option"

definition interrupted_error :: TurnError where
  "interrupted_error = \<lparr>tr_Code = ''turn_interrupted'', tr_Message = ''turn was interrupted''\<rparr>"

definition scan_event :: "StoredEvent \<Rightarrow> turn_scan \<Rightarrow> turn_scan" where
  "scan_event event sc =
     (let sc = sc\<lparr>sc_events := sc_events sc @ [toInspectionEvent event]\<rparr>
      in if ev_Type event = ''model.final'' then
           (case ed_Final (ev_Data event) of Some final \<Rightarrow> sc\<lparr>sc_final := Some final\<rparr> | None \<Rightarrow> sc)
         else if ev_Type event = ''turn.paused'' then
           (case ed_TurnPause (ev_Data event) of Some pause \<Rightarrow> sc\<lparr>sc_pause := Some pause\<rparr> | None \<Rightarrow> sc)
         else if ev_Type event = ''assistant.interrupted'' then sc\<lparr>sc_failure := Some interrupted_error\<rparr>
         else if ev_Type event = ''turn.failed'' then
           (case ed_TurnError (ev_Data event) of Some failure \<Rightarrow> sc\<lparr>sc_failure := Some failure\<rparr> | None \<Rightarrow> sc)
         else sc)"

definition turn_scan_step :: "string \<Rightarrow> string \<Rightarrow> turn_scan \<Rightarrow> StoredEvent \<Rightarrow> turn_scan res" where
  "turn_scan_step sessionID key sc event =
     (if ev_SessionID event \<noteq> sessionID then Inr sc
      else if ev_Type event = ''turn.submitted'' \<and> ed_IdempotencyKey (ev_Data event) = key \<and>
          sc_turnID sc \<noteq> [] \<and> sc_turnID sc \<noteq> ev_TurnID event
      then Inl (wrapLedgerUnavailable (Wrapped ErrLedgerCorrupt (errors_New ''competing turn idempotency evidence'')))
      else
        let sc = (if ev_Type event = ''turn.submitted'' \<and> ed_IdempotencyKey (ev_Data event) = key
                  then sc\<lparr>sc_turnID := ev_TurnID event\<rparr> else sc)
        in if sc_turnID sc = [] \<or> ev_TurnID event \<noteq> sc_turnID sc then Inr sc else Inr (scan_event event sc))"

definition no_scan :: turn_scan where
  "no_scan = \<lparr>sc_turnID = [], sc_events = [], sc_final = None, sc_pause = None, sc_failure = None\<rparr>"

definition turnByIdempotencyKey :: "string \<Rightarrow> string \<Rightarrow> kernel \<Rightarrow> TurnResponse \<times> bool \<times> go_error option" where
  "turnByIdempotencyKey sessionID key k =
     (case bind_res (loadEvents k) (replay (turn_scan_step sessionID key) no_scan) of
        Inl err \<Rightarrow> (no_response, False, Some err)
      | Inr sc \<Rightarrow>
          let resp = no_response\<lparr>rs_SessionID := sessionID, rs_TurnID := sc_turnID sc, rs_Events := sc_events sc\<rparr>
          in if sc_turnID sc = [] then (no_response, False, None)
             else case sc_final sc of Some final \<Rightarrow> (resp\<lparr>rs_Final := Some final\<rparr>, True, None) | None \<Rightarrow>
             case sc_pause sc of Some pause \<Rightarrow> (resp\<lparr>rs_Pause := Some pause\<rparr>, True, None) | None \<Rightarrow>
             case sc_failure sc of
               Some failure \<Rightarrow> (resp\<lparr>rs_Error := Some failure\<rparr>, True, Some (replayedTurnFailure failure))
             | None \<Rightarrow> (no_response, True, Some ErrSessionActive))"

definition TurnEvents :: "string \<Rightarrow> kernel \<Rightarrow> StoredEvent list res" where
  "TurnEvents turnID k =
     (let turnID = TrimSpace turnID
      in if turnID = [] then Inl (errors_New ''turn id is required'')
         else bind_res (loadEvents k) (\<lambda>events.
           let items = map toInspectionEvent (filter (\<lambda>event. ev_TurnID event = turnID) events)
           in if items = [] then Inl ErrTurnNotFound else Inr items))"

definition completeInterruptedTurn ::
  "string \<Rightarrow> string \<Rightarrow> active_turns \<Rightarrow> kernel \<Rightarrow> (TurnResponse \<times> go_error) \<times> kernel" where
  "completeInterruptedTurn sessionID turnID a k =
     (case appendTurnInterruption sessionID turnID a k of
        (Some err, k) \<Rightarrow> ((no_response, err), k)
      | (None, k) \<Rightarrow>
          (case TurnEvents turnID k of
             Inl err \<Rightarrow> ((no_response, err), k)
           | Inr events \<Rightarrow>
               ((no_response\<lparr>rs_SessionID := TrimSpace sessionID, rs_TurnID := TrimSpace turnID, rs_Events := events,
                   rs_Error := Some interrupted_error\<rparr>, ErrTurnInterrupted), k)))"

definition round_step :: "string \<Rightarrow> ModelToolRound list \<times> ModelToolRound \<Rightarrow> StoredEvent \<Rightarrow> ModelToolRound list \<times> ModelToolRound" where
  "round_step turnID st event =
     (let (rounds, current) = st
      in if ev_TurnID event \<noteq> turnID then st
         else if ev_Type event = ''tool.call'' then
           (case ed_ToolCall (ev_Data event) of
              None \<Rightarrow> st
            | Some call \<Rightarrow> (rounds, current\<lparr>mtu_Calls := mtu_Calls current @ [\<lparr>mtc_ToolCallID = tc_ProviderToolCallID call,
                mtc_ToolCallEventID = [], mtc_Name = tc_Tool call, mtc_Arguments = tc_Arguments call\<rparr>]\<rparr>))
         else if ev_Type event = ''tool.result'' then
           (case ed_ToolResult (ev_Data event) of
              None \<Rightarrow> st
            | Some result \<Rightarrow>
                if tr_Tool result = ''delegate_worker'' \<and> tr_Status result = ''queued'' then st
                else
                  let current = current\<lparr>mtu_Results := mtu_Results current @ [\<lparr>mtr_ToolCallID = tr_ProviderToolCallID result,
                        mtr_ToolCallEventID = [], mtr_Name = tr_Tool result, mtr_Content = tr_Content result,
                        mtr_PendingJobStart = None, mtr_PendingAgentInvocationStart = None\<rparr>]\<rparr>
                  in if length (mtu_Calls current) > 0 \<and> length (mtu_Results current) = length (mtu_Calls current)
                     then (rounds @ [current], \<lparr>mtu_Calls = [], mtu_Results = []\<rparr>)
                     else (rounds, current))
         else st)"

definition modelToolRoundsFromStoredEvents :: "StoredEvent list \<Rightarrow> string \<Rightarrow> ModelToolRound list" where
  "modelToolRoundsFromStoredEvents events turnID =
     fst (foldl (round_step turnID) ([], \<lparr>mtu_Calls = [], mtu_Results = []\<rparr>) events)"


subsection \<open>Admission of a turn\<close>

text \<open>
  The event holds the payloads of the modelled components; the context that is computed for it
  goes into others.
\<close>

definition submitNewTurn :: "TurnRequest \<Rightarrow> string \<Rightarrow> string \<Rightarrow> string \<Rightarrow> time \<Rightarrow> kernel \<Rightarrow> go_error option \<times> kernel" where
  "submitNewTurn req sessionID turnID idempotencyKey now k =
     (case loadEvents k of
        Inl err \<Rightarrow> (Some err, k)
      | Inr _ \<Rightarrow>
          let (eventID, k) = newID ''evt'' now k
          in appendEvent (turn_event ''turn.submitted'' sessionID turnID
               (no_data\<lparr>ed_IdempotencyKey := idempotencyKey, ed_InputItems := rq_InputItems req\<rparr>) now eventID) k)"

datatype admission = Answered TurnResponse "go_error option" | Admitted string string nat

text \<open>
  \<open>submitTurn\<close> up to the model loop. The outcomes of the scan of the input, of the tool gateway
  and of the session's provider are arguments. \<open>begin_turn\<close> is the part that the requests with
  and without a key share.
\<close>

definition begin_turn ::
  "(string \<Rightarrow> go_error option) \<Rightarrow> TurnRequest \<Rightarrow> string \<Rightarrow> string \<Rightarrow> time \<Rightarrow> kernel \<times> active_turns \<Rightarrow> admission \<times> kernel \<times> active_turns" where
  "begin_turn prov req sessionID idempotencyKey now s =
     (let (k, a) = s;
          (turnID, k) = newID ''turn'' now k
      in case tryBeginActiveTurn sessionID turnID a of
           (None, a) \<Rightarrow> (Answered no_response (Some ErrSessionActive), k, a)
         | (Some n, a) \<Rightarrow>
             (case prov sessionID of
                Some err \<Rightarrow> (Answered no_response (Some err), k, finishActiveTurn n a)
              | None \<Rightarrow>
                  (case submitNewTurn req sessionID turnID idempotencyKey now k of
                     (Some err, k) \<Rightarrow> (Answered no_response (Some err), k, finishActiveTurn n a)
                   | (None, k) \<Rightarrow> (Admitted sessionID turnID n, k, a))))"

definition submitTurn_admission ::
  "(InputItem list \<Rightarrow> go_error option) \<Rightarrow> (string \<Rightarrow> go_error option) \<Rightarrow> (string \<Rightarrow> go_error option) \<Rightarrow> TurnRequest \<Rightarrow>
     kernel \<times> active_turns \<Rightarrow> admission \<times> kernel \<times> active_turns" where
  "submitTurn_admission scan gateway prov req s =
     (case first_error [validateTurnRequest req, scan (rq_InputItems req)] of
        Some err \<Rightarrow> (Answered no_response (Some err), s)
      | None \<Rightarrow>
          let (k, a) = s;
              (now, k) = clock k;
              sessionID = TrimSpace (rq_SessionID req);
              (sessionID, k) = (if sessionID = [] then newID ''sess'' now k else (sessionID, k))
          in case gateway sessionID of
               Some err \<Rightarrow> (Answered no_response (Some err), k, a)
             | None \<Rightarrow>
                 let idempotencyKey = TrimSpace (rq_IdempotencyKey req)
                 in if idempotencyKey \<noteq> []
                    then case turnByIdempotencyKey sessionID idempotencyKey k of (existing, found, err) \<Rightarrow>
                      if err = None \<and> \<not> found then begin_turn prov req sessionID idempotencyKey now (k, a)
                      else (Answered existing err, k, a)
                    else begin_turn prov req sessionID [] now (k, a))"

section \<open>The answer to a repeated submission\<close>

text \<open>
  The reference for the scan: the first submission with the key names the turn, and the latest
  events of the turn from there on give the final message, the pause and the failure.
\<close>

definition is_submission :: "string \<Rightarrow> string \<Rightarrow> StoredEvent \<Rightarrow> bool" where
  "is_submission s key e \<longleftrightarrow> ev_SessionID e = s \<and> ev_Type e = ''turn.submitted'' \<and> ed_IdempotencyKey (ev_Data e) = key"

definition of_turn :: "string \<Rightarrow> string \<Rightarrow> StoredEvent \<Rightarrow> bool" where
  "of_turn s t e \<longleftrightarrow> ev_SessionID e = s \<and> ev_TurnID e = t"

fun latest :: "('e \<Rightarrow> 'x option) \<Rightarrow> 'e list \<Rightarrow> 'x option" where
  "latest f [] = None"
| "latest f (e # es) = (case latest f es of Some x \<Rightarrow> Some x | None \<Rightarrow> f e)"

definition final_of :: "StoredEvent \<Rightarrow> FinalMessage option" where
  "final_of e = (if ev_Type e = ''model.final'' then ed_Final (ev_Data e) else None)"

definition pause_of :: "StoredEvent \<Rightarrow> TurnPauseProjection option" where
  "pause_of e = (if ev_Type e = ''turn.paused'' then ed_TurnPause (ev_Data e) else None)"

definition failure_of :: "StoredEvent \<Rightarrow> TurnError option" where
  "failure_of e = (if ev_Type e = ''assistant.interrupted'' then Some interrupted_error
     else if ev_Type e = ''turn.failed'' then ed_TurnError (ev_Data e) else None)"

definition turn_answer :: "string \<Rightarrow> string \<Rightarrow> StoredEvent list \<Rightarrow> TurnResponse \<times> bool \<times> go_error option" where
  "turn_answer s t evs =
     (let resp = no_response\<lparr>rs_SessionID := s, rs_TurnID := t, rs_Events := map toInspectionEvent evs\<rparr>
      in case latest final_of evs of Some final \<Rightarrow> (resp\<lparr>rs_Final := Some final\<rparr>, True, None) | None \<Rightarrow>
         case latest pause_of evs of Some pause \<Rightarrow> (resp\<lparr>rs_Pause := Some pause\<rparr>, True, None) | None \<Rightarrow>
         case latest failure_of evs of
           Some failure \<Rightarrow> (resp\<lparr>rs_Error := Some failure\<rparr>, True, Some (replayedTurnFailure failure))
         | None \<Rightarrow> (no_response, True, Some ErrSessionActive))"

definition competing :: go_error where
  "competing = wrapLedgerUnavailable (Wrapped ErrLedgerCorrupt (errors_New ''competing turn idempotency evidence''))"

lemma latest_snoc: "latest f (es @ [e]) = (case f e of Some x \<Rightarrow> Some x | None \<Rightarrow> latest f es)"
  by (induction es) (auto split: option.splits)

lemma scan_event_fields:
  "sc_turnID (scan_event e sc) = sc_turnID sc" "sc_events (scan_event e sc) = sc_events sc @ [toInspectionEvent e]"
  "sc_final (scan_event e sc) = (case final_of e of Some x \<Rightarrow> Some x | None \<Rightarrow> sc_final sc)"
  "sc_pause (scan_event e sc) = (case pause_of e of Some x \<Rightarrow> Some x | None \<Rightarrow> sc_pause sc)"
  "sc_failure (scan_event e sc) = (case failure_of e of Some x \<Rightarrow> Some x | None \<Rightarrow> sc_failure sc)"
  by (simp_all add: scan_event_def Let_def final_of_def pause_of_def failure_of_def split: option.splits)

text \<open>What the scan has gathered after the events of its turn.\<close>

definition scanned :: "string \<Rightarrow> StoredEvent list \<Rightarrow> turn_scan" where
  "scanned t evs = \<lparr>sc_turnID = t, sc_events = map toInspectionEvent evs, sc_final = latest final_of evs,
     sc_pause = latest pause_of evs, sc_failure = latest failure_of evs\<rparr>"

lemma scanned_simps [simp]: "sc_turnID (scanned t evs) = t" "(scanned t evs)\<lparr>sc_turnID := t\<rparr> = scanned t evs"
  by (simp_all add: scanned_def)

lemma scan_event_scanned: "scan_event e (scanned t evs) = scanned t (evs @ [e])"
  by (rule turn_scan.equality) (simp_all add: scan_event_fields scanned_def latest_snoc split: option.splits)

lemma scan_before:
  assumes "\<forall>e \<in> set es. \<not> is_submission s key e"
  shows "replay (turn_scan_step s key) no_scan es = Inr no_scan"
  using assms by (induction es) (auto simp: turn_scan_step_def is_submission_def no_scan_def)

lemma scan_after:
  assumes "t \<noteq> []"
  shows "replay (turn_scan_step s key) (scanned t evs) es =
    (if \<exists>e \<in> set es. is_submission s key e \<and> ev_TurnID e \<noteq> t then Inl competing
     else Inr (scanned t (evs @ filter (of_turn s t) es)))"
proof (induction es arbitrary: evs)
  case (Cons e es)
  consider "is_submission s key e" "ev_TurnID e \<noteq> t" | "of_turn s t e"
    | "\<not> of_turn s t e" "\<not> (is_submission s key e \<and> ev_TurnID e \<noteq> t)" by blast
  then show ?case
  proof cases
    case 1
    then have "turn_scan_step s key (scanned t evs) e = Inl competing"
      using assms by (simp add: turn_scan_step_def is_submission_def competing_def)
    with 1 show ?thesis by auto
  next
    case 2
    then have "turn_scan_step s key (scanned t evs) e = Inr (scanned t (evs @ [e]))"
      using assms by (simp add: turn_scan_step_def of_turn_def scan_event_scanned Let_def)
    moreover have "\<not> (is_submission s key e \<and> ev_TurnID e \<noteq> t)" using 2 by (simp add: of_turn_def)
    ultimately show ?thesis using 2 Cons.IH [of "evs @ [e]"] by simp
  next
    case 3
    then have "turn_scan_step s key (scanned t evs) e = Inr (scanned t evs)"
      using assms by (auto simp: turn_scan_step_def of_turn_def is_submission_def Let_def)
    with 3 Cons.IH [of evs] show ?thesis by simp
  qed
qed simp


lemma scan_reference:
  assumes "\<forall>e \<in> set es. is_submission s key e \<longrightarrow> ev_TurnID e \<noteq> []"
  shows "replay (turn_scan_step s key) no_scan es =
    (case filter (is_submission s key) es of
       [] \<Rightarrow> Inr no_scan
     | e # later \<Rightarrow> if \<exists>e' \<in> set later. ev_TurnID e' \<noteq> ev_TurnID e then Inl competing
         else Inr (scanned (ev_TurnID e) (filter (of_turn s (ev_TurnID e)) (dropWhile (\<lambda>e. \<not> is_submission s key e) es))))"
proof (cases "filter (is_submission s key) es")
  case Nil
  then have "\<forall>e \<in> set es. \<not> is_submission s key e" by (simp add: filter_empty_conv)
  with Nil scan_before show ?thesis by simp
next
  case (Cons e later)
  then obtain us vs where es: "es = us @ e # vs" "\<forall>u \<in> set us. \<not> is_submission s key u" "is_submission s key e"
    "later = filter (is_submission s key) vs" by (auto simp: filter_eq_Cons_iff)
  define t where "t = ev_TurnID e"
  have t: "t \<noteq> []" using assms es(1,3) by (simp add: t_def)
  have e: "ev_SessionID e = s" "ev_Type e = ''turn.submitted''" "ed_IdempotencyKey (ev_Data e) = key"
    using es(3) by (simp_all add: is_submission_def)
  have "no_scan\<lparr>sc_turnID := t\<rparr> = scanned t []" by (simp add: no_scan_def scanned_def)
  then have "turn_scan_step s key no_scan e = Inr (scanned t [e])"
    using t e scan_event_scanned [of e t "[]"] by (simp add: turn_scan_step_def t_def no_scan_def Let_def)
  then have "replay (turn_scan_step s key) no_scan es = replay (turn_scan_step s key) (scanned t [e]) vs"
    using scan_before [OF es(2)] by (simp add: es(1) replay_append)
  also have "\<dots> = (if \<exists>e \<in> set vs. is_submission s key e \<and> ev_TurnID e \<noteq> t then Inl competing
      else Inr (scanned t ([e] @ filter (of_turn s t) vs)))" by (rule scan_after [OF t])
  also have "[e] @ filter (of_turn s t) vs = filter (of_turn s t) (dropWhile (\<lambda>e. \<not> is_submission s key e) es)"
    using es(2,3) e(1) by (simp add: es(1) dropWhile_append of_turn_def t_def)
  finally show ?thesis unfolding Cons by (auto simp: es(4) t_def)
qed

lemma turnByIdempotencyKey_scanned:
  assumes "bind_res (loadEvents k) (replay (turn_scan_step s key) no_scan) = Inr (scanned t evs)" and "t \<noteq> []"
  shows "turnByIdempotencyKey s key k = turn_answer s t evs"
  using assms(2)
  by (cases "latest final_of evs"; cases "latest pause_of evs"; cases "latest failure_of evs")
    (simp_all add: turnByIdempotencyKey_def assms(1) turn_answer_def scanned_def)

lemma turnByIdempotencyKey_eq:
  assumes "loadEvents k = Inr es" and "\<forall>e \<in> set es. is_submission s key e \<longrightarrow> ev_TurnID e \<noteq> []"
  shows "turnByIdempotencyKey s key k =
    (case filter (is_submission s key) es of
       [] \<Rightarrow> (no_response, False, None)
     | e # later \<Rightarrow> if \<exists>e' \<in> set later. ev_TurnID e' \<noteq> ev_TurnID e then (no_response, False, Some competing)
         else turn_answer s (ev_TurnID e) (filter (of_turn s (ev_TurnID e)) (dropWhile (\<lambda>e. \<not> is_submission s key e) es)))"
proof (cases "filter (is_submission s key) es")
  case Nil
  then show ?thesis using assms(1) scan_reference [OF assms(2)] by (simp add: turnByIdempotencyKey_def no_scan_def)
next
  case (Cons e later)
  then have "e \<in> set es" "is_submission s key e" by (auto simp: filter_eq_Cons_iff)
  then have t: "ev_TurnID e \<noteq> []" using assms(2) by blast
  show ?thesis
  proof (cases "\<exists>e' \<in> set later. ev_TurnID e' \<noteq> ev_TurnID e")
    case True
    with Cons show ?thesis using assms(1) scan_reference [OF assms(2)] by (simp add: turnByIdempotencyKey_def)
  next
    case False
    with Cons have "bind_res (loadEvents k) (replay (turn_scan_step s key) no_scan) = Inr (scanned (ev_TurnID e)
        (filter (of_turn s (ev_TurnID e)) (dropWhile (\<lambda>e. \<not> is_submission s key e) es)))"
      using assms(1) scan_reference [OF assms(2)] by simp
    from turnByIdempotencyKey_scanned [OF this t] False Cons show ?thesis by simp
  qed
qed

section \<open>Submissions\<close>

definition turn_rows_ok :: "kernel \<Rightarrow> bool" where
  "turn_rows_ok k \<longleftrightarrow>
     (\<forall>e \<in> set (k_rows k). ev_Type e = ''turn.submitted'' \<longrightarrow> ev_TurnID e \<noteq> []) \<and>
     (\<forall>e \<in> set (k_rows k). \<forall>e' \<in> set (k_rows k). ev_Type e = ''turn.submitted'' \<longrightarrow> ev_Type e' = ''turn.submitted'' \<longrightarrow>
        ev_SessionID e = ev_SessionID e' \<longrightarrow> ed_IdempotencyKey (ev_Data e) = ed_IdempotencyKey (ev_Data e') \<longrightarrow>
        ed_IdempotencyKey (ev_Data e) \<noteq> [] \<longrightarrow> e = e')"

lemma submitNewTurn_cases:
  assumes "submitNewTurn req sid tid key now k = (r, k')"
  obtains (failed) err where "r = Some err" and "kernel_ext k k' []"
  | (appended) i where "r = None" and "kernel_ext k k' [turn_event ''turn.submitted'' sid tid
      (no_data\<lparr>ed_IdempotencyKey := key, ed_InputItems := rq_InputItems req\<rparr>) now i]"
proof (cases "loadEvents k")
  case (Inl err)
  with assms show ?thesis by (intro failed [of err]) (simp_all add: submitNewTurn_def)
next
  case (Inr es)
  define i where "i = fst (newID ''evt'' now k)"
  have run: "appendEvent (turn_event ''turn.submitted'' sid tid (no_data\<lparr>ed_IdempotencyKey := key, ed_InputItems := rq_InputItems req\<rparr>) now i)
      (snd (newID ''evt'' now k)) = (r, k')"
    using assms Inr by (simp add: submitNewTurn_def case_prod_unfold i_def Let_def)
  show ?thesis
  proof (cases r)
    case None
    from run show ?thesis unfolding None by (rule appended [OF None kernel_ext_newID [OF appendEvent_done(1)]])
  next
    case (Some err)
    from run show ?thesis unfolding Some by (rule failed [OF Some kernel_ext_newID [OF appendEvent_failed(1)]])
  qed
qed


lemma turnByIdempotencyKey_unfound: "turnByIdempotencyKey s key k = (existing, False, None) \<Longrightarrow> existing = no_response"
  by (auto simp: turnByIdempotencyKey_def Let_def split: sum.splits if_splits option.splits)

lemma begin_turn_cases:
  assumes "begin_turn prov req sid key now (k, a) = (r, k', a')"
  obtains (refused) err where "r = Answered no_response (Some err)" and "kernel_ext k k' []"
  | (begun) t n i where "r = Admitted sid t n" and "t \<noteq> []" and "t = fst (newID ''turn'' now k)"
      and "kernel_ext k k' [turn_event ''turn.submitted'' sid t (no_data\<lparr>ed_IdempotencyKey := key, ed_InputItems := rq_InputItems req\<rparr>) now i]"
proof -
  define t k1 where "t = fst (newID ''turn'' now k)" and "k1 = snd (newID ''turn'' now k)"
  have t: "newID ''turn'' now k = (t, k1)" by (simp add: t_def k1_def)
  have ext: "kernel_ext k k2 es" if "kernel_ext k1 k2 es" for k2 es using that kernel_ext_newID unfolding k1_def by blast
  obtain m a1 where b: "tryBeginActiveTurn sid t a = (m, a1)" by fastforce
  show ?thesis
  proof (cases m)
    case None
    with assms t b have "r = Answered no_response (Some ErrSessionActive)" "k' = k1" by (simp_all add: begin_turn_def)
    then show ?thesis using ext by (intro refused) auto
  next
    case (Some n)
    note m = this
    show ?thesis
    proof (cases "prov sid")
      case (Some err)
      with assms t b m have "r = Answered no_response (Some err)" "k' = k1" by (simp_all add: begin_turn_def)
      then show ?thesis using ext by (intro refused) auto
    next
      case None
      obtain o' k2 where sub: "submitNewTurn req sid t key now k1 = (o', k2)" by fastforce
      with assms t b m None have r: "r = (case o' of Some err \<Rightarrow> Answered no_response (Some err) | None \<Rightarrow> Admitted sid t n)" "k' = k2"
        by (auto simp: begin_turn_def split: option.splits)
      from sub show ?thesis
      proof (cases rule: submitNewTurn_cases)
        case (failed err)
        with r ext show ?thesis by (intro refused) auto
      next
        case (appended i)
        with r ext show ?thesis by (intro begun [of t n i]) (auto simp: t_def)
      qed
    qed
  qed
qed

lemma submitTurn_admission_cases:
  assumes "submitTurn_admission scan gateway prov req (k, a) = (r, k', a')"
  obtains (answered) resp err where "r = Answered resp err" and "kernel_ext k k' []"
      and "TrimSpace (rq_SessionID req) \<noteq> [] \<Longrightarrow> TrimSpace (rq_IdempotencyKey req) \<noteq> [] \<Longrightarrow> err = None \<Longrightarrow>
        \<exists>k1. k_ledger k1 = k_ledger k \<and> turnByIdempotencyKey (TrimSpace (rq_SessionID req)) (TrimSpace (rq_IdempotencyKey req)) k1 = (resp, True, None)"
  | (admitted) sid t n key now i k1 where "r = Admitted sid t n" and "t \<noteq> []" and "key = TrimSpace (rq_IdempotencyKey req)"
      and "TrimSpace (rq_SessionID req) \<noteq> [] \<Longrightarrow> sid = TrimSpace (rq_SessionID req)"
      and "k_ledger k1 = k_ledger k" and "key \<noteq> [] \<Longrightarrow> turnByIdempotencyKey sid key k1 = (no_response, False, None)"
      and "kernel_ext k k' [turn_event ''turn.submitted'' sid t (no_data\<lparr>ed_IdempotencyKey := key, ed_InputItems := rq_InputItems req\<rparr>) now i]"
proof -
  define now k0 where "now = fst (clock k)" and "k0 = snd (clock k)"
  define sid where "sid = (if TrimSpace (rq_SessionID req) = [] then fst (newID ''sess'' now k0) else TrimSpace (rq_SessionID req))"
  define k1 where "k1 = (if TrimSpace (rq_SessionID req) = [] then snd (newID ''sess'' now k0) else k0)"
  define key where "key = TrimSpace (rq_IdempotencyKey req)"
  have ext: "kernel_ext k k2 es" if "kernel_ext k1 k2 es" for k2 es
    using that kernel_ext_clock [of k k2 es] kernel_ext_stamp1 [of "''sess''" now k k2 es] unfolding k1_def k0_def by (simp split: if_splits)
  have led: "k_ledger k1 = k_ledger k" by (simp add: k1_def k0_def)
  have unfold: "submitTurn_admission scan gateway prov req (k, a) =
      (case gateway sid of Some err \<Rightarrow> (Answered no_response (Some err), k1, a) | None \<Rightarrow>
       if key \<noteq> [] then case turnByIdempotencyKey sid key k1 of (existing, found, err) \<Rightarrow>
         if err = None \<and> \<not> found then begin_turn prov req sid key now (k1, a) else (Answered existing err, k1, a)
       else begin_turn prov req sid key now (k1, a))"
    if "first_error [validateTurnRequest req, scan (rq_InputItems req)] = None"
    using that by (auto simp: submitTurn_admission_def Let_def case_prod_unfold now_def k0_def sid_def k1_def key_def split: option.splits)
  have began: thesis if "begin_turn prov req sid key now (k1, a) = (r, k', a')"
      "key \<noteq> [] \<Longrightarrow> turnByIdempotencyKey sid key k1 = (no_response, False, None)"
    using that(1)
  proof (cases rule: begin_turn_cases)
    case (refused err)
    with ext show ?thesis by (intro answered) auto
  next
    case (begun t n i)
    show ?thesis
      by (rule admitted [of sid t n key k1 now i]) (use begun ext led that(2) in \<open>simp_all add: key_def sid_def\<close>)
  qed
  show ?thesis
  proof (cases "first_error [validateTurnRequest req, scan (rq_InputItems req)]")
    case (Some err)
    with assms have "r = Answered no_response (Some err)" "k' = k" by (simp_all add: submitTurn_admission_def)
    then show ?thesis by (intro answered) auto
  next
    case None
    note eq = unfold [OF None]
    show ?thesis
    proof (cases "gateway sid")
      case (Some err)
      with assms eq have "r = Answered no_response (Some err)" "k' = k1" by simp_all
      with ext show ?thesis by (intro answered) auto
    next
      case None
      note gw = this
      obtain existing found err where idem: "turnByIdempotencyKey sid key k1 = (existing, found, err)" by (metis prod_cases3)
      show ?thesis
      proof (cases "key \<noteq> [] \<and> \<not> (err = None \<and> \<not> found)")
        case True
        with assms eq gw idem have r: "r = Answered existing err" "k' = k1" by auto
        show ?thesis
          by (rule answered [OF r(1)]) (use r(2) ext led idem True in \<open>auto simp: sid_def key_def split: if_splits\<close>)
      next
        case False
        have "begin_turn prov req sid key now (k1, a) = (r, k', a')" using False assms eq gw idem by (auto split: if_splits)
        moreover have "turnByIdempotencyKey sid key k1 = (no_response, False, None)" if "key \<noteq> []"
          using that False idem by (simp add: turnByIdempotencyKey_unfound)
        ultimately show ?thesis by (rule began)
      qed
    qed
  qed
qed


text \<open>A run: submissions of any requests, among appends of any other events.\<close>

inductive turn_run :: "kernel \<Rightarrow> kernel \<Rightarrow> bool" where
  stay: "turn_run k k"
| submit: "turn_run k k' \<Longrightarrow> submitTurn_admission scan gateway prov req (k', a) = (r, k'', a') \<Longrightarrow> turn_run k k''"
| other: "turn_run k k' \<Longrightarrow> kernel_ext k' k'' es \<Longrightarrow> \<forall>e \<in> set es. ev_Type e \<noteq> ''turn.submitted'' \<Longrightarrow> turn_run k k''"

lemma turn_lookup:
  assumes ok: "turn_rows_ok k" and led: "k_ledger k1 = k_ledger k" and key: "key \<noteq> []"
    and e: "e \<in> set (k_rows k)" "is_submission s key e" and load: "loadEvents k1 = Inr es"
  shows "turnByIdempotencyKey s key k1 = turn_answer s (ev_TurnID e) (filter (of_turn s (ev_TurnID e)) (dropWhile (\<lambda>e. \<not> is_submission s key e) es))"
proof -
  have set: "set es = set (k_rows k)" using loadEvents_set [OF load] led by simp
  have ids: "\<forall>e \<in> set es. is_submission s key e \<longrightarrow> ev_TurnID e \<noteq> []"
    using ok unfolding set turn_rows_ok_def is_submission_def by blast
  have same: "e' = e" if "e' \<in> set es" "is_submission s key e'" for e'
  proof -
    have "ed_IdempotencyKey (ev_Data e') = ed_IdempotencyKey (ev_Data e)" "ed_IdempotencyKey (ev_Data e') \<noteq> []"
      "ev_SessionID e' = ev_SessionID e" "ev_Type e' = ''turn.submitted''" "ev_Type e = ''turn.submitted''"
      using that(2) e(2) key by (simp_all add: is_submission_def)
    with ok that(1) e(1) show ?thesis unfolding set turn_rows_ok_def by blast
  qed
  have "filter (is_submission s key) es \<noteq> []" using e set by (auto simp: filter_empty_conv)
  then obtain e0 later where sub: "filter (is_submission s key) es = e0 # later" by (meson neq_Nil_conv)
  have "\<forall>x \<in> set (e0 # later). x \<in> set es \<and> is_submission s key x" unfolding sub [symmetric] by simp
  then have "e0 = e" "\<forall>x \<in> set later. x = e" using same by simp_all
  with turnByIdempotencyKey_eq [OF load ids] sub show ?thesis by simp
qed

lemma turn_unfound:
  assumes "turn_rows_ok k" and "k_ledger k1 = k_ledger k" and "key \<noteq> []"
    and "turnByIdempotencyKey s key k1 = (resp, False, None)" and "e \<in> set (k_rows k)"
  shows "\<not> is_submission s key e"
proof
  assume sub: "is_submission s key e"
  obtain es where "loadEvents k1 = Inr es"
    using assms(4) by (cases "loadEvents k1") (auto simp: turnByIdempotencyKey_def)
  from turn_lookup [OF assms(1-3,5) sub this] assms(4) show False
    by (auto simp: turn_answer_def Let_def split: option.splits)
qed

lemma turn_rows_ok_other:
  assumes "turn_rows_ok k" and "kernel_ext k k' es" and "\<forall>e \<in> set es. ev_Type e \<noteq> ''turn.submitted''"
  shows "turn_rows_ok k'"
proof -
  have "e \<in> set (k_rows k)" if "e \<in> set (k_rows k')" "ev_Type e = ''turn.submitted''" for e
    using that assms(2,3) by (auto simp: kernel_ext_def)
  with assms(1) show ?thesis unfolding turn_rows_ok_def by meson
qed

lemma turn_rows_ok_submit:
  assumes ok: "turn_rows_ok k" and run: "submitTurn_admission scan gateway prov req (k, a) = (r, k', a')"
  shows "turn_rows_ok k'"
  using run
proof (cases rule: submitTurn_admission_cases)
  case (answered resp err)
  with turn_rows_ok_other [OF ok answered(2)] show ?thesis by simp
next
  case (admitted sid t n key now i k1)
  define e where "e = turn_event ''turn.submitted'' sid t (no_data\<lparr>ed_IdempotencyKey := key, ed_InputItems := rq_InputItems req\<rparr>) now i"
  have e: "ev_TurnID e = t" "ev_SessionID e = sid" "ed_IdempotencyKey (ev_Data e) = key" by (simp_all add: e_def turn_event_def)
  have rows: "set (k_rows k') = insert e (set (k_rows k))" using admitted(7) by (simp add: kernel_ext_def e_def)
  have new: "\<not> (ev_Type x = ''turn.submitted'' \<and> ev_SessionID x = sid \<and> ed_IdempotencyKey (ev_Data x) = key)"
    if "x \<in> set (k_rows k)" "key \<noteq> []" for x
    using turn_unfound [OF ok admitted(5) that(2) admitted(6) [OF that(2)] that(1)] by (simp add: is_submission_def)
  show ?thesis using ok admitted(2) e new unfolding turn_rows_ok_def rows by (metis insert_iff)
qed

lemma turn_run_ok: "turn_run k k' \<Longrightarrow> turn_rows_ok k \<Longrightarrow> turn_rows_ok k'"
  by (induction rule: turn_run.induct) (blast intro: turn_rows_ok_submit turn_rows_ok_other)+

lemma submitTurn_admission_ext:
  assumes "submitTurn_admission scan gateway prov req (k, a) = (r, k', a')"
  shows "\<exists>es. kernel_ext k k' es"
  using assms by (cases rule: submitTurn_admission_cases) blast+

lemma turn_run_rows: "turn_run k k' \<Longrightarrow> set (k_rows k) \<subseteq> set (k_rows k')"
proof (induction rule: turn_run.induct)
  case (submit k k' scan gateway prov req a r k'' a')
  from submitTurn_admission_ext [OF submit.hyps(2)] have "set (k_rows k') \<subseteq> set (k_rows k'')" by (auto simp: kernel_ext_def)
  with submit.IH show ?case by (rule subset_trans)
qed (auto simp: kernel_ext_def)

section \<open>Properties\<close>

text \<open>
  C15: a key names one turn. Once a submission with an idempotency key has been admitted, every
  later submission with the same session and key, whatever else it asks for, appends nothing,
  and its answer is that of the first turn, or an error.
\<close>

theorem turn_submitted_once:
  assumes "k_rows k = []" and "turn_run k k0" and "submitTurn_admission scan gateway prov req (k0, a0) = (Admitted s t n, k1, a1)"
    and "turn_run k1 k2" and "submitTurn_admission scan' gateway' prov' req' (k2, a2) = (r, k3, a3)"
    and "TrimSpace (rq_SessionID req) \<noteq> []" and "TrimSpace (rq_SessionID req') = TrimSpace (rq_SessionID req)"
    and "TrimSpace (rq_IdempotencyKey req) \<noteq> []" and "TrimSpace (rq_IdempotencyKey req') = TrimSpace (rq_IdempotencyKey req)"
  shows "\<exists>resp err. r = Answered resp err \<and> k_rows k3 = k_rows k2 \<and> (err = None \<longrightarrow> rs_TurnID resp = t)"
proof -
  let ?s = "TrimSpace (rq_SessionID req)" and ?key = "TrimSpace (rq_IdempotencyKey req)"
  have ok0: "turn_rows_ok k0" using assms(1,2) turn_run_ok by (simp add: turn_rows_ok_def)
  have ok2: "turn_rows_ok k2" using turn_run_ok [OF assms(4)] turn_rows_ok_submit [OF ok0 assms(3)] by blast
  obtain e where "e \<in> set (k_rows k1)" and sub: "is_submission ?s ?key e" and t: "ev_TurnID e = t"
    using assms(3)
  proof (cases rule: submitTurn_admission_cases)
    case (admitted sid t' m key now i k')
    then show ?thesis using assms(6)
      by (intro that [of "turn_event ''turn.submitted'' sid t' (no_data\<lparr>ed_IdempotencyKey := key, ed_InputItems := rq_InputItems req\<rparr>) now i"])
        (auto simp: kernel_ext_def is_submission_def turn_event_def)
  qed simp
  then have e: "e \<in> set (k_rows k2)" using turn_run_rows [OF assms(4)] by blast
  from assms(5) show ?thesis
  proof (cases rule: submitTurn_admission_cases)
    case (answered resp err)
    have "rs_TurnID resp = t" if none: "err = None"
    proof -
      obtain k1' where k1': "k_ledger k1' = k_ledger k2" "turnByIdempotencyKey ?s ?key k1' = (resp, True, None)"
        using answered(3) assms(6-9) none by auto
      then obtain es where "loadEvents k1' = Inr es" by (cases "loadEvents k1'") (auto simp: turnByIdempotencyKey_def)
      from turn_lookup [OF ok2 k1'(1) assms(8) e sub this] k1'(2) show ?thesis
        by (auto simp: turn_answer_def Let_def t split: option.splits)
    qed
    with answered(1,2) show ?thesis by (auto simp: kernel_ext_def)
  next
    case (admitted sid t' m key now i k')
    with turn_unfound [OF ok2 admitted(5) _ admitted(6) e] sub assms(6-9) show ?thesis by simp
  qed
qed


definition sample_turn :: TurnRequest where
  "sample_turn = \<lparr>rq_SessionID = ''s1'', rq_IdempotencyKey = ''k1'', rq_InputItems = [\<lparr>ii_Type = ''text'', ii_Text = ''hello''\<rparr>]\<rparr>"

definition sample_submit :: "kernel \<times> active_turns \<Rightarrow> admission \<times> kernel \<times> active_turns" where
  "sample_submit = submitTurn_admission (\<lambda>_. None) (\<lambda>_. None) (\<lambda>_. None) sample_turn"

definition turn_k1 :: kernel where "turn_k1 = fst (snd (sample_submit (sample_kernel, no_active_turns)))"
definition turn_a1 :: active_turns where "turn_a1 = snd (snd (sample_submit (sample_kernel, no_active_turns)))"

lemma sample_submit_1: "sample_submit (sample_kernel, no_active_turns) = (Admitted ''s1'' ''turn_'' 0, turn_k1, turn_a1)"
proof -
  have "fst (sample_submit (sample_kernel, no_active_turns)) = Admitted ''s1'' ''turn_'' 0" by code_simp
  then show ?thesis by (simp add: turn_k1_def turn_a1_def prod_eq_iff)
qed

theorem turn_submitted_once_witness:
  "\<exists>resp err. fst (sample_submit (turn_k1, turn_a1)) = Answered resp err \<and>
     k_rows (fst (snd (sample_submit (turn_k1, turn_a1)))) = k_rows turn_k1"
proof -
  let ?r = "sample_submit (turn_k1, turn_a1)"
  have "?r = (fst ?r, fst (snd ?r), snd (snd ?r))" by simp
  moreover have "TrimSpace (rq_SessionID sample_turn) \<noteq> []" "TrimSpace (rq_IdempotencyKey sample_turn) \<noteq> []" by code_simp+
  ultimately show ?thesis
    using turn_submitted_once [OF sample_rows turn_run.stay sample_submit_1 [unfolded sample_submit_def] turn_run.stay]
    unfolding sample_submit_def by metis
qed

text \<open>
  The answer to a repeated submission is the one the log gives. For a log whose submissions
  name their turns, the scan over all events agrees with the definition by cases: without a
  submission with the key the turn is not found; submissions of different turns are reported as
  a corrupt ledger; otherwise the turn of the first one is answered with the latest final
  message of its events from there on, else its latest pause, else its latest failure, else as
  still active, and with these events as a reader is shown them.
\<close>

theorem turnByIdempotencyKey_reference:
  assumes "loadEvents k = Inr es" and "\<forall>e \<in> set es. is_submission s key e \<longrightarrow> ev_TurnID e \<noteq> []"
  shows "turnByIdempotencyKey s key k =
    (case filter (is_submission s key) es of
       [] \<Rightarrow> (no_response, False, None)
     | e # later \<Rightarrow> if \<exists>e' \<in> set later. ev_TurnID e' \<noteq> ev_TurnID e then (no_response, False, Some competing)
         else turn_answer s (ev_TurnID e) (filter (of_turn s (ev_TurnID e)) (dropWhile (\<lambda>e. \<not> is_submission s key e) es)))"
  using assms by (rule turnByIdempotencyKey_eq)

definition turn_k2 :: kernel where
  "turn_k2 = snd (appendTurnFailure ''s1'' ''turn_'' \<lparr>tr_Code = ''provider_unavailable'', tr_Message = ''down''\<rparr> turn_k1)"

theorem turnByIdempotencyKey_reference_witness:
  "turnByIdempotencyKey ''s1'' ''k1'' turn_k2 = turn_answer ''s1'' ''turn_'' (projr (loadEvents turn_k2)) \<and>
   snd (snd (turnByIdempotencyKey ''s1'' ''k1'' turn_k2)) = Some (Wrapped ErrProviderUnavailable (errors_New ''down''))"
proof -
  have load: "loadEvents turn_k2 = Inr (projr (loadEvents turn_k2))" by (rule res_eq) code_simp
  have "list_all (\<lambda>e. is_submission ''s1'' ''k1'' e \<longrightarrow> ev_TurnID e \<noteq> []) (projr (loadEvents turn_k2))" by code_simp
  then have ids: "\<forall>e \<in> set (projr (loadEvents turn_k2)). is_submission ''s1'' ''k1'' e \<longrightarrow> ev_TurnID e \<noteq> []" by (simp add: list_all_iff)
  have "(case filter (is_submission ''s1'' ''k1'') (projr (loadEvents turn_k2)) of
       [] \<Rightarrow> (no_response, False, None)
     | e # later \<Rightarrow> if \<exists>e' \<in> set later. ev_TurnID e' \<noteq> ev_TurnID e then (no_response, False, Some competing)
         else turn_answer ''s1'' (ev_TurnID e) (filter (of_turn ''s1'' (ev_TurnID e)) (dropWhile (\<lambda>e. \<not> is_submission ''s1'' ''k1'' e) (projr (loadEvents turn_k2))))) =
      turn_answer ''s1'' ''turn_'' (projr (loadEvents turn_k2))" by code_simp
  moreover have "snd (snd (turnByIdempotencyKey ''s1'' ''k1'' turn_k2)) = Some (Wrapped ErrProviderUnavailable (errors_New ''down''))"
    by code_simp
  ultimately show ?thesis using turnByIdempotencyKey_reference [OF load ids] by simp
qed

end
