(* ===== verification/Tool_Rounds.thy ===== *)
theory Tool_Rounds
  imports Turn_Log
begin

text \<open>
  The round trip of a tool round through the log: the calls and results a turn appends are read
  back as one round when the next request to the model is built, and the checks on the calls of
  a provider.
\<close>

section \<open>Checks on a batch of calls\<close>

lemma validate_calls_iff:
  "validate_calls seen calls = None \<longleftrightarrow>
     (\<forall>c \<in> set calls. TrimSpace (mtc_ToolCallEventID c) = []) \<and>
     distinct (filter (\<lambda>i. i \<noteq> []) (map providerToolCallID calls)) \<and>
     set (filter (\<lambda>i. i \<noteq> []) (map providerToolCallID calls)) \<inter> set seen = {}"
  by (induction seen calls rule: validate_calls.induct) (auto simp: Let_def)

section \<open>The events of a round\<close>

definition shown_call :: "ModelToolCall \<Rightarrow> ModelToolCall" where
  "shown_call call = \<lparr>mtc_ToolCallID = providerToolCallID call, mtc_ToolCallEventID = [],
     mtc_Name = TrimSpace (mtc_Name call), mtc_Arguments = mtc_Arguments call\<rparr>"

definition shown_result :: "ModelToolResult \<Rightarrow> ModelToolResult" where
  "shown_result result = \<lparr>mtr_ToolCallID = TrimSpace (mtr_ToolCallID result), mtr_ToolCallEventID = [],
     mtr_Name = TrimSpace (mtr_Name result), mtr_Content = mtr_Content result,
     mtr_PendingJobStart = None, mtr_PendingAgentInvocationStart = None\<rparr>"

definition queued_delegation :: "(string \<Rightarrow> string option) \<Rightarrow> ModelToolResult \<Rightarrow> bool" where
  "queued_delegation status result \<longleftrightarrow>
     TrimSpace (mtr_Name result) = ''delegate_worker'' \<and> toolResultStatus status (mtr_Content result) = ''queued''"

definition is_call_event :: "string \<Rightarrow> string \<Rightarrow> ModelToolCall \<Rightarrow> StoredEvent \<Rightarrow> bool" where
  "is_call_event sid tid call e \<longleftrightarrow> (\<exists>t i. e = tool_call_event sid tid call t i)"

definition is_result_event :: "(string \<Rightarrow> string option) \<Rightarrow> string \<Rightarrow> string \<Rightarrow> ModelToolResult \<times> string \<Rightarrow> StoredEvent \<Rightarrow> bool" where
  "is_result_event status sid tid r e \<longleftrightarrow> (\<exists>t i. e = tool_result_event status sid tid (fst r) (snd r) t i)"

text \<open>The results of a round are appended one after the other, each for the event of its call.\<close>

fun append_results :: "(string \<Rightarrow> string option) \<Rightarrow> string \<Rightarrow> string \<Rightarrow> (ModelToolResult \<times> string) list \<Rightarrow> kernel \<Rightarrow> go_error option \<times> kernel" where
  "append_results status sid tid [] k = (None, k)"
| "append_results status sid tid ((result, forEventID) # results) k =
     (case appendToolResultEvent status sid tid result forEventID k of
        (Some err, k) \<Rightarrow> (Some err, k)
      | (None, k) \<Rightarrow> append_results status sid tid results k)"

abbreviation no_round :: ModelToolRound where "no_round \<equiv> \<lparr>mtu_Calls = [], mtu_Results = []\<rparr>"

text \<open>The rounds read so far and the one that is open.\<close>

definition read_rounds :: "string \<Rightarrow> StoredEvent list \<Rightarrow> ModelToolRound list \<times> ModelToolRound" where
  "read_rounds tid es = foldl (round_step tid) ([], no_round) es"

lemma round_step_call:
  "is_call_event sid tid call e \<Longrightarrow>
     round_step tid (rounds, current) e = (rounds, current\<lparr>mtu_Calls := mtu_Calls current @ [shown_call call]\<rparr>)"
  by (auto simp: is_call_event_def round_step_def tool_call_event_def turn_event_def shown_call_def)

lemma round_step_result:
  "is_result_event status sid tid r e \<Longrightarrow> \<not> queued_delegation status (fst r) \<Longrightarrow>
     round_step tid (rounds, \<lparr>mtu_Calls = cs, mtu_Results = rs\<rparr>) e =
       (if cs \<noteq> [] \<and> Suc (length rs) = length cs
        then (rounds @ [\<lparr>mtu_Calls = cs, mtu_Results = rs @ [shown_result (fst r)]\<rparr>], no_round)
        else (rounds, \<lparr>mtu_Calls = cs, mtu_Results = rs @ [shown_result (fst r)]\<rparr>))"
  by (auto simp: is_result_event_def round_step_def tool_result_event_def turn_event_def shown_result_def queued_delegation_def Let_def)

lemma fold_calls:
  "list_all2 (is_call_event sid tid) calls es \<Longrightarrow>
     foldl (round_step tid) (rounds, current) es = (rounds, current\<lparr>mtu_Calls := mtu_Calls current @ map shown_call calls\<rparr>)"
  by (induction calls es arbitrary: current rule: list_all2_induct) (simp_all add: round_step_call)

lemma fold_results:
  assumes "list_all2 (is_result_event status sid tid) rs es" and "\<forall>r \<in> set rs. \<not> queued_delegation status (fst r)"
    and "length done' + length rs = length cs" and "rs \<noteq> []"
  shows "foldl (round_step tid) (rounds, \<lparr>mtu_Calls = cs, mtu_Results = done'\<rparr>) es =
    (rounds @ [\<lparr>mtu_Calls = cs, mtu_Results = done' @ map (shown_result \<circ> fst) rs\<rparr>], no_round)"
  using assms
proof (induction rs es arbitrary: done' rule: list_all2_induct)
  case (Cons r rs e es)
  show ?case
  proof (cases rs)
    case Nil
    with Cons have "es = []" "cs \<noteq> []" "Suc (length done') = length cs" by auto
    with Nil Cons.hyps(1) Cons.prems(1) round_step_result [of status sid tid r e] show ?thesis by simp
  next
    case (Cons r' rs')
    then have "Suc (length done') \<noteq> length cs" using Cons.prems(2) by simp
    then have "round_step tid (rounds, \<lparr>mtu_Calls = cs, mtu_Results = done'\<rparr>) e =
        (rounds, \<lparr>mtu_Calls = cs, mtu_Results = done' @ [shown_result (fst r)]\<rparr>)"
      using round_step_result [OF Cons.hyps(1)] Cons.prems(1) by simp
    with Cons.IH [of "done' @ [shown_result (fst r)]"] Cons.prems Cons show ?thesis by simp
  qed
qed simp

section \<open>The appends of a round\<close>

lemma append_calls_rows:
  assumes "append_calls sid tid normalized calls k = (Inr out, k')" and "timely k"
  shows "\<exists>es. kernel_ext k k' es \<and> timely k' \<and> list_all2 (is_call_event sid tid) calls es"
  using assms
proof (induction calls arbitrary: normalized k)
  case Nil
  then show ?case by auto
next
  case (Cons call calls)
  let ?t = "fst (clock k)"
  define i where "i = fst (newID ''evt'' ?t (snd (clock k)))"
  define e where "e = tool_call_event sid tid call ?t i"
  obtain o' k1 where app: "appendEvent e (snd (newID ''evt'' ?t (snd (clock k)))) = (o', k1)" by fastforce
  with Cons.prems(1) have none: "o' = None" by (cases o') (auto simp: Let_def case_prod_unfold i_def e_def)
  with app have ext: "kernel_ext k k1 [e]" by (auto intro: kernel_ext_stamp1 dest: appendEvent_done)
  have "timely k1" by (rule timely_ext_one [OF Cons.prems(2) ext]) (simp add: e_def tool_call_event_def turn_event_def)
  moreover obtain normalized' where "append_calls sid tid normalized' calls k1 = (Inr out, k')"
    using Cons.prems(1) app none by (auto simp: Let_def case_prod_unfold i_def e_def)
  ultimately obtain es where "kernel_ext k1 k' es" "timely k'" "list_all2 (is_call_event sid tid) calls es" using Cons.IH by blast
  moreover have "is_call_event sid tid call e" by (auto simp: is_call_event_def e_def)
  ultimately show ?case using kernel_ext_trans [OF ext] by (intro exI [of _ "e # es"]) auto
qed

lemma append_turn_event_cases:
  assumes "append_turn_event event k = (None, k')"
  obtains i where "kernel_ext k k' [event (fst (clock k)) i]"
proof -
  obtain r k1 where run: "stamp_append event (\<lambda>_. ()) k = (r, k1)" by fastforce
  then show ?thesis
    by (cases rule: stamp_append_cases) (use assms run that in \<open>auto simp: append_turn_event_def\<close>)
qed

lemma append_results_rows:
  assumes "append_results status sid tid rs k = (None, k')" and "timely k"
  shows "\<exists>es. kernel_ext k k' es \<and> timely k' \<and> list_all2 (is_result_event status sid tid) rs es"
  using assms
proof (induction rs arbitrary: k)
  case Nil
  then show ?case by auto
next
  case (Cons r rs)
  obtain o' k1 where app: "appendToolResultEvent status sid tid (fst r) (snd r) k = (o', k1)" by fastforce
  have none: "o' = None" using Cons.prems(1) app by (cases r; cases o') auto
  then obtain i where ext: "kernel_ext k k1 [tool_result_event status sid tid (fst r) (snd r) (fst (clock k)) i]"
    using app append_turn_event_cases unfolding appendToolResultEvent_def by blast
  let ?e = "tool_result_event status sid tid (fst r) (snd r) (fst (clock k)) i"
  have "timely k1" by (rule timely_ext_one [OF Cons.prems(2) ext]) (simp add: tool_result_event_def turn_event_def)
  moreover have "append_results status sid tid rs k1 = (None, k')" using Cons.prems(1) app none by (cases r) simp
  ultimately obtain es where "kernel_ext k1 k' es" "timely k'" "list_all2 (is_result_event status sid tid) rs es" using Cons.IH by blast
  moreover have "is_result_event status sid tid r ?e" by (auto simp: is_result_event_def)
  ultimately show ?case using kernel_ext_trans [OF ext] by (intro exI [of _ "?e # es"]) auto
qed

section \<open>Properties\<close>

text \<open>
  C16: a tool round survives the log. When a turn has no open round and appends the calls of a
  batch and then one result for each, the rounds read from the log are those read before
  followed by exactly this one: the calls in order with their identifiers, names and arguments,
  the results in order with their contents, and again no open round.
\<close>

theorem tool_round_roundtrip:
  assumes "timely k" and "loadEvents k = Inr es" and "snd (read_rounds tid es) = no_round"
    and "appendToolCallEvents sid tid calls k = (Inr (normalized, ids), k1)" and "calls \<noteq> []"
    and "append_results status sid tid rs k1 = (None, k2)" and "length rs = length calls"
    and "\<forall>r \<in> set rs. \<not> queued_delegation status (fst r)" and "loadEvents k2 = Inr es2"
  shows "modelToolRoundsFromStoredEvents es2 tid = modelToolRoundsFromStoredEvents es tid @
      [\<lparr>mtu_Calls = map shown_call calls, mtu_Results = map (shown_result \<circ> fst) rs\<rparr>] \<and>
    snd (read_rounds tid es2) = no_round"
proof -
  obtain out where "append_calls sid tid [] calls k = (Inr out, k1)"
    using assms(4) by (auto simp: appendToolCallEvents_def split: option.splits prod.splits sum.splits)
  from append_calls_rows [OF this assms(1)] obtain cs where
    cs: "kernel_ext k k1 cs" "timely k1" "list_all2 (is_call_event sid tid) calls cs" by blast
  from append_results_rows [OF assms(6) cs(2)] obtain fs where
    fs: "kernel_ext k1 k2 fs" "timely k2" "list_all2 (is_result_event status sid tid) rs fs" by blast
  have "es = k_rows k" "es2 = k_rows k2" using loadEvents_timely assms(1,2,9) fs(2) by auto
  then have es2: "es2 = es @ cs @ fs" using cs(1) fs(1) by (simp add: kernel_ext_def)
  define rounds where "rounds = fst (read_rounds tid es)"
  have "read_rounds tid es = (rounds, no_round)" using assms(3) by (simp add: rounds_def prod_eq_iff)
  then have "read_rounds tid es2 = foldl (round_step tid) (rounds, \<lparr>mtu_Calls = map shown_call calls, mtu_Results = []\<rparr>) fs"
    using fold_calls [OF cs(3), of rounds no_round] by (simp add: read_rounds_def es2)
  also have "\<dots> = (rounds @ [\<lparr>mtu_Calls = map shown_call calls, mtu_Results = [] @ map (shown_result \<circ> fst) rs\<rparr>], no_round)"
    by (rule fold_results [OF fs(3) assms(8)]) (use assms(5,7) in auto)
  finally show ?thesis by (simp add: modelToolRoundsFromStoredEvents_def rounds_def read_rounds_def)
qed

definition sample_call :: ModelToolCall where
  "sample_call = \<lparr>mtc_ToolCallID = '' c1 '', mtc_ToolCallEventID = [], mtc_Name = ''shell_exec'', mtc_Arguments = ''{}''\<rparr>"

definition sample_result :: ModelToolResult where
  "sample_result = \<lparr>mtr_ToolCallID = ''c1'', mtr_ToolCallEventID = [], mtr_Name = ''shell_exec'', mtr_Content = ''ok'',
     mtr_PendingJobStart = None, mtr_PendingAgentInvocationStart = None\<rparr>"

definition round_k1 :: kernel where
  "round_k1 = snd (appendToolCallEvents ''s1'' ''t1'' [sample_call] sample_kernel)"

definition round_out :: "ModelToolCall list \<times> (string \<times> string) list" where
  "round_out = projr (fst (appendToolCallEvents ''s1'' ''t1'' [sample_call] sample_kernel))"

definition round_k2 :: kernel where
  "round_k2 = snd (append_results (\<lambda>_. None) ''s1'' ''t1'' [(sample_result, ''evt_'')] round_k1)"

theorem tool_round_roundtrip_witness:
  "modelToolRoundsFromStoredEvents (projr (loadEvents round_k2)) ''t1'' =
     [\<lparr>mtu_Calls = [sample_call\<lparr>mtc_ToolCallID := ''c1''\<rparr>], mtu_Results = [sample_result]\<rparr>]"
proof -
  have load: "loadEvents sample_kernel = Inr []" by code_simp
  have load2: "loadEvents round_k2 = Inr (projr (loadEvents round_k2))" by (rule res_eq) code_simp
  have "isl (fst (appendToolCallEvents ''s1'' ''t1'' [sample_call] sample_kernel)) = False" by code_simp
  then have calls: "appendToolCallEvents ''s1'' ''t1'' [sample_call] sample_kernel = (Inr (fst round_out, snd round_out), round_k1)"
    by (simp add: round_out_def round_k1_def prod_eq_iff sum.expand)
  have "fst (append_results (\<lambda>_. None) ''s1'' ''t1'' [(sample_result, ''evt_'')] round_k1) = None" by code_simp
  then have results: "append_results (\<lambda>_. None) ''s1'' ''t1'' [(sample_result, ''evt_'')] round_k1 = (None, round_k2)"
    by (simp add: round_k2_def prod_eq_iff)
  have "queued_delegation (\<lambda>_. None) sample_result = False" "snd (read_rounds ''t1'' []) = no_round"
    "modelToolRoundsFromStoredEvents [] ''t1'' = []" "shown_call sample_call = sample_call\<lparr>mtc_ToolCallID := ''c1''\<rparr>"
    "shown_result sample_result = sample_result" by code_simp+
  with tool_round_roundtrip [OF sample_timely load _ calls _ results _ _ load2] show ?thesis by simp
qed

end
