(* ===== verification/Loop_Guard.thy ===== *)
theory Loop_Guard
  imports Turn_Log Tool_Scheduling Runtime_Policy Go_Text Output_Capture Sample_Kernel
begin

text \<open>
  The guard of the tool loop (\<^verbatim>\<open>tool_loop_guard.go\<close>): it refuses a write that succeeded twice in a row
  already and marks a failure that repeats. The guard keeps counters; the theorem gives its answers
  as a function of everything that was executed before.
\<close>

section \<open>Payloads\<close>

text \<open>
  A payload as \<^verbatim>\<open>encoding/json\<close> decodes it. Numbers are read by the guard through their integral
  part only.
\<close>

datatype json =
    JNull
  | JBool bool
  | JNumber int
  | JString string
  | JArray "json list"
  | JObject "(string \<times> json) list"

text \<open>The decoder and encoder of the language's library.\<close>

record json_codec =
  jc_Unmarshal :: "string \<Rightarrow> json go_map option"
  jc_Marshal :: "json go_map \<Rightarrow> string res"

definition decodeToolLoopResultPayload :: "json_codec \<Rightarrow> string \<Rightarrow> json go_map option" where
  "decodeToolLoopResultPayload codec content = jc_Unmarshal codec content"

definition stringMapValue :: "json go_map \<Rightarrow> string \<Rightarrow> string" where
  "stringMapValue payload key = (case go_lookup payload key of Some (JString value) \<Rightarrow> TrimSpace value | _ \<Rightarrow> [])"

definition numericMapValue :: "json go_map \<Rightarrow> string \<Rightarrow> int option" where
  "numericMapValue payload key = (case go_lookup payload key of Some (JNumber value) \<Rightarrow> Some value | _ \<Rightarrow> None)"

definition toolLoopStatusSucceeded :: "string \<Rightarrow> bool" where
  "toolLoopStatusSucceeded status \<longleftrightarrow> TrimSpace status \<in> {''completed'', ''managed_job_started''}"

definition toolLoopStatusBlocked :: "string \<Rightarrow> bool" where
  "toolLoopStatusBlocked status \<longleftrightarrow> TrimSpace status \<in>
     {''permission_denied'', ''approval_required'', ''sandbox_profile_unavailable'', ''approval_policy_invalid''}"

definition toolLoopResultSucceeded :: "json_codec \<Rightarrow> ModelToolResult \<Rightarrow> bool" where
  "toolLoopResultSucceeded codec result =
     (case decodeToolLoopResultPayload codec (mtr_Content result) of
        None \<Rightarrow> False
      | Some payload \<Rightarrow> toolLoopStatusSucceeded (stringMapValue payload ''status''))"

definition strconv_Itoa :: "int \<Rightarrow> string" where
  "strconv_Itoa n = (if n < 0 then CHR ''-'' # show_nat (nat (- n)) else show_nat (nat n))"

definition failure_code :: "json go_map \<Rightarrow> string" where
  "failure_code payload =
     (let code = (case go_lookup payload ''error'' of Some (JObject errPayload) \<Rightarrow> stringMapValue errPayload ''code'' | _ \<Rightarrow> []);
          code = (if code = [] then stringMapValue payload ''timeout_reason'' else code);
          code = (if code = [] then (case numericMapValue payload ''exit_code'' of
                    Some exitCode \<Rightarrow> ''exit_code:'' @ strconv_Itoa exitCode | None \<Rightarrow> []) else code)
      in if code = [] then ''unclassified_failure'' else code)"

definition toolLoopFailureSignature :: "json_codec \<Rightarrow> ModelToolResult \<Rightarrow> string option" where
  "toolLoopFailureSignature codec result =
     (case decodeToolLoopResultPayload codec (mtr_Content result) of
        None \<Rightarrow> None
      | Some payload \<Rightarrow>
          let status = stringMapValue payload ''status''
          in if status = [] \<or> toolLoopStatusSucceeded status \<or> toolLoopStatusBlocked status then None
             else Some (TrimSpace (mtr_Name result) @ [CHR 0x00] @ status @ [CHR 0x00] @ failure_code payload))"

section \<open>Signatures of writes\<close>

text \<open>\<^verbatim>\<open>strings.Fields\<close>: the runs of bytes between runs of white space.\<close>

fun fields_of :: "nat \<Rightarrow> string \<Rightarrow> string \<Rightarrow> string list" where
  "fields_of 0 word s = (if word = [] then [] else [word])"
| "fields_of (Suc fuel) word s =
     (case s of
        [] \<Rightarrow> if word = [] then [] else [word]
      | c # cs \<Rightarrow>
          if space_rune s = 0 then fields_of fuel (word @ [c]) cs
          else (if word = [] then [] else [word]) @ fields_of fuel [] (drop (space_rune s) s))"

definition strings_Fields :: "string \<Rightarrow> string list" where
  "strings_Fields s = fields_of (length s) [] s"

definition normalizeToolLoopSignatureText :: "string \<Rightarrow> string" where
  "normalizeToolLoopSignatureText txt = join_with '' '' (strings_Fields (TrimSpace txt))"

definition shellExecRepeatSuccessSignature :: "kernel \<Rightarrow> string \<Rightarrow> string \<Rightarrow> int \<Rightarrow> string" where
  "shellExecRepeatSuccessSignature k cwd command timeoutSec =
     (if shellTimeoutExceedsForeground k timeoutSec then []
      else let cwd = TrimSpace cwd; command = normalizeToolLoopSignatureText command
        in if cwd = [] \<or> command = [] then []
           else ''shell_exec'' @ [CHR 0x00] @ cwd @ [CHR 0x00] @ command)"

section \<open>The guard\<close>

abbreviation toolLoopRepeatedFailureThreshold :: nat where "toolLoopRepeatedFailureThreshold \<equiv> 3"
abbreviation toolLoopRepeatedSuccessThreshold :: nat where "toolLoopRepeatedSuccessThreshold \<equiv> 2"

text \<open>What the guard reads of a prepared call, and what the execution of a batch reads of it.\<close>

record preparedModelToolCall =
  pm_eventID :: string
  pm_providerCallID :: string
  pm_name :: string
  pm_accessPlan :: AccessPlan
  pm_repeatSuccessSignature :: string

record toolLoopGuard =
  lg_failureSignature :: string
  lg_failureCount :: nat
  lg_repeatedSuccessCount :: "nat go_map"

definition newToolLoopGuard :: toolLoopGuard where
  "newToolLoopGuard = \<lparr>lg_failureSignature = [], lg_failureCount = 0, lg_repeatedSuccessCount = []\<rparr>"

definition guarded_payload :: "string \<Rightarrow> nat \<Rightarrow> json go_map" where
  "guarded_payload name repeats =
     [(''status'', JString ''tool_loop_guarded''), (''tool'', JString (TrimSpace name)), (''executed'', JBool False),
      (''error'', JObject [(''code'', JString ''repeated_write_success''),
        (''message'', JString ''tool loop guard blocked a repeated successful write-like effect before execution'')]),
      (''loop_guard'', JObject [(''code'', JString ''repeated_write_success''),
        (''message'', JString ''this write-like tool call already succeeded with the same effect signature in this turn; change approach, verify, or produce a final answer''),
        (''repeat_count'', JNumber (int repeats)), (''signature_kind'', JString ''write_like_success'')])]"

text \<open>\<open>Inr None\<close> lets the call pass.\<close>

definition beforeExecute :: "json_codec \<Rightarrow> toolLoopGuard \<Rightarrow> preparedModelToolCall \<Rightarrow> ModelToolResult option res" where
  "beforeExecute codec g call =
     (let signature = TrimSpace (pm_repeatSuccessSignature call)
      in if signature = [] then Inr None
         else
           let repeats = (case go_lookup (lg_repeatedSuccessCount g) signature of Some n \<Rightarrow> n | None \<Rightarrow> 0)
           in if repeats < toolLoopRepeatedSuccessThreshold then Inr None
              else case jc_Marshal codec (guarded_payload (pm_name call) repeats) of
                  Inl err \<Rightarrow> Inl err
                | Inr content \<Rightarrow>
                    Inr (Some \<lparr>mtr_ToolCallID = TrimSpace (pm_providerCallID call), mtr_ToolCallEventID = TrimSpace (pm_eventID call),
                      mtr_Name = TrimSpace (pm_name call), mtr_Content = content,
                      mtr_PendingJobStart = None, mtr_PendingAgentInvocationStart = None\<rparr>))"

definition resultWithFailureLoopGuard :: "json_codec \<Rightarrow> ModelToolResult \<Rightarrow> nat \<Rightarrow> ModelToolResult res" where
  "resultWithFailureLoopGuard codec result repeatCount =
     (case decodeToolLoopResultPayload codec (mtr_Content result) of
        None \<Rightarrow> Inr result
      | Some payload \<Rightarrow>
          (case jc_Marshal codec (go_store ''loop_guard'' (JObject [(''code'', JString ''repeated_tool_failure''),
               (''message'', JString ''this tool call or batch has failed repeatedly with the same error in this turn; change approach, reduce arguments, use a different tool, or produce a final answer explaining the blocker''),
               (''repeat_count'', JNumber (int repeatCount)), (''signature_kind'', JString ''tool_failure'')]) payload) of
             Inl err \<Rightarrow> Inl err
           | Inr content \<Rightarrow> Inr (result\<lparr>mtr_Content := content\<rparr>)))"

definition observeFailure :: "json_codec \<Rightarrow> ModelToolResult \<Rightarrow> toolLoopGuard \<Rightarrow> ModelToolResult res \<times> toolLoopGuard" where
  "observeFailure codec result g =
     (case toolLoopFailureSignature codec result of
        None \<Rightarrow> (Inr result, g\<lparr>lg_failureSignature := [], lg_failureCount := 0\<rparr>)
      | Some signature \<Rightarrow>
          if signature \<noteq> lg_failureSignature g
          then (Inr result, g\<lparr>lg_failureSignature := signature, lg_failureCount := 1\<rparr>)
          else
            let g = g\<lparr>lg_failureCount := lg_failureCount g + 1\<rparr>
            in if lg_failureCount g < toolLoopRepeatedFailureThreshold then (Inr result, g)
               else (resultWithFailureLoopGuard codec result (lg_failureCount g), g))"

definition toolLoopSuccessCountsOnlyTrackSignature :: "nat go_map \<Rightarrow> string \<Rightarrow> bool" where
  "toolLoopSuccessCountsOnlyTrackSignature counts signature \<longleftrightarrow> list_all (\<lambda>tracked. tracked = signature) (map fst counts)"

definition observeSuccess :: "json_codec \<Rightarrow> preparedModelToolCall \<Rightarrow> ModelToolResult \<Rightarrow> toolLoopGuard \<Rightarrow> toolLoopGuard" where
  "observeSuccess codec call result g =
     (if \<not> toolLoopResultSucceeded codec result then g
      else let signature = TrimSpace (pm_repeatSuccessSignature call)
        in if signature = [] then g\<lparr>lg_repeatedSuccessCount := []\<rparr>
           else
             let counts = (if toolLoopSuccessCountsOnlyTrackSignature (lg_repeatedSuccessCount g) signature
                           then lg_repeatedSuccessCount g else []);
                 repeats = (case go_lookup counts signature of Some n \<Rightarrow> n | None \<Rightarrow> 0)
             in g\<lparr>lg_repeatedSuccessCount := go_store signature (repeats + 1) counts\<rparr>)"

definition afterExecute ::
  "json_codec \<Rightarrow> preparedModelToolCall \<Rightarrow> ModelToolResult \<Rightarrow> toolLoopGuard \<Rightarrow> ModelToolResult res \<times> toolLoopGuard" where
  "afterExecute codec call result g =
     (case observeFailure codec result g of
        (Inl err, g) \<Rightarrow> (Inl err, g)
      | (Inr result, g) \<Rightarrow> (Inr result, observeSuccess codec call result g))"

section \<open>The guard as a function of the past\<close>

text \<open>The calls whose results the guard has seen, with the results before and after it.\<close>

inductive observed :: "json_codec \<Rightarrow> (preparedModelToolCall \<times> ModelToolResult \<times> ModelToolResult) list \<Rightarrow> toolLoopGuard \<Rightarrow> bool" for codec where
  new: "observed codec [] newToolLoopGuard"
| seen: "observed codec tr g \<Longrightarrow> afterExecute codec call result g = (Inr result', g') \<Longrightarrow>
    observed codec (tr @ [(call, result, result')]) g'"

definition success_signatures :: "json_codec \<Rightarrow> (preparedModelToolCall \<times> ModelToolResult \<times> ModelToolResult) list \<Rightarrow> string list" where
  "success_signatures codec tr =
     map (\<lambda>(call, _, _). TrimSpace (pm_repeatSuccessSignature call)) (filter (\<lambda>(_, _, result'). toolLoopResultSucceeded codec result') tr)"

definition failure_signatures :: "json_codec \<Rightarrow> (preparedModelToolCall \<times> ModelToolResult \<times> ModelToolResult) list \<Rightarrow> string option list" where
  "failure_signatures codec tr = map (\<lambda>(_, result, _). toolLoopFailureSignature codec result) tr"

text \<open>The length of the last run of equal entries that are not \<open>x\<close>.\<close>

fun last_run :: "'a \<Rightarrow> 'a list \<Rightarrow> nat" where
  "last_run x [] = 0"
| "last_run x (a # as) = (if a = x then 0 else length (takeWhile (\<lambda>b. b = a) (a # as)))"

definition guard_of :: "string list \<Rightarrow> string option list \<Rightarrow> toolLoopGuard \<Rightarrow> bool" where
  "guard_of ss fs g \<longleftrightarrow>
     lg_repeatedSuccessCount g = (if last_run [] (rev ss) = 0 then [] else [(last ss, last_run [] (rev ss))]) \<and>
     lg_failureCount g = last_run None (rev fs) \<and>
     lg_failureSignature g = (if last_run None (rev fs) = 0 then [] else the (last fs))"

lemma last_run_snoc: "last_run x (rev (as @ [a])) = (if a = x then 0 else if as \<noteq> [] \<and> last as = a then Suc (last_run x (rev as)) else 1)"
  by (cases as rule: rev_cases) auto

lemma last_run_zero: "last_run x (rev as) = 0 \<longleftrightarrow> as = [] \<or> last as = x"
  by (cases as rule: rev_cases) auto

lemma failure_signature_nonempty: "toolLoopFailureSignature codec r = Some f \<Longrightarrow> f \<noteq> []"
  by (auto simp: toolLoopFailureSignature_def Let_def split: option.splits if_splits)

lemma last_run_two:
  "y \<noteq> x \<Longrightarrow> take 2 (rev as) = [y, y] \<longleftrightarrow> as \<noteq> [] \<and> last as = y \<and> 2 \<le> last_run x (rev as)"
proof (cases as rule: rev_cases)
  case (snoc bs b)
  then show "y \<noteq> x \<Longrightarrow> ?thesis" by (cases bs rule: rev_cases) auto
qed simp

lemma guard_of_failure:
  "guard_of ss fs g \<Longrightarrow> lg_repeatedSuccessCount g1 = lg_repeatedSuccessCount g \<Longrightarrow>
     lg_failureCount g1 = last_run None (rev (fs @ [Some f])) \<Longrightarrow> lg_failureSignature g1 = f \<Longrightarrow> guard_of ss (fs @ [Some f]) g1"
  by (simp add: guard_of_def)

lemma guard_of_success:
  "guard_of ss fs g \<Longrightarrow> lg_failureCount g1 = lg_failureCount g \<Longrightarrow> lg_failureSignature g1 = lg_failureSignature g \<Longrightarrow> s \<noteq> [] \<Longrightarrow>
     lg_repeatedSuccessCount g1 = [(s, last_run [] (rev (ss @ [s])))] \<Longrightarrow> guard_of (ss @ [s]) fs g1"
  by (simp add: guard_of_def)

lemma guard_failure_step:
  assumes "guard_of ss fs g" and "observeFailure codec r g = (r', g1)"
  shows "guard_of ss (fs @ [toolLoopFailureSignature codec r]) g1"
    and "r' = (if \<exists>f. toolLoopFailureSignature codec r = Some f \<and> take 2 (rev fs) = [Some f, Some f]
               then resultWithFailureLoopGuard codec r (last_run None (rev (fs @ [toolLoopFailureSignature codec r]))) else Inr r)"
proof (atomize (full), cases "toolLoopFailureSignature codec r")
  case None
  with assms show "guard_of ss (fs @ [toolLoopFailureSignature codec r]) g1 \<and> r' = (if \<exists>f. toolLoopFailureSignature codec r = Some f \<and> take 2 (rev fs) = [Some f, Some f]
      then resultWithFailureLoopGuard codec r (last_run None (rev (fs @ [toolLoopFailureSignature codec r]))) else Inr r)"
    by (auto simp: observeFailure_def guard_of_def)
next
  case (Some f)
  then have f: "f \<noteq> []" by (rule failure_signature_nonempty)
  have same: "lg_failureSignature g = f \<longleftrightarrow> fs \<noteq> [] \<and> last fs = Some f"
    using assms(1) f by (auto simp: guard_of_def last_run_zero)
  have two: "take 2 (rev fs) = [Some f, Some f] \<longleftrightarrow> lg_failureSignature g = f \<and> 2 \<le> lg_failureCount g"
    using last_run_two [of "Some f" None fs] same assms(1) by (simp add: guard_of_def)
  show "guard_of ss (fs @ [toolLoopFailureSignature codec r]) g1 \<and> r' = (if \<exists>f. toolLoopFailureSignature codec r = Some f \<and> take 2 (rev fs) = [Some f, Some f]
      then resultWithFailureLoopGuard codec r (last_run None (rev (fs @ [toolLoopFailureSignature codec r]))) else Inr r)"
  proof (cases "lg_failureSignature g = f")
    case True
    then have "fs \<noteq> []" "last fs = Some f" using same by simp_all
    then have run: "last_run None (rev (fs @ [Some f])) = Suc (lg_failureCount g)"
      using assms(1) by (simp only: last_run_snoc guard_of_def) simp
    have g1: "g1 = g\<lparr>lg_failureCount := Suc (lg_failureCount g)\<rparr>" and
      r': "r' = (if 2 \<le> lg_failureCount g then resultWithFailureLoopGuard codec r (Suc (lg_failureCount g)) else Inr r)"
      using assms(2) Some True by (auto simp: observeFailure_def Let_def split: if_splits)
    have "guard_of ss (fs @ [Some f]) g1" by (rule guard_of_failure [OF assms(1)]) (use g1 run True in \<open>simp_all del: rev_append\<close>)
    with r' run two True Some show ?thesis by (simp del: rev_append)
  next
    case False
    then have run: "last_run None (rev (fs @ [Some f])) = 1" using same unfolding last_run_snoc by auto
    have g1: "g1 = g\<lparr>lg_failureSignature := f, lg_failureCount := 1\<rparr>" and r': "r' = Inr r"
      using assms(2) Some False by (auto simp: observeFailure_def)
    have "guard_of ss (fs @ [Some f]) g1" by (rule guard_of_failure [OF assms(1)]) (use g1 run in \<open>simp_all del: rev_append\<close>)
    with r' two False Some show ?thesis by (simp del: rev_append)
  qed
qed

lemma guard_success_step:
  assumes "guard_of ss fs g"
  shows "guard_of (ss @ (if toolLoopResultSucceeded codec r then [TrimSpace (pm_repeatSuccessSignature call)] else [])) fs (observeSuccess codec call r g)"
proof (cases "toolLoopResultSucceeded codec r")
  case True
  let ?s = "TrimSpace (pm_repeatSuccessSignature call)"
  have run: "last_run [] (rev (ss @ [?s])) = (if ?s = [] then 0 else if ss \<noteq> [] \<and> last ss = ?s then Suc (last_run [] (rev ss)) else 1)"
    by (rule last_run_snoc)
  show ?thesis
  proof (cases "?s \<noteq> [] \<and> ss \<noteq> [] \<and> last ss = ?s")
    case same: True
    then have "lg_repeatedSuccessCount g = [(?s, last_run [] (rev ss))]" using assms by (simp add: guard_of_def last_run_zero)
    then have "observeSuccess codec call r g = g\<lparr>lg_repeatedSuccessCount := [(?s, Suc (last_run [] (rev ss)))]\<rparr>"
      using same True by (simp add: observeSuccess_def toolLoopSuccessCountsOnlyTrackSignature_def Let_def)
    moreover have "last_run [] (rev (ss @ [?s])) = Suc (last_run [] (rev ss))" unfolding run using same by simp
    ultimately have "guard_of (ss @ [?s]) fs (observeSuccess codec call r g)"
      by (intro guard_of_success [OF assms]) (use same in \<open>simp_all del: rev_append\<close>)
    with True show ?thesis by simp
  next
    case new: False
    have counts: "?s \<noteq> [] \<Longrightarrow> (if toolLoopSuccessCountsOnlyTrackSignature (lg_repeatedSuccessCount g) ?s then lg_repeatedSuccessCount g else []) = []"
      using assms new by (cases "last_run [] (rev ss) = 0")
        (simp_all add: guard_of_def last_run_zero toolLoopSuccessCountsOnlyTrackSignature_def)
    show ?thesis
    proof (cases "?s = []")
      case True
      with \<open>toolLoopResultSucceeded codec r\<close> run assms show ?thesis
        by (simp add: observeSuccess_def guard_of_def Let_def del: rev_append)
    next
      case False
      then have "observeSuccess codec call r g = g\<lparr>lg_repeatedSuccessCount := [(?s, 1)]\<rparr>"
        using \<open>toolLoopResultSucceeded codec r\<close> counts by (simp add: observeSuccess_def Let_def)
      moreover have "last_run [] (rev (ss @ [?s])) = 1" unfolding run using new False by auto
      ultimately have "guard_of (ss @ [?s]) fs (observeSuccess codec call r g)"
        by (intro guard_of_success [OF assms]) (use False in \<open>simp_all del: rev_append\<close>)
      with \<open>toolLoopResultSucceeded codec r\<close> show ?thesis by simp
    qed
  qed
qed (use assms in \<open>simp add: observeSuccess_def\<close>)

lemma observed_guard: "observed codec tr g \<Longrightarrow> guard_of (success_signatures codec tr) (failure_signatures codec tr) g"
proof (induction rule: observed.induct)
  case new
  show ?case by (simp add: guard_of_def newToolLoopGuard_def success_signatures_def failure_signatures_def)
next
  case (seen tr g call result result' g')
  obtain r g1 where f: "observeFailure codec result g = (r, g1)" by fastforce
  with seen.hyps(2) have "r = Inr result'" "g' = observeSuccess codec call result' g1" by (auto simp: afterExecute_def split: sum.splits)
  with guard_success_step [OF guard_failure_step(1) [OF seen.IH f], of codec result' call] show ?case
    by (cases "toolLoopResultSucceeded codec result'") (simp_all add: success_signatures_def failure_signatures_def)
qed

section \<open>Properties\<close>

text \<open>
  C21: the counters of the guard say what the past of the turn says. Whatever was executed before,
  a call is let through exactly when it has no write signature or the last two successful calls
  were not both of its signature, so that no write succeeds three times in a row; and the result
  of an executed call is marked exactly when it and the two results before it failed with the same
  signature, with the number of failures in a row.
\<close>

theorem toolLoopGuard_reference:
  assumes "observed codec tr g"
  shows "(beforeExecute codec g call = Inr None \<longleftrightarrow>
      TrimSpace (pm_repeatSuccessSignature call) = [] \<or>
      take 2 (rev (success_signatures codec tr)) \<noteq> [TrimSpace (pm_repeatSuccessSignature call), TrimSpace (pm_repeatSuccessSignature call)]) \<and>
    fst (afterExecute codec call result g) =
      (if \<exists>f. toolLoopFailureSignature codec result = Some f \<and> take 2 (rev (failure_signatures codec tr)) = [Some f, Some f]
       then resultWithFailureLoopGuard codec result
         (last_run None (rev (failure_signatures codec tr @ [toolLoopFailureSignature codec result])))
       else Inr result)"
proof -
  let ?s = "TrimSpace (pm_repeatSuccessSignature call)" and ?ss = "success_signatures codec tr"
  have g: "guard_of ?ss (failure_signatures codec tr) g" by (rule observed_guard [OF assms])
  have "2 \<le> (case go_lookup (lg_repeatedSuccessCount g) ?s of Some n \<Rightarrow> n | None \<Rightarrow> 0) \<longleftrightarrow> take 2 (rev ?ss) = [?s, ?s]" if "?s \<noteq> []"
    using g last_run_two [OF that, of ?ss] that
    by (cases "last_run [] (rev ?ss) = 0"; cases "last ?ss = ?s") (simp_all add: guard_of_def last_run_zero)
  then have 1: "beforeExecute codec g call = Inr None \<longleftrightarrow> ?s = [] \<or> take 2 (rev ?ss) \<noteq> [?s, ?s]"
    by (cases "?s = []") (auto simp: beforeExecute_def Let_def not_less split: sum.splits)
  obtain r g1 where f: "observeFailure codec result g = (r, g1)" by fastforce
  then have "fst (afterExecute codec call result g) = r" by (auto simp: afterExecute_def split: sum.splits)
  with 1 guard_failure_step(2) [OF g f] show ?thesis by simp
qed

text \<open>A library that knows two texts, and a write that succeeded twice.\<close>

definition sample_codec :: json_codec where
  "sample_codec = \<lparr>jc_Unmarshal = (\<lambda>s. if s = ''ok'' then Some [(''status'', JString ''completed'')]
       else if s = ''bad'' then Some [(''status'', JString ''failed''), (''exit_code'', JNumber 2)] else None),
     jc_Marshal = (\<lambda>_. Inr ''marked'')\<rparr>"

definition sample_write :: preparedModelToolCall where
  "sample_write = \<lparr>pm_eventID = ''e1'', pm_providerCallID = ''c1'', pm_name = ''shell_exec'',
     pm_accessPlan = shellExecToolAccessPlan ''/w'' ''make'' 10,
     pm_repeatSuccessSignature = shellExecRepeatSuccessSignature sample_kernel ''/w'' '' make   all '' 10\<rparr>"

definition sample_outcome :: "string \<Rightarrow> ModelToolResult" where
  "sample_outcome content = \<lparr>mtr_ToolCallID = ''c1'', mtr_ToolCallEventID = ''e1'', mtr_Name = ''shell_exec'',
     mtr_Content = content, mtr_PendingJobStart = None, mtr_PendingAgentInvocationStart = None\<rparr>"

definition sample_guard :: "string list \<Rightarrow> toolLoopGuard" where
  "sample_guard = foldl (\<lambda>g content. snd (afterExecute sample_codec sample_write (sample_outcome content) g)) newToolLoopGuard"

theorem toolLoopGuard_reference_witness:
  "beforeExecute sample_codec (sample_guard [''ok'', ''ok'']) sample_write \<noteq> Inr None \<and>
   fst (afterExecute sample_codec sample_write (sample_outcome ''bad'') (sample_guard [''ok'', ''ok''])) = Inr (sample_outcome ''bad'')"
proof -
  let ?ok = "(sample_write, sample_outcome ''ok'', sample_outcome ''ok'')"
  have after: "fst (afterExecute sample_codec sample_write (sample_outcome ''ok'') (sample_guard [])) = Inr (sample_outcome ''ok'')"
    "fst (afterExecute sample_codec sample_write (sample_outcome ''ok'') (sample_guard [''ok''])) = Inr (sample_outcome ''ok'')" by code_simp+
  have "observed sample_codec [] (sample_guard [])" using observed.new by (simp add: sample_guard_def)
  from observed.seen [OF this, of sample_write "sample_outcome ''ok''" "sample_outcome ''ok''" "sample_guard [''ok'']"]
  have "observed sample_codec [?ok] (sample_guard [''ok''])" using after(1) by (simp add: sample_guard_def prod_eq_iff)
  from observed.seen [OF this, of sample_write "sample_outcome ''ok''" "sample_outcome ''ok''" "sample_guard [''ok'', ''ok'']"]
  have "observed sample_codec [?ok, ?ok] (sample_guard [''ok'', ''ok''])" using after(2) by (simp add: sample_guard_def prod_eq_iff)
  from toolLoopGuard_reference [OF this, of sample_write "sample_outcome ''bad''"]
  have ref: "beforeExecute sample_codec (sample_guard [''ok'', ''ok'']) sample_write = Inr None \<longleftrightarrow>
      TrimSpace (pm_repeatSuccessSignature sample_write) = [] \<or>
      take 2 (rev (success_signatures sample_codec [?ok, ?ok])) \<noteq> [TrimSpace (pm_repeatSuccessSignature sample_write), TrimSpace (pm_repeatSuccessSignature sample_write)]"
    "fst (afterExecute sample_codec sample_write (sample_outcome ''bad'') (sample_guard [''ok'', ''ok''])) =
      (if \<exists>f. toolLoopFailureSignature sample_codec (sample_outcome ''bad'') = Some f \<and>
          take 2 (rev (failure_signatures sample_codec [?ok, ?ok])) = [Some f, Some f]
       then resultWithFailureLoopGuard sample_codec (sample_outcome ''bad'')
         (last_run None (rev (failure_signatures sample_codec [?ok, ?ok] @ [toolLoopFailureSignature sample_codec (sample_outcome ''bad'')])))
       else Inr (sample_outcome ''bad''))" by auto
  have "TrimSpace (pm_repeatSuccessSignature sample_write) = [] \<or>
      take 2 (rev (success_signatures sample_codec [?ok, ?ok])) \<noteq> [TrimSpace (pm_repeatSuccessSignature sample_write), TrimSpace (pm_repeatSuccessSignature sample_write)] \<longleftrightarrow> False"
    "failure_signatures sample_codec [?ok, ?ok] = [None, None]" by code_simp+
  with ref show ?thesis by simp
qed

end
