(* ===== verification/Provider_Step.thy ===== *)
theory Provider_Step
  imports Turn_Log Output_Capture Sample_Kernel
begin

text \<open>
  One step of the model: \<^verbatim>\<open>completeProviderStep\<close> of \<^verbatim>\<open>kernel.go\<close> with the errors of a provider and
  their classification (\<^verbatim>\<open>modelgateway/resilience.go\<close>, \<^verbatim>\<open>provider_resilience.go\<close>). The step retries
  transient failures and asks for a visible answer; the theorems bound the calls it makes, say what
  it stores, and that nothing a reader was already shown is produced again.
\<close>

section \<open>Requests and responses\<close>

record ModelInputItem =
  mi_Kind :: string
  mi_Text :: string

record ModelConversationMessage =
  cm_Role :: string
  cm_Text :: string
  cm_ReasoningText :: string
  cm_ReasoningAdapterID :: string
  cm_ReasoningAdapterProfile :: string
  cm_ToolCalls :: "ModelToolCall list"
  cm_ToolCallID :: string

record ModelRequest =
  mq_SessionID :: string
  mq_TurnID :: string
  mq_InputItems :: "ModelInputItem list"
  mq_Conversation :: "ModelConversationMessage list"
  mq_ToolManifest :: "ToolSpec list"
  mq_ToolRounds :: "ModelToolRound list"
  mq_PrefixFingerprint :: string

record ModelResponse =
  ms_Reasoning :: "ReasoningMessage option"
  ms_Text :: string
  ms_Model :: string
  ms_ToolCalls :: "ModelToolCall list"
  ms_Usage :: "TokenUsage option"

record ProviderContextProjection =
  pc_SessionID :: string
  pc_TurnID :: string
  pc_InputItems :: "ModelInputItem list"
  pc_Conversation :: "ModelConversationMessage list"
  pc_ToolManifest :: "ToolSpec list"
  pc_ToolRounds :: "ModelToolRound list"
  pc_PrefixFingerprint :: string
  pc_PrefixComponents :: PrefixFingerprintComponents
  pc_KernelObservationEventIDs :: "string list"
  pc_HistoryTurnIDs :: "string list"
  pc_CompactedThroughTurnID :: string

text \<open>The copies the code makes of a request protect its slices; a value needs none.\<close>

definition context_ModelRequest :: "ProviderContextProjection \<Rightarrow> ModelRequest" where
  "context_ModelRequest p =
     \<lparr>mq_SessionID = pc_SessionID p, mq_TurnID = pc_TurnID p, mq_InputItems = pc_InputItems p,
      mq_Conversation = pc_Conversation p, mq_ToolManifest = pc_ToolManifest p,
      mq_ToolRounds = pc_ToolRounds p, mq_PrefixFingerprint = pc_PrefixFingerprint p\<rparr>"

section \<open>Errors of a provider\<close>

text \<open>
  A classified error, an error that wraps another one under a text, or any other error with its
  text and what it wraps.
\<close>

datatype provider_error =
    ClassifiedError (ce_Code: string) (ce_Message: string) (ce_Retryable: bool) (ce_StatusCode: nat)
      (ce_RetryAfter: int) (ce_Err: "provider_error option")
  | Annotated string provider_error
  | Plain string go_error

type_synonym 'a pres = "provider_error + 'a"

fun provider_Error :: "provider_error \<Rightarrow> string" where
  "provider_Error (ClassifiedError code message _ _ _ err) =
     (if message \<noteq> [] then message else case err of Some e \<Rightarrow> provider_Error e | None \<Rightarrow> code)"
| "provider_Error (Annotated txt _) = txt"
| "provider_Error (Plain txt _) = txt"

fun provider_Is :: "provider_error \<Rightarrow> go_error \<Rightarrow> bool" where
  "provider_Is (ClassifiedError _ _ _ _ _ err) target = (case err of Some e \<Rightarrow> provider_Is e target | None \<Rightarrow> False)"
| "provider_Is (Annotated _ e) target = provider_Is e target"
| "provider_Is (Plain _ e) target = errors_Is e target"

text \<open>The first classified error of the chain.\<close>

fun provider_As :: "provider_error \<Rightarrow> provider_error option" where
  "provider_As (Annotated _ e) = provider_As e"
| "provider_As (Plain _ _) = None"
| "provider_As e = Some e"

definition ErrVisibleFinalRequired :: go_error where
  "ErrVisibleFinalRequired = Sentinel ''provider visible final required''"

definition context_Canceled :: go_error where "context_Canceled = Sentinel ''context canceled''"

abbreviation MaxProviderTransientAttempts :: nat where "MaxProviderTransientAttempts \<equiv> 3"
abbreviation MaxProviderVisibleFinalRepairs :: nat where "MaxProviderVisibleFinalRepairs \<equiv> 2"

definition VisibleFinalRepairPrompt :: string where
  "VisibleFinalRepairPrompt = ''The previous provider response did not include a visible final answer. Return a concise visible final answer to the user now. Do not include hidden reasoning.''"

definition IsRetryableStatus :: "nat \<Rightarrow> bool" where
  "IsRetryableStatus statusCode \<longleftrightarrow> statusCode = 408 \<or> statusCode = 429 \<or> (500 \<le> statusCode \<and> statusCode \<le> 599)"

definition NewStatusError :: "nat \<Rightarrow> string \<Rightarrow> int \<Rightarrow> provider_error" where
  "NewStatusError statusCode body retryAfter =
     (let code = (if statusCode = 401 \<or> statusCode = 403 then ''provider_auth_failed''
                  else if statusCode = 402 then ''provider_quota_or_billing_failed''
                  else if IsRetryableStatus statusCode then ''provider_transient_failure''
                  else if 400 \<le> statusCode \<and> statusCode \<le> 499 then ''provider_request_rejected''
                  else ''provider_http_error'');
          message = ''provider returned status '' @ show_nat statusCode;
          message = (if TrimSpace body \<noteq> [] then message @ '': '' @ TrimSpace body else message)
      in ClassifiedError code message (IsRetryableStatus statusCode) statusCode retryAfter None)"

definition NewTransportError :: "provider_error \<Rightarrow> provider_error" where
  "NewTransportError err =
     ClassifiedError ''provider_transient_failure'' (''provider request failed: '' @ provider_Error err) True 0 0 (Some err)"

definition NewVisibleFinalRequiredError :: provider_error where
  "NewVisibleFinalRequiredError =
     ClassifiedError ''provider_visible_final_required'' ''provider returned no visible assistant content'' False 0 0
       (Some (Plain ''provider visible final required'' ErrVisibleFinalRequired))"

definition NewVendorFieldUnsupportedError :: provider_error where
  "NewVendorFieldUnsupportedError =
     ClassifiedError ''provider_vendor_field_unsupported''
       ''provider returned a vendor-native field without an adapter policy'' False 0 0 None"

definition NewReasoningContinuationUnavailableError :: provider_error where
  "NewReasoningContinuationUnavailableError =
     ClassifiedError ''provider_reasoning_continuation_unavailable''
       ''provider continuation requires unavailable canonical reasoning'' False 0 0 None"

definition RetryDelay :: "provider_error \<Rightarrow> int" where
  "RetryDelay err =
     (case provider_As err of
        Some c \<Rightarrow> if 0 < ce_RetryAfter c then min (ce_RetryAfter c) (2 * 10 ^ 9) else 0
      | None \<Rightarrow> 0)"

definition NeedsVisibleFinalRepair :: "string \<Rightarrow> nat \<Rightarrow> bool" where
  "NeedsVisibleFinalRepair txt toolCallCount \<longleftrightarrow> toolCallCount = 0 \<and> TrimSpace txt = []"

definition modelResponseNeedsVisibleFinalRepair :: "ModelResponse \<Rightarrow> bool" where
  "modelResponseNeedsVisibleFinalRepair resp = NeedsVisibleFinalRepair (ms_Text resp) (length (ms_ToolCalls resp))"

definition failed_attempt :: "string \<Rightarrow> string \<Rightarrow> bool \<Rightarrow> ProviderAttemptProjection" where
  "failed_attempt code message retryable =
     \<lparr>pa_RoundIndex = 0, pa_Attempt = 0, pa_MaxAttempts = 0, pa_Status = ''failed'', pa_ReasonCode = code,
      pa_Message = message, pa_Retryable = retryable, pa_RepairKind = []\<rparr>"

text \<open>\<open>redact\<close> is the field of the classifier that takes credentials out of a text.\<close>

definition providerFailureFromError :: "(string \<Rightarrow> string) \<Rightarrow> provider_error \<Rightarrow> ProviderAttemptProjection" where
  "providerFailureFromError redact err =
     (case provider_As err of
        Some c \<Rightarrow> failed_attempt (ce_Code c) (redact (provider_Error c)) (ce_Retryable c)
      | None \<Rightarrow>
          if provider_Is err ErrProviderUnavailable
          then failed_attempt ''provider_unavailable'' (redact (provider_Error err)) False
          else failed_attempt ''provider_error'' (redact (provider_Error err)) False)"

definition turnFailureFromProviderError :: "(string \<Rightarrow> string) \<Rightarrow> provider_error \<Rightarrow> TurnError" where
  "turnFailureFromProviderError redact err =
     (let failure = providerFailureFromError redact err;
          code = (if pa_ReasonCode failure = [] then ''provider_error'' else pa_ReasonCode failure);
          message = (if pa_Message failure = [] then redact (provider_Error err) else pa_Message failure)
      in \<lparr>tr_Code = code, tr_Message = message\<rparr>)"

definition providerCompleteError :: "(string \<Rightarrow> string) \<Rightarrow> provider_error \<Rightarrow> provider_error" where
  "providerCompleteError redact err =
     (let message = redact (provider_Error err)
      in if provider_Is err ErrProviderUnavailable
         then Plain (''provider complete: provider unavailable: '' @ message) ErrProviderUnavailable
         else case provider_As err of
             Some c \<Rightarrow>
               ClassifiedError (if TrimSpace (ce_Code c) = [] then ''provider_error'' else TrimSpace (ce_Code c))
                 (''provider complete: '' @ message) (ce_Retryable c) (ce_StatusCode c) (ce_RetryAfter c) (ce_Err c)
           | None \<Rightarrow> ClassifiedError ''provider_error'' (''provider complete: '' @ message) False 0 0 None)"

section \<open>The step\<close>

text \<open>
  What a step relies on: the answers of the provider to its successive calls, with the deltas a
  streaming provider hands out first; whether the context of the turn is cancelled when the answer
  of a call is looked at, and during the wait after it; whether the debug capture of the session is
  on (it reads the clock and writes a file of its own); the redaction of texts and the text of the
  kernel's own errors.
\<close>

record step_env =
  se_Complete :: "nat \<Rightarrow> ModelRequest \<Rightarrow> ModelResponse pres"
  se_Stream :: "(nat \<Rightarrow> ModelRequest \<Rightarrow> string list \<times> ModelResponse pres) option"
  se_cancelled :: "nat \<Rightarrow> bool"
  se_wait_cancelled :: "nat \<Rightarrow> bool"
  se_debug :: "string \<Rightarrow> kernel \<Rightarrow> bool"
  se_redact :: "string \<Rightarrow> string"
  se_text :: "go_error \<Rightarrow> string"

text \<open>The kernel, the requests sent to the provider so far and the deltas handed to the reader.\<close>

record step_state =
  ss_kernel :: kernel
  ss_requests :: "ModelRequest list"
  ss_emitted :: "string list"

definition isTurnContextInterrupted :: "bool \<Rightarrow> provider_error \<Rightarrow> bool" where
  "isTurnContextInterrupted cancelled err \<longleftrightarrow> provider_Is err context_Canceled \<or> cancelled"

text \<open>The answer of a call and the deltas that were emitted before it.\<close>

definition completeModelWithProvider :: "step_env \<Rightarrow> bool \<Rightarrow> nat \<Rightarrow> ModelRequest \<Rightarrow> ModelResponse pres \<times> string list" where
  "completeModelWithProvider env emit n request =
     (case se_Stream env of
        Some stream \<Rightarrow>
          if emit then let (deltas, r) = stream n request in (r, filter (\<lambda>d. TrimSpace d \<noteq> []) deltas)
          else (se_Complete env n request, [])
      | None \<Rightarrow> (se_Complete env n request, []))"

definition repair_request :: "ModelRequest \<Rightarrow> ModelRequest" where
  "repair_request base = base\<lparr>mq_InputItems := mq_InputItems base @
     [\<lparr>mi_Kind = ''provider_repair_context'', mi_Text = VisibleFinalRepairPrompt\<rparr>]\<rparr>"

definition appendProviderAttempt ::
  "string \<Rightarrow> string \<Rightarrow> string \<Rightarrow> ProviderAttemptProjection \<Rightarrow> kernel \<Rightarrow> go_error option \<times> kernel" where
  "appendProviderAttempt sessionID turnID eventType attempt =
     append_turn_event (turn_event (if TrimSpace eventType = [] then ''model.provider_attempt'' else eventType)
       sessionID turnID (no_data\<lparr>ed_ProviderAttempt := Some attempt\<rparr>))"

definition captureSessionDebugProviderStep :: "step_env \<Rightarrow> string \<Rightarrow> kernel \<Rightarrow> kernel" where
  "captureSessionDebugProviderStep env sessionID k = (if se_debug env sessionID k then snd (clock k) else k)"

definition repairing_attempt :: "nat \<Rightarrow> nat \<Rightarrow> ProviderAttemptProjection" where
  "repairing_attempt roundIndex visibleRepairCount =
     \<lparr>pa_RoundIndex = roundIndex, pa_Attempt = visibleRepairCount, pa_MaxAttempts = MaxProviderVisibleFinalRepairs,
      pa_Status = ''repairing'', pa_ReasonCode = ''provider_visible_final_required'',
      pa_Message = ''provider returned no visible assistant content'', pa_Retryable = False,
      pa_RepairKind = ''visible_final''\<rparr>"

definition retrying_attempt :: "nat \<Rightarrow> nat \<Rightarrow> ProviderAttemptProjection \<Rightarrow> ProviderAttemptProjection" where
  "retrying_attempt roundIndex transientAttempt failure =
     \<lparr>pa_RoundIndex = roundIndex, pa_Attempt = transientAttempt, pa_MaxAttempts = MaxProviderTransientAttempts,
      pa_Status = ''retrying'', pa_ReasonCode = pa_ReasonCode failure, pa_Message = pa_Message failure,
      pa_Retryable = True, pa_RepairKind = []\<rparr>"

text \<open>How a pass of the loop ends: with a result, or with another pass of one of two kinds.\<close>

datatype pass = Return "ModelResponse pres" | Repair | Retry

text \<open>An append of the step: its error ends the pass, else the pass goes on as given.\<close>

definition attempt_then ::
  "step_env \<Rightarrow> string \<Rightarrow> string \<Rightarrow> string \<Rightarrow> ProviderAttemptProjection \<Rightarrow> pass \<Rightarrow> step_state \<Rightarrow> pass \<times> step_state" where
  "attempt_then env sessionID turnID eventType attempt p s =
     (case appendProviderAttempt sessionID turnID eventType attempt (ss_kernel s) of
        (Some appendErr, k) \<Rightarrow> (Return (Inl (Plain (se_text env appendErr) appendErr)), s\<lparr>ss_kernel := k\<rparr>)
      | (None, k) \<Rightarrow> (p, s\<lparr>ss_kernel := k\<rparr>))"

definition provider_call :: "step_env \<Rightarrow> bool \<Rightarrow> string \<Rightarrow> ModelRequest \<Rightarrow> step_state \<Rightarrow> (ModelResponse pres \<times> bool) \<times> step_state" where
  "provider_call env emit sessionID request s =
     (let (r, deltas) = completeModelWithProvider env emit (length (ss_requests s)) request;
          r = (case r of Inr resp \<Rightarrow> if modelResponseNeedsVisibleFinalRepair resp then Inl NewVisibleFinalRequiredError else r
               | Inl _ \<Rightarrow> r)
      in ((r, deltas \<noteq> []),
          s\<lparr>ss_kernel := captureSessionDebugProviderStep env sessionID (ss_kernel s),
            ss_requests := ss_requests s @ [request], ss_emitted := ss_emitted s @ deltas\<rparr>))"

definition provider_pass ::
  "step_env \<Rightarrow> bool \<Rightarrow> string \<Rightarrow> string \<Rightarrow> nat \<Rightarrow> ModelRequest \<Rightarrow> nat \<Rightarrow> nat \<Rightarrow> step_state \<Rightarrow> pass \<times> step_state" where
  "provider_pass env emit sessionID turnID roundIndex base transientAttempt visibleRepairCount s =
     (let n = length (ss_requests s);
          request = (if visibleRepairCount > 0 then repair_request base else base);
          ((r, streamedDelta), s) = provider_call env emit sessionID request s
      in case r of
           Inr modelResp \<Rightarrow> (Return (Inr modelResp), s)
         | Inl err \<Rightarrow>
             let failure = providerFailureFromError (se_redact env) err
             in if isTurnContextInterrupted (se_cancelled env n) err then (Return (Inl err), s)
                else if streamedDelta then
                  attempt_then env sessionID turnID ''model.provider_attempt''
                    (failure\<lparr>pa_RoundIndex := roundIndex, pa_Attempt := transientAttempt, pa_MaxAttempts := MaxProviderTransientAttempts\<rparr>)
                    (Return (Inl err)) s
                else if provider_Is err ErrVisibleFinalRequired \<and> visibleRepairCount < MaxProviderVisibleFinalRepairs then
                  attempt_then env sessionID turnID ''model.provider_repair'' (repairing_attempt roundIndex (visibleRepairCount + 1)) Repair s
                else if pa_Retryable failure \<and> transientAttempt < MaxProviderTransientAttempts then
                  attempt_then env sessionID turnID ''model.provider_attempt'' (retrying_attempt roundIndex transientAttempt failure)
                    (if 0 < RetryDelay err \<and> se_wait_cancelled env n
                     then Return (Inl (Plain (se_text env context_Canceled) context_Canceled)) else Retry) s
                else
                  attempt_then env sessionID turnID ''model.provider_attempt''
                    (if provider_Is err ErrVisibleFinalRequired
                     then failure\<lparr>pa_RoundIndex := roundIndex, pa_Attempt := visibleRepairCount + 1,
                       pa_MaxAttempts := MaxProviderVisibleFinalRepairs + 1\<rparr>
                     else failure\<lparr>pa_RoundIndex := roundIndex, pa_Attempt := transientAttempt,
                       pa_MaxAttempts := MaxProviderTransientAttempts\<rparr>)
                    (Return (Inl err)) s)"

lemma attempt_then_cases [consumes 1, case_names appended failed]:
  assumes "attempt_then env sid tid ty a p s = (q, s')"
  obtains now i where "q = p" and "ss_requests s' = ss_requests s" and "ss_emitted s' = ss_emitted s"
    and "kernel_ext (ss_kernel s) (ss_kernel s')
      [turn_event (if TrimSpace ty = [] then ''model.provider_attempt'' else ty) sid tid (no_data\<lparr>ed_ProviderAttempt := Some a\<rparr>) now i]"
  | err where "q = Return (Inl (Plain (se_text env err) err))" and "ss_requests s' = ss_requests s" and "ss_emitted s' = ss_emitted s"
    and "kernel_ext (ss_kernel s) (ss_kernel s') []" and "errors_Is err ErrLedgerUnavailable"
proof -
  let ?e = "turn_event (if TrimSpace ty = [] then ''model.provider_attempt'' else ty) sid tid (no_data\<lparr>ed_ProviderAttempt := Some a\<rparr>)"
  obtain r k' where run: "stamp_append ?e (\<lambda>_. ()) (ss_kernel s) = (r, k')" by fastforce
  then have att: "attempt_then env sid tid ty a p s =
      (case r of Inl e \<Rightarrow> (Return (Inl (Plain (se_text env e) e)), s\<lparr>ss_kernel := k'\<rparr>) | Inr _ \<Rightarrow> (p, s\<lparr>ss_kernel := k'\<rparr>))"
    by (cases r) (simp_all add: attempt_then_def appendProviderAttempt_def append_turn_event_def)
  from run show ?thesis
  proof (cases rule: stamp_append_cases)
    case (appended i)
    with att assms show ?thesis by (intro that(1)) auto
  next
    case (failed err)
    with att assms show ?thesis by (intro that(2)) auto
  qed
qed

lemma attempt_then_go:
  "attempt_then env sid tid ty a p s = (Repair, s') \<Longrightarrow> p = Repair"
  "attempt_then env sid tid ty a p s = (Retry, s') \<Longrightarrow> p = Retry"
  by (auto elim!: attempt_then_cases)

lemma provider_pass_go:
  "provider_pass env emit sid tid ri base t v s = (Repair, s') \<Longrightarrow> v < MaxProviderVisibleFinalRepairs"
  "provider_pass env emit sid tid ri base t v s = (Retry, s') \<Longrightarrow> t < MaxProviderTransientAttempts"
  by (auto simp: provider_pass_def Let_def split: prod.splits sum.splits if_splits dest!: attempt_then_go)

function provider_loop ::
  "step_env \<Rightarrow> bool \<Rightarrow> string \<Rightarrow> string \<Rightarrow> nat \<Rightarrow> ModelRequest \<Rightarrow> nat \<Rightarrow> nat \<Rightarrow> step_state \<Rightarrow> ModelResponse pres \<times> step_state" where
  "provider_loop env emit sessionID turnID roundIndex base transientAttempt visibleRepairCount s =
     (case provider_pass env emit sessionID turnID roundIndex base transientAttempt visibleRepairCount s of
        (Return r, s) \<Rightarrow> (r, s)
      | (Repair, s) \<Rightarrow> provider_loop env emit sessionID turnID roundIndex base transientAttempt (visibleRepairCount + 1) s
      | (Retry, s) \<Rightarrow> provider_loop env emit sessionID turnID roundIndex base (transientAttempt + 1) visibleRepairCount s)"
  by pat_completeness auto
termination
  by (relation "measure (\<lambda>(env, emit, sid, tid, ri, base, t, v, s).
      (MaxProviderTransientAttempts - t) + (MaxProviderVisibleFinalRepairs - v))")
    (auto dest!: sym [of "(Repair, _)"] sym [of "(Retry, _)"] dest: provider_pass_go)

definition completeProviderStep ::
  "step_env \<Rightarrow> bool \<Rightarrow> string \<Rightarrow> string \<Rightarrow> nat \<Rightarrow> ProviderContextProjection \<Rightarrow> step_state \<Rightarrow> ModelResponse pres \<times> step_state" where
  "completeProviderStep env emit sessionID turnID roundIndex providerContext s =
     provider_loop env emit sessionID turnID roundIndex (context_ModelRequest providerContext) 1 0 s"

declare provider_loop.simps [simp del]

section \<open>What a step does\<close>

definition attempt_event :: "string \<Rightarrow> string \<Rightarrow> nat \<Rightarrow> string \<Rightarrow> StoredEvent \<Rightarrow> bool" where
  "attempt_event sid tid ri status e \<longleftrightarrow> ev_SessionID e = sid \<and> ev_TurnID e = tid \<and>
     ev_Type e \<in> {''model.provider_attempt'', ''model.provider_repair''} \<and>
     (\<exists>a. ed_ProviderAttempt (ev_Data e) = Some a \<and> pa_RoundIndex a = ri \<and> pa_Status a = status)"

definition goes_on :: "string \<Rightarrow> string \<Rightarrow> nat \<Rightarrow> StoredEvent \<Rightarrow> bool" where
  "goes_on sid tid ri e \<longleftrightarrow> attempt_event sid tid ri ''retrying'' e \<or> attempt_event sid tid ri ''repairing'' e"

text \<open>
  The calls \<open>rs @ [req]\<close> that led from one state to another with the events \<open>es\<close>: only the last
  one handed anything to the reader.
\<close>

definition stepped :: "step_env \<Rightarrow> bool \<Rightarrow> ModelRequest \<Rightarrow> ModelRequest list \<Rightarrow> ModelRequest \<Rightarrow> StoredEvent list \<Rightarrow> step_state \<Rightarrow> step_state \<Rightarrow> bool" where
  "stepped env emit base rs req es s s' \<longleftrightarrow> ss_requests s' = ss_requests s @ rs @ [req] \<and>
     set (rs @ [req]) \<subseteq> {base, repair_request base} \<and> kernel_ext (ss_kernel s) (ss_kernel s') es \<and>
     ss_emitted s' = ss_emitted s @ snd (completeModelWithProvider env emit (length (ss_requests s) + length rs) req)"

definition step_end :: "step_env \<Rightarrow> string \<Rightarrow> string \<Rightarrow> nat \<Rightarrow> nat \<Rightarrow> ModelResponse pres \<Rightarrow> StoredEvent list \<Rightarrow> bool" where
  "step_end env sid tid ri n r es \<longleftrightarrow>
     (case r of
        Inr resp \<Rightarrow> es = [] \<and> \<not> modelResponseNeedsVisibleFinalRepair resp
      | Inl err \<Rightarrow>
          es = [] \<and> (provider_Is err context_Canceled \<or> se_cancelled env n \<or> provider_Is err ErrLedgerUnavailable) \<or>
          (\<exists>e. es = [e] \<and> (attempt_event sid tid ri ''failed'' e \<or> goes_on sid tid ri e \<and> provider_Is err context_Canceled)))"

lemma captureSessionDebug_ext: "kernel_ext k (captureSessionDebugProviderStep env sid k) []"
  by (auto simp: captureSessionDebugProviderStep_def intro: kernel_ext_clock)

lemma provider_call_eq:
  assumes "provider_call env emit sid req s = ((r, streamed), s')"
  shows "ss_requests s' = ss_requests s @ [req]" and "kernel_ext (ss_kernel s) (ss_kernel s') []"
    and "ss_emitted s' = ss_emitted s @ snd (completeModelWithProvider env emit (length (ss_requests s)) req)"
    and "streamed \<longleftrightarrow> snd (completeModelWithProvider env emit (length (ss_requests s)) req) \<noteq> []"
    and "r = Inr resp \<Longrightarrow> \<not> modelResponseNeedsVisibleFinalRepair resp"
  using assms
  by (auto simp: provider_call_def Let_def captureSessionDebug_ext split: prod.splits sum.splits if_splits)

lemma attempt_turn_event:
  "ty = ''model.provider_attempt'' \<or> ty = ''model.provider_repair'' \<Longrightarrow> pa_RoundIndex a = ri \<Longrightarrow> pa_Status a = st \<Longrightarrow>
     attempt_event sid tid ri st (turn_event (if TrimSpace ty = [] then ''model.provider_attempt'' else ty) sid tid (no_data\<lparr>ed_ProviderAttempt := Some a\<rparr>) now i)"
  by (auto simp: attempt_event_def turn_event_def)

lemma failure_status [simp]: "pa_Status (providerFailureFromError f err) = ''failed''"
  by (simp add: providerFailureFromError_def failed_attempt_def split: option.splits)

text \<open>One pass makes one call; unless it returns, it stores one event and nothing was handed out.\<close>

lemma provider_pass_spec:
  assumes "provider_pass env emit sid tid ri base t v s = (p, s')"
  shows "\<exists>req es. stepped env emit base [] req es s s' \<and> (v = 0 \<longrightarrow> req = base) \<and>
    (case p of Return r \<Rightarrow> step_end env sid tid ri (length (ss_requests s)) r es
     | _ \<Rightarrow> (\<exists>e. es = [e] \<and> goes_on sid tid ri e) \<and> ss_emitted s' = ss_emitted s)"
proof -
  let ?n = "length (ss_requests s)" and ?req = "if 0 < v then repair_request base else base"
  obtain r streamed s1 where call: "provider_call env emit sid ?req s = ((r, streamed), s1)" by (metis surj_pair)
  note c = provider_call_eq [OF call]
  have one: "stepped env emit base [] ?req es s s'" if "kernel_ext (ss_kernel s1) (ss_kernel s') es"
      "ss_requests s' = ss_requests s1" "ss_emitted s' = ss_emitted s1" for es
    using that c(1-3) kernel_ext_trans_Nil by (auto simp: stepped_def)
  have "\<exists>es. stepped env emit base [] ?req es s s' \<and> (case p of Return r \<Rightarrow> step_end env sid tid ri ?n r es
     | _ \<Rightarrow> (\<exists>e. es = [e] \<and> goes_on sid tid ri e) \<and> ss_emitted s' = ss_emitted s)"
  proof (cases r)
    case (Inr resp)
    then have "p = Return (Inr resp)" "s' = s1" using assms call by (auto simp: provider_pass_def Let_def)
    then show ?thesis using Inr c(5) one by (intro exI [of _ "[]"]) (auto simp: step_end_def)
  next
    case (Inl err)
    let ?f = "providerFailureFromError (se_redact env) err"
    have p: "provider_pass env emit sid tid ri base t v s = (p, s')" "provider_call env emit sid ?req s = ((Inl err, streamed), s1)"
      using assms call Inl by simp_all
    show ?thesis
    proof (cases "isTurnContextInterrupted (se_cancelled env ?n) err")
      case True
      then have "p = Return (Inl err)" "s' = s1" using p by (auto simp: provider_pass_def Let_def)
      then show ?thesis using True one by (intro exI [of _ "[]"]) (auto simp: step_end_def isTurnContextInterrupted_def)
    next
      case False
      obtain ty a q where att: "attempt_then env sid tid ty a q s1 = (p, s')" and ty: "ty = ''model.provider_attempt'' \<or> ty = ''model.provider_repair''"
        and ri: "pa_RoundIndex a = ri" and q: "q = Return (Inl err) \<and> pa_Status a = ''failed'' \<or>
          (pa_Status a = ''retrying'' \<or> pa_Status a = ''repairing'') \<and> \<not> streamed \<and>
          (q = Repair \<or> q = Retry \<or> q = Return (Inl (Plain (se_text env context_Canceled) context_Canceled)))"
        using p False
        by (simp add: provider_pass_def Let_def split: if_splits; blast?;
            fastforce simp: repairing_attempt_def retrying_attempt_def)
      from att show ?thesis
      proof (cases rule: attempt_then_cases)
        case (appended now i)
        let ?e = "turn_event (if TrimSpace ty = [] then ''model.provider_attempt'' else ty) sid tid (no_data\<lparr>ed_ProviderAttempt := Some a\<rparr>) now i"
        have e: "attempt_event sid tid ri (pa_Status a) ?e" by (rule attempt_turn_event [OF ty ri HOL.refl])
        have st: "stepped env emit base [] ?req [?e] s s'" using appended one by blast
        have "case p of Return r \<Rightarrow> step_end env sid tid ri ?n r [?e]
            | _ \<Rightarrow> (\<exists>e. [?e] = [e] \<and> goes_on sid tid ri e) \<and> ss_emitted s' = ss_emitted s"
          using q e appended(1,3) c(3,4) by (auto simp: step_end_def goes_on_def)
        with st show ?thesis by blast
      next
        case (failed err')
        then show ?thesis using one by (intro exI [of _ "[]"]) (auto simp: step_end_def)
      qed
    qed
  qed
  then show ?thesis by (elim exE, intro exI [of _ ?req]) auto
qed

text \<open>The whole loop: one event of progress per call before the last, and the end of the last.\<close>

definition loop_end :: "step_env \<Rightarrow> string \<Rightarrow> string \<Rightarrow> nat \<Rightarrow> nat \<Rightarrow> ModelResponse pres \<Rightarrow> nat \<Rightarrow> StoredEvent list \<Rightarrow> bool" where
  "loop_end env sid tid ri n r m es \<longleftrightarrow>
     (\<exists>es1 es2. es = es1 @ es2 \<and> length es1 = m \<and> list_all (goes_on sid tid ri) es1 \<and> step_end env sid tid ri n r es2)"

lemma stepped_trans:
  assumes "stepped env emit base [] req es s s1" and "ss_emitted s1 = ss_emitted s" and "stepped env emit base rs req' es' s1 s'"
  shows "stepped env emit base (req # rs) req' (es @ es') s s'"
  using assms kernel_ext_trans by (fastforce simp: stepped_def)

lemma provider_loop_spec:
  "provider_loop env emit sid tid ri base t v s = (r, s') \<Longrightarrow>
    \<exists>rs req es. stepped env emit base rs req es s s' \<and> (v = 0 \<longrightarrow> hd (rs @ [req]) = base) \<and>
      length rs \<le> (MaxProviderTransientAttempts - t) + (MaxProviderVisibleFinalRepairs - v) \<and>
      loop_end env sid tid ri (length (ss_requests s) + length rs) r (length rs) es"
proof (induction env emit sid tid ri base t v s rule: provider_loop.induct)
  case (1 env emit sid tid ri base t v s)
  obtain p s1 where p: "provider_pass env emit sid tid ri base t v s = (p, s1)" by fastforce
  from provider_pass_spec [OF this] obtain req es where
    st: "stepped env emit base [] req es s s1" "v = 0 \<longrightarrow> req = base" and
    pe: "case p of Return r \<Rightarrow> step_end env sid tid ri (length (ss_requests s)) r es
     | _ \<Rightarrow> (\<exists>e. es = [e] \<and> goes_on sid tid ri e) \<and> ss_emitted s1 = ss_emitted s" by blast
  have len: "length (ss_requests s1) = Suc (length (ss_requests s))" using st(1) by (simp add: stepped_def)
  have more: ?case if goes: "p \<noteq> Return x" "\<exists>e. es = [e] \<and> goes_on sid tid ri e" "ss_emitted s1 = ss_emitted s" and
      ih: "stepped env emit base rs req' es' s1 s'" "loop_end env sid tid ri (length (ss_requests s1) + length rs) r (length rs) es'"
        "Suc (length rs) \<le> (MaxProviderTransientAttempts - t) + (MaxProviderVisibleFinalRepairs - v)" for x rs req' es'
  proof -
    obtain e where e: "es = [e]" "goes_on sid tid ri e" using goes(2) by blast
    obtain es1 es2 where es': "es' = es1 @ es2" "length es1 = length rs" "list_all (goes_on sid tid ri) es1"
      "step_end env sid tid ri (length (ss_requests s1) + length rs) r es2" using ih(2) by (auto simp: loop_end_def)
    have "loop_end env sid tid ri (length (ss_requests s) + length (req # rs)) r (length (req # rs)) (es @ es')"
      unfolding loop_end_def using es' e len by (intro exI [of _ "e # es1"] exI [of _ es2]) simp
    with stepped_trans [OF st(1) goes(3) ih(1)] st(2) ih(3) show ?thesis
      by (intro exI [of _ "req # rs"] exI [of _ req'] exI [of _ "es @ es'"]) simp
  qed
  show ?case
  proof (cases p)
    case (Return x)
    then have "r = x" "s' = s1" using p 1(3) by (simp_all add: provider_loop.simps [of env emit sid tid ri base t v s])
    then have "stepped env emit base [] req es s s'" "loop_end env sid tid ri (length (ss_requests s) + length ([] :: ModelRequest list)) r (length ([] :: ModelRequest list)) es"
      using st(1) pe Return by (auto simp: loop_end_def)
    with st(2) show ?thesis by (intro exI [of _ "[]"] exI [of _ req] exI [of _ es]) simp
  next
    case Repair
    then have "provider_loop env emit sid tid ri base t (v + 1) s1 = (r, s')"
      using p 1(3) by (simp add: provider_loop.simps [of env emit sid tid ri base t v s])
    from "1.IH"(1) [OF p [symmetric] Repair this] obtain rs req' es' where
      "stepped env emit base rs req' es' s1 s'" "length rs \<le> (MaxProviderTransientAttempts - t) + (MaxProviderVisibleFinalRepairs - (v + 1))"
      "loop_end env sid tid ri (length (ss_requests s1) + length rs) r (length rs) es'" by blast
    with more [of undefined rs req' es'] pe Repair provider_pass_go(1) [OF p [unfolded Repair]] show ?thesis by simp
  next
    case Retry
    then have "provider_loop env emit sid tid ri base (t + 1) v s1 = (r, s')"
      using p 1(3) by (simp add: provider_loop.simps [of env emit sid tid ri base t v s])
    from "1.IH"(2) [OF p [symmetric] Retry this] obtain rs req' es' where
      "stepped env emit base rs req' es' s1 s'" "length rs \<le> (MaxProviderTransientAttempts - (t + 1)) + (MaxProviderVisibleFinalRepairs - v)"
      "loop_end env sid tid ri (length (ss_requests s1) + length rs) r (length rs) es'" by blast
    with more [of undefined rs req' es'] pe Retry provider_pass_go(2) [OF p [unfolded Retry]] show ?thesis by simp
  qed
qed

section \<open>Properties\<close>

text \<open>
  A step of the model ends. Whatever the provider answers, and whenever the turn is cancelled,
  the step returns after at least one and at most five calls: the first with the request of the
  turn, the others with it or with it and the request for a visible answer. It stores at most one
  event per call.
\<close>

theorem provider_step_bounded:
  assumes "completeProviderStep env emit sid tid ri pctx s = (r, s')"
  shows "\<exists>calls es. ss_requests s' = ss_requests s @ calls \<and> 1 \<le> length calls \<and> length calls \<le> 5 \<and>
    hd calls = context_ModelRequest pctx \<and>
    set calls \<subseteq> {context_ModelRequest pctx, repair_request (context_ModelRequest pctx)} \<and>
    kernel_ext (ss_kernel s) (ss_kernel s') es \<and> length es \<le> length calls"
proof -
  obtain rs req es where st: "stepped env emit (context_ModelRequest pctx) rs req es s s'" "hd (rs @ [req]) = context_ModelRequest pctx"
    "length rs \<le> 4" and le: "loop_end env sid tid ri (length (ss_requests s) + length rs) r (length rs) es"
    using provider_loop_spec [OF assms [unfolded completeProviderStep_def]] by auto
  have "length es \<le> Suc (length rs)" using le by (cases r) (auto simp: loop_end_def step_end_def)
  with st show ?thesis by (intro exI [of _ "rs @ [req]"] exI [of _ es]) (auto simp: stepped_def)
qed

text \<open>
  What a step of the model returns and leaves behind. Every call but the last is followed by one
  stored attempt that is retried or repaired, and hands nothing to the reader: what a reader was
  shown is the text of the last call only. A response that is returned has tool calls or a visible
  text, and stores nothing more. An error is returned because the turn was cancelled or the ledger
  refused an event, or else the attempt is stored as failed.
\<close>

theorem provider_step_outcome:
  assumes "completeProviderStep env emit sid tid ri pctx s = (r, s')"
  shows "\<exists>calls req es1 es2. ss_requests s' = ss_requests s @ calls @ [req] \<and>
    ss_emitted s' = ss_emitted s @ snd (completeModelWithProvider env emit (length (ss_requests s @ calls)) req) \<and>
    k_rows (ss_kernel s') = k_rows (ss_kernel s) @ es1 @ es2 \<and> length es1 = length calls \<and>
    list_all (goes_on sid tid ri) es1 \<and>
    (case r of
       Inr resp \<Rightarrow> es2 = [] \<and> (ms_ToolCalls resp \<noteq> [] \<or> TrimSpace (ms_Text resp) \<noteq> [])
     | Inl err \<Rightarrow> provider_Is err context_Canceled \<or> se_cancelled env (length (ss_requests s @ calls)) \<or>
         provider_Is err ErrLedgerUnavailable \<or> (\<exists>e. es2 = [e] \<and> attempt_event sid tid ri ''failed'' e))"
proof -
  obtain rs req es where st: "stepped env emit (context_ModelRequest pctx) rs req es s s'"
    and le: "loop_end env sid tid ri (length (ss_requests s) + length rs) r (length rs) es"
    using provider_loop_spec [OF assms [unfolded completeProviderStep_def]] by blast
  obtain es1 es2 where es: "es = es1 @ es2" "length es1 = length rs" "list_all (goes_on sid tid ri) es1"
    "step_end env sid tid ri (length (ss_requests s) + length rs) r es2" using le by (auto simp: loop_end_def)
  have "case r of
       Inr resp \<Rightarrow> es2 = [] \<and> (ms_ToolCalls resp \<noteq> [] \<or> TrimSpace (ms_Text resp) \<noteq> [])
     | Inl err \<Rightarrow> provider_Is err context_Canceled \<or> se_cancelled env (length (ss_requests s @ rs)) \<or>
         provider_Is err ErrLedgerUnavailable \<or> (\<exists>e. es2 = [e] \<and> attempt_event sid tid ri ''failed'' e)"
    using es(4) by (auto simp: step_end_def modelResponseNeedsVisibleFinalRepair_def NeedsVisibleFinalRepair_def split: sum.splits)
  with st es(1-3) show ?thesis
    by (intro exI [of _ rs] exI [of _ req] exI [of _ es1] exI [of _ es2]) (auto simp: stepped_def kernel_ext_def)
qed

text \<open>A provider that is overloaded, then says nothing, then answers while the reader watches.\<close>

definition sample_answer :: ModelResponse where
  "sample_answer = \<lparr>ms_Reasoning = None, ms_Text = ''hello'', ms_Model = ''m'', ms_ToolCalls = [], ms_Usage = None\<rparr>"

definition sample_step_env :: step_env where
  "sample_step_env = \<lparr>se_Complete = (\<lambda>_ _. Inr sample_answer),
     se_Stream = Some (\<lambda>n _. if n = 0 then ([], Inl (NewStatusError 503 [] 0))
       else if n = 1 then ([], Inr (sample_answer\<lparr>ms_Text := []\<rparr>)) else ([''hel'', '' '', ''lo''], Inr sample_answer)),
     se_cancelled = (\<lambda>_. False), se_wait_cancelled = (\<lambda>_. False), se_debug = (\<lambda>_ _. False), se_redact = id, se_text = (\<lambda>_. [])\<rparr>"

definition sample_context :: ProviderContextProjection where
  "sample_context = \<lparr>pc_SessionID = ''s1'', pc_TurnID = ''t1'', pc_InputItems = [\<lparr>mi_Kind = ''user_text'', mi_Text = ''hi''\<rparr>],
     pc_Conversation = [], pc_ToolManifest = [], pc_ToolRounds = [], pc_PrefixFingerprint = [],
     pc_PrefixComponents = \<lparr>pf_Fingerprint = [], pf_SystemInstruction = [], pf_SkillIndex = [], pf_ToolManifest = [], pf_AdapterBinding = []\<rparr>,
     pc_KernelObservationEventIDs = [], pc_HistoryTurnIDs = [], pc_CompactedThroughTurnID = []\<rparr>"

definition sample_step :: "ModelResponse pres \<times> step_state" where
  "sample_step = completeProviderStep sample_step_env True ''s1'' ''t1'' 0 sample_context
     \<lparr>ss_kernel = sample_kernel, ss_requests = [], ss_emitted = []\<rparr>"

theorem provider_step_bounded_witness:
  "length (ss_requests (snd sample_step)) = 3 \<and>
   (\<exists>es. kernel_ext sample_kernel (ss_kernel (snd sample_step)) es \<and> length es \<le> 3)"
proof -
  have "length (ss_requests (snd sample_step)) = 3" by code_simp
  then show ?thesis
    using provider_step_bounded [of sample_step_env True "''s1''" "''t1''" 0 sample_context
        "\<lparr>ss_kernel = sample_kernel, ss_requests = [], ss_emitted = []\<rparr>" "fst sample_step" "snd sample_step"]
    by (fastforce simp: sample_step_def)
qed

theorem provider_step_outcome_witness:
  "fst sample_step = Inr sample_answer \<and> ss_emitted (snd sample_step) = [''hel'', ''lo''] \<and>
   length (k_rows (ss_kernel (snd sample_step))) = 2 \<and>
   list_all (goes_on ''s1'' ''t1'' 0) (k_rows (ss_kernel (snd sample_step)))"
proof -
  let ?s = "\<lparr>ss_kernel = sample_kernel, ss_requests = [], ss_emitted = []\<rparr>"
  have r: "fst sample_step = Inr sample_answer" "ss_emitted (snd sample_step) = [''hel'', ''lo'']"
    "length (ss_requests (snd sample_step)) = 3" by code_simp+
  have "completeProviderStep sample_step_env True ''s1'' ''t1'' 0 sample_context ?s = (Inr sample_answer, snd sample_step)"
    using r(1) by (simp add: sample_step_def prod_eq_iff)
  from provider_step_outcome [OF this] obtain calls req es where
    "ss_requests (snd sample_step) = calls @ [req]" "k_rows (ss_kernel (snd sample_step)) = es"
    "length es = length calls" "list_all (goes_on ''s1'' ''t1'' 0) es" by auto
  with r show ?thesis by auto
qed

end
