(* ===== verification/Tool_Execution.thy ===== *)
theory Tool_Execution
  imports Tool_Rounds Loop_Guard Provider_Step
begin

text \<open>
  The execution of the tool calls of a round (\<^verbatim>\<open>tool_execution.go\<close>): batch after batch, one call
  after the other or all calls of a batch at once, each result stored as a \<^verbatim>\<open>tool.result\<close> of its
  call. The theorem shows that the results are stored in the order of the calls, whatever order
  concurrent executions finish in.
\<close>

section \<open>The model\<close>

text \<open>
  What the execution relies on: the tools behind the gateway, which may append events of their own;
  the order in which the executions of a concurrent batch take effect; the start of a job; whether
  the context of the turn is cancelled after a number of executions; the table of active turns; the
  library's JSON, the status field of a result, and the redacted text of an error.
\<close>

record tool_env =
  te_Execute :: "nat \<Rightarrow> preparedModelToolCall \<Rightarrow> kernel \<Rightarrow> ModelToolResult res \<times> kernel"
  te_schedule :: "nat \<Rightarrow> nat list \<Rightarrow> nat list"
  te_startJob :: "nat \<Rightarrow> JobProjection \<Rightarrow> go_error option"
  te_cancelled :: "nat \<Rightarrow> bool"
  te_active :: active_turns
  te_codec :: json_codec
  te_status :: "string \<Rightarrow> string option"
  te_text :: "go_error \<Rightarrow> string"

text \<open>The kernel, the guard and the number of executions so far.\<close>

record tool_state =
  xs_kernel :: kernel
  xs_guard :: toolLoopGuard
  xs_executed :: nat

text \<open>\<open>Inr (Some response)\<close> is a completed turn, \<open>Inr None\<close> goes on with the loop.\<close>

type_synonym tool_outcome = "TurnResponse option res"

definition interrupted_outcome :: "tool_env \<Rightarrow> string \<Rightarrow> string \<Rightarrow> tool_state \<Rightarrow> tool_outcome \<times> tool_state" where
  "interrupted_outcome env sessionID turnID s =
     (let ((resp, completeErr), k) = completeInterruptedTurn sessionID turnID (te_active env) (xs_kernel s)
      in (Inl completeErr, s\<lparr>xs_kernel := k\<rparr>))"

definition handleToolExecutionError :: "tool_env \<Rightarrow> string \<Rightarrow> string \<Rightarrow> go_error \<Rightarrow> tool_state \<Rightarrow> tool_outcome \<times> tool_state" where
  "handleToolExecutionError env sessionID turnID err s =
     (if errors_Is err context_Canceled \<or> te_cancelled env (xs_executed s) then interrupted_outcome env sessionID turnID s
      else
        let code = (if errors_Is err ErrToolInfrastructureFailed then ''tool_infrastructure_failed'' else ''tool_call_rejected'')
        in case appendTurnFailure sessionID turnID \<lparr>tr_Code = code, tr_Message = te_text env err\<rparr> (xs_kernel s) of
             (Some appendErr, k) \<Rightarrow> (Inl appendErr, s\<lparr>xs_kernel := k\<rparr>)
           | (None, k) \<Rightarrow> (Inl err, s\<lparr>xs_kernel := k\<rparr>))"

text \<open>What a commit does once the result is stored.\<close>

definition committed_outcome :: "tool_env \<Rightarrow> string \<Rightarrow> string \<Rightarrow> ModelToolResult \<Rightarrow> tool_state \<Rightarrow> tool_outcome \<times> tool_state" where
  "committed_outcome env sessionID turnID result s =
     (case (case mtr_PendingJobStart result of Some job \<Rightarrow> te_startJob env (xs_executed s) job | None \<Rightarrow> None) of
        Some err \<Rightarrow> (Inl err, s)
      | None \<Rightarrow>
          if mtr_PendingAgentInvocationStart result \<noteq> None then
            (case appendAgentDelegationPause sessionID turnID (xs_kernel s) of
               (Inl err, k) \<Rightarrow> (Inl err, s\<lparr>xs_kernel := k\<rparr>)
             | (Inr pause, k) \<Rightarrow>
                 (case TurnEvents turnID k of
                    Inl err \<Rightarrow> (Inl err, s\<lparr>xs_kernel := k\<rparr>)
                  | Inr events \<Rightarrow>
                      (Inr (Some (no_response\<lparr>rs_SessionID := sessionID, rs_TurnID := turnID, rs_Events := events, rs_Pause := Some pause\<rparr>)),
                       s\<lparr>xs_kernel := k\<rparr>)))
          else if te_cancelled env (xs_executed s) then interrupted_outcome env sessionID turnID s
          else (Inr None, s))"

definition commitToolExecutionResult ::
  "tool_env \<Rightarrow> string \<Rightarrow> string \<Rightarrow> ModelToolResult \<Rightarrow> string go_map \<Rightarrow> tool_state \<Rightarrow> tool_outcome \<times> tool_state" where
  "commitToolExecutionResult env sessionID turnID result toolCallEventIDs s =
     (let forEventID = (case go_lookup toolCallEventIDs (mtr_ToolCallEventID result) of Some i \<Rightarrow> i | None \<Rightarrow> [])
      in if forEventID = [] then (Inl (Errorf ''missing tool.call event for tool_call_event_id %q'' [mtr_ToolCallEventID result]), s)
         else case appendToolResultEvent (te_status env) sessionID turnID result forEventID (xs_kernel s) of
             (Some err, k) \<Rightarrow> (Inl err, s\<lparr>xs_kernel := k\<rparr>)
           | (None, k) \<Rightarrow> committed_outcome env sessionID turnID result (s\<lparr>xs_kernel := k\<rparr>))"

definition gateway_Execute :: "tool_env \<Rightarrow> preparedModelToolCall \<Rightarrow> tool_state \<Rightarrow> ModelToolResult res \<times> tool_state" where
  "gateway_Execute env call s =
     (let (r, k) = te_Execute env (xs_executed s) call (xs_kernel s)
      in (r, s\<lparr>xs_kernel := k, xs_executed := xs_executed s + 1\<rparr>))"

definition observeToolLoopGuardResult ::
  "tool_env \<Rightarrow> preparedModelToolCall \<Rightarrow> ModelToolResult \<Rightarrow> tool_state \<Rightarrow> ModelToolResult res \<times> tool_state" where
  "observeToolLoopGuardResult env call result s =
     (let (r, g) = afterExecute (te_codec env) call result (xs_guard s) in (r, s\<lparr>xs_guard := g\<rparr>))"

text \<open>A result is observed by the guard, then committed.\<close>

definition observe_commit ::
  "tool_env \<Rightarrow> string \<Rightarrow> string \<Rightarrow> string go_map \<Rightarrow> preparedModelToolCall \<Rightarrow> ModelToolResult \<Rightarrow> tool_state \<Rightarrow> tool_outcome \<times> tool_state" where
  "observe_commit env sessionID turnID toolCallEventIDs call result s =
     (case observeToolLoopGuardResult env call result s of
        (Inl err, s) \<Rightarrow> (Inl err, s)
      | (Inr result, s) \<Rightarrow> commitToolExecutionResult env sessionID turnID result toolCallEventIDs s)"

text \<open>One call of a serial batch: refused by the guard, or executed, observed and committed.\<close>

definition execute_serially ::
  "tool_env \<Rightarrow> string \<Rightarrow> string \<Rightarrow> string go_map \<Rightarrow> preparedModelToolCall \<Rightarrow> tool_state \<Rightarrow> tool_outcome \<times> tool_state" where
  "execute_serially env sessionID turnID toolCallEventIDs call s =
     (case beforeExecute (te_codec env) (xs_guard s) call of
        Inl err \<Rightarrow> (Inl err, s)
      | Inr (Some result) \<Rightarrow> commitToolExecutionResult env sessionID turnID result toolCallEventIDs s
      | Inr None \<Rightarrow>
          (case gateway_Execute env call s of
             (Inl err, s) \<Rightarrow> handleToolExecutionError env sessionID turnID err s
           | (Inr result, s) \<Rightarrow> observe_commit env sessionID turnID toolCallEventIDs call result s))"

text \<open>A list of steps that ends at the first error or completed turn.\<close>

fun until_completed :: "('x \<Rightarrow> tool_state \<Rightarrow> tool_outcome \<times> tool_state) \<Rightarrow> 'x list \<Rightarrow> tool_state \<Rightarrow> tool_outcome \<times> tool_state" where
  "until_completed f [] s = (Inr None, s)"
| "until_completed f (x # xs) s =
     (case f x s of
        (Inr None, s) \<Rightarrow> until_completed f xs s
      | (r, s) \<Rightarrow> (r, s))"

definition executeToolBatchSeriallyGuarded ::
  "tool_env \<Rightarrow> string \<Rightarrow> string \<Rightarrow> preparedModelToolCall list \<Rightarrow> string go_map \<Rightarrow> ExecutionBatch \<Rightarrow> tool_state \<Rightarrow> tool_outcome \<times> tool_state" where
  "executeToolBatchSeriallyGuarded env sessionID turnID preparedCalls toolCallEventIDs batch =
     until_completed (\<lambda>callIndex. execute_serially env sessionID turnID toolCallEventIDs (preparedCalls ! callIndex)) (eb_CallIndexes batch)"

definition canExecuteToolBatchConcurrently :: "ExecutionBatch \<Rightarrow> preparedModelToolCall list \<Rightarrow> bool" where
  "canExecuteToolBatchConcurrently batch preparedCalls \<longleftrightarrow>
     eb_Parallel batch \<and> 1 < length (eb_CallIndexes batch) \<and> eb_Reason batch = ''pure_read'' \<and>
     list_all (\<lambda>callIndex. callIndex < length preparedCalls \<and> ParallelClass (pm_accessPlan (preparedCalls ! callIndex)) = ''pure_read'')
       (eb_CallIndexes batch)"

text \<open>
  The executions of a concurrent batch, in the order they take effect: the results by call index,
  and the errors in the order they were sent.
\<close>

fun execute_scheduled ::
  "tool_env \<Rightarrow> preparedModelToolCall list \<Rightarrow> nat list \<Rightarrow> tool_state \<Rightarrow> ((nat \<times> ModelToolResult) list \<times> go_error list) \<times> tool_state" where
  "execute_scheduled env preparedCalls [] s = (([], []), s)"
| "execute_scheduled env preparedCalls (callIndex # order) s =
     (let (r, s) = gateway_Execute env (preparedCalls ! callIndex) s;
          ((results, errs), s) = execute_scheduled env preparedCalls order s
      in case r of Inl err \<Rightarrow> ((results, err # errs), s) | Inr result \<Rightarrow> (((callIndex, result) # results, errs), s))"

definition executeToolBatchConcurrently ::
  "tool_env \<Rightarrow> preparedModelToolCall list \<Rightarrow> ExecutionBatch \<Rightarrow> tool_state \<Rightarrow> (nat \<times> ModelToolResult) list res \<times> tool_state" where
  "executeToolBatchConcurrently env preparedCalls batch s =
     (let ((results, errs), s) = execute_scheduled env preparedCalls (te_schedule env (xs_executed s) (eb_CallIndexes batch)) s
      in case errs of
           err # _ \<Rightarrow> (Inl err, s)
         | [] \<Rightarrow> (Inr (map (\<lambda>callIndex. (callIndex, the (map_of results callIndex))) (eb_CallIndexes batch)), s))"

fun index_results :: "nat list \<Rightarrow> (nat \<times> ModelToolResult) list \<Rightarrow> (nat \<times> ModelToolResult) list \<Rightarrow> (nat \<times> ModelToolResult) list res" where
  "index_results expected indexed [] = Inr indexed"
| "index_results expected indexed ((callIndex, result) # results) =
     (if callIndex \<notin> set expected
      then Inl (Errorf ''tool batch runner returned result for unexpected call index %d'' [show_nat callIndex])
      else if map_of indexed callIndex \<noteq> None
      then Inl (Errorf ''tool batch runner returned duplicate result for call index %d'' [show_nat callIndex])
      else index_results expected ((callIndex, result) # indexed) results)"

definition indexToolExecutionResults :: "ExecutionBatch \<Rightarrow> (nat \<times> ModelToolResult) list \<Rightarrow> (nat \<times> ModelToolResult) list res" where
  "indexToolExecutionResults batch results =
     bind_res (index_results (eb_CallIndexes batch) [] results) (\<lambda>indexed.
       case find (\<lambda>callIndex. map_of indexed callIndex = None) (eb_CallIndexes batch) of
         Some callIndex \<Rightarrow> Inl (Errorf ''tool batch runner returned no result for call index %d'' [show_nat callIndex])
       | None \<Rightarrow> Inr indexed)"

definition execute_batch ::
  "tool_env \<Rightarrow> string \<Rightarrow> string \<Rightarrow> preparedModelToolCall list \<Rightarrow> string go_map \<Rightarrow> ExecutionBatch \<Rightarrow> tool_state \<Rightarrow> tool_outcome \<times> tool_state" where
  "execute_batch env sessionID turnID preparedCalls toolCallEventIDs batch s =
     (if \<not> canExecuteToolBatchConcurrently batch preparedCalls
      then executeToolBatchSeriallyGuarded env sessionID turnID preparedCalls toolCallEventIDs batch s
      else
        (case executeToolBatchConcurrently env preparedCalls batch s of
           (Inl err, s) \<Rightarrow> handleToolExecutionError env sessionID turnID err s
         | (Inr results, s) \<Rightarrow>
             (case indexToolExecutionResults batch results of
                Inl err \<Rightarrow> handleToolExecutionError env sessionID turnID (Wrapped ErrToolInfrastructureFailed err) s
              | Inr indexed \<Rightarrow>
                  until_completed (\<lambda>callIndex. observe_commit env sessionID turnID toolCallEventIDs (preparedCalls ! callIndex)
                    (the (map_of indexed callIndex))) (eb_CallIndexes batch) s)))"

definition planToolExecutionBatches :: "preparedModelToolCall list \<Rightarrow> ExecutionBatch list" where
  "planToolExecutionBatches calls = PlanExecutionBatches (map (\<lambda>call. \<lparr>pc_Name = pm_name call, pc_AccessPlan = pm_accessPlan call\<rparr>) calls)"

definition executeToolBatchesGuarded ::
  "tool_env \<Rightarrow> string \<Rightarrow> string \<Rightarrow> preparedModelToolCall list \<Rightarrow> string go_map \<Rightarrow> tool_state \<Rightarrow> tool_outcome \<times> tool_state" where
  "executeToolBatchesGuarded env sessionID turnID preparedCalls toolCallEventIDs =
     until_completed (execute_batch env sessionID turnID preparedCalls toolCallEventIDs) (planToolExecutionBatches preparedCalls)"

section \<open>Results in order\<close>

text \<open>The events that answer a call, by the event of the call, and the events that end a turn.\<close>

definition answered :: "StoredEvent list \<Rightarrow> string list" where
  "answered es = map (\<lambda>e. case ed_ToolResult (ev_Data e) of Some r \<Rightarrow> tr_ForEventID r | None \<Rightarrow> [])
     (filter (\<lambda>e. ev_Type e = ''tool.result'') es)"

definition ends_turn :: "StoredEvent \<Rightarrow> bool" where
  "ends_turn e \<longleftrightarrow> ev_Type e \<in> {''model.final'', ''turn.paused'', ''turn.failed'', ''assistant.interrupted''}"

abbreviation ended :: "StoredEvent list \<Rightarrow> StoredEvent list" where "ended \<equiv> filter ends_turn"

lemma answered_append [simp]: "answered (es @ fs) = answered es @ answered fs" and answered_Nil [simp]: "answered [] = []"
  by (simp_all add: answered_def)

lemma answered_other [simp]: "ev_Type e \<noteq> ''tool.result'' \<Longrightarrow> answered [e] = []"
  by (simp add: answered_def)

text \<open>
  The laws the execution relies on: the schedule runs every call of a batch once; a tool stores
  no answer and no end of a turn itself, and returns its result under the event of its call.
\<close>

definition tools_ok :: "tool_env \<Rightarrow> bool" where
  "tools_ok env \<longleftrightarrow> (\<forall>n is. mset (te_schedule env n is) = mset is) \<and>
     (\<forall>n call k r k'. te_Execute env n call k = (r, k') \<longrightarrow>
        (\<exists>es. kernel_ext k k' es \<and> (\<forall>e \<in> set es. ev_Type e \<noteq> ''tool.result'' \<and> \<not> ends_turn e)) \<and>
        (\<forall>result. r = Inr result \<longrightarrow> mtr_ToolCallEventID result = pm_eventID call))"

text \<open>
  A step that answers exactly the calls \<open>js\<close> and ends the turn with the events \<open>ts\<close>, and one that
  answers them in order, all of them if the loop goes on, and ends the turn as its outcome says.
\<close>

definition grown :: "string list \<Rightarrow> StoredEvent list \<Rightarrow> kernel \<Rightarrow> kernel \<Rightarrow> bool" where
  "grown js ts k k' \<longleftrightarrow> (\<exists>es. kernel_ext k k' es \<and> answered es = js \<and> ended es = ts)"

abbreviation ran :: "string list \<Rightarrow> StoredEvent list \<Rightarrow> tool_state \<Rightarrow> tool_state \<Rightarrow> bool" where
  "ran js ts s s' \<equiv> grown js ts (xs_kernel s) (xs_kernel s')"

definition outcome_ok :: "tool_outcome \<Rightarrow> StoredEvent list \<Rightarrow> bool" where
  "outcome_ok r ts \<longleftrightarrow>
     (case r of
        Inr None \<Rightarrow> ts = []
      | Inr (Some resp) \<Rightarrow> (\<exists>e. ts = [e] \<and> ev_Type e = ''turn.paused'' \<and> rs_Pause resp \<noteq> None \<and> ed_TurnPause (ev_Data e) = rs_Pause resp)
      | Inl _ \<Rightarrow> length ts \<le> 1)"

definition answers :: "string list \<Rightarrow> tool_outcome \<Rightarrow> tool_state \<Rightarrow> tool_state \<Rightarrow> bool" where
  "answers js r s s' \<longleftrightarrow> (\<exists>m ts. ran (take m js) ts s s' \<and> outcome_ok r ts \<and> (r = Inr None \<longrightarrow> take m js = js))"

lemma grown_refl [simp, intro]: "grown [] [] k k"
  unfolding grown_def by (intro exI [of _ "[]"]) simp

lemma grown_trans: "grown is ts k k1 \<Longrightarrow> grown js us k1 k' \<Longrightarrow> grown (is @ js) (ts @ us) k k'"
  unfolding grown_def by (metis answered_append filter_append kernel_ext_trans)

lemma grown_quiet: "kernel_ext k k' es \<Longrightarrow> \<forall>e \<in> set es. ev_Type e \<noteq> ''tool.result'' \<and> \<not> ends_turn e \<Longrightarrow> grown [] [] k k'"
  unfolding grown_def answered_def by (intro exI [of _ es]) (simp add: filter_empty_conv)

lemma outcome_ok_simps [simp]:
  "outcome_ok (Inr None) ts \<longleftrightarrow> ts = []" "outcome_ok (Inl err) ts \<longleftrightarrow> length ts \<le> 1"
  by (simp_all add: outcome_ok_def)

lemma answersI: "ran js ts s s' \<Longrightarrow> outcome_ok r ts \<Longrightarrow> answers js r s s'"
  unfolding answers_def by (intro exI [of _ "length js"] exI [of _ ts]) simp

lemma answers_stop: "ran [] ts s s' \<Longrightarrow> outcome_ok r ts \<Longrightarrow> r \<noteq> Inr None \<Longrightarrow> answers js r s s'"
  unfolding answers_def by (intro exI [of _ 0] exI [of _ ts]) simp

lemma answers_trans:
  assumes "ran is [] s s1" and "answers js r s1 s'"
  shows "answers (is @ js) r s s'"
proof -
  obtain m ts where "ran (take m js) ts s1 s'" "outcome_ok r ts" "r = Inr None \<longrightarrow> take m js = js" using assms(2) by (auto simp: answers_def)
  then show ?thesis using grown_trans [OF assms(1)] unfolding answers_def
    by (intro exI [of _ "length is + m"] exI [of _ ts]) auto
qed

lemmas answers_quiet = answers_trans [of "[]", simplified]

lemma answers_end: "ran js [] s s1 \<Longrightarrow> ran [] ts s1 s' \<Longrightarrow> outcome_ok r ts \<Longrightarrow> answers js r s s'"
  using grown_trans [of js "[]" "xs_kernel s" "xs_kernel s1" "[]" ts "xs_kernel s'"] by (intro answersI [of js ts]) simp_all

lemma until_completed_answers:
  assumes "\<And>x s r s'. x \<in> set xs \<Longrightarrow> f x s = (r, s') \<Longrightarrow> answers (ids x) r s s'" and "until_completed f xs s = (r, s')"
  shows "answers (concat (map ids xs)) r s s'"
  using assms
proof (induction xs arbitrary: s)
  case Nil
  then show ?case by (auto intro!: answersI [of "[]" "[]"])
next
  case (Cons x xs)
  obtain r1 s1 where 1: "f x s = (r1, s1)" by fastforce
  have a: "answers (ids x) r1 s s1" by (rule Cons.prems(1) [OF _ 1]) simp
  show ?case
  proof (cases "r1 = Inr None")
    case True
    then have "until_completed f xs s1 = (r, s')" using Cons.prems(2) 1 by simp
    then have "answers (concat (map ids xs)) r s1 s'" using Cons.IH Cons.prems(1) by simp
    moreover have "ran (ids x) [] s s1" using a True by (auto simp: answers_def)
    ultimately show ?thesis using answers_trans by simp
  next
    case False
    then have "r = r1" "s' = s1" using Cons.prems(2) 1 by (auto split: sum.splits option.splits)
    moreover obtain m ts where "ran (take m (ids x)) ts s s1" "outcome_ok r1 ts" using a by (auto simp: answers_def)
    moreover have "take m (ids x) = take (min m (length (ids x))) (concat (map ids (x # xs)))" by (simp add: min_def)
    ultimately show ?thesis using False unfolding answers_def by metis
  qed
qed

section \<open>The steps\<close>

lemma append_turn_event_grown:
  assumes "append_turn_event event k = (r, k')" and "\<And>now i. ev_Type (event now i) \<noteq> ''tool.result''"
  shows "\<exists>ts. grown [] ts k k' \<and> length ts \<le> 1 \<and> (\<forall>e \<in> set ts. ends_turn e \<and> r = None \<and> (\<exists>now i. e = event now i))"
proof -
  obtain x k1 where run: "stamp_append event (\<lambda>_. ()) k = (x, k1)" by fastforce
  with assms(1) have k1: "k1 = k'" "r = (case x of Inl err \<Rightarrow> Some err | Inr _ \<Rightarrow> None)" by (auto simp: append_turn_event_def split: sum.splits)
  from run show ?thesis
  proof (cases rule: stamp_append_cases)
    case (appended i)
    then show ?thesis using k1 assms(2) unfolding grown_def
      by (intro exI [of _ "ended [event (fst (clock k)) i]"]) auto
  next
    case (failed err)
    then show ?thesis using k1 unfolding grown_def by (intro exI [of _ "[]"]) auto
  qed
qed

lemma appendTurnFailure_grown: "appendTurnFailure sid tid failure k = (r, k') \<Longrightarrow> \<exists>ts. grown [] ts k k' \<and> length ts \<le> 1"
  using append_turn_event_grown [of "turn_event ''turn.failed'' sid tid (no_data\<lparr>ed_TurnError := Some failure\<rparr>)" k r k']
  by (auto simp: appendTurnFailure_def turn_event_def)

lemma completeInterruptedTurn_grown:
  assumes "completeInterruptedTurn sid tid a k = (x, k')"
  shows "\<exists>ts. grown [] ts k k' \<and> length ts \<le> 1"
proof -
  let ?e = "\<lambda>now. interruption_event (interruption (TrimSpace sid) (TrimSpace tid) (activeTurnInterruptReason sid tid a) now) now"
  obtain r k1 where run: "append_turn_event ?e k = (r, k1)" by fastforce
  then have "appendTurnInterruption sid tid a k = (r, k1)"
    by (simp add: appendTurnInterruption_def append_turn_event_def)
  then have "k1 = k'" using assms by (auto simp: completeInterruptedTurn_def split: option.splits sum.splits)
  with append_turn_event_grown [OF run] show ?thesis by (auto simp: interruption_event_def)
qed

lemma interrupted_outcome_ran:
  assumes "interrupted_outcome env sid tid s = (r, s')"
  shows "\<exists>ts. ran [] ts s s' \<and> outcome_ok r ts" and "isl r"
  using assms completeInterruptedTurn_grown [of sid tid "te_active env" "xs_kernel s"]
  by (auto simp: interrupted_outcome_def Let_def split: prod.splits)

lemma handleToolExecutionError_answers:
  assumes "handleToolExecutionError env sid tid err s = (r, s')"
  shows "answers js r s s'"
proof (cases "errors_Is err context_Canceled \<or> te_cancelled env (xs_executed s)")
  case True
  then have "interrupted_outcome env sid tid s = (r, s')" using assms by (simp add: handleToolExecutionError_def)
  from interrupted_outcome_ran [OF this] show ?thesis by (auto intro: answers_stop)
next
  case False
  let ?f = "\<lparr>tr_Code = (if errors_Is err ErrToolInfrastructureFailed then ''tool_infrastructure_failed'' else ''tool_call_rejected''), tr_Message = te_text env err\<rparr>"
  obtain x k where app: "appendTurnFailure sid tid ?f (xs_kernel s) = (x, k)" by fastforce
  with assms False have "isl r" "s' = s\<lparr>xs_kernel := k\<rparr>" by (auto simp: handleToolExecutionError_def Let_def split: option.splits)
  with appendTurnFailure_grown [OF app] show ?thesis by (cases r) (auto intro: answers_stop)
qed

lemma tools_okD:
  assumes "tools_ok env" and "gateway_Execute env call s = (r, s')"
  shows "ran [] [] s s'" and "r = Inr result \<Longrightarrow> mtr_ToolCallEventID result = pm_eventID call"
proof -
  obtain x k where e: "te_Execute env (xs_executed s) call (xs_kernel s) = (x, k)" by fastforce
  then have r: "r = x" "s' = s\<lparr>xs_kernel := k, xs_executed := xs_executed s + 1\<rparr>" using assms(2) by (simp_all add: gateway_Execute_def)
  obtain es where "kernel_ext (xs_kernel s) k es" "\<forall>e \<in> set es. ev_Type e \<noteq> ''tool.result'' \<and> \<not> ends_turn e"
    using assms(1) e unfolding tools_ok_def by blast
  with r grown_quiet show "ran [] [] s s'" by simp
  show "r = Inr result \<Longrightarrow> mtr_ToolCallEventID result = pm_eventID call" using assms(1) e r unfolding tools_ok_def by blast
qed

definition self_ids :: "string go_map \<Rightarrow> bool" where
  "self_ids ids \<longleftrightarrow> (\<forall>j x. go_lookup ids j = Some x \<longrightarrow> x = j)"

lemma result_grown:
  "kernel_ext k k' [tool_result_event status sid tid result j now i] \<Longrightarrow> grown [TrimSpace j] [] k k'"
  unfolding grown_def
  by (intro exI [of _ "[tool_result_event status sid tid result j now i]"])
    (simp add: answered_def tool_result_event_def turn_event_def ends_turn_def)

lemma committed_outcome_ran:
  assumes "committed_outcome env sid tid result s = (r, s')"
  shows "\<exists>ts. ran [] ts s s' \<and> outcome_ok r ts"
proof (cases "case mtr_PendingJobStart result of Some job \<Rightarrow> te_startJob env (xs_executed s) job | None \<Rightarrow> None")
  case (Some err)
  then show ?thesis using assms by (auto simp: committed_outcome_def intro!: exI [of _ "[]"])
next
  case job: None
  show ?thesis
  proof (cases "mtr_PendingAgentInvocationStart result = None")
    case True
    then have "(if te_cancelled env (xs_executed s) then interrupted_outcome env sid tid s else (Inr None, s)) = (r, s')"
      using assms job by (simp add: committed_outcome_def)
    then show ?thesis using interrupted_outcome_ran(1) by (auto split: if_splits)
  next
    case agent: False
    let ?e = "\<lambda>now. turn_event ''turn.paused'' sid tid (no_data\<lparr>ed_TurnPause := Some (delegation_pause sid tid now)\<rparr>) now"
    obtain p k' where pause: "stamp_append ?e (delegation_pause sid tid) (xs_kernel s) = (p, k')" by fastforce
    then have "appendAgentDelegationPause sid tid (xs_kernel s) = (p, k')" by (simp add: appendAgentDelegationPause_def Let_def)
    then have s': "s' = s\<lparr>xs_kernel := k'\<rparr>" and r: "isl r \<or> (\<exists>pause events. p = Inr pause \<and>
        r = Inr (Some (no_response\<lparr>rs_SessionID := sid, rs_TurnID := tid, rs_Events := events, rs_Pause := Some pause\<rparr>)))"
      using assms job agent by (auto simp: committed_outcome_def split: sum.splits)
    from pause show ?thesis
    proof (cases rule: stamp_append_cases)
      case (appended i)
      let ?x = "?e (fst (clock (xs_kernel s))) i"
      have "grown [] [?x] (xs_kernel s) k'" unfolding grown_def using appended(2)
        by (intro exI [of _ "[?x]"]) (simp add: turn_event_def ends_turn_def)
      moreover have "outcome_ok r [?x]" using r appended(1) by (cases r) (auto simp: outcome_ok_def turn_event_def)
      ultimately show ?thesis using s' by auto
    next
      case (failed err)
      then have "isl r" using r by auto
      then show ?thesis using failed s' by (cases r) (auto simp: grown_def intro!: exI [of _ "[]"])
    qed
  qed
qed

text \<open>A commit stores the answer first; nothing after it answers a call.\<close>

lemma commit_answers:
  assumes "commitToolExecutionResult env sid tid result ids s = (r, s')" and "self_ids ids"
  shows "answers [TrimSpace (mtr_ToolCallEventID result)] r s s'"
proof (cases "go_lookup ids (mtr_ToolCallEventID result) \<in> {None, Some []}")
  case True
  then have "isl r" "s' = s" using assms(1) by (auto simp: commitToolExecutionResult_def)
  then show ?thesis by (cases r) (auto intro!: answers_stop [of "[]"])
next
  case False
  then obtain j where lookup: "go_lookup ids (mtr_ToolCallEventID result) = Some j" "j \<noteq> []" by auto
  then have j: "j = mtr_ToolCallEventID result" using assms(2) by (auto simp: self_ids_def)
  obtain x k where app: "appendToolResultEvent (te_status env) sid tid result j (xs_kernel s) = (x, k)" by fastforce
  show ?thesis
  proof (cases x)
    case (Some err)
    have "kernel_ext (xs_kernel s) k []"
      using app Some unfolding appendToolResultEvent_def append_turn_event_def
      by (auto split: prod.splits sum.splits elim!: stamp_append_cases)
    moreover have "r = Inl err" "s' = s\<lparr>xs_kernel := k\<rparr>"
      using assms(1) lookup Some app by (simp_all add: commitToolExecutionResult_def)
    ultimately show ?thesis by (auto intro!: answers_stop [of "[]"] intro: grown_quiet)
  next
    case None
    obtain i where "kernel_ext (xs_kernel s) k [tool_result_event (te_status env) sid tid result j (fst (clock (xs_kernel s))) i]"
      using app None append_turn_event_cases unfolding appendToolResultEvent_def by blast
    then have "ran [TrimSpace (mtr_ToolCallEventID result)] [] s (s\<lparr>xs_kernel := k\<rparr>)" using j result_grown by simp
    moreover have "committed_outcome env sid tid result (s\<lparr>xs_kernel := k\<rparr>) = (r, s')"
      using assms(1) lookup None app by (simp add: commitToolExecutionResult_def)
    ultimately show ?thesis using committed_outcome_ran answers_end by blast
  qed
qed

lemma afterExecute_event:
  "afterExecute codec call result g = (Inr result', g') \<Longrightarrow> mtr_ToolCallEventID result' = mtr_ToolCallEventID result"
  by (auto simp: afterExecute_def observeFailure_def resultWithFailureLoopGuard_def Let_def
      split: prod.splits sum.splits option.splits if_splits)

lemma observe_commit_answers:
  assumes "observe_commit env sid tid ids call result s = (r, s')" and "self_ids ids"
  shows "answers [TrimSpace (mtr_ToolCallEventID result)] r s s'"
proof -
  obtain x g where a: "afterExecute (te_codec env) call result (xs_guard s) = (x, g)" by fastforce
  let ?s = "s\<lparr>xs_guard := g\<rparr>"
  have q: "ran [] [] s ?s" by simp
  show ?thesis
  proof (cases x)
    case (Inl err)
    then show ?thesis using assms(1) a q by (auto simp: observe_commit_def observeToolLoopGuardResult_def intro!: answers_stop [of "[]"])
  next
    case (Inr result')
    then have "commitToolExecutionResult env sid tid result' ids ?s = (r, s')"
      using assms(1) a by (simp add: observe_commit_def observeToolLoopGuardResult_def)
    from answers_quiet [OF q commit_answers [OF this assms(2)]] afterExecute_event [OF a [unfolded Inr]] show ?thesis by simp
  qed
qed

lemma beforeExecute_event:
  "beforeExecute codec g call = Inr (Some result) \<Longrightarrow> mtr_ToolCallEventID result = TrimSpace (pm_eventID call)"
  by (auto simp: beforeExecute_def Let_def split: if_splits sum.splits)

lemma execute_serially_answers:
  assumes "execute_serially env sid tid ids call s = (r, s')" and "self_ids ids" and "tools_ok env"
  shows "answers [TrimSpace (pm_eventID call)] r s s'"
proof (cases "beforeExecute (te_codec env) (xs_guard s) call")
  case (Inl err)
  then show ?thesis using assms(1) by (auto simp: execute_serially_def intro!: answers_stop [of "[]"])
next
  case (Inr b)
  show ?thesis
  proof (cases b)
    case (Some result)
    then show ?thesis using assms(1) Inr commit_answers [OF _ assms(2)] beforeExecute_event [of "te_codec env" "xs_guard s" call result]
      by (simp add: execute_serially_def) fastforce
  next
    case None
    obtain x s1 where e: "gateway_Execute env call s = (x, s1)" by fastforce
    note q = tools_okD [OF assms(3) e]
    show ?thesis
    proof (cases x)
      case (Inl err)
      then have "handleToolExecutionError env sid tid err s1 = (r, s')" using assms(1) Inr None e by (simp add: execute_serially_def)
      then show ?thesis by (rule answers_quiet [OF q(1) handleToolExecutionError_answers])
    next
      case res: (Inr result)
      then have "observe_commit env sid tid ids call result s1 = (r, s')" using assms(1) Inr None e by (simp add: execute_serially_def)
      from answers_quiet [OF q(1) observe_commit_answers [OF this assms(2)]] q(2) [OF res] show ?thesis by simp
    qed
  qed
qed

section \<open>Concurrent batches\<close>

abbreviation call_ids :: "preparedModelToolCall list \<Rightarrow> nat list \<Rightarrow> string list" where
  "call_ids calls is \<equiv> map (\<lambda>i. TrimSpace (pm_eventID (calls ! i))) is"

definition results_for :: "preparedModelToolCall list \<Rightarrow> (nat \<times> ModelToolResult) list \<Rightarrow> bool" where
  "results_for calls results \<longleftrightarrow> (\<forall>(i, result) \<in> set results. mtr_ToolCallEventID result = pm_eventID (calls ! i))"

lemma execute_scheduled_spec:
  assumes "tools_ok env" and "execute_scheduled env calls order s = ((results, errs), s')"
  shows "ran [] [] s s' \<and> results_for calls results \<and> (errs = [] \<longrightarrow> map fst results = order)"
  using assms(2)
proof (induction order arbitrary: s results errs s')
  case Nil
  then show ?case by (auto simp: results_for_def)
next
  case (Cons i order)
  obtain r s1 where e: "gateway_Execute env (calls ! i) s = (r, s1)" by fastforce
  obtain results1 errs1 s2 where run: "execute_scheduled env calls order s1 = ((results1, errs1), s2)" by (metis surj_pair)
  note q = tools_okD [OF assms(1) e] and ih = Cons.IH [OF run]
  have "ran [] [] s s2" using grown_trans [OF q(1)] ih by fastforce
  then show ?case using Cons.prems e run ih q(2) by (cases r) (auto simp: results_for_def)
qed

lemma executeToolBatchConcurrently_spec:
  assumes "tools_ok env" and "executeToolBatchConcurrently env calls batch s = (r, s')"
  shows "ran [] [] s s'" and "r = Inr results \<Longrightarrow> results_for calls results"
proof -
  let ?is = "eb_CallIndexes batch" and ?order = "te_schedule env (xs_executed s) (eb_CallIndexes batch)"
  obtain res errs s1 where run: "execute_scheduled env calls ?order s = ((res, errs), s1)" by (metis surj_pair)
  note sp = execute_scheduled_spec [OF assms(1) run]
  have s': "s' = s1" using assms(2) run by (auto simp: executeToolBatchConcurrently_def split: list.splits)
  with sp show "ran [] [] s s'" by simp
  assume "r = Inr results"
  then have errs: "errs = []" and results: "results = map (\<lambda>i. (i, the (map_of res i))) ?is"
    using assms(2) run by (auto simp: executeToolBatchConcurrently_def split: list.splits)
  have "set (map fst res) = set ?is" using sp errs assms(1) by (metis tools_ok_def set_mset_mset)
  then have "\<exists>result. map_of res i = Some result \<and> (i, result) \<in> set res" if "i \<in> set ?is" for i
    using that by (metis map_of_SomeD map_of_eq_None_iff not_Some_eq set_map)
  then show "results_for calls results" using sp by (fastforce simp: results_for_def results)
qed

lemma index_results_mem: "index_results expected indexed results = Inr out \<Longrightarrow> set out \<subseteq> set indexed \<union> set results"
  by (induction expected indexed results rule: index_results.induct) (auto split: if_splits)

lemma indexToolExecutionResults_spec:
  assumes "indexToolExecutionResults batch results = Inr indexed" and "results_for calls results" and "i \<in> set (eb_CallIndexes batch)"
  shows "mtr_ToolCallEventID (the (map_of indexed i)) = pm_eventID (calls ! i)"
proof -
  have "set indexed \<subseteq> set results" "find (\<lambda>i. map_of indexed i = None) (eb_CallIndexes batch) = None"
    using assms(1) index_results_mem [of "eb_CallIndexes batch" "[]" results]
    by (auto simp: indexToolExecutionResults_def bind_res_Inr_iff split: option.splits)
  moreover from this(2) assms(3) obtain result where "map_of indexed i = Some result" by (auto simp: find_None_iff)
  ultimately show ?thesis using assms(2) map_of_SomeD by (fastforce simp: results_for_def)
qed

lemma execute_batch_answers:
  assumes "tools_ok env" and "self_ids ids" and "execute_batch env sid tid calls ids batch s = (r, s')"
  shows "answers (call_ids calls (eb_CallIndexes batch)) r s s'"
proof (cases "canExecuteToolBatchConcurrently batch calls")
  case False
  let ?f = "\<lambda>i. execute_serially env sid tid ids (calls ! i)"
  have "until_completed ?f (eb_CallIndexes batch) s = (r, s')"
    using assms(3) False by (simp add: execute_batch_def executeToolBatchSeriallyGuarded_def)
  then have "answers (concat (map (\<lambda>i. [TrimSpace (pm_eventID (calls ! i))]) (eb_CallIndexes batch))) r s s'"
    by (rule until_completed_answers [rotated]) (rule execute_serially_answers [OF _ assms(2,1)])
  then show ?thesis by (simp add: concat_map_singleton)
next
  case True
  obtain x s1 where run: "executeToolBatchConcurrently env calls batch s = (x, s1)" by fastforce
  note sp = executeToolBatchConcurrently_spec [OF assms(1) run]
  show ?thesis
  proof (cases "\<exists>results indexed. x = Inr results \<and> indexToolExecutionResults batch results = Inr indexed")
    case False
    then have "\<exists>err. handleToolExecutionError env sid tid err s1 = (r, s')"
      using assms(3) True run by (cases x) (auto simp: execute_batch_def split: sum.splits)
    then show ?thesis using answers_quiet [OF sp(1) handleToolExecutionError_answers] by blast
  next
    case ok: True
    then obtain results indexed where x: "x = Inr results" and ix: "indexToolExecutionResults batch results = Inr indexed" by blast
    let ?f = "\<lambda>i. observe_commit env sid tid ids (calls ! i) (the (map_of indexed i))"
    have "until_completed ?f (eb_CallIndexes batch) s1 = (r, s')" using assms(3) True run x ix by (simp add: execute_batch_def)
    moreover have "answers [TrimSpace (pm_eventID (calls ! i))] r s s'"
      if "i \<in> set (eb_CallIndexes batch)" "?f i s = (r, s')" for i s r s'
      using observe_commit_answers [OF that(2) assms(2)] indexToolExecutionResults_spec [OF ix sp(2) [OF x] that(1)] by simp
    ultimately have "answers (concat (map (\<lambda>i. [TrimSpace (pm_eventID (calls ! i))]) (eb_CallIndexes batch))) r s1 s'"
      using until_completed_answers [of "eb_CallIndexes batch" ?f "\<lambda>i. [TrimSpace (pm_eventID (calls ! i))]"] by blast
    from answers_quiet [OF sp(1) this] show ?thesis by (simp add: concat_map_singleton)
  qed
qed

lemma executeToolBatchesGuarded_answers:
  assumes "tools_ok env" and "self_ids ids" and "executeToolBatchesGuarded env sid tid calls ids s = (r, s')"
  shows "answers (map (\<lambda>call. TrimSpace (pm_eventID call)) calls) r s s'"
proof -
  let ?planned = "map (\<lambda>call. \<lparr>pc_Name = pm_name call, pc_AccessPlan = pm_accessPlan call\<rparr>) calls"
  have "answers (concat (map (\<lambda>b. call_ids calls (eb_CallIndexes b)) (planToolExecutionBatches calls))) r s s'"
    using assms(3) unfolding executeToolBatchesGuarded_def
    by (rule until_completed_answers [rotated]) (rule execute_batch_answers [OF assms(1,2)])
  moreover have "concat (map (\<lambda>b. call_ids calls (eb_CallIndexes b)) (planToolExecutionBatches calls)) =
      call_ids calls (concat (map eb_CallIndexes (PlanExecutionBatches ?planned)))"
    by (simp add: planToolExecutionBatches_def map_concat comp_def)
  moreover have "call_ids calls (concat (map eb_CallIndexes (PlanExecutionBatches ?planned))) = map (\<lambda>call. TrimSpace (pm_eventID call)) calls"
    unfolding PlanExecutionBatches_ok(1) by (rule nth_equalityI) simp_all
  ultimately show ?thesis by simp
qed

section \<open>Properties\<close>

text \<open>
  C20: the answers of a round are stored in the order of its calls. For any order in which the
  executions of concurrent batches take effect, the results stored by the execution of a round are
  those of its first calls, one for each and in the order of the calls; when the execution goes on
  with the loop, every call has its result.
\<close>

theorem tool_results_in_order:
  assumes "tools_ok env" and "self_ids ids" and "executeToolBatchesGuarded env sid tid calls ids s = (r, s')"
  shows "\<exists>es m. kernel_ext (xs_kernel s) (xs_kernel s') es \<and>
    answered es = take m (map (\<lambda>call. TrimSpace (pm_eventID call)) calls) \<and> (r = Inr None \<longrightarrow> length calls \<le> m)"
proof -
  obtain m es where es: "kernel_ext (xs_kernel s) (xs_kernel s') es" "answered es = take m (map (\<lambda>call. TrimSpace (pm_eventID call)) calls)"
    "r = Inr None \<longrightarrow> take m (map (\<lambda>call. TrimSpace (pm_eventID call)) calls) = map (\<lambda>call. TrimSpace (pm_eventID call)) calls"
    using executeToolBatchesGuarded_answers [OF assms] by (auto simp: answers_def grown_def)
  show ?thesis
  proof (cases "r = Inr None")
    case True
    with es show ?thesis by (intro exI [of _ es] exI [of _ "length calls"]) simp
  next
    case False
    with es show ?thesis by blast
  qed
qed

text \<open>Tools that do nothing but answer, with a schedule that runs a batch from its end.\<close>

definition sample_tools :: tool_env where
  "sample_tools = \<lparr>te_Execute = (\<lambda>n call k. (Inr ((sample_outcome ''ok'')\<lparr>mtr_ToolCallEventID := pm_eventID call\<rparr>), k)),
     te_schedule = (\<lambda>n. rev), te_startJob = (\<lambda>_ _. None), te_cancelled = (\<lambda>_. False), te_active = no_active_turns,
     te_codec = sample_codec, te_status = (\<lambda>_. None), te_text = (\<lambda>_. [])\<rparr>"

lemma sample_tools_ok: "tools_ok sample_tools"
  by (auto simp: tools_ok_def sample_tools_def intro!: exI [of _ "[]"])

definition sample_read :: "string \<Rightarrow> preparedModelToolCall" where
  "sample_read i = \<lparr>pm_eventID = i, pm_providerCallID = i, pm_name = ''read_resource'',
     pm_accessPlan = ResourceReadAccessPlan ''read_resource'' ''r'', pm_repeatSuccessSignature = []\<rparr>"

definition sample_round :: "tool_outcome \<times> tool_state" where
  "sample_round = executeToolBatchesGuarded sample_tools ''s1'' ''t1'' [sample_read ''e1'', sample_read ''e2'', sample_write\<lparr>pm_eventID := ''e3''\<rparr>]
     [(''e1'', ''e1''), (''e2'', ''e2''), (''e3'', ''e3'')] \<lparr>xs_kernel = sample_kernel, xs_guard = newToolLoopGuard, xs_executed = 0\<rparr>"

theorem tool_results_in_order_witness:
  "map eb_CallIndexes (planToolExecutionBatches [sample_read ''e1'', sample_read ''e2'', sample_write\<lparr>pm_eventID := ''e3''\<rparr>]) = [[0, 1], [2]] \<and>
   (\<exists>es. kernel_ext sample_kernel (xs_kernel (snd sample_round)) es \<and> answered es = [''e1'', ''e2'', ''e3''])"
proof -
  let ?calls = "[sample_read ''e1'', sample_read ''e2'', sample_write\<lparr>pm_eventID := ''e3''\<rparr>]"
  have ids: "self_ids [(''e1'', ''e1''), (''e2'', ''e2''), (''e3'', ''e3'')]" by (auto simp: self_ids_def split: if_splits)
  have "fst sample_round = Inr None" by code_simp
  then have run: "executeToolBatchesGuarded sample_tools ''s1'' ''t1'' ?calls [(''e1'', ''e1''), (''e2'', ''e2''), (''e3'', ''e3'')]
      \<lparr>xs_kernel = sample_kernel, xs_guard = newToolLoopGuard, xs_executed = 0\<rparr> = (Inr None, snd sample_round)"
    by (simp add: sample_round_def prod_eq_iff)
  have names: "map (\<lambda>call. TrimSpace (pm_eventID call)) ?calls = [''e1'', ''e2'', ''e3'']" by code_simp
  obtain es where "kernel_ext sample_kernel (xs_kernel (snd sample_round)) es" "answered es = [''e1'', ''e2'', ''e3'']"
    using tool_results_in_order [OF sample_tools_ok ids run] unfolding names by auto
  moreover have "map eb_CallIndexes (planToolExecutionBatches ?calls) = [[0, 1], [2]]" by code_simp
  ultimately show ?thesis by auto
qed

end
