(* ===== verification/Model_Loop.thy ===== *)
theory Model_Loop
  imports Tool_Execution
begin

text \<open>
  The loop of a turn (\<^verbatim>\<open>runTurnModelLoop\<close> of \<^verbatim>\<open>kernel.go\<close>): a step of the model, then its tool calls,
  until the model answers, the budget of the turn is used up, or something fails. It composes the
  steps of the model, the log of a turn, the budget lease and the execution of tools. The theorems
  show that the loop ends, how much it may ask of the provider, and that it ends its turn once.
\<close>

section \<open>Events of a step\<close>

definition modelInputKinds :: "ModelInputItem list \<Rightarrow> string list" where
  "modelInputKinds items = filter (\<lambda>kind. kind \<noteq> []) (map (\<lambda>item. TrimSpace (mi_Kind item)) items)"

definition no_prefix :: PrefixFingerprintComponents where
  "no_prefix = \<lparr>pf_Fingerprint = [], pf_SystemInstruction = [], pf_SkillIndex = [], pf_ToolManifest = [], pf_AdapterBinding = []\<rparr>"

definition previousPrefixComponents :: "StoredEvent list \<Rightarrow> string \<Rightarrow> PrefixFingerprintComponents" where
  "previousPrefixComponents events sessionID =
     (case find (\<lambda>event. ev_SessionID event = sessionID \<and> ev_Type event = ''model.context.accounted'' \<and>
          ed_ModelContextAccounting (ev_Data event) \<noteq> None) (rev events) of
        Some event \<Rightarrow> ma_PrefixComponents (the (ed_ModelContextAccounting (ev_Data event)))
      | None \<Rightarrow> no_prefix)"

definition prefixChangeReasons :: "PrefixFingerprintComponents \<Rightarrow> PrefixFingerprintComponents \<Rightarrow> string list" where
  "prefixChangeReasons previous current =
     (if TrimSpace (pf_Fingerprint current) = [] then []
      else if TrimSpace (pf_Fingerprint previous) = [] then [''initial'']
      else if pf_Fingerprint previous = pf_Fingerprint current then []
      else
        let reasons =
          (if pf_SystemInstruction previous \<noteq> pf_SystemInstruction current then [''system_instruction''] else []) @
          (if pf_SkillIndex previous \<noteq> pf_SkillIndex current then [''skill_index''] else []) @
          (if pf_ToolManifest previous \<noteq> pf_ToolManifest current then [''tool_manifest''] else []) @
          (if pf_AdapterBinding previous \<noteq> pf_AdapterBinding current then [''adapter_binding''] else [])
        in if reasons = [] then [''prefix_shape''] else reasons)"

definition context_accounting :: "nat \<Rightarrow> ProviderContextProjection \<Rightarrow> ModelResponse \<Rightarrow> TokenUsage \<Rightarrow> StoredEvent list \<Rightarrow> string \<Rightarrow> ModelContextAccountingProjection" where
  "context_accounting roundIndex providerContext response usage events sessionID =
     (let (rounds, calls, results) = modelToolRoundCounts (pc_ToolRounds providerContext);
          miss = us_CacheMissTokens usage
      in \<lparr>ma_RoundIndex = roundIndex, ma_Model = TrimSpace (ms_Model response),
          ma_PrefixFingerprint = pc_PrefixFingerprint providerContext, ma_PrefixComponents = pc_PrefixComponents providerContext,
          ma_PrefixChangeReasons = prefixChangeReasons (previousPrefixComponents events sessionID) (pc_PrefixComponents providerContext),
          ma_ModelInputKinds = modelInputKinds (pc_InputItems providerContext),
          ma_HistoryTurnIDs = pc_HistoryTurnIDs providerContext,
          ma_CompactedThroughTurnID = pc_CompactedThroughTurnID providerContext,
          ma_ToolRoundCount = rounds, ma_ToolCallCount = calls, ma_ToolResultCount = results,
          ma_ProcessedInputTokens = (if miss > 0 then miss else 0),
          ma_ProcessedInputTokenSource = (if miss > 0 then ''prompt_cache_miss_tokens'' else []),
          ma_Usage = Some usage\<rparr>)"

definition appendModelContextAccounting ::
  "string \<Rightarrow> string \<Rightarrow> nat \<Rightarrow> ProviderContextProjection \<Rightarrow> ModelResponse \<Rightarrow> kernel \<Rightarrow> go_error option \<times> kernel" where
  "appendModelContextAccounting sessionID turnID roundIndex providerContext response k =
     (case ms_Usage response of
        None \<Rightarrow> (None, k)
      | Some usage \<Rightarrow>
          (case loadEvents k of
             Inl err \<Rightarrow> (Some err, k)
           | Inr events \<Rightarrow>
               append_turn_event (turn_event ''model.context.accounted'' (TrimSpace sessionID) (TrimSpace turnID)
                 (no_data\<lparr>ed_ModelContextAccounting :=
                   Some (context_accounting roundIndex providerContext response usage events sessionID)\<rparr>)) k))"

definition appendKernelObservationDelivered :: "string \<Rightarrow> string \<Rightarrow> string list \<Rightarrow> kernel \<Rightarrow> go_error option \<times> kernel" where
  "appendKernelObservationDelivered sessionID turnID observationEventIDs k =
     (let cleaned = filter (\<lambda>i. i \<noteq> []) (map TrimSpace observationEventIDs)
      in if cleaned = [] then (None, k)
         else append_turn_event (turn_event ''kernel.observation.delivered'' (TrimSpace sessionID) (TrimSpace turnID)
           (no_data\<lparr>ed_KernelObservationDelivery :=
             Some \<lparr>kd_ObservationEventIDs = cleaned, kd_ModelInputKind = ''kernel_observation_context''\<rparr>\<rparr>)) k)"

definition appendModelReasoning :: "string \<Rightarrow> string \<Rightarrow> ReasoningMessage option \<Rightarrow> kernel \<Rightarrow> go_error option \<times> kernel" where
  "appendModelReasoning sessionID turnID reasoning k =
     (case reasoning of
        None \<Rightarrow> (None, k)
      | Some reasoning \<Rightarrow>
          if TrimSpace (rm_Text reasoning) = [] then (Some (errors_New ''provider reasoning message missing text''), k)
          else
            let (now, k) = clock k;
                (reasoningID, k) = newID ''reasoning'' now k;
                (eventID, k) = newID ''evt'' now k
            in appendEvent (turn_event ''model.reasoning'' sessionID turnID
                 (no_data\<lparr>ed_Reasoning := Some \<lparr>rm_ReasoningID = reasoningID, rm_TurnID = turnID,
                   rm_Text = TrimSpace (rm_Text reasoning), rm_AdapterID = TrimSpace (rm_AdapterID reasoning),
                   rm_AdapterProfileID = TrimSpace (rm_AdapterProfileID reasoning), rm_CreatedAt = now\<rparr>\<rparr>) now eventID) k)"

section \<open>The loop\<close>

text \<open>
  What the loop relies on beside the provider and the tools: the gateway of the session, the
  context of a step (read from the log), the preparation of the calls of a round, and the
  compaction of the session after an answer.
\<close>

record loop_env =
  ml_step :: step_env
  ml_tools :: tool_env
  ml_gateway :: "string \<Rightarrow> go_error option"
  ml_context :: "string \<Rightarrow> kernel \<Rightarrow> ProviderContextProjection res"
  ml_prepare :: "ModelToolCall list \<Rightarrow> preparedModelToolCall list res"
  ml_compact :: "string \<Rightarrow> string \<Rightarrow> FinalMessage \<Rightarrow> kernel \<Rightarrow> kernel"

record loop_state =
  lp_kernel :: kernel
  lp_requests :: "ModelRequest list"
  lp_emitted :: "string list"
  lp_guard :: toolLoopGuard
  lp_executed :: nat

type_synonym turn_result = "TurnResponse \<times> provider_error option"

definition kernel_error :: "loop_env \<Rightarrow> go_error \<Rightarrow> provider_error" where
  "kernel_error env err = Plain (se_text (ml_step env) err) err"

definition failed_with :: "loop_env \<Rightarrow> go_error \<Rightarrow> loop_state \<Rightarrow> turn_result option \<times> loop_state" where
  "failed_with env err s = (Some (no_response, Some (kernel_error env err)), s)"

text \<open>The result of the events of a turn, if they can be read.\<close>

definition respond :: "loop_env \<Rightarrow> string \<Rightarrow> string \<Rightarrow> (TurnResponse \<Rightarrow> TurnResponse) \<Rightarrow> loop_state \<Rightarrow> turn_result option \<times> loop_state" where
  "respond env sessionID turnID f s =
     (case TurnEvents turnID (lp_kernel s) of
        Inl err \<Rightarrow> failed_with env err s
      | Inr events \<Rightarrow> (Some (f (no_response\<lparr>rs_SessionID := sessionID, rs_TurnID := turnID, rs_Events := events\<rparr>), None), s))"

definition provider_failed :: "loop_env \<Rightarrow> string \<Rightarrow> string \<Rightarrow> provider_error \<Rightarrow> loop_state \<Rightarrow> turn_result option \<times> loop_state" where
  "provider_failed env sessionID turnID err s =
     (if isTurnContextInterrupted (se_cancelled (ml_step env) (length (lp_requests s))) err then
        let ((resp, completeErr), k) = completeInterruptedTurn sessionID turnID (te_active (ml_tools env)) (lp_kernel s)
        in (Some (resp, Some (kernel_error env completeErr)), s\<lparr>lp_kernel := k\<rparr>)
      else
        (case appendTurnFailure sessionID turnID (turnFailureFromProviderError (se_redact (ml_step env)) err) (lp_kernel s) of
           (Some appendErr, k) \<Rightarrow> failed_with env appendErr (s\<lparr>lp_kernel := k\<rparr>)
         | (None, k) \<Rightarrow> (Some (no_response, Some (providerCompleteError (se_redact (ml_step env)) err)), s\<lparr>lp_kernel := k\<rparr>)))"

fun append_all :: "(kernel \<Rightarrow> go_error option \<times> kernel) list \<Rightarrow> kernel \<Rightarrow> go_error option \<times> kernel" where
  "append_all [] k = (None, k)"
| "append_all (f # fs) k = (case f k of (Some err, k) \<Rightarrow> (Some err, k) | (None, k) \<Rightarrow> append_all fs k)"

definition final_answer :: "loop_env \<Rightarrow> string \<Rightarrow> string \<Rightarrow> ModelResponse \<Rightarrow> loop_state \<Rightarrow> turn_result option \<times> loop_state" where
  "final_answer env sessionID turnID modelResp s =
     (let final = \<lparr>fm_Text = ms_Text modelResp, fm_Model = ms_Model modelResp, fm_Usage = ms_Usage modelResp\<rparr>
      in case append_turn_event (turn_event ''model.final'' sessionID turnID (no_data\<lparr>ed_Final := Some final\<rparr>)) (lp_kernel s) of
           (Some err, k) \<Rightarrow> failed_with env err (s\<lparr>lp_kernel := k\<rparr>)
         | (None, k) \<Rightarrow>
             respond env sessionID turnID (\<lambda>resp. resp\<lparr>rs_Final := Some final\<rparr>)
               (s\<lparr>lp_kernel := ml_compact env sessionID turnID final k\<rparr>))"

definition pause_turn ::
  "loop_env \<Rightarrow> string \<Rightarrow> string \<Rightarrow> ProviderContextProjection \<Rightarrow> budgetLease \<Rightarrow> loop_state \<Rightarrow> turn_result option \<times> loop_state" where
  "pause_turn env sessionID turnID providerContext lease s =
     (case appendToolLoopBudgetPause sessionID turnID (pc_ToolRounds providerContext) lease (lp_kernel s) of
        (Inl err, k) \<Rightarrow> failed_with env err (s\<lparr>lp_kernel := k\<rparr>)
      | (Inr pause, k) \<Rightarrow> respond env sessionID turnID (\<lambda>resp. resp\<lparr>rs_Pause := Some pause\<rparr>) (s\<lparr>lp_kernel := k\<rparr>))"

definition reject_calls :: "loop_env \<Rightarrow> string \<Rightarrow> string \<Rightarrow> go_error \<Rightarrow> loop_state \<Rightarrow> turn_result option \<times> loop_state" where
  "reject_calls env sessionID turnID err s =
     (case appendTurnFailure sessionID turnID \<lparr>tr_Code = ''tool_call_rejected'', tr_Message = te_text (ml_tools env) err\<rparr> (lp_kernel s) of
        (Some appendErr, k) \<Rightarrow> failed_with env appendErr (s\<lparr>lp_kernel := k\<rparr>)
      | (None, k) \<Rightarrow> failed_with env err (s\<lparr>lp_kernel := k\<rparr>))"

definition tool_round :: "loop_env \<Rightarrow> string \<Rightarrow> string \<Rightarrow> ModelToolCall list \<Rightarrow> loop_state \<Rightarrow> turn_result option \<times> loop_state" where
  "tool_round env sessionID turnID toolCalls s =
     (case appendToolCallEvents sessionID turnID toolCalls (lp_kernel s) of
        (Inl err, k) \<Rightarrow>
          if errors_Is err ErrModelToolCallRejected then reject_calls env sessionID turnID err (s\<lparr>lp_kernel := k\<rparr>)
          else failed_with env err (s\<lparr>lp_kernel := k\<rparr>)
      | (Inr (normalizedCalls, toolCallEventIDs), k) \<Rightarrow>
          (case ml_prepare env normalizedCalls of
             Inl err \<Rightarrow> reject_calls env sessionID turnID err (s\<lparr>lp_kernel := k\<rparr>)
           | Inr preparedCalls \<Rightarrow>
               (case executeToolBatchesGuarded (ml_tools env) sessionID turnID preparedCalls toolCallEventIDs
                    \<lparr>xs_kernel = k, xs_guard = lp_guard s, xs_executed = lp_executed s\<rparr> of
                  (outcome, x) \<Rightarrow>
                    let s = s\<lparr>lp_kernel := xs_kernel x, lp_guard := xs_guard x, lp_executed := xs_executed x\<rparr>
                    in case outcome of
                         Inl err \<Rightarrow> failed_with env err s
                       | Inr (Some resp) \<Rightarrow> (Some (resp, None), s)
                       | Inr None \<Rightarrow> (None, s))))"

text \<open>One round of the loop; \<open>None\<close> goes on with the next.\<close>

definition model_round ::
  "loop_env \<Rightarrow> bool \<Rightarrow> string \<Rightarrow> string \<Rightarrow> budgetLease \<Rightarrow> nat \<Rightarrow> loop_state \<Rightarrow> turn_result option \<times> loop_state" where
  "model_round env emit sessionID turnID lease roundIndex s =
     (case ml_context env turnID (lp_kernel s) of
        Inl err \<Rightarrow> failed_with env err s
      | Inr providerContext \<Rightarrow>
          (case completeProviderStep (ml_step env) emit sessionID turnID roundIndex providerContext
               \<lparr>ss_kernel = lp_kernel s, ss_requests = lp_requests s, ss_emitted = lp_emitted s\<rparr> of
             (r, st) \<Rightarrow>
               let s = s\<lparr>lp_kernel := ss_kernel st, lp_requests := ss_requests st, lp_emitted := ss_emitted st\<rparr>
               in case r of
                    Inl err \<Rightarrow> provider_failed env sessionID turnID err s
                  | Inr modelResp \<Rightarrow>
                      (case append_all [appendKernelObservationDelivered sessionID turnID (pc_KernelObservationEventIDs providerContext),
                           appendModelContextAccounting sessionID turnID roundIndex providerContext modelResp,
                           appendModelReasoning sessionID turnID (ms_Reasoning modelResp)] (lp_kernel s) of
                         (Some err, k) \<Rightarrow> failed_with env err (s\<lparr>lp_kernel := k\<rparr>)
                       | (None, k) \<Rightarrow>
                           let s = s\<lparr>lp_kernel := k\<rparr>
                           in if ms_ToolCalls modelResp = [] then final_answer env sessionID turnID modelResp s
                              else if \<not> allowModelToolRound lease (int roundIndex)
                              then pause_turn env sessionID turnID providerContext lease s
                              else tool_round env sessionID turnID (ms_ToolCalls modelResp) s)))"

lemma round_ends:
  "failed_with env err s = (None, s') \<Longrightarrow> False"
  "provider_failed env sid tid perr s = (None, s') \<Longrightarrow> False"
  "final_answer env sid tid resp s = (None, s') \<Longrightarrow> False"
  "pause_turn env sid tid pctx lease s = (None, s') \<Longrightarrow> False"
  by (auto simp: failed_with_def provider_failed_def final_answer_def pause_turn_def respond_def Let_def
      split: if_splits prod.splits option.splits sum.splits)

lemma model_round_goes_on: "model_round env emit sid tid lease ri s = (None, s') \<Longrightarrow> allowModelToolRound lease (int ri)"
  by (auto simp: model_round_def Let_def split: sum.splits prod.splits option.splits if_splits dest!: round_ends)

function model_loop ::
  "loop_env \<Rightarrow> bool \<Rightarrow> string \<Rightarrow> string \<Rightarrow> budgetLease \<Rightarrow> nat \<Rightarrow> loop_state \<Rightarrow> turn_result \<times> loop_state" where
  "model_loop env emit sessionID turnID lease roundIndex s =
     (case model_round env emit sessionID turnID lease roundIndex s of
        (Some result, s) \<Rightarrow> (result, s)
      | (None, s) \<Rightarrow> model_loop env emit sessionID turnID lease (roundIndex + 1) s)"
  by pat_completeness auto
termination
  by (relation "measure (\<lambda>(env, emit, sid, tid, lease, ri, s). nat (bl_modelToolRoundBudget lease - int ri))")
    (auto dest!: sym [of "(None, _)"] dest: model_round_goes_on simp: allowModelToolRound_def)

declare model_loop.simps [simp del]

definition runTurnModelLoop :: "loop_env \<Rightarrow> bool \<Rightarrow> string \<Rightarrow> string \<Rightarrow> loop_state \<Rightarrow> turn_result \<times> loop_state" where
  "runTurnModelLoop env emit sessionID turnID s =
     (case ml_gateway env sessionID of
        Some err \<Rightarrow> ((no_response, Some (kernel_error env err)), s)
      | None \<Rightarrow> model_loop env emit sessionID turnID (newTurnBudgetLease (lp_kernel s)) 0 (s\<lparr>lp_guard := newToolLoopGuard\<rparr>))"

section \<open>What the parts of a round store\<close>

lemma append_turn_event_quiet:
  assumes "append_turn_event event k = (r, k')" and "\<And>now i. ev_Type (event now i) \<noteq> ''tool.result'' \<and> \<not> ends_turn (event now i)"
  shows "grown [] [] k k'"
proof -
  obtain ts where "grown [] ts k k'" "\<forall>e \<in> set ts. ends_turn e \<and> (\<exists>now i. e = event now i)"
    using append_turn_event_grown [OF assms(1)] assms(2) by blast
  moreover from this(2) assms(2) have "ts = []" by (cases ts) auto
  ultimately show ?thesis by simp
qed

lemma completeProviderStep_grown:
  assumes "completeProviderStep env emit sid tid ri pctx s = (r, s')"
  shows "grown [] [] (ss_kernel s) (ss_kernel s')" and "\<exists>calls. ss_requests s' = ss_requests s @ calls \<and> length calls \<le> 5"
proof -
  obtain rs req es where st: "stepped env emit (context_ModelRequest pctx) rs req es s s'" "length rs \<le> 4"
    and le: "loop_end env sid tid ri (length (ss_requests s) + length rs) r (length rs) es"
    using provider_loop_spec [OF assms [unfolded completeProviderStep_def]] by auto
  have "\<forall>e \<in> set es. ev_Type e = ''model.provider_attempt'' \<or> ev_Type e = ''model.provider_repair''"
    using le by (cases r) (auto simp: loop_end_def step_end_def goes_on_def attempt_event_def list_all_iff)
  then have "\<forall>e \<in> set es. ev_Type e \<noteq> ''tool.result'' \<and> \<not> ends_turn e" by (auto simp: ends_turn_def)
  with st(1) show "grown [] [] (ss_kernel s) (ss_kernel s')" by (auto simp: stepped_def intro: grown_quiet)
  show "\<exists>calls. ss_requests s' = ss_requests s @ calls \<and> length calls \<le> 5"
    using st by (intro exI [of _ "rs @ [req]"]) (simp add: stepped_def)
qed

lemma append_all_grown:
  assumes "append_all fs k = (r, k')" and "\<And>f k r k'. f \<in> set fs \<Longrightarrow> f k = (r, k') \<Longrightarrow> grown [] [] k k'"
  shows "grown [] [] k k'"
  using assms
proof (induction fs k rule: append_all.induct)
  case (2 f fs k)
  obtain x k1 where f: "f k = (x, k1)" by fastforce
  then have g: "grown [] [] k k1" by (rule "2.prems"(2) [rotated]) simp
  show ?case
  proof (cases x)
    case None
    then have "grown [] [] k1 k'" using "2.prems" f by (intro "2.IH" [OF f [symmetric] None]) auto
    with g show ?thesis using grown_trans by fastforce
  qed (use "2.prems"(1) f g in simp)
qed auto

lemma appendModelReasoning_grown:
  assumes "appendModelReasoning sid tid reasoning k = (r, k')"
  shows "grown [] [] k k'"
proof (cases "\<exists>x. reasoning = Some x \<and> TrimSpace (rm_Text x) \<noteq> []")
  case True
  then obtain now i d where "appendEvent (turn_event ''model.reasoning'' sid tid d now i)
      (snd (newID ''evt'' now (snd (newID ''reasoning'' now (snd (clock k)))))) = (r, k')"
    using assms by (fastforce simp: appendModelReasoning_def Let_def case_prod_unfold)
  from appendEvent_ext [OF this] have "kernel_ext k k' (if r = None then [turn_event ''model.reasoning'' sid tid d now i] else [])"
    by (rule kernel_ext_stamp2)
  then show ?thesis by (rule grown_quiet) (simp add: turn_event_def ends_turn_def)
qed (use assms in \<open>auto simp: appendModelReasoning_def split: option.splits\<close>)

lemma bookkeeping_grown:
  assumes "append_all [appendKernelObservationDelivered sid tid ids, appendModelContextAccounting sid tid ri pctx resp,
    appendModelReasoning sid tid reasoning] k = (r, k')"
  shows "grown [] [] k k'"
proof (rule append_all_grown [OF assms])
  fix f k r k'
  assume "f \<in> set [appendKernelObservationDelivered sid tid ids, appendModelContextAccounting sid tid ri pctx resp,
    appendModelReasoning sid tid reasoning]" and "f k = (r, k')"
  then show "grown [] [] k k'"
    by (auto simp: appendKernelObservationDelivered_def appendModelContextAccounting_def Let_def
        intro: appendModelReasoning_grown split: if_splits option.splits sum.splits)
      (erule append_turn_event_quiet, simp add: turn_event_def ends_turn_def)+
qed

lemma append_calls_grown: "append_calls sid tid normalized calls k = (r, k') \<Longrightarrow> grown [] [] k k'"
proof (induction calls arbitrary: normalized k)
  case (Cons call calls)
  let ?t = "fst (clock k)" and ?k = "snd (newID ''evt'' (fst (clock k)) (snd (clock k)))"
  let ?e = "tool_call_event sid tid call ?t (fst (newID ''evt'' ?t (snd (clock k))))"
  obtain x k1 where app: "appendEvent ?e ?k = (x, k1)" by fastforce
  have "kernel_ext k k1 (if x = None then [?e] else [])" by (rule kernel_ext_stamp1) (rule appendEvent_ext [OF app])
  then have g: "grown [] [] k k1" by (rule grown_quiet) (simp add: tool_call_event_def turn_event_def ends_turn_def)
  show ?case
  proof (cases x)
    case None
    then obtain n' where "append_calls sid tid n' calls k1 = (r, k')" using Cons.prems app by (auto simp: Let_def case_prod_unfold)
    from grown_trans [OF g Cons.IH [OF this]] show ?thesis by simp
  next
    case (Some err)
    then have "k' = k1" using Cons.prems app by (auto simp: Let_def case_prod_unfold)
    with g show ?thesis by simp
  qed
qed simp

lemma appendToolCallEvents_grown:
  assumes "appendToolCallEvents sid tid calls k = (r, k')"
  shows "grown [] [] k k'" and "r = Inr (normalized, ids) \<Longrightarrow> self_ids ids"
proof -
  obtain x k1 where run: "append_calls sid tid [] calls k = (x, k1)" by fastforce
  show "grown [] [] k k'" using append_calls_grown [OF run] assms run
    by (auto simp: appendToolCallEvents_def split: option.splits sum.splits)
  assume "r = Inr (normalized, ids)"
  then have "ids = map (\<lambda>call. (mtc_ToolCallEventID call, mtc_ToolCallEventID call)) normalized"
    using assms run by (auto simp: appendToolCallEvents_def split: option.splits sum.splits)
  then show "self_ids ids" by (auto simp: self_ids_def dest!: map_of_SomeD)
qed

section \<open>What a round does\<close>

text \<open>
  The laws of the loop: those of the tools, and that a compaction stores events of its own only.
\<close>

definition loop_ok :: "loop_env \<Rightarrow> bool" where
  "loop_ok env \<longleftrightarrow> tools_ok (ml_tools env) \<and>
     (\<forall>sid tid final k. \<exists>es. kernel_ext k (ml_compact env sid tid final k) es \<and> (\<forall>e \<in> set es. \<not> ends_turn e))"

definition stored :: "StoredEvent list \<Rightarrow> kernel \<Rightarrow> kernel \<Rightarrow> bool" where
  "stored ts k k' \<longleftrightarrow> (\<exists>es. kernel_ext k k' es \<and> ended es = ts)"

text \<open>The event that closes a turn holds what its response says.\<close>

definition closes :: "TurnResponse \<Rightarrow> StoredEvent \<Rightarrow> bool" where
  "closes resp e \<longleftrightarrow>
     ev_Type e = ''model.final'' \<and> rs_Final resp \<noteq> None \<and> ed_Final (ev_Data e) = rs_Final resp \<or>
     ev_Type e = ''turn.paused'' \<and> rs_Pause resp \<noteq> None \<and> ed_TurnPause (ev_Data e) = rs_Pause resp"

definition result_ok :: "turn_result option \<Rightarrow> StoredEvent list \<Rightarrow> bool" where
  "result_ok r ts \<longleftrightarrow>
     (case r of
        None \<Rightarrow> ts = []
      | Some (resp, None) \<Rightarrow> (\<exists>e. ts = [e] \<and> closes resp e)
      | Some (resp, Some err) \<Rightarrow> length ts \<le> 1)"

lemma stored_trans: "stored ts k k1 \<Longrightarrow> stored us k1 k' \<Longrightarrow> stored (ts @ us) k k'"
  unfolding stored_def by (metis filter_append kernel_ext_trans)

lemma grown_stored: "grown js ts k k' \<Longrightarrow> stored ts k k'"
  unfolding grown_def stored_def by blast

lemma stored_refl [simp, intro]: "stored [] k k"
  unfolding stored_def by (intro exI [of _ "[]"]) simp

lemma failed_with_ok: "failed_with env err s = (r, s') \<Longrightarrow> s' = s \<and> (length ts \<le> 1 \<longrightarrow> result_ok r ts)"
  by (auto simp: failed_with_def result_ok_def)

lemma respond_ok:
  assumes "respond env sid tid f s = (r, s')" and "\<And>resp. closes (f resp) e"
  shows "s' = s \<and> result_ok r [e]"
  using assms by (auto simp: respond_def failed_with_def result_ok_def split: sum.splits)

lemma provider_failed_ok:
  assumes "provider_failed env sid tid err s = (r, s')"
  shows "\<exists>ts. stored ts (lp_kernel s) (lp_kernel s') \<and> result_ok r ts" and "lp_requests s' = lp_requests s"
proof -
  let ?f = "turnFailureFromProviderError (se_redact (ml_step env)) err"
  obtain x k where i: "completeInterruptedTurn sid tid (te_active (ml_tools env)) (lp_kernel s) = (x, k)" by fastforce
  obtain y k1 where f: "appendTurnFailure sid tid ?f (lp_kernel s) = (y, k1)" by fastforce
  show "\<exists>ts. stored ts (lp_kernel s) (lp_kernel s') \<and> result_ok r ts"
    using assms completeInterruptedTurn_grown [OF i] appendTurnFailure_grown [OF f] i f
    by (fastforce simp: provider_failed_def failed_with_def result_ok_def Let_def split: if_splits prod.splits option.splits dest: grown_stored)
  show "lp_requests s' = lp_requests s"
    using assms by (auto simp: provider_failed_def failed_with_def Let_def split: if_splits prod.splits option.splits)
qed

lemma reject_calls_ok:
  assumes "reject_calls env sid tid err s = (r, s')"
  shows "\<exists>ts. stored ts (lp_kernel s) (lp_kernel s') \<and> result_ok r ts" and "lp_requests s' = lp_requests s"
proof -
  let ?f = "\<lparr>tr_Code = ''tool_call_rejected'', tr_Message = te_text (ml_tools env) err\<rparr>"
  obtain y k where f: "appendTurnFailure sid tid ?f (lp_kernel s) = (y, k)" by fastforce
  show "\<exists>ts. stored ts (lp_kernel s) (lp_kernel s') \<and> result_ok r ts" "lp_requests s' = lp_requests s"
    using assms appendTurnFailure_grown [OF f] f
    by (auto simp: reject_calls_def failed_with_def result_ok_def split: option.splits dest!: grown_stored)
qed

lemma final_answer_ok:
  assumes "final_answer env sid tid resp s = (r, s')" and "loop_ok env"
  shows "\<exists>ts. stored ts (lp_kernel s) (lp_kernel s') \<and> result_ok r ts"
proof -
  let ?final = "\<lparr>fm_Text = ms_Text resp, fm_Model = ms_Model resp, fm_Usage = ms_Usage resp\<rparr>"
  let ?e = "turn_event ''model.final'' sid tid (no_data\<lparr>ed_Final := Some ?final\<rparr>)"
  obtain x k where app: "append_turn_event ?e (lp_kernel s) = (x, k)" by fastforce
  show ?thesis
  proof (cases x)
    case (Some err)
    then have "failed_with env err (s\<lparr>lp_kernel := k\<rparr>) = (r, s')" using assms(1) app by (simp add: final_answer_def Let_def)
    moreover obtain ts where "grown [] ts (lp_kernel s) k" "length ts \<le> 1"
      using append_turn_event_grown [OF app] by (auto simp: turn_event_def)
    ultimately show ?thesis using failed_with_ok grown_stored by fastforce
  next
    case None
    let ?k = "ml_compact env sid tid ?final k"
    have run: "respond env sid tid (\<lambda>resp. resp\<lparr>rs_Final := Some ?final\<rparr>) (s\<lparr>lp_kernel := ?k\<rparr>) = (r, s')"
      using assms(1) app None by (simp add: final_answer_def Let_def)
    obtain i where "kernel_ext (lp_kernel s) k [?e (fst (clock (lp_kernel s))) i]" using app None append_turn_event_cases by blast
    then have "stored [?e (fst (clock (lp_kernel s))) i] (lp_kernel s) k"
      by (auto simp: stored_def turn_event_def ends_turn_def intro!: exI [of _ "[?e (fst (clock (lp_kernel s))) i]"])
    moreover have "stored [] k ?k" using assms(2) by (fastforce simp: loop_ok_def stored_def filter_empty_conv)
    ultimately have "stored [?e (fst (clock (lp_kernel s))) i] (lp_kernel s) ?k" using stored_trans by fastforce
    moreover have "s' = s\<lparr>lp_kernel := ?k\<rparr> \<and> result_ok r [?e (fst (clock (lp_kernel s))) i]"
      by (rule respond_ok [OF run]) (simp add: closes_def turn_event_def)
    ultimately show ?thesis by auto
  qed
qed

lemma pause_turn_ok:
  assumes "pause_turn env sid tid pctx lease s = (r, s')"
  shows "\<exists>ts. stored ts (lp_kernel s) (lp_kernel s') \<and> result_ok r ts"
proof -
  let ?p = "budget_pause sid tid (pc_ToolRounds pctx) lease"
  let ?e = "\<lambda>now. turn_event ''turn.paused'' sid tid (no_data\<lparr>ed_TurnPause := Some (?p now)\<rparr>) now"
  obtain x k where app: "stamp_append ?e ?p (lp_kernel s) = (x, k)" by fastforce
  then have run: "(case x of Inl err \<Rightarrow> failed_with env err (s\<lparr>lp_kernel := k\<rparr>)
      | Inr pause \<Rightarrow> respond env sid tid (\<lambda>resp. resp\<lparr>rs_Pause := Some pause\<rparr>) (s\<lparr>lp_kernel := k\<rparr>)) = (r, s')"
    using assms by (simp add: pause_turn_def appendToolLoopBudgetPause_def Let_def)
  from app show ?thesis
  proof (cases rule: stamp_append_cases)
    case (appended i)
    let ?x = "?e (fst (clock (lp_kernel s))) i"
    have "s' = s\<lparr>lp_kernel := k\<rparr> \<and> result_ok r [?x]"
      by (rule respond_ok) (use run appended(1) in \<open>auto simp: closes_def turn_event_def\<close>)
    moreover have "stored [?x] (lp_kernel s) k" using appended(2)
      by (auto simp: stored_def turn_event_def ends_turn_def intro!: exI [of _ "[?x]"])
    ultimately show ?thesis by auto
  next
    case (failed err)
    then have "s' = s\<lparr>lp_kernel := k\<rparr> \<and> result_ok r []" using run failed_with_ok by fastforce
    then show ?thesis using failed(2) by (auto simp: stored_def intro!: exI [of _ "[]"])
  qed
qed

lemma tool_round_ok:
  assumes "tool_round env sid tid calls s = (r, s')" and "loop_ok env"
  shows "\<exists>ts. stored ts (lp_kernel s) (lp_kernel s') \<and> result_ok r ts"
proof -
  obtain x k where app: "appendToolCallEvents sid tid calls (lp_kernel s) = (x, k)" by fastforce
  have q: "stored [] (lp_kernel s) k" using appendToolCallEvents_grown(1) [OF app] by (rule grown_stored)
  have reject: ?thesis if "reject_calls env sid tid err (s\<lparr>lp_kernel := k\<rparr>) = (r, s')" for err
    using reject_calls_ok(1) [OF that] stored_trans [OF q] by auto
  show ?thesis
  proof (cases x)
    case (Inl err)
    show ?thesis
    proof (cases "errors_Is err ErrModelToolCallRejected")
      case True
      then show ?thesis using assms(1) app Inl reject by (simp add: tool_round_def)
    next
      case False
      then have "failed_with env err (s\<lparr>lp_kernel := k\<rparr>) = (r, s')" using assms(1) app Inl by (simp add: tool_round_def)
      then show ?thesis using failed_with_ok q by fastforce
    qed
  next
    case (Inr y)
    obtain normalized ids where y: "y = (normalized, ids)" by fastforce
    show ?thesis
    proof (cases "ml_prepare env normalized")
      case (Inl err)
      then show ?thesis using assms(1) app Inr y reject by (simp add: tool_round_def)
    next
      case prep: (Inr prepared)
      obtain o' x' where ex: "executeToolBatchesGuarded (ml_tools env) sid tid prepared ids
          \<lparr>xs_kernel = k, xs_guard = lp_guard s, xs_executed = lp_executed s\<rparr> = (o', x')" by fastforce
      have "tools_ok (ml_tools env)" using assms(2) by (simp add: loop_ok_def)
      from executeToolBatchesGuarded_answers [OF this appendToolCallEvents_grown(2) [OF app] ex]
      obtain js ts where g: "grown js ts k (xs_kernel x')" "outcome_ok o' ts" using Inr y by (auto simp: answers_def)
      then have "stored ts (lp_kernel s) (xs_kernel x')" using stored_trans [OF q grown_stored] by fastforce
      moreover have "lp_kernel s' = xs_kernel x'" "result_ok r ts"
        using assms(1) app Inr y prep ex g(2)
        by (auto simp: tool_round_def failed_with_def result_ok_def outcome_ok_def closes_def split: sum.splits option.splits)
      ultimately show ?thesis by auto
    qed
  qed
qed

lemma round_requests:
  "final_answer env sid tid resp s = (r, s') \<Longrightarrow> lp_requests s' = lp_requests s"
  "pause_turn env sid tid pctx lease s = (r, s') \<Longrightarrow> lp_requests s' = lp_requests s"
  "tool_round env sid tid calls s = (r, s') \<Longrightarrow> lp_requests s' = lp_requests s"
  by (auto simp: final_answer_def pause_turn_def tool_round_def reject_calls_def respond_def failed_with_def Let_def
      split: prod.splits option.splits sum.splits if_splits)

text \<open>A round as a whole: the step of the model and what follows it.\<close>

lemma model_round_cases [consumes 1, case_names no_context no_answer stepped]:
  assumes "model_round env emit sid tid lease ri s = (r, s')"
  obtains err where "failed_with env err s = (r, s')"
  | err s1 calls where "provider_failed env sid tid err s1 = (r, s')" and "grown [] [] (lp_kernel s) (lp_kernel s1)"
    and "lp_requests s1 = lp_requests s @ calls" and "length calls \<le> 5"
  | s1 calls pctx resp err where "grown [] [] (lp_kernel s) (lp_kernel s1)"
    and "lp_requests s1 = lp_requests s @ calls" and "length calls \<le> 5"
    and "failed_with env err s1 = (r, s') \<or> final_answer env sid tid resp s1 = (r, s') \<or>
      pause_turn env sid tid pctx lease s1 = (r, s') \<or> tool_round env sid tid (ms_ToolCalls resp) s1 = (r, s')"
proof (cases "ml_context env tid (lp_kernel s)")
  case (Inl err)
  then show ?thesis using assms that(1) by (simp add: model_round_def)
next
  case (Inr pctx)
  obtain x st where step: "completeProviderStep (ml_step env) emit sid tid ri pctx
      \<lparr>ss_kernel = lp_kernel s, ss_requests = lp_requests s, ss_emitted = lp_emitted s\<rparr> = (x, st)" by fastforce
  let ?s = "s\<lparr>lp_kernel := ss_kernel st, lp_requests := ss_requests st, lp_emitted := ss_emitted st\<rparr>"
  note g = completeProviderStep_grown [OF step]
  obtain calls where calls: "ss_requests st = lp_requests s @ calls" "length calls \<le> 5" using g(2) by auto
  show ?thesis
  proof (cases x)
    case (Inl err)
    then have "provider_failed env sid tid err ?s = (r, s')" using assms \<open>ml_context _ _ _ = _\<close> step by (simp add: model_round_def)
    then show ?thesis by (rule that(2)) (use g(1) calls in simp_all)
  next
    case resp: (Inr resp)
    obtain y k where app: "append_all [appendKernelObservationDelivered sid tid (pc_KernelObservationEventIDs pctx),
        appendModelContextAccounting sid tid ri pctx resp, appendModelReasoning sid tid (ms_Reasoning resp)] (ss_kernel st) = (y, k)" by fastforce
    let ?s1 = "?s\<lparr>lp_kernel := k\<rparr>"
    have "grown [] [] (lp_kernel s) k" using grown_trans [OF g(1) bookkeeping_grown [OF app, folded step_state.simps]] by simp
    moreover have "(case y of Some err \<Rightarrow> failed_with env err ?s1 | None \<Rightarrow>
        if ms_ToolCalls resp = [] then final_answer env sid tid resp ?s1
        else if \<not> allowModelToolRound lease (int ri) then pause_turn env sid tid pctx lease ?s1
        else tool_round env sid tid (ms_ToolCalls resp) ?s1) = (r, s')"
      using assms \<open>ml_context _ _ _ = _\<close> step resp app by (cases y) (simp_all add: model_round_def Let_def del: append_all.simps split: if_splits)
    then have "(\<exists>err. failed_with env err ?s1 = (r, s')) \<or> final_answer env sid tid resp ?s1 = (r, s') \<or>
        pause_turn env sid tid pctx lease ?s1 = (r, s') \<or> tool_round env sid tid (ms_ToolCalls resp) ?s1 = (r, s')"
      by (auto split: option.splits if_splits)
    ultimately show ?thesis using calls that(3) [of ?s1 calls] by auto
  qed
qed

lemma model_round_requests:
  assumes "model_round env emit sid tid lease ri s = (r, s')"
  shows "\<exists>calls. lp_requests s' = lp_requests s @ calls \<and> length calls \<le> 5"
  using assms
proof (cases rule: model_round_cases)
  case (no_context err)
  then show ?thesis by (simp add: failed_with_def)
next
  case (no_answer err s1 calls)
  then show ?thesis using provider_failed_ok(2) by metis
next
  case (stepped s1 calls pctx resp err)
  then show ?thesis using round_requests failed_with_ok by metis
qed

lemma model_round_ok:
  assumes "model_round env emit sid tid lease ri s = (r, s')" and "loop_ok env"
  shows "\<exists>ts. stored ts (lp_kernel s) (lp_kernel s') \<and> result_ok r ts"
  using assms(1)
proof (cases rule: model_round_cases)
  case (no_context err)
  then show ?thesis using failed_with_ok [of env err s r s' "[]"] by auto
next
  case (no_answer err s1 calls)
  then show ?thesis using provider_failed_ok(1) [OF no_answer(1)] stored_trans [OF grown_stored] by fastforce
next
  case (stepped s1 calls pctx resp err)
  have "\<exists>ts. stored ts (lp_kernel s1) (lp_kernel s') \<and> result_ok r ts"
    using stepped(4) final_answer_ok [OF _ assms(2)] pause_turn_ok tool_round_ok [OF _ assms(2)] failed_with_ok [of env err s1 r s' "[]"] by auto
  then show ?thesis using stored_trans [OF grown_stored [OF stepped(1)]] by fastforce
qed

section \<open>Properties\<close>

lemma model_loop_requests:
  "model_loop env emit sid tid lease ri s = (r, s') \<Longrightarrow>
     \<exists>calls. lp_requests s' = lp_requests s @ calls \<and> length calls \<le> 5 * (nat (bl_modelToolRoundBudget lease - int ri) + 1)"
proof (induction env emit sid tid lease ri s rule: model_loop.induct)
  case (1 env emit sid tid lease ri s)
  obtain x s1 where round: "model_round env emit sid tid lease ri s = (x, s1)" by fastforce
  obtain calls where calls: "lp_requests s1 = lp_requests s @ calls" "length calls \<le> 5" using model_round_requests [OF round] by blast
  show ?case
  proof (cases x)
    case (Some res)
    then have "s' = s1" using "1.prems" round by (simp add: model_loop.simps [of env emit sid tid lease ri s])
    with calls show ?thesis by auto
  next
    case None
    then have "model_loop env emit sid tid lease (ri + 1) s1 = (r, s')"
      using "1.prems" round by (simp add: model_loop.simps [of env emit sid tid lease ri s])
    from "1.IH" [OF round [symmetric] None this] obtain more where
      "lp_requests s' = lp_requests s1 @ more" "length more \<le> 5 * (nat (bl_modelToolRoundBudget lease - int (ri + 1)) + 1)" by blast
    moreover have "nat (bl_modelToolRoundBudget lease - int (ri + 1)) + 1 = nat (bl_modelToolRoundBudget lease - int ri)"
      using model_round_goes_on [OF round [unfolded None]] by (auto simp: allowModelToolRound_def)
    ultimately show ?thesis using calls by (intro exI [of _ "calls @ more"]) simp
  qed
qed


text \<open>
  C19: a turn ends. Whatever the provider and the tools do, the loop of a turn returns, after at most
  five calls of the provider for each of the rounds its budget allows and for one more.
\<close>

theorem model_loop_bounded:
  assumes "runTurnModelLoop env emit sid tid s = (r, s')"
  shows "\<exists>calls. lp_requests s' = lp_requests s @ calls \<and>
    int (length calls) \<le> 5 * (bl_modelToolRoundBudget (newTurnBudgetLease (lp_kernel s)) + 1) \<and>
    bl_modelToolRoundBudget (newTurnBudgetLease (lp_kernel s)) \<le> bl_modelToolRoundCeiling (newTurnBudgetLease (lp_kernel s))"
proof (cases "ml_gateway env sid")
  case (Some err)
  then have "s' = s" using assms by (simp add: runTurnModelLoop_def)
  then show ?thesis using newTurnBudgetLease_bounds [of "lp_kernel s"] by simp
next
  case None
  let ?b = "bl_modelToolRoundBudget (newTurnBudgetLease (lp_kernel s))"
  have "\<exists>calls. lp_requests s' = lp_requests s @ calls \<and> length calls \<le> 5 * (nat (?b - int 0) + 1)"
    using model_loop_requests [of env emit sid tid "newTurnBudgetLease (lp_kernel s)" 0 "s\<lparr>lp_guard := newToolLoopGuard\<rparr>" r s'] assms None
    by (simp add: runTurnModelLoop_def)
  then show ?thesis using newTurnBudgetLease_bounds [of "lp_kernel s"] by fastforce
qed


text \<open>A turn that reads a resource and then answers.\<close>

definition sample_tool_call :: ModelToolCall where
  "sample_tool_call = \<lparr>mtc_ToolCallID = ''c1'', mtc_ToolCallEventID = [], mtc_Name = ''read_resource'', mtc_Arguments = ''{}''\<rparr>"

definition sample_loop_env :: "ModelResponse \<Rightarrow> loop_env" where
  "sample_loop_env second = \<lparr>
     ml_step = sample_step_env\<lparr>se_Complete := (\<lambda>n _. if n = 0 then Inr (sample_answer\<lparr>ms_ToolCalls := [sample_tool_call]\<rparr>) else Inr second)\<rparr>,
     ml_tools = sample_tools, ml_gateway = (\<lambda>_. None), ml_context = (\<lambda>_ _. Inr sample_context),
     ml_prepare = (\<lambda>calls. Inr (map (\<lambda>call. sample_read (mtc_ToolCallEventID call)) calls)), ml_compact = (\<lambda>_ _ _ k. k)\<rparr>"

definition sample_turn_state :: "kernel \<Rightarrow> loop_state" where
  "sample_turn_state k = \<lparr>lp_kernel = k, lp_requests = [], lp_emitted = [], lp_guard = newToolLoopGuard, lp_executed = 0\<rparr>"

definition sample_run :: "turn_result \<times> loop_state" where
  "sample_run = runTurnModelLoop (sample_loop_env sample_answer) False ''s1'' ''turn_'' (sample_turn_state turn_k1)"

lemma sample_loop_ok: "loop_ok (sample_loop_env second)"
  using sample_tools_ok by (auto simp: loop_ok_def sample_loop_env_def intro!: exI [of _ "[]"])

theorem model_loop_bounded_witness:
  "\<exists>calls. lp_requests (snd sample_run) = calls \<and> length calls = 2 \<and>
     int (length calls) \<le> 5 * (bl_modelToolRoundBudget (newTurnBudgetLease turn_k1) + 1)"
proof -
  have "length (lp_requests (snd sample_run)) = 2" by code_simp
  moreover have "runTurnModelLoop (sample_loop_env sample_answer) False ''s1'' ''turn_'' (sample_turn_state turn_k1) = (fst sample_run, snd sample_run)"
    by (simp add: sample_run_def)
  ultimately show ?thesis using model_loop_bounded by (fastforce simp: sample_turn_state_def)
qed


section \<open>Turns that stay open\<close>

text \<open>The states at the start of the rounds of a turn.\<close>

inductive round_reached :: "loop_env \<Rightarrow> bool \<Rightarrow> string \<Rightarrow> string \<Rightarrow> loop_state \<Rightarrow> nat \<Rightarrow> loop_state \<Rightarrow> bool"
  for env emit sid tid s where
  first_round: "ml_gateway env sid = None \<Longrightarrow> round_reached env emit sid tid s 0 (s\<lparr>lp_guard := newToolLoopGuard\<rparr>)"
| next_round: "round_reached env emit sid tid s ri s1 \<Longrightarrow>
    model_round env emit sid tid (newTurnBudgetLease (lp_kernel s)) ri s1 = (None, s2) \<Longrightarrow> round_reached env emit sid tid s (ri + 1) s2"

lemma round_reached_loop:
  assumes "round_reached env emit sid tid s ri s1" and "loop_ok env"
  shows "runTurnModelLoop env emit sid tid s = model_loop env emit sid tid (newTurnBudgetLease (lp_kernel s)) ri s1"
    and "stored [] (lp_kernel s) (lp_kernel s1)"
  using assms(1)
proof (induction rule: round_reached.induct)
  case first_round
  { case 1 then show ?case using first_round by (simp add: runTurnModelLoop_def)
  next
    case 2 then show ?case by simp }
next
  case (next_round ri s1 s2)
  { case 1 then show ?case using next_round by (simp add: model_loop.simps [of env emit sid tid _ ri s1])
  next
    case 2
    from model_round_ok [OF next_round.hyps(2) assms(2)] have "stored [] (lp_kernel s1) (lp_kernel s2)" by (auto simp: result_ok_def)
    with next_round.IH(2) show ?case using stored_trans by fastforce }
qed

lemma blank_reasoning_round:
  assumes "ml_context env tid (lp_kernel s) = Inr pctx"
    and "completeProviderStep (ml_step env) emit sid tid ri pctx
      \<lparr>ss_kernel = lp_kernel s, ss_requests = lp_requests s, ss_emitted = lp_emitted s\<rparr> = (Inr resp, st)"
    and "ms_Reasoning resp = Some reasoning" "TrimSpace (rm_Text reasoning) = []"
  shows "\<exists>err s'. model_round env emit sid tid lease ri s = (Some (no_response, Some (kernel_error env err)), s') \<and>
    stored [] (lp_kernel s) (lp_kernel s')"
proof -
  obtain y k where app: "append_all [appendKernelObservationDelivered sid tid (pc_KernelObservationEventIDs pctx),
      appendModelContextAccounting sid tid ri pctx resp, appendModelReasoning sid tid (ms_Reasoning resp)] (ss_kernel st) = (y, k)" by fastforce
  then obtain err where y: "y = Some err"
    using assms(3,4) by (auto simp: appendModelReasoning_def split: prod.splits option.splits)
  have "grown [] [] (lp_kernel s) k"
    using grown_trans [OF completeProviderStep_grown(1) [OF assms(2)] bookkeeping_grown [OF app, folded step_state.simps]] by simp
  then show ?thesis
    using assms(1,2) app y by (intro exI [of _ err]) (simp add: model_round_def failed_with_def Let_def grown_stored del: append_all.simps)
qed

lemma latest_None: "(\<And>e. e \<in> set es \<Longrightarrow> f e = None) \<Longrightarrow> latest f es = None"
  by (induction es) auto

text \<open>A submitted turn without an end is answered as active.\<close>

definition turn_open :: "string \<Rightarrow> string \<Rightarrow> kernel \<Rightarrow> bool" where
  "turn_open sid tid k \<longleftrightarrow> (\<forall>e \<in> set (k_rows k). of_turn sid tid e \<longrightarrow> \<not> ends_turn e)"

lemma turn_open_ext: "turn_open sid tid k \<Longrightarrow> stored [] k k' \<Longrightarrow> turn_open sid tid k'"
  by (auto simp: turn_open_def stored_def kernel_ext_def filter_empty_conv)

lemma turn_open_active:
  assumes load: "loadEvents k = Inr es" and ok: "turn_rows_ok k" and key: "key \<noteq> []"
    and sub: "e \<in> set (k_rows k)" "is_submission sid key e" and unended: "turn_open sid (ev_TurnID e) k"
  shows "turnByIdempotencyKey sid key k = (no_response, True, Some ErrSessionActive)"
proof -
  note rows = loadEvents_set [OF load]
  have one: "x = e" if "x \<in> set es" "is_submission sid key x" for x
    using that sub ok key unfolding rows turn_rows_ok_def is_submission_def by auto
  have "x \<in> set (filter (is_submission sid key) es) \<longleftrightarrow> x = e" for x using sub(2) sub(1) [folded rows] one [of x] by auto
  then have set: "set (filter (is_submission sid key) es) = {e}" by blast
  then obtain x later where "filter (is_submission sid key) es = x # later" by (cases "filter (is_submission sid key) es") auto
  with set have f: "filter (is_submission sid key) es = e # later" "\<forall>x \<in> set later. x = e" by auto
  let ?evs = "filter (of_turn sid (ev_TurnID e)) (dropWhile (\<lambda>e. \<not> is_submission sid key e) es)"
  have "\<not> ends_turn x" if "x \<in> set ?evs" for x
    using that unended rows by (auto simp: turn_open_def dest: set_dropWhileD)
  then have "latest final_of ?evs = None" "latest pause_of ?evs = None" "latest failure_of ?evs = None"
    by (intro latest_None; force simp: ends_turn_def final_of_def pause_of_def failure_of_def)+
  moreover have "\<forall>e \<in> set es. is_submission sid key e \<longrightarrow> ev_TurnID e \<noteq> []"
    using ok rows by (auto simp: turn_rows_ok_def is_submission_def)
  ultimately show ?thesis
    using f by (simp add: turnByIdempotencyKey_eq [OF load] turn_answer_def)
qed

text \<open>
  C40: not every failed turn is ended. When the provider, in any round of a turn, returns reasoning whose text is
  blank, the loop returns an error and no response, and the log holds no end of the turn. From then on, whatever else is
  appended, a repeated submission of the key of the turn is answered as still active until an event ends the turn,
  although nothing runs it.
\<close>

theorem blank_reasoning_leaves_turn_open:
  assumes env: "loop_ok env" and reached: "round_reached env emit sid tid s ri s1"
    and step: "ml_context env tid (lp_kernel s1) = Inr pctx"
      "completeProviderStep (ml_step env) emit sid tid ri pctx
        \<lparr>ss_kernel = lp_kernel s1, ss_requests = lp_requests s1, ss_emitted = lp_emitted s1\<rparr> = (Inr resp, st)"
    and blank: "ms_Reasoning resp = Some reasoning" "TrimSpace (rm_Text reasoning) = []"
    and sub: "e \<in> set (k_rows (lp_kernel s))" "is_submission sid key e" "ev_TurnID e = tid" "key \<noteq> []"
    and unended: "turn_open sid tid (lp_kernel s)"
  shows "\<exists>err s'. runTurnModelLoop env emit sid tid s = ((no_response, Some err), s') \<and> turn_open sid tid (lp_kernel s') \<and>
    (\<forall>k' fs es. kernel_ext (lp_kernel s') k' fs \<longrightarrow> turn_open sid tid k' \<longrightarrow> turn_rows_ok k' \<longrightarrow> loadEvents k' = Inr es \<longrightarrow>
       turnByIdempotencyKey sid key k' = (no_response, True, Some ErrSessionActive))"
proof -
  let ?lease = "newTurnBudgetLease (lp_kernel s)"
  obtain err s' where round: "model_round env emit sid tid ?lease ri s1 = (Some (no_response, Some (kernel_error env err)), s')"
    and quiet: "stored [] (lp_kernel s1) (lp_kernel s')" using blank_reasoning_round [OF step blank] by blast
  have "runTurnModelLoop env emit sid tid s = ((no_response, Some (kernel_error env err)), s')"
    using round_reached_loop(1) [OF reached env] round by (simp add: model_loop.simps [of env emit sid tid ?lease ri s1])
  moreover have run: "stored [] (lp_kernel s) (lp_kernel s')" using stored_trans [OF round_reached_loop(2) [OF reached env] quiet] by simp
  then have "turn_open sid tid (lp_kernel s')" by (rule turn_open_ext [OF unended])
  moreover have "e \<in> set (k_rows k')" if "kernel_ext (lp_kernel s') k' fs" for k' fs
    using that run sub(1) by (auto simp: stored_def kernel_ext_def)
  ultimately show ?thesis using turn_open_active [OF _ _ sub(4) _ sub(2)] sub(3) by blast
qed

text \<open>A first answer of blank reasoning.\<close>

definition blank_answer :: ModelResponse where
  "blank_answer = sample_answer\<lparr>ms_Reasoning := Some \<lparr>rm_ReasoningID = [], rm_TurnID = [], rm_Text = '' '', rm_AdapterID = [],
     rm_AdapterProfileID = [], rm_CreatedAt = 0\<rparr>\<rparr>"

definition blank_env :: loop_env where
  "blank_env = (sample_loop_env sample_answer)\<lparr>ml_step := sample_step_env\<lparr>se_Complete := (\<lambda>_ _. Inr blank_answer)\<rparr>\<rparr>"

theorem blank_reasoning_leaves_turn_open_witness:
  "\<exists>err s'. runTurnModelLoop blank_env False ''s1'' ''turn_'' (sample_turn_state turn_k1) = ((no_response, Some err), s') \<and>
     turn_open ''s1'' ''turn_'' (lp_kernel s')"
proof -
  let ?s = "sample_turn_state turn_k1" and ?st = "\<lparr>ss_kernel = turn_k1, ss_requests = [], ss_emitted = []\<rparr>"
  let ?step = "completeProviderStep (ml_step blank_env) False ''s1'' ''turn_'' 0 sample_context ?st"
  have env: "loop_ok blank_env" using sample_loop_ok [of sample_answer] by (simp add: loop_ok_def blank_env_def)
  have start: "?s\<lparr>lp_guard := newToolLoopGuard\<rparr> = ?s" by (simp add: sample_turn_state_def)
  have reached: "round_reached blank_env False ''s1'' ''turn_'' ?s 0 ?s"
    using round_reached.first_round [of blank_env "''s1''" False "''turn_''" ?s] unfolding start by (simp add: blank_env_def sample_loop_env_def)
  have ctx: "ml_context blank_env ''turn_'' (lp_kernel ?s) = Inr sample_context" by (simp add: blank_env_def sample_loop_env_def)
  have "fst ?step = Inr blank_answer" by code_simp
  then have step: "completeProviderStep (ml_step blank_env) False ''s1'' ''turn_'' 0 sample_context
      \<lparr>ss_kernel = lp_kernel ?s, ss_requests = lp_requests ?s, ss_emitted = lp_emitted ?s\<rparr> = (Inr blank_answer, snd ?step)"
    by (simp add: sample_turn_state_def prod_eq_iff)
  have blank: "ms_Reasoning blank_answer = Some (the (ms_Reasoning blank_answer))" by code_simp
  have trim: "TrimSpace (rm_Text (the (ms_Reasoning blank_answer))) = []" by code_simp
  have "list_ex (\<lambda>e. is_submission ''s1'' ''k1'' e \<and> ev_TurnID e = ''turn_'') (k_rows turn_k1)" by code_simp
  then obtain e where sub: "e \<in> set (k_rows (lp_kernel ?s))" "is_submission ''s1'' ''k1'' e" "ev_TurnID e = ''turn_''"
    by (auto simp: list_ex_iff sample_turn_state_def)
  have unended: "turn_open ''s1'' ''turn_'' (lp_kernel ?s)" by code_simp
  show ?thesis
    using blank_reasoning_leaves_turn_open [OF env reached ctx step blank trim sub _ unended] by blast
qed

end
