(* ===== verification/Approvals.thy ===== *)
theory Approvals
  imports Inspection Timed_Log Authority_Gate Runtime_Policy Sample_Kernel
begin

text \<open>
  Approvals of blocked shell operations (\<^verbatim>\<open>approval.go\<close>, \<^verbatim>\<open>authority/types.go\<close>): a blocked operation asks
  for an approval, a person decides it once, and an execution is let through only by an approval of
  exactly this command under exactly this policy.
\<close>

section \<open>Data\<close>

definition ErrApprovalRejected :: go_error where "ErrApprovalRejected = Sentinel ''approval rejected''"

abbreviation ApprovalStatusPending :: string where "ApprovalStatusPending \<equiv> ''pending''"
abbreviation ApprovalStatusApproved :: string where "ApprovalStatusApproved \<equiv> ''approved''"
abbreviation ApprovalStatusDenied :: string where "ApprovalStatusDenied \<equiv> ''denied''"
abbreviation ApprovalStatusExpired :: string where "ApprovalStatusExpired \<equiv> ''expired''"

text \<open>Fifteen minutes in nanoseconds.\<close>

definition defaultApprovalTTL :: time where "defaultApprovalTTL = 15 * 60 * 10 ^ 9"

record ApprovalDecisionRequest =
  dr_ApprovalID :: string
  dr_Decision :: string
  dr_DecisionAuthority :: string
  dr_DecisionReason :: string
  dr_DecisionEvidenceRef :: string

record ShellExecRequest =
  sr_SessionID :: string
  sr_CWD :: string
  sr_Command :: string
  sr_TimeoutSec :: int
  sr_IdempotencyKey :: string
  sr_approvedByID :: string

definition no_snapshot :: ApprovalPolicySnapshot where
  "no_snapshot = \<lparr>ps_PermissionMode = [], ps_AuthorityPolicy = [], ps_SandboxProfile = [], ps_ApprovalPolicy = [],
     ps_WorkspaceRoot = [], ps_ExecutorAdapter = []\<rparr>"

definition no_effect :: ApprovalEffectSummary where
  "no_effect = \<lparr>ef_Tool = [], ef_ExecutionKind = [], ef_SideEffect = [], ef_CWD = [], ef_CommandPreview = [], ef_TimeoutSec = 0\<rparr>"

definition no_approval :: ApprovalProjection where
  "no_approval = \<lparr>ap_ApprovalID = [], ap_SessionID = [], ap_TurnID = [], ap_ToolCallEventID = [], ap_OperationID = [],
     ap_Status = [], ap_Tool = [], ap_PolicySnapshot = no_snapshot, ap_Effect = no_effect, ap_RequestedAt = 0, ap_ExpiresAt = 0,
     ap_DecidedAt = 0, ap_DecisionAuthority = [], ap_DecisionReason = [], ap_DecisionEvidenceRef = [], ap_BlockedReason = []\<rparr>"

definition approvalPolicySnapshot :: "ResolvedToolPolicy \<Rightarrow> ApprovalPolicySnapshot" where
  "approvalPolicySnapshot policy =
     \<lparr>ps_PermissionMode = TrimSpace (rp_PermissionMode policy), ps_AuthorityPolicy = TrimSpace (rp_AuthorityPolicy policy),
      ps_SandboxProfile = TrimSpace (rp_SandboxProfile policy), ps_ApprovalPolicy = TrimSpace (rp_ApprovalPolicy policy),
      ps_WorkspaceRoot = TrimSpace (rp_WorkspaceRoot policy), ps_ExecutorAdapter = ''local_shell''\<rparr>"

definition sameApprovalPolicySnapshot :: "ApprovalPolicySnapshot \<Rightarrow> ApprovalPolicySnapshot \<Rightarrow> bool" where
  "sameApprovalPolicySnapshot left right \<longleftrightarrow>
     ps_PermissionMode left = ps_PermissionMode right \<and> ps_AuthorityPolicy left = ps_AuthorityPolicy right \<and>
     ps_SandboxProfile left = ps_SandboxProfile right \<and> ps_ApprovalPolicy left = ps_ApprovalPolicy right \<and>
     ps_WorkspaceRoot left = ps_WorkspaceRoot right \<and> ps_ExecutorAdapter left = ps_ExecutorAdapter right"

definition approvalEffectSummaryFromOperation :: "OperationProjection \<Rightarrow> ApprovalEffectSummary" where
  "approvalEffectSummaryFromOperation operation =
     \<lparr>ef_Tool = op_Tool operation, ef_ExecutionKind = ''sandboxed_process'', ef_SideEffect = ''write'',
      ef_CWD = op_CWD operation, ef_CommandPreview = op_Command operation, ef_TimeoutSec = op_TimeoutSec operation\<rparr>"

section \<open>Reading the log\<close>

text \<open>
  The approval an event holds; the list of approvals takes a missing identifier from the event.
\<close>

definition event_approval :: "StoredEvent \<Rightarrow> ApprovalProjection option" where
  "event_approval event =
     (case ed_Approval (ev_Data event) of
        None \<Rightarrow> None
      | Some approval \<Rightarrow>
          Some (if ap_ApprovalID approval = [] then approval\<lparr>ap_ApprovalID := ev_ApprovalID event\<rparr> else approval))"

definition approvalByID :: "string \<Rightarrow> kernel \<Rightarrow> ApprovalProjection option res" where
  "approvalByID approvalID k =
     (let approvalID = TrimSpace approvalID
      in bind_res (loadEvents k) (\<lambda>events. Inr (foldl (\<lambda>latest event.
           case event_approval event of
             Some approval \<Rightarrow> if ap_ApprovalID approval = approvalID then Some approval else latest
           | None \<Rightarrow> latest) None events)))"

definition approvalByOperationID :: "string \<Rightarrow> string \<Rightarrow> kernel \<Rightarrow> ApprovalProjection option res" where
  "approvalByOperationID sessionID operationID k =
     bind_res (loadEvents k) (\<lambda>events. Inr (foldl (\<lambda>latest event.
       case ed_Approval (ev_Data event) of
         Some approval \<Rightarrow> if ev_SessionID event = sessionID \<and> ap_OperationID approval = operationID then Some approval else latest
       | None \<Rightarrow> latest) None events))"

definition rawOperationByID :: "string \<Rightarrow> string \<Rightarrow> kernel \<Rightarrow> OperationProjection option res" where
  "rawOperationByID sessionID operationID k =
     bind_res (loadEvents k) (\<lambda>events. Inr (foldl (\<lambda>latest event.
       case ed_Operation (ev_Data event) of
         Some operation \<Rightarrow> if ev_SessionID event = sessionID \<and> op_OperationID operation = operationID then Some operation else latest
       | None \<Rightarrow> latest) None events))"

text \<open>The step of the list of approvals: the latest record of each, in the order of the requests.\<close>

definition approvals_step :: "ApprovalProjection go_map \<Rightarrow> StoredEvent \<Rightarrow> ApprovalProjection go_map res" where
  "approvals_step latest event =
     (case event_approval event of
        None \<Rightarrow> Inr latest
      | Some approval \<Rightarrow> if ap_ApprovalID approval = [] then Inr latest else Inr (go_store (ap_ApprovalID approval) approval latest))"

definition kernel_Approvals :: "string \<Rightarrow> kernel \<Rightarrow> ApprovalProjection list res" where
  "kernel_Approvals status k =
     (let status = TrimSpace status
      in bind_res (loadEvents k) (\<lambda>events.
           bind_res (replay approvals_step [] events) (\<lambda>latest.
             Inr (filter (\<lambda>approval. status = [] \<or> ap_Status approval = status) (map snd latest)))))"

section \<open>Requests and decisions\<close>

definition validateKernelTextNotSecret :: "string \<Rightarrow> string \<Rightarrow> go_error option" where
  "validateKernelTextNotSecret field value =
     (if containsCredentialShapedText value then Some (Errorf ''%s must not contain secret-shaped content'' [field]) else None)"

definition validateApprovalDecisionRequest :: "ApprovalDecisionRequest \<Rightarrow> go_error option" where
  "validateApprovalDecisionRequest req =
     first_error
       [validateKernelControlToken ''approval_id'' (TrimSpace (dr_ApprovalID req)),
        if TrimSpace (dr_ApprovalID req) = [] then Some (errors_New ''approval_id is required'') else None,
        if TrimSpace (dr_Decision req) \<in> {''approved'', ''denied''} then None
        else Some (errors_New ''decision must be approved or denied''),
        validateKernelAuthority ''decision_authority'' (dr_DecisionAuthority req),
        if TrimSpace (dr_DecisionReason req) = [] then Some (errors_New ''decision_reason is required'') else None,
        validateKernelTextNotSecret ''decision_reason'' (dr_DecisionReason req),
        validateKernelRef ''decision_evidence_ref'' (dr_DecisionEvidenceRef req)]"

definition decideApprovalProjection ::
  "ApprovalProjection \<Rightarrow> ApprovalDecisionRequest \<Rightarrow> string \<Rightarrow> string \<Rightarrow> time \<Rightarrow> ApprovalProjection" where
  "decideApprovalProjection approval req status blockedReason now =
     approval\<lparr>ap_Status := status, ap_DecidedAt := now, ap_DecisionAuthority := TrimSpace (dr_DecisionAuthority req),
       ap_DecisionReason := TrimSpace (dr_DecisionReason req), ap_DecisionEvidenceRef := TrimSpace (dr_DecisionEvidenceRef req),
       ap_BlockedReason := TrimSpace blockedReason\<rparr>"

definition approval_event :: "string \<Rightarrow> ApprovalProjection \<Rightarrow> time \<Rightarrow> string \<Rightarrow> StoredEvent" where
  "approval_event eventType approval createdAt eventID =
     no_event\<lparr>ev_EventID := eventID, ev_SessionID := ap_SessionID approval, ev_TurnID := ap_TurnID approval,
       ev_OperationID := ap_OperationID approval, ev_ApprovalID := ap_ApprovalID approval, ev_Type := eventType,
       ev_CreatedAt := createdAt, ev_Data := no_data\<lparr>ed_Approval := Some approval\<rparr>\<rparr>"

definition appendApprovalEvent :: "string \<Rightarrow> ApprovalProjection \<Rightarrow> kernel \<Rightarrow> go_error option \<times> kernel" where
  "appendApprovalEvent eventType approval k =
     (let createdAt = (if TrimSpace (ap_Status approval) \<noteq> ApprovalStatusPending \<and> ap_DecidedAt approval \<noteq> 0
                       then ap_DecidedAt approval else ap_RequestedAt approval);
          (eventID, k) = newID ''evt'' createdAt k
      in appendEvent (approval_event eventType approval createdAt eventID) k)"

definition operationElapsedMs :: "time \<Rightarrow> time \<Rightarrow> int" where
  "operationElapsedMs startedAt endedAt =
     (if startedAt = 0 \<or> endedAt = 0 \<or> endedAt < startedAt then 0
      else let elapsed = (endedAt - startedAt) div 10 ^ 6 in if elapsed = 0 then 1 else elapsed)"

definition operation_event :: "OperationProjection \<Rightarrow> time \<Rightarrow> string \<Rightarrow> StoredEvent" where
  "operation_event operation createdAt eventID =
     no_event\<lparr>ev_EventID := eventID, ev_SessionID := op_SessionID operation, ev_TurnID := op_TurnID operation,
       ev_OperationID := op_OperationID operation, ev_Type := ''operation.'' @ op_Status operation,
       ev_CreatedAt := createdAt, ev_Data := no_data\<lparr>ed_Operation := Some operation\<rparr>\<rparr>"

definition appendOperationEvent :: "OperationProjection \<Rightarrow> kernel \<Rightarrow> go_error option \<times> kernel" where
  "appendOperationEvent operation k =
     (let createdAt = (if op_EndedAt operation = 0 then op_StartedAt operation else op_EndedAt operation);
          (eventID, k) = newID ''evt'' createdAt k
      in appendEvent (operation_event operation createdAt eventID) k)"

definition appendApprovalTerminalBlockedOperation :: "OperationProjection \<Rightarrow> string \<Rightarrow> time \<Rightarrow> kernel \<Rightarrow> go_error option \<times> kernel" where
  "appendApprovalTerminalBlockedOperation operation reason now =
     appendOperationEvent (operation\<lparr>op_Status := ''blocked'', op_BlockedReason := TrimSpace reason, op_EndedAt := now,
       op_ElapsedMs := operationElapsedMs (op_StartedAt operation) now\<rparr>)"

definition requested_approval :: "OperationProjection \<Rightarrow> ResolvedToolPolicy \<Rightarrow> string \<Rightarrow> time \<Rightarrow> ApprovalProjection" where
  "requested_approval operation policy approvalID now =
     no_approval\<lparr>ap_ApprovalID := approvalID, ap_SessionID := op_SessionID operation, ap_TurnID := op_TurnID operation,
       ap_OperationID := op_OperationID operation, ap_Status := ApprovalStatusPending, ap_Tool := op_Tool operation,
       ap_PolicySnapshot := approvalPolicySnapshot policy, ap_Effect := approvalEffectSummaryFromOperation operation,
       ap_RequestedAt := now, ap_ExpiresAt := now + defaultApprovalTTL\<rparr>"

definition requestApprovalForBlockedShellOperation :: "OperationProjection \<Rightarrow> kernel \<Rightarrow> go_error option \<times> kernel" where
  "requestApprovalForBlockedShellOperation operation k =
     (if TrimSpace (op_BlockedReason operation) \<noteq> ''approval_required'' then (None, k)
      else case approvalByOperationID (op_SessionID operation) (op_OperationID operation) k of
          Inl err \<Rightarrow> (Some err, k)
        | Inr existing \<Rightarrow>
            if (case existing of Some approval \<Rightarrow> ap_Status approval = ApprovalStatusPending | None \<Rightarrow> False) then (None, k)
            else
              let (now, k) = clock k;
                  policy = resolveToolPolicy (env_toolPolicy (k_env k));
                  (approvalID, k) = newID ''approval'' now k
              in appendApprovalEvent ''approval.requested'' (requested_approval operation policy approvalID now) k)"

text \<open>
  The gateway behind an approved effect: starting a shell as a job and running one in the
  foreground.
\<close>

record shell_gateway =
  sg_InvokeShell :: "ShellExecRequest \<Rightarrow> string \<Rightarrow> kernel \<Rightarrow> go_error option \<times> kernel"
  sg_ExecShell :: "ShellExecRequest \<Rightarrow> string \<Rightarrow> kernel \<Rightarrow> go_error option \<times> kernel"

definition ensureApprovedApprovalEffect ::
  "shell_gateway \<Rightarrow> ApprovalProjection \<Rightarrow> OperationProjection \<Rightarrow> kernel \<Rightarrow> go_error option \<times> kernel" where
  "ensureApprovedApprovalEffect gateway approval operation k =
     (let execReq = \<lparr>sr_SessionID = op_SessionID operation, sr_CWD = op_CWD operation, sr_Command = op_Command operation,
            sr_TimeoutSec = op_TimeoutSec operation, sr_IdempotencyKey = ''approval:'' @ ap_ApprovalID approval,
            sr_approvedByID = ap_ApprovalID approval\<rparr>
      in if shellTimeoutExceedsForeground k (normalizedShellTimeoutSec k (op_TimeoutSec operation))
         then sg_InvokeShell gateway execReq (op_TurnID operation) k
         else sg_ExecShell gateway execReq (op_TurnID operation) k)"

text \<open>A decision that ends the operation: the approval, then the operation; \<open>err\<close> is returned with it.\<close>

definition conclude ::
  "string \<Rightarrow> ApprovalProjection \<Rightarrow> OperationProjection \<Rightarrow> string \<Rightarrow> time \<Rightarrow> go_error option \<Rightarrow> kernel \<Rightarrow> (ApprovalProjection \<times> go_error option) \<times> kernel" where
  "conclude eventType decided operation reason now err k =
     (case appendApprovalEvent eventType decided k of
        (Some e, k) \<Rightarrow> ((no_approval, Some e), k)
      | (None, k) \<Rightarrow>
          (case appendApprovalTerminalBlockedOperation operation reason now k of
             (Some e, k) \<Rightarrow> ((no_approval, Some e), k)
           | (None, k) \<Rightarrow> ((decided, err), k)))"

definition decide_pending ::
  "shell_gateway \<Rightarrow> ApprovalDecisionRequest \<Rightarrow> ApprovalProjection \<Rightarrow> OperationProjection \<Rightarrow> kernel \<Rightarrow> (ApprovalProjection \<times> go_error option) \<times> kernel" where
  "decide_pending gateway req approval operation k =
     (let (now, k) = clock k;
          rejected = (\<lambda>msg. Some (Wrapped ErrApprovalRejected (errors_New msg)))
      in if ap_ExpiresAt approval \<noteq> 0 \<and> ap_ExpiresAt approval < now then
           conclude ''approval.expired'' (decideApprovalProjection approval req ApprovalStatusExpired ''approval_expired'' now)
             operation ''approval_expired'' now (rejected ''approval expired'') k
         else if \<not> sameApprovalPolicySnapshot (ap_PolicySnapshot approval) (approvalPolicySnapshot (resolveToolPolicy (env_toolPolicy (k_env k)))) then
           conclude ''approval.denied'' (decideApprovalProjection approval req ApprovalStatusDenied ''policy_snapshot_mismatch'' now)
             operation ''policy_snapshot_mismatch'' now (rejected ''policy snapshot mismatch'') k
         else if op_Status operation \<noteq> ''blocked'' \<or> op_BlockedReason operation \<noteq> ''approval_required'' then
           conclude ''approval.denied'' (decideApprovalProjection approval req ApprovalStatusDenied ''approval_operation_stale'' now)
             operation ''approval_operation_stale'' now (rejected ''approval operation is stale'') k
         else if TrimSpace (dr_Decision req) = ''denied'' then
           conclude ''approval.denied'' (decideApprovalProjection approval req ApprovalStatusDenied ''approval_denied'' now)
             operation ''approval_denied'' now None k
         else if TrimSpace (dr_Decision req) = ''approved'' then
           let approved = decideApprovalProjection approval req ApprovalStatusApproved [] now
           in case appendApprovalEvent ''approval.approved'' approved k of
                (Some err, k) \<Rightarrow> ((no_approval, Some err), k)
              | (None, k) \<Rightarrow> (case ensureApprovedApprovalEffect gateway approved operation k of (err, k) \<Rightarrow> ((approved, err), k))
         else ((no_approval, rejected ''unknown approval decision''), k))"

definition DecideApproval ::
  "shell_gateway \<Rightarrow> ApprovalDecisionRequest \<Rightarrow> kernel \<Rightarrow> (ApprovalProjection \<times> go_error option) \<times> kernel" where
  "DecideApproval gateway req k =
     (let rejected = (\<lambda>e. Some (Wrapped ErrApprovalRejected e))
      in case validateApprovalDecisionRequest req of
           Some err \<Rightarrow> ((no_approval, Some err), k)
         | None \<Rightarrow>
      (case approvalByID (dr_ApprovalID req) k of
           Inl err \<Rightarrow> ((no_approval, Some err), k)
         | Inr None \<Rightarrow> ((no_approval, rejected (errors_New ''approval not found'')), k)
         | Inr (Some approval) \<Rightarrow>
             if ap_Status approval \<noteq> ApprovalStatusPending \<and>
                \<not> (ap_Status approval = ApprovalStatusApproved \<and> TrimSpace (dr_Decision req) = ''approved'')
             then ((no_approval, rejected (Errorf ''approval is already %s'' [ap_Status approval])), k)
             else
               (case rawOperationByID (ap_SessionID approval) (ap_OperationID approval) k of
                  Inl err \<Rightarrow> ((no_approval, Some err), k)
                | Inr None \<Rightarrow> ((no_approval, rejected (errors_New ''approval operation evidence is missing'')), k)
                | Inr (Some operation) \<Rightarrow>
                    if ap_Status approval \<noteq> ApprovalStatusPending
                    then (case ensureApprovedApprovalEffect gateway approval operation k of (err, k) \<Rightarrow> ((approval, err), k))
                    else decide_pending gateway req approval operation k)))"

definition approvalAuthorizesShellExecution ::
  "string \<Rightarrow> ShellExecRequest \<Rightarrow> string \<Rightarrow> ResolvedToolPolicy \<Rightarrow> kernel \<Rightarrow> (bool \<times> string) res" where
  "approvalAuthorizesShellExecution approvalID req turnID resolved k =
     (let approvalID = TrimSpace approvalID
      in if approvalID = [] then Inr (False, ''approval_required'')
         else bind_res (approvalByID approvalID k) (\<lambda>found.
           case found of
             None \<Rightarrow> Inr (False, ''approval_not_found'')
           | Some approval \<Rightarrow>
               if ap_Status approval \<noteq> ApprovalStatusApproved then Inr (False, ''approval_not_approved'')
               else if TrimSpace (sr_IdempotencyKey req) \<noteq> ''approval:'' @ approvalID then Inr (False, ''approval_effect_mismatch'')
               else if \<not> sameApprovalPolicySnapshot (ap_PolicySnapshot approval) (approvalPolicySnapshot resolved)
               then Inr (False, ''policy_snapshot_mismatch'')
               else bind_res (rawOperationByID (ap_SessionID approval) (ap_OperationID approval) k) (\<lambda>stored.
                 case stored of
                   None \<Rightarrow> Inr (False, ''approval_operation_missing'')
                 | Some operation \<Rightarrow>
                     if op_Tool operation \<noteq> ''shell_exec'' \<or> op_SessionID operation \<noteq> TrimSpace (sr_SessionID req) \<or>
                        op_TurnID operation \<noteq> TrimSpace turnID \<or> op_CWD operation \<noteq> TrimSpace (sr_CWD req) \<or>
                        op_Command operation \<noteq> TrimSpace (sr_Command req) \<or>
                        normalizedShellTimeoutSec k (op_TimeoutSec operation) \<noteq> normalizedShellTimeoutSec k (sr_TimeoutSec req)
                     then Inr (False, ''approval_effect_mismatch'')
                     else Inr (True, []))))"

section \<open>The approvals of a log\<close>

definition is_approval_event :: "StoredEvent \<Rightarrow> bool" where
  "is_approval_event e \<longleftrightarrow> ed_Approval (ev_Data e) \<noteq> None"

text \<open>The latest record of each approval, as a map.\<close>

definition approval_step :: "(string \<rightharpoonup> ApprovalProjection) \<Rightarrow> StoredEvent \<Rightarrow> (string \<rightharpoonup> ApprovalProjection) res" where
  "approval_step v e = Inr (case event_approval e of None \<Rightarrow> v | Some a \<Rightarrow> v(ap_ApprovalID a \<mapsto> a))"

interpretation av: timed_projection approval_step "Map.empty :: string \<rightharpoonup> ApprovalProjection" is_approval_event
  by unfold_locales (simp add: approval_step_def is_approval_event_def event_approval_def)

lemma latest_approval:
  "\<exists>v'. replay approval_step v es = Inr v' \<and>
     foldl (\<lambda>latest event. case event_approval event of
        Some a \<Rightarrow> if ap_ApprovalID a = i then Some a else latest | None \<Rightarrow> latest) (v i) es = v' i"
proof (induction es arbitrary: v)
  case (Cons e es)
  define w where "w = (case event_approval e of None \<Rightarrow> v | Some a \<Rightarrow> v(ap_ApprovalID a \<mapsto> a))"
  have "(case event_approval e of Some a \<Rightarrow> if ap_ApprovalID a = i then Some a else v i | None \<Rightarrow> v i) = w i"
    by (auto simp: w_def split: option.splits)
  moreover have "replay approval_step v (e # es) = replay approval_step w es" by (simp add: approval_step_def w_def)
  ultimately show ?case using Cons.IH [of w] by simp
qed simp

text \<open>
  A record is in order: it has its key, it expires when its time is over, and a decision was taken
  by an authority for a reason and with evidence; an approval was not given after the expiry.
\<close>

definition approval_ok :: "ApprovalProjection \<Rightarrow> bool" where
  "approval_ok a \<longleftrightarrow> ap_Status a \<in> {ApprovalStatusPending, ApprovalStatusApproved, ApprovalStatusDenied, ApprovalStatusExpired} \<and>
     ap_RequestedAt a > 0 \<and> ap_ExpiresAt a = ap_RequestedAt a + defaultApprovalTTL \<and>
     (ap_Status a \<noteq> ApprovalStatusPending \<longrightarrow> kernelAuthorityPattern (ap_DecisionAuthority a) \<and>
        ap_DecisionReason a \<noteq> [] \<and> kernelRefPattern (ap_DecisionEvidenceRef a) \<and> ap_RequestedAt a \<le> ap_DecidedAt a) \<and>
     (ap_Status a = ApprovalStatusApproved \<longrightarrow> ap_DecidedAt a \<le> ap_ExpiresAt a)"

definition clock_set :: "kernel_env \<Rightarrow> bool" where
  "clock_set env \<longleftrightarrow> (\<forall>n. env_clock env n > 0)"

definition approval_inv :: "kernel \<Rightarrow> (string \<rightharpoonup> ApprovalProjection) \<Rightarrow> bool" where
  "approval_inv k v \<longleftrightarrow> env_ok (k_env k) \<and> clock_set (k_env k) \<and> av.in_time k \<and> av.view k = Inr v \<and>
     (\<forall>i a. v i = Some a \<longrightarrow> ap_ApprovalID a = i \<and> i \<in> allocated k \<and> approval_ok a \<and>
        ap_RequestedAt a \<le> env_clock (k_env k) (k_ticks k))"

lemma approval_read:
  assumes "approval_inv k v" and "approvalByID i k = Inr r"
  shows "r = v (TrimSpace i)"
proof -
  obtain es where es: "loadEvents k = Inr es" using assms(2) by (auto simp: approvalByID_def Let_def bind_res_Inr_iff)
  have "replay approval_step Map.empty es = Inr v"
    using av.load_view [OF _ es] assms(1) by (simp add: approval_inv_def)
  with latest_approval [of "Map.empty" es "TrimSpace i"] assms(2) es show ?thesis
    by (auto simp: approvalByID_def Let_def)
qed

text \<open>
  How a record may change: it keeps what was requested, and a decided one does not change at all.
\<close>

definition request_of :: "ApprovalProjection \<Rightarrow> ApprovalProjection" where
  "request_of a = a\<lparr>ap_Status := [], ap_DecidedAt := 0, ap_DecisionAuthority := [], ap_DecisionReason := [],
     ap_DecisionEvidenceRef := [], ap_BlockedReason := []\<rparr>"

definition approvals_le :: "(string \<rightharpoonup> ApprovalProjection) \<Rightarrow> (string \<rightharpoonup> ApprovalProjection) \<Rightarrow> bool" where
  "approvals_le v v' \<longleftrightarrow> (\<forall>i a. v i = Some a \<longrightarrow>
     (\<exists>a'. v' i = Some a' \<and> request_of a' = request_of a \<and> (ap_Status a \<noteq> ApprovalStatusPending \<longrightarrow> a' = a)))"

lemma approvals_le_refl: "approvals_le v v"
  by (simp add: approvals_le_def)

lemma approvals_le_trans: "approvals_le v v' \<Longrightarrow> approvals_le v' v'' \<Longrightarrow> approvals_le v v''"
  unfolding approvals_le_def by metis

definition approval_ext :: "kernel \<Rightarrow> kernel \<Rightarrow> bool" where
  "approval_ext k k' \<longleftrightarrow> (\<forall>v. approval_inv k v \<longrightarrow> (\<exists>v'. approval_inv k' v' \<and> approvals_le v v'))"

lemma approval_ext_refl: "approval_ext k k"
  unfolding approval_ext_def using approvals_le_refl by blast

lemma approval_ext_trans: "approval_ext k k' \<Longrightarrow> approval_ext k' k'' \<Longrightarrow> approval_ext k k''"
  unfolding approval_ext_def using approvals_le_trans by blast

lemma approval_inv_later:
  assumes "approval_inv k v" and "kernel_ext k k' es" and "v i = Some a"
  shows "ap_ApprovalID a = i" and "i \<in> allocated k'" and "approval_ok a" and "ap_RequestedAt a \<le> env_clock (k_env k') (k_ticks k')"
proof -
  have a: "ap_ApprovalID a = i" "i \<in> allocated k" "approval_ok a" "ap_RequestedAt a \<le> env_clock (k_env k) (k_ticks k)"
    and t: "av.in_time k" using assms(1,3) by (auto simp: approval_inv_def)
  from a(1,3) show "ap_ApprovalID a = i" "approval_ok a" by simp_all
  show "i \<in> allocated k'" using a(2) allocated_ext [OF assms(2)] by blast
  show "ap_RequestedAt a \<le> env_clock (k_env k') (k_ticks k')" using a(4) av.clock_grows [OF t assms(2)] by simp
qed

lemma approval_ext_skip:
  assumes "kernel_ext k k' es" and "\<forall>e \<in> set es. \<not> is_approval_event e"
  shows "approval_ext k k'"
  unfolding approval_ext_def
proof (intro allI impI)
  fix v assume inv: "approval_inv k v"
  then have t: "av.in_time k" by (simp add: approval_inv_def)
  have "k_env k' = k_env k" using assms(1) by (simp add: kernel_ext_def)
  with av.in_time_skip [OF t assms] inv approval_inv_later [OF inv assms(1)] have "approval_inv k' v"
    by (simp add: approval_inv_def)
  then show "\<exists>v'. approval_inv k' v' \<and> approvals_le v v'" using approvals_le_refl by blast
qed

lemma approval_ext_same: "kernel_ext k k' [] \<Longrightarrow> approval_ext k k'"
  by (erule approval_ext_skip) simp

section \<open>The operations keep the approvals\<close>

lemma event_approval_event [simp]: "event_approval (approval_event ty a t i) = Some a"
  by (simp add: event_approval_def approval_event_def)

lemma approval_event_created [simp]: "ev_CreatedAt (approval_event ty a t i) = t"
  by (simp add: approval_event_def)

lemma approval_inv_event:
  assumes inv: "approval_inv k v" and ext: "kernel_ext k k' [approval_event ty a (fst (clock k)) n]"
    and a: "ap_ApprovalID a \<in> allocated k'" "approval_ok a" "ap_RequestedAt a \<le> fst (clock k)"
  shows "approval_inv k' (v(ap_ApprovalID a \<mapsto> a))"
proof -
  have t: "av.in_time k" "av.view k = Inr v" using inv by (simp_all add: approval_inv_def)
  have env: "k_env k' = k_env k" using ext by (simp add: kernel_ext_def)
  note ev = av.in_time_event [OF t(1) ext approval_event_created]
  have "ap_RequestedAt a \<le> env_clock (k_env k') (k_ticks k')"
    using a(3) av.clock_grows [OF t(1) ext] by (simp add: clock_def)
  with ev t(2) env inv a(1,2) approval_inv_later [OF inv ext] show ?thesis
    by (auto simp: approval_inv_def approval_step_def)
qed

lemma approval_inv_clock: "approval_inv k v \<Longrightarrow> fst (clock k) > 0"
  by (simp add: approval_inv_def clock_set_def clock_def)

lemma TrimSpace_pending [simp]: "TrimSpace ApprovalStatusPending = ApprovalStatusPending"
  by code_simp

lemma appendApprovalEvent_cases [consumes 2, case_names appended failed]:
  assumes "appendApprovalEvent ty a k = (r, k')"
    and "ap_Status a = ApprovalStatusPending \<and> t = ap_RequestedAt a \<or>
      TrimSpace (ap_Status a) \<noteq> ApprovalStatusPending \<and> t = ap_DecidedAt a \<and> t > 0"
  obtains n where "r = None" and "kernel_ext k k' [approval_event ty a t n]"
  | err where "r = Some err" and "kernel_ext k k' []"
proof -
  have t: "(if TrimSpace (ap_Status a) \<noteq> ApprovalStatusPending \<and> ap_DecidedAt a \<noteq> 0 then ap_DecidedAt a else ap_RequestedAt a) = t"
    using assms(2) by auto
  define n where "n = fst (newID ''evt'' t k)"
  have app: "appendEvent (approval_event ty a t n) (snd (newID ''evt'' t k)) = (r, k')"
    using assms(1) unfolding appendApprovalEvent_def t Let_def by (simp add: n_def case_prod_unfold)
  show ?thesis
  proof (cases r)
    case None
    with app have "kernel_ext k k' [approval_event ty a t n]" using kernel_ext_newID [OF appendEvent_done(1)] by blast
    with None show ?thesis by (rule that(1))
  next
    case (Some err)
    with app have "kernel_ext k k' []" using kernel_ext_newID [OF appendEvent_failed(1)] by blast
    with Some show ?thesis by (rule that(2))
  qed
qed

lemma appendOperationEvent_skip:
  assumes "appendOperationEvent op k = (r, k')"
  shows "approval_ext k k'"
proof -
  obtain t n where "appendEvent (operation_event op t n) (snd (newID ''evt'' t k)) = (r, k')"
    using assms by (auto simp: appendOperationEvent_def Let_def case_prod_unfold)
  then have "kernel_ext k k' (if r = None then [operation_event op t n] else [])"
    by (rule kernel_ext_newID [OF appendEvent_ext])
  then show ?thesis
    by (rule approval_ext_skip) (simp add: is_approval_event_def operation_event_def)
qed

lemma approval_ok_requested: "now > 0 \<Longrightarrow> approval_ok (requested_approval op policy i now)"
  by (simp add: approval_ok_def requested_approval_def)

lemma requestApproval_ext:
  assumes "requestApprovalForBlockedShellOperation op k = (r, k')"
  shows "approval_ext k k'"
proof -
  let ?t = "fst (clock k)" and ?k = "snd (clock k)"
  define i where "i = fst (newID ''approval'' ?t ?k)"
  let ?a = "requested_approval op (resolveToolPolicy (env_toolPolicy (k_env k))) i ?t"
  consider "k' = k" | "appendApprovalEvent ''approval.requested'' ?a (snd (newID ''approval'' ?t ?k)) = (r, k')"
    using assms by (auto simp: requestApprovalForBlockedShellOperation_def Let_def case_prod_unfold i_def
        split: sum.splits if_splits option.splits)
  then show ?thesis
  proof cases
    case 1
    then show ?thesis by (simp add: approval_ext_refl)
  next
    case 2
    have "ap_Status ?a = ApprovalStatusPending \<and> ?t = ap_RequestedAt ?a \<or>
      TrimSpace (ap_Status ?a) \<noteq> ApprovalStatusPending \<and> ?t = ap_DecidedAt ?a \<and> ?t > 0" by (simp add: requested_approval_def)
    with 2 show ?thesis
    proof (cases rule: appendApprovalEvent_cases)
      case (failed err)
      then show ?thesis using approval_ext_same [OF kernel_ext_stamp1] by blast
    next
      case (appended n)
      note ext = kernel_ext_stamp1 [OF appended(2)]
      show ?thesis unfolding approval_ext_def
      proof (intro allI impI)
        fix v assume inv: "approval_inv k v"
        have uniq: "ulid_unique (k_env ?k)" using inv by (simp add: approval_inv_def env_ok_def)
        have id: "ap_ApprovalID ?a = i" by (simp add: requested_approval_def)
        have "i \<in> allocated k'" using newID_allocated [OF uniq] allocated_ext [OF appended(2)] by (auto simp: i_def)
        then have new: "approval_inv k' (v(i \<mapsto> ?a))"
          using approval_inv_event [OF inv ext _ approval_ok_requested] id approval_inv_clock [OF inv] by (simp add: requested_approval_def)
        have "i \<notin> allocated k" using newID_fresh [OF uniq] by (simp add: i_def)
        then have "v i = None" using inv unfolding approval_inv_def by (metis not_None_eq)
        then have "approvals_le v (v(i \<mapsto> ?a))" by (auto simp: approvals_le_def)
        with new show "\<exists>v'. approval_inv k' v' \<and> approvals_le v v'" by blast
      qed
    qed
  qed
qed

text \<open>
  What the gateway is relied on for: whatever it runs and stores, the only approvals it adds are
  requests for operations that are blocked.
\<close>

inductive shell_run :: "kernel \<Rightarrow> kernel \<Rightarrow> bool" where
  stay: "shell_run k k"
| request: "shell_run k k' \<Longrightarrow> requestApprovalForBlockedShellOperation op k' = (r, k'') \<Longrightarrow> shell_run k k''"
| other: "shell_run k k' \<Longrightarrow> kernel_ext k' k'' es \<Longrightarrow> \<forall>e \<in> set es. \<not> is_approval_event e \<Longrightarrow> shell_run k k''"

definition gateway_ok :: "shell_gateway \<Rightarrow> bool" where
  "gateway_ok g \<longleftrightarrow> (\<forall>req t k. shell_run k (snd (sg_InvokeShell g req t k)) \<and> shell_run k (snd (sg_ExecShell g req t k)))"

lemma shell_run_ext: "shell_run k k' \<Longrightarrow> approval_ext k k'"
  by (induction rule: shell_run.induct)
    (blast intro: approval_ext_refl approval_ext_trans requestApproval_ext approval_ext_skip)+

lemma effect_ext:
  assumes "gateway_ok g" and "ensureApprovedApprovalEffect g a op k = (err, k')"
  shows "approval_ext k k'"
proof -
  obtain req t where "k' = snd (sg_InvokeShell g req t k) \<or> k' = snd (sg_ExecShell g req t k)"
    using assms(2) unfolding ensureApprovedApprovalEffect_def Let_def by (metis snd_conv)
  then show ?thesis using assms(1) shell_run_ext unfolding gateway_ok_def by blast
qed

lemma first_error_None: "first_error es = None \<longleftrightarrow> (\<forall>e \<in> set es. e = None)"
  by (induction es rule: first_error.induct) auto

lemma decision_request_valid:
  assumes "validateApprovalDecisionRequest req = None"
  shows "kernelAuthorityPattern (TrimSpace (dr_DecisionAuthority req))" and "TrimSpace (dr_DecisionReason req) \<noteq> []"
    and "kernelRefPattern (TrimSpace (dr_DecisionEvidenceRef req))"
proof -
  have all: "validateKernelAuthority ''decision_authority'' (dr_DecisionAuthority req) = None"
    "(if TrimSpace (dr_DecisionReason req) = [] then Some (errors_New ''decision_reason is required'') else None) = None"
    "validateKernelRef ''decision_evidence_ref'' (dr_DecisionEvidenceRef req) = None"
    using assms unfolding validateApprovalDecisionRequest_def first_error_None by simp_all
  then show "kernelAuthorityPattern (TrimSpace (dr_DecisionAuthority req))" "TrimSpace (dr_DecisionReason req) \<noteq> []"
    "kernelRefPattern (TrimSpace (dr_DecisionEvidenceRef req))"
    by (auto simp: validateKernelAuthority_def validateKernelRef_def split: if_splits)
qed

text \<open>A decision on a pending record, stamped with the reading of the clock it was judged by.\<close>

lemma decided_ok:
  assumes "validateApprovalDecisionRequest req = None" and "approval_ok a" and "ap_RequestedAt a \<le> now"
    and "st \<in> {ApprovalStatusApproved, ApprovalStatusDenied, ApprovalStatusExpired}"
    and "st = ApprovalStatusApproved \<Longrightarrow> now \<le> ap_ExpiresAt a"
  shows "approval_ok (decideApprovalProjection a req st why now)"
  using decision_request_valid [OF assms(1)] assms(2-5) by (auto simp: approval_ok_def decideApprovalProjection_def)

lemma TrimSpace_decided:
  "st \<in> {ApprovalStatusApproved, ApprovalStatusDenied, ApprovalStatusExpired} \<Longrightarrow> TrimSpace st \<noteq> ApprovalStatusPending"
proof -
  have "TrimSpace ApprovalStatusApproved \<noteq> ApprovalStatusPending" by code_simp
  moreover have "TrimSpace ApprovalStatusDenied \<noteq> ApprovalStatusPending" by code_simp
  moreover have "TrimSpace ApprovalStatusExpired \<noteq> ApprovalStatusPending" by code_simp
  ultimately show "st \<in> {ApprovalStatusApproved, ApprovalStatusDenied, ApprovalStatusExpired} \<Longrightarrow> TrimSpace st \<noteq> ApprovalStatusPending"
    by blast
qed

lemma decide_append:
  assumes inv: "approval_inv k v" and a: "v i = Some a" "ap_Status a = ApprovalStatusPending"
    and req: "validateApprovalDecisionRequest req = None"
    and st: "st \<in> {ApprovalStatusApproved, ApprovalStatusDenied, ApprovalStatusExpired}"
    and late: "st = ApprovalStatusApproved \<Longrightarrow> fst (clock k) \<le> ap_ExpiresAt a"
    and run: "appendApprovalEvent ty (decideApprovalProjection a req st why (fst (clock k))) (snd (clock k)) = (r, k')"
  shows "\<exists>v'. approval_inv k' v' \<and> approvals_le v v'"
proof -
  let ?t = "fst (clock k)"
  let ?d = "decideApprovalProjection a req st why ?t"
  note pos = approval_inv_clock [OF inv]
  have ids: "ap_ApprovalID a = i" "i \<in> allocated k" "approval_ok a" "ap_RequestedAt a \<le> ?t"
    using inv a(1) by (auto simp: approval_inv_def clock_def)
  have d: "ap_ApprovalID ?d = i" "ap_RequestedAt ?d = ap_RequestedAt a" "ap_DecidedAt ?d = ?t" "ap_Status ?d = st"
    using ids(1) by (simp_all add: decideApprovalProjection_def)
  have "ap_Status ?d = ApprovalStatusPending \<and> ?t = ap_RequestedAt ?d \<or>
      TrimSpace (ap_Status ?d) \<noteq> ApprovalStatusPending \<and> ?t = ap_DecidedAt ?d \<and> ?t > 0"
    using pos TrimSpace_decided [OF st] d(3,4) by simp
  with run show ?thesis
  proof (cases rule: appendApprovalEvent_cases)
    case (failed err)
    then show ?thesis using approval_ext_same [OF kernel_ext_clock] inv unfolding approval_ext_def by blast
  next
    case (appended n)
    note ext = kernel_ext_clock [OF appended(2)]
    have "i \<in> allocated k'" using ids(2) allocated_ext [OF ext] by blast
    with approval_inv_event [OF inv ext] decided_ok [OF req ids(3,4) st late] d(1,2) ids(4)
    have "approval_inv k' (v(i \<mapsto> ?d))" by simp
    moreover have "approvals_le v (v(i \<mapsto> ?d))"
      using a by (auto simp: approvals_le_def request_of_def decideApprovalProjection_def)
    ultimately show ?thesis by blast
  qed
qed

lemma conclude_ext:
  assumes "conclude ty d op why now err k = (r, k')"
  obtains r1 k1 where "appendApprovalEvent ty d k = (r1, k1)" and "approval_ext k1 k'"
proof -
  obtain r1 k1 where first: "appendApprovalEvent ty d k = (r1, k1)" by (cases "appendApprovalEvent ty d k")
  show ?thesis
  proof (cases r1)
    case (Some e)
    with assms first have "k' = k1" by (simp add: conclude_def)
    with first that approval_ext_refl show ?thesis by blast
  next
    case None
    obtain r2 k2 where snd: "appendApprovalTerminalBlockedOperation op why now k1 = (r2, k2)"
      by (cases "appendApprovalTerminalBlockedOperation op why now k1")
    with assms first None have "k' = k2" by (cases r2) (simp_all add: conclude_def)
    with snd have "approval_ext k1 k'"
      using appendOperationEvent_skip by (auto simp: appendApprovalTerminalBlockedOperation_def)
    with first that show ?thesis by blast
  qed
qed

text \<open>
  The outcomes of a pending approval: it is concluded as expired or denied, it is approved and its
  effect runs, or the decision is neither.
\<close>

lemma decide_pending_cases [consumes 1, case_names concluded failed approved unknown]:
  assumes "decide_pending g req a op k = (r, k')"
  obtains ty st why why' err where "st \<in> {ApprovalStatusDenied, ApprovalStatusExpired}"
      and "conclude ty (decideApprovalProjection a req st why (fst (clock k))) op why' (fst (clock k)) err (snd (clock k)) = (r, k')"
  | err where "\<not> (ap_ExpiresAt a \<noteq> 0 \<and> ap_ExpiresAt a < fst (clock k))"
      and "appendApprovalEvent ''approval.approved'' (decideApprovalProjection a req ApprovalStatusApproved [] (fst (clock k)))
        (snd (clock k)) = (Some err, k')"
  | err k1 where "\<not> (ap_ExpiresAt a \<noteq> 0 \<and> ap_ExpiresAt a < fst (clock k))"
      and "appendApprovalEvent ''approval.approved'' (decideApprovalProjection a req ApprovalStatusApproved [] (fst (clock k)))
        (snd (clock k)) = (None, k1)"
      and "ensureApprovedApprovalEffect g (decideApprovalProjection a req ApprovalStatusApproved [] (fst (clock k))) op k1 = (err, k')"
  | "k' = snd (clock k)"
proof -
  let ?t = "fst (clock k)" and ?k = "snd (clock k)"
  let ?late = "ap_ExpiresAt a \<noteq> 0 \<and> ap_ExpiresAt a < ?t"
  let ?other = "\<not> sameApprovalPolicySnapshot (ap_PolicySnapshot a) (approvalPolicySnapshot (resolveToolPolicy (env_toolPolicy (k_env k))))"
  let ?stale = "op_Status op \<noteq> ''blocked'' \<or> op_BlockedReason op \<noteq> ''approval_required''"
  note run = assms [unfolded decide_pending_def Let_def case_prod_unfold clock_simps(1)]
  consider (late) "?late" | (other) "\<not> ?late" "?other" | (stale) "\<not> ?late" "\<not> ?other" "?stale"
    | (denied) "\<not> ?late" "\<not> ?other" "\<not> ?stale" "TrimSpace (dr_Decision req) = ''denied''"
    | (approved) "\<not> ?late" "\<not> ?other" "\<not> ?stale" "TrimSpace (dr_Decision req) = ''approved''"
    | (unknown) "\<not> ?late" "\<not> ?other" "\<not> ?stale" "TrimSpace (dr_Decision req) \<notin> {''approved'', ''denied''}" by blast
  then show ?thesis
  proof cases
    case approved
    show ?thesis
    proof (cases "appendApprovalEvent ''approval.approved'' (decideApprovalProjection a req ApprovalStatusApproved [] ?t) ?k")
      case (Pair r1 k1)
      show ?thesis
        using run approved Pair that(2) [OF approved(1)] that(3) [OF approved(1)]
        by (cases r1) (auto simp: case_prod_unfold prod_eq_iff)
    qed
  next
    case late
    with run show ?thesis by (simp add: that(1) [of ApprovalStatusExpired])
  next
    case other
    with run show ?thesis by (simp add: that(1) [of ApprovalStatusDenied])
  next
    case stale
    with run show ?thesis by (simp add: that(1) [of ApprovalStatusDenied] split: if_splits)
  next
    case denied
    with run show ?thesis by (simp add: that(1) [of ApprovalStatusDenied] split: if_splits)
  next
    case unknown
    with run show ?thesis by (auto intro: that(4) split: if_splits)
  qed
qed

lemma in_time_decision:
  assumes "approval_inv k v" and "v i = Some a" and "\<not> (ap_ExpiresAt a \<noteq> 0 \<and> ap_ExpiresAt a < fst (clock k))"
  shows "fst (clock k) \<le> ap_ExpiresAt a"
proof -
  have "ap_RequestedAt a > 0" "ap_ExpiresAt a = ap_RequestedAt a + defaultApprovalTTL"
    using assms(1,2) by (auto simp: approval_inv_def approval_ok_def)
  then have "ap_ExpiresAt a \<noteq> 0" by (simp add: defaultApprovalTTL_def)
  with assms(3) show ?thesis by simp
qed

lemma decide_pending_ext:
  assumes "gateway_ok g" and "validateApprovalDecisionRequest req = None" and "approval_inv k v"
    and "v i = Some a" and "ap_Status a = ApprovalStatusPending" and "decide_pending g req a op k = (r, k')"
  shows "\<exists>v'. approval_inv k' v' \<and> approvals_le v v'"
  using assms(6)
proof (cases rule: decide_pending_cases)
  case (concluded ty st why why' err)
  obtain r1 k1 where k1: "appendApprovalEvent ty (decideApprovalProjection a req st why (fst (clock k))) (snd (clock k)) = (r1, k1)"
    "approval_ext k1 k'" by (rule conclude_ext [OF concluded(2)])
  have "\<exists>v'. approval_inv k1 v' \<and> approvals_le v v'"
    by (rule decide_append [OF assms(3-5,2) _ _ k1(1)]) (use concluded(1) in auto)
  then show ?thesis using k1(2) approvals_le_trans unfolding approval_ext_def by blast
next
  case (failed err)
  note in_time_decision [OF assms(3,4) failed(1)]
  then show ?thesis by (intro decide_append [OF assms(3-5,2) _ _ failed(2)]) simp_all
next
  case (approved err k1)
  note in_time_decision [OF assms(3,4) approved(1)]
  then have "\<exists>v'. approval_inv k1 v' \<and> approvals_le v v'" by (intro decide_append [OF assms(3-5,2) _ _ approved(2)]) simp_all
  then show ?thesis using effect_ext [OF assms(1) approved(3)] approvals_le_trans unfolding approval_ext_def by blast
next
  case unknown
  then have "approval_ext k k'" using approval_ext_same [OF kernel_ext_clock] by auto
  with assms(3) show ?thesis unfolding approval_ext_def by blast
qed

lemma DecideApproval_cases [consumes 1, case_names refused again pending]:
  assumes "DecideApproval g req k = (r, k')"
  obtains "k' = k"
  | a op err where "ensureApprovedApprovalEffect g a op k = (err, k')"
  | a op where "validateApprovalDecisionRequest req = None" and "approvalByID (dr_ApprovalID req) k = Inr (Some a)"
      and "ap_Status a = ApprovalStatusPending" and "decide_pending g req a op k = (r, k')"
proof (cases "validateApprovalDecisionRequest req")
  case (Some err)
  with assms show ?thesis using that(1) by (simp add: DecideApproval_def)
next
  case valid: None
  show ?thesis
  proof (cases "approvalByID (dr_ApprovalID req) k")
    case (Inl err)
    with assms valid show ?thesis using that(1) by (simp add: DecideApproval_def)
  next
    case (Inr found)
    show ?thesis
    proof (cases found)
      case None
      with assms valid Inr show ?thesis using that(1) by (simp add: DecideApproval_def)
    next
      case (Some a)
      note run = assms [unfolded DecideApproval_def Let_def valid Inr Some option.case sum.case]
      show ?thesis
      proof (cases "ap_Status a = ApprovalStatusPending")
        case True
        with run show ?thesis using that(1) that(3) [OF valid Inr [unfolded Some] True]
          by (auto split: sum.splits option.splits)
      next
        case False
        with run show ?thesis using that(1,2) by (auto split: if_splits sum.splits option.splits prod.splits)
      qed
    qed
  qed
qed

lemma DecideApproval_ext:
  assumes "gateway_ok g" and "DecideApproval g req k = (r, k')"
  shows "approval_ext k k'"
  using assms(2)
proof (cases rule: DecideApproval_cases)
  case refused
  then show ?thesis by (simp add: approval_ext_refl)
next
  case (again a op err)
  then show ?thesis by (rule effect_ext [OF assms(1)])
next
  case (pending a op)
  show ?thesis unfolding approval_ext_def
  proof (intro allI impI)
    fix v assume inv: "approval_inv k v"
    have "v (TrimSpace (dr_ApprovalID req)) = Some a" using approval_read [OF inv pending(2)] by simp
    then show "\<exists>v'. approval_inv k' v' \<and> approvals_le v v'"
      by (rule decide_pending_ext [OF assms(1) pending(1) inv _ pending(3,4)])
  qed
qed

section \<open>Any sequence of operations\<close>

inductive approval_run :: "kernel \<Rightarrow> kernel \<Rightarrow> bool" where
  stay: "approval_run k k"
| request: "approval_run k k' \<Longrightarrow> requestApprovalForBlockedShellOperation op k' = (r, k'') \<Longrightarrow> approval_run k k''"
| decide: "approval_run k k' \<Longrightarrow> gateway_ok g \<Longrightarrow> DecideApproval g req k' = (d, k'') \<Longrightarrow> approval_run k k''"
| other: "approval_run k k' \<Longrightarrow> kernel_ext k' k'' es \<Longrightarrow> \<forall>e \<in> set es. \<not> is_approval_event e \<Longrightarrow> approval_run k k''"

lemma approval_run_ext: "approval_run k k' \<Longrightarrow> approval_ext k k'"
  by (induction rule: approval_run.induct)
    (blast intro: approval_ext_refl approval_ext_trans requestApproval_ext DecideApproval_ext approval_ext_skip)+

lemma approval_run_trans: "approval_run k' k'' \<Longrightarrow> approval_run k k' \<Longrightarrow> approval_run k k''"
  by (induction rule: approval_run.induct) (blast intro: approval_run.intros)+

definition new_kernel :: "kernel \<Rightarrow> bool" where
  "new_kernel k \<longleftrightarrow> env_ok (k_env k) \<and> clock_set (k_env k) \<and> mono (env_clock (k_env k)) \<and> k_rows k = []"

lemma approval_run_inv:
  assumes "new_kernel k" and "approval_run k k'"
  obtains v where "approval_inv k' v"
proof -
  have "approval_inv k Map.empty"
    using assms(1) av.in_time_empty av.view_empty by (simp add: new_kernel_def approval_inv_def)
  then show ?thesis using approval_run_ext [OF assms(2)] that unfolding approval_ext_def by blast
qed

lemma approval_runs_le:
  assumes "approval_run k k'" and "approval_inv k v" and "approval_inv k' v'"
  shows "approvals_le v v'"
proof -
  obtain w where "approval_inv k' w" "approvals_le v w" using approval_run_ext [OF assms(1)] assms(2) unfolding approval_ext_def by blast
  with assms(3) show ?thesis by (simp add: approval_inv_def)
qed

section \<open>Properties\<close>

text \<open>
  C22: an approval is decided once. Between two reads of an approval, whatever is requested, decided
  and run in between, the record is not lost and keeps everything that was asked for: the session,
  turn and operation, the tool, the effect, the policy and the time it expires. Once it is no longer
  pending it does not change at all, neither its outcome nor who decided it, when and why.
\<close>

theorem approval_decided_once:
  assumes "new_kernel k" and "approval_run k k1" and "approval_run k1 k2"
    and "approvalByID i k1 = Inr (Some a)" and "approvalByID i k2 = Inr found"
  shows "\<exists>b. found = Some b \<and> request_of b = request_of a \<and> (ap_Status a \<noteq> ApprovalStatusPending \<longrightarrow> b = a)"
proof -
  obtain v1 where v1: "approval_inv k1 v1" by (rule approval_run_inv [OF assms(1,2)])
  obtain v2 where v2: "approval_inv k2 v2" by (rule approval_run_inv [OF assms(1) approval_run_trans [OF assms(3,2)]])
  have "v1 (TrimSpace i) = Some a" "found = v2 (TrimSpace i)"
    using approval_read [OF v1 assms(4)] approval_read [OF v2 assms(5)] by simp_all
  then show ?thesis using approval_runs_le [OF assms(3) v1 v2] unfolding approvals_le_def by blast
qed

lemma approvalAuthorizes_cases:
  assumes "approvalAuthorizesShellExecution i req turn policy k = Inr (True, why)"
  obtains a op where "approvalByID i k = Inr (Some a)" and "ap_Status a = ApprovalStatusApproved"
    and "TrimSpace (sr_IdempotencyKey req) = ''approval:'' @ TrimSpace i"
    and "sameApprovalPolicySnapshot (ap_PolicySnapshot a) (approvalPolicySnapshot policy)"
    and "rawOperationByID (ap_SessionID a) (ap_OperationID a) k = Inr (Some op)" and "op_Tool op = ''shell_exec''"
    and "op_SessionID op = TrimSpace (sr_SessionID req)" and "op_TurnID op = TrimSpace turn"
    and "op_CWD op = TrimSpace (sr_CWD req)" and "op_Command op = TrimSpace (sr_Command req)"
    and "normalizedShellTimeoutSec k (op_TimeoutSec op) = normalizedShellTimeoutSec k (sr_TimeoutSec req)"
proof -
  have trim: "approvalByID (TrimSpace i) k = approvalByID i k" by (simp add: approvalByID_def)
  note run = assms [unfolded approvalAuthorizesShellExecution_def Let_def trim]
  obtain a where a: "approvalByID i k = Inr (Some a)"
    using run by (auto simp: bind_res_Inr_iff split: if_splits option.splits)
  obtain op where op: "rawOperationByID (ap_SessionID a) (ap_OperationID a) k = Inr (Some op)"
    using run a by (auto simp: bind_res_Inr_iff split: if_splits option.splits)
  show ?thesis using run a op by (intro that [OF a _ _ _ op]) (auto split: if_splits)
qed

text \<open>
  C23: what an approval lets through. When the check of an execution against an approval says yes, the
  log holds that approval, approved by a kernel authority with a reason and evidence, no earlier than
  it was requested and no later than its fifteen minutes; the policy it was asked under is the one in
  force; and the operation it was asked for is the same shell command, in the same directory, session
  and turn, with the same timeout, under the idempotency key of that approval.
\<close>

theorem approval_authorizes_exactly:
  assumes "new_kernel k0" and "approval_run k0 k"
    and "approvalAuthorizesShellExecution i req turn policy k = Inr (True, why)"
  shows "\<exists>a op. approvalByID i k = Inr (Some a) \<and> ap_Status a = ApprovalStatusApproved \<and>
    kernelAuthorityPattern (ap_DecisionAuthority a) \<and> ap_DecisionReason a \<noteq> [] \<and> kernelRefPattern (ap_DecisionEvidenceRef a) \<and>
    ap_RequestedAt a \<le> ap_DecidedAt a \<and> ap_DecidedAt a \<le> ap_RequestedAt a + defaultApprovalTTL \<and>
    ap_PolicySnapshot a = approvalPolicySnapshot policy \<and>
    rawOperationByID (ap_SessionID a) (ap_OperationID a) k = Inr (Some op) \<and>
    op_Tool op = ''shell_exec'' \<and> op_SessionID op = TrimSpace (sr_SessionID req) \<and> op_TurnID op = TrimSpace turn \<and>
    op_CWD op = TrimSpace (sr_CWD req) \<and> op_Command op = TrimSpace (sr_Command req) \<and>
    normalizedShellTimeoutSec k (op_TimeoutSec op) = normalizedShellTimeoutSec k (sr_TimeoutSec req) \<and>
    TrimSpace (sr_IdempotencyKey req) = ''approval:'' @ TrimSpace i"
  using assms(3)
proof (rule approvalAuthorizes_cases)
  fix a op
  assume a: "approvalByID i k = Inr (Some a)" "ap_Status a = ApprovalStatusApproved"
    and rest: "TrimSpace (sr_IdempotencyKey req) = ''approval:'' @ TrimSpace i"
      "sameApprovalPolicySnapshot (ap_PolicySnapshot a) (approvalPolicySnapshot policy)"
      "rawOperationByID (ap_SessionID a) (ap_OperationID a) k = Inr (Some op)" "op_Tool op = ''shell_exec''"
      "op_SessionID op = TrimSpace (sr_SessionID req)" "op_TurnID op = TrimSpace turn"
      "op_CWD op = TrimSpace (sr_CWD req)" "op_Command op = TrimSpace (sr_Command req)"
      "normalizedShellTimeoutSec k (op_TimeoutSec op) = normalizedShellTimeoutSec k (sr_TimeoutSec req)"
  obtain v where inv: "approval_inv k v" by (rule approval_run_inv [OF assms(1,2)])
  have "approval_ok a" using approval_read [OF inv a(1)] inv by (auto simp: approval_inv_def)
  moreover have "ap_PolicySnapshot a = approvalPolicySnapshot policy"
    using rest(2) by (simp add: sameApprovalPolicySnapshot_def)
  ultimately show ?thesis using a rest by (intro exI [of _ a] exI [of _ op]) (simp add: approval_ok_def)
qed

text \<open>A command that is blocked, asked for, approved and then checked.\<close>

definition blocked_operation :: OperationProjection where
  "blocked_operation = \<lparr>op_OperationID = ''op_1'', op_SessionID = ''s'', op_TurnID = ''t'', op_Tool = ''shell_exec'',
     op_IdempotencyKey = [], op_Status = ''blocked'', op_PermissionMode = [], op_AuthorityPolicy = [], op_SandboxProfile = [],
     op_ApprovalPolicy = [], op_CWD = ''/w'', op_Command = ''make'', op_TimeoutSec = 20, op_TimedOut = False, op_TimeoutReason = [],
     op_Interrupted = False, op_InterruptReason = [], op_ElapsedMs = 0, op_ExitCode = None, op_Stdout = [], op_Stderr = [],
     op_StdoutTruncated = False, op_StderrTruncated = False, op_StdoutOriginalBytes = 0, op_StderrOriginalBytes = 0,
     op_StdoutOmittedBytes = 0, op_StderrOmittedBytes = 0, op_OutputTruncation = [], op_BlockedReason = ''approval_required'',
     op_InfrastructureReason = [], op_StartedAt = 1000, op_EndedAt = 0\<rparr>"

definition idle_gateway :: shell_gateway where
  "idle_gateway = \<lparr>sg_InvokeShell = (\<lambda>req t k. (None, k)), sg_ExecShell = (\<lambda>req t k. (None, k))\<rparr>"

definition sample_decision :: ApprovalDecisionRequest where
  "sample_decision = \<lparr>dr_ApprovalID = ''approval_x'', dr_Decision = ''approved'', dr_DecisionAuthority = ''operator:ann'',
     dr_DecisionReason = ''seen'', dr_DecisionEvidenceRef = ''review:1''\<rparr>"

definition sample_shell :: ShellExecRequest where
  "sample_shell = \<lparr>sr_SessionID = ''s'', sr_CWD = ''/w'', sr_Command = ''make'', sr_TimeoutSec = 20,
     sr_IdempotencyKey = ''approval:approval_x'', sr_approvedByID = ''approval_x''\<rparr>"

definition approval_k0 :: kernel where "approval_k0 = snd (appendOperationEvent blocked_operation sample_kernel)"
definition approval_k1 :: kernel where "approval_k1 = snd (requestApprovalForBlockedShellOperation blocked_operation approval_k0)"
definition approval_k2 :: kernel where "approval_k2 = snd (DecideApproval idle_gateway sample_decision approval_k1)"

definition approval_k3 :: kernel where
  "approval_k3 = snd (DecideApproval idle_gateway (sample_decision\<lparr>dr_Decision := ''denied''\<rparr>) approval_k2)"

lemma sample_new_kernel: "new_kernel sample_kernel"
  using sample_timely by (simp add: new_kernel_def timely_def clock_set_def) (simp add: sample_kernel_def sample_env_def)

lemma idle_gateway_ok: "gateway_ok idle_gateway"
  by (simp add: gateway_ok_def idle_gateway_def shell_run.stay)

lemma approval_k0_run: "approval_run sample_kernel approval_k0"
proof -
  obtain r where r: "appendOperationEvent blocked_operation sample_kernel = (r, approval_k0)"
    by (metis approval_k0_def prod.collapse)
  then obtain t n where "appendEvent (operation_event blocked_operation t n) (snd (newID ''evt'' t sample_kernel)) = (r, approval_k0)"
    by (auto simp: appendOperationEvent_def Let_def case_prod_unfold)
  from kernel_ext_newID [OF appendEvent_ext [OF this]] show ?thesis
    by (rule approval_run.other [OF approval_run.stay]) (simp add: is_approval_event_def operation_event_def)
qed

lemma approval_k1_run: "approval_run sample_kernel approval_k1"
  using approval_run.request [OF approval_k0_run prod.collapse [symmetric]] unfolding approval_k1_def .

lemma approval_k2_run: "approval_run sample_kernel approval_k2"
  using approval_run.decide [OF approval_k1_run idle_gateway_ok prod.collapse [symmetric]] unfolding approval_k2_def .

lemma approval_k3_run: "approval_run approval_k2 approval_k3"
  using approval_run.decide [OF approval_run.stay idle_gateway_ok prod.collapse [symmetric]] unfolding approval_k3_def .

text \<open>The states of this run in closed form.\<close>

definition sample_asked :: ApprovalProjection where
  "sample_asked = requested_approval blocked_operation (resolveToolPolicy sample_tool_policy) ''approval_x'' 1000"

definition sample_approved :: ApprovalProjection where
  "sample_approved = decideApprovalProjection sample_asked sample_decision ApprovalStatusApproved [] 1001"

lemma operation_event_simps [simp]:
  "ed_Approval (ev_Data (operation_event p t i)) = None" "ev_EventID (operation_event p t i) = i"
  "ed_Operation (ev_Data (operation_event p t i)) = Some p" "ev_CreatedAt (operation_event p t i) = t"
  "ev_SessionID (operation_event p t i) = op_SessionID p" "event_approval (operation_event p t i) = None"
  by (simp_all add: operation_event_def event_approval_def)

lemma approval_event_simps [simp]:
  "ev_EventID (approval_event y a t i) = i" "ed_Operation (ev_Data (approval_event y a t i)) = None"
  by (simp_all add: approval_event_def)

lemma blocked_operation_simps [simp]:
  "op_BlockedReason blocked_operation = ''approval_required''" "op_OperationID blocked_operation = ''op_1''"
  "op_SessionID blocked_operation = ''s''" "op_Status blocked_operation = ''blocked''" "op_Tool blocked_operation = ''shell_exec''"
  "op_TurnID blocked_operation = ''t''" "op_CWD blocked_operation = ''/w''" "op_Command blocked_operation = ''make''"
  "op_TimeoutSec blocked_operation = 20"
  by (simp_all add: blocked_operation_def)

lemma sample_asked_simps [simp]:
  "ap_ApprovalID sample_asked = ''approval_x''" "ap_Status sample_asked = ApprovalStatusPending" "ap_RequestedAt sample_asked = 1000"
  "ap_SessionID sample_asked = ''s''" "ap_OperationID sample_asked = ''op_1''" "ap_ExpiresAt sample_asked = 1000 + defaultApprovalTTL"
  "ap_PolicySnapshot sample_asked = approvalPolicySnapshot (resolveToolPolicy sample_tool_policy)"
  by (simp_all add: sample_asked_def requested_approval_def)

lemma sample_trims [simp]:
  "TrimSpace ''approval_required'' = ''approval_required''" "TrimSpace ''approval_x'' = ''approval_x''"
  "TrimSpace ''approved'' = ''approved''" "TrimSpace ''denied'' = ''denied''" "TrimSpace ''s'' = ''s''" "TrimSpace ''t'' = ''t''"
  "TrimSpace ''/w'' = ''/w''" "TrimSpace ''make'' = ''make''" "TrimSpace ''approval:approval_x'' = ''approval:approval_x''"
  "TrimSpace ''operator:ann'' = ''operator:ann''"
  by code_simp+

lemma sample_decision_simps [simp]:
  "dr_ApprovalID sample_decision = ''approval_x''" "dr_Decision sample_decision = ''approved''"
  "dr_DecisionAuthority sample_decision = ''operator:ann''"
  by (simp_all add: sample_decision_def)

lemma sample_approved_simps [simp]:
  "ap_Status sample_approved = ApprovalStatusApproved" "ap_DecidedAt sample_approved = 1001" "ap_ApprovalID sample_approved = ''approval_x''"
  "ap_DecisionAuthority sample_approved = ''operator:ann''" "ap_SessionID sample_approved = ''s''" "ap_OperationID sample_approved = ''op_1''"
  "ap_PolicySnapshot sample_approved = approvalPolicySnapshot (resolveToolPolicy sample_tool_policy)"
  by (simp_all add: sample_approved_def decideApprovalProjection_def)

lemma sameApprovalPolicySnapshot_refl [simp]: "sameApprovalPolicySnapshot s s"
  by (simp add: sameApprovalPolicySnapshot_def)

abbreviation asked_rows :: "StoredEvent list" where
  "asked_rows \<equiv> [operation_event blocked_operation 1000 ''evt_'', approval_event ''approval.requested'' sample_asked 1000 ''evt_xx'']"

lemma approval_k0_state: "approval_k0 = sample_state [operation_event blocked_operation 1000 ''evt_''] 0 1"
  by (simp add: approval_k0_def sample_kernel_state appendOperationEvent_def) (simp add: blocked_operation_def)

lemma approval_k1_state: "approval_k1 = sample_state asked_rows 1 3"
  by (simp add: approval_k1_def approval_k0_state requestApprovalForBlockedShellOperation_def approvalByOperationID_def
      appendApprovalEvent_def eval_nat_numeral flip: sample_asked_def)

lemma approval_k2_state:
  "approval_k2 = sample_state (asked_rows @ [approval_event ''approval.approved'' sample_approved 1001 ''evt_xxx'']) 2 4"
proof -
  have "validateApprovalDecisionRequest sample_decision = None" by code_simp
  then have "DecideApproval idle_gateway sample_decision approval_k1 =
      decide_pending idle_gateway sample_decision sample_asked blocked_operation approval_k1"
    by (simp add: DecideApproval_def approvalByID_def rawOperationByID_def approval_k1_state)
  moreover have "ensureApprovedApprovalEffect idle_gateway a p k = (None, k)" for a p k
    by (simp add: ensureApprovedApprovalEffect_def idle_gateway_def Let_def)
  ultimately show ?thesis
    by (simp add: approval_k2_def approval_k1_state decide_pending_def defaultApprovalTTL_def appendApprovalEvent_def
        eval_nat_numeral flip: sample_approved_def)
qed

lemma approval_k3_state: "approval_k3 = approval_k2"
proof -
  have "validateApprovalDecisionRequest (sample_decision\<lparr>dr_Decision := ''denied''\<rparr>) = None" by code_simp
  then show ?thesis by (simp add: approval_k3_def DecideApproval_def approvalByID_def approval_k2_state)
qed

theorem approval_decided_once_witness:
  "approvalByID ''approval_x'' approval_k2 = Inr (Some sample_approved) \<and>
   approvalByID ''approval_x'' approval_k3 = Inr (Some sample_approved) \<and> ap_Status sample_approved \<noteq> ApprovalStatusPending"
proof -
  have 2: "approvalByID ''approval_x'' approval_k2 = Inr (Some sample_approved)"
    by (simp add: approvalByID_def approval_k2_state)
  obtain f where f: "approvalByID ''approval_x'' approval_k3 = Inr f"
    by (simp add: approvalByID_def approval_k3_state approval_k2_state)
  from approval_decided_once [OF sample_new_kernel approval_k2_run approval_k3_run 2 f] 2 f show ?thesis by auto
qed

theorem approval_authorizes_exactly_witness:
  "\<exists>a. approvalByID ''approval_x'' approval_k2 = Inr (Some a) \<and> ap_DecidedAt a \<le> ap_RequestedAt a + defaultApprovalTTL \<and>
     approvalAuthorizesShellExecution ''approval_x'' sample_shell ''t'' (resolveToolPolicy sample_tool_policy) approval_k2 = Inr (True, [])"
proof -
  have yes: "approvalAuthorizesShellExecution ''approval_x'' sample_shell ''t'' (resolveToolPolicy sample_tool_policy) approval_k2 = Inr (True, [])"
    by (simp add: approvalAuthorizesShellExecution_def approvalByID_def rawOperationByID_def approval_k2_state sample_shell_def)
  from approval_authorizes_exactly [OF sample_new_kernel approval_k2_run yes] obtain a where
    "approvalByID ''approval_x'' approval_k2 = Inr (Some a)" "ap_DecidedAt a \<le> ap_RequestedAt a + defaultApprovalTTL" by (elim exE conjE)
  with yes show ?thesis by blast
qed

end
