(* ===== verification/Jobs.thy ===== *)
theory Jobs
  imports Approvals Loop_Guard
begin

text \<open>
  Managed jobs (\<^verbatim>\<open>jobs.go\<close>): a shell command that outlives its turn runs as a job. The ledger holds its facts:
  that it was started, snapshots of its output, requests to cancel it and how it ended. The executor runs the
  processes and calls back; the kernel decides what becomes a fact.
\<close>

section \<open>Job facts\<close>

abbreviation localManagedShellExecutorRef :: string where "localManagedShellExecutorRef \<equiv> ''local_managed_shell''"
abbreviation defaultJobWaitTimeoutSec :: int where "defaultJobWaitTimeoutSec \<equiv> 1"
abbreviation maxJobWaitTimeoutSec :: int where "maxJobWaitTimeoutSec \<equiv> 30"
abbreviation maxShellOutputBytes :: int where "maxShellOutputBytes \<equiv> 64 * 1024"

definition no_job :: JobProjection where
  "no_job = \<lparr>jb_JobID = [], jb_SessionID = [], jb_TurnID = [], jb_Tool = [], jb_IdempotencyKey = [], jb_SourceOperationID = [],
     jb_ExecutorRef = [], jb_Status = [], jb_CWD = [], jb_Command = [], jb_TimeoutSec = 0, jb_ExitCode = None, jb_Stdout = [],
     jb_Stderr = [], jb_StdoutTruncated = False, jb_StderrTruncated = False, jb_Receipt = [], jb_FailureReason = [],
     jb_CancelReason = [], jb_StartedAt = 0, jb_CompletedAt = 0, jb_ToolCallEventID = []\<rparr>"

definition isJobFactEvent :: "string \<Rightarrow> bool" where
  "isJobFactEvent eventType \<longleftrightarrow> eventType \<in> {''job.started'', ''job.output'', ''job.cancel_requested'', ''job.completed'',
     ''job.failed'', ''job.cancelled''}"

definition isTerminalJobStatus :: "string \<Rightarrow> bool" where
  "isTerminalJobStatus status \<longleftrightarrow> TrimSpace status \<in> {''completed'', ''failed'', ''cancelled''}"

text \<open>The job of a fact; a missing identifier is taken from the event.\<close>

definition fill_job_id :: "StoredEvent \<Rightarrow> JobProjection \<Rightarrow> JobProjection" where
  "fill_job_id event job =
     (let job = (if TrimSpace (jb_JobID job) = [] then job\<lparr>jb_JobID := TrimSpace (ev_JobID event)\<rparr> else job)
      in if TrimSpace (jb_JobID job) = [] \<and> ev_Type event = ''job.started''
         then job\<lparr>jb_JobID := TrimSpace (ev_EventID event)\<rparr> else job)"

definition event_job :: "StoredEvent \<Rightarrow> JobProjection option" where
  "event_job event =
     (case ed_Job (ev_Data event) of
        None \<Rightarrow> None
      | Some job \<Rightarrow> if isJobFactEvent (ev_Type event) then Some (fill_job_id event job) else None)"

definition lookupSessionJob :: "string \<Rightarrow> string \<Rightarrow> kernel \<Rightarrow> JobProjection option res" where
  "lookupSessionJob sessionID jobID k =
     (let sessionID = TrimSpace sessionID; jobID = TrimSpace jobID
      in if sessionID = [] \<or> jobID = [] then Inr None
         else bind_res (loadEvents k) (\<lambda>events. Inr (foldl (\<lambda>latest event.
           case event_job event of
             Some job \<Rightarrow> if ev_SessionID event = sessionID \<and> TrimSpace (jb_JobID job) = jobID then Some job else latest
           | None \<Rightarrow> latest) None events)))"

definition lookupSessionJobByIdempotencyKey :: "string \<Rightarrow> string \<Rightarrow> string \<Rightarrow> kernel \<Rightarrow> JobProjection option res" where
  "lookupSessionJobByIdempotencyKey sessionID tool key k =
     (let sessionID = TrimSpace sessionID; tool = TrimSpace tool; key = TrimSpace key
      in if sessionID = [] \<or> tool = [] \<or> key = [] then Inr None
         else bind_res (loadEvents k) (\<lambda>events. Inr (foldl (\<lambda>latest event.
           case event_job event of
             Some job \<Rightarrow> if ev_SessionID event = sessionID \<and> TrimSpace (jb_Tool job) = tool \<and> TrimSpace (jb_IdempotencyKey job) = key
                         then Some job else latest
           | None \<Rightarrow> latest) None events)))"

section \<open>Storing a fact\<close>

definition job_event :: "string \<Rightarrow> JobProjection \<Rightarrow> time \<Rightarrow> string \<Rightarrow> StoredEvent" where
  "job_event eventType job createdAt eventID =
     no_event\<lparr>ev_EventID := eventID, ev_SessionID := jb_SessionID job, ev_TurnID := jb_TurnID job, ev_JobID := jb_JobID job,
       ev_Type := eventType, ev_CreatedAt := createdAt, ev_Data := no_data\<lparr>ed_Job := Some job\<rparr>\<rparr>"

definition appendJobEvent :: "string \<Rightarrow> JobProjection \<Rightarrow> kernel \<Rightarrow> go_error option \<times> kernel" where
  "appendJobEvent eventType job k =
     (let createdAt = (if eventType = ''job.started'' then jb_StartedAt job else jb_CompletedAt job);
          (createdAt, k) = (if createdAt = 0 then clock k else (createdAt, k));
          (eventID, k) = newID ''evt'' createdAt k
      in appendEvent (job_event eventType job createdAt (if eventType = ''job.started'' then jb_JobID job else eventID)) k)"

definition mergeJobOutputSnapshot :: "JobProjection \<Rightarrow> JobProjection \<Rightarrow> JobProjection" where
  "mergeJobOutputSnapshot current snapshot =
     no_job\<lparr>jb_SessionID := jb_SessionID current, jb_TurnID := jb_TurnID current, jb_JobID := jb_JobID current, jb_Tool := jb_Tool current,
       jb_IdempotencyKey := jb_IdempotencyKey current, jb_SourceOperationID := jb_SourceOperationID current,
       jb_ExecutorRef := jb_ExecutorRef current,
       jb_Status := (if TrimSpace (jb_Status current) \<noteq> [] then jb_Status current else ''running''),
       jb_CWD := jb_CWD current, jb_Command := jb_Command current, jb_TimeoutSec := jb_TimeoutSec current, jb_Receipt := jb_Receipt current,
       jb_StartedAt := jb_StartedAt current, jb_ToolCallEventID := jb_ToolCallEventID current,
       jb_Stdout := jb_Stdout snapshot, jb_Stderr := jb_Stderr snapshot,
       jb_StdoutTruncated := jb_StdoutTruncated snapshot, jb_StderrTruncated := jb_StderrTruncated snapshot\<rparr>"

definition normalizeJobOutputSnapshot :: "JobProjection \<Rightarrow> JobProjection" where
  "normalizeJobOutputSnapshot job =
     (let captured = applyJobOutputCapture job (captureBytes (jb_Stdout job) maxShellOutputBytes) (captureBytes (jb_Stderr job) maxShellOutputBytes)
      in captured\<lparr>jb_StdoutTruncated := jb_StdoutTruncated captured \<or> jb_StdoutTruncated job,
           jb_StderrTruncated := jb_StderrTruncated captured \<or> jb_StderrTruncated job\<rparr>)"

definition appendJobOutputEvent :: "JobProjection \<Rightarrow> kernel \<Rightarrow> go_error option \<times> kernel" where
  "appendJobOutputEvent job k =
     (case lookupSessionJob (jb_SessionID job) (jb_JobID job) k of
        Inl err \<Rightarrow> (Some err, k)
      | Inr None \<Rightarrow> (None, k)
      | Inr (Some current) \<Rightarrow>
          if isTerminalJobStatus (jb_Status current) then (None, k)
          else appendJobEvent ''job.output'' (normalizeJobOutputSnapshot (mergeJobOutputSnapshot current job)) k)"

text \<open>The kind of a terminal fact and the job as it is stored.\<close>

definition terminal_fact :: "JobProjection \<Rightarrow> string \<times> JobProjection" where
  "terminal_fact job =
     (if TrimSpace (jb_Status job) = ''completed'' then (''job.completed'', job)
      else if TrimSpace (jb_Status job) = ''cancelled'' then (''job.cancelled'', job)
      else (''job.failed'', job\<lparr>jb_Status := ''failed''\<rparr>))"

definition appendTerminalJobEvent :: "JobProjection \<Rightarrow> kernel \<Rightarrow> go_error option \<times> kernel" where
  "appendTerminalJobEvent job k =
     (case lookupSessionJob (jb_SessionID job) (jb_JobID job) k of
        Inl err \<Rightarrow> (Some err, k)
      | Inr current \<Rightarrow>
          if (case current of Some j \<Rightarrow> isTerminalJobStatus (jb_Status j) | None \<Rightarrow> False) then (None, k)
          else
            let job = (if TrimSpace (jb_Status job) = [] then job\<lparr>jb_Status := ''failed''\<rparr> else job);
                (job, k) = (if jb_CompletedAt job = 0 then (case clock k of (now, k) \<Rightarrow> (job\<lparr>jb_CompletedAt := now\<rparr>, k)) else (job, k));
                (eventType, job) = terminal_fact job
            in appendJobEvent eventType job k)"

section \<open>Starting a job\<close>

definition validateShellRequest :: "ShellExecRequest \<Rightarrow> go_error option" where
  "validateShellRequest req =
     (if TrimSpace (sr_SessionID req) = [] then Some (errors_New ''session_id is required'')
      else if TrimSpace (sr_CWD req) = [] then Some (errors_New ''cwd is required'')
      else if TrimSpace (sr_Command req) = [] then Some (errors_New ''command is required'')
      else if sr_TimeoutSec req < 0 then Some (errors_New ''timeout_sec must be greater than zero'')
      else validateIdempotencyKey (sr_IdempotencyKey req))"

text \<open>
  The executor: its reference if it is the local one, whether it can take over a foreground process, and what
  it answers (the text of its error, if any). While it takes over, it may report the output so far.
\<close>

record job_executor =
  je_Ref :: string
  je_ForegroundAttach :: bool
  je_Start :: "JobProjection \<Rightarrow> kernel \<Rightarrow> string option"
  je_Cancel :: "string \<Rightarrow> string \<Rightarrow> kernel \<Rightarrow> string option"
  je_AttachForeground :: "string \<Rightarrow> JobProjection \<Rightarrow> kernel \<Rightarrow> JobProjection option \<times> bool"

definition managedJobExecutorRef :: "job_executor option \<Rightarrow> string" where
  "managedJobExecutorRef executor = (case executor of Some e \<Rightarrow> je_Ref e | None \<Rightarrow> [])"

definition started_job :: "job_executor option \<Rightarrow> ShellExecRequest \<Rightarrow> string \<Rightarrow> string \<Rightarrow> int \<Rightarrow> string \<Rightarrow> time \<Rightarrow> JobProjection" where
  "started_job executor req turnID toolCallEventID timeoutSec jobID startedAt =
     no_job\<lparr>jb_JobID := jobID, jb_SessionID := TrimSpace (sr_SessionID req), jb_TurnID := TrimSpace turnID, jb_Tool := ''shell_exec'',
       jb_IdempotencyKey := TrimSpace (sr_IdempotencyKey req), jb_ExecutorRef := managedJobExecutorRef executor, jb_Status := ''running'',
       jb_CWD := TrimSpace (sr_CWD req), jb_Command := TrimSpace (sr_Command req), jb_TimeoutSec := timeoutSec,
       jb_Receipt := ''Command was accepted as managed job '' @ jobID @
         ''. No synchronous command output is available in this tool result; terminal job evidence is recorded in the session events.'',
       jb_StartedAt := startedAt, jb_ToolCallEventID := TrimSpace toolCallEventID\<rparr>"

definition existing_job :: "string \<Rightarrow> string \<Rightarrow> kernel \<Rightarrow> JobProjection option res" where
  "existing_job sessionID idempotencyKey k =
     (if idempotencyKey \<noteq> [] then lookupSessionJobByIdempotencyKey sessionID ''shell_exec'' idempotencyKey k else Inr None)"

definition prepareManagedShellJob ::
  "job_executor option \<Rightarrow> ShellExecRequest \<Rightarrow> string \<Rightarrow> string \<Rightarrow> kernel \<Rightarrow> (JobProjection \<times> bool) res \<times> kernel" where
  "prepareManagedShellJob executor req turnID toolCallEventID k =
     (case validateShellRequest req of Some err \<Rightarrow> (Inl err, k) | None \<Rightarrow>
      let timeoutSec = normalizedShellTimeoutSec k (sr_TimeoutSec req)
      in if \<not> shellTimeoutExceedsForeground k timeoutSec
         then (Inl (Errorf ''managed shell jobs require timeout_sec greater than %d''
                 [show_int (sp_ManagedJobThresholdSec (env_shellTimeoutPolicy (k_env k)))]), k)
         else case existing_job (TrimSpace (sr_SessionID req)) (TrimSpace (sr_IdempotencyKey req)) k of
             Inl err \<Rightarrow> (Inl err, k)
           | Inr (Some job) \<Rightarrow> (Inr (job, False), k)
           | Inr None \<Rightarrow>
               let (startedAt, k) = clock k;
                   (jobID, k) = newID ''job'' startedAt k;
                   started = started_job executor req turnID toolCallEventID timeoutSec jobID startedAt
               in (case appendJobEvent ''job.started'' started k of
                     (Some err, k) \<Rightarrow> (Inl err, k)
                   | (None, k) \<Rightarrow> (Inr (started, True), k)))"

definition startManagedJobExecutor :: "job_executor option \<Rightarrow> JobProjection \<Rightarrow> kernel \<Rightarrow> go_error option \<times> kernel" where
  "startManagedJobExecutor executor job k =
     (case executor of
        None \<Rightarrow> appendTerminalJobEvent (job\<lparr>jb_Status := ''failed'', jb_FailureReason := ''managed job executor is unavailable''\<rparr>) k
      | Some e \<Rightarrow>
          (case je_Start e job k of
             None \<Rightarrow> (None, k)
           | Some err \<Rightarrow> appendTerminalJobEvent (job\<lparr>jb_Status := ''failed'',
               jb_FailureReason := ''managed job executor start failed: '' @ err\<rparr>) k))"

text \<open>The callbacks of a started job.\<close>

definition observe_job :: "JobProjection \<Rightarrow> JobProjection \<Rightarrow> kernel \<Rightarrow> go_error option \<times> kernel" where
  "observe_job job progress = appendJobOutputEvent (mergeJobOutputSnapshot job progress)"

definition complete_job :: "JobProjection \<Rightarrow> kernel \<Rightarrow> go_error option \<times> kernel" where
  "complete_job finished = appendTerminalJobEvent finished"

text \<open>What a process of the local executor ends with.\<close>

record localManagedShellProcessResult =
  pr_stdout :: capturedOutput
  pr_stderr :: capturedOutput
  pr_exitCode :: int
  pr_err :: "string option"
  pr_ctxErr :: bool

definition jobFromManagedProcessResult :: "JobProjection \<Rightarrow> localManagedShellProcessResult \<Rightarrow> string \<Rightarrow> JobProjection" where
  "jobFromManagedProcessResult job result cancelReason =
     (let finished = (if pr_err result = None then job\<lparr>jb_ExitCode := Some (pr_exitCode result)\<rparr> else job);
          finished = applyJobOutputCapture finished (pr_stdout result) (pr_stderr result)
      in if pr_ctxErr result then finished\<lparr>jb_Status := ''cancelled'', jb_CancelReason := TrimSpace cancelReason\<rparr>
         else case pr_err result of
             Some err \<Rightarrow> finished\<lparr>jb_Status := ''failed'', jb_FailureReason := ''shell_runtime_failed: '' @ err\<rparr>
           | None \<Rightarrow> finished\<lparr>jb_Status := (if pr_exitCode result = 0 then ''completed'' else ''failed'')\<rparr>)"

section \<open>Taking over a foreground process\<close>

abbreviation foregroundAttachUnavailableKilledReason :: string where
  "foregroundAttachUnavailableKilledReason \<equiv> ''foreground_attach_unavailable_killed''"
abbreviation foregroundAttachedManagedJobReason :: string where
  "foregroundAttachedManagedJobReason \<equiv> ''foreground_attached_managed_job''"

definition attached_job :: "job_executor option \<Rightarrow> OperationProjection \<Rightarrow> string \<Rightarrow> time \<Rightarrow> JobProjection" where
  "attached_job executor operation jobID startedAt =
     no_job\<lparr>jb_JobID := jobID, jb_SessionID := TrimSpace (op_SessionID operation), jb_TurnID := TrimSpace (op_TurnID operation),
       jb_Tool := ''shell_exec'', jb_IdempotencyKey := TrimSpace (op_IdempotencyKey operation),
       jb_SourceOperationID := TrimSpace (op_OperationID operation), jb_ExecutorRef := managedJobExecutorRef executor,
       jb_Status := ''running'', jb_CWD := TrimSpace (op_CWD operation), jb_Command := TrimSpace (op_Command operation),
       jb_TimeoutSec := op_TimeoutSec operation,
       jb_Receipt := ''Foreground command continued as managed job '' @ jobID @
         '' after interruption. Terminal job evidence is recorded in the session events.'',
       jb_StartedAt := startedAt, jb_ToolCallEventID := TrimSpace (op_IdempotencyKey operation)\<rparr>"

definition prepareForegroundAttachedShellJob ::
  "job_executor option \<Rightarrow> OperationProjection \<Rightarrow> kernel \<Rightarrow> (JobProjection \<times> bool) res \<times> kernel" where
  "prepareForegroundAttachedShellJob executor operation k =
     (case existing_job (TrimSpace (op_SessionID operation)) (TrimSpace (op_IdempotencyKey operation)) k of
        Inl err \<Rightarrow> (Inl err, k)
      | Inr (Some job) \<Rightarrow> (Inr (job, False), k)
      | Inr None \<Rightarrow>
          let (startedAt, k) = clock k;
              (jobID, k) = newID ''job'' startedAt k
          in (Inr (attached_job executor operation jobID startedAt, True), k))"

definition appendJobStartedIfAbsent :: "JobProjection \<Rightarrow> kernel \<Rightarrow> (JobProjection \<times> bool) res \<times> kernel" where
  "appendJobStartedIfAbsent job k =
     (case (if TrimSpace (jb_IdempotencyKey job) \<noteq> []
            then lookupSessionJobByIdempotencyKey (jb_SessionID job) (jb_Tool job) (jb_IdempotencyKey job) k else Inr None) of
        Inl err \<Rightarrow> (Inl err, k)
      | Inr (Some existing) \<Rightarrow> (Inr (existing, False), k)
      | Inr None \<Rightarrow>
          (case (if TrimSpace (jb_JobID job) \<noteq> [] then lookupSessionJob (jb_SessionID job) (jb_JobID job) k else Inr None) of
             Inl err \<Rightarrow> (Inl err, k)
           | Inr (Some existing) \<Rightarrow> (Inr (existing, False), k)
           | Inr None \<Rightarrow>
               (case appendJobEvent ''job.started'' job k of
                  (Some err, k) \<Rightarrow> (Inl err, k)
                | (None, k) \<Rightarrow> (Inr (job, True), k))))"

text \<open>
  The job an executor takes over is stored by the first callback or at the end of the takeover, once: the
  closure remembers what came out.
\<close>

record attachment =
  ta_job :: JobProjection
  ta_once :: "JobProjection res option"

definition ensureStarted :: "attachment \<Rightarrow> kernel \<Rightarrow> JobProjection res \<times> attachment \<times> kernel" where
  "ensureStarted a k =
     (case ta_once a of
        Some r \<Rightarrow> (r, a, k)
      | None \<Rightarrow>
          (case appendJobStartedIfAbsent (ta_job a) k of
             (r, k) \<Rightarrow> let r = bind_res r (\<lambda>(started, _). Inr started) in (r, a\<lparr>ta_once := Some r\<rparr>, k)))"

definition bindAttachedTerminalJob :: "JobProjection \<Rightarrow> JobProjection \<Rightarrow> JobProjection" where
  "bindAttachedTerminalJob started finished =
     (mergeJobOutputSnapshot started (no_job\<lparr>jb_Stdout := jb_Stdout finished, jb_Stderr := jb_Stderr finished,
        jb_StdoutTruncated := jb_StdoutTruncated finished, jb_StderrTruncated := jb_StderrTruncated finished\<rparr>))
     \<lparr>jb_Status := TrimSpace (jb_Status finished), jb_ExitCode := jb_ExitCode finished, jb_FailureReason := jb_FailureReason finished,
      jb_CancelReason := jb_CancelReason finished, jb_CompletedAt := jb_CompletedAt finished\<rparr>"

definition attached_Observe :: "attachment \<Rightarrow> JobProjection \<Rightarrow> kernel \<Rightarrow> attachment \<times> kernel" where
  "attached_Observe a progress k =
     (case ensureStarted a k of
        (Inl err, a, k) \<Rightarrow> (a, k)
      | (Inr started, a, k) \<Rightarrow> (a, snd (appendJobOutputEvent (mergeJobOutputSnapshot started progress) k)))"

definition attached_Complete :: "attachment \<Rightarrow> JobProjection \<Rightarrow> kernel \<Rightarrow> attachment \<times> kernel" where
  "attached_Complete a finished k =
     (case ensureStarted a k of
        (Inl err, a, k) \<Rightarrow> (a, k)
      | (Inr started, a, k) \<Rightarrow>
          let finished = bindAttachedTerminalJob started finished;
              finished = (if jb_Status finished \<in> {[], ''running''} then finished\<lparr>jb_Status := ''completed''\<rparr> else finished)
          in (a, snd (appendTerminalJobEvent finished k)))"

type_synonym attach_result = "JobProjection option \<times> string \<times> go_error option"

definition attachInterruptedForegroundShell ::
  "job_executor option \<Rightarrow> OperationProjection \<Rightarrow> kernel \<Rightarrow> attach_result \<times> attachment option \<times> kernel" where
  "attachInterruptedForegroundShell executor operation k =
     (case executor of
        None \<Rightarrow> ((None, foregroundAttachUnavailableKilledReason, None), None, k)
      | Some e \<Rightarrow>
          if \<not> je_ForegroundAttach e then ((None, foregroundAttachUnavailableKilledReason, None), None, k)
          else case prepareForegroundAttachedShellJob executor operation k of
              (Inl err, k) \<Rightarrow> ((None, foregroundAttachUnavailableKilledReason, Some err), None, k)
            | (Inr (job, created), k) \<Rightarrow>
                if \<not> created then ((Some job, foregroundAttachedManagedJobReason, None), None, k)
                else
                  let (interruptedAt, k) = clock k;
                      (early, attached) = je_AttachForeground e (TrimSpace (op_OperationID operation)) job k;
                      a = \<lparr>ta_job = job, ta_once = None\<rparr>;
                      (a, k) = (case early of Some progress \<Rightarrow> attached_Observe a progress k | None \<Rightarrow> (a, k))
                  in if \<not> attached then ((None, foregroundAttachUnavailableKilledReason, None), Some a, k)
                     else case ensureStarted a k of
                         (Inl err, a, k) \<Rightarrow> ((None, foregroundAttachUnavailableKilledReason, Some err), Some a, k)
                       | (Inr started, a, k) \<Rightarrow> ((Some started, foregroundAttachedManagedJobReason, None), Some a, k))"

section \<open>Jobs that lost their process\<close>

definition latest_jobs_step :: "JobProjection go_map \<Rightarrow> StoredEvent \<Rightarrow> JobProjection go_map" where
  "latest_jobs_step latestByKey event =
     (case event_job event of
        None \<Rightarrow> latestByKey
      | Some job \<Rightarrow>
          if TrimSpace (jb_SessionID job) = [] \<or> TrimSpace (jb_JobID job) = [] then latestByKey
          else go_store (TrimSpace (jb_SessionID job) @ [CHR 0x00] @ TrimSpace (jb_JobID job)) job latestByKey)"

fun fail_lost_jobs :: "JobProjection list \<Rightarrow> kernel \<Rightarrow> go_error option \<times> kernel" where
  "fail_lost_jobs [] k = (None, k)"
| "fail_lost_jobs (job # jobs) k =
     (if TrimSpace (jb_ExecutorRef job) \<noteq> localManagedShellExecutorRef \<or> isTerminalJobStatus (jb_Status job)
      then fail_lost_jobs jobs k
      else
        let (now, k) = clock k;
            lost = job\<lparr>jb_Status := ''failed'', jb_FailureReason := ''managed_job_lost_ownership'', jb_CompletedAt := now\<rparr>
        in case appendTerminalJobEvent lost k of
             (Some err, k) \<Rightarrow> (Some err, k)
           | (None, k) \<Rightarrow> fail_lost_jobs jobs k)"

definition recoverLostLocalManagedJobs :: "kernel \<Rightarrow> go_error option \<times> kernel" where
  "recoverLostLocalManagedJobs k =
     (case loadEvents k of
        Inl err \<Rightarrow> (Some err, k)
      | Inr events \<Rightarrow>
          let latestByKey = foldl latest_jobs_step [] events
          in fail_lost_jobs (List.map_filter (go_lookup latestByKey) (map_order k (map fst latestByKey))) k)"

section \<open>What the model asks of a job\<close>

definition jobStatusVisibleOutput :: "JobProjection \<Rightarrow> string" where
  "jobStatusVisibleOutput job =
     (if TrimSpace (jb_Tool job) = []
      then ''job '' @ TrimSpace (jb_JobID job) @ '' is '' @ TrimSpace (jb_Status job) @ ''.''
      else ''job '' @ TrimSpace (jb_JobID job) @ '' is '' @ TrimSpace (jb_Status job) @ '' for tool '' @ TrimSpace (jb_Tool job) @ ''.'')"

definition jobWaitVisibleOutput :: "JobProjection \<Rightarrow> bool \<Rightarrow> string" where
  "jobWaitVisibleOutput job timedOut =
     (if timedOut \<and> \<not> isTerminalJobStatus (TrimSpace (jb_Status job))
      then ''job '' @ TrimSpace (jb_JobID job) @ '' is still '' @ TrimSpace (jb_Status job) @
        '' after the bounded wait. Use job_wait again or job_status to inspect progress.''
      else jobStatusVisibleOutput job)"

definition jobCancelVisibleOutput :: "JobProjection \<Rightarrow> bool \<Rightarrow> string" where
  "jobCancelVisibleOutput job cancelRequested =
     (if cancelRequested
      then ''job '' @ TrimSpace (jb_JobID job) @
        '' cancellation was requested. The executor will record a terminal job fact when cancellation is confirmed.''
      else ''job '' @ TrimSpace (jb_JobID job) @ '' is already '' @ TrimSpace (jb_Status job) @ ''; no new cancellation event was recorded.'')"

text \<open>A field that is left out when it has its zero value.\<close>

definition omit_string :: "string \<Rightarrow> string \<Rightarrow> json go_map" where
  "omit_string key value = (if value = [] then [] else [(key, JString value)])"

definition omit_bool :: "string \<Rightarrow> bool \<Rightarrow> json go_map" where
  "omit_bool key value = (if value then [(key, JBool True)] else [])"

definition modelJobControlResultWithTimeout :: "JobProjection \<Rightarrow> bool \<Rightarrow> bool \<Rightarrow> string \<Rightarrow> json go_map" where
  "modelJobControlResultWithTimeout job cancelRequested timedOut visibleOutput =
     [(''status'', JString (TrimSpace (jb_Status job))), (''executed'', JBool True), (''job_id'', JString (TrimSpace (jb_JobID job)))] @
     omit_string ''tool'' (TrimSpace (jb_Tool job)) @ omit_bool ''cancel_requested'' cancelRequested @ omit_bool ''timed_out'' timedOut @
     omit_string ''visible_output'' (TrimSpace visibleOutput) @
     (case jb_ExitCode job of None \<Rightarrow> [] | Some code \<Rightarrow> [(''exit_code'', JNumber code)]) @
     omit_string ''stdout'' (jb_Stdout job) @ omit_string ''stderr'' (jb_Stderr job) @
     omit_bool ''stdout_truncated'' (jb_StdoutTruncated job) @ omit_bool ''stderr_truncated'' (jb_StderrTruncated job)"

definition modelJobControlResult :: "JobProjection \<Rightarrow> bool \<Rightarrow> string \<Rightarrow> json go_map" where
  "modelJobControlResult job cancelRequested = modelJobControlResultWithTimeout job cancelRequested False"

text \<open>The encoders of the language's library (JSON, quoted strings) and the executor.\<close>

record job_env =
  jn_codec :: json_codec
  jn_quote :: "string \<Rightarrow> string"
  jn_quoteError :: "go_error \<Rightarrow> string"
  jn_executor :: "job_executor option"

definition job_tool_result :: "string \<Rightarrow> string \<Rightarrow> string \<Rightarrow> string \<Rightarrow> ModelToolResult" where
  "job_tool_result toolCallEventID providerCallID toolName content =
     \<lparr>mtr_ToolCallID = TrimSpace providerCallID, mtr_ToolCallEventID = TrimSpace toolCallEventID, mtr_Name = TrimSpace toolName,
      mtr_Content = content, mtr_PendingJobStart = None, mtr_PendingAgentInvocationStart = None\<rparr>"

definition invalidModelToolResult :: "job_env \<Rightarrow> string \<Rightarrow> string \<Rightarrow> string \<Rightarrow> string \<Rightarrow> string \<Rightarrow> ModelToolResult res" where
  "invalidModelToolResult env eventID providerCallID name code msg =
     (let tool = (if TrimSpace name = [] then ''unknown'' else TrimSpace name)
      in bind_res (jc_Marshal (jn_codec env) [(''status'', JString ''tool_request_invalid''), (''tool'', JString tool), (''executed'', JBool False),
             (''error'', JObject [(''code'', JString code), (''message'', JString (TrimSpace msg))])])
           (\<lambda>content. Inr \<lparr>mtr_ToolCallID = providerCallID, mtr_ToolCallEventID = eventID, mtr_Name = tool, mtr_Content = content,
              mtr_PendingJobStart = None, mtr_PendingAgentInvocationStart = None\<rparr>))"

definition job_not_found :: "job_env \<Rightarrow> string \<Rightarrow> string \<Rightarrow> string \<Rightarrow> string \<Rightarrow> ModelToolResult res" where
  "job_not_found env toolCallEventID providerCallID toolName jobID =
     invalidModelToolResult env toolCallEventID providerCallID toolName ''job_not_found'' (''job '' @ jn_quote env jobID @ '' was not found'')"

definition jobStatusModelToolResult ::
  "job_env \<Rightarrow> string \<Rightarrow> string \<Rightarrow> string \<Rightarrow> string \<Rightarrow> string \<Rightarrow> kernel \<Rightarrow> ModelToolResult res" where
  "jobStatusModelToolResult env sessionID toolCallEventID providerCallID toolName jobID k =
     bind_res (lookupSessionJob sessionID jobID k) (\<lambda>found. case found of
       None \<Rightarrow> job_not_found env toolCallEventID providerCallID toolName jobID
     | Some job \<Rightarrow> bind_res (jc_Marshal (jn_codec env) (modelJobControlResult job False (jobStatusVisibleOutput job)))
         (\<lambda>content. Inr (job_tool_result toolCallEventID providerCallID toolName content)))"

definition requested_cancel :: "JobProjection \<Rightarrow> string \<Rightarrow> string \<Rightarrow> string \<Rightarrow> JobProjection" where
  "requested_cancel job sessionID turnID reason =
     job\<lparr>jb_SessionID := TrimSpace sessionID, jb_TurnID := TrimSpace turnID, jb_Status := ''cancel_requested'',
       jb_CancelReason := TrimSpace reason, jb_CompletedAt := 0\<rparr>"

definition cancelJobModelToolResult ::
  "job_env \<Rightarrow> string \<Rightarrow> string \<Rightarrow> string \<Rightarrow> string \<Rightarrow> string \<Rightarrow> string \<Rightarrow> string \<Rightarrow> kernel \<Rightarrow>
     ModelToolResult res \<times> kernel" where
  "cancelJobModelToolResult env sessionID turnID toolCallEventID providerCallID toolName jobID reason k =
     (let answer = (\<lambda>payload. bind_res (jc_Marshal (jn_codec env) payload) (\<lambda>content. Inr (job_tool_result toolCallEventID providerCallID toolName content)))
      in case lookupSessionJob sessionID jobID k of
           Inl err \<Rightarrow> (Inl err, k)
         | Inr None \<Rightarrow> (job_not_found env toolCallEventID providerCallID toolName jobID, k)
         | Inr (Some job) \<Rightarrow>
             if isTerminalJobStatus (jb_Status job) then (answer (modelJobControlResult job False (jobCancelVisibleOutput job False)), k)
             else
               let requested = requested_cancel job sessionID turnID reason
               in case (if TrimSpace (jb_Status job) = ''cancel_requested'' then (None, k) else appendJobEvent ''job.cancel_requested'' requested k) of
                    (Some err, k) \<Rightarrow> (Inl err, k)
                  | (None, k) \<Rightarrow>
                      (case (case jn_executor env of None \<Rightarrow> None | Some e \<Rightarrow> je_Cancel e jobID reason k) of
                         Some err \<Rightarrow> (Inl (Wrapped ErrToolInfrastructureFailed (Errorf ''managed job cancel failed: %v'' [err])), k)
                       | None \<Rightarrow> (answer (modelJobControlResult requested True (jobCancelVisibleOutput requested True)), k)))"

text \<open>
  A bounded wait: it wakes at each tick of its timer, at its deadline or when the turn is cancelled, and looks
  at the ledger as it is then. It has not returned while it is still to be woken (\<open>None\<close>).
\<close>

datatype wake = Cancelled go_error | Deadline kernel | Tick kernel

definition jobWaitResult :: "job_env \<Rightarrow> string \<Rightarrow> string \<Rightarrow> string \<Rightarrow> JobProjection \<Rightarrow> bool \<Rightarrow> ModelToolResult" where
  "jobWaitResult env toolCallEventID providerCallID toolName job timedOut =
     job_tool_result toolCallEventID providerCallID toolName
       (case jc_Marshal (jn_codec env) (modelJobControlResultWithTimeout job False timedOut (jobWaitVisibleOutput job timedOut)) of
          Inl err \<Rightarrow> ''{\"status\":\"tool_infrastructure_failed\",\"executed\":false,\"error\":{\"code\":\"marshal_failed\",\"message\":'' @
            jn_quoteError env err @ ''}}''
        | Inr content \<Rightarrow> content)"

fun job_wait_loop ::
  "job_env \<Rightarrow> string \<Rightarrow> string \<Rightarrow> string \<Rightarrow> string \<Rightarrow> string \<Rightarrow> JobProjection \<Rightarrow> wake list \<Rightarrow> ModelToolResult res option" where
  "job_wait_loop env sessionID toolCallEventID providerCallID toolName jobID job [] = None"
| "job_wait_loop env sessionID toolCallEventID providerCallID toolName jobID job (Cancelled err # ws) = Some (Inl err)"
| "job_wait_loop env sessionID toolCallEventID providerCallID toolName jobID job (Deadline k # ws) =
     Some (bind_res (lookupSessionJob sessionID jobID k) (\<lambda>found.
       let job = (case found of Some j \<Rightarrow> j | None \<Rightarrow> job)
       in Inr (jobWaitResult env toolCallEventID providerCallID toolName job (\<not> isTerminalJobStatus (jb_Status job)))))"
| "job_wait_loop env sessionID toolCallEventID providerCallID toolName jobID job (Tick k # ws) =
     (case lookupSessionJob sessionID jobID k of
        Inl err \<Rightarrow> Some (Inl err)
      | Inr None \<Rightarrow> job_wait_loop env sessionID toolCallEventID providerCallID toolName jobID job ws
      | Inr (Some job) \<Rightarrow>
          if isTerminalJobStatus (jb_Status job) then Some (Inr (jobWaitResult env toolCallEventID providerCallID toolName job False))
          else job_wait_loop env sessionID toolCallEventID providerCallID toolName jobID job ws)"

text \<open>The wakings of a timer that is set to a number of seconds are an argument.\<close>

definition jobWaitModelToolResult ::
  "job_env \<Rightarrow> string \<Rightarrow> string \<Rightarrow> string \<Rightarrow> string \<Rightarrow> string \<Rightarrow> int \<Rightarrow> (int \<Rightarrow> wake list) \<Rightarrow> kernel \<Rightarrow> ModelToolResult res option" where
  "jobWaitModelToolResult env sessionID toolCallEventID providerCallID toolName jobID timeoutSec wakes k =
     (case lookupSessionJob sessionID jobID k of
        Inl err \<Rightarrow> Some (Inl err)
      | Inr None \<Rightarrow> Some (job_not_found env toolCallEventID providerCallID toolName jobID)
      | Inr (Some job) \<Rightarrow>
          if isTerminalJobStatus (jb_Status job) then Some (Inr (jobWaitResult env toolCallEventID providerCallID toolName job False))
          else
            let timeoutSec = (if timeoutSec \<le> 0 then defaultJobWaitTimeoutSec else timeoutSec);
                timeoutSec = (if timeoutSec > maxJobWaitTimeoutSec then maxJobWaitTimeoutSec else timeoutSec)
            in job_wait_loop env sessionID toolCallEventID providerCallID toolName jobID job (wakes timeoutSec))"

end
