(* ===== verification/Job_Life.thy ===== *)
theory Job_Life
  imports Jobs
begin

text \<open>
  The life of a job in the ledger: it is one job from its start to its end, it ends once, and a key of a
  session names one job. The facts of a job are read in the order they were stored, because each is stamped
  while the facts of its job are locked; facts of different jobs may be out of order.
\<close>

section \<open>The facts of one job\<close>

definition job_fact :: "string \<Rightarrow> string \<Rightarrow> StoredEvent \<Rightarrow> bool" where
  "job_fact s j e \<longleftrightarrow> ev_SessionID e = s \<and> (\<exists>job. event_job e = Some job \<and> TrimSpace (jb_JobID job) = j)"

definition job_step :: "string \<Rightarrow> string \<Rightarrow> JobProjection option \<Rightarrow> StoredEvent \<Rightarrow> JobProjection option res" where
  "job_step s j v e = Inr (if job_fact s j e then event_job e else v)"

interpretation jv: timed_projection "job_step s j" "None :: JobProjection option" "job_fact s j" for s j
  by unfold_locales (simp add: job_step_def)

text \<open>The latest fact of a job.\<close>

definition job_of :: "string \<Rightarrow> string \<Rightarrow> kernel \<Rightarrow> JobProjection option" where
  "job_of s j k = (if jv.rows s j k = [] then None else event_job (last (jv.rows s j k)))"

lemma job_view: "jv.view s j k = Inr (job_of s j k)"
proof -
  have "\<forall>e \<in> set es. job_fact s j e \<Longrightarrow> replay (job_step s j) v es = Inr (if es = [] then v else event_job (last es))" for es v
    by (induction es arbitrary: v) (auto simp: job_step_def)
  from this [of "jv.rows s j k" None] show ?thesis by (simp add: jv.view_def jv.rows_def job_of_def)
qed

lemma job_of_same: "k_rows k' = k_rows k \<Longrightarrow> job_of s j k' = job_of s j k"
  by (simp only: job_of_def jv.rows_def)

lemma latest_fact:
  "\<exists>v'. replay (job_step s j) v es = Inr v' \<and>
     foldl (\<lambda>l event. case event_job event of
        Some job \<Rightarrow> if ev_SessionID event = s \<and> TrimSpace (jb_JobID job) = j then Some job else l | None \<Rightarrow> l) v es = v'"
proof (induction es arbitrary: v)
  case (Cons e es)
  have "(case event_job e of Some job \<Rightarrow> if ev_SessionID e = s \<and> TrimSpace (jb_JobID job) = j then Some job else v | None \<Rightarrow> v)
      = (if job_fact s j e then event_job e else v)" by (auto simp: job_fact_def split: option.splits)
  then show ?case using Cons.IH by (simp add: job_step_def)
qed simp

text \<open>
  Identifiers are those of the ULID library, which are letters and digits: trimming leaves them as they are, and they hold no zero byte.
\<close>

definition ids_trimmed :: "kernel_env \<Rightarrow> bool" where
  "ids_trimmed env \<longleftrightarrow> (\<forall>t n u. env_ulid env t n = Some u \<longrightarrow> TrimSpace (''job_'' @ u) = ''job_'' @ u \<and> CHR 0x00 \<notin> set u)"

definition same_job :: "JobProjection \<Rightarrow> JobProjection \<Rightarrow> bool" where
  "same_job a b \<longleftrightarrow> jb_JobID a = jb_JobID b \<and> jb_SessionID a = jb_SessionID b \<and> jb_Tool a = jb_Tool b \<and>
     jb_IdempotencyKey a = jb_IdempotencyKey b \<and> jb_SourceOperationID a = jb_SourceOperationID b \<and>
     jb_ExecutorRef a = jb_ExecutorRef b \<and> jb_CWD a = jb_CWD b \<and> jb_Command a = jb_Command b \<and> jb_TimeoutSec a = jb_TimeoutSec b \<and>
     jb_Receipt a = jb_Receipt b \<and> jb_StartedAt a = jb_StartedAt b \<and> jb_ToolCallEventID a = jb_ToolCallEventID b"

lemma same_job_refl [simp]: "same_job a a"
  by (simp add: same_job_def)

lemma same_job_sym: "same_job a b \<Longrightarrow> same_job b a"
  by (simp add: same_job_def)

lemma same_job_trans: "same_job a b \<Longrightarrow> same_job b c \<Longrightarrow> same_job a c"
  by (simp add: same_job_def)

abbreviation ended_job :: "JobProjection \<Rightarrow> bool" where "ended_job a \<equiv> isTerminalJobStatus (jb_Status a)"

definition ends_job :: "StoredEvent \<Rightarrow> bool" where
  "ends_job e \<longleftrightarrow> (\<exists>job. event_job e = Some job \<and> ended_job job)"

text \<open>
  Every fact names its session and job and no other job has the key of its session; all facts of a job describe
  the same job, and only the last one can be the end of it.
\<close>

definition trimmed :: "string \<Rightarrow> bool" where
  "trimmed s \<longleftrightarrow> s \<noteq> [] \<and> TrimSpace s = s"

definition trimmed_id :: "string \<Rightarrow> bool" where
  "trimmed_id s \<longleftrightarrow> trimmed s \<and> CHR 0x00 \<notin> set s"

definition fact_ok :: "kernel \<Rightarrow> StoredEvent \<Rightarrow> JobProjection \<Rightarrow> bool" where
  "fact_ok k e a \<longleftrightarrow> ed_Job (ev_Data e) = Some a \<and> ev_SessionID e = jb_SessionID a \<and> trimmed (jb_SessionID a) \<and>
     trimmed_id (jb_JobID a) \<and> jb_JobID a \<in> allocated k \<and> (ev_Type e = ''job.started'' \<longrightarrow> jb_CompletedAt a = 0) \<and>
     trimmed (jb_Tool a) \<and> TrimSpace (jb_IdempotencyKey a) = jb_IdempotencyKey a"

definition known :: "kernel \<Rightarrow> JobProjection \<Rightarrow> bool" where
  "known k a \<longleftrightarrow> (\<exists>e \<in> set (k_rows k). event_job e = Some a)"

definition one_job_per_key :: "kernel \<Rightarrow> bool" where
  "one_job_per_key k \<longleftrightarrow> (\<forall>a b. known k a \<longrightarrow> known k b \<longrightarrow> jb_SessionID a = jb_SessionID b \<longrightarrow>
     jb_JobID a = jb_JobID b \<or> jb_IdempotencyKey a \<noteq> [] \<and> jb_Tool a = jb_Tool b \<and> jb_IdempotencyKey a = jb_IdempotencyKey b \<longrightarrow> same_job a b)"

definition job_inv :: "kernel \<Rightarrow> bool" where
  "job_inv k \<longleftrightarrow> env_ok (k_env k) \<and> clock_set (k_env k) \<and> ids_trimmed (k_env k) \<and> (\<forall>s j. jv.in_time s j k) \<and>
     (\<forall>e \<in> set (k_rows k). \<forall>a. event_job e = Some a \<longrightarrow> fact_ok k e a) \<and> one_job_per_key k \<and>
     (\<forall>s j. \<forall>e \<in> set (butlast (jv.rows s j k)). \<not> ends_job e)"

lemma lookup_read:
  assumes "job_inv k" and "lookupSessionJob s j k = Inr r" and "TrimSpace s \<noteq> []" and "TrimSpace j \<noteq> []"
  shows "r = job_of (TrimSpace s) (TrimSpace j) k"
proof -
  let ?s = "TrimSpace s" and ?j = "TrimSpace j"
  obtain es where es: "loadEvents k = Inr es" and r: "r = foldl (\<lambda>l event. case event_job event of
        Some job \<Rightarrow> if ev_SessionID event = ?s \<and> TrimSpace (jb_JobID job) = ?j then Some job else l | None \<Rightarrow> l) None es"
    using assms(2-4) by (auto simp: lookupSessionJob_def Let_def bind_res_Inr_iff)
  have "replay (job_step ?s ?j) None es = Inr (job_of ?s ?j k)"
    using jv.load_view [OF _ es, of ?s ?j] assms(1) job_view by (simp add: job_inv_def)
  with latest_fact [of ?s ?j None es] r show ?thesis by auto
qed
definition job_le :: "kernel \<Rightarrow> kernel \<Rightarrow> bool" where
  "job_le k k' \<longleftrightarrow> (\<forall>s j a. job_of s j k = Some a \<longrightarrow> (\<exists>b. job_of s j k' = Some b \<and> same_job a b \<and> (ended_job a \<longrightarrow> b = a)))"

definition job_ext :: "kernel \<Rightarrow> kernel \<Rightarrow> bool" where
  "job_ext k k' \<longleftrightarrow> (job_inv k \<longrightarrow> job_inv k' \<and> job_le k k' \<and> (\<exists>es. kernel_ext k k' es))"

lemma job_le_refl: "job_le k k"
  by (simp add: job_le_def)

lemma job_le_trans: "job_le k k' \<Longrightarrow> job_le k' k'' \<Longrightarrow> job_le k k''"
  unfolding job_le_def using same_job_trans by (fast dest: same_job_trans)

lemma job_ext_refl [simp]: "job_ext k k"
  by (auto simp: job_ext_def job_le_refl)

lemma job_ext_trans: "job_ext k k' \<Longrightarrow> job_ext k' k'' \<Longrightarrow> job_ext k k''"
  unfolding job_ext_def using job_le_trans kernel_ext_trans by blast

lemma known_mono: "kernel_ext k k' es \<Longrightarrow> known k a \<Longrightarrow> known k' a"
  by (auto simp: known_def kernel_ext_def)

lemma job_of_known: "job_of s j k = Some a \<Longrightarrow> known k a"
  using last_in_set by (fastforce simp: job_of_def known_def jv.rows_def split: if_splits)

lemma job_of_ids:
  assumes "job_inv k" and "job_of s j k = Some a"
  shows "jb_SessionID a = s" and "jb_JobID a = j"
proof -
  let ?e = "last (jv.rows s j k)"
  have a: "jv.rows s j k \<noteq> []" "event_job ?e = Some a" using assms(2) by (auto simp: job_of_def split: if_splits)
  have e: "?e \<in> set (k_rows k)" "job_fact s j ?e" using last_in_set [OF a(1)] by (simp_all add: jv.rows_def)
  then have "fact_ok k ?e a" using assms(1) a(2) by (auto simp: job_inv_def)
  with e(2) a(2) show "jb_SessionID a = s" "jb_JobID a = j" by (auto simp: fact_ok_def job_fact_def trimmed_def trimmed_id_def)
qed

lemma known_ok:
  assumes "job_inv k" and "known k a"
  shows "trimmed (jb_SessionID a)" and "trimmed_id (jb_JobID a)" and "jb_JobID a \<in> allocated k" and "trimmed (jb_Tool a)"
    and "TrimSpace (jb_IdempotencyKey a) = jb_IdempotencyKey a"
  using assms by (auto simp: job_inv_def known_def fact_ok_def)

lemma known_job_of:
  assumes "job_inv k" and "known k a"
  obtains b where "job_of (jb_SessionID a) (jb_JobID a) k = Some b" and "same_job a b"
proof -
  obtain e where e: "e \<in> set (k_rows k)" "event_job e = Some a" using assms(2) by (auto simp: known_def)
  then have "fact_ok k e a" using assms(1) by (auto simp: job_inv_def)
  with e(2) have fact: "job_fact (jb_SessionID a) (jb_JobID a) e" by (auto simp: fact_ok_def job_fact_def trimmed_def trimmed_id_def)
  with e(1) have rows: "jv.rows (jb_SessionID a) (jb_JobID a) k \<noteq> []" by (auto simp: jv.rows_def filter_empty_conv)
  then have "job_fact (jb_SessionID a) (jb_JobID a) (last (jv.rows (jb_SessionID a) (jb_JobID a) k))"
    using last_in_set by (fastforce simp: jv.rows_def)
  then obtain b where b: "job_of (jb_SessionID a) (jb_JobID a) k = Some b" using rows by (auto simp: job_of_def job_fact_def)
  then have "same_job a b"
    using assms job_of_known [OF b] job_of_ids [OF assms(1) b] unfolding job_inv_def one_job_per_key_def by metis
  with b show ?thesis by (rule that)
qed

lemma not_is_job_fact: "event_job e = None \<Longrightarrow> \<not> job_fact s j e"
  by (simp add: job_fact_def)

lemma job_rows_ext: "kernel_ext k k' es \<Longrightarrow> jv.rows s j k' = jv.rows s j k @ filter (job_fact s j) es"
  by (simp add: jv.rows_def kernel_ext_def)

lemma fact_ok_mono: "fact_ok k e a \<Longrightarrow> kernel_ext k k' es \<Longrightarrow> fact_ok k' e a"
  using allocated_ext by (fastforce simp: fact_ok_def)

lemma job_ext_skip:
  assumes "kernel_ext k k' es" and "\<forall>e \<in> set es. event_job e = None"
  shows "job_ext k k'"
  unfolding job_ext_def
proof (intro impI conjI)
  assume inv: "job_inv k"
  have none: "\<forall>e \<in> set es. \<not> job_fact s j e" for s j using assms(2) not_is_job_fact by blast
  have rows: "jv.rows s j k' = jv.rows s j k" for s j using job_rows_ext [OF assms(1)] none by simp
  then show "job_le k k'" by (simp add: job_le_def job_of_def)
  have known: "known k' a = known k a" for a using assms by (auto simp: known_def kernel_ext_def)
  have facts: "\<forall>e \<in> set (k_rows k'). \<forall>a. event_job e = Some a \<longrightarrow> fact_ok k' e a"
    using inv assms fact_ok_mono [OF _ assms(1)] by (auto simp: job_inv_def kernel_ext_def)
  have "jv.in_time s j k'" for s j using jv.in_time_skip(1) [OF _ assms(1) none] inv by (simp add: job_inv_def)
  moreover have "k_env k' = k_env k" using assms(1) by (simp add: kernel_ext_def)
  moreover have "one_job_per_key k' = one_job_per_key k" by (simp only: one_job_per_key_def known)
  ultimately show "job_inv k'" using inv facts by (simp add: job_inv_def rows)
  show "\<exists>es. kernel_ext k k' es" using assms(1) by blast
qed

lemma job_ext_same: "kernel_ext k k' [] \<Longrightarrow> job_ext k k'"
  by (erule job_ext_skip) simp

section \<open>Storing one more fact\<close>

lemma event_job_event [simp]:
  "isJobFactEvent ty \<Longrightarrow> trimmed_id (jb_JobID a) \<Longrightarrow> event_job (job_event ty a t n) = Some a"
  by (simp add: event_job_def job_event_def fill_job_id_def trimmed_def trimmed_id_def)

lemma job_event_simps [simp]:
  "ev_CreatedAt (job_event ty a t n) = t" "ev_SessionID (job_event ty a t n) = jb_SessionID a" "ev_Type (job_event ty a t n) = ty"
  "ed_Job (ev_Data (job_event ty a t n)) = Some a" "ev_EventID (job_event ty a t n) = n"
  by (simp_all add: job_event_def)

text \<open>A job that may be stored as the next fact: it continues the job that is stored, or it is new and so is its key.\<close>

definition next_fact :: "kernel \<Rightarrow> JobProjection \<Rightarrow> bool" where
  "next_fact k a \<longleftrightarrow> trimmed (jb_SessionID a) \<and> trimmed_id (jb_JobID a) \<and> trimmed (jb_Tool a) \<and>
     TrimSpace (jb_IdempotencyKey a) = jb_IdempotencyKey a \<and>
     (case job_of (jb_SessionID a) (jb_JobID a) k of
        Some b \<Rightarrow> same_job b a \<and> \<not> ended_job b
      | None \<Rightarrow> \<forall>b. known k b \<longrightarrow> jb_SessionID b = jb_SessionID a \<longrightarrow>
          \<not> (jb_IdempotencyKey b \<noteq> [] \<and> jb_Tool b = jb_Tool a \<and> jb_IdempotencyKey b = jb_IdempotencyKey a))"

lemma next_fact_same:
  assumes inv: "job_inv k" and "next_fact k a" and b: "known k b" "jb_SessionID b = jb_SessionID a"
    and same: "jb_JobID b = jb_JobID a \<or> jb_IdempotencyKey b \<noteq> [] \<and> jb_Tool b = jb_Tool a \<and> jb_IdempotencyKey b = jb_IdempotencyKey a"
  shows "same_job b a"
proof (cases "job_of (jb_SessionID a) (jb_JobID a) k")
  case None
  then have "jb_JobID b \<noteq> jb_JobID a" using known_job_of [OF inv b(1)] b(2) by (metis option.distinct(1))
  with same assms(2) b None show ?thesis by (auto simp: next_fact_def)
next
  case (Some c)
  then have c: "same_job c a" using assms(2) by (simp add: next_fact_def)
  have "known k c" by (rule job_of_known [OF Some])
  moreover have "jb_SessionID b = jb_SessionID c" "jb_JobID b = jb_JobID c \<or> jb_IdempotencyKey b \<noteq> [] \<and> jb_Tool b = jb_Tool c \<and> jb_IdempotencyKey b = jb_IdempotencyKey c"
    using c b(2) same by (auto simp: same_job_def)
  ultimately have "same_job b c" using inv b(1) unfolding job_inv_def one_job_per_key_def by blast
  then show ?thesis using c by (rule same_job_trans)
qed

lemma fact_append:
  assumes inv: "job_inv k" and ext: "kernel_ext k k' [job_event ty a t n]" and ty: "isJobFactEvent ty"
    and a: "next_fact k a" "jb_JobID a \<in> allocated k'" "ty = ''job.started'' \<longrightarrow> jb_CompletedAt a = 0"
    and t: "\<forall>x \<in> set (jv.rows (jb_SessionID a) (jb_JobID a) k). ev_CreatedAt x \<le> t" "t \<le> env_clock (k_env k') (k_ticks k')"
  shows "job_inv k'" and "job_le k k'"
proof -
  let ?s = "jb_SessionID a" and ?j = "jb_JobID a" and ?e = "job_event ty a t n"
  have tr: "trimmed ?s" "trimmed_id ?j" "trimmed (jb_Tool a)" "TrimSpace (jb_IdempotencyKey a) = jb_IdempotencyKey a"
    using a(1) by (simp_all add: next_fact_def)
  have e: "event_job ?e = Some a" by (rule event_job_event [OF ty tr(2)])
  have fact: "job_fact s j ?e \<longleftrightarrow> s = ?s \<and> j = ?j" for s j using e tr(2) by (auto simp: job_fact_def trimmed_def trimmed_id_def)
  have rows: "jv.rows s j k' = jv.rows s j k @ (if s = ?s \<and> j = ?j then [?e] else [])" for s j
    using job_rows_ext [OF ext] fact by simp
  have env: "k_env k' = k_env k" using ext by (simp add: kernel_ext_def)
  have known: "known k' b \<longleftrightarrow> known k b \<or> b = a" for b using ext e by (auto simp: known_def kernel_ext_def)
  have new: "job_of s j k' = (if s = ?s \<and> j = ?j then Some a else job_of s j k)" for s j
    using e by (auto simp: job_of_def rows)
  show "job_le k k'" using a(1) unfolding job_le_def new next_fact_def by (auto split: option.splits)
  have "jv.in_time s j k'" for s j
  proof (cases "s = ?s \<and> j = ?j")
    case True
    then show ?thesis using jv.in_time_event_at(1) [OF _ ext, of s j] t inv by (simp add: job_inv_def)
  next
    case False
    then show ?thesis using jv.in_time_skip(1) [OF _ ext, of s j] fact inv by (simp add: job_inv_def)
  qed
  moreover have "fact_ok k' x b" if x: "x \<in> set (k_rows k')" "event_job x = Some b" for x b
  proof (cases "x = ?e")
    case True
    then show ?thesis using x(2) e tr a(2,3) by (simp add: fact_ok_def)
  next
    case False
    then have "x \<in> set (k_rows k)" using x(1) ext by (auto simp: kernel_ext_def)
    then have "fact_ok k x b" using inv x(2) by (simp add: job_inv_def)
    then show ?thesis by (rule fact_ok_mono [OF _ ext])
  qed
  moreover have "one_job_per_key k'"
    unfolding one_job_per_key_def known
  proof (intro allI impI)
    fix b c
    assume bc: "known k b \<or> b = a" "known k c \<or> c = a" "jb_SessionID b = jb_SessionID c"
      "jb_JobID b = jb_JobID c \<or> jb_IdempotencyKey b \<noteq> [] \<and> jb_Tool b = jb_Tool c \<and> jb_IdempotencyKey b = jb_IdempotencyKey c"
    then consider "b = a" "c = a" | "known k b" "known k c" | "known k b" "c = a" | "b = a" "known k c" by blast
    then show "same_job b c"
    proof cases
      case 2
      then show ?thesis using inv bc(3,4) unfolding job_inv_def one_job_per_key_def by blast
    next
      case 3
      then show ?thesis using next_fact_same [OF inv a(1) 3(1)] bc(3,4) by simp
    next
      case 4
      then have "same_job c a" using next_fact_same [OF inv a(1) 4(2)] bc(3,4) by auto
      with 4 show ?thesis by (simp add: same_job_sym)
    qed simp
  qed
  moreover have "\<not> ends_job x" if "x \<in> set (butlast (jv.rows s j k'))" for s j x
  proof (cases "s = ?s \<and> j = ?j")
    case True
    have "\<not> ends_job (last (jv.rows ?s ?j k))" if "jv.rows ?s ?j k \<noteq> []"
      using a(1) that by (auto simp: next_fact_def job_of_def ends_job_def split: option.splits)
    moreover have "\<not> ends_job y" if "y \<in> set (butlast (jv.rows ?s ?j k))" for y using inv that by (auto simp: job_inv_def)
    moreover have "x \<in> set (jv.rows ?s ?j k)" using that True by (simp add: rows)
    ultimately show ?thesis
      by (cases "jv.rows ?s ?j k" rule: rev_cases) auto
  next
    case False
    then show ?thesis using inv that by (auto simp: rows job_inv_def)
  qed
  ultimately show "job_inv k'" using inv env by (simp add: job_inv_def)
qed

definition job_keeps :: "kernel \<Rightarrow> kernel \<Rightarrow> bool" where
  "job_keeps k k' \<longleftrightarrow> job_inv k' \<and> job_le k k' \<and> (\<exists>es. kernel_ext k k' es)"

lemma job_ext_keeps: "job_ext k k' \<longleftrightarrow> (job_inv k \<longrightarrow> job_keeps k k')"
  by (simp add: job_ext_def job_keeps_def)

lemma job_keeps_refl: "job_inv k \<Longrightarrow> job_keeps k k"
  using job_ext_keeps job_ext_refl by blast

lemma job_keeps_trans: "job_keeps k k' \<Longrightarrow> job_keeps k' k'' \<Longrightarrow> job_keeps k k''"
  unfolding job_keeps_def using job_le_trans kernel_ext_trans by blast

lemma job_keeps_same: "job_inv k \<Longrightarrow> kernel_ext k k' [] \<Longrightarrow> job_keeps k k'"
  using job_ext_same by (simp add: job_ext_keeps)

lemma job_inv_rows_time:
  assumes "job_inv k"
  shows "\<forall>x \<in> set (jv.rows s j k). ev_CreatedAt x \<le> fst (clock k)" and "fst (clock k) > 0"
    and "kernel_ext k k' es \<Longrightarrow> fst (clock k) \<le> env_clock (k_env k') (k_ticks k')"
proof -
  have t: "jv.in_time s j k" using assms by (simp add: job_inv_def)
  then show "\<forall>x \<in> set (jv.rows s j k). ev_CreatedAt x \<le> fst (clock k)" by (simp add: jv.in_time_def clock_def)
  show "fst (clock k) > 0" using assms by (simp add: job_inv_def clock_set_def clock_def)
  show "kernel_ext k k' es \<Longrightarrow> fst (clock k) \<le> env_clock (k_env k') (k_ticks k')"
    using jv.clock_grows [OF t] by (simp add: clock_def)
qed

text \<open>The time of a fact: a new reading of the clock, or a time no earlier than the facts of its job.\<close>

lemma appendJobEvent_keeps:
  assumes inv: "job_inv k" and ty: "isJobFactEvent ty" and a: "next_fact k a" "jb_JobID a \<in> allocated k"
      "ty = ''job.started'' \<longrightarrow> jb_CompletedAt a = 0"
    and t: "c = (if ty = ''job.started'' then jb_StartedAt a else jb_CompletedAt a)"
      "c = 0 \<or> (\<forall>x \<in> set (jv.rows (jb_SessionID a) (jb_JobID a) k). ev_CreatedAt x \<le> c) \<and> c \<le> fst (clock k)"
    and run: "appendJobEvent ty a k = (r, k')"
  shows "job_keeps k k'" and "r = None \<Longrightarrow> known k' a" and "r = None \<Longrightarrow> job_of (jb_SessionID a) (jb_JobID a) k' = Some a"
proof -
  define u where "u = (if c = 0 then fst (clock k) else c)"
  define k1 where "k1 = (if c = 0 then snd (clock k) else k)"
  have k1: "kernel_ext k k2 es" if "kernel_ext k1 k2 es" for k2 es
    using that kernel_ext_clock by (auto simp: k1_def split: if_splits)
  obtain n where n: "appendEvent (job_event ty a u n) (snd (newID ''evt'' u k1)) = (r, k')"
    using run unfolding appendJobEvent_def Let_def t(1) [symmetric]
    by (cases "c = 0") (auto simp: u_def k1_def case_prod_unfold)
  have rows: "\<forall>x \<in> set (jv.rows (jb_SessionID a) (jb_JobID a) k). ev_CreatedAt x \<le> u"
    using t(2) job_inv_rows_time(1) [OF inv] by (auto simp: u_def)
  have le: "u \<le> fst (clock k)" using t(2) by (auto simp: u_def)
  have tr: "trimmed_id (jb_JobID a)" "trimmed (jb_SessionID a)" using a(1) by (simp_all add: next_fact_def)
  show "job_keeps k k'"
  proof (cases r)
    case (Some err)
    with n have "kernel_ext k k' []" using k1 [OF kernel_ext_newID [OF appendEvent_failed(1)]] by blast
    then show ?thesis by (rule job_keeps_same [OF inv])
  next
    case None
    with n have ext: "kernel_ext k k' [job_event ty a u n]" using k1 [OF kernel_ext_newID [OF appendEvent_done(1)]] by blast
    have "jb_JobID a \<in> allocated k'" using a(2) allocated_ext [OF ext] by blast
    moreover have "u \<le> env_clock (k_env k') (k_ticks k')" using le job_inv_rows_time(3) [OF inv ext] by simp
    ultimately show ?thesis using fact_append [OF inv ext ty a(1) _ a(3) rows] ext unfolding job_keeps_def by blast
  qed
  assume "r = None"
  with n have ext: "kernel_ext k k' [job_event ty a u n]" using k1 [OF kernel_ext_newID [OF appendEvent_done(1)]] by blast
  then show "known k' a" using event_job_event [OF ty tr(1)] by (auto simp: known_def kernel_ext_def)
  have "jv.rows (jb_SessionID a) (jb_JobID a) k' = jv.rows (jb_SessionID a) (jb_JobID a) k @ [job_event ty a u n]"
    using job_rows_ext [OF ext] event_job_event [OF ty tr(1)] tr(1) by (simp add: job_fact_def trimmed_def trimmed_id_def)
  then show "job_of (jb_SessionID a) (jb_JobID a) k' = Some a" using event_job_event [OF ty tr(1)] by (simp add: job_of_def)
qed

section \<open>The operations\<close>

lemma lookup_blank: "lookupSessionJob s j k = Inr (Some a) \<Longrightarrow> TrimSpace s \<noteq> [] \<and> TrimSpace j \<noteq> []"
  by (auto simp: lookupSessionJob_def Let_def split: if_splits)

lemma lookup_Some:
  assumes "job_inv k" and "lookupSessionJob s j k = Inr (Some a)"
  shows "job_of (TrimSpace s) (TrimSpace j) k = Some a" and "known k a" and "jb_SessionID a = TrimSpace s" and "jb_JobID a = TrimSpace j"
proof -
  show of: "job_of (TrimSpace s) (TrimSpace j) k = Some a" using lookup_read [OF assms] lookup_blank [OF assms(2)] by simp
  then show "known k a" by (rule job_of_known)
  show "jb_SessionID a = TrimSpace s" "jb_JobID a = TrimSpace j" using job_of_ids [OF assms(1) of] by simp_all
qed

text \<open>A fact that continues the latest one.\<close>

lemma next_fact_continue:
  assumes inv: "job_inv k" and b: "job_of s j k = Some b" "\<not> ended_job b" "same_job b a"
  shows "next_fact k a" and "jb_JobID a \<in> allocated k"
proof -
  have ids: "jb_SessionID a = s" "jb_JobID a = j" using job_of_ids [OF inv b(1)] b(3) by (simp_all add: same_job_def)
  note ok = known_ok [OF inv job_of_known [OF b(1)]]
  show "next_fact k a" using ok b ids by (simp add: next_fact_def same_job_def)
  show "jb_JobID a \<in> allocated k" using ok(3) b(3) by (simp add: same_job_def)
qed

lemma continue_keeps:
  assumes inv: "job_inv k" and b: "job_of s j k = Some b" "\<not> ended_job b" "same_job b a"
    and ty: "isJobFactEvent ty" "ty \<noteq> ''job.started''" and a: "jb_CompletedAt a = 0" and run: "appendJobEvent ty a k = (r, k')"
  shows "job_keeps k k'"
proof -
  have "0 = (if ty = ''job.started'' then jb_StartedAt a else jb_CompletedAt a)" using ty(2) a by simp
  from appendJobEvent_keeps(1) [OF inv ty(1) next_fact_continue [OF inv b] _ this disjI1 [OF HOL.refl] run] a show ?thesis by simp
qed

lemma isTerminalJobStatus_running [simp]:
  "\<not> isTerminalJobStatus ''running''" "\<not> isTerminalJobStatus ''cancel_requested''" "isTerminalJobStatus ''failed''"
  by code_simp+

lemma same_job_output [simp]: "same_job a (normalizeJobOutputSnapshot (mergeJobOutputSnapshot a b))"
  by (simp add: same_job_def normalizeJobOutputSnapshot_def mergeJobOutputSnapshot_def applyJobOutputCapture_def Let_def)

lemma output_CompletedAt [simp]: "jb_CompletedAt (normalizeJobOutputSnapshot (mergeJobOutputSnapshot a b)) = 0"
  by (simp add: normalizeJobOutputSnapshot_def mergeJobOutputSnapshot_def applyJobOutputCapture_def Let_def no_job_def)

lemma appendJobOutputEvent_keeps:
  assumes inv: "job_inv k" and run: "appendJobOutputEvent job k = (r, k')"
  shows "job_keeps k k'"
proof (cases "\<exists>a. lookupSessionJob (jb_SessionID job) (jb_JobID job) k = Inr (Some a) \<and> \<not> ended_job a")
  case True
  then obtain a where a: "lookupSessionJob (jb_SessionID job) (jb_JobID job) k = Inr (Some a)" "\<not> ended_job a" by blast
  let ?b = "normalizeJobOutputSnapshot (mergeJobOutputSnapshot a job)"
  have "appendJobEvent ''job.output'' ?b k = (r, k')" using run a by (simp add: appendJobOutputEvent_def)
  then show ?thesis
    by (intro continue_keeps [OF inv lookup_Some(1) [OF inv a(1)] a(2) same_job_output]) (simp_all add: isJobFactEvent_def)
next
  case False
  then have "k' = k" using run by (auto simp: appendJobOutputEvent_def split: sum.splits option.splits if_splits)
  then show ?thesis using job_keeps_refl [OF inv] by simp
qed

lemma terminal_fact_ok:
  assumes "terminal_fact a = (ty, b)"
  shows "isJobFactEvent ty" and "ty \<noteq> ''job.started''" and "same_job a b" and "jb_CompletedAt b = jb_CompletedAt a" and "ended_job b"
proof -
  have "TrimSpace ''failed'' = ''failed''" by code_simp
  with assms show "isJobFactEvent ty" "ty \<noteq> ''job.started''" "same_job a b" "jb_CompletedAt b = jb_CompletedAt a" "ended_job b"
    by (auto simp: terminal_fact_def isJobFactEvent_def same_job_def isTerminalJobStatus_def split: if_splits)
qed

text \<open>
  What is appended as the end of a job: the job as it was given, with a status that ends it and, if it had
  none, the time of the clock.
\<close>

lemma appendTerminalJobEvent_cases [consumes 1, case_names unread ended stored]:
  assumes "appendTerminalJobEvent job k = (r, k')"
  obtains err where "r = Some err" and "k' = k"
  | a where "lookupSessionJob (jb_SessionID job) (jb_JobID job) k = Inr (Some a)" and "ended_job a" and "r = None" and "k' = k"
  | found ty b k1 where "lookupSessionJob (jb_SessionID job) (jb_JobID job) k = Inr found" and "\<forall>a. found = Some a \<longrightarrow> \<not> ended_job a"
      and "isJobFactEvent ty" and "ty \<noteq> ''job.started''" and "same_job job b" and "ended_job b"
      and "jb_CompletedAt b = (if jb_CompletedAt job = 0 then fst (clock k) else jb_CompletedAt job)"
      and "k1 = (if jb_CompletedAt job = 0 then snd (clock k) else k)" and "appendJobEvent ty b k1 = (r, k')"
proof (cases "lookupSessionJob (jb_SessionID job) (jb_JobID job) k")
  case (Inl err)
  then show ?thesis using assms that(1) by (auto simp: appendTerminalJobEvent_def)
next
  case (Inr found)
  show ?thesis
  proof (cases "\<exists>a. found = Some a \<and> ended_job a")
    case True
    then show ?thesis using assms Inr that(2) by (auto simp: appendTerminalJobEvent_def)
  next
    case False
    define job1 where "job1 = (if TrimSpace (jb_Status job) = [] then job\<lparr>jb_Status := ''failed''\<rparr> else job)"
    define z where "z = (jb_CompletedAt job = 0)"
    define job2 where "job2 = (if z then job1\<lparr>jb_CompletedAt := fst (clock k)\<rparr> else job1)"
    obtain ty b where ty: "terminal_fact job2 = (ty, b)" by (cases "terminal_fact job2")
    note ok = terminal_fact_ok [OF ty]
    have z1: "(jb_CompletedAt job1 = 0) = z" by (simp add: job1_def z_def)
    have going: "(case found of Some j \<Rightarrow> ended_job j | None \<Rightarrow> False) = False" using False by (auto split: option.splits)
    have app: "appendJobEvent ty b (if z then snd (clock k) else k) = (r, k')"
      using assms ty unfolding appendTerminalJobEvent_def Let_def job1_def [symmetric] Inr
      by (simp add: z1 going case_prod_unfold) (cases z; simp add: job2_def case_prod_unfold)
    have "same_job job job2" by (simp add: job2_def job1_def same_job_def)
    then have "same_job job b" using ok(3) by (rule same_job_trans)
    moreover have "jb_CompletedAt b = (if jb_CompletedAt job = 0 then fst (clock k) else jb_CompletedAt job)"
      using ok(4) by (simp add: job2_def job1_def z_def)
    ultimately show ?thesis using that(3) [OF Inr _ ok(1,2) _ ok(5) _ _ app] False by (auto simp: z_def)
  qed
qed

text \<open>
  The end of a known job, when its completion has no time yet or one that is not before its facts.
\<close>

lemma known_lookup:
  assumes "job_inv k" and "known k b" and "same_job b job"
  obtains a where "job_of (jb_SessionID job) (jb_JobID job) k = Some a" and "same_job a job"
    and "\<And>r. lookupSessionJob (jb_SessionID job) (jb_JobID job) k = Inr r \<Longrightarrow> r = Some a"
proof -
  have ids: "jb_SessionID b = jb_SessionID job" "jb_JobID b = jb_JobID job" using assms(3) by (simp_all add: same_job_def)
  then have tr: "TrimSpace (jb_SessionID job) = jb_SessionID job" "TrimSpace (jb_JobID job) = jb_JobID job"
    "jb_SessionID job \<noteq> []" "jb_JobID job \<noteq> []" using known_ok(1,2) [OF assms(1,2)] by (simp_all add: trimmed_def trimmed_id_def)
  obtain a where a: "job_of (jb_SessionID job) (jb_JobID job) k = Some a" "same_job b a"
    using known_job_of [OF assms(1,2)] ids by auto
  have "same_job a job" using a(2) assms(3) same_job_sym same_job_trans by blast
  moreover have "r = Some a" if "lookupSessionJob (jb_SessionID job) (jb_JobID job) k = Inr r" for r
    using lookup_read [OF assms(1) that] tr a(1) by simp
  ultimately show ?thesis using that a(1) by blast
qed

lemma appendTerminalJobEvent_keeps:
  assumes inv: "job_inv k" and job: "known k b" "same_job b job"
    and t: "jb_CompletedAt job = 0 \<or> (\<forall>x \<in> set (jv.rows (jb_SessionID job) (jb_JobID job) k). ev_CreatedAt x \<le> jb_CompletedAt job) \<and>
      jb_CompletedAt job \<le> fst (clock k)"
    and run: "appendTerminalJobEvent job k = (r, k')"
  shows "job_keeps k k' \<and> (r = None \<longrightarrow> (\<exists>a. job_of (jb_SessionID job) (jb_JobID job) k' = Some a \<and> ended_job a))"
proof -
  obtain a where a: "job_of (jb_SessionID job) (jb_JobID job) k = Some a" "same_job a job"
    "\<And>r. lookupSessionJob (jb_SessionID job) (jb_JobID job) k = Inr r \<Longrightarrow> r = Some a"
    using known_lookup [OF inv job] by blast
  show ?thesis using run
  proof (cases rule: appendTerminalJobEvent_cases)
    case (unread err)
    then show ?thesis using job_keeps_refl [OF inv] by simp
  next
    case (ended c)
    then show ?thesis using job_keeps_refl [OF inv] a by auto
  next
    case (stored found ty b k1)
    have ids: "jb_SessionID b = jb_SessionID job" "jb_JobID b = jb_JobID job" using stored(5) by (simp_all add: same_job_def)
    have keep1: "job_keeps k k1"
      using job_keeps_refl [OF inv] job_keeps_same [OF inv kernel_ext_clock [OF kernel_ext_refl]] stored(8) by simp
    then have inv1: "job_inv k1" by (simp add: job_keeps_def)
    have rows1: "jv.rows s j k1 = jv.rows s j k" for s j by (simp add: stored(8) jv.rows_def)
    then have "job_of (jb_SessionID job) (jb_JobID job) k1 = Some a" using a(1) by (simp only: job_of_def)
    moreover have "\<not> ended_job a" using a(3) [OF stored(1)] stored(2) by simp
    ultimately have nf: "next_fact k1 b" "jb_JobID b \<in> allocated k1"
      using next_fact_continue [OF inv1 _ _ same_job_trans [OF a(2) stored(5)]] by blast+
    have le: "fst (clock k) \<le> fst (clock k1)"
      using job_inv_rows_time(3) [OF inv, of k1] keep1 unfolding job_keeps_def by (auto simp: clock_def)
    have t1: "(\<forall>x \<in> set (jv.rows (jb_SessionID b) (jb_JobID b) k1). ev_CreatedAt x \<le> jb_CompletedAt b) \<and> jb_CompletedAt b \<le> fst (clock k1)"
      unfolding rows1 ids stored(7) using t job_inv_rows_time(1) [OF inv] le by auto
    have c: "jb_CompletedAt b = (if ty = ''job.started'' then jb_StartedAt b else jb_CompletedAt b)" using stored(4) by simp
    have "ty = ''job.started'' \<longrightarrow> jb_CompletedAt b = 0" using stored(4) by simp
    note app = appendJobEvent_keeps [OF inv1 stored(3) nf this c disjI2 [OF t1] stored(9)]
    show ?thesis using job_keeps_trans [OF keep1 app(1)] app(3) stored(6) ids by auto
  qed
qed

subsection \<open>Starting\<close>

lemma fold_facts:
  "foldl (\<lambda>l event. case event_job event of Some job \<Rightarrow> if P event job then Some job else l | None \<Rightarrow> l) v es = r \<Longrightarrow>
     (r = None \<longrightarrow> v = None \<and> (\<forall>e \<in> set es. \<forall>job. event_job e = Some job \<longrightarrow> \<not> P e job)) \<and>
     (\<forall>a. r = Some a \<longrightarrow> v = Some a \<or> (\<exists>e \<in> set es. event_job e = Some a \<and> P e a))"
proof (induction es arbitrary: v)
  case (Cons e es)
  define w where "w = (case event_job e of Some job \<Rightarrow> if P e job then Some job else v | None \<Rightarrow> v)"
  have IH: "(r = None \<longrightarrow> w = None \<and> (\<forall>e \<in> set es. \<forall>job. event_job e = Some job \<longrightarrow> \<not> P e job)) \<and>
     (\<forall>a. r = Some a \<longrightarrow> w = Some a \<or> (\<exists>e \<in> set es. event_job e = Some a \<and> P e a))"
    using Cons.IH [of w] Cons.prems by (simp add: w_def)
  show ?case
  proof (cases "\<exists>job. event_job e = Some job \<and> P e job")
    case True
    then show ?thesis using IH by (auto simp: w_def)
  next
    case False
    then have "w = v" by (auto simp: w_def split: option.splits)
    then show ?thesis using IH False by auto
  qed
qed simp

lemma lookup_key:
  assumes inv: "job_inv k" and look: "lookupSessionJobByIdempotencyKey s tool key k = Inr r"
    and trim: "TrimSpace s \<noteq> []" "TrimSpace tool \<noteq> []" "TrimSpace key \<noteq> []"
  shows "r = None \<Longrightarrow> known k b \<Longrightarrow> jb_SessionID b = TrimSpace s \<Longrightarrow> \<not> (jb_Tool b = TrimSpace tool \<and> jb_IdempotencyKey b = TrimSpace key)"
    and "r = Some a \<Longrightarrow> known k a \<and> jb_SessionID a = TrimSpace s \<and> jb_Tool a = TrimSpace tool \<and> jb_IdempotencyKey a = TrimSpace key"
proof -
  let ?P = "\<lambda>event job. ev_SessionID event = TrimSpace s \<and> TrimSpace (jb_Tool job) = TrimSpace tool \<and> TrimSpace (jb_IdempotencyKey job) = TrimSpace key"
  obtain es where es: "loadEvents k = Inr es" and r: "foldl (\<lambda>l event. case event_job event of
      Some job \<Rightarrow> if ?P event job then Some job else l | None \<Rightarrow> l) None es = r"
    using look trim by (auto simp: lookupSessionJobByIdempotencyKey_def Let_def bind_res_Inr_iff)
  note set = loadEvents_set [OF es]
  have ok: "fact_ok k e b" if "e \<in> set (k_rows k)" "event_job e = Some b" for e b using inv that by (simp add: job_inv_def)
  show "r = None \<Longrightarrow> known k b \<Longrightarrow> jb_SessionID b = TrimSpace s \<Longrightarrow> \<not> (jb_Tool b = TrimSpace tool \<and> jb_IdempotencyKey b = TrimSpace key)"
  proof -
    assume "r = None" and kb: "known k b" and sb: "jb_SessionID b = TrimSpace s"
    obtain e where e: "e \<in> set (k_rows k)" "event_job e = Some b" using kb by (auto simp: known_def)
    have "\<not> ?P e b" using fold_facts [OF r] \<open>r = None\<close> e set by blast
    with ok [OF e] sb show ?thesis by (auto simp: fact_ok_def trimmed_def trimmed_id_def)
  qed
  show "r = Some a \<Longrightarrow> known k a \<and> jb_SessionID a = TrimSpace s \<and> jb_Tool a = TrimSpace tool \<and> jb_IdempotencyKey a = TrimSpace key"
  proof -
    assume "r = Some a"
    then obtain e where e: "e \<in> set (k_rows k)" "event_job e = Some a" "?P e a" using fold_facts [OF r] set by blast
    with ok [OF e(1,2)] show ?thesis by (auto simp: fact_ok_def trimmed_def trimmed_id_def known_def)
  qed
qed

lemma TrimSpace_shell_exec [simp]: "TrimSpace ''shell_exec'' = ''shell_exec''"
  by code_simp

lemma new_job_id:
  assumes inv: "job_inv k" and i: "i = fst (newID ''job'' t k1)" and k1: "kernel_ext k k1 es"
  shows "trimmed_id i" and "i \<notin> allocated k1" and "i \<in> allocated (snd (newID ''job'' t k1))"
proof -
  have env: "ulid_unique (k_env k1)" "ids_trimmed (k_env k1)" using inv k1 by (auto simp: job_inv_def env_ok_def kernel_ext_def)
  obtain u where u: "env_ulid (k_env k1) t (k_draws k1) = Some u" by (rule ulid_some [OF env(1)])
  then have "i = ''job_'' @ u" by (simp add: i newID_def)
  then show "trimmed_id i" using env(2) u by (simp add: trimmed_def trimmed_id_def ids_trimmed_def)
  show "i \<notin> allocated k1" using newID_fresh [OF env(1)] by (simp add: i)
  show "i \<in> allocated (snd (newID ''job'' t k1))" using newID_allocated [OF env(1)] by (simp add: i)
qed

lemma unknown_id:
  assumes "job_inv k" and "i \<notin> allocated k"
  shows "job_of s i k = None"
proof (cases "job_of s i k")
  case (Some b)
  with assms show ?thesis using job_of_ids(2) [OF assms(1) Some] known_ok(3) [OF assms(1) job_of_known [OF Some]] by simp
qed simp

lemma existing_job_None:
  assumes "job_inv k" and "existing_job s key k = Inr None" and "trimmed s" and "TrimSpace key = key"
    and "known k b" and "jb_SessionID b = s"
  shows "\<not> (jb_IdempotencyKey b \<noteq> [] \<and> jb_Tool b = ''shell_exec'' \<and> jb_IdempotencyKey b = key)"
proof (cases "key = []")
  case False
  with assms lookup_key(1) [OF assms(1), of s "''shell_exec''" key None b] show ?thesis by (auto simp: existing_job_def trimmed_def trimmed_id_def)
qed simp

lemma existing_job_Some:
  assumes "job_inv k" and "existing_job s key k = Inr (Some a)" and "trimmed s" and "TrimSpace key = key"
  shows "known k a" and "jb_SessionID a = s" and "jb_IdempotencyKey a = key"
  using assms lookup_key(2) [OF assms(1), of s "''shell_exec''" key "Some a" a]
  by (auto simp: existing_job_def trimmed_def trimmed_id_def split: if_splits)

lemma started_job_simps [simp]:
  "jb_JobID (started_job ex req turn call sec i t) = i" "jb_SessionID (started_job ex req turn call sec i t) = TrimSpace (sr_SessionID req)"
  "jb_Tool (started_job ex req turn call sec i t) = ''shell_exec''" "jb_CompletedAt (started_job ex req turn call sec i t) = 0"
  "jb_IdempotencyKey (started_job ex req turn call sec i t) = TrimSpace (sr_IdempotencyKey req)"
  "jb_StartedAt (started_job ex req turn call sec i t) = t" "jb_Status (started_job ex req turn call sec i t) = ''running''"
  by (simp_all add: started_job_def no_job_def)

lemma prepareManagedShellJob_cases [consumes 1, case_names refused existing new]:
  assumes "prepareManagedShellJob ex req turn call k = (r, k')"
  obtains err where "r = Inl err" and "k' = k"
  | a where "TrimSpace (sr_SessionID req) \<noteq> []" and "existing_job (TrimSpace (sr_SessionID req)) (TrimSpace (sr_IdempotencyKey req)) k = Inr (Some a)"
      and "r = Inr (a, False)" and "k' = k"
  | sec i a e where "TrimSpace (sr_SessionID req) \<noteq> []" and "existing_job (TrimSpace (sr_SessionID req)) (TrimSpace (sr_IdempotencyKey req)) k = Inr None"
      and "i = fst (newID ''job'' (fst (clock k)) (snd (clock k)))" and "a = started_job ex req turn call sec i (fst (clock k))"
      and "appendJobEvent ''job.started'' a (snd (newID ''job'' (fst (clock k)) (snd (clock k)))) = (e, k')"
      and "r = (case e of Some err \<Rightarrow> Inl err | None \<Rightarrow> Inr (a, True))"
proof (cases "validateShellRequest req")
  case (Some err)
  then show ?thesis using assms that(1) by (auto simp: prepareManagedShellJob_def)
next
  case None
  then have s: "TrimSpace (sr_SessionID req) \<noteq> []" by (auto simp: validateShellRequest_def split: if_splits)
  let ?sec = "normalizedShellTimeoutSec k (sr_TimeoutSec req)"
  let ?x = "existing_job (TrimSpace (sr_SessionID req)) (TrimSpace (sr_IdempotencyKey req)) k"
  note run = assms [unfolded prepareManagedShellJob_def None option.case Let_def]
  show ?thesis
  proof (cases "shellTimeoutExceedsForeground k ?sec")
    case False
    then show ?thesis using run that(1) by auto
  next
    case True
    show ?thesis
    proof (cases ?x)
      case (Inl err)
      then show ?thesis using run True that(1) by auto
    next
      case (Inr found)
      show ?thesis
      proof (cases found)
        case (Some a)
        then have "r = Inr (a, False)" "k' = k" using run True Inr by simp_all
        then show ?thesis using that(2) [OF s] Inr Some by simp
      next
        case none: None
        let ?t = "fst (clock k)" and ?k = "snd (clock k)"
        define i where "i = fst (newID ''job'' ?t ?k)"
        define k1 where "k1 = snd (newID ''job'' ?t ?k)"
        define a where "a = started_job ex req turn call ?sec i ?t"
        define x where "x = appendJobEvent ''job.started'' a k1"
        have "(case x of (Some err, k) \<Rightarrow> (Inl err, k) | (None, k) \<Rightarrow> (Inr (a, True), k)) = (r, k')"
          using run True by (simp only: Inr none sum.case option.case case_prod_unfold a_def i_def k1_def x_def if_True not_True_eq_False if_False)
        then have "r = (case fst x of Some err \<Rightarrow> Inl err | None \<Rightarrow> Inr (a, True))" "snd x = k'"
          by (cases x; cases "fst x"; simp)+
        then show ?thesis using that(3) [OF s _ i_def a_def, of "fst x"] Inr none by (simp add: x_def k1_def prod_eq_iff)
      qed
    qed
  qed
qed

text \<open>The first fact of a new job; its start may have been read some time ago.\<close>

lemma start_keeps:
  assumes inv: "job_inv k" and a: "trimmed (jb_SessionID a)" "trimmed_id (jb_JobID a)" "jb_JobID a \<in> allocated k" "jb_Tool a = ''shell_exec''"
      "TrimSpace (jb_IdempotencyKey a) = jb_IdempotencyKey a" "jb_CompletedAt a = 0" "0 < jb_StartedAt a" "jb_StartedAt a \<le> fst (clock k)"
    and new: "job_of (jb_SessionID a) (jb_JobID a) k = None"
      "\<And>b. known k b \<Longrightarrow> jb_SessionID b = jb_SessionID a \<Longrightarrow> \<not> (jb_IdempotencyKey b \<noteq> [] \<and> jb_Tool b = ''shell_exec'' \<and> jb_IdempotencyKey b = jb_IdempotencyKey a)"
    and run: "appendJobEvent ''job.started'' a k = (r, k')"
  shows "job_keeps k k'" and "r = None \<Longrightarrow> known k' a"
proof -
  have nf: "next_fact k a" using a new by (simp add: next_fact_def trimmed_def trimmed_id_def)
  have rows: "jv.rows (jb_SessionID a) (jb_JobID a) k = []"
  proof (rule ccontr)
    assume rows: "jv.rows (jb_SessionID a) (jb_JobID a) k \<noteq> []"
    then have "job_fact (jb_SessionID a) (jb_JobID a) (last (jv.rows (jb_SessionID a) (jb_JobID a) k))"
      using last_in_set by (fastforce simp: jv.rows_def)
    with new(1) rows show False by (auto simp: job_of_def job_fact_def)
  qed
  have "isJobFactEvent ''job.started''" by (simp add: isJobFactEvent_def)
  note app = appendJobEvent_keeps [OF inv this nf a(3) _ _ _ run, of "jb_StartedAt a"]
  show "job_keeps k k'" using app(1) a(6,8) rows by simp
  show "r = None \<Longrightarrow> known k' a" using app(2) a(6,8) rows by simp
qed

lemma prepareManagedShellJob_keeps:
  assumes inv: "job_inv k" and run: "prepareManagedShellJob ex req turn call k = (r, k')"
  shows "job_keeps k k'" and "r = Inr (a, c) \<Longrightarrow> known k' a \<and> jb_SessionID a = TrimSpace (sr_SessionID req) \<and>
    (TrimSpace (sr_IdempotencyKey req) \<noteq> [] \<longrightarrow> jb_Tool a = ''shell_exec'' \<and> jb_IdempotencyKey a = TrimSpace (sr_IdempotencyKey req))"
proof -
  let ?s = "TrimSpace (sr_SessionID req)" and ?key = "TrimSpace (sr_IdempotencyKey req)"
  have "job_keeps k k' \<and> (r = Inr (a, c) \<longrightarrow> known k' a \<and> jb_SessionID a = ?s \<and> (?key \<noteq> [] \<longrightarrow> jb_Tool a = ''shell_exec'' \<and> jb_IdempotencyKey a = ?key))"
    using run
  proof (cases rule: prepareManagedShellJob_cases)
    case (refused err)
    then show ?thesis using job_keeps_refl [OF inv] by simp
  next
    case (existing b)
    have "?key \<noteq> []" using existing(2) by (auto simp: existing_job_def split: if_splits)
    then have "known k b \<and> jb_SessionID b = ?s \<and> jb_Tool b = ''shell_exec'' \<and> jb_IdempotencyKey b = ?key"
      using lookup_key(2) [OF inv, of ?s "''shell_exec''" ?key "Some b" b] existing(1,2) by (simp add: existing_job_def)
    then show ?thesis using existing(3,4) job_keeps_refl [OF inv] by auto
  next
    case (new sec i b e)
    let ?k1 = "snd (newID ''job'' (fst (clock k)) (snd (clock k)))"
    have ext1: "kernel_ext k ?k1 []" by (rule kernel_ext_stamp1 [OF kernel_ext_refl])
    have keep1: "job_keeps k ?k1" by (rule job_keeps_same [OF inv ext1])
    then have inv1: "job_inv ?k1" by (simp add: job_keeps_def)
    note id = new_job_id [OF inv new(3) kernel_ext_clock [OF kernel_ext_refl]]
    have known1: "known ?k1 d = known k d" for d by (simp add: known_def)
    have "job_of ?s i k = None" using unknown_id [OF inv] id(2) by simp
    then have none: "job_of (jb_SessionID b) (jb_JobID b) ?k1 = None" using new(4) job_of_same [of ?k1 k] by simp
    have t: "0 < fst (clock k)" "fst (clock k) \<le> fst (clock ?k1)"
      using job_inv_rows_time(2) [OF inv] job_inv_rows_time(3) [OF inv ext1] by (simp_all add: clock_def)
    have "job_keeps ?k1 k'" "e = None \<Longrightarrow> known k' b"
      by (rule start_keeps [OF inv1 _ _ _ _ _ _ _ _ none _ new(5)];
        use new(1,4) id t existing_job_None [OF inv new(2)] in \<open>simp add: trimmed_def trimmed_id_def known1\<close>)+
    then show ?thesis using new(4,6) job_keeps_trans [OF keep1] by (cases e) auto
  qed
  then show "job_keeps k k'" and "r = Inr (a, c) \<Longrightarrow> known k' a \<and> jb_SessionID a = ?s \<and>
    (?key \<noteq> [] \<longrightarrow> jb_Tool a = ''shell_exec'' \<and> jb_IdempotencyKey a = ?key)" by blast+
qed

subsection \<open>Failing to start, cancelling, completing\<close>

lemma known_terminal_keeps:
  assumes "job_inv k" and "known k b" and "same_job b job" and "jb_CompletedAt job = 0" and "appendTerminalJobEvent job k = (r, k')"
  shows "job_keeps k k'"
  using appendTerminalJobEvent_keeps [OF assms(1-3) disjI1 [OF assms(4)] assms(5)] by blast

lemma startManagedJobExecutor_keeps:
  assumes inv: "job_inv k" and job: "known k job" "jb_CompletedAt job = 0" and run: "startManagedJobExecutor ex job k = (r, k')"
  shows "job_keeps k k'"
proof -
  have failed: "job_keeps k k'" if "appendTerminalJobEvent (job\<lparr>jb_Status := ''failed'', jb_FailureReason := why\<rparr>) k = (r, k')" for why
    by (rule known_terminal_keeps [OF inv job(1) _ _ that]) (simp_all add: same_job_def job(2))
  show ?thesis
  proof (cases ex)
    case None
    then show ?thesis using run failed by (simp add: startManagedJobExecutor_def)
  next
    case (Some e)
    then show ?thesis using run failed job_keeps_refl [OF inv]
      by (cases "je_Start e job k") (auto simp: startManagedJobExecutor_def)
  qed
qed

lemma cancelJob_keeps:
  assumes inv: "job_inv k" and run: "cancelJobModelToolResult env s turn call pcall tool j reason k = (r, k')"
  shows "job_keeps k k'"
proof (cases "\<exists>a. lookupSessionJob s j k = Inr (Some a) \<and> \<not> ended_job a \<and> TrimSpace (jb_Status a) \<noteq> ''cancel_requested''")
  case True
  then obtain a where a: "lookupSessionJob s j k = Inr (Some a)" "\<not> ended_job a" "TrimSpace (jb_Status a) \<noteq> ''cancel_requested''" by blast
  obtain e k1 where e: "appendJobEvent ''job.cancel_requested'' (requested_cancel a s turn reason) k = (e, k1)" by fastforce
  then have "k' = k1" using run a by (cases e) (auto simp: cancelJobModelToolResult_def Let_def split: option.splits)
  moreover have "same_job a (requested_cancel a s turn reason)"
    using lookup_Some(3) [OF inv a(1)] by (simp add: same_job_def requested_cancel_def)
  ultimately show ?thesis
    using continue_keeps [OF inv lookup_Some(1) [OF inv a(1)] a(2) _ _ _ _ e] by (simp add: isJobFactEvent_def requested_cancel_def)
next
  case False
  then have "k' = k" using run
    by (auto simp: cancelJobModelToolResult_def Let_def split: sum.splits option.splits if_splits)
  then show ?thesis using job_keeps_refl [OF inv] by simp
qed

lemma same_job_process [simp]: "same_job job (jobFromManagedProcessResult job result reason)"
  "jb_CompletedAt (jobFromManagedProcessResult job result reason) = jb_CompletedAt job"
  by (simp_all add: same_job_def jobFromManagedProcessResult_def applyJobOutputCapture_def Let_def split: option.splits)

subsection \<open>Taking over\<close>

definition prepared :: "kernel \<Rightarrow> JobProjection \<Rightarrow> bool" where
  "prepared k a \<longleftrightarrow> trimmed (jb_SessionID a) \<and> trimmed_id (jb_JobID a) \<and> jb_JobID a \<in> allocated k \<and> jb_Tool a = ''shell_exec'' \<and>
     TrimSpace (jb_IdempotencyKey a) = jb_IdempotencyKey a \<and> jb_CompletedAt a = 0 \<and> 0 < jb_StartedAt a \<and> jb_StartedAt a \<le> fst (clock k)"

definition attach_ok :: "kernel \<Rightarrow> attachment \<Rightarrow> bool" where
  "attach_ok k a \<longleftrightarrow> (case ta_once a of None \<Rightarrow> prepared k (ta_job a) | Some (Inl _) \<Rightarrow> True | Some (Inr started) \<Rightarrow> known k started)"

lemma appendJobStartedIfAbsent_keeps:
  assumes inv: "job_inv k" and job: "prepared k job" and run: "appendJobStartedIfAbsent job k = (r, k')"
  shows "job_keeps k k'" and "r = Inr (a, c) \<Longrightarrow> known k' a"
proof -
  have tr: "TrimSpace (jb_SessionID job) = jb_SessionID job" "jb_SessionID job \<noteq> []" "TrimSpace (jb_JobID job) = jb_JobID job"
    "jb_JobID job \<noteq> []" "TrimSpace (jb_IdempotencyKey job) = jb_IdempotencyKey job" using job by (simp_all add: prepared_def trimmed_def trimmed_id_def)
  define look where "look = (if jb_IdempotencyKey job \<noteq> []
    then lookupSessionJobByIdempotencyKey (jb_SessionID job) (jb_Tool job) (jb_IdempotencyKey job) k else Inr None)"
  have look_eq: "look = existing_job (jb_SessionID job) (jb_IdempotencyKey job) k"
    using job by (simp add: look_def existing_job_def prepared_def)
  define found where "found = lookupSessionJob (jb_SessionID job) (jb_JobID job) k"
  note run' = run [unfolded appendJobStartedIfAbsent_def tr look_def [symmetric] found_def [symmetric]]
  have "job_keeps k k' \<and> (r = Inr (a, c) \<longrightarrow> known k' a)"
  proof (cases "look = Inr None \<and> found = Inr None")
    case True
    obtain e k1 where e: "appendJobEvent ''job.started'' job k = (e, k1)" by fastforce
    have "job_of (jb_SessionID job) (jb_JobID job) k = None" using lookup_read [OF inv, of "jb_SessionID job" "jb_JobID job" None] True tr by (simp add: found_def)
    note start = start_keeps [OF inv _ _ _ _ _ _ _ _ this existing_job_None [OF inv] e]
    have "job_keeps k k1" "e = None \<Longrightarrow> known k1 job"
      using start job True look_eq by (simp_all add: prepared_def)
    then show ?thesis using run' True e tr(4) by (cases e) auto
  next
    case False
    then have "k' = k" "r = Inr (a, c) \<Longrightarrow> look = Inr (Some a) \<or> found = Inr (Some a)"
      using run' tr(4) by (auto split: sum.splits option.splits)
    then show ?thesis using job_keeps_refl [OF inv] existing_job_Some(1) [OF inv, of "jb_SessionID job" "jb_IdempotencyKey job" a]
        lookup_Some(2) [OF inv, of "jb_SessionID job" "jb_JobID job" a] tr look_eq job by (auto simp: found_def prepared_def)
  qed
  then show "job_keeps k k'" and "r = Inr (a, c) \<Longrightarrow> known k' a" by blast+
qed

lemma prepared_mono: "prepared k a \<Longrightarrow> job_inv k \<Longrightarrow> kernel_ext k k' es \<Longrightarrow> prepared k' a"
proof -
  assume a: "prepared k a" and inv: "job_inv k" and ext: "kernel_ext k k' es"
  have "fst (clock k) \<le> fst (clock k')" using job_inv_rows_time(3) [OF inv ext] by (simp add: clock_def)
  then show ?thesis using a allocated_ext [OF ext] by (auto simp: prepared_def)
qed

lemma attach_ok_mono: "attach_ok k a \<Longrightarrow> job_inv k \<Longrightarrow> kernel_ext k k' es \<Longrightarrow> attach_ok k' a"
  using prepared_mono known_mono by (auto simp: attach_ok_def split: option.splits sum.splits)

lemma ensureStarted_keeps:
  assumes inv: "job_inv k" and a: "attach_ok k a" and run: "ensureStarted a k = (r, a', k')"
  shows "job_keeps k k'" and "attach_ok k' a'" and "r = Inr started \<Longrightarrow> known k' started"
proof -
  have "job_keeps k k' \<and> attach_ok k' a' \<and> (r = Inr started \<longrightarrow> known k' started)"
  proof (cases "ta_once a")
    case (Some x)
    then show ?thesis using run a job_keeps_refl [OF inv] by (auto simp: ensureStarted_def attach_ok_def)
  next
    case None
    obtain x k1 where x: "appendJobStartedIfAbsent (ta_job a) k = (x, k1)" by fastforce
    have "prepared k (ta_job a)" using a None by (simp add: attach_ok_def)
    note start = appendJobStartedIfAbsent_keeps [OF inv this x]
    have eqs: "k' = k1" "r = bind_res x (\<lambda>(started, _). Inr started)" "a' = a\<lparr>ta_once := Some r\<rparr>"
      using run None x by (auto simp: ensureStarted_def Let_def)
    then show ?thesis using start by (cases x) (auto simp: attach_ok_def)
  qed
  then show "job_keeps k k'" and "attach_ok k' a'" and "r = Inr started \<Longrightarrow> known k' started" by blast+
qed

lemma attached_Observe_keeps:
  assumes inv: "job_inv k" and a: "attach_ok k a" and run: "attached_Observe a progress k = (a', k')"
  shows "job_keeps k k' \<and> attach_ok k' a'"
proof -
  obtain r a1 k1 where e: "ensureStarted a k = (r, a1, k1)" by (metis prod_cases3)
  note s = ensureStarted_keeps(1,2) [OF inv a e]
  then have inv1: "job_inv k1" by (simp add: job_keeps_def)
  show ?thesis
  proof (cases r)
    case (Inl err)
    then show ?thesis using run e s by (simp add: attached_Observe_def)
  next
    case (Inr started)
    obtain x k2 where x: "appendJobOutputEvent (mergeJobOutputSnapshot started progress) k1 = (x, k2)" by fastforce
    have "k' = k2" "a' = a1" using run e Inr x by (simp_all add: attached_Observe_def)
    moreover have "job_keeps k1 k2" by (rule appendJobOutputEvent_keeps [OF inv1 x])
    ultimately show ?thesis using job_keeps_trans [OF s(1)] attach_ok_mono [OF s(2) inv1] unfolding job_keeps_def by blast
  qed
qed

lemma same_job_attached: "same_job started ((bindAttachedTerminalJob started finished)\<lparr>jb_Status := st\<rparr>)"
    "same_job started (bindAttachedTerminalJob started finished)"
    "jb_CompletedAt (bindAttachedTerminalJob started finished) = jb_CompletedAt finished"
  by (simp_all add: same_job_def bindAttachedTerminalJob_def mergeJobOutputSnapshot_def)

lemma attached_Complete_keeps:
  assumes inv: "job_inv k" and a: "attach_ok k a" and finished: "jb_CompletedAt finished = 0"
    and run: "attached_Complete a finished k = (a', k')"
  shows "job_keeps k k' \<and> attach_ok k' a'"
proof -
  obtain r a1 k1 where e: "ensureStarted a k = (r, a1, k1)" by (metis prod_cases3)
  note s = ensureStarted_keeps [OF inv a e]
  then have inv1: "job_inv k1" by (simp add: job_keeps_def)
  show ?thesis
  proof (cases r)
    case (Inl err)
    then show ?thesis using run e s by (simp add: attached_Complete_def)
  next
    case (Inr started)
    define f where "f = (let b = bindAttachedTerminalJob started finished in if jb_Status b \<in> {[], ''running''} then b\<lparr>jb_Status := ''completed''\<rparr> else b)"
    have f: "same_job started f" "jb_CompletedAt f = 0" using finished by (simp_all add: f_def Let_def same_job_attached)
    obtain x k2 where x: "appendTerminalJobEvent f k1 = (x, k2)" by fastforce
    have "k' = k2" "a' = a1" using run e Inr x by (simp_all add: attached_Complete_def f_def Let_def)
    moreover have "job_keeps k1 k2" by (rule known_terminal_keeps [OF inv1 s(3) [OF Inr] f x])
    ultimately show ?thesis using job_keeps_trans [OF s(1)] attach_ok_mono [OF s(2) inv1] unfolding job_keeps_def by blast
  qed
qed

lemma prepareForeground_keeps:
  assumes inv: "job_inv k" and op: "TrimSpace (op_SessionID op) \<noteq> []" and run: "prepareForegroundAttachedShellJob ex op k = (r, k')"
  shows "job_keeps k k'" and "r = Inr (job, True) \<Longrightarrow> prepared k' job"
proof -
  let ?t = "fst (clock k)" and ?k1 = "snd (newID ''job'' (fst (clock k)) (snd (clock k)))"
  have ext1: "kernel_ext k ?k1 []" by (rule kernel_ext_stamp1 [OF kernel_ext_refl])
  note id = new_job_id [OF inv HOL.refl kernel_ext_clock [OF kernel_ext_refl], of ?t]
  have "prepared ?k1 (attached_job ex op (fst (newID ''job'' ?t (snd (clock k)))) ?t)"
    using op id(1,3) job_inv_rows_time(2) [OF inv] job_inv_rows_time(3) [OF inv ext1]
    by (simp add: prepared_def attached_job_def trimmed_def trimmed_id_def clock_def no_job_def)
  then have "job_keeps k k' \<and> (r = Inr (job, True) \<longrightarrow> prepared k' job)"
    using run job_keeps_refl [OF inv] job_keeps_same [OF inv ext1]
    by (auto simp: prepareForegroundAttachedShellJob_def case_prod_unfold Let_def split: sum.splits option.splits)
  then show "job_keeps k k'" and "r = Inr (job, True) \<Longrightarrow> prepared k' job" by blast+
qed

lemma attachInterrupted_keeps:
  assumes inv: "job_inv k" and op: "TrimSpace (op_SessionID op) \<noteq> []"
    and run: "attachInterruptedForegroundShell ex op k = (r, ao, k')"
  shows "job_keeps k k'"
proof (cases "\<exists>e. ex = Some e \<and> je_ForegroundAttach e")
  case False
  then have "k' = k" using run by (auto simp: attachInterruptedForegroundShell_def split: option.splits if_splits)
  then show ?thesis using job_keeps_refl [OF inv] by simp
next
  case True
  then obtain e where e: "ex = Some e" "je_ForegroundAttach e" by blast
  obtain p k1 where p: "prepareForegroundAttachedShellJob ex op k = (p, k1)" by fastforce
  note keep1 = prepareForeground_keeps [OF inv op p]
  show ?thesis
  proof (cases "\<exists>job. p = Inr (job, True)")
    case False
    then have "k' = k1" using run e p
      by (auto simp: attachInterruptedForegroundShell_def split: sum.splits prod.splits)
    then show ?thesis using keep1 by simp
  next
    case True
    then obtain job where job: "p = Inr (job, True)" by blast
    have inv1: "job_inv k1" using keep1(1) by (simp add: job_keeps_def)
    let ?k2 = "snd (clock k1)"
    have ext2: "kernel_ext k1 ?k2 []" by (rule kernel_ext_clock [OF kernel_ext_refl])
    have keep2: "job_keeps k ?k2" by (rule job_keeps_trans [OF keep1(1) job_keeps_same [OF inv1 ext2]])
    then have inv2: "job_inv ?k2" by (simp add: job_keeps_def)
    have ok2: "attach_ok ?k2 \<lparr>ta_job = job, ta_once = None\<rparr>"
      using prepared_mono [OF keep1(2) [OF job] inv1 ext2] by (simp add: attach_ok_def)
    obtain early attached where ea: "je_AttachForeground e (TrimSpace (op_OperationID op)) job ?k2 = (early, attached)" by fastforce
    obtain a3 k3 where a3: "(case early of Some progress \<Rightarrow> attached_Observe \<lparr>ta_job = job, ta_once = None\<rparr> progress ?k2
        | None \<Rightarrow> (\<lparr>ta_job = job, ta_once = None\<rparr>, ?k2)) = (a3, k3)" by fastforce
    have keep3: "job_keeps ?k2 k3" "attach_ok k3 a3"
      using a3 attached_Observe_keeps [OF inv2 ok2] ok2 job_keeps_refl [OF inv2] by (auto split: option.splits)
    then have inv3: "job_inv k3" by (simp add: job_keeps_def)
    obtain x a4 k4 where x: "ensureStarted a3 k3 = (x, a4, k4)" by (metis prod_cases3)
    have "k' = k3 \<or> k' = k4"
      using run e p job ea a3 x unfolding attachInterruptedForegroundShell_def
      by (auto simp: case_prod_unfold Let_def split: sum.splits if_splits)
    then show ?thesis using job_keeps_trans [OF keep2 keep3(1)] job_keeps_trans [OF _ ensureStarted_keeps(1) [OF inv3 keep3(2) x]] by blast
  qed
qed

subsection \<open>Recovery\<close>

lemma fail_lost_jobs_keeps:
  "job_inv k \<Longrightarrow> \<forall>a \<in> set jobs. known k a \<Longrightarrow> fail_lost_jobs jobs k = (r, k') \<Longrightarrow>
     job_keeps k k' \<and> (r = None \<longrightarrow> (\<forall>a \<in> set jobs. TrimSpace (jb_ExecutorRef a) = localManagedShellExecutorRef \<longrightarrow> ended_job a \<or>
       (\<exists>b. job_of (jb_SessionID a) (jb_JobID a) k' = Some b \<and> ended_job b)))"
proof (induction jobs arbitrary: k)
  case Nil
  then show ?case using job_keeps_refl by simp
next
  case (Cons job jobs)
  note inv = Cons.prems(1)
  show ?case
  proof (cases "TrimSpace (jb_ExecutorRef job) \<noteq> localManagedShellExecutorRef \<or> ended_job job")
    case True
    then have "fail_lost_jobs jobs k = (r, k')" using Cons.prems(3) by (simp split: if_splits)
    then show ?thesis using Cons.IH [OF inv] Cons.prems(2) True by auto
  next
    case False
    let ?t = "fst (clock k)" and ?k1 = "snd (clock k)"
    let ?lost = "job\<lparr>jb_Status := ''failed'', jb_FailureReason := ''managed_job_lost_ownership'', jb_CompletedAt := ?t\<rparr>"
    have ext1: "kernel_ext k ?k1 []" by (rule kernel_ext_clock [OF kernel_ext_refl])
    have keep1: "job_keeps k ?k1" by (rule job_keeps_same [OF inv ext1])
    then have inv1: "job_inv ?k1" by (simp add: job_keeps_def)
    obtain e k2 where e: "appendTerminalJobEvent ?lost ?k1 = (e, k2)" by fastforce
    have "jv.rows s j ?k1 = jv.rows s j k" for s j by (simp add: jv.rows_def)
    then have t: "jb_CompletedAt ?lost = 0 \<or> (\<forall>x \<in> set (jv.rows (jb_SessionID ?lost) (jb_JobID ?lost) ?k1). ev_CreatedAt x \<le> jb_CompletedAt ?lost) \<and>
      jb_CompletedAt ?lost \<le> fst (clock ?k1)"
      using job_inv_rows_time(1) [OF inv] job_inv_rows_time(3) [OF inv ext1] by (simp add: clock_def)
    have "known ?k1 job" "same_job job ?lost" using Cons.prems(2) known_mono [OF ext1] by (simp_all add: same_job_def)
    note stop = appendTerminalJobEvent_keeps [OF inv1 this t e]
    then have keep2: "job_keeps k k2" using job_keeps_trans [OF keep1] by blast
    show ?thesis
    proof (cases e)
      case (Some err)
      then show ?thesis using Cons.prems(3) False e keep2 by (auto simp: case_prod_unfold split: if_splits)
    next
      case None
      then have rest: "fail_lost_jobs jobs k2 = (r, k')" using Cons.prems(3) False e by (simp add: case_prod_unfold split: if_splits)
      obtain es where ext2: "kernel_ext k k2 es" and inv2: "job_inv k2" using keep2 by (auto simp: job_keeps_def)
      have "\<forall>a \<in> set jobs. known k2 a" using Cons.prems(2) known_mono [OF ext2] by simp
      note IH = Cons.IH [OF inv2 this rest]
      obtain b where b: "job_of (jb_SessionID job) (jb_JobID job) k2 = Some b" "ended_job b" using stop None by auto
      then have "job_of (jb_SessionID job) (jb_JobID job) k' = Some b" using IH unfolding job_keeps_def job_le_def by blast
      then show ?thesis using IH job_keeps_trans [OF keep2] b(2) by auto
    qed
  qed
qed

text \<open>The map of the latest facts holds the latest fact of every job under a key of its own.\<close>

lemma latest_jobs:
  assumes ok: "\<forall>e \<in> set es. \<forall>a. event_job e = Some a \<longrightarrow> ev_SessionID e = jb_SessionID a \<and> trimmed (jb_SessionID a) \<and>
      trimmed_id (jb_JobID a)" and j: "CHR 0x00 \<notin> set j"
    and key: "key = s @ [CHR 0x00] @ j"
  shows "go_lookup (foldl latest_jobs_step m es) key =
    foldl (\<lambda>l event. case event_job event of
      Some job \<Rightarrow> if ev_SessionID event = s \<and> TrimSpace (jb_JobID job) = j then Some job else l | None \<Rightarrow> l)
      (go_lookup m key) es"
  using ok
proof (induction es arbitrary: m)
  case (Cons e es)
  have "go_lookup (latest_jobs_step m e) key =
    (case event_job e of Some job \<Rightarrow> if ev_SessionID e = s \<and> TrimSpace (jb_JobID job) = j then Some job else go_lookup m key
      | None \<Rightarrow> go_lookup m key)"
  proof (cases "event_job e")
    case (Some a)
    then have a: "ev_SessionID e = jb_SessionID a" "TrimSpace (jb_SessionID a) = jb_SessionID a" "jb_SessionID a \<noteq> []"
      "TrimSpace (jb_JobID a) = jb_JobID a" "jb_JobID a \<noteq> []" "CHR 0x00 \<notin> set (jb_JobID a)"
      using Cons.prems by (auto simp: trimmed_def trimmed_id_def)
    have "jb_SessionID a @ [CHR 0x00] @ jb_JobID a = key \<longleftrightarrow> jb_SessionID a = s \<and> jb_JobID a = j"
      using after_underscore_inj [of "jb_SessionID a" "CHR 0x00" "jb_JobID a" s j] a(6) j by (auto simp: key)
    then show ?thesis using Some a by (auto simp: latest_jobs_step_def)
  qed (simp add: latest_jobs_step_def)
  then show ?case using Cons.IH [of "latest_jobs_step m e"] Cons.prems by simp
qed simp

lemma latest_jobs_known:
  "\<forall>x \<in> snd ` set m. Q x \<Longrightarrow> \<forall>e \<in> set es. \<forall>a. event_job e = Some a \<longrightarrow> Q a \<Longrightarrow> \<forall>x \<in> snd ` set (foldl latest_jobs_step m es). Q x"
proof (induction es arbitrary: m)
  case (Cons e es)
  have "\<forall>x \<in> snd ` set (latest_jobs_step m e). Q x"
  proof (cases "event_job e")
    case (Some a)
    have upd: "snd ` set (AList.update i a m) \<subseteq> insert a (snd ` set m)" for i by (induction m) auto
    have "Q a" using Some Cons.prems(2) by simp
    then have "\<forall>x \<in> insert a (snd ` set m). Q x" using Cons.prems(1) by simp
    moreover have "snd ` set (latest_jobs_step m e) \<subseteq> insert a (snd ` set m)"
      using upd Some by (simp add: latest_jobs_step_def) blast
    ultimately show ?thesis by blast
  qed (use Cons.prems(1) in \<open>simp add: latest_jobs_step_def\<close>)
  from Cons.IH [OF this] Cons.prems(2) show ?case by simp
qed simp

lemma recover_keeps:
  assumes inv: "job_inv k" and run: "recoverLostLocalManagedJobs k = (r, k')"
  shows "job_keeps k k'" and "r = None \<Longrightarrow> job_of s j k = Some a \<Longrightarrow> TrimSpace (jb_ExecutorRef a) = localManagedShellExecutorRef \<Longrightarrow>
    \<exists>b. job_of s j k' = Some b \<and> ended_job b"
proof -
  have "job_keeps k k' \<and> (r = None \<longrightarrow> job_of s j k = Some a \<longrightarrow> TrimSpace (jb_ExecutorRef a) = localManagedShellExecutorRef \<longrightarrow>
    (\<exists>b. job_of s j k' = Some b \<and> ended_job b))"
  proof (cases "loadEvents k")
    case (Inl err)
    then show ?thesis using run job_keeps_refl [OF inv] by (auto simp: recoverLostLocalManagedJobs_def)
  next
    case (Inr es)
    define m where "m = foldl latest_jobs_step [] es"
    define jobs where "jobs = List.map_filter (go_lookup m) (map_order k (map fst m))"
    have fail: "fail_lost_jobs jobs k = (r, k')" using run Inr by (simp add: recoverLostLocalManagedJobs_def Let_def m_def jobs_def)
    note set = loadEvents_set [OF Inr]
    have "\<forall>x \<in> snd ` set m. known k x" unfolding m_def
      by (rule latest_jobs_known) (use set in \<open>auto simp: known_def\<close>)
    then have "\<forall>x \<in> set jobs. known k x" using map_of_SomeD by (fastforce simp: jobs_def List.map_filter_def)
    note lost = fail_lost_jobs_keeps [OF inv this fail]
    have "\<exists>b. job_of s j k' = Some b \<and> ended_job b"
      if r: "r = None" and a: "job_of s j k = Some a" "TrimSpace (jb_ExecutorRef a) = localManagedShellExecutorRef"
    proof -
      note ids = job_of_ids [OF inv a(1)] and ka = job_of_known [OF a(1)]
      have facts: "\<forall>e \<in> set es. \<forall>b. event_job e = Some b \<longrightarrow> ev_SessionID e = jb_SessionID b \<and> trimmed (jb_SessionID b) \<and> trimmed_id (jb_JobID b)"
        using inv set by (auto simp: job_inv_def fact_ok_def)
      have "CHR 0x00 \<notin> set j" using known_ok(2) [OF inv ka] ids(2) by (simp add: trimmed_id_def)
      note get = latest_jobs [OF facts this HOL.refl, of "[]" s]
      have "replay (job_step s j) None es = Inr (job_of s j k)" using jv.load_view [OF _ Inr, of s j] job_view inv by (simp add: job_inv_def)
      then have "go_lookup m (s @ [CHR 0x00] @ j) = Some a" using latest_fact [of s j None es] get a(1) by (simp add: m_def)
      moreover have "set (map_order k (map fst m)) = fst ` set m"
        using permutes_keysD(2) [OF env_ok_order [of k], of "map fst m"] inv by (simp add: job_inv_def)
      moreover have "s @ [CHR 0x00] @ j \<in> fst ` set m"
        using calculation(1) by (metis map_of_eq_None_iff option.distinct(1))
      ultimately have "a \<in> set jobs" by (force simp: jobs_def List.map_filter_def)
      then consider "ended_job a" | b where "job_of s j k' = Some b" "ended_job b" using lost r a(2) ids by blast
      then show ?thesis
      proof cases
        case 1
        then show ?thesis using lost a(1) unfolding job_keeps_def job_le_def by blast
      qed blast
    qed
    then show ?thesis using lost by blast
  qed
  then show "job_keeps k k'" and "r = None \<Longrightarrow> job_of s j k = Some a \<Longrightarrow> TrimSpace (jb_ExecutorRef a) = localManagedShellExecutorRef \<Longrightarrow>
    \<exists>b. job_of s j k' = Some b \<and> ended_job b" by blast+
qed

section \<open>Any sequence of operations\<close>

text \<open>
  Jobs are started, started again, cancelled, recovered; the executor reports on jobs it was given, in any
  order; foreground processes are taken over and report through what they hold; other components store events.
\<close>

definition started_jobs :: "kernel \<Rightarrow> JobProjection set" where
  "started_jobs k = {a. \<exists>e \<in> set (k_rows k). ev_Type e = ''job.started'' \<and> ed_Job (ev_Data e) = Some a}"

inductive job_run :: "kernel \<Rightarrow> kernel \<Rightarrow> bool" where
  stay: "job_run k k"
| prepare: "job_run k k' \<Longrightarrow> prepareManagedShellJob ex req turn call k' = (p, k'') \<Longrightarrow> job_run k k''"
| start: "job_run k k' \<Longrightarrow> a \<in> started_jobs k' \<Longrightarrow> startManagedJobExecutor ex a k' = (r, k'') \<Longrightarrow> job_run k k''"
| observe: "job_run k k' \<Longrightarrow> observe_job a progress k' = (r, k'') \<Longrightarrow> job_run k k''"
| complete: "job_run k k' \<Longrightarrow> a \<in> started_jobs k' \<Longrightarrow> complete_job (jobFromManagedProcessResult a result why) k' = (r, k'') \<Longrightarrow> job_run k k''"
| cancel: "job_run k k' \<Longrightarrow> cancelJobModelToolResult env s turn call pcall tool j why k' = (c, k'') \<Longrightarrow> job_run k k''"
| attach: "job_run k k' \<Longrightarrow> TrimSpace (op_SessionID op) \<noteq> [] \<Longrightarrow> attachInterruptedForegroundShell ex op k' = (x, ao, k'') \<Longrightarrow> job_run k k''"
| attached_observe: "job_run k k' \<Longrightarrow> attach_ok k' t \<Longrightarrow> attached_Observe t progress k' = (t', k'') \<Longrightarrow> job_run k k''"
| attached_complete: "job_run k k' \<Longrightarrow> attach_ok k' t \<Longrightarrow> jb_CompletedAt b = 0 \<Longrightarrow> attached_Complete t b k' = (t', k'') \<Longrightarrow> job_run k k''"
| recover: "job_run k k' \<Longrightarrow> recoverLostLocalManagedJobs k' = (r, k'') \<Longrightarrow> job_run k k''"
| other: "job_run k k' \<Longrightarrow> kernel_ext k' k'' es \<Longrightarrow> \<forall>e \<in> set es. event_job e = None \<Longrightarrow> job_run k k''"

lemma started_job_known:
  assumes "job_inv k" and "a \<in> started_jobs k"
  shows "known k a" and "jb_CompletedAt a = 0"
proof -
  obtain e where e: "e \<in> set (k_rows k)" "ev_Type e = ''job.started''" "ed_Job (ev_Data e) = Some a"
    using assms(2) by (auto simp: started_jobs_def)
  then obtain b where b: "event_job e = Some b" by (simp add: event_job_def isJobFactEvent_def)
  with assms(1) e(1) have "fact_ok k e b" by (simp add: job_inv_def)
  with e b show "known k a" "jb_CompletedAt a = 0" by (auto simp: fact_ok_def known_def)
qed

lemma job_run_keeps: "job_run k k' \<Longrightarrow> job_inv k \<Longrightarrow> job_keeps k k'"
proof (induction rule: job_run.induct)
  case (start k k' a ex r k'')
  then have "job_inv k'" by (simp add: job_keeps_def)
  with start show ?case using startManagedJobExecutor_keeps started_job_known job_keeps_trans by blast
next
  case (complete k k' a result why r k'')
  then have inv: "job_inv k'" by (simp add: job_keeps_def)
  have "job_keeps k' k''"
    by (rule known_terminal_keeps [OF inv started_job_known(1) [OF inv complete.hyps(2)] same_job_process(1)])
      (use complete.hyps(3) started_job_known(2) [OF inv complete.hyps(2)] in \<open>simp_all add: complete_job_def\<close>)
  with complete show ?case using job_keeps_trans by blast
next
  case (observe k k' a progress r k'')
  then have "job_inv k'" by (simp add: job_keeps_def)
  with observe show ?case using appendJobOutputEvent_keeps job_keeps_trans unfolding observe_job_def by blast
next
  case (other k k' k'' es)
  then have "job_inv k'" by (simp add: job_keeps_def)
  with other show ?case using job_ext_skip [OF other.hyps(2,3)] job_keeps_trans unfolding job_ext_keeps by blast
qed (use job_keeps_refl in blast, (metis job_keeps_def job_keeps_trans prepareManagedShellJob_keeps(1) cancelJob_keeps
  attachInterrupted_keeps attached_Observe_keeps attached_Complete_keeps recover_keeps(1))+)

section \<open>Properties\<close>

definition new_job_kernel :: "kernel \<Rightarrow> bool" where
  "new_job_kernel k \<longleftrightarrow> new_kernel k \<and> ids_trimmed (k_env k)"

lemma new_job_kernel_inv:
  assumes "new_job_kernel k"
  shows "job_inv k"
proof -
  have "k_rows k = []" "mono (env_clock (k_env k))" "env_ok (k_env k)" "clock_set (k_env k)" "ids_trimmed (k_env k)"
    using assms by (simp_all add: new_job_kernel_def new_kernel_def)
  then show ?thesis using jv.in_time_empty by (simp add: job_inv_def one_job_per_key_def known_def jv.rows_def)
qed

lemma job_run_inv: "new_job_kernel k \<Longrightarrow> job_run k k' \<Longrightarrow> job_inv k'"
  using job_run_keeps new_job_kernel_inv unfolding job_keeps_def by blast

lemma ends_once:
  assumes "job_inv k"
  shows "length (filter (\<lambda>e. job_fact s j e \<and> ends_job e) (k_rows k)) \<le> 1"
proof -
  have "\<forall>e \<in> set (butlast (jv.rows s j k)). \<not> ends_job e" using assms by (simp add: job_inv_def)
  then have "length (filter ends_job (jv.rows s j k)) \<le> 1"
    by (cases "jv.rows s j k" rule: rev_cases) (auto simp: filter_empty_conv)
  then show ?thesis by (simp add: jv.rows_def conj_commute)
qed

text \<open>
  C24: a job ends once. In every state that is reached from an empty ledger, while the clock does not step back,
  the log holds at most one end of a job. Between two looks at a job, whatever is started, reported, cancelled,
  taken over or recovered in between, it is still there and still the same command, directory, timeout, key and
  executor; once it has ended its record does not change any more.
\<close>

theorem job_ends_once:
  assumes "new_job_kernel k" and "job_run k k1" and "job_run k1 k2"
    and "lookupSessionJob s j k1 = Inr (Some a)" and "lookupSessionJob s j k2 = Inr found"
  shows "\<exists>b. found = Some b \<and> same_job a b \<and> (isTerminalJobStatus (jb_Status a) \<longrightarrow> b = a) \<and>
    length (filter (\<lambda>e. job_fact (TrimSpace s) (TrimSpace j) e \<and> ends_job e) (k_rows k2)) \<le> 1"
proof -
  note inv1 = job_run_inv [OF assms(1,2)]
  note keeps = job_run_keeps [OF assms(3) inv1]
  then have inv2: "job_inv k2" and le: "job_le k1 k2" by (simp_all add: job_keeps_def)
  have "job_of (TrimSpace s) (TrimSpace j) k1 = Some a" by (rule lookup_Some(1) [OF inv1 assms(4)])
  moreover have "found = job_of (TrimSpace s) (TrimSpace j) k2" using lookup_read [OF inv2 assms(5)] lookup_blank [OF assms(4)] by simp
  ultimately show ?thesis using le ends_once [OF inv2] unfolding job_le_def by blast
qed

text \<open>
  An idempotency key names one job of its session. When a command was accepted as a job, every later
  request of the same session with the same key that is answered at all is answered with that job, is told that
  the job was not created, and changes nothing.
\<close>

theorem job_key_names_one_job:
  assumes "new_job_kernel k" and "job_run k k0" and "prepareManagedShellJob ex req turn call k0 = (Inr (a, c), k1)"
    and "job_run k1 k2" and "prepareManagedShellJob ex' req' turn' call' k2 = (Inr (b, c'), k3)"
    and "TrimSpace (sr_SessionID req') = TrimSpace (sr_SessionID req)" and "TrimSpace (sr_IdempotencyKey req') = TrimSpace (sr_IdempotencyKey req)"
    and "TrimSpace (sr_IdempotencyKey req) \<noteq> []"
  shows "\<not> c' \<and> k3 = k2 \<and> same_job a b"
proof -
  let ?s = "TrimSpace (sr_SessionID req)" and ?key = "TrimSpace (sr_IdempotencyKey req)"
  note first = prepareManagedShellJob_keeps [OF job_run_inv [OF assms(1,2)] assms(3)]
  then have inv1: "job_inv k1" by (simp add: job_keeps_def)
  have a: "known k1 a" "jb_SessionID a = ?s" "jb_Tool a = ''shell_exec''" "jb_IdempotencyKey a = ?key" using first(2) assms(8) by auto
  note keeps = job_run_keeps [OF assms(4) inv1]
  then have inv2: "job_inv k2" by (simp add: job_keeps_def)
  have ka: "known k2 a" using keeps known_mono a(1) unfolding job_keeps_def by blast
  have trims: "TrimSpace ?s = ?s" "TrimSpace ?key = ?key" by simp_all
  show ?thesis using assms(5)
  proof (cases rule: prepareManagedShellJob_cases)
    case (existing d)
    then have k3: "k3 = k2" "\<not> c'" by simp_all
    then have "known k2 b" "jb_SessionID b = ?s" "jb_Tool b = ''shell_exec''" "jb_IdempotencyKey b = ?key"
      using prepareManagedShellJob_keeps(2) [OF inv2 assms(5) HOL.refl] assms(6-8) by simp_all
    with ka a assms(8) inv2 have "same_job a b" unfolding job_inv_def one_job_per_key_def by metis
    then show ?thesis using k3 by simp
  next
    case (new sec i d e)
    have "trimmed ?s" using new(1) assms(6) by (simp add: trimmed_def)
    from existing_job_None [OF inv2 new(2) [unfolded assms(6,7)] this trims(2) ka a(2)] a assms(8) show ?thesis by simp
  qed simp
qed

text \<open>
  C25: no job of the local executor stays open over a restart. When the recovery succeeds, every job of the
  local executor that the log holds, in any session, has ended.
\<close>

theorem lost_jobs_recovered:
  assumes "new_job_kernel k0" and "job_run k0 k" and "recoverLostLocalManagedJobs k = (None, k')"
    and "lookupSessionJob s j k = Inr (Some a)" and "TrimSpace (jb_ExecutorRef a) = localManagedShellExecutorRef"
    and "lookupSessionJob s j k' = Inr found"
  shows "\<exists>b. found = Some b \<and> same_job a b \<and> isTerminalJobStatus (jb_Status b)"
proof -
  note inv = job_run_inv [OF assms(1,2)]
  note rec = recover_keeps [OF inv assms(3)]
  then have inv': "job_inv k'" and le: "job_le k k'" by (simp_all add: job_keeps_def)
  note of = lookup_Some(1) [OF inv assms(4)]
  have "found = job_of (TrimSpace s) (TrimSpace j) k'" using lookup_read [OF inv' assms(6)] lookup_blank [OF assms(4)] by simp
  moreover obtain b where "job_of (TrimSpace s) (TrimSpace j) k' = Some b" "ended_job b" using rec(2) [OF HOL.refl of assms(5)] by blast
  ultimately show ?thesis using le of unfolding job_le_def by (metis option.inject)
qed

text \<open>A command that is accepted as a job, completes and is then asked to be cancelled.\<close>

definition sample_executor :: job_executor where
  "sample_executor = \<lparr>je_Ref = localManagedShellExecutorRef, je_ForegroundAttach = False, je_Start = (\<lambda>job k. None),
     je_Cancel = (\<lambda>j why k. None), je_AttachForeground = (\<lambda>i job k. (None, False))\<rparr>"

definition sample_job_env :: job_env where
  "sample_job_env = \<lparr>jn_codec = sample_codec, jn_quote = (\<lambda>s. s), jn_quoteError = (\<lambda>e. []), jn_executor = Some sample_executor\<rparr>"

definition sample_job_req :: ShellExecRequest where
  "sample_job_req = \<lparr>sr_SessionID = ''s'', sr_CWD = ''/w'', sr_Command = ''make'', sr_TimeoutSec = 100, sr_IdempotencyKey = ''k1'',
     sr_approvedByID = []\<rparr>"

definition sample_job :: JobProjection where
  "sample_job = started_job (Some sample_executor) sample_job_req ''t'' ''c'' 100 ''job_'' 1000"

definition sample_process :: localManagedShellProcessResult where
  "sample_process = \<lparr>pr_stdout = captureBytes ''ok'' maxShellOutputBytes, pr_stderr = captureBytes [] maxShellOutputBytes,
     pr_exitCode = 0, pr_err = None, pr_ctxErr = False\<rparr>"

definition sample_done :: JobProjection where
  "sample_done = (jobFromManagedProcessResult sample_job sample_process [])\<lparr>jb_CompletedAt := 1001\<rparr>"

abbreviation started_rows :: "StoredEvent list" where
  "started_rows \<equiv> [job_event ''job.started'' sample_job 1000 ''job_'']"

definition job_k1 :: kernel where "job_k1 = snd (prepareManagedShellJob (Some sample_executor) sample_job_req ''t'' ''c'' sample_kernel)"
definition job_k2 :: kernel where "job_k2 = snd (complete_job (jobFromManagedProcessResult sample_job sample_process []) job_k1)"
definition job_k3 :: kernel where
  "job_k3 = snd (cancelJobModelToolResult sample_job_env ''s'' ''t'' ''c'' ''p'' ''job_cancel'' ''job_'' ''late'' job_k2)"

lemma sample_job_simps [simp]:
  "jb_SessionID sample_job = ''s''" "jb_JobID sample_job = ''job_''" "jb_Status sample_job = ''running''" "jb_CompletedAt sample_job = 0"
  "jb_StartedAt sample_job = 1000" "jb_ExecutorRef sample_job = localManagedShellExecutorRef" "jb_Tool sample_job = ''shell_exec''"
  "jb_IdempotencyKey sample_job = TrimSpace ''k1''"
  by (simp_all add: sample_job_def sample_job_req_def)
    (simp add: started_job_def managedJobExecutorRef_def sample_executor_def)

lemma sample_done_same: "same_job sample_job sample_done" and sample_done_status [simp]: "jb_Status sample_done = ''completed''"
  by (simp_all add: sample_done_def same_job_def jobFromManagedProcessResult_def applyJobOutputCapture_def Let_def sample_process_def)

lemma sample_done_simps [simp]:
  "jb_SessionID sample_done = ''s''" "jb_JobID sample_done = ''job_''" "jb_CompletedAt sample_done = 1001"
  using sample_done_same by (simp_all add: same_job_def) (simp add: sample_done_def)

lemma job_trims [simp]: "trimmed_id ''job_''" "TrimSpace ''job_'' = ''job_''" "isTerminalJobStatus ''completed''" "TrimSpace ''completed'' = ''completed''"
  by code_simp+

lemma job_fact_types [simp]: "isJobFactEvent ''job.started''" "isJobFactEvent ''job.completed''" "isJobFactEvent ''job.failed''"
  by (simp_all add: isJobFactEvent_def)

lemma job_k1_state: "job_k1 = sample_state started_rows 1 2" (is ?state)
  and job_k1_result: "prepareManagedShellJob (Some sample_executor) sample_job_req ''t'' ''c'' sample_kernel = (Inr (sample_job, True), job_k1)" (is ?result)
proof -
  have valid: "validateShellRequest sample_job_req = None" by code_simp
  have sec: "normalizedShellTimeoutSec sample_kernel (sr_TimeoutSec sample_job_req) = 100" by code_simp
  have exceeds: "shellTimeoutExceedsForeground sample_kernel 100" by code_simp
  have none: "existing_job (TrimSpace (sr_SessionID sample_job_req)) (TrimSpace (sr_IdempotencyKey sample_job_req)) sample_kernel = Inr None"
    by (simp add: existing_job_def lookupSessionJobByIdempotencyKey_def sample_kernel_state Let_def)
  have "prepareManagedShellJob (Some sample_executor) sample_job_req ''t'' ''c'' sample_kernel =
      (Inr (sample_job, True), sample_state started_rows 1 2)"
    unfolding prepareManagedShellJob_def valid Let_def sec option.case none
    by (simp add: exceeds [unfolded sample_kernel_state] appendJobEvent_def sample_kernel_state eval_nat_numeral flip: sample_job_def)
  then show ?state ?result by (simp_all add: job_k1_def)
qed

lemma job_k2_state: "job_k2 = sample_state (started_rows @ [job_event ''job.completed'' sample_done 1001 ''evt_xx'']) 2 3"
proof -
  let ?f = "jobFromManagedProcessResult sample_job sample_process []"
  have f: "jb_SessionID ?f = ''s''" "jb_JobID ?f = ''job_''" "jb_Status ?f = ''completed''" "jb_CompletedAt ?f = 0"
    using same_job_process(1) [of sample_job sample_process "[]"]
    by (simp_all add: same_job_def) (simp_all add: jobFromManagedProcessResult_def Let_def sample_process_def)
  have look: "lookupSessionJob ''s'' ''job_'' job_k1 = Inr (Some sample_job)"
    by (simp add: lookupSessionJob_def job_k1_state)
  show ?thesis
    unfolding job_k2_def complete_job_def appendTerminalJobEvent_def f look
    by (simp add: f terminal_fact_def appendJobEvent_def job_k1_state eval_nat_numeral flip: sample_done_def)
qed

lemma job_k3_state: "job_k3 = job_k2"
proof -
  have "lookupSessionJob ''s'' ''job_'' job_k2 = Inr (Some sample_done)"
    by (simp add: lookupSessionJob_def job_k2_state)
  then show ?thesis by (simp add: job_k3_def cancelJobModelToolResult_def Let_def)
qed

lemma sample_job_kernel: "new_job_kernel sample_kernel"
proof -
  have "TrimSpace (''job_'' @ replicate n CHR ''x'') = ''job_'' @ replicate n CHR ''x''" for n
    by (rule TrimSpace_plain) (cases n; simp add: plain_ends_def ascii_space_def less_char_def)
  then show ?thesis using sample_new_kernel
    by (auto simp: new_job_kernel_def ids_trimmed_def sample_kernel_def sample_env_def)
qed

lemma job_k1_run: "job_run sample_kernel job_k1"
  by (rule job_run.prepare [OF job_run.stay job_k1_result])

lemma job_k2_run: "job_run job_k1 job_k2"
proof -
  have "sample_job \<in> started_jobs job_k1" by (simp add: started_jobs_def job_k1_state)
  from job_run.complete [OF job_run.stay this prod.collapse [symmetric]] show ?thesis unfolding job_k2_def .
qed

lemma job_k3_run: "job_run job_k2 job_k3"
  unfolding job_k3_def by (rule job_run.cancel [OF job_run.stay prod.collapse [symmetric]])

lemma job_run_trans: "job_run k' k'' \<Longrightarrow> job_run k k' \<Longrightarrow> job_run k k''"
  by (induction rule: job_run.induct) (blast intro: job_run.intros)+

theorem job_ends_once_witness:
  "lookupSessionJob ''s'' ''job_'' job_k2 = Inr (Some sample_done) \<and> isTerminalJobStatus (jb_Status sample_done) \<and>
   lookupSessionJob ''s'' ''job_'' job_k3 = Inr (Some sample_done) \<and>
   length (filter (\<lambda>e. job_fact (TrimSpace ''s'') (TrimSpace ''job_'') e \<and> ends_job e) (k_rows job_k3)) \<le> 1"
proof -
  have 2: "lookupSessionJob ''s'' ''job_'' job_k2 = Inr (Some sample_done)" by (simp add: lookupSessionJob_def job_k2_state)
  then obtain f where f: "lookupSessionJob ''s'' ''job_'' job_k3 = Inr f" by (simp add: job_k3_state)
  from job_ends_once [OF sample_job_kernel job_run_trans [OF job_k2_run job_k1_run] job_k3_run 2 f] 2 f show ?thesis by auto
qed

theorem job_key_names_one_job_witness:
  "prepareManagedShellJob None (sample_job_req\<lparr>sr_Command := ''other''\<rparr>) [] [] job_k1 = (Inr (sample_job, False), job_k1)"
proof -
  let ?req = "sample_job_req\<lparr>sr_Command := ''other''\<rparr>"
  have valid: "validateShellRequest ?req = None" by code_simp
  have sec: "normalizedShellTimeoutSec job_k1 (sr_TimeoutSec ?req) = 100"
    by (simp add: normalizedShellTimeoutSec_def sample_job_req_def)
  have "shellTimeoutExceedsForeground sample_kernel 100" by code_simp
  then have exceeds: "shellTimeoutExceedsForeground job_k1 100"
    by (simp add: shellTimeoutExceedsForeground_def job_k1_state sample_kernel_state)
  have "TrimSpace ''k1'' \<noteq> []" by code_simp
  then have some: "existing_job (TrimSpace (sr_SessionID ?req)) (TrimSpace (sr_IdempotencyKey ?req)) job_k1 = Inr (Some sample_job)"
    by (simp add: existing_job_def lookupSessionJobByIdempotencyKey_def job_k1_state Let_def sample_job_req_def)
  have again: "prepareManagedShellJob None ?req [] [] job_k1 = (Inr (sample_job, False), job_k1)"
    unfolding prepareManagedShellJob_def valid Let_def sec option.case some by (simp add: exceeds)
  have "TrimSpace (sr_IdempotencyKey sample_job_req) \<noteq> []" by code_simp
  from job_key_names_one_job [OF sample_job_kernel job_run.stay job_k1_result job_run.stay again _ _ this] again show ?thesis by simp
qed

theorem lost_jobs_recovered_witness:
  "\<exists>b. lookupSessionJob ''s'' ''job_'' (snd (recoverLostLocalManagedJobs job_k1)) = Inr (Some b) \<and>
     same_job sample_job b \<and> isTerminalJobStatus (jb_Status b)"
proof -
  let ?lost = "sample_job\<lparr>jb_FailureReason := ''managed_job_lost_ownership'', jb_CompletedAt := 1001, jb_Status := ''failed''\<rparr>"
  have look: "lookupSessionJob ''s'' ''job_'' job_k1 = Inr (Some sample_job)" by (simp add: lookupSessionJob_def job_k1_state)
  have ref: "TrimSpace localManagedShellExecutorRef = localManagedShellExecutorRef" by code_simp
  have "TrimSpace ''failed'' = ''failed''" by code_simp
  then have "recoverLostLocalManagedJobs job_k1 = (None, sample_state (started_rows @ [job_event ''job.failed'' ?lost 1001 ''evt_xx'']) 2 3)"
    by (simp add: recoverLostLocalManagedJobs_def latest_jobs_step_def job_k1_state map_order_def sample_env_def List.map_filter_simps ref
        appendTerminalJobEvent_def lookupSessionJob_def terminal_fact_def appendJobEvent_def eval_nat_numeral)
  then have rec: "recoverLostLocalManagedJobs job_k1 = (None, snd (recoverLostLocalManagedJobs job_k1))"
    and after: "snd (recoverLostLocalManagedJobs job_k1) = sample_state (started_rows @ [job_event ''job.failed'' ?lost 1001 ''evt_xx'']) 2 3" by simp_all
  obtain f where f: "lookupSessionJob ''s'' ''job_'' (snd (recoverLostLocalManagedJobs job_k1)) = Inr f"
    unfolding after by (simp add: lookupSessionJob_def)
  from lost_jobs_recovered [OF sample_job_kernel job_k1_run rec look _ f] ref f show ?thesis by auto
qed

end
