(* ===== verification/Job_Output.thy ===== *)
theory Job_Output
  imports Jobs
begin

text \<open>
  The output of a running job (\<^verbatim>\<open>managed_job_executor.go\<close>): both streams go through capped buffers, and now and
  then a snapshot of them is reported to the kernel. The reports of one process are bounded, however much it
  writes.
\<close>

section \<open>Model\<close>

abbreviation managedJobOutputSnapshotMinBytes :: int where "managedJobOutputSnapshotMinBytes \<equiv> 1024"
abbreviation managedJobOutputSnapshotMinInterval :: time where "managedJobOutputSnapshotMinInterval \<equiv> 2 * 10 ^ 9"
abbreviation managedJobOutputSnapshotMaxEvents :: int where "managedJobOutputSnapshotMaxEvents \<equiv> 8"

text \<open>Whether there is an observer is all that is kept of the callback.\<close>

record managedJobOutputCapture =
  oc_stdout :: cappedBuffer
  oc_stderr :: cappedBuffer
  oc_observe :: bool
  oc_emitted :: bool
  oc_stopped :: bool
  oc_snapshotCount :: int
  oc_bytesSinceSnapshot :: int
  oc_lastSnapshot :: time

definition newManagedJobOutputCapture :: "bool \<Rightarrow> managedJobOutputCapture" where
  "newManagedJobOutputCapture observe =
     \<lparr>oc_stdout = empty_buffer maxShellOutputBytes, oc_stderr = empty_buffer maxShellOutputBytes, oc_observe = observe,
      oc_emitted = False, oc_stopped = False, oc_snapshotCount = 0, oc_bytesSinceSnapshot = 0, oc_lastSnapshot = 0\<rparr>"

definition snapshotLocked :: "managedJobOutputCapture \<Rightarrow> JobProjection" where
  "snapshotLocked c = applyJobOutputCapture (no_job\<lparr>jb_Status := ''running''\<rparr>) (Capture (oc_stdout c)) (Capture (oc_stderr c))"

definition shouldObserveLocked :: "time \<Rightarrow> managedJobOutputCapture \<Rightarrow> bool" where
  "shouldObserveLocked now c \<longleftrightarrow>
     (if \<not> oc_observe c \<or> oc_stopped c then False
      else if \<not> oc_emitted c then True
      else if oc_bytesSinceSnapshot c \<ge> managedJobOutputSnapshotMinBytes then True
      else oc_lastSnapshot c \<noteq> 0 \<and> now - oc_lastSnapshot c \<ge> managedJobOutputSnapshotMinInterval)"

text \<open>A new observer is shown at once what there is, if there is anything to show.\<close>

definition setObserver :: "bool \<Rightarrow> time \<Rightarrow> managedJobOutputCapture \<Rightarrow> JobProjection option \<times> managedJobOutputCapture" where
  "setObserver observe now c =
     (let c = c\<lparr>oc_observe := observe\<rparr>; snapshot = snapshotLocked c
      in if observe \<and> \<not> oc_stopped c \<and> (TrimSpace (jb_Stdout snapshot) \<noteq> [] \<or> TrimSpace (jb_Stderr snapshot) \<noteq> [] \<or>
           jb_StdoutTruncated snapshot \<or> jb_StderrTruncated snapshot)
         then (Some snapshot, c\<lparr>oc_emitted := True, oc_snapshotCount := oc_snapshotCount c + 1, oc_bytesSinceSnapshot := 0,
                 oc_lastSnapshot := now\<rparr>)
         else (None, c))"

definition capture_write :: "string \<Rightarrow> string \<Rightarrow> time \<Rightarrow> managedJobOutputCapture \<Rightarrow> JobProjection option \<times> managedJobOutputCapture" where
  "capture_write stream data now c =
     (if data = [] then (None, c)
      else
        let c = (if stream = ''stderr'' then c\<lparr>oc_stderr := buffer_Write data (oc_stderr c)\<rparr>
                 else c\<lparr>oc_stdout := buffer_Write data (oc_stdout c)\<rparr>);
            c = c\<lparr>oc_bytesSinceSnapshot := oc_bytesSinceSnapshot c + len data\<rparr>
        in if shouldObserveLocked now c
           then let snapshot = snapshotLocked c;
                    n = oc_snapshotCount c + 1
             in (Some snapshot, c\<lparr>oc_emitted := True, oc_snapshotCount := n,
                   oc_stopped := oc_stopped c \<or> n \<ge> managedJobOutputSnapshotMaxEvents \<or> jb_StdoutTruncated snapshot \<or> jb_StderrTruncated snapshot,
                   oc_bytesSinceSnapshot := 0, oc_lastSnapshot := now\<rparr>)
           else (None, c))"

definition capture_results :: "managedJobOutputCapture \<Rightarrow> capturedOutput \<times> capturedOutput" where
  "capture_results c = (Capture (oc_stdout c), Capture (oc_stderr c))"

text \<open>What a process does to its capture, and the snapshots that are reported.\<close>

datatype capture_op = Out string time | Err string time | Observer time

fun capture_step :: "capture_op \<Rightarrow> managedJobOutputCapture \<Rightarrow> JobProjection option \<times> managedJobOutputCapture" where
  "capture_step (Out data now) = capture_write ''stdout'' data now"
| "capture_step (Err data now) = capture_write ''stderr'' data now"
| "capture_step (Observer now) = setObserver True now"

fun capture_run :: "capture_op list \<Rightarrow> managedJobOutputCapture \<Rightarrow> JobProjection list \<times> managedJobOutputCapture" where
  "capture_run [] c = ([], c)"
| "capture_run (op # ops) c =
     (let (snapshot, c) = capture_step op c; (snapshots, c) = capture_run ops c
      in (case snapshot of None \<Rightarrow> snapshots | Some s \<Rightarrow> s # snapshots, c))"

section \<open>Bounds\<close>

fun out_of :: "capture_op \<Rightarrow> string" where "out_of (Out data now) = data" | "out_of _ = []"
fun err_of :: "capture_op \<Rightarrow> string" where "err_of (Err data now) = data" | "err_of _ = []"
fun is_write :: "capture_op \<Rightarrow> bool" where "is_write (Observer now) = False" | "is_write _ = True"

text \<open>The snapshot of everything a process has written.\<close>

definition snapshot_of :: "capture_op list \<Rightarrow> JobProjection" where
  "snapshot_of ops = applyJobOutputCapture (no_job\<lparr>jb_Status := ''running''\<rparr>)
     (captureBytes (concat (map out_of ops)) maxShellOutputBytes) (captureBytes (concat (map err_of ops)) maxShellOutputBytes)"

text \<open>The buffers hold what was written, and the counter is the number of reports so far.\<close>

definition captured :: "capture_op list \<Rightarrow> nat \<Rightarrow> managedJobOutputCapture \<Rightarrow> bool" where
  "captured ops n c \<longleftrightarrow> oc_stdout c = fold buffer_Write (map out_of ops) (empty_buffer maxShellOutputBytes) \<and>
     oc_stderr c = fold buffer_Write (map err_of ops) (empty_buffer maxShellOutputBytes) \<and> oc_snapshotCount c = int n"

lemma buffer_Write_Nil [simp]: "buffer_Write [] b = b"
  by (simp add: buffer_Write_def len_def)

lemma snapshot_captured: "captured ops n c \<Longrightarrow> snapshotLocked c = snapshot_of ops"
  by (simp add: captured_def snapshotLocked_def snapshot_of_def Capture_chunking)

text \<open>What a write does: it goes to its buffer, and it is reported only while reporting has not stopped.\<close>

lemma capture_write_effect:
  assumes "capture_write stream data now c = (r, c')"
  shows "oc_stdout c' = (if stream = ''stderr'' then oc_stdout c else buffer_Write data (oc_stdout c))"
    and "oc_stderr c' = (if stream = ''stderr'' then buffer_Write data (oc_stderr c) else oc_stderr c)"
    and "oc_observe c' = oc_observe c"
    and "r = None \<Longrightarrow> oc_snapshotCount c' = oc_snapshotCount c \<and> oc_stopped c' = oc_stopped c"
    and "r = Some s \<Longrightarrow> oc_observe c \<and> \<not> oc_stopped c \<and> oc_snapshotCount c' = oc_snapshotCount c + 1 \<and> s = snapshotLocked c' \<and>
      (oc_snapshotCount c' \<ge> 8 \<longrightarrow> oc_stopped c')"
  using assms
  by (auto simp: capture_write_def Let_def shouldObserveLocked_def snapshotLocked_def split: if_splits)

lemma setObserver_effect:
  assumes "setObserver observe now c = (r, c')"
  shows "oc_stdout c' = oc_stdout c" and "oc_stderr c' = oc_stderr c" and "oc_observe c' = observe" and "oc_stopped c' = oc_stopped c"
    and "r = None \<Longrightarrow> oc_snapshotCount c' = oc_snapshotCount c"
    and "r = Some s \<Longrightarrow> oc_snapshotCount c' = oc_snapshotCount c + 1 \<and> s = snapshotLocked c' \<and> \<not> oc_stopped c"
  using assms by (auto simp: setObserver_def Let_def snapshotLocked_def split: if_splits)

lemma capture_step_captured:
  assumes "captured ops n c" and "capture_step op c = (r, c')"
  shows "r = None \<Longrightarrow> captured (ops @ [op]) n c'" and "r = Some s \<Longrightarrow> captured (ops @ [op]) (Suc n) c' \<and> s = snapshot_of (ops @ [op])"
proof -
  have bufs: "oc_stdout c' = buffer_Write (out_of op) (oc_stdout c)" "oc_stderr c' = buffer_Write (err_of op) (oc_stderr c)"
    using assms(2) by (cases op; simp add: capture_write_effect(1,2) setObserver_effect(1,2))+
  show "r = None \<Longrightarrow> captured (ops @ [op]) n c'"
    using assms bufs by (cases op) (auto simp: captured_def dest: capture_write_effect(4) setObserver_effect(5))
  assume r: "r = Some s"
  have "oc_snapshotCount c' = oc_snapshotCount c + 1" "s = snapshotLocked c'"
    using assms(2) r by (cases op; auto dest: capture_write_effect(5) setObserver_effect(6))+
  with assms(1) bufs have "captured (ops @ [op]) (Suc n) c'" by (simp add: captured_def)
  with \<open>s = snapshotLocked c'\<close> show "captured (ops @ [op]) (Suc n) c' \<and> s = snapshot_of (ops @ [op])"
    using snapshot_captured by blast
qed

text \<open>Every report shows all that was written before it.\<close>

lemma capture_run_captured:
  "captured pre n c \<Longrightarrow> capture_run ops c = (ss, c') \<Longrightarrow>
     captured (pre @ ops) (n + length ss) c' \<and> (\<forall>s \<in> set ss. \<exists>i \<le> length ops. s = snapshot_of (pre @ take i ops))"
proof (induction ops arbitrary: pre n c ss)
  case (Cons op ops)
  obtain r c1 where r: "capture_step op c = (r, c1)" by fastforce
  obtain ss1 where ss1: "capture_run ops c1 = (ss1, c')" "ss = (case r of None \<Rightarrow> ss1 | Some s \<Rightarrow> s # ss1)"
    using Cons.prems(2) r by (cases "capture_run ops c1") simp
  note step = capture_step_captured [OF Cons.prems(1) r]
  have shift: "\<exists>i \<le> length (op # ops). s = snapshot_of (pre @ take i (op # ops))"
    if later: "\<exists>i \<le> length ops. s = snapshot_of ((pre @ [op]) @ take i ops)" for s
  proof -
    from later obtain i where "i \<le> length ops" "s = snapshot_of ((pre @ [op]) @ take i ops)" by (elim exE conjE)
    then show ?thesis by (intro exI [of _ "Suc i"]) simp
  qed
  show ?case
  proof (cases r)
    case None
    with Cons.IH [OF step(1) ss1(1)] ss1(2) shift show ?thesis by auto
  next
    case (Some s)
    then have s: "captured (pre @ [op]) (Suc n) c1" "s = snapshot_of (pre @ [op])" using step(2) by simp_all
    then have "\<exists>i \<le> length ops. s = snapshot_of ((pre @ [op]) @ take i ops)" by (intro exI [of _ 0]) simp
    with Cons.IH [OF s(1) ss1(1)] ss1(2) shift Some show ?thesis by auto
  qed
qed simp

lemma capture_run_writes:
  assumes "captured pre n c" and "capture_run ops c = (ss, c')" and "list_all is_write ops" and "n < 8 \<or> oc_stopped c"
  shows "n + length ss \<le> max n 8" and "\<not> oc_observe c \<Longrightarrow> ss = [] \<and> \<not> oc_observe c' \<and> oc_stopped c' = oc_stopped c"
proof -
  have "n + length ss \<le> max n 8 \<and> (\<not> oc_observe c \<longrightarrow> ss = [] \<and> \<not> oc_observe c' \<and> oc_stopped c' = oc_stopped c)"
    using assms
  proof (induction ops arbitrary: pre n c ss)
    case (Cons op ops)
    obtain r c1 where r: "capture_step op c = (r, c1)" by fastforce
    obtain ss1 where ss1: "capture_run ops c1 = (ss1, c')" "ss = (case r of None \<Rightarrow> ss1 | Some s \<Rightarrow> s # ss1)"
      using Cons.prems(2) r by (cases "capture_run ops c1") simp
    note step = capture_step_captured [OF Cons.prems(1) r]
    obtain stream data now where w: "capture_write stream data now c = (r, c1)"
      using r Cons.prems(3) by (cases op) auto
    note eff = capture_write_effect [OF w]
    show ?case
    proof (cases r)
      case None
      with eff(3,4) Cons.IH [OF step(1) ss1(1)] Cons.prems(3,4) ss1(2) show ?thesis by auto
    next
      case (Some s)
      have c: "oc_observe c" "\<not> oc_stopped c" "int (Suc n) \<ge> 8 \<longrightarrow> oc_stopped c1"
        using eff(5) [OF Some] step(2) [OF Some] Cons.prems(1) by (auto simp: captured_def)
      then have "n < 8" "Suc n < 8 \<or> oc_stopped c1" using Cons.prems(4) by auto
      with Cons.IH [of "pre @ [op]" "Suc n" c1 ss1] step(2) [OF Some] ss1 Cons.prems(3) Some c(1) show ?thesis by auto
    qed
  qed simp
  then show "n + length ss \<le> max n 8" and "\<not> oc_observe c \<Longrightarrow> ss = [] \<and> \<not> oc_observe c' \<and> oc_stopped c' = oc_stopped c" by blast+
qed

lemma capture_run_append:
  "capture_run (ops @ ops') c = (let (ss, c) = capture_run ops c; (ss', c) = capture_run ops' c in (ss @ ss', c))"
  by (induction ops arbitrary: c) (auto simp: Let_def case_prod_unfold split: option.splits)

lemma captured_new: "captured [] 0 (newManagedJobOutputCapture b)"
  by (simp add: captured_def newManagedJobOutputCapture_def)

section \<open>Property\<close>

text \<open>
  The reports of a job are bounded and true. A process reports at most eight snapshots of its output,
  whether it was observed from its start or was taken over while it ran, however much and in whatever chunks it
  writes. Each snapshot is the captured text of everything both streams held at some moment, and when the process
  ends its results are the captured text of everything it wrote.
\<close>

theorem job_snapshots_bounded:
  assumes "list_all is_write ops" and "list_all is_write ops'"
    and "(pre, watched) = (if taken_over then (ops @ [Observer now], False) else (ops, True))"
    and "capture_run (pre @ ops') (newManagedJobOutputCapture watched) = (ss, c)"
  shows "length ss \<le> 8 \<and> (\<forall>s \<in> set ss. \<exists>i. s = snapshot_of (take i (pre @ ops'))) \<and>
    capture_results c = (captureBytes (concat (map out_of (pre @ ops'))) maxShellOutputBytes,
      captureBytes (concat (map err_of (pre @ ops'))) maxShellOutputBytes)"
proof (intro conjI)
  note all = capture_run_captured [OF captured_new assms(4)]
  then show "\<forall>s \<in> set ss. \<exists>i. s = snapshot_of (take i (pre @ ops'))" by auto
  show "capture_results c = (captureBytes (concat (map out_of (pre @ ops'))) maxShellOutputBytes,
      captureBytes (concat (map err_of (pre @ ops'))) maxShellOutputBytes)"
    using all unfolding captured_def capture_results_def by (simp only: append_Nil Capture_chunking)
  show "length ss \<le> 8"
  proof (cases taken_over)
    case False
    then have pre: "pre = ops" "watched" using assms(3) by auto
    have "list_all is_write (pre @ ops')" using assms(1,2) pre by simp
    from capture_run_writes(1) [OF captured_new assms(4) this] show ?thesis by simp
  next
    case True
    then have pre: "pre = ops @ [Observer now]" "\<not> watched" using assms(3) by auto
    obtain s1 c1 where 1: "capture_run ops (newManagedJobOutputCapture watched) = (s1, c1)" by fastforce
    obtain r c2 where 2: "setObserver True now c1 = (r, c2)" by fastforce
    obtain s3 where 3: "capture_run ops' c2 = (s3, c)" "ss = s1 @ (case r of None \<Rightarrow> [] | Some s \<Rightarrow> [s]) @ s3"
      using assms(4) 1 2 by (cases "capture_run ops' c2"; cases r) (auto simp: pre(1) capture_run_append Let_def)
    note cap1 = capture_run_captured [OF captured_new 1]
    have quiet: "s1 = []" "\<not> oc_stopped c1"
      using capture_run_writes(2) [OF captured_new 1 assms(1)] pre(2) by (simp_all add: newManagedJobOutputCapture_def)
    have step: "capture_step (Observer now) c1 = (r, c2)" using 2 by simp
    define n where "n = (if r = None then 0 else 1 :: nat)"
    have "captured ops 0 c1" using cap1 quiet by simp
    from capture_step_captured [OF this step] have "captured (ops @ [Observer now]) n c2"
      by (cases r) (simp_all add: n_def)
    from capture_run_writes(1) [OF this 3(1) assms(2)] have "n + length s3 \<le> 8" by (simp add: n_def split: if_splits)
    then show ?thesis using 3(2) quiet by (cases r) (simp_all add: n_def)
  qed
qed

definition sample_ops :: "capture_op list" where
  "sample_ops = [Out ''a'' 1, Out ''b'' 2, Err ''c'' 3]"

theorem job_snapshots_bounded_witness:
  "length (fst (capture_run (sample_ops @ [Observer 4] @ sample_ops) (newManagedJobOutputCapture False))) \<le> 8 \<and>
   capture_results (snd (capture_run (sample_ops @ [Observer 4] @ sample_ops) (newManagedJobOutputCapture False))) =
     (captureBytes ''abab'' maxShellOutputBytes, captureBytes ''cc'' maxShellOutputBytes)"
proof -
  have w: "list_all is_write sample_ops" by (simp add: sample_ops_def)
  have "(sample_ops @ [Observer 4], False) = (if True then (sample_ops @ [Observer 4], False) else (sample_ops, True))" by simp
  from job_snapshots_bounded [OF w w this prod.collapse [symmetric]] show ?thesis by (simp add: sample_ops_def)
qed

end
