(* ===== verification/Connector_Outbox.thy ===== *)
theory Connector_Outbox
  imports Go_Text
begin

text \<open>
  The outbox of the connector runtime (\<^verbatim>\<open>internal/applications/connector_runtime\<close>): commands of an application
  become items of a file, workers claim an item with a lease, hand it to the adapter of its connector and record
  what came out. The store operations are each atomic under the lock of the file; a delivery is several of
  them, with the call of the adapter in between.
\<close>

section \<open>Values\<close>

abbreviation OutboxStatusQueued :: string where "OutboxStatusQueued \<equiv> ''queued''"
abbreviation OutboxStatusSent :: string where "OutboxStatusSent \<equiv> ''sent''"
abbreviation OutboxStatusRetrying :: string where "OutboxStatusRetrying \<equiv> ''retrying''"
abbreviation OutboxStatusDeadLetter :: string where "OutboxStatusDeadLetter \<equiv> ''dead_lettered''"
abbreviation OutboxStatusRecoveryRequired :: string where "OutboxStatusRecoveryRequired \<equiv> ''recovery_required''"

abbreviation DeliveryStatusSent :: string where "DeliveryStatusSent \<equiv> ''sent''"
abbreviation DeliveryStatusFailed :: string where "DeliveryStatusFailed \<equiv> ''failed''"
abbreviation DeliveryStatusRetrying :: string where "DeliveryStatusRetrying \<equiv> ''retrying''"
abbreviation DeliveryStatusDuplicateSuppressed :: string where "DeliveryStatusDuplicateSuppressed \<equiv> ''duplicate_suppressed''"
abbreviation DeliveryStatusDeadLettered :: string where "DeliveryStatusDeadLettered \<equiv> ''dead_lettered''"
abbreviation DeliveryStatusPartialSuccess :: string where "DeliveryStatusPartialSuccess \<equiv> ''partial_success''"
abbreviation DeliveryStatusAmbiguous :: string where "DeliveryStatusAmbiguous \<equiv> ''ambiguous''"

record ExternalThreadRef =
  xt_Connector :: string
  xt_Kind :: string
  xt_ExternalID :: string
  xt_Display :: string
  xt_Metadata :: "string go_map"

record ExternalResourceRef =
  xr_Connector :: string
  xr_ExternalID :: string
  xr_Kind :: string

record AppCommand =
  ac_CommandID :: string
  ac_Kind :: string
  ac_TargetRef :: ExternalThreadRef
  ac_Body :: string
  ac_ResourceRefs :: "ExternalResourceRef list"
  ac_RequiresConfirmation :: bool
  ac_DedupeKey :: string
  ac_Metadata :: "string go_map"
  ac_CreatedAt :: time

record ConnectorOutboxItem =
  oi_OutboxID :: string
  oi_CommandID :: string
  oi_Connector :: string
  oi_ActionKind :: string
  oi_TargetRef :: ExternalThreadRef
  oi_Payload :: "string go_map"
  oi_Status :: string
  oi_AttemptCount :: int
  oi_NextAttemptAt :: time
  oi_LeaseID :: string
  oi_LeaseOwner :: string
  oi_LeaseExpiresAt :: time
  oi_IdempotencyKey :: string
  oi_LastReceiptID :: string
  oi_CreatedAt :: time
  oi_UpdatedAt :: time

record ConnectorAction =
  ca_OutboxID :: string
  ca_Connector :: string
  ca_ActionKind :: string
  ca_TargetRef :: ExternalThreadRef
  ca_Payload :: "string go_map"
  ca_IdempotencyKey :: string
  ca_Attempt :: int

record ConnectorActionResult =
  ar_ExternalActionRef :: string
  ar_Status :: string
  ar_Reason :: string
  ar_NextAttemptAt :: time

record DeliveryReceipt =
  dr_ReceiptID :: string
  dr_OutboxID :: string
  dr_Connector :: string
  dr_ExternalActionRef :: string
  dr_Status :: string
  dr_Reason :: string
  dr_Attempt :: int
  dr_NextAttemptAt :: time
  dr_RecordedAt :: time

record ReconciliationLookup =
  rl_Kind :: string
  rl_Value :: string

record ReconciliationProbeResult =
  rp_ObservedStatus :: string
  rp_Reason :: string
  rp_ExternalActionRef :: string

record ReconciliationEvidence =
  re_ProbeID :: string
  re_OutboxID :: string
  re_Connector :: string
  re_ActionKind :: string
  re_LookupKind :: string
  re_LookupValue :: string
  re_ObservedStatus :: string
  re_Reason :: string
  re_ExternalActionRef :: string
  re_CheckedAt :: time

record fileOutboxPayload =
  fo_Items :: "ConnectorOutboxItem go_map"
  fo_ByDedupe :: "string go_map"
  fo_Receipts :: "DeliveryReceipt list go_map"
  fo_Probes :: "ReconciliationEvidence list go_map"

definition no_receipt :: DeliveryReceipt where
  "no_receipt = \<lparr>dr_ReceiptID = [], dr_OutboxID = [], dr_Connector = [], dr_ExternalActionRef = [], dr_Status = [], dr_Reason = [],
     dr_Attempt = 0, dr_NextAttemptAt = 0, dr_RecordedAt = 0\<rparr>"

definition no_item :: ConnectorOutboxItem where
  "no_item = \<lparr>oi_OutboxID = [], oi_CommandID = [], oi_Connector = [], oi_ActionKind = [],
     oi_TargetRef = \<lparr>xt_Connector = [], xt_Kind = [], xt_ExternalID = [], xt_Display = [], xt_Metadata = []\<rparr>, oi_Payload = [], oi_Status = [],
     oi_AttemptCount = 0, oi_NextAttemptAt = 0, oi_LeaseID = [], oi_LeaseOwner = [], oi_LeaseExpiresAt = 0, oi_IdempotencyKey = [],
     oi_LastReceiptID = [], oi_CreatedAt = 0, oi_UpdatedAt = 0\<rparr>"

definition no_result :: ConnectorActionResult where
  "no_result = \<lparr>ar_ExternalActionRef = [], ar_Status = [], ar_Reason = [], ar_NextAttemptAt = 0\<rparr>"

section \<open>The world of the runtime\<close>

text \<open>
  What may happen to the file during one operation: the lock, the read and the preparation of the new content
  may fail, the replacement is one rename, on Windows with a second try.
\<close>

record store_io =
  io_lock :: "go_error option"
  io_load :: "go_error option"
  io_prepare :: "go_error option"
  io_rename :: "go_error option"
  io_remove :: "go_error option"
  io_rename2 :: "go_error option"
  io_wall :: time

text \<open>
  The environment: the digest and the format of a time (the language's library), the order of a map's iteration,
  the platform, what happens to the files and what the clock says at each moment, and the adapters and probes of
  the connectors; they answer with the text of their error, if any.
\<close>

record connector_env =
  ce_sum :: "string \<Rightarrow> string"
  ce_format :: "time \<Rightarrow> string"
  ce_order :: "string list \<Rightarrow> string list"
  ce_windows :: bool
  ce_io :: "nat \<Rightarrow> store_io"
  ce_now :: "nat \<Rightarrow> time"
  ce_store :: bool
  ce_adapters :: "string \<Rightarrow> (ConnectorAction \<Rightarrow> nat \<Rightarrow> ConnectorActionResult \<times> string option) option"
  ce_probes :: "string \<Rightarrow> (ConnectorOutboxItem \<Rightarrow> ReconciliationLookup \<Rightarrow> nat \<Rightarrow> ReconciliationProbeResult \<times> go_error option) option"

record connector =
  cn_env :: connector_env
  cn_moment :: nat
  cn_outbox :: "fileOutboxPayload option"
  cn_executed :: "ConnectorAction list"

definition runtime_now :: "connector \<Rightarrow> time \<times> connector" where
  "runtime_now c = (ce_now (cn_env c) (cn_moment c), c\<lparr>cn_moment := Suc (cn_moment c)\<rparr>)"

definition stableOpaqueID :: "connector_env \<Rightarrow> string \<Rightarrow> string list \<Rightarrow> string" where
  "stableOpaqueID env pre parts = pre @ ''_'' @ ToLower (take 32 (ce_sum env (join_with [CHR 0x00] parts)))"

section \<open>The file\<close>

definition replaceConnectorStateFile :: "bool \<Rightarrow> store_io \<Rightarrow> 'p \<Rightarrow> 'p option \<Rightarrow> go_error option \<times> 'p option" where
  "replaceConnectorStateFile windows io content file =
     (case io_rename io of
        None \<Rightarrow> (None, Some content)
      | Some err \<Rightarrow>
          if \<not> windows then (Some err, file)
          else case io_remove io of
              Some err \<Rightarrow> (Some err, file)
            | None \<Rightarrow> (case io_rename2 io of Some err \<Rightarrow> (Some err, None) | None \<Rightarrow> (None, Some content)))"

definition writeLocked :: "bool \<Rightarrow> store_io \<Rightarrow> 'p \<Rightarrow> 'p option \<Rightarrow> go_error option \<times> 'p option" where
  "writeLocked windows io payload file =
     (case io_prepare io of Some err \<Rightarrow> (Some err, file) | None \<Rightarrow> replaceConnectorStateFile windows io payload file)"

definition withLockedState ::
  "store_io \<Rightarrow> 'p \<Rightarrow> ('p \<Rightarrow> 'p option \<Rightarrow> 'a res \<times> 'p option) \<Rightarrow> 'p option \<Rightarrow> 'a res \<times> 'p option" where
  "withLockedState io reset body file =
     (case io_lock io of Some err \<Rightarrow> (Inl err, file) | None \<Rightarrow>
      case io_load io of Some err \<Rightarrow> (Inl err, file) | None \<Rightarrow>
        body (case file of None \<Rightarrow> reset | Some payload \<Rightarrow> payload) file)"

definition outbox_reset :: fileOutboxPayload where
  "outbox_reset = \<lparr>fo_Items = [], fo_ByDedupe = [], fo_Receipts = [], fo_Probes = []\<rparr>"

text \<open>One operation of the outbox; it may read the payload, and end with its writing.\<close>

definition outbox_op ::
  "(connector_env \<Rightarrow> store_io \<Rightarrow> fileOutboxPayload \<Rightarrow> 'a res \<times> fileOutboxPayload option) \<Rightarrow> connector \<Rightarrow> 'a res \<times> connector" where
  "outbox_op body c =
     (let io = ce_io (cn_env c) (cn_moment c);
          (r, file) = withLockedState io outbox_reset (\<lambda>payload file.
             case body (cn_env c) io payload of
               (r, None) \<Rightarrow> (r, file)
             | (r, Some payload) \<Rightarrow>
                 (case writeLocked (ce_windows (cn_env c)) io payload file of
                    (Some err, file) \<Rightarrow> (Inl err, file)
                  | (None, file) \<Rightarrow> (r, file))) (cn_outbox c)
      in (r, c\<lparr>cn_outbox := file, cn_moment := Suc (cn_moment c)\<rparr>))"

text \<open>A zero time is replaced by the time of the system.\<close>

definition or_wall :: "store_io \<Rightarrow> time \<Rightarrow> time" where
  "or_wall io now = (if now = 0 then io_wall io else now)"

section \<open>Commands\<close>

definition validate_command :: "AppCommand \<Rightarrow> go_error option" where
  "validate_command cmd =
     (if TrimSpace (ac_Kind cmd) = [] then Some (errors_New ''app command missing kind'')
      else if TrimSpace (xt_Connector (ac_TargetRef cmd)) = [] then Some (errors_New ''app command missing target connector'')
      else if TrimSpace (xt_Kind (ac_TargetRef cmd)) = [] then Some (errors_New ''app command missing target kind'')
      else if TrimSpace (xt_ExternalID (ac_TargetRef cmd)) = [] then Some (errors_New ''app command missing target external id'')
      else if TrimSpace (ac_DedupeKey cmd) = [] then Some (errors_New ''app command missing dedupe key'')
      else None)"

definition outboxDedupeKey :: "connector_env \<Rightarrow> AppCommand \<Rightarrow> string" where
  "outboxDedupeKey env cmd =
     stableOpaqueID env ''outidem'' [TrimSpace (xt_Connector (ac_TargetRef cmd)), TrimSpace (ac_Kind cmd), TrimSpace (ac_DedupeKey cmd)]"

definition sanitizedThreadRef :: "ExternalThreadRef \<Rightarrow> ExternalThreadRef" where
  "sanitizedThreadRef ref =
     \<lparr>xt_Connector = TrimSpace (xt_Connector ref), xt_Kind = TrimSpace (xt_Kind ref), xt_ExternalID = TrimSpace (xt_ExternalID ref),
      xt_Display = TrimSpace (xt_Display ref), xt_Metadata = []\<rparr>"

definition toOutboxItem :: "connector_env \<Rightarrow> AppCommand \<Rightarrow> time \<Rightarrow> ConnectorOutboxItem" where
  "toOutboxItem env cmd now =
     (let idempotencyKey = outboxDedupeKey env cmd;
          payload = (if TrimSpace (ac_Body cmd) \<noteq> [] then [(''body'', TrimSpace (ac_Body cmd))] else []);
          commandID = TrimSpace (ac_CommandID cmd);
          commandID = (if commandID = []
            then stableOpaqueID env ''cmd'' [xt_Connector (ac_TargetRef cmd), ac_Kind cmd, ac_DedupeKey cmd] else commandID)
      in \<lparr>oi_OutboxID = stableOpaqueID env ''outbox'' [idempotencyKey], oi_CommandID = commandID,
          oi_Connector = TrimSpace (xt_Connector (ac_TargetRef cmd)), oi_ActionKind = TrimSpace (ac_Kind cmd),
          oi_TargetRef = sanitizedThreadRef (ac_TargetRef cmd), oi_Payload = payload, oi_Status = OutboxStatusQueued,
          oi_AttemptCount = 0, oi_NextAttemptAt = 0, oi_LeaseID = [], oi_LeaseOwner = [], oi_LeaseExpiresAt = 0,
          oi_IdempotencyKey = idempotencyKey, oi_LastReceiptID = [], oi_CreatedAt = now, oi_UpdatedAt = now\<rparr>)"

section \<open>The store\<close>

definition put_item :: "ConnectorOutboxItem \<Rightarrow> fileOutboxPayload \<Rightarrow> fileOutboxPayload" where
  "put_item item s = s\<lparr>fo_Items := go_store (oi_OutboxID item) item (fo_Items s)\<rparr>"

abbreviation item_not_found :: go_error where "item_not_found \<equiv> errors_New ''outbox item not found''"

definition enqueue_item ::
  "AppCommand \<Rightarrow> time \<Rightarrow> connector_env \<Rightarrow> store_io \<Rightarrow> fileOutboxPayload \<Rightarrow>
     (ConnectorOutboxItem \<times> bool) res \<times> fileOutboxPayload option" where
  "enqueue_item cmd now env io s =
     (let dedupeKey = outboxDedupeKey env cmd
      in case go_lookup (fo_ByDedupe s) dedupeKey of
           Some existingID \<Rightarrow>
             (Inr (case go_lookup (fo_Items s) existingID of Some item \<Rightarrow> item | None \<Rightarrow> no_item, True), None)
         | None \<Rightarrow>
             let item = toOutboxItem env cmd (or_wall io now)
             in (Inr (item, False), Some ((put_item item s)\<lparr>fo_ByDedupe := go_store dedupeKey (oi_OutboxID item) (fo_ByDedupe s)\<rparr>)))"

definition store_EnqueueCommand :: "AppCommand \<Rightarrow> time \<Rightarrow> connector \<Rightarrow> (ConnectorOutboxItem \<times> bool) res \<times> connector" where
  "store_EnqueueCommand cmd now c =
     (case validate_command cmd of Some err \<Rightarrow> (Inl err, c) | None \<Rightarrow> outbox_op (enqueue_item cmd now) c)"

definition GetOutboxItem :: "string \<Rightarrow> connector \<Rightarrow> ConnectorOutboxItem res \<times> connector" where
  "GetOutboxItem outboxID c =
     (if outboxID = [] then (Inl (errors_New ''outbox id is required''), c)
      else outbox_op (\<lambda>env io s. case go_lookup (fo_Items s) outboxID of
             None \<Rightarrow> (Inl item_not_found, None) | Some item \<Rightarrow> (Inr item, None)) c)"

definition deliveryLeaseActive :: "ConnectorOutboxItem \<Rightarrow> time \<Rightarrow> bool" where
  "deliveryLeaseActive item now \<longleftrightarrow> oi_LeaseID item \<noteq> [] \<and> oi_LeaseExpiresAt item > now"

definition deliveryEligible :: "ConnectorOutboxItem \<Rightarrow> time \<Rightarrow> bool" where
  "deliveryEligible item now \<longleftrightarrow>
     (if deliveryLeaseActive item now then False
      else oi_Status item = OutboxStatusQueued \<or> (oi_Status item = OutboxStatusRetrying \<and> \<not> oi_NextAttemptAt item > now))"

definition lease_item :: "connector_env \<Rightarrow> string \<Rightarrow> duration \<Rightarrow> time \<Rightarrow> ConnectorOutboxItem \<Rightarrow> ConnectorOutboxItem" where
  "lease_item env owner leaseDuration now item =
     item\<lparr>oi_LeaseID := stableOpaqueID env ''lease'' [oi_OutboxID item, owner, ce_format env now], oi_LeaseOwner := owner,
       oi_LeaseExpiresAt := now + leaseDuration, oi_UpdatedAt := now\<rparr>"

definition validate_lease :: "string \<Rightarrow> duration \<Rightarrow> go_error option" where
  "validate_lease owner leaseDuration =
     (if owner = [] then Some (errors_New ''delivery lease owner is required'')
      else if leaseDuration \<le> 0 then Some (errors_New ''delivery lease duration must be positive'') else None)"

definition sorted_items :: "connector_env \<Rightarrow> fileOutboxPayload \<Rightarrow> ConnectorOutboxItem list" where
  "sorted_items env s = sort_key oi_CreatedAt (go_values (ce_order env) (fo_Items s))"

definition claim_next ::
  "time \<Rightarrow> string \<Rightarrow> duration \<Rightarrow> connector_env \<Rightarrow> store_io \<Rightarrow> fileOutboxPayload \<Rightarrow>
     ConnectorOutboxItem option res \<times> fileOutboxPayload option" where
  "claim_next now owner leaseDuration env io s =
     (let now = or_wall io now
      in case find (\<lambda>item. deliveryEligible item now) (sorted_items env s) of
           None \<Rightarrow> (Inr None, None)
         | Some item \<Rightarrow>
             let item = lease_item env owner leaseDuration now item in (Inr (Some item), Some (put_item item s)))"

definition store_ClaimNextOutboxItem :: "time \<Rightarrow> string \<Rightarrow> duration \<Rightarrow> connector \<Rightarrow> ConnectorOutboxItem option res \<times> connector" where
  "store_ClaimNextOutboxItem now owner leaseDuration c =
     (case validate_lease owner leaseDuration of Some err \<Rightarrow> (Inl err, c) | None \<Rightarrow> outbox_op (claim_next now owner leaseDuration) c)"

definition claim_item ::
  "string \<Rightarrow> time \<Rightarrow> string \<Rightarrow> duration \<Rightarrow> connector_env \<Rightarrow> store_io \<Rightarrow> fileOutboxPayload \<Rightarrow>
     (ConnectorOutboxItem \<times> bool) res \<times> fileOutboxPayload option" where
  "claim_item outboxID now owner leaseDuration env io s =
     (let now = or_wall io now
      in case go_lookup (fo_Items s) outboxID of
           None \<Rightarrow> (Inl item_not_found, None)
         | Some item \<Rightarrow>
             if \<not> deliveryEligible item now then (Inr (item, False), None)
             else let item = lease_item env owner leaseDuration now item in (Inr (item, True), Some (put_item item s)))"

definition ClaimOutboxItem :: "string \<Rightarrow> time \<Rightarrow> string \<Rightarrow> duration \<Rightarrow> connector \<Rightarrow> (ConnectorOutboxItem \<times> bool) res \<times> connector" where
  "ClaimOutboxItem outboxID now owner leaseDuration c =
     (if outboxID = [] then (Inl (errors_New ''outbox id is required''), c)
      else case validate_lease owner leaseDuration of Some err \<Rightarrow> (Inl err, c)
        | None \<Rightarrow> outbox_op (claim_item outboxID now owner leaseDuration) c)"

text \<open>Receipts are kept by item, in the order of their recording.\<close>

definition add_receipt :: "string \<Rightarrow> DeliveryReceipt \<Rightarrow> fileOutboxPayload \<Rightarrow> fileOutboxPayload" where
  "add_receipt outboxID receipt s =
     s\<lparr>fo_Receipts := go_store outboxID ((case go_lookup (fo_Receipts s) outboxID of Some rs \<Rightarrow> rs | None \<Rightarrow> []) @ [receipt]) (fo_Receipts s)\<rparr>"

definition record_item :: "ConnectorOutboxItem \<Rightarrow> DeliveryReceipt \<Rightarrow> connector_env \<Rightarrow> store_io \<Rightarrow> fileOutboxPayload \<Rightarrow> unit res \<times> fileOutboxPayload option" where
  "record_item item receipt env io s =
     (case go_lookup (fo_Items s) (oi_OutboxID item) of
        None \<Rightarrow> (Inl item_not_found, None)
      | Some _ \<Rightarrow> (Inr (), Some (add_receipt (oi_OutboxID item) receipt (put_item item s))))"

definition RecordDelivery :: "ConnectorOutboxItem \<Rightarrow> DeliveryReceipt \<Rightarrow> connector \<Rightarrow> unit res \<times> connector" where
  "RecordDelivery item receipt c =
     (if oi_OutboxID item = [] \<or> dr_ReceiptID receipt = [] \<or> dr_OutboxID receipt = []
      then (Inl (errors_New ''outbox item and receipt ids are required''), c)
      else if oi_OutboxID item \<noteq> dr_OutboxID receipt then (Inl (errors_New ''receipt outbox id does not match item''), c)
      else outbox_op (record_item item receipt) c)"

section \<open>What an operator and an adapter may say\<close>

definition isCredentialShapedExternalValue :: "string \<Rightarrow> bool" where
  "isCredentialShapedExternalValue value \<longleftrightarrow>
     (\<exists>marker \<in> set [''authorization'', ''bearer '', ''credential'', ''secret'', ''api_key'', ''apikey'', ''password'', ''token'', ''sk-'',
        ''xoxb-'', ''xoxp-'']. Contains (ToLower value) marker)"

abbreviation maxConnectorCommandReasonBytes :: nat where "maxConnectorCommandReasonBytes \<equiv> 256"

text \<open>The control characters are single bytes, so the loop over runes is one over bytes.\<close>

definition safeConnectorCommandReason :: "string \<Rightarrow> bool" where
  "safeConnectorCommandReason reason \<longleftrightarrow>
     (if reason = [] then True
      else if length reason > maxConnectorCommandReasonBytes \<or> isCredentialShapedExternalValue reason then False
      else list_all (\<lambda>r. r \<in> set [CHR 0x09, CHR 0x0A, CHR 0x0D] \<or> \<not> (r < CHR 0x20 \<or> r = CHR 0x7F)) reason)"

definition safeExternalActionRef :: "string \<Rightarrow> bool" where
  "safeExternalActionRef ref \<longleftrightarrow>
     (if ref = [] \<or> length ref > 256 \<or> isCredentialShapedExternalValue ref then False
      else list_all (\<lambda>r. (CHR ''a'' \<le> r \<and> r \<le> CHR ''z'') \<or> (CHR ''A'' \<le> r \<and> r \<le> CHR ''Z'') \<or> (CHR ''0'' \<le> r \<and> r \<le> CHR ''9'') \<or>
        r \<in> set ''_-.:'') ref)"

section \<open>What an operator decides\<close>

definition clear_lease :: "time \<Rightarrow> ConnectorOutboxItem \<Rightarrow> ConnectorOutboxItem" where
  "clear_lease now item = item\<lparr>oi_NextAttemptAt := 0, oi_LeaseID := [], oi_LeaseOwner := [], oi_LeaseExpiresAt := 0, oi_UpdatedAt := now\<rparr>"

definition requeue_receipt :: "connector_env \<Rightarrow> ConnectorOutboxItem \<Rightarrow> string \<Rightarrow> time \<Rightarrow> DeliveryReceipt" where
  "requeue_receipt env item reason now =
     no_receipt\<lparr>dr_ReceiptID := stableOpaqueID env ''receipt'' [oi_OutboxID item, DeliveryStatusRetrying, reason,
         show_int (oi_AttemptCount item), ce_format env now],
       dr_OutboxID := oi_OutboxID item, dr_Connector := oi_Connector item, dr_Status := DeliveryStatusRetrying, dr_Reason := reason,
       dr_Attempt := oi_AttemptCount item, dr_RecordedAt := now\<rparr>"

definition requeue_item ::
  "string \<Rightarrow> string \<Rightarrow> time \<Rightarrow> connector_env \<Rightarrow> store_io \<Rightarrow> fileOutboxPayload \<Rightarrow>
     (ConnectorOutboxItem \<times> DeliveryReceipt) res \<times> fileOutboxPayload option" where
  "requeue_item outboxID reason now env io s =
     (case go_lookup (fo_Items s) outboxID of
        None \<Rightarrow> (Inl item_not_found, None)
      | Some item \<Rightarrow>
          if oi_Status item \<noteq> OutboxStatusDeadLetter then (Inl (errors_New ''outbox item is not dead-lettered''), None)
          else
            let now = or_wall io now;
                item = (clear_lease now item)\<lparr>oi_Status := OutboxStatusQueued\<rparr>;
                receipt = requeue_receipt env item reason now;
                item = item\<lparr>oi_LastReceiptID := dr_ReceiptID receipt\<rparr>
            in (Inr (item, receipt), Some (add_receipt (oi_OutboxID item) receipt (put_item item s))))"

definition store_RequeueOutboxItem ::
  "string \<Rightarrow> string \<Rightarrow> time \<Rightarrow> connector \<Rightarrow> (ConnectorOutboxItem \<times> DeliveryReceipt) res \<times> connector" where
  "store_RequeueOutboxItem outboxID reason now c =
     (let reason = (if TrimSpace reason = [] then ''operator_requeued'' else TrimSpace reason)
      in if outboxID = [] then (Inl (errors_New ''outbox id is required''), c)
         else if \<not> safeConnectorCommandReason reason then (Inl (errors_New ''operator recovery reason is unsafe''), c)
         else outbox_op (requeue_item outboxID reason now) c)"

definition resolve_receipt :: "connector_env \<Rightarrow> ConnectorOutboxItem \<Rightarrow> string \<Rightarrow> string \<Rightarrow> string \<Rightarrow> time \<Rightarrow> DeliveryReceipt" where
  "resolve_receipt env item outcome reason externalActionRef now =
     no_receipt\<lparr>dr_ReceiptID := stableOpaqueID env ''receipt'' [oi_OutboxID item, outcome, externalActionRef, reason,
         show_int (oi_AttemptCount item), ce_format env now],
       dr_OutboxID := oi_OutboxID item, dr_Connector := oi_Connector item, dr_ExternalActionRef := externalActionRef, dr_Status := outcome,
       dr_Reason := reason, dr_Attempt := oi_AttemptCount item, dr_RecordedAt := now\<rparr>"

definition resolve_item ::
  "string \<Rightarrow> string \<Rightarrow> string \<Rightarrow> string \<Rightarrow> time \<Rightarrow> connector_env \<Rightarrow> store_io \<Rightarrow> fileOutboxPayload \<Rightarrow>
     (ConnectorOutboxItem \<times> DeliveryReceipt) res \<times> fileOutboxPayload option" where
  "resolve_item outboxID outcome reason externalActionRef now env io s =
     (case go_lookup (fo_Items s) outboxID of
        None \<Rightarrow> (Inl item_not_found, None)
      | Some item \<Rightarrow>
          if oi_Status item \<noteq> OutboxStatusRecoveryRequired then (Inl (errors_New ''outbox item is not recovery-required''), None)
          else
            let now = or_wall io now;
                item = (clear_lease now item)\<lparr>oi_Status := (if outcome = DeliveryStatusSent then OutboxStatusSent else OutboxStatusDeadLetter)\<rparr>;
                receipt = resolve_receipt env item outcome reason externalActionRef now;
                item = item\<lparr>oi_LastReceiptID := dr_ReceiptID receipt\<rparr>
            in (Inr (item, receipt), Some (add_receipt (oi_OutboxID item) receipt (put_item item s))))"

definition store_ResolveRecoveryRequiredOutboxItem ::
  "string \<Rightarrow> string \<Rightarrow> string \<Rightarrow> string \<Rightarrow> time \<Rightarrow> connector \<Rightarrow> (ConnectorOutboxItem \<times> DeliveryReceipt) res \<times> connector" where
  "store_ResolveRecoveryRequiredOutboxItem outboxID outcome reason externalActionRef now c =
     (let outcome = TrimSpace outcome;
          reason = (if TrimSpace reason = [] then ''operator_resolved_'' @ outcome else TrimSpace reason);
          externalActionRef = TrimSpace externalActionRef
      in if outboxID = [] then (Inl (errors_New ''outbox id is required''), c)
         else if outcome \<noteq> DeliveryStatusSent \<and> outcome \<noteq> DeliveryStatusDeadLettered
         then (Inl (errors_New ''operator recovery outcome must be sent or dead_lettered''), c)
         else if \<not> safeConnectorCommandReason reason then (Inl (errors_New ''operator recovery reason is unsafe''), c)
         else if externalActionRef \<noteq> [] \<and> \<not> safeExternalActionRef externalActionRef
         then (Inl (errors_New ''operator recovery external action ref is unsafe''), c)
         else outbox_op (resolve_item outboxID outcome reason externalActionRef now) c)"

section \<open>Evidence of a reconciliation\<close>

definition validateReconciliationObservedStatus :: "string \<Rightarrow> go_error option" where
  "validateReconciliationObservedStatus status =
     (if status \<in> set [''sent'', ''not_found'', ''failed'', ''unknown'', ''unavailable'', ''ambiguous'', ''permission_denied''] then None
      else Some (Errorf ''unsupported reconciliation observed status %q'' [status]))"

definition validateReconciliationLookup :: "ReconciliationLookup \<Rightarrow> go_error option" where
  "validateReconciliationLookup lookup =
     (let kind = TrimSpace (rl_Kind lookup); value = TrimSpace (rl_Value lookup)
      in if kind = [] \<or> value = [] then Some (errors_New ''reconciliation probe requires exact lookup handle'')
         else if kind \<notin> set [''action_id'', ''idempotency_key'', ''external_receipt_ref'', ''external_action_ref'', ''adapter_exact_ref'']
         then Some (Errorf ''reconciliation probe lookup kind %q is not an exact supported handle'' [kind])
         else if isCredentialShapedExternalValue value \<or> list_ex (\<lambda>r. r \<in> set [CHR 0x0D, CHR 0x0A, CHR 0x09]) value
         then Some (errors_New ''reconciliation probe lookup value is unsafe'')
         else None)"

definition validateReconciliationProbeResult :: "ReconciliationProbeResult \<Rightarrow> go_error option" where
  "validateReconciliationProbeResult result =
     (case validateReconciliationObservedStatus (TrimSpace (rp_ObservedStatus result)) of Some err \<Rightarrow> Some err | None \<Rightarrow>
      if rp_ExternalActionRef result \<noteq> [] \<and> \<not> safeExternalActionRef (rp_ExternalActionRef result)
      then Some (errors_New ''reconciliation probe returned unsafe external action ref'')
      else if \<not> safeConnectorCommandReason (rp_Reason result) then Some (errors_New ''reconciliation probe returned unsafe reason'')
      else None)"

definition reconciliationEvidenceFor ::
  "connector_env \<Rightarrow> ConnectorOutboxItem \<Rightarrow> ReconciliationLookup \<Rightarrow> ReconciliationProbeResult \<Rightarrow> time \<Rightarrow> ReconciliationEvidence" where
  "reconciliationEvidenceFor env item lookup result now =
     \<lparr>re_ProbeID = stableOpaqueID env ''recon'' [oi_OutboxID item, rl_Kind lookup, rl_Value lookup, rp_ObservedStatus result, rp_Reason result,
        ce_format env now],
      re_OutboxID = oi_OutboxID item, re_Connector = oi_Connector item, re_ActionKind = oi_ActionKind item,
      re_LookupKind = TrimSpace (rl_Kind lookup), re_LookupValue = TrimSpace (rl_Value lookup),
      re_ObservedStatus = TrimSpace (rp_ObservedStatus result), re_Reason = TrimSpace (rp_Reason result),
      re_ExternalActionRef = TrimSpace (rp_ExternalActionRef result), re_CheckedAt = now\<rparr>"

definition trim_evidence :: "ReconciliationEvidence \<Rightarrow> ReconciliationEvidence" where
  "trim_evidence evidence =
     evidence\<lparr>re_OutboxID := TrimSpace (re_OutboxID evidence), re_Connector := TrimSpace (re_Connector evidence),
       re_ActionKind := TrimSpace (re_ActionKind evidence), re_LookupKind := TrimSpace (re_LookupKind evidence),
       re_LookupValue := TrimSpace (re_LookupValue evidence), re_ObservedStatus := TrimSpace (re_ObservedStatus evidence),
       re_Reason := TrimSpace (re_Reason evidence), re_ExternalActionRef := TrimSpace (re_ExternalActionRef evidence)\<rparr>"

definition normalizeReconciliationEvidence :: "connector_env \<Rightarrow> time \<Rightarrow> ReconciliationEvidence \<Rightarrow> ReconciliationEvidence res" where
  "normalizeReconciliationEvidence env wall evidence =
     (let evidence = trim_evidence evidence
      in if re_OutboxID evidence = [] \<or> re_Connector evidence = [] \<or> re_ActionKind evidence = []
         then Inl (errors_New ''reconciliation evidence missing outbox identity'')
         else
           let evidence = (if re_ProbeID evidence = [] then evidence\<lparr>re_ProbeID := stableOpaqueID env ''recon'' [re_OutboxID evidence,
                 re_LookupKind evidence, re_LookupValue evidence, re_ObservedStatus evidence, re_Reason evidence,
                 ce_format env (re_CheckedAt evidence)]\<rparr> else evidence);
               evidence = (if re_CheckedAt evidence = 0 then evidence\<lparr>re_CheckedAt := wall\<rparr> else evidence)
           in case validateReconciliationObservedStatus (re_ObservedStatus evidence) of Some err \<Rightarrow> Inl err | None \<Rightarrow>
              if re_ExternalActionRef evidence \<noteq> [] \<and> \<not> safeExternalActionRef (re_ExternalActionRef evidence)
              then Inl (errors_New ''reconciliation evidence external action ref is unsafe'')
              else if \<not> safeConnectorCommandReason (re_Reason evidence) then Inl (errors_New ''reconciliation evidence reason is unsafe'')
              else Inr evidence)"

definition RecordReconciliationEvidence :: "ReconciliationEvidence \<Rightarrow> connector \<Rightarrow> unit res \<times> connector" where
  "RecordReconciliationEvidence evidence c =
     (case normalizeReconciliationEvidence (cn_env c) (io_wall (ce_io (cn_env c) (cn_moment c))) evidence of
        Inl err \<Rightarrow> (Inl err, c)
      | Inr evidence \<Rightarrow>
          outbox_op (\<lambda>env io s.
            case go_lookup (fo_Items s) (re_OutboxID evidence) of
              None \<Rightarrow> (Inl item_not_found, None)
            | Some _ \<Rightarrow> (Inr (), Some (s\<lparr>fo_Probes := go_store (re_OutboxID evidence)
                ((case go_lookup (fo_Probes s) (re_OutboxID evidence) of Some es \<Rightarrow> es | None \<Rightarrow> []) @ [evidence]) (fo_Probes s)\<rparr>))) c)"

definition ListReconciliationEvidence :: "string \<Rightarrow> connector \<Rightarrow> ReconciliationEvidence list res \<times> connector" where
  "ListReconciliationEvidence outboxID =
     outbox_op (\<lambda>env io s. (Inr (sort_key re_CheckedAt
       (if outboxID \<noteq> [] then (case go_lookup (fo_Probes s) outboxID of Some es \<Rightarrow> es | None \<Rightarrow> [])
        else concat (go_values (ce_order env) (fo_Probes s)))), None))"

definition ListOutbox :: "connector \<Rightarrow> ConnectorOutboxItem list res \<times> connector" where
  "ListOutbox = outbox_op (\<lambda>env io s. (Inr (sorted_items env s), None))"

definition ListReceipts :: "string \<Rightarrow> connector \<Rightarrow> DeliveryReceipt list res \<times> connector" where
  "ListReceipts outboxID =
     outbox_op (\<lambda>env io s. (Inr (sort_key dr_RecordedAt (case go_lookup (fo_Receipts s) outboxID of Some rs \<Rightarrow> rs | None \<Rightarrow> [])), None))"

section \<open>The policy of a delivery\<close>

abbreviation defaultMaxDeliveryAttempts :: int where "defaultMaxDeliveryAttempts \<equiv> 3"
definition defaultRetryBaseDelay :: duration where "defaultRetryBaseDelay = 30 * time_Second"
definition defaultRetryMaxDelay :: duration where "defaultRetryMaxDelay = 5 * time_Minute"
abbreviation defaultDeliveryLeaseOwner :: string where "defaultDeliveryLeaseOwner \<equiv> ''connector-runtime''"
definition defaultDeliveryLeaseTTL :: duration where "defaultDeliveryLeaseTTL = 2 * time_Minute"

fun retry_delay :: "nat \<Rightarrow> duration \<Rightarrow> duration" where
  "retry_delay 0 delay = delay"
| "retry_delay (Suc n) delay =
     (let delay = delay * 2 in if delay \<ge> defaultRetryMaxDelay then defaultRetryMaxDelay else retry_delay n delay)"

definition defaultNextAttemptAt :: "time \<Rightarrow> time \<Rightarrow> int \<Rightarrow> time" where
  "defaultNextAttemptAt wall now attempt =
     (let now = (if now = 0 then wall else now); attempt = (if attempt < 1 then 1 else attempt)
      in now + retry_delay (nat (attempt - 1)) defaultRetryBaseDelay)"

definition normalizeDeliveryResult :: "time \<Rightarrow> ConnectorOutboxItem \<Rightarrow> ConnectorActionResult \<Rightarrow> time \<Rightarrow> ConnectorActionResult" where
  "normalizeDeliveryResult wall item result now =
     (let attempt = oi_AttemptCount item + 1
      in if ar_Status result = DeliveryStatusRetrying then
           (if attempt \<ge> defaultMaxDeliveryAttempts
            then result\<lparr>ar_Status := DeliveryStatusDeadLettered, ar_NextAttemptAt := 0,
                   ar_Reason := (if ar_Reason result = [] then ''retry_exhausted'' else ar_Reason result)\<rparr>
            else if ar_NextAttemptAt result = 0 then result\<lparr>ar_NextAttemptAt := defaultNextAttemptAt wall now attempt\<rparr>
            else result)
         else if ar_Status result = DeliveryStatusFailed
         then result\<lparr>ar_Status := DeliveryStatusDeadLettered,
                ar_Reason := (if ar_Reason result = [] then ''delivery_failed'' else ar_Reason result)\<rparr>
         else if ar_Status result \<in> set [DeliveryStatusPartialSuccess, DeliveryStatusAmbiguous]
         then result\<lparr>ar_Reason := (if ar_Reason result = [] then ''recovery_required'' else ar_Reason result)\<rparr>
         else result)"

section \<open>The runtime\<close>

definition receipt_for :: "int \<Rightarrow> ConnectorOutboxItem \<Rightarrow> ConnectorActionResult \<Rightarrow> connector \<Rightarrow> DeliveryReceipt \<times> connector" where
  "receipt_for attempt item result c =
     (let (now, c) = runtime_now c; env = cn_env c
      in (\<lparr>dr_ReceiptID = stableOpaqueID env ''receipt'' [oi_OutboxID item, ar_Status result, ar_ExternalActionRef result, ar_Reason result,
             show_int attempt, ce_format env now],
           dr_OutboxID = oi_OutboxID item, dr_Connector = oi_Connector item, dr_ExternalActionRef = ar_ExternalActionRef result,
           dr_Status = ar_Status result, dr_Reason = ar_Reason result, dr_Attempt = attempt, dr_NextAttemptAt = ar_NextAttemptAt result,
           dr_RecordedAt = now\<rparr>, c))"

definition nonAttemptReceiptFor :: "ConnectorOutboxItem \<Rightarrow> ConnectorActionResult \<Rightarrow> connector \<Rightarrow> DeliveryReceipt \<times> connector" where
  "nonAttemptReceiptFor item = receipt_for (oi_AttemptCount item) item"

definition receiptFor :: "ConnectorOutboxItem \<Rightarrow> ConnectorActionResult \<Rightarrow> connector \<Rightarrow> DeliveryReceipt \<times> connector" where
  "receiptFor item = receipt_for (oi_AttemptCount item + 1) item"

definition result_item :: "ConnectorOutboxItem \<Rightarrow> DeliveryReceipt \<Rightarrow> ConnectorOutboxItem" where
  "result_item item receipt =
     (let item = item\<lparr>oi_AttemptCount := dr_Attempt receipt, oi_LastReceiptID := dr_ReceiptID receipt, oi_LeaseID := [], oi_LeaseOwner := [],
            oi_LeaseExpiresAt := 0, oi_UpdatedAt := dr_RecordedAt receipt\<rparr>;
          status = dr_Status receipt
      in if status = DeliveryStatusSent then item\<lparr>oi_Status := OutboxStatusSent\<rparr>
         else if status = DeliveryStatusRetrying then item\<lparr>oi_Status := OutboxStatusRetrying, oi_NextAttemptAt := dr_NextAttemptAt receipt\<rparr>
         else if status = DeliveryStatusDeadLettered then item\<lparr>oi_Status := OutboxStatusDeadLetter, oi_NextAttemptAt := 0\<rparr>
         else if status \<in> set [DeliveryStatusPartialSuccess, DeliveryStatusAmbiguous]
         then item\<lparr>oi_Status := OutboxStatusRecoveryRequired, oi_NextAttemptAt := 0\<rparr>
         else if status = DeliveryStatusDuplicateSuppressed then item\<lparr>oi_Status := OutboxStatusSent\<rparr>
         else item\<lparr>oi_Status := OutboxStatusDeadLetter, oi_NextAttemptAt := 0\<rparr>)"

definition recordResult :: "ConnectorOutboxItem \<Rightarrow> DeliveryReceipt \<Rightarrow> connector \<Rightarrow> unit res \<times> connector" where
  "recordResult item receipt = RecordDelivery (result_item item receipt) receipt"

definition missing_store :: go_error where "missing_store = errors_New ''connector runtime missing outbox store''"

text \<open>
  A delivery between two operations of the store: it reads the item, records that it did not try, claims the
  item, hands it to its adapter and reports what came out.
\<close>

datatype delivery =
    Get string
  | GetClaimed ConnectorOutboxItem
  | Refuse ConnectorOutboxItem DeliveryReceipt "go_error option"
  | Claim string time
  | Run ConnectorOutboxItem time
  | Report ConnectorOutboxItem DeliveryReceipt "go_error option"
  | Finished DeliveryReceipt "go_error option"

definition refuse :: "ConnectorOutboxItem \<Rightarrow> ConnectorActionResult \<Rightarrow> string \<Rightarrow> connector \<Rightarrow> delivery \<times> connector" where
  "refuse item result err c = (case nonAttemptReceiptFor item result c of (receipt, c) \<Rightarrow> (Refuse item receipt (Some (errors_New err)), c))"

definition read_item :: "string \<Rightarrow> ConnectorOutboxItem \<Rightarrow> connector \<Rightarrow> delivery \<times> connector" where
  "read_item outboxID item c =
     (if oi_Status item \<in> set [OutboxStatusSent, OutboxStatusDeadLetter, OutboxStatusRecoveryRequired] then
        (case receiptFor item (no_result\<lparr>ar_Status := DeliveryStatusDuplicateSuppressed, ar_Reason := ''outbox_terminal_'' @ oi_Status item\<rparr>) c of
           (receipt, c) \<Rightarrow> (Refuse item receipt None, c))
      else
        let (now, c) = runtime_now c
        in if oi_Status item = OutboxStatusRetrying \<and> oi_NextAttemptAt item > now
           then refuse item (no_result\<lparr>ar_Status := DeliveryStatusRetrying, ar_Reason := ''retry_not_eligible'',
                  ar_NextAttemptAt := oi_NextAttemptAt item\<rparr>) ''connector retry is not eligible yet'' c
           else if deliveryLeaseActive item now
           then refuse item (no_result\<lparr>ar_Status := DeliveryStatusRetrying, ar_Reason := ''delivery_lease_active'',
                  ar_NextAttemptAt := oi_LeaseExpiresAt item\<rparr>) ''connector delivery lease is active'' c
           else (Claim outboxID now, c))"

definition read_claimed :: "ConnectorOutboxItem \<Rightarrow> ConnectorOutboxItem \<Rightarrow> connector \<Rightarrow> delivery \<times> connector" where
  "read_claimed claimed item c =
     (let (now, c) = runtime_now c
      in if oi_LeaseID claimed = [] \<or> oi_LeaseID item \<noteq> oi_LeaseID claimed \<or> \<not> deliveryLeaseActive item now
         then refuse item (no_result\<lparr>ar_Status := DeliveryStatusRetrying, ar_Reason := ''delivery_lease_invalid''\<rparr>)
                ''connector delivery lease is invalid'' c
         else (Run item now, c))"

definition action_of :: "ConnectorOutboxItem \<Rightarrow> ConnectorAction" where
  "action_of item =
     \<lparr>ca_OutboxID = oi_OutboxID item, ca_Connector = oi_Connector item, ca_ActionKind = oi_ActionKind item, ca_TargetRef = oi_TargetRef item,
      ca_Payload = oi_Payload item, ca_IdempotencyKey = oi_IdempotencyKey item, ca_Attempt = oi_AttemptCount item + 1\<rparr>"

text \<open>What the adapter answered, with the status it left out.\<close>

definition adapter_result :: "ConnectorActionResult \<Rightarrow> string option \<Rightarrow> ConnectorActionResult" where
  "adapter_result result execErr =
     (if ar_Status result = []
      then (case execErr of Some err \<Rightarrow> result\<lparr>ar_Status := DeliveryStatusFailed, ar_Reason := err\<rparr>
            | None \<Rightarrow> result\<lparr>ar_Status := DeliveryStatusSent\<rparr>)
      else result)"

definition executeLeasedOutboxItem :: "ConnectorOutboxItem \<Rightarrow> time \<Rightarrow> connector \<Rightarrow> delivery \<times> connector" where
  "executeLeasedOutboxItem item now c =
     (case ce_adapters (cn_env c) (oi_Connector item) of
        None \<Rightarrow>
          (case receiptFor item (no_result\<lparr>ar_Status := DeliveryStatusFailed, ar_Reason := ''connector_adapter_missing''\<rparr>) c of
             (receipt, c) \<Rightarrow> (Report item receipt (Some (errors_New ''connector adapter missing'')), c))
      | Some adapter \<Rightarrow>
          let (result, execErr) = adapter (action_of item) (cn_moment c);
              c = c\<lparr>cn_executed := cn_executed c @ [action_of item], cn_moment := Suc (cn_moment c)\<rparr>;
              result = normalizeDeliveryResult (io_wall (ce_io (cn_env c) (cn_moment c))) item (adapter_result result execErr) now
          in (case receiptFor item result c of (receipt, c) \<Rightarrow> (Report item receipt (map_option errors_New execErr), c)))"

fun deliver :: "delivery \<Rightarrow> connector \<Rightarrow> delivery \<times> connector" where
  "deliver (Get outboxID) c =
     (case GetOutboxItem outboxID c of (Inl err, c) \<Rightarrow> (Finished no_receipt (Some err), c) | (Inr item, c) \<Rightarrow> read_item outboxID item c)"
| "deliver (GetClaimed claimed) c =
     (if oi_OutboxID claimed = [] then (Finished no_receipt (Some (errors_New ''outbox id is required'')), c)
      else case GetOutboxItem (oi_OutboxID claimed) c of
          (Inl err, c) \<Rightarrow> (Finished no_receipt (Some err), c)
        | (Inr item, c) \<Rightarrow> read_claimed claimed item c)"
| "deliver (Refuse item receipt err) c =
     (case RecordDelivery item receipt c of (Inl recordErr, c) \<Rightarrow> (Finished receipt (Some recordErr), c) | (Inr _, c) \<Rightarrow> (Finished receipt err, c))"
| "deliver (Claim outboxID now) c =
     (case ClaimOutboxItem outboxID now defaultDeliveryLeaseOwner defaultDeliveryLeaseTTL c of
        (Inl err, c) \<Rightarrow> (Finished no_receipt (Some err), c)
      | (Inr (item, claimed), c) \<Rightarrow>
          if \<not> claimed
          then refuse item (no_result\<lparr>ar_Status := DeliveryStatusRetrying, ar_Reason := ''delivery_not_claimed''\<rparr>)
                 ''connector delivery was not claimed'' c
          else (Run item now, c))"
| "deliver (Run item now) c = executeLeasedOutboxItem item now c"
| "deliver (Report item receipt err) c =
     (case recordResult item receipt c of (Inl recordErr, c) \<Rightarrow> (Finished receipt (Some recordErr), c) | (Inr _, c) \<Rightarrow> (Finished receipt err, c))"
| "deliver (Finished receipt err) c = (Finished receipt err, c)"

text \<open>A delivery comes closer to its end with every step, so it has one.\<close>

fun steps_left :: "delivery \<Rightarrow> nat" where
  "steps_left (Get _) = 4"
| "steps_left (GetClaimed _) = 3"
| "steps_left (Claim _ _) = 3"
| "steps_left (Run _ _) = 2"
| "steps_left (Refuse _ _ _) = 1"
| "steps_left (Report _ _ _) = 1"
| "steps_left (Finished _ _) = 0"

lemma steps_left_refuse [simp]: "steps_left (fst (refuse item result err c)) = 1"
  by (simp add: refuse_def split: prod.splits)

lemma steps_left_read:
  "steps_left (fst (read_item outboxID item c)) < 4" "steps_left (fst (read_claimed claimed item c)) < 3"
  by (simp_all add: read_item_def read_claimed_def runtime_now_def split: prod.splits)

lemma steps_left_execute: "steps_left (fst (executeLeasedOutboxItem item now c)) = 1"
  by (simp add: executeLeasedOutboxItem_def Let_def split: option.splits prod.splits)

lemma steps_left_deliver: "steps_left d \<noteq> 0 \<Longrightarrow> steps_left (fst (deliver d c)) < steps_left d"
  by (cases d) (auto simp: steps_left_execute steps_left_read [simplified] split: prod.splits sum.splits)

lemma steps_left_closer:
  "(d', c') = deliver d c \<Longrightarrow> steps_left d \<noteq> 0 \<Longrightarrow> ((d', c'), (d, c)) \<in> measure (\<lambda>(d, c). steps_left d)"
  using steps_left_deliver [of d c] by (cases "deliver d c") simp

function finish :: "delivery \<Rightarrow> connector \<Rightarrow> (DeliveryReceipt \<times> go_error option) \<times> connector" where
  "finish d c = (case d of Finished receipt err \<Rightarrow> ((receipt, err), c) | _ \<Rightarrow> (case deliver d c of (d, c) \<Rightarrow> finish d c))"
  by pat_completeness auto
termination
  by (relation "measure (\<lambda>(d, c). steps_left d)", rule wf_measure) (rule steps_left_closer, assumption, simp)+

declare finish.simps [simp del]

definition ExecuteOutboxItem :: "string \<Rightarrow> connector \<Rightarrow> (DeliveryReceipt \<times> go_error option) \<times> connector" where
  "ExecuteOutboxItem outboxID c =
     (if \<not> ce_store (cn_env c) then ((no_receipt, Some missing_store), c) else finish (Get outboxID) c)"

definition ExecuteClaimedOutboxItem :: "ConnectorOutboxItem \<Rightarrow> connector \<Rightarrow> (DeliveryReceipt \<times> go_error option) \<times> connector" where
  "ExecuteClaimedOutboxItem claimed c =
     (if \<not> ce_store (cn_env c) then ((no_receipt, Some missing_store), c) else finish (GetClaimed claimed) c)"

definition EnqueueCommand :: "AppCommand \<Rightarrow> connector \<Rightarrow> (ConnectorOutboxItem \<times> bool) res \<times> connector" where
  "EnqueueCommand cmd c =
     (if \<not> ce_store (cn_env c) then (Inl missing_store, c) else let (now, c) = runtime_now c in store_EnqueueCommand cmd now c)"

definition ListEligibleOutboxItems :: "connector \<Rightarrow> ConnectorOutboxItem list res \<times> connector" where
  "ListEligibleOutboxItems c =
     (if \<not> ce_store (cn_env c) then (Inl missing_store, c)
      else let (now, c) = runtime_now c; (items, c) = ListOutbox c
           in (bind_res items (\<lambda>items. Inr (filter (\<lambda>item. deliveryEligible item now) items)), c))"

definition ClaimNextOutboxItem :: "string \<Rightarrow> duration \<Rightarrow> connector \<Rightarrow> ConnectorOutboxItem option res \<times> connector" where
  "ClaimNextOutboxItem owner leaseDuration c =
     (if \<not> ce_store (cn_env c) then (Inl missing_store, c)
      else let (now, c) = runtime_now c in store_ClaimNextOutboxItem now owner leaseDuration c)"

definition RequeueOutboxItem :: "string \<Rightarrow> string \<Rightarrow> connector \<Rightarrow> (ConnectorOutboxItem \<times> DeliveryReceipt) res \<times> connector" where
  "RequeueOutboxItem outboxID reason c =
     (if \<not> ce_store (cn_env c) then (Inl missing_store, c)
      else let (now, c) = runtime_now c in store_RequeueOutboxItem outboxID reason now c)"

definition ResolveRecoveryRequiredOutboxItem ::
  "string \<Rightarrow> string \<Rightarrow> string \<Rightarrow> string \<Rightarrow> connector \<Rightarrow> (ConnectorOutboxItem \<times> DeliveryReceipt) res \<times> connector" where
  "ResolveRecoveryRequiredOutboxItem outboxID outcome reason externalActionRef c =
     (if \<not> ce_store (cn_env c) then (Inl missing_store, c)
      else let (now, c) = runtime_now c in store_ResolveRecoveryRequiredOutboxItem outboxID outcome reason externalActionRef now c)"

text \<open>What is observed of an item that needs recovery is stored as evidence; the item does not change.\<close>

definition unavailable :: "string \<Rightarrow> ReconciliationProbeResult" where
  "unavailable reason = \<lparr>rp_ObservedStatus = ''unavailable'', rp_Reason = reason, rp_ExternalActionRef = []\<rparr>"

definition probe_result :: "ReconciliationProbeResult \<Rightarrow> go_error option \<Rightarrow> ReconciliationProbeResult \<times> go_error option" where
  "probe_result result probeErr =
     (let result = (if rp_ObservedStatus result = [] then result\<lparr>rp_ObservedStatus := ''unavailable''\<rparr> else result);
          result = (if rp_Reason result = [] \<and> probeErr \<noteq> None then result\<lparr>rp_Reason := ''external_unavailable''\<rparr> else result)
      in case validateReconciliationProbeResult result of
           None \<Rightarrow> (result, probeErr)
         | Some err \<Rightarrow> (unavailable ''external_unavailable'', if probeErr = None then Some err else probeErr))"

definition record_evidence ::
  "ReconciliationEvidence \<Rightarrow> go_error option \<Rightarrow> connector \<Rightarrow> (ReconciliationEvidence option \<times> go_error option) \<times> connector" where
  "record_evidence evidence err c =
     (case RecordReconciliationEvidence evidence c of
        (Inl recordErr, c) \<Rightarrow> ((Some evidence, Some recordErr), c)
      | (Inr _, c) \<Rightarrow> ((Some evidence, err), c))"

definition ProbeRecoveryRequiredOutboxItem ::
  "string \<Rightarrow> ReconciliationLookup \<Rightarrow> connector \<Rightarrow> (ReconciliationEvidence option \<times> go_error option) \<times> connector" where
  "ProbeRecoveryRequiredOutboxItem outboxID lookup c =
     (if \<not> ce_store (cn_env c) then ((None, Some missing_store), c)
      else let (now, c) = runtime_now c in
        case GetOutboxItem (TrimSpace outboxID) c of
          (Inl err, c) \<Rightarrow> ((None, Some err), c)
        | (Inr item, c) \<Rightarrow>
            if oi_Status item \<noteq> OutboxStatusRecoveryRequired then ((None, Some (errors_New ''outbox item is not recovery-required'')), c)
            else case validateReconciliationLookup lookup of
                Some err \<Rightarrow> record_evidence (reconciliationEvidenceFor (cn_env c) item lookup (unavailable ''missing_handle'') now) (Some err) c
              | None \<Rightarrow>
                  (case ce_probes (cn_env c) (oi_Connector item) of
                     None \<Rightarrow> record_evidence (reconciliationEvidenceFor (cn_env c) item lookup (unavailable ''unsupported_action'') now)
                               (Some (errors_New ''connector reconciliation probe unsupported'')) c
                   | Some probe \<Rightarrow>
                       let (result, probeErr) = probe item lookup (cn_moment c);
                           c = c\<lparr>cn_moment := Suc (cn_moment c)\<rparr>;
                           (result, probeErr) = probe_result result probeErr
                       in record_evidence (reconciliationEvidenceFor (cn_env c) item lookup result now) probeErr c))"

end
