(* ===== verification/Connector_Delivery.thy ===== *)
theory Connector_Delivery
  imports Connector_Outbox
begin

text \<open>
  What the outbox promises: items are never lost or mixed up in any interleaving of workers, and workers that
  do not overlap deliver an item once, within a bounded number of attempts. Overlapping workers may deliver an
  item that was sent a second time.
\<close>

section \<open>The outbox as it stands\<close>

definition payload_of :: "connector \<Rightarrow> fileOutboxPayload" where
  "payload_of c = (case cn_outbox c of None \<Rightarrow> outbox_reset | Some payload \<Rightarrow> payload)"

definition item_of :: "string \<Rightarrow> connector \<Rightarrow> ConnectorOutboxItem option" where
  "item_of i c = go_lookup (fo_Items (payload_of c)) i"

definition receipts_of :: "string \<Rightarrow> connector \<Rightarrow> DeliveryReceipt list" where
  "receipts_of i c = (case go_lookup (fo_Receipts (payload_of c)) i of Some rs \<Rightarrow> rs | None \<Rightarrow> [])"

text \<open>The fields of an item that no operation changes.\<close>

definition item_core :: "ConnectorOutboxItem \<Rightarrow> ConnectorOutboxItem" where
  "item_core item = item\<lparr>oi_Status := [], oi_AttemptCount := 0, oi_NextAttemptAt := 0, oi_LeaseID := [], oi_LeaseOwner := [],
     oi_LeaseExpiresAt := 0, oi_LastReceiptID := [], oi_UpdatedAt := 0\<rparr>"

definition elapse :: "connector \<Rightarrow> connector" where
  "elapse c = c\<lparr>cn_moment := Suc (cn_moment c)\<rparr>"

abbreviation stored :: "fileOutboxPayload \<Rightarrow> connector \<Rightarrow> connector" where
  "stored p c \<equiv> elapse (c\<lparr>cn_outbox := Some p\<rparr>)"

lemma item_core_fields:
  assumes "item_core a = item_core b"
  shows "oi_OutboxID a = oi_OutboxID b" "oi_IdempotencyKey a = oi_IdempotencyKey b"
  using assms unfolding item_core_def by (cases a; cases b; simp)+

lemma elapse_simps [simp]:
  "cn_env (elapse c) = cn_env c" "cn_outbox (elapse c) = cn_outbox c" "cn_executed (elapse c) = cn_executed c"
  "payload_of (elapse c) = payload_of c" "item_of i (elapse c) = item_of i c" "receipts_of i (elapse c) = receipts_of i c"
  by (simp_all add: elapse_def payload_of_def item_of_def receipts_of_def)

lemma payload_of_stored [simp]: "payload_of (stored p c) = p" "payload_of (c\<lparr>cn_outbox := Some p\<rparr>) = p"
  by (simp_all add: payload_of_def)

lemma item_of_stored [simp]: "item_of i (stored p c) = go_lookup (fo_Items p) i" "item_of i (c\<lparr>cn_outbox := Some p\<rparr>) = go_lookup (fo_Items p) i"
  by (simp_all add: item_of_def)

text \<open>An operation fails and leaves the file, only reads it, or writes it.\<close>

lemma outbox_op_eq:
  assumes "\<not> ce_windows (cn_env c)"
  shows "outbox_op body c =
     (let io = ce_io (cn_env c) (cn_moment c)
      in case first_error [io_lock io, io_load io] of Some err \<Rightarrow> (Inl err, elapse c)
       | None \<Rightarrow> (case body (cn_env c) io (payload_of c) of
           (r, None) \<Rightarrow> (r, elapse c)
         | (r, Some p) \<Rightarrow> (case first_error [io_prepare io, io_rename io] of Some err \<Rightarrow> (Inl err, elapse c) | None \<Rightarrow> (r, stored p c))))"
proof -
  have elapsed: "c\<lparr>cn_outbox := cn_outbox c, cn_moment := Suc (cn_moment c)\<rparr> = elapse c" by (simp add: elapse_def)
  have current: "(case cn_outbox c of None \<Rightarrow> outbox_reset | Some payload \<Rightarrow> payload) = payload_of c" by (simp add: payload_of_def)
  obtain r q where "body (cn_env c) (ce_io (cn_env c) (cn_moment c)) (payload_of c) = (r, q)" by (rule prod.exhaust)
  with assms show ?thesis
    unfolding outbox_op_def withLockedState_def Let_def writeLocked_def replaceConnectorStateFile_def current
    by (simp add: elapsed elapse_def split: option.split)
qed

lemma outbox_op_cases [consumes 2, case_names failed read written]:
  assumes "outbox_op body c = (r, c')" and "\<not> ce_windows (cn_env c)"
  obtains err where "r = Inl err" "c' = elapse c"
  | "body (cn_env c) (ce_io (cn_env c) (cn_moment c)) (payload_of c) = (r, None)" "c' = elapse c"
  | p where "body (cn_env c) (ce_io (cn_env c) (cn_moment c)) (payload_of c) = (r, Some p)" "c' = stored p c"
proof -
  obtain r' q where "body (cn_env c) (ce_io (cn_env c) (cn_moment c)) (payload_of c) = (r', q)" by (rule prod.exhaust)
  with assms(1) that show thesis
    unfolding outbox_op_eq [OF assms(2)] Let_def by (auto split: option.splits)
qed


section \<open>Any interleaving\<close>

text \<open>
  The store operations and the steps of the deliveries that are under way, in any order and with any times.
  \<open>K\<close> holds the dedupe keys that are used.
\<close>

inductive outbox_step :: "string set \<Rightarrow> connector \<times> delivery list \<Rightarrow> connector \<times> delivery list \<Rightarrow> bool" for K where
  enqueue: "outboxDedupeKey (cn_env c) cmd \<in> K \<Longrightarrow> store_EnqueueCommand cmd now c = (r, c') \<Longrightarrow> outbox_step K (c, ds) (c', ds)"
| claim_next: "store_ClaimNextOutboxItem now owner leaseDuration c = (r, c') \<Longrightarrow> outbox_step K (c, ds) (c', ds)"
| requeue: "store_RequeueOutboxItem outboxID reason now c = (r, c') \<Longrightarrow> outbox_step K (c, ds) (c', ds)"
| resolve: "store_ResolveRecoveryRequiredOutboxItem outboxID outcome reason ref now c = (r, c') \<Longrightarrow> outbox_step K (c, ds) (c', ds)"
| evidence: "RecordReconciliationEvidence ev c = (r, c') \<Longrightarrow> outbox_step K (c, ds) (c', ds)"
| wait: "outbox_step K (c, ds) (elapse c, ds)"
| begin_get: "outbox_step K (c, ds) (c, ds @ [Get outboxID])"
| begin_claimed: "outbox_step K (c, ds) (c, ds @ [GetClaimed claimed])"
| deliver: "n < length ds \<Longrightarrow> deliver (ds ! n) c = (d, c') \<Longrightarrow> outbox_step K (c, ds) (c', ds[n := d])"

abbreviation outbox_run :: "string set \<Rightarrow> connector \<times> delivery list \<Rightarrow> connector \<times> delivery list \<Rightarrow> bool" where
  "outbox_run K \<equiv> (outbox_step K)\<^sup>*\<^sup>*"

text \<open>Items and dedupe keys name each other.\<close>

definition outbox_id :: "connector_env \<Rightarrow> string \<Rightarrow> string" where
  "outbox_id env key = stableOpaqueID env ''outbox'' [key]"

text \<open>
  The platform replaces a file in one step, the iteration over a map visits each key once, and the identifiers
  of the used keys do not collide.
\<close>

definition sound_env :: "string set \<Rightarrow> connector_env \<Rightarrow> bool" where
  "sound_env K env \<longleftrightarrow> \<not> ce_windows env \<and> permutes_keys (ce_order env) \<and> inj_on (outbox_id env) K"

definition outbox_ok :: "string set \<Rightarrow> connector \<Rightarrow> bool" where
  "outbox_ok K c \<longleftrightarrow>
     sound_env K (cn_env c) \<and>
     (\<forall>i item. item_of i c = Some item \<longrightarrow> oi_OutboxID item = i \<and> i = outbox_id (cn_env c) (oi_IdempotencyKey item) \<and>
        oi_IdempotencyKey item \<in> K) \<and>
     (\<forall>key \<in> K. \<forall>i. go_lookup (fo_ByDedupe (payload_of c)) key = Some i \<longleftrightarrow> i = outbox_id (cn_env c) key \<and> item_of i c \<noteq> None)"

definition outbox_le :: "connector \<Rightarrow> connector \<Rightarrow> bool" where
  "outbox_le c c' \<longleftrightarrow> cn_env c' = cn_env c \<and> (\<forall>i. prefix (receipts_of i c) (receipts_of i c')) \<and>
     (\<forall>i item. item_of i c = Some item \<longrightarrow> (\<exists>item'. item_of i c' = Some item' \<and> item_core item' = item_core item))"

text \<open>What a delivery under way knows of its item is true of the stored one.\<close>

fun item_in :: "delivery \<Rightarrow> ConnectorOutboxItem option" where
  "item_in (Refuse item _ _) = Some item"
| "item_in (Run item _) = Some item"
| "item_in (Report item _ _) = Some item"
| "item_in _ = None"

definition item_ok :: "connector \<Rightarrow> ConnectorOutboxItem \<Rightarrow> bool" where
  "item_ok c item \<longleftrightarrow> (\<exists>item'. item_of (oi_OutboxID item) c = Some item' \<and> item_core item' = item_core item)"

definition delivery_ok :: "connector \<Rightarrow> delivery \<Rightarrow> bool" where
  "delivery_ok c d \<longleftrightarrow> (\<forall>item. item_in d = Some item \<longrightarrow> item_ok c item)"

lemma outbox_le_refl [simp, intro]: "outbox_le c c" and outbox_le_elapse [simp]: "outbox_le c (elapse c)"
  by (simp_all add: outbox_le_def)

lemma outbox_le_trans [trans]:
  assumes "outbox_le a b" and "outbox_le b c"
  shows "outbox_le a c"
  unfolding outbox_le_def
proof (intro conjI allI impI)
  show "cn_env c = cn_env a" using assms by (simp add: outbox_le_def)
  show "prefix (receipts_of i a) (receipts_of i c)" for i using assms unfolding outbox_le_def by (meson prefix_order.trans)
  show "\<exists>item'. item_of i c = Some item' \<and> item_core item' = item_core item" if "item_of i a = Some item" for i item
    using assms that unfolding outbox_le_def by metis
qed

lemma outbox_ok_elapse [simp]: "outbox_ok K (elapse c) \<longleftrightarrow> outbox_ok K c"
  by (simp add: outbox_ok_def)

lemma outbox_okD:
  assumes "outbox_ok K c"
  shows "\<not> ce_windows (cn_env c)" and "item_of i c = Some item \<Longrightarrow> oi_OutboxID item = i"
    and "item_of i c = Some item \<Longrightarrow> i = outbox_id (cn_env c) (oi_IdempotencyKey item)"
    and "item_of i c = Some item \<Longrightarrow> oi_IdempotencyKey item \<in> K"
    and "key \<in> K \<Longrightarrow> go_lookup (fo_ByDedupe (payload_of c)) key = Some j \<longleftrightarrow> j = outbox_id (cn_env c) key \<and> item_of j c \<noteq> None"
    and "permutes_keys (ce_order (cn_env c))" and "inj_on (outbox_id (cn_env c)) K"
  using assms unfolding outbox_ok_def sound_env_def by blast+

lemma outbox_okI:
  assumes "outbox_ok K c" and "cn_env c' = cn_env c"
    and "\<And>i item. item_of i c' = Some item \<Longrightarrow>
      oi_OutboxID item = i \<and> i = outbox_id (cn_env c) (oi_IdempotencyKey item) \<and> oi_IdempotencyKey item \<in> K"
    and "\<And>key i. key \<in> K \<Longrightarrow>
      go_lookup (fo_ByDedupe (payload_of c')) key = Some i \<longleftrightarrow> i = outbox_id (cn_env c) key \<and> item_of i c' \<noteq> None"
  shows "outbox_ok K c'"
  unfolding outbox_ok_def assms(2) using assms(1) assms(3,4) by (simp add: outbox_ok_def)

lemma delivery_ok_le: "delivery_ok c d \<Longrightarrow> outbox_le c c' \<Longrightarrow> delivery_ok c' d"
  unfolding delivery_ok_def item_ok_def outbox_le_def by metis

text \<open>Changing the state of a stored item, with or without a receipt, keeps all that.\<close>

lemma put_item_ok:
  assumes "outbox_ok K c" and "item_of (oi_OutboxID item) c = Some old" and "item_core item = item_core old"
    and p: "fo_Items p = fo_Items (put_item item (payload_of c))" "fo_ByDedupe p = fo_ByDedupe (payload_of c)"
      "\<And>i. prefix (receipts_of i c) (receipts_of i (stored p c))"
  shows "outbox_ok K (stored p c)" and "outbox_le c (stored p c)"
proof -
  have items: "item_of i (stored p c) = (if i = oi_OutboxID item then Some item else item_of i c)" for i
    using p(1) by (simp add: put_item_def item_of_def)
  have old: "oi_OutboxID item = outbox_id (cn_env c) (oi_IdempotencyKey item)" "oi_IdempotencyKey item \<in> K"
    using outbox_okD(3,4) [OF assms(1,2)] item_core_fields(2) [OF assms(3)] by simp_all
  have env: "cn_env (stored p c) = cn_env c" by simp
  have dedupe: "fo_ByDedupe (payload_of (stored p c)) = fo_ByDedupe (payload_of c)" using p(2) by simp
  have some: "item_of i (stored p c) \<noteq> None \<longleftrightarrow> item_of i c \<noteq> None" for i unfolding items using assms(2) by simp
  have each: "oi_OutboxID x = i \<and> i = outbox_id (cn_env c) (oi_IdempotencyKey x) \<and> oi_IdempotencyKey x \<in> K"
    if "item_of i (stored p c) = Some x" for i x
  proof (cases "i = oi_OutboxID item")
    case True
    with that have "x = item" unfolding items by simp
    with True old show ?thesis by simp
  next
    case False
    with that have "item_of i c = Some x" by (simp only: items if_False)
    from outbox_okD(2-4) [OF assms(1) this] show ?thesis by simp
  qed
  show "outbox_ok K (stored p c)"
  proof (rule outbox_okI [OF assms(1) env])
    show "key \<in> K \<Longrightarrow> go_lookup (fo_ByDedupe (payload_of (stored p c))) key = Some i \<longleftrightarrow>
        i = outbox_id (cn_env c) key \<and> item_of i (stored p c) \<noteq> None" for key i
      unfolding dedupe some by (rule outbox_okD(5) [OF assms(1)])
  qed (rule each)
  show "outbox_le c (stored p c)"
    unfolding outbox_le_def items using assms(2,3) p(3) by auto
qed


lemma put_item_simps [simp]:
  "fo_ByDedupe (put_item item s) = fo_ByDedupe s" "fo_Receipts (put_item item s) = fo_Receipts s"
  "fo_Items (add_receipt i receipt s) = fo_Items s" "fo_ByDedupe (add_receipt i receipt s) = fo_ByDedupe s"
  by (simp_all add: put_item_def add_receipt_def)

lemma receipts_of_stored:
  "receipts_of i (stored (put_item item (payload_of c)) c) = receipts_of i c"
  "receipts_of i (stored (add_receipt j receipt (put_item item (payload_of c))) c) = (if i = j then receipts_of i c @ [receipt] else receipts_of i c)"
  by (simp_all add: receipts_of_def add_receipt_def split: option.splits)

definition outbox_keeps :: "string set \<Rightarrow> connector \<Rightarrow> connector \<Rightarrow> bool" where
  "outbox_keeps K c c' \<longleftrightarrow> outbox_ok K c' \<and> outbox_le c c'"

lemma keeps_elapse [simp]: "outbox_ok K c \<Longrightarrow> outbox_keeps K c (elapse c)" and keeps_refl: "outbox_ok K c \<Longrightarrow> outbox_keeps K c c"
  by (simp_all add: outbox_keeps_def)

lemma keeps_trans: "outbox_keeps K a b \<Longrightarrow> outbox_keeps K b c \<Longrightarrow> outbox_keeps K a c"
  unfolding outbox_keeps_def by (blast intro: outbox_le_trans)

lemma keeps_put:
  assumes "outbox_ok K c" and "item_of (oi_OutboxID item) c = Some old" and "item_core item = item_core old"
  shows "outbox_keeps K c (stored (put_item item (payload_of c)) c)"
    and "outbox_keeps K c (stored (add_receipt j receipt (put_item item (payload_of c))) c)"
  unfolding outbox_keeps_def
  by (intro conjI put_item_ok [OF assms]; simp only: put_item_simps receipts_of_stored split: if_split; simp)+

text \<open>What an operation stores of an item that is there.\<close>

lemmas item_parts = item_core_def lease_item_def clear_lease_def result_item_def Let_def

lemma core_lease [simp]: "item_core (lease_item env owner d now item) = item_core item"
  and core_clear [simp]: "item_core (clear_lease now item) = item_core item"
  and core_result [simp]: "item_core (result_item item receipt) = item_core item"
  and core_status [simp]: "item_core (item\<lparr>oi_Status := s\<rparr>) = item_core item"
  and core_receipt [simp]: "item_core (item\<lparr>oi_LastReceiptID := s\<rparr>) = item_core item"
  by (simp_all add: item_parts)

lemma id_parts [simp]:
  "oi_OutboxID (lease_item env owner d now item) = oi_OutboxID item" "oi_OutboxID (clear_lease now item) = oi_OutboxID item"
  "oi_OutboxID (result_item item receipt) = oi_OutboxID item"
  by (simp_all add: item_parts)

lemma claim_cases [consumes 2, case_names kept claimed]:
  assumes "ClaimOutboxItem i now owner d c = (r, c')" and "outbox_ok K c"
  obtains "c' = c \<or> c' = elapse c" "\<And>item b. r = Inr (item, b) \<Longrightarrow> \<not> b \<and> item_of i c = Some item"
  | item now' where "item_of i c = Some item" "deliveryEligible item now'" "r = Inr (lease_item (cn_env c) owner d now' item, True)"
      "c' = stored (put_item (lease_item (cn_env c) owner d now' item) (payload_of c)) c"
proof (cases "i = [] \<or> validate_lease owner d \<noteq> None")
  case True
  with assms(1) that(1) show thesis by (auto simp: ClaimOutboxItem_def split: if_splits option.splits)
next
  case False
  with assms(1) have "outbox_op (claim_item i now owner d) c = (r, c')" by (simp add: ClaimOutboxItem_def)
  from this outbox_okD(1) [OF assms(2)] show thesis
  proof (cases rule: outbox_op_cases)
    case (failed err)
    with that(1) show thesis by simp
  next
    case read
    with that(1) show thesis by (auto simp: claim_item_def Let_def item_of_def split: option.splits if_splits)
  next
    case (written p)
    with that(2) show thesis by (auto simp: claim_item_def Let_def item_of_def split: option.splits if_splits)
  qed
qed

lemma claim_next_cases [consumes 2, case_names kept claimed]:
  assumes "store_ClaimNextOutboxItem now owner d c = (r, c')" and "outbox_ok K c" 
  obtains "c' = c \<or> c' = elapse c"
  | item now' where "item_of (oi_OutboxID item) c = Some item" "deliveryEligible item now'"
      "c' = stored (put_item (lease_item (cn_env c) owner d now' item) (payload_of c)) c"
proof (cases "validate_lease owner d")
  case (Some err)
  with assms(1) that(1) show thesis by (simp add: store_ClaimNextOutboxItem_def)
next
  case None
  with assms(1) have "outbox_op (claim_next now owner d) c = (r, c')" by (simp add: store_ClaimNextOutboxItem_def)
  from this outbox_okD(1) [OF assms(2)] show thesis
  proof (cases rule: outbox_op_cases)
    case (written p)
    then obtain item now' where item: "find (\<lambda>item. deliveryEligible item now') (sorted_items (cn_env c) (payload_of c)) = Some item"
      and p: "p = put_item (lease_item (cn_env c) owner d now' item) (payload_of c)"
      by (auto simp: claim_next_def Let_def split: option.splits)
    from find_SomeD [OF item] have "item \<in> ran (go_lookup (fo_Items (payload_of c)))"
      by (simp add: sorted_items_def set_go_values [OF outbox_okD(6) [OF assms(2)]])
    then obtain i where i: "item_of i c = Some item" by (auto simp: ran_def item_of_def)
    with outbox_okD(2) [OF assms(2) i] have "item_of (oi_OutboxID item) c = Some item" by simp
    with that(2) find_SomeD [OF item] p written(2) show thesis by blast
  qed (use that(1) in simp_all)
qed

lemma record_cases [consumes 2, case_names kept recorded]:
  assumes "RecordDelivery item receipt c = (r, c')" and "outbox_ok K c"
  obtains err where "c' = c \<or> c' = elapse c" "r = Inl err"
  | old where "item_of (oi_OutboxID item) c = Some old" "r = Inr ()" "dr_OutboxID receipt = oi_OutboxID item"
      "c' = stored (add_receipt (oi_OutboxID item) receipt (put_item item (payload_of c))) c"
proof (cases "oi_OutboxID item = [] \<or> dr_ReceiptID receipt = [] \<or> dr_OutboxID receipt = [] \<or> oi_OutboxID item \<noteq> dr_OutboxID receipt")
  case True
  with assms(1) that(1) show thesis by (auto simp: RecordDelivery_def split: if_splits)
next
  case False
  with assms(1) have "outbox_op (record_item item receipt) c = (r, c')" by (simp add: RecordDelivery_def)
  from this outbox_okD(1) [OF assms(2)] show thesis
  proof (cases rule: outbox_op_cases)
    case (failed err)
    with that(1) show thesis by simp
  next
    case read
    with that(1) show thesis by (auto simp: record_item_def split: option.splits)
  next
    case (written p)
    then obtain old where old: "item_of (oi_OutboxID item) c = Some old"
      and p: "p = add_receipt (oi_OutboxID item) receipt (put_item item (payload_of c))" "r = Inr ()"
      by (auto simp: record_item_def item_of_def split: option.splits)
    from that(2) [OF old p(2) _ written(2) [unfolded p(1)]] False show thesis by simp
  qed
qed

text \<open>An operator changes an item of one state to another and clears its lease.\<close>

lemma requeue_cases [consumes 2, case_names kept requeued]:
  assumes "store_RequeueOutboxItem i reason now c = (r, c')" and "outbox_ok K c"
  obtains "c' = c \<or> c' = elapse c"
  | item now' receipt id where "item_of i c = Some item" "oi_Status item = OutboxStatusDeadLetter"
      "c' = stored (add_receipt i receipt (put_item ((clear_lease now' item)\<lparr>oi_Status := OutboxStatusQueued, oi_LastReceiptID := id\<rparr>) (payload_of c))) c"
proof -
  consider "c' = c" | reason' where "outbox_op (requeue_item i reason' now) c = (r, c')"
    using assms(1) by (auto simp: store_RequeueOutboxItem_def Let_def split: if_splits)
  then show thesis
  proof cases
    case 2
    from this outbox_okD(1) [OF assms(2)] show thesis
    proof (cases rule: outbox_op_cases)
      case (written p)
      then obtain item where item: "item_of i c = Some item" "oi_Status item = OutboxStatusDeadLetter"
        by (auto simp: requeue_item_def item_of_def split: option.splits if_splits)
      then have "oi_OutboxID item = i" by (intro outbox_okD(2) [OF assms(2)])
      with item written that(2) show thesis by (auto simp: requeue_item_def item_of_def Let_def)
    qed (use that(1) in simp_all)
  qed (use that(1) in simp)
qed

lemma resolve_cases [consumes 2, case_names kept resolved]:
  assumes "store_ResolveRecoveryRequiredOutboxItem i outcome reason ref now c = (r, c')" and "outbox_ok K c"
  obtains "c' = c \<or> c' = elapse c"
  | item now' receipt id s where "item_of i c = Some item" "oi_Status item = OutboxStatusRecoveryRequired"
      "s \<in> {OutboxStatusSent, OutboxStatusDeadLetter}"
      "c' = stored (add_receipt i receipt (put_item ((clear_lease now' item)\<lparr>oi_Status := s, oi_LastReceiptID := id\<rparr>) (payload_of c))) c"
proof -
  consider "c' = c" | o' reason' ref' where "outbox_op (resolve_item i o' reason' ref' now) c = (r, c')"
    using assms(1) by (auto simp: store_ResolveRecoveryRequiredOutboxItem_def Let_def split: if_splits)
  then show thesis
  proof cases
    case 2
    from this outbox_okD(1) [OF assms(2)] show thesis
    proof (cases rule: outbox_op_cases)
      case (written p)
      then obtain item where item: "item_of i c = Some item" "oi_Status item = OutboxStatusRecoveryRequired"
        by (auto simp: resolve_item_def item_of_def split: option.splits if_splits)
      then have "oi_OutboxID item = i" by (intro outbox_okD(2) [OF assms(2)])
      let ?now = "or_wall (ce_io (cn_env c) (cn_moment c)) now"
        and ?s = "if o' = DeliveryStatusSent then OutboxStatusSent else OutboxStatusDeadLetter"
      let ?receipt = "resolve_receipt (cn_env c) ((clear_lease ?now item)\<lparr>oi_Status := ?s\<rparr>) o' reason' ref' ?now"
      have "p = add_receipt i ?receipt (put_item ((clear_lease ?now item)\<lparr>oi_Status := ?s, oi_LastReceiptID := dr_ReceiptID ?receipt\<rparr>) (payload_of c))"
        using written(1) item \<open>oi_OutboxID item = i\<close> by (simp add: resolve_item_def item_of_def Let_def)
      from that(2) [OF item _ written(2) [unfolded this]] show thesis by simp
    qed (use that(1) in simp_all)
  qed (use that(1) in simp)
qed


lemma evidence_cases [consumes 2, case_names kept stored]:
  assumes "RecordReconciliationEvidence ev c = (r, c')" and "outbox_ok K c"
  obtains "c' = c \<or> c' = elapse c"
  | probes where "c' = stored ((payload_of c)\<lparr>fo_Probes := probes\<rparr>) c"
proof (cases "normalizeReconciliationEvidence (cn_env c) (io_wall (ce_io (cn_env c) (cn_moment c))) ev")
  case (Inl err)
  with assms(1) that(1) show thesis by (simp add: RecordReconciliationEvidence_def)
next
  case (Inr ev')
  from assms(1) [unfolded RecordReconciliationEvidence_def Inr sum.case] outbox_okD(1) [OF assms(2)] show thesis
  proof (cases rule: outbox_op_cases)
    case (written p)
    with that(2) show thesis by (auto split: option.splits)
  qed (use that(1) in simp_all)
qed

lemma enqueue_cases [consumes 2, case_names kept repeated fresh]:
  assumes "store_EnqueueCommand cmd now c = (r, c')" and "outbox_ok K c"
  obtains err where "c' = c \<or> c' = elapse c" "r = Inl err"
  | i where "go_lookup (fo_ByDedupe (payload_of c)) (outboxDedupeKey (cn_env c) cmd) = Some i"
      "r = Inr (case item_of i c of Some item \<Rightarrow> item | None \<Rightarrow> no_item, True)" "c' = elapse c"
  | now' where "go_lookup (fo_ByDedupe (payload_of c)) (outboxDedupeKey (cn_env c) cmd) = None"
      "r = Inr (toOutboxItem (cn_env c) cmd now', False)"
      "c' = stored ((put_item (toOutboxItem (cn_env c) cmd now') (payload_of c))\<lparr>fo_ByDedupe :=
         go_store (outboxDedupeKey (cn_env c) cmd) (oi_OutboxID (toOutboxItem (cn_env c) cmd now')) (fo_ByDedupe (payload_of c))\<rparr>) c"
proof (cases "validate_command cmd")
  case (Some err)
  with assms(1) that(1) show thesis by (auto simp: store_EnqueueCommand_def)
next
  case None
  with assms(1) have "outbox_op (enqueue_item cmd now) c = (r, c')" by (simp add: store_EnqueueCommand_def)
  from this outbox_okD(1) [OF assms(2)] show thesis
  proof (cases rule: outbox_op_cases)
    case (failed err)
    with that(1) show thesis by simp
  next
    case read
    with that(2) show thesis by (auto simp: enqueue_item_def Let_def item_of_def split: option.splits)
  next
    case (written p)
    with that(3) show thesis by (auto simp: enqueue_item_def Let_def split: option.splits)
  qed
qed

lemma new_item_simps [simp]:
  "oi_OutboxID (toOutboxItem env cmd now) = outbox_id env (outboxDedupeKey env cmd)"
  "oi_IdempotencyKey (toOutboxItem env cmd now) = outboxDedupeKey env cmd"
  "oi_Status (toOutboxItem env cmd now) = OutboxStatusQueued" "oi_AttemptCount (toOutboxItem env cmd now) = 0"
  "oi_LeaseID (toOutboxItem env cmd now) = []"
  by (simp_all add: toOutboxItem_def outbox_id_def Let_def)

lemma enqueue_keeps:
  assumes "store_EnqueueCommand cmd now c = (r, c')" and "outbox_ok K c" and "outboxDedupeKey (cn_env c) cmd \<in> K"
  shows "outbox_keeps K c c'"
  using assms(1,2)
proof (cases rule: enqueue_cases)
  case (kept err)
  with assms(2) show ?thesis by (auto intro: keeps_refl)
next
  case (repeated i)
  with assms(2) show ?thesis by simp
next
  case (fresh now')
  let ?key = "outboxDedupeKey (cn_env c) cmd" and ?new = "toOutboxItem (cn_env c) cmd now'"
  note inj = outbox_okD(7) [OF assms(2)] and dedupe = outbox_okD(5) [OF assms(2)]
  have none: "item_of (outbox_id (cn_env c) ?key) c = None" using dedupe [OF assms(3)] fresh(1) by force
  have items: "item_of i c' = (if i = outbox_id (cn_env c) ?key then Some ?new else item_of i c)" for i
    using fresh(3) by (simp add: put_item_def item_of_def)
  have keys: "go_lookup (fo_ByDedupe (payload_of c')) key = (if key = ?key then Some (outbox_id (cn_env c) ?key) else go_lookup (fo_ByDedupe (payload_of c)) key)" for key
    using fresh(3) by simp
  have env: "cn_env c' = cn_env c" using fresh(3) by simp
  have each: "oi_OutboxID x = i \<and> i = outbox_id (cn_env c) (oi_IdempotencyKey x) \<and> oi_IdempotencyKey x \<in> K" if "item_of i c' = Some x" for i x
  proof (cases "i = outbox_id (cn_env c) ?key")
    case True
    with that have "x = ?new" by (simp add: items)
    with True assms(3) show ?thesis by simp
  next
    case False
    with that have "item_of i c = Some x" by (simp add: items)
    from outbox_okD(2-4) [OF assms(2) this] show ?thesis by simp
  qed
  have named: "go_lookup (fo_ByDedupe (payload_of c')) key = Some i \<longleftrightarrow> i = outbox_id (cn_env c) key \<and> item_of i c' \<noteq> None" if "key \<in> K" for key i
    using dedupe [OF that] inj_onD [OF inj _ that assms(3)] by (auto simp: keys items)
  have "outbox_ok K c'" by (rule outbox_okI [OF assms(2) env]) (fact each named)+
  moreover have "receipts_of i c' = receipts_of i c" for i using fresh(3) by (simp add: receipts_of_def)
  then have "outbox_le c c'" unfolding outbox_le_def env items using none by auto
  ultimately show ?thesis by (simp add: outbox_keeps_def)
qed


lemma claim_keeps: "ClaimOutboxItem i now owner d c = (r, c') \<Longrightarrow> outbox_ok K c \<Longrightarrow> outbox_keeps K c c'"
  by (cases rule: claim_cases) (auto simp: outbox_okD(2) intro: keeps_refl keeps_put(1))

lemma claim_next_keeps:
  "store_ClaimNextOutboxItem now owner d c = (r, c') \<Longrightarrow> outbox_ok K c \<Longrightarrow> outbox_keeps K c c'"
  by (cases rule: claim_next_cases) (auto intro: keeps_refl keeps_put(1))

lemma requeue_keeps: "store_RequeueOutboxItem i reason now c = (r, c') \<Longrightarrow> outbox_ok K c \<Longrightarrow> outbox_keeps K c c'"
  by (cases rule: requeue_cases) (auto simp: outbox_okD(2) intro!: keeps_put(2) intro: keeps_refl)

lemma resolve_keeps: "store_ResolveRecoveryRequiredOutboxItem i outcome reason ref now c = (r, c') \<Longrightarrow> outbox_ok K c \<Longrightarrow> outbox_keeps K c c'"
  by (cases rule: resolve_cases) (auto simp: outbox_okD(2) intro!: keeps_put(2) intro: keeps_refl)

lemma evidence_keeps:
  assumes "RecordReconciliationEvidence ev c = (r, c')" and "outbox_ok K c"
  shows "outbox_keeps K c c'"
  using assms
proof (cases rule: evidence_cases)
  case (stored probes)
  have items: "item_of i c' = item_of i c" for i using stored by (simp add: item_of_def)
  have "receipts_of i c' = receipts_of i c" "payload_of c' = (payload_of c)\<lparr>fo_Probes := probes\<rparr>" "cn_env c' = cn_env c" for i
    using stored by (simp_all add: receipts_of_def)
  then show ?thesis using assms(2) by (simp add: outbox_keeps_def outbox_ok_def outbox_le_def items)
qed (use assms(2) in \<open>auto intro: keeps_refl\<close>)

lemma record_keeps:
  assumes "RecordDelivery item receipt c = (r, c')" and "outbox_ok K c"
    and "item_of (oi_OutboxID item) c = Some old" and "item_core item = item_core old"
  shows "outbox_keeps K c c'"
  using assms(1,2) by (cases rule: record_cases) (use assms in \<open>auto intro: keeps_refl keeps_put(2)\<close>)

lemma get_cases [consumes 2, case_names failed found]:
  assumes "GetOutboxItem i c = (r, c')" and "outbox_ok K c"
  obtains err where "r = Inl err" "c' = c \<or> c' = elapse c"
  | item where "r = Inr item" "item_of i c = Some item" "c' = elapse c"
proof (cases "i = []")
  case True
  with assms(1) that(1) show thesis by (auto simp: GetOutboxItem_def)
next
  case False
  with assms(1) have "outbox_op (\<lambda>env io s. case go_lookup (fo_Items s) i of None \<Rightarrow> (Inl item_not_found, None) | Some item \<Rightarrow> (Inr item, None)) c = (r, c')"
    by (simp add: GetOutboxItem_def)
  from this outbox_okD(1) [OF assms(2)] show thesis
    by (cases rule: outbox_op_cases) (use that in \<open>auto simp: item_of_def split: option.splits\<close>)
qed

lemma runtime_now_eq: "runtime_now c = (ce_now (cn_env c) (cn_moment c), elapse c)"
  by (simp add: runtime_now_def elapse_def)

text \<open>Only time has passed.\<close>

definition idle :: "connector \<Rightarrow> connector \<Rightarrow> bool" where
  "idle c c' \<longleftrightarrow> cn_env c' = cn_env c \<and> cn_outbox c' = cn_outbox c \<and> cn_executed c' = cn_executed c"

lemma idle_simps [simp]: "idle c c" "idle c (elapse c)" "idle c c' \<Longrightarrow> idle c (elapse c')"
  by (simp_all add: idle_def)

lemma idleD:
  assumes "idle c c'"
  shows "cn_env c' = cn_env c" "payload_of c' = payload_of c" "item_of i c' = item_of i c" "receipts_of i c' = receipts_of i c"
    "cn_executed c' = cn_executed c"
  using assms by (simp_all add: idle_def payload_of_def item_of_def receipts_of_def)

lemma idle_keeps: "idle c c' \<Longrightarrow> outbox_ok K c \<Longrightarrow> outbox_keeps K c c'"
  by (simp add: outbox_keeps_def outbox_ok_def outbox_le_def idleD)

lemma receipt_for_eq:
  obtains receipt where "receipt_for attempt item result c = (receipt, elapse c)" "dr_OutboxID receipt = oi_OutboxID item"
    "dr_Attempt receipt = attempt" "dr_Status receipt = ar_Status result" "dr_ReceiptID receipt \<noteq> []"
  unfolding receipt_for_def runtime_now_eq Let_def by (simp add: stableOpaqueID_def)

lemma receiptFor_eq:
  obtains receipt where "receiptFor item result c = (receipt, elapse c)" "dr_OutboxID receipt = oi_OutboxID item"
    "dr_Attempt receipt = oi_AttemptCount item + 1" "dr_Status receipt = ar_Status result" "dr_ReceiptID receipt \<noteq> []"
  unfolding receiptFor_def by (rule receipt_for_eq)

lemma refuse_eq:
  obtains receipt where "refuse item result err c = (Refuse item receipt (Some (errors_New err)), elapse c)"
    "dr_OutboxID receipt = oi_OutboxID item"
  using receipt_for_eq [of "oi_AttemptCount item" item result c] unfolding refuse_def nonAttemptReceiptFor_def by (metis prod.case)

lemma refuse_idle:
  assumes "refuse item result err c = (d, c')"
  obtains receipt err where "d = Refuse item receipt err" "idle c c'" "dr_OutboxID receipt = oi_OutboxID item"
  using refuse_eq [of item result err c] assms that by (metis idle_simps(2) prod.inject)

text \<open>After a read: the item is refused, claimed or, with its lease, run.\<close>

lemma read_item_cases [consumes 1, case_names refused claim]:
  assumes "read_item i item c = (d, c')"
  obtains receipt err where "d = Refuse item receipt err" "idle c c'" "dr_OutboxID receipt = oi_OutboxID item"
  | now where "d = Claim i now" "idle c c'"
proof (cases "oi_Status item \<in> set [OutboxStatusSent, OutboxStatusDeadLetter, OutboxStatusRecoveryRequired]")
  case True
  obtain result where "(case receiptFor item result c of (receipt, c) \<Rightarrow> (Refuse item receipt None, c)) = (d, c')"
    using assms True unfolding read_item_def by (simp only: if_True)
  with receiptFor_eq [of item result c] that(1) show thesis by (metis idle_simps(2) prod.case prod.inject)
next
  case False
  let ?now = "ce_now (cn_env c) (cn_moment c)"
  consider "d = Claim i ?now" "c' = elapse c" | result err where "refuse item result err (elapse c) = (d, c')"
  proof (cases "oi_Status item = OutboxStatusRetrying \<and> oi_NextAttemptAt item > ?now")
    case True
    with assms False that(2) show thesis unfolding read_item_def runtime_now_eq Let_def prod.case by (simp only: if_True if_False simp_thms)
  next
    case late: False
    show thesis
    proof (cases "deliveryLeaseActive item ?now")
      case True
      with assms False late that(2) show thesis unfolding read_item_def runtime_now_eq Let_def prod.case by (simp only: if_True if_False simp_thms)
    next
      case False
      with assms \<open>oi_Status item \<notin> _\<close> late have "(Claim i ?now, elapse c) = (d, c')"
        unfolding read_item_def runtime_now_eq Let_def prod.case by (simp only: if_True if_False simp_thms)
      with that(1) show thesis by simp
    qed
  qed
  then show thesis
  proof cases
    case 2
    then show thesis by (rule refuse_idle) (use that(1) in \<open>simp add: idle_def\<close>)
  qed (use that(2) in simp)
qed

lemma read_claimed_cases [consumes 1, case_names refused run]:
  assumes "read_claimed claimed item c = (d, c')"
  obtains receipt err where "d = Refuse item receipt err" "idle c c'" "dr_OutboxID receipt = oi_OutboxID item"
  | now where "d = Run item now" "idle c c'" "oi_LeaseID item \<noteq> []"
proof -
  consider result err where "refuse item result err (elapse c) = (d, c')" | "d = Run item (ce_now (cn_env c) (cn_moment c))" "c' = elapse c" "oi_LeaseID item \<noteq> []"
    using assms unfolding read_claimed_def runtime_now_eq Let_def prod.case
    by (cases "oi_LeaseID claimed = [] \<or> oi_LeaseID item \<noteq> oi_LeaseID claimed \<or> \<not> deliveryLeaseActive item (ce_now (cn_env c) (cn_moment c))")
      (auto simp: deliveryLeaseActive_def)
  then show thesis
  proof cases
    case 1
    then show thesis by (rule refuse_idle) (use that(1) in \<open>simp add: idle_def\<close>)
  qed (use that(2) in simp)
qed

lemma execute_cases:
  assumes "executeLeasedOutboxItem item now c = (d, c')"
  obtains receipt err acts where "d = Report item receipt err" "dr_OutboxID receipt = oi_OutboxID item" "dr_ReceiptID receipt \<noteq> []"
    "dr_Attempt receipt = oi_AttemptCount item + 1"
    "dr_Status receipt = DeliveryStatusRetrying \<Longrightarrow> oi_AttemptCount item + 1 < defaultMaxDeliveryAttempts"
    "acts = [] \<or> acts = [action_of item]" "idle (c\<lparr>cn_executed := cn_executed c @ acts\<rparr>) c'"
proof (cases "ce_adapters (cn_env c) (oi_Connector item)")
  case None
  obtain receipt where "receiptFor item (no_result\<lparr>ar_Status := DeliveryStatusFailed, ar_Reason := ''connector_adapter_missing''\<rparr>) c = (receipt, elapse c)"
    "dr_OutboxID receipt = oi_OutboxID item" "dr_Attempt receipt = oi_AttemptCount item + 1"
    "dr_Status receipt = ar_Status (no_result\<lparr>ar_Status := DeliveryStatusFailed, ar_Reason := ''connector_adapter_missing''\<rparr>)"
    "dr_ReceiptID receipt \<noteq> []"
    by (rule receiptFor_eq)
  with assms None show thesis
    by (intro that [of receipt _ "[]"]) (auto simp: executeLeasedOutboxItem_def idle_def)
next
  case (Some adapter)
  obtain result execErr where a: "adapter (action_of item) (cn_moment c) = (result, execErr)" by (rule prod.exhaust)
  let ?c = "c\<lparr>cn_executed := cn_executed c @ [action_of item], cn_moment := Suc (cn_moment c)\<rparr>"
  define result' where "result' = normalizeDeliveryResult (io_wall (ce_io (cn_env ?c) (cn_moment ?c))) item (adapter_result result execErr) now"
  obtain receipt where r: "receiptFor item result' ?c = (receipt, elapse ?c)"
    "dr_OutboxID receipt = oi_OutboxID item" "dr_Attempt receipt = oi_AttemptCount item + 1" "dr_Status receipt = ar_Status result'"
    "dr_ReceiptID receipt \<noteq> []"
    by (rule receiptFor_eq)
  have d: "d = Report item receipt (map_option errors_New execErr)" "c' = elapse ?c"
    using assms Some a r(1) unfolding executeLeasedOutboxItem_def result'_def by (simp_all add: Let_def)
  have retry: "ar_Status result' = DeliveryStatusRetrying \<Longrightarrow> oi_AttemptCount item + 1 < defaultMaxDeliveryAttempts"
    by (auto simp: result'_def normalizeDeliveryResult_def Let_def split: if_splits)
  show thesis
    by (rule that [OF d(1) r(2,5,3), of "[action_of item]"]) (use d(2) r(4) retry in \<open>simp_all add: idle_def\<close>)
qed


section \<open>Items are permanent\<close>

lemma delivery_ok_item [simp]:
  "delivery_ok c (Refuse item receipt err) = item_ok c item" "delivery_ok c (Report item receipt err) = item_ok c item"
  "delivery_ok c (Run item now) = item_ok c item"
  "delivery_ok c (Get i)" "delivery_ok c (GetClaimed item)" "delivery_ok c (Claim i now)" "delivery_ok c (Finished receipt err)"
  by (simp_all add: delivery_ok_def)

lemma idle_delivery:
  assumes "idle c c'" and "outbox_ok K c" and "\<And>item. item_in d = Some item \<Longrightarrow> item_of i c = Some item"
  shows "outbox_keeps K c c' \<and> delivery_ok c' d"
  using idle_keeps [OF assms(1,2)] assms(3) outbox_okD(2) [OF assms(2)] by (auto simp: delivery_ok_def item_ok_def idleD [OF assms(1)])

lemma get_keeps:
  assumes "deliver (Get i) c = (d', c')" and "outbox_ok K c"
  shows "outbox_keeps K c c' \<and> delivery_ok c' d'"
proof -
  obtain r c1 where get: "GetOutboxItem i c = (r, c1)" by (rule prod.exhaust)
  from get assms(2) show ?thesis
  proof (cases rule: get_cases)
    case (failed err)
    with assms get show ?thesis by (auto intro: keeps_refl)
  next
    case (found item)
    with assms(1) get have "read_item i item (elapse c) = (d', c')" by simp
    then show ?thesis
      by (cases rule: read_item_cases; intro idle_delivery [OF _ assms(2), of _ _ i]) (simp_all add: idle_def found(2))
  qed
qed

lemma get_claimed_keeps:
  assumes "deliver (GetClaimed claimed) c = (d', c')" and "outbox_ok K c"
  shows "outbox_keeps K c c' \<and> delivery_ok c' d'"
proof (cases "oi_OutboxID claimed = []")
  case True
  with assms show ?thesis by (auto intro: keeps_refl)
next
  case False
  obtain r c1 where get: "GetOutboxItem (oi_OutboxID claimed) c = (r, c1)" by (rule prod.exhaust)
  from get assms(2) show ?thesis
  proof (cases rule: get_cases)
    case (failed err)
    with assms get False show ?thesis by (auto intro: keeps_refl)
  next
    case (found item)
    with assms(1) get False have "read_claimed claimed item (elapse c) = (d', c')" by simp
    then show ?thesis
      by (cases rule: read_claimed_cases; intro idle_delivery [OF _ assms(2), of _ _ "oi_OutboxID claimed"]) (simp_all add: idle_def found(2))
  qed
qed

lemma claim_step_cases [consumes 2, case_names failed refused claimed]:
  assumes "deliver (Claim i now) c = (d', c')" and "outbox_ok K c"
  obtains err where "d' = Finished no_receipt (Some err)" "idle c c'"
  | item receipt err where "d' = Refuse item receipt err" "idle c c'" "item_of i c = Some item" "dr_OutboxID receipt = oi_OutboxID item"
  | item now' where "item_of i c = Some item" "deliveryEligible item now'"
      "d' = Run (lease_item (cn_env c) defaultDeliveryLeaseOwner defaultDeliveryLeaseTTL now' item) now"
      "c' = stored (put_item (lease_item (cn_env c) defaultDeliveryLeaseOwner defaultDeliveryLeaseTTL now' item) (payload_of c)) c"
proof -
  obtain r c1 where claim: "ClaimOutboxItem i now defaultDeliveryLeaseOwner defaultDeliveryLeaseTTL c = (r, c1)" by (rule prod.exhaust)
  from claim assms(2) show thesis
  proof (cases rule: claim_cases)
    case kept
    then have idle: "idle c c1" by auto
    show thesis
    proof (cases r)
      case (Inl err)
      with assms(1) claim idle that(1) show thesis by auto
    next
      case (Inr p)
      obtain item b where p: "p = (item, b)" by (rule prod.exhaust)
      note k = kept(2) [OF Inr [unfolded p]]
      obtain result err where "refuse item result err c1 = (d', c')" using assms(1) claim Inr p k by (auto split: if_splits)
      then show thesis by (rule refuse_idle) (use idle k that(2) in \<open>auto simp: idle_def\<close>)
    qed
  next
    case (claimed item now')
    with assms(1) claim that(3) show thesis by auto
  qed
qed

lemma claim_step_keeps:
  assumes "deliver (Claim i now) c = (d', c')" and "outbox_ok K c"
  shows "outbox_keeps K c c' \<and> delivery_ok c' d'"
  using assms
proof (cases rule: claim_step_cases)
  case (claimed item now')
  have "outbox_keeps K c c'" unfolding claimed(4) by (rule keeps_put(1) [OF assms(2)]) (use claimed(1) outbox_okD(2) [OF assms(2)] in auto)
  moreover have "item_of (oi_OutboxID item) c' = Some (lease_item (cn_env c) defaultDeliveryLeaseOwner defaultDeliveryLeaseTTL now' item)"
    unfolding claimed(4) by (simp add: put_item_def)
  ultimately show ?thesis unfolding claimed(3) by (simp add: item_ok_def)
qed (use idle_delivery [OF _ assms(2), of c' d' i] in auto)

lemma recorded_keeps:
  assumes "RecordDelivery item receipt c = (r, c')" and "outbox_ok K c" and "item_ok c item'" and "item_core item = item_core item'"
  shows "outbox_keeps K c c'"
proof -
  from assms(3) obtain old where "item_of (oi_OutboxID item') c = Some old" "item_core item' = item_core old" by (auto simp: item_ok_def)
  with record_keeps [OF assms(1,2)] assms(4) item_core_fields(1) [OF assms(4)] show ?thesis by simp
qed

lemma deliver_keeps:
  assumes "deliver d c = (d', c')" and "outbox_ok K c" and "delivery_ok c d"
  shows "outbox_keeps K c c' \<and> delivery_ok c' d'"
proof (cases d)
  case (Refuse item receipt err)
  obtain r where rec: "RecordDelivery item receipt c = (r, c')" and d': "\<exists>e. d' = Finished receipt e"
    using assms(1) Refuse by (auto split: prod.splits sum.splits)
  from recorded_keeps [OF rec assms(2)] assms(3) Refuse d' show ?thesis by auto
next
  case (Report item receipt err)
  obtain r where rec: "RecordDelivery (result_item item receipt) receipt c = (r, c')" and d': "\<exists>e. d' = Finished receipt e"
    using assms(1) Report by (auto simp: recordResult_def split: prod.splits sum.splits)
  from recorded_keeps [OF rec assms(2)] assms(3) Report d' show ?thesis by auto
next
  case (Run item now)
  with assms(1) have "executeLeasedOutboxItem item now c = (d', c')" by simp
  then show ?thesis
  proof (rule execute_cases)
    fix receipt err acts assume d': "d' = Report item receipt err" and idle: "idle (c\<lparr>cn_executed := cn_executed c @ acts\<rparr>) c'"
    from idle have same: "cn_env c' = cn_env c" "payload_of c' = payload_of c" "item_of i c' = item_of i c" "receipts_of i c' = receipts_of i c" for i
      by (simp_all add: idle_def payload_of_def item_of_def receipts_of_def)
    with assms(2,3) Run d' show ?thesis by (simp add: outbox_keeps_def outbox_ok_def outbox_le_def item_ok_def)
  qed
qed (use assms get_keeps get_claimed_keeps claim_step_keeps keeps_refl in auto)

text \<open>So every step of every interleaving keeps the items.\<close>

lemma outbox_step_keeps:
  assumes "outbox_step K (c, ds) (c', ds')" and "outbox_ok K c" and "\<forall>d \<in> set ds. delivery_ok c d"
  shows "outbox_keeps K c c' \<and> (\<forall>d \<in> set ds'. delivery_ok c' d)"
proof -
  have others: "\<forall>d \<in> set ds. delivery_ok x d" if "outbox_keeps K c x" for x
    using that assms(3) delivery_ok_le unfolding outbox_keeps_def by blast
  from assms(1) show ?thesis
  proof cases
    case (deliver n d)
    then have "n < length ds" "delivery_ok c (ds ! n)" using assms(3) by auto
    with deliver_keeps [OF deliver(3) assms(2)] have "outbox_keeps K c c'" "delivery_ok c' d" by auto
    with others show ?thesis unfolding deliver(1) by (auto dest!: subsetD [OF set_update_subset_insert])
  next
    case (enqueue cmd now r)
    from enqueue_keeps [OF enqueue(3) assms(2) enqueue(2)] others enqueue(1) show ?thesis by blast
  next
    case (claim_next now owner leaseDuration r)
    from claim_next_keeps [OF claim_next(2) assms(2)] others claim_next(1) show ?thesis by blast
  next
    case (requeue outboxID reason now r)
    from requeue_keeps [OF requeue(2) assms(2)] others requeue(1) show ?thesis by blast
  next
    case (resolve outboxID outcome reason ref now r)
    from resolve_keeps [OF resolve(2) assms(2)] others resolve(1) show ?thesis by blast
  next
    case (evidence ev r)
    from evidence_keeps [OF evidence(2) assms(2)] others evidence(1) show ?thesis by blast
  qed (use assms(2) keeps_refl keeps_elapse others in auto)
qed

lemma outbox_run_keeps:
  assumes "outbox_run K (c, ds) (c', ds')" and "outbox_ok K c" and "\<forall>d \<in> set ds. delivery_ok c d"
  shows "outbox_keeps K c c' \<and> (\<forall>d \<in> set ds'. delivery_ok c' d)"
  using assms(1)
proof (induction rule: rtranclp_induct2)
  case refl
  with assms show ?case by (simp add: keeps_refl)
next
  case (step c1 ds1 c2 ds2)
  then have "outbox_ok K c1" by (simp add: outbox_keeps_def)
  with outbox_step_keeps [OF step(2)] step(3) show ?case by (blast intro: keeps_trans)
qed

lemma outbox_ok_empty: "cn_outbox c = None \<Longrightarrow> sound_env K (cn_env c) \<Longrightarrow> outbox_ok K c"
  by (simp add: outbox_ok_def item_of_def payload_of_def outbox_reset_def)

text \<open>
  C27: a command is enqueued once and its item is permanent. In every interleaving of workers, operators and
  enqueuing callers, with any failures of the file that leave it as it was, once a command was accepted its item
  stays in the outbox with the same connector, action, target and payload and its receipts are never removed;
  every later command with the same dedupe key is answered with that item, marked as a duplicate, and stores
  nothing. The identifiers of the used keys are assumed not to collide.
\<close>

theorem outbox_items_permanent:
  assumes "cn_outbox c0 = None" and "sound_env K (cn_env c0)" and "outbox_run K (c0, []) (c1, ds1)"
    and "outboxDedupeKey (cn_env c0) cmd1 \<in> K" and "store_EnqueueCommand cmd1 now1 c1 = (Inr (item1, dup1), c2)"
    and "outbox_run K (c2, ds1) (c3, ds3)"
    and "outboxDedupeKey (cn_env c0) cmd2 = outboxDedupeKey (cn_env c0) cmd1" and "store_EnqueueCommand cmd2 now2 c3 = (Inr (item2, dup2), c4)"
  shows "dup2 \<and> item_core item2 = item_core item1 \<and> cn_outbox c4 = cn_outbox c3 \<and> (\<forall>i. prefix (receipts_of i c2) (receipts_of i c3))"
proof -
  have 1: "outbox_keeps K c0 c1" "\<forall>d \<in> set ds1. delivery_ok c1 d"
    using outbox_run_keeps [OF assms(3) outbox_ok_empty [OF assms(1,2)]] by simp_all
  then have ok1: "outbox_ok K c1" and env1: "cn_env c1 = cn_env c0" by (simp_all add: outbox_keeps_def outbox_le_def)
  have 2: "outbox_keeps K c1 c2" by (rule enqueue_keeps [OF assms(5) ok1]) (simp add: env1 assms(4))
  then have ok2: "outbox_ok K c2" and env2: "cn_env c2 = cn_env c0" by (simp_all add: outbox_keeps_def outbox_le_def env1)
  have "\<forall>d \<in> set ds1. delivery_ok c2 d" using 1(2) 2 delivery_ok_le unfolding outbox_keeps_def by blast
  from outbox_run_keeps [OF assms(6) ok2 this] have 3: "outbox_keeps K c2 c3" by simp
  then have ok3: "outbox_ok K c3" and env3: "cn_env c3 = cn_env c0" by (simp_all add: outbox_keeps_def outbox_le_def env2)
  let ?i = "outbox_id (cn_env c0) (outboxDedupeKey (cn_env c0) cmd1)"
  have first: "item_of ?i c2 = Some item1"
    using assms(5) ok1
  proof (cases rule: enqueue_cases)
    case (repeated i)
    with outbox_okD(5) [OF ok1, of _ i] assms(4) show ?thesis by (auto simp: env1)
  next
    case (fresh now')
    then show ?thesis by (simp add: env1 put_item_def)
  qed simp
  then obtain item3 where item3: "item_of ?i c3 = Some item3" "item_core item3 = item_core item1"
    using 3 unfolding outbox_keeps_def outbox_le_def by blast
  then have key3: "go_lookup (fo_ByDedupe (payload_of c3)) (outboxDedupeKey (cn_env c0) cmd1) = Some ?i"
    using outbox_okD(5) [OF ok3 assms(4)] by (simp add: env3)
  have "item2 = item3 \<and> dup2 \<and> c4 = elapse c3"
    using assms(8) ok3 by (cases rule: enqueue_cases) (use key3 item3 in \<open>simp_all add: env3 assms(7)\<close>)
  with item3(2) 3 show ?thesis by (simp add: outbox_keeps_def outbox_le_def)
qed


section \<open>Workers that do not overlap\<close>

definition is_open :: "ConnectorOutboxItem \<Rightarrow> bool" where
  "is_open item \<longleftrightarrow> oi_Status item \<in> {OutboxStatusQueued, OutboxStatusRetrying}"

definition executions :: "string \<Rightarrow> ConnectorAction list \<Rightarrow> nat" where
  "executions i acts = length (filter (\<lambda>a. ca_OutboxID a = i) acts)"

definition fault_free :: "connector_env \<Rightarrow> bool" where
  "fault_free env \<longleftrightarrow> (\<forall>n. first_error [io_lock (ce_io env n), io_load (ce_io env n), io_prepare (ce_io env n), io_rename (ce_io env n)] = None)"

lemma executions_simps [simp]: "executions i [] = 0" "executions i (xs @ ys) = executions i xs + executions i ys"
  "executions i [a] = (if ca_OutboxID a = i then 1 else 0)"
  by (simp_all add: executions_def)

lemma eligible_open: "deliveryEligible item now \<Longrightarrow> is_open item"
  by (auto simp: deliveryEligible_def is_open_def split: if_splits)

lemma open_parts [simp]:
  "is_open (lease_item env owner d now item) = is_open item" "oi_AttemptCount (lease_item env owner d now item) = oi_AttemptCount item"
  "oi_AttemptCount (clear_lease now item) = oi_AttemptCount item" "oi_LeaseID (clear_lease now item) = []"
  "oi_LeaseID (result_item item receipt) = []" "oi_AttemptCount (result_item item receipt) = dr_Attempt receipt"
  by (simp_all add: is_open_def item_parts)

lemma open_result: "is_open (result_item item receipt) \<Longrightarrow> dr_Status receipt = DeliveryStatusRetrying"
  by (auto simp: is_open_def item_parts split: if_splits)

text \<open>
  What one operation may do to an item, with \<open>k\<close> executions of it: nothing, an attempt that is recorded, or a
  lease and perhaps an attempt that could not be recorded.
\<close>

definition item_moved :: "bool \<Rightarrow> nat \<Rightarrow> ConnectorOutboxItem \<Rightarrow> ConnectorOutboxItem \<Rightarrow> bool" where
  "item_moved clean k old item \<longleftrightarrow>
     (item = old \<and> k = 0) \<or>
     (is_open old \<and> k \<le> 1 \<and> (is_open item \<or> oi_LeaseID item = []) \<and>
       ((oi_AttemptCount item = oi_AttemptCount old + 1 \<and> (is_open item \<longrightarrow> oi_AttemptCount item < defaultMaxDeliveryAttempts)) \<or>
        (oi_AttemptCount item = oi_AttemptCount old \<and> is_open item \<and> (clean \<longrightarrow> k = 0))))"

definition outbox_moved :: "connector \<Rightarrow> connector \<Rightarrow> bool" where
  "outbox_moved c0 c \<longleftrightarrow> cn_env c = cn_env c0 \<and> (\<exists>acts. cn_executed c = cn_executed c0 @ acts \<and>
     (\<forall>j. case item_of j c0 of
        None \<Rightarrow> item_of j c = None \<and> executions j acts = 0
      | Some old \<Rightarrow> (\<exists>item. item_of j c = Some item \<and> item_moved (fault_free (cn_env c0)) (executions j acts) old item)))"

definition leases_ok :: "connector \<Rightarrow> bool" where
  "leases_ok c \<longleftrightarrow> (\<forall>j item. item_of j c = Some item \<longrightarrow> is_open item \<or> oi_LeaseID item = [])"

text \<open>A leased item and the actions its worker has run.\<close>

definition leased :: "connector \<Rightarrow> connector \<Rightarrow> ConnectorOutboxItem \<Rightarrow> ConnectorAction list \<Rightarrow> bool" where
  "leased c0 c item acts \<longleftrightarrow> cn_env c = cn_env c0 \<and> cn_executed c = cn_executed c0 @ acts \<and> is_open item \<and> oi_OutboxID item \<noteq> [] \<and>
     (\<exists>old. item_of (oi_OutboxID item) c0 = Some old \<and> is_open old \<and> oi_AttemptCount old = oi_AttemptCount item) \<and>
     (\<forall>j. item_of j c = (if j = oi_OutboxID item then Some item else item_of j c0))"

fun stage_ok :: "connector \<Rightarrow> delivery \<Rightarrow> connector \<Rightarrow> bool" where
  "stage_ok c0 (Refuse item receipt err) c \<longleftrightarrow> idle c0 c \<and> item_of (oi_OutboxID item) c0 = Some item"
| "stage_ok c0 (Run item now) c \<longleftrightarrow> leased c0 c item []"
| "stage_ok c0 (Report item receipt err) c \<longleftrightarrow> (\<exists>acts. leased c0 c item acts \<and> acts \<in> {[], [action_of item]} \<and>
     dr_OutboxID receipt = oi_OutboxID item \<and> dr_ReceiptID receipt \<noteq> [] \<and> dr_Attempt receipt = oi_AttemptCount item + 1 \<and>
     (dr_Status receipt = DeliveryStatusRetrying \<longrightarrow> oi_AttemptCount item + 1 < defaultMaxDeliveryAttempts))"
| "stage_ok c0 (Finished receipt err) c \<longleftrightarrow> outbox_moved c0 c"
| "stage_ok c0 _ c \<longleftrightarrow> idle c0 c"

lemma item_moved_refl [simp]: "item_moved clean 0 item item"
  by (simp add: item_moved_def)

lemma moved_items:
  assumes "cn_env c = cn_env c0" and "cn_executed c = cn_executed c0" and "\<And>j. item_of j c = item_of j c0"
  shows "outbox_moved c0 c"
  unfolding outbox_moved_def using assms by (intro conjI exI [of _ "[]"]) (auto split: option.split)

lemma moved_idle: "idle c0 c \<Longrightarrow> outbox_moved c0 c"
  by (rule moved_items) (simp_all add: idleD)

lemma moved_put:
  assumes "cn_env c = cn_env c0" and "cn_executed c = cn_executed c0 @ acts" and "item_of i c0 = Some old"
    and "\<And>j. item_of j c = (if j = i then Some item else item_of j c0)" and "\<And>j. j \<noteq> i \<Longrightarrow> executions j acts = 0"
    and "item_moved (fault_free (cn_env c0)) (executions i acts) old item"
  shows "outbox_moved c0 c"
  unfolding outbox_moved_def using assms
  by (intro conjI exI [of _ acts] allI) (auto split: option.split)

lemma executions_action: "acts \<in> {[], [action_of item]} \<Longrightarrow> j \<noteq> oi_OutboxID item \<Longrightarrow> executions j acts = 0"
  "acts \<in> {[], [action_of item]} \<Longrightarrow> executions j acts \<le> 1"
  by (auto simp: action_of_def)

lemma record_fault_free:
  assumes "RecordDelivery item receipt c = (r, c')" and "fault_free (cn_env c)" and "\<not> ce_windows (cn_env c)"
    and "oi_OutboxID item \<noteq> []" "dr_ReceiptID receipt \<noteq> []" "dr_OutboxID receipt = oi_OutboxID item" "item_of (oi_OutboxID item) c \<noteq> None"
  shows "r = Inr ()"
  using assms by (auto simp: RecordDelivery_def outbox_op_eq Let_def fault_free_def record_item_def item_of_def split: option.splits)


lemma outbox_id_nonempty: "item_of i c = Some item \<Longrightarrow> outbox_ok K c \<Longrightarrow> i \<noteq> []"
  using outbox_okD(3) [of K c i item] by (auto simp: outbox_id_def stableOpaqueID_def)

lemma stage_delivery_ok: "stage_ok c0 d c \<Longrightarrow> delivery_ok c d"
  by (cases d) (auto simp: item_ok_def leased_def idleD)

lemma leased_self:
  assumes "idle c0 c" and "outbox_ok K c0" and "item_of i c0 = Some item" and "is_open item"
  shows "leased c0 c item []"
  using assms outbox_okD(2) [OF assms(2,3)] outbox_id_nonempty [OF assms(3,2)] by (auto simp: leased_def idleD)

lemma stage_get:
  assumes "deliver (Get i) c = (d', c')" and "outbox_ok K c" and "idle c0 c"
  shows "stage_ok c0 d' c'"
proof -
  obtain r c1 where get: "GetOutboxItem i c = (r, c1)" by (rule prod.exhaust)
  from get assms(2) show ?thesis
  proof (cases rule: get_cases)
    case (failed err)
    with assms(1,3) get show ?thesis by (auto intro!: moved_idle)
  next
    case (found item)
    with assms(1) get have "read_item i item (elapse c) = (d', c')" by simp
    then show ?thesis
      by (cases rule: read_item_cases)
        (use found(2) outbox_okD(2) [OF assms(2) found(2)] assms(3) in \<open>auto simp: idle_def idleD [OF assms(3)]\<close>)
  qed
qed

lemma stage_get_claimed:
  assumes "deliver (GetClaimed claimed) c = (d', c')" and "outbox_ok K c" and "idle c0 c" and "leases_ok c0" and "outbox_ok K c0"
  shows "stage_ok c0 d' c'"
proof (cases "oi_OutboxID claimed = []")
  case True
  with assms(1,3) show ?thesis by (auto intro: moved_idle)
next
  case False
  obtain r c1 where get: "GetOutboxItem (oi_OutboxID claimed) c = (r, c1)" by (rule prod.exhaust)
  from get assms(2) show ?thesis
  proof (cases rule: get_cases)
    case (failed err)
    with assms(1,3) get False show ?thesis by (auto intro!: moved_idle)
  next
    case (found item)
    then have item: "item_of (oi_OutboxID claimed) c0 = Some item" by (simp add: idleD [OF assms(3)])
    from found assms(1) get False have "read_claimed claimed item (elapse c) = (d', c')" by simp
    then show ?thesis
    proof (cases rule: read_claimed_cases)
      case (refused receipt err)
      moreover have "idle c0 c'" using refused(2) assms(3) by (simp add: idle_def)
      ultimately show ?thesis using outbox_okD(2) [OF assms(5) item] item by simp
    next
      case (run now)
      have "is_open item" using run(3) assms(4) item by (auto simp: leases_ok_def)
      moreover have "idle c0 c'" using run(2) assms(3) by (simp add: idle_def)
      ultimately show ?thesis using run(1) leased_self [OF _ assms(5) item] by simp
    qed
  qed
qed

lemma stage_claim:
  assumes "deliver (Claim i now) c = (d', c')" and "outbox_ok K c" and "idle c0 c"
  shows "stage_ok c0 d' c'"
  using assms(1,2)
proof (cases rule: claim_step_cases)
  case (failed err)
  with assms(3) show ?thesis by (auto intro!: moved_idle simp: idle_def)
next
  case (refused item receipt err)
  with assms(3) outbox_okD(2) [OF assms(2) refused(3)] show ?thesis by (auto simp: idle_def idleD [OF assms(3)])
next
  case (claimed item now')
  let ?item = "lease_item (cn_env c) defaultDeliveryLeaseOwner defaultDeliveryLeaseTTL now' item"
  have "oi_OutboxID item = i" "i \<noteq> []" using claimed(1) outbox_okD(2) [OF assms(2)] outbox_id_nonempty [OF _ assms(2)] by auto
  moreover have "item_of j c' = (if j = oi_OutboxID item then Some ?item else item_of j c0)" for j
    unfolding claimed(4) using idleD [OF assms(3)] by (simp add: put_item_def item_of_def)
  ultimately have "leased c0 c' ?item []"
    using claimed eligible_open [OF claimed(2)] idleD [OF assms(3)] by (simp add: leased_def)
  then show ?thesis unfolding claimed(3) by simp
qed

lemma stage_run:
  assumes "deliver (Run item now) c = (d', c')" and "leased c0 c item []"
  shows "stage_ok c0 d' c'"
proof -
  from assms(1) have "executeLeasedOutboxItem item now c = (d', c')" by simp
  then show ?thesis
  proof (rule execute_cases)
    fix receipt err acts
    assume d': "d' = Report item receipt err" "dr_OutboxID receipt = oi_OutboxID item" "dr_ReceiptID receipt \<noteq> []"
      "dr_Attempt receipt = oi_AttemptCount item + 1"
      "dr_Status receipt = DeliveryStatusRetrying \<Longrightarrow> oi_AttemptCount item + 1 < defaultMaxDeliveryAttempts"
      "acts = [] \<or> acts = [action_of item]" and idle: "idle (c\<lparr>cn_executed := cn_executed c @ acts\<rparr>) c'"
    have "item_of j c' = item_of j c" "cn_env c' = cn_env c" "cn_executed c' = cn_executed c @ acts" for j
      using idle by (simp_all add: idle_def item_of_def payload_of_def)
    with assms(2) have "leased c0 c' item acts" by (simp add: leased_def)
    with d' show ?thesis by auto
  qed
qed

lemma stage_report:
  assumes "deliver (Report item receipt err) c = (d', c')" and "outbox_ok K c" and "stage_ok c0 (Report item receipt err) c"
  shows "stage_ok c0 d' c'"
proof -
  obtain acts where l: "leased c0 c item acts" and acts: "acts \<in> {[], [action_of item]}"
    and receipt: "dr_OutboxID receipt = oi_OutboxID item" "dr_ReceiptID receipt \<noteq> []" "dr_Attempt receipt = oi_AttemptCount item + 1"
      "dr_Status receipt = DeliveryStatusRetrying \<longrightarrow> oi_AttemptCount item + 1 < defaultMaxDeliveryAttempts"
    using assms(3) by auto
  obtain r where rec: "RecordDelivery (result_item item receipt) receipt c = (r, c')" and d': "\<exists>e. d' = Finished receipt e"
    using assms(1) by (auto simp: recordResult_def split: prod.splits sum.splits)
  obtain old where old: "item_of (oi_OutboxID item) c0 = Some old" "is_open old" "oi_AttemptCount old = oi_AttemptCount item"
    using l by (auto simp: leased_def)
  from rec assms(2) have "outbox_moved c0 c'"
  proof (cases rule: record_cases)
    case (kept err)
    have "\<not> fault_free (cn_env c0)"
      using record_fault_free [OF rec] kept(2) l receipt outbox_okD(1) [OF assms(2)] by (auto simp: leased_def)
    moreover have "cn_env c' = cn_env c0" "cn_executed c' = cn_executed c0 @ acts"
      "\<And>j. item_of j c' = (if j = oi_OutboxID item then Some item else item_of j c0)" "is_open item"
      using kept(1) l by (auto simp: leased_def)
    ultimately show ?thesis
      by (intro moved_put [where i = "oi_OutboxID item" and old = old and item = item])
        (use old executions_action [OF acts] in \<open>auto simp: item_moved_def\<close>)
  next
    case (recorded stored)
    have "cn_env c' = cn_env c0" "cn_executed c' = cn_executed c0 @ acts"
      "\<And>j. item_of j c' = (if j = oi_OutboxID item then Some (result_item item receipt) else item_of j c0)"
      unfolding recorded(4) using l by (auto simp: leased_def put_item_def add_receipt_def item_of_def)
    then show ?thesis
      by (rule moved_put [where i = "oi_OutboxID item" and old = old, OF _ _ old(1)])
        (use old receipt executions_action [OF acts] open_result [of item receipt] in \<open>auto simp: item_moved_def\<close>)
  qed
  with d' show ?thesis by auto
qed


lemma deliver_stage:
  assumes "deliver d c = (d', c')" and "outbox_ok K c" and "stage_ok c0 d c" and "outbox_ok K c0" and "leases_ok c0"
  shows "stage_ok c0 d' c'"
proof (cases d)
  case (Refuse item receipt err)
  then have idle: "idle c0 c" and item: "item_of (oi_OutboxID item) c0 = Some item" using assms(3) by simp_all
  obtain r where rec: "RecordDelivery item receipt c = (r, c')" and d': "\<exists>e. d' = Finished receipt e"
    using assms(1) Refuse by (auto split: prod.splits sum.splits)
  from rec assms(2) have "outbox_moved c0 c'"
  proof (cases rule: record_cases)
    case (kept err)
    with idle show ?thesis by (auto intro!: moved_idle)
  next
    case (recorded old)
    have "item_of j c' = item_of j c0" for j
      unfolding recorded(4) using idle item by (simp add: put_item_def add_receipt_def idleD flip: item_of_def)
    then show ?thesis by (intro moved_items) (simp_all add: recorded(4) idleD [OF idle])
  qed
  with d' show ?thesis by auto
next
  case (Get i)
  then show ?thesis using assms stage_get by simp
next
  case (GetClaimed claimed)
  then show ?thesis using assms stage_get_claimed by simp
next
  case (Claim i now)
  then show ?thesis using assms stage_claim by simp
next
  case (Run item now)
  then show ?thesis using assms stage_run by simp
next
  case (Report item receipt err)
  then show ?thesis using assms stage_report by metis
next
  case (Finished receipt err)
  then show ?thesis using assms by simp
qed

text \<open>So a delivery that is not interrupted moves one item.\<close>

lemma finish_step: "\<nexists>receipt err. d = Finished receipt err \<Longrightarrow> finish d c = (case deliver d c of (d, c) \<Rightarrow> finish d c)"
  by (subst finish.simps) (cases d; simp del: deliver.simps)

lemma finish_stage:
  assumes "finish d c = (r, c')" and "outbox_ok K c" and "stage_ok c0 d c" and "outbox_ok K c0" and "leases_ok c0"
  shows "outbox_ok K c' \<and> outbox_moved c0 c'"
  using assms
proof (induction "steps_left d" arbitrary: d c rule: less_induct)
  case less
  show ?case
  proof (cases "\<exists>receipt err. d = Finished receipt err")
    case True
    with less.prems show ?thesis by (auto simp: finish.simps)
  next
    case False
    obtain d1 c1 where step: "deliver d c = (d1, c1)" by (rule prod.exhaust)
    have run: "finish d1 c1 = (r, c')"
      using less.prems(1) False step by (simp add: finish_step del: deliver.simps)
    have closer: "steps_left d1 < steps_left d" using steps_left_deliver [of d c] False step by (cases d) (simp_all del: deliver.simps)
    have ok1: "outbox_ok K c1"
      using deliver_keeps [OF step less.prems(2) stage_delivery_ok [OF less.prems(3)]] by (simp add: outbox_keeps_def)
    show ?thesis by (rule less.hyps [OF closer run ok1 deliver_stage [OF step less.prems(2-5)] less.prems(4,5)])
  qed
qed

text \<open>One operation at a time; the number counts the times the item was put back into the queue.\<close>

inductive delivery_op :: "string set \<Rightarrow> string \<Rightarrow> connector \<Rightarrow> nat \<Rightarrow> connector \<Rightarrow> bool" for K i where
  enqueue: "outboxDedupeKey (cn_env c) cmd \<in> K \<Longrightarrow> EnqueueCommand cmd c = (r, c') \<Longrightarrow> delivery_op K i c 0 c'"
| execute: "ExecuteOutboxItem j c = (p, c') \<Longrightarrow> delivery_op K i c 0 c'"
| claim_next: "ClaimNextOutboxItem owner leaseDuration c = (q, c') \<Longrightarrow> delivery_op K i c 0 c'"
| execute_claimed: "ExecuteClaimedOutboxItem claimed c = (p, c') \<Longrightarrow> delivery_op K i c 0 c'"
| requeue: "RequeueOutboxItem j reason c = (s, c') \<Longrightarrow> delivery_op K i c (if j = i then 1 else 0) c'"
| resolve: "ResolveRecoveryRequiredOutboxItem j outcome reason ref c = (s, c') \<Longrightarrow> delivery_op K i c 0 c'"
| probe: "ProbeRecoveryRequiredOutboxItem j lookup c = (t, c') \<Longrightarrow> delivery_op K i c 0 c'"

inductive delivery_run :: "string set \<Rightarrow> string \<Rightarrow> connector \<Rightarrow> nat \<Rightarrow> connector \<Rightarrow> bool" for K i c where
  stay: "delivery_run K i c 0 c"
| step: "delivery_run K i c n c1 \<Longrightarrow> delivery_op K i c1 m c2 \<Longrightarrow> delivery_run K i c (n + m) c2"

definition item_inv :: "string \<Rightarrow> nat \<Rightarrow> connector \<Rightarrow> bool" where
  "item_inv i n c \<longleftrightarrow>
     (case item_of i c of
        None \<Rightarrow> executions i (cn_executed c) = 0
      | Some item \<Rightarrow> 0 \<le> oi_AttemptCount item \<and> oi_AttemptCount item \<le> 3 + int n \<and> (is_open item \<longrightarrow> oi_AttemptCount item \<le> 2 + int n) \<and>
          (fault_free (cn_env c) \<longrightarrow> int (executions i (cn_executed c)) \<le> oi_AttemptCount item))"

text \<open>What an operation with \<open>m\<close> returns to the queue does to an item.\<close>

definition item_step :: "nat \<Rightarrow> nat \<Rightarrow> ConnectorOutboxItem \<Rightarrow> ConnectorOutboxItem \<Rightarrow> bool" where
  "item_step m k old item \<longleftrightarrow> (oi_Status old = OutboxStatusSent \<longrightarrow> item = old \<and> k = 0) \<and> (\<not> is_open old \<and> m = 0 \<longrightarrow> \<not> is_open item \<and> k = 0)"

definition outbox_inv :: "string set \<Rightarrow> string \<Rightarrow> nat \<Rightarrow> connector \<Rightarrow> bool" where
  "outbox_inv K i n c \<longleftrightarrow> outbox_ok K c \<and> leases_ok c \<and> item_inv i n c"

definition op_ok :: "string set \<Rightarrow> string \<Rightarrow> nat \<Rightarrow> nat \<Rightarrow> connector \<Rightarrow> connector \<Rightarrow> bool" where
  "op_ok K i n m c c' \<longleftrightarrow> outbox_inv K i (n + m) c' \<and> cn_env c' = cn_env c \<and>
     (\<exists>k. executions i (cn_executed c') = executions i (cn_executed c) + k \<and>
        (\<forall>old. item_of i c = Some old \<longrightarrow> (\<exists>item. item_of i c' = Some item \<and> item_step m k old item)))"

lemma moved_op_ok:
  assumes "outbox_moved c c'" and "outbox_inv K i n c" and "outbox_ok K c'"
  shows "op_ok K i n 0 c c'"
proof -
  obtain acts where env: "cn_env c' = cn_env c" and acts: "cn_executed c' = cn_executed c @ acts"
    and items: "\<And>j. case item_of j c of None \<Rightarrow> item_of j c' = None \<and> executions j acts = 0
        | Some old \<Rightarrow> (\<exists>item. item_of j c' = Some item \<and> item_moved (fault_free (cn_env c)) (executions j acts) old item)"
    using assms(1) unfolding outbox_moved_def by blast
  have "leases_ok c'"
    unfolding leases_ok_def
  proof (intro allI impI)
    fix j item assume item: "item_of j c' = Some item"
    with items [of j] obtain old where old: "item_of j c = Some old" "item_moved (fault_free (cn_env c)) (executions j acts) old item"
      by (auto split: option.splits)
    with assms(2) show "is_open item \<or> oi_LeaseID item = []" by (auto simp: item_moved_def outbox_inv_def leases_ok_def)
  qed
  moreover have "item_inv i n c'"
    using assms(2) items [of i] acts env
    by (auto simp: outbox_inv_def item_inv_def item_moved_def split: option.splits)
  moreover have "\<exists>item. item_of i c' = Some item \<and> item_step 0 (executions i acts) old item" if "item_of i c = Some old" for old
    using items [of i] that by (auto simp: item_moved_def item_step_def is_open_def)
  ultimately show ?thesis using assms(3) env acts unfolding op_ok_def outbox_inv_def by auto
qed


lemma finish_op_ok:
  assumes "finish d c = (r, c')" and "outbox_inv K i n c" and "stage_ok c d c"
  shows "op_ok K i n 0 c c'"
  using finish_stage [OF assms(1) _ assms(3)] assms(2) by (auto simp: outbox_inv_def intro!: moved_op_ok)

lemma idle_op_ok: "idle c c' \<Longrightarrow> outbox_inv K i n c \<Longrightarrow> op_ok K i n 0 c c'"
  by (rule moved_op_ok [OF moved_idle]) (auto simp: outbox_inv_def dest: idle_keeps simp: outbox_keeps_def)

lemma op_ok_elapse:
  assumes "op_ok K i n m (elapse c) c'"
  shows "op_ok K i n m c c'"
  using assms by (simp add: op_ok_def)

lemma inv_elapse [simp]: "outbox_inv K i n (elapse c) = outbox_inv K i n c"
  by (simp add: outbox_inv_def leases_ok_def item_inv_def split: option.split)

lemma item_inv_more: "item_inv i n c \<Longrightarrow> n \<le> n' \<Longrightarrow> item_inv i n' c"
  by (force simp: item_inv_def split: option.splits)

lemma op_ok_more:
  assumes "op_ok K i n 0 c c'"
  shows "op_ok K i n m c c'"
proof -
  have "item_step 0 k o' it \<Longrightarrow> item_step m k o' it" for k o' it by (auto simp: item_step_def)
  with assms item_inv_more [of i n c' "n + m"] show ?thesis unfolding op_ok_def outbox_inv_def by simp blast
qed

text \<open>An operator changes an item that is not open.\<close>

lemma operator_op_ok:
  assumes "outbox_inv K i n c" and "outbox_keeps K c c'" and "item_of j c = Some old" and "\<not> is_open old"
    and items: "\<And>x. item_of x c' = (if x = j then Some item else item_of x c)"
    and item: "oi_LeaseID item = []" "oi_AttemptCount item = oi_AttemptCount old" "oi_Status old \<noteq> OutboxStatusSent"
    and "is_open item \<Longrightarrow> j = i \<Longrightarrow> m = 1" and same: "cn_executed c' = cn_executed c"
  shows "op_ok K i n m c c'"
proof -
  have env: "cn_env c' = cn_env c" using assms(2) by (simp add: outbox_keeps_def outbox_le_def)
  have "leases_ok c'" unfolding leases_ok_def items using assms(1) item(1) by (auto simp: outbox_inv_def leases_ok_def)
  moreover have "item_inv i (n + m) c'"
  proof (cases "j = i")
    case True
    then show ?thesis using assms(1,3,4,9) item(2) by (auto simp: outbox_inv_def item_inv_def items env same)
  next
    case False
    then have "item_inv i n c'" using assms(1) by (simp add: outbox_inv_def item_inv_def items env same split: option.splits)
    then show ?thesis by (rule item_inv_more) simp
  qed
  moreover have "\<exists>it. item_of i c' = Some it \<and> item_step m 0 o' it" if "item_of i c = Some o'" for o'
    using that assms(3,4,9) item(3) by (auto simp: items item_step_def)
  ultimately show ?thesis using assms(2) env same by (auto simp: op_ok_def outbox_inv_def outbox_keeps_def)
qed

lemma requeue_op_ok:
  assumes "store_RequeueOutboxItem j reason now c = (r, c')" and "outbox_inv K i n c"
  shows "op_ok K i n (if j = i then 1 else 0) c c'"
proof -
  have ok: "outbox_ok K c" using assms(2) by (simp add: outbox_inv_def)
  note keeps = requeue_keeps [OF assms(1) ok]
  from assms(1) ok show ?thesis
  proof (cases rule: requeue_cases)
    case kept
    then have "idle c c'" by auto
    from op_ok_more [OF idle_op_ok [OF this assms(2)]] show ?thesis .
  next
    case (requeued item now' receipt id)
    let ?item = "(clear_lease now' item)\<lparr>oi_Status := OutboxStatusQueued, oi_LastReceiptID := id\<rparr>"
    have "item_of x c' = (if x = j then Some ?item else item_of x c)" for x
      unfolding requeued(3) using outbox_okD(2) [OF ok requeued(1)] by (simp add: put_item_def item_of_def)
    from operator_op_ok [OF assms(2) keeps requeued(1) _ this] requeued(2,3) show ?thesis by (simp add: is_open_def)
  qed
qed

lemma resolve_op_ok:
  assumes "store_ResolveRecoveryRequiredOutboxItem j outcome reason ref now c = (r, c')" and "outbox_inv K i n c"
  shows "op_ok K i n 0 c c'"
proof -
  have ok: "outbox_ok K c" using assms(2) by (simp add: outbox_inv_def)
  note keeps = resolve_keeps [OF assms(1) ok]
  from assms(1) ok show ?thesis
  proof (cases rule: resolve_cases)
    case kept
    then show ?thesis by (intro idle_op_ok [OF _ assms(2)]) auto
  next
    case (resolved item now' receipt id s)
    let ?item = "(clear_lease now' item)\<lparr>oi_Status := s, oi_LastReceiptID := id\<rparr>"
    have "item_of x c' = (if x = j then Some ?item else item_of x c)" for x
      unfolding resolved(4) using outbox_okD(2) [OF ok resolved(1)] by (simp add: put_item_def item_of_def)
    from operator_op_ok [OF assms(2) keeps resolved(1) _ this] resolved(2-4) show ?thesis by (auto simp: is_open_def)
  qed
qed

lemma claim_next_op_ok:
  assumes "store_ClaimNextOutboxItem now owner d c = (r, c')" and "outbox_inv K i n c"
  shows "op_ok K i n 0 c c'"
proof -
  have ok: "outbox_ok K c" using assms(2) by (simp add: outbox_inv_def)
  from assms(1) ok show ?thesis
  proof (cases rule: claim_next_cases)
    case kept
    then show ?thesis by (intro idle_op_ok [OF _ assms(2)]) auto
  next
    case (claimed item now')
    have "item_of x c' = (if x = oi_OutboxID item then Some (lease_item (cn_env c) owner d now' item) else item_of x c)" for x
      unfolding claimed(3) by (simp add: put_item_def item_of_def)
    then have "outbox_moved c c'"
      by (rule moved_put [OF _ _ claimed(1), rotated 2])
        (use claimed(3) eligible_open [OF claimed(2)] in \<open>simp_all add: item_moved_def\<close>)
    with claim_next_keeps [OF assms(1) ok] assms(2) show ?thesis by (intro moved_op_ok) (simp_all add: outbox_keeps_def)
  qed
qed


lemma enqueue_op_ok:
  assumes "store_EnqueueCommand cmd now c = (r, c')" and "outbox_inv K i n c" and "outboxDedupeKey (cn_env c) cmd \<in> K"
  shows "op_ok K i n 0 c c'"
proof -
  have ok: "outbox_ok K c" using assms(2) by (simp add: outbox_inv_def)
  note keeps = enqueue_keeps [OF assms(1) ok assms(3)]
  from assms(1) ok show ?thesis
  proof (cases rule: enqueue_cases)
    case (kept err)
    then show ?thesis by (intro idle_op_ok [OF _ assms(2)]) auto
  next
    case (repeated j)
    then show ?thesis by (intro idle_op_ok [OF _ assms(2)]) simp
  next
    case (fresh now')
    let ?id = "outbox_id (cn_env c) (outboxDedupeKey (cn_env c) cmd)" and ?new = "toOutboxItem (cn_env c) cmd now'"
    have items: "item_of x c' = (if x = ?id then Some ?new else item_of x c)" for x
      unfolding fresh(3) by (simp add: put_item_def item_of_def)
    have none: "item_of ?id c = None" using outbox_okD(5) [OF ok assms(3)] fresh(1) by force
    have same: "cn_env c' = cn_env c" "cn_executed c' = cn_executed c" unfolding fresh(3) by simp_all
    have inv: "outbox_inv K i n c'"
      using assms(2) keeps none
      by (auto simp: outbox_inv_def outbox_keeps_def leases_ok_def item_inv_def items same split: option.splits)
    have "item_of i c' = Some old \<and> item_step 0 0 old old" if "item_of i c = Some old" for old
      using that none by (auto simp: items item_step_def)
    with inv same show ?thesis by (auto simp: op_ok_def)
  qed
qed

lemma evidence_op_ok:
  assumes "RecordReconciliationEvidence ev c = (r, c')" and "outbox_inv K i n c"
  shows "op_ok K i n 0 c c'"
proof -
  have ok: "outbox_ok K c" using assms(2) by (simp add: outbox_inv_def)
  from assms(1) ok have "outbox_moved c c'"
  proof (cases rule: evidence_cases)
    case (stored probes)
    then show ?thesis by (intro moved_items) (simp_all add: item_of_def)
  qed (auto intro: moved_idle)
  with evidence_keeps [OF assms(1) ok] assms(2) show ?thesis by (auto simp: outbox_keeps_def intro: moved_op_ok)
qed

lemma probe_effect:
  assumes "ProbeRecoveryRequiredOutboxItem j lookup c = (t, c')" and "outbox_ok K c"
  shows "idle c c' \<or> (\<exists>c1 ev r. idle c c1 \<and> RecordReconciliationEvidence ev c1 = (r, c'))"
proof -
  obtain q c1 where get: "GetOutboxItem (TrimSpace j) (elapse c) = (q, c1)" by (rule prod.exhaust)
  have "outbox_ok K (elapse c)" using assms(2) by simp
  with get have "idle c c1" by (cases rule: get_cases) (auto simp: idle_def)
  then have idle: "idle c c1" "idle c (c1\<lparr>cn_moment := Suc (cn_moment c1)\<rparr>)" by (simp_all add: idle_def)
  have recorded: "\<exists>r. RecordReconciliationEvidence ev x = (r, y)" if "record_evidence ev err x = (z, y)" for ev err x y z
    using that by (auto simp: record_evidence_def split: prod.splits sum.splits)
  show ?thesis
    using assms(1) get idle unfolding ProbeRecoveryRequiredOutboxItem_def runtime_now_eq Let_def
    by (auto split: if_splits sum.splits option.splits prod.splits dest!: recorded)
qed

lemma delivery_op_ok:
  assumes "delivery_op K i c m c'" and "outbox_inv K i n c"
  shows "op_ok K i n m c c'"
proof -
  have elapsed: "outbox_inv K i n (elapse c)" using assms(2) by simp
  have stay: "op_ok K i n m c c" using op_ok_more [OF idle_op_ok [OF idle_simps(1) assms(2)]] .
  from assms(1) show ?thesis
  proof cases
    case (enqueue cmd r)
    then show ?thesis using enqueue_op_ok [OF _ elapsed] stay
      by (auto simp: EnqueueCommand_def runtime_now_eq intro: op_ok_elapse split: if_splits)
  next
    case (execute j p)
    then show ?thesis using finish_op_ok [OF _ assms(2)] stay by (auto simp: ExecuteOutboxItem_def split: if_splits)
  next
    case (claim_next owner d q)
    then show ?thesis using claim_next_op_ok [OF _ elapsed] stay
      by (auto simp: ClaimNextOutboxItem_def runtime_now_eq intro: op_ok_elapse split: if_splits)
  next
    case (execute_claimed claimed p)
    then show ?thesis using finish_op_ok [OF _ assms(2)] stay by (auto simp: ExecuteClaimedOutboxItem_def split: if_splits)
  next
    case (requeue j reason s)
    from requeue(2) consider "c' = c" | now where "store_RequeueOutboxItem j reason now (elapse c) = (s, c')"
      by (auto simp: RequeueOutboxItem_def runtime_now_eq split: if_splits)
    then show ?thesis
    proof cases
      case (2 now)
      from op_ok_elapse [OF requeue_op_ok [OF this elapsed]] show ?thesis unfolding requeue(1) .
    qed (use stay in simp)
  next
    case (resolve j outcome reason ref s)
    then show ?thesis using resolve_op_ok [OF _ elapsed] stay
      by (auto simp: ResolveRecoveryRequiredOutboxItem_def runtime_now_eq intro: op_ok_elapse split: if_splits)
  next
    case (probe j lookup t)
    have "outbox_ok K c" using assms(2) by (simp add: outbox_inv_def)
    from probe_effect [OF probe(2) this] show ?thesis
    proof
      assume "\<exists>c1 ev r. idle c c1 \<and> RecordReconciliationEvidence ev c1 = (r, c')"
      then obtain c1 ev r where 1: "idle c c1" "RecordReconciliationEvidence ev c1 = (r, c')" by blast
      then have c1: "op_ok K i n 0 c c1" using idle_op_ok assms(2) by blast
      then have "outbox_inv K i n c1" by (simp add: op_ok_def)
      from evidence_op_ok [OF 1(2) this] have "op_ok K i n 0 c1 c'" .
      then show ?thesis unfolding probe(1) using idleD [OF 1(1)] by (simp add: op_ok_def)
    qed (use idle_op_ok [OF _ assms(2)] probe(1) in simp)
  qed
qed

lemma delivery_run_inv:
  assumes "delivery_run K i c n c'" and "outbox_inv K i n0 c"
  shows "outbox_inv K i (n0 + n) c' \<and> cn_env c' = cn_env c"
  using assms(1)
proof (induction rule: delivery_run.induct)
  case (step n c1 m c2)
  with delivery_op_ok [OF step(2), of "n0 + n"] show ?case by (simp add: op_ok_def add.assoc)
qed (use assms(2) in simp)

lemma outbox_inv_empty:
  assumes "cn_outbox c = None" and "cn_executed c = []" and "sound_env K (cn_env c)"
  shows "outbox_inv K i 0 c"
  using outbox_ok_empty [OF assms(1,3)] assms(1,2)
  by (simp add: outbox_inv_def leases_ok_def item_inv_def item_of_def payload_of_def outbox_reset_def)

lemma closed_run:
  assumes "delivery_run K i c n c'" and "outbox_inv K i n0 c" and "item_of i c = Some item" and "\<not> is_open item"
  shows "(oi_Status item = OutboxStatusSent \<longrightarrow> item_of i c' = Some item \<and> executions i (cn_executed c') = executions i (cn_executed c)) \<and>
    (n = 0 \<longrightarrow> (\<exists>item'. item_of i c' = Some item' \<and> \<not> is_open item') \<and> executions i (cn_executed c') = executions i (cn_executed c))"
  using assms(1)
proof (induction rule: delivery_run.induct)
  case stay
  with assms(3,4) show ?case by simp
next
  case (step n c1 m c2)
  have inv: "outbox_inv K i (n0 + n) c1" using delivery_run_inv [OF step(1) assms(2)] by simp
  obtain k where k: "executions i (cn_executed c2) = executions i (cn_executed c1) + k"
    and item: "\<And>old. item_of i c1 = Some old \<Longrightarrow> \<exists>item. item_of i c2 = Some item \<and> item_step m k old item"
    using delivery_op_ok [OF step(2) inv] by (auto simp: op_ok_def)
  show ?case
  proof (intro conjI impI)
    assume "oi_Status item = OutboxStatusSent"
    with step.IH k item [of item] show "item_of i c2 = Some item" "executions i (cn_executed c2) = executions i (cn_executed c)"
      by (auto simp: item_step_def)
  next
    assume "n + m = 0"
    with step.IH obtain old where "item_of i c1 = Some old" "\<not> is_open old" "executions i (cn_executed c1) = executions i (cn_executed c)" by auto
    with item [of old] k \<open>n + m = 0\<close>
    show "\<exists>item'. item_of i c2 = Some item' \<and> \<not> is_open item'" "executions i (cn_executed c2) = executions i (cn_executed c)"
      by (auto simp: item_step_def)
  qed
qed

text \<open>
  C26: what was sent is not sent again. When the operations of the runtime do not overlap, an item that was sent
  is never handed to its adapter again and its record does not change any more, whatever is enqueued, executed,
  claimed, returned to the queue, resolved or probed afterwards and whatever fails; an item that was given up or
  that needs recovery is not handed to its adapter until an operator returns it to the queue.
\<close>

theorem sent_items_stay_sent:
  assumes "cn_outbox c0 = None" and "cn_executed c0 = []" and "sound_env K (cn_env c0)"
    and "delivery_run K i c0 n1 c1" and "delivery_run K i c1 n2 c2"
    and "GetOutboxItem i c1 = (Inr item, c1')" and "oi_Status item \<notin> {OutboxStatusQueued, OutboxStatusRetrying}"
  shows "(oi_Status item = OutboxStatusSent \<longrightarrow>
      item_of i c2 = Some item \<and> executions i (cn_executed c2) = executions i (cn_executed c1)) \<and>
    (n2 = 0 \<longrightarrow> executions i (cn_executed c2) = executions i (cn_executed c1))"
proof -
  have inv: "outbox_inv K i n1 c1" using delivery_run_inv [OF assms(4) outbox_inv_empty [OF assms(1-3)]] by simp
  then have "outbox_ok K c1" by (simp add: outbox_inv_def)
  with assms(6) have "item_of i c1 = Some item" by (cases rule: get_cases) simp_all
  from closed_run [OF assms(5) inv this] assms(7) show ?thesis by (auto simp: is_open_def)
qed

text \<open>
  C28: the attempts of an item are bounded. When operations do not overlap and the file can be read and written,
  the adapter is asked to execute an item at most three times, and once more for each time an operator returned
  it to the queue.
\<close>

theorem delivery_attempts_bounded:
  assumes "cn_outbox c0 = None" and "cn_executed c0 = []" and "sound_env K (cn_env c0)" and "fault_free (cn_env c0)"
    and "delivery_run K i c0 n c"
  shows "executions i (cn_executed c) \<le> 3 + n"
proof -
  have inv: "item_inv i n c" and env: "cn_env c = cn_env c0"
    using delivery_run_inv [OF assms(5) outbox_inv_empty [OF assms(1-3)]] by (simp_all add: outbox_inv_def)
  show ?thesis using inv assms(4) unfolding item_inv_def env by (auto split: option.splits)
qed


section \<open>Workers that overlap\<close>

text \<open>A schedule names the worker that takes the next step.\<close>

fun schedule :: "nat list \<Rightarrow> connector \<times> delivery list \<Rightarrow> connector \<times> delivery list" where
  "schedule [] s = s"
| "schedule (n # ns) (c, ds) = (case deliver (ds ! n) c of (d, c') \<Rightarrow> schedule ns (c', ds[n := d]))"

lemma schedule_run: "\<forall>n \<in> set ns. n < length ds \<Longrightarrow> outbox_run K (c, ds) (schedule ns (c, ds))"
proof (induction ns arbitrary: c ds)
  case (Cons n ns)
  obtain d c' where step: "deliver (ds ! n) c = (d, c')" by (rule prod.exhaust)
  with Cons.prems have "outbox_step K (c, ds) (c', ds[n := d])" by (auto intro: outbox_step.deliver)
  moreover have "outbox_run K (c', ds[n := d]) (schedule ns (c', ds[n := d]))" using Cons by auto
  ultimately show ?case using step by (simp add: converse_rtranclp_into_rtranclp)
qed simp

text \<open>
  A runtime in which nothing fails and the adapter sends whatever it is given. Its clock passes the expiry of
  the leases that are taken in the first twelve moments.
\<close>

definition sample_io :: store_io where
  "sample_io = \<lparr>io_lock = None, io_load = None, io_prepare = None, io_rename = None, io_remove = None, io_rename2 = None, io_wall = 1\<rparr>"

definition sample_connector_env :: connector_env where
  "sample_connector_env = \<lparr>ce_sum = id, ce_format = (\<lambda>now. ''t''), ce_order = id, ce_windows = False, ce_io = (\<lambda>n. sample_io),
     ce_now = (\<lambda>n. if n < 12 then 1 else 1000000000000), ce_store = True,
     ce_adapters = (\<lambda>connector. Some (\<lambda>action moment. (no_result\<lparr>ar_Status := DeliveryStatusSent\<rparr>, None))), ce_probes = (\<lambda>connector. None)\<rparr>"

definition sample_connector :: connector where
  "sample_connector = \<lparr>cn_env = sample_connector_env, cn_moment = 0, cn_outbox = None, cn_executed = []\<rparr>"

definition sample_command :: AppCommand where
  "sample_command = \<lparr>ac_CommandID = ''c'', ac_Kind = ''k'', ac_TargetRef = \<lparr>xt_Connector = ''x'', xt_Kind = ''k'', xt_ExternalID = ''e'', xt_Display = [],
     xt_Metadata = []\<rparr>, ac_Body = ''b'', ac_ResourceRefs = [], ac_RequiresConfirmation = False, ac_DedupeKey = ''d'', ac_Metadata = [], ac_CreatedAt = 0\<rparr>"

definition sample_key :: string where "sample_key = outboxDedupeKey sample_connector_env sample_command"
definition sample_id :: string where "sample_id = outbox_id sample_connector_env sample_key"
definition sample_enqueued :: connector where "sample_enqueued = snd (EnqueueCommand sample_command sample_connector)"

lemma sample_sound: "sound_env {sample_key} sample_connector_env" "fault_free sample_connector_env"
  by (simp_all add: sound_env_def sample_connector_env_def permutes_keys_def fault_free_def sample_io_def)


definition race_sent :: "connector \<times> delivery list" where
  "race_sent = schedule [0, 0, 1, 0, 0] (sample_enqueued, [Get sample_id, Get sample_id, Get sample_id])"

lemma sample_enqueued_run: "outbox_run {sample_key} (sample_connector, []) (sample_enqueued, [Get sample_id, Get sample_id, Get sample_id])"
proof -
  have "sample_enqueued = snd (store_EnqueueCommand sample_command 1 (elapse sample_connector))"
    unfolding sample_enqueued_def EnqueueCommand_def runtime_now_eq Let_def prod.case by (simp add: sample_connector_def sample_connector_env_def)
  then obtain r where "store_EnqueueCommand sample_command 1 (elapse sample_connector) = (r, sample_enqueued)" by (metis prod.collapse)
  then have "outbox_step {sample_key} (elapse sample_connector, []) (sample_enqueued, [])"
    by (auto intro!: outbox_step.enqueue simp: sample_key_def sample_connector_def elapse_def)
  moreover have "outbox_step {sample_key} (sample_connector, []) (elapse sample_connector, [])" by (rule outbox_step.wait)
  moreover have "outbox_step {sample_key} (sample_enqueued, ds) (sample_enqueued, ds @ [Get sample_id])" for ds by (rule outbox_step.begin_get)
  from this [of "[]"] this [of "[Get sample_id]"] this [of "[Get sample_id, Get sample_id]"]
  have "outbox_run {sample_key} (sample_enqueued, []) (sample_enqueued, [Get sample_id, Get sample_id, Get sample_id])"
    by (auto intro: rtranclp.intros)
  ultimately show ?thesis by (meson converse_rtranclp_into_rtranclp)
qed

lemma race_first:
  "map_option oi_Status (item_of sample_id (fst race_sent)) = Some OutboxStatusSent \<and> executions sample_id (cn_executed (fst race_sent)) = 1 \<and>
   length (snd race_sent) = 3"
  by code_simp

lemma race_second: "executions sample_id (cn_executed (fst (schedule [1, 2, 2, 2] race_sent))) = 2"
  by code_simp

text \<open>
  C30: overlapping workers deliver twice. A worker that finds the lease of another one active records that it did
  not try, and with that record it stores the item as it read it before. In a run without any failure, where
  the adapter sends what it is given, this puts an item that was sent back into the queue with its old lease, and
  when the lease has expired the item is handed to the adapter a second time.
\<close>

theorem delivery_race_resends:
  "\<exists>K c0 c1 ds1 c2 ds2 i item. cn_outbox c0 = None \<and> cn_executed c0 = [] \<and> sound_env K (cn_env c0) \<and> fault_free (cn_env c0) \<and>
     outbox_run K (c0, []) (c1, ds1) \<and> item_of i c1 = Some item \<and> oi_Status item = OutboxStatusSent \<and>
     outbox_run K (c1, ds1) (c2, ds2) \<and> executions i (cn_executed c1) = 1 \<and> executions i (cn_executed c2) = 2"
proof -
  obtain c1 ds1 where 1: "race_sent = (c1, ds1)" by (rule prod.exhaust)
  obtain c2 ds2 where 2: "schedule [1, 2, 2, 2] race_sent = (c2, ds2)" by (rule prod.exhaust)
  have "outbox_run {sample_key} (sample_enqueued, [Get sample_id, Get sample_id, Get sample_id]) race_sent"
    unfolding race_sent_def by (rule schedule_run) simp
  with sample_enqueued_run have "outbox_run {sample_key} (sample_connector, []) (c1, ds1)" unfolding 1 by (rule rtranclp_trans)
  moreover have "outbox_run {sample_key} (c1, ds1) (c2, ds2)"
    using schedule_run [of "[1, 2, 2, 2]" ds1 "{sample_key}" c1] race_first 2 unfolding 1 by simp
  moreover obtain item where "item_of sample_id c1 = Some item" "oi_Status item = OutboxStatusSent"
    using race_first unfolding 1 by auto
  moreover have "executions sample_id (cn_executed c1) = 1" "executions sample_id (cn_executed c2) = 2"
    using race_first race_second unfolding 1 2 [unfolded 1] by simp_all
  moreover have "cn_outbox sample_connector = None" "cn_executed sample_connector = []" "cn_env sample_connector = sample_connector_env"
    by (simp_all add: sample_connector_def)
  ultimately show ?thesis using sample_sound by metis
qed

section \<open>Witnesses\<close>

definition sample_delivered :: connector where "sample_delivered = snd (ExecuteOutboxItem sample_id sample_enqueued)"

lemma sample_runs:
  "delivery_run {sample_key} sample_id sample_connector 0 sample_delivered"
  "delivery_run {sample_key} sample_id sample_delivered 0 (snd (ExecuteOutboxItem sample_id sample_delivered))"
proof -
  have "delivery_op {sample_key} sample_id sample_connector 0 sample_enqueued"
    unfolding sample_enqueued_def by (rule delivery_op.enqueue [OF _ prod.collapse [symmetric]]) (simp add: sample_key_def sample_connector_def)
  from delivery_run.step [OF delivery_run.stay this]
  have "delivery_run {sample_key} sample_id sample_connector 0 sample_enqueued" by simp
  moreover have execute: "delivery_op {sample_key} sample_id c 0 (snd (ExecuteOutboxItem sample_id c))" for c
    by (rule delivery_op.execute [OF prod.collapse [symmetric]])
  ultimately show "delivery_run {sample_key} sample_id sample_connector 0 sample_delivered"
    using delivery_run.step [of _ _ _ 0 _ 0] unfolding sample_delivered_def by fastforce
  show "delivery_run {sample_key} sample_id sample_delivered 0 (snd (ExecuteOutboxItem sample_id sample_delivered))"
    using delivery_run.step [OF delivery_run.stay execute] by simp
qed

lemma sample_start: "cn_outbox sample_connector = None" "cn_executed sample_connector = []" "cn_env sample_connector = sample_connector_env"
  by (simp_all add: sample_connector_def)

lemma sample_delivered_item:
  "(case fst (GetOutboxItem sample_id sample_delivered) of Inl err \<Rightarrow> False | Inr item \<Rightarrow> oi_Status item = OutboxStatusSent)"
  by code_simp

theorem sent_items_stay_sent_witness:
  "\<exists>item. oi_Status item = OutboxStatusSent \<and> item_of sample_id (snd (ExecuteOutboxItem sample_id sample_delivered)) = Some item"
proof -
  obtain item where item: "GetOutboxItem sample_id sample_delivered = (Inr item, snd (GetOutboxItem sample_id sample_delivered))"
    "oi_Status item = OutboxStatusSent"
    using sample_delivered_item by (cases "fst (GetOutboxItem sample_id sample_delivered)") (auto simp: prod_eq_iff)
  from sent_items_stay_sent [OF sample_start(1,2) _ sample_runs item(1)] item(2) sample_sound(1) sample_start(3) show ?thesis by auto
qed

theorem delivery_attempts_bounded_witness: "executions sample_id (cn_executed sample_delivered) \<le> 3"
  using delivery_attempts_bounded [OF sample_start(1,2) _ _ sample_runs(1)] sample_sound sample_start(3) by simp

lemma sample_first: "\<exists>item. fst (store_EnqueueCommand sample_command 1 sample_connector) = Inr (item, False)"
proof -
  have "(case fst (store_EnqueueCommand sample_command 1 sample_connector) of Inl err \<Rightarrow> False | Inr (item, dup) \<Rightarrow> \<not> dup)" by code_simp
  then show ?thesis by (auto split: sum.splits)
qed

lemma sample_again: "\<exists>item dup. fst (store_EnqueueCommand sample_command 2 (snd (store_EnqueueCommand sample_command 1 sample_connector))) = Inr (item, dup)"
proof -
  have "\<not> isl (fst (store_EnqueueCommand sample_command 2 (snd (store_EnqueueCommand sample_command 1 sample_connector))))" by code_simp
  then show ?thesis by (cases "fst (store_EnqueueCommand sample_command 2 (snd (store_EnqueueCommand sample_command 1 sample_connector)))") auto
qed

theorem outbox_items_permanent_witness:
  "\<exists>item1 item2. fst (store_EnqueueCommand sample_command 1 sample_connector) = Inr (item1, False) \<and>
     fst (store_EnqueueCommand sample_command 2 (snd (store_EnqueueCommand sample_command 1 sample_connector))) = Inr (item2, True) \<and>
     item_core item2 = item_core item1"
proof -
  let ?c = "snd (store_EnqueueCommand sample_command 1 sample_connector)"
  obtain item1 where 1: "store_EnqueueCommand sample_command 1 sample_connector = (Inr (item1, False), ?c)"
    using sample_first by (auto simp: prod_eq_iff)
  obtain item2 dup where 2: "store_EnqueueCommand sample_command 2 ?c = (Inr (item2, dup), snd (store_EnqueueCommand sample_command 2 ?c))"
    using sample_again by (auto simp: prod_eq_iff)
  have "outboxDedupeKey (cn_env sample_connector) sample_command \<in> {sample_key}" by (simp add: sample_key_def sample_start)
  from outbox_items_permanent [OF sample_start(1) _ rtranclp.rtrancl_refl this 1 rtranclp.rtrancl_refl _ 2] sample_sound(1) sample_start(3)
  have "dup" "item_core item2 = item_core item1" by simp_all
  with 1 2 show ?thesis by (metis fst_conv)
qed

end
