(* ===== verification/Connector_Inbound.thy ===== *)
theory Connector_Inbound
  imports Connector_Outbox
begin

text \<open>
  Inbound events of the connector runtime (\<^verbatim>\<open>inbound_runtime.go\<close>, \<^verbatim>\<open>inbound_event.go\<close>,
  \<^verbatim>\<open>inbound_store_file.go\<close>): an event of an external application is reserved under its dedupe key, submitted
  to the kernel as a turn, and the final text of the turn goes back through the outbox.
\<close>

section \<open>Events\<close>

abbreviation SubmissionStatusPending :: string where "SubmissionStatusPending \<equiv> ''pending''"
abbreviation SubmissionStatusSubmitted :: string where "SubmissionStatusSubmitted \<equiv> ''submitted''"
abbreviation SubmissionStatusFailed :: string where "SubmissionStatusFailed \<equiv> ''failed''"
abbreviation SourceValidationUnchecked :: string where "SourceValidationUnchecked \<equiv> ''unchecked''"

record ExternalRef =
  xf_Connector :: string
  xf_Kind :: string
  xf_ExternalID :: string
  xf_Display :: string
  xf_Metadata :: "string go_map"

record ExternalEvent =
  xe_Connector :: string
  xe_ExternalEventID :: string
  xe_EventType :: string
  xe_ThreadRef :: ExternalThreadRef
  xe_SenderRef :: ExternalRef
  xe_MessageRef :: ExternalRef
  xe_Body :: string
  xe_ResourceRefs :: "ExternalResourceRef list"
  xe_ReceivedAt :: time
  xe_SourceValidation :: string
  xe_Metadata :: "string go_map"

record RequestContext =
  rc_RequestID :: string
  rc_DedupeKey :: string
  rc_Connector :: string
  rc_EventType :: string
  rc_ThreadRef :: ExternalThreadRef
  rc_SenderRef :: ExternalRef
  rc_MessageRef :: ExternalRef
  rc_ResourceRefs :: "ExternalResourceRef list"
  rc_SourceValidation :: string
  rc_ApplicationSessionID :: string
  rc_KernelSessionID :: string
  rc_KernelIdempotencyKey :: string
  rc_Body :: string
  rc_ReceivedAt :: time

record ApplicationSessionMapping =
  sm_ApplicationSessionID :: string
  sm_KernelSessionID :: string

record TurnInputItem =
  ti_Type :: string
  ti_Text :: string

record TurnSubmitRequest =
  ts_SessionID :: string
  ts_IdempotencyKey :: string
  ts_InputItems :: "TurnInputItem list"

record TurnSubmitResponse =
  tr_SessionID :: string
  tr_TurnID :: string
  tr_Final :: string
  tr_Error :: "(string \<times> string) option"

record InboundSubmissionRecord =
  is_RequestID :: string
  is_DedupeKey :: string
  is_KernelIdempotencyKey :: string
  is_Connector :: string
  is_EventType :: string
  is_ApplicationSessionID :: string
  is_KernelSessionID :: string
  is_TurnID :: string
  is_Status :: string
  is_KernelError :: string
  is_CreatedAt :: time
  is_UpdatedAt :: time

record ProcessResult =
  ps_Record :: "InboundSubmissionRecord option"
  ps_Duplicate :: bool
  ps_FinalText :: string
  ps_OutboxItem :: "ConnectorOutboxItem option"
  ps_OutboxDuplicate :: bool
  ps_DeliveryReceipt :: "DeliveryReceipt option"
  ps_DeliveryError :: "go_error option"

definition no_process :: ProcessResult where
  "no_process = \<lparr>ps_Record = None, ps_Duplicate = False, ps_FinalText = [], ps_OutboxItem = None, ps_OutboxDuplicate = False,
     ps_DeliveryReceipt = None, ps_DeliveryError = None\<rparr>"

definition validate_event :: "ExternalEvent \<Rightarrow> go_error option" where
  "validate_event e =
     (let connector = TrimSpace (xe_Connector e)
      in if connector = [] then Some (errors_New ''external event missing connector'')
         else if TrimSpace (xe_ExternalEventID e) = [] then Some (errors_New ''external event missing external_event_id'')
         else if TrimSpace (xe_EventType e) = [] then Some (errors_New ''external event missing event_type'')
         else if TrimSpace (xt_Connector (xe_ThreadRef e)) = [] then Some (errors_New ''external event missing thread connector'')
         else if TrimSpace (xt_Kind (xe_ThreadRef e)) = [] then Some (errors_New ''external event missing thread kind'')
         else if TrimSpace (xt_ExternalID (xe_ThreadRef e)) = [] then Some (errors_New ''external event missing thread external id'')
         else if TrimSpace (xf_Connector (xe_SenderRef e)) = [] then Some (errors_New ''external event missing sender connector'')
         else if TrimSpace (xf_Kind (xe_SenderRef e)) = [] then Some (errors_New ''external event missing sender kind'')
         else if TrimSpace (xf_ExternalID (xe_SenderRef e)) = [] then Some (errors_New ''external event missing sender external id'')
         else if TrimSpace (xf_Connector (xe_MessageRef e)) = [] then Some (errors_New ''external event missing message connector'')
         else if TrimSpace (xf_Kind (xe_MessageRef e)) = [] then Some (errors_New ''external event missing message kind'')
         else if TrimSpace (xf_ExternalID (xe_MessageRef e)) = [] then Some (errors_New ''external event missing message external id'')
         else if TrimSpace (xe_Body e) = [] then Some (errors_New ''external event missing body'')
         else if TrimSpace (xt_Connector (xe_ThreadRef e)) \<noteq> connector then Some (errors_New ''external event thread connector mismatch'')
         else if TrimSpace (xf_Connector (xe_SenderRef e)) \<noteq> connector then Some (errors_New ''external event sender connector mismatch'')
         else if TrimSpace (xf_Connector (xe_MessageRef e)) \<noteq> connector then Some (errors_New ''external event message connector mismatch'')
         else None)"

text \<open>An event is named by its connector and its identifier there.\<close>

definition event_parts :: "ExternalEvent \<Rightarrow> string list" where
  "event_parts e = [TrimSpace (xe_Connector e), TrimSpace (xe_ExternalEventID e)]"

definition DedupeKey :: "connector_env \<Rightarrow> ExternalEvent \<Rightarrow> string" where
  "DedupeKey env e = stableOpaqueID env ''inbound'' (event_parts e)"

definition sanitizedExternalRef :: "ExternalRef \<Rightarrow> ExternalRef" where
  "sanitizedExternalRef ref =
     \<lparr>xf_Connector = TrimSpace (xf_Connector ref), xf_Kind = TrimSpace (xf_Kind ref), xf_ExternalID = TrimSpace (xf_ExternalID ref),
      xf_Display = TrimSpace (xf_Display ref), xf_Metadata = []\<rparr>"

definition RequestContext_of :: "connector_env \<Rightarrow> ExternalEvent \<Rightarrow> ApplicationSessionMapping \<Rightarrow> RequestContext" where
  "RequestContext_of env e mapping =
     (let sourceValidation = TrimSpace (xe_SourceValidation e);
          sourceValidation = (if sourceValidation = [] then SourceValidationUnchecked else sourceValidation)
      in \<lparr>rc_RequestID = stableOpaqueID env ''req'' (event_parts e), rc_DedupeKey = DedupeKey env e, rc_Connector = TrimSpace (xe_Connector e),
          rc_EventType = TrimSpace (xe_EventType e), rc_ThreadRef = sanitizedThreadRef (xe_ThreadRef e),
          rc_SenderRef = sanitizedExternalRef (xe_SenderRef e), rc_MessageRef = sanitizedExternalRef (xe_MessageRef e),
          rc_ResourceRefs = xe_ResourceRefs e, rc_SourceValidation = sourceValidation,
          rc_ApplicationSessionID = sm_ApplicationSessionID mapping, rc_KernelSessionID = sm_KernelSessionID mapping,
          rc_KernelIdempotencyKey = stableOpaqueID env ''turn'' (event_parts e), rc_Body = TrimSpace (xe_Body e), rc_ReceivedAt = xe_ReceivedAt e\<rparr>)"

definition opaqueExternalRefID :: "connector_env \<Rightarrow> string \<Rightarrow> string list \<Rightarrow> string" where
  "opaqueExternalRefID env pre parts = stableOpaqueID env pre (map TrimSpace parts)"

definition display_line :: "string \<Rightarrow> string \<Rightarrow> string list" where
  "display_line label display = (if TrimSpace display \<noteq> [] then [label @ TrimSpace display] else [])"

definition FormatRequestContextForTurn :: "connector_env \<Rightarrow> RequestContext \<Rightarrow> string" where
  "FormatRequestContextForTurn env ctx =
     (let thread = rc_ThreadRef ctx; message = rc_MessageRef ctx; sender = rc_SenderRef ctx;
          resources = map (\<lambda>ref. opaqueExternalRefID env ''resource'' [xr_Connector ref, xr_Kind ref, xr_ExternalID ref]) (rc_ResourceRefs ctx)
      in join_with [CHR 0x0A]
       ([''External application event'',
         ''connector: '' @ TrimSpace (rc_Connector ctx),
         ''event_type: '' @ TrimSpace (rc_EventType ctx),
         ''request_ref: '' @ TrimSpace (rc_RequestID ctx),
         ''thread_ref: '' @ opaqueExternalRefID env ''thread'' [xt_Connector thread, xt_Kind thread, xt_ExternalID thread],
         ''thread_kind: '' @ TrimSpace (xt_Kind thread),
         ''message_ref: '' @ opaqueExternalRefID env ''message'' [xf_Connector message, xf_Kind message, xf_ExternalID message],
         ''sender_ref: '' @ opaqueExternalRefID env ''sender'' [xf_Connector sender, xf_Kind sender, xf_ExternalID sender],
         ''sender_kind: '' @ TrimSpace (xf_Kind sender),
         ''source_validation: '' @ TrimSpace (rc_SourceValidation ctx)] @
        display_line ''thread_display: '' (xt_Display thread) @ display_line ''sender_display: '' (xf_Display sender) @
        (if resources \<noteq> [] then [''resource_refs: '' @ join_with '','' (sort resources)] else []) @
        [[], ''text:'', TrimSpace (rc_Body ctx)]))"

section \<open>The store of submissions\<close>

type_synonym fileInboundPayload = "InboundSubmissionRecord go_map"

text \<open>
  The runtime with its inbound side: the client that submits a turn, the mapping of sessions if it is not the
  default one, the file of submissions, and the requests that the client was given. The moments are those of the
  connector.
\<close>

record inbound_env =
  ie_inboundStore :: bool
  ie_client :: "(TurnSubmitRequest \<Rightarrow> nat \<Rightarrow> TurnSubmitResponse \<times> string option) option"
  ie_mapper :: "(ExternalEvent \<Rightarrow> ApplicationSessionMapping res) option"

record inbound =
  in_env :: inbound_env
  in_connector :: connector
  in_file :: "fileInboundPayload option"
  in_submitted :: "TurnSubmitRequest list"

definition inbound_op ::
  "(fileInboundPayload \<Rightarrow> 'a res \<times> fileInboundPayload option) \<Rightarrow> inbound \<Rightarrow> 'a res \<times> inbound" where
  "inbound_op body s =
     (let c = in_connector s; io = ce_io (cn_env c) (cn_moment c);
          (r, f) = withLockedState io [] (\<lambda>records f.
             case body records of
               (r, None) \<Rightarrow> (r, f)
             | (r, Some records) \<Rightarrow>
                 (case writeLocked (ce_windows (cn_env c)) io records f of
                    (Some err, f) \<Rightarrow> (Inl err, f)
                  | (None, f) \<Rightarrow> (r, f))) (in_file s)
      in (r, s\<lparr>in_file := f, in_connector := c\<lparr>cn_moment := Suc (cn_moment c)\<rparr>\<rparr>))"

definition Reserve :: "InboundSubmissionRecord \<Rightarrow> inbound \<Rightarrow> (InboundSubmissionRecord \<times> bool) res \<times> inbound" where
  "Reserve r s =
     (if is_DedupeKey r = [] then (Inl (errors_New ''inbound submission missing dedupe key''), s)
      else inbound_op (\<lambda>records. case go_lookup records (is_DedupeKey r) of
          Some existing \<Rightarrow> (Inr (existing, False), None)
        | None \<Rightarrow> (Inr (r, True), Some (go_store (is_DedupeKey r) r records))) s)"

definition Complete :: "InboundSubmissionRecord \<Rightarrow> inbound \<Rightarrow> unit res \<times> inbound" where
  "Complete r s =
     (if is_DedupeKey r = [] then (Inl (errors_New ''inbound submission missing dedupe key''), s)
      else inbound_op (\<lambda>records. (Inr (), Some (go_store (is_DedupeKey r) r records))) s)"

definition ListInbound :: "inbound \<Rightarrow> InboundSubmissionRecord list res \<times> inbound" where
  "ListInbound s = inbound_op (\<lambda>records. (Inr (go_values (ce_order (cn_env (in_connector s))) records), None)) s"

section \<open>Processing an event\<close>

definition DefaultApplicationSessionMapper :: "connector_env \<Rightarrow> ExternalEvent \<Rightarrow> ApplicationSessionMapping res" where
  "DefaultApplicationSessionMapper env event =
     (case validate_event event of Some err \<Rightarrow> Inl err | None \<Rightarrow>
      let thread = xe_ThreadRef event;
          parts = [TrimSpace (xe_Connector event), TrimSpace (xt_Connector thread), TrimSpace (xt_Kind thread), TrimSpace (xt_ExternalID thread)]
      in Inr \<lparr>sm_ApplicationSessionID = stableOpaqueID env ''appsession'' parts, sm_KernelSessionID = stableOpaqueID env ''session'' parts\<rparr>)"

definition inbound_now :: "inbound \<Rightarrow> time \<times> inbound" where
  "inbound_now s = (case runtime_now (in_connector s) of (now, c) \<Rightarrow> (now, s\<lparr>in_connector := c\<rparr>))"

definition submission_record :: "RequestContext \<Rightarrow> time \<Rightarrow> InboundSubmissionRecord" where
  "submission_record ctx now =
     \<lparr>is_RequestID = rc_RequestID ctx, is_DedupeKey = rc_DedupeKey ctx, is_KernelIdempotencyKey = rc_KernelIdempotencyKey ctx,
      is_Connector = rc_Connector ctx, is_EventType = rc_EventType ctx, is_ApplicationSessionID = rc_ApplicationSessionID ctx,
      is_KernelSessionID = rc_KernelSessionID ctx, is_TurnID = [], is_Status = SubmissionStatusPending, is_KernelError = [],
      is_CreatedAt = now, is_UpdatedAt = now\<rparr>"

definition turn_request :: "connector_env \<Rightarrow> RequestContext \<Rightarrow> TurnSubmitRequest" where
  "turn_request env ctx =
     \<lparr>ts_SessionID = rc_KernelSessionID ctx, ts_IdempotencyKey = rc_KernelIdempotencyKey ctx,
      ts_InputItems = [\<lparr>ti_Type = ''text'', ti_Text = FormatRequestContextForTurn env ctx\<rparr>]\<rparr>"

definition reply_command :: "connector_env \<Rightarrow> RequestContext \<Rightarrow> InboundSubmissionRecord \<Rightarrow> string \<Rightarrow> AppCommand" where
  "reply_command env ctx r finalText =
     \<lparr>ac_CommandID = stableOpaqueID env ''cmd'' [rc_RequestID ctx, is_TurnID r, ''final_reply''], ac_Kind = ''send_message'',
      ac_TargetRef = \<lparr>xt_Connector = xt_Connector (rc_ThreadRef ctx), xt_Kind = xt_Kind (rc_ThreadRef ctx),
        xt_ExternalID = xt_ExternalID (rc_ThreadRef ctx), xt_Display = xt_Display (rc_ThreadRef ctx), xt_Metadata = []\<rparr>,
      ac_Body = finalText, ac_ResourceRefs = [], ac_RequiresConfirmation = False,
      ac_DedupeKey = stableOpaqueID env ''reply'' [rc_RequestID ctx, is_TurnID r],
      ac_Metadata = [(''source_request_id'', rc_RequestID ctx), (''kernel_turn_id'', is_TurnID r)], ac_CreatedAt = is_UpdatedAt r\<rparr>"

definition deliverFinalText :: "RequestContext \<Rightarrow> InboundSubmissionRecord \<Rightarrow> ProcessResult \<Rightarrow> inbound \<Rightarrow> ProcessResult \<times> inbound" where
  "deliverFinalText ctx r result s =
     (let c = in_connector s
      in if \<not> ce_store (cn_env c) \<or> TrimSpace (ps_FinalText result) = [] then (result, s)
         else case EnqueueCommand (reply_command (cn_env c) ctx r (ps_FinalText result)) c of
             (Inl err, c) \<Rightarrow> (result\<lparr>ps_DeliveryError := Some err\<rparr>, s\<lparr>in_connector := c\<rparr>)
           | (Inr (item, duplicate), c) \<Rightarrow>
               let result = result\<lparr>ps_OutboxItem := Some item, ps_OutboxDuplicate := duplicate\<rparr>
               in if duplicate then (result, s\<lparr>in_connector := c\<rparr>)
                  else case ExecuteOutboxItem (oi_OutboxID item) c of
                      ((receipt, err), c) \<Rightarrow>
                        (result\<lparr>ps_DeliveryReceipt := Some receipt, ps_DeliveryError := err\<rparr>, s\<lparr>in_connector := c\<rparr>))"

text \<open>
  Processing an event between two operations of the store: it is to be reserved, to be submitted, to be
  completed (with what is left to do then), or has ended.
\<close>

datatype processing =
    Receive ExternalEvent
  | Submit RequestContext InboundSubmissionRecord
  | Close RequestContext InboundSubmissionRecord string "go_error option"
  | Processed ProcessResult "go_error option"

definition receive_event :: "ExternalEvent \<Rightarrow> inbound \<Rightarrow> processing \<times> inbound" where
  "receive_event event s =
     (let env = cn_env (in_connector s); fail = (\<lambda>err. Processed no_process (Some err))
      in case validate_event event of Some err \<Rightarrow> (fail err, s) | None \<Rightarrow>
         if \<not> ie_inboundStore (in_env s) then (fail (errors_New ''connector runtime missing inbound store''), s)
         else if ie_client (in_env s) = None then (fail (errors_New ''connector runtime missing kernel turn client''), s)
         else case (case ie_mapper (in_env s) of Some mapper \<Rightarrow> mapper event | None \<Rightarrow> DefaultApplicationSessionMapper env event) of
             Inl err \<Rightarrow> (fail err, s)
           | Inr mapping \<Rightarrow>
               let (currentTime, s) = inbound_now s; ctx = RequestContext_of env event mapping
               in (case Reserve (submission_record ctx currentTime) s of
                     (Inl err, s) \<Rightarrow> (fail err, s)
                   | (Inr (r, reserved), s) \<Rightarrow>
                       if \<not> reserved then (Processed (no_process\<lparr>ps_Record := Some r, ps_Duplicate := True\<rparr>) None, s)
                       else (Submit ctx r, s)))"

text \<open>What the record of a submission becomes when the client has answered.\<close>

definition submit_event :: "RequestContext \<Rightarrow> InboundSubmissionRecord \<Rightarrow> inbound \<Rightarrow> processing \<times> inbound" where
  "submit_event ctx r s =
     (case ie_client (in_env s) of
        None \<Rightarrow> (Processed no_process (Some (errors_New ''connector runtime missing kernel turn client'')), s)
      | Some client \<Rightarrow>
          let env = cn_env (in_connector s); req = turn_request env ctx;
              (resp, err) = client req (cn_moment (in_connector s));
              s = s\<lparr>in_submitted := in_submitted s @ [req]\<rparr>;
              (now, s) = inbound_now s
          in case err of
               Some text \<Rightarrow> (Close ctx (r\<lparr>is_Status := SubmissionStatusFailed, is_KernelError := text, is_UpdatedAt := now\<rparr>) [] (Some (errors_New text)), s)
             | None \<Rightarrow>
                 let r = r\<lparr>is_TurnID := tr_TurnID resp, is_KernelSessionID := (if tr_SessionID resp \<noteq> [] then tr_SessionID resp else is_KernelSessionID r)\<rparr>
                 in (case tr_Error resp of
                       Some (code, message) \<Rightarrow>
                         let text = code @ '': '' @ message
                         in (Close ctx (r\<lparr>is_Status := SubmissionStatusFailed, is_KernelError := text, is_UpdatedAt := now\<rparr>) []
                               (Some (Errorf ''kernel turn failed: %s'' [text])), s)
                     | None \<Rightarrow> (Close ctx (r\<lparr>is_Status := SubmissionStatusSubmitted, is_UpdatedAt := now\<rparr>) (tr_Final resp) None, s)))"

definition close_event :: "RequestContext \<Rightarrow> InboundSubmissionRecord \<Rightarrow> string \<Rightarrow> go_error option \<Rightarrow> inbound \<Rightarrow> processing \<times> inbound" where
  "close_event ctx r finalText failure s =
     (case Complete r s of (completed, s) \<Rightarrow>
      (case failure of
         Some err \<Rightarrow> (Processed (no_process\<lparr>ps_Record := Some r\<rparr>) (Some err), s)
       | None \<Rightarrow>
           (case completed of
              Inl err \<Rightarrow> (Processed (no_process\<lparr>ps_Record := Some r\<rparr>) (Some err), s)
            | Inr _ \<Rightarrow>
                (case deliverFinalText ctx r (no_process\<lparr>ps_Record := Some r, ps_FinalText := finalText\<rparr>) s of
                   (result, s) \<Rightarrow> (Processed result None, s)))))"

fun process :: "processing \<Rightarrow> inbound \<Rightarrow> processing \<times> inbound" where
  "process (Receive event) s = receive_event event s"
| "process (Submit ctx r) s = submit_event ctx r s"
| "process (Close ctx r finalText failure) s = close_event ctx r finalText failure s"
| "process (Processed result err) s = (Processed result err, s)"

definition processExternalEvent :: "ExternalEvent \<Rightarrow> inbound \<Rightarrow> (ProcessResult \<times> go_error option) \<times> inbound" where
  "processExternalEvent event s =
     (let (p, s) = process (Receive event) s; (p, s) = process p s; (p, s) = process p s
      in case p of Processed result err \<Rightarrow> ((result, err), s) | _ \<Rightarrow> ((no_process, None), s))"

definition uncheckedDirectExternalEvent :: "ExternalEvent \<Rightarrow> ExternalEvent" where
  "uncheckedDirectExternalEvent event = event\<lparr>xe_SourceValidation := SourceValidationUnchecked\<rparr>"

definition ProcessExternalEvent :: "ExternalEvent \<Rightarrow> inbound \<Rightarrow> (ProcessResult \<times> go_error option) \<times> inbound" where
  "ProcessExternalEvent event = processExternalEvent (uncheckedDirectExternalEvent event)"

definition ProcessSourceCommandEvent :: "ExternalEvent \<Rightarrow> inbound \<Rightarrow> (ProcessResult \<times> go_error option) \<times> inbound" where
  "ProcessSourceCommandEvent event = processExternalEvent event"


section \<open>Any interleaving\<close>

text \<open>Events arrive, their processings take steps, and the rest of the runtime goes on beside them.\<close>

inductive inbound_step :: "inbound \<times> processing list \<Rightarrow> inbound \<times> processing list \<Rightarrow> bool" where
  arrive: "inbound_step (s, ps) (s, ps @ [Receive event])"
| process: "n < length ps \<Longrightarrow> process (ps ! n) s = (p, s') \<Longrightarrow> inbound_step (s, ps) (s', ps[n := p])"
| beside: "cn_env c = cn_env (in_connector s) \<Longrightarrow> inbound_step (s, ps) (s\<lparr>in_connector := c\<rparr>, ps)"

abbreviation inbound_run :: "inbound \<times> processing list \<Rightarrow> inbound \<times> processing list \<Rightarrow> bool" where
  "inbound_run \<equiv> inbound_step\<^sup>*\<^sup>*"

definition records_of :: "inbound \<Rightarrow> fileInboundPayload" where
  "records_of s = (case in_file s of None \<Rightarrow> [] | Some records \<Rightarrow> records)"

definition opaque :: "connector_env \<Rightarrow> ExternalEvent \<Rightarrow> string" where
  "opaque env event = ToLower (take 32 (ce_sum env (join_with [CHR 0x00] (event_parts event))))"

lemma event_keys: "DedupeKey env event = ''inbound_'' @ opaque env event" "stableOpaqueID env ''turn'' (event_parts event) = ''turn_'' @ opaque env event"
  by (simp_all add: DedupeKey_def stableOpaqueID_def opaque_def)

lemma context_keys:
  "rc_DedupeKey (RequestContext_of env event mapping) = ''inbound_'' @ opaque env event"
  "rc_KernelIdempotencyKey (RequestContext_of env event mapping) = ''turn_'' @ opaque env event"
  by (simp_all add: RequestContext_of_def Let_def event_keys)

lemma inbound_op_cases [consumes 2, case_names failed read written]:
  assumes "inbound_op body s = (r, s')" and "\<not> ce_windows (cn_env (in_connector s))"
  obtains err where "r = Inl err" "in_file s' = in_file s" "in_submitted s' = in_submitted s" "in_env s' = in_env s" "cn_env (in_connector s') = cn_env (in_connector s)"
  | "body (records_of s) = (r, None)" "in_file s' = in_file s" "in_submitted s' = in_submitted s" "in_env s' = in_env s" "cn_env (in_connector s') = cn_env (in_connector s)"
  | records where "body (records_of s) = (r, Some records)" "in_file s' = Some records" "in_submitted s' = in_submitted s" "in_env s' = in_env s"
      "cn_env (in_connector s') = cn_env (in_connector s)"
proof -
  obtain r' q where body: "body (records_of s) = (r', q)" by (rule prod.exhaust)
  have current: "(case in_file s of None \<Rightarrow> [] | Some records \<Rightarrow> records) = records_of s" by (simp add: records_of_def)
  from assms body that show thesis
    unfolding inbound_op_def withLockedState_def writeLocked_def replaceConnectorStateFile_def Let_def current
    by (cases "io_lock (ce_io (cn_env (in_connector s)) (cn_moment (in_connector s)))";
        cases "io_load (ce_io (cn_env (in_connector s)) (cn_moment (in_connector s)))"; cases q;
        cases "io_prepare (ce_io (cn_env (in_connector s)) (cn_moment (in_connector s)))";
        cases "io_rename (ce_io (cn_env (in_connector s)) (cn_moment (in_connector s)))") force+
qed

text \<open>An event is submitted or about to be only if it is reserved, and then once.\<close>

definition pending :: "string \<Rightarrow> processing \<Rightarrow> bool" where
  "pending k p \<longleftrightarrow> (case p of Submit ctx r \<Rightarrow> rc_KernelIdempotencyKey ctx = k | _ \<Rightarrow> False)"

definition submissions :: "string \<Rightarrow> inbound \<Rightarrow> processing list \<Rightarrow> nat" where
  "submissions k s ps = length (filter (\<lambda>q. ts_IdempotencyKey q = k) (in_submitted s)) + length (filter (pending k) ps)"

definition inbound_ok :: "inbound \<Rightarrow> processing list \<Rightarrow> bool" where
  "inbound_ok s ps \<longleftrightarrow> \<not> ce_windows (cn_env (in_connector s)) \<and>
     (\<forall>k. submissions k s ps \<noteq> 0 \<longrightarrow> (\<exists>x. k = ''turn_'' @ x)) \<and>
     (\<forall>x. submissions (''turn_'' @ x) s ps \<le> (if go_lookup (records_of s) (''inbound_'' @ x) = None then 0 else 1))"


lemma length_filter_update:
  "n < length xs \<Longrightarrow> length (filter P (xs[n := x])) + (if P (xs ! n) then 1 else 0) = length (filter P xs) + (if P x then 1 else 0)"
proof -
  assume n: "n < length xs"
  have "length (filter P xs) = length (filter P (take n xs @ xs ! n # drop (Suc n) xs))" by (simp only: id_take_nth_drop [OF n, symmetric])
  then show ?thesis by (simp add: upd_conv_take_nth_drop [OF n])
qed

lemma pending_simps [simp]:
  "\<not> pending k (Receive event)" "\<not> pending k (Close ctx r t e)" "\<not> pending k (Processed result err)"
  "pending k (Submit ctx r) \<longleftrightarrow> rc_KernelIdempotencyKey ctx = k"
  by (simp_all add: pending_def)

text \<open>What a step does to the records and the submissions.\<close>

definition same_envs :: "inbound \<Rightarrow> inbound \<Rightarrow> bool" where
  "same_envs s s' \<longleftrightarrow> in_env s' = in_env s \<and> cn_env (in_connector s') = cn_env (in_connector s)"

lemma reserve_cases [consumes 2, case_names failed repeated fresh]:
  assumes "Reserve r s = (res, s')" and "\<not> ce_windows (cn_env (in_connector s))"
  obtains err where "res = Inl err" "in_file s' = in_file s" "in_submitted s' = in_submitted s" "same_envs s s'"
  | existing where "res = Inr (existing, False)" "go_lookup (records_of s) (is_DedupeKey r) = Some existing"
      "in_file s' = in_file s" "in_submitted s' = in_submitted s" "same_envs s s'"
  | "res = Inr (r, True)" "go_lookup (records_of s) (is_DedupeKey r) = None" "in_file s' = Some (go_store (is_DedupeKey r) r (records_of s))"
      "in_submitted s' = in_submitted s" "same_envs s s'"
proof (cases "is_DedupeKey r = []")
  case True
  with assms(1) that(1) show thesis by (auto simp: Reserve_def same_envs_def)
next
  case False
  with assms(1) have "inbound_op (\<lambda>records. case go_lookup records (is_DedupeKey r) of
      Some existing \<Rightarrow> (Inr (existing, False), None)
    | None \<Rightarrow> (Inr (r, True), Some (go_store (is_DedupeKey r) r records))) s = (res, s')" by (simp add: Reserve_def)
  from this assms(2) show thesis
  proof (cases rule: inbound_op_cases)
    case (failed err)
    with that(1) show thesis by (simp add: same_envs_def)
  next
    case read
    with that(2) show thesis by (auto simp: same_envs_def split: option.splits)
  next
    case (written records)
    with that(3) show thesis by (auto simp: same_envs_def split: option.splits)
  qed
qed

lemma complete_effect:
  assumes "Complete r s = (res, s')" and "\<not> ce_windows (cn_env (in_connector s))"
  shows "in_submitted s' = in_submitted s \<and> same_envs s s' \<and> (\<forall>k. go_lookup (records_of s) k \<noteq> None \<longrightarrow> go_lookup (records_of s') k \<noteq> None)"
proof (cases "is_DedupeKey r = []")
  case True
  with assms(1) show ?thesis by (auto simp: Complete_def same_envs_def)
next
  case False
  with assms(1) have "inbound_op (\<lambda>records. (Inr (), Some (go_store (is_DedupeKey r) r records))) s = (res, s')" by (simp add: Complete_def)
  from this assms(2) show ?thesis
    by (cases rule: inbound_op_cases) (auto simp: records_of_def same_envs_def)
qed

lemma receive_cases [consumes 2, case_names ended submit]:
  assumes "receive_event event s = (p, s')" and "\<not> ce_windows (cn_env (in_connector s))"
  obtains result err where "p = Processed result err" "records_of s' = records_of s" "in_submitted s' = in_submitted s" "same_envs s s'"
      "err = None \<Longrightarrow> ps_Duplicate result \<and> go_lookup (records_of s) (DedupeKey (cn_env (in_connector s)) event) \<noteq> None"
  | ctx r where "p = Submit ctx r" "rc_KernelIdempotencyKey ctx = ''turn_'' @ opaque (cn_env (in_connector s)) event"
      "go_lookup (records_of s) (''inbound_'' @ opaque (cn_env (in_connector s)) event) = None"
      "records_of s' = go_store (''inbound_'' @ opaque (cn_env (in_connector s)) event) r (records_of s)" "in_submitted s' = in_submitted s" "same_envs s s'"
proof -
  let ?env = "cn_env (in_connector s)"
  have now: "inbound_now s = (ce_now ?env (cn_moment (in_connector s)), s\<lparr>in_connector := (in_connector s)\<lparr>cn_moment := Suc (cn_moment (in_connector s))\<rparr>\<rparr>)"
    by (simp add: inbound_now_def runtime_now_def)
  let ?s1 = "snd (inbound_now s)"
  consider err where "p = Processed no_process (Some err)" "s' = s"
    | mapping res s2 where "Reserve (submission_record (RequestContext_of ?env event mapping) (fst (inbound_now s))) ?s1 = (res, s2)"
      "(case res of Inl err \<Rightarrow> (Processed no_process (Some err), s2)
        | Inr (r, reserved) \<Rightarrow> if \<not> reserved then (Processed (no_process\<lparr>ps_Record := Some r, ps_Duplicate := True\<rparr>) None, s2)
            else (Submit (RequestContext_of ?env event mapping) r, s2)) = (p, s')"
    using assms(1) unfolding receive_event_def now Let_def
    by (auto split: option.splits if_splits sum.splits prod.splits)
  then show thesis
  proof cases
    case (1 err)
    then show thesis by (intro that(1) [of no_process "Some err"]) (simp_all add: same_envs_def)
  next
    case (2 mapping res s2)
    have s1: "records_of ?s1 = records_of s" "in_submitted ?s1 = in_submitted s" "same_envs s ?s1" "\<not> ce_windows (cn_env (in_connector ?s1))"
      using assms(2) by (simp_all add: now records_of_def same_envs_def)
    from 2(1) s1(4) show thesis
    proof (cases rule: reserve_cases)
      case (failed err)
      then show thesis using 2(2) s1 that(1) by (auto simp: records_of_def same_envs_def)
    next
      case (repeated existing)
      then show thesis using 2(2) s1 that(1) by (auto simp: records_of_def same_envs_def submission_record_def context_keys event_keys)
    next
      case fresh
      then show thesis using 2(2) s1 that(2) by (auto simp: records_of_def same_envs_def submission_record_def context_keys)
    qed
  qed
qed


lemma submit_effect:
  assumes "submit_event ctx r s = (p, s')"
  shows "in_submitted s' \<in> {in_submitted s, in_submitted s @ [turn_request (cn_env (in_connector s)) ctx]} \<and> records_of s' = records_of s \<and>
    same_envs s s' \<and> (\<forall>k. \<not> pending k p)"
  using assms
  by (auto simp: submit_event_def inbound_now_def runtime_now_def Let_def records_of_def same_envs_def split: option.splits prod.splits)

text \<open>Operations of the outbox leave the environment of the connector.\<close>

lemma outbox_op_env: "cn_env (snd (outbox_op body c)) = cn_env c"
  by (simp add: outbox_op_def Let_def split: prod.splits)

lemma store_env [simp]:
  "cn_env (snd (GetOutboxItem i c)) = cn_env c" "cn_env (snd (ClaimOutboxItem i now owner d c)) = cn_env c"
  "cn_env (snd (RecordDelivery item receipt c)) = cn_env c" "cn_env (snd (recordResult item receipt c)) = cn_env c"
  "cn_env (snd (store_EnqueueCommand cmd now c)) = cn_env c"
  by (simp_all add: GetOutboxItem_def ClaimOutboxItem_def RecordDelivery_def recordResult_def store_EnqueueCommand_def outbox_op_env split: option.split)

lemma clock_env [simp]: "cn_env (snd (runtime_now c)) = cn_env c" "cn_env (snd (receipt_for n item result c)) = cn_env c"
  by (simp_all add: runtime_now_def receipt_for_def Let_def)

lemma stage_env:
  "cn_env (snd (refuse item result err c)) = cn_env c" "cn_env (snd (read_item i item c)) = cn_env c"
  "cn_env (snd (read_claimed claimed item c)) = cn_env c" "cn_env (snd (executeLeasedOutboxItem item now c)) = cn_env c"
  by (simp_all add: refuse_def nonAttemptReceiptFor_def receiptFor_def read_item_def read_claimed_def executeLeasedOutboxItem_def
      runtime_now_def receipt_for_def Let_def split: option.split prod.split)

lemma deliver_env: "cn_env (snd (deliver d c)) = cn_env c"
proof (cases d)
  case (Get i)
  then show ?thesis using store_env(1) [of i c] stage_env(2) by (cases "GetOutboxItem i c") (simp split: sum.split)
next
  case (GetClaimed claimed)
  then show ?thesis using store_env(1) [of "oi_OutboxID claimed" c] stage_env(3)
    by (cases "GetOutboxItem (oi_OutboxID claimed) c") (simp split: sum.split)
next
  case (Claim i now)
  then show ?thesis using store_env(2) [of i now defaultDeliveryLeaseOwner defaultDeliveryLeaseTTL c] stage_env(1)
    by (cases "ClaimOutboxItem i now defaultDeliveryLeaseOwner defaultDeliveryLeaseTTL c") (simp split: sum.split prod.split)
next
  case (Refuse item receipt err)
  then show ?thesis using store_env(3) [of item receipt c] by (cases "RecordDelivery item receipt c") (simp split: sum.split)
next
  case (Report item receipt err)
  then show ?thesis using store_env(4) [of item receipt c] by (cases "recordResult item receipt c") (simp split: sum.split)
qed (simp_all add: stage_env)

lemma finish_env: "cn_env (snd (finish d c)) = cn_env c"
proof (induction "steps_left d" arbitrary: d c rule: less_induct)
  case less
  obtain d' c' where step: "deliver d c = (d', c')" by (rule prod.exhaust)
  then have "cn_env c' = cn_env c" using deliver_env [of d c] by simp
  moreover have "steps_left d \<noteq> 0 \<Longrightarrow> cn_env (snd (finish d' c')) = cn_env c'"
    using less.hyps [of d' c'] steps_left_deliver [of d c] step by simp
  ultimately show ?case using step by (subst finish.simps) (cases d; simp del: deliver.simps)
qed

lemma deliver_text_effect:
  assumes "deliverFinalText ctx r result s = (result', s')"
  shows "in_submitted s' = in_submitted s \<and> records_of s' = records_of s \<and> same_envs s s'"
proof -
  have "cn_env (snd (EnqueueCommand cmd c)) = cn_env c" "cn_env (snd (ExecuteOutboxItem i c)) = cn_env c" for cmd i c
    using store_env(5) by (simp_all add: EnqueueCommand_def ExecuteOutboxItem_def finish_env runtime_now_def Let_def)
  then have env: "EnqueueCommand cmd c = (x, c') \<Longrightarrow> cn_env c' = cn_env c" "ExecuteOutboxItem i c = (y, c') \<Longrightarrow> cn_env c' = cn_env c" for cmd i c x y c'
    by (metis snd_conv)+
  show ?thesis
    using assms unfolding deliverFinalText_def Let_def
    by (auto simp: records_of_def same_envs_def split: if_splits prod.splits sum.splits dest!: env)
qed

lemma close_effect:
  assumes "close_event ctx r t failure s = (p, s')" and "\<not> ce_windows (cn_env (in_connector s))"
  shows "in_submitted s' = in_submitted s \<and> same_envs s s' \<and> (\<forall>k. \<not> pending k p) \<and>
    (\<forall>k. go_lookup (records_of s) k \<noteq> None \<longrightarrow> go_lookup (records_of s') k \<noteq> None)"
proof -
  obtain res s1 where complete: "Complete r s = (res, s1)" by (rule prod.exhaust)
  note 1 = complete_effect [OF this assms(2)]
  have "(s' = s1 \<or> (\<exists>a b. deliverFinalText ctx r a s1 = (b, s'))) \<and> (\<forall>k. \<not> pending k p)"
    using assms(1) complete unfolding close_event_def by (auto split: option.splits sum.splits prod.splits)
  with 1 show ?thesis using deliver_text_effect [of ctx r _ s1 _ s'] by (auto simp: same_envs_def)
qed

lemma submissions_update:
  assumes "n < length ps" and "in_submitted s' = in_submitted s @ qs"
  shows "submissions k s' (ps[n := p]) + (if pending k (ps ! n) then 1 else 0) =
    submissions k s ps + (if pending k p then 1 else 0) + length (filter (\<lambda>q. ts_IdempotencyKey q = k) qs)"
  using length_filter_update [OF assms(1), of "pending k" p] by (simp add: submissions_def assms(2))

lemma inbound_okD: "inbound_ok s ps \<Longrightarrow>
    submissions (''turn_'' @ x) s ps \<le> (if go_lookup (records_of s) (''inbound_'' @ x) = None then 0 else 1)"
  unfolding inbound_ok_def by blast

lemma inbound_okI:
  assumes "inbound_ok s ps" and "same_envs s s'"
    and "\<And>k. submissions k s' ps' \<le> submissions k s ps"
    and "\<And>k. go_lookup (records_of s) k \<noteq> None \<Longrightarrow> go_lookup (records_of s') k \<noteq> None"
  shows "inbound_ok s' ps'"
  unfolding inbound_ok_def
proof (intro conjI allI impI)
  show "\<not> ce_windows (cn_env (in_connector s'))" using assms(1,2) by (simp add: inbound_ok_def same_envs_def)
  show "\<exists>x. k = ''turn_'' @ x" if "submissions k s' ps' \<noteq> 0" for k
    using that assms(1) assms(3) [of k] by (simp add: inbound_ok_def)
  show "submissions (''turn_'' @ x) s' ps' \<le> (if go_lookup (records_of s') (''inbound_'' @ x) = None then 0 else 1)" for x
  proof -
    have "submissions (''turn_'' @ x) s ps \<le> (if go_lookup (records_of s) (''inbound_'' @ x) = None then 0 else 1)"
      using assms(1) by (simp only: inbound_ok_def)
    then show ?thesis using assms(3) [of "''turn_'' @ x"] assms(4) [of "''inbound_'' @ x"] by (auto split: if_splits)
  qed
qed


lemma reserve_ok:
  assumes "inbound_ok s ps" and "n < length ps" and "\<And>k. \<not> pending k (ps ! n)" and "same_envs s s'" and "in_submitted s' = in_submitted s"
    and "rc_KernelIdempotencyKey ctx = ''turn_'' @ x" and "go_lookup (records_of s) (''inbound_'' @ x) = None"
    and "records_of s' = go_store (''inbound_'' @ x) r (records_of s)"
  shows "inbound_ok s' (ps[n := Submit ctx r])"
proof -
  have "submissions k s' (ps[n := Submit ctx r]) = submissions k s ps + (if rc_KernelIdempotencyKey ctx = k then 1 else 0)" for k
  proof -
    have "in_submitted s' = in_submitted s @ []" by (simp add: assms(5))
    from submissions_update [OF assms(2) this, of k "Submit ctx r"] show ?thesis using assms(3) [of k] by simp
  qed
  then have counts: "submissions k s' (ps[n := Submit ctx r]) = submissions k s ps + (if k = ''turn_'' @ x then 1 else 0)" for k
    unfolding assms(6) by (simp only: eq_commute [of _ k])
  have zero: "submissions (''turn_'' @ x) s ps = 0" using inbound_okD [OF assms(1), of x] assms(7) by simp
  show ?thesis
    unfolding inbound_ok_def counts
  proof (intro conjI allI impI)
    show "\<not> ce_windows (cn_env (in_connector s'))" using assms(1,4) by (simp add: inbound_ok_def same_envs_def)
    show "\<exists>y. k = ''turn_'' @ y" if "submissions k s ps + (if k = ''turn_'' @ x then 1 else 0) \<noteq> 0" for k
    proof (cases "k = ''turn_'' @ x")
      case False
      with that have "submissions k s ps \<noteq> 0" by simp
      with assms(1) show ?thesis unfolding inbound_ok_def by blast
    qed blast
    show "submissions (''turn_'' @ y) s ps + (if ''turn_'' @ y = ''turn_'' @ x then 1 else 0) \<le>
        (if go_lookup (records_of s') (''inbound_'' @ y) = None then 0 else 1)" for y
    proof (cases "y = x")
      case True
      then show ?thesis using zero assms(8) by simp
    next
      case False
      moreover have "submissions (''turn_'' @ y) s ps \<le> (if go_lookup (records_of s) (''inbound_'' @ y) = None then 0 else 1)"
        using assms(1) by (simp only: inbound_ok_def)
      ultimately show ?thesis using assms(8) by simp
    qed
  qed
qed

lemma process_ok:
  assumes "inbound_ok s ps" and "n < length ps" and "process (ps ! n) s = (p, s')"
  shows "inbound_ok s' (ps[n := p])"
proof -
  have linux: "\<not> ce_windows (cn_env (in_connector s))" using assms(1) by (simp add: inbound_ok_def)
  show ?thesis
  proof (cases "ps ! n")
    case (Receive event)
    with assms(3) have "receive_event event s = (p, s')" by simp
    from this linux show ?thesis
    proof (cases rule: receive_cases)
      case (ended result err)
      show ?thesis
        using submissions_update [OF assms(2), of s' s "[]" _ p] ended Receive
        by (intro inbound_okI [OF assms(1) ended(4)]) (simp_all add: le_eq_less_or_eq)
    next
      case (submit ctx r)
      show ?thesis unfolding submit(1) by (rule reserve_ok [OF assms(1,2) _ submit(6,5,2-4)]) (simp add: Receive)
    qed
  next
    case (Submit ctx r)
    with assms(3) have "submit_event ctx r s = (p, s')" by simp
    note e = submit_effect [OF this]
    then obtain qs where qs: "in_submitted s' = in_submitted s @ qs" "qs = [] \<or> qs = [turn_request (cn_env (in_connector s)) ctx]" by auto
    have "submissions k s' (ps[n := p]) \<le> submissions k s ps" for k
      using submissions_update [OF assms(2) qs(1), of k p] e qs(2) Submit by (auto simp: turn_request_def split: if_splits)
    with e show ?thesis by (intro inbound_okI [OF assms(1)]) simp_all
  next
    case (Close ctx r t failure)
    with assms(3) have "close_event ctx r t failure s = (p, s')" by simp
    note e = close_effect [OF this linux]
    then show ?thesis
      using submissions_update [OF assms(2), of s' s "[]" _ p] Close
      by (intro inbound_okI [OF assms(1)]) (simp_all add: le_eq_less_or_eq)
  next
    case (Processed result err)
    with assms(2,3) have "s' = s" "ps[n := p] = ps" by (simp_all add: list_update_same_conv)
    with assms(1) show ?thesis by simp
  qed
qed

lemma inbound_step_ok:
  assumes "inbound_step (s, ps) (s', ps')" and "inbound_ok s ps"
  shows "inbound_ok s' ps'"
  using assms(1)
proof cases
  case (arrive event)
  then show ?thesis by (intro inbound_okI [OF assms(2)]) (simp_all add: same_envs_def submissions_def)
next
  case (process n p)
  then show ?thesis using process_ok [OF assms(2)] by simp
next
  case (beside c)
  then show ?thesis by (intro inbound_okI [OF assms(2)]) (simp_all add: same_envs_def submissions_def records_of_def)
qed

lemma inbound_run_ok: "inbound_run (s, ps) (s', ps') \<Longrightarrow> inbound_ok s ps \<Longrightarrow> inbound_ok s' ps'"
  by (induction rule: rtranclp_induct2) (auto intro: inbound_step_ok)

lemma distinct_if_single: "(\<And>k. length (filter (\<lambda>x. f x = k) xs) \<le> 1) \<Longrightarrow> distinct (map f xs)"
proof (induction xs)
  case (Cons x xs)
  have "length (filter (\<lambda>y. f y = k) xs) \<le> 1" for k using Cons.prems [of k] by (auto split: if_splits)
  moreover have "f x \<notin> f ` set xs"
  proof
    assume "f x \<in> f ` set xs"
    then obtain y where "y \<in> set xs" "f y = f x" by auto
    then have "filter (\<lambda>y. f y = f x) xs \<noteq> []" by (auto simp: filter_empty_conv)
    then show False using Cons.prems [of "f x"] by (cases "filter (\<lambda>y. f y = f x) xs") simp_all
  qed
  ultimately show ?case using Cons.IH by simp
qed simp

text \<open>
  C29: an event reaches the kernel at most once. In every interleaving of the processing of events, with any
  failures of the file that leave it as it was and whatever the rest of the runtime does, no two turns are
  submitted with the same idempotency key. When the turn of an event was submitted, the same event that arrives
  again is answered, if without an error, as a duplicate and submits nothing.
\<close>

theorem inbound_submitted_once:
  assumes "in_file s0 = None" and "in_submitted s0 = []" and "\<not> ce_windows (cn_env (in_connector s0))" and "inbound_run (s0, []) (s, ps)"
    and "processExternalEvent event s = ((result, None), s')"
    and "stableOpaqueID (cn_env (in_connector s)) ''turn'' (event_parts event) \<in> ts_IdempotencyKey ` set (in_submitted s)"
  shows "distinct (map ts_IdempotencyKey (in_submitted s)) \<and> ps_Duplicate result \<and> in_submitted s' = in_submitted s"
proof -
  have "inbound_ok s0 []" using assms(1-3) by (simp add: inbound_ok_def submissions_def)
  with inbound_run_ok [OF assms(4)] have ok: "inbound_ok s ps" by simp
  have "length (filter (\<lambda>q. ts_IdempotencyKey q = k) (in_submitted s)) \<le> 1" for k
  proof (cases "submissions k s ps = 0")
    case False
    with ok obtain x where "k = ''turn_'' @ x" unfolding inbound_ok_def by blast
    with inbound_okD [OF ok, of x] have "submissions k s ps \<le> 1" by (simp split: if_splits)
    then show ?thesis by (simp add: submissions_def)
  qed (simp add: submissions_def)
  then have dist: "distinct (map ts_IdempotencyKey (in_submitted s))" by (rule distinct_if_single)
  let ?x = "opaque (cn_env (in_connector s)) event"
  have "filter (\<lambda>q. ts_IdempotencyKey q = ''turn_'' @ ?x) (in_submitted s) \<noteq> []" using assms(6) unfolding event_keys(2) by (auto simp: filter_empty_conv)
  then have "submissions (''turn_'' @ ?x) s ps \<noteq> 0" unfolding submissions_def by (simp only: length_0_conv add_is_0 simp_thms)
  then have present: "go_lookup (records_of s) (''inbound_'' @ ?x) \<noteq> None" using inbound_okD [OF ok, of ?x] by (auto split: if_splits)
  obtain p s1 where receive: "receive_event event s = (p, s1)" by (rule prod.exhaust)
  have "\<not> ce_windows (cn_env (in_connector s))" using ok by (simp add: inbound_ok_def)
  with receive show ?thesis
  proof (cases rule: receive_cases)
    case (ended result' err)
    then show ?thesis using assms(5) receive dist by (simp add: processExternalEvent_def)
  next
    case (submit ctx r)
    with present show ?thesis by simp
  qed
qed

section \<open>Witness\<close>

definition sample_inbound :: inbound where
  "sample_inbound = \<lparr>in_env = \<lparr>ie_inboundStore = True,
      ie_client = Some (\<lambda>req moment. (\<lparr>tr_SessionID = [], tr_TurnID = ''t'', tr_Final = [], tr_Error = None\<rparr>, None)), ie_mapper = None\<rparr>,
     in_connector = \<lparr>cn_env = \<lparr>ce_sum = id, ce_format = (\<lambda>now. ''t''), ce_order = id, ce_windows = False,
       ce_io = (\<lambda>n. \<lparr>io_lock = None, io_load = None, io_prepare = None, io_rename = None, io_remove = None, io_rename2 = None, io_wall = 1\<rparr>),
       ce_now = (\<lambda>n. 1), ce_store = False, ce_adapters = (\<lambda>connector. None), ce_probes = (\<lambda>connector. None)\<rparr>,
       cn_moment = 0, cn_outbox = None, cn_executed = []\<rparr>, in_file = None, in_submitted = []\<rparr>"

definition sample_event :: ExternalEvent where
  "sample_event = (let ref = \<lparr>xf_Connector = ''x'', xf_Kind = ''k'', xf_ExternalID = ''i'', xf_Display = [], xf_Metadata = []\<rparr>
     in \<lparr>xe_Connector = ''x'', xe_ExternalEventID = ''e'', xe_EventType = ''m'',
       xe_ThreadRef = \<lparr>xt_Connector = ''x'', xt_Kind = ''k'', xt_ExternalID = ''i'', xt_Display = [], xt_Metadata = []\<rparr>, xe_SenderRef = ref,
       xe_MessageRef = ref, xe_Body = ''b'', xe_ResourceRefs = [], xe_ReceivedAt = 0, xe_SourceValidation = [], xe_Metadata = []\<rparr>)"

definition sample_processed :: inbound where "sample_processed = snd (processExternalEvent sample_event sample_inbound)"

lemma process_run: "inbound_run (s, [p]) (snd (process p s), [fst (process p s)])"
  by (rule r_into_rtranclp) (auto intro: inbound_step.process [of 0 "[p]" s "fst (process p s)" "snd (process p s)", simplified])

lemma sample_processed_run: "\<exists>ps. inbound_run (sample_inbound, []) (sample_processed, ps)"
proof -
  have processed: "snd (processExternalEvent event s) =
      (let q = process (Receive event) s; q = process (fst q) (snd q); q = process (fst q) (snd q) in snd q)" for event s
    by (simp add: processExternalEvent_def Let_def split: prod.split processing.split)
  have "inbound_run (sample_inbound, []) (sample_inbound, [Receive sample_event])"
    using inbound_step.arrive [of sample_inbound "[]" sample_event] by auto
  also note process_run
  also note process_run
  also note process_run
  finally show ?thesis unfolding sample_processed_def processed Let_def by blast
qed

lemma sample_facts:
  "map ts_IdempotencyKey (in_submitted sample_processed) = [stableOpaqueID (cn_env (in_connector sample_processed)) ''turn'' (event_parts sample_event)]"
  "snd (fst (processExternalEvent sample_event sample_processed)) = None"
  by code_simp+

theorem inbound_submitted_once_witness:
  "ps_Duplicate (fst (fst (processExternalEvent sample_event sample_processed))) \<and>
   in_submitted (snd (processExternalEvent sample_event sample_processed)) = in_submitted sample_processed"
proof -
  obtain ps where "inbound_run (sample_inbound, []) (sample_processed, ps)" using sample_processed_run by blast
  moreover obtain result s' where again: "processExternalEvent sample_event sample_processed = ((result, None), s')"
    using sample_facts(2) by (metis prod.collapse)
  moreover have "stableOpaqueID (cn_env (in_connector sample_processed)) ''turn'' (event_parts sample_event) \<in> ts_IdempotencyKey ` set (in_submitted sample_processed)"
    by (metis list.set_intros(1) list.set_map sample_facts(1))
  moreover have "in_file sample_inbound = None" "in_submitted sample_inbound = []" "\<not> ce_windows (cn_env (in_connector sample_inbound))"
    by (simp_all add: sample_inbound_def)
  ultimately show ?thesis using inbound_submitted_once [of sample_inbound sample_processed ps sample_event result s'] again by simp
qed

end
