(* ===== verification/Connector_Source.thy ===== *)
theory Connector_Source
  imports Connector_Inbound "HOL-Library.Product_Lexorder"
begin

text \<open>
  The records of a connector's sources (\<^verbatim>\<open>source_types.go\<close>, \<^verbatim>\<open>source_lifecycle_store_file.go\<close>,
  \<^verbatim>\<open>source_lifecycle_operator.go\<close>, \<^verbatim>\<open>source_failure_store_file.go\<close>): the run of each source, its attempts, how
  far it has read (its cursors), the evidence of verified events, what an operator did, and what went wrong. Each
  operation is atomic under the lock of its file and reads the file before anything else.
\<close>

section \<open>Values\<close>

abbreviation SourceRunStatusStarting :: string where "SourceRunStatusStarting \<equiv> ''starting''"
abbreviation SourceRunStatusReady :: string where "SourceRunStatusReady \<equiv> ''ready''"
abbreviation SourceRunStatusDegraded :: string where "SourceRunStatusDegraded \<equiv> ''degraded''"
abbreviation SourceRunStatusBlocked :: string where "SourceRunStatusBlocked \<equiv> ''blocked''"
abbreviation SourceRunStatusStopped :: string where "SourceRunStatusStopped \<equiv> ''stopped''"

abbreviation SourceAttemptOutcomeFailed :: string where "SourceAttemptOutcomeFailed \<equiv> ''failed''"
abbreviation SourceAttemptOutcomeBlocked :: string where "SourceAttemptOutcomeBlocked \<equiv> ''blocked''"
abbreviation SourceAttemptOutcomeStopped :: string where "SourceAttemptOutcomeStopped \<equiv> ''stopped''"

abbreviation SourceCursorKindExternalEventID :: string where "SourceCursorKindExternalEventID \<equiv> ''external_event_id''"
abbreviation SourceReadinessReasonSourceCommandInvalid :: string where "SourceReadinessReasonSourceCommandInvalid \<equiv> ''source_command_invalid''"
abbreviation SourceReadinessReasonSourceRuntimeFailed :: string where "SourceReadinessReasonSourceRuntimeFailed \<equiv> ''source_runtime_failed''"

abbreviation SourceValidationVerified :: string where "SourceValidationVerified \<equiv> ''verified''"
abbreviation SourceValidationRejected :: string where "SourceValidationRejected \<equiv> ''rejected''"

abbreviation SourceOperatorActionClearBlocked :: string where "SourceOperatorActionClearBlocked \<equiv> ''clear_blocked''"
abbreviation SourceOperatorActionRequestRestart :: string where "SourceOperatorActionRequestRestart \<equiv> ''request_restart''"
abbreviation SourceOperatorActionResetCursor :: string where "SourceOperatorActionResetCursor \<equiv> ''reset_cursor''"

record SourceRun =
  srun_SourceID :: string
  srun_Connector :: string
  srun_AdapterRef :: string
  srun_Status :: string
  srun_StartedAt :: time
  srun_StoppedAt :: time
  srun_LastReadyAt :: time
  srun_BlockedReasonCode :: string
  srun_BlockedReason :: string
  srun_UpdatedAt :: time

record SourceAttempt =
  satt_AttemptID :: string
  satt_SourceRunID :: string
  satt_StartedAt :: time
  satt_EndedAt :: time
  satt_Outcome :: string
  satt_FailureRef :: string

record SourceCursor =
  scur_SourceID :: string
  scur_CursorKind :: string
  scur_CursorValue :: string
  scur_WatermarkAt :: time
  scur_UpdatedAt :: time

record SourceVerificationEvidence =
  sver_SourceEventRef :: string
  sver_SourceBatchRef :: string
  sver_SourceID :: string
  sver_Connector :: string
  sver_ValidationStatus :: string
  sver_EvidenceKind :: string
  sver_EvidenceRef :: string
  sver_CheckedAt :: time
  sver_AdapterRef :: string

record SourceOperatorActionRecord =
  sact_ActionID :: string
  sact_SourceID :: string
  sact_Action :: string
  sact_Reason :: string
  sact_PreviousStatus :: string
  sact_NewStatus :: string
  sact_CursorKind :: string
  sact_CursorValue :: string
  sact_AcceptedDuplicateRisk :: bool
  sact_CreatedAt :: time

record SourceFailureRecord =
  sfail_RecordID :: string
  sfail_Connector :: string
  sfail_EventSource :: string
  sfail_SourceRunRef :: string
  sfail_SourceAttemptRef :: string
  sfail_Reason :: string
  sfail_Detail :: string
  sfail_DiagnosticExcerpt :: string
  sfail_PayloadHash :: string
  sfail_PayloadSizeBytes :: int
  sfail_DebugRef :: string
  sfail_ResourceRef :: string
  sfail_SourceValidation :: string
  sfail_CreatedAt :: time

record fileSourceLifecyclePayload =
  sl_Runs :: "SourceRun go_map"
  sl_Attempts :: "SourceAttempt list go_map"
  sl_Cursors :: "SourceCursor go_map"
  sl_Verifications :: "SourceVerificationEvidence go_map"
  sl_OperatorActions :: "SourceOperatorActionRecord list go_map"

definition no_action :: SourceOperatorActionRecord where
  "no_action = \<lparr>sact_ActionID = [], sact_SourceID = [], sact_Action = [], sact_Reason = [], sact_PreviousStatus = [], sact_NewStatus = [],
     sact_CursorKind = [], sact_CursorValue = [], sact_AcceptedDuplicateRisk = False, sact_CreatedAt = 0\<rparr>"

definition source_reset :: fileSourceLifecyclePayload where
  "source_reset = \<lparr>sl_Runs = [], sl_Attempts = [], sl_Cursors = [], sl_Verifications = [], sl_OperatorActions = []\<rparr>"

section \<open>The world of the sources\<close>

text \<open>
  Beside the environment of the connectors: the text of an error, the digest of a payload in hexadecimal digits, and
  the library's sort by time, which leaves open how equal times are ordered.
\<close>

record source_env =
  so_env :: connector_env
  so_text :: "go_error \<Rightarrow> string"
  so_hash :: "string \<Rightarrow> string"
  so_sortAttempts :: "SourceAttempt list \<Rightarrow> SourceAttempt list"
  so_sortActions :: "SourceOperatorActionRecord list \<Rightarrow> SourceOperatorActionRecord list"

text \<open>The two files, the moment, and the events that were given to the handler with what it returned.\<close>

record source_state =
  ss_moment :: nat
  ss_lifecycle :: "fileSourceLifecyclePayload option"
  ss_failures :: "SourceFailureRecord go_map option"
  ss_handled :: "(ExternalEvent \<times> go_error option) list"

definition source_io :: "source_env \<Rightarrow> source_state \<Rightarrow> store_io" where
  "source_io env s = ce_io (so_env env) (ss_moment s)"

text \<open>An operation on a file of the runtime: it may end with the writing of a new content.\<close>

definition file_op :: "source_env \<Rightarrow> 'p \<Rightarrow> ('p \<Rightarrow> 'a res \<times> 'p option) \<Rightarrow> source_state \<Rightarrow> 'p option \<Rightarrow> 'a res \<times> 'p option" where
  "file_op env reset body s =
     withLockedState (source_io env s) reset (\<lambda>payload f.
       case body payload of
         (r, None) \<Rightarrow> (r, f)
       | (r, Some payload) \<Rightarrow>
           (case writeLocked (ce_windows (so_env env)) (source_io env s) payload f of
              (Some err, f) \<Rightarrow> (Inl err, f)
            | (None, f) \<Rightarrow> (r, f)))"

definition source_op ::
  "source_env \<Rightarrow> (fileSourceLifecyclePayload \<Rightarrow> 'a res \<times> fileSourceLifecyclePayload option) \<Rightarrow> source_state \<Rightarrow> 'a res \<times> source_state" where
  "source_op env body s =
     (case file_op env source_reset body s (ss_lifecycle s) of
        (r, f) \<Rightarrow> (r, s\<lparr>ss_lifecycle := f, ss_moment := Suc (ss_moment s)\<rparr>))"

definition failure_op ::
  "source_env \<Rightarrow> (SourceFailureRecord go_map \<Rightarrow> 'a res \<times> SourceFailureRecord go_map option) \<Rightarrow> source_state \<Rightarrow> 'a res \<times> source_state" where
  "failure_op env body s =
     (case file_op env [] body s (ss_failures s) of
        (r, f) \<Rightarrow> (r, s\<lparr>ss_failures := f, ss_moment := Suc (ss_moment s)\<rparr>))"

abbreviation source_wall :: "source_env \<Rightarrow> source_state \<Rightarrow> time" where
  "source_wall env s \<equiv> io_wall (source_io env s)"

section \<open>What may be recorded\<close>

definition validSourceRunStatus :: "string \<Rightarrow> bool" where
  "validSourceRunStatus status \<longleftrightarrow> status \<in> set [''starting'', ''ready'', ''degraded'', ''blocked'', ''stopped'']"

definition validSourceAttemptOutcome :: "string \<Rightarrow> bool" where
  "validSourceAttemptOutcome outcome \<longleftrightarrow> outcome \<in> set [''ready'', ''failed'', ''blocked'', ''stopped'']"

definition validSourceEvidenceKind :: "string \<Rightarrow> bool" where
  "validSourceEvidenceKind kind \<longleftrightarrow> kind \<in> set [''webhook_signature'', ''provider_event_signature'', ''trusted_local_adapter_attestation'']"

definition validSourceReadinessReasonCode :: "string \<Rightarrow> bool" where
  "validSourceReadinessReasonCode code \<longleftrightarrow>
     code \<in> set [''missing_profile'', ''profile_expired'', ''permission_denied'', ''refresh_required'', ''operator_action_required'',
       ''source_command_invalid'', ''source_runtime_failed'']"

definition validSourceOperatorAction :: "string \<Rightarrow> bool" where
  "validSourceOperatorAction action \<longleftrightarrow> action \<in> set [''clear_blocked'', ''request_restart'', ''reset_cursor'']"

definition sourceVerificationKey :: "SourceVerificationEvidence \<Rightarrow> string" where
  "sourceVerificationKey evidence =
     (if TrimSpace (sver_SourceEventRef evidence) \<noteq> [] then ''event:'' @ TrimSpace (sver_SourceEventRef evidence)
      else ''batch:'' @ TrimSpace (sver_SourceBatchRef evidence))"

definition sourceCursorKey :: "string \<Rightarrow> string \<Rightarrow> string" where
  "sourceCursorKey sourceID cursorKind = TrimSpace sourceID @ [CHR 0x00] @ TrimSpace cursorKind"

definition normalizeSourceRun :: "time \<Rightarrow> SourceRun \<Rightarrow> SourceRun res" where
  "normalizeSourceRun now run =
     (let run = run\<lparr>srun_SourceID := TrimSpace (srun_SourceID run), srun_Connector := TrimSpace (srun_Connector run),
            srun_AdapterRef := TrimSpace (srun_AdapterRef run), srun_Status := TrimSpace (srun_Status run),
            srun_BlockedReasonCode := TrimSpace (srun_BlockedReasonCode run), srun_BlockedReason := TrimSpace (srun_BlockedReason run)\<rparr>
      in if srun_SourceID run = [] then Inl (errors_New ''source run source id is required'')
         else if srun_Connector run = [] then Inl (errors_New ''source run connector is required'')
         else if srun_AdapterRef run = [] then Inl (errors_New ''source run adapter ref is required'')
         else if \<not> validSourceRunStatus (srun_Status run) then Inl (errors_New ''source run status is invalid'')
         else if srun_BlockedReasonCode run \<noteq> [] \<and> \<not> validSourceReadinessReasonCode (srun_BlockedReasonCode run)
         then Inl (errors_New ''source run blocked reason code is invalid'')
         else Inr (run\<lparr>srun_StartedAt := (if srun_StartedAt run = 0 then now else srun_StartedAt run),
           srun_LastReadyAt := (if srun_Status run = SourceRunStatusReady \<and> srun_LastReadyAt run = 0 then now else srun_LastReadyAt run),
           srun_UpdatedAt := (if srun_UpdatedAt run = 0 then now else srun_UpdatedAt run)\<rparr>))"

definition normalizeSourceAttempt :: "connector_env \<Rightarrow> time \<Rightarrow> SourceAttempt \<Rightarrow> SourceAttempt res" where
  "normalizeSourceAttempt env now attempt =
     (let attempt = attempt\<lparr>satt_AttemptID := TrimSpace (satt_AttemptID attempt), satt_SourceRunID := TrimSpace (satt_SourceRunID attempt),
            satt_Outcome := TrimSpace (satt_Outcome attempt), satt_FailureRef := TrimSpace (satt_FailureRef attempt)\<rparr>
      in if satt_SourceRunID attempt = [] then Inl (errors_New ''source attempt source run id is required'')
         else if \<not> validSourceAttemptOutcome (satt_Outcome attempt) then Inl (errors_New ''source attempt outcome is invalid'')
         else
           let attempt = attempt\<lparr>satt_StartedAt := (if satt_StartedAt attempt = 0 then now else satt_StartedAt attempt),
                 satt_EndedAt := (if satt_EndedAt attempt = 0 then now else satt_EndedAt attempt)\<rparr>
           in Inr (attempt\<lparr>satt_AttemptID := (if satt_AttemptID attempt = []
                then stableOpaqueID env ''source_attempt'' [satt_SourceRunID attempt, satt_Outcome attempt, ce_format env (satt_StartedAt attempt),
                  ce_format env (satt_EndedAt attempt), satt_FailureRef attempt]
                else satt_AttemptID attempt)\<rparr>))"

definition normalizeSourceCursor :: "time \<Rightarrow> SourceCursor \<Rightarrow> SourceCursor res" where
  "normalizeSourceCursor now cursor =
     (let cursor = cursor\<lparr>scur_SourceID := TrimSpace (scur_SourceID cursor), scur_CursorKind := TrimSpace (scur_CursorKind cursor),
            scur_CursorValue := TrimSpace (scur_CursorValue cursor)\<rparr>
      in if scur_SourceID cursor = [] \<or> scur_CursorKind cursor = [] then Inl (errors_New ''source cursor source id and kind are required'')
         else if scur_CursorValue cursor = [] then Inl (errors_New ''source cursor value is required'')
         else Inr (cursor\<lparr>scur_UpdatedAt := (if scur_UpdatedAt cursor = 0 then now else scur_UpdatedAt cursor)\<rparr>))"

definition normalizeSourceVerificationEvidence :: "time \<Rightarrow> SourceVerificationEvidence \<Rightarrow> SourceVerificationEvidence res" where
  "normalizeSourceVerificationEvidence now evidence =
     (let evidence = evidence\<lparr>sver_SourceEventRef := TrimSpace (sver_SourceEventRef evidence), sver_SourceBatchRef := TrimSpace (sver_SourceBatchRef evidence),
            sver_SourceID := TrimSpace (sver_SourceID evidence), sver_Connector := TrimSpace (sver_Connector evidence),
            sver_ValidationStatus := TrimSpace (sver_ValidationStatus evidence), sver_EvidenceKind := TrimSpace (sver_EvidenceKind evidence),
            sver_EvidenceRef := TrimSpace (sver_EvidenceRef evidence), sver_AdapterRef := TrimSpace (sver_AdapterRef evidence)\<rparr>
      in if sver_SourceEventRef evidence = [] \<and> sver_SourceBatchRef evidence = [] then Inl (errors_New ''source verification event or batch ref is required'')
         else if sver_SourceID evidence = [] then Inl (errors_New ''source verification source id is required'')
         else if sver_Connector evidence = [] then Inl (errors_New ''source verification connector is required'')
         else if sver_AdapterRef evidence = [] then Inl (errors_New ''source verification adapter ref is required'')
         else if sver_ValidationStatus evidence = [] then Inl (errors_New ''source verification status is required'')
         else if sver_ValidationStatus evidence = SourceValidationVerified \<and> (sver_EvidenceKind evidence = [] \<or> sver_EvidenceRef evidence = [])
         then Inl (errors_New ''verified source event requires evidence kind and ref'')
         else if sver_EvidenceKind evidence \<noteq> [] \<and> \<not> validSourceEvidenceKind (sver_EvidenceKind evidence)
         then Inl (errors_New ''source verification evidence kind is invalid'')
         else if sver_ValidationStatus evidence \<notin> set [''verified'', ''unchecked'', ''rejected''] then Inl (errors_New ''source verification status is invalid'')
         else Inr (evidence\<lparr>sver_CheckedAt := (if sver_CheckedAt evidence = 0 then now else sver_CheckedAt evidence)\<rparr>))"

definition normalizeSourceOperatorAction :: "connector_env \<Rightarrow> time \<Rightarrow> SourceOperatorActionRecord \<Rightarrow> SourceOperatorActionRecord res" where
  "normalizeSourceOperatorAction env now action =
     (let action = action\<lparr>sact_ActionID := TrimSpace (sact_ActionID action), sact_SourceID := TrimSpace (sact_SourceID action),
            sact_Action := TrimSpace (sact_Action action), sact_Reason := TrimSpace (sact_Reason action),
            sact_PreviousStatus := TrimSpace (sact_PreviousStatus action), sact_NewStatus := TrimSpace (sact_NewStatus action),
            sact_CursorKind := TrimSpace (sact_CursorKind action), sact_CursorValue := TrimSpace (sact_CursorValue action)\<rparr>
      in if sact_SourceID action = [] then Inl (errors_New ''source operator action source id is required'')
         else if \<not> validSourceOperatorAction (sact_Action action) then Inl (errors_New ''source operator action is invalid'')
         else if \<not> safeConnectorCommandReason (sact_Reason action) then Inl (errors_New ''source operator reason is unsafe'')
         else if sact_Action action = SourceOperatorActionResetCursor \<and> (sact_CursorKind action = [] \<or> sact_CursorValue action = [])
         then Inl (errors_New ''source cursor reset action requires cursor kind and value'')
         else if sact_Action action = SourceOperatorActionResetCursor \<and> \<not> sact_AcceptedDuplicateRisk action
         then Inl (errors_New ''source cursor reset action requires accepted duplicate risk'')
         else
           let action = action\<lparr>sact_CreatedAt := (if sact_CreatedAt action = 0 then now else sact_CreatedAt action)\<rparr>
           in Inr (action\<lparr>sact_ActionID := (if sact_ActionID action = []
                then stableOpaqueID env ''source_operator'' [sact_SourceID action, sact_Action action, sact_Reason action, sact_CursorKind action,
                  sact_CursorValue action, ce_format env (sact_CreatedAt action)]
                else sact_ActionID action)\<rparr>))"

section \<open>The store of the sources\<close>

definition upsert_run :: "SourceRun \<Rightarrow> fileSourceLifecyclePayload \<Rightarrow> unit res \<times> fileSourceLifecyclePayload option" where
  "upsert_run run payload =
     (let run = (case go_lookup (sl_Runs payload) (srun_SourceID run) of
          Some existing \<Rightarrow> if srun_StartedAt existing \<noteq> 0 then run\<lparr>srun_StartedAt := srun_StartedAt existing\<rparr> else run
        | None \<Rightarrow> run)
      in (Inr (), Some (payload\<lparr>sl_Runs := go_store (srun_SourceID run) run (sl_Runs payload)\<rparr>)))"

definition UpsertSourceRun :: "source_env \<Rightarrow> SourceRun \<Rightarrow> source_state \<Rightarrow> unit res \<times> source_state" where
  "UpsertSourceRun env run s =
     (case normalizeSourceRun (source_wall env s) run of
        Inl err \<Rightarrow> (Inl err, s)
      | Inr run \<Rightarrow> source_op env (upsert_run run) s)"

text \<open>The lists are sorted by a time and then by the key of the map, so that no two entries are equal in the order.\<close>

definition ListSourceRuns :: "source_env \<Rightarrow> source_state \<Rightarrow> SourceRun list res \<times> source_state" where
  "ListSourceRuns env =
     source_op env (\<lambda>payload. (Inr (sort_key (\<lambda>run. (srun_UpdatedAt run, srun_SourceID run)) (go_values (ce_order (so_env env)) (sl_Runs payload))), None))"

definition runs_attempts :: "string \<Rightarrow> fileSourceLifecyclePayload \<Rightarrow> SourceAttempt list" where
  "runs_attempts sourceRunID payload = (case go_lookup (sl_Attempts payload) sourceRunID of Some attempts \<Rightarrow> attempts | None \<Rightarrow> [])"

definition record_attempt :: "source_env \<Rightarrow> SourceAttempt \<Rightarrow> fileSourceLifecyclePayload \<Rightarrow> unit res \<times> fileSourceLifecyclePayload option" where
  "record_attempt env attempt payload =
     (Inr (), Some (payload\<lparr>sl_Attempts := go_store (satt_SourceRunID attempt)
        (so_sortAttempts env (runs_attempts (satt_SourceRunID attempt) payload @ [attempt])) (sl_Attempts payload)\<rparr>))"

definition RecordSourceAttempt :: "source_env \<Rightarrow> SourceAttempt \<Rightarrow> source_state \<Rightarrow> unit res \<times> source_state" where
  "RecordSourceAttempt env attempt s =
     (case normalizeSourceAttempt (so_env env) (source_wall env s) attempt of
        Inl err \<Rightarrow> (Inl err, s)
      | Inr attempt \<Rightarrow> source_op env (record_attempt env attempt) s)"

definition ListSourceAttempts :: "source_env \<Rightarrow> string \<Rightarrow> source_state \<Rightarrow> SourceAttempt list res \<times> source_state" where
  "ListSourceAttempts env sourceRunID s =
     (let sourceRunID = TrimSpace sourceRunID
      in if sourceRunID = [] then (Inl (errors_New ''source run id is required''), s)
         else source_op env (\<lambda>payload. (Inr (so_sortAttempts env (runs_attempts sourceRunID payload)), None)) s)"

definition save_cursor :: "SourceCursor \<Rightarrow> fileSourceLifecyclePayload \<Rightarrow> fileSourceLifecyclePayload" where
  "save_cursor cursor payload =
     payload\<lparr>sl_Cursors := go_store (sourceCursorKey (scur_SourceID cursor) (scur_CursorKind cursor)) cursor (sl_Cursors payload)\<rparr>"

definition SaveSourceCursor :: "source_env \<Rightarrow> SourceCursor \<Rightarrow> source_state \<Rightarrow> unit res \<times> source_state" where
  "SaveSourceCursor env cursor s =
     (case normalizeSourceCursor (source_wall env s) cursor of
        Inl err \<Rightarrow> (Inl err, s)
      | Inr cursor \<Rightarrow> source_op env (\<lambda>payload. (Inr (), Some (save_cursor cursor payload))) s)"

definition GetSourceCursor :: "source_env \<Rightarrow> string \<Rightarrow> string \<Rightarrow> source_state \<Rightarrow> SourceCursor option res \<times> source_state" where
  "GetSourceCursor env sourceID cursorKind s =
     (let sourceID = TrimSpace sourceID; cursorKind = TrimSpace cursorKind
      in if sourceID = [] \<or> cursorKind = [] then (Inl (errors_New ''source id and cursor kind are required''), s)
         else source_op env (\<lambda>payload. (Inr (go_lookup (sl_Cursors payload) (sourceCursorKey sourceID cursorKind)), None)) s)"

definition ListSourceCursors :: "source_env \<Rightarrow> source_state \<Rightarrow> SourceCursor list res \<times> source_state" where
  "ListSourceCursors env =
     source_op env (\<lambda>payload. (Inr (sort_key (\<lambda>cursor. (scur_UpdatedAt cursor, sourceCursorKey (scur_SourceID cursor) (scur_CursorKind cursor)))
       (go_values (ce_order (so_env env)) (sl_Cursors payload))), None))"

definition record_verification :: "SourceVerificationEvidence \<Rightarrow> fileSourceLifecyclePayload \<Rightarrow> unit res \<times> fileSourceLifecyclePayload option" where
  "record_verification evidence payload =
     (Inr (), Some (payload\<lparr>sl_Verifications := go_store (sourceVerificationKey evidence) evidence (sl_Verifications payload)\<rparr>))"

definition RecordSourceVerification :: "source_env \<Rightarrow> SourceVerificationEvidence \<Rightarrow> source_state \<Rightarrow> unit res \<times> source_state" where
  "RecordSourceVerification env evidence s =
     (case normalizeSourceVerificationEvidence (source_wall env s) evidence of
        Inl err \<Rightarrow> (Inl err, s)
      | Inr evidence \<Rightarrow> source_op env (record_verification evidence) s)"

definition ListSourceVerifications :: "source_env \<Rightarrow> source_state \<Rightarrow> SourceVerificationEvidence list res \<times> source_state" where
  "ListSourceVerifications env =
     source_op env (\<lambda>payload. (Inr (sort_key (\<lambda>evidence. (sver_CheckedAt evidence, sourceVerificationKey evidence))
       (go_values (ce_order (so_env env)) (sl_Verifications payload))), None))"

section \<open>What an operator does with a source\<close>

definition defaultSourceOperatorReason :: "string \<Rightarrow> string \<Rightarrow> string" where
  "defaultSourceOperatorReason reason fallback = (if TrimSpace reason = [] then fallback else TrimSpace reason)"

definition sourceOperatorTime :: "store_io \<Rightarrow> time \<Rightarrow> time" where
  "sourceOperatorTime io now = or_wall io now"

definition add_action :: "source_env \<Rightarrow> string \<Rightarrow> SourceOperatorActionRecord \<Rightarrow> fileSourceLifecyclePayload \<Rightarrow> fileSourceLifecyclePayload" where
  "add_action env sourceID action payload =
     payload\<lparr>sl_OperatorActions := go_store sourceID
       (so_sortActions env ((case go_lookup (sl_OperatorActions payload) sourceID of Some actions \<Rightarrow> actions | None \<Rightarrow> []) @ [action]))
       (sl_OperatorActions payload)\<rparr>"

definition clear_blocked ::
  "source_env \<Rightarrow> string \<Rightarrow> string \<Rightarrow> time \<Rightarrow> time \<Rightarrow> fileSourceLifecyclePayload \<Rightarrow>
     (SourceRun \<times> SourceOperatorActionRecord) res \<times> fileSourceLifecyclePayload option" where
  "clear_blocked env sourceID reason now wall payload =
     (case go_lookup (sl_Runs payload) sourceID of
        None \<Rightarrow> (Inl (errors_New ''source run not found''), None)
      | Some existing \<Rightarrow>
          if srun_Status existing \<noteq> SourceRunStatusBlocked then (Inl (errors_New ''source run is not blocked''), None)
          else
            let run = existing\<lparr>srun_Status := SourceRunStatusStopped, srun_StoppedAt := now, srun_BlockedReasonCode := [], srun_BlockedReason := [],
                  srun_UpdatedAt := now\<rparr>
            in case normalizeSourceOperatorAction (so_env env) wall (no_action\<lparr>sact_SourceID := sourceID, sact_Action := SourceOperatorActionClearBlocked,
                 sact_Reason := reason, sact_PreviousStatus := srun_Status existing, sact_NewStatus := srun_Status run, sact_CreatedAt := now\<rparr>) of
                 Inl err \<Rightarrow> (Inl err, None)
               | Inr action \<Rightarrow> (Inr (run, action), Some (add_action env sourceID action (payload\<lparr>sl_Runs := go_store sourceID run (sl_Runs payload)\<rparr>))))"

definition ClearBlockedSourceRun ::
  "source_env \<Rightarrow> string \<Rightarrow> string \<Rightarrow> time \<Rightarrow> source_state \<Rightarrow> (SourceRun \<times> SourceOperatorActionRecord) res \<times> source_state" where
  "ClearBlockedSourceRun env sourceID reason now s =
     (let sourceID = TrimSpace sourceID; reason = defaultSourceOperatorReason reason ''operator_cleared_blocked''
      in if sourceID = [] then (Inl (errors_New ''source id is required''), s)
         else if \<not> safeConnectorCommandReason reason then (Inl (errors_New ''source operator reason is unsafe''), s)
         else source_op env (clear_blocked env sourceID reason (sourceOperatorTime (source_io env s) now) (source_wall env s)) s)"

definition request_restart ::
  "source_env \<Rightarrow> string \<Rightarrow> string \<Rightarrow> time \<Rightarrow> time \<Rightarrow> fileSourceLifecyclePayload \<Rightarrow> SourceOperatorActionRecord res \<times> fileSourceLifecyclePayload option" where
  "request_restart env sourceID reason now wall payload =
     (case go_lookup (sl_Runs payload) sourceID of
        None \<Rightarrow> (Inl (errors_New ''source run not found''), None)
      | Some run \<Rightarrow>
          (case normalizeSourceOperatorAction (so_env env) wall (no_action\<lparr>sact_SourceID := sourceID, sact_Action := SourceOperatorActionRequestRestart,
             sact_Reason := reason, sact_PreviousStatus := srun_Status run, sact_NewStatus := srun_Status run, sact_CreatedAt := now\<rparr>) of
             Inl err \<Rightarrow> (Inl err, None)
           | Inr action \<Rightarrow> (Inr action, Some (add_action env sourceID action payload))))"

definition RequestSourceRestart ::
  "source_env \<Rightarrow> string \<Rightarrow> string \<Rightarrow> time \<Rightarrow> source_state \<Rightarrow> SourceOperatorActionRecord res \<times> source_state" where
  "RequestSourceRestart env sourceID reason now s =
     (let sourceID = TrimSpace sourceID; reason = defaultSourceOperatorReason reason ''operator_requested_restart''
      in if sourceID = [] then (Inl (errors_New ''source id is required''), s)
         else if \<not> safeConnectorCommandReason reason then (Inl (errors_New ''source operator reason is unsafe''), s)
         else source_op env (request_restart env sourceID reason (sourceOperatorTime (source_io env s) now) (source_wall env s)) s)"

definition reset_cursor ::
  "source_env \<Rightarrow> string \<Rightarrow> string \<Rightarrow> string \<Rightarrow> string \<Rightarrow> time \<Rightarrow> time \<Rightarrow> fileSourceLifecyclePayload \<Rightarrow>
     (SourceCursor \<times> SourceOperatorActionRecord) res \<times> fileSourceLifecyclePayload option" where
  "reset_cursor env sourceID cursorKind cursorValue reason now wall payload =
     (case go_lookup (sl_Runs payload) sourceID of
        None \<Rightarrow> (Inl (errors_New ''source run not found''), None)
      | Some _ \<Rightarrow>
          (case normalizeSourceCursor wall \<lparr>scur_SourceID = sourceID, scur_CursorKind = cursorKind, scur_CursorValue = cursorValue, scur_WatermarkAt = 0,
             scur_UpdatedAt = now\<rparr> of
             Inl err \<Rightarrow> (Inl err, None)
           | Inr cursor \<Rightarrow>
               (case normalizeSourceOperatorAction (so_env env) wall (no_action\<lparr>sact_SourceID := sourceID, sact_Action := SourceOperatorActionResetCursor,
                  sact_Reason := reason, sact_CursorKind := scur_CursorKind cursor, sact_CursorValue := scur_CursorValue cursor,
                  sact_AcceptedDuplicateRisk := True, sact_CreatedAt := now\<rparr>) of
                  Inl err \<Rightarrow> (Inl err, None)
                | Inr action \<Rightarrow> (Inr (cursor, action), Some (add_action env sourceID action (save_cursor cursor payload))))))"

definition ResetSourceCursor ::
  "source_env \<Rightarrow> string \<Rightarrow> string \<Rightarrow> string \<Rightarrow> string \<Rightarrow> bool \<Rightarrow> time \<Rightarrow> source_state \<Rightarrow> (SourceCursor \<times> SourceOperatorActionRecord) res \<times> source_state" where
  "ResetSourceCursor env sourceID cursorKind cursorValue reason acceptedDuplicateRisk now s =
     (let sourceID = TrimSpace sourceID; cursorKind = TrimSpace cursorKind; cursorValue = TrimSpace cursorValue;
          cursorKind = (if cursorKind = [] then SourceCursorKindExternalEventID else cursorKind);
          reason = defaultSourceOperatorReason reason ''operator_reset_cursor''
      in if sourceID = [] then (Inl (errors_New ''source id is required''), s)
         else if \<not> acceptedDuplicateRisk then (Inl (errors_New ''source cursor reset requires accepted duplicate-processing risk''), s)
         else if \<not> safeConnectorCommandReason reason then (Inl (errors_New ''source operator reason is unsafe''), s)
         else source_op env (reset_cursor env sourceID cursorKind cursorValue reason (sourceOperatorTime (source_io env s) now) (source_wall env s)) s)"

definition ListSourceOperatorActions :: "source_env \<Rightarrow> string \<Rightarrow> source_state \<Rightarrow> SourceOperatorActionRecord list res \<times> source_state" where
  "ListSourceOperatorActions env sourceID =
     source_op env (\<lambda>payload. (Inr (so_sortActions env
       (if TrimSpace sourceID = [] then concat (go_values (ce_order (so_env env)) (sl_OperatorActions payload))
        else case go_lookup (sl_OperatorActions payload) (TrimSpace sourceID) of Some actions \<Rightarrow> actions | None \<Rightarrow> [])), None))"

section \<open>The store of failures\<close>

definition looksLikeRawStructuredSourcePayload :: "string \<Rightarrow> bool" where
  "looksLikeRawStructuredSourcePayload value \<longleftrightarrow>
     (let value = TrimSpace value
      in length value \<ge> 2 \<and>
         ((hd value = CHR ''{'' \<and> last value = CHR ''}'') \<or> (hd value = CHR ''['' \<and> last value = CHR '']'')))"

definition safeSourceFailureDiagnostic :: "string \<Rightarrow> string" where
  "safeSourceFailureDiagnostic value =
     (let value = TrimSpace value
      in if value = [] then []
         else if isCredentialShapedExternalValue value then ''[redacted credential-shaped source diagnostic]''
         else if looksLikeRawStructuredSourcePayload value then ''[redacted raw source diagnostic]''
         else if length value > 512 then take 512 value @ [CHR 0x0A] @ ''[truncated]''
         else value)"

definition record_of :: "source_env \<Rightarrow> time \<Rightarrow> SourceFailureRecord \<Rightarrow> SourceFailureRecord" where
  "record_of env now r =
     (let r = r\<lparr>sfail_Connector := TrimSpace (sfail_Connector r), sfail_EventSource := TrimSpace (sfail_EventSource r),
            sfail_Reason := TrimSpace (sfail_Reason r), sfail_Detail := safeSourceFailureDiagnostic (TrimSpace (sfail_Detail r)),
            sfail_DiagnosticExcerpt := safeSourceFailureDiagnostic (TrimSpace (sfail_DiagnosticExcerpt r)),
            sfail_SourceValidation := (if TrimSpace (sfail_SourceValidation r) = [] then SourceValidationRejected else TrimSpace (sfail_SourceValidation r)),
            sfail_CreatedAt := (if sfail_CreatedAt r = 0 then now else sfail_CreatedAt r)\<rparr>
      in r\<lparr>sfail_RecordID := (if TrimSpace (sfail_RecordID r) = []
             then stableOpaqueID (so_env env) ''source_failure'' [sfail_Connector r, sfail_EventSource r, sfail_Reason r, sfail_Detail r, sfail_DiagnosticExcerpt r]
             else sfail_RecordID r)\<rparr>)"

definition RecordSourceFailure :: "source_env \<Rightarrow> SourceFailureRecord \<Rightarrow> source_state \<Rightarrow> unit res \<times> source_state" where
  "RecordSourceFailure env r s =
     (if TrimSpace (sfail_Connector r) = [] then (Inl (errors_New ''source failure connector is required''), s)
      else if TrimSpace (sfail_Reason r) = [] then (Inl (errors_New ''source failure reason is required''), s)
      else
        let r = record_of env (source_wall env s) r
        in failure_op env (\<lambda>records. (Inr (), Some (go_store (sfail_RecordID r) r records))) s)"

definition ListSourceFailures :: "source_env \<Rightarrow> source_state \<Rightarrow> SourceFailureRecord list res \<times> source_state" where
  "ListSourceFailures env =
     failure_op env (\<lambda>records. (Inr (sort_key (\<lambda>r. (sfail_CreatedAt r, sfail_RecordID r)) (go_values (ce_order (so_env env)) records)), None))"

section \<open>What an operation changes\<close>

text \<open>What a reader of the file of sources sees.\<close>

definition content :: "source_state \<Rightarrow> fileSourceLifecyclePayload" where
  "content s = (case ss_lifecycle s of None \<Rightarrow> source_reset | Some payload \<Rightarrow> payload)"

text \<open>
  On Windows a failed rename is followed by the removal of the file and a second rename, so that a failure of both
  loses the file. Where this does not happen a file has its old or its new content.
\<close>

definition files_kept :: "source_env \<Rightarrow> bool" where
  "files_kept env \<longleftrightarrow> ce_windows (so_env env) \<longrightarrow> (\<forall>n. io_rename (ce_io (so_env env) n) = None)"

lemma writeLocked_kept:
  assumes "writeLocked (ce_windows (so_env env)) (source_io env s) payload f = (err, f')" and "files_kept env"
  shows "f' = (if err = None then Some payload else f)"
  using assms by (auto simp: writeLocked_def replaceConnectorStateFile_def files_kept_def source_io_def split: option.splits if_splits)

lemma source_op_frame: "source_op env body s = (r, s') \<Longrightarrow> ss_handled s' = ss_handled s \<and> ss_failures s' = ss_failures s"
  by (auto simp: source_op_def split: prod.splits)

lemma source_op_content:
  assumes "source_op env body s = (r, s')" and "files_kept env"
  shows "content s' = content s \<or> (\<exists>x payload. body (content s) = (x, Some payload) \<and> content s' = payload)"
proof -
  obtain x w where body: "body (content s) = (x, w)" by fastforce
  from assms(1) obtain f where f: "file_op env source_reset body s (ss_lifecycle s) = (r, f)" and s': "ss_lifecycle s' = f"
    by (auto simp: source_op_def split: prod.splits)
  consider "f = ss_lifecycle s" | err payload where "w = Some payload" "writeLocked (ce_windows (so_env env)) (source_io env s) payload (ss_lifecycle s) = (err, f)"
    using f body by (cases w) (auto simp: file_op_def withLockedState_def content_def split: option.splits prod.splits)
  then show ?thesis
  proof cases
    case 1
    then show ?thesis using s' by (simp add: content_def)
  next
    case 2
    then show ?thesis using writeLocked_kept [OF 2(2) assms(2)] s' body by (auto simp: content_def split: if_splits)
  qed
qed

lemma source_op_Inr:
  assumes "source_op env body s = (Inr y, s')" and "body (content s) = (x, w)"
  shows "x = Inr y" and "content s' = (case w of None \<Rightarrow> content s | Some payload \<Rightarrow> payload)"
proof -
  have "x = Inr y \<and> content s' = (case w of None \<Rightarrow> content s | Some payload \<Rightarrow> payload)"
    using assms
    by (cases w) (auto simp: source_op_def file_op_def withLockedState_def writeLocked_def replaceConnectorStateFile_def content_def split: option.splits prod.splits if_splits)
  then show "x = Inr y" and "content s' = (case w of None \<Rightarrow> content s | Some payload \<Rightarrow> payload)" by simp_all
qed

lemma failure_op_frame: "failure_op env body s = (r, s') \<Longrightarrow> ss_handled s' = ss_handled s \<and> content s' = content s"
  by (auto simp: failure_op_def content_def split: prod.splits)

lemma RecordSourceFailure_frame: "RecordSourceFailure env rec s = (r, s') \<Longrightarrow> ss_handled s' = ss_handled s \<and> content s' = content s"
  by (auto simp: RecordSourceFailure_def Let_def dest: failure_op_frame split: if_splits)

lemma upsert_run_other:
  "upsert_run run payload = (x, Some payload') \<Longrightarrow>
     sl_Attempts payload' = sl_Attempts payload \<and> sl_Cursors payload' = sl_Cursors payload \<and> sl_Verifications payload' = sl_Verifications payload"
  by (auto simp: upsert_run_def Let_def)

lemma UpsertSourceRun_frame:
  assumes "UpsertSourceRun env run s = (r, s')" and "files_kept env"
  shows "ss_handled s' = ss_handled s" and "sl_Attempts (content s') = sl_Attempts (content s)"
    and "sl_Cursors (content s') = sl_Cursors (content s)" and "sl_Verifications (content s') = sl_Verifications (content s)"
proof -
  have "s' = s \<or> (\<exists>run. source_op env (upsert_run run) s = (r, s'))"
    using assms(1) by (auto simp: UpsertSourceRun_def split: sum.splits)
  then show "ss_handled s' = ss_handled s" and "sl_Attempts (content s') = sl_Attempts (content s)"
    and "sl_Cursors (content s') = sl_Cursors (content s)" and "sl_Verifications (content s') = sl_Verifications (content s)"
    using source_op_frame source_op_content [OF _ assms(2)] upsert_run_other by metis+
qed

lemma SaveSourceCursor_frame:
  assumes "SaveSourceCursor env cursor s = (r, s')" and "files_kept env"
  shows "ss_handled s' = ss_handled s" and "sl_Attempts (content s') = sl_Attempts (content s)"
    and "sl_Verifications (content s') = sl_Verifications (content s)"
proof -
  have "s' = s \<or> (\<exists>cursor. source_op env (\<lambda>payload. (Inr (), Some (save_cursor cursor payload))) s = (r, s'))"
    using assms(1) by (auto simp: SaveSourceCursor_def split: sum.splits)
  moreover have "sl_Attempts (save_cursor c p) = sl_Attempts p \<and> sl_Verifications (save_cursor c p) = sl_Verifications p" for c p
    by (simp add: save_cursor_def)
  ultimately show "ss_handled s' = ss_handled s" and "sl_Attempts (content s') = sl_Attempts (content s)"
    and "sl_Verifications (content s') = sl_Verifications (content s)"
    using source_op_frame source_op_content [OF _ assms(2)] by (metis option.inject prod.inject)+
qed

text \<open>Evidence that was accepted is trimmed, and names a kind and a reference when it verifies.\<close>

lemma normalize_evidence:
  assumes "normalizeSourceVerificationEvidence now ev = Inr ev'"
  shows "sver_SourceEventRef ev' = TrimSpace (sver_SourceEventRef ev)" "sver_SourceID ev' = TrimSpace (sver_SourceID ev)"
    "sver_Connector ev' = TrimSpace (sver_Connector ev)" "sver_ValidationStatus ev' = TrimSpace (sver_ValidationStatus ev)"
    "sver_EvidenceKind ev' = TrimSpace (sver_EvidenceKind ev)" "sver_EvidenceRef ev' = TrimSpace (sver_EvidenceRef ev)"
    "sver_AdapterRef ev' = TrimSpace (sver_AdapterRef ev)"
    "sver_ValidationStatus ev' = SourceValidationVerified \<Longrightarrow> validSourceEvidenceKind (sver_EvidenceKind ev') \<and> sver_EvidenceRef ev' \<noteq> []"
  using assms by (auto simp: normalizeSourceVerificationEvidence_def Let_def split: if_splits)

lemma RecordSourceVerification_cases [consumes 2]:
  assumes "RecordSourceVerification env ev s = (r, s')" and "files_kept env"
  obtains (kept) "content s' = content s" "ss_handled s' = ss_handled s" "\<exists>err. r = Inl err"
  | (written) ev' where "normalizeSourceVerificationEvidence (source_wall env s) ev = Inr ev'" "ss_handled s' = ss_handled s"
      "content s' = (content s)\<lparr>sl_Verifications := go_store (sourceVerificationKey ev') ev' (sl_Verifications (content s))\<rparr>"
proof (cases "normalizeSourceVerificationEvidence (source_wall env s) ev")
  case (Inl err)
  then show ?thesis using assms that(1) by (auto simp: RecordSourceVerification_def)
next
  case (Inr ev')
  then have op: "source_op env (record_verification ev') s = (r, s')" using assms(1) by (simp add: RecordSourceVerification_def)
  note frame = source_op_frame [OF op]
  show ?thesis
  proof (cases r)
    case (Inl err)
    then show ?thesis using source_op_content [OF op assms(2)] frame that(1) that(2) [OF Inr] by (auto simp: record_verification_def)
  next
    case (Inr u)
    then show ?thesis using source_op_Inr(2) [OF op [unfolded Inr], of "Inr ()"] frame that(2) [OF \<open>normalizeSourceVerificationEvidence _ ev = _\<close>]
      by (simp add: record_verification_def)
  qed
qed

end
