(* ===== verification/Connector_Intake.thy ===== *)
theory Connector_Intake
  imports Connector_Source
begin

text \<open>
  The intake of a connector (\<^verbatim>\<open>source_command_adapter.go\<close>, \<^verbatim>\<open>source_command_intake.go\<close>,
  \<^verbatim>\<open>external_command_support.go\<close>): a source is a process that writes one frame per line. Events that pass the checks
  are given to the handler; a cursor is saved only after an event that was handled; everything else is recorded as a
  failure. A process that fails is started again a bounded number of times.
\<close>

section \<open>Frames\<close>

record SourceCommandCursorFrame =
  cf_SourceID :: string
  cf_CursorKind :: string
  cf_CursorValue :: string
  cf_WatermarkAt :: time
  cf_UpdatedAt :: time
  cf_AfterEventID :: string

record SourceCommandFrame =
  fr_Kind :: string
  fr_SourceID :: string
  fr_Connector :: string
  fr_AdapterRef :: string
  fr_EventSource :: string
  fr_Event :: "ExternalEvent option"
  fr_Cursor :: "SourceCommandCursorFrame option"
  fr_VerificationEvidence :: "SourceVerificationEvidence option"
  fr_AfterEventID :: string
  fr_Reason :: string
  fr_Detail :: string
  fr_PayloadHash :: string
  fr_PayloadSizeBytes :: int

definition no_frame :: SourceCommandFrame where
  "no_frame = \<lparr>fr_Kind = [], fr_SourceID = [], fr_Connector = [], fr_AdapterRef = [], fr_EventSource = [], fr_Event = None, fr_Cursor = None,
     fr_VerificationEvidence = None, fr_AfterEventID = [], fr_Reason = [], fr_Detail = [], fr_PayloadHash = [], fr_PayloadSizeBytes = 0\<rparr>"

abbreviation SourceFrameKindReady :: string where "SourceFrameKindReady \<equiv> ''source.ready''"
abbreviation SourceFrameKindEvent :: string where "SourceFrameKindEvent \<equiv> ''source.event''"
abbreviation SourceFrameKindCursor :: string where "SourceFrameKindCursor \<equiv> ''source.cursor''"
abbreviation SourceFrameKindFailed :: string where "SourceFrameKindFailed \<equiv> ''source.failed''"
abbreviation SourceFrameKindStopped :: string where "SourceFrameKindStopped \<equiv> ''source.stopped''"

text \<open>What the reader of a process sees: a line, the end of reading with an error, a pause as long as the idle timeout, a cancellation.\<close>

datatype source_input = Line string | ReadFailed go_error | Idle | Cancelled go_error

text \<open>A process as the runtime sees it: why it could not be prepared or started, its output, and how it ended.\<close>

record source_process =
  pr_resolve :: "go_error option"
  pr_environment :: "go_error option"
  pr_pipe :: "go_error option"
  pr_start :: "go_error option"
  pr_output :: "source_input list"
  pr_wait :: "go_error option"
  pr_stderr :: "string list"

text \<open>
  The environment of the intake: the handler, the decoder of JSON (the first value of a line and whether the line
  ends there), the processes, and between two attempts the state of the context and the sleep.
\<close>

record intake_env =
  it_source :: source_env
  it_handle :: "(ExternalEvent \<Rightarrow> nat \<Rightarrow> go_error option) option"
  it_json :: "string \<Rightarrow> (SourceCommandFrame \<times> bool) res"
  it_process :: "nat \<Rightarrow> source_process"
  it_context :: "nat \<Rightarrow> go_error option"
  it_sleep :: "nat \<Rightarrow> duration \<Rightarrow> go_error option"

record SourceCommandFrameConsumer =
  fc_ExpectedSourceID :: string
  fc_ExpectedConnector :: string
  fc_ExpectedAdapterRef :: string
  fc_SourceStore :: bool
  fc_FailureStore :: bool
  fc_IgnoreSenderIDs :: "string list"
  fc_RestrictToAllowedThreads :: bool
  fc_AllowedThreadIDs :: "string list"
  fc_IdleTimeout :: duration

definition sourceCommandNow :: "intake_env \<Rightarrow> source_state \<Rightarrow> time \<times> source_state" where
  "sourceCommandNow env s = (ce_now (so_env (it_source env)) (ss_moment s), s\<lparr>ss_moment := Suc (ss_moment s)\<rparr>)"

definition firstNonEmpty :: "string list \<Rightarrow> string" where
  "firstNonEmpty values = (case find (\<lambda>value. value \<noteq> []) (map TrimSpace values) of Some value \<Rightarrow> value | None \<Rightarrow> [])"

definition ignoreSenderIDSet :: "string list \<Rightarrow> string list" where
  "ignoreSenderIDSet values = filter (\<lambda>value. value \<noteq> []) (map TrimSpace values)"

definition allowedThreadIDSet :: "string list \<Rightarrow> string list" where
  "allowedThreadIDSet ids = filter (\<lambda>i. i \<noteq> []) (map TrimSpace ids)"

definition sourcePayloadHash :: "intake_env \<Rightarrow> string \<Rightarrow> string" where
  "sourcePayloadHash env value = ''sha256:'' @ so_hash (it_source env) value"

definition SafeCLIProbeExcerpt :: "string \<Rightarrow> string" where
  "SafeCLIProbeExcerpt output =
     (let lines = map (\<lambda>line. if isCredentialShapedExternalValue line then ''[redacted credential-shaped CLI output]'' else line)
            (split_on (CHR 0x0A) (take 1024 output))
      in join_with [CHR 0x0A] lines @ (if length output > 1024 then [CHR 0x0A] @ ''[truncated]'' else []))"

definition validSourcePayloadHash :: "string \<Rightarrow> bool" where
  "validSourcePayloadHash value \<longleftrightarrow>
     (let value = TrimSpace value
      in HasPrefix value ''sha256:'' \<and> length value = 71 \<and>
         list_all (\<lambda>r. (CHR ''0'' \<le> r \<and> r \<le> CHR ''9'') \<or> (CHR ''a'' \<le> r \<and> r \<le> CHR ''f'')) (TrimPrefix value ''sha256:''))"

definition decodeSourceCommandFrame :: "intake_env \<Rightarrow> string \<Rightarrow> SourceCommandFrame res" where
  "decodeSourceCommandFrame env line =
     (case it_json env line of
        Inl err \<Rightarrow> Inl (Wrapped err (errors_New ''decode source frame''))
      | Inr (frame, ended) \<Rightarrow>
          if \<not> ended then Inl (errors_New ''source frame contained multiple JSON values'')
          else Inr (frame\<lparr>fr_Kind := TrimSpace (fr_Kind frame), fr_SourceID := TrimSpace (fr_SourceID frame), fr_Connector := TrimSpace (fr_Connector frame),
            fr_AdapterRef := TrimSpace (fr_AdapterRef frame), fr_EventSource := TrimSpace (fr_EventSource frame),
            fr_AfterEventID := TrimSpace (fr_AfterEventID frame), fr_Reason := TrimSpace (fr_Reason frame), fr_Detail := TrimSpace (fr_Detail frame),
            fr_PayloadHash := TrimSpace (fr_PayloadHash frame)\<rparr>))"

section \<open>What is recorded of a frame that fails\<close>

definition sourceFrameValidationFailure :: "intake_env \<Rightarrow> SourceCommandFrame \<Rightarrow> string \<Rightarrow> go_error \<Rightarrow> SourceCommandFrame" where
  "sourceFrameValidationFailure env frame reason cause = frame\<lparr>fr_Kind := SourceFrameKindFailed, fr_Reason := reason, fr_Detail := so_text (it_source env) cause\<rparr>"

definition failure_record :: "intake_env \<Rightarrow> SourceCommandFrameConsumer \<Rightarrow> SourceCommandFrame \<Rightarrow> string \<Rightarrow> SourceFailureRecord" where
  "failure_record env consumer frame rawLine =
     (let reason = (if TrimSpace (fr_Reason frame) = [] then ''source_runtime_failed'' else TrimSpace (fr_Reason frame));
          detail = safeSourceFailureDiagnostic (firstNonEmpty [fr_Detail frame, reason]);
          r = \<lparr>sfail_RecordID = [], sfail_Connector = firstNonEmpty [fc_ExpectedConnector consumer, fr_Connector frame, ''source_command''],
            sfail_EventSource = firstNonEmpty [fc_ExpectedAdapterRef consumer, fr_EventSource frame, ''source_command''],
            sfail_SourceRunRef = firstNonEmpty [fc_ExpectedSourceID consumer, fr_SourceID frame], sfail_SourceAttemptRef = [], sfail_Reason = reason,
            sfail_Detail = detail, sfail_DiagnosticExcerpt = detail,
            sfail_PayloadHash = (if validSourcePayloadHash (fr_PayloadHash frame) then TrimSpace (fr_PayloadHash frame) else []),
            sfail_PayloadSizeBytes = fr_PayloadSizeBytes frame, sfail_DebugRef = [], sfail_ResourceRef = [],
            sfail_SourceValidation = SourceValidationRejected, sfail_CreatedAt = 0\<rparr>
      in if rawLine = [] then r
         else r\<lparr>sfail_PayloadHash := sourcePayloadHash env rawLine, sfail_PayloadSizeBytes := int (length rawLine),
           sfail_DiagnosticExcerpt := safeSourceFailureDiagnostic (detail @ ''; source_bytes='' @ show_nat (length rawLine))\<rparr>)"

definition recordSourceCommandFrameFailure ::
  "intake_env \<Rightarrow> SourceCommandFrameConsumer \<Rightarrow> SourceCommandFrame \<Rightarrow> string \<Rightarrow> source_state \<Rightarrow> unit res \<times> source_state" where
  "recordSourceCommandFrameFailure env consumer frame rawLine s =
     (if \<not> fc_FailureStore consumer then (Inr (), s)
      else RecordSourceFailure (it_source env) (failure_record env consumer frame rawLine) s)"

abbreviation refuse_frame ::
  "intake_env \<Rightarrow> SourceCommandFrameConsumer \<Rightarrow> SourceCommandFrame \<Rightarrow> string \<Rightarrow> go_error \<Rightarrow> source_state \<Rightarrow> unit res \<times> source_state" where
  "refuse_frame env consumer frame reason cause \<equiv> recordSourceCommandFrameFailure env consumer (sourceFrameValidationFailure env frame reason cause) []"

section \<open>The checks of a frame\<close>

definition validateExpectedSourceFrame :: "SourceCommandFrameConsumer \<Rightarrow> SourceCommandFrame \<Rightarrow> go_error option" where
  "validateExpectedSourceFrame consumer frame =
     (let mismatch = (\<lambda>expected actual. TrimSpace expected \<noteq> [] \<and> TrimSpace actual \<noteq> [] \<and> TrimSpace actual \<noteq> TrimSpace expected)
      in if mismatch (fc_ExpectedSourceID consumer) (fr_SourceID frame) then Some (errors_New ''source frame source_id mismatch'')
         else if mismatch (fc_ExpectedConnector consumer) (fr_Connector frame) then Some (errors_New ''source frame connector mismatch'')
         else if mismatch (fc_ExpectedAdapterRef consumer) (fr_AdapterRef frame) then Some (errors_New ''source frame adapter_ref mismatch'')
         else None)"

definition validateSourceEventBinding :: "SourceCommandFrameConsumer \<Rightarrow> SourceCommandFrame \<Rightarrow> ExternalEvent \<Rightarrow> go_error option" where
  "validateSourceEventBinding consumer frame event =
     (if TrimSpace (fc_ExpectedConnector consumer) \<noteq> [] \<and> TrimSpace (xe_Connector event) \<noteq> TrimSpace (fc_ExpectedConnector consumer)
      then Some (errors_New ''source event connector mismatch'')
      else if TrimSpace (fr_Connector frame) \<noteq> [] \<and> TrimSpace (xe_Connector event) \<noteq> TrimSpace (fr_Connector frame)
      then Some (errors_New ''source frame connector does not match event connector'')
      else None)"

definition validSourceValidationStatus :: "string \<Rightarrow> bool" where
  "validSourceValidationStatus status \<longleftrightarrow> TrimSpace status \<in> set [''verified'', ''unchecked'', ''rejected'']"

definition validateSourceRunFrame :: "SourceCommandFrame \<Rightarrow> go_error option" where
  "validateSourceRunFrame frame =
     (if TrimSpace (fr_SourceID frame) = [] then Some (errors_New ''source frame missing source_id'')
      else if TrimSpace (fr_Connector frame) = [] then Some (errors_New ''source frame missing connector'')
      else if TrimSpace (fr_AdapterRef frame) = [] then Some (errors_New ''source frame missing adapter_ref'')
      else None)"

definition sourceCursorFromFrame :: "time \<Rightarrow> string \<Rightarrow> SourceCommandCursorFrame \<Rightarrow> SourceCursor res" where
  "sourceCursorFromFrame now sourceID frame =
     (let cursor = \<lparr>scur_SourceID = firstNonEmpty [cf_SourceID frame, sourceID],
            scur_CursorKind = (if TrimSpace (cf_CursorKind frame) = [] then SourceCursorKindExternalEventID else TrimSpace (cf_CursorKind frame)),
            scur_CursorValue = TrimSpace (cf_CursorValue frame), scur_WatermarkAt = cf_WatermarkAt frame, scur_UpdatedAt = cf_UpdatedAt frame\<rparr>
      in if TrimSpace (scur_SourceID cursor) \<noteq> TrimSpace sourceID then Inl (errors_New ''source cursor source_id mismatch'')
         else normalizeSourceCursor now cursor)"

definition validateSourceVerificationEvidenceForEvent ::
  "time \<Rightarrow> SourceCommandFrameConsumer \<Rightarrow> SourceCommandFrame \<Rightarrow> ExternalEvent \<Rightarrow> SourceVerificationEvidence \<Rightarrow> SourceVerificationEvidence res" where
  "validateSourceVerificationEvidenceForEvent now consumer frame event evidence =
     bind_res (normalizeSourceVerificationEvidence now evidence) (\<lambda>evidence.
       let expectedSourceID = TrimSpace (firstNonEmpty [fc_ExpectedSourceID consumer, fr_SourceID frame])
       in if sver_SourceEventRef evidence \<noteq> TrimSpace (xe_ExternalEventID event) then Inl (errors_New ''verification evidence event ref mismatch'')
          else if sver_ValidationStatus evidence \<noteq> SourceValidationVerified then Inl (errors_New ''verification evidence status must be verified'')
          else if expectedSourceID \<noteq> [] \<and> sver_SourceID evidence \<noteq> expectedSourceID then Inl (errors_New ''verification evidence source_id mismatch'')
          else if sver_Connector evidence \<noteq> TrimSpace (xe_Connector event) then Inl (errors_New ''verification evidence connector mismatch'')
          else if TrimSpace (fc_ExpectedAdapterRef consumer) \<noteq> [] \<and> sver_AdapterRef evidence \<noteq> TrimSpace (fc_ExpectedAdapterRef consumer)
          then Inl (errors_New ''verification evidence adapter_ref mismatch'')
          else if TrimSpace (fr_AdapterRef frame) \<noteq> [] \<and> sver_AdapterRef evidence \<noteq> TrimSpace (fr_AdapterRef frame)
          then Inl (errors_New ''verification evidence frame adapter_ref mismatch'')
          else Inr evidence)"

section \<open>The frames of a source\<close>

definition consumeSourceReadyFrame :: "intake_env \<Rightarrow> SourceCommandFrameConsumer \<Rightarrow> SourceCommandFrame \<Rightarrow> source_state \<Rightarrow> unit res \<times> source_state" where
  "consumeSourceReadyFrame env consumer frame s =
     (case validateExpectedSourceFrame consumer frame of Some err \<Rightarrow> refuse_frame env consumer frame ''malformed_source_frame'' err s | None \<Rightarrow>
      case validateSourceRunFrame frame of Some err \<Rightarrow> refuse_frame env consumer frame ''source_ready_failed'' err s | None \<Rightarrow>
      if \<not> fc_SourceStore consumer then (Inr (), s)
      else case sourceCommandNow env s of (now, s) \<Rightarrow>
        UpsertSourceRun (it_source env) \<lparr>srun_SourceID = fr_SourceID frame, srun_Connector = fr_Connector frame, srun_AdapterRef = fr_AdapterRef frame,
          srun_Status = SourceRunStatusReady, srun_StartedAt = now, srun_StoppedAt = 0, srun_LastReadyAt = now, srun_BlockedReasonCode = [],
          srun_BlockedReason = [], srun_UpdatedAt = now\<rparr> s)"

text \<open>The checks of an event, with the reason and the error of a refusal. An event without a status counts as unchecked.\<close>

definition check_event :: "SourceCommandFrameConsumer \<Rightarrow> SourceCommandFrame \<Rightarrow> (string \<times> go_error) + ExternalEvent" where
  "check_event consumer frame =
     (case validateExpectedSourceFrame consumer frame of Some err \<Rightarrow> Inl (''malformed_source_frame'', err) | None \<Rightarrow>
      if TrimSpace (fr_SourceID frame) = [] then Inl (''malformed_source_frame'', errors_New ''source event frame missing source_id'')
      else case fr_Event frame of None \<Rightarrow> Inl (''malformed_source_frame'', errors_New ''source event frame missing event'') | Some event \<Rightarrow>
        let event = (if TrimSpace (xe_SourceValidation event) = [] then event\<lparr>xe_SourceValidation := SourceValidationUnchecked\<rparr> else event)
        in case validate_event event of Some err \<Rightarrow> Inl (''source_payload_malformed'', err) | None \<Rightarrow>
           case validateSourceEventBinding consumer frame event of Some err \<Rightarrow> Inl (''source_payload_malformed'', err) | None \<Rightarrow>
           if \<not> validSourceValidationStatus (xe_SourceValidation event)
           then Inl (''source_verification_failed'', errors_New ''source event validation status is invalid'')
           else if xe_SourceValidation event = SourceValidationRejected then Inl (''source_policy_rejected'', errors_New ''source event is rejected'')
           else if fc_RestrictToAllowedThreads consumer \<and> xt_ExternalID (xe_ThreadRef event) \<notin> set (allowedThreadIDSet (fc_AllowedThreadIDs consumer))
           then Inl (''source_policy_rejected'', errors_New ''external thread is not allowed by source binding'')
           else Inr event)"

text \<open>The evidence that a verified event needs.\<close>

definition check_evidence ::
  "time \<Rightarrow> SourceCommandFrameConsumer \<Rightarrow> SourceCommandFrame \<Rightarrow> ExternalEvent \<Rightarrow> (string \<times> go_error) + SourceVerificationEvidence option" where
  "check_evidence now consumer frame event =
     (if xe_SourceValidation event \<noteq> SourceValidationVerified then Inr None
      else case fr_VerificationEvidence frame of
          None \<Rightarrow> Inl (''source_verification_failed'', errors_New ''verified source event missing verification evidence'')
        | Some evidence \<Rightarrow>
            (case validateSourceVerificationEvidenceForEvent now consumer frame event evidence of
               Inl err \<Rightarrow> Inl (''source_verification_failed'', err)
             | Inr evidence \<Rightarrow> Inr (Some evidence)))"

definition store_evidence ::
  "intake_env \<Rightarrow> SourceCommandFrameConsumer \<Rightarrow> SourceVerificationEvidence option \<Rightarrow> source_state \<Rightarrow> unit res \<times> source_state" where
  "store_evidence env consumer evidence s =
     (case evidence of
        Some evidence \<Rightarrow> if fc_SourceStore consumer then RecordSourceVerification (it_source env) evidence s else (Inr (), s)
      | None \<Rightarrow> (Inr (), s))"

definition handle_event :: "intake_env \<Rightarrow> ExternalEvent \<Rightarrow> source_state \<Rightarrow> go_error option \<times> source_state" where
  "handle_event env event s =
     (let err = (case it_handle env of Some handle \<Rightarrow> handle event (ss_moment s) | None \<Rightarrow> None)
      in (err, s\<lparr>ss_handled := ss_handled s @ [(event, err)], ss_moment := Suc (ss_moment s)\<rparr>))"

definition named_event :: "SourceCommandFrame \<Rightarrow> SourceCommandCursorFrame \<Rightarrow> string list \<Rightarrow> string" where
  "named_event frame cursor others = TrimSpace (firstNonEmpty ([fr_AfterEventID frame, cf_AfterEventID cursor] @ others))"

definition errSourceCommandHandlerFailed :: go_error where "errSourceCommandHandlerFailed = Sentinel ''source command handler failed''"
definition ErrSourceCommandBlocked :: go_error where "ErrSourceCommandBlocked = Sentinel ''source command blocked''"
definition ErrSourceCommandRuntimeFailed :: go_error where "ErrSourceCommandRuntimeFailed = Sentinel ''source command runtime failed''"

definition join_error :: "go_error \<Rightarrow> go_error \<Rightarrow> go_error" where
  "join_error sentinel err = (if errors_Is err sentinel then err else Wrapped sentinel err)"

abbreviation sourceCommandHandlerError :: "go_error \<Rightarrow> go_error" where "sourceCommandHandlerError \<equiv> join_error errSourceCommandHandlerFailed"
abbreviation sourceCommandBlockedError :: "go_error \<Rightarrow> go_error" where "sourceCommandBlockedError \<equiv> join_error ErrSourceCommandBlocked"
abbreviation sourceCommandRuntimeError :: "go_error \<Rightarrow> go_error" where "sourceCommandRuntimeError \<equiv> join_error ErrSourceCommandRuntimeFailed"

definition event_cursor ::
  "intake_env \<Rightarrow> SourceCommandFrameConsumer \<Rightarrow> SourceCommandFrame \<Rightarrow> ExternalEvent \<Rightarrow> source_state \<Rightarrow> string res \<times> source_state" where
  "event_cursor env consumer frame event s =
     (let refused = (\<lambda>err. case refuse_frame env consumer frame ''source_cursor_failed'' err s of (r, s) \<Rightarrow> (bind_res r (\<lambda>_. Inr []), s))
      in case fr_Cursor frame of
           None \<Rightarrow> (Inr (xe_ExternalEventID event), s)
         | Some cursor \<Rightarrow>
             (case sourceCursorFromFrame (source_wall (it_source env) s) (fr_SourceID frame) cursor of
                Inl err \<Rightarrow> refused err
              | Inr saved \<Rightarrow>
                  if named_event frame cursor [xe_ExternalEventID event] \<noteq> xe_ExternalEventID event
                  then refused (errors_New ''source cursor after_event_id does not match accepted event'')
                  else if fc_SourceStore consumer
                  then (case SaveSourceCursor (it_source env) saved s of (r, s) \<Rightarrow> (bind_res r (\<lambda>_. Inr (xe_ExternalEventID event)), s))
                  else (Inr (xe_ExternalEventID event), s)))"

definition consumeSourceEventFrame ::
  "intake_env \<Rightarrow> SourceCommandFrameConsumer \<Rightarrow> SourceCommandFrame \<Rightarrow> source_state \<Rightarrow> string res \<times> source_state" where
  "consumeSourceEventFrame env consumer frame s =
     (let refused = (\<lambda>(reason, err). case refuse_frame env consumer frame reason err s of (r, s) \<Rightarrow> (bind_res r (\<lambda>_. Inr []), s))
      in case check_event consumer frame of
           Inl failure \<Rightarrow> refused failure
         | Inr event \<Rightarrow>
             (case check_evidence (source_wall (it_source env) s) consumer frame event of
                Inl failure \<Rightarrow> refused failure
              | Inr evidence \<Rightarrow>
                  (case store_evidence env consumer evidence s of
                     (Inl err, s) \<Rightarrow> (Inl err, s)
                   | (Inr _, s) \<Rightarrow>
                       if xf_ExternalID (xe_SenderRef event) \<in> set (ignoreSenderIDSet (fc_IgnoreSenderIDs consumer)) then (Inr [], s)
                       else case handle_event env event s of
                           (Some err, s) \<Rightarrow> (Inl (sourceCommandHandlerError err), s)
                         | (None, s) \<Rightarrow> event_cursor env consumer frame event s)))"

definition consumeSourceCursorFrame ::
  "intake_env \<Rightarrow> SourceCommandFrameConsumer \<Rightarrow> SourceCommandFrame \<Rightarrow> string list \<Rightarrow> source_state \<Rightarrow> unit res \<times> source_state" where
  "consumeSourceCursorFrame env consumer frame acceptedEvents s =
     (let refused = (\<lambda>err. refuse_frame env consumer frame ''source_cursor_failed'' err s)
      in case validateExpectedSourceFrame consumer frame of Some err \<Rightarrow> refused err | None \<Rightarrow>
         case fr_Cursor frame of None \<Rightarrow> refused (errors_New ''source cursor frame missing source_id or cursor'') | Some cursor \<Rightarrow>
         if TrimSpace (fr_SourceID frame) = [] then refused (errors_New ''source cursor frame missing source_id or cursor'')
         else if named_event frame cursor [] = [] then refused (errors_New ''source cursor frame missing after_event_id'')
         else if named_event frame cursor [] \<notin> set acceptedEvents then refused (errors_New ''source cursor referenced unaccepted event'')
         else case sourceCursorFromFrame (source_wall (it_source env) s) (fr_SourceID frame) cursor of
             Inl err \<Rightarrow> refused err
           | Inr cursor \<Rightarrow> if \<not> fc_SourceStore consumer then (Inr (), s) else SaveSourceCursor (it_source env) cursor s)"

text \<open>The run of a source that says it has stopped keeps what is known of it.\<close>

definition stopped_run :: "SourceCommandFrame \<Rightarrow> time \<Rightarrow> SourceRun list \<Rightarrow> SourceRun" where
  "stopped_run frame now existingRuns =
     (let run = \<lparr>srun_SourceID = fr_SourceID frame, srun_Connector = TrimSpace (fr_Connector frame), srun_AdapterRef = TrimSpace (fr_AdapterRef frame),
            srun_Status = SourceRunStatusStopped, srun_StartedAt = now, srun_StoppedAt = now, srun_LastReadyAt = 0, srun_BlockedReasonCode = [],
            srun_BlockedReason = safeSourceFailureDiagnostic (fr_Detail frame), srun_UpdatedAt = now\<rparr>;
          run = (case find (\<lambda>existing. srun_SourceID existing = fr_SourceID frame) existingRuns of
              Some existing \<Rightarrow> run\<lparr>srun_Connector := (if srun_Connector run = [] then srun_Connector existing else srun_Connector run),
                srun_AdapterRef := (if srun_AdapterRef run = [] then srun_AdapterRef existing else srun_AdapterRef run),
                srun_StartedAt := srun_StartedAt existing\<rparr>
            | None \<Rightarrow> run)
      in run\<lparr>srun_Connector := (if srun_Connector run = [] then ''source_command'' else srun_Connector run),
           srun_AdapterRef := (if srun_AdapterRef run = [] then ''source_command'' else srun_AdapterRef run)\<rparr>)"

definition consumeSourceStoppedFrame :: "intake_env \<Rightarrow> SourceCommandFrameConsumer \<Rightarrow> SourceCommandFrame \<Rightarrow> source_state \<Rightarrow> unit res \<times> source_state" where
  "consumeSourceStoppedFrame env consumer frame s =
     (case validateExpectedSourceFrame consumer frame of Some err \<Rightarrow> refuse_frame env consumer frame ''malformed_source_frame'' err s | None \<Rightarrow>
      if TrimSpace (fr_SourceID frame) = [] then refuse_frame env consumer frame ''malformed_source_frame'' (errors_New ''source stopped frame missing source_id'') s
      else if \<not> fc_SourceStore consumer then (Inr (), s)
      else case sourceCommandNow env s of (now, s) \<Rightarrow>
        (case ListSourceRuns (it_source env) s of
           (Inl err, s) \<Rightarrow> (Inl err, s)
         | (Inr existingRuns, s) \<Rightarrow> UpsertSourceRun (it_source env) (stopped_run frame now existingRuns) s))"

definition consume_frame ::
  "intake_env \<Rightarrow> SourceCommandFrameConsumer \<Rightarrow> SourceCommandFrame \<Rightarrow> string list \<times> source_state \<Rightarrow> unit res \<times> (string list \<times> source_state)" where
  "consume_frame env consumer frame st =
     (let (accepted, s) = st; keep = (\<lambda>(r, s). (r, (accepted, s)))
      in if fr_Kind frame = SourceFrameKindReady then keep (consumeSourceReadyFrame env consumer frame s)
         else if fr_Kind frame = SourceFrameKindEvent
         then (case consumeSourceEventFrame env consumer frame s of
                 (Inl err, s) \<Rightarrow> (Inl err, (accepted, s))
               | (Inr i, s) \<Rightarrow> (Inr (), (if i \<noteq> [] then i # accepted else accepted, s)))
         else if fr_Kind frame = SourceFrameKindCursor then keep (consumeSourceCursorFrame env consumer frame accepted s)
         else if fr_Kind frame = SourceFrameKindFailed then keep (recordSourceCommandFrameFailure env consumer frame [] s)
         else if fr_Kind frame = SourceFrameKindStopped then keep (consumeSourceStoppedFrame env consumer frame s)
         else keep (recordSourceCommandFrameFailure env consumer (no_frame\<lparr>fr_SourceID := fr_SourceID frame, fr_Connector := fr_Connector frame,
           fr_EventSource := fr_EventSource frame, fr_Reason := ''malformed_source_frame'', fr_Detail := ''unsupported source frame kind''\<rparr>) [] s))"

definition processLine ::
  "intake_env \<Rightarrow> SourceCommandFrameConsumer \<Rightarrow> nat \<Rightarrow> string \<Rightarrow> string list \<times> source_state \<Rightarrow> unit res \<times> (string list \<times> source_state)" where
  "processLine env consumer lineNumber line st =
     (let line = TrimSpace line
      in if line = [] then (Inr (), st)
         else case decodeSourceCommandFrame env line of
             Inl err \<Rightarrow>
               (case recordSourceCommandFrameFailure env consumer (no_frame\<lparr>fr_Kind := SourceFrameKindFailed, fr_Connector := ''source_command'',
                  fr_EventSource := ''source_command'', fr_Reason := ''malformed_source_frame'',
                  fr_Detail := ''line '' @ show_nat lineNumber @ '': '' @ so_text (it_source env) err\<rparr>) line (snd st) of
                  (r, s) \<Rightarrow> (r, (fst st, s)))
           | Inr frame \<Rightarrow> consume_frame env consumer frame st)"

text \<open>
  The lines up to the end of the output. With an idle timeout a pause and a cancellation end the reading at once;
  without one a cancellation is seen at the next line.
\<close>

fun consume_lines ::
  "intake_env \<Rightarrow> SourceCommandFrameConsumer \<Rightarrow> nat \<Rightarrow> go_error option \<Rightarrow> source_input list \<Rightarrow> string list \<times> source_state \<Rightarrow>
     unit res \<times> (string list \<times> source_state)" where
  "consume_lines env consumer n cancelled [] st = (Inr (), st)"
| "consume_lines env consumer n cancelled (ReadFailed err # inputs) st = (Inl err, st)"
| "consume_lines env consumer n cancelled (Idle # inputs) st =
     (if fc_IdleTimeout consumer > 0 then (Inl (errors_New ''source command idle timeout''), st)
      else consume_lines env consumer n cancelled inputs st)"
| "consume_lines env consumer n cancelled (Cancelled err # inputs) st =
     (if fc_IdleTimeout consumer > 0 then (Inl err, st) else consume_lines env consumer n (Some err) inputs st)"
| "consume_lines env consumer n cancelled (Line line # inputs) st =
     (case cancelled of
        Some err \<Rightarrow> (Inl err, st)
      | None \<Rightarrow>
          (case processLine env consumer (Suc n) line st of
             (Inl err, st) \<Rightarrow> (Inl err, st)
           | (Inr _, st) \<Rightarrow> consume_lines env consumer (Suc n) cancelled inputs st))"

definition ConsumeSourceCommandFrames ::
  "intake_env \<Rightarrow> SourceCommandFrameConsumer \<Rightarrow> source_input list \<Rightarrow> source_state \<Rightarrow> unit res \<times> source_state" where
  "ConsumeSourceCommandFrames env consumer inputs s =
     (if it_handle env = None then (Inl (errors_New ''source command event handler is required''), s)
      else case consume_lines env consumer 0 None inputs ([], s) of (r, (_, s)) \<Rightarrow> (r, s))"

section \<open>The standard error of a process\<close>

abbreviation (input) maxConnectorCommandOutputBytes :: nat where "maxConnectorCommandOutputBytes \<equiv> 65536"

record connectorCommandCappedBuffer =
  cb_buf :: string
  cb_limit :: nat
  cb_truncated :: bool

definition capped_Write :: "string \<Rightarrow> connectorCommandCappedBuffer \<Rightarrow> connectorCommandCappedBuffer" where
  "capped_Write p b =
     (if cb_limit b = 0 then b
      else if cb_limit b \<le> length (cb_buf b) then b\<lparr>cb_truncated := True\<rparr>
      else let available = cb_limit b - length (cb_buf b)
           in if length p > available then b\<lparr>cb_buf := cb_buf b @ take available p, cb_truncated := True\<rparr>
              else b\<lparr>cb_buf := cb_buf b @ p\<rparr>)"

definition captured_stderr :: "string list \<Rightarrow> string" where
  "captured_stderr chunks = cb_buf (fold capped_Write chunks \<lparr>cb_buf = [], cb_limit = maxConnectorCommandOutputBytes, cb_truncated = False\<rparr>)"

section \<open>An attempt\<close>

record SourceCommandAdapter =
  ad_SourceID :: string
  ad_Connector :: string
  ad_AdapterRef :: string
  ad_SourceStore :: bool
  ad_FailureStore :: bool
  ad_IgnoreSenderIDs :: "string list"
  ad_RestrictToAllowedThreads :: bool
  ad_AllowedThreadIDs :: "string list"
  ad_ReadinessBlockReasonCode :: string
  ad_ReadinessBlockDescription :: string
  ad_IdleTimeout :: duration

definition readinessBlock :: "SourceCommandAdapter \<Rightarrow> (string \<times> string) option res" where
  "readinessBlock a =
     (let reasonCode = TrimSpace (ad_ReadinessBlockReasonCode a); description = TrimSpace (ad_ReadinessBlockDescription a)
      in if ad_RestrictToAllowedThreads a \<and> allowedThreadIDSet (ad_AllowedThreadIDs a) = []
         then Inr (Some (SourceReadinessReasonSourceCommandInvalid, ''source command allowed thread set is required when restriction is enabled''))
         else if reasonCode = [] then Inr None
         else if \<not> validSourceReadinessReasonCode reasonCode then Inl (errors_New ''source command readiness block reason code is invalid'')
         else Inr (Some (reasonCode, safeSourceFailureDiagnostic (if description = [] then reasonCode else description))))"

definition recordRun ::
  "intake_env \<Rightarrow> SourceCommandAdapter \<Rightarrow> string \<Rightarrow> string \<Rightarrow> string \<Rightarrow> time \<Rightarrow> time \<Rightarrow> source_state \<Rightarrow> unit res \<times> source_state" where
  "recordRun env a status blockedReasonCode blockedReason startedAt boundaryAt s =
     (if \<not> ad_SourceStore a then (Inr (), s)
      else case sourceCommandNow env s of (now, s) \<Rightarrow>
        UpsertSourceRun (it_source env) \<lparr>srun_SourceID = TrimSpace (ad_SourceID a), srun_Connector = TrimSpace (ad_Connector a),
          srun_AdapterRef = TrimSpace (ad_AdapterRef a), srun_Status = status, srun_StartedAt = startedAt,
          srun_StoppedAt = (if status = SourceRunStatusStopped then boundaryAt else 0),
          srun_LastReadyAt = (if status = SourceRunStatusReady then boundaryAt else 0), srun_BlockedReasonCode = blockedReasonCode,
          srun_BlockedReason = blockedReason, srun_UpdatedAt = now\<rparr> s)"

definition recordAttempt ::
  "intake_env \<Rightarrow> SourceCommandAdapter \<Rightarrow> time \<Rightarrow> time \<Rightarrow> string \<Rightarrow> string \<Rightarrow> source_state \<Rightarrow> unit res \<times> source_state" where
  "recordAttempt env a startedAt endedAt outcome failureRef s =
     (if \<not> ad_SourceStore a then (Inr (), s)
      else let cenv = so_env (it_source env) in
        RecordSourceAttempt (it_source env) \<lparr>satt_AttemptID = stableOpaqueID cenv ''source_attempt'' [TrimSpace (ad_SourceID a), outcome,
            ce_format cenv startedAt, ce_format cenv endedAt, failureRef],
          satt_SourceRunID = TrimSpace (ad_SourceID a), satt_StartedAt = startedAt, satt_EndedAt = endedAt, satt_Outcome = outcome,
          satt_FailureRef = failureRef\<rparr> s)"

text \<open>Two records in a row; the first that fails ends the attempt with its error, otherwise it ends with the given result.\<close>

definition both :: "(source_state \<Rightarrow> unit res \<times> source_state) \<Rightarrow> (source_state \<Rightarrow> unit res \<times> source_state) \<Rightarrow> unit res \<Rightarrow> source_state \<Rightarrow> unit res \<times> source_state" where
  "both first second result s =
     (case first s of
        (Inl err, s) \<Rightarrow> (Inl err, s)
      | (Inr _, s) \<Rightarrow> (case second s of (Inl err, s) \<Rightarrow> (Inl err, s) | (Inr _, s) \<Rightarrow> (result, s)))"

definition end_blocked :: "intake_env \<Rightarrow> SourceCommandAdapter \<Rightarrow> time \<Rightarrow> string \<Rightarrow> string \<Rightarrow> go_error \<Rightarrow> source_state \<Rightarrow> unit res \<times> source_state" where
  "end_blocked env a startedAt reasonCode description err s =
     (case sourceCommandNow env s of (endedAt, s) \<Rightarrow>
        both (recordRun env a SourceRunStatusBlocked reasonCode description startedAt 0)
          (recordAttempt env a startedAt endedAt SourceAttemptOutcomeBlocked []) (Inl (sourceCommandBlockedError err)) s)"

definition consumer_of :: "SourceCommandAdapter \<Rightarrow> SourceCommandFrameConsumer" where
  "consumer_of a =
     \<lparr>fc_ExpectedSourceID = TrimSpace (ad_SourceID a), fc_ExpectedConnector = TrimSpace (ad_Connector a),
      fc_ExpectedAdapterRef = TrimSpace (ad_AdapterRef a), fc_SourceStore = ad_SourceStore a, fc_FailureStore = ad_FailureStore a,
      fc_IgnoreSenderIDs = ad_IgnoreSenderIDs a, fc_RestrictToAllowedThreads = ad_RestrictToAllowedThreads a,
      fc_AllowedThreadIDs = ad_AllowedThreadIDs a, fc_IdleTimeout = ad_IdleTimeout a\<rparr>"

text \<open>How an attempt ends whose process was started: by the frames, by the process, or well.\<close>

definition end_failed :: "intake_env \<Rightarrow> SourceCommandAdapter \<Rightarrow> time \<Rightarrow> time \<Rightarrow> go_error \<Rightarrow> source_state \<Rightarrow> unit res \<times> source_state" where
  "end_failed env a startedAt endedAt err s =
     (if errors_Is err errSourceCommandHandlerFailed
      then both (recordAttempt env a startedAt endedAt SourceAttemptOutcomeFailed [])
        (recordRun env a SourceRunStatusStopped [] [] startedAt endedAt) (Inl err) s
      else both (recordRun env a SourceRunStatusDegraded SourceReadinessReasonSourceRuntimeFailed (so_text (it_source env) err) startedAt endedAt)
        (recordAttempt env a startedAt endedAt SourceAttemptOutcomeFailed []) (Inl (sourceCommandRuntimeError err)) s)"

definition end_process :: "intake_env \<Rightarrow> SourceCommandAdapter \<Rightarrow> time \<Rightarrow> time \<Rightarrow> source_process \<Rightarrow> source_state \<Rightarrow> unit res \<times> source_state" where
  "end_process env a startedAt endedAt proc s =
     (case pr_wait proc of
        Some err \<Rightarrow>
          let stderr = captured_stderr (pr_stderr proc);
              detail = so_text (it_source env) err @ (if stderr \<noteq> [] then '': '' @ SafeCLIProbeExcerpt stderr else [])
          in (case recordSourceCommandFrameFailure env (consumer_of a) (no_frame\<lparr>fr_SourceID := TrimSpace (ad_SourceID a),
                fr_Connector := TrimSpace (ad_Connector a), fr_AdapterRef := TrimSpace (ad_AdapterRef a), fr_EventSource := TrimSpace (ad_AdapterRef a),
                fr_Reason := ''source_runtime_failed'', fr_Detail := detail\<rparr>) [] s of
                (Inl err, s) \<Rightarrow> (Inl err, s)
              | (Inr _, s) \<Rightarrow>
                  both (recordRun env a SourceRunStatusDegraded SourceReadinessReasonSourceRuntimeFailed detail startedAt endedAt)
                    (recordAttempt env a startedAt endedAt SourceAttemptOutcomeFailed [])
                    (Inl (sourceCommandRuntimeError (errors_New ''source command failed''))) s)
      | None \<Rightarrow>
          both (recordAttempt env a startedAt endedAt SourceAttemptOutcomeStopped [])
            (recordRun env a SourceRunStatusStopped [] [] startedAt endedAt) (Inr ()) s)"

definition run_process :: "intake_env \<Rightarrow> SourceCommandAdapter \<Rightarrow> time \<Rightarrow> source_state \<Rightarrow> unit res \<times> source_state" where
  "run_process env a startedAt s =
     (let proc = it_process env (ss_moment s);
          invalid = (\<lambda>err. end_blocked env a startedAt SourceReadinessReasonSourceCommandInvalid (so_text (it_source env) err) err s)
      in case pr_resolve proc of Some err \<Rightarrow> invalid err | None \<Rightarrow>
         case pr_environment proc of Some err \<Rightarrow> invalid err | None \<Rightarrow>
         case pr_pipe proc of Some err \<Rightarrow> (Inl (sourceCommandBlockedError err), s) | None \<Rightarrow>
         case pr_start proc of Some err \<Rightarrow> invalid err | None \<Rightarrow>
         (case ConsumeSourceCommandFrames env (consumer_of a) (pr_output proc) s of (r, s) \<Rightarrow>
          (case sourceCommandNow env s of (endedAt, s) \<Rightarrow>
           (case r of
              Inl err \<Rightarrow> end_failed env a startedAt endedAt err s
            | Inr _ \<Rightarrow> end_process env a startedAt endedAt proc s))))"

definition Consume :: "intake_env \<Rightarrow> SourceCommandAdapter \<Rightarrow> source_state \<Rightarrow> unit res \<times> source_state" where
  "Consume env a s =
     (if it_handle env = None then (Inl (errors_New ''source command event handler is required''), s)
      else if TrimSpace (ad_SourceID a) = [] then (Inl (sourceCommandBlockedError (errors_New ''source command source_id is required'')), s)
      else if TrimSpace (ad_Connector a) = [] then (Inl (sourceCommandBlockedError (errors_New ''source command connector is required'')), s)
      else if TrimSpace (ad_AdapterRef a) = [] then (Inl (sourceCommandBlockedError (errors_New ''source command adapter_ref is required'')), s)
      else case sourceCommandNow env s of (startedAt, s) \<Rightarrow>
        (case recordRun env a SourceRunStatusStarting [] [] startedAt 0 s of
           (Inl err, s) \<Rightarrow> (Inl err, s)
         | (Inr _, s) \<Rightarrow>
             (case readinessBlock a of
                Inl err \<Rightarrow> (Inl (sourceCommandBlockedError err), s)
              | Inr (Some (reasonCode, description)) \<Rightarrow> end_blocked env a startedAt reasonCode description (errors_New description) s
              | Inr None \<Rightarrow> run_process env a startedAt s)))"

section \<open>The intake\<close>

record SourceCommandRetryPolicy =
  rt_MaxAttempts :: int
  rt_Backoff :: duration

abbreviation (input) maxSourceCommandBackoff :: duration where "maxSourceCommandBackoff \<equiv> 30000000000"

definition normalizeSourceCommandRetryPolicy :: "SourceCommandRetryPolicy \<Rightarrow> SourceCommandRetryPolicy" where
  "normalizeSourceCommandRetryPolicy policy =
     policy\<lparr>rt_MaxAttempts := (if rt_MaxAttempts policy < 1 then 1 else rt_MaxAttempts policy),
       rt_Backoff := (if rt_Backoff policy < 0 then 0 else rt_Backoff policy)\<rparr>"

fun backoff_loop :: "nat \<Rightarrow> duration \<Rightarrow> duration" where
  "backoff_loop 0 delay = (if delay > maxSourceCommandBackoff then maxSourceCommandBackoff else delay)"
| "backoff_loop (Suc n) delay = (if delay \<ge> maxSourceCommandBackoff div 2 then maxSourceCommandBackoff else backoff_loop n (delay * 2))"

definition sourceCommandBackoffDelay :: "SourceCommandRetryPolicy \<Rightarrow> int \<Rightarrow> duration" where
  "sourceCommandBackoffDelay policy failedAttempt =
     (if rt_Backoff policy \<le> 0 \<or> failedAttempt < 1 then 0 else backoff_loop (nat (failedAttempt - 1)) (rt_Backoff policy))"

text \<open>One attempt: the result of the intake, or the error with which it goes on.\<close>

definition try_attempt ::
  "intake_env \<Rightarrow> SourceCommandAdapter \<Rightarrow> SourceCommandRetryPolicy \<Rightarrow> int \<Rightarrow> source_state \<Rightarrow> unit res \<times> source_state + go_error \<times> source_state" where
  "try_attempt env a policy attempt s =
     (case Consume env a s of
        (Inr _, s) \<Rightarrow> Inl (Inr (), s)
      | (Inl err, s) \<Rightarrow>
          if \<not> errors_Is err ErrSourceCommandRuntimeFailed \<or> attempt = rt_MaxAttempts policy then Inl (Inl err, s)
          else case it_context env (ss_moment s) of
              Some cancelled \<Rightarrow> Inl (Inl cancelled, s)
            | None \<Rightarrow>
                let delay = sourceCommandBackoffDelay policy attempt
                in (case (if delay > 0 then it_sleep env (ss_moment s) delay else None) of
                      Some cancelled \<Rightarrow> Inl (Inl cancelled, s)
                    | None \<Rightarrow> Inr (err, s\<lparr>ss_moment := Suc (ss_moment s)\<rparr>)))"

text \<open>The attempts from a given one on; the last component counts the attempts that were made.\<close>

function attempts_loop ::
  "intake_env \<Rightarrow> SourceCommandAdapter \<Rightarrow> SourceCommandRetryPolicy \<Rightarrow> int \<Rightarrow> unit res \<Rightarrow> source_state \<Rightarrow> (unit res \<times> source_state) \<times> nat" where
  "attempts_loop env a policy attempt lastErr s =
     (if attempt > rt_MaxAttempts policy then ((lastErr, s), 0)
      else case try_attempt env a policy attempt s of
          Inl result \<Rightarrow> (result, 1)
        | Inr (err, s) \<Rightarrow> (case attempts_loop env a policy (attempt + 1) (Inl err) s of (result, n) \<Rightarrow> (result, Suc n)))"
  by pat_completeness auto
termination
  by (relation "measure (\<lambda>(env, a, policy, attempt, lastErr, s). nat (rt_MaxAttempts policy + 1 - attempt))") auto

declare attempts_loop.simps [simp del]

lemma try_attempt_on: "try_attempt env a policy attempt s = Inr x \<Longrightarrow> attempt \<noteq> rt_MaxAttempts policy"
  by (auto simp: try_attempt_def Let_def split: prod.splits sum.splits if_splits)

definition Run :: "intake_env \<Rightarrow> SourceCommandAdapter \<Rightarrow> SourceCommandRetryPolicy \<Rightarrow> source_state \<Rightarrow> (unit res \<times> source_state) \<times> nat" where
  "Run env a policy s = attempts_loop env a (normalizeSourceCommandRetryPolicy policy) 1 (Inr ()) s"

section \<open>What is given to the handler\<close>

text \<open>The events a consumer lets through, and the evidence for a verified one.\<close>

definition admitted :: "SourceCommandFrameConsumer \<Rightarrow> ExternalEvent \<Rightarrow> bool" where
  "admitted consumer e \<longleftrightarrow>
     validate_event e = None \<and>
     (TrimSpace (fc_ExpectedConnector consumer) \<noteq> [] \<longrightarrow> TrimSpace (xe_Connector e) = TrimSpace (fc_ExpectedConnector consumer)) \<and>
     TrimSpace (xe_SourceValidation e) \<in> {''verified'', ''unchecked'', ''rejected''} \<and> xe_SourceValidation e \<noteq> ''rejected'' \<and>
     (fc_RestrictToAllowedThreads consumer \<longrightarrow> xt_ExternalID (xe_ThreadRef e) \<in> TrimSpace ` set (fc_AllowedThreadIDs consumer)) \<and>
     xf_ExternalID (xe_SenderRef e) \<notin> TrimSpace ` set (fc_IgnoreSenderIDs consumer) - {[]}"

definition good_evidence :: "SourceCommandFrameConsumer \<Rightarrow> SourceVerificationEvidence \<Rightarrow> bool" where
  "good_evidence consumer ev \<longleftrightarrow>
     sver_ValidationStatus ev = ''verified'' \<and> validSourceEvidenceKind (sver_EvidenceKind ev) \<and> sver_EvidenceRef ev \<noteq> [] \<and>
     (TrimSpace (fc_ExpectedSourceID consumer) \<noteq> [] \<longrightarrow> sver_SourceID ev = TrimSpace (fc_ExpectedSourceID consumer)) \<and>
     (TrimSpace (fc_ExpectedAdapterRef consumer) \<noteq> [] \<longrightarrow> sver_AdapterRef ev = TrimSpace (fc_ExpectedAdapterRef consumer))"

definition proven :: "SourceCommandFrameConsumer \<Rightarrow> source_state \<Rightarrow> ExternalEvent \<Rightarrow> bool" where
  "proven consumer s e \<longleftrightarrow>
     (fc_SourceStore consumer \<and> xe_SourceValidation e = ''verified'' \<longrightarrow>
      (\<exists>ev. go_lookup (sl_Verifications (content s)) (''event:'' @ TrimSpace (xe_ExternalEventID e)) = Some ev \<and>
         sver_SourceEventRef ev = TrimSpace (xe_ExternalEventID e) \<and> good_evidence consumer ev))"

text \<open>What the reading of frames does to the state; it is a preorder.\<close>

definition advance :: "SourceCommandFrameConsumer \<Rightarrow> source_state \<Rightarrow> source_state \<Rightarrow> bool" where
  "advance consumer s s' \<longleftrightarrow>
     sl_Attempts (content s') = sl_Attempts (content s) \<and> (\<forall>e. proven consumer s e \<longrightarrow> proven consumer s' e) \<and>
     (\<exists>new. ss_handled s' = ss_handled s @ new \<and> (\<forall>(e, err) \<in> set new. admitted consumer e \<and> proven consumer s' e))"

lemma advance_refl [simp]: "advance consumer s s"
  by (simp add: advance_def)

lemma advance_trans: "advance consumer s s' \<Longrightarrow> advance consumer s' s'' \<Longrightarrow> advance consumer s s''"
  unfolding advance_def
proof (elim conjE exE, intro conjI)
  fix xs ys
  assume "\<forall>e. proven consumer s' e \<longrightarrow> proven consumer s'' e" "ss_handled s' = ss_handled s @ xs" "ss_handled s'' = ss_handled s' @ ys"
    "\<forall>(e, err) \<in> set xs. admitted consumer e \<and> proven consumer s' e" "\<forall>(e, err) \<in> set ys. admitted consumer e \<and> proven consumer s'' e"
  then show "\<exists>new. ss_handled s'' = ss_handled s @ new \<and> (\<forall>(e, err) \<in> set new. admitted consumer e \<and> proven consumer s'' e)"
    by (intro exI [of _ "xs @ ys"]) auto
qed simp_all

lemma advance_same:
  assumes "ss_handled s' = ss_handled s" "sl_Attempts (content s') = sl_Attempts (content s)" "sl_Verifications (content s') = sl_Verifications (content s)"
  shows "advance consumer s s'"
  using assms by (simp add: advance_def proven_def)

lemma advance_clock: "sourceCommandNow env s = (now, s') \<Longrightarrow> advance consumer s s' \<and> content s' = content s"
  by (auto simp: sourceCommandNow_def content_def intro: advance_same)

lemma advance_failure:
  assumes "recordSourceCommandFrameFailure env consumer frame line s = (r, s')"
  shows "advance c s s'" and "content s' = content s" and "ss_handled s' = ss_handled s"
proof -
  have "content s' = content s \<and> ss_handled s' = ss_handled s"
    using assms RecordSourceFailure_frame [of "it_source env" "failure_record env consumer frame line" s r s']
    by (auto simp: recordSourceCommandFrameFailure_def split: if_splits)
  then show "advance c s s'" and "content s' = content s" and "ss_handled s' = ss_handled s" by (simp_all add: advance_same)
qed

lemma advance_upsert: "UpsertSourceRun env run s = (r, s') \<Longrightarrow> files_kept env \<Longrightarrow> advance consumer s s'"
  using UpsertSourceRun_frame by (auto intro: advance_same)

lemma advance_cursor: "SaveSourceCursor env cursor s = (r, s') \<Longrightarrow> files_kept env \<Longrightarrow> advance consumer s s'"
  using SaveSourceCursor_frame by (auto intro: advance_same)

lemma ListSourceRuns_content: "ListSourceRuns env s = (r, s') \<Longrightarrow> files_kept env \<Longrightarrow> content s' = content s \<and> ss_handled s' = ss_handled s"
  using source_op_content [of env _ s r s'] source_op_frame [of env _ s r s'] unfolding ListSourceRuns_def by fastforce

text \<open>The evidence of an event is recorded before the event is handled, and stays.\<close>

lemma check_evidence_good:
  assumes "check_evidence now consumer frame e = Inr (Some ev)"
  shows "good_evidence consumer ev" and "sver_SourceEventRef ev = TrimSpace (xe_ExternalEventID e)"
proof -
  obtain ev0 where ev: "validateSourceVerificationEvidenceForEvent now consumer frame e ev0 = Inr ev"
    using assms by (auto simp: check_evidence_def split: if_splits option.splits sum.splits)
  then have n: "normalizeSourceVerificationEvidence now ev0 = Inr ev" and st: "sver_ValidationStatus ev = ''verified''"
    and ref: "sver_SourceEventRef ev = TrimSpace (xe_ExternalEventID e)"
    and ids: "TrimSpace (firstNonEmpty [fc_ExpectedSourceID consumer, fr_SourceID frame]) \<noteq> [] \<longrightarrow>
      sver_SourceID ev = TrimSpace (firstNonEmpty [fc_ExpectedSourceID consumer, fr_SourceID frame])"
    "TrimSpace (fc_ExpectedAdapterRef consumer) \<noteq> [] \<longrightarrow> sver_AdapterRef ev = TrimSpace (fc_ExpectedAdapterRef consumer)"
    by (auto simp: validateSourceVerificationEvidenceForEvent_def bind_res_Inr_iff Let_def split: if_splits)
  have "TrimSpace (fc_ExpectedSourceID consumer) \<noteq> [] \<Longrightarrow> firstNonEmpty [fc_ExpectedSourceID consumer, fr_SourceID frame] = TrimSpace (fc_ExpectedSourceID consumer)"
    by (simp add: firstNonEmpty_def)
  then show "good_evidence consumer ev" using n st ids normalize_evidence(8) [OF n st] by (auto simp: good_evidence_def)
  show "sver_SourceEventRef ev = TrimSpace (xe_ExternalEventID e)" by (rule ref)
qed

lemma verified_evidence:
  "check_evidence now consumer frame e = Inr evidence \<Longrightarrow> xe_SourceValidation e = ''verified'' \<Longrightarrow> \<exists>ev. evidence = Some ev"
  by (auto simp: check_evidence_def split: option.splits sum.splits)

lemma store_evidence_advance:
  assumes "store_evidence env consumer evidence s = (r, s')" and "check_evidence now consumer frame e = Inr evidence"
    and "files_kept (it_source env)" and "TrimSpace (xe_ExternalEventID e) \<noteq> []"
  shows "advance consumer s s'" and "sl_Cursors (content s') = sl_Cursors (content s)" and "ss_handled s' = ss_handled s"
    and "r = Inr () \<Longrightarrow> proven consumer s' e"
proof -
  have "advance consumer s s' \<and> sl_Cursors (content s') = sl_Cursors (content s) \<and> ss_handled s' = ss_handled s \<and> (r = Inr () \<longrightarrow> proven consumer s' e)"
  proof (cases "fc_SourceStore consumer \<and> (\<exists>ev. evidence = Some ev)")
    case False
    then have "s' = s" using assms(1) by (auto simp: store_evidence_def split: option.splits)
    then show ?thesis using False verified_evidence [OF assms(2)] by (auto simp: proven_def)
  next
    case True
    then obtain ev where ev: "evidence = Some ev" by blast
    with True assms(1) have "RecordSourceVerification (it_source env) ev s = (r, s')" by (simp add: store_evidence_def)
    then show ?thesis using assms(3)
    proof (cases rule: RecordSourceVerification_cases)
      case kept
      then show ?thesis by (auto intro: advance_same)
    next
      case (written ev')
      note good = check_evidence_good [OF assms(2) [unfolded ev]]
      note n = normalize_evidence [OF written(1)]
      have ref: "sver_SourceEventRef ev' = TrimSpace (xe_ExternalEventID e)" using n(1) good(2) by simp
      then have key: "sourceVerificationKey ev' = ''event:'' @ TrimSpace (xe_ExternalEventID e)" using assms(4) by (simp add: sourceVerificationKey_def)
      have "sver_ValidationStatus ev' = ''verified''" using n(4) good(1) by (simp add: good_evidence_def TrimSpace_plain plain_ends_def ascii_space_def)
      moreover from n(8) [OF this] have "validSourceEvidenceKind (sver_EvidenceKind ev') \<and> sver_EvidenceRef ev' \<noteq> []" .
      ultimately have g: "good_evidence consumer ev'" using good(1) n(2,7) by (auto simp: good_evidence_def)
      have "proven consumer s e' \<Longrightarrow> proven consumer s' e'" for e'
        using g ref by (auto simp: proven_def written(3) key)
      moreover have "proven consumer s' e" using g ref by (auto simp: proven_def written(3) key)
      ultimately show ?thesis using written(2,3) by (simp add: advance_def)
    qed
  qed
  then show "advance consumer s s'" and "sl_Cursors (content s') = sl_Cursors (content s)" and "ss_handled s' = ss_handled s"
    and "r = Inr () \<Longrightarrow> proven consumer s' e" by simp_all
qed

lemma check_event_admitted:
  assumes "check_event consumer frame = Inr e" and "xf_ExternalID (xe_SenderRef e) \<notin> set (ignoreSenderIDSet (fc_IgnoreSenderIDs consumer))"
  shows "admitted consumer e" and "TrimSpace (xe_ExternalEventID e) \<noteq> []"
proof -
  have "validate_event e = None" and "validateSourceEventBinding consumer frame e = None" and "validSourceValidationStatus (xe_SourceValidation e)"
    and "xe_SourceValidation e \<noteq> ''rejected''"
    and "fc_RestrictToAllowedThreads consumer \<longrightarrow> xt_ExternalID (xe_ThreadRef e) \<in> set (allowedThreadIDSet (fc_AllowedThreadIDs consumer))"
    using assms(1) by (auto simp: check_event_def Let_def split: option.splits if_splits)
  then show "admitted consumer e" using assms(2)
    by (auto simp: admitted_def validateSourceEventBinding_def validSourceValidationStatus_def allowedThreadIDSet_def ignoreSenderIDSet_def split: if_splits)
  show "TrimSpace (xe_ExternalEventID e) \<noteq> []" using \<open>validate_event e = None\<close> by (auto simp: validate_event_def Let_def split: if_splits)
qed

lemma check_event_named: "check_event consumer frame = Inr e \<Longrightarrow> TrimSpace (xe_ExternalEventID e) \<noteq> []"
  by (auto simp: check_event_def validate_event_def Let_def split: option.splits if_splits)

lemma event_cursor_effect:
  assumes "event_cursor env consumer frame e s = (r, s')" and "files_kept (it_source env)"
  shows "advance consumer s s'" and "ss_handled s' = ss_handled s" and "r = Inr i \<Longrightarrow> i = [] \<or> i = xe_ExternalEventID e"
    and "sl_Cursors (content s') \<noteq> sl_Cursors (content s) \<Longrightarrow> \<exists>cursor. fr_Cursor frame = Some cursor \<and> named_event frame cursor [xe_ExternalEventID e] = xe_ExternalEventID e"
proof -
  consider (same) "s' = s" "r = Inr (xe_ExternalEventID e)"
    | (refused) cause r0 where "refuse_frame env consumer frame ''source_cursor_failed'' cause s = (r0, s')" "r = bind_res r0 (\<lambda>_. Inr [])"
    | (saved) cursor saved r0 where "fr_Cursor frame = Some cursor" "named_event frame cursor [xe_ExternalEventID e] = xe_ExternalEventID e"
        "SaveSourceCursor (it_source env) saved s = (r0, s')" "r = bind_res r0 (\<lambda>_. Inr (xe_ExternalEventID e))"
    using assms(1) that by (auto simp: event_cursor_def Let_def split: option.splits sum.splits if_splits prod.splits)
  note steps = this
  from steps show "advance consumer s s'" by cases (auto intro: advance_failure advance_cursor assms(2))
  from steps show "ss_handled s' = ss_handled s" by cases (auto dest: advance_failure SaveSourceCursor_frame(1) [OF _ assms(2)])
  from steps show "r = Inr i \<Longrightarrow> i = [] \<or> i = xe_ExternalEventID e" by cases (auto simp: bind_res_Inr_iff)
  from steps show "sl_Cursors (content s') \<noteq> sl_Cursors (content s) \<Longrightarrow> \<exists>cursor. fr_Cursor frame = Some cursor \<and> named_event frame cursor [xe_ExternalEventID e] = xe_ExternalEventID e"
    by cases (auto dest: advance_failure)
qed

lemma handle_event_effect:
  assumes "handle_event env e s = (err, s')" and "admitted consumer e" and "proven consumer s e"
  shows "advance consumer s s'" and "content s' = content s" and "ss_handled s' = ss_handled s @ [(e, err)]"
proof -
  show c: "content s' = content s" and h: "ss_handled s' = ss_handled s @ [(e, err)]" using assms(1) by (auto simp: handle_event_def Let_def content_def)
  show "advance consumer s s'" using assms(2,3) unfolding advance_def c h proven_def by auto
qed

text \<open>The ways through an event frame.\<close>

lemma consumeSourceEventFrame_cases [consumes 1]:
  assumes "consumeSourceEventFrame env consumer frame s = (r, s')"
  obtains (refused) reason cause r0 where "refuse_frame env consumer frame reason cause s = (r0, s')" "r = bind_res r0 (\<lambda>_. Inr [])"
  | (unhandled) e evidence r0 where "check_event consumer frame = Inr e" "check_evidence (source_wall (it_source env) s) consumer frame e = Inr evidence"
      "store_evidence env consumer evidence s = (r0, s')" "r = Inr [] \<or> (\<exists>err. r = Inl err)"
  | (handled) e evidence s1 s2 err where "check_event consumer frame = Inr e" "check_evidence (source_wall (it_source env) s) consumer frame e = Inr evidence"
      "store_evidence env consumer evidence s = (Inr (), s1)" "xf_ExternalID (xe_SenderRef e) \<notin> set (ignoreSenderIDSet (fc_IgnoreSenderIDs consumer))"
      "handle_event env e s1 = (err, s2)" "(\<exists>x. err = Some x \<and> r = Inl (sourceCommandHandlerError x) \<and> s' = s2) \<or> err = None \<and> event_cursor env consumer frame e s2 = (r, s')"
proof (cases "check_event consumer frame")
  case (Inl failure)
  then show ?thesis using assms that(1) by (cases failure) (auto simp: consumeSourceEventFrame_def Let_def split: prod.splits)
next
  case (Inr e)
  note e = this
  show ?thesis
  proof (cases "check_evidence (source_wall (it_source env) s) consumer frame e")
    case (Inl failure)
    then show ?thesis using assms that(1) e by (cases failure) (auto simp: consumeSourceEventFrame_def Let_def split: prod.splits)
  next
    case (Inr evidence)
    obtain r1 s1 where rec: "store_evidence env consumer evidence s = (r1, s1)" by fastforce
    obtain err s2 where h: "handle_event env e s1 = (err, s2)" by fastforce
    consider (fail) x where "r1 = Inl x" | (ignored) "r1 = Inr ()" "xf_ExternalID (xe_SenderRef e) \<in> set (ignoreSenderIDSet (fc_IgnoreSenderIDs consumer))"
      | (go) "r1 = Inr ()" "xf_ExternalID (xe_SenderRef e) \<notin> set (ignoreSenderIDSet (fc_IgnoreSenderIDs consumer))"
      by (cases r1) auto
    then show ?thesis
    proof cases
      case fail
      then show ?thesis using assms e Inr rec that(2) [OF e Inr] by (auto simp: consumeSourceEventFrame_def Let_def)
    next
      case ignored
      then show ?thesis using assms e Inr rec that(2) [OF e Inr] by (auto simp: consumeSourceEventFrame_def Let_def)
    next
      case go
      then show ?thesis using assms e Inr rec h by (intro that(3) [OF e Inr _ _ h]) (auto simp: consumeSourceEventFrame_def Let_def split: option.splits)
    qed
  qed
qed

definition acknowledged :: "string list \<Rightarrow> source_state \<Rightarrow> bool" where
  "acknowledged accepted s \<longleftrightarrow> (\<forall>i \<in> set accepted. \<exists>e. (e, None) \<in> set (ss_handled s) \<and> xe_ExternalEventID e = i)"

text \<open>The event a frame names as handled.\<close>

definition frame_names :: "SourceCommandFrame \<Rightarrow> string \<Rightarrow> bool" where
  "frame_names frame i \<longleftrightarrow>
     (\<exists>cursor. fr_Cursor frame = Some cursor \<and>
        (if fr_Kind frame = SourceFrameKindEvent
         then \<exists>e. fr_Event frame = Some e \<and> xe_ExternalEventID e = i \<and> named_event frame cursor [i] = i
         else i = named_event frame cursor []))"

lemma consumeSourceEventFrame_effect:
  assumes "consumeSourceEventFrame env consumer frame s = (r, s')" and "files_kept (it_source env)"
  shows "advance consumer s s'" and "r = Inr i \<Longrightarrow> i \<noteq> [] \<Longrightarrow> \<exists>e. (e, None) \<in> set (ss_handled s') \<and> xe_ExternalEventID e = i"
    and "sl_Cursors (content s') \<noteq> sl_Cursors (content s) \<Longrightarrow> \<exists>cursor event e. fr_Cursor frame = Some cursor \<and> fr_Event frame = Some event \<and>
      (e, None) \<in> set (ss_handled s') \<and> xe_ExternalEventID e = xe_ExternalEventID event \<and> named_event frame cursor [xe_ExternalEventID e] = xe_ExternalEventID e"
proof -
  have "advance consumer s s' \<and> (\<forall>i. r = Inr i \<longrightarrow> i \<noteq> [] \<longrightarrow> (\<exists>e. (e, None) \<in> set (ss_handled s') \<and> xe_ExternalEventID e = i)) \<and>
    (sl_Cursors (content s') \<noteq> sl_Cursors (content s) \<longrightarrow> (\<exists>cursor event e. fr_Cursor frame = Some cursor \<and> fr_Event frame = Some event \<and>
      (e, None) \<in> set (ss_handled s') \<and> xe_ExternalEventID e = xe_ExternalEventID event \<and> named_event frame cursor [xe_ExternalEventID e] = xe_ExternalEventID e))"
    using assms(1)
  proof (cases rule: consumeSourceEventFrame_cases)
    case (refused reason cause r0)
    then show ?thesis using advance_failure [OF refused(1)] by (auto simp: bind_res_Inr_iff)
  next
    case (unhandled e evidence r0)
    then show ?thesis using store_evidence_advance [OF unhandled(3,2) assms(2) check_event_named [OF unhandled(1)]] by auto
  next
    case (handled e evidence s1 s2 err)
    note ok = check_event_admitted [OF handled(1,4)]
    note rec = store_evidence_advance [OF handled(3,2) assms(2) ok(2)]
    note h = handle_event_effect [OF handled(5) ok(1) rec(4) [OF HOL.refl]]
    have adv: "advance consumer s s2" using rec(1) h(1) by (rule advance_trans)
    obtain event where event: "fr_Event frame = Some event" "xe_ExternalEventID event = xe_ExternalEventID e"
      using handled(1) by (auto simp: check_event_def Let_def split: option.splits if_splits)
    from handled(6) show ?thesis
    proof (elim disjE exE conjE)
      fix x assume "r = Inl (sourceCommandHandlerError x)" "s' = s2"
      then show ?thesis using adv h(2) rec(2) by simp
    next
      assume none: "err = None" and c: "event_cursor env consumer frame e s2 = (r, s')"
      note cur = event_cursor_effect [OF c assms(2)]
      have mem: "(e, None) \<in> set (ss_handled s')" using cur(2) h(3) none by simp
      have "i = xe_ExternalEventID e" if "r = Inr i" "i \<noteq> []" for i using cur(3) [OF that(1)] that(2) by blast
      moreover have "\<exists>cursor. fr_Cursor frame = Some cursor \<and> named_event frame cursor [xe_ExternalEventID e] = xe_ExternalEventID e"
        if "sl_Cursors (content s') \<noteq> sl_Cursors (content s)" using cur(4) that h(2) rec(2) by simp
      ultimately show ?thesis using advance_trans [OF adv cur(1)] mem event by metis
    qed
  qed
  then show "advance consumer s s'" and "r = Inr i \<Longrightarrow> i \<noteq> [] \<Longrightarrow> \<exists>e. (e, None) \<in> set (ss_handled s') \<and> xe_ExternalEventID e = i"
    and "sl_Cursors (content s') \<noteq> sl_Cursors (content s) \<Longrightarrow> \<exists>cursor event e. fr_Cursor frame = Some cursor \<and> fr_Event frame = Some event \<and>
      (e, None) \<in> set (ss_handled s') \<and> xe_ExternalEventID e = xe_ExternalEventID event \<and> named_event frame cursor [xe_ExternalEventID e] = xe_ExternalEventID e"
    by blast+
qed

lemma consumeSourceReadyFrame_effect:
  assumes "consumeSourceReadyFrame env consumer frame s = (r, s')" and "files_kept (it_source env)"
  shows "advance consumer s s'" and "sl_Cursors (content s') = sl_Cursors (content s)"
proof -
  consider (same) "s' = s" | (refused) reason cause where "refuse_frame env consumer frame reason cause s = (r, s')"
    | (written) now s1 run where "sourceCommandNow env s = (now, s1)" "UpsertSourceRun (it_source env) run s1 = (r, s')"
    using assms(1) that by (auto simp: consumeSourceReadyFrame_def split: option.splits if_splits prod.splits)
  then have "advance consumer s s' \<and> sl_Cursors (content s') = sl_Cursors (content s)"
  proof cases
    case (refused reason cause)
    then show ?thesis using advance_failure [OF refused] by simp
  next
    case (written now s1 run)
    then show ?thesis using advance_clock [OF written(1)] advance_upsert [OF written(2) assms(2)] UpsertSourceRun_frame(3) [OF written(2) assms(2)]
      by (metis advance_trans)
  qed simp
  then show "advance consumer s s'" and "sl_Cursors (content s') = sl_Cursors (content s)" by simp_all
qed

lemma consumeSourceStoppedFrame_effect:
  assumes "consumeSourceStoppedFrame env consumer frame s = (r, s')" and "files_kept (it_source env)"
  shows "advance consumer s s'" and "sl_Cursors (content s') = sl_Cursors (content s)"
proof -
  consider (same) "s' = s" | (refused) reason cause where "refuse_frame env consumer frame reason cause s = (r, s')"
    | (listed) now s1 r1 where "sourceCommandNow env s = (now, s1)" "ListSourceRuns (it_source env) s1 = (r1, s')"
    | (written) now s1 runs s2 run where "sourceCommandNow env s = (now, s1)" "ListSourceRuns (it_source env) s1 = (runs, s2)"
        "UpsertSourceRun (it_source env) run s2 = (r, s')"
    using assms(1) that by (auto simp: consumeSourceStoppedFrame_def split: option.splits if_splits prod.splits sum.splits)
  note steps = this
  have reading: "advance consumer x y \<and> content y = content x" if "ListSourceRuns (it_source env) x = (r1, y)" for x y r1
    using ListSourceRuns_content [OF that assms(2)] by (auto intro: advance_same)
  from steps have "advance consumer s s' \<and> sl_Cursors (content s') = sl_Cursors (content s)"
  proof cases
    case (refused reason cause)
    then show ?thesis using advance_failure [OF refused] by simp
  next
    case (listed now s1 r1)
    then show ?thesis using advance_clock [OF listed(1)] reading [OF listed(2)] by (metis advance_trans)
  next
    case (written now s1 runs s2 run)
    then show ?thesis using advance_clock [OF written(1)] reading [OF written(2)] advance_upsert [OF written(3) assms(2)]
      UpsertSourceRun_frame(3) [OF written(3) assms(2)] by (metis advance_trans)
  qed simp
  then show "advance consumer s s'" and "sl_Cursors (content s') = sl_Cursors (content s)" by simp_all
qed

lemma consumeSourceCursorFrame_effect:
  assumes "consumeSourceCursorFrame env consumer frame accepted s = (r, s')" and "files_kept (it_source env)"
  shows "advance consumer s s'" and "ss_handled s' = ss_handled s"
    and "sl_Cursors (content s') \<noteq> sl_Cursors (content s) \<Longrightarrow> \<exists>cursor. fr_Cursor frame = Some cursor \<and> named_event frame cursor [] \<in> set accepted"
proof -
  consider (same) "s' = s" | (refused) reason cause where "refuse_frame env consumer frame reason cause s = (r, s')"
    | (saved) cursor saved where "fr_Cursor frame = Some cursor" "named_event frame cursor [] \<in> set accepted" "SaveSourceCursor (it_source env) saved s = (r, s')"
    using assms(1) that by (auto simp: consumeSourceCursorFrame_def Let_def split: option.splits if_splits sum.splits)
  note steps = this
  from steps show "advance consumer s s'" by cases (auto intro: advance_failure advance_cursor assms(2))
  from steps show "ss_handled s' = ss_handled s" by cases (auto dest: advance_failure SaveSourceCursor_frame(1) [OF _ assms(2)])
  from steps show "sl_Cursors (content s') \<noteq> sl_Cursors (content s) \<Longrightarrow> \<exists>cursor. fr_Cursor frame = Some cursor \<and> named_event frame cursor [] \<in> set accepted"
    by cases (auto dest: advance_failure)
qed

text \<open>A line: the state advances, and a cursor moves only when the frame names an event that was handled.\<close>

definition line_effect :: "SourceCommandFrameConsumer \<Rightarrow> string list \<Rightarrow> source_state \<Rightarrow> string list \<Rightarrow> source_state \<Rightarrow> SourceCommandFrame option \<Rightarrow> bool" where
  "line_effect consumer accepted s accepted' s' frame \<longleftrightarrow>
     advance consumer s s' \<and> (acknowledged accepted s \<longrightarrow> acknowledged accepted' s' \<and>
       (sl_Cursors (content s') \<noteq> sl_Cursors (content s) \<longrightarrow>
        (\<exists>f e. frame = Some f \<and> (e, None) \<in> set (ss_handled s') \<and> frame_names f (xe_ExternalEventID e))))"

lemma acknowledged_advance: "acknowledged accepted s \<Longrightarrow> advance consumer s s' \<Longrightarrow> acknowledged accepted s'"
  unfolding acknowledged_def advance_def by (metis Un_iff set_append)

lemma line_effect_quiet:
  "advance consumer s s' \<Longrightarrow> sl_Cursors (content s') = sl_Cursors (content s) \<Longrightarrow> line_effect consumer accepted s accepted s' frame"
  by (simp add: line_effect_def acknowledged_advance)

lemma consume_frame_effect:
  assumes "consume_frame env consumer frame (accepted, s) = (r, (accepted', s'))" and "files_kept (it_source env)"
  shows "line_effect consumer accepted s accepted' s' (Some frame)"
proof -
  consider (ready) "consumeSourceReadyFrame env consumer frame s = (r, s')" "accepted' = accepted"
    | (event) r0 where "fr_Kind frame = SourceFrameKindEvent" "consumeSourceEventFrame env consumer frame s = (r0, s')"
        "accepted' = accepted \<or> (\<exists>i. r0 = Inr i \<and> i \<noteq> [] \<and> accepted' = i # accepted)"
    | (cursor) "fr_Kind frame \<noteq> SourceFrameKindEvent" "consumeSourceCursorFrame env consumer frame accepted s = (r, s')" "accepted' = accepted"
    | (failed) f where "recordSourceCommandFrameFailure env consumer f [] s = (r, s')" "accepted' = accepted"
    | (stopped) "consumeSourceStoppedFrame env consumer frame s = (r, s')" "accepted' = accepted"
  proof (cases "fr_Kind frame = SourceFrameKindEvent")
    case True
    obtain r0 s0 where "consumeSourceEventFrame env consumer frame s = (r0, s0)" by fastforce
    with True assms(1) show ?thesis by (intro that(2) [of r0]) (auto simp: consume_frame_def split: sum.splits if_splits)
  next
    case False
    have keep: "f = (r, s') \<and> accepted' = accepted" if "(case f of (r, s) \<Rightarrow> (r, (accepted, s))) = (r, (accepted', s'))" for f
      using that by (auto split: prod.splits)
    consider "fr_Kind frame = SourceFrameKindReady" | "fr_Kind frame = SourceFrameKindCursor" | "fr_Kind frame = SourceFrameKindFailed"
      | "fr_Kind frame = SourceFrameKindStopped"
      | "fr_Kind frame \<notin> {SourceFrameKindReady, SourceFrameKindCursor, SourceFrameKindFailed, SourceFrameKindStopped}" by blast
    then show ?thesis
    proof cases
      case 1
      then show ?thesis using assms(1) that(1) keep by (simp add: consume_frame_def)
    next
      case 2
      then show ?thesis using assms(1) that(3) keep False by (simp add: consume_frame_def)
    next
      case 3
      then show ?thesis using assms(1) that(4) keep by (simp add: consume_frame_def)
    next
      case 4
      then show ?thesis using assms(1) that(5) keep by (simp add: consume_frame_def)
    next
      case 5
      then show ?thesis using assms(1) that(4) keep False by (simp add: consume_frame_def)
    qed
  qed
  then show ?thesis
  proof cases
    case ready
    then show ?thesis using consumeSourceReadyFrame_effect [OF _ assms(2)] by (blast intro: line_effect_quiet)
  next
    case (event r0)
    note ev = consumeSourceEventFrame_effect [OF event(2) assms(2)]
    have "acknowledged accepted' s'" if "acknowledged accepted s"
      using acknowledged_advance [OF that ev(1)] event(3) ev(2) by (auto simp: acknowledged_def)
    moreover have "\<exists>e. (e, None) \<in> set (ss_handled s') \<and> frame_names frame (xe_ExternalEventID e)" if "sl_Cursors (content s') \<noteq> sl_Cursors (content s)"
      using ev(3) [OF that] event(1) by (fastforce simp: frame_names_def)
    ultimately show ?thesis using ev(1) by (simp add: line_effect_def)
  next
    case cursor
    note cur = consumeSourceCursorFrame_effect [OF cursor(2) assms(2)]
    have "\<exists>e. (e, None) \<in> set (ss_handled s') \<and> frame_names frame (xe_ExternalEventID e)"
      if "acknowledged accepted s" "sl_Cursors (content s') \<noteq> sl_Cursors (content s)"
      using cur(3) [OF that(2)] that(1) cursor(1) cur(2) by (auto simp: frame_names_def acknowledged_def)
    then show ?thesis using cur(1) cursor(3) by (simp add: line_effect_def acknowledged_advance)
  next
    case (failed f)
    then show ?thesis using advance_failure [OF failed(1)] by (auto intro: line_effect_quiet)
  next
    case stopped
    then show ?thesis using consumeSourceStoppedFrame_effect [OF _ assms(2)] by (blast intro: line_effect_quiet)
  qed
qed

definition line_frame :: "intake_env \<Rightarrow> string \<Rightarrow> SourceCommandFrame option" where
  "line_frame env line = (case decodeSourceCommandFrame env (TrimSpace line) of Inl _ \<Rightarrow> None | Inr frame \<Rightarrow> Some frame)"

lemma processLine_effect:
  assumes "processLine env consumer n line (accepted, s) = (r, (accepted', s'))" and "files_kept (it_source env)"
  shows "line_effect consumer accepted s accepted' s' (line_frame env line)"
proof (cases "TrimSpace line = []")
  case True
  then show ?thesis using assms(1) by (auto simp: processLine_def intro: line_effect_quiet)
next
  case False
  show ?thesis
  proof (cases "decodeSourceCommandFrame env (TrimSpace line)")
    case (Inl err)
    then obtain f l where "recordSourceCommandFrameFailure env consumer f l s = (r, s')" "accepted' = accepted"
      using assms(1) False by (auto simp: processLine_def Let_def split: prod.splits)
    then show ?thesis using advance_failure by (auto intro: line_effect_quiet)
  next
    case (Inr frame)
    then show ?thesis using assms False consume_frame_effect by (simp add: processLine_def Let_def line_frame_def)
  qed
qed

lemma consume_lines_advance:
  "consume_lines env consumer n cancelled inputs (accepted, s) = (r, (accepted', s')) \<Longrightarrow> files_kept (it_source env) \<Longrightarrow> advance consumer s s'"
proof (induction env consumer n cancelled inputs "(accepted, s)" arbitrary: accepted s rule: consume_lines.induct)
  case (5 env consumer n cancelled line inputs)
  obtain r1 a1 s1 where step: "processLine env consumer (Suc n) line (accepted, s) = (r1, (a1, s1))" by (metis prod.collapse)
  then have adv: "advance consumer s s1" using processLine_effect 5(3) by (auto simp: line_effect_def)
  show ?case
  proof (cases cancelled)
    case (Some err)
    then show ?thesis using 5(2) by simp
  next
    case None
    show ?thesis
    proof (cases r1)
      case (Inl err)
      then show ?thesis using 5(2) None step adv by simp
    next
      case (Inr u)
      then have "advance consumer s1 s'" using 5(1) [OF None step [symmetric]] 5(2,3) None step by simp
      with adv show ?thesis by (rule advance_trans)
    qed
  qed
qed (auto split: if_splits)

section \<open>Cursors\<close>

text \<open>The reading of the lines of one process, between which others may use the files.\<close>

inductive source_reading :: "intake_env \<Rightarrow> SourceCommandFrameConsumer \<Rightarrow> string list \<Rightarrow> source_state \<Rightarrow> bool" for env consumer where
  reading_start: "ss_handled s = [] \<Longrightarrow> source_reading env consumer [] s"
| reading_line: "source_reading env consumer accepted s \<Longrightarrow> processLine env consumer n line (accepted, s) = (r, (accepted', s')) \<Longrightarrow>
    source_reading env consumer accepted' s'"
| reading_other: "source_reading env consumer accepted s \<Longrightarrow> ss_handled s' = ss_handled s \<Longrightarrow> source_reading env consumer accepted s'"

lemma source_reading_acknowledged: "source_reading env consumer accepted s \<Longrightarrow> files_kept (it_source env) \<Longrightarrow> acknowledged accepted s"
proof (induction rule: source_reading.induct)
  case (reading_line accepted s n line r accepted' s')
  then show ?case using processLine_effect [OF reading_line.hyps(2)] by (simp add: line_effect_def)
qed (simp_all add: acknowledged_def)

section \<open>The end of an attempt\<close>

text \<open>A disk on which nothing fails, and a sort that keeps what it sorts.\<close>

definition no_faults :: "source_env \<Rightarrow> bool" where
  "no_faults env \<longleftrightarrow>
     (\<forall>n. let io = ce_io (so_env env) n in io_lock io = None \<and> io_load io = None \<and> io_prepare io = None \<and> io_rename io = None) \<and>
     (\<forall>xs. mset (so_sortAttempts env xs) = mset xs)"

lemma no_faults_kept: "no_faults env \<Longrightarrow> files_kept env"
  by (simp add: no_faults_def files_kept_def Let_def)

lemma file_op_works:
  assumes "no_faults env" and "body (case f of None \<Rightarrow> reset | Some p \<Rightarrow> p) = (r, w)"
  shows "file_op env reset body s f = (r, case w of None \<Rightarrow> f | Some p \<Rightarrow> Some p)"
proof -
  have io: "io_lock (source_io env s) = None" "io_load (source_io env s) = None" "io_prepare (source_io env s) = None" "io_rename (source_io env s) = None"
    using assms(1) by (auto simp: no_faults_def source_io_def Let_def)
  show ?thesis using assms(2) by (cases w) (simp_all add: file_op_def withLockedState_def writeLocked_def replaceConnectorStateFile_def io)
qed

lemma source_op_works:
  assumes "no_faults env" and "body (content s) = (r, Some payload)"
  shows "\<exists>s'. source_op env body s = (r, s') \<and> content s' = payload"
  using file_op_works [OF assms(1), where body = body and f = "ss_lifecycle s" and reset = source_reset] assms(2) by (simp add: source_op_def content_def)

lemma failure_works:
  assumes "no_faults (it_source env)" and "TrimSpace (fc_ExpectedConnector consumer) \<noteq> []"
  shows "\<exists>s'. recordSourceCommandFrameFailure env consumer frame line s = (Inr (), s') \<and> content s' = content s"
proof -
  have c: "firstNonEmpty (fc_ExpectedConnector consumer # xs) = TrimSpace (fc_ExpectedConnector consumer)" for xs
    using assms(2) by (simp add: firstNonEmpty_def)
  obtain r s' where run: "recordSourceCommandFrameFailure env consumer frame line s = (r, s')" by fastforce
  have "r = Inr ()"
    using run assms(2) by (auto simp: recordSourceCommandFrameFailure_def RecordSourceFailure_def failure_record_def Let_def failure_op_def c
        file_op_works [OF assms(1)] TrimSpace_plain plain_ends_def ascii_space_def split: if_splits prod.splits)
  then show ?thesis using run advance_failure [OF run] by blast
qed

lemma normalizeSourceRun_ok:
  assumes "TrimSpace (srun_SourceID run) \<noteq> []" "TrimSpace (srun_Connector run) \<noteq> []" "TrimSpace (srun_AdapterRef run) \<noteq> []"
    "validSourceRunStatus (TrimSpace (srun_Status run))"
    "TrimSpace (srun_BlockedReasonCode run) = [] \<or> validSourceReadinessReasonCode (TrimSpace (srun_BlockedReasonCode run))"
  shows "\<exists>run'. normalizeSourceRun now run = Inr run' \<and> srun_SourceID run' = TrimSpace (srun_SourceID run) \<and> srun_Status run' = TrimSpace (srun_Status run)"
  using assms by (simp add: normalizeSourceRun_def Let_def)

lemma normalizeSourceAttempt_ok:
  assumes "TrimSpace (satt_SourceRunID attempt) \<noteq> []" "validSourceAttemptOutcome (TrimSpace (satt_Outcome attempt))"
  shows "\<exists>attempt'. normalizeSourceAttempt env now attempt = Inr attempt' \<and> satt_SourceRunID attempt' = TrimSpace (satt_SourceRunID attempt) \<and>
    satt_Outcome attempt' = TrimSpace (satt_Outcome attempt)"
  using assms by (simp add: normalizeSourceAttempt_def Let_def)

lemma upsert_run_lookup:
  assumes "upsert_run run payload = (x, Some payload')"
  shows "\<exists>run'. go_lookup (sl_Runs payload') (srun_SourceID run) = Some run' \<and> srun_Status run' = srun_Status run"
proof -
  define run' where "run' = (case go_lookup (sl_Runs payload) (srun_SourceID run) of
    Some existing \<Rightarrow> if srun_StartedAt existing \<noteq> 0 then run\<lparr>srun_StartedAt := srun_StartedAt existing\<rparr> else run | None \<Rightarrow> run)"
  have run': "srun_SourceID run' = srun_SourceID run" "srun_Status run' = srun_Status run"
    by (cases "go_lookup (sl_Runs payload) (srun_SourceID run)"; simp add: run'_def)+
  have "payload\<lparr>sl_Runs := go_store (srun_SourceID run') run' (sl_Runs payload)\<rparr> = payload'"
    using assms unfolding upsert_run_def Let_def run'_def [symmetric] by simp
  then have "sl_Runs payload' = go_store (srun_SourceID run') run' (sl_Runs payload)" by auto
  then show ?thesis using run' by simp
qed

abbreviation named_adapter :: "SourceCommandAdapter \<Rightarrow> bool" where
  "named_adapter a \<equiv> ad_SourceStore a \<and> TrimSpace (ad_SourceID a) \<noteq> [] \<and> TrimSpace (ad_Connector a) \<noteq> [] \<and> TrimSpace (ad_AdapterRef a) \<noteq> []"

lemma recordRun_works:
  assumes "no_faults (it_source env)" and "named_adapter a" and "validSourceRunStatus status" "TrimSpace status = status"
    and "TrimSpace code = [] \<or> validSourceReadinessReasonCode (TrimSpace code)"
  shows "\<exists>s' run. recordRun env a status code reason startedAt boundary s = (Inr (), s') \<and> sl_Attempts (content s') = sl_Attempts (content s) \<and>
    go_lookup (sl_Runs (content s')) (TrimSpace (ad_SourceID a)) = Some run \<and> srun_Status run = status"
proof -
  obtain now s1 where clock: "sourceCommandNow env s = (now, s1)" by fastforce
  then have c1: "content s1 = content s" using advance_clock by blast
  let ?run = "\<lparr>srun_SourceID = TrimSpace (ad_SourceID a), srun_Connector = TrimSpace (ad_Connector a),
          srun_AdapterRef = TrimSpace (ad_AdapterRef a), srun_Status = status, srun_StartedAt = startedAt,
          srun_StoppedAt = (if status = SourceRunStatusStopped then boundary else 0),
          srun_LastReadyAt = (if status = SourceRunStatusReady then boundary else 0), srun_BlockedReasonCode = code,
          srun_BlockedReason = reason, srun_UpdatedAt = now\<rparr>"
  obtain run where run: "normalizeSourceRun (source_wall (it_source env) s1) ?run = Inr run" "srun_SourceID run = TrimSpace (ad_SourceID a)" "srun_Status run = status"
  proof -
    have "\<exists>run. normalizeSourceRun (source_wall (it_source env) s1) ?run = Inr run \<and> srun_SourceID run = TrimSpace (ad_SourceID a) \<and> srun_Status run = status"
      using normalizeSourceRun_ok [of ?run] assms(2-5) by simp
    then show ?thesis using that by blast
  qed
  obtain payload where up: "upsert_run run (content s1) = (Inr (), Some payload)" by (cases "upsert_run run (content s1)") (simp add: upsert_run_def Let_def)
  have look: "\<exists>run'. go_lookup (sl_Runs payload) (TrimSpace (ad_SourceID a)) = Some run' \<and> srun_Status run' = status"
    using upsert_run_lookup [OF up] run(2,3) by simp
  obtain s' where "source_op (it_source env) (upsert_run run) s1 = (Inr (), s')" "content s' = payload"
    using source_op_works [OF assms(1), where body = "upsert_run run"] up by blast
  then show ?thesis using look run(1) clock assms(2) upsert_run_other [OF up] c1 by (auto simp: recordRun_def UpsertSourceRun_def)
qed

lemma recordAttempt_works:
  assumes "no_faults (it_source env)" and "named_adapter a" and "validSourceAttemptOutcome outcome" "TrimSpace outcome = outcome"
  shows "\<exists>s' attempt. recordAttempt env a startedAt endedAt outcome [] s = (Inr (), s') \<and> sl_Runs (content s') = sl_Runs (content s) \<and>
    mset (runs_attempts (TrimSpace (ad_SourceID a)) (content s')) = mset (runs_attempts (TrimSpace (ad_SourceID a)) (content s)) + {#attempt#} \<and>
    satt_Outcome attempt = outcome"
proof -
  let ?cenv = "so_env (it_source env)"
  let ?attempt = "\<lparr>satt_AttemptID = stableOpaqueID ?cenv ''source_attempt'' [TrimSpace (ad_SourceID a), outcome, ce_format ?cenv startedAt, ce_format ?cenv endedAt, []],
          satt_SourceRunID = TrimSpace (ad_SourceID a), satt_StartedAt = startedAt, satt_EndedAt = endedAt, satt_Outcome = outcome, satt_FailureRef = []\<rparr>"
  obtain attempt where at: "normalizeSourceAttempt ?cenv (source_wall (it_source env) s) ?attempt = Inr attempt"
    "satt_SourceRunID attempt = TrimSpace (ad_SourceID a)" "satt_Outcome attempt = outcome"
    using normalizeSourceAttempt_ok [of ?attempt] assms(2-4) that by auto
  obtain payload where rec: "record_attempt (it_source env) attempt (content s) = (Inr (), Some payload)" by (simp add: record_attempt_def)
  have "sl_Runs payload = sl_Runs (content s)" using rec by (auto simp: record_attempt_def)
  moreover have "mset (so_sortAttempts (it_source env) xs) = mset xs" for xs using assms(1) by (simp add: no_faults_def)
  then have "mset (runs_attempts (TrimSpace (ad_SourceID a)) payload) = mset (runs_attempts (TrimSpace (ad_SourceID a)) (content s)) + {#attempt#}"
    using rec at(2) by (auto simp: record_attempt_def runs_attempts_def)
  moreover obtain s' where "source_op (it_source env) (record_attempt (it_source env) attempt) s = (Inr (), s')" "content s' = payload"
    using source_op_works [OF assms(1), where body = "record_attempt (it_source env) attempt"] rec by blast
  ultimately show ?thesis using at(1,3) assms(2) by (auto simp: recordAttempt_def RecordSourceAttempt_def)
qed

definition settled :: "SourceCommandAdapter \<Rightarrow> source_state \<Rightarrow> source_state \<Rightarrow> string \<Rightarrow> string \<Rightarrow> bool" where
  "settled a s s' status outcome \<longleftrightarrow>
     (\<exists>run attempt. go_lookup (sl_Runs (content s')) (TrimSpace (ad_SourceID a)) = Some run \<and> srun_Status run = status \<and>
        mset (runs_attempts (TrimSpace (ad_SourceID a)) (content s')) = mset (runs_attempts (TrimSpace (ad_SourceID a)) (content s)) + {#attempt#} \<and>
        satt_Outcome attempt = outcome)"

lemma settled_before: "sl_Attempts (content s1) = sl_Attempts (content s) \<Longrightarrow> settled a s1 s' status outcome \<Longrightarrow> settled a s s' status outcome"
  by (simp add: settled_def runs_attempts_def)

lemma both_run_attempt:
  assumes "both (recordRun env a status code reason t b) (recordAttempt env a t t' outcome []) result s = (r, s')"
    and "no_faults (it_source env)" "named_adapter a" and "validSourceRunStatus status" "TrimSpace status = status"
    and "TrimSpace code = [] \<or> validSourceReadinessReasonCode (TrimSpace code)" and "validSourceAttemptOutcome outcome" "TrimSpace outcome = outcome"
  shows "r = result" and "settled a s s' status outcome"
proof -
  obtain s1 run where 1: "recordRun env a status code reason t b s = (Inr (), s1)" "sl_Attempts (content s1) = sl_Attempts (content s)"
    "go_lookup (sl_Runs (content s1)) (TrimSpace (ad_SourceID a)) = Some run" "srun_Status run = status"
    using recordRun_works [OF assms(2-6)] by metis
  obtain s2 attempt where 2: "recordAttempt env a t t' outcome [] s1 = (Inr (), s2)" "sl_Runs (content s2) = sl_Runs (content s1)"
    "mset (runs_attempts (TrimSpace (ad_SourceID a)) (content s2)) = mset (runs_attempts (TrimSpace (ad_SourceID a)) (content s1)) + {#attempt#}"
    "satt_Outcome attempt = outcome" using recordAttempt_works [OF assms(2,3,7,8)] by metis
  have "r = result \<and> s' = s2" using assms(1) 1(1) 2(1) by (simp add: both_def)
  then show "r = result" and "settled a s s' status outcome" using 1(2-4) 2(2-4) by (auto simp: settled_def runs_attempts_def)
qed

lemma both_attempt_run:
  assumes "both (recordAttempt env a t t' outcome []) (recordRun env a status code reason t b) result s = (r, s')"
    and "no_faults (it_source env)" "named_adapter a" and "validSourceRunStatus status" "TrimSpace status = status"
    and "TrimSpace code = [] \<or> validSourceReadinessReasonCode (TrimSpace code)" and "validSourceAttemptOutcome outcome" "TrimSpace outcome = outcome"
  shows "r = result" and "settled a s s' status outcome"
proof -
  obtain s1 attempt where 1: "recordAttempt env a t t' outcome [] s = (Inr (), s1)"
    "mset (runs_attempts (TrimSpace (ad_SourceID a)) (content s1)) = mset (runs_attempts (TrimSpace (ad_SourceID a)) (content s)) + {#attempt#}"
    "satt_Outcome attempt = outcome" using recordAttempt_works [OF assms(2,3,7,8)] by metis
  obtain s2 run where 2: "recordRun env a status code reason t b s1 = (Inr (), s2)" "sl_Attempts (content s2) = sl_Attempts (content s1)"
    "go_lookup (sl_Runs (content s2)) (TrimSpace (ad_SourceID a)) = Some run" "srun_Status run = status"
    using recordRun_works [OF assms(2-6)] by metis
  have "r = result \<and> s' = s2" using assms(1) 1(1) 2(1) by (simp add: both_def)
  then show "r = result" and "settled a s s' status outcome" using 1(2,3) 2(2-4) by (auto simp: settled_def runs_attempts_def)
qed

lemma plain_words [simp]:
  "TrimSpace ''starting'' = ''starting''" "TrimSpace ''blocked'' = ''blocked''" "TrimSpace ''degraded'' = ''degraded''" "TrimSpace ''stopped'' = ''stopped''"
  "TrimSpace ''failed'' = ''failed''" "TrimSpace ''source_runtime_failed'' = ''source_runtime_failed''" "TrimSpace ''source_command_invalid'' = ''source_command_invalid''"
  by (simp_all add: TrimSpace_plain plain_ends_def ascii_space_def)

lemmas source_words = validSourceRunStatus_def validSourceAttemptOutcome_def validSourceReadinessReasonCode_def

lemma join_error_Is [simp]: "errors_Is (join_error sentinel err) sentinel"
  by (simp add: join_error_def)

text \<open>How an attempt ends: the result, the status of the run and the outcome of the attempt.\<close>

definition ends_as :: "unit res \<Rightarrow> string \<Rightarrow> string \<Rightarrow> bool" where
  "ends_as r status outcome \<longleftrightarrow>
     (case r of
        Inr _ \<Rightarrow> status = ''stopped'' \<and> outcome = ''stopped''
      | Inl err \<Rightarrow>
          errors_Is err ErrSourceCommandBlocked \<and> status = ''blocked'' \<and> outcome = ''blocked'' \<or>
          errors_Is err ErrSourceCommandRuntimeFailed \<and> status = ''degraded'' \<and> outcome = ''failed'' \<or>
          errors_Is err errSourceCommandHandlerFailed \<and> status = ''stopped'' \<and> outcome = ''failed'')"

definition ends_well :: "SourceCommandAdapter \<Rightarrow> source_state \<Rightarrow> unit res \<Rightarrow> source_state \<Rightarrow> bool" where
  "ends_well a s r s' \<longleftrightarrow> (\<exists>status outcome. settled a s s' status outcome \<and> ends_as r status outcome)"

lemma ends_wellI: "settled a s1 s' status outcome \<Longrightarrow> sl_Attempts (content s1) = sl_Attempts (content s) \<Longrightarrow> ends_as r status outcome \<Longrightarrow> ends_well a s r s'"
  using settled_before unfolding ends_well_def by blast

lemma ends_as_rules:
  "ends_as (Inl (sourceCommandBlockedError err)) ''blocked'' ''blocked''"
  "ends_as (Inl (sourceCommandRuntimeError err)) ''degraded'' ''failed''"
  "errors_Is err errSourceCommandHandlerFailed \<Longrightarrow> ends_as (Inl err) ''stopped'' ''failed''"
  "ends_as (Inr u) ''stopped'' ''stopped''"
  by (simp_all add: ends_as_def)

lemma end_blocked_ends:
  assumes "end_blocked env a t code description err s = (r, s')" and "no_faults (it_source env)" "named_adapter a"
    and "validSourceReadinessReasonCode (TrimSpace code)"
  shows "ends_well a s r s'"
proof -
  obtain now s1 where clock: "sourceCommandNow env s = (now, s1)" by fastforce
  have "both (recordRun env a SourceRunStatusBlocked code description t 0) (recordAttempt env a t now SourceAttemptOutcomeBlocked [])
     (Inl (sourceCommandBlockedError err)) s1 = (r, s')"
    using assms(1) clock by (simp add: end_blocked_def)
  from both_run_attempt [OF this assms(2,3)] assms(4) have "r = Inl (sourceCommandBlockedError err)" "settled a s1 s' ''blocked'' ''blocked''"
    by (simp_all add: source_words)
  then show ?thesis using ends_wellI [OF _ _ ends_as_rules(1)] advance_clock [OF clock] by metis
qed

lemma end_failed_ends:
  assumes "end_failed env a t t' err s = (r, s')" and "no_faults (it_source env)" "named_adapter a"
  shows "ends_well a s r s'"
proof (cases "errors_Is err errSourceCommandHandlerFailed")
  case True
  then have "both (recordAttempt env a t t' SourceAttemptOutcomeFailed []) (recordRun env a SourceRunStatusStopped [] [] t t') (Inl err) s = (r, s')"
    using assms(1) by (simp add: end_failed_def)
  from both_attempt_run [OF this assms(2,3)] have "r = Inl err" "settled a s s' ''stopped'' ''failed''" by (simp_all add: source_words)
  then show ?thesis using ends_wellI [OF _ HOL.refl ends_as_rules(3) [OF True]] by blast
next
  case False
  then have "both (recordRun env a SourceRunStatusDegraded SourceReadinessReasonSourceRuntimeFailed (so_text (it_source env) err) t t')
      (recordAttempt env a t t' SourceAttemptOutcomeFailed []) (Inl (sourceCommandRuntimeError err)) s = (r, s')"
    using assms(1) by (simp add: end_failed_def)
  from both_run_attempt [OF this assms(2,3)] have "r = Inl (sourceCommandRuntimeError err)" "settled a s s' ''degraded'' ''failed''"
    by (simp_all add: source_words)
  then show ?thesis using ends_wellI [OF _ HOL.refl ends_as_rules(2)] by blast
qed

lemma end_process_ends:
  assumes "end_process env a t t' proc s = (r, s')" and "no_faults (it_source env)" "named_adapter a"
  shows "ends_well a s r s'"
proof (cases "pr_wait proc")
  case None
  then have "both (recordAttempt env a t t' SourceAttemptOutcomeStopped []) (recordRun env a SourceRunStatusStopped [] [] t t') (Inr ()) s = (r, s')"
    using assms(1) by (simp add: end_process_def)
  from both_attempt_run [OF this assms(2,3)] have "r = Inr ()" "settled a s s' ''stopped'' ''stopped''" by (simp_all add: source_words)
  then show ?thesis using ends_wellI [OF _ HOL.refl ends_as_rules(4)] by blast
next
  case (Some err)
  have "TrimSpace (fc_ExpectedConnector (consumer_of a)) \<noteq> []" using assms(3) by (simp add: consumer_of_def)
  note fail = failure_works [OF assms(2) this]
  define detail where "detail = so_text (it_source env) err @ (if captured_stderr (pr_stderr proc) \<noteq> [] then '': '' @ SafeCLIProbeExcerpt (captured_stderr (pr_stderr proc)) else [])"
  define frame where "frame = no_frame\<lparr>fr_SourceID := TrimSpace (ad_SourceID a), fr_Connector := TrimSpace (ad_Connector a), fr_AdapterRef := TrimSpace (ad_AdapterRef a),
    fr_EventSource := TrimSpace (ad_AdapterRef a), fr_Reason := ''source_runtime_failed'', fr_Detail := detail\<rparr>"
  obtain s1 where s1: "recordSourceCommandFrameFailure env (consumer_of a) frame [] s = (Inr (), s1)" "content s1 = content s"
    using fail [of frame "[]" s] by blast
  then have "both (recordRun env a SourceRunStatusDegraded SourceReadinessReasonSourceRuntimeFailed detail t t')
      (recordAttempt env a t t' SourceAttemptOutcomeFailed []) (Inl (sourceCommandRuntimeError (errors_New ''source command failed''))) s1 = (r, s')"
    using assms(1) Some unfolding end_process_def Let_def by (simp add: frame_def detail_def)
  from both_run_attempt [OF this assms(2,3)]
  have "r = Inl (sourceCommandRuntimeError (errors_New ''source command failed''))" "settled a s1 s' ''degraded'' ''failed''" by (simp_all add: source_words)
  then show ?thesis using ends_wellI [OF _ _ ends_as_rules(2)] s1(2) by metis
qed

lemma Consume_ends:
  assumes "Consume env a s = (r, s')" and "no_faults (it_source env)" "named_adapter a" and "it_handle env \<noteq> None"
    and "TrimSpace (ad_ReadinessBlockReasonCode a) = [] \<or> validSourceReadinessReasonCode (TrimSpace (ad_ReadinessBlockReasonCode a))"
    and "\<forall>n. pr_pipe (it_process env n) = None"
  shows "ends_well a s r s'"
proof -
  obtain t s0 where clock: "sourceCommandNow env s = (t, s0)" by fastforce
  obtain s1 where start: "recordRun env a SourceRunStatusStarting [] [] t 0 s0 = (Inr (), s1)" "sl_Attempts (content s1) = sl_Attempts (content s0)"
    using recordRun_works [OF assms(2,3), of SourceRunStatusStarting "[]" "[]" t 0 s0] by (auto simp: source_words)
  have same: "sl_Attempts (content s1) = sl_Attempts (content s)" using start(2) advance_clock [OF clock] by simp
  have lift: "ends_well a x r s' \<Longrightarrow> sl_Attempts (content x) = sl_Attempts (content s) \<Longrightarrow> ends_well a s r s'" for x
    using settled_before unfolding ends_well_def by blast
  have "\<exists>block. readinessBlock a = Inr block" using assms(5) by (cases "TrimSpace (ad_ReadinessBlockReasonCode a) = []") (simp_all add: readinessBlock_def Let_def)
  then obtain block where block: "readinessBlock a = Inr block" ..
  have run: "(case block of None \<Rightarrow> run_process env a t s1 | Some (code, description) \<Rightarrow> end_blocked env a t code description (errors_New description) s1) = (r, s')"
    using assms(1,3,4) clock start(1) block unfolding Consume_def by (auto split: option.splits)
  show ?thesis
  proof (cases block)
    case (Some b)
    then obtain code description where b: "block = Some (code, description)" by (cases b) simp
    then have "code = SourceReadinessReasonSourceCommandInvalid \<or>
      code = TrimSpace (ad_ReadinessBlockReasonCode a) \<and> validSourceReadinessReasonCode (TrimSpace (ad_ReadinessBlockReasonCode a))"
      using block by (auto simp: readinessBlock_def Let_def split: if_splits)
    then have "validSourceReadinessReasonCode (TrimSpace code)" by (elim disjE conjE) (simp_all add: source_words)
    then show ?thesis using lift [OF end_blocked_ends [OF _ assms(2,3)] same] run b by simp
  next
    case None
    let ?p = "it_process env (ss_moment s1)"
    have invalid: "ends_well a s r s'" if "end_blocked env a t SourceReadinessReasonSourceCommandInvalid msg err s1 = (r, s')" for msg err
      using lift [OF end_blocked_ends [OF that assms(2,3)] same] by (simp add: source_words)
    consider msg err where "end_blocked env a t SourceReadinessReasonSourceCommandInvalid msg err s1 = (r, s')"
      | r1 s2 t' s3 where "ConsumeSourceCommandFrames env (consumer_of a) (pr_output ?p) s1 = (r1, s2)" "sourceCommandNow env s2 = (t', s3)"
        "(case r1 of Inl err \<Rightarrow> end_failed env a t t' err s3 | Inr _ \<Rightarrow> end_process env a t t' ?p s3) = (r, s')"
      using run None assms(6) by (auto simp: run_process_def Let_def split: option.splits prod.splits)
    then show ?thesis
    proof cases
      case 1
      then show ?thesis by (rule invalid)
    next
      case 2
      obtain acc where "consume_lines env (consumer_of a) 0 None (pr_output ?p) ([], s1) = (r1, (acc, s2))"
        using 2(1) assms(4) by (auto simp: ConsumeSourceCommandFrames_def split: prod.splits)
      then have "sl_Attempts (content s2) = sl_Attempts (content s1)" using consume_lines_advance no_faults_kept [OF assms(2)] by (auto simp: advance_def)
      then have "sl_Attempts (content s3) = sl_Attempts (content s)" using advance_clock [OF 2(2)] same by simp
      moreover have "ends_well a s3 r s'" using end_failed_ends [OF _ assms(2,3)] end_process_ends [OF _ assms(2,3)] 2(3) by (cases r1) auto
      ultimately show ?thesis using lift by blast
    qed
  qed
qed

section \<open>Retries\<close>

lemma backoff_loop_closed: "0 < delay \<Longrightarrow> backoff_loop n delay = min maxSourceCommandBackoff (delay * 2 ^ n)"
proof (induction n arbitrary: delay)
  case (Suc n)
  show ?case
  proof (cases "delay \<ge> maxSourceCommandBackoff div 2")
    case True
    have "(15000000000::int) * 2 \<le> delay * 2 ^ Suc n"
      using True by (intro mult_mono) (simp_all add: one_le_power)
    then show ?thesis using True by simp
  next
    case False
    then show ?thesis using Suc.IH [of "delay * 2"] Suc.prems by (simp add: mult.assoc)
  qed
qed simp

lemma attempts_loop_bounded:
  "1 \<le> attempt \<Longrightarrow> attempt \<le> rt_MaxAttempts policy \<Longrightarrow>
     1 \<le> snd (attempts_loop env a policy attempt e s) \<and> int (snd (attempts_loop env a policy attempt e s)) \<le> rt_MaxAttempts policy + 1 - attempt"
proof (induction env a policy attempt e s rule: attempts_loop.induct)
  case (1 env a policy attempt e s)
  note loop = attempts_loop.simps [of env a policy attempt e s]
  show ?case
  proof (cases "try_attempt env a policy attempt s")
    case (Inl result)
    then show ?thesis using 1(2,3) loop by simp
  next
    case (Inr x)
    then obtain err s1 where x: "try_attempt env a policy attempt s = Inr (err, s1)" by (cases x) simp
    have "attempt + 1 \<le> rt_MaxAttempts policy" using try_attempt_on [OF x] 1(3) by simp
    then show ?thesis using 1(1) [OF _ x HOL.refl] 1(2,3) loop x by (auto split: prod.splits)
  qed
qed

section \<open>Properties\<close>

text \<open>
  The handler is given admitted events only. Whatever lines a source writes, each event that reaches the handler is
  complete, comes from the connector of the source, is not rejected, is on an allowed thread where threads are
  restricted and is not from an ignored sender; an event with the status verified has evidence in the store, of an
  approved kind and bound to the event, the source and the adapter.
\<close>

theorem handled_events_admitted:
  assumes "ConsumeSourceCommandFrames env consumer inputs s = (r, s')" and "files_kept (it_source env)"
  shows "\<exists>new. ss_handled s' = ss_handled s @ new \<and> (\<forall>(e, err) \<in> set new. admitted consumer e \<and> proven consumer s' e)"
proof (cases "it_handle env = None")
  case True
  then show ?thesis using assms(1) by (intro exI [of _ "[]"]) (simp add: ConsumeSourceCommandFrames_def)
next
  case False
  then obtain accepted where "consume_lines env consumer 0 None inputs ([], s) = (r, (accepted, s'))"
    using assms(1) by (auto simp: ConsumeSourceCommandFrames_def split: prod.splits)
  from consume_lines_advance [OF this assms(2)] show ?thesis by (simp add: advance_def)
qed

text \<open>
  A cursor never runs ahead of the events. While a source is read, other uses of the files in between included, a
  line moves a cursor only if its frame names an event that was given to the handler before and handled without an
  error.
\<close>

theorem cursor_follows_events:
  assumes "source_reading env consumer accepted s" and "files_kept (it_source env)"
    and "processLine env consumer n line (accepted, s) = (r, (accepted', s'))" and "sl_Cursors (content s') \<noteq> sl_Cursors (content s)"
  shows "\<exists>frame e. line_frame env line = Some frame \<and> (e, None) \<in> set (ss_handled s') \<and> frame_names frame (xe_ExternalEventID e)"
  using processLine_effect [OF assms(3,2)] source_reading_acknowledged [OF assms(1,2)] assms(4) unfolding line_effect_def by blast

text \<open>
  An attempt settles. On a disk without faults every attempt with a valid configuration adds exactly one record of
  itself, and leaves the run stopped after a good end or a failed handler, blocked when the process could not be
  started, and degraded when the process or its output failed; the error that is returned says which.
\<close>

theorem source_attempt_settles:
  assumes "Consume env a s = (r, s')" and "no_faults (it_source env)" and "ad_SourceStore a" and "TrimSpace (ad_SourceID a) \<noteq> []"
    and "TrimSpace (ad_Connector a) \<noteq> []" and "TrimSpace (ad_AdapterRef a) \<noteq> []" and "it_handle env \<noteq> None"
    and "TrimSpace (ad_ReadinessBlockReasonCode a) = [] \<or> validSourceReadinessReasonCode (TrimSpace (ad_ReadinessBlockReasonCode a))"
    and "\<forall>n. pr_pipe (it_process env n) = None"
  shows "\<exists>status outcome. settled a s s' status outcome \<and> ends_as r status outcome"
  using Consume_ends [OF assms(1,2) _ assms(7-9)] assms(3-6) unfolding ends_well_def by blast

text \<open>
  Retries are bounded. The intake makes at least one attempt and at most as many as the policy allows, and the
  pause after the n-th failed attempt is the backoff times 2 to the n-1, but never more than thirty seconds.
\<close>

theorem source_retries_bounded:
  "1 \<le> snd (Run env a policy s)" "int (snd (Run env a policy s)) \<le> max 1 (rt_MaxAttempts policy)"
  "sourceCommandBackoffDelay policy (int (Suc n)) = (if rt_Backoff policy \<le> 0 then 0 else min maxSourceCommandBackoff (rt_Backoff policy * 2 ^ n))"
proof -
  have "1 \<le> rt_MaxAttempts (normalizeSourceCommandRetryPolicy policy)" "rt_MaxAttempts (normalizeSourceCommandRetryPolicy policy) = max 1 (rt_MaxAttempts policy)"
    by (auto simp: normalizeSourceCommandRetryPolicy_def)
  then show "1 \<le> snd (Run env a policy s)" "int (snd (Run env a policy s)) \<le> max 1 (rt_MaxAttempts policy)"
    using attempts_loop_bounded [of 1 "normalizeSourceCommandRetryPolicy policy" env a "Inr ()" s] by (simp_all add: Run_def)
  show "sourceCommandBackoffDelay policy (int (Suc n)) = (if rt_Backoff policy \<le> 0 then 0 else min maxSourceCommandBackoff (rt_Backoff policy * 2 ^ n))"
    using backoff_loop_closed [of "rt_Backoff policy" n] by (simp add: sourceCommandBackoffDelay_def)
qed

text \<open>
  A status with a space around it needs no evidence. The status is compared as it was sent, but it is shown without
  the spaces: an event that calls itself verified is handled without any evidence, and one that is rejected is handled
  as well, and the turn they become says verified or rejected.
\<close>

theorem padded_status_unchecked:
  assumes "consumeSourceEventFrame env consumer frame s = (r, s')" and "fr_Event frame = Some e"
    and "xe_SourceValidation e \<noteq> TrimSpace (xe_SourceValidation e)" and "TrimSpace (xe_SourceValidation e) \<in> {''verified'', ''rejected''}"
    and "validateExpectedSourceFrame consumer frame = None" and "TrimSpace (fr_SourceID frame) \<noteq> []" and "validate_event e = None"
    and "validateSourceEventBinding consumer frame e = None" and "\<not> fc_RestrictToAllowedThreads consumer"
    and "xf_ExternalID (xe_SenderRef e) \<notin> set (ignoreSenderIDSet (fc_IgnoreSenderIDs consumer))" and "files_kept (it_source env)"
  shows "(\<exists>err. ss_handled s' = ss_handled s @ [(e, err)]) \<and> rc_SourceValidation (RequestContext_of cenv e mapping) = TrimSpace (xe_SourceValidation e)"
proof -
  have nb: "TrimSpace (xe_SourceValidation e) \<noteq> []" using assms(4) by auto
  have sv: "xe_SourceValidation e \<noteq> ''verified''" "xe_SourceValidation e \<noteq> ''rejected''"
    using assms(3) by (auto simp: TrimSpace_plain plain_ends_def ascii_space_def)
  have ev: "check_event consumer frame = Inr e"
    using assms nb sv by (auto simp: check_event_def Let_def validSourceValidationStatus_def)
  have evi: "check_evidence now consumer frame e = Inr None" for now using sv by (simp add: check_evidence_def)
  obtain err s2 where h: "handle_event env e s = (err, s2)" by fastforce
  then have h2: "ss_handled s2 = ss_handled s @ [(e, err)]" by (auto simp: handle_event_def Let_def)
  have "ss_handled s' = ss_handled s2"
    using assms(1,10) ev evi h event_cursor_effect(2) [OF _ assms(11)]
    by (auto simp: consumeSourceEventFrame_def store_evidence_def Let_def split: option.splits)
  then show ?thesis using h2 nb by (auto simp: RequestContext_of_def Let_def)
qed

section \<open>A sample\<close>

text \<open>A source that writes one event with a cursor and ends.\<close>

definition sample_source :: source_env where
  "sample_source = \<lparr>so_env = cn_env (in_connector sample_inbound), so_text = (\<lambda>err. ''error''), so_hash = id, so_sortAttempts = id, so_sortActions = id\<rparr>"

definition sample_source_frame :: SourceCommandFrame where
  "sample_source_frame = no_frame\<lparr>fr_Kind := ''source.event'', fr_SourceID := ''src'', fr_Event := Some sample_event,
     fr_Cursor := Some \<lparr>cf_SourceID = [], cf_CursorKind = [], cf_CursorValue = ''7'', cf_WatermarkAt = 0, cf_UpdatedAt = 1, cf_AfterEventID = ''e''\<rparr>\<rparr>"

definition sample_intake :: intake_env where
  "sample_intake = \<lparr>it_source = sample_source, it_handle = Some (\<lambda>event moment. None), it_json = (\<lambda>line. Inr (sample_source_frame, True)),
     it_process = (\<lambda>n. \<lparr>pr_resolve = None, pr_environment = None, pr_pipe = None, pr_start = None, pr_output = [Line ''event''], pr_wait = None, pr_stderr = []\<rparr>),
     it_context = (\<lambda>n. None), it_sleep = (\<lambda>n delay. None)\<rparr>"

definition sample_adapter :: SourceCommandAdapter where
  "sample_adapter = \<lparr>ad_SourceID = ''src'', ad_Connector = ''x'', ad_AdapterRef = ''a'', ad_SourceStore = True, ad_FailureStore = True, ad_IgnoreSenderIDs = [],
     ad_RestrictToAllowedThreads = False, ad_AllowedThreadIDs = [], ad_ReadinessBlockReasonCode = [], ad_ReadinessBlockDescription = [], ad_IdleTimeout = 0\<rparr>"

definition sample_start :: source_state where
  "sample_start = \<lparr>ss_moment = 0, ss_lifecycle = None, ss_failures = None, ss_handled = []\<rparr>"

lemma sample_source_ok: "no_faults sample_source"
  by (simp add: no_faults_def sample_source_def sample_inbound_def)

lemma sample_attempt_settles:
  "fst (Consume sample_intake sample_adapter sample_start) = Inr () \<and>
   (\<exists>status outcome. settled sample_adapter sample_start (snd (Consume sample_intake sample_adapter sample_start)) status outcome)"
proof -
  have "TrimSpace (ad_SourceID sample_adapter) \<noteq> []" "TrimSpace (ad_Connector sample_adapter) \<noteq> []" "TrimSpace (ad_AdapterRef sample_adapter) \<noteq> []"
    "TrimSpace (ad_ReadinessBlockReasonCode sample_adapter) = []" by code_simp+
  moreover have "no_faults (it_source sample_intake)" by (simp add: sample_intake_def sample_source_ok)
  moreover have "fst (Consume sample_intake sample_adapter sample_start) = Inr ()" by code_simp
  ultimately show ?thesis
    using source_attempt_settles [of sample_intake sample_adapter sample_start]
    by (metis sample_adapter_def sample_intake_def SourceCommandAdapter.select_convs(4) intake_env.select_convs(2,4) option.distinct(1)
        source_process.select_convs(3) prod.collapse)
qed

lemma sample_events_admitted:
  "\<exists>e. ss_handled (snd (Consume sample_intake sample_adapter sample_start)) = [(e, None)] \<and>
     go_lookup (sl_Cursors (content (snd (Consume sample_intake sample_adapter sample_start)))) (sourceCursorKey ''src'' ''external_event_id'') \<noteq> None"
proof -
  have "map snd (ss_handled (snd (Consume sample_intake sample_adapter sample_start))) = [None]" by code_simp
  moreover have "(case go_lookup (sl_Cursors (content (snd (Consume sample_intake sample_adapter sample_start)))) (sourceCursorKey ''src'' ''external_event_id'') of
      None \<Rightarrow> False | Some _ \<Rightarrow> True)" by code_simp
  ultimately show ?thesis by (auto simp: map_eq_Cons_conv split: option.splits)
qed

end
