(* ===== verification/Workflow.thy ===== *)
theory Workflow
  imports Go_Text Graph_DFS "HOL-Library.Product_Lexorder"
begin

text \<open>
  The compiler of workflow definitions (\<^verbatim>\<open>src/internal/applications/workflowruntime/workflow.go\<close>): a configuration
  is checked and brought into a canonical form that is hashed. What is accepted is a complete deterministic
  transition system whose cycles have a loop limit; compiling the canonical form again gives the same definition; and
  the order in which the entries of the configuration's maps are met does not matter unless two keys are equal
  up to white space.
\<close>

section \<open>Configurations and definitions\<close>

record nodeConfig =
  nc_Kind :: string
  nc_ExecutorRef :: string
  nc_AllowedOutcomes :: "string list"

record Edge =
  we_From :: string
  we_Outcome :: string
  we_To :: string

text \<open>The entries of a map are listed in the order in which the loop over it meets them.\<close>

record config =
  cf_WorkflowID :: string
  cf_DisplayName :: string
  cf_InitialNodeID :: string
  cf_Nodes :: "nodeConfig go_map"
  cf_Edges :: "Edge list"
  cf_TerminalOutcomes :: "string go_map"
  cf_MaxLoopCount :: int

record Node =
  wn_NodeID :: string
  wn_Kind :: string
  wn_ExecutorRef :: string
  wn_AllowedOutcomes :: "string list"

record TerminalOutcome =
  wt_Name :: string
  wt_Status :: string

record Definition =
  wd_WorkflowID :: string
  wd_DisplayName :: string
  wd_InitialNodeID :: string
  wd_Nodes :: "Node list"
  wd_Edges :: "Edge list"
  wd_TerminalOutcomes :: "TerminalOutcome list"
  wd_MaxLoopCount :: int
  wd_DefinitionHash :: string
  wd_Flowchart :: string

text \<open>
  What the compiler takes from the libraries: the letters and digits among the runes beyond ASCII, the JSON
  encoding of a definition, its digest and the quoting of a string.
\<close>

record workflow_env =
  wv_letter :: "string \<Rightarrow> bool"
  wv_digit :: "string \<Rightarrow> bool"
  wv_json :: "Definition \<Rightarrow> string res"
  wv_sum :: "string \<Rightarrow> string"
  wv_quote :: "string \<Rightarrow> string"

section \<open>Identifiers\<close>

definition IsLetter :: "workflow_env \<Rightarrow> string \<Rightarrow> bool" where
  "IsLetter env r \<longleftrightarrow>
     (case r of [c] \<Rightarrow> (CHR ''a'' \<le> c \<and> c \<le> CHR ''z'') \<or> (CHR ''A'' \<le> c \<and> c \<le> CHR ''Z'') | _ \<Rightarrow> wv_letter env r)"

definition IsDigit :: "workflow_env \<Rightarrow> string \<Rightarrow> bool" where
  "IsDigit env r \<longleftrightarrow> (case r of [c] \<Rightarrow> CHR ''0'' \<le> c \<and> c \<le> CHR ''9'' | _ \<Rightarrow> wv_digit env r)"

definition validID :: "workflow_env \<Rightarrow> string \<Rightarrow> bool" where
  "validID env value \<longleftrightarrow>
     (case runes value of
        [] \<Rightarrow> False
      | r # rs \<Rightarrow> IsLetter env r \<and> list_all (\<lambda>r. IsLetter env r \<or> IsDigit env r \<or> r = ''_'' \<or> r = ''-'') rs)"

section \<open>The parts of a definition\<close>

fun outcomes_loop :: "workflow_env \<Rightarrow> string \<Rightarrow> string list \<Rightarrow> string list \<Rightarrow> string list res" where
  "outcomes_loop env nodeID outcomes [] = Inr outcomes"
| "outcomes_loop env nodeID outcomes (outcome # rest) =
     (let outcome = TrimSpace outcome
      in if \<not> validID env outcome then Inl (Errorf ''invalid outcome %q for node %q'' [outcome, nodeID])
         else if outcome \<in> set outcomes then Inl (Errorf ''duplicate outcome %q for node %q'' [outcome, nodeID])
         else outcomes_loop env nodeID (outcomes @ [outcome]) rest)"

definition normalizeNode :: "workflow_env \<Rightarrow> string \<Rightarrow> nodeConfig \<Rightarrow> Node res" where
  "normalizeNode env nodeID raw =
     (let nodeID = TrimSpace nodeID
      in if \<not> validID env nodeID \<or> \<not> validID env (TrimSpace (nc_ExecutorRef raw)) \<or> TrimSpace (nc_Kind raw) = []
         then Inl (Errorf ''invalid node %q'' [nodeID])
         else if nc_AllowedOutcomes raw = [] then Inl (Errorf ''node %q has no allowed outcomes'' [nodeID])
         else bind_res (outcomes_loop env nodeID [] (nc_AllowedOutcomes raw)) (\<lambda>outcomes.
           Inr \<lparr>wn_NodeID = nodeID, wn_Kind = TrimSpace (nc_Kind raw), wn_ExecutorRef = TrimSpace (nc_ExecutorRef raw),
                wn_AllowedOutcomes = sort outcomes\<rparr>))"

fun nodes_loop :: "workflow_env \<Rightarrow> nodeConfig go_map \<Rightarrow> Node list res" where
  "nodes_loop env [] = Inr []"
| "nodes_loop env ((nodeID, raw) # rest) =
     bind_res (normalizeNode env nodeID raw) (\<lambda>node. bind_res (nodes_loop env rest) (\<lambda>nodes. Inr (node # nodes)))"

text \<open>The map of the nodes by their identifiers; a later node of the same identifier replaces an earlier one.\<close>

definition nodeByID :: "Node list \<Rightarrow> Node go_map" where
  "nodeByID nodes = fold (\<lambda>node m. go_store (wn_NodeID node) node m) nodes []"

fun terminals_loop :: "workflow_env \<Rightarrow> string go_map \<Rightarrow> TerminalOutcome list res" where
  "terminals_loop env [] = Inr []"
| "terminals_loop env ((name, status) # rest) =
     (let name = TrimSpace name
      in if \<not> validID env name \<or> TrimSpace status = [] then Inl (Errorf ''invalid terminal outcome %q'' [name])
         else bind_res (terminals_loop env rest) (\<lambda>terminals. Inr (\<lparr>wt_Name = name, wt_Status = TrimSpace status\<rparr> # terminals)))"

definition edge_key :: "string \<Rightarrow> string \<Rightarrow> string" where
  "edge_key nodeID outcome = nodeID @ [CHR 0x00] @ outcome"

definition key_of :: "Edge \<Rightarrow> string" where
  "key_of e = edge_key (we_From e) (we_Outcome e)"

definition trim_edge :: "Edge \<Rightarrow> Edge" where
  "trim_edge e = \<lparr>we_From = TrimSpace (we_From e), we_Outcome = TrimSpace (we_Outcome e), we_To = TrimSpace (we_To e)\<rparr>"

definition check_edge :: "Node go_map \<Rightarrow> string list \<Rightarrow> string list \<Rightarrow> Edge \<Rightarrow> go_error option" where
  "check_edge nodes terminals keys e =
     (case go_lookup nodes (we_From e) of
        None \<Rightarrow> Some (Errorf ''edge from undeclared node %q'' [we_From e])
      | Some node \<Rightarrow>
          if we_Outcome e \<notin> set (wn_AllowedOutcomes node)
          then Some (Errorf ''edge from %q uses undeclared outcome %q'' [we_From e, we_Outcome e])
          else if go_lookup nodes (we_To e) = None \<and> we_To e \<notin> set terminals
          then Some (Errorf ''edge to undeclared node or terminal %q'' [we_To e])
          else if key_of e \<in> set keys
          then Some (Errorf ''multiple edges for %q outcome %q'' [we_From e, we_Outcome e])
          else None)"

fun edges_loop :: "Node go_map \<Rightarrow> string list \<Rightarrow> string list \<Rightarrow> Edge list \<Rightarrow> Edge list res" where
  "edges_loop nodes terminals keys [] = Inr []"
| "edges_loop nodes terminals keys (rawEdge # rest) =
     (let e = trim_edge rawEdge
      in case check_edge nodes terminals keys e of
           Some err \<Rightarrow> Inl err
         | None \<Rightarrow> bind_res (edges_loop nodes terminals (key_of e # keys) rest) (\<lambda>edges. Inr (e # edges)))"

definition has_edge :: "Edge list \<Rightarrow> string \<Rightarrow> string \<Rightarrow> bool" where
  "has_edge edges nodeID outcome \<longleftrightarrow> edge_key nodeID outcome \<in> set (map key_of edges)"

text \<open>The first outcome of a node that has neither an edge nor a terminal of its name.\<close>

definition uncovered :: "Edge list \<Rightarrow> string list \<Rightarrow> Node list \<Rightarrow> (string \<times> string) option" where
  "uncovered edges terminals nodes =
     find (\<lambda>(nodeID, outcome). \<not> has_edge edges nodeID outcome \<and> outcome \<notin> set terminals)
       (concat (map (\<lambda>node. map (Pair (wn_NodeID node)) (wn_AllowedOutcomes node)) nodes))"

definition adjacent :: "Edge list \<Rightarrow> Node go_map \<Rightarrow> edges" where
  "adjacent edges nodes = map (\<lambda>e. (we_From e, we_To e)) (filter (\<lambda>e. go_lookup nodes (we_To e) \<noteq> None) edges)"

definition hasCycle :: "Node list \<Rightarrow> Edge list \<Rightarrow> Node go_map \<Rightarrow> bool" where
  "hasCycle nodes edges nodesByID = has_cycle (adjacent edges nodesByID) (map wn_NodeID nodes)"

definition flowchart :: "workflow_env \<Rightarrow> Definition \<Rightarrow> string" where
  "flowchart env d =
     (let terminals = map wt_Name (wd_TerminalOutcomes d); line = (\<lambda>parts. ''  '' @ concat parts @ [CHR 0x0A])
      in ''flowchart TD'' @ [CHR 0x0A] @
         concat (map (\<lambda>node. line [wn_NodeID node, ''['', wv_quote env (wn_NodeID node), '']'']) (wd_Nodes d)) @
         concat (map (\<lambda>t. line [''terminal_'', wt_Name t, ''(['', wv_quote env (wt_Name t @ '': '' @ wt_Status t), ''])'']) (wd_TerminalOutcomes d)) @
         concat (map (\<lambda>e. line [we_From e, '' -- '', we_Outcome e, '' --> '',
             (if we_To e \<in> set terminals then ''terminal_'' else []), we_To e]) (wd_Edges d)) @
         concat (map (\<lambda>node. concat (map (\<lambda>outcome.
             if has_edge (wd_Edges d) (wn_NodeID node) outcome then []
             else line [wn_NodeID node, '' -- '', outcome, '' --> terminal_'', outcome]) (wn_AllowedOutcomes node))) (wd_Nodes d)))"

section \<open>The compiler\<close>

text \<open>The definition is completed by its digest and its chart.\<close>

definition seal :: "workflow_env \<Rightarrow> Definition \<Rightarrow> Definition res" where
  "seal env d =
     (case wv_json env d of
        Inl err \<Rightarrow> Inl (Wrapped err (errors_New ''marshal workflow definition''))
      | Inr canonical \<Rightarrow> let d = d\<lparr>wd_DefinitionHash := wv_sum env canonical\<rparr> in Inr (d\<lparr>wd_Flowchart := flowchart env d\<rparr>))"

definition link :: "workflow_env \<Rightarrow> config \<Rightarrow> Node list \<Rightarrow> TerminalOutcome list \<Rightarrow> Edge list \<Rightarrow> Definition res" where
  "link env input nodes terminals edges =
     (let nodesByID = nodeByID nodes; nodes = sort_key wn_NodeID nodes; terminals = sort_key wt_Name terminals;
          edges = sort_key (\<lambda>e. (we_From e, we_Outcome e)) edges
      in case uncovered edges (map wt_Name terminals) nodes of
           Some (nodeID, outcome) \<Rightarrow> Inl (Errorf ''node %q outcome %q has no transition'' [nodeID, outcome])
         | None \<Rightarrow>
             if hasCycle nodes edges nodesByID \<and> cf_MaxLoopCount input \<le> 0
             then Inl (errors_New ''workflow cycle requires a positive loop limit'')
             else seal env \<lparr>wd_WorkflowID = TrimSpace (cf_WorkflowID input), wd_DisplayName = TrimSpace (cf_DisplayName input),
                    wd_InitialNodeID = TrimSpace (cf_InitialNodeID input), wd_Nodes = nodes, wd_Edges = edges,
                    wd_TerminalOutcomes = terminals, wd_MaxLoopCount = cf_MaxLoopCount input,
                    wd_DefinitionHash = [], wd_Flowchart = []\<rparr>)"

definition compile :: "workflow_env \<Rightarrow> config \<Rightarrow> Definition res" where
  "compile env input =
     (let workflowID = TrimSpace (cf_WorkflowID input); initialNodeID = TrimSpace (cf_InitialNodeID input)
      in if \<not> validID env workflowID then Inl (Errorf ''invalid workflow id %q'' [workflowID])
         else if \<not> validID env initialNodeID then Inl (Errorf ''invalid initial node id %q'' [initialNodeID])
         else if cf_Nodes input = [] then Inl (errors_New ''workflow has no nodes'')
         else bind_res (nodes_loop env (cf_Nodes input)) (\<lambda>nodes.
           if go_lookup (nodeByID nodes) initialNodeID = None then Inl (Errorf ''initial node %q is undeclared'' [initialNodeID])
           else bind_res (terminals_loop env (cf_TerminalOutcomes input)) (\<lambda>terminals.
             bind_res (edges_loop (nodeByID nodes) (map wt_Name terminals) [] (cf_Edges input)) (\<lambda>edges.
               link env input nodes terminals edges))))"

text \<open>
  The decoder of the configuration's text is a parameter: it answers with the first document and says whether
  another one follows, or fails.
\<close>

definition Compile :: "workflow_env \<Rightarrow> (string \<Rightarrow> (config \<times> bool) res) \<Rightarrow> string \<Rightarrow> Definition res" where
  "Compile env decode source =
     (case decode source of
        Inl err \<Rightarrow> Inl (Wrapped err (errors_New ''decode workflow config''))
      | Inr (input, more_documents) \<Rightarrow>
          if more_documents then Inl (errors_New ''workflow config contains multiple documents'')
          else compile env input)"

section \<open>What the loops accept\<close>

lemma cont_wide: "cont c \<Longrightarrow> CHR 0x80 \<le> c"
  by (simp add: cont_def)

lemma take_wide2: "P b \<Longrightarrow> (case s of c # _ \<Rightarrow> if Q c then 2 else 0 | _ \<Rightarrow> 0) = (n::nat) \<Longrightarrow> (\<And>c. Q c \<Longrightarrow> P c) \<Longrightarrow> \<forall>x \<in> set (take n (b # s)). P x"
  by (auto split: list.splits if_splits)

lemma take_wide3:
  "P b \<Longrightarrow> (case s of c # d # _ \<Rightarrow> if Q c d then 3 else 0 | _ \<Rightarrow> 0) = (n::nat) \<Longrightarrow> (\<And>c d. Q c d \<Longrightarrow> P c \<and> P d) \<Longrightarrow> \<forall>x \<in> set (take n (b # s)). P x"
  by (auto split: list.splits if_splits)

lemma take_wide4:
  "P b \<Longrightarrow> (case s of c # d # e # _ \<Rightarrow> if Q c d e then 4 else 0 | _ \<Rightarrow> 0) = (n::nat) \<Longrightarrow> (\<And>c d e. Q c d e \<Longrightarrow> P c \<and> P d \<and> P e) \<Longrightarrow>
    \<forall>x \<in> set (take n (b # s)). P x"
  by (auto split: list.splits if_splits)

lemma rune_wide:
  assumes "\<not> b < CHR 0x80"
  shows "\<forall>x \<in> set (take (rune_bytes (b # s)) (b # s)). CHR 0x80 \<le> x"
proof -
  have b: "CHR 0x80 \<le> b" using assms by simp
  consider (two) "CHR 0xC2 \<le> b \<and> b \<le> CHR 0xDF" | (three) "\<not> (CHR 0xC2 \<le> b \<and> b \<le> CHR 0xDF)" "CHR 0xE0 \<le> b \<and> b \<le> CHR 0xEF"
    | (four) "\<not> (CHR 0xC2 \<le> b \<and> b \<le> CHR 0xDF)" "\<not> (CHR 0xE0 \<le> b \<and> b \<le> CHR 0xEF)" "CHR 0xF0 \<le> b \<and> b \<le> CHR 0xF4"
    | (none) "rune_bytes (b # s) = 0" using assms by (simp only: rune_bytes.simps if_False) argo
  then show ?thesis
  proof cases
    case two
    have "rune_bytes (b # s) = (case s of c # _ \<Rightarrow> if cont c then 2 else 0 | _ \<Rightarrow> 0)"
      using assms two by (simp only: rune_bytes.simps if_False if_True simp_thms)
    from take_wide2 [where P = "(\<le>) (CHR 0x80)", OF b this [symmetric]] show ?thesis by (blast intro: cont_wide)
  next
    case three
    have "rune_bytes (b # s) = (case s of c # d # _ \<Rightarrow>
        if cont c \<and> cont d \<and> (b = CHR 0xE0 \<longrightarrow> CHR 0xA0 \<le> c) \<and> (b = CHR 0xED \<longrightarrow> c \<le> CHR 0x9F) then 3 else 0 | _ \<Rightarrow> 0)"
      using assms three by (simp only: rune_bytes.simps if_False if_True simp_thms)
    from take_wide3 [where P = "(\<le>) (CHR 0x80)", OF b this [symmetric]] show ?thesis by (blast intro: cont_wide)
  next
    case four
    have "rune_bytes (b # s) = (case s of c # d # e # _ \<Rightarrow>
        if cont c \<and> cont d \<and> cont e \<and> (b = CHR 0xF0 \<longrightarrow> CHR 0x90 \<le> c) \<and> (b = CHR 0xF4 \<longrightarrow> c \<le> CHR 0x8F) then 4 else 0 | _ \<Rightarrow> 0)"
      using assms four by (simp only: rune_bytes.simps if_False if_True simp_thms)
    from take_wide4 [where P = "(\<le>) (CHR 0x80)", OF b this [symmetric]] show ?thesis by (blast intro: cont_wide)
  next
    case none
    then show ?thesis by simp
  qed
qed

lemma runes_loop_ascii:
  "length s \<le> n \<Longrightarrow> c \<in> set s \<Longrightarrow> c < CHR 0x80 \<Longrightarrow> [c] \<in> set (runes_loop n s)"
proof (induction n arbitrary: s)
  case (Suc n)
  then obtain b t where s: "s = b # t" by (cases s) auto
  show ?case
  proof (cases "b < CHR 0x80")
    case True
    with Suc s show ?thesis by auto
  next
    case False
    have "set (take (rune_bytes s) s) \<subseteq> {x. CHR 0x80 \<le> x}"
      using rune_wide [OF False, of t] unfolding s by blast
    moreover have "c \<in> set (take (rune_bytes s) s) \<or> c \<in> set (drop (rune_bytes s) s)"
      using Suc.prems(2) by (metis Un_iff append_take_drop_id set_append)
    ultimately have in_drop: "c \<in> set (drop (rune_bytes s) s)" using Suc.prems(3) by auto
    have "c \<noteq> b" using False Suc.prems(3) by auto
    show ?thesis
    proof (cases "rune_bytes s = 0")
      case True
      have "[c] \<in> set (runes_loop n t)" using Suc s \<open>c \<noteq> b\<close> by (intro Suc.IH) auto
      with True show ?thesis by (simp add: s)
    next
      case pos: False
      have "[c] \<in> set (runes_loop n (drop (rune_bytes s) s))"
        using Suc.prems pos in_drop by (intro Suc.IH) auto
      with pos show ?thesis by (simp add: s)
    qed
  qed
qed simp

lemma validID_no_nul: "validID env v \<Longrightarrow> CHR 0x00 \<notin> set v"
proof
  assume v: "validID env v" and "CHR 0x00 \<in> set v"
  then have "[CHR 0x00] \<in> set (runes v)" by (auto simp: runes_def less_char_def intro: runes_loop_ascii)
  with v show False by (auto simp: validID_def IsLetter_def IsDigit_def less_eq_char_def list_all_iff split: list.splits)
qed

lemma validID_nonempty: "validID env v \<Longrightarrow> v \<noteq> []"
  by (auto simp: validID_def runes_def)

lemma nul_split: "a @ z # b = a' @ z # b' \<Longrightarrow> z \<notin> set a \<Longrightarrow> z \<notin> set a' \<Longrightarrow> a = a' \<and> b = b'"
proof (induction a arbitrary: a')
  case Nil
  then show ?case by (cases a') auto
next
  case (Cons x a)
  then show ?case by (cases a') auto
qed

lemma edge_key_eq:
  assumes "validID env a" and "validID env a'"
  shows "edge_key a b = edge_key a' b' \<longleftrightarrow> a = a' \<and> b = b'"
  using validID_no_nul [OF assms(1)] validID_no_nul [OF assms(2)]
  by (auto simp: edge_key_def dest: nul_split)

lemma outcomes_loop_iff:
  "outcomes_loop env i acc raw = Inr out \<longleftrightarrow>
     out = acc @ map TrimSpace raw \<and> (\<forall>r \<in> set raw. validID env (TrimSpace r)) \<and>
     distinct (map TrimSpace raw) \<and> set acc \<inter> set (map TrimSpace raw) = {}"
proof (induction raw arbitrary: acc)
  case (Cons r raw)
  then show ?case by (auto simp: Let_def)
qed auto

definition node_ok :: "workflow_env \<Rightarrow> Node \<Rightarrow> bool" where
  "node_ok env n \<longleftrightarrow> validID env (wn_NodeID n) \<and> validID env (wn_ExecutorRef n) \<and> wn_Kind n \<noteq> [] \<and> wn_AllowedOutcomes n \<noteq> [] \<and>
     sorted (wn_AllowedOutcomes n) \<and> distinct (wn_AllowedOutcomes n) \<and> (\<forall>out \<in> set (wn_AllowedOutcomes n). validID env out)"

definition trimmed_node :: "string \<Rightarrow> nodeConfig \<Rightarrow> Node" where
  "trimmed_node nodeID raw =
     \<lparr>wn_NodeID = TrimSpace nodeID, wn_Kind = TrimSpace (nc_Kind raw), wn_ExecutorRef = TrimSpace (nc_ExecutorRef raw),
      wn_AllowedOutcomes = sort (map TrimSpace (nc_AllowedOutcomes raw))\<rparr>"

lemma sort_key_Nil_iff: "sort_key f xs = [] \<longleftrightarrow> xs = []"
  by (metis length_0_conv length_sort)

lemma normalizeNode_iff:
  "normalizeNode env i raw = Inr n \<longleftrightarrow> n = trimmed_node i raw \<and> node_ok env n"
proof -
  have "normalizeNode env i raw = Inr n \<longleftrightarrow>
    validID env (TrimSpace i) \<and> validID env (TrimSpace (nc_ExecutorRef raw)) \<and> TrimSpace (nc_Kind raw) \<noteq> [] \<and> nc_AllowedOutcomes raw \<noteq> [] \<and>
    (\<forall>r \<in> set (nc_AllowedOutcomes raw). validID env (TrimSpace r)) \<and> distinct (map TrimSpace (nc_AllowedOutcomes raw)) \<and> n = trimmed_node i raw"
    by (auto simp: normalizeNode_def Let_def bind_res_Inr_iff outcomes_loop_iff trimmed_node_def)
  also have "\<dots> \<longleftrightarrow> n = trimmed_node i raw \<and> node_ok env n"
    by (auto simp: node_ok_def trimmed_node_def sort_key_Nil_iff)
  finally show ?thesis .
qed

lemma nodes_loop_iff:
  "nodes_loop env raw = Inr nodes \<longleftrightarrow> nodes = map (\<lambda>(i, n). trimmed_node i n) raw \<and> (\<forall>n \<in> set nodes. node_ok env n)"
proof (induction raw arbitrary: nodes)
  case (Cons e raw)
  then show ?case by (cases e) (auto simp: bind_res_Inr_iff normalizeNode_iff)
qed auto

definition terminal_ok :: "workflow_env \<Rightarrow> TerminalOutcome \<Rightarrow> bool" where
  "terminal_ok env t \<longleftrightarrow> validID env (wt_Name t) \<and> wt_Status t \<noteq> []"

definition trimmed_terminal :: "string \<times> string \<Rightarrow> TerminalOutcome" where
  "trimmed_terminal e = \<lparr>wt_Name = TrimSpace (fst e), wt_Status = TrimSpace (snd e)\<rparr>"

lemma terminals_loop_Cons:
  "terminals_loop env (e # raw) =
     (if terminal_ok env (trimmed_terminal e) then bind_res (terminals_loop env raw) (\<lambda>ts. Inr (trimmed_terminal e # ts))
      else Inl (Errorf ''invalid terminal outcome %q'' [TrimSpace (fst e)]))"
  by (cases e) (simp add: Let_def trimmed_terminal_def terminal_ok_def)

lemma terminals_loop_iff:
  "terminals_loop env raw = Inr ts \<longleftrightarrow> ts = map trimmed_terminal raw \<and> (\<forall>t \<in> set ts. terminal_ok env t)"
proof (induction raw arbitrary: ts)
  case (Cons e raw)
  then show ?case by (auto simp: bind_res_Inr_iff terminals_loop_Cons simp del: terminals_loop.simps)
qed auto

definition edge_ok :: "(string \<Rightarrow> Node option) \<Rightarrow> string set \<Rightarrow> Edge \<Rightarrow> bool" where
  "edge_ok nodes terminals e \<longleftrightarrow>
     (\<exists>n. nodes (we_From e) = Some n \<and> we_Outcome e \<in> set (wn_AllowedOutcomes n)) \<and> (nodes (we_To e) \<noteq> None \<or> we_To e \<in> terminals)"

lemma check_edge_iff: "check_edge nodes ts keys e = None \<longleftrightarrow> edge_ok (go_lookup nodes) (set ts) e \<and> key_of e \<notin> set keys"
  by (auto simp: check_edge_def edge_ok_def split: option.splits)

lemma keys_cons:
  "distinct (map f (x # xs)) \<and> (\<forall>e \<in> set (x # xs). f e \<notin> A) \<longleftrightarrow> f x \<notin> A \<and> distinct (map f xs) \<and> (\<forall>e \<in> set xs. f e \<notin> insert (f x) A)"
  by (auto simp: image_iff)

lemma edges_loop_iff:
  "edges_loop nodes ts keys raw = Inr es \<longleftrightarrow>
     es = map trim_edge raw \<and> (\<forall>e \<in> set es. edge_ok (go_lookup nodes) (set ts) e) \<and> distinct (map key_of es) \<and> (\<forall>e \<in> set es. key_of e \<notin> set keys)"
proof (induction raw arbitrary: keys es)
  case (Cons r raw)
  show ?case
  proof (cases "check_edge nodes ts keys (trim_edge r)")
    case None
    then have eq: "edges_loop nodes ts keys (r # raw) = bind_res (edges_loop nodes ts (key_of (trim_edge r) # keys) raw) (\<lambda>edges. Inr (trim_edge r # edges))"
      by (simp add: Let_def)
    from None have "edge_ok (go_lookup nodes) (set ts) (trim_edge r)" "key_of (trim_edge r) \<notin> set keys" by (simp_all add: check_edge_iff)
    note ok = this
    show ?thesis
    proof (cases "es = trim_edge r # map trim_edge raw")
      case True
      have "distinct (map key_of es) \<and> (\<forall>e \<in> set es. key_of e \<notin> set keys) \<longleftrightarrow>
        distinct (map key_of (map trim_edge raw)) \<and> (\<forall>e \<in> set (map trim_edge raw). key_of e \<notin> insert (key_of (trim_edge r)) (set keys))"
        unfolding True keys_cons using ok by blast
      then show ?thesis unfolding eq bind_res_Inr_iff Cons.IH using True ok(1) by simp
    next
      case False
      then show ?thesis unfolding eq bind_res_Inr_iff Cons.IH by auto
    qed
  next
    case (Some err)
    then have "\<not> (edge_ok (go_lookup nodes) (set ts) (trim_edge r) \<and> key_of (trim_edge r) \<notin> set keys)"
      using check_edge_iff [of nodes ts keys "trim_edge r"] by simp
    with Some show ?thesis by (auto simp: Let_def)
  qed
qed auto

section \<open>What a definition is\<close>

text \<open>The nodes, edges and terminals of an accepted definition, before it is sealed.\<close>

definition node_ids :: "Definition \<Rightarrow> string set" where
  "node_ids d = wn_NodeID ` set (wd_Nodes d)"

definition terminal_names :: "Definition \<Rightarrow> string set" where
  "terminal_names d = wt_Name ` set (wd_TerminalOutcomes d)"

text \<open>The transitions between nodes.\<close>

definition transitions :: "Definition \<Rightarrow> (string \<times> string) set" where
  "transitions d = {(we_From e, we_To e) | e. e \<in> set (wd_Edges d) \<and> we_To e \<in> node_ids d}"

lemma find_append: "find P (xs @ ys) = (case find P xs of Some x \<Rightarrow> Some x | None \<Rightarrow> find P ys)"
  by (induction xs) auto

lemma nodeByID_lookup: "go_lookup (nodeByID nodes) i = find (\<lambda>n. wn_NodeID n = i) (rev nodes)"
proof -
  have "go_lookup (fold (\<lambda>node m. go_store (wn_NodeID node) node m) ns m) i =
      (case find (\<lambda>n. wn_NodeID n = i) (rev ns) of Some n \<Rightarrow> Some n | None \<Rightarrow> go_lookup m i)" for ns m
  proof (induction ns arbitrary: m)
    case (Cons n ns)
    then show ?case by (auto simp: find_append split: option.splits)
  qed simp
  from this [of nodes "[]"] show ?thesis by (simp add: nodeByID_def split: option.split)
qed

lemma nodeByID_None: "go_lookup (nodeByID nodes) i = None \<longleftrightarrow> i \<notin> wn_NodeID ` set nodes"
  by (auto simp: nodeByID_lookup find_None_iff)

lemma nodeByID_Some: "go_lookup (nodeByID nodes) i = Some n \<Longrightarrow> n \<in> set nodes \<and> wn_NodeID n = i"
  unfolding nodeByID_lookup by (auto dest: find_SomeD)

lemma nodeByID_distinct:
  assumes "distinct (map wn_NodeID nodes)"
  shows "go_lookup (nodeByID nodes) i = Some n \<longleftrightarrow> n \<in> set nodes \<and> wn_NodeID n = i"
proof
  assume n: "n \<in> set nodes \<and> wn_NodeID n = i"
  then obtain m where "go_lookup (nodeByID nodes) i = Some m" using nodeByID_None [of nodes i] by auto
  with nodeByID_Some [OF this] n assms show "go_lookup (nodeByID nodes) i = Some n" by (metis distinct_map inj_onD)
qed (rule nodeByID_Some)

lemma adjacent_set: "set (adjacent es (nodeByID nodes)) = {(we_From e, we_To e) | e. e \<in> set es \<and> we_To e \<in> wn_NodeID ` set nodes}"
  by (auto simp: adjacent_def nodeByID_None)

lemma hasCycle_iff:
  assumes "\<forall>e \<in> set es. edge_ok (go_lookup (nodeByID nodes)) ts e" and "set ns = set nodes" and "set fs = set es"
  shows "hasCycle ns fs (nodeByID nodes) \<longleftrightarrow> \<not> acyclic {(we_From e, we_To e) | e. e \<in> set es \<and> we_To e \<in> wn_NodeID ` set nodes}"
proof -
  have "fst ` set (adjacent fs (nodeByID nodes)) \<subseteq> set (map wn_NodeID ns)"
    using assms by (auto simp: adjacent_set edge_ok_def) (metis nodeByID_Some image_eqI)
  from has_cycle_iff [OF this] show ?thesis by (simp add: hasCycle_def adjacent_set assms(3))
qed

lemma uncovered_None:
  "uncovered es ts ns = None \<longleftrightarrow> (\<forall>n \<in> set ns. \<forall>out \<in> set (wn_AllowedOutcomes n). has_edge es (wn_NodeID n) out \<or> out \<in> set ts)"
  by (auto simp: uncovered_def find_None_iff)

section \<open>What the compiler accepts\<close>

definition unsealed :: "config \<Rightarrow> Node list \<Rightarrow> TerminalOutcome list \<Rightarrow> Edge list \<Rightarrow> Definition" where
  "unsealed input nodes terminals edges =
     \<lparr>wd_WorkflowID = TrimSpace (cf_WorkflowID input), wd_DisplayName = TrimSpace (cf_DisplayName input),
      wd_InitialNodeID = TrimSpace (cf_InitialNodeID input), wd_Nodes = sort_key wn_NodeID nodes,
      wd_Edges = sort_key (\<lambda>e. (we_From e, we_Outcome e)) edges, wd_TerminalOutcomes = sort_key wt_Name terminals,
      wd_MaxLoopCount = cf_MaxLoopCount input, wd_DefinitionHash = [], wd_Flowchart = []\<rparr>"

definition linked :: "config \<Rightarrow> Node list \<Rightarrow> TerminalOutcome list \<Rightarrow> Edge list \<Rightarrow> bool" where
  "linked input nodes terminals edges \<longleftrightarrow>
     (\<forall>n \<in> set nodes. \<forall>out \<in> set (wn_AllowedOutcomes n). has_edge edges (wn_NodeID n) out \<or> out \<in> wt_Name ` set terminals) \<and>
     (acyclic {(we_From e, we_To e) | e. e \<in> set edges \<and> we_To e \<in> wn_NodeID ` set nodes} \<or> 0 < cf_MaxLoopCount input)"

lemma link_iff:
  assumes "\<forall>e \<in> set es. edge_ok (go_lookup (nodeByID nodes)) ts' e"
  shows "link env input nodes ts es = Inr d \<longleftrightarrow> linked input nodes ts es \<and> seal env (unsealed input nodes ts es) = Inr d"
proof -
  let ?ns = "sort_key wn_NodeID nodes" and ?ts = "sort_key wt_Name ts" and ?es = "sort_key (\<lambda>e. (we_From e, we_Outcome e)) es"
  have unc: "uncovered ?es (map wt_Name ?ts) ?ns = None \<longleftrightarrow>
      (\<forall>n \<in> set nodes. \<forall>out \<in> set (wn_AllowedOutcomes n). has_edge es (wn_NodeID n) out \<or> out \<in> wt_Name ` set ts)"
    by (simp add: uncovered_None has_edge_def)
  have cyc: "hasCycle ?ns ?es (nodeByID nodes) \<longleftrightarrow> \<not> acyclic {(we_From e, we_To e) | e. e \<in> set es \<and> we_To e \<in> wn_NodeID ` set nodes}"
    by (rule hasCycle_iff [OF assms]) simp_all
  have "link env input nodes ts es = Inr d \<longleftrightarrow>
      uncovered ?es (map wt_Name ?ts) ?ns = None \<and> \<not> (hasCycle ?ns ?es (nodeByID nodes) \<and> cf_MaxLoopCount input \<le> 0) \<and>
      seal env (unsealed input nodes ts es) = Inr d"
    unfolding link_def Let_def unsealed_def by (auto split: option.split)
  then show ?thesis unfolding unc cyc linked_def by (auto simp: not_le)
qed

lemma compile_iff:
  "compile env input = Inr d \<longleftrightarrow>
     (let nodes = map (\<lambda>(i, n). trimmed_node i n) (cf_Nodes input); ts = map trimmed_terminal (cf_TerminalOutcomes input);
          es = map trim_edge (cf_Edges input)
      in validID env (TrimSpace (cf_WorkflowID input)) \<and> validID env (TrimSpace (cf_InitialNodeID input)) \<and> (\<forall>n \<in> set nodes. node_ok env n) \<and>
         TrimSpace (cf_InitialNodeID input) \<in> wn_NodeID ` set nodes \<and> (\<forall>t \<in> set ts. terminal_ok env t) \<and>
         (\<forall>e \<in> set es. edge_ok (go_lookup (nodeByID nodes)) (wt_Name ` set ts) e) \<and> distinct (map key_of es) \<and>
         linked input nodes ts es \<and> seal env (unsealed input nodes ts es) = Inr d)"
proof -
  define nodes where "nodes = map (\<lambda>(i, n). trimmed_node i n) (cf_Nodes input)"
  define ts where "ts = map trimmed_terminal (cf_TerminalOutcomes input)"
  define es where "es = map trim_edge (cf_Edges input)"
  have N: "nodes_loop env (cf_Nodes input) = Inr ns \<longleftrightarrow> ns = nodes \<and> (\<forall>n \<in> set nodes. node_ok env n)" for ns
    by (auto simp: nodes_loop_iff nodes_def)
  have T: "terminals_loop env (cf_TerminalOutcomes input) = Inr us \<longleftrightarrow> us = ts \<and> (\<forall>t \<in> set ts. terminal_ok env t)" for us
    by (auto simp: terminals_loop_iff ts_def)
  have E: "edges_loop m us [] (cf_Edges input) = Inr fs \<longleftrightarrow>
      fs = es \<and> (\<forall>e \<in> set es. edge_ok (go_lookup m) (set us) e) \<and> distinct (map key_of es)" for m us fs
    unfolding edges_loop_iff es_def [symmetric] by auto
  have "compile env input = Inr d \<longleftrightarrow>
    validID env (TrimSpace (cf_WorkflowID input)) \<and> validID env (TrimSpace (cf_InitialNodeID input)) \<and> cf_Nodes input \<noteq> [] \<and>
    (\<forall>n \<in> set nodes. node_ok env n) \<and> go_lookup (nodeByID nodes) (TrimSpace (cf_InitialNodeID input)) \<noteq> None \<and> (\<forall>t \<in> set ts. terminal_ok env t) \<and>
    (\<forall>e \<in> set es. edge_ok (go_lookup (nodeByID nodes)) (set (map wt_Name ts)) e) \<and> distinct (map key_of es) \<and> link env input nodes ts es = Inr d"
    unfolding compile_def Let_def by (auto simp: bind_res_Inr_iff N T E)
  moreover have "cf_Nodes input \<noteq> []" if "go_lookup (nodeByID nodes) (TrimSpace (cf_InitialNodeID input)) \<noteq> None"
    using that unfolding nodeByID_None by (auto simp: nodes_def)
  ultimately have eq: "compile env input = Inr d \<longleftrightarrow>
    validID env (TrimSpace (cf_WorkflowID input)) \<and> validID env (TrimSpace (cf_InitialNodeID input)) \<and>
    (\<forall>n \<in> set nodes. node_ok env n) \<and> TrimSpace (cf_InitialNodeID input) \<in> wn_NodeID ` set nodes \<and> (\<forall>t \<in> set ts. terminal_ok env t) \<and>
    (\<forall>e \<in> set es. edge_ok (go_lookup (nodeByID nodes)) (wt_Name ` set ts) e) \<and> distinct (map key_of es) \<and> link env input nodes ts es = Inr d"
    unfolding nodeByID_None by auto
  show ?thesis unfolding Let_def nodes_def [symmetric] ts_def [symmetric] es_def [symmetric] eq using link_iff [of es nodes _ env input ts d] by blast
qed

lemma seal_fields:
  assumes "seal env d0 = Inr d"
  shows "wd_WorkflowID d = wd_WorkflowID d0" "wd_DisplayName d = wd_DisplayName d0" "wd_InitialNodeID d = wd_InitialNodeID d0"
    "wd_Nodes d = wd_Nodes d0" "wd_Edges d = wd_Edges d0" "wd_TerminalOutcomes d = wd_TerminalOutcomes d0" "wd_MaxLoopCount d = wd_MaxLoopCount d0"
  using assms by (auto simp: seal_def Let_def split: sum.splits)

text \<open>An accepted definition: the parts of \<open>compile_iff\<close> on its own fields.\<close>

lemma compile_definition:
  assumes "compile env input = Inr d"
  shows "validID env (wd_WorkflowID d)" "wd_InitialNodeID d \<in> node_ids d" "\<forall>n \<in> set (wd_Nodes d). node_ok env n"
    "\<forall>t \<in> set (wd_TerminalOutcomes d). terminal_ok env t"
    "\<exists>nodes. set nodes = set (wd_Nodes d) \<and> (\<forall>e \<in> set (wd_Edges d). edge_ok (go_lookup (nodeByID nodes)) (terminal_names d) e)"
    "distinct (map key_of (wd_Edges d))"
    "\<forall>n \<in> set (wd_Nodes d). \<forall>out \<in> set (wn_AllowedOutcomes n). has_edge (wd_Edges d) (wn_NodeID n) out \<or> out \<in> terminal_names d"
    "acyclic (transitions d) \<or> 0 < wd_MaxLoopCount d"
proof -
  define nodes where "nodes = map (\<lambda>(i, n). trimmed_node i n) (cf_Nodes input)"
  define ts where "ts = map trimmed_terminal (cf_TerminalOutcomes input)"
  define es where "es = map trim_edge (cf_Edges input)"
  note c = assms [unfolded compile_iff Let_def, folded nodes_def ts_def es_def]
  then have "seal env (unsealed input nodes ts es) = Inr d" by simp
  note f = seal_fields [OF this, unfolded unsealed_def, simplified]
  have sets: "set (wd_Nodes d) = set nodes" "set (wd_Edges d) = set es" "set (wd_TerminalOutcomes d) = set ts" by (simp_all add: f)
  have m: "distinct (map key_of (wd_Edges d)) \<longleftrightarrow> distinct (map key_of es)"
    by (rule mset_eq_imp_distinct_iff) (simp add: f)
  have h: "has_edge (wd_Edges d) i out \<longleftrightarrow> has_edge es i out" for i out by (simp add: has_edge_def sets)
  show "validID env (wd_WorkflowID d)" "wd_InitialNodeID d \<in> node_ids d" "\<forall>n \<in> set (wd_Nodes d). node_ok env n"
    "\<forall>t \<in> set (wd_TerminalOutcomes d). terminal_ok env t"
    "\<exists>nodes. set nodes = set (wd_Nodes d) \<and> (\<forall>e \<in> set (wd_Edges d). edge_ok (go_lookup (nodeByID nodes)) (terminal_names d) e)"
    using c by (auto simp: f node_ids_def terminal_names_def)
  show "distinct (map key_of (wd_Edges d))" using c m by simp
  show "\<forall>n \<in> set (wd_Nodes d). \<forall>out \<in> set (wn_AllowedOutcomes n). has_edge (wd_Edges d) (wn_NodeID n) out \<or> out \<in> terminal_names d"
    using c unfolding linked_def h sets terminal_names_def by blast
  show "acyclic (transitions d) \<or> 0 < wd_MaxLoopCount d"
    using c unfolding linked_def transitions_def node_ids_def sets f by simp
qed

lemma edge_between:
  assumes "edge_ok (go_lookup (nodeByID nodes)) ts e"
  shows "\<exists>n \<in> set nodes. wn_NodeID n = we_From e \<and> we_Outcome e \<in> set (wn_AllowedOutcomes n)"
    and "we_To e \<in> wn_NodeID ` set nodes \<union> ts"
  using assms by (auto simp: edge_ok_def nodeByID_None dest!: nodeByID_Some)

text \<open>
  C31: an accepted workflow can always take exactly one next step. Its initial node is declared; every edge leaves
  a declared node under an outcome the node allows and leads to a declared node or a terminal; for every outcome
  a node allows there is exactly one edge, or none and a terminal of that name; and if the transitions have a cycle
  the loop limit is positive.
\<close>

theorem workflow_definition_sound:
  assumes "Compile env decode source = Inr d"
  shows "wd_InitialNodeID d \<in> node_ids d \<and>
    (\<forall>e \<in> set (wd_Edges d).
       (\<exists>n \<in> set (wd_Nodes d). wn_NodeID n = we_From e \<and> we_Outcome e \<in> set (wn_AllowedOutcomes n)) \<and>
       we_To e \<in> node_ids d \<union> terminal_names d) \<and>
    (\<forall>n \<in> set (wd_Nodes d). \<forall>out \<in> set (wn_AllowedOutcomes n).
       (\<exists>!e. e \<in> set (wd_Edges d) \<and> we_From e = wn_NodeID n \<and> we_Outcome e = out) \<or>
       (\<forall>e \<in> set (wd_Edges d). \<not> (we_From e = wn_NodeID n \<and> we_Outcome e = out)) \<and> out \<in> terminal_names d) \<and>
    (acyclic (transitions d) \<or> 0 < wd_MaxLoopCount d)"
proof -
  from assms obtain input where "compile env input = Inr d" by (auto simp: Compile_def split: sum.splits prod.splits if_splits)
  note c = compile_definition [OF this]
  from c(5) obtain nodes where nodes: "set nodes = set (wd_Nodes d)"
    and ok: "\<And>e. e \<in> set (wd_Edges d) \<Longrightarrow> edge_ok (go_lookup (nodeByID nodes)) (terminal_names d) e" by blast
  have source: "\<exists>n \<in> set (wd_Nodes d). wn_NodeID n = we_From e \<and> we_Outcome e \<in> set (wn_AllowedOutcomes n)"
    and to: "we_To e \<in> node_ids d \<union> terminal_names d" if "e \<in> set (wd_Edges d)" for e
    using edge_between [OF ok [OF that]] by (simp_all add: nodes node_ids_def)
  have valid: "validID env (we_From e)" if "e \<in> set (wd_Edges d)" for e
    using source [OF that] c(3) by (auto simp: node_ok_def)
  have uniq: "e = f" if "e \<in> set (wd_Edges d)" "f \<in> set (wd_Edges d)" "we_From e = we_From f" "we_Outcome e = we_Outcome f" for e f
    using c(6) that by (auto simp: distinct_map inj_on_def key_of_def)
  have cover: "(\<exists>e \<in> set (wd_Edges d). we_From e = wn_NodeID n \<and> we_Outcome e = out) \<or> out \<in> terminal_names d"
    if n: "n \<in> set (wd_Nodes d)" "out \<in> set (wn_AllowedOutcomes n)" for n out
  proof -
    have "validID env (wn_NodeID n)" using c(3) n by (simp add: node_ok_def)
    then have "\<exists>e \<in> set (wd_Edges d). we_From e = wn_NodeID n \<and> we_Outcome e = out" if "has_edge (wd_Edges d) (wn_NodeID n) out"
      using that valid by (auto simp: has_edge_def key_of_def edge_key_eq)
    with c(7) n show ?thesis by blast
  qed
  show ?thesis
  proof (intro conjI ballI)
    fix n out assume n: "n \<in> set (wd_Nodes d)" "out \<in> set (wn_AllowedOutcomes n)"
    show "(\<exists>!e. e \<in> set (wd_Edges d) \<and> we_From e = wn_NodeID n \<and> we_Outcome e = out) \<or>
       (\<forall>e \<in> set (wd_Edges d). \<not> (we_From e = wn_NodeID n \<and> we_Outcome e = out)) \<and> out \<in> terminal_names d"
      using cover [OF n] uniq by metis
  qed (use c(2,8) source to in simp_all)
qed

section \<open>The canonical form\<close>

lemma sort_key_unique:
  assumes "mset xs = mset ys" and "distinct (map f xs)"
  shows "sort_key f xs = sort_key f ys"
proof (rule map_inj_on)
  have set: "set ys = set xs" using assms(1) by (metis mset_eq_setD)
  have "distinct (map f ys)" using mset_eq_imp_distinct_iff [of "map f xs" "map f ys"] assms by simp
  then have "distinct (map f (sort_key f xs))" "distinct (map f (sort_key f ys))"
    using mset_eq_imp_distinct_iff [of "map f (sort_key f xs)" "map f xs"] mset_eq_imp_distinct_iff [of "map f (sort_key f ys)" "map f ys"] assms(2)
    by simp_all
  then show "map f (sort_key f xs) = map f (sort_key f ys)"
    by (intro sorted_distinct_set_unique) (simp_all add: set)
  show "inj_on f (set (sort_key f xs) \<union> set (sort_key f ys))" using assms(2) by (simp add: set distinct_map)
qed

lemma compile_reordered:
  assumes nodes: "mset ns = mset (cf_Nodes input)" "distinct (map (TrimSpace \<circ> fst) (cf_Nodes input))"
    and terminals: "mset us = mset (cf_TerminalOutcomes input)" "distinct (map (TrimSpace \<circ> fst) (cf_TerminalOutcomes input))"
    and ok: "compile env input = Inr d"
  shows "compile env (input\<lparr>cf_Nodes := ns, cf_TerminalOutcomes := us\<rparr>) = Inr d"
proof -
  let ?nodes = "map (\<lambda>(i, n). trimmed_node i n) (cf_Nodes input)" and ?ts = "map trimmed_terminal (cf_TerminalOutcomes input)"
  let ?nodes' = "map (\<lambda>(i, n). trimmed_node i n) ns" and ?ts' = "map trimmed_terminal us"
  let ?input = "input\<lparr>cf_Nodes := ns, cf_TerminalOutcomes := us\<rparr>"
  have mn: "mset ?nodes' = mset ?nodes" and mt: "mset ?ts' = mset ?ts" using nodes(1) terminals(1) by (simp_all only: mset_map)
  have sn: "set ?nodes' = set ?nodes" and st: "set ?ts' = set ?ts" using mn mt by (metis mset_eq_setD)+
  have ids: "map wn_NodeID ?nodes = map (TrimSpace \<circ> fst) (cf_Nodes input)" by (auto simp: trimmed_node_def)
  have names: "map wt_Name ?ts = map (TrimSpace \<circ> fst) (cf_TerminalOutcomes input)" by (auto simp: trimmed_terminal_def)
  have dn: "distinct (map wn_NodeID ?nodes)" and dt: "distinct (map wt_Name ?ts)" using nodes(2) terminals(2) by (simp_all only: ids names)
  have dn': "distinct (map wn_NodeID ?nodes')"
    using dn mset_eq_imp_distinct_iff [of "map wn_NodeID ?nodes'" "map wn_NodeID ?nodes"] mn by (simp only: mset_map)
  have lookup: "go_lookup (nodeByID ?nodes') = go_lookup (nodeByID ?nodes)"
  proof
    fix i
    have "go_lookup (nodeByID ?nodes') i = Some n \<longleftrightarrow> go_lookup (nodeByID ?nodes) i = Some n" for n
      unfolding nodeByID_distinct [OF dn] nodeByID_distinct [OF dn'] sn ..
    then show "go_lookup (nodeByID ?nodes') i = go_lookup (nodeByID ?nodes) i" by (metis not_Some_eq)
  qed
  have un: "unsealed ?input ?nodes' ?ts' es = unsealed input ?nodes ?ts es" for es
    using sort_key_unique [OF mn [symmetric] dn] sort_key_unique [OF mt [symmetric] dt] by (simp add: unsealed_def)
  have li: "linked ?input ?nodes' ?ts' es \<longleftrightarrow> linked input ?nodes ?ts es" for es unfolding linked_def sn st by simp
  have other: "cf_Nodes ?input = ns" "cf_TerminalOutcomes ?input = us" "cf_Edges ?input = cf_Edges input"
    "cf_WorkflowID ?input = cf_WorkflowID input" "cf_InitialNodeID ?input = cf_InitialNodeID input" by simp_all
  show ?thesis using ok unfolding compile_iff Let_def other li un lookup sn st .
qed

text \<open>
  C32: the definition does not depend on the order in which the entries of the maps are met. If the keys of the
  nodes and of the terminals differ by more than white space, every order of their entries gives the same
  definition, with the same digest, or none does.
\<close>

theorem workflow_order_irrelevant:
  assumes "mset ns = mset (cf_Nodes input)" and "distinct (map (TrimSpace \<circ> fst) (cf_Nodes input))"
    and "mset us = mset (cf_TerminalOutcomes input)" and "distinct (map (TrimSpace \<circ> fst) (cf_TerminalOutcomes input))"
  shows "compile env (input\<lparr>cf_Nodes := ns, cf_TerminalOutcomes := us\<rparr>) = Inr d \<longleftrightarrow> compile env input = Inr d"
proof
  let ?input = "input\<lparr>cf_Nodes := ns, cf_TerminalOutcomes := us\<rparr>"
  assume "compile env ?input = Inr d"
  moreover have "distinct (map (TrimSpace \<circ> fst) (cf_Nodes ?input))" "distinct (map (TrimSpace \<circ> fst) (cf_TerminalOutcomes ?input))"
    using assms mset_eq_imp_distinct_iff [of "map (TrimSpace \<circ> fst) ns" "map (TrimSpace \<circ> fst) (cf_Nodes input)"]
      mset_eq_imp_distinct_iff [of "map (TrimSpace \<circ> fst) us" "map (TrimSpace \<circ> fst) (cf_TerminalOutcomes input)"] by (simp_all add: mset_map)
  ultimately have "compile env (?input\<lparr>cf_Nodes := cf_Nodes input, cf_TerminalOutcomes := cf_TerminalOutcomes input\<rparr>) = Inr d"
    using assms(1,3) compile_reordered [of "cf_Nodes input" ?input "cf_TerminalOutcomes input" env d] by simp
  then show "compile env input = Inr d" by simp
qed (rule compile_reordered [OF assms])

lemma sort_key_sorted: "sorted (map f xs) \<Longrightarrow> sort_key f xs = xs"
  by (induction xs) (auto simp: insort_is_Cons)

lemma find_rev: "find P (rev xs) = (if filter P xs = [] then None else Some (last (filter P xs)))"
  by (induction xs rule: rev_induct) auto

lemma nodeByID_sorted: "go_lookup (nodeByID (sort_key wn_NodeID nodes)) = go_lookup (nodeByID nodes)"
  by (rule ext) (simp add: nodeByID_lookup find_rev sort_key_stable)

text \<open>The configuration a definition stands for.\<close>

definition config_of :: "Definition \<Rightarrow> config" where
  "config_of d =
     \<lparr>cf_WorkflowID = wd_WorkflowID d, cf_DisplayName = wd_DisplayName d, cf_InitialNodeID = wd_InitialNodeID d,
      cf_Nodes = map (\<lambda>n. (wn_NodeID n, \<lparr>nc_Kind = wn_Kind n, nc_ExecutorRef = wn_ExecutorRef n, nc_AllowedOutcomes = wn_AllowedOutcomes n\<rparr>)) (wd_Nodes d),
      cf_Edges = wd_Edges d, cf_TerminalOutcomes = map (\<lambda>t. (wt_Name t, wt_Status t)) (wd_TerminalOutcomes d),
      cf_MaxLoopCount = wd_MaxLoopCount d\<rparr>"

lemma trimmed_node_again:
  "trimmed_node (wn_NodeID (trimmed_node i raw)) \<lparr>nc_Kind = wn_Kind (trimmed_node i raw), nc_ExecutorRef = wn_ExecutorRef (trimmed_node i raw),
      nc_AllowedOutcomes = wn_AllowedOutcomes (trimmed_node i raw)\<rparr> = trimmed_node i raw"
proof -
  have "map TrimSpace (sort (map TrimSpace outs)) = sort (map TrimSpace outs)" for outs
    by (rule map_idI) auto
  then show ?thesis by (simp add: trimmed_node_def sorted_sort_id)
qed

text \<open>
  Compiling is idempotent. The definition of an accepted configuration, read as a configuration again, compiles
  to itself, digest and chart included: the canonical form is a fixed point of the compiler.
\<close>

theorem workflow_compile_idempotent:
  assumes "compile env input = Inr d"
  shows "compile env (config_of d) = Inr d"
proof -
  define nodes where "nodes = map (\<lambda>(i, n). trimmed_node i n) (cf_Nodes input)"
  define ts where "ts = map trimmed_terminal (cf_TerminalOutcomes input)"
  define es where "es = map trim_edge (cf_Edges input)"
  note c = assms [unfolded compile_iff Let_def, folded nodes_def ts_def es_def]
  then have sealed: "seal env (unsealed input nodes ts es) = Inr d" by simp
  note f = seal_fields [OF sealed, unfolded unsealed_def, simplified]
  let ?key = "\<lambda>e. (we_From e, we_Outcome e)"
  have n: "map (\<lambda>(i, n). trimmed_node i n) (cf_Nodes (config_of d)) = sort_key wn_NodeID nodes"
    by (auto simp: config_of_def f nodes_def trimmed_node_again intro!: map_idI)
  have t: "map trimmed_terminal (cf_TerminalOutcomes (config_of d)) = sort_key wt_Name ts"
    by (auto simp: config_of_def f ts_def trimmed_terminal_def intro!: map_idI)
  have e: "map trim_edge (cf_Edges (config_of d)) = sort_key ?key es"
    by (auto simp: config_of_def f es_def trim_edge_def intro!: map_idI)
  have u: "unsealed (config_of d) (sort_key wn_NodeID nodes) (sort_key wt_Name ts) (sort_key ?key es) = unsealed input nodes ts es"
    by (simp add: unsealed_def sort_key_sorted config_of_def f)
  have li: "linked (config_of d) (sort_key wn_NodeID nodes) (sort_key wt_Name ts) (sort_key ?key es) \<longleftrightarrow> linked input nodes ts es"
    by (simp add: linked_def has_edge_def config_of_def f)
  have di: "distinct (map key_of (sort_key ?key es)) \<longleftrightarrow> distinct (map key_of es)" by (rule mset_eq_imp_distinct_iff) simp
  show ?thesis
    unfolding compile_iff Let_def n t e u li di nodeByID_sorted set_sort using c by (simp add: config_of_def f)
qed

section \<open>Samples\<close>

definition sample_workflow_env :: workflow_env where
  "sample_workflow_env = \<lparr>wv_letter = (\<lambda>_. False), wv_digit = (\<lambda>_. False), wv_json = (\<lambda>d. Inr (concat (map wn_ExecutorRef (wd_Nodes d)))),
     wv_sum = (\<lambda>s. s), wv_quote = (\<lambda>s. s)\<rparr>"

definition sample_node :: "string \<Rightarrow> nodeConfig" where
  "sample_node executor = \<lparr>nc_Kind = ''agent'', nc_ExecutorRef = executor, nc_AllowedOutcomes = [''ok'', ''again'']\<rparr>"

definition sample_config :: config where
  "sample_config = \<lparr>cf_WorkflowID = ''wf'', cf_DisplayName = [], cf_InitialNodeID = ''a'', cf_Nodes = [('' b'', sample_node ''y''), (''a'', sample_node ''x'')],
     cf_Edges = [\<lparr>we_From = ''b'', we_Outcome = ''again'', we_To = ''a''\<rparr>, \<lparr>we_From = ''a'', we_Outcome = ''ok'', we_To = ''b''\<rparr>,
       \<lparr>we_From = ''a'', we_Outcome = ''again'', we_To = ''a''\<rparr>],
     cf_TerminalOutcomes = [(''ok'', ''completed'')], cf_MaxLoopCount = 3\<rparr>"

definition sample_definition :: Definition where
  "sample_definition = projr (compile sample_workflow_env sample_config)"

lemma sample_compiles: "compile sample_workflow_env sample_config = Inr sample_definition"
proof -
  have "\<not> isl (compile sample_workflow_env sample_config)" by code_simp
  then show ?thesis unfolding sample_definition_def by (rule res_eq)
qed

theorem workflow_definition_sound_witness:
  "\<exists>d. Compile sample_workflow_env (\<lambda>_. Inr (sample_config, False)) [] = Inr d \<and> wd_InitialNodeID d \<in> node_ids d \<and>
     (acyclic (transitions d) \<or> 0 < wd_MaxLoopCount d)"
proof -
  have "Compile sample_workflow_env (\<lambda>_. Inr (sample_config, False)) [] = Inr sample_definition"
    by (simp add: Compile_def sample_compiles)
  from this workflow_definition_sound [OF this] show ?thesis by blast
qed

theorem workflow_order_irrelevant_witness:
  "\<exists>d. compile sample_workflow_env (sample_config\<lparr>cf_Nodes := rev (cf_Nodes sample_config), cf_TerminalOutcomes := cf_TerminalOutcomes sample_config\<rparr>) = Inr d"
proof -
  have "distinct (map (TrimSpace \<circ> fst) (cf_Nodes sample_config))" "distinct (map (TrimSpace \<circ> fst) (cf_TerminalOutcomes sample_config))"
    by code_simp+
  from workflow_order_irrelevant [OF _ this(1) _ this(2)] sample_compiles show ?thesis by (metis mset_rev)
qed

theorem workflow_compile_idempotent_witness:
  "compile sample_workflow_env (config_of sample_definition) = Inr sample_definition"
  by (rule workflow_compile_idempotent [OF sample_compiles])

section \<open>Keys that differ in white space only\<close>

lemma nodeByID_shadowed:
  "wn_NodeID n \<in> wn_NodeID ` set nodes \<Longrightarrow> go_lookup (nodeByID (n # nodes)) = go_lookup (nodeByID nodes)"
proof
  fix i assume "wn_NodeID n \<in> wn_NodeID ` set nodes"
  then show "go_lookup (nodeByID (n # nodes)) i = go_lookup (nodeByID nodes) i"
    by (cases "find (\<lambda>n. wn_NodeID n = i) (rev nodes)") (simp_all add: nodeByID_lookup find_append, fastforce simp: find_None_iff)
qed

lemma linked_shadowed:
  assumes "linked input nodes ts es" and "n0 \<in> set nodes" and "wn_NodeID n = wn_NodeID n0"
    and "set (wn_AllowedOutcomes n) \<subseteq> set (wn_AllowedOutcomes n0)" and "cf_MaxLoopCount input' = cf_MaxLoopCount input"
  shows "linked input' (n # nodes) ts es"
proof -
  have "wn_NodeID ` set (n # nodes) = wn_NodeID ` set nodes" using assms(2,3) by auto
  moreover have "\<forall>x \<in> set (n # nodes). \<forall>out \<in> set (wn_AllowedOutcomes x). has_edge es (wn_NodeID x) out \<or> out \<in> wt_Name ` set ts"
    using assms(1-4) unfolding linked_def by auto
  ultimately show ?thesis using assms(1,5) unfolding linked_def by presburger
qed

lemma seal_defined: "\<forall>d. \<not> isl (wv_json env d) \<Longrightarrow> \<exists>d'. seal env d = Inr d'"
  by (cases "wv_json env d") (auto simp: seal_def Let_def dest!: spec [of _ d])

lemma compile_shadowed:
  assumes accepted: "compile env input = Inr d" and json: "\<forall>d. \<not> isl (wv_json env d)"
    and n0: "n0 \<in> set (map (\<lambda>(i, n). trimmed_node i n) (cf_Nodes input))" "wn_NodeID (trimmed_node k c) = wn_NodeID n0"
    and n: "node_ok env (trimmed_node k c)" "set (wn_AllowedOutcomes (trimmed_node k c)) \<subseteq> set (wn_AllowedOutcomes n0)"
  shows "\<exists>d'. compile env (input\<lparr>cf_Nodes := (k, c) # cf_Nodes input\<rparr>) = Inr d'"
proof -
  define nodes where "nodes = map (\<lambda>(i, n). trimmed_node i n) (cf_Nodes input)"
  define ts where "ts = map trimmed_terminal (cf_TerminalOutcomes input)"
  define es where "es = map trim_edge (cf_Edges input)"
  let ?input = "input\<lparr>cf_Nodes := (k, c) # cf_Nodes input\<rparr>" and ?n = "trimmed_node k c"
  note a = accepted [unfolded compile_iff Let_def, folded nodes_def ts_def es_def]
  have "linked ?input (?n # nodes) ts es" using a n0 n(2) unfolding nodes_def [symmetric] by (intro linked_shadowed [of input nodes ts es n0]) auto
  moreover have "go_lookup (nodeByID (?n # nodes)) = go_lookup (nodeByID nodes)"
    using n0 unfolding nodes_def [symmetric] by (intro nodeByID_shadowed) auto
  moreover obtain d' where "seal env (unsealed ?input (?n # nodes) ts es) = Inr d'" using seal_defined [OF json] by blast
  moreover have fields: "map (\<lambda>(i, n). trimmed_node i n) (cf_Nodes ?input) = ?n # nodes" "cf_TerminalOutcomes ?input = cf_TerminalOutcomes input"
    "cf_Edges ?input = cf_Edges input" "cf_WorkflowID ?input = cf_WorkflowID input" "cf_InitialNodeID ?input = cf_InitialNodeID input"
    by (simp_all add: nodes_def)
  moreover have "TrimSpace (cf_InitialNodeID input) \<in> wn_NodeID ` set (?n # nodes)" "\<forall>n \<in> set (?n # nodes). node_ok env n" using a n(1) by auto
  ultimately have "compile env ?input = Inr d'"
    unfolding compile_iff Let_def fields ts_def [symmetric] es_def [symmetric] using a by simp
  then show ?thesis ..
qed

lemma compile_shadowing:
  assumes "TrimSpace (we_From e) = TrimSpace k" "TrimSpace (we_Outcome e) \<notin> TrimSpace ` set (nc_AllowedOutcomes c)" and "e \<in> set (cf_Edges input)"
  shows "isl (compile env (input\<lparr>cf_Nodes := cf_Nodes input @ [(k, c)]\<rparr>))"
proof (rule ccontr)
  let ?nodes = "map (\<lambda>(i, n). trimmed_node i n) (cf_Nodes input) @ [trimmed_node k c]"
  assume "\<not> isl (compile env (input\<lparr>cf_Nodes := cf_Nodes input @ [(k, c)]\<rparr>))"
  then obtain d where "compile env (input\<lparr>cf_Nodes := cf_Nodes input @ [(k, c)]\<rparr>) = Inr d" by (cases "compile env (input\<lparr>cf_Nodes := cf_Nodes input @ [(k, c)]\<rparr>)") auto
  then obtain ts where "edge_ok (go_lookup (nodeByID ?nodes)) ts (trim_edge e)" using assms(3) by (auto simp: compile_iff Let_def)
  moreover have "go_lookup (nodeByID ?nodes) (TrimSpace k) = Some (trimmed_node k c)" by (simp add: nodeByID_lookup trimmed_node_def)
  ultimately show False using assms(1,2) by (auto simp: edge_ok_def trim_edge_def trimmed_node_def)
qed

text \<open>
  C33: keys that differ in white space only are not told apart. Take any configuration the compiler accepts and add
  a node whose key differs from that of a node in white space only and whose outcomes are among those of that
  node. If its entry is met before the others, the configuration is accepted again, and the definition has two nodes of
  one identifier. If it is met after the others and the other node has an edge for an outcome that the added one
  does not have, the same configuration is refused: what the compiler says of it depends on the iteration order of a map.
  The encoding of a definition is assumed not to fail.
\<close>

theorem workflow_duplicate_ids_accepted:
  assumes accepted: "compile env input = Inr d" and json: "\<forall>d. \<not> isl (wv_json env d)"
    and entry: "(k, c) \<in> set (cf_Nodes input)" and key: "TrimSpace k' = TrimSpace k" "k' \<notin> fst ` set (cf_Nodes input)"
    and added: "normalizeNode env k' c' = Inr n'" "TrimSpace ` set (nc_AllowedOutcomes c') \<subseteq> TrimSpace ` set (nc_AllowedOutcomes c)"
  shows "(\<exists>d'. compile env (input\<lparr>cf_Nodes := (k', c') # cf_Nodes input\<rparr>) = Inr d' \<and> \<not> distinct (map wn_NodeID (wd_Nodes d'))) \<and>
    (\<forall>e \<in> set (cf_Edges input). TrimSpace (we_From e) = TrimSpace k \<longrightarrow> TrimSpace (we_Outcome e) \<notin> TrimSpace ` set (nc_AllowedOutcomes c') \<longrightarrow>
       isl (compile env (input\<lparr>cf_Nodes := cf_Nodes input @ [(k', c')]\<rparr>)))"
proof -
  let ?input = "input\<lparr>cf_Nodes := (k', c') # cf_Nodes input\<rparr>" and ?n = "trimmed_node k' c'" and ?old = "trimmed_node k c"
  have n0: "?old \<in> set (map (\<lambda>(i, n). trimmed_node i n) (cf_Nodes input))" using entry by force
  have id: "wn_NodeID ?n = wn_NodeID ?old" using key(1) by (simp add: trimmed_node_def)
  have n: "node_ok env ?n" "set (wn_AllowedOutcomes ?n) \<subseteq> set (wn_AllowedOutcomes ?old)"
    using added by (auto simp: normalizeNode_iff trimmed_node_def)
  obtain d' where d': "compile env ?input = Inr d'" using compile_shadowed [OF accepted json n0 id n] by blast
  then have "wd_Nodes d' = sort_key wn_NodeID (?n # map (\<lambda>(i, n). trimmed_node i n) (cf_Nodes input))"
    by (auto simp: compile_iff Let_def unsealed_def dest: seal_fields(4))
  then have "mset (map wn_NodeID (wd_Nodes d')) = mset (map wn_NodeID (?n # map (\<lambda>(i, n). trimmed_node i n) (cf_Nodes input)))" by (simp only: mset_map mset_sort)
  moreover have "wn_NodeID ?n \<in> set (map wn_NodeID (map (\<lambda>(i, n). trimmed_node i n) (cf_Nodes input)))" using n0 id by (metis image_eqI list.set_map)
  then have "\<not> distinct (map wn_NodeID (?n # map (\<lambda>(i, n). trimmed_node i n) (cf_Nodes input)))" by simp
  ultimately have "\<not> distinct (map wn_NodeID (wd_Nodes d'))" by (metis mset_eq_imp_distinct_iff)
  with d' compile_shadowing [of _ k' c' input env] show ?thesis unfolding key(1) by blast
qed

theorem workflow_duplicate_ids_accepted_witness:
  "(\<exists>d. compile sample_workflow_env (sample_config\<lparr>cf_Nodes := ('' a'', (sample_node ''z'')\<lparr>nc_AllowedOutcomes := [''ok'']\<rparr>) # cf_Nodes sample_config\<rparr>) = Inr d \<and>
      \<not> distinct (map wn_NodeID (wd_Nodes d))) \<and>
   isl (compile sample_workflow_env (sample_config\<lparr>cf_Nodes := cf_Nodes sample_config @ [('' a'', (sample_node ''z'')\<lparr>nc_AllowedOutcomes := [''ok'']\<rparr>)]\<rparr>))"
proof -
  let ?c' = "(sample_node ''z'')\<lparr>nc_AllowedOutcomes := [''ok'']\<rparr>" and ?e = "\<lparr>we_From = ''a'', we_Outcome = ''again'', we_To = ''a''\<rparr>"
  have json: "\<forall>d. \<not> isl (wv_json sample_workflow_env d)" by (simp add: sample_workflow_env_def)
  have entry: "(''a'', sample_node ''x'') \<in> set (cf_Nodes sample_config)" by (simp add: sample_config_def)
  have key: "TrimSpace '' a'' = TrimSpace ''a''" "'' a'' \<notin> fst ` set (cf_Nodes sample_config)" by code_simp+
  have "\<not> isl (normalizeNode sample_workflow_env '' a'' ?c')" by code_simp
  note added = res_eq [OF this]
  have sub: "TrimSpace ` set (nc_AllowedOutcomes ?c') \<subseteq> TrimSpace ` set (nc_AllowedOutcomes (sample_node ''x''))" by code_simp
  have edge: "?e \<in> set (cf_Edges sample_config)" by (simp add: sample_config_def)
  have out: "TrimSpace (we_From ?e) = TrimSpace ''a''" "TrimSpace (we_Outcome ?e) \<notin> TrimSpace ` set (nc_AllowedOutcomes ?c')" by code_simp+
  show ?thesis using workflow_duplicate_ids_accepted [OF sample_compiles json entry key added sub] edge out by blast
qed

end
