(* ===== verification/Model_Context.thy ===== *)
theory Model_Context
  imports Model_Loop
begin

text \<open>
  What a step of the model is shown (\<^verbatim>\<open>model_context.go\<close>, \<^verbatim>\<open>observations.go\<close>,
  \<^verbatim>\<open>projections.go\<close>, \<^verbatim>\<open>provider_prefix.go\<close> and the readers of \<^verbatim>\<open>kernel.go\<close>): the history of the
  session with the summary of its compacted part, the index of the skills, the ended jobs that were not reported yet,
  the source snapshots and the input of the turn. The theorems say that a session sees only its own log, that each
  part keeps to its budget, and how observations are delivered.
\<close>

section \<open>The turns of a session\<close>

record conversationToolExchange =
  ce_Tool :: string
  ce_Arguments :: string
  ce_ResultStatus :: string
  ce_ResultContent :: string

record conversationHistoryTurn =
  ct_TurnID :: string
  ct_UserText :: string
  ct_ToolExchanges :: "conversationToolExchange list"
  ct_AssistantText :: string

definition inputItemsText :: "InputItem list \<Rightarrow> string" where
  "inputItemsText items =
     join_with [CHR 0x0A] (map ii_Text (filter (\<lambda>item. ii_Type item = ''text'' \<and> TrimSpace (ii_Text item) \<noteq> []) items))"

definition toolLoopPausedHistoryText :: "TurnPauseProjection \<Rightarrow> string" where
  "toolLoopPausedHistoryText pause =
     (let reason = (if TrimSpace (tp_Reason pause) = [] then ''tool_loop_round_budget_exhausted'' else TrimSpace (tp_Reason pause))
      in ''tool loop paused: '' @ reason @ '' after '' @ show_int (tp_CompletedToolRounds pause) @
         '' committed tool rounds; continue from the committed tool results'')"

definition pairedConversationToolExchanges :: "ToolCallProjection list \<Rightarrow> ToolResultProjection list \<Rightarrow> conversationToolExchange list" where
  "pairedConversationToolExchanges calls results =
     (let resultByEventID = fold (\<lambda>result m. go_store (TrimSpace (tr_ForEventID result)) result m) results []
      in List.map_filter (\<lambda>call.
           case go_lookup resultByEventID (TrimSpace (tc_ToolCallEventID call)) of
             None \<Rightarrow> None
           | Some result \<Rightarrow> Some \<lparr>ce_Tool = TrimSpace (tc_Tool call), ce_Arguments = TrimSpace (tc_Arguments call),
               ce_ResultStatus = TrimSpace (tr_Status result), ce_ResultContent = TrimSpace (tr_Content result)\<rparr>) calls)"

text \<open>The maps of the loop: what was submitted and which calls and results were met, by turn.\<close>

record conversation_state =
  cv_inputs :: "InputItem list go_map"
  cv_calls :: "ToolCallProjection list go_map"
  cv_results :: "ToolResultProjection list go_map"
  cv_turns :: "conversationHistoryTurn list"

definition conversation_start :: conversation_state where
  "conversation_start = \<lparr>cv_inputs = [], cv_calls = [], cv_results = [], cv_turns = []\<rparr>"

abbreviation go_list :: "'a list go_map \<Rightarrow> string \<Rightarrow> 'a list" where
  "go_list m i \<equiv> (case go_lookup m i of Some xs \<Rightarrow> xs | None \<Rightarrow> [])"

definition forget_turn :: "string \<Rightarrow> conversation_state \<Rightarrow> conversation_state" where
  "forget_turn turnID s = s\<lparr>cv_inputs := AList.delete turnID (cv_inputs s), cv_calls := AList.delete turnID (cv_calls s),
     cv_results := AList.delete turnID (cv_results s)\<rparr>"

definition add_turn :: "bool \<Rightarrow> conversationHistoryTurn \<Rightarrow> conversation_state \<Rightarrow> conversation_state" where
  "add_turn kept turn s = forget_turn (ct_TurnID turn) (if kept then s\<lparr>cv_turns := cv_turns s @ [turn]\<rparr> else s)"

definition turn_of :: "StoredEvent \<Rightarrow> string \<Rightarrow> conversation_state \<Rightarrow> conversationHistoryTurn" where
  "turn_of event assistantText s =
     (let i = ev_TurnID event
      in \<lparr>ct_TurnID = i, ct_UserText = inputItemsText (go_list (cv_inputs s) i),
          ct_ToolExchanges = pairedConversationToolExchanges (go_list (cv_calls s) i) (go_list (cv_results s) i), ct_AssistantText = assistantText\<rparr>)"

definition conversation_step :: "StoredEvent \<Rightarrow> conversation_state \<Rightarrow> conversation_state" where
  "conversation_step event s =
     (let i = ev_TurnID event; data = ev_Data event
      in if ev_Type event = ''turn.submitted'' then s\<lparr>cv_inputs := go_store i (ed_InputItems data) (cv_inputs s)\<rparr>
         else if ev_Type event = ''tool.call'' then
           (case ed_ToolCall data of None \<Rightarrow> s | Some call \<Rightarrow> s\<lparr>cv_calls := go_store i (go_list (cv_calls s) i @ [call]) (cv_calls s)\<rparr>)
         else if ev_Type event = ''tool.result'' then
           (case ed_ToolResult data of None \<Rightarrow> s | Some result \<Rightarrow> s\<lparr>cv_results := go_store i (go_list (cv_results s) i @ [result]) (cv_results s)\<rparr>)
         else if ev_Type event = ''model.final'' then
           (case ed_Final data of
              None \<Rightarrow> s
            | Some final \<Rightarrow>
                let turn = turn_of event (TrimSpace (fm_Text final)) s
                in add_turn (TrimSpace (ct_UserText turn) \<noteq> [] \<or> ct_ToolExchanges turn \<noteq> [] \<or> ct_AssistantText turn \<noteq> []) turn s)
         else if ev_Type event = ''turn.paused'' then
           (case ed_TurnPause data of
              None \<Rightarrow> s
            | Some pause \<Rightarrow>
                let turn = turn_of event (toolLoopPausedHistoryText pause) s
                in add_turn (TrimSpace (ct_UserText turn) \<noteq> [] \<or> ct_ToolExchanges turn \<noteq> []) turn s)
         else if ev_Type event = ''turn.failed'' then forget_turn i s
         else s)"

text \<open>The events of a session up to the submission of a turn; a blank turn stands for the whole session.\<close>

definition session_events :: "string \<Rightarrow> string \<Rightarrow> StoredEvent list \<Rightarrow> StoredEvent list" where
  "session_events sessionID beforeTurnID events =
     takeWhile (\<lambda>event. \<not> (beforeTurnID \<noteq> [] \<and> ev_TurnID event = beforeTurnID \<and> ev_Type event = ''turn.submitted''))
       (filter (\<lambda>event. ev_SessionID event = sessionID) events)"

definition sameSessionCompletedConversationTurns :: "StoredEvent list \<Rightarrow> string \<Rightarrow> string \<Rightarrow> conversationHistoryTurn list" where
  "sameSessionCompletedConversationTurns events sessionID beforeTurnID =
     (if TrimSpace sessionID = [] then []
      else cv_turns (fold conversation_step (session_events (TrimSpace sessionID) (TrimSpace beforeTurnID) events) conversation_start))"

section \<open>The compacted part\<close>

definition no_compaction :: ContextCompactionProjection where
  "no_compaction = \<lparr>cc_Trigger = [], cc_Status = [], cc_Summary = [], cc_CompactedThroughTurnID = [], cc_CompactedTurnCount = 0,
     cc_SourceInputTokens = 0, cc_SourceUsage = None, cc_CacheStability = None, cc_FailureReason = [], cc_PreviousFailureReason = [],
     cc_DeferredReason = [], cc_RetryAfterCompletedTurns = 0, cc_BackoffRemainingTurns = 0, cc_ConsecutiveCompletedCompactions = 0,
     cc_Model = [], cc_Usage = None\<rparr>"

definition compaction_step :: "StoredEvent \<Rightarrow> ContextCompactionProjection \<Rightarrow> ContextCompactionProjection" where
  "compaction_step event found =
     (if ev_Type event \<noteq> ''context.compaction.completed'' then found
      else case ed_ContextCompaction (ev_Data event) of None \<Rightarrow> found | Some projection \<Rightarrow> projection)"

definition latestSessionContextCompaction :: "StoredEvent list \<Rightarrow> string \<Rightarrow> string \<Rightarrow> ContextCompactionProjection" where
  "latestSessionContextCompaction events sessionID beforeTurnID =
     fold compaction_step (session_events (TrimSpace sessionID) (TrimSpace beforeTurnID) events) no_compaction"

fun turns_after :: "string \<Rightarrow> conversationHistoryTurn list \<Rightarrow> conversationHistoryTurn list option" where
  "turns_after i [] = None"
| "turns_after i (turn # turns) = (if ct_TurnID turn = i then Some turns else turns_after i turns)"

definition turnsAfterCompactedTurn :: "conversationHistoryTurn list \<Rightarrow> string \<Rightarrow> conversationHistoryTurn list" where
  "turnsAfterCompactedTurn turns compactedThroughTurnID =
     (let i = TrimSpace compactedThroughTurnID
      in if i = [] then turns else case turns_after i turns of Some rest \<Rightarrow> rest | None \<Rightarrow> turns)"

section \<open>The history as text\<close>

definition exchange_lines :: "conversationToolExchange \<Rightarrow> string list" where
  "exchange_lines exchange =
     (let tool = (if TrimSpace (ce_Tool exchange) = [] then ''unknown'' else TrimSpace (ce_Tool exchange));
          arguments = TrimSpace (ce_Arguments exchange); status = TrimSpace (ce_ResultStatus exchange); content = TrimSpace (ce_ResultContent exchange)
      in [''Tool call: '' @ tool] @ (if arguments \<noteq> [] then [''Tool arguments: '' @ arguments] else []) @
         (if status \<noteq> [] \<or> content \<noteq> [] then
            [''Tool result:'' @ (if status \<noteq> [] then '' '' @ status else [])] @ (if content \<noteq> [] then [content] else [])
          else []))"

definition appendToolExchangeLines :: "string list \<Rightarrow> conversationToolExchange list \<Rightarrow> string list" where
  "appendToolExchangeLines lines exchanges = lines @ concat (map exchange_lines exchanges)"

definition history_lines :: "conversationHistoryTurn \<Rightarrow> string list" where
  "history_lines turn =
     (let userText = TrimSpace (ct_UserText turn); assistantText = TrimSpace (ct_AssistantText turn)
      in appendToolExchangeLines (if userText \<noteq> [] then [''User: '' @ userText] else []) (ct_ToolExchanges turn) @
         (if assistantText \<noteq> [] then [''Assistant: '' @ assistantText] else []))"

definition conversationHistoryContextWithSummary :: "string \<Rightarrow> conversationHistoryTurn list \<Rightarrow> string" where
  "conversationHistoryContextWithSummary summary turns =
     (let summary = TrimSpace summary;
          lines = (if summary \<noteq> [] then [''Compacted earlier conversation:'', summary] else []) @ concat (map history_lines turns)
      in if lines = [] then [] else join_with [CHR 0x0A] (''Same-session conversation history:'' # lines))"

record sameSessionHistoryProjection =
  sh_Text :: string
  sh_CompactedThroughTurnID :: string
  sh_Turns :: "conversationHistoryTurn list"

definition TurnIDs :: "sameSessionHistoryProjection \<Rightarrow> string list" where
  "TurnIDs p = filter (\<lambda>i. TrimSpace i \<noteq> []) (map ct_TurnID (sh_Turns p))"

definition sameSessionConversationHistoryProjection :: "StoredEvent list \<Rightarrow> string \<Rightarrow> string \<Rightarrow> sameSessionHistoryProjection" where
  "sameSessionConversationHistoryProjection events sessionID beforeTurnID =
     (let compaction = latestSessionContextCompaction events sessionID beforeTurnID;
          turns = turnsAfterCompactedTurn (sameSessionCompletedConversationTurns events sessionID beforeTurnID) (cc_CompactedThroughTurnID compaction)
      in \<lparr>sh_Text = conversationHistoryContextWithSummary (cc_Summary compaction) turns,
          sh_CompactedThroughTurnID = cc_CompactedThroughTurnID compaction, sh_Turns = turns\<rparr>)"

section \<open>Observations of ended jobs\<close>

record kernelObservation =
  ko_EventID :: string
  ko_EventType :: string
  ko_Job :: JobProjection

abbreviation kernelObservationContextBytes :: nat where "kernelObservationContextBytes \<equiv> 4096"

definition deliveredKernelObservationIDs :: "StoredEvent list \<Rightarrow> string \<Rightarrow> string list" where
  "deliveredKernelObservationIDs events sessionID =
     concat (map (\<lambda>event.
       if ev_SessionID event \<noteq> sessionID \<or> ev_Type event \<noteq> ''kernel.observation.delivered'' then []
       else case ed_KernelObservationDelivery (ev_Data event) of
           None \<Rightarrow> []
         | Some delivery \<Rightarrow> filter (\<lambda>i. i \<noteq> []) (map TrimSpace (kd_ObservationEventIDs delivery))) events)"

definition observation_of :: "StoredEvent \<Rightarrow> kernelObservation option" where
  "observation_of event =
     (if ev_Type event \<in> set [''job.completed'', ''job.failed'', ''job.cancelled''] then
        (case ed_Job (ev_Data event) of
           None \<Rightarrow> None
         | Some job \<Rightarrow>
             Some \<lparr>ko_EventID = ev_EventID event, ko_EventType = ev_Type event,
               ko_Job = (if TrimSpace (jb_JobID job) = [] then job\<lparr>jb_JobID := ev_JobID event\<rparr> else job)\<rparr>)
      else None)"

definition pendingKernelObservations :: "StoredEvent list \<Rightarrow> string \<Rightarrow> kernelObservation list" where
  "pendingKernelObservations events sessionID =
     (let sessionID = TrimSpace sessionID; delivered = deliveredKernelObservationIDs events sessionID
      in if sessionID = [] then []
         else List.map_filter (\<lambda>event. if ev_SessionID event \<noteq> sessionID \<or> ev_EventID event \<in> set delivered then None else observation_of event) events)"

definition boundedTimelinePreview :: "string \<Rightarrow> string" where
  "boundedTimelinePreview text =
     (let text = TrimSpace text; rs = runes text in if length rs \<le> 240 then text else concat (take 240 rs))"

definition preview_line :: "string \<Rightarrow> string \<Rightarrow> string list" where
  "preview_line label text = (if TrimSpace text \<noteq> [] then [label @ boundedTimelinePreview (TrimSpace text)] else [])"

definition kernelObservationLines :: "kernelObservation \<Rightarrow> string list" where
  "kernelObservationLines observation =
     (let job = ko_Job observation
      in [''- '' @ TrimSpace (ko_EventType observation) @ '' job_id='' @ TrimSpace (jb_JobID job) @ '' tool='' @ TrimSpace (jb_Tool job) @
            '' status='' @ TrimSpace (jb_Status job)] @
         preview_line ''  receipt: '' (jb_Receipt job) @ preview_line ''  failure_reason: '' (jb_FailureReason job) @
         (case jb_ExitCode job of None \<Rightarrow> [] | Some code \<Rightarrow> [''  exit_code: '' @ show_int code]) @
         preview_line ''  stdout: '' (jb_Stdout job) @ preview_line ''  stderr: '' (jb_Stderr job))"

definition line_bytes :: "string list \<Rightarrow> nat" where
  "line_bytes lines = sum_list (map (\<lambda>line. 1 + length line) lines)"

fun observation_loop :: "kernelObservation list \<Rightarrow> string list \<Rightarrow> nat \<Rightarrow> string list \<Rightarrow> nat \<Rightarrow> string list \<times> nat \<times> string list \<times> nat" where
  "observation_loop [] lines used deliveredIDs omitted = (lines, used, deliveredIDs, omitted)"
| "observation_loop (observation # rest) lines used deliveredIDs omitted =
     (let following = kernelObservationLines observation; needed = line_bytes following
      in if used + needed > kernelObservationContextBytes then observation_loop rest lines used deliveredIDs (Suc omitted)
         else observation_loop rest (lines @ following) (used + needed)
           (deliveredIDs @ (if TrimSpace (ko_EventID observation) \<noteq> [] then [TrimSpace (ko_EventID observation)] else [])) omitted)"

definition kernelObservationContext :: "kernelObservation list \<Rightarrow> string \<times> string list" where
  "kernelObservationContext observations =
     (if observations = [] then ([], [])
      else
        let header = ''Kernel observations:'';
            (lines, used, deliveredIDs, omitted) = observation_loop observations [header] (length header) [] 0;
            line = ''- additional kernel observations omitted by context budget'';
            lines = (if omitted > 0 \<and> used + 1 + length line \<le> kernelObservationContextBytes then lines @ [line] else lines)
        in if length lines = 1 then ([], []) else (join_with [CHR 0x0A] lines, deliveredIDs))"

section \<open>Budgeted parts of the context\<close>

record SkillCatalogItemProjection =
  sk_Name :: string
  sk_Description :: string

record SourceSnapshotDescriptor =
  sd_SourceSnapshotRef :: string
  sd_DisplayLabel :: string
  sd_SourceKind :: string
  sd_Purpose :: string
  sd_AvailableOperations :: "string list"

record providerHydratedContextFragment =
  hf_InputKind :: string
  hf_VisibleText :: string

definition oneLine :: "string \<Rightarrow> string" where
  "oneLine text = join_with '' '' (Fields text)"

fun skill_loop :: "int \<Rightarrow> SkillCatalogItemProjection list \<Rightarrow> string list \<Rightarrow> nat \<Rightarrow> string list" where
  "skill_loop budget [] lines used = lines"
| "skill_loop budget (skill # rest) lines used =
     (let name = TrimSpace (sk_Name skill);
          minimum = ''- '' @ name;
          description = oneLine (TrimSpace (sk_Description skill));
          line = (if description \<noteq> [] then minimum @ '': '' @ description else minimum);
          fits = (\<lambda>text. int (used + 1 + length text) \<le> budget)
      in if name = [] then skill_loop budget rest lines used
         else if fits line then skill_loop budget rest (lines @ [line]) (used + 1 + length line)
         else if fits minimum then skill_loop budget rest (lines @ [minimum]) (used + 1 + length minimum)
         else skill_loop budget rest lines used)"

definition skillIndexContext :: "SkillCatalogItemProjection list \<Rightarrow> int \<Rightarrow> string" where
  "skillIndexContext skills budget =
     (if budget \<le> 0 \<or> skills = [] then []
      else
        let header = ''External skill index (metadata only; instructions are loaded only when explicitly needed):'';
            lines = skill_loop budget skills [header] (length header)
        in if length lines = 1 then [] else join_with [CHR 0x0A] lines)"

fun utf8_loop :: "nat \<Rightarrow> string \<Rightarrow> bool" where
  "utf8_loop 0 s \<longleftrightarrow> s = []"
| "utf8_loop (Suc n) s \<longleftrightarrow> s = [] \<or> (rune_bytes s \<noteq> 0 \<and> utf8_loop n (drop (rune_bytes s) s))"

definition utf8_Valid :: "string \<Rightarrow> bool" where
  "utf8_Valid s = utf8_loop (length s) s"

fun prefix_loop :: "nat \<Rightarrow> string \<Rightarrow> string" where
  "prefix_loop 0 s = []"
| "prefix_loop (Suc n) s = (if utf8_Valid (take (Suc n) s) then take (Suc n) s else prefix_loop n s)"

definition utf8SafePrefix :: "string \<Rightarrow> nat \<Rightarrow> string" where
  "utf8SafePrefix text limit = (if limit = 0 then [] else if length text \<le> limit then text else prefix_loop limit text)"

abbreviation sourceSnapshotContextBytes :: nat where "sourceSnapshotContextBytes \<equiv> 4096"
abbreviation sourceSnapshotLabelBytes :: nat where "sourceSnapshotLabelBytes \<equiv> 160"

definition snapshot_line :: "SourceSnapshotDescriptor \<Rightarrow> string" where
  "snapshot_line snapshot =
     (let ref = TrimSpace (sd_SourceSnapshotRef snapshot);
          label = oneLine (sd_DisplayLabel snapshot);
          label = utf8SafePrefix (if label = [] then ref else label) sourceSnapshotLabelBytes;
          ops = join_with '','' (sd_AvailableOperations snapshot);
          ops = (if ops = [] then ''source_tree'' else ops)
      in ''- '' @ ref @ '' ('' @ sd_SourceKind snapshot @ '', '' @ sd_Purpose snapshot @ '', label='' @ label @ '', operations='' @ ops @ '')'')"

fun snapshot_loop :: "SourceSnapshotDescriptor list \<Rightarrow> string list \<Rightarrow> nat \<Rightarrow> nat \<Rightarrow> string list \<times> nat \<times> nat" where
  "snapshot_loop [] lines used omitted = (lines, used, omitted)"
| "snapshot_loop (snapshot # rest) lines used omitted =
     (let line = snapshot_line snapshot
      in if TrimSpace (sd_SourceSnapshotRef snapshot) = [] then snapshot_loop rest lines used omitted
         else if used + 1 + length line > sourceSnapshotContextBytes then snapshot_loop rest lines used (Suc omitted)
         else snapshot_loop rest (lines @ [line]) (used + 1 + length line) omitted)"

definition sourceSnapshotContext :: "SourceSnapshotDescriptor list \<Rightarrow> string" where
  "sourceSnapshotContext snapshots =
     (if snapshots = [] then []
      else
        let header = ''Source snapshots available for this session. Use source_tree with source_snapshot_ref, then source_read with source_file_ref for selected files.'';
            (lines, used, omitted) = snapshot_loop snapshots [header] (length header) 0;
            line = ''- additional source snapshots omitted by context budget'';
            lines = (if omitted > 0 \<and> used + 1 + length line \<le> sourceSnapshotContextBytes then lines @ [line] else lines)
        in if length lines = 1 then [] else join_with [CHR 0x0A] lines)"

section \<open>The input of a step\<close>

abbreviation ModelInputKindUserText :: string where "ModelInputKindUserText \<equiv> ''user_text''"
abbreviation ModelInputKindSkillIndexContext :: string where "ModelInputKindSkillIndexContext \<equiv> ''skill_index_context''"
abbreviation ModelInputKindConversationHistoryContext :: string where "ModelInputKindConversationHistoryContext \<equiv> ''conversation_history_context''"
abbreviation ModelInputKindKernelObservationContext :: string where "ModelInputKindKernelObservationContext \<equiv> ''kernel_observation_context''"
abbreviation ModelInputKindHydratedContext :: string where "ModelInputKindHydratedContext \<equiv> ''hydrated_context''"
abbreviation ModelInputKindSourceSnapshotContext :: string where "ModelInputKindSourceSnapshotContext \<equiv> ''source_snapshot_context''"

definition input_part :: "string \<Rightarrow> bool \<Rightarrow> string \<Rightarrow> ModelInputItem list" where
  "input_part kind present text = (if present then [\<lparr>mi_Kind = kind, mi_Text = text\<rparr>] else [])"

definition appendHydratedContextItems :: "ModelInputItem list \<Rightarrow> providerHydratedContextFragment list \<Rightarrow> ModelInputItem list" where
  "appendHydratedContextItems items hydratedContexts =
     items @ concat (map (\<lambda>c. input_part ModelInputKindHydratedContext
       (hf_InputKind c = ModelInputKindHydratedContext \<and> TrimSpace (hf_VisibleText c) \<noteq> []) (hf_VisibleText c)) hydratedContexts)"

definition modelInputItemsWithHistoryAndHydration ::
  "InputItem list \<Rightarrow> SkillCatalogItemProjection list \<Rightarrow> providerHydratedContextFragment list \<Rightarrow> SourceSnapshotDescriptor list \<Rightarrow>
     int \<Rightarrow> string \<Rightarrow> string \<Rightarrow> ModelInputItem list" where
  "modelInputItemsWithHistoryAndHydration userItems skills hydratedContexts sourceSnapshots skillIndexBudget historyContext observationContext =
     (let skillContext = skillIndexContext skills skillIndexBudget; sourceContext = sourceSnapshotContext sourceSnapshots
      in appendHydratedContextItems
           (input_part ModelInputKindConversationHistoryContext (TrimSpace historyContext \<noteq> []) historyContext @
            input_part ModelInputKindSkillIndexContext (skillContext \<noteq> []) skillContext @
            input_part ModelInputKindKernelObservationContext (TrimSpace observationContext \<noteq> []) (TrimSpace observationContext))
           hydratedContexts @
         input_part ModelInputKindSourceSnapshotContext (sourceContext \<noteq> []) sourceContext @
         concat (map (\<lambda>item. input_part ModelInputKindUserText (ii_Type item = ''text'' \<and> ii_Text item \<noteq> []) (ii_Text item)) userItems))"

definition stableProviderInstruction :: string where
  "stableProviderInstruction = ''You are Genesis, a local-first personal AI assistant. Follow the user's request, use available tools only when they help, and return a clear visible answer.''"

abbreviation blank_line :: string where "blank_line \<equiv> [CHR 0x0A, CHR 0x0A]"

definition stableSystemPrefixParts :: "ModelInputItem list \<Rightarrow> string \<times> string" where
  "stableSystemPrefixParts items =
     (stableProviderInstruction,
      join_with blank_line (map mi_Text (filter (\<lambda>item. mi_Kind item = ModelInputKindSkillIndexContext \<and> TrimSpace (mi_Text item) \<noteq> []) items)))"

definition stableSystemPrefix :: "ModelInputItem list \<Rightarrow> string" where
  "stableSystemPrefix items =
     (case stableSystemPrefixParts items of (instruction, skillIndex) \<Rightarrow>
        join_with blank_line (instruction # (if skillIndex \<noteq> [] then [skillIndex] else [])))"

definition no_message :: ModelConversationMessage where
  "no_message = \<lparr>cm_Role = [], cm_Text = [], cm_ReasoningText = [], cm_ReasoningAdapterID = [], cm_ReasoningAdapterProfile = [],
     cm_ToolCalls = [], cm_ToolCallID = []\<rparr>"

definition user_message :: "string \<Rightarrow> ModelConversationMessage" where
  "user_message text = no_message\<lparr>cm_Role := ''user'', cm_Text := text\<rparr>"

definition currentConversationMessages :: "ModelInputItem list \<Rightarrow> ModelConversationMessage list" where
  "currentConversationMessages items =
     map (\<lambda>item. user_message (''Context ('' @ mi_Kind item @ ''):'' @ [CHR 0x0A] @ mi_Text item))
       (filter (\<lambda>item. mi_Kind item \<notin> set [ModelInputKindConversationHistoryContext, ModelInputKindSkillIndexContext, ModelInputKindUserText] \<and>
          TrimSpace (mi_Text item) \<noteq> []) items) @
     map (\<lambda>item. user_message (mi_Text item)) (filter (\<lambda>item. mi_Kind item = ModelInputKindUserText \<and> TrimSpace (mi_Text item) \<noteq> []) items)"

section \<open>The conversation of a step\<close>

record message_state =
  mg_messages :: "ModelConversationMessage list"
  mg_reasoning :: "ReasoningMessage option"
  mg_calls :: "ModelToolCall list"

definition with_reasoning :: "ReasoningMessage option \<Rightarrow> ModelConversationMessage \<Rightarrow> ModelConversationMessage" where
  "with_reasoning reasoning message =
     (case reasoning of
        None \<Rightarrow> message
      | Some r \<Rightarrow> message\<lparr>cm_ReasoningText := rm_Text r, cm_ReasoningAdapterID := rm_AdapterID r, cm_ReasoningAdapterProfile := rm_AdapterProfileID r\<rparr>)"

definition flushCalls :: "message_state \<Rightarrow> message_state" where
  "flushCalls s =
     (if mg_calls s = [] then s
      else \<lparr>mg_messages = mg_messages s @ [with_reasoning (mg_reasoning s) (no_message\<lparr>cm_Role := ''assistant'', cm_ToolCalls := mg_calls s\<rparr>)],
            mg_reasoning = None, mg_calls = []\<rparr>)"

definition message_step :: "bool \<Rightarrow> StoredEvent \<Rightarrow> message_state \<Rightarrow> message_state" where
  "message_step skipSubmitted event s =
     (let data = ev_Data event
      in if ev_Type event = ''turn.submitted'' then
           (let text = inputItemsText (ed_InputItems data)
            in if \<not> skipSubmitted \<and> TrimSpace text \<noteq> [] then s\<lparr>mg_messages := mg_messages s @ [user_message text]\<rparr> else s)
         else if ev_Type event = ''model.reasoning'' then
           (case ed_Reasoning data of None \<Rightarrow> s | Some reasoning \<Rightarrow> s\<lparr>mg_reasoning := Some reasoning\<rparr>)
         else if ev_Type event = ''tool.call'' then
           (case ed_ToolCall data of
              None \<Rightarrow> s
            | Some call \<Rightarrow> s\<lparr>mg_calls := mg_calls s @ [\<lparr>mtc_ToolCallID = tc_ProviderToolCallID call, mtc_ToolCallEventID = [],
                mtc_Name = tc_Tool call, mtc_Arguments = tc_Arguments call\<rparr>]\<rparr>)
         else if ev_Type event = ''tool.result'' then
           (let s = flushCalls s
            in case ed_ToolResult data of
                 None \<Rightarrow> s
               | Some result \<Rightarrow> s\<lparr>mg_messages := mg_messages s @
                   [no_message\<lparr>cm_Role := ''tool'', cm_ToolCallID := tr_ProviderToolCallID result, cm_Text := tr_Content result\<rparr>]\<rparr>)
         else if ev_Type event = ''model.final'' then
           (let s = flushCalls s;
                s = (case ed_Final data of
                       None \<Rightarrow> s
                     | Some final \<Rightarrow> s\<lparr>mg_messages := mg_messages s @
                         [with_reasoning (mg_reasoning s) (no_message\<lparr>cm_Role := ''assistant'', cm_Text := fm_Text final\<rparr>)]\<rparr>)
            in s\<lparr>mg_reasoning := None, mg_calls := []\<rparr>)
         else s)"

definition conversationMessagesForTurns :: "StoredEvent list \<Rightarrow> string \<Rightarrow> string list \<Rightarrow> bool \<Rightarrow> ModelConversationMessage list" where
  "conversationMessagesForTurns events sessionID turnIDs skipSubmitted =
     mg_messages (fold (message_step skipSubmitted)
       (filter (\<lambda>event. ev_SessionID event = sessionID \<and> ev_TurnID event \<in> set turnIDs) events)
       \<lparr>mg_messages = [], mg_reasoning = None, mg_calls = []\<rparr>)"

definition modelConversationMessagesFromStoredEvents ::
  "StoredEvent list \<Rightarrow> string \<Rightarrow> string \<Rightarrow> sameSessionHistoryProjection \<Rightarrow> ModelInputItem list \<Rightarrow> ModelConversationMessage list" where
  "modelConversationMessagesFromStoredEvents events sessionID turnID history currentInputs =
     (let compaction = latestSessionContextCompaction events sessionID turnID
      in [no_message\<lparr>cm_Role := ''system'', cm_Text := stableSystemPrefix currentInputs\<rparr>] @
         (if TrimSpace (cc_Summary compaction) \<noteq> []
          then [user_message (''Compacted earlier conversation:'' @ [CHR 0x0A] @ TrimSpace (cc_Summary compaction))] else []) @
         conversationMessagesForTurns events sessionID (TurnIDs history) False @
         currentConversationMessages currentInputs @
         conversationMessagesForTurns events sessionID [turnID] True)"

section \<open>The context of a step\<close>

text \<open>
  What the submitted event holds beside the input items (the log keeps it, the events of this model do not): the
  catalog of skills, the fragments read for its hydrated contexts, the source snapshots and the manifest of tools;
  the identity of the provider; and the digests of a text, of the tools and of the four parts of a fingerprint.
\<close>

record submitted_material =
  sb_SkillCatalog :: "SkillCatalogItemProjection list"
  sb_HydratedFragments :: "providerHydratedContextFragment list"
  sb_SourceSnapshots :: "SourceSnapshotDescriptor list"
  sb_ToolManifest :: "ToolSpec list"

record context_env =
  cx_material :: "StoredEvent \<Rightarrow> submitted_material"
  cx_identity :: string
  cx_digest :: "string \<Rightarrow> string"
  cx_digestTools :: "ToolSpec list \<Rightarrow> string"
  cx_digestParts :: "string list \<Rightarrow> string"
  cx_skillIndexChars :: int

definition providerPrefixFingerprintComponents :: "context_env \<Rightarrow> string \<Rightarrow> string \<Rightarrow> string \<Rightarrow> ToolSpec list \<Rightarrow> PrefixFingerprintComponents" where
  "providerPrefixFingerprintComponents env identity systemInstruction skillIndex tools =
     (let system = cx_digest env systemInstruction; skills = cx_digest env skillIndex;
          manifest = cx_digestTools env (sort_key ts_Name tools); binding = cx_digest env (TrimSpace identity)
      in \<lparr>pf_Fingerprint = cx_digestParts env [system, skills, manifest, binding], pf_SystemInstruction = system, pf_SkillIndex = skills,
          pf_ToolManifest = manifest, pf_AdapterBinding = binding\<rparr>)"

definition providerContextProjectionFromStoredEvents :: "context_env \<Rightarrow> StoredEvent list \<Rightarrow> string \<Rightarrow> ProviderContextProjection option" where
  "providerContextProjectionFromStoredEvents env events turnID =
     (case find (\<lambda>event. ev_TurnID event = turnID \<and> ev_Type event = ''turn.submitted'') events of
        None \<Rightarrow> None
      | Some submitted \<Rightarrow>
          let sessionID = ev_SessionID submitted;
              material = cx_material env submitted;
              history = sameSessionConversationHistoryProjection events sessionID turnID;
              (observationContext, deliveredObservationIDs) = kernelObservationContext (pendingKernelObservations events sessionID);
              inputItems = modelInputItemsWithHistoryAndHydration (ed_InputItems (ev_Data submitted)) (sb_SkillCatalog material)
                (sb_HydratedFragments material) (sb_SourceSnapshots material) (cx_skillIndexChars env) (sh_Text history) observationContext;
              (systemInstruction, skillIndex) = stableSystemPrefixParts inputItems;
              components = providerPrefixFingerprintComponents env (cx_identity env) systemInstruction skillIndex (sb_ToolManifest material)
          in Some \<lparr>pc_SessionID = sessionID, pc_TurnID = turnID, pc_InputItems = inputItems,
               pc_Conversation = modelConversationMessagesFromStoredEvents events sessionID turnID history inputItems,
               pc_ToolManifest = sb_ToolManifest material, pc_ToolRounds = modelToolRoundsFromStoredEvents events turnID,
               pc_PrefixFingerprint = pf_Fingerprint components, pc_PrefixComponents = components,
               pc_KernelObservationEventIDs = deliveredObservationIDs, pc_HistoryTurnIDs = TurnIDs history,
               pc_CompactedThroughTurnID = sh_CompactedThroughTurnID history\<rparr>)"

definition providerContextProjectionForProvider :: "context_env \<Rightarrow> string \<Rightarrow> kernel \<Rightarrow> ProviderContextProjection res" where
  "providerContextProjectionForProvider env turnID k =
     (let turnID = TrimSpace turnID
      in if turnID = [] then Inl (errors_New ''turn id is required'')
         else bind_res (loadEvents k) (\<lambda>events.
           case providerContextProjectionFromStoredEvents env events turnID of
             None \<Rightarrow> Inl ErrTurnNotFound
           | Some projection \<Rightarrow> Inr projection))"

section \<open>Budgets\<close>

text \<open>The lines of a part, joined by line breaks: the first line, and one byte more than its length for each other line.\<close>

lemma length_join_lines: "length (join_with [c] (line # lines)) = length line + line_bytes lines"
proof (induction lines arbitrary: line)
  case (Cons l ls)
  then show ?case by (simp add: line_bytes_def)
qed (simp add: line_bytes_def)

lemma line_bytes_append [simp]: "line_bytes (xs @ ys) = line_bytes xs + line_bytes ys"
  by (simp add: line_bytes_def)

lemma line_bytes_simps [simp]: "line_bytes [] = 0" "line_bytes (l # ls) = 1 + length l + line_bytes ls"
  by (simp_all add: line_bytes_def)

text \<open>A loop that keeps \<open>used\<close> equal to the bytes of what it wrote and within its budget.\<close>

definition within :: "nat \<Rightarrow> string \<Rightarrow> string list \<Rightarrow> nat \<Rightarrow> bool" where
  "within budget header lines used \<longleftrightarrow> (\<exists>rest. lines = header # rest \<and> used = length header + line_bytes rest \<and> (rest = [] \<or> used \<le> budget))"

lemma within_start: "within budget header [header] (length header)"
  by (simp add: within_def)

lemma within_add:
  assumes "within budget header lines used" and "used + line_bytes more_lines \<le> budget"
  shows "within budget header (lines @ more_lines) (used + line_bytes more_lines)"
  using assms by (auto simp: within_def)

lemma within_bound: "within budget header lines used \<Longrightarrow> length lines \<noteq> 1 \<Longrightarrow> length (join_with [c] lines) \<le> budget"
  by (auto simp: within_def length_join_lines simp del: join_with.simps)

lemma observation_loop_within:
  "within kernelObservationContextBytes header lines used \<Longrightarrow> observation_loop os lines used ids n = (lines', used', ids', n') \<Longrightarrow>
    within kernelObservationContextBytes header lines' used'"
proof (induction os lines used ids n arbitrary: lines' used' ids' n' rule: observation_loop.induct)
  case (2 obs rest lines used ids n)
  show ?case
  proof (cases "used + line_bytes (kernelObservationLines obs) > kernelObservationContextBytes")
    case True
    with 2 show ?thesis by (simp add: Let_def)
  next
    case False
    with 2(2) [OF HOL.refl HOL.refl] 2(3,4) within_add [OF 2(3), of "kernelObservationLines obs"] show ?thesis by (simp add: Let_def)
  qed
qed simp

lemma skill_loop_within:
  "within (nat budget) header lines used \<Longrightarrow> \<exists>used'. within (nat budget) header (skill_loop budget skills lines used) used'"
proof (induction skills arbitrary: lines used)
  case (Cons skill skills)
  have add: "\<exists>used'. within (nat budget) header (skill_loop budget skills (lines @ [line]) (used + 1 + length line)) used'"
    if "int (used + 1 + length line) \<le> budget" for line
    using Cons.IH [OF within_add [OF Cons.prems, of "[line]"]] that by simp
  let ?minimum = "''- '' @ TrimSpace (sk_Name skill)"
  show ?case
    using add [of ?minimum] add [of "?minimum @ '': '' @ oneLine (TrimSpace (sk_Description skill))"] Cons.IH [OF Cons.prems]
    by (simp add: Let_def)
qed auto

lemma snapshot_loop_within:
  "within sourceSnapshotContextBytes header lines used \<Longrightarrow> snapshot_loop os lines used n = (lines', used', n') \<Longrightarrow>
    within sourceSnapshotContextBytes header lines' used'"
proof (induction os lines used n arbitrary: lines' used' n' rule: snapshot_loop.induct)
  case (2 s rest lines used n)
  have add: "within sourceSnapshotContextBytes header (lines @ [snapshot_line s]) (used + 1 + length (snapshot_line s))"
    if "used + 1 + length (snapshot_line s) \<le> sourceSnapshotContextBytes"
    using within_add [OF 2(4), of "[snapshot_line s]"] that by simp
  then show ?case using 2 by (auto simp: Let_def split: if_splits)
qed simp

lemma kernelObservationContext_bounded: "length (fst (kernelObservationContext os)) \<le> kernelObservationContextBytes"
proof (cases "os = []")
  case False
  obtain lines used ids n where loop: "observation_loop os [''Kernel observations:''] (length ''Kernel observations:'') [] 0 = (lines, used, ids, n)"
    by (metis prod_cases4)
  note w = observation_loop_within [OF within_start loop]
  define lines' where "lines' = (if n > 0 \<and> used + 1 + length ''- additional kernel observations omitted by context budget'' \<le> kernelObservationContextBytes
      then lines @ [''- additional kernel observations omitted by context budget''] else lines)"
  have "\<exists>u. within kernelObservationContextBytes ''Kernel observations:'' lines' u"
    using w within_add [OF w, of "[''- additional kernel observations omitted by context budget'']"] unfolding lines'_def
    by (auto simp del: list.size)
  then obtain u where "within kernelObservationContextBytes ''Kernel observations:'' lines' u" ..
  from within_bound [OF this, of "CHR 0x0A"]
  have "length lines' \<noteq> 1 \<Longrightarrow> length (join_with [CHR 0x0A] lines') \<le> kernelObservationContextBytes" .
  then show ?thesis using False loop unfolding kernelObservationContext_def Let_def lines'_def [symmetric] by (simp add: lines'_def)
qed (simp add: kernelObservationContext_def)

lemma skillIndexContext_bounded: "length (skillIndexContext skills budget) \<le> nat budget"
proof -
  have "length (skill_loop budget skills [h] (length h)) \<noteq> 1 \<Longrightarrow> length (join_with [CHR 0x0A] (skill_loop budget skills [h] (length h))) \<le> nat budget" for h
    using skill_loop_within [OF within_start, of budget h skills] within_bound [of "nat budget" h _ _ "CHR 0x0A"] by blast
  then show ?thesis by (simp add: skillIndexContext_def Let_def del: list.size(4))
qed

lemma sourceSnapshotContext_bounded: "length (sourceSnapshotContext snapshots) \<le> sourceSnapshotContextBytes"
proof (cases "snapshots = []")
  case False
  define header where "header = ''Source snapshots available for this session. Use source_tree with source_snapshot_ref, then source_read with source_file_ref for selected files.''"
  define omission where "omission = ''- additional source snapshots omitted by context budget''"
  obtain lines used n where loop: "snapshot_loop snapshots [header] (length header) 0 = (lines, used, n)" by (metis prod_cases3)
  note w = snapshot_loop_within [OF within_start loop]
  define lines' where "lines' = (if n > 0 \<and> used + 1 + length omission \<le> sourceSnapshotContextBytes then lines @ [omission] else lines)"
  have "\<exists>u. within sourceSnapshotContextBytes header lines' u"
    using w within_add [OF w, of "[omission]"] unfolding lines'_def by auto
  then obtain u where "within sourceSnapshotContextBytes header lines' u" ..
  from within_bound [OF this, of "CHR 0x0A"]
  have "length lines' \<noteq> 1 \<Longrightarrow> length (join_with [CHR 0x0A] lines') \<le> sourceSnapshotContextBytes" .
  moreover have "sourceSnapshotContext snapshots = (if length lines' = 1 then [] else join_with [CHR 0x0A] lines')"
    using False loop unfolding sourceSnapshotContext_def header_def [symmetric] omission_def [symmetric] by (simp add: Let_def lines'_def)
  ultimately show ?thesis by simp
qed (simp add: sourceSnapshotContext_def)

text \<open>
  The budgeted parts of the model's context keep to their budgets. The index of skills is at most as long as its
  budget, the observations and the source snapshots are at most 4096 bytes each, whatever the skills, jobs and
  snapshots hold.
\<close>

theorem model_context_budgets:
  "length (skillIndexContext skills budget) \<le> nat budget \<and> length (fst (kernelObservationContext observations)) \<le> 4096 \<and>
    length (sourceSnapshotContext snapshots) \<le> 4096"
  using skillIndexContext_bounded kernelObservationContext_bounded sourceSnapshotContext_bounded by blast

section \<open>Delivery of observations\<close>

lemma rune_bytes_le: "rune_bytes s \<le> 4" "rune_bytes s \<le> length s"
  by (cases s; simp split: list.splits)+

lemma length_runes_loop: "length s \<le> n \<Longrightarrow> length s \<le> 4 * length (runes_loop n s)"
proof (induction n arbitrary: s)
  case (Suc n)
  show ?case
  proof (cases "s = []")
    case False
    let ?k = "if rune_bytes s = 0 then 1 else rune_bytes s"
    have k: "1 \<le> ?k" "?k \<le> 4" using rune_bytes_le(1) [of s] by auto
    have "length (drop ?k s) \<le> 4 * length (runes_loop n (drop ?k s))" using Suc.prems k(1) False by (intro Suc.IH) simp
    then have "length s \<le> 4 + 4 * length (runes_loop n (drop ?k s))" using k(2) by simp
    then show ?thesis using False by (auto split: if_splits)
  qed simp
qed simp

lemma runes_short: "r \<in> set (runes_loop n s) \<Longrightarrow> length r \<le> 4"
proof (induction n arbitrary: s)
  case (Suc n)
  then show ?case using rune_bytes_le(1) [of s] by (auto split: if_splits)
qed simp

lemma boundedTimelinePreview_bounded: "length (boundedTimelinePreview text) \<le> 960"
proof (cases "length (runes (TrimSpace text)) \<le> 240")
  case True
  then show ?thesis using length_runes_loop [of "TrimSpace text" "length (TrimSpace text)"]
    by (simp add: boundedTimelinePreview_def Let_def runes_def)
next
  case False
  have "sum_list (map length rs) \<le> 4 * length rs" if "\<forall>r \<in> set rs. length r \<le> 4" for rs :: "string list"
    using that by (induction rs) auto
  from this [of "take 240 (runes (TrimSpace text))"] False runes_short show ?thesis
    by (auto simp: boundedTimelinePreview_def Let_def length_concat runes_def dest!: in_set_takeD)
qed

lemma preview_line_bytes: "line_bytes (preview_line label text) \<le> 961 + length label"
  using boundedTimelinePreview_bounded [of "TrimSpace text"] by (simp add: preview_line_def)

text \<open>The first line of an observation and its exit code; the other lines are previews.\<close>

definition observation_head :: "kernelObservation \<Rightarrow> nat" where
  "observation_head obs = length (hd (kernelObservationLines obs)) + (case jb_ExitCode (ko_Job obs) of None \<Rightarrow> 0 | Some code \<Rightarrow> length (show_int code))"

lemma observation_fits:
  assumes "observation_head obs \<le> 167"
  shows "line_bytes (kernelObservationLines obs) \<le> 4076"
proof -
  let ?job = "ko_Job obs"
  define head where "head = hd (kernelObservationLines obs)"
  have lines: "kernelObservationLines obs = [head] @ preview_line ''  receipt: '' (jb_Receipt ?job) @ preview_line ''  failure_reason: '' (jb_FailureReason ?job) @
      (case jb_ExitCode ?job of None \<Rightarrow> [] | Some code \<Rightarrow> [''  exit_code: '' @ show_int code]) @
      preview_line ''  stdout: '' (jb_Stdout ?job) @ preview_line ''  stderr: '' (jb_Stderr ?job)"
    by (simp add: head_def kernelObservationLines_def Let_def)
  have code: "line_bytes (case jb_ExitCode ?job of None \<Rightarrow> [] | Some code \<Rightarrow> [''  exit_code: '' @ show_int code]) \<le>
      15 + (case jb_ExitCode ?job of None \<Rightarrow> 0 | Some code \<Rightarrow> length (show_int code))"
    by (cases "jb_ExitCode ?job") simp_all
  show ?thesis
    using assms code preview_line_bytes [of "''  receipt: ''" "jb_Receipt ?job"] preview_line_bytes [of "''  failure_reason: ''" "jb_FailureReason ?job"]
      preview_line_bytes [of "''  stdout: ''" "jb_Stdout ?job"] preview_line_bytes [of "''  stderr: ''" "jb_Stderr ?job"]
    unfolding lines observation_head_def head_def [symmetric] by simp
qed

definition trimmed_id :: "kernelObservation \<Rightarrow> string list" where
  "trimmed_id obs = (if TrimSpace (ko_EventID obs) \<noteq> [] then [TrimSpace (ko_EventID obs)] else [])"

lemma observation_loop_Cons:
  "observation_loop (obs # rest) lines used ids n =
     (if used + line_bytes (kernelObservationLines obs) > kernelObservationContextBytes then observation_loop rest lines used ids (Suc n)
      else observation_loop rest (lines @ kernelObservationLines obs) (used + line_bytes (kernelObservationLines obs)) (ids @ trimmed_id obs) n)"
  by (simp add: Let_def trimmed_id_def)

lemma observation_loop_ids:
  "observation_loop os lines used ids n = (lines', used', ids', n') \<Longrightarrow> \<exists>shown. ids' = ids @ concat (map trimmed_id shown) \<and> subseq shown os"
proof (induction os arbitrary: lines used ids n)
  case (Cons obs os)
  show ?case
  proof (cases "used + line_bytes (kernelObservationLines obs) > kernelObservationContextBytes")
    case True
    with Cons.prems have "observation_loop os lines used ids (Suc n) = (lines', used', ids', n')" by (simp add: observation_loop_Cons del: observation_loop.simps)
    from Cons.IH [OF this] show ?thesis by (blast intro: list_emb_Cons)
  next
    case False
    with Cons.prems
    have "observation_loop os (lines @ kernelObservationLines obs) (used + line_bytes (kernelObservationLines obs)) (ids @ trimmed_id obs) n = (lines', used', ids', n')"
      by (simp add: observation_loop_Cons del: observation_loop.simps)
    from Cons.IH [OF this] obtain shown where "ids' = (ids @ trimmed_id obs) @ concat (map trimmed_id shown)" "subseq shown os" by blast
    then show ?thesis by (intro exI [of _ "obs # shown"]) simp
  qed
qed (auto intro: exI [of _ "[]"])

lemma kernelObservationContext_ids:
  "\<exists>shown. snd (kernelObservationContext os) = concat (map trimmed_id shown) \<and> subseq shown os"
proof (cases "os = []")
  case False
  obtain lines used ids n where loop: "observation_loop os [''Kernel observations:''] (length ''Kernel observations:'') [] 0 = (lines, used, ids, n)"
    by (metis prod_cases4)
  have "snd (kernelObservationContext os) \<in> {[], ids}" using False loop by (simp add: kernelObservationContext_def Let_def)
  moreover have "\<exists>shown. [] = concat (map trimmed_id shown) \<and> subseq shown os" by (intro exI [of _ "[]"]) simp
  ultimately show ?thesis using observation_loop_ids [OF loop] by auto
qed (auto simp: kernelObservationContext_def intro: exI [of _ "[]"])

lemma first_observation_delivered:
  assumes "observation_head obs \<le> 167" and "TrimSpace (ko_EventID obs) \<noteq> []"
  shows "TrimSpace (ko_EventID obs) \<in> set (snd (kernelObservationContext (obs # os)))"
proof -
  define header where "header = ''Kernel observations:''"
  have fits: "\<not> length header + line_bytes (kernelObservationLines obs) > kernelObservationContextBytes"
    using observation_fits [OF assms(1)] by (simp add: header_def)
  obtain lines used ids n where loop:
    "observation_loop os (header # kernelObservationLines obs) (length header + line_bytes (kernelObservationLines obs)) (trimmed_id obs) 0 = (lines, used, ids, n)"
    by (metis prod_cases4)
  have first: "observation_loop (obs # os) [header] (length header) [] 0 = (lines, used, ids, n)"
    using loop fits by (simp add: observation_loop_Cons del: observation_loop.simps)
  have "TrimSpace (ko_EventID obs) \<in> set ids"
    using observation_loop_ids [OF loop] assms(2) by (auto simp: trimmed_id_def)
  moreover have "2 \<le> length lines"
  proof -
    have "length lines1 \<le> length lines2" if "observation_loop os lines1 u i m = (lines2, u', i', m')" for os lines1 u i m lines2 u' i' m'
      using that by (induction os lines1 u i m arbitrary: lines2 u' i' m' rule: observation_loop.induct)
        (auto simp: Let_def split: if_splits intro: order_trans [OF le_add1])
    from this [OF loop] show ?thesis by (simp add: kernelObservationLines_def Let_def)
  qed
  ultimately show ?thesis
    using first unfolding header_def by (auto simp: kernelObservationContext_def Let_def simp del: observation_loop.simps)
qed

definition delivery_event :: "string \<Rightarrow> string \<Rightarrow> string list \<Rightarrow> time \<Rightarrow> string \<Rightarrow> StoredEvent" where
  "delivery_event sessionID turnID ids =
     turn_event ''kernel.observation.delivered'' sessionID turnID
       (no_data\<lparr>ed_KernelObservationDelivery := Some \<lparr>kd_ObservationEventIDs = ids, kd_ModelInputKind = ModelInputKindKernelObservationContext\<rparr>\<rparr>)"

lemma appendKernelObservationDelivered_event:
  assumes "ids \<noteq> []" and "\<forall>i \<in> set ids. TrimSpace i = i \<and> i \<noteq> []" and "TrimSpace sessionID = sessionID" and "TrimSpace turnID = turnID"
  shows "appendKernelObservationDelivered sessionID turnID ids k = append_turn_event (delivery_event sessionID turnID ids) k"
proof -
  have "map TrimSpace ids = ids" "filter (\<lambda>i. i \<noteq> []) ids = ids" using assms(2) by (simp_all add: map_idI)
  then show ?thesis using assms by (simp add: appendKernelObservationDelivered_def delivery_event_def Let_def)
qed

definition delivers :: "string \<Rightarrow> StoredEvent \<Rightarrow> bool" where
  "delivers s e \<longleftrightarrow> ev_SessionID e = s \<and> ev_Type e = ''kernel.observation.delivered''"

text \<open>
  The log of a session and the observations shown to it: other events come from anywhere, also while a step of the
  model runs; a step reads the observations that are pending and, when the model has answered, stores what it showed.
  The turn that runs the step holds the session, so no other delivery comes between.
\<close>

inductive observation_log :: "string \<Rightarrow> StoredEvent list \<Rightarrow> bool" for s where
  log_empty: "observation_log s []"
| log_other: "observation_log s es \<Longrightarrow> \<not> delivers s e \<Longrightarrow> ev_EventID e \<notin> ev_EventID ` set es \<Longrightarrow> TrimSpace (ev_EventID e) = ev_EventID e \<Longrightarrow>
    ev_EventID e \<noteq> [] \<Longrightarrow> observation_log s (es @ [e])"
| log_deliver: "observation_log s (es @ later) \<Longrightarrow> \<forall>e \<in> set later. \<not> delivers s e \<Longrightarrow>
    e = delivery_event s turnID (snd (kernelObservationContext (pendingKernelObservations es s))) now i \<Longrightarrow>
    i \<notin> ev_EventID ` set (es @ later) \<Longrightarrow> TrimSpace i = i \<Longrightarrow> i \<noteq> [] \<Longrightarrow> observation_log s ((es @ later) @ [e])"

lemma delivered_append: "deliveredKernelObservationIDs (es @ fs) s = deliveredKernelObservationIDs es s @ deliveredKernelObservationIDs fs s"
  by (simp add: deliveredKernelObservationIDs_def)

lemma delivered_none: "\<forall>e \<in> set es. \<not> delivers s e \<Longrightarrow> deliveredKernelObservationIDs es s = []"
  by (auto simp: deliveredKernelObservationIDs_def delivers_def)

lemma delivered_event:
  "\<forall>i \<in> set ids. TrimSpace i = i \<and> i \<noteq> [] \<Longrightarrow> deliveredKernelObservationIDs [delivery_event s turnID ids now i] s = ids"
  by (auto simp: deliveredKernelObservationIDs_def delivery_event_def turn_event_def map_idI)

lemma observation_of_id: "observation_of e = Some obs \<Longrightarrow> ko_EventID obs = ev_EventID e"
  by (auto simp: observation_of_def split: if_splits option.splits)

definition pending_event :: "StoredEvent list \<Rightarrow> string \<Rightarrow> StoredEvent \<Rightarrow> bool" where
  "pending_event es s e \<longleftrightarrow> ev_SessionID e = s \<and> ev_EventID e \<notin> set (deliveredKernelObservationIDs es s) \<and> observation_of e \<noteq> None"

lemma pending_ids:
  assumes "TrimSpace s = s" and "s \<noteq> []"
  shows "map ko_EventID (pendingKernelObservations es s) = map ev_EventID (filter (pending_event es s) es)"
proof -
  have "map ko_EventID (List.map_filter (\<lambda>e. if ev_SessionID e \<noteq> s \<or> ev_EventID e \<in> D then None else observation_of e) fs) =
      map ev_EventID (filter (\<lambda>e. ev_SessionID e = s \<and> ev_EventID e \<notin> D \<and> observation_of e \<noteq> None) fs)" for fs D
    by (induction fs) (auto simp: map_filter_simps observation_of_id split: option.splits)
  then show ?thesis using assms by (simp add: pendingKernelObservations_def pending_event_def [abs_def] Let_def)
qed

lemma log_ids: "observation_log s es \<Longrightarrow> distinct (map ev_EventID es) \<and> (\<forall>e \<in> set es. TrimSpace (ev_EventID e) = ev_EventID e \<and> ev_EventID e \<noteq> [])"
  by (induction rule: observation_log.induct) (auto simp: delivery_event_def turn_event_def)

lemma log_prefix: "observation_log s L \<Longrightarrow> L = a @ b \<Longrightarrow> observation_log s a"
proof (induction arbitrary: b rule: observation_log.induct)
  case (log_other es e)
  then show ?case by (cases b rule: rev_cases) (auto intro: observation_log.log_other)
next
  case (log_deliver es later e turnID now i)
  show ?case
  proof (cases b rule: rev_cases)
    case Nil
    with log_deliver observation_log.log_deliver [OF log_deliver.hyps(1-6)] show ?thesis by simp
  next
    case (snoc b' x)
    with log_deliver show ?thesis by auto
  qed
qed (simp add: observation_log.log_empty)

lemma shown_ids:
  assumes "observation_log s es" and "TrimSpace s = s" and "s \<noteq> []"
  defines "ids \<equiv> snd (kernelObservationContext (pendingKernelObservations es s))"
  shows "distinct ids" and "set ids \<subseteq> ev_EventID ` {e \<in> set es. pending_event es s e}" and "\<forall>i \<in> set ids. TrimSpace i = i \<and> i \<noteq> []"
proof -
  obtain shown where ids: "ids = concat (map trimmed_id shown)" and sub: "subseq shown (pendingKernelObservations es s)"
    using kernelObservationContext_ids unfolding ids_def by blast
  note log = log_ids [OF assms(1)]
  have pend: "ko_EventID ` set (pendingKernelObservations es s) = ev_EventID ` {e \<in> set es. pending_event es s e}"
    using arg_cong [OF pending_ids [OF assms(2,3), of es], of set] by auto
  have "set shown \<subseteq> set (pendingKernelObservations es s)" using sub by (auto elim: list_emb_set)
  then have "ko_EventID ` set shown \<subseteq> ev_EventID ` {e \<in> set es. pending_event es s e}" using pend by blast
  moreover from this have "\<forall>obs \<in> set shown. trimmed_id obs = [ko_EventID obs]" using log by (auto simp: trimmed_id_def)
  then have m: "ids = map ko_EventID shown" unfolding ids by (induction shown) auto
  ultimately show sub': "set ids \<subseteq> ev_EventID ` {e \<in> set es. pending_event es s e}" by simp
  show "\<forall>i \<in> set ids. TrimSpace i = i \<and> i \<noteq> []"
  proof
    fix i assume "i \<in> set ids"
    with sub' have "i \<in> ev_EventID ` {e \<in> set es. pending_event es s e}" by (rule subsetD)
    then obtain e where "e \<in> set es" "i = ev_EventID e" by blast
    with log show "TrimSpace i = i \<and> i \<noteq> []" by simp
  qed
  have "distinct (map ko_EventID (pendingKernelObservations es s))"
    unfolding pending_ids [OF assms(2,3)] using log by (simp add: distinct_map_filter)
  then show "distinct ids" unfolding m using subseq_map [OF sub, of ko_EventID] by (metis subseq_conv_nths distinct_nthsI)
qed

text \<open>
  C36: the end of a job is reported to the model once. In every log of a session, with jobs that end at any moment,
  no observation is stored as delivered twice, and each delivered one is the end of a job of the session; the oldest
  pending observation is always among the next ones shown, as long as its first line and exit code take at most 167
  bytes, so that none waits for ever behind others.
\<close>

theorem observations_delivered_once:
  assumes "observation_log s es" and "TrimSpace s = s" and "s \<noteq> []"
  shows "distinct (deliveredKernelObservationIDs es s) \<and>
    (\<forall>i \<in> set (deliveredKernelObservationIDs es s). \<exists>e \<in> set es. ev_EventID e = i \<and> ev_SessionID e = s \<and> observation_of e \<noteq> None) \<and>
    (\<forall>obs rest. pendingKernelObservations es s = obs # rest \<and> observation_head obs \<le> 167 \<longrightarrow>
       ko_EventID obs \<in> set (snd (kernelObservationContext (pendingKernelObservations es s))))"
proof (intro conjI allI impI)
  show "distinct (deliveredKernelObservationIDs es s)"
    and "\<forall>i \<in> set (deliveredKernelObservationIDs es s). \<exists>e \<in> set es. ev_EventID e = i \<and> ev_SessionID e = s \<and> observation_of e \<noteq> None"
    using assms(1)
  proof (induction rule: observation_log.induct)
    case (log_other es e)
    { case 1 then show ?case using log_other by (simp add: delivered_append delivered_none) }
    { case 2 then show ?case using log_other by (auto simp: delivered_append delivered_none) }
  next
    case (log_deliver es later e turnID now i)
    let ?ids = "snd (kernelObservationContext (pendingKernelObservations es s))"
    have log: "observation_log s es" using log_deliver.hyps(1) log_prefix by blast
    note shown = shown_ids [OF log assms(2,3)]
    have d: "deliveredKernelObservationIDs ((es @ later) @ [e]) s = deliveredKernelObservationIDs es s @ ?ids"
      using log_deliver.hyps(2,3) delivered_event [OF shown(3)] by (simp add: delivered_append delivered_none)
    have old: "deliveredKernelObservationIDs (es @ later) s = deliveredKernelObservationIDs es s"
      using log_deliver.hyps(2) by (simp add: delivered_append delivered_none)
    { case 1 show ?case using log_deliver.IH(1) shown(1,2) unfolding d old by (auto simp: pending_event_def) }
    { case 2 show ?case using log_deliver.IH(2) shown(2) unfolding d old by (auto simp: pending_event_def) }
  qed (simp_all add: deliveredKernelObservationIDs_def)
next
  fix obs rest assume a: "pendingKernelObservations es s = obs # rest \<and> observation_head obs \<le> 167"
  have "ko_EventID obs \<in> set (map ev_EventID (filter (pending_event es s) es))"
    unfolding pending_ids [OF assms(2,3), symmetric] using a by simp
  then have "TrimSpace (ko_EventID obs) = ko_EventID obs" "ko_EventID obs \<noteq> []" using log_ids [OF assms(1)] by auto
  with first_observation_delivered [of obs rest] a
  show "ko_EventID obs \<in> set (snd (kernelObservationContext (pendingKernelObservations es s)))" by simp
qed

section \<open>A session sees its own log\<close>

abbreviation of_session :: "string \<Rightarrow> StoredEvent list \<Rightarrow> StoredEvent list" where
  "of_session s events \<equiv> filter (\<lambda>e. ev_SessionID e = s) events"

lemma find_filter: "(\<And>x. x \<in> set xs \<Longrightarrow> P x \<Longrightarrow> Q x) \<Longrightarrow> find P (filter Q xs) = find P xs"
  by (induction xs) auto

lemma session_events_own: "session_events s t (of_session s events) = session_events s t events"
  by (simp add: session_events_def)

lemma delivered_own: "deliveredKernelObservationIDs (of_session s events) s = deliveredKernelObservationIDs events s"
  by (induction events) (auto simp: deliveredKernelObservationIDs_def)

lemma map_filter_own: "(\<And>x. \<not> Q x \<Longrightarrow> f x = None) \<Longrightarrow> List.map_filter f (filter Q xs) = List.map_filter f xs"
  by (induction xs) (auto simp: map_filter_simps split: option.splits)

lemma pending_own: "TrimSpace s = s \<Longrightarrow> pendingKernelObservations (of_session s events) s = pendingKernelObservations events s"
  by (auto simp: pendingKernelObservations_def Let_def delivered_own intro!: map_filter_own)

lemma messages_own: "conversationMessagesForTurns (of_session s events) s ids skip = conversationMessagesForTurns events s ids skip"
proof -
  have "(\<lambda>e. ev_SessionID e = s \<and> (ev_SessionID e = s \<and> ev_TurnID e \<in> set ids)) = (\<lambda>e. ev_SessionID e = s \<and> ev_TurnID e \<in> set ids)" by auto
  then show ?thesis by (simp add: conversationMessagesForTurns_def conj_commute)
qed

lemma rounds_own:
  "(\<And>e. e \<in> set events \<Longrightarrow> ev_TurnID e = t \<Longrightarrow> Q e) \<Longrightarrow> modelToolRoundsFromStoredEvents (filter Q events) t = modelToolRoundsFromStoredEvents events t"
proof -
  assume Q: "\<And>e. e \<in> set events \<Longrightarrow> ev_TurnID e = t \<Longrightarrow> Q e"
  have "foldl (round_step t) st (filter Q es) = foldl (round_step t) st es" if "\<And>e. e \<in> set es \<Longrightarrow> ev_TurnID e = t \<Longrightarrow> Q e" for st es
    using that by (induction es arbitrary: st) (auto simp: round_step_def)
  from this [of events] Q show ?thesis by (simp add: modelToolRoundsFromStoredEvents_def)
qed

lemma history_own:
  assumes "TrimSpace s = s"
  shows "sameSessionConversationHistoryProjection (of_session s events) s t = sameSessionConversationHistoryProjection events s t"
    and "latestSessionContextCompaction (of_session s events) s t = latestSessionContextCompaction events s t"
proof -
  show c: "latestSessionContextCompaction (of_session s events) s t = latestSessionContextCompaction events s t"
    by (simp add: latestSessionContextCompaction_def assms session_events_own)
  have "sameSessionCompletedConversationTurns (of_session s events) s t = sameSessionCompletedConversationTurns events s t"
    by (simp add: sameSessionCompletedConversationTurns_def assms session_events_own)
  then show "sameSessionConversationHistoryProjection (of_session s events) s t = sameSessionConversationHistoryProjection events s t"
    by (simp add: sameSessionConversationHistoryProjection_def c)
qed

text \<open>
  C37: a step of the model sees nothing of another session. When the events of a turn belong to one session, the
  context of a step of the turn (history, summary, observations, conversation, tool rounds and fingerprint) is what the
  log of that session alone gives.
\<close>

theorem model_context_isolated:
  assumes "\<forall>e \<in> set events. ev_TurnID e = turnID \<longrightarrow> ev_SessionID e = s" and "TrimSpace s = s"
  shows "providerContextProjectionFromStoredEvents env events turnID =
    providerContextProjectionFromStoredEvents env (filter (\<lambda>e. ev_SessionID e = s) events) turnID"
proof -
  let ?P = "\<lambda>e. ev_TurnID e = turnID \<and> ev_Type e = ''turn.submitted''"
  have f: "find ?P (of_session s events) = find ?P events" using assms(1) by (intro find_filter) auto
  show ?thesis
  proof (cases "find ?P events")
    case None
    with f show ?thesis by (simp add: providerContextProjectionFromStoredEvents_def)
  next
    case (Some e)
    then have s: "ev_SessionID e = s" using assms(1) by (auto dest: find_SomeD)
    have rounds: "modelToolRoundsFromStoredEvents (of_session s events) turnID = modelToolRoundsFromStoredEvents events turnID"
      using assms(1) by (intro rounds_own) simp
    show ?thesis
      unfolding providerContextProjectionFromStoredEvents_def f Some option.case Let_def s
      by (simp add: history_own [OF assms(2)] pending_own [OF assms(2)] messages_own rounds modelConversationMessagesFromStoredEvents_def)
  qed
qed

section \<open>Samples\<close>

definition sample_context_env :: context_env where
  "sample_context_env = \<lparr>cx_material = (\<lambda>_. \<lparr>sb_SkillCatalog = [], sb_HydratedFragments = [], sb_SourceSnapshots = [], sb_ToolManifest = []\<rparr>),
     cx_identity = ''p'', cx_digest = (\<lambda>s. s), cx_digestTools = (\<lambda>_. []), cx_digestParts = concat, cx_skillIndexChars = 1200\<rparr>"

definition sample_submitted :: "string \<Rightarrow> string \<Rightarrow> StoredEvent" where
  "sample_submitted s t = no_event\<lparr>ev_EventID := ''e_'' @ t, ev_SessionID := s, ev_TurnID := t, ev_Type := ''turn.submitted'',
     ev_Data := no_data\<lparr>ed_InputItems := [\<lparr>ii_Type = ''text'', ii_Text = ''hello''\<rparr>]\<rparr>\<rparr>"

theorem model_context_isolated_witness:
  "\<exists>context. providerContextProjectionFromStoredEvents sample_context_env [sample_submitted ''s1'' ''t1'', sample_submitted ''s2'' ''t2''] ''t2'' = Some context \<and>
     providerContextProjectionFromStoredEvents sample_context_env [sample_submitted ''s2'' ''t2''] ''t2'' = Some context"
proof -
  let ?es = "[sample_submitted ''s1'' ''t1'', sample_submitted ''s2'' ''t2'']"
  have "\<forall>e \<in> set ?es. ev_TurnID e = ''t2'' \<longrightarrow> ev_SessionID e = ''s2''" by (simp add: sample_submitted_def)
  moreover have "TrimSpace ''s2'' = ''s2''" by code_simp
  ultimately have "providerContextProjectionFromStoredEvents sample_context_env ?es ''t2'' =
      providerContextProjectionFromStoredEvents sample_context_env (filter (\<lambda>e. ev_SessionID e = ''s2'') ?es) ''t2''"
    by (rule model_context_isolated)
  moreover have "filter (\<lambda>e. ev_SessionID e = ''s2'') ?es = [sample_submitted ''s2'' ''t2'']" by (simp add: sample_submitted_def)
  moreover have "providerContextProjectionFromStoredEvents sample_context_env ?es ''t2'' \<noteq> None"
    by (simp add: providerContextProjectionFromStoredEvents_def sample_submitted_def Let_def case_prod_unfold)
  ultimately show ?thesis by auto
qed

definition sample_ended :: "string \<Rightarrow> string \<Rightarrow> StoredEvent" where
  "sample_ended i jobID = no_event\<lparr>ev_EventID := i, ev_SessionID := ''s1'', ev_JobID := jobID, ev_Type := ''job.completed'',
     ev_Data := no_data\<lparr>ed_Job := Some \<lparr>jb_JobID = jobID, jb_SessionID = ''s1'', jb_TurnID = ''t1'', jb_Tool = ''shell'', jb_IdempotencyKey = [], jb_SourceOperationID = [],
       jb_ExecutorRef = [], jb_Status = ''completed'', jb_CWD = [], jb_Command = [], jb_TimeoutSec = 0, jb_ExitCode = Some 0, jb_Stdout = ''done'', jb_Stderr = [],
       jb_StdoutTruncated = False, jb_StderrTruncated = False, jb_Receipt = [], jb_FailureReason = [], jb_CancelReason = [], jb_StartedAt = 0, jb_CompletedAt = 1,
       jb_ToolCallEventID = []\<rparr>\<rparr>\<rparr>"

definition sample_observed :: "StoredEvent list" where
  "sample_observed = ([sample_ended ''e1'' ''j1''] @ [sample_ended ''e2'' ''j2'']) @
     [delivery_event ''s1'' ''t1'' (snd (kernelObservationContext (pendingKernelObservations [sample_ended ''e1'' ''j1''] ''s1''))) 5 ''e3'']"

theorem observations_delivered_once_witness:
  "deliveredKernelObservationIDs sample_observed ''s1'' = [''e1''] \<and> distinct (deliveredKernelObservationIDs sample_observed ''s1'') \<and>
     map ko_EventID (pendingKernelObservations sample_observed ''s1'') = [''e2''] \<and>
     ''e2'' \<in> set (snd (kernelObservationContext (pendingKernelObservations sample_observed ''s1'')))"
proof -
  have e: "TrimSpace ''e1'' = ''e1''" "TrimSpace ''e2'' = ''e2''" "TrimSpace ''e3'' = ''e3''" "TrimSpace ''s1'' = ''s1''" by code_simp+
  have "observation_log ''s1'' ([] @ [sample_ended ''e1'' ''j1''])"
    by (rule log_other [OF log_empty]) (simp_all add: sample_ended_def delivers_def e)
  then have "observation_log ''s1'' ([sample_ended ''e1'' ''j1''] @ [sample_ended ''e2'' ''j2''])"
    by (intro log_other) (simp_all add: sample_ended_def delivers_def e)
  then have log: "observation_log ''s1'' sample_observed"
    unfolding sample_observed_def by (rule log_deliver [OF _ _ HOL.refl]) (simp_all add: sample_ended_def delivers_def e)
  have pend: "map ko_EventID (pendingKernelObservations sample_observed ''s1'') = [''e2'']" by code_simp
  have head: "observation_head (hd (pendingKernelObservations sample_observed ''s1'')) \<le> 167" by code_simp
  have del: "deliveredKernelObservationIDs sample_observed ''s1'' = [''e1'']" by code_simp
  obtain obs where obs: "pendingKernelObservations sample_observed ''s1'' = [obs]" "ko_EventID obs = ''e2''" using pend by (cases "pendingKernelObservations sample_observed ''s1''") auto
  from observations_delivered_once [OF log e(4)] obs head have "ko_EventID obs \<in> set (snd (kernelObservationContext (pendingKernelObservations sample_observed ''s1'')))"
    "distinct (deliveredKernelObservationIDs sample_observed ''s1'')" by simp_all
  with obs pend del show ?thesis by simp
qed

end
