(* ===== verification/Context_Compaction.thy ===== *)
theory Context_Compaction
  imports Model_Context Complex_Main
begin

text \<open>
  The compaction of a session's context (\<^verbatim>\<open>context_compaction.go\<close>, \<^verbatim>\<open>context_compaction_control.go\<close>): when
  the input of the model comes near its window, the older turns of the session are replaced by a summary the model
  writes. The theorems say that no turn is lost or summarized twice, which turns are kept verbatim, when a
  compaction is put off, and where the code keeps fewer turns than it promises.
\<close>

section \<open>Policy\<close>

text \<open>
  The ratio of the policy is a \<open>float64\<close>, that is, a rational number; \<open>cm_round64\<close> is the rounding of the
  language's product of two of them. \<open>cm_text\<close> is the text of an error, and \<open>cm_complete\<close> the provider
  that summarizes, with the text of its error.
\<close>

record ContextPolicy =
  cp_ContextWindowTokens :: int
  cp_AutoCompactRatio :: rat
  cp_RecentTurnLimit :: int
  cp_RecentTailTokens :: int
  cp_SkillIndexChars :: int
  cp_RetryBackoffTurns :: int

record compaction_env =
  cm_policy :: ContextPolicy
  cm_round64 :: "rat \<Rightarrow> rat"
  cm_text :: "go_error \<Rightarrow> string"
  cm_complete :: "ModelRequest \<Rightarrow> string + ModelResponse"

abbreviation (input) defaultRecentTurnLimit :: int where "defaultRecentTurnLimit \<equiv> 2"
abbreviation (input) defaultSkillIndexChars :: int where "defaultSkillIndexChars \<equiv> 1200"
abbreviation (input) defaultCompactionBackoffTurns :: int where "defaultCompactionBackoffTurns \<equiv> 1"
abbreviation contextCompactionTriggerAuto :: string where "contextCompactionTriggerAuto \<equiv> ''auto''"
abbreviation contextCompactionTriggerManual :: string where "contextCompactionTriggerManual \<equiv> ''manual''"
abbreviation contextCompactionDeferredReasonStuckWindow :: string where "contextCompactionDeferredReasonStuckWindow \<equiv> ''auto_compaction_stuck_window''"

definition normalizedContextPolicy :: "(rat \<Rightarrow> rat) \<Rightarrow> ContextPolicy \<Rightarrow> ContextPolicy" where
  "normalizedContextPolicy round64 policy =
     (let chars = cp_SkillIndexChars policy;
          policy = policy\<lparr>cp_SkillIndexChars := (if chars = 0 then defaultSkillIndexChars else if chars < 0 then 0 else chars)\<rparr>
      in if cp_ContextWindowTokens policy \<le> 0 then policy\<lparr>cp_ContextWindowTokens := 0\<rparr>
         else
           let ratio = (if cp_AutoCompactRatio policy \<le> 0 then round64 (4 / 5) else cp_AutoCompactRatio policy)
           in policy\<lparr>cp_AutoCompactRatio := (if ratio > 1 then 1 else ratio),
                cp_RecentTurnLimit := (if cp_RecentTurnLimit policy \<le> 0 then defaultRecentTurnLimit else cp_RecentTurnLimit policy),
                cp_RecentTailTokens := (if cp_RecentTailTokens policy < 0 then 0 else cp_RecentTailTokens policy),
                cp_RetryBackoffTurns := (if cp_RetryBackoffTurns policy \<le> 0 then defaultCompactionBackoffTurns else cp_RetryBackoffTurns policy)\<rparr>)"

definition autoCompactLimit :: "(rat \<Rightarrow> rat) \<Rightarrow> ContextPolicy \<Rightarrow> int" where
  "autoCompactLimit round64 p =
     (if cp_ContextWindowTokens p \<le> 0 \<or> cp_AutoCompactRatio p \<le> 0 then 0
      else let limit = \<lfloor>round64 (of_int (cp_ContextWindowTokens p) * cp_AutoCompactRatio p)\<rfloor> in if limit \<le> 0 then 1 else limit)"

section \<open>Which turns are compacted\<close>

definition modelContextAccountingByTurn :: "StoredEvent list \<Rightarrow> string \<Rightarrow> ModelContextAccountingProjection go_map" where
  "modelContextAccountingByTurn events sessionID =
     (let sessionID = TrimSpace sessionID
      in if sessionID = [] then []
         else fold (\<lambda>event m.
           if ev_SessionID event \<noteq> sessionID \<or> ev_Type event \<noteq> ''model.context.accounted'' then m
           else case ed_ModelContextAccounting (ev_Data event) of None \<Rightarrow> m | Some accounting \<Rightarrow> go_store (ev_TurnID event) accounting m) events [])"

text \<open>
  The loop from the last turn to the first: \<open>Inl\<close> is the early return out of it. A turn without accounting
  counts like one without processed tokens.
\<close>

definition processed_tokens :: "ModelContextAccountingProjection go_map \<Rightarrow> conversationHistoryTurn \<Rightarrow> int" where
  "processed_tokens accountingByTurn turn =
     (case go_lookup accountingByTurn (ct_TurnID turn) of None \<Rightarrow> 0 | Some accounting \<Rightarrow> ma_ProcessedInputTokens accounting)"

fun region_loop ::
  "conversationHistoryTurn list \<Rightarrow> int \<Rightarrow> int \<Rightarrow> ModelContextAccountingProjection go_map \<Rightarrow> nat \<Rightarrow> int \<Rightarrow> int \<Rightarrow> int \<Rightarrow> int + int" where
  "region_loop turns lowest tokenBudget accountingByTurn 0 used kept regionEnd = Inr regionEnd"
| "region_loop turns lowest tokenBudget accountingByTurn (Suc index) used kept regionEnd =
     (let tokens = processed_tokens accountingByTurn (turns ! index)
      in if tokens \<le> 0 then (if kept \<ge> lowest then Inr regionEnd else Inl regionEnd)
         else if kept \<ge> lowest \<and> used + tokens > tokenBudget then Inr regionEnd
         else region_loop turns lowest tokenBudget accountingByTurn index (used + tokens) (kept + 1) (int index))"

definition compactionRegionEndByProviderAccounting ::
  "conversationHistoryTurn list \<Rightarrow> int \<Rightarrow> int \<Rightarrow> ModelContextAccountingProjection go_map \<Rightarrow> int" where
  "compactionRegionEndByProviderAccounting turns lowest tokenBudget accountingByTurn =
     (let n = int (length turns); regionEnd = n - lowest
      in if tokenBudget \<le> 0 \<or> accountingByTurn = [] then regionEnd
         else case region_loop turns lowest tokenBudget accountingByTurn (length turns) 0 0 regionEnd of
             Inl regionEnd \<Rightarrow> regionEnd
           | Inr regionEnd \<Rightarrow> if n - regionEnd < lowest then n - lowest else regionEnd)"

definition compactionRegion ::
  "conversationHistoryTurn list \<Rightarrow> ContextPolicy \<Rightarrow> ModelContextAccountingProjection go_map \<Rightarrow> conversationHistoryTurn list" where
  "compactionRegion turns policy accountingByTurn =
     (if turns = [] then []
      else
        let lowest = (if cp_RecentTurnLimit policy \<le> 0 then defaultRecentTurnLimit else cp_RecentTurnLimit policy);
            regionEnd = (if cp_RecentTailTokens policy > 0
              then compactionRegionEndByProviderAccounting turns lowest (cp_RecentTailTokens policy) accountingByTurn
              else int (length turns) - lowest)
        in if int (length turns) \<le> lowest then []
           else if regionEnd \<le> 0 then [] else take (nat regionEnd) turns)"

section \<open>Cache stability\<close>

text \<open>The division of the language truncates towards zero.\<close>

definition go_quot :: "int \<Rightarrow> int \<Rightarrow> int" where
  "go_quot a b = (if a < 0 then - ((- a) div b) else a div b)"

definition cacheHitRatePermille :: "int \<Rightarrow> int \<Rightarrow> int" where
  "cacheHitRatePermille hitTokens missTokens =
     (let total = hitTokens + missTokens in if total \<le> 0 then 0 else go_quot (hitTokens * 1000) total)"

definition cacheTrend :: "int \<Rightarrow> int \<Rightarrow> nat \<Rightarrow> string" where
  "cacheTrend firstPermille latestPermille samples =
     (if samples < 2 then ''unknown''
      else if latestPermille - firstPermille \<ge> 50 then ''warming''
      else if firstPermille - latestPermille \<ge> 50 then ''cooling''
      else ''stable'')"

definition cache_sample :: "ModelContextAccountingProjection go_map \<Rightarrow> conversationHistoryTurn \<Rightarrow> TokenUsage option" where
  "cache_sample accountingByTurn turn =
     (case go_lookup accountingByTurn (ct_TurnID turn) of
        None \<Rightarrow> None
      | Some accounting \<Rightarrow>
          (case ma_Usage accounting of
             None \<Rightarrow> None
           | Some usage \<Rightarrow> if us_CacheHitTokens usage = 0 \<and> us_CacheMissTokens usage = 0 then None else Some usage))"

definition contextCacheStability ::
  "conversationHistoryTurn list \<Rightarrow> ModelContextAccountingProjection go_map \<Rightarrow> ContextCacheStabilityProjection option" where
  "contextCacheStability region accountingByTurn =
     (let samples = List.map_filter (cache_sample accountingByTurn) region
      in if region = [] \<or> accountingByTurn = [] \<or> samples = [] then None
         else
           let earliest = hd samples; newest = last samples;
               hits = sum_list (map us_CacheHitTokens samples); misses = sum_list (map us_CacheMissTokens samples);
               firstRate = cacheHitRatePermille (us_CacheHitTokens earliest) (us_CacheMissTokens earliest);
               latestRate = cacheHitRatePermille (us_CacheHitTokens newest) (us_CacheMissTokens newest)
           in Some \<lparr>cs_Samples = int (length samples), cs_CacheHitTokens = hits, cs_CacheMissTokens = misses,
                cs_HitRatePermille = cacheHitRatePermille hits misses, cs_FirstHitRatePermille = firstRate, cs_LatestHitRatePermille = latestRate,
                cs_LatestCacheHitTokens = us_CacheHitTokens newest, cs_LatestCacheMissTokens = us_CacheMissTokens newest,
                cs_Trend = cacheTrend firstRate latestRate (length samples)\<rparr>)"

section \<open>When a compaction is put off\<close>

definition compaction_event :: "string \<Rightarrow> string \<Rightarrow> StoredEvent \<Rightarrow> bool" where
  "compaction_event sessionID ty event \<longleftrightarrow> ev_SessionID event = sessionID \<and> ev_Type event = ty \<and> ed_ContextCompaction (ev_Data event) \<noteq> None"

definition compaction_of :: "StoredEvent \<Rightarrow> ContextCompactionProjection" where
  "compaction_of event = (case ed_ContextCompaction (ev_Data event) of Some c \<Rightarrow> c | None \<Rightarrow> no_compaction)"

text \<open>The last failure among the events after the last completion of the session.\<close>

definition latestContextCompactionFailureAfterCompletion :: "StoredEvent list \<Rightarrow> string \<Rightarrow> (string \<times> ContextCompactionProjection) option" where
  "latestContextCompactionFailureAfterCompletion events sessionID =
     (let sessionID = TrimSpace sessionID
      in if sessionID = [] then None
         else map_option (\<lambda>event. (TrimSpace (ev_TurnID event), compaction_of event))
           (find (compaction_event sessionID ''context.compaction.failed'')
             (takeWhile (\<lambda>event. \<not> (ev_SessionID event = sessionID \<and> ev_Type event = ''context.compaction.completed'')) (rev events))))"

definition completedTurnsAfter :: "conversationHistoryTurn list \<Rightarrow> string \<Rightarrow> int" where
  "completedTurnsAfter turns turnID =
     (let turnID = TrimSpace turnID
      in if turnID = [] then 0 else case turns_after turnID turns of Some rest \<Rightarrow> int (length rest) | None \<Rightarrow> 0)"

definition contextCompactionBackoff ::
  "StoredEvent list \<Rightarrow> string \<Rightarrow> string \<Rightarrow> int \<Rightarrow> TokenUsage option \<Rightarrow> ContextCacheStabilityProjection option \<Rightarrow> ContextPolicy \<Rightarrow> ContextCompactionProjection option" where
  "contextCompactionBackoff events sessionID trigger sourceInputTokens sourceUsage cacheStability policy =
     (let backoff = cp_RetryBackoffTurns policy
      in if backoff \<le> 0 then None
         else case latestContextCompactionFailureAfterCompletion events sessionID of
             None \<Rightarrow> None
           | Some (turnID, failure) \<Rightarrow>
               let completedAfterFailure = completedTurnsAfter (sameSessionCompletedConversationTurns events sessionID []) turnID;
                   reason = TrimSpace (cc_FailureReason failure);
                   remaining = backoff + 1 - completedAfterFailure
               in if completedAfterFailure > backoff then None
                  else Some (no_compaction\<lparr>cc_Trigger := trigger, cc_Status := ''deferred'', cc_SourceInputTokens := sourceInputTokens,
                    cc_SourceUsage := sourceUsage, cc_CacheStability := cacheStability,
                    cc_PreviousFailureReason := (if reason = [] then ''failed'' else reason),
                    cc_RetryAfterCompletedTurns := backoff, cc_BackoffRemainingTurns := (if remaining < 1 then 1 else remaining)\<rparr>))"

definition completedTurnIndexByID :: "conversationHistoryTurn list \<Rightarrow> int go_map" where
  "completedTurnIndexByID turns =
     fold (\<lambda>(i, turn) m. if ct_TurnID turn \<noteq> [] then go_store (ct_TurnID turn) (int i) m else m) (enumerate 0 turns) []"

fun consecutive_loop :: "StoredEvent list \<Rightarrow> string \<Rightarrow> int \<Rightarrow> int go_map \<Rightarrow> int \<Rightarrow> int \<Rightarrow> int" where
  "consecutive_loop [] sessionID autoLimit turnIndex nextExpected found = found"
| "consecutive_loop (event # rest) sessionID autoLimit turnIndex nextExpected found =
     (if \<not> compaction_event sessionID ''context.compaction.completed'' event \<or> cc_Trigger (compaction_of event) \<noteq> contextCompactionTriggerAuto \<or>
         cc_SourceInputTokens (compaction_of event) < autoLimit
      then consecutive_loop rest sessionID autoLimit turnIndex nextExpected found
      else if go_lookup turnIndex (TrimSpace (ev_TurnID event)) \<noteq> Some nextExpected then found
      else consecutive_loop rest sessionID autoLimit turnIndex (nextExpected - 1) (found + 1))"

definition consecutiveCompletedAutoCompactionsBefore :: "StoredEvent list \<Rightarrow> string \<Rightarrow> int \<Rightarrow> int \<Rightarrow> int go_map \<Rightarrow> int" where
  "consecutiveCompletedAutoCompactionsBefore events sessionID currentTurnIndex autoLimit turnIndex =
     consecutive_loop (rev events) sessionID autoLimit turnIndex (currentTurnIndex - 1) 0"

definition previousTurnDeferredAutoCompactionStuck :: "StoredEvent list \<Rightarrow> string \<Rightarrow> int \<Rightarrow> int go_map \<Rightarrow> bool" where
  "previousTurnDeferredAutoCompactionStuck events sessionID currentTurnIndex turnIndex \<longleftrightarrow>
     (let previousIndex = currentTurnIndex - 1
      in if previousIndex < 0 then False
         else case find (\<lambda>event. compaction_event sessionID ''context.compaction.deferred'' event \<and>
                cc_Trigger (compaction_of event) = contextCompactionTriggerAuto \<and>
                cc_DeferredReason (compaction_of event) = contextCompactionDeferredReasonStuckWindow) (rev events) of
             None \<Rightarrow> False
           | Some event \<Rightarrow> go_lookup turnIndex (TrimSpace (ev_TurnID event)) = Some previousIndex)"

definition contextCompactionStuckGuard ::
  "(rat \<Rightarrow> rat) \<Rightarrow> StoredEvent list \<Rightarrow> string \<Rightarrow> string \<Rightarrow> string \<Rightarrow> int \<Rightarrow> TokenUsage option \<Rightarrow> ContextCacheStabilityProjection option \<Rightarrow> ContextPolicy \<Rightarrow>
     ContextCompactionProjection option" where
  "contextCompactionStuckGuard round64 events sessionID trigger triggeringTurnID sourceInputTokens sourceUsage cacheStability policy =
     (let limit = autoCompactLimit round64 policy;
          turnIndex = completedTurnIndexByID (sameSessionCompletedConversationTurns events sessionID [])
      in if trigger \<noteq> contextCompactionTriggerAuto \<or> limit \<le> 0 \<or> sourceInputTokens < limit then None
         else case go_lookup turnIndex (TrimSpace triggeringTurnID) of
             None \<Rightarrow> None
           | Some currentIndex \<Rightarrow>
               let n = consecutiveCompletedAutoCompactionsBefore events sessionID currentIndex limit turnIndex
               in if n < 2 \<and> \<not> previousTurnDeferredAutoCompactionStuck events sessionID currentIndex turnIndex then None
                  else Some (no_compaction\<lparr>cc_Trigger := trigger, cc_Status := ''deferred'',
                    cc_DeferredReason := contextCompactionDeferredReasonStuckWindow, cc_SourceInputTokens := sourceInputTokens,
                    cc_SourceUsage := sourceUsage, cc_CacheStability := cacheStability,
                    cc_ConsecutiveCompletedCompactions := (if n < 2 then 2 else n)\<rparr>))"

section \<open>The source of a summary\<close>

definition call_lines :: "conversationToolExchange \<Rightarrow> string" where
  "call_lines exchange =
     (let tool = (if TrimSpace (ce_Tool exchange) = [] then ''unknown'' else TrimSpace (ce_Tool exchange)); arguments = TrimSpace (ce_Arguments exchange)
      in join_with [CHR 0x0A] ([''[tool call]'', ''tool: '' @ tool] @ (if arguments \<noteq> [] then [''arguments: '' @ arguments] else [])))"

definition result_lines :: "conversationToolExchange \<Rightarrow> string" where
  "result_lines exchange =
     (let status = TrimSpace (ce_ResultStatus exchange); content = TrimSpace (ce_ResultContent exchange)
      in join_with [CHR 0x0A] ([''[tool result]''] @ (if status \<noteq> [] then [''status: '' @ status] else []) @ (if content \<noteq> [] then [content] else [])))"

definition transcript_lines :: "conversationHistoryTurn \<Rightarrow> string list" where
  "transcript_lines turn =
     (let userText = TrimSpace (ct_UserText turn); assistantText = TrimSpace (ct_AssistantText turn)
      in (if userText \<noteq> [] then [''[user]'' @ [CHR 0x0A] @ userText] else []) @
         concat (map (\<lambda>exchange. [call_lines exchange, result_lines exchange]) (ct_ToolExchanges turn)) @
         (if assistantText \<noteq> [] then [''[assistant]'' @ [CHR 0x0A] @ assistantText] else []))"

definition compactionSourceTranscript :: "string \<Rightarrow> conversationHistoryTurn list \<Rightarrow> string" where
  "compactionSourceTranscript previousSummary turns =
     (let summary = TrimSpace previousSummary
      in join_with blank_line ((if summary \<noteq> [] then [''Previous summary:'', summary, []] else []) @ concat (map transcript_lines turns)))"

definition contextCompactionPrompt :: string where
  "contextCompactionPrompt = ''You are compacting the earlier part of an assistant conversation to save context.'' @ [CHR 0x0A] @
     ''The assistant will keep only your summary plus recent turns. Preserve concrete user preferences, facts, decisions, constraints, file paths, commands, errors, and pending next steps. Do not invent facts. Be concise.''"

definition summary_request :: "string \<Rightarrow> ModelRequest" where
  "summary_request transcript =
     \<lparr>mq_SessionID = [], mq_TurnID = [], mq_InputItems = [\<lparr>mi_Kind = ''context_compaction_source'',
        mi_Text = contextCompactionPrompt @ blank_line @ ''Transcript:'' @ [CHR 0x0A] @ TrimSpace transcript\<rparr>],
      mq_Conversation = [], mq_ToolManifest = [], mq_ToolRounds = [], mq_PrefixFingerprint = []\<rparr>"

definition summarizeContextWithProvider :: "compaction_env \<Rightarrow> string \<Rightarrow> string + ModelResponse" where
  "summarizeContextWithProvider env transcript = cm_complete env (summary_request transcript)"

section \<open>A compaction\<close>

record ContextCompactionCommand =
  xc_SessionID :: string
  xc_TriggeringTurnID :: string
  xc_Trigger :: string
  xc_SourceInputTokens :: int
  xc_SourceUsage :: "TokenUsage option"

definition compaction_log_event :: "string \<Rightarrow> string \<Rightarrow> string \<Rightarrow> ContextCompactionProjection \<Rightarrow> time \<Rightarrow> string \<Rightarrow> StoredEvent" where
  "compaction_log_event ty sessionID turnID projection =
     turn_event ty (TrimSpace sessionID) (TrimSpace turnID) (no_data\<lparr>ed_ContextCompaction := Some projection\<rparr>)"

definition appendContextCompactionEvent :: "string \<Rightarrow> string \<Rightarrow> ContextCompactionProjection \<Rightarrow> kernel \<Rightarrow> go_error option \<times> kernel" where
  "appendContextCompactionEvent sessionID turnID projection =
     append_turn_event (compaction_log_event (''context.compaction.'' @ TrimSpace (cc_Status projection)) sessionID turnID projection)"

definition appendContextCompactionFailed ::
  "ContextPolicy \<Rightarrow> string \<Rightarrow> string \<Rightarrow> ContextCompactionProjection \<Rightarrow> string \<Rightarrow> kernel \<Rightarrow> kernel" where
  "appendContextCompactionFailed policy sessionID turnID started reason k =
     snd (append_turn_event (compaction_log_event ''context.compaction.failed'' sessionID turnID
       (started\<lparr>cc_Status := ''failed'', cc_Summary := [], cc_FailureReason := TrimSpace reason,
          cc_RetryAfterCompletedTurns := (if cc_RetryAfterCompletedTurns started \<le> 0 then cp_RetryBackoffTurns policy else cc_RetryAfterCompletedTurns started)\<rparr>)) k)"

text \<open>A compaction that waits for the summary: what it stored, the turns it summarizes and the source it sent.\<close>

record compaction_run =
  cr_SessionID :: string
  cr_TurnID :: string
  cr_Started :: ContextCompactionProjection
  cr_Region :: "conversationHistoryTurn list"
  cr_Source :: string

definition started_projection ::
  "ContextPolicy \<Rightarrow> string \<Rightarrow> ContextCompactionCommand \<Rightarrow> TokenUsage option \<Rightarrow> ContextCacheStabilityProjection option \<Rightarrow> conversationHistoryTurn list \<Rightarrow> ContextCompactionProjection" where
  "started_projection policy trigger command sourceUsage cacheStability region =
     no_compaction\<lparr>cc_Trigger := trigger, cc_Status := ''running'', cc_CompactedThroughTurnID := ct_TurnID (last region),
       cc_CompactedTurnCount := int (length region), cc_SourceInputTokens := xc_SourceInputTokens command, cc_SourceUsage := sourceUsage,
       cc_CacheStability := cacheStability, cc_RetryAfterCompletedTurns := cp_RetryBackoffTurns policy\<rparr>"

text \<open>The turns a compaction would summarize, and why it is put off, if it is.\<close>

definition compaction_turns :: "ContextPolicy \<Rightarrow> StoredEvent list \<Rightarrow> string \<Rightarrow> conversationHistoryTurn list" where
  "compaction_turns policy events sessionID =
     compactionRegion (turnsAfterCompactedTurn (sameSessionCompletedConversationTurns events sessionID [])
         (cc_CompactedThroughTurnID (latestSessionContextCompaction events sessionID [])))
       policy (modelContextAccountingByTurn events sessionID)"

definition compaction_deferred ::
  "compaction_env \<Rightarrow> StoredEvent list \<Rightarrow> string \<Rightarrow> string \<Rightarrow> string \<Rightarrow> int \<Rightarrow> TokenUsage option \<Rightarrow> ContextCacheStabilityProjection option \<Rightarrow> ContextCompactionProjection option" where
  "compaction_deferred env events sessionID trigger turnID tokens usage stability =
     (case contextCompactionBackoff events sessionID trigger tokens usage stability (cm_policy env) of
        Some projection \<Rightarrow> Some projection
      | None \<Rightarrow> contextCompactionStuckGuard (cm_round64 env) events sessionID trigger turnID tokens usage stability (cm_policy env))"

definition begin_compaction :: "compaction_env \<Rightarrow> ContextCompactionCommand \<Rightarrow> kernel \<Rightarrow> compaction_run option \<times> kernel" where
  "begin_compaction env command k =
     (let sessionID = TrimSpace (xc_SessionID command); turnID = TrimSpace (xc_TriggeringTurnID command);
          trigger = (if TrimSpace (xc_Trigger command) = [] then contextCompactionTriggerAuto else TrimSpace (xc_Trigger command));
          tokens = xc_SourceInputTokens command
      in case loadEvents k of
           Inl _ \<Rightarrow> (None, k)
         | Inr events \<Rightarrow>
             let region = compaction_turns (cm_policy env) events sessionID;
                 stability = contextCacheStability region (modelContextAccountingByTurn events sessionID);
                 usage = (case xc_SourceUsage command of
                     Some usage \<Rightarrow> Some usage
                   | None \<Rightarrow> if tokens > 0 then Some \<lparr>us_InputTokens = tokens, us_OutputTokens = 0, us_TotalTokens = 0,
                       us_CacheHitTokens = 0, us_CacheMissTokens = 0\<rparr> else None)
             in if region = [] then (None, k)
                else case compaction_deferred env events sessionID trigger turnID tokens usage stability of
                    Some projection \<Rightarrow> (None, snd (appendContextCompactionEvent sessionID turnID projection k))
                  | None \<Rightarrow>
                      let started = started_projection (cm_policy env) trigger command usage stability region
                      in (case append_turn_event (compaction_log_event ''context.compaction.started'' sessionID turnID started) k of
                            (Some _, k) \<Rightarrow> (None, k)
                          | (None, k) \<Rightarrow>
                              (Some \<lparr>cr_SessionID = sessionID, cr_TurnID = turnID, cr_Started = started, cr_Region = region,
                                 cr_Source = compactionSourceTranscript (cc_Summary (latestSessionContextCompaction events sessionID [])) region\<rparr>, k)))"

text \<open>The end of a compaction; the first component says whether a summary was stored.\<close>

definition finish_compaction :: "compaction_env \<Rightarrow> compaction_run \<Rightarrow> string + ModelResponse \<Rightarrow> kernel \<Rightarrow> bool \<times> kernel" where
  "finish_compaction env run response k =
     (let fail = appendContextCompactionFailed (cm_policy env) (cr_SessionID run) (cr_TurnID run) (cr_Started run)
      in case response of
           Inl err \<Rightarrow> (False, fail err k)
         | Inr response \<Rightarrow>
             if TrimSpace (ms_Text response) = [] then (False, fail ''summarizer returned empty output'' k)
             else
               (case append_turn_event (compaction_log_event ''context.compaction.completed'' (cr_SessionID run) (cr_TurnID run)
                   ((cr_Started run)\<lparr>cc_Status := ''completed'', cc_Summary := TrimSpace (ms_Text response), cc_Model := ms_Model response,
                      cc_Usage := ms_Usage response\<rparr>)) k of
                  (Some err, k) \<Rightarrow> (False, fail (cm_text env err) k)
                | (None, k) \<Rightarrow> (True, k)))"

definition runContextCompaction :: "compaction_env \<Rightarrow> ContextCompactionCommand \<Rightarrow> kernel \<Rightarrow> kernel" where
  "runContextCompaction env command k =
     (case begin_compaction env command k of
        (None, k) \<Rightarrow> k
      | (Some run, k) \<Rightarrow> snd (finish_compaction env run (summarizeContextWithProvider env (cr_Source run)) k))"

definition maybeSubmitAutoContextCompaction :: "compaction_env \<Rightarrow> string \<Rightarrow> string \<Rightarrow> FinalMessage \<Rightarrow> kernel \<Rightarrow> kernel" where
  "maybeSubmitAutoContextCompaction env sessionID triggeringTurnID final k =
     (let limit = autoCompactLimit (cm_round64 env) (cm_policy env)
      in case fm_Usage final of
           None \<Rightarrow> k
         | Some usage \<Rightarrow>
             if limit \<le> 0 \<or> us_InputTokens usage < limit then k
             else runContextCompaction env \<lparr>xc_SessionID = sessionID, xc_TriggeringTurnID = triggeringTurnID,
               xc_Trigger = contextCompactionTriggerAuto, xc_SourceInputTokens = us_InputTokens usage, xc_SourceUsage = Some usage\<rparr> k)"

section \<open>A compaction on request\<close>

record ContextCompactionControlResponse =
  xr_SessionID :: string
  xr_AdmissionResult :: string
  xr_ReasonClass :: string

definition active_turn_step :: "string \<Rightarrow> StoredEvent \<Rightarrow> string list \<Rightarrow> string list" where
  "active_turn_step sessionID event active =
     (if ev_SessionID event \<noteq> sessionID \<or> TrimSpace (ev_TurnID event) = [] then active
      else if ev_Type event \<in> set [''turn.submitted'', ''turn.paused''] then List.insert (ev_TurnID event) active
      else if ev_Type event \<in> set [''model.final'', ''turn.failed'', ''assistant.interrupted''] then removeAll (ev_TurnID event) active
      else active)"

definition sessionHasActiveTurn :: "StoredEvent list \<Rightarrow> string \<Rightarrow> bool" where
  "sessionHasActiveTurn events sessionID \<longleftrightarrow>
     TrimSpace sessionID \<noteq> [] \<and> fold (active_turn_step (TrimSpace sessionID)) events [] \<noteq> []"

text \<open>The provider of a session may be missing; the reservation of the session is given back in any case.\<close>

definition CompactSessionContext ::
  "compaction_env \<Rightarrow> (string \<Rightarrow> go_error option) \<Rightarrow> string \<Rightarrow> kernel \<times> active_turns \<Rightarrow> ContextCompactionControlResponse res \<times> (kernel \<times> active_turns)" where
  "CompactSessionContext env sessionProviderForSession sessionID st =
     (let (k, a) = st; sessionID = TrimSpace sessionID;
          refused = \<lparr>xr_SessionID = sessionID, xr_AdmissionResult = ''refused'', xr_ReasonClass = ''active_turn_running''\<rparr>
      in if sessionID = [] then (Inl (errors_New ''session id is required''), (k, a))
         else case reserveActiveSessionControl sessionID ''context_compaction'' a of
             (None, a) \<Rightarrow> (Inr refused, (k, a))
           | (Some n, a) \<Rightarrow>
               let given_back = release_active n a
               in (case loadEvents k of
                     Inl err \<Rightarrow> (Inl err, (k, given_back))
                   | Inr events \<Rightarrow>
                       if sessionHasActiveTurn events sessionID then (Inr refused, (k, given_back))
                       else case sessionProviderForSession sessionID of
                           Some err \<Rightarrow> (Inl err, (k, given_back))
                         | None \<Rightarrow>
                             (Inr \<lparr>xr_SessionID = sessionID, xr_AdmissionResult = ''admitted'', xr_ReasonClass = []\<rparr>,
                              (runContextCompaction env \<lparr>xc_SessionID = sessionID, xc_TriggeringTurnID = [], xc_Trigger = contextCompactionTriggerManual,
                                 xc_SourceInputTokens = 0, xc_SourceUsage = None\<rparr> k, given_back))))"

section \<open>The turns of a growing log\<close>

definition conversation :: "string \<Rightarrow> StoredEvent list \<Rightarrow> conversation_state" where
  "conversation s rows = fold conversation_step (of_session s rows) conversation_start"

definition turns_of :: "string \<Rightarrow> StoredEvent list \<Rightarrow> conversationHistoryTurn list" where
  "turns_of s rows = sameSessionCompletedConversationTurns rows s []"

definition through :: "string \<Rightarrow> StoredEvent list \<Rightarrow> string" where
  "through s rows = cc_CompactedThroughTurnID (latestSessionContextCompaction rows s [])"

lemma session_events_all: "session_events s [] rows = of_session s rows"
  by (simp add: session_events_def)

lemma turns_of_conversation: "TrimSpace s = s \<Longrightarrow> s \<noteq> [] \<Longrightarrow> turns_of s rows = cv_turns (conversation s rows)"
  by (simp add: turns_of_def sameSessionCompletedConversationTurns_def conversation_def session_events_all)

lemma cv_turns_forget [simp]: "cv_turns (forget_turn i st) = cv_turns st"
  by (simp add: forget_turn_def)

lemma conversation_step_turns:
  "cv_turns (conversation_step e st) = cv_turns st \<or>
   (ev_Type e \<in> {''model.final'', ''turn.paused''} \<and> (\<exists>turn. ct_TurnID turn = ev_TurnID e \<and> cv_turns (conversation_step e st) = cv_turns st @ [turn]))"
proof -
  have add: "cv_turns (add_turn kept turn st) = cv_turns st @ (if kept then [turn] else [])" for kept turn by (simp add: add_turn_def)
  have i: "ct_TurnID (turn_of e msg st) = ev_TurnID e" for msg by (simp add: turn_of_def Let_def)
  show ?thesis unfolding conversation_step_def Let_def by (auto simp: add i split: option.split)
qed

text \<open>How a log grows by one event, as the compaction sees it.\<close>

lemma turns_of_snoc:
  assumes "TrimSpace s = s" and "s \<noteq> []"
  shows "turns_of s (rows @ [e]) = turns_of s rows \<or>
    (ev_SessionID e = s \<and> ev_Type e \<in> {''model.final'', ''turn.paused''} \<and> (\<exists>turn. ct_TurnID turn = ev_TurnID e \<and> turns_of s (rows @ [e]) = turns_of s rows @ [turn]))"
  using conversation_step_turns [of e "conversation s rows"] by (auto simp: turns_of_conversation [OF assms] conversation_def)

lemma through_snoc:
  assumes "TrimSpace s = s"
  shows "through s (rows @ [e]) = (if compaction_event s ''context.compaction.completed'' e then cc_CompactedThroughTurnID (compaction_of e) else through s rows)"
  unfolding through_def latestSessionContextCompaction_def assms TrimSpace_Nil session_events_all
  by (auto simp: compaction_step_def compaction_event_def compaction_of_def split: option.splits)

lemma turns_after_append: "turns_after i (xs @ ys) = (case turns_after i xs of Some rest \<Rightarrow> Some (rest @ ys) | None \<Rightarrow> turns_after i ys)"
  by (induction xs) auto

lemma turns_after_None: "turns_after i xs = None \<longleftrightarrow> i \<notin> ct_TurnID ` set xs"
  by (induction xs) auto

lemma turns_after_last:
  assumes "region \<noteq> []" and "distinct (map ct_TurnID (before @ region @ rest))"
  shows "turns_after (ct_TurnID (last region)) (before @ region @ rest) = Some rest"
proof -
  obtain init x where region: "region = init @ [x]" using assms(1) by (cases region rule: rev_cases) auto
  have "turns_after (ct_TurnID x) (before @ init) = None" using assms(2) unfolding region turns_after_None by auto
  then show ?thesis unfolding region by (simp add: turns_after_append split: option.splits)
qed

section \<open>No turn is lost\<close>

text \<open>
  The turns of a session are those of its log; the sources are the turns whose summaries were stored, in order.
\<close>

definition compacted :: "string \<Rightarrow> StoredEvent list \<Rightarrow> conversationHistoryTurn list list \<Rightarrow> bool" where
  "compacted s rows sources \<longleftrightarrow>
     distinct (map ct_TurnID (turns_of s rows)) \<and> (\<forall>i \<in> ct_TurnID ` set (turns_of s rows). TrimSpace i = i \<and> i \<noteq> []) \<and>
     concat sources @ turnsAfterCompactedTurn (turns_of s rows) (through s rows) = turns_of s rows \<and>
     TrimSpace (through s rows) = through s rows \<and> (through s rows = [] \<or> turns_after (through s rows) (turns_of s rows) \<noteq> None)"

definition running :: "string \<Rightarrow> StoredEvent list \<Rightarrow> compaction_run \<Rightarrow> bool" where
  "running s rows run \<longleftrightarrow> TrimSpace (cr_SessionID run) = s \<and> cr_Region run \<noteq> [] \<and> cc_CompactedThroughTurnID (cr_Started run) = ct_TurnID (last (cr_Region run)) \<and>
     (\<exists>rest. turnsAfterCompactedTurn (turns_of s rows) (through s rows) = cr_Region run @ rest)"

definition turn_end :: "StoredEvent \<Rightarrow> bool" where
  "turn_end e \<longleftrightarrow> ev_Type e \<in> {''model.final'', ''turn.paused''}"

text \<open>
  What may come between the steps of the compaction: any event of another session, and any event of this one that is
  neither a summary nor the end of a turn; a turn ends once, under its own identifier, and not while a
  compaction holds the session.
\<close>

definition other_event :: "string \<Rightarrow> compaction_run option \<Rightarrow> StoredEvent list \<Rightarrow> StoredEvent \<Rightarrow> bool" where
  "other_event s run rows e \<longleftrightarrow>
     (ev_SessionID e = s \<longrightarrow> ev_Type e \<noteq> ''context.compaction.completed'' \<and>
        (turn_end e \<longrightarrow> run = None \<and> TrimSpace (ev_TurnID e) = ev_TurnID e \<and> ev_TurnID e \<noteq> [] \<and> ev_TurnID e \<notin> ct_TurnID ` set (turns_of s rows)))"

inductive compaction_system :: "compaction_env \<Rightarrow> string \<Rightarrow> kernel \<times> compaction_run option \<times> conversationHistoryTurn list list \<Rightarrow> bool" for env s where
  system_start: "timely k \<Longrightarrow> k_rows k = [] \<Longrightarrow> compaction_system env s (k, None, [])"
| system_time: "compaction_system env s (k, run, sources) \<Longrightarrow> kernel_ext k k' [] \<Longrightarrow> compaction_system env s (k', run, sources)"
| system_other: "compaction_system env s (k, run, sources) \<Longrightarrow> kernel_ext k k' [e] \<Longrightarrow> timely k' \<Longrightarrow> other_event s run (k_rows k) e \<Longrightarrow>
    compaction_system env s (k', run, sources)"
| system_begin: "compaction_system env s (k, None, sources) \<Longrightarrow> TrimSpace (xc_SessionID command) = s \<Longrightarrow> begin_compaction env command k = (run, k') \<Longrightarrow>
    compaction_system env s (k', run, sources)"
| system_finish: "compaction_system env s (k, Some run, sources) \<Longrightarrow> finish_compaction env run response k = (summarized, k') \<Longrightarrow>
    compaction_system env s (k', None, if summarized then sources @ [cr_Region run] else sources)"

lemma turnsAfter_same:
  assumes "compacted s rows sources" and "turns_of s rows' = turns_of s rows" and "through s rows' = through s rows"
  shows "compacted s rows' sources" and "running s rows run \<Longrightarrow> running s rows' run"
  using assms by (simp_all add: compacted_def running_def)

lemma compacted_turn:
  assumes "compacted s rows sources" and "turns_of s rows' = turns_of s rows @ [turn]" and "through s rows' = through s rows"
    and "TrimSpace (ct_TurnID turn) = ct_TurnID turn" "ct_TurnID turn \<noteq> []" "ct_TurnID turn \<notin> ct_TurnID ` set (turns_of s rows)"
  shows "compacted s rows' sources"
proof -
  have after: "turnsAfterCompactedTurn (turns_of s rows @ [turn]) (through s rows) = turnsAfterCompactedTurn (turns_of s rows) (through s rows) @ [turn]"
    using assms(1) by (auto simp: compacted_def turnsAfterCompactedTurn_def Let_def turns_after_append)
  have "turns_after (through s rows) (turns_of s rows) \<noteq> None \<Longrightarrow> turns_after (through s rows) (turns_of s rows @ [turn]) \<noteq> None"
    by (auto simp: turns_after_append)
  moreover have "concat sources @ (turnsAfterCompactedTurn (turns_of s rows) (through s rows) @ [turn]) = turns_of s rows @ [turn]"
    using assms(1) by (simp add: compacted_def flip: append_assoc)
  ultimately show ?thesis using assms unfolding compacted_def assms(2,3) after by auto
qed

lemma compacted_snoc:
  assumes "compacted s rows sources" and "TrimSpace s = s" "s \<noteq> []" and "other_event s run rows e"
  shows "compacted s (rows @ [e]) sources" and "run = Some r \<Longrightarrow> running s rows r \<Longrightarrow> running s (rows @ [e]) r"
proof -
  have t: "through s (rows @ [e]) = through s rows"
    using assms(4) by (auto simp: through_snoc [OF assms(2)] other_event_def compaction_event_def)
  from turns_of_snoc [OF assms(2,3), of rows e]
  show "compacted s (rows @ [e]) sources"
  proof (elim disjE conjE exE)
    assume "turns_of s (rows @ [e]) = turns_of s rows"
    then show ?thesis using turnsAfter_same(1) [OF assms(1) _ t] by simp
  next
    fix turn assume e: "ev_SessionID e = s" "ev_Type e \<in> {''model.final'', ''turn.paused''}" "ct_TurnID turn = ev_TurnID e" "turns_of s (rows @ [e]) = turns_of s rows @ [turn]"
    then show ?thesis using compacted_turn [OF assms(1) e(4) t] assms(4) by (simp add: other_event_def turn_end_def)
  qed
  assume run: "run = Some r" and r: "running s rows r"
  have "turns_of s (rows @ [e]) = turns_of s rows"
    using turns_of_snoc [OF assms(2,3), of rows e] assms(4) run by (auto simp: other_event_def turn_end_def)
  then show "running s (rows @ [e]) r" using turnsAfter_same(2) [OF assms(1) _ t r] by simp
qed

lemma append_turn_event_split:
  assumes "append_turn_event event k = (r, k')"
  obtains (appended) i where "r = None" "kernel_ext k k' [event (fst (clock k)) i]" | (failed) err where "r = Some err" "kernel_ext k k' []"
proof -
  obtain x k1 where run: "stamp_append event (\<lambda>_. ()) k = (x, k1)" by fastforce
  with assms have k1: "k1 = k'" "r = (case x of Inl err \<Rightarrow> Some err | Inr _ \<Rightarrow> None)" by (auto simp: append_turn_event_def split: sum.splits)
  from run show ?thesis
  proof (cases rule: stamp_append_cases)
    case (appended i)
    then show ?thesis using k1 that(1) by simp
  next
    case (failed err)
    then show ?thesis using k1 that(2) by simp
  qed
qed

text \<open>An event of the compaction other than a summary changes nothing the compaction reads of the turns.\<close>

lemma log_event_fields:
  "ev_SessionID (compaction_log_event ty s t c now i) = TrimSpace s" "ev_Type (compaction_log_event ty s t c now i) = ty"
  "ev_CreatedAt (compaction_log_event ty s t c now i) = now" "ed_ContextCompaction (ev_Data (compaction_log_event ty s t c now i)) = Some c"
  by (simp_all add: compaction_log_event_def turn_event_def)

definition quiet_append :: "string \<Rightarrow> kernel \<Rightarrow> kernel \<Rightarrow> bool" where
  "quiet_append s k k' \<longleftrightarrow> kernel_ext k k' [] \<or>
     (\<exists>e. kernel_ext k k' [e] \<and> ev_CreatedAt e = fst (clock k) \<and> ev_Type e \<noteq> ''context.compaction.completed'' \<and> \<not> turn_end e \<and> \<not> ends_turn e)"

lemma quiet_log_event:
  assumes "append_turn_event (compaction_log_event ty s' t c) k = (r, k')" and "ty \<notin> {''context.compaction.completed'', ''model.final'', ''turn.paused'', ''turn.failed'', ''assistant.interrupted''}"
  shows "quiet_append s k k'"
  using assms(1)
proof (cases rule: append_turn_event_split)
  case (appended i)
  then show ?thesis using assms(2) unfolding quiet_append_def turn_end_def ends_turn_def
    by (intro disjI2 exI [of _ "compaction_log_event ty s' t c (fst (clock k)) i"]) (simp add: log_event_fields)
qed (simp add: quiet_append_def)

lemma quiet_keeps:
  assumes "quiet_append s k k'" and "timely k" and "TrimSpace s = s" "s \<noteq> []" and "compacted s (k_rows k) sources"
  shows "timely k'" and "compacted s (k_rows k') sources" and "running s (k_rows k) r \<Longrightarrow> running s (k_rows k') r"
proof -
  have other: "other_event s (Some r) (k_rows k) e" if "ev_Type e \<noteq> ''context.compaction.completed''" "\<not> turn_end e" for e
    using that by (simp add: other_event_def)
  show "timely k'" using assms(1,2) timely_ext_Nil timely_ext_one unfolding quiet_append_def by blast
  show "compacted s (k_rows k') sources" using assms(1,5) compacted_snoc(1) [OF assms(5,3,4) other] unfolding quiet_append_def by (auto simp: kernel_ext_def)
  show "running s (k_rows k') r" if "running s (k_rows k) r"
    using assms(1) that compacted_snoc(2) [OF assms(5,3,4) other HOL.refl that] unfolding quiet_append_def by (auto simp: kernel_ext_def)
qed

lemma deferred_status:
  assumes "compaction_deferred env events s trigger t tokens usage stability = Some c"
  shows "TrimSpace (cc_Status c) = ''deferred''"
proof -
  have "cc_Status c = ''deferred''"
    using assms unfolding compaction_deferred_def contextCompactionBackoff_def contextCompactionStuckGuard_def Let_def
    by (auto split: option.splits if_splits prod.splits)
  moreover have "TrimSpace ''deferred'' = ''deferred''" by code_simp
  ultimately show ?thesis by simp
qed

lemma compactionRegion_prefix: "\<exists>rest. turns = compactionRegion turns policy accounting @ rest"
proof -
  have "\<exists>n. compactionRegion turns policy accounting = take n turns"
    unfolding compactionRegion_def Let_def by (auto intro: exI [of _ 0])
  then show ?thesis by (metis append_take_drop_id)
qed

definition begun ::
  "compaction_env \<Rightarrow> ContextCompactionCommand \<Rightarrow> kernel \<Rightarrow> StoredEvent list \<Rightarrow> string \<Rightarrow> string \<Rightarrow> string \<Rightarrow> TokenUsage option \<Rightarrow> ContextCacheStabilityProjection option \<Rightarrow>
     compaction_run option \<times> kernel" where
  "begun env command k rows s t trigger usage stability =
     (if compaction_turns (cm_policy env) rows s = [] then (None, k)
      else case compaction_deferred env rows s trigger t (xc_SourceInputTokens command) usage stability of
          Some projection \<Rightarrow> (None, snd (appendContextCompactionEvent s t projection k))
        | None \<Rightarrow> (case append_turn_event (compaction_log_event ''context.compaction.started'' s t
                (started_projection (cm_policy env) trigger command usage stability (compaction_turns (cm_policy env) rows s))) k of
            (Some _, k) \<Rightarrow> (None, k)
          | (None, k) \<Rightarrow> (Some \<lparr>cr_SessionID = s, cr_TurnID = t,
              cr_Started = started_projection (cm_policy env) trigger command usage stability (compaction_turns (cm_policy env) rows s),
              cr_Region = compaction_turns (cm_policy env) rows s,
              cr_Source = compactionSourceTranscript (cc_Summary (latestSessionContextCompaction rows s [])) (compaction_turns (cm_policy env) rows s)\<rparr>, k)))"

lemma begin_begun:
  assumes "loadEvents k = Inr rows"
  shows "\<exists>trigger t usage stability. begin_compaction env command k = begun env command k rows (TrimSpace (xc_SessionID command)) t trigger usage stability"
  unfolding begin_compaction_def Let_def begun_def assms sum.case by (intro exI) (rule HOL.refl)

lemma begin_compaction_cases [consumes 1]:
  assumes "begin_compaction env command k = (run, k')"
  obtains (idle) "run = None" "quiet_append s k k'"
  | (running) r rows where "run = Some r" "quiet_append s k k'" "loadEvents k = Inr rows" "cr_SessionID r = TrimSpace (xc_SessionID command)"
      "cr_Region r = compaction_turns (cm_policy env) rows (TrimSpace (xc_SessionID command))" "cr_Region r \<noteq> []"
      "cc_CompactedThroughTurnID (cr_Started r) = ct_TurnID (last (cr_Region r))"
proof (cases "loadEvents k")
  case (Inl err)
  then show ?thesis using assms that(1) by (simp add: begin_compaction_def Let_def quiet_append_def)
next
  case (Inr rows)
  define s' where "s' = TrimSpace (xc_SessionID command)"
  obtain trigger t usage stability where run: "begun env command k rows s' t trigger usage stability = (run, k')"
    using begin_begun [OF Inr] assms unfolding s'_def by metis
  define region where "region = compaction_turns (cm_policy env) rows s'"
  note run = run [unfolded begun_def, folded region_def]
  show ?thesis
  proof (cases "region = []")
    case True
    with run show ?thesis using that(1) by (simp add: quiet_append_def)
  next
    case False
    show ?thesis
    proof (cases "compaction_deferred env rows s' trigger t (xc_SourceInputTokens command) usage stability")
      case (Some projection)
      obtain r0 k0 where app: "appendContextCompactionEvent s' t projection k = (r0, k0)" by fastforce
      then have "quiet_append s k k0"
        unfolding appendContextCompactionEvent_def deferred_status [OF Some] by (rule quiet_log_event) simp
      with run False Some app show ?thesis using that(1) by simp
    next
      case None
      let ?started = "started_projection (cm_policy env) trigger command usage stability region"
      obtain r0 k0 where app: "append_turn_event (compaction_log_event ''context.compaction.started'' s' t ?started) k = (r0, k0)" by fastforce
      then have q: "quiet_append s k k0" by (rule quiet_log_event) simp
      show ?thesis
      proof (cases r0)
        case (Some err)
        with run False None app q show ?thesis using that(1) by simp
      next
        case (None)
        with run False \<open>compaction_deferred env rows s' trigger t (xc_SourceInputTokens command) usage stability = None\<close> app q Inr show ?thesis
          by (intro that(2)) (auto simp: s'_def region_def started_projection_def)
      qed
    qed
  qed
qed

lemma compacted_summary:
  assumes "compacted s rows sources" and "TrimSpace s = s" "s \<noteq> []" and "running s rows r"
    and "ev_SessionID e = s" "ev_Type e = ''context.compaction.completed''" "ed_ContextCompaction (ev_Data e) = Some c"
    and "cc_CompactedThroughTurnID c = cc_CompactedThroughTurnID (cr_Started r)"
  shows "compacted s (rows @ [e]) (sources @ [cr_Region r])"
proof -
  obtain rest where rest: "turnsAfterCompactedTurn (turns_of s rows) (through s rows) = cr_Region r @ rest" and ne: "cr_Region r \<noteq> []"
    and last: "cc_CompactedThroughTurnID (cr_Started r) = ct_TurnID (last (cr_Region r))" using assms(4) by (auto simp: running_def)
  have turns: "turns_of s (rows @ [e]) = turns_of s rows" using turns_of_snoc [OF assms(2,3), of rows e] assms(6) by auto
  have thr: "through s (rows @ [e]) = ct_TurnID (last (cr_Region r))"
    using assms(5-8) last by (simp add: through_snoc [OF assms(2)] compaction_event_def compaction_of_def)
  have all: "turns_of s rows = concat sources @ cr_Region r @ rest" using assms(1) rest by (simp add: compacted_def)
  have dist: "distinct (map ct_TurnID (turns_of s rows))" and ids: "\<forall>i \<in> ct_TurnID ` set (turns_of s rows). TrimSpace i = i \<and> i \<noteq> []"
    using assms(1) by (simp_all add: compacted_def)
  have "last (cr_Region r) \<in> set (turns_of s rows)" using ne all by simp
  then have "TrimSpace (ct_TurnID (last (cr_Region r))) = ct_TurnID (last (cr_Region r)) \<and> ct_TurnID (last (cr_Region r)) \<noteq> []" using ids by blast
  moreover have after: "turns_after (ct_TurnID (last (cr_Region r))) (turns_of s rows) = Some rest"
    unfolding all by (rule turns_after_last [OF ne]) (use dist all in simp)
  ultimately have "turnsAfterCompactedTurn (turns_of s rows) (ct_TurnID (last (cr_Region r))) = rest"
    by (simp add: turnsAfterCompactedTurn_def)
  then show ?thesis
    unfolding compacted_def turns thr using dist ids all after \<open>TrimSpace (ct_TurnID (last (cr_Region r))) = _ \<and> _\<close> by simp
qed

lemma finish_compaction_cases [consumes 1]:
  assumes "finish_compaction env r response k = (summarized, k')"
  obtains (failed) k1 where "\<not> summarized" "quiet_append s k k1" "quiet_append s k1 k'"
  | (completed) e c where "summarized" "kernel_ext k k' [e]" "ev_CreatedAt e = fst (clock k)" "ev_SessionID e = TrimSpace (cr_SessionID r)"
      "ev_Type e = ''context.compaction.completed''" "ed_ContextCompaction (ev_Data e) = Some c" "cc_CompactedThroughTurnID c = cc_CompactedThroughTurnID (cr_Started r)"
proof -
  have fail: "quiet_append s j (appendContextCompactionFailed p sid t c reason j)" for j p sid t c reason
    unfolding appendContextCompactionFailed_def by (rule quiet_log_event [OF prod.collapse [symmetric]]) simp
  have refl: "quiet_append s k k" by (simp add: quiet_append_def)
  show ?thesis
  proof (cases response)
    case (Inl err)
    with assms have "\<not> summarized" "k' = appendContextCompactionFailed (cm_policy env) (cr_SessionID r) (cr_TurnID r) (cr_Started r) err k"
      by (simp_all add: finish_compaction_def Let_def)
    then show ?thesis using that(1) refl fail by blast
  next
    case (Inr resp)
    show ?thesis
    proof (cases "TrimSpace (ms_Text resp) = []")
      case True
      with assms Inr have "\<not> summarized" "k' = appendContextCompactionFailed (cm_policy env) (cr_SessionID r) (cr_TurnID r) (cr_Started r) ''summarizer returned empty output'' k"
        by (simp_all add: finish_compaction_def Let_def)
      then show ?thesis using that(1) refl fail by blast
    next
      case False
      let ?c = "(cr_Started r)\<lparr>cc_Status := ''completed'', cc_Summary := TrimSpace (ms_Text resp), cc_Model := ms_Model resp, cc_Usage := ms_Usage resp\<rparr>"
      obtain r0 k0 where app: "append_turn_event (compaction_log_event ''context.compaction.completed'' (cr_SessionID r) (cr_TurnID r) ?c) k = (r0, k0)" by fastforce
      from app show ?thesis
      proof (cases rule: append_turn_event_split)
        case (appended i)
        with assms Inr False app have "summarized" "k' = k0" by (simp_all add: finish_compaction_def Let_def)
        then show ?thesis using that(2) [OF _ appended(2) [folded \<open>k' = k0\<close>] log_event_fields(3,1,2,4)] by simp
      next
        case (failed err)
        with assms Inr False app have "\<not> summarized" "k' = appendContextCompactionFailed (cm_policy env) (cr_SessionID r) (cr_TurnID r) (cr_Started r) (cm_text env err) k0"
          by (simp_all add: finish_compaction_def Let_def)
        moreover have "quiet_append s k k0" using failed by (simp add: quiet_append_def)
        ultimately show ?thesis using that(1) fail by blast
      qed
    qed
  qed
qed

lemma compaction_system_inv:
  assumes "compaction_system env s st" and "TrimSpace s = s" and "s \<noteq> []"
  shows "case st of (k, run, sources) \<Rightarrow> timely k \<and> compacted s (k_rows k) sources \<and> (\<forall>r. run = Some r \<longrightarrow> running s (k_rows k) r)"
  using assms(1)
proof (induction rule: compaction_system.induct)
  case (system_start k)
  have "turns_of s [] = []" "through s [] = []"
    by (simp_all add: turns_of_def through_def sameSessionCompletedConversationTurns_def latestSessionContextCompaction_def session_events_def
        conversation_start_def no_compaction_def)
  with system_start show ?case by (simp add: compacted_def turnsAfterCompactedTurn_def)
next
  case (system_time k run sources k')
  then have "quiet_append s k k'" by (simp add: quiet_append_def)
  moreover from system_time.IH have k: "timely k" "compacted s (k_rows k) sources" "\<forall>r. run = Some r \<longrightarrow> running s (k_rows k) r" by simp_all
  ultimately show ?case using quiet_keeps [OF _ k(1) assms(2,3) k(2)] k(3) by blast
next
  case (system_other k run sources k' e)
  then show ?case using compacted_snoc [OF _ assms(2,3), of "k_rows k" sources run e] by (auto simp: kernel_ext_def)
next
  case (system_begin k sources command run k')
  then have k: "timely k" "compacted s (k_rows k) sources" by simp_all
  from system_begin.hyps(3) show ?case
  proof (cases rule: begin_compaction_cases [where s = s])
    case idle
    then show ?thesis using quiet_keeps [OF _ k(1) assms(2,3) k(2)] by simp
  next
    case (running r rows)
    have rows: "rows = k_rows k" using loadEvents_timely [OF k(1) running(3)] .
    obtain rest where "turnsAfterCompactedTurn (turns_of s rows) (through s rows) = cr_Region r @ rest"
      using running(5) compactionRegion_prefix unfolding compaction_turns_def turns_of_def through_def system_begin.hyps(2) by metis
    then have "running s (k_rows k) r" using running system_begin.hyps(2) assms(2) by (auto simp: running_def rows)
    then show ?thesis using quiet_keeps [OF running(2) k(1) assms(2,3) k(2)] running(1) by simp
  qed
next
  case (system_finish k r sources response summarized k')
  then have k: "timely k" "compacted s (k_rows k) sources" "running s (k_rows k) r" by simp_all
  from system_finish.hyps(2) show ?case
  proof (cases rule: finish_compaction_cases [where s = s])
    case (failed k1)
    note k1 = quiet_keeps(1,2) [OF failed(2) k(1) assms(2,3) k(2)]
    then show ?thesis using quiet_keeps(1,2) [OF failed(3) _ assms(2,3)] failed(1) by simp
  next
    case (completed e c)
    have "ev_SessionID e = s" using completed(4) k(3) by (simp add: running_def)
    then have "compacted s (k_rows k @ [e]) (sources @ [cr_Region r])"
      by (rule compacted_summary [OF k(2) assms(2,3) k(3) _ completed(5-7)])
    then show ?thesis using completed(1,2) timely_ext_one [OF k(1) completed(2,3)] by (simp add: kernel_ext_def)
  qed
qed

text \<open>
  C34: no turn of a conversation is lost and none is summarized twice. In every interleaving of turns, jobs, other
  sessions and compactions that are begun, refused, put off, failed or completed, the turns whose summaries were
  stored, one compaction after the other, followed by the turns the model is shown verbatim, are exactly the ended
  turns of the session in their order. A turn is assumed to end once, and not while a compaction holds its session.
\<close>

theorem compaction_loses_nothing:
  assumes "compaction_system env s (k, run, sources)" and "TrimSpace s = s" and "s \<noteq> []"
  shows "concat sources @ sh_Turns (sameSessionConversationHistoryProjection (k_rows k) s []) = sameSessionCompletedConversationTurns (k_rows k) s []"
  using compaction_system_inv [OF assms]
  by (simp add: compacted_def turns_of_def through_def sameSessionConversationHistoryProjection_def Let_def)

section \<open>What is kept verbatim\<close>

text \<open>The loop from the end: how far it went, and what the turns it passed hold.\<close>

lemma region_loop_result:
  assumes "region_loop turns lowest budget accounting n used kept stop = r" and "n \<le> length turns"
    and "kept = int (length turns - n)" and "used = sum_list (map (processed_tokens accounting) (drop n turns))"
    and "n < length turns \<longrightarrow> stop = int n" and "kept > lowest \<longrightarrow> used \<le> budget"
  shows "(case r of
      Inr stop' \<Rightarrow> (stop' = stop \<and> n = length turns) \<or> (\<exists>m. stop' = int m \<and> m < length turns \<and>
          (int (length turns - m) > lowest \<longrightarrow> sum_list (map (processed_tokens accounting) (drop m turns)) \<le> budget))
    | Inl _ \<Rightarrow> \<exists>m < length turns. int (length turns - m) \<le> lowest \<and> processed_tokens accounting (turns ! m) \<le> 0)"
  using assms
proof (induction n arbitrary: used kept stop)
  case 0
  then show ?case by (auto intro: exI [of _ 0])
next
  case (Suc index)
  define tokens where "tokens = processed_tokens accounting (turns ! index)"
  have idx: "index < length turns" using Suc.prems(2) by simp
  have drop: "drop index turns = turns ! index # drop (Suc index) turns" using idx by (rule Cons_nth_drop_Suc [symmetric])
  have stopped: ?case if "r = Inr stop"
  proof (cases "Suc index = length turns")
    case True
    with that show ?thesis by simp
  next
    case False
    then have "stop = int (Suc index)" "Suc index < length turns" using Suc.prems(2,5) by auto
    moreover have "int (length turns - Suc index) > lowest \<longrightarrow> sum_list (map (processed_tokens accounting) (drop (Suc index) turns)) \<le> budget"
      using Suc.prems(3,4,6) by simp
    ultimately show ?thesis using that by (auto simp del: of_nat_Suc)
  qed
  consider (empty_kept) "tokens \<le> 0" "kept \<ge> lowest" | (empty) "tokens \<le> 0" "kept < lowest" | (full) "tokens > 0" "kept \<ge> lowest" "used + tokens > budget"
    | (go) "tokens > 0" "\<not> (kept \<ge> lowest \<and> used + tokens > budget)" by linarith
  then show ?case
  proof cases
    case empty
    then have "r = Inl stop" using Suc.prems(1) by (auto simp: tokens_def [symmetric] Let_def)
    moreover have "int (length turns - index) \<le> lowest" using empty(2) Suc.prems(2,3) by linarith
    ultimately show ?thesis using empty(1) idx by (auto simp: tokens_def)
  next
    case go
    then have run: "region_loop turns lowest budget accounting index (used + tokens) (kept + 1) (int index) = r"
      using Suc.prems(1) by (auto simp: tokens_def [symmetric] Let_def)
    have "kept + 1 > lowest \<longrightarrow> used + tokens \<le> budget" using go(2) by linarith
    moreover have "kept + 1 = int (length turns - index)" using Suc.prems(2,3) by linarith
    moreover have "used + tokens = sum_list (map (processed_tokens accounting) (drop index turns))" using Suc.prems(4) by (simp add: drop tokens_def)
    ultimately have "case r of
        Inr stop' \<Rightarrow> (stop' = int index \<and> index = length turns) \<or> (\<exists>m. stop' = int m \<and> m < length turns \<and>
            (int (length turns - m) > lowest \<longrightarrow> sum_list (map (processed_tokens accounting) (drop m turns)) \<le> budget))
      | Inl _ \<Rightarrow> \<exists>m < length turns. int (length turns - m) \<le> lowest \<and> processed_tokens accounting (turns ! m) \<le> 0"
      using Suc.IH [OF run] idx by simp
    then show ?thesis using idx by (cases r) auto
  next
    case empty_kept
    then show ?thesis using Suc.prems(1) by (intro stopped) (auto simp: tokens_def [symmetric] Let_def)
  next
    case full
    then show ?thesis using Suc.prems(1) by (intro stopped) (auto simp: tokens_def [symmetric] Let_def)
  qed
qed

definition recent_limit :: "ContextPolicy \<Rightarrow> int" where
  "recent_limit policy = (if cp_RecentTurnLimit policy \<le> 0 then defaultRecentTurnLimit else cp_RecentTurnLimit policy)"

lemma region_end:
  fixes budget :: int
  assumes "0 < lowest" "lowest < int (length turns)" and "\<forall>turn \<in> set (drop (length turns - nat lowest) turns). processed_tokens accounting turn > 0"
  defines "r \<equiv> compactionRegionEndByProviderAccounting turns lowest budget accounting"
  shows "r = int (length turns) - lowest \<or>
    (\<exists>m. r = int m \<and> m < length turns \<and> int (length turns - m) \<ge> lowest \<and>
      (int (length turns - m) > lowest \<longrightarrow> sum_list (map (processed_tokens accounting) (drop m turns)) \<le> budget \<and> 0 < budget))"
proof (cases "budget \<le> 0 \<or> accounting = []")
  case True
  then show ?thesis by (simp add: r_def compactionRegionEndByProviderAccounting_def Let_def)
next
  case False
  let ?n = "int (length turns)"
  define q where "q = region_loop turns lowest budget accounting (length turns) 0 0 (?n - lowest)"
  have r: "r = (case q of Inl stop \<Rightarrow> stop | Inr stop \<Rightarrow> if ?n - stop < lowest then ?n - lowest else stop)"
    using False by (simp add: r_def compactionRegionEndByProviderAccounting_def Let_def q_def)
  note res = region_loop_result [OF q_def [symmetric], simplified]
  show ?thesis
  proof (cases q)
    case (Inl stop)
    with res assms(1) obtain m where m: "m < length turns" "int (length turns - m) \<le> lowest" "processed_tokens accounting (turns ! m) \<le> 0" by auto
    have "turns ! m = drop (length turns - nat lowest) turns ! (m - (length turns - nat lowest))" using m(1,2) assms(2) by (simp add: nth_drop)
    also have "\<dots> \<in> set (drop (length turns - nat lowest) turns)" using m(1,2) assms(2) by (intro nth_mem) auto
    finally show ?thesis using assms(3) m(3) by fastforce
  next
    case (Inr stop)
    with res assms(1) have "stop = ?n - lowest \<or> (\<exists>m. stop = int m \<and> m < length turns \<and>
        (int (length turns - m) > lowest \<longrightarrow> sum_list (map (processed_tokens accounting) (drop m turns)) \<le> budget))" by auto
    then show ?thesis
    proof (elim disjE exE conjE)
      assume "stop = ?n - lowest"
      then show ?thesis using r Inr by simp
    next
      fix m assume m: "stop = int m" "m < length turns" "int (length turns - m) > lowest \<longrightarrow> sum_list (map (processed_tokens accounting) (drop m turns)) \<le> budget"
      show ?thesis
      proof (cases "?n - stop < lowest")
        case True
        then show ?thesis using r Inr by simp
      next
        case long: False
        then show ?thesis using r Inr m False by (intro disjI2 exI [of _ m]) (auto simp: of_nat_diff)
      qed
    qed
  qed
qed

text \<open>
  C35: the recent turns stay verbatim. If the most recent turns, as many as the policy keeps at least, all have
  processed tokens accounted, or the policy has no token budget for the tail, then a compaction leaves at least
  that many turns out of the summary, and more only if all the turns it leaves fit the token budget.
\<close>

theorem compaction_keeps_recent:
  assumes "compactionRegion turns policy accounting \<noteq> []"
    and "cp_RecentTailTokens policy \<le> 0 \<or>
      (\<forall>turn \<in> set (drop (length turns - nat (recent_limit policy)) turns). processed_tokens accounting turn > 0)"
  shows "\<exists>kept. turns = compactionRegion turns policy accounting @ kept \<and> int (length kept) \<ge> recent_limit policy \<and>
    (int (length kept) > recent_limit policy \<longrightarrow>
       0 < cp_RecentTailTokens policy \<and> sum_list (map (processed_tokens accounting) kept) \<le> cp_RecentTailTokens policy)"
proof -
  let ?n = "int (length turns)" and ?low = "recent_limit policy"
  define stop where "stop = (if cp_RecentTailTokens policy > 0
      then compactionRegionEndByProviderAccounting turns ?low (cp_RecentTailTokens policy) accounting else ?n - ?low)"
  have region: "compactionRegion turns policy accounting = take (nat stop) turns" "?low < ?n" "0 < stop"
    using assms(1) unfolding compactionRegion_def Let_def recent_limit_def [symmetric] stop_def [symmetric] by (auto split: if_splits)
  have low: "0 < ?low" by (simp add: recent_limit_def)
  have "stop = ?n - ?low \<or> (\<exists>m. stop = int m \<and> m < length turns \<and> int (length turns - m) \<ge> ?low \<and>
      (int (length turns - m) > ?low \<longrightarrow> sum_list (map (processed_tokens accounting) (drop m turns)) \<le> cp_RecentTailTokens policy \<and> 0 < cp_RecentTailTokens policy))"
    using assms(2) region_end [OF low region(2)] unfolding stop_def by auto
  then have "int (length (drop (nat stop) turns)) \<ge> ?low \<and> (int (length (drop (nat stop) turns)) > ?low \<longrightarrow>
      0 < cp_RecentTailTokens policy \<and> sum_list (map (processed_tokens accounting) (drop (nat stop) turns)) \<le> cp_RecentTailTokens policy)"
    using region(2) low by (elim disjE exE conjE) (auto simp: of_nat_diff)
  then show ?thesis unfolding region(1) by (intro exI [of _ "drop (nat stop) turns"]) simp
qed

section \<open>Where the code falls short\<close>

text \<open>Turns and accounting of a sample.\<close>

definition sample_turn :: "string \<Rightarrow> conversationHistoryTurn" where
  "sample_turn i = \<lparr>ct_TurnID = i, ct_UserText = ''question'', ct_ToolExchanges = [], ct_AssistantText = ''answer''\<rparr>"

definition sample_accounting :: "int \<Rightarrow> ModelContextAccountingProjection" where
  "sample_accounting tokens = \<lparr>ma_RoundIndex = 0, ma_Model = [], ma_PrefixFingerprint = [], ma_PrefixComponents = no_prefix, ma_PrefixChangeReasons = [],
     ma_ModelInputKinds = [], ma_HistoryTurnIDs = [], ma_CompactedThroughTurnID = [], ma_ToolRoundCount = 0, ma_ToolCallCount = 0, ma_ToolResultCount = 0,
     ma_ProcessedInputTokens = tokens, ma_ProcessedInputTokenSource = [], ma_Usage = None\<rparr>"

definition sample_policy :: "int \<Rightarrow> ContextPolicy" where
  "sample_policy tail = \<lparr>cp_ContextWindowTokens = 1000, cp_AutoCompactRatio = 4 / 5, cp_RecentTurnLimit = 2, cp_RecentTailTokens = tail,
     cp_SkillIndexChars = 1200, cp_RetryBackoffTurns = 1\<rparr>"

theorem compaction_keeps_recent_witness:
  "\<exists>kept. map sample_turn [''t1'', ''t2'', ''t3''] =
      compactionRegion (map sample_turn [''t1'', ''t2'', ''t3'']) (sample_policy 25) (map (\<lambda>i. (i, sample_accounting 10)) [''t1'', ''t2'', ''t3'']) @ kept \<and>
      int (length kept) \<ge> 2"
proof -
  let ?turns = "map sample_turn [''t1'', ''t2'', ''t3'']" and ?acc = "map (\<lambda>i. (i, sample_accounting 10)) [''t1'', ''t2'', ''t3'']"
  have "compactionRegion ?turns (sample_policy 25) ?acc \<noteq> []" by code_simp
  moreover have "\<forall>turn \<in> set (drop (length ?turns - nat (recent_limit (sample_policy 25))) ?turns). processed_tokens ?acc turn > 0" by code_simp
  ultimately have "\<exists>kept. ?turns = compactionRegion ?turns (sample_policy 25) ?acc @ kept \<and> int (length kept) \<ge> recent_limit (sample_policy 25)"
    using compaction_keeps_recent by blast
  moreover have "recent_limit (sample_policy 25) = 2" by code_simp
  ultimately show ?thesis by simp
qed

lemma region_loop_stops:
  assumes "n \<le> length recent" and "processed_tokens accounting bare \<le> 0" and "\<forall>t \<in> set recent. processed_tokens accounting t > 0"
    and "kept = int (length recent - n)" and "int (length recent) < lowest"
    and "n = length recent \<Longrightarrow> recent \<noteq> []" and "n < length recent \<Longrightarrow> stop = int (Suc (length older) + n)"
  shows "region_loop (older @ bare # recent) lowest budget accounting (Suc (length older) + n) used kept stop = Inl (int (Suc (length older)))"
  using assms
proof (induction n arbitrary: used kept stop)
  case 0
  then have "recent \<noteq> []" "stop = int (Suc (length older))" by (cases recent; simp)+
  with 0 show ?case by (simp add: Let_def nth_append)
next
  case (Suc n)
  define tokens where "tokens = processed_tokens accounting (recent ! n)"
  from Suc.prems(1,3) have "tokens > 0" by (simp add: tokens_def)
  moreover have "(older @ bare # recent) ! (Suc (length older) + n) = recent ! n" by (simp add: nth_append)
  moreover have "kept < lowest" using Suc.prems(4,5) by simp
  moreover have "region_loop (older @ bare # recent) lowest budget accounting (Suc (length older) + n) (used + tokens) (kept + 1) (int (Suc (length older) + n)) =
      Inl (int (Suc (length older)))"
    using Suc.prems by (intro Suc.IH) (auto simp: of_nat_diff)
  ultimately show ?case by (simp add: Let_def tokens_def)
qed

text \<open>
  C38: with a token budget for the tail, fewer recent turns are kept than the policy promises, as soon as one of them has
  no account. Let every turn after \<open>bare\<close> have processed tokens accounted and \<open>bare\<close> itself have none, and let fewer turns
  come after \<open>bare\<close> than the policy keeps at least. The loop then returns the index it has moved to instead of the one it
  started from: exactly the turns after \<open>bare\<close> are kept, fewer than the limit, and \<open>bare\<close>, one of the recent turns, is
  summarized. When no turn has an account, the limit is kept.
\<close>

theorem recent_turns_not_kept:
  assumes "0 < cp_RecentTailTokens policy" and "recent_limit policy < int (length (older @ bare # recent))"
    and "recent \<noteq> []" and "int (length recent) < recent_limit policy"
    and "\<forall>t \<in> set recent. processed_tokens accounting t > 0" and "processed_tokens accounting bare \<le> 0"
  shows "compactionRegion (older @ bare # recent) policy accounting = older @ [bare] \<and>
    compactionRegion (older @ bare # recent) policy [] = take (length (older @ bare # recent) - nat (recent_limit policy)) (older @ bare # recent)"
proof -
  let ?turns = "older @ bare # recent" and ?low = "recent_limit policy"
  from assms(3,5) obtain t where "processed_tokens accounting t > 0" by (cases recent) auto
  then have acc: "accounting \<noteq> []" by (auto simp: processed_tokens_def)
  have "region_loop ?turns ?low (cp_RecentTailTokens policy) accounting (Suc (length older) + length recent) 0 0 (int (length ?turns) - ?low) =
      Inl (int (Suc (length older)))"
    using assms(3-6) by (intro region_loop_stops) auto
  then have stop: "compactionRegionEndByProviderAccounting ?turns ?low (cp_RecentTailTokens policy) accounting = int (Suc (length older))"
    using acc assms(1) by (simp add: compactionRegionEndByProviderAccounting_def Let_def)
  have "compactionRegion ?turns policy accounting = take (Suc (length older)) ?turns"
    using assms(1,2) unfolding compactionRegion_def Let_def recent_limit_def [symmetric] stop by (simp del: of_nat_Suc take_append)
  moreover have "nat (int (length ?turns) - ?low) = length ?turns - nat ?low" using assms(4) by simp
  then have "compactionRegion ?turns policy [] = take (length ?turns - nat ?low) ?turns"
    using assms(1,2) unfolding compactionRegion_def compactionRegionEndByProviderAccounting_def Let_def recent_limit_def [symmetric]
    by (simp del: take_append length_append)
  ultimately show ?thesis by simp
qed

theorem recent_turns_not_kept_witness:
  "compactionRegion (map sample_turn [''t1'', ''t2'', ''t3'']) (sample_policy 40) [(''t3'', sample_accounting 10)] = map sample_turn [''t1'', ''t2''] \<and>
   recent_limit (sample_policy 40) = 2"
proof -
  have 1: "0 < cp_RecentTailTokens (sample_policy 40)" "recent_limit (sample_policy 40) = 2"
    "processed_tokens [(''t3'', sample_accounting 10)] (sample_turn ''t3'') = 10" "processed_tokens [(''t3'', sample_accounting 10)] (sample_turn ''t2'') = 0"
    by code_simp+
  then show ?thesis
    using recent_turns_not_kept [of "sample_policy 40" "[sample_turn ''t1'']" "sample_turn ''t2''" "[sample_turn ''t3'']" "[(''t3'', sample_accounting 10)]"]
    by simp
qed

text \<open>
  A failed compaction that was asked for by hand is stored without a turn; the turns that ended after it are
  never counted.
\<close>

definition blocked :: "string \<Rightarrow> StoredEvent list \<Rightarrow> bool" where
  "blocked s rows \<longleftrightarrow> (\<exists>failure. latestContextCompactionFailureAfterCompletion rows s = Some ([], failure))"

definition recent_failure :: "string \<Rightarrow> StoredEvent list \<Rightarrow> StoredEvent option" where
  "recent_failure s rows = find (compaction_event s ''context.compaction.failed'')
     (takeWhile (\<lambda>event. \<not> (ev_SessionID event = s \<and> ev_Type event = ''context.compaction.completed'')) (rev rows))"

lemma recent_failure_snoc:
  "(ev_SessionID e = s \<longrightarrow> ev_Type e \<notin> {''context.compaction.completed'', ''context.compaction.failed''}) \<Longrightarrow> recent_failure s (rows @ [e]) = recent_failure s rows"
  by (auto simp: recent_failure_def compaction_event_def)

lemma blocked_iff:
  assumes "TrimSpace s = s"
  shows "blocked s rows \<longleftrightarrow> s \<noteq> [] \<and> (\<exists>e. recent_failure s rows = Some e \<and> TrimSpace (ev_TurnID e) = [])"
  unfolding blocked_def latestContextCompactionFailureAfterCompletion_def assms Let_def recent_failure_def [symmetric] by auto

lemma blocked_append:
  assumes "blocked s rows" and "TrimSpace s = s" and "\<forall>e \<in> set es. ev_SessionID e = s \<longrightarrow> ev_Type e \<notin> {''context.compaction.completed'', ''context.compaction.failed''}"
  shows "blocked s (rows @ es)"
  using assms(3)
proof (induction es rule: rev_induct)
  case (snoc e es)
  then have "blocked s (rows @ es)" by simp
  moreover have "recent_failure s ((rows @ es) @ [e]) = recent_failure s (rows @ es)" using snoc.prems by (intro recent_failure_snoc) simp
  ultimately show ?case by (simp add: blocked_iff [OF assms(2)])
qed (simp add: assms(1))

lemma blocked_backoff:
  assumes "blocked s rows" and "0 < cp_RetryBackoffTurns policy"
  shows "\<exists>c. contextCompactionBackoff rows s trigger tokens usage stability policy = Some c"
proof -
  from assms(1) obtain failure where "latestContextCompactionFailureAfterCompletion rows s = Some ([], failure)" by (auto simp: blocked_def)
  then show ?thesis using assms(2) by (simp add: contextCompactionBackoff_def completedTurnsAfter_def Let_def)
qed

lemma blocked_begin:
  assumes "blocked s (k_rows k)" and "timely k" and "0 < cp_RetryBackoffTurns (cm_policy env)" and "TrimSpace (xc_SessionID command) = s"
    and "begin_compaction env command k = (run, k')"
  shows "run = None"
proof (cases "loadEvents k")
  case (Inr rows)
  then have "rows = k_rows k" using loadEvents_timely [OF assms(2)] by simp
  then have "compaction_deferred env rows s trigger t tokens usage stability \<noteq> None" for trigger t tokens usage stability
    using blocked_backoff [OF assms(1,3)] by (metis compaction_deferred_def option.case(2) option.discI)
  note deferred = this
  obtain trigger t usage stability where run: "begun env command k rows s t trigger usage stability = (run, k')"
    using begin_begun [OF Inr, of env command] assms(5) unfolding assms(4) by metis
  obtain c where "compaction_deferred env rows s trigger t (xc_SourceInputTokens command) usage stability = Some c" using deferred by blast
  with run show ?thesis by (simp add: begun_def split: if_splits)
qed (use assms(5) in \<open>simp add: begin_compaction_def Let_def\<close>)

text \<open>
  The log after such a failure: everything may be appended but the ends of compactions of this session, which only a
  compaction that was begun stores.
\<close>

inductive after_failure :: "compaction_env \<Rightarrow> string \<Rightarrow> kernel \<Rightarrow> kernel \<Rightarrow> bool" for env s k where
  after_start: "after_failure env s k k"
| after_events: "after_failure env s k k1 \<Longrightarrow> kernel_ext k1 k2 es \<Longrightarrow> timely k2 \<Longrightarrow>
    \<forall>e \<in> set es. ev_SessionID e = s \<longrightarrow> ev_Type e \<notin> {''context.compaction.completed'', ''context.compaction.failed''} \<Longrightarrow> after_failure env s k k2"
| after_begin: "after_failure env s k k1 \<Longrightarrow> TrimSpace (xc_SessionID command) = s \<Longrightarrow> begin_compaction env command k1 = (None, k2) \<Longrightarrow> after_failure env s k k2"

lemma deferred_append:
  assumes "append_turn_event (compaction_log_event ''context.compaction.deferred'' s t c) k = (r, k')"
  shows "\<exists>es. kernel_ext k k' es \<and> (\<forall>e \<in> set es. ev_Type e = ''context.compaction.deferred'' \<and> ev_CreatedAt e = fst (clock k)) \<and> length es \<le> 1"
  using assms
proof (cases rule: append_turn_event_split)
  case (appended i)
  then show ?thesis by (intro exI [of _ "[compaction_log_event ''context.compaction.deferred'' s t c (fst (clock k)) i]"]) (simp add: log_event_fields)
next
  case (failed err)
  then show ?thesis by (intro exI [of _ "[]"]) simp
qed

lemma begin_none:
  assumes "begin_compaction env command k = (None, k')"
  shows "\<exists>es. kernel_ext k k' es \<and> (\<forall>e \<in> set es. ev_Type e = ''context.compaction.deferred'' \<and> ev_CreatedAt e = fst (clock k)) \<and> length es \<le> 1"
proof (cases "loadEvents k")
  case (Inl err)
  then show ?thesis using assms by (intro exI [of _ "[]"]) (simp add: begin_compaction_def Let_def)
next
  case (Inr rows)
  obtain trigger t usage stability where run: "begun env command k rows (TrimSpace (xc_SessionID command)) t trigger usage stability = (None, k')"
    using begin_begun [OF Inr, of env command] assms by metis
  consider (same) "k' = k" | (deferred) c t where "k' = snd (appendContextCompactionEvent (TrimSpace (xc_SessionID command)) t c k)" "TrimSpace (cc_Status c) = ''deferred''"
    | (failed) s t c err where "append_turn_event (compaction_log_event ''context.compaction.started'' s t c) k = (Some err, k')"
  proof (cases "compaction_deferred env rows (TrimSpace (xc_SessionID command)) trigger t (xc_SourceInputTokens command) usage stability")
    case (Some c)
    then show ?thesis using run that(1,2) deferred_status [OF Some] by (auto simp: begun_def split: if_splits)
  next
    case None
    then show ?thesis using run that(1,3) by (auto simp: begun_def split: if_splits prod.splits option.splits)
  qed
  then show ?thesis
  proof cases
    case same
    then show ?thesis by (intro exI [of _ "[]"]) simp
  next
    case (deferred c t)
    then show ?thesis
      using deferred_append [OF prod.collapse [symmetric]] by (simp add: appendContextCompactionEvent_def)
  next
    case (failed s t c err)
    then show ?thesis by (cases rule: append_turn_event_split) (auto intro: exI [of _ "[]"])
  qed
qed

lemma after_failure_blocked:
  assumes "after_failure env s k k'" and "blocked s (k_rows k)" and "timely k" and "TrimSpace s = s"
  shows "blocked s (k_rows k') \<and> timely k'"
  using assms(1)
proof (induction rule: after_failure.induct)
  case (after_events k1 k2 es)
  then show ?case using blocked_append [OF _ assms(4)] by (simp add: kernel_ext_def)
next
  case (after_begin k1 command k2)
  from begin_none [OF after_begin.hyps(3)] obtain es where es: "kernel_ext k1 k2 es" "length es \<le> 1"
    "\<forall>e \<in> set es. ev_Type e = ''context.compaction.deferred'' \<and> ev_CreatedAt e = fst (clock k1)" by blast
  have "blocked s (k_rows k1 @ es)" using after_begin.IH es(3) by (intro blocked_append [OF _ assms(4)]) auto
  moreover have "timely k2"
  proof (cases es)
    case Nil
    then show ?thesis using es(1) after_begin.IH timely_ext_Nil by blast
  next
    case (Cons e fs)
    then have "es = [e]" using es(2) by simp
    then show ?thesis using es(1,3) after_begin.IH timely_ext_one [of k1 k2 e] by simp
  qed
  ultimately show ?case using es(1) by (simp add: kernel_ext_def)
qed (use assms(2,3) in simp)

text \<open>
  C39: under a policy with a retry backoff (a positive number of turns, as every policy with a context window gets;
  without a context window the default is zero and nothing is put off), one failed compaction that was asked for by hand ends the compaction
  of its session for good. The failure is stored without a turn, so the turns that end after it are never counted
  against the backoff: whatever happens later, no compaction of the session, automatic or by hand, gets as far as
  asking for a summary.
\<close>

theorem failed_manual_compaction_blocks:
  assumes "latestContextCompactionFailureAfterCompletion (k_rows k) s = Some ([], failure)" and "timely k"
    and "0 < cp_RetryBackoffTurns (cm_policy env)" and "TrimSpace s = s" and "after_failure env s k k'"
    and "TrimSpace (xc_SessionID command) = s" and "begin_compaction env command k' = (run, k'')"
  shows "run = None"
proof -
  have "blocked s (k_rows k)" using assms(1) by (auto simp: blocked_def)
  from after_failure_blocked [OF assms(5) this assms(2,4)] show ?thesis using blocked_begin assms(3,6,7) by blast
qed

section \<open>Samples\<close>

definition sample_final :: "nat \<Rightarrow> StoredEvent" where
  "sample_final n = no_event\<lparr>ev_EventID := ''e'' @ show_nat n, ev_SessionID := ''s1'', ev_TurnID := ''t'' @ show_nat n, ev_Type := ''model.final'',
     ev_CreatedAt := 1000 + int n, ev_Data := no_data\<lparr>ed_Final := Some \<lparr>fm_Text = ''answer'', fm_Model = [], fm_Usage = None\<rparr>\<rparr>\<rparr>"

definition sample_log :: "nat \<Rightarrow> kernel" where
  "sample_log n = sample_state (map sample_final [0..<n]) n n"

definition sample_compaction_env :: "string + ModelResponse \<Rightarrow> compaction_env" where
  "sample_compaction_env response = \<lparr>cm_policy = sample_policy 0, cm_round64 = (\<lambda>x. x), cm_text = (\<lambda>_. []), cm_complete = (\<lambda>_. response)\<rparr>"

definition sample_summary :: "string + ModelResponse" where
  "sample_summary = Inr \<lparr>ms_Reasoning = None, ms_Text = ''summary'', ms_Model = [], ms_ToolCalls = [], ms_Usage = None\<rparr>"

definition sample_compact :: ContextCompactionCommand where
  "sample_compact = \<lparr>xc_SessionID = ''s1'', xc_TriggeringTurnID = [], xc_Trigger = contextCompactionTriggerManual, xc_SourceInputTokens = 0, xc_SourceUsage = None\<rparr>"

lemma sample_log_step: "kernel_ext (sample_log n) (sample_log (Suc n)) [sample_final n]"
  by (simp add: sample_log_def kernel_ext_def sample_state_def sample_ledger_def)

lemma sample_log_timely: "timely (sample_log n)"
proof (induction n)
  case 0
  show ?case using sample_timely by (simp add: sample_log_def sample_kernel_state)
next
  case (Suc n)
  show ?case by (rule timely_ext_one [OF Suc sample_log_step]) (simp add: sample_final_def sample_log_def)
qed

lemma sample_session: "TrimSpace ''s1'' = ''s1''" "''s1'' \<noteq> []" "TrimSpace (xc_SessionID sample_compact) = ''s1''"
  by code_simp+

lemma sample_system: "compaction_system env ''s1'' (sample_log 3, None, [])"
proof -
  have step: "compaction_system env ''s1'' (sample_log (Suc n), None, [])"
    if "compaction_system env ''s1'' (sample_log n, None, [])" "other_event ''s1'' None (k_rows (sample_log n)) (sample_final n)" for n
    using system_other [OF that(1) sample_log_step sample_log_timely that(2)] .
  have "other_event ''s1'' None (k_rows (sample_log 0)) (sample_final 0)" "other_event ''s1'' None (k_rows (sample_log 1)) (sample_final 1)"
    "other_event ''s1'' None (k_rows (sample_log 2)) (sample_final 2)" by code_simp+
  moreover have "compaction_system env ''s1'' (sample_log 0, None, [])"
    by (rule system_start [OF sample_log_timely]) (simp add: sample_log_def)
  ultimately show ?thesis using step [of 0] step [of 1] step [of 2] by (simp add: numeral_2_eq_2 numeral_3_eq_3)
qed

definition begun_sample :: "string + ModelResponse \<Rightarrow> compaction_run option \<times> kernel" where
  "begun_sample response = begin_compaction (sample_compaction_env response) sample_compact (sample_log 3)"

definition ended_sample :: "string + ModelResponse \<Rightarrow> bool \<times> kernel" where
  "ended_sample response = (case begun_sample response of (Some run, k) \<Rightarrow> finish_compaction (sample_compaction_env response) run response k | (None, k) \<Rightarrow> (False, k))"

lemma ended_sample_system:
  assumes "case fst (begun_sample response) of None \<Rightarrow> False | Some _ \<Rightarrow> True"
  shows "\<exists>run :: compaction_run. compaction_system (sample_compaction_env response) ''s1'' (snd (ended_sample response), None, if fst (ended_sample response) then [cr_Region run] else [])"
proof -
  obtain run k where b: "begun_sample response = (Some run, k)" using assms by (cases "begun_sample response") (auto split: option.splits)
  have "compaction_system (sample_compaction_env response) ''s1'' (k, Some run, [])"
    by (rule system_begin [OF sample_system sample_session(3) b [unfolded begun_sample_def]])
  moreover have "finish_compaction (sample_compaction_env response) run response k = (fst (ended_sample response), snd (ended_sample response))"
    using b by (simp add: ended_sample_def)
  ultimately have "compaction_system (sample_compaction_env response) ''s1''
      (snd (ended_sample response), None, if fst (ended_sample response) then [] @ [cr_Region run] else [])" by (rule system_finish)
  then show ?thesis unfolding append_Nil by (rule exI)
qed

lemma length_one: "length [x] = 1"
  by simp

theorem compaction_loses_nothing_witness:
  "\<exists>k sources. length sources = 1 \<and> compaction_system (sample_compaction_env sample_summary) ''s1'' (k, None, sources) \<and>
     concat sources @ sh_Turns (sameSessionConversationHistoryProjection (k_rows k) ''s1'' []) = sameSessionCompletedConversationTurns (k_rows k) ''s1'' []"
proof -
  have "case fst (begun_sample sample_summary) of None \<Rightarrow> False | Some _ \<Rightarrow> True" by code_simp
  from ended_sample_system [OF this] obtain run :: compaction_run where
    sys: "compaction_system (sample_compaction_env sample_summary) ''s1'' (snd (ended_sample sample_summary), None, if fst (ended_sample sample_summary) then [cr_Region run] else [])" ..
  have "fst (ended_sample sample_summary)" by code_simp
  with sys have sys: "compaction_system (sample_compaction_env sample_summary) ''s1'' (snd (ended_sample sample_summary), None, [cr_Region run])" by simp
  show ?thesis by (intro exI conjI) (rule length_one, rule sys, rule compaction_loses_nothing [OF sys sample_session(1,2)])
qed

theorem failed_manual_compaction_blocks_witness:
  "fst (begin_compaction (sample_compaction_env (Inl ''offline'')) sample_compact (snd (ended_sample (Inl ''offline'')))) = None \<and>
     length (compaction_turns (sample_policy 0) (k_rows (snd (ended_sample (Inl ''offline'')))) ''s1'') = 1"
proof -
  let ?r = "Inl ''offline'' :: string + ModelResponse"
  have "case fst (begun_sample ?r) of None \<Rightarrow> False | Some _ \<Rightarrow> True" by code_simp
  from ended_sample_system [OF this] compaction_system_inv sample_session have "timely (snd (ended_sample ?r))" by fastforce
  moreover have "case latestContextCompactionFailureAfterCompletion (k_rows (snd (ended_sample ?r))) ''s1'' of None \<Rightarrow> False | Some (t, f) \<Rightarrow> t = []" by code_simp
  then obtain f where "latestContextCompactionFailureAfterCompletion (k_rows (snd (ended_sample ?r))) ''s1'' = Some ([], f)" by (auto split: option.splits)
  moreover have "0 < cp_RetryBackoffTurns (cm_policy (sample_compaction_env ?r))" by (simp add: sample_compaction_env_def sample_policy_def)
  ultimately have "fst (begin_compaction (sample_compaction_env ?r) sample_compact (snd (ended_sample ?r))) = None"
    using failed_manual_compaction_blocks [OF _ _ _ sample_session(1) after_start sample_session(3) prod.collapse [symmetric]] by blast
  moreover have "length (compaction_turns (sample_policy 0) (k_rows (snd (ended_sample ?r))) ''s1'') = 1" by code_simp
  ultimately show ?thesis by blast
qed

section \<open>The compaction inside the loop of a turn\<close>

text \<open>A compaction only adds events to the log, and none that ends a turn.\<close>

lemma quiet_append_ext: "quiet_append s k k' \<Longrightarrow> \<exists>es. kernel_ext k k' es \<and> (\<forall>e \<in> set es. \<not> ends_turn e)"
  unfolding quiet_append_def by (metis empty_iff list.set(1,2) insert_iff)

lemma unended_trans:
  assumes "\<exists>es. kernel_ext k k' es \<and> (\<forall>e \<in> set es. \<not> ends_turn e)" and "\<exists>es. kernel_ext k' k'' es \<and> (\<forall>e \<in> set es. \<not> ends_turn e)"
  shows "\<exists>es. kernel_ext k k'' es \<and> (\<forall>e \<in> set es. \<not> ends_turn e)"
proof -
  obtain es fs where "kernel_ext k k' es" "\<forall>e \<in> set es. \<not> ends_turn e" "kernel_ext k' k'' fs" "\<forall>e \<in> set fs. \<not> ends_turn e"
    using assms by blast
  then show ?thesis by (intro exI [of _ "es @ fs"]) (auto intro: kernel_ext_trans)
qed

lemma runContextCompaction_ext:
  "\<exists>es. kernel_ext k (runContextCompaction env command k) es \<and> (\<forall>e \<in> set es. \<not> ends_turn e)"
proof -
  obtain run k1 where begin_run: "begin_compaction env command k = (run, k1)" by fastforce
  then show ?thesis
  proof (cases rule: begin_compaction_cases [where s = "[]"])
    case idle
    then show ?thesis using begin_run quiet_append_ext by (simp add: runContextCompaction_def)
  next
    case (running r rows)
    obtain ok k2 where fin: "finish_compaction env r (summarizeContextWithProvider env (cr_Source r)) k1 = (ok, k2)" by fastforce
    then have k2: "runContextCompaction env command k = k2" using begin_run running(1) by (simp add: runContextCompaction_def)
    from fin have "\<exists>es. kernel_ext k1 k2 es \<and> (\<forall>e \<in> set es. \<not> ends_turn e)"
    proof (cases rule: finish_compaction_cases [where s = "[]"])
      case (failed k3)
      then show ?thesis using quiet_append_ext unended_trans by blast
    next
      case (completed e c)
      then show ?thesis by (intro exI [of _ "[e]"]) (simp add: ends_turn_def)
    qed
    then show ?thesis unfolding k2 using quiet_append_ext [OF running(2)] by (blast intro: unended_trans)
  qed
qed

text \<open>
  The loop of a turn asks of the compaction that follows a final answer no more than that. With the context and the
  compaction of these theories in place of its arguments, what is proved of the loop holds.
\<close>

lemma compaction_loop_ok:
  assumes "tools_ok (ml_tools env)"
  shows "loop_ok (env\<lparr>ml_context := providerContextProjectionForProvider xenv, ml_compact := maybeSubmitAutoContextCompaction cenv\<rparr>)"
proof -
  have none: "\<exists>es. kernel_ext k k es \<and> (\<forall>e \<in> set es. \<not> ends_turn e)" for k by (intro exI [of _ "[]"]) simp
  have "\<exists>es. kernel_ext k (maybeSubmitAutoContextCompaction cenv sid tid final k) es \<and> (\<forall>e \<in> set es. \<not> ends_turn e)" for sid tid final k
    using none runContextCompaction_ext by (simp add: maybeSubmitAutoContextCompaction_def Let_def split: option.split)
  then show ?thesis using assms by (simp add: loop_ok_def)
qed

end
