(* ===== verification/Spec2Isabelle.thy ===== *)
theory Spec2Isabelle
  imports Work_Registry Task_Graph_Properties Runtime_Policy Authority_Gate Tool_Scheduling Output_Capture Agent_Invocation
    Sqlite_Ledger_Recovery Memory_Review Model_Loop Approvals Job_Life Job_Output
    Connector_Delivery Connector_Intake Workflow Context_Compaction
begin

text \<open>
  Verification of the Genesis kernel (\<^verbatim>\<open>src/internal/kernel\<close>), an event-sourced runtime for language-model
  agents. All lasting state is one append-only ledger of events. Every component reads its state by
  replaying the ledger (a projection), decides, and appends at most a few events; what is not in the ledger
  is a table of active turns, the state of a running turn and the policies a kernel was created with.

  \<^bold>\<open>How the parts fit together.\<close> A request to run a turn is admitted (\<open>Turn_Log\<close>): the session must be free
  (\<open>Active_Turns\<close>) and a repeated submission of an idempotency key is answered from the log. The turn runs as
  a loop (\<open>Model_Loop\<close>) over provider steps (\<open>Provider_Step\<close>) and tool rounds. The calls of a round are stored
  (\<open>Tool_Rounds\<close>), planned into batches (\<open>Tool_Scheduling\<close>), authorized (\<open>Authority_Gate\<close>) and executed
  (\<open>Tool_Execution\<close>) under a guard against repetition (\<open>Loop_Guard\<close>); the output of a shell is cut to size
  (\<open>Output_Capture\<close>); a blocked shell operation asks for an approval (\<open>Approvals\<close>). Budgets, timeouts and state
  axes are the policies of \<open>Runtime_Policy\<close>. Beside the turns stand the registries that share the ledger:
  works (\<open>Work_Registry\<close>), task graphs (\<open>Task_Graph\<close>), agent invocations and their grants
  (\<open>Agent_Invocation\<close>), managed jobs (\<open>Jobs\<close>) and reviewed memories (\<open>Memory_Review\<close>). What a step of the model sees is
  built from the log of its session (\<open>Model_Context\<close>); when it grows too large the older turns are replaced by a summary
  (\<open>Context_Compaction\<close>). Readers see the ledger through \<open>Inspection\<close>. The ledger itself is a file of frames with a
  SQLite index (\<open>Sqlite_Ledger\<close>). Outside of the kernel two applications (\<^verbatim>\<open>src/internal/applications\<close>) are clients
  of it: connectors read external events from sources (\<open>Connector_Source\<close>, \<open>Connector_Intake\<close>), turn them into turns
  (\<open>Connector_Inbound\<close>) and deliver answers from an outbox (\<open>Connector_Outbox\<close>, \<open>Connector_Delivery\<close>), and workflows are compiled from their configuration (\<open>Workflow\<close>).

  \<^bold>\<open>Shared theories.\<close>
  \<^item> \<open>Go_Prelude\<close>, \<open>Go_Text\<close>: what the source uses of Go: errors with wrapping (\<open>go_error\<close>, \<open>errors_Is\<close>), results
    as sums (\<open>res\<close>, \<open>bind_res\<close>), maps as association lists in insertion order whose iteration order is a
    parameter (\<open>go_map\<close>), \<open>TrimSpace\<close> over the bytes of a UTF-8 string, case mapping and searching in text.
  \<^item> \<open>Event_Types\<close>: the records of \<^verbatim>\<open>event_types.go\<close> and of the payloads of events.
  \<^item> \<open>Kernel_Core\<close>: ledger interface, clock, identifiers, \<open>appendEvent\<close>, \<open>loadEvents\<close> and the validators
    (\<^verbatim>\<open>ledger.go\<close>, \<^verbatim>\<open>id.go\<close>, \<^verbatim>\<open>kernel.go\<close>, \<^verbatim>\<open>kernel_refs.go\<close>). The locales \<open>event_ledger\<close> and
    \<open>stored_event_ledger\<close> state what clients rely on of a ledger, \<open>keyed_log\<close> what a projection of facts with
    keys computes from a log in any order. \<open>kernel_ext k k' es\<close> says that \<open>k'\<close> is \<open>k\<close> with the events \<open>es\<close> appended.
  \<^item> \<open>Timed_Log\<close>: the locale \<open>timed_projection\<close> for projections that depend on the order of events: while the
    clock does not step back, a component reads its events in the order it appended them.
  \<^item> \<open>Sample_Kernel\<close>: a concrete kernel on which the witnesses evaluate the operations.

  \<^bold>\<open>Components, their sources and their results.\<close>
  \<^item> \<open>Work_Registry\<close> (\<^verbatim>\<open>work.go\<close>): the projection succeeds in every reachable state and has exactly the
    submitted works; submission is idempotent; a cancellation is final. Holds in any order of replay.
  \<^item> \<open>Task_Graph\<close>, \<open>Graph_DFS\<close>, \<open>Task_Graph_Correct\<close>, \<open>Task_Graph_Runs\<close>, \<open>Task_Graph_Properties\<close>
    (\<^verbatim>\<open>task_graph.go\<close>): the search for cycles is correct; reachable graphs are acyclic and well formed; a shown
    status says what the predecessors allow; finished nodes and bindings never change; an invocation is bound
    to at most one node; a node added at a time before the creation of its graph makes all graphs unreadable.
  \<^item> \<open>Agent_Invocation\<close> (\<^verbatim>\<open>agent_invocation.go\<close>): delegation never widens authority at any depth, admission is
    idempotent, worker admissions stay within the limits.
  \<^item> \<open>Authority_Gate\<close> (\<^verbatim>\<open>authority_gate.go\<close>, \<^verbatim>\<open>shell.go\<close>): exactly when a tool is authorized.
  \<^item> \<open>Runtime_Policy\<close> (\<^verbatim>\<open>budget_lease.go\<close>, \<^verbatim>\<open>shell_timeout_policy.go\<close>, \<^verbatim>\<open>state_axes.go\<close>): bounds of the budget lease
    and of shell timeouts; consistency of the state axes.
  \<^item> \<open>Tool_Scheduling\<close> (\<^verbatim>\<open>toolruntime/scheduling.go\<close>, \<^verbatim>\<open>tool_scheduling.go\<close>): batches keep the order of the calls
    and run in parallel only what is a pure read.
  \<^item> \<open>Output_Capture\<close> (\<^verbatim>\<open>shell.go\<close>): the captured text does not depend on the chunks and keeps its bound.
  \<^item> \<open>Sqlite_Ledger\<close>, \<open>Sqlite_Ledger_Correct\<close>, \<open>Sqlite_Ledger_Recovery\<close> (\<^verbatim>\<open>sqlite_ledger.go\<close>): the ledger on disk
    refines the abstract ledger under every pattern of faults; a restart recovers exactly the written frames;
    torn writes and oversized events make it corrupt; references stay in the directory of the ledger.
  \<^item> \<open>Memory_Review\<close> (\<^verbatim>\<open>memory.go\<close>): the projection is total and sound, candidates move only along the review
    life cycle, decisions are final.
  \<^item> \<open>Active_Turns\<close> (\<^verbatim>\<open>turn_interrupt.go\<close>): in every interleaving at most one holder per session; an interruption
    reaches exactly the holder.
  \<^item> \<open>Turn_Log\<close>, \<open>Tool_Rounds\<close> (\<^verbatim>\<open>kernel.go\<close>): a key names one turn; the scan for a repeated submission agrees with
    its definition by cases; a tool round is read back from the log as it was appended.
  \<^item> \<open>Provider_Step\<close> (\<^verbatim>\<open>kernel.go\<close>, \<^verbatim>\<open>modelgateway/resilience.go\<close>): a provider step ends within its bounds, and its
    outcome and stored attempts agree.
  \<^item> \<open>Loop_Guard\<close> (\<^verbatim>\<open>tool_loop_guard.go\<close>): the counters of the guard are those of the history of the turn.
  \<^item> \<open>Tool_Execution\<close> (\<^verbatim>\<open>tool_execution.go\<close>): results are stored in the order of the calls under every schedule.
  \<^item> \<open>Model_Loop\<close> (\<^verbatim>\<open>kernel.go\<close>): the loop ends within the rounds of its lease, and a turn ends at most once, and once
    when it returns without an error; reasoning with a blank text leaves it without an end.
  \<^item> \<open>Approvals\<close> (\<^verbatim>\<open>approval.go\<close>): an approval is decided once and lets through exactly what it was asked for.
  \<^item> \<open>Jobs\<close>, \<open>Job_Life\<close>, \<open>Job_Output\<close> (\<^verbatim>\<open>jobs.go\<close>, \<^verbatim>\<open>managed_job_executor.go\<close>): the projection of jobs, their admission
    and their end. In every interleaving a job ends at most once, a start after a crash ends exactly the jobs that were
    lost, and the snapshots of the output are those of what was written so far. The process is an argument.
  \<^item> \<open>Model_Context\<close> (\<^verbatim>\<open>model_context.go\<close>, \<^verbatim>\<open>observations.go\<close>, the readers of \<^verbatim>\<open>kernel.go\<close>): the parts of a request to the
    model. The parts with a budget keep to it, the end of a job is reported once, and nothing of another session is seen.
  \<^item> \<open>Context_Compaction\<close> (\<^verbatim>\<open>context_compaction.go\<close>, \<^verbatim>\<open>context_compaction_control.go\<close>): no turn is lost and none is
    summarized twice in any interleaving; the recent turns are kept when they have accounts, and fewer are when one has
    none; with a retry backoff a failed compaction on request blocks the session. A compaction is what the loop of a turn asks of it
    (\<open>compaction_loop_ok\<close>).
  \<^item> \<open>Connector_Outbox\<close>, \<open>Connector_Delivery\<close>, \<open>Connector_Inbound\<close> (\<^verbatim>\<open>connector_runtime\<close>): what is sent stays sent, no item is
    removed, attempts are bounded while operations do not overlap and the file has no faults, an external event is
    submitted once; two deliveries at once may send twice.
  \<^item> \<open>Connector_Source\<close>, \<open>Connector_Intake\<close> (\<^verbatim>\<open>source_command_adapter.go\<close>, \<^verbatim>\<open>source_command_intake.go\<close>, the stores of
    sources): only admitted events reach the handler, a verified one only with evidence in the store; a cursor never
    runs ahead of the events; an attempt settles its run; retries are bounded; a padded status escapes its checks.
  \<^item> \<open>Workflow\<close> (\<^verbatim>\<open>workflowruntime/workflow.go\<close>): an accepted workflow has one next step for every outcome and its cycles
    have a limit; the result does not depend on the iteration order of maps when the keys differ by more than white
    space; a second node whose key differs in white space only is accepted or refused depending on that order.
  \<^item> \<open>Inspection\<close> (\<^verbatim>\<open>projections.go\<close>, \<^verbatim>\<open>evidence_redaction.go\<close>): the call identifiers shown hold no credential.

  \<^bold>\<open>Bounds and termination.\<close> Loops over data are structural recursion; the depth-first search, the provider loop, the model
  loop and the loops over text are \<open>function\<close>s with a termination proof (unvisited nodes; attempts and repairs that are
  left; rounds of the lease that are left; bytes that are left). Two functions on text count down the length of the text
  instead, \<open>fields_of\<close> and the repetition \<open>many_ends\<close> of a pattern: each step takes at least one byte, so that the
  length is enough. Times are the nanoseconds since the zero time as \<open>int\<close>, counters are \<open>nat\<close> or \<open>int\<close>: the source
  keeps both in 64 bits and does not come near their limits.

  \<^bold>\<open>What is a parameter.\<close> The readings of the clock, the ULID library, Go's map iteration order, faults of disk and
  database, the JSON codec and SHA-256, the provider and the tools behind the gateway, the schedule of concurrent
  workers, the resolution of configuration files, the hydrated fragments, skills and snapshots of a submitted turn,
  the rounding of floating-point products and the processes of jobs are arguments of the definitions. The model loop takes
  the context and the compaction as arguments, which \<open>compaction_loop_ok\<close> fills in. What the theorems rely on of them are named hypotheses (\<open>env_ok\<close>, \<open>gateway_ok\<close>, \<open>tools_ok\<close>,
  \<open>loop_ok\<close>, a clock that does not step back where the order of the log matters), each with a witness.

  \<^bold>\<open>What is not modelled.\<close> Locks are modelled as the atomicity of the sections they protect; a lock file is what
  makes one operation on a state file atomic, and its recovery from a dead process is left out. Four operations are one
  step of the model and more than one section of the source: the binding of a task graph node and the reduction that
  follows it, the creation of a memory candidate (which takes no lock), the interruption of a turn and the cancellation
  it triggers, and the decision of an approval and its effect. A failed index transaction of the ledger is taken as
  rolled back. The start of a job from a tool round is its error only; its events are those of \<open>Jobs\<close>. Delivered
  observations may be stored with no identifier, which the source skips. Streaming, the processes behind shells, jobs,
  sources and agent runs, resources and source snapshots, the discovery of skills, the timeline for the user interface,
  the debug capture of sessions and code intelligence are not modelled: they are file, process and network access, or
  views without a contract of their own. The HTTP transport, the adapters of providers, the command line and the desktop
  application are outside as well.
\<close>

end
